(* ===== verification/Prelude.thy ===== *)
theory Prelude
  imports Main "HOL-Library.Word" "HOL-Library.Multiset"
begin

text \<open>Shared vocabulary of the development: the status codes and time-outs of
  libs/libosa/include/osa.h, the theorem collections the component theories
  extend, and the generic facts on rings (arrays indexed modulo their length)
  that the queues and the frame store use.\<close>

section \<open>Theorem collections\<close>

named_theorems const_defs \<open>the preprocessor constants and enumerators, unfolded\<close>
named_theorems pass_simps \<open>one pass of each blocking operation, by branch\<close>

section \<open>Constants of osa.h\<close>

definition OSA_SOK :: int where [const_defs]: "OSA_SOK = 0"
definition OSA_EFAIL :: int where [const_defs]: "OSA_EFAIL = -1"
definition OSA_TIMEOUT_NONE :: nat where [const_defs]: "OSA_TIMEOUT_NONE = 0"
definition OSA_TIMEOUT_FOREVER :: nat where [const_defs]: "OSA_TIMEOUT_FOREVER = 2 ^ 32 - 1"

lemma OSA_SOK_neq_EFAIL [simp]: "OSA_SOK \<noteq> OSA_EFAIL" "OSA_EFAIL \<noteq> OSA_SOK"
  by (simp_all add: const_defs)

lemma FOREVER_neq_NONE [simp]:
  "OSA_TIMEOUT_FOREVER \<noteq> OSA_TIMEOUT_NONE" "OSA_TIMEOUT_NONE \<noteq> OSA_TIMEOUT_FOREVER"
  by (simp_all add: const_defs)

section \<open>Signed 32 bit numbers\<close>

text \<open>What an \<open>int\<close> of the code holds after \<open>x\<close> has been computed into it.\<close>

definition off32 :: "int \<Rightarrow> int" where
  "off32 x = (let y = x mod 2 ^ 32 in if y < 2 ^ 31 then y else y - 2 ^ 32)"

lemma off32_id: "0 \<le> x \<Longrightarrow> x < 2 ^ 31 \<Longrightarrow> off32 x = x"
  by (simp add: off32_def)

lemma off32_cong: "x mod 2 ^ 32 = y mod 2 ^ 32 \<Longrightarrow> off32 x = off32 y"
  by (simp only: off32_def)

lemma off32_mod: "off32 x mod 2 ^ 32 = x mod 2 ^ 32"
proof -
  have "(x mod 2 ^ 32 - 2 ^ 32) mod 2 ^ 32 = x mod (2 ^ 32 :: int)" by (simp add: mod_diff_left_eq)
  then show ?thesis by (simp add: off32_def Let_def)
qed

text \<open>It makes no difference whether parts of a sum have wrapped before.\<close>

lemma off32_add: "off32 (x + off32 y) = off32 (x + y)" "off32 (off32 y + x) = off32 (y + x)"
  by (rule off32_cong, metis off32_mod mod_add_right_eq, rule off32_cong, metis off32_mod mod_add_left_eq)

section \<open>Rings\<close>

text \<open>The cells of an array of length \<open>n\<close> read from \<open>rd\<close> on, wrapping at the end.\<close>

definition ring_list :: "'a list \<Rightarrow> nat \<Rightarrow> nat \<Rightarrow> nat \<Rightarrow> 'a list" where
  "ring_list q rd n cnt = map (\<lambda>i. q ! ((rd + i) mod n)) [0..<cnt]"

lemma ring_list_0 [simp]: "ring_list q rd n 0 = []"
  by (simp add: ring_list_def)

lemma length_ring_list [simp]: "length (ring_list q rd n cnt) = cnt"
  by (simp add: ring_list_def)

lemma ring_shift_inj:
  fixes rd i j n :: nat
  assumes "i < n" "j < n" "(rd + i) mod n = (rd + j) mod n"
  shows "i = j"
proof -
  have "(rd + i) mod n = (rd + j) mod n \<longleftrightarrow> i mod n = j mod n"
    by (simp add: mod_eq_dvd_iff_nat nat_mod_eq_iff)
  with assms show ?thesis by simp
qed

lemma ring_list_put:
  assumes "cnt < n" "length q = n"
  shows "ring_list (q[(rd + cnt) mod n := v]) rd n (Suc cnt) = ring_list q rd n cnt @ [v]"
proof -
  have other: "q[(rd + cnt) mod n := v] ! ((rd + i) mod n) = q ! ((rd + i) mod n)" if "i < cnt" for i
    using ring_shift_inj [of i n cnt rd] that assms by (metis less_trans nat_neq_iff nth_list_update_neq)
  have last: "q[(rd + cnt) mod n := v] ! ((rd + cnt) mod n) = v"
    using assms by simp
  show ?thesis
    unfolding ring_list_def using other last by simp
qed

lemma ring_list_get:
  assumes "0 < cnt" "rd < n"
  shows "ring_list q rd n cnt = q ! rd # ring_list q ((rd + 1) mod n) n (cnt - 1)"
proof -
  have "[0..<cnt] = 0 # map Suc [0..<cnt - 1]"
    using assms by (simp add: map_Suc_upt upt_conv_Cons)
  then show ?thesis
    using assms by (simp add: ring_list_def comp_def mod_simps)
qed

lemma ring_wr_step:
  fixes rd cnt n :: nat
  shows "((rd + cnt) mod n + 1) mod n = (rd + Suc cnt) mod n"
  by (simp add: mod_simps)

lemma ring_rd_step:
  fixes rd cnt n :: nat
  assumes "0 < cnt"
  shows "((rd + 1) mod n + (cnt - 1)) mod n = (rd + cnt) mod n"
proof -
  have "((rd + 1) mod n + (cnt - 1)) mod n = (rd + 1 + (cnt - 1)) mod n"
    by (rule mod_add_left_eq)
  with assms show ?thesis by simp
qed

lemma ring_list_mod: "ring_list q (rd mod n) n cnt = ring_list q rd n cnt"
  by (simp add: ring_list_def mod_simps)

lemma ring_list_update:
  assumes "j < cnt" "cnt \<le> n" "length q = n"
  shows "ring_list (q[(rd + j) mod n := x]) rd n cnt = (ring_list q rd n cnt)[j := x]"
proof (rule nth_equalityI)
  fix i assume "i < length (ring_list (q[(rd + j) mod n := x]) rd n cnt)"
  then have i: "i < cnt" by simp
  show "ring_list (q[(rd + j) mod n := x]) rd n cnt ! i = (ring_list q rd n cnt)[j := x] ! i"
  proof (cases "i = j")
    case True
    with assms i show ?thesis by (simp add: ring_list_def)
  next
    case False
    with assms i ring_shift_inj [of i n j rd] have "(rd + i) mod n \<noteq> (rd + j) mod n" by auto
    with False assms i show ?thesis by (simp add: ring_list_def nth_list_update)
  qed
qed simp

text \<open>Writing the oldest cell of a full ring and moving on makes it the newest.\<close>

lemma ring_list_rotate:
  assumes "0 < n" "length q = n"
  shows "ring_list (q[rd mod n := x]) (Suc rd) n n = tl (ring_list q rd n n) @ [x]"
proof (rule nth_equalityI)
  show "length (ring_list (q[rd mod n := x]) (Suc rd) n n) = length (tl (ring_list q rd n n) @ [x])"
    using assms by simp
  fix i assume "i < length (ring_list (q[rd mod n := x]) (Suc rd) n n)"
  then have i: "i < n" by simp
  show "ring_list (q[rd mod n := x]) (Suc rd) n n ! i = (tl (ring_list q rd n n) @ [x]) ! i"
  proof (cases "Suc i < n")
    case True
    with ring_shift_inj [of "Suc i" n 0 rd] assms have "(rd + Suc i) mod n \<noteq> rd mod n" by auto
    moreover from True have "i < n - Suc 0" "[0..<n] ! Suc i = Suc i" by simp_all
    ultimately show ?thesis using i by (simp add: ring_list_def nth_append nth_tl)
  next
    case False
    with i have last: "Suc i = n" by simp
    then have "(Suc rd + i) mod n = rd mod n" by (metis add_Suc_shift mod_add_self2)
    moreover have "i = n - Suc 0" using last by simp
    ultimately show ?thesis using assms by (simp add: ring_list_def nth_append)
  qed
qed

lemma set_ring_list:
  assumes "0 < n" "length q = n"
  shows "set (ring_list q rd n n) = set q"
proof -
  have "(\<lambda>i. (rd + i) mod n) ` {..<n} = {..<n}"
    by (rule endo_inj_surj) (use assms in \<open>auto intro!: inj_onI dest: ring_shift_inj\<close>)
  then have "(!) q ` (\<lambda>i. (rd + i) mod n) ` {..<n} = (!) q ` {..<n}"
    by simp
  moreover have "set (ring_list q rd n n) = (!) q ` (\<lambda>i. (rd + i) mod n) ` {..<n}"
    by (simp add: ring_list_def image_image atLeast0LessThan)
  moreover have "set q = (!) q ` {..<n}"
    using assms(2) nth_image [of n q] by (simp add: atLeast0LessThan)
  ultimately show ?thesis by simp
qed

section \<open>Segments of a block ring\<close>

text \<open>The numbers of \<open>len\<close> consecutive blocks from \<open>a\<close> on, in a ring of \<open>n\<close>.\<close>

definition seg :: "nat \<Rightarrow> nat \<Rightarrow> nat \<Rightarrow> nat list" where
  "seg n a len = map (\<lambda>i. (a + i) mod n) [0..<len]"

lemma seg_0 [simp]: "seg n a 0 = []"
  by (simp add: seg_def)

lemma length_seg [simp]: "length (seg n a len) = len"
  by (simp add: seg_def)

lemma seg_mod: "seg n (a mod n) len = seg n a len"
  by (simp add: seg_def mod_simps)

lemma seg_add: "seg n a (k + l) = seg n a k @ seg n (a + k) l"
  by (rule nth_equalityI) (auto simp: seg_def nth_append)

lemma seg_add_n [simp]: "seg n (a + n) len = seg n a len" "seg n (n + a) len = seg n a len"
  using seg_mod [of n "a + n" len] seg_mod [of n a len] seg_mod [of n "n + a" len] by simp_all

lemma seg_upt: "a + len \<le> n \<Longrightarrow> seg n a len = [a..<a + len]"
  by (rule nth_equalityI) (auto simp: seg_def)

lemma distinct_seg: "len \<le> n \<Longrightarrow> distinct (seg n a len)"
  unfolding seg_def distinct_map
  by (auto intro!: inj_onI dest!: ring_shift_inj [of _ n _ a, rotated 2])

end
