(* ===== verification/Osa_Cond.thy ===== *)
theory Osa_Cond
  imports Prelude
begin

text \<open>The mutex-and-condition-variable protocol that the queues, message
  queues and semaphores of libosa share.  One trip round a
  \<open>while(1) {... pthread_cond_wait ...}\<close> loop, made with the mutex held, is a
  \<open>pass\<close>: it either leaves the critical section with a result, a new state and
  at most one \<open>pthread_cond_signal\<close>, or goes to sleep on a condition variable.
  The step relation below interleaves the passes of any number of threads;
  the locale \<open>monitor_contract\<close> states what an object has to promise for no
  wake-up to be lost, and proves that none is.\<close>

section \<open>Passes\<close>

datatype ('r, 's, 'c) pass = Return 'r 's "'c option" | Wait 'c

text \<open>A caller that is alone and would sleep has no result.\<close>

fun pass_result :: "('r, 's, 'c) pass \<Rightarrow> ('r \<times> 's) option" where
  "pass_result (Return r s sig) = Some (r, s)"
| "pass_result (Wait c) = None"

fun map_ret :: "('r \<Rightarrow> 'q) \<Rightarrow> ('r, 's, 'c) pass \<Rightarrow> ('q, 's, 'c) pass" where
  "map_ret f (Return r s sig) = Return (f r) s sig"
| "map_ret f (Wait c) = Wait c"

lemma map_ret_Wait_iff [simp]: "map_ret f p = Wait c \<longleftrightarrow> p = Wait c"
  by (cases p) auto

lemma map_ret_Return_iff:
  "map_ret f p = Return q s sig \<longleftrightarrow> (\<exists>r. p = Return r s sig \<and> q = f r)"
  by (cases p) auto

text \<open>A pass on a part of a larger object.\<close>

fun lift_pass :: "('s \<Rightarrow> 't) \<Rightarrow> ('c \<Rightarrow> 'd) \<Rightarrow> ('r, 's, 'c) pass \<Rightarrow> ('r, 't, 'd) pass" where
  "lift_pass f g (Return r s sig) = Return r (f s) (map_option g sig)"
| "lift_pass f g (Wait c) = Wait (g c)"

section \<open>Threads round one mutex\<close>

text \<open>Threads asleep on a condition, and threads that have been woken and still
  have to take the mutex again, each with the call it is in.\<close>

record ('s, 'c, 'op) monitor =
  mon_state :: 's
  mon_asleep :: "('c \<times> 'op) multiset"
  mon_woken :: "('c \<times> 'op) multiset"

definition on_cond :: "'c \<Rightarrow> ('c \<times> 'op) multiset \<Rightarrow> nat" where
  "on_cond c M = size (filter_mset (\<lambda>p. fst p = c) M)"

definition mon_wake :: "'c \<times> 'op \<Rightarrow> ('s, 'c, 'op) monitor \<Rightarrow> ('s, 'c, 'op) monitor" where
  "mon_wake p m = m\<lparr>mon_asleep := mon_asleep m - {#p#}, mon_woken := add_mset p (mon_woken m)\<rparr>"

text \<open>\<open>pthread_cond_signal\<close> wakes one of the threads that sleep on the
  condition, and is lost when there is none.\<close>

inductive mon_signal :: "'c option \<Rightarrow> ('s, 'c, 'op) monitor \<Rightarrow> ('s, 'c, 'op) monitor \<Rightarrow> bool" where
  signal_none: "mon_signal None m m"
| signal_lost: "on_cond c (mon_asleep m) = 0 \<Longrightarrow> mon_signal (Some c) m m"
| signal_wake: "(c, op) \<in># mon_asleep m \<Longrightarrow> mon_signal (Some c) m (mon_wake (c, op) m)"

inductive mon_enter :: "('op \<Rightarrow> 's \<Rightarrow> ('r, 's, 'c) pass) \<Rightarrow> 'op
    \<Rightarrow> ('s, 'c, 'op) monitor \<Rightarrow> ('s, 'c, 'op) monitor \<Rightarrow> bool" for body where
  enter_return: "body op (mon_state m) = Return r s' sig
    \<Longrightarrow> mon_signal sig (m\<lparr>mon_state := s'\<rparr>) m' \<Longrightarrow> mon_enter body op m m'"
| enter_wait: "body op (mon_state m) = Wait c
    \<Longrightarrow> mon_enter body op m (m\<lparr>mon_asleep := add_mset (c, op) (mon_asleep m)\<rparr>)"

text \<open>A thread makes a new call, a woken thread takes the mutex and runs its next
  pass, or a sleeper wakes up without having been signalled (POSIX allows it).\<close>

inductive mon_step :: "('op \<Rightarrow> 's \<Rightarrow> ('r, 's, 'c) pass)
    \<Rightarrow> ('s, 'c, 'op) monitor \<Rightarrow> ('s, 'c, 'op) monitor \<Rightarrow> bool" for body where
  step_call: "mon_enter body op m m' \<Longrightarrow> mon_step body m m'"
| step_resume: "(c, op) \<in># mon_woken m
    \<Longrightarrow> mon_enter body op (m\<lparr>mon_woken := mon_woken m - {#(c, op)#}\<rparr>) m' \<Longrightarrow> mon_step body m m'"
| step_spurious: "p \<in># mon_asleep m \<Longrightarrow> mon_step body m (mon_wake p m)"

definition mon_init :: "'s \<Rightarrow> ('s, 'c, 'op) monitor" where
  "mon_init s = \<lparr>mon_state = s, mon_asleep = {#}, mon_woken = {#}\<rparr>"

inductive mon_reach :: "('op \<Rightarrow> 's \<Rightarrow> ('r, 's, 'c) pass) \<Rightarrow> 's \<Rightarrow> ('s, 'c, 'op) monitor \<Rightarrow> bool"
  for body s0 where
  reach_init: "mon_reach body s0 (mon_init s0)"
| reach_step: "mon_reach body s0 m \<Longrightarrow> mon_step body m m' \<Longrightarrow> mon_reach body s0 m'"

inductive_cases mon_signalE: "mon_signal sig m m'"
inductive_cases mon_enterE: "mon_enter body op m m'"
inductive_cases mon_stepE: "mon_step body m m'"

lemma mon_wake_simps [simp]:
  "mon_state (mon_wake p m) = mon_state m"
  "mon_asleep (mon_wake p m) = mon_asleep m - {#p#}"
  "mon_woken (mon_wake p m) = add_mset p (mon_woken m)"
  by (simp_all add: mon_wake_def)

lemma mon_init_simps [simp]:
  "mon_state (mon_init s) = s" "mon_asleep (mon_init s) = {#}" "mon_woken (mon_init s) = {#}"
  by (simp_all add: mon_init_def)

lemma on_cond_simps [simp]:
  "on_cond c {#} = 0"
  "on_cond c (add_mset p M) = (if fst p = c then Suc (on_cond c M) else on_cond c M)"
  by (simp_all add: on_cond_def)

lemma on_cond_diff:
  assumes "p \<in># M"
  shows "on_cond c M = (if fst p = c then Suc (on_cond c (M - {#p#})) else on_cond c (M - {#p#}))"
  using on_cond_simps(2) [of c p "M - {#p#}"] assms by (simp del: on_cond_simps)

lemma on_cond_pos: "0 < on_cond c M \<longleftrightarrow> (\<exists>op. (c, op) \<in># M)"
proof -
  have "0 < on_cond c M \<longleftrightarrow> filter_mset (\<lambda>p. fst p = c) M \<noteq> {#}"
    unfolding on_cond_def by (rule nonempty_has_size [symmetric])
  also have "\<dots> \<longleftrightarrow> set_mset (filter_mset (\<lambda>p. fst p = c) M) \<noteq> {}"
    by (simp only: set_mset_eq_empty_iff)
  finally show ?thesis by auto
qed

section \<open>The contract\<close>

text \<open>\<open>avail c s\<close> counts what the threads on condition \<open>c\<close> wait for (elements,
  free slots, units), \<open>waits op c\<close> tells the calls that may sleep there.\<close>

locale monitor_contract =
  fixes body :: "'op \<Rightarrow> 's \<Rightarrow> ('r, 's, 'c) pass"
    and avail :: "'c \<Rightarrow> 's \<Rightarrow> nat"
    and waits :: "'op \<Rightarrow> 'c \<Rightarrow> bool"
    and good :: "'s \<Rightarrow> bool"
  assumes wait_none: "good s \<Longrightarrow> body op s = Wait c \<Longrightarrow> avail c s = 0 \<and> waits op c"
    and return_good: "good s \<Longrightarrow> body op s = Return r s' sig \<Longrightarrow> good s'"
    and return_avail: "good s \<Longrightarrow> body op s = Return r s' sig \<Longrightarrow>
      avail c s' + (if waits op c then 1 else 0) \<le> avail c s + (if sig = Some c then 1 else 0)"
    and waits_unique: "waits op c \<Longrightarrow> waits op c' \<Longrightarrow> c = c'"
begin

definition awake_enough :: "('s, 'c, 'op) monitor \<Rightarrow> bool" where
  "awake_enough m \<longleftrightarrow> good (mon_state m)
    \<and> (\<forall>c op. (c, op) \<in># mon_asleep m + mon_woken m \<longrightarrow> waits op c)
    \<and> (\<forall>c. 0 < on_cond c (mon_asleep m) \<longrightarrow> avail c (mon_state m) \<le> on_cond c (mon_woken m))"

text \<open>The invariant with a debit: a resumed thread has left the woken set.\<close>

definition awake_debit :: "'op \<Rightarrow> 'c option \<Rightarrow> ('s, 'c, 'op) monitor \<Rightarrow> bool" where
  "awake_debit op d m \<longleftrightarrow> good (mon_state m)
    \<and> (\<forall>c op. (c, op) \<in># mon_asleep m + mon_woken m \<longrightarrow> waits op c)
    \<and> (\<forall>c. 0 < on_cond c (mon_asleep m) \<longrightarrow>
          avail c (mon_state m) \<le> on_cond c (mon_woken m) + (if d = Some c then 1 else 0))
    \<and> (\<forall>c. d = Some c \<longrightarrow> waits op c)"

lemma signal_awake:
  assumes "mon_signal sig m m'" "good (mon_state m)"
    and "\<And>c op. (c, op) \<in># mon_asleep m + mon_woken m \<Longrightarrow> waits op c"
    and "\<And>c. 0 < on_cond c (mon_asleep m)
      \<Longrightarrow> avail c (mon_state m) \<le> on_cond c (mon_woken m) + (if sig = Some c then 1 else 0)"
  shows "awake_enough m'"
  using assms(1)
proof (cases rule: mon_signal.cases)
  case signal_none
  with assms show ?thesis by (auto simp: awake_enough_def)
next
  case (signal_lost c)
  show ?thesis unfolding awake_enough_def
  proof (intro conjI allI impI)
    fix c' assume "0 < on_cond c' (mon_asleep m')"
    with signal_lost assms(4) [of c'] show "avail c' (mon_state m') \<le> on_cond c' (mon_woken m')"
      by (cases "c' = c") auto
  qed (use signal_lost assms in auto)
next
  case (signal_wake c op)
  note diff = on_cond_diff [OF signal_wake(3)]
  show ?thesis unfolding awake_enough_def
  proof (intro conjI allI impI)
    fix c' assume "0 < on_cond c' (mon_asleep m')"
    with signal_wake assms(4) [of c'] diff [of c']
    show "avail c' (mon_state m') \<le> on_cond c' (mon_woken m')"
      by (auto split: if_splits)
  next
    fix c' op' assume "(c', op') \<in># mon_asleep m' + mon_woken m'"
    with signal_wake have "(c', op') \<in># mon_asleep m + mon_woken m"
      by (auto dest: in_diffD)
    then show "waits op' c'" by (rule assms(3))
  qed (use signal_wake assms in auto)
qed

lemma enter_awake:
  assumes "mon_enter body op m m'" "awake_debit op d m"
  shows "awake_enough m'"
  using assms(1)
proof (cases rule: mon_enter.cases)
  case (enter_return r s' sig)
  have good: "good (mon_state m)" using assms(2) by (simp add: awake_debit_def)
  show ?thesis
  proof (rule signal_awake [OF enter_return(2)])
    fix c assume "0 < on_cond c (mon_asleep (m\<lparr>mon_state := s'\<rparr>))"
    then have "avail c (mon_state m) \<le> on_cond c (mon_woken m) + (if d = Some c then 1 else 0)"
      and "d = Some c \<Longrightarrow> waits op c"
      using assms(2) by (simp_all add: awake_debit_def)
    with return_avail [OF good enter_return(1), of c]
    show "avail c (mon_state (m\<lparr>mon_state := s'\<rparr>))
        \<le> on_cond c (mon_woken (m\<lparr>mon_state := s'\<rparr>)) + (if sig = Some c then 1 else 0)"
      by (cases "d = Some c") (simp_all split: if_splits)
  qed (use assms(2) return_good [OF good enter_return(1)] in \<open>auto simp: awake_debit_def\<close>)
next
  case (enter_wait c)
  have "good (mon_state m)" using assms(2) by (simp add: awake_debit_def)
  note none = wait_none [OF this enter_wait(2)]
  show ?thesis unfolding awake_enough_def
  proof (intro conjI allI impI)
    fix c' assume asleep: "0 < on_cond c' (mon_asleep m')"
    show "avail c' (mon_state m') \<le> on_cond c' (mon_woken m')"
    proof (cases "c' = c")
      case True
      with enter_wait none show ?thesis by simp
    next
      case False
      then have "d \<noteq> Some c'"
        using assms(2) none waits_unique [of op c c'] by (auto simp: awake_debit_def)
      moreover have "avail c' (mon_state m) \<le> on_cond c' (mon_woken m) + (if d = Some c' then 1 else 0)"
        using False asleep enter_wait assms(2) by (simp add: awake_debit_def)
      ultimately show ?thesis using enter_wait by simp
    qed
  qed (use enter_wait none assms(2) in \<open>auto simp: awake_debit_def\<close>)
qed

lemma step_awake:
  assumes "mon_step body m m'" "awake_enough m"
  shows "awake_enough m'"
  using assms(1)
proof (cases rule: mon_step.cases)
  case (step_call op)
  moreover have "awake_debit op None m"
    using assms(2) by (simp add: awake_enough_def awake_debit_def)
  ultimately show ?thesis using enter_awake by blast
next
  case (step_resume c op)
  note diff = on_cond_diff [OF step_resume(1)]
  have "awake_debit op (Some c) (m\<lparr>mon_woken := mon_woken m - {#(c, op)#}\<rparr>)"
    unfolding awake_debit_def
  proof (intro conjI allI impI)
    fix c' assume "0 < on_cond c' (mon_asleep (m\<lparr>mon_woken := mon_woken m - {#(c, op)#}\<rparr>))"
    then have "avail c' (mon_state m) \<le> on_cond c' (mon_woken m)"
      using assms(2) by (simp add: awake_enough_def)
    with diff [of c']
    show "avail c' (mon_state (m\<lparr>mon_woken := mon_woken m - {#(c, op)#}\<rparr>))
        \<le> on_cond c' (mon_woken (m\<lparr>mon_woken := mon_woken m - {#(c, op)#}\<rparr>))
          + (if Some c = Some c' then 1 else 0)"
      by (simp split: if_splits)
  next
    fix c' op' assume "(c', op') \<in># mon_asleep (m\<lparr>mon_woken := mon_woken m - {#(c, op)#}\<rparr>)
      + mon_woken (m\<lparr>mon_woken := mon_woken m - {#(c, op)#}\<rparr>)"
    then have "(c', op') \<in># mon_asleep m + mon_woken m"
      by (metis (no_types, lifting) in_diffD monitor.select_convs(2,3) monitor.surjective
          monitor.update_convs(3) union_iff)
    with assms(2) show "waits op' c'" unfolding awake_enough_def by blast
  qed (use assms(2) step_resume in \<open>auto simp: awake_enough_def\<close>)
  with step_resume show ?thesis using enter_awake by blast
next
  case (step_spurious p)
  show ?thesis unfolding awake_enough_def
  proof (intro conjI allI impI)
    fix c' assume "0 < on_cond c' (mon_asleep m')"
    with step_spurious assms(2) on_cond_diff [OF step_spurious(2), of c']
    have "avail c' (mon_state m) \<le> on_cond c' (mon_woken m)"
      by (auto simp: awake_enough_def split: if_splits)
    with step_spurious show "avail c' (mon_state m') \<le> on_cond c' (mon_woken m')" by simp
  next
    fix c' op' assume "(c', op') \<in># mon_asleep m' + mon_woken m'"
    with step_spurious have "(c', op') \<in># mon_asleep m + mon_woken m"
      by (auto dest: in_diffD)
    with assms(2) show "waits op' c'" by (auto simp: awake_enough_def)
  qed (use step_spurious assms(2) in \<open>auto simp: awake_enough_def\<close>)
qed

lemma reach_awake: "mon_reach body s0 m \<Longrightarrow> good s0 \<Longrightarrow> awake_enough m"
  by (induction rule: mon_reach.induct) (auto simp: awake_enough_def [of "mon_init s0"] intro: step_awake)

text \<open>No lost wake-up: when a thread sleeps on a condition although what it waits
  for is there, a thread of the same condition is awake and will take the mutex.\<close>

lemma no_lost_wakeup:
  assumes "mon_reach body s0 m" "good s0" "(c, op) \<in># mon_asleep m" "0 < avail c (mon_state m)"
  shows "\<exists>op'. (c, op') \<in># mon_woken m"
proof -
  have "avail c (mon_state m) \<le> on_cond c (mon_woken m)"
    using reach_awake [OF assms(1,2)] assms(3) on_cond_pos [of c "mon_asleep m"]
    by (auto simp: awake_enough_def)
  with assms(4) show ?thesis by (simp add: on_cond_pos [symmetric])
qed

text \<open>That thread does not go back to sleep: it returns.\<close>

lemma woken_returns:
  assumes "mon_reach body s0 m" "good s0" "(c, op) \<in># mon_woken m" "0 < avail c (mon_state m)"
  shows "\<exists>r s' sig. body op (mon_state m) = Return r s' sig"
proof (cases "body op (mon_state m)")
  case (Wait c')
  have "good (mon_state m)" and "waits op c"
    using reach_awake [OF assms(1,2)] assms(3) by (auto simp: awake_enough_def)
  then have "c' = c" "avail c' (mon_state m) = 0"
    using wait_none [OF _ Wait] waits_unique by blast+
  with assms(4) show ?thesis by simp
qed simp

end

end
