(* ===== verification/Osa_Fifo.thy ===== *)
theory Osa_Fifo
  imports Osa_Cond
begin

text \<open>The interface of a bounded first-in first-out queue with blocking ends, which
  the integer queues (osa_que.c) and the message queues (osa_msgq.c) of libosa
  both provide: the specification as a list with a capacity, the contract as a
  locale, and the two facts the clients use, refinement of the list and absence
  of lost wake-ups.\<close>

section \<open>Specification\<close>

text \<open>The two condition variables, and the calls a thread can make.\<close>

datatype rw_cond = CondRd | CondWr

datatype 'v fifo_op = FPut 'v nat | FGet nat

text \<open>The list that a bounded queue stands for.  A call that has to wait has no
  result.\<close>

fun spec_step :: "nat \<Rightarrow> 'v fifo_op \<Rightarrow> 'v list \<Rightarrow> ((int \<times> 'v option) \<times> 'v list) option" where
  "spec_step cap (FPut v t) xs =
    (if length xs < cap then Some ((OSA_SOK, None), xs @ [v])
     else if t = OSA_TIMEOUT_NONE then Some ((OSA_EFAIL, None), xs) else None)"
| "spec_step cap (FGet t) [] = (if t = OSA_TIMEOUT_NONE then Some ((OSA_EFAIL, None), []) else None)"
| "spec_step cap (FGet t) (x # xs) = Some ((OSA_SOK, Some x), xs)"

fun spec_run :: "nat \<Rightarrow> 'v fifo_op list \<Rightarrow> 'v list \<Rightarrow> ((int \<times> 'v option) list \<times> 'v list) option" where
  "spec_run cap [] xs = Some ([], xs)"
| "spec_run cap (op # ops) xs = (case spec_step cap op xs of None \<Rightarrow> None
    | Some (r, xs') \<Rightarrow> map_option (\<lambda>(rs, ys). (r # rs, ys)) (spec_run cap ops xs'))"

text \<open>The same over an implementation.\<close>

fun fifo_body :: "('v \<Rightarrow> nat \<Rightarrow> 's \<Rightarrow> (int, 's, 'c) pass) \<Rightarrow> (nat \<Rightarrow> 's \<Rightarrow> (int \<times> 'v option, 's, 'c) pass)
    \<Rightarrow> 'v fifo_op \<Rightarrow> 's \<Rightarrow> (int \<times> 'v option, 's, 'c) pass" where
  "fifo_body put get (FPut v t) s = map_ret (\<lambda>r. (r, None)) (put v t s)"
| "fifo_body put get (FGet t) s = get t s"

fun run_body :: "('op \<Rightarrow> 's \<Rightarrow> ('r, 's, 'c) pass) \<Rightarrow> 'op list \<Rightarrow> 's \<Rightarrow> ('r list \<times> 's) option" where
  "run_body body [] s = Some ([], s)"
| "run_body body (op # ops) s = (case pass_result (body op s) of None \<Rightarrow> None
    | Some (r, s') \<Rightarrow> map_option (\<lambda>(rs, s''). (r # rs, s'')) (run_body body ops s'))"

fun fifo_waits :: "'v fifo_op \<Rightarrow> rw_cond \<Rightarrow> bool" where
  "fifo_waits (FPut v t) c \<longleftrightarrow> c = CondWr \<and> t \<noteq> OSA_TIMEOUT_NONE"
| "fifo_waits (FGet t) c \<longleftrightarrow> c = CondRd \<and> t \<noteq> OSA_TIMEOUT_NONE"

text \<open>What the threads asleep on a condition wait for: elements, or free slots.\<close>

fun fifo_avail :: "('s \<Rightarrow> 'v list) \<Rightarrow> ('s \<Rightarrow> nat) \<Rightarrow> rw_cond \<Rightarrow> 's \<Rightarrow> nat" where
  "fifo_avail elems cap CondRd s = length (elems s)"
| "fifo_avail elems cap CondWr s = cap s - length (elems s)"

section \<open>Contract\<close>

locale bounded_fifo =
  fixes put :: "'v \<Rightarrow> nat \<Rightarrow> 's \<Rightarrow> (int, 's, rw_cond) pass"
    and get :: "nat \<Rightarrow> 's \<Rightarrow> (int \<times> 'v option, 's, rw_cond) pass"
    and elems :: "'s \<Rightarrow> 'v list"
    and cap :: "'s \<Rightarrow> nat"
    and good :: "'s \<Rightarrow> bool"
  assumes elems_cap: "good s \<Longrightarrow> length (elems s) \<le> cap s"
    and put_room: "good s \<Longrightarrow> length (elems s) < cap s \<Longrightarrow>
      \<exists>s'. put v t s = Return OSA_SOK s' (Some CondRd) \<and> good s'
        \<and> elems s' = elems s @ [v] \<and> cap s' = cap s"
    and put_full: "good s \<Longrightarrow> length (elems s) = cap s \<Longrightarrow>
      put v t s = (if t = OSA_TIMEOUT_NONE then Return OSA_EFAIL s None else Wait CondWr)"
    and get_elem: "good s \<Longrightarrow> elems s = x # xs \<Longrightarrow>
      \<exists>s'. get t s = Return (OSA_SOK, Some x) s' (Some CondWr) \<and> good s'
        \<and> elems s' = xs \<and> cap s' = cap s"
    and get_empty: "good s \<Longrightarrow> elems s = [] \<Longrightarrow>
      get t s = (if t = OSA_TIMEOUT_NONE then Return (OSA_EFAIL, None) s None else Wait CondRd)"
begin

text \<open>A pass of each call, by branch.\<close>

lemma put_cases:
  assumes "good s"
  obtains (room) s' where "length (elems s) < cap s" "put v t s = Return OSA_SOK s' (Some CondRd)"
      "good s'" "elems s' = elems s @ [v]" "cap s' = cap s"
    | (full) "length (elems s) = cap s" "t = OSA_TIMEOUT_NONE" "put v t s = Return OSA_EFAIL s None"
    | (wait) "length (elems s) = cap s" "t \<noteq> OSA_TIMEOUT_NONE" "put v t s = Wait CondWr"
  using put_room [OF assms, of v t] put_full [OF assms, of v t] elems_cap [OF assms]
  by (cases "length (elems s) < cap s"; cases "t = OSA_TIMEOUT_NONE") auto

lemma get_cases:
  assumes "good s"
  obtains (elem) x xs s' where "elems s = x # xs" "get t s = Return (OSA_SOK, Some x) s' (Some CondWr)"
      "good s'" "elems s' = xs" "cap s' = cap s"
    | (empty) "elems s = []" "t = OSA_TIMEOUT_NONE" "get t s = Return (OSA_EFAIL, None) s None"
    | (wait) "elems s = []" "t \<noteq> OSA_TIMEOUT_NONE" "get t s = Wait CondRd"
proof (cases "elems s")
  case Nil
  with get_empty [OF assms, of t] empty wait show thesis
    by (cases "t = OSA_TIMEOUT_NONE") auto
next
  case (Cons x xs)
  with get_elem [OF assms Cons, of t] elem show thesis by blast
qed

text \<open>One pass implements one step of the list, result, wait and all.\<close>

lemma body_refines:
  assumes "good s"
  shows "map_option (\<lambda>(r, s'). (r, elems s')) (pass_result (fifo_body put get op s))
      = spec_step (cap s) op (elems s)"
proof (cases op)
  case (FPut v t)
  with put_cases [OF assms, of v t] show ?thesis by cases auto
next
  case (FGet t)
  with get_cases [OF assms, of t] show ?thesis by cases auto
qed

lemma body_good:
  assumes "good s" "fifo_body put get op s = Return r s' sig"
  shows "good s' \<and> cap s' = cap s"
proof (cases op)
  case (FPut v t)
  with put_cases [OF assms(1), of v t] assms show ?thesis by cases auto
next
  case (FGet t)
  with get_cases [OF assms(1), of t] assms show ?thesis by cases auto
qed

text \<open>So any sequence of calls gives the list's results.\<close>

lemma run_refines:
  "good s \<Longrightarrow> map_option (\<lambda>(rs, s'). (rs, elems s')) (run_body (fifo_body put get) ops s)
    = spec_run (cap s) ops (elems s)"
proof (induction ops arbitrary: s)
  case (Cons op ops)
  note ref = body_refines [OF Cons.prems, of op]
  show ?case
  proof (cases "fifo_body put get op s")
    case (Return r s' sig)
    with body_good [OF Cons.prems] have next_good: "good s'" "cap s' = cap s" by blast+
    have "spec_run (cap s) (op # ops) (elems s)
        = map_option (\<lambda>(rs, ys). (r # rs, ys)) (spec_run (cap s') ops (elems s'))"
      using ref Return next_good by (auto simp: split_beta split: option.splits)
    also have "\<dots> = map_option (\<lambda>(rs, ys). (r # rs, ys))
        (map_option (\<lambda>(rs, s''). (rs, elems s'')) (run_body (fifo_body put get) ops s'))"
      by (simp only: Cons.IH [OF next_good(1)])
    finally show ?thesis
      using Return by (simp add: option.map_comp comp_def split_beta)
  next
    case (Wait c)
    with ref show ?thesis by simp
  qed
qed simp

lemma run_good:
  "good s \<Longrightarrow> run_body (fifo_body put get) ops s = Some (rs, s') \<Longrightarrow> good s' \<and> cap s' = cap s"
proof (induction ops arbitrary: s rs)
  case (Cons op ops)
  from Cons.prems(2) obtain r s1 sig rs1 where step: "fifo_body put get op s = Return r s1 sig"
    and rest: "run_body (fifo_body put get) ops s1 = Some (rs1, s')"
    by (cases "fifo_body put get op s") auto
  from body_good [OF Cons.prems(1) step] Cons.IH [OF _ rest] show ?case by simp
qed simp

end

text \<open>A bounded queue with blocking ends keeps the monitor contract.\<close>

sublocale bounded_fifo \<subseteq> mon: monitor_contract "fifo_body put get" "fifo_avail elems cap" fifo_waits good
proof
  fix s op and c :: rw_cond
  assume good: "good s" and wait: "fifo_body put get op s = Wait c"
  show "fifo_avail elems cap c s = 0 \<and> fifo_waits op c"
  proof (cases op)
    case (FPut v t)
    with put_cases [OF good, of v t] wait show ?thesis by cases auto
  next
    case (FGet t)
    with get_cases [OF good, of t] wait show ?thesis by cases auto
  qed
next
  fix s op r s' sig
  assume "good s" "fifo_body put get op s = Return r s' sig"
  then show "good s'" using body_good by blast
next
  fix s op r s' sig and c :: rw_cond
  assume good: "good s" and ret: "fifo_body put get op s = Return r s' sig"
  show "fifo_avail elems cap c s' + (if fifo_waits op c then 1 else 0)
      \<le> fifo_avail elems cap c s + (if sig = Some c then 1 else 0)"
  proof (cases op)
    case (FPut v t)
    with put_cases [OF good, of v t] ret show ?thesis by cases (cases c; auto)+
  next
    case (FGet t)
    from get_cases [OF good, of t] show ?thesis
      using ret FGet elems_cap [OF good] by cases (cases c; auto)+
  qed
next
  fix op and c c' :: rw_cond
  assume "fifo_waits op c" "fifo_waits op c'"
  then show "c = c'" by (cases op) auto
qed

end
