(* ===== verification/Osa_Que.thy ===== *)
theory Osa_Que
  imports Osa_Fifo
begin

text \<open>The blocking queue of integers of libs/libosa/src/osa_que.c.  Each operation
  is one \<open>pass\<close>: the caller that finds the queue full (or empty) and may wait
  goes to sleep on \<open>condWr\<close> (or \<open>condRd\<close>) and runs the pass again when woken.
  The Uint32 counters are naturals: \<open>curRd\<close> and \<open>curWr\<close> stay below \<open>len\<close>, so
  \<open>curWr+1\<close> does not wrap.\<close>

section \<open>State and operations\<close>

record osa_que =
  q_curRd :: nat
  q_curWr :: nat
  q_len :: nat
  q_count :: nat
  q_queue :: "int list"

text \<open>\<open>block\<close> is what \<open>OSA_memAlloc\<close> returns, None for NULL, and \<open>inits\<close> the
  results of the five pthread initialisers, which are or-ed together.  A NULL
  array is the empty one.\<close>

definition OSA_queCreate :: "int list option \<Rightarrow> int list \<Rightarrow> nat \<Rightarrow> int \<times> osa_que" where
  "OSA_queCreate block inits maxLen =
    (let h = \<lparr>q_curRd = 0, q_curWr = 0, q_len = maxLen, q_count = 0, q_queue = []\<rparr> in
     case block of
       None \<Rightarrow> (OSA_EFAIL, h)
     | Some q \<Rightarrow> (fold (\<lambda>r st. or st r) inits OSA_SOK, h\<lparr>q_queue := q\<rparr>))"

definition OSA_queDelete :: "osa_que \<Rightarrow> int \<times> osa_que" where
  "OSA_queDelete h = (OSA_SOK, h\<lparr>q_queue := []\<rparr>)"

definition OSA_quePut :: "int \<Rightarrow> nat \<Rightarrow> osa_que \<Rightarrow> (int, osa_que, rw_cond) pass" where
  "OSA_quePut value timeout h =
    (if q_count h < q_len h then
       Return OSA_SOK
         (h\<lparr>q_queue := (q_queue h)[q_curWr h := value],
            q_curWr := (q_curWr h + 1) mod q_len h,
            q_count := q_count h + 1\<rparr>) (Some CondRd)
     else if timeout = OSA_TIMEOUT_NONE then Return OSA_EFAIL h None
     else Wait CondWr)"

text \<open>\<open>want\<close> tells whether the caller's \<open>value\<close> pointer is not NULL; the second
  component of the result is what is stored through it.\<close>

definition OSA_queGet :: "bool \<Rightarrow> nat \<Rightarrow> osa_que \<Rightarrow> (int \<times> int option, osa_que, rw_cond) pass" where
  "OSA_queGet want timeout h =
    (if 0 < q_count h then
       Return (OSA_SOK, if want then Some (q_queue h ! q_curRd h) else None)
         (h\<lparr>q_curRd := (q_curRd h + 1) mod q_len h, q_count := q_count h - 1\<rparr>) (Some CondWr)
     else if timeout = OSA_TIMEOUT_NONE then Return (OSA_EFAIL, None) h None
     else Wait CondRd)"

definition OSA_queGetQueuedCount :: "osa_que \<Rightarrow> nat" where
  "OSA_queGetQueuedCount h = q_count h"

definition OSA_quePeek :: "bool \<Rightarrow> osa_que \<Rightarrow> int \<times> int option" where
  "OSA_quePeek want h =
    (OSA_EFAIL, if 0 < q_count h \<and> want then Some (q_queue h ! q_curRd h) else None)"

definition OSA_queIsEmpty :: "osa_que \<Rightarrow> bool" where
  "OSA_queIsEmpty h \<longleftrightarrow> q_count h = 0"

section \<open>Invariant and abstraction\<close>

definition que_ok :: "osa_que \<Rightarrow> bool" where
  "que_ok h \<longleftrightarrow> length (q_queue h) = q_len h \<and> q_count h \<le> q_len h
    \<and> (0 < q_len h \<longrightarrow> q_curRd h < q_len h \<and> q_curWr h = (q_curRd h + q_count h) mod q_len h)"

definition que_elems :: "osa_que \<Rightarrow> int list" where
  "que_elems h = ring_list (q_queue h) (q_curRd h) (q_len h) (q_count h)"

lemma length_que_elems [simp]: "length (que_elems h) = q_count h"
  by (simp add: que_elems_def)

lemma queCreate_ok:
  assumes "length q = maxLen"
  shows "que_ok (snd (OSA_queCreate (Some q) inits maxLen))"
    and "que_elems (snd (OSA_queCreate (Some q) inits maxLen)) = []"
    and "q_len (snd (OSA_queCreate (Some q) inits maxLen)) = maxLen"
  using assms by (simp_all add: OSA_queCreate_def que_ok_def que_elems_def)

lemma quePut_room:
  assumes "que_ok h" "q_count h < q_len h"
  obtains h' where "OSA_quePut v t h = Return OSA_SOK h' (Some CondRd)" "que_ok h'"
    "que_elems h' = que_elems h @ [v]" "q_len h' = q_len h"
proof
  let ?h = "h\<lparr>q_queue := (q_queue h)[q_curWr h := v], q_curWr := (q_curWr h + 1) mod q_len h,
            q_count := q_count h + 1\<rparr>"
  show "OSA_quePut v t h = Return OSA_SOK ?h (Some CondRd)"
    using assms by (simp add: OSA_quePut_def)
  show "que_ok ?h"
    using assms ring_wr_step [of "q_curRd h" "q_count h" "q_len h"] by (auto simp: que_ok_def)
  show "que_elems ?h = que_elems h @ [v]"
    using assms ring_list_put [of "q_count h" "q_len h" "q_queue h" "q_curRd h" v]
    by (simp add: que_ok_def que_elems_def)
  show "q_len ?h = q_len h" by simp
qed

lemma queGet_elem:
  assumes "que_ok h" "que_elems h = x # xs"
  obtains h' where
    "OSA_queGet want t h = Return (OSA_SOK, if want then Some x else None) h' (Some CondWr)"
    "que_ok h'" "que_elems h' = xs" "q_len h' = q_len h"
proof
  let ?h = "h\<lparr>q_curRd := (q_curRd h + 1) mod q_len h, q_count := q_count h - 1\<rparr>"
  have pos: "0 < q_count h" using assms(2) by (cases "q_count h") (auto simp: que_elems_def)
  with assms(1) have bound: "q_curRd h < q_len h" by (auto simp: que_ok_def)
  note ring = ring_list_get [OF pos bound, of "q_queue h"]
  show "OSA_queGet want t h = Return (OSA_SOK, if want then Some x else None) ?h (Some CondWr)"
    using pos assms(2) ring by (simp add: OSA_queGet_def que_elems_def)
  show "que_ok ?h"
    using assms(1) pos ring_rd_step [OF pos, of "q_curRd h" "q_len h"] by (auto simp: que_ok_def)
  show "que_elems ?h = xs" using assms(2) ring by (simp add: que_elems_def)
  show "q_len ?h = q_len h" by simp
qed

lemma queGet_empty:
  "que_elems h = [] \<Longrightarrow> OSA_queGet want t h =
    (if t = OSA_TIMEOUT_NONE then Return (OSA_EFAIL, None) h None else Wait CondRd)"
  by (simp add: OSA_queGet_def que_elems_def ring_list_def)

lemma quePut_full:
  "que_ok h \<Longrightarrow> q_count h = q_len h \<Longrightarrow> OSA_quePut v t h =
    (if t = OSA_TIMEOUT_NONE then Return OSA_EFAIL h None else Wait CondWr)"
  by (simp add: OSA_quePut_def)

interpretation que: bounded_fifo OSA_quePut "OSA_queGet True" que_elems q_len que_ok
proof
  show "length (que_elems h) \<le> q_len h" if "que_ok h" for h
    using that by (simp add: que_ok_def)
  show "\<exists>h'. OSA_quePut v t h = Return OSA_SOK h' (Some CondRd) \<and> que_ok h'
      \<and> que_elems h' = que_elems h @ [v] \<and> q_len h' = q_len h"
    if "que_ok h" "length (que_elems h) < q_len h" for h v t
    using quePut_room [OF that(1), of v t] that(2) by auto
  show "\<exists>h'. OSA_queGet True t h = Return (OSA_SOK, Some x) h' (Some CondWr) \<and> que_ok h'
      \<and> que_elems h' = xs \<and> q_len h' = q_len h"
    if "que_ok h" "que_elems h = x # xs" for h x xs t
    using queGet_elem [OF that, of True t] by auto
qed (simp_all add: quePut_full queGet_empty)

section \<open>Properties\<close>

text \<open>C36: Started from a successful \<open>OSA_queCreate\<close>, any sequence of \<open>OSA_quePut\<close>
  and \<open>OSA_queGet\<close> calls returns exactly what a list of capacity \<open>maxLen\<close> would:
  values come out in the order they went in, none is lost or duplicated, a put
  fails (or blocks) only when \<open>maxLen\<close> values are queued and a get only when
  none is.\<close>

theorem que_refines_fifo:
  assumes "length block = maxLen"
  shows "map_option (\<lambda>(rs, h). (rs, que_elems h))
      (run_body (fifo_body OSA_quePut (OSA_queGet True)) ops
        (snd (OSA_queCreate (Some block) inits maxLen)))
    = spec_run maxLen ops []"
  using que.run_refines [OF queCreate_ok(1) [OF assms], of ops inits] queCreate_ok(2,3) [OF assms]
  by simp

lemma que_refines_fifo_witness:
  "map_option (\<lambda>(rs, h). (rs, que_elems h))
      (run_body (fifo_body OSA_quePut (OSA_queGet True))
        [FPut 7 0, FPut 8 0, FPut 9 0, FGet 0, FPut 9 0, FGet 0]
        (snd (OSA_queCreate (Some [0, 0]) [0, 0, 0, 0, 0] 2)))
    = Some ([(0, None), (0, None), (-1, None), (0, Some 7), (0, None), (0, Some 8)], [9])"
  using que_refines_fifo [of "[0, 0]" 2 "[FPut 7 0, FPut 8 0, FPut 9 0, FGet 0, FPut 9 0, FGet 0]"
      "[0, 0, 0, 0, 0]"]
  by (simp add: const_defs)

text \<open>C37: No wake-up of the queue is lost.  However the threads interleave, if a
  thread sleeps in \<open>OSA_queGet\<close> while an element is queued, or in \<open>OSA_quePut\<close>
  while there is room, then some thread of the same kind has been woken and the
  pass it will run returns instead of sleeping again.\<close>

theorem que_no_lost_wakeup:
  assumes "mon_reach (fifo_body OSA_quePut (OSA_queGet True)) h0 m" "que_ok h0"
    and "(c, op) \<in># mon_asleep m" "0 < fifo_avail que_elems q_len c (mon_state m)"
  shows "\<exists>op' r h' sig. (c, op') \<in># mon_woken m
    \<and> fifo_body OSA_quePut (OSA_queGet True) op' (mon_state m) = Return r h' sig"
  using que.mon.no_lost_wakeup [OF assms] que.mon.woken_returns [OF assms(1,2) _ assms(4)] by blast

text \<open>Two readers sleep on an empty queue, a writer puts one element: one reader is
  woken and the other still sleeps.\<close>

lemma two_readers_one_put:
  fixes h0 :: osa_que
  defines "h0 \<equiv> \<lparr>q_curRd = 0, q_curWr = 0, q_len = 2, q_count = 0, q_queue = [0, 0]\<rparr>"
    and "h1 \<equiv> \<lparr>q_curRd = 0, q_curWr = 1, q_len = 2, q_count = 1, q_queue = [7, 0]\<rparr>"
  shows "mon_reach (fifo_body OSA_quePut (OSA_queGet True)) h0
    \<lparr>mon_state = h1, mon_asleep = {#(CondRd, FGet 5)#}, mon_woken = {#(CondRd, FGet 5)#}\<rparr>"
proof -
  let ?b = "fifo_body OSA_quePut (OSA_queGet True)"
  define m1 where "m1 = (mon_init h0)\<lparr>mon_asleep := {#(CondRd, FGet 5 :: int fifo_op)#}\<rparr>"
  define m2 where "m2 = m1\<lparr>mon_asleep := {#(CondRd, FGet 5 :: int fifo_op), (CondRd, FGet 5)#}\<rparr>"
  define m3 where "m3 = mon_wake (CondRd, FGet 5 :: int fifo_op) (m2\<lparr>mon_state := h1\<rparr>)"
  have "mon_enter ?b (FGet 5) (mon_init h0) m1"
    using enter_wait [of ?b "FGet 5" "mon_init h0" CondRd]
    by (simp add: m1_def h0_def OSA_queGet_def const_defs)
  then have r1: "mon_reach ?b h0 m1"
    by (blast intro: reach_init reach_step step_call)
  have "mon_enter ?b (FGet 5) m1 m2"
    using enter_wait [of ?b "FGet 5" m1 CondRd]
    by (simp add: m1_def m2_def h0_def OSA_queGet_def const_defs)
  with r1 have r2: "mon_reach ?b h0 m2"
    by (blast intro: reach_step step_call)
  have "mon_signal (Some CondRd) (m2\<lparr>mon_state := h1\<rparr>) m3"
    unfolding m3_def by (rule signal_wake) (simp add: m2_def)
  then have "mon_enter ?b (FPut 7 0) m2 m3"
    using enter_return [of ?b "FPut 7 0" m2 "(OSA_SOK, None)" h1 "Some CondRd" m3]
    by (simp add: m1_def m2_def h0_def h1_def OSA_quePut_def)
  with r2 have "mon_reach ?b h0 m3"
    by (blast intro: reach_step step_call)
  then show ?thesis by (simp add: m3_def m2_def m1_def mon_wake_def mon_init_def)
qed

lemma que_no_lost_wakeup_witness:
  "\<exists>op' r h' sig. (CondRd, op') \<in># {#(CondRd, FGet 5 :: int fifo_op)#}
    \<and> fifo_body OSA_quePut (OSA_queGet True) op'
        \<lparr>q_curRd = 0, q_curWr = 1, q_len = 2, q_count = 1, q_queue = [7, 0]\<rparr> = Return r h' sig"
  using que_no_lost_wakeup [OF two_readers_one_put, of CondRd "FGet 5"]
  by (simp add: que_ok_def que_elems_def)

text \<open>\<open>OSA_quePeek\<close> never reports success: its status is \<open>OSA_EFAIL\<close> in every
  state, although on a non-empty queue it does deliver the value the next
  \<open>OSA_queGet\<close> returns.\<close>

theorem quePeek_status:
  assumes "que_ok h" "que_elems h = x # xs"
  shows "OSA_quePeek True h = (OSA_EFAIL, Some x)
    \<and> (\<exists>h'. OSA_queGet True t h = Return (OSA_SOK, Some x) h' (Some CondWr) \<and> que_elems h' = xs)"
proof -
  obtain h' where get: "OSA_queGet True t h = Return (OSA_SOK, Some x) h' (Some CondWr)" "que_elems h' = xs"
    using queGet_elem [OF assms, of True t] by auto
  then have "OSA_quePeek True h = (OSA_EFAIL, Some x)"
    by (auto simp: OSA_quePeek_def OSA_queGet_def split: if_splits)
  with get show ?thesis by blast
qed

lemma quePeek_status_witness:
  "OSA_quePeek True \<lparr>q_curRd = 1, q_curWr = 0, q_len = 2, q_count = 1, q_queue = [7, 8]\<rparr> = (OSA_EFAIL, Some 8)"
  by (rule conjunct1 [OF quePeek_status [where xs = "[]"]])
     (simp_all add: que_ok_def que_elems_def ring_list_def)

end
