(* ===== verification/Osa_Buf.thy ===== *)
theory Osa_Buf
  imports Osa_Que
begin

text \<open>The buffer pool of libs/libosa/src/osa_buf.c: up to 32 buffers whose numbers
  travel between a queue of empty ones and a queue of full ones.  A NULL handle,
  which every function rejects with \<open>OSA_EFAIL\<close> before touching anything, has no
  state here.\<close>

section \<open>State\<close>

definition OSA_BUF_NUM_MAX :: nat where [const_defs]: "OSA_BUF_NUM_MAX = 8 * 4"
definition OSA_BUF_ID_INVALID :: int where [const_defs]: "OSA_BUF_ID_INVALID = -1"

record osa_buf_info =
  bi_size :: int
  bi_count :: int
  bi_flags :: int
  bi_timestamp :: nat
  bi_width :: int
  bi_height :: int
  bi_isKeyFrame :: nat
  bi_codecType :: nat
  bi_physAddr :: nat
  bi_virtAddr :: nat

record osa_buf =
  b_info :: "osa_buf_info list"
  b_emptyQue :: osa_que
  b_fullQue :: osa_que
  b_numBuf :: int

text \<open>The four condition variables of a pool.\<close>

datatype buf_cond = OfEmpty rw_cond | OfFull rw_cond

text \<open>What \<open>memset(hndl, 0, sizeof)\<close> leaves.\<close>

definition zero_info :: osa_buf_info where
  "zero_info = \<lparr>bi_size = 0, bi_count = 0, bi_flags = 0, bi_timestamp = 0, bi_width = 0,
     bi_height = 0, bi_isKeyFrame = 0, bi_codecType = 0, bi_physAddr = 0, bi_virtAddr = 0\<rparr>"

definition zero_que :: osa_que where
  "zero_que = \<lparr>q_curRd = 0, q_curWr = 0, q_len = 0, q_count = 0, q_queue = []\<rparr>"

definition zero_buf :: osa_buf where
  "zero_buf = \<lparr>b_info = replicate OSA_BUF_NUM_MAX zero_info, b_emptyQue = zero_que,
     b_fullQue = zero_que, b_numBuf = 0\<rparr>"

section \<open>Operations\<close>

text \<open>Blocking puts and gets on one of the two queues.\<close>

definition empty_pass :: "osa_buf \<Rightarrow> ('r, osa_que, rw_cond) pass \<Rightarrow> ('r, osa_buf, buf_cond) pass" where
  "empty_pass h = lift_pass (\<lambda>q. h\<lparr>b_emptyQue := q\<rparr>) OfEmpty"

definition full_pass :: "osa_buf \<Rightarrow> ('r, osa_que, rw_cond) pass \<Rightarrow> ('r, osa_buf, buf_cond) pass" where
  "full_pass h = lift_pass (\<lambda>q. h\<lparr>b_fullQue := q\<rparr>) OfFull"

definition get_id :: "int \<times> int option \<Rightarrow> int \<times> int" where
  "get_id r = (fst r, if fst r \<noteq> OSA_SOK then OSA_BUF_ID_INVALID
     else case snd r of Some v \<Rightarrow> v | None \<Rightarrow> OSA_BUF_ID_INVALID)"

text \<open>The result pairs the status with what is stored through \<open>bufId\<close>; \<open>idp\<close>
  tells whether that pointer is not NULL.\<close>

definition OSA_bufGetEmpty :: "bool \<Rightarrow> nat \<Rightarrow> osa_buf \<Rightarrow> (int \<times> int, osa_buf, buf_cond) pass" where
  "OSA_bufGetEmpty idp timeout h =
    (if \<not> idp then Return (OSA_EFAIL, OSA_BUF_ID_INVALID) h None
     else empty_pass h (map_ret get_id (OSA_queGet True timeout (b_emptyQue h))))"

definition OSA_bufGetFull :: "bool \<Rightarrow> nat \<Rightarrow> osa_buf \<Rightarrow> (int \<times> int, osa_buf, buf_cond) pass" where
  "OSA_bufGetFull idp timeout h =
    (if \<not> idp then Return (OSA_EFAIL, OSA_BUF_ID_INVALID) h None
     else full_pass h (map_ret get_id (OSA_queGet True timeout (b_fullQue h))))"

definition OSA_bufPutFull :: "int \<Rightarrow> osa_buf \<Rightarrow> (int, osa_buf, buf_cond) pass" where
  "OSA_bufPutFull bufId h =
    (if bufId \<ge> b_numBuf h \<or> bufId < 0 then Return OSA_EFAIL h None
     else full_pass h (OSA_quePut bufId OSA_TIMEOUT_FOREVER (b_fullQue h)))"

definition OSA_bufPutEmpty :: "int \<Rightarrow> osa_buf \<Rightarrow> (int, osa_buf, buf_cond) pass" where
  "OSA_bufPutEmpty bufId h =
    (if bufId \<ge> b_numBuf h \<or> bufId < 0 then Return OSA_EFAIL h None
     else empty_pass h (OSA_quePut bufId OSA_TIMEOUT_FOREVER (b_emptyQue h)))"

text \<open>The two exchanges make two calls, of which the second could block: None when
  it would.  The result pairs the status with the new value of \<open>*bufId\<close>.\<close>

definition OSA_bufSwitchFull :: "int \<Rightarrow> osa_buf \<Rightarrow> ((int \<times> int) \<times> osa_buf) option" where
  "OSA_bufSwitchFull bufId h = (case pass_result (OSA_bufGetEmpty True OSA_TIMEOUT_NONE h) of
     None \<Rightarrow> None
   | Some ((status, newId), h1) \<Rightarrow>
       if status = OSA_SOK then
         if bufId \<noteq> OSA_BUF_ID_INVALID then
           map_option (\<lambda>(_, h2). ((status, newId), h2)) (pass_result (OSA_bufPutFull bufId h1))
         else Some ((status, newId), h1)
       else Some ((status, bufId), h1))"

definition OSA_bufSwitchEmpty :: "int \<Rightarrow> osa_buf \<Rightarrow> ((int \<times> int) \<times> osa_buf) option" where
  "OSA_bufSwitchEmpty bufId h = (case pass_result (OSA_bufGetFull True OSA_TIMEOUT_NONE h) of
     None \<Rightarrow> None
   | Some ((status, newId), h1) \<Rightarrow>
       if status = OSA_SOK then
         if bufId \<noteq> OSA_BUF_ID_INVALID then
           map_option (\<lambda>(_, h2). ((status, newId), h2)) (pass_result (OSA_bufPutEmpty bufId h1))
         else Some ((status, newId), h1)
       else Some ((status, bufId), h1))"

text \<open>The element of \<open>bufInfo\<close> a buffer number points at; None is NULL.\<close>

definition OSA_bufGetBufInfo :: "int \<Rightarrow> osa_buf \<Rightarrow> int option" where
  "OSA_bufGetBufInfo bufId h = (if bufId \<ge> b_numBuf h then None else Some bufId)"

text \<open>The creation loop; None when a put blocks.\<close>

fun buf_fill :: "(nat \<Rightarrow> nat) \<Rightarrow> (nat \<Rightarrow> nat) \<Rightarrow> nat list \<Rightarrow> osa_buf \<Rightarrow> osa_buf option" where
  "buf_fill phys virt [] h = Some h"
| "buf_fill phys virt (i # is) h =
    (case pass_result (OSA_quePut (int i) OSA_TIMEOUT_FOREVER (b_emptyQue h)) of
       None \<Rightarrow> None
     | Some (_, q) \<Rightarrow> buf_fill phys virt is
         (h\<lparr>b_info := (b_info h)[i := (b_info h ! i)\<lparr>bi_size := 0, bi_flags := 0, bi_timestamp := 0,
                bi_physAddr := phys i, bi_virtAddr := virt i\<rparr>],
            b_emptyQue := q\<rparr>))"

text \<open>\<open>blockE\<close> and \<open>blockF\<close> are what the two allocations return, \<open>initsE\<close> and
  \<open>initsF\<close> the pthread results; \<open>numBuf\<close> reaches \<open>OSA_queCreate\<close> as a Uint32.\<close>

definition OSA_bufCreate :: "int list option \<Rightarrow> int list \<Rightarrow> int list option \<Rightarrow> int list
    \<Rightarrow> int \<Rightarrow> (nat \<Rightarrow> nat) \<Rightarrow> (nat \<Rightarrow> nat) \<Rightarrow> osa_buf \<Rightarrow> (int \<times> osa_buf) option" where
  "OSA_bufCreate blockE initsE blockF initsF numBuf phys virt h =
    (if numBuf > int OSA_BUF_NUM_MAX then Some (OSA_EFAIL, h)
     else let (st1, qe) = OSA_queCreate blockE initsE (nat (numBuf mod 2 ^ 32));
              h1 = zero_buf\<lparr>b_emptyQue := qe\<rparr> in
       if st1 \<noteq> OSA_SOK then Some (st1, h1)
       else let (st2, qf) = OSA_queCreate blockF initsF (nat (numBuf mod 2 ^ 32));
                h2 = h1\<lparr>b_fullQue := qf\<rparr> in
         if st2 \<noteq> OSA_SOK then Some (st2, h2\<lparr>b_emptyQue := snd (OSA_queDelete qe)\<rparr>)
         else map_option (\<lambda>h3. (st2, h3))
           (buf_fill phys virt [0..<nat numBuf] (h2\<lparr>b_numBuf := numBuf\<rparr>)))"

definition OSA_bufDelete :: "osa_buf \<Rightarrow> int \<times> osa_buf" where
  "OSA_bufDelete h =
    (let (st1, qe) = OSA_queDelete (b_emptyQue h); (st2, qf) = OSA_queDelete (b_fullQue h) in
     (or st1 st2, h\<lparr>b_emptyQue := qe, b_fullQue := qf\<rparr>))"

section \<open>Conservation of the buffers\<close>

text \<open>The buffer numbers the clients hold, and the moves they can make: take an
  empty or a full buffer, give one they hold to either queue, or exchange one
  (or none, \<open>-1\<close>) for a new one.\<close>

inductive buf_step :: "osa_buf \<times> int multiset \<Rightarrow> osa_buf \<times> int multiset \<Rightarrow> bool" where
  get_empty: "OSA_bufGetEmpty True t h = Return (OSA_SOK, i) h' sig
    \<Longrightarrow> buf_step (h, held) (h', add_mset i held)"
| get_full: "OSA_bufGetFull True t h = Return (OSA_SOK, i) h' sig
    \<Longrightarrow> buf_step (h, held) (h', add_mset i held)"
| put_full: "OSA_bufPutFull i h = Return OSA_SOK h' sig \<Longrightarrow> i \<in># held
    \<Longrightarrow> buf_step (h, held) (h', held - {#i#})"
| put_empty: "OSA_bufPutEmpty i h = Return OSA_SOK h' sig \<Longrightarrow> i \<in># held
    \<Longrightarrow> buf_step (h, held) (h', held - {#i#})"
| switch_full: "OSA_bufSwitchFull i h = Some ((OSA_SOK, j), h') \<Longrightarrow> i \<in># held
    \<Longrightarrow> buf_step (h, held) (h', add_mset j (held - {#i#}))"
| switch_full_new: "OSA_bufSwitchFull OSA_BUF_ID_INVALID h = Some ((OSA_SOK, j), h')
    \<Longrightarrow> buf_step (h, held) (h', add_mset j held)"
| switch_empty: "OSA_bufSwitchEmpty i h = Some ((OSA_SOK, j), h') \<Longrightarrow> i \<in># held
    \<Longrightarrow> buf_step (h, held) (h', add_mset j (held - {#i#}))"
| switch_empty_new: "OSA_bufSwitchEmpty OSA_BUF_ID_INVALID h = Some ((OSA_SOK, j), h')
    \<Longrightarrow> buf_step (h, held) (h', add_mset j held)"

inductive buf_reach :: "osa_buf \<Rightarrow> osa_buf \<times> int multiset \<Rightarrow> bool" for h0 where
  buf_reach_init: "buf_reach h0 (h0, {#})"
| buf_reach_step: "buf_reach h0 s \<Longrightarrow> buf_step s s' \<Longrightarrow> buf_reach h0 s'"

definition pool_ok :: "osa_buf \<times> int multiset \<Rightarrow> bool" where
  "pool_ok s \<longleftrightarrow> (case s of (h, held) \<Rightarrow>
     que_ok (b_emptyQue h) \<and> que_ok (b_fullQue h)
     \<and> int (q_len (b_emptyQue h)) = b_numBuf h \<and> int (q_len (b_fullQue h)) = b_numBuf h
     \<and> mset (que_elems (b_emptyQue h)) + mset (que_elems (b_fullQue h)) + held
         = image_mset int (mset [0..<nat (b_numBuf h)]))"

lemma pool_size:
  assumes "pool_ok (h, held)"
  shows "int (q_count (b_emptyQue h) + q_count (b_fullQue h) + size held) = b_numBuf h"
proof -
  have "size (mset (que_elems (b_emptyQue h)) + mset (que_elems (b_fullQue h)) + held)
      = size (image_mset int (mset [0..<nat (b_numBuf h)]))"
    using assms by (simp only: pool_ok_def prod.case)
  moreover have "0 \<le> b_numBuf h" using assms by (auto simp: pool_ok_def)
  ultimately show ?thesis by simp
qed

lemma pool_range:
  assumes "pool_ok (h, held)"
    and "i \<in># mset (que_elems (b_emptyQue h)) + mset (que_elems (b_fullQue h)) + held"
  shows "0 \<le> i" "i < b_numBuf h"
proof -
  have "i \<in># image_mset int (mset [0..<nat (b_numBuf h)])"
    using assms by (simp only: pool_ok_def prod.case)
  then show "0 \<le> i" "i < b_numBuf h" by auto
qed

lemma getEmpty_pool:
  assumes ok: "pool_ok (h, held)" and ret: "OSA_bufGetEmpty True t h = Return (OSA_SOK, i) h' sig"
  shows "pool_ok (h', add_mset i held)" "b_numBuf h' = b_numBuf h" "i \<noteq> OSA_BUF_ID_INVALID"
proof -
  obtain x xs where elems: "que_elems (b_emptyQue h) = x # xs"
    using ret queGet_empty [of "b_emptyQue h" True t]
    by (cases "que_elems (b_emptyQue h)")
       (auto simp: OSA_bufGetEmpty_def empty_pass_def get_id_def split: if_splits)
  have que: "que_ok (b_emptyQue h)" using ok by (simp add: pool_ok_def)
  obtain q where q: "OSA_queGet True t (b_emptyQue h) = Return (OSA_SOK, Some x) q (Some CondWr)"
    "que_ok q" "que_elems q = xs" "q_len q = q_len (b_emptyQue h)"
    using queGet_elem [OF que elems, of True t] by auto
  from ret q have eqs: "i = x" "h' = h\<lparr>b_emptyQue := q\<rparr>"
    by (auto simp: OSA_bufGetEmpty_def empty_pass_def get_id_def)
  from eqs q ok elems show "pool_ok (h', add_mset i held)" by (simp add: pool_ok_def)
  from eqs show "b_numBuf h' = b_numBuf h" by simp
  from pool_range [OF ok, of i] eqs elems show "i \<noteq> OSA_BUF_ID_INVALID"
    by (simp add: const_defs)
qed

lemma getFull_pool:
  assumes ok: "pool_ok (h, held)" and ret: "OSA_bufGetFull True t h = Return (OSA_SOK, i) h' sig"
  shows "pool_ok (h', add_mset i held)" "b_numBuf h' = b_numBuf h" "i \<noteq> OSA_BUF_ID_INVALID"
proof -
  obtain x xs where elems: "que_elems (b_fullQue h) = x # xs"
    using ret queGet_empty [of "b_fullQue h" True t]
    by (cases "que_elems (b_fullQue h)")
       (auto simp: OSA_bufGetFull_def full_pass_def get_id_def split: if_splits)
  have que: "que_ok (b_fullQue h)" using ok by (simp add: pool_ok_def)
  obtain q where q: "OSA_queGet True t (b_fullQue h) = Return (OSA_SOK, Some x) q (Some CondWr)"
    "que_ok q" "que_elems q = xs" "q_len q = q_len (b_fullQue h)"
    using queGet_elem [OF que elems, of True t] by auto
  from ret q have eqs: "i = x" "h' = h\<lparr>b_fullQue := q\<rparr>"
    by (auto simp: OSA_bufGetFull_def full_pass_def get_id_def)
  from eqs q ok elems show "pool_ok (h', add_mset i held)" by (simp add: pool_ok_def)
  from eqs show "b_numBuf h' = b_numBuf h" by simp
  from pool_range [OF ok, of i] eqs elems show "i \<noteq> OSA_BUF_ID_INVALID"
    by (simp add: const_defs)
qed

text \<open>A client that gives back a buffer it holds neither blocks nor fails.\<close>

lemma putFull_pool:
  assumes ok: "pool_ok (h, held)" and held: "i \<in># held"
  obtains h' where "OSA_bufPutFull i h = Return OSA_SOK h' (Some (OfFull CondRd))"
    "pool_ok (h', held - {#i#})" "b_numBuf h' = b_numBuf h"
proof -
  obtain rest where rest: "held = add_mset i rest" using held by (blast dest: multi_member_split)
  have que: "que_ok (b_fullQue h)" and len: "int (q_len (b_fullQue h)) = b_numBuf h"
    using ok by (simp_all add: pool_ok_def)
  have "q_count (b_fullQue h) < q_len (b_fullQue h)"
    using pool_size [OF ok] rest len by simp
  from quePut_room [OF que this, of i OSA_TIMEOUT_FOREVER]
  obtain q where q: "OSA_quePut i OSA_TIMEOUT_FOREVER (b_fullQue h) = Return OSA_SOK q (Some CondRd)"
    "que_ok q" "que_elems q = que_elems (b_fullQue h) @ [i]" "q_len q = q_len (b_fullQue h)" by auto
  show thesis
  proof (rule that [of "h\<lparr>b_fullQue := q\<rparr>"])
    show "OSA_bufPutFull i h = Return OSA_SOK (h\<lparr>b_fullQue := q\<rparr>) (Some (OfFull CondRd))"
      using pool_range [OF ok, of i] held q by (simp add: OSA_bufPutFull_def full_pass_def)
    show "pool_ok (h\<lparr>b_fullQue := q\<rparr>, held - {#i#})"
      using ok q rest by (simp add: pool_ok_def)
  qed simp
qed

lemma putEmpty_pool:
  assumes ok: "pool_ok (h, held)" and held: "i \<in># held"
  obtains h' where "OSA_bufPutEmpty i h = Return OSA_SOK h' (Some (OfEmpty CondRd))"
    "pool_ok (h', held - {#i#})" "b_numBuf h' = b_numBuf h"
proof -
  obtain rest where rest: "held = add_mset i rest" using held by (blast dest: multi_member_split)
  have que: "que_ok (b_emptyQue h)" and len: "int (q_len (b_emptyQue h)) = b_numBuf h"
    using ok by (simp_all add: pool_ok_def)
  have "q_count (b_emptyQue h) < q_len (b_emptyQue h)"
    using pool_size [OF ok] rest len by simp
  from quePut_room [OF que this, of i OSA_TIMEOUT_FOREVER]
  obtain q where q: "OSA_quePut i OSA_TIMEOUT_FOREVER (b_emptyQue h) = Return OSA_SOK q (Some CondRd)"
    "que_ok q" "que_elems q = que_elems (b_emptyQue h) @ [i]" "q_len q = q_len (b_emptyQue h)" by auto
  show thesis
  proof (rule that [of "h\<lparr>b_emptyQue := q\<rparr>"])
    show "OSA_bufPutEmpty i h = Return OSA_SOK (h\<lparr>b_emptyQue := q\<rparr>) (Some (OfEmpty CondRd))"
      using pool_range [OF ok, of i] held q by (simp add: OSA_bufPutEmpty_def empty_pass_def)
    show "pool_ok (h\<lparr>b_emptyQue := q\<rparr>, held - {#i#})"
      using ok q rest by (simp add: pool_ok_def)
  qed simp
qed

lemma swap_held: "i \<in># held \<Longrightarrow> add_mset j held - {#i#} = add_mset j (held - {#i#})"
  by (auto dest!: multi_member_split)

lemma switchFull_pool:
  assumes ok: "pool_ok (h, held)" and sw: "OSA_bufSwitchFull i h = Some ((OSA_SOK, j), h')"
  shows "i \<in># held \<Longrightarrow> pool_ok (h', add_mset j (held - {#i#}))"
    and "i = OSA_BUF_ID_INVALID \<Longrightarrow> pool_ok (h', add_mset j held)"
    and "i \<in># held \<or> i = OSA_BUF_ID_INVALID \<Longrightarrow> b_numBuf h' = b_numBuf h"
proof -
  obtain h1 sig where get: "OSA_bufGetEmpty True OSA_TIMEOUT_NONE h = Return (OSA_SOK, j) h1 sig"
    using sw by (cases "OSA_bufGetEmpty True OSA_TIMEOUT_NONE h")
       (auto simp: OSA_bufSwitchFull_def split: if_splits prod.splits)
  note ok1 = getEmpty_pool [OF ok get]
  show "pool_ok (h', add_mset j held)" if "i = OSA_BUF_ID_INVALID"
    using sw get ok1 that by (simp add: OSA_bufSwitchFull_def)
  have held: "pool_ok (h', add_mset j (held - {#i#})) \<and> b_numBuf h' = b_numBuf h" if "i \<in># held"
  proof -
    have ne: "i \<noteq> OSA_BUF_ID_INVALID"
      using pool_range [OF ok, of i] that by (auto simp: const_defs)
    from putFull_pool [OF ok1(1), of i] that obtain h2 where
      put: "OSA_bufPutFull i h1 = Return OSA_SOK h2 (Some (OfFull CondRd))"
      "pool_ok (h2, add_mset j held - {#i#})" "b_numBuf h2 = b_numBuf h1" by auto
    with sw get ne ok1 that show ?thesis
      by (auto simp: OSA_bufSwitchFull_def swap_held)
  qed
  from held show "i \<in># held \<Longrightarrow> pool_ok (h', add_mset j (held - {#i#}))" by blast
  show "b_numBuf h' = b_numBuf h" if "i \<in># held \<or> i = OSA_BUF_ID_INVALID"
    using held sw get ok1 that by (auto simp: OSA_bufSwitchFull_def)
qed

lemma switchEmpty_pool:
  assumes ok: "pool_ok (h, held)" and sw: "OSA_bufSwitchEmpty i h = Some ((OSA_SOK, j), h')"
  shows "i \<in># held \<Longrightarrow> pool_ok (h', add_mset j (held - {#i#}))"
    and "i = OSA_BUF_ID_INVALID \<Longrightarrow> pool_ok (h', add_mset j held)"
    and "i \<in># held \<or> i = OSA_BUF_ID_INVALID \<Longrightarrow> b_numBuf h' = b_numBuf h"
proof -
  obtain h1 sig where get: "OSA_bufGetFull True OSA_TIMEOUT_NONE h = Return (OSA_SOK, j) h1 sig"
    using sw by (cases "OSA_bufGetFull True OSA_TIMEOUT_NONE h")
       (auto simp: OSA_bufSwitchEmpty_def split: if_splits prod.splits)
  note ok1 = getFull_pool [OF ok get]
  show "pool_ok (h', add_mset j held)" if "i = OSA_BUF_ID_INVALID"
    using sw get ok1 that by (simp add: OSA_bufSwitchEmpty_def)
  have held: "pool_ok (h', add_mset j (held - {#i#})) \<and> b_numBuf h' = b_numBuf h" if "i \<in># held"
  proof -
    have ne: "i \<noteq> OSA_BUF_ID_INVALID"
      using pool_range [OF ok, of i] that by (auto simp: const_defs)
    from putEmpty_pool [OF ok1(1), of i] that obtain h2 where
      put: "OSA_bufPutEmpty i h1 = Return OSA_SOK h2 (Some (OfEmpty CondRd))"
      "pool_ok (h2, add_mset j held - {#i#})" "b_numBuf h2 = b_numBuf h1" by auto
    with sw get ne ok1 that show ?thesis
      by (auto simp: OSA_bufSwitchEmpty_def swap_held)
  qed
  from held show "i \<in># held \<Longrightarrow> pool_ok (h', add_mset j (held - {#i#}))" by blast
  show "b_numBuf h' = b_numBuf h" if "i \<in># held \<or> i = OSA_BUF_ID_INVALID"
    using held sw get ok1 that by (auto simp: OSA_bufSwitchEmpty_def)
qed

lemma buf_fill_que:
  assumes "que_ok (b_emptyQue h)" "q_count (b_emptyQue h) + length is \<le> q_len (b_emptyQue h)"
  shows "\<exists>h'. buf_fill phys virt is h = Some h' \<and> que_ok (b_emptyQue h')
    \<and> que_elems (b_emptyQue h') = que_elems (b_emptyQue h) @ map int is
    \<and> q_len (b_emptyQue h') = q_len (b_emptyQue h)
    \<and> b_fullQue h' = b_fullQue h \<and> b_numBuf h' = b_numBuf h"
  using assms
proof (induction "is" arbitrary: h)
  case (Cons i "is")
  have room: "q_count (b_emptyQue h) < q_len (b_emptyQue h)" using Cons.prems(2) by simp
  from quePut_room [OF Cons.prems(1) this, of "int i" OSA_TIMEOUT_FOREVER]
  obtain q where q: "OSA_quePut (int i) OSA_TIMEOUT_FOREVER (b_emptyQue h) = Return OSA_SOK q (Some CondRd)"
    "que_ok q" "que_elems q = que_elems (b_emptyQue h) @ [int i]" "q_len q = q_len (b_emptyQue h)" by auto
  have "q_count q = Suc (q_count (b_emptyQue h))"
    using arg_cong [OF q(3), of length] by simp
  then show ?case
    using Cons.IH [of "h\<lparr>b_info := (b_info h)[i := (b_info h ! i)\<lparr>bi_size := 0, bi_flags := 0,
        bi_timestamp := 0, bi_physAddr := phys i, bi_virtAddr := virt i\<rparr>], b_emptyQue := q\<rparr>"]
      q Cons.prems(2) by simp
qed simp

lemma bufCreate_pool:
  assumes "0 \<le> n" "n \<le> int OSA_BUF_NUM_MAX" "length be = nat n" "length bf = nat n"
  obtains h where "OSA_bufCreate (Some be) [0, 0, 0, 0, 0] (Some bf) [0, 0, 0, 0, 0] n phys virt h0
      = Some (OSA_SOK, h)" "pool_ok (h, {#})" "b_numBuf h = n"
proof -
  have small: "nat (n mod 2 ^ 32) = nat n" "nat (n mod 4294967296) = nat n"
    using assms by (simp_all add: const_defs mod_pos_pos_trivial)
  define qe where "qe = snd (OSA_queCreate (Some be) [0, 0, 0, 0, 0] (nat n))"
  define qf where "qf = snd (OSA_queCreate (Some bf) [0, 0, 0, 0, 0] (nat n))"
  have st: "OSA_queCreate (Some be) [0, 0, 0, 0, 0] (nat n) = (OSA_SOK, qe)"
    "OSA_queCreate (Some bf) [0, 0, 0, 0, 0] (nat n) = (OSA_SOK, qf)"
    by (simp_all add: OSA_queCreate_def qe_def qf_def const_defs)
  note ce = queCreate_ok [OF assms(3), of "[0, 0, 0, 0, 0]", folded qe_def]
  note cf = queCreate_ok [OF assms(4), of "[0, 0, 0, 0, 0]", folded qf_def]
  let ?h = "zero_buf\<lparr>b_emptyQue := qe, b_fullQue := qf, b_numBuf := n\<rparr>"
  have "q_count qe = 0" using ce(2) by (simp add: que_elems_def ring_list_def)
  with buf_fill_que [of ?h "[0..<nat n]" phys virt] ce obtain h where
    h: "buf_fill phys virt [0..<nat n] ?h = Some h" "que_ok (b_emptyQue h)"
      "que_elems (b_emptyQue h) = map int [0..<nat n]" "q_len (b_emptyQue h) = nat n"
      "b_fullQue h = qf" "b_numBuf h = n" by auto
  show thesis
  proof (rule that)
    show "OSA_bufCreate (Some be) [0, 0, 0, 0, 0] (Some bf) [0, 0, 0, 0, 0] n phys virt h0
        = Some (OSA_SOK, h)"
      using assms(2) h(1) by (simp add: OSA_bufCreate_def small st)
    show "pool_ok (h, {#})" using h cf assms(1) by (simp add: pool_ok_def)
    show "b_numBuf h = n" by (fact h(6))
  qed
qed

lemma buf_step_pool:
  "buf_step s s' \<Longrightarrow> pool_ok s \<Longrightarrow> pool_ok s'"
proof (induction rule: buf_step.induct)
  case (put_full i h h' sig held)
  from putFull_pool [OF put_full(3,2)] put_full(1) show ?case by auto
next
  case (put_empty i h h' sig held)
  from putEmpty_pool [OF put_empty(3,2)] put_empty(1) show ?case by auto
qed (blast intro: getEmpty_pool getFull_pool switchFull_pool switchEmpty_pool)+

lemma buf_reach_pool: "buf_reach h0 s \<Longrightarrow> pool_ok (h0, {#}) \<Longrightarrow> pool_ok s"
  by (induction rule: buf_reach.induct) (auto intro: buf_step_pool)

section \<open>Properties\<close>

text \<open>C38: Buffers are conserved.  Whatever gets, puts and exchanges clients make
  on a pool of \<open>n\<close> buffers created by \<open>OSA_bufCreate\<close>, as long as they give
  back only buffers they hold, every number of \<open>0..n-1\<close> is at exactly one place
  (empty queue, full queue or one client), and a client that gives a buffer back
  is never put to sleep and never refused, although both puts wait for ever.\<close>

theorem buf_conservation:
  assumes "0 \<le> n" "n \<le> int OSA_BUF_NUM_MAX" "length be = nat n" "length bf = nat n"
    and "OSA_bufCreate (Some be) [0, 0, 0, 0, 0] (Some bf) [0, 0, 0, 0, 0] n phys virt h00 = Some (st, h0)"
    and "buf_reach h0 (h, held)"
  shows "mset (que_elems (b_emptyQue h)) + mset (que_elems (b_fullQue h)) + held
      = image_mset int (mset [0..<nat n])
    \<and> (\<forall>i \<in># held. (\<exists>h' sig. OSA_bufPutFull i h = Return OSA_SOK h' sig)
      \<and> (\<exists>h' sig. OSA_bufPutEmpty i h = Return OSA_SOK h' sig))"
proof -
  from bufCreate_pool [OF assms(1-4), of phys virt h00] assms(5)
  have h0: "pool_ok (h0, {#})" "b_numBuf h0 = n" by auto
  have ok: "pool_ok (h, held)" using buf_reach_pool [OF assms(6) h0(1)] .
  have "b_numBuf h = n"
  proof -
    have "buf_reach h0 s \<Longrightarrow> pool_ok s \<and> b_numBuf (fst s) = n" for s
    proof (induction rule: buf_reach.induct)
      case buf_reach_init
      then show ?case using h0 by simp
    next
      case (buf_reach_step s s')
      have "b_numBuf (fst s') = b_numBuf (fst s)"
        using buf_reach_step(2,3)
      proof (cases rule: buf_step.cases)
        case (put_full i h h' sig held)
        with putFull_pool [of h held i] buf_reach_step(3) show ?thesis by auto
      next
        case (put_empty i h h' sig held)
        with putEmpty_pool [of h held i] buf_reach_step(3) show ?thesis by auto
      qed (use buf_reach_step(3) in
          \<open>auto dest: getEmpty_pool getFull_pool switchFull_pool(3) switchEmpty_pool(3)\<close>)
      with buf_reach_step buf_step_pool show ?case by auto
    qed
    with assms(6) show ?thesis by auto
  qed
  with ok show ?thesis
    by (auto simp: pool_ok_def intro: putFull_pool [OF ok] putEmpty_pool [OF ok])
qed

definition demo_pool :: osa_buf where
  "demo_pool = snd (the (OSA_bufCreate (Some [9, 9]) [0, 0, 0, 0, 0] (Some [9, 9]) [0, 0, 0, 0, 0]
     2 (\<lambda>i. 100 + i) (\<lambda>i. 200 + i) zero_buf))"

lemma demo_pool_simps:
  "OSA_bufCreate (Some [9, 9]) [0, 0, 0, 0, 0] (Some [9, 9]) [0, 0, 0, 0, 0]
     2 (\<lambda>i. 100 + i) (\<lambda>i. 200 + i) zero_buf = Some (OSA_SOK, demo_pool)"
  "b_numBuf demo_pool = 2"
  "b_emptyQue demo_pool = \<lparr>q_curRd = 0, q_curWr = 0, q_len = 2, q_count = 2, q_queue = [0, 1]\<rparr>"
  "b_fullQue demo_pool = \<lparr>q_curRd = 0, q_curWr = 0, q_len = 2, q_count = 0, q_queue = [9, 9]\<rparr>"
  by (simp_all add: demo_pool_def OSA_bufCreate_def OSA_queCreate_def OSA_quePut_def zero_buf_def
      const_defs upt_rec)

lemma buf_conservation_witness:
  "(\<exists>h' sig. OSA_bufPutFull 0 (demo_pool\<lparr>b_emptyQue :=
      \<lparr>q_curRd = 1, q_curWr = 0, q_len = 2, q_count = 1, q_queue = [0, 1]\<rparr>\<rparr>) = Return OSA_SOK h' sig)"
proof -
  let ?h = "demo_pool\<lparr>b_emptyQue := \<lparr>q_curRd = 1, q_curWr = 0, q_len = 2, q_count = 1, q_queue = [0, 1]\<rparr>\<rparr>"
  have "OSA_bufGetEmpty True 0 demo_pool = Return (OSA_SOK, 0) ?h (Some (OfEmpty CondWr))"
    by (simp add: OSA_bufGetEmpty_def OSA_queGet_def empty_pass_def get_id_def demo_pool_simps)
  then have "buf_step (demo_pool, {#}) (?h, {#0#})" by (rule buf_step.get_empty)
  then have "buf_reach demo_pool (?h, {#0#})" by (blast intro: buf_reach_init buf_reach_step)
  from buf_conservation [OF _ _ _ _ demo_pool_simps(1) this] show ?thesis
    by (simp add: const_defs)
qed

text \<open>\<open>OSA_bufGetBufInfo\<close> gives the slot of a valid number and NULL from
  \<open>numBuf\<close> up, but it has no lower bound: for every negative number, the
  library's own \<open>OSA_BUF_ID_INVALID\<close> among them, it gives an address before the
  array, where the two puts of the same file refuse the number.\<close>

theorem bufGetBufInfo_bounds:
  "OSA_bufGetBufInfo i h = (if i < b_numBuf h then Some i else None)
    \<and> (0 < b_numBuf h \<longrightarrow> OSA_bufGetBufInfo OSA_BUF_ID_INVALID h = Some (-1)
        \<and> OSA_bufPutFull OSA_BUF_ID_INVALID h = Return OSA_EFAIL h None
        \<and> OSA_bufPutEmpty OSA_BUF_ID_INVALID h = Return OSA_EFAIL h None)"
  by (simp add: OSA_bufGetBufInfo_def OSA_bufPutFull_def OSA_bufPutEmpty_def const_defs)

lemma bufGetBufInfo_bounds_witness: "OSA_bufGetBufInfo OSA_BUF_ID_INVALID demo_pool = Some (-1)"
  using bufGetBufInfo_bounds [of 0 demo_pool] by (simp add: demo_pool_simps)

end
