(* ===== verification/Osa_Sem.thy ===== *)
theory Osa_Sem
  imports Osa_Cond
begin

text \<open>The counting semaphore with a ceiling of libs/libosa/src/osa_sem.c.\<close>

section \<open>State and operations\<close>

record osa_sem =
  sem_count :: nat
  sem_maxCount :: nat

text \<open>\<open>inits\<close>: the results of the four pthread initialisers.\<close>

definition OSA_semCreate :: "int list \<Rightarrow> nat \<Rightarrow> nat \<Rightarrow> int \<times> osa_sem" where
  "OSA_semCreate inits maxCount initVal =
    (let mx = (if maxCount = 0 then 1 else maxCount) in
     (fold (\<lambda>r st. or st r) inits OSA_SOK,
      \<lparr>sem_count = (if initVal > mx then mx else initVal), sem_maxCount = mx\<rparr>))"

definition OSA_semWait :: "nat \<Rightarrow> osa_sem \<Rightarrow> (int, osa_sem, unit) pass" where
  "OSA_semWait timeout h =
    (if 0 < sem_count h then Return OSA_SOK (h\<lparr>sem_count := sem_count h - 1\<rparr>) None
     else if timeout = OSA_TIMEOUT_NONE then Return OSA_EFAIL h None
     else Wait ())"

text \<open>\<open>sig\<close> is what \<open>pthread_cond_signal\<close> returns.\<close>

definition OSA_semSignal :: "int \<Rightarrow> osa_sem \<Rightarrow> (int, osa_sem, unit) pass" where
  "OSA_semSignal sig h =
    (if sem_count h < sem_maxCount h
     then Return (or OSA_SOK sig) (h\<lparr>sem_count := sem_count h + 1\<rparr>) (Some ())
     else Return OSA_SOK h None)"

definition OSA_semDelete :: "osa_sem \<Rightarrow> int" where
  "OSA_semDelete h = OSA_SOK"

section \<open>Contract\<close>

datatype sem_op = SemWait nat | SemSignal

fun sem_body :: "sem_op \<Rightarrow> osa_sem \<Rightarrow> (int, osa_sem, unit) pass" where
  "sem_body (SemWait t) h = OSA_semWait t h"
| "sem_body SemSignal h = OSA_semSignal 0 h"

fun sem_waits :: "sem_op \<Rightarrow> unit \<Rightarrow> bool" where
  "sem_waits (SemWait t) c \<longleftrightarrow> t \<noteq> OSA_TIMEOUT_NONE"
| "sem_waits SemSignal c \<longleftrightarrow> False"

definition sem_ok :: "osa_sem \<Rightarrow> bool" where
  "sem_ok h \<longleftrightarrow> 0 < sem_maxCount h \<and> sem_count h \<le> sem_maxCount h"

lemma semCreate_ok: "sem_ok (snd (OSA_semCreate inits maxCount initVal))"
  by (simp add: OSA_semCreate_def sem_ok_def Let_def)

interpretation sem: monitor_contract sem_body "\<lambda>_. sem_count" sem_waits sem_ok
proof
  fix op s r s' sig and c :: unit
  assume "sem_ok s"
  {
    assume "sem_body op s = Wait c"
    then show "sem_count s = 0 \<and> sem_waits op c"
      by (cases op) (auto simp: OSA_semWait_def OSA_semSignal_def split: if_splits)
  next
    assume "sem_body op s = Return r s' sig"
    with \<open>sem_ok s\<close> show "sem_ok s'"
      by (cases op) (auto simp: OSA_semWait_def OSA_semSignal_def sem_ok_def split: if_splits)
  next
    assume "sem_body op s = Return r s' sig"
    then show "sem_count s' + (if sem_waits op c then 1 else 0)
        \<le> sem_count s + (if sig = Some c then 1 else 0)"
      by (cases op) (auto simp: OSA_semWait_def OSA_semSignal_def split: if_splits)
  }
qed simp

section \<open>Properties\<close>

text \<open>The accounting of a run of calls that do not sleep.\<close>

text \<open>No wake-up of a semaphore is lost: however threads interleave, the count
  always stays within the ceiling, and while a unit is available and a thread
  sleeps in \<open>OSA_semWait\<close>, a woken thread exists and its next pass returns.\<close>

theorem sem_no_lost_wakeup:
  assumes "mon_reach sem_body (snd (OSA_semCreate inits maxCount initVal)) m"
  shows "sem_count (mon_state m) \<le> sem_maxCount (mon_state m)
    \<and> (((), op) \<in># mon_asleep m \<longrightarrow> 0 < sem_count (mon_state m) \<longrightarrow>
      (\<exists>op' r h' sig. ((), op') \<in># mon_woken m \<and> sem_body op' (mon_state m) = Return r h' sig))"
proof -
  note ok = semCreate_ok [of inits maxCount initVal]
  show ?thesis
    using sem.reach_awake [OF assms ok] sem.no_lost_wakeup [OF assms ok]
      sem.woken_returns [OF assms ok]
    by (fastforce simp: sem.awake_enough_def sem_ok_def)
qed

text \<open>Two threads wait on a semaphore of two units, one unit is signalled.\<close>

lemma two_waiters_one_signal:
  fixes h0 :: osa_sem
  defines "h0 \<equiv> snd (OSA_semCreate [0, 0, 0, 0] 2 0)"
  shows "mon_reach sem_body h0 \<lparr>mon_state = \<lparr>sem_count = 1, sem_maxCount = 2\<rparr>,
    mon_asleep = {#((), SemWait 5)#}, mon_woken = {#((), SemWait 5)#}\<rparr>"
proof -
  have h0: "h0 = \<lparr>sem_count = 0, sem_maxCount = 2\<rparr>" by (simp add: h0_def OSA_semCreate_def)
  define m1 where "m1 = (mon_init h0)\<lparr>mon_asleep := {#((), SemWait 5)#}\<rparr>"
  define m2 where "m2 = m1\<lparr>mon_asleep := {#((), SemWait 5), ((), SemWait 5)#}\<rparr>"
  define m3 where "m3 = mon_wake ((), SemWait 5) (m2\<lparr>mon_state := \<lparr>sem_count = 1, sem_maxCount = 2\<rparr>\<rparr>)"
  have "mon_enter sem_body (SemWait 5) (mon_init h0) m1"
    using enter_wait [of sem_body "SemWait 5" "mon_init h0" "()"]
    by (simp add: m1_def h0 OSA_semWait_def const_defs)
  then have r1: "mon_reach sem_body h0 m1" by (blast intro: reach_init reach_step step_call)
  have "mon_enter sem_body (SemWait 5) m1 m2"
    using enter_wait [of sem_body "SemWait 5" m1 "()"]
    by (simp add: m1_def m2_def h0 OSA_semWait_def const_defs)
  with r1 have r2: "mon_reach sem_body h0 m2" by (blast intro: reach_step step_call)
  have "mon_signal (Some ()) (m2\<lparr>mon_state := \<lparr>sem_count = 1, sem_maxCount = 2\<rparr>\<rparr>) m3"
    unfolding m3_def by (rule signal_wake) (simp add: m2_def)
  then have "mon_enter sem_body SemSignal m2 m3"
    using enter_return [of sem_body SemSignal m2 OSA_SOK "\<lparr>sem_count = 1, sem_maxCount = 2\<rparr>" "Some ()" m3]
    by (simp add: m1_def m2_def h0 OSA_semSignal_def const_defs)
  with r2 have "mon_reach sem_body h0 m3" by (blast intro: reach_step step_call)
  then show ?thesis by (simp add: m3_def m2_def m1_def mon_wake_def mon_init_def)
qed

lemma sem_no_lost_wakeup_witness:
  "\<exists>op' r h' sig. ((), op') \<in># {#((), SemWait 5)#}
    \<and> sem_body op' \<lparr>sem_count = 1, sem_maxCount = 2\<rparr> = Return r h' sig"
  using sem_no_lost_wakeup [OF two_waiters_one_signal, of "SemWait 5"] by simp

end
