(* ===== verification/Osa_Event.thy ===== *)
theory Osa_Event
  imports Osa_Cond
begin

text \<open>The event flags of libs/libosa/src/osa_event.c.  The flags are an unsigned
  long, 32 bits wide on the target.  The results of the pthread calls are
  arguments, so that every error exit is a branch of the model.\<close>

unbundle bit_operations_syntax

section \<open>State and operations\<close>

datatype osa_event_op = OSA_EVENT_AND | OSA_EVENT_AND_CONSUME | OSA_EVENT_OR | OSA_EVENT_OR_CONSUME

record osa_event =
  ev_bSignaled :: bool
  ev_eFlags :: "32 word"

definition OSA_NO_SUSPEND :: "32 word" where [const_defs]: "OSA_NO_SUSPEND = 0"
definition OSA_SUSPEND :: "32 word" where [const_defs]: "OSA_SUSPEND = 0xFFFFFFFF"
definition ETIMEDOUT :: int where [const_defs]: "ETIMEDOUT = 110"

text \<open>\<open>alloc\<close>: the allocation succeeds; \<open>mi\<close>, \<open>ci\<close>: the results of the mutex and
  condition initialisers.  None: no event comes into being.\<close>

definition OSA_EventCreate :: "bool \<Rightarrow> int \<Rightarrow> int \<Rightarrow> int \<times> osa_event option" where
  "OSA_EventCreate alloc mi ci =
    (if \<not> alloc then (OSA_EFAIL, None)
     else if mi \<noteq> 0 then (OSA_EFAIL, None)
     else if ci \<noteq> 0 then (OSA_EFAIL, None)
     else (OSA_SOK, Some \<lparr>ev_bSignaled = False, ev_eFlags = 0\<rparr>))"

text \<open>The object is freed whatever the four pthread results are.\<close>

definition OSA_EventDelete :: "int \<Rightarrow> int \<Rightarrow> int \<Rightarrow> int \<Rightarrow> osa_event option \<Rightarrow> int" where
  "OSA_EventDelete lk cd ul md ev =
    (if ev = None then OSA_EFAIL
     else if lk \<noteq> 0 \<or> cd \<noteq> 0 \<or> ul \<noteq> 0 \<or> md \<noteq> 0 then OSA_EFAIL else OSA_SOK)"

definition OSA_EventSet :: "int \<Rightarrow> int \<Rightarrow> int \<Rightarrow> 32 word \<Rightarrow> osa_event_op \<Rightarrow> osa_event
    \<Rightarrow> (int, osa_event, unit) pass" where
  "OSA_EventSet lk sg ul flags eOperation ev =
    (if lk \<noteq> 0 then Return OSA_EFAIL ev None
     else let set = (\<lambda>fl. Return (if sg \<noteq> 0 \<or> ul \<noteq> 0 then OSA_EFAIL else OSA_SOK)
              (ev\<lparr>ev_eFlags := fl, ev_bSignaled := True\<rparr>) (if sg \<noteq> 0 then None else Some ())) in
     case eOperation of
       OSA_EVENT_AND \<Rightarrow> set (ev_eFlags ev AND flags)
     | OSA_EVENT_OR \<Rightarrow> set (ev_eFlags ev OR flags)
     | _ \<Rightarrow> Return OSA_EFAIL ev None)"

text \<open>\<open>isolatedFlags\<close>, non-zero when the request is met.\<close>

definition isolatedFlags :: "32 word \<Rightarrow> osa_event_op \<Rightarrow> osa_event \<Rightarrow> 32 word" where
  "isolatedFlags req eOperation ev =
    (let isolated = ev_eFlags ev AND req in
     if eOperation = OSA_EVENT_AND \<or> eOperation = OSA_EVENT_AND_CONSUME
     then (if isolated = req then 1 else 0) else isolated)"

text \<open>The common exit: consume the flags when the request is met, unlock.  The
  result pairs the status with what is stored in \<open>*pRetrievedEvents\<close>, None when
  nothing is.\<close>

definition retrieve_exit :: "int \<Rightarrow> osa_event_op \<Rightarrow> bool \<Rightarrow> int \<Rightarrow> 32 word option \<Rightarrow> osa_event
    \<Rightarrow> (int \<times> 32 word option, osa_event, unit) pass" where
  "retrieve_exit ul eOperation met st out ev =
    Return (if ul \<noteq> 0 then OSA_EFAIL else st, out)
      (if met \<and> (eOperation = OSA_EVENT_AND_CONSUME \<or> eOperation = OSA_EVENT_OR_CONSUME)
       then ev\<lparr>ev_eFlags := 0\<rparr> else ev) None"

text \<open>The pass from the call to its return or its first wait.\<close>

definition OSA_EventRetrieve :: "int \<Rightarrow> int \<Rightarrow> 32 word \<Rightarrow> osa_event_op \<Rightarrow> 32 word \<Rightarrow> osa_event
    \<Rightarrow> (int \<times> 32 word option, osa_event, unit) pass" where
  "OSA_EventRetrieve lk ul req eOperation timeout ev =
    (if lk \<noteq> 0 then Return (OSA_EFAIL, None) ev None
     else if isolatedFlags req eOperation ev \<noteq> 0
       then retrieve_exit ul eOperation True OSA_SOK (Some (ev_eFlags ev)) ev
     else if timeout = OSA_NO_SUSPEND
       then retrieve_exit ul eOperation False OSA_SOK (Some 0) ev
     else Wait ())"

text \<open>The pass after a wait has returned with status \<open>ws\<close>: the loop of
  \<open>pthread_cond_wait\<close> under \<open>OSA_SUSPEND\<close>, that of \<open>pthread_cond_timedwait\<close>
  otherwise.\<close>

definition OSA_EventRetrieve_resume :: "int \<Rightarrow> int \<Rightarrow> 32 word \<Rightarrow> osa_event_op \<Rightarrow> 32 word \<Rightarrow> osa_event
    \<Rightarrow> (int \<times> 32 word option, osa_event, unit) pass" where
  "OSA_EventRetrieve_resume ws ul req eOperation timeout ev =
    (if timeout = OSA_SUSPEND then
       (if isolatedFlags req eOperation ev \<noteq> 0
        then retrieve_exit ul eOperation True OSA_SOK (Some (ev_eFlags ev)) ev
        else Wait ())
     else if ws \<noteq> 0 then
       retrieve_exit ul eOperation False (if ws = ETIMEDOUT then OSA_SOK else OSA_EFAIL) (Some 0) ev
     else if isolatedFlags req eOperation ev \<noteq> 0
       then retrieve_exit ul eOperation True OSA_EFAIL None ev
     else Wait ())"

section \<open>Properties\<close>

text \<open>When a request is met.\<close>

lemma word_and_eq_iff:
  fixes a b :: "32 word"
  shows "a AND b = b \<longleftrightarrow> (\<forall>i. bit b i \<longrightarrow> bit a i)" "a AND b = 0 \<longleftrightarrow> (\<forall>i. bit b i \<longrightarrow> \<not> bit a i)"
proof -
  have "bit b i \<Longrightarrow> i < 32" for i using bit_imp_le_length [of b i] by simp
  then show "a AND b = b \<longleftrightarrow> (\<forall>i. bit b i \<longrightarrow> bit a i)" "a AND b = 0 \<longleftrightarrow> (\<forall>i. bit b i \<longrightarrow> \<not> bit a i)"
    by (auto simp: bit_eq_iff bit_and_iff)
qed

lemma isolatedFlags_met:
  "isolatedFlags req eOperation ev \<noteq> 0 \<longleftrightarrow>
    (if eOperation = OSA_EVENT_AND \<or> eOperation = OSA_EVENT_AND_CONSUME
     then \<forall>i. bit req i \<longrightarrow> bit (ev_eFlags ev) i
     else \<exists>i. bit req i \<and> bit (ev_eFlags ev) i)"
  by (simp add: isolatedFlags_def word_and_eq_iff)

text \<open>A call of \<open>OSA_EventRetrieve\<close> that finds its request met (every
  requested flag for the AND operations, some requested flag for the OR ones)
  returns at once with all flags; the CONSUME operations then clear the whole
  flag word, flags outside the mask included.  A call that does not find it met
  returns no flags under \<open>OSA_NO_SUSPEND\<close> and sleeps otherwise, leaving the
  flags alone.\<close>

theorem eventRetrieve_first_pass:
  "OSA_EventRetrieve 0 0 req eOperation timeout ev =
    (if (if eOperation = OSA_EVENT_AND \<or> eOperation = OSA_EVENT_AND_CONSUME
         then \<forall>i. bit req i \<longrightarrow> bit (ev_eFlags ev) i
         else \<exists>i. bit req i \<and> bit (ev_eFlags ev) i)
     then Return (OSA_SOK, Some (ev_eFlags ev))
       (if eOperation = OSA_EVENT_AND_CONSUME \<or> eOperation = OSA_EVENT_OR_CONSUME
        then ev\<lparr>ev_eFlags := 0\<rparr> else ev) None
     else if timeout = OSA_NO_SUSPEND then Return (OSA_SOK, Some 0) ev None
     else Wait ())"
  unfolding OSA_EventRetrieve_def retrieve_exit_def isolatedFlags_met by simp

lemma eventRetrieve_first_pass_witness:
  "OSA_EventRetrieve 0 0 2 OSA_EVENT_OR_CONSUME OSA_SUSPEND \<lparr>ev_bSignaled = True, ev_eFlags = 6\<rparr>
    = Return (OSA_SOK, Some 6) \<lparr>ev_bSignaled = True, ev_eFlags = 0\<rparr> None"
proof -
  have "\<exists>i. bit (2 :: 32 word) i \<and> bit (6 :: 32 word) i"
    by (rule exI [of _ 1]) (simp add: bit_iff_odd)
  then show ?thesis
    using eventRetrieve_first_pass [of 2 OSA_EVENT_OR_CONSUME OSA_SUSPEND "\<lparr>ev_bSignaled = True, ev_eFlags = 6\<rparr>"]
    by simp
qed

text \<open>After a timed wait (neither \<open>OSA_NO_SUSPEND\<close> nor \<open>OSA_SUSPEND\<close>) that
  ended because the request was met, \<open>OSA_EventRetrieve\<close> fails: it returns
  \<open>OSA_EFAIL\<close> and stores no flags, and the CONSUME operations clear the flag word
  all the same, so the events are lost.  The same situation under \<open>OSA_SUSPEND\<close>
  returns \<open>OSA_SOK\<close> with the flags.\<close>

theorem eventRetrieve_timed_wait:
  assumes "isolatedFlags req eOperation ev \<noteq> 0" "timeout \<noteq> OSA_SUSPEND"
  shows "OSA_EventRetrieve_resume 0 0 req eOperation timeout ev = Return (OSA_EFAIL, None)
       (if eOperation = OSA_EVENT_AND_CONSUME \<or> eOperation = OSA_EVENT_OR_CONSUME
        then ev\<lparr>ev_eFlags := 0\<rparr> else ev) None
    \<and> OSA_EventRetrieve_resume 0 0 req eOperation OSA_SUSPEND ev = Return (OSA_SOK, Some (ev_eFlags ev))
       (if eOperation = OSA_EVENT_AND_CONSUME \<or> eOperation = OSA_EVENT_OR_CONSUME
        then ev\<lparr>ev_eFlags := 0\<rparr> else ev) None"
  using assms by (simp add: OSA_EventRetrieve_resume_def retrieve_exit_def)

lemma eventRetrieve_timed_wait_witness:
  "OSA_EventRetrieve_resume 0 0 4 OSA_EVENT_OR_CONSUME 100 \<lparr>ev_bSignaled = True, ev_eFlags = 6\<rparr>
    = Return (OSA_EFAIL, None) \<lparr>ev_bSignaled = True, ev_eFlags = 0\<rparr> None"
  using eventRetrieve_timed_wait [of 4 OSA_EVENT_OR_CONSUME "\<lparr>ev_bSignaled = True, ev_eFlags = 6\<rparr>" 100]
  by (simp add: isolatedFlags_def const_defs)

text \<open>Threads that set flags and threads that wait for some without a time-out.\<close>

datatype event_call = EvSet "32 word" osa_event_op | EvWait "32 word" osa_event_op

fun event_body :: "event_call \<Rightarrow> osa_event \<Rightarrow> (int \<times> 32 word option, osa_event, unit) pass" where
  "event_body (EvSet fl eOperation) ev = map_ret (\<lambda>st. (st, None)) (OSA_EventSet 0 0 0 fl eOperation ev)"
| "event_body (EvWait req eOperation) ev = OSA_EventRetrieve 0 0 req eOperation OSA_SUSPEND ev"

text \<open>Under \<open>OSA_SUSPEND\<close> the pass after a wait is the first pass again, so that the
  step relation of the monitor describes the loop.\<close>

lemma event_resume_is_pass:
  "OSA_EventRetrieve_resume ws ul req eOperation OSA_SUSPEND ev = OSA_EventRetrieve 0 ul req eOperation OSA_SUSPEND ev"
  by (simp add: OSA_EventRetrieve_resume_def OSA_EventRetrieve_def const_defs)

text \<open>\<open>OSA_EventSet\<close> can lose a wake-up.  It signals one waiter, whatever that
  waiter waits for: from a fresh event with two threads waiting for different
  flags, a state is reachable in which the flag one of them waits for is set,
  that thread sleeps, and nobody is awake.\<close>

theorem event_lost_wakeup:
  "\<exists>m. mon_reach event_body \<lparr>ev_bSignaled = False, ev_eFlags = 0\<rparr> m
    \<and> mon_woken m = {#}
    \<and> (\<exists>req. ((), EvWait req OSA_EVENT_OR) \<in># mon_asleep m
        \<and> isolatedFlags req OSA_EVENT_OR (mon_state m) \<noteq> 0)"
proof -
  let ?b = event_body
  let ?w1 = "((), EvWait 1 OSA_EVENT_OR)" and ?w2 = "((), EvWait 2 OSA_EVENT_OR)"
  define e0 :: osa_event where "e0 = \<lparr>ev_bSignaled = False, ev_eFlags = 0\<rparr>"
  define e1 :: osa_event where "e1 = \<lparr>ev_bSignaled = True, ev_eFlags = 2\<rparr>"
  note defs = e0_def e1_def OSA_EventRetrieve_def OSA_EventSet_def isolatedFlags_def const_defs
  define m1 where "m1 = (mon_init e0)\<lparr>mon_asleep := {#?w1#}\<rparr>"
  define m2 where "m2 = m1\<lparr>mon_asleep := {#?w2, ?w1#}\<rparr>"
  define m3 where "m3 = mon_wake ?w1 (m2\<lparr>mon_state := e1\<rparr>)"
  define m4 where "m4 = m3\<lparr>mon_woken := {#}, mon_asleep := {#?w1, ?w2#}\<rparr>"
  have "mon_enter ?b (EvWait 1 OSA_EVENT_OR) (mon_init e0) m1"
    using enter_wait [of ?b "EvWait 1 OSA_EVENT_OR" "mon_init e0" "()"] by (simp add: m1_def defs)
  then have r1: "mon_reach ?b e0 m1" by (blast intro: reach_init reach_step step_call)
  have "mon_enter ?b (EvWait 2 OSA_EVENT_OR) m1 m2"
    using enter_wait [of ?b "EvWait 2 OSA_EVENT_OR" m1 "()"] by (simp add: m1_def m2_def defs)
  with r1 have r2: "mon_reach ?b e0 m2" by (blast intro: reach_step step_call)
  have "mon_signal (Some ()) (m2\<lparr>mon_state := e1\<rparr>) m3"
    unfolding m3_def by (rule signal_wake) (simp add: m2_def)
  then have "mon_enter ?b (EvSet 2 OSA_EVENT_OR) m2 m3"
    using enter_return [of ?b "EvSet 2 OSA_EVENT_OR" m2 "(OSA_SOK, None)" e1 "Some ()" m3]
    by (simp add: m1_def m2_def defs)
  with r2 have r3: "mon_reach ?b e0 m3" by (blast intro: reach_step step_call)
  have "mon_enter ?b (EvWait 1 OSA_EVENT_OR) (m3\<lparr>mon_woken := mon_woken m3 - {#?w1#}\<rparr>) m4"
    using enter_wait [of ?b "EvWait 1 OSA_EVENT_OR" "m3\<lparr>mon_woken := mon_woken m3 - {#?w1#}\<rparr>" "()"]
    by (simp add: m1_def m2_def m3_def m4_def mon_wake_def defs)
  then have "mon_step ?b m3 m4"
    by (rule step_resume [rotated]) (simp add: m3_def m2_def m1_def)
  with r3 have "mon_reach ?b e0 m4" by (rule reach_step)
  moreover have "mon_woken m4 = {#}" "?w2 \<in># mon_asleep m4" "isolatedFlags 2 OSA_EVENT_OR (mon_state m4) \<noteq> 0"
    by (simp_all add: m4_def m3_def defs)
  ultimately show ?thesis unfolding e0_def by blast
qed

end
