(* ===== verification/Osa_Msgq.thy ===== *)
theory Osa_Msgq
  imports Osa_Fifo
begin

text \<open>The message queues of libs/libosa/src/osa_msgq.c: rings of 32 message
  pointers, and the life of a message (allocate, send, receive, acknowledge to
  the sender's queue, free).  Messages and queues are named by numbers that
  stand for their addresses.\<close>

section \<open>One queue\<close>

definition OSA_MSGQ_LEN_MAX :: nat where [const_defs]: "OSA_MSGQ_LEN_MAX = 32"

type_synonym msg_ptr = nat
type_synonym msgq_ptr = nat

record osa_msgq =
  mq_curRd :: nat
  mq_curWr :: nat
  mq_len :: nat
  mq_count :: nat
  mq_queue :: "msg_ptr list"

text \<open>\<open>array\<close>: what the embedded array holds before; it is not cleared.\<close>

definition OSA_msgqCreate :: "msg_ptr list \<Rightarrow> int list \<Rightarrow> int \<times> osa_msgq" where
  "OSA_msgqCreate array inits =
    (fold (\<lambda>r st. or st r) inits OSA_SOK,
     \<lparr>mq_curRd = 0, mq_curWr = 0, mq_len = OSA_MSGQ_LEN_MAX, mq_count = 0, mq_queue = array\<rparr>)"

definition OSA_msgqDelete :: "osa_msgq \<Rightarrow> int" where
  "OSA_msgqDelete h = OSA_SOK"

definition OSA_msgqSend :: "msg_ptr \<Rightarrow> nat \<Rightarrow> osa_msgq \<Rightarrow> (int, osa_msgq, rw_cond) pass" where
  "OSA_msgqSend msg timeout h =
    (if mq_count h < mq_len h then
       Return OSA_SOK
         (h\<lparr>mq_queue := (mq_queue h)[mq_curWr h := msg],
            mq_curWr := (mq_curWr h + 1) mod mq_len h,
            mq_count := mq_count h + 1\<rparr>) (Some CondRd)
     else if timeout = OSA_TIMEOUT_NONE then Return OSA_EFAIL h None
     else Wait CondWr)"

definition OSA_msgqRecvMsg :: "bool \<Rightarrow> nat \<Rightarrow> osa_msgq \<Rightarrow> (int \<times> msg_ptr option, osa_msgq, rw_cond) pass" where
  "OSA_msgqRecvMsg want timeout h =
    (if 0 < mq_count h then
       Return (OSA_SOK, if want then Some (mq_queue h ! mq_curRd h) else None)
         (h\<lparr>mq_curRd := (mq_curRd h + 1) mod mq_len h, mq_count := mq_count h - 1\<rparr>) (Some CondWr)
     else if timeout = OSA_TIMEOUT_NONE then Return (OSA_EFAIL, None) h None
     else Wait CondRd)"

definition msgq_ok :: "osa_msgq \<Rightarrow> bool" where
  "msgq_ok h \<longleftrightarrow> length (mq_queue h) = mq_len h \<and> mq_len h = OSA_MSGQ_LEN_MAX
    \<and> mq_count h \<le> mq_len h \<and> mq_curRd h < mq_len h
    \<and> mq_curWr h = (mq_curRd h + mq_count h) mod mq_len h"

definition msgq_elems :: "osa_msgq \<Rightarrow> msg_ptr list" where
  "msgq_elems h = ring_list (mq_queue h) (mq_curRd h) (mq_len h) (mq_count h)"

lemma length_msgq_elems [simp]: "length (msgq_elems h) = mq_count h"
  by (simp add: msgq_elems_def)

lemma msgqCreate_ok:
  assumes "length array = OSA_MSGQ_LEN_MAX"
  shows "msgq_ok (snd (OSA_msgqCreate array inits))"
    and "msgq_elems (snd (OSA_msgqCreate array inits)) = []"
    and "mq_len (snd (OSA_msgqCreate array inits)) = OSA_MSGQ_LEN_MAX"
  using assms by (simp_all add: OSA_msgqCreate_def msgq_ok_def msgq_elems_def const_defs)

interpretation msgq: bounded_fifo OSA_msgqSend "OSA_msgqRecvMsg True" msgq_elems mq_len msgq_ok
proof
  fix h assume ok: "msgq_ok h"
  show "length (msgq_elems h) \<le> mq_len h" using ok by (simp add: msgq_ok_def)
  show "\<exists>h'. OSA_msgqSend v t h = Return OSA_SOK h' (Some CondRd) \<and> msgq_ok h'
      \<and> msgq_elems h' = msgq_elems h @ [v] \<and> mq_len h' = mq_len h"
    if "length (msgq_elems h) < mq_len h" for v t
    using ok that ring_wr_step [of "mq_curRd h" "mq_count h" "mq_len h"]
      ring_list_put [of "mq_count h" "mq_len h" "mq_queue h" "mq_curRd h" v]
    by (auto simp: OSA_msgqSend_def msgq_ok_def msgq_elems_def)
  show "OSA_msgqSend v t h = (if t = OSA_TIMEOUT_NONE then Return OSA_EFAIL h None else Wait CondWr)"
    if "length (msgq_elems h) = mq_len h" for v t
    using that by (simp add: OSA_msgqSend_def)
  show "\<exists>h'. OSA_msgqRecvMsg True t h = Return (OSA_SOK, Some x) h' (Some CondWr) \<and> msgq_ok h'
      \<and> msgq_elems h' = xs \<and> mq_len h' = mq_len h"
    if elems: "msgq_elems h = x # xs" for x xs t
  proof -
    have pos: "0 < mq_count h" using arg_cong [OF elems, of length] by simp
    have bound: "mq_curRd h < mq_len h" using ok by (simp add: msgq_ok_def)
    show ?thesis
      using ok elems pos ring_list_get [OF pos bound, of "mq_queue h"]
        ring_rd_step [OF pos, of "mq_curRd h" "mq_len h"]
      by (auto simp: OSA_msgqRecvMsg_def msgq_ok_def msgq_elems_def)
  qed
  show "OSA_msgqRecvMsg True t h =
      (if t = OSA_TIMEOUT_NONE then Return (OSA_EFAIL, None) h None else Wait CondRd)"
    if "msgq_elems h = []" for t
    using arg_cong [OF that, of length] by (simp add: OSA_msgqRecvMsg_def)
qed

section \<open>Messages\<close>

record osa_msg =
  msg_pTo :: msgq_ptr
  msg_pFrom :: msgq_ptr
  msg_pPrm :: nat
  msg_status :: int
  msg_cmd :: nat
  msg_flags :: nat

record msg_world =
  mw_ques :: "msgq_ptr \<Rightarrow> osa_msgq"
  mw_msgs :: "msg_ptr \<rightharpoonup> osa_msg"

text \<open>\<open>alloc\<close> is what \<open>OSA_memAlloc\<close> returns, None for NULL.  \<open>cmd\<close> and
  \<open>msgFlags\<close> are Uint16.\<close>

definition OSA_msgqAllocMsgHndl :: "msg_ptr option \<Rightarrow> msgq_ptr \<Rightarrow> msgq_ptr \<Rightarrow> nat \<Rightarrow> nat \<Rightarrow> nat
    \<Rightarrow> msg_world \<Rightarrow> msg_ptr option \<times> msg_world" where
  "OSA_msgqAllocMsgHndl alloc to from cmd prm msgFlags w =
    (case alloc of None \<Rightarrow> (None, w)
     | Some p \<Rightarrow> (Some p, w\<lparr>mw_msgs := (mw_msgs w)(p \<mapsto>
         \<lparr>msg_pTo = to, msg_pFrom = from, msg_pPrm = prm, msg_status = OSA_SOK,
          msg_cmd = cmd mod 2 ^ 16, msg_flags = msgFlags mod 2 ^ 16\<rparr>)\<rparr>))"

text \<open>Sending to a queue of the world; the condition carries the queue.\<close>

definition send_to :: "msgq_ptr \<Rightarrow> msg_ptr \<Rightarrow> nat \<Rightarrow> msg_world \<Rightarrow> (int, msg_world, msgq_ptr \<times> rw_cond) pass" where
  "send_to q p timeout w = lift_pass (\<lambda>h. w\<lparr>mw_ques := (mw_ques w)(q := h)\<rparr>) (Pair q)
     (OSA_msgqSend p timeout (mw_ques w q))"

text \<open>The result pairs the status with the message stored through \<open>msg\<close>, if that
  pointer is not NULL and the call succeeds.\<close>

definition OSA_msgqSendMsg :: "msg_ptr option \<Rightarrow> msgq_ptr \<Rightarrow> msgq_ptr \<Rightarrow> nat \<Rightarrow> nat \<Rightarrow> nat \<Rightarrow> bool
    \<Rightarrow> msg_world \<Rightarrow> (int \<times> msg_ptr option, msg_world, msgq_ptr \<times> rw_cond) pass" where
  "OSA_msgqSendMsg alloc to from cmd prm msgFlags want w =
    (case OSA_msgqAllocMsgHndl alloc to from cmd prm msgFlags w of
       (None, w1) \<Rightarrow> Return (OSA_EFAIL, None) w1 None
     | (Some data, w1) \<Rightarrow>
         map_ret (\<lambda>st. (st, if st = OSA_SOK \<and> want then Some data else None))
           (send_to to data OSA_TIMEOUT_FOREVER w1))"

text \<open>None: the message pointer is dangling.\<close>

definition OSA_msgqSendAck :: "msg_ptr \<Rightarrow> int \<Rightarrow> msg_world
    \<Rightarrow> (int, msg_world, msgq_ptr \<times> rw_cond) pass option" where
  "OSA_msgqSendAck p ackRetVal w = (case mw_msgs w p of None \<Rightarrow> None
     | Some msg \<Rightarrow>
         Some (send_to (msg_pFrom msg) p OSA_TIMEOUT_FOREVER
           (w\<lparr>mw_msgs := (mw_msgs w)(p \<mapsto> msg\<lparr>msg_status := ackRetVal\<rparr>)\<rparr>)))"

definition OSA_msgqFreeMsgHndl :: "msg_ptr \<Rightarrow> msg_world \<Rightarrow> int \<times> msg_world" where
  "OSA_msgqFreeMsgHndl p w = (OSA_SOK, w\<lparr>mw_msgs := (mw_msgs w)(p := None)\<rparr>)"

lemma send_to_room:
  assumes "msgq_ok (mw_ques w q)" "mq_count (mw_ques w q) < mq_len (mw_ques w q)"
  obtains h where "send_to q p t w = Return OSA_SOK (w\<lparr>mw_ques := (mw_ques w)(q := h)\<rparr>) (Some (q, CondRd))"
    "msgq_ok h" "msgq_elems h = msgq_elems (mw_ques w q) @ [p]"
  using msgq.put_room [OF assms(1), of p t] assms(2) by (auto simp: send_to_def)

section \<open>Properties\<close>

text \<open>A message queue is a first-in first-out list of at most 32 messages: any
  sequence of sends and receives on a created queue returns what the list would.\<close>

theorem msgq_refines_fifo:
  assumes "length array = OSA_MSGQ_LEN_MAX"
  shows "map_option (\<lambda>(rs, h). (rs, msgq_elems h))
      (run_body (fifo_body OSA_msgqSend (OSA_msgqRecvMsg True)) ops (snd (OSA_msgqCreate array inits)))
    = spec_run 32 ops []"
  using msgq.run_refines [OF msgqCreate_ok(1) [OF assms], of ops inits] msgqCreate_ok(2,3) [OF assms]
  by (simp add: const_defs)

lemma msgq_refines_fifo_witness:
  "map_option (\<lambda>(rs, h). (rs, msgq_elems h))
      (run_body (fifo_body OSA_msgqSend (OSA_msgqRecvMsg True)) [FPut 3 0, FPut 4 0, FGet 0]
        (snd (OSA_msgqCreate (replicate 32 0) [0, 0, 0, 0, 0])))
    = Some ([(0, None), (0, None), (0, Some 3)], [4])"
  using msgq_refines_fifo [of "replicate 32 0" "[FPut 3 0, FPut 4 0, FGet 0]" "[0, 0, 0, 0, 0]"]
  by (simp add: const_defs)

text \<open>The request and acknowledge round trip: a message sent to a queue with
  room by a sender whose own queue is empty is received intact, and
  after \<open>OSA_msgqSendAck\<close> the sender receives the very same message, with the
  same command and parameter, and the acknowledged status.\<close>

theorem msgq_ack_roundtrip:
  assumes ok: "msgq_ok (mw_ques w to)" "msgq_ok (mw_ques w from)" and neq: "to \<noteq> from"
    and empty: "msgq_elems (mw_ques w to) = []" "msgq_elems (mw_ques w from) = []"
    and cmd: "cmd < 2 ^ 16"
  shows "\<exists>w1 w2 w3 h1 h2 sg msg.
      OSA_msgqSendMsg (Some p) to from cmd prm fl True w = Return (OSA_SOK, Some p) w1 (Some (to, CondRd))
    \<and> OSA_msgqRecvMsg True t (mw_ques w1 to) = Return (OSA_SOK, Some p) h1 (Some CondWr)
    \<and> w2 = w1\<lparr>mw_ques := (mw_ques w1)(to := h1)\<rparr>
    \<and> OSA_msgqSendAck p ack w2 = Some (Return OSA_SOK w3 (Some (from, CondRd)))
    \<and> OSA_msgqRecvMsg True t (mw_ques w3 from) = Return (OSA_SOK, Some p) h2 sg
    \<and> mw_msgs w3 p = Some msg \<and> msg_status msg = ack \<and> msg_cmd msg = cmd \<and> msg_pPrm msg = prm
    \<and> msgq_elems h1 = [] \<and> msgq_elems h2 = []"
proof -
  let ?m = "\<lparr>msg_pTo = to, msg_pFrom = from, msg_pPrm = prm, msg_status = OSA_SOK,
          msg_cmd = cmd, msg_flags = fl mod 2 ^ 16\<rparr>"
  let ?w0 = "w\<lparr>mw_msgs := (mw_msgs w)(p \<mapsto> ?m)\<rparr>"
  have room: "mq_count (mw_ques w q) < mq_len (mw_ques w q)" if "q = to \<or> q = from" for q
    using that ok arg_cong [OF empty(1), of length] arg_cong [OF empty(2), of length]
    by (auto simp: msgq_ok_def const_defs)
  obtain q1 where q1: "send_to to p OSA_TIMEOUT_FOREVER ?w0
      = Return OSA_SOK (?w0\<lparr>mw_ques := (mw_ques w)(to := q1)\<rparr>) (Some (to, CondRd))"
    "msgq_ok q1" "msgq_elems q1 = [p]"
    using send_to_room [of ?w0 to p OSA_TIMEOUT_FOREVER] ok room empty by auto
  let ?w1 = "?w0\<lparr>mw_ques := (mw_ques w)(to := q1)\<rparr>"
  have send: "OSA_msgqSendMsg (Some p) to from cmd prm fl True w
      = Return (OSA_SOK, Some p) ?w1 (Some (to, CondRd))"
    using q1(1) cmd by (simp add: OSA_msgqSendMsg_def OSA_msgqAllocMsgHndl_def)
  obtain h1 where h1: "OSA_msgqRecvMsg True t q1 = Return (OSA_SOK, Some p) h1 (Some CondWr)"
    "msgq_elems h1 = []"
    using msgq.get_elem [OF q1(2,3), of t] by auto
  let ?w2 = "?w1\<lparr>mw_ques := (mw_ques ?w1)(to := h1)\<rparr>"
  let ?w2' = "?w2\<lparr>mw_msgs := (mw_msgs ?w2)(p \<mapsto> ?m\<lparr>msg_status := ack\<rparr>)\<rparr>"
  obtain q2 where q2: "send_to from p OSA_TIMEOUT_FOREVER ?w2'
      = Return OSA_SOK (?w2'\<lparr>mw_ques := (mw_ques ?w2')(from := q2)\<rparr>) (Some (from, CondRd))"
    "msgq_ok q2" "msgq_elems q2 = [p]"
    using send_to_room [of ?w2' "from" p OSA_TIMEOUT_FOREVER] ok room empty neq by auto
  let ?w3 = "?w2'\<lparr>mw_ques := (mw_ques ?w2')(from := q2)\<rparr>"
  have ack: "OSA_msgqSendAck p ack ?w2 = Some (Return OSA_SOK ?w3 (Some (from, CondRd)))"
    using q2(1) by (simp add: OSA_msgqSendAck_def)
  obtain h2 where h2: "OSA_msgqRecvMsg True t q2 = Return (OSA_SOK, Some p) h2 (Some CondWr)"
    "msgq_elems h2 = []"
    using msgq.get_elem [OF q2(2,3), of t] by auto
  show ?thesis
    by (rule exI [of _ ?w1], rule exI [of _ ?w2], rule exI [of _ ?w3], rule exI [of _ h1],
        rule exI [of _ h2], rule exI [of _ "Some CondWr"], rule exI [of _ "?m\<lparr>msg_status := ack\<rparr>"])
       (use send h1 ack h2 in simp)
qed

definition demo_world :: msg_world where
  "demo_world = \<lparr>mw_ques = (\<lambda>_. snd (OSA_msgqCreate (replicate 32 0) [])), mw_msgs = (\<lambda>_. None)\<rparr>"

lemma msgq_ack_roundtrip_witness:
  "\<exists>w1 sg. OSA_msgqSendMsg (Some 7) 1 2 3 4 0 True demo_world = Return (OSA_SOK, Some 7) w1 sg"
  using msgq_ack_roundtrip [of demo_world 1 2 3 7 4 0 0 0]
    msgqCreate_ok [of "replicate 32 0" "[]"]
  by (auto simp: demo_world_def const_defs)

end
