(* ===== verification/Osa_Mbx.thy ===== *)
theory Osa_Mbx
  imports Osa_Msgq
begin

text \<open>The mailboxes of libs/libosa/src/osa_mbx.c: two message queues, one for requests
  and one for the acknowledgements of the owner's own requests.  Who frees
  the parameter a message carries depends on the flags of the message.  A call runs until
  it returns or blocks in a queue; then other threads run and the call goes on from
  there.

  \<open>OSA_DEBUG_MODE\<close> is not defined (libs/libosa/include/osa.h), so that \<open>OSA_assert\<close> and
  \<open>OSA_assertSuccess\<close> expand to nothing and their arguments are not evaluated: the
  call that frees a message, which is such an argument, is not made, a request
  for an acknowledgement without a mailbox to send it to goes on, and so does a send whose
  message could not be allocated.\<close>

unbundle bit_operations_syntax

section \<open>State\<close>

definition OSA_MBX_WAIT_ACK :: nat where [const_defs]: "OSA_MBX_WAIT_ACK = 2"
definition OSA_MBX_FREE_PRM :: nat where [const_defs]: "OSA_MBX_FREE_PRM = 4"
definition OSA_MBX_BROADCAST_MAX :: nat where [const_defs]: "OSA_MBX_BROADCAST_MAX = 10"

text \<open>Mailbox \<open>b\<close> from 1 on has its queues at the addresses \<open>2 b\<close> and \<open>2 b + 1\<close>; the queue
  address 0 is NULL.\<close>

definition rcvMbx :: "nat \<Rightarrow> msgq_ptr" where "rcvMbx b = 2 * b"
definition ackMbx :: "nat \<Rightarrow> msgq_ptr" where "ackMbx b = 2 * b + 1"

text \<open>Messages and queues, and the parameter blocks on the heap; 0 is NULL.\<close>

record mbx_world =
  mx_world :: msg_world
  mx_heap :: "nat set"

abbreviation mx_que :: "mbx_world \<Rightarrow> msgq_ptr \<Rightarrow> osa_msgq" where
  "mx_que x q \<equiv> mw_ques (mx_world x) q"

abbreviation mx_msg :: "mbx_world \<Rightarrow> msg_ptr \<Rightarrow> osa_msg option" where
  "mx_msg x p \<equiv> mw_msgs (mx_world x) p"

definition put_que :: "msgq_ptr \<Rightarrow> osa_msgq \<Rightarrow> mbx_world \<Rightarrow> mbx_world" where
  "put_que q h x = x\<lparr>mx_world := (mx_world x)\<lparr>mw_ques := (mw_ques (mx_world x))(q := h)\<rparr>\<rparr>"

text \<open>\<open>Fault\<close>: memory is freed twice, or an access goes through NULL, through an
  uninitialised pointer or past an array.\<close>

datatype 'a mbx_out = Done 'a mbx_world | Block msgq_ptr rw_cond mbx_world | Fault

section \<open>Operations\<close>

definition OSA_mbxCreate :: "nat \<Rightarrow> msg_ptr list \<Rightarrow> int list \<Rightarrow> mbx_world \<Rightarrow> int \<times> mbx_world" where
  "OSA_mbxCreate b array inits x =
    (let (s1, h1) = OSA_msgqCreate array inits; (s2, h2) = OSA_msgqCreate array inits
     in (or s1 s2, put_que (ackMbx b) h2 (put_que (rcvMbx b) h1 x)))"

text \<open>The results of the two deletes are not looked at.\<close>

definition OSA_mbxDelete :: "nat \<Rightarrow> mbx_world \<Rightarrow> int" where
  "OSA_mbxDelete b x =
    (let s1 = OSA_msgqDelete (mx_que x (rcvMbx b)); s2 = OSA_msgqDelete (mx_que x (ackMbx b)) in OSA_SOK)"

text \<open>Only the parameter is freed.  None: there is no such message, or its parameter has
  been freed before.\<close>

definition OSA_mbxFreeMsg :: "msg_ptr \<Rightarrow> mbx_world \<Rightarrow> mbx_world option" where
  "OSA_mbxFreeMsg p x =
    (case mx_msg x p of None \<Rightarrow> None
     | Some m \<Rightarrow>
         if msg_flags m AND OSA_MBX_FREE_PRM \<noteq> 0 \<and> msg_pPrm m \<noteq> 0
         then (if msg_pPrm m \<in> mx_heap x then Some (x\<lparr>mx_heap := mx_heap x - {msg_pPrm m}\<rparr>) else None)
         else Some x)"

text \<open>A send and a receive on one of the queues.\<close>

definition mbx_send :: "msgq_ptr \<Rightarrow> msg_ptr \<Rightarrow> mbx_world \<Rightarrow> int mbx_out" where
  "mbx_send q p x =
    (case OSA_msgqSend p OSA_TIMEOUT_FOREVER (mx_que x q) of
       Return st h sig \<Rightarrow> Done st (put_que q h x)
     | Wait c \<Rightarrow> Block q c x)"

definition mbx_recv :: "msgq_ptr \<Rightarrow> nat \<Rightarrow> mbx_world \<Rightarrow> (int \<times> msg_ptr option) mbx_out" where
  "mbx_recv q timeout x =
    (case OSA_msgqRecvMsg True timeout (mx_que x q) of
       Return r h sig \<Rightarrow> Done r (put_que q h x)
     | Wait c \<Rightarrow> Block q c x)"

text \<open>The first part of \<open>OSA_mbxSendMsg\<close>, up to the wait.  The result names the message
  to wait for, if there is a wait.  \<open>junk\<close> is what the uninitialised local \<open>pSentMsg\<close> holds,
  which a send that fails does not set.\<close>

definition OSA_mbxSendMsg_post :: "msg_ptr option \<Rightarrow> msg_ptr \<Rightarrow> nat \<Rightarrow> nat option \<Rightarrow> nat \<Rightarrow> nat \<Rightarrow> nat \<Rightarrow> mbx_world
    \<Rightarrow> (int \<times> msg_ptr option) mbx_out" where
  "OSA_mbxSendMsg_post alloc junk to from cmd prm flags x =
    (let ack = (case from of None \<Rightarrow> 0 | Some b \<Rightarrow> ackMbx b);
         waits = (flags AND OSA_MBX_WAIT_ACK \<noteq> 0 \<and> ack \<noteq> 0)
     in case OSA_msgqAllocMsgHndl alloc (rcvMbx to) ack cmd prm flags (mx_world x) of
         (None, w1) \<Rightarrow> Done (OSA_EFAIL, if waits then Some junk else None) (x\<lparr>mx_world := w1\<rparr>)
       | (Some p, w1) \<Rightarrow>
           case mbx_send (rcvMbx to) p (x\<lparr>mx_world := w1\<rparr>) of
             Done st x1 \<Rightarrow> Done (st, if waits then Some (if st = OSA_SOK then p else junk) else None) x1
           | Block q c x1 \<Rightarrow> Block q c x1
           | Fault \<Rightarrow> Fault)"

lemma FreeMsg_ques: "OSA_mbxFreeMsg p x = Some y \<Longrightarrow> mw_ques (mx_world y) = mw_ques (mx_world x)"
  by (auto simp: OSA_mbxFreeMsg_def split: option.splits if_splits)

lemma mbx_recv_shrinks:
  "mbx_recv q t x = Done (st, Some p) y \<Longrightarrow> mq_count (mx_que y q) < mq_count (mx_que x q)"
  by (auto simp: mbx_recv_def OSA_msgqRecvMsg_def put_que_def split: if_splits)

text \<open>The wait for the acknowledgement of \<open>sent\<close>: acknowledgements of other messages are
  dropped, with their parameters freed.  It ends because every round takes a message out of the queue.\<close>

function OSA_mbxSendMsg_wait :: "msgq_ptr \<Rightarrow> msg_ptr \<Rightarrow> mbx_world \<Rightarrow> int mbx_out" where
  "OSA_mbxSendMsg_wait ackq sent x =
    (case mbx_recv ackq OSA_TIMEOUT_FOREVER x of
       Done (st, None) x1 \<Rightarrow> Fault
     | Done (st, Some p) x1 \<Rightarrow>
         (case mx_msg x1 p of None \<Rightarrow> Fault
          | Some m \<Rightarrow>
              case OSA_mbxFreeMsg p x1 of None \<Rightarrow> Fault
              | Some x2 \<Rightarrow> if p = sent then Done (msg_status m) x2 else OSA_mbxSendMsg_wait ackq sent x2)
     | Block q c x1 \<Rightarrow> Block q c x1
     | Fault \<Rightarrow> Fault)"
  by pat_completeness auto
termination
  by (relation "measure (\<lambda>(q, p, x). mq_count (mx_que x q))") (auto dest!: mbx_recv_shrinks FreeMsg_ques)

declare OSA_mbxSendMsg_wait.simps [simp del]

definition OSA_mbxSendMsg :: "msg_ptr option \<Rightarrow> msg_ptr \<Rightarrow> nat \<Rightarrow> nat option \<Rightarrow> nat \<Rightarrow> nat \<Rightarrow> nat \<Rightarrow> mbx_world \<Rightarrow> int mbx_out" where
  "OSA_mbxSendMsg alloc junk to from cmd prm flags x =
    (case OSA_mbxSendMsg_post alloc junk to from cmd prm flags x of
       Done (st, None) x1 \<Rightarrow> Done st x1
     | Done (st, Some p) x1 \<Rightarrow> OSA_mbxSendMsg_wait (ackMbx (the from)) p x1
     | Block q c x1 \<Rightarrow> Block q c x1
     | Fault \<Rightarrow> Fault)"

definition OSA_mbxWaitMsg :: "nat \<Rightarrow> mbx_world \<Rightarrow> (int \<times> msg_ptr option) mbx_out" where
  "OSA_mbxWaitMsg b x = mbx_recv (rcvMbx b) OSA_TIMEOUT_FOREVER x"

definition OSA_mbxCheckMsg :: "nat \<Rightarrow> mbx_world \<Rightarrow> (int \<times> msg_ptr option) mbx_out" where
  "OSA_mbxCheckMsg b x = mbx_recv (rcvMbx b) OSA_TIMEOUT_NONE x"

text \<open>The acknowledgement is a send to the queue the message came from.\<close>

definition OSA_mbxAckOrFreeMsg :: "msg_ptr option \<Rightarrow> int \<Rightarrow> mbx_world \<Rightarrow> int mbx_out" where
  "OSA_mbxAckOrFreeMsg pMsg ackRetVal x =
    (case pMsg of None \<Rightarrow> Done OSA_EFAIL x
     | Some p \<Rightarrow>
         case mx_msg x p of None \<Rightarrow> Fault
         | Some m \<Rightarrow>
             if msg_flags m AND OSA_MBX_WAIT_ACK \<noteq> 0 then
               if msg_pFrom m = 0 then Fault
               else mbx_send (msg_pFrom m) p
                 (x\<lparr>mx_world := (mx_world x)\<lparr>mw_msgs := (mw_msgs (mx_world x))(p \<mapsto> m\<lparr>msg_status := ackRetVal\<rparr>)\<rparr>\<rparr>)
             else (case OSA_mbxFreeMsg p x of None \<Rightarrow> Fault | Some x1 \<Rightarrow> Done OSA_SOK x1))"

text \<open>A loop that may, for messages of an arbitrary origin, not end: None.  \<open>want\<close>: the
  caller takes the message over.\<close>

partial_function (option) OSA_mbxWaitCmd :: "nat \<Rightarrow> bool \<Rightarrow> nat \<Rightarrow> mbx_world \<Rightarrow> (int \<times> msg_ptr option) mbx_out option" where
  "OSA_mbxWaitCmd b want waitCmd x =
    (case OSA_mbxWaitMsg b x of
       Done (st, None) x1 \<Rightarrow> Some Fault
     | Done (st, Some p) x1 \<Rightarrow>
         (case mx_msg x1 p of None \<Rightarrow> Some Fault
          | Some m \<Rightarrow>
              if msg_cmd m = waitCmd \<and> want then Some (Done (OSA_SOK, Some p) x1)
              else (case OSA_mbxAckOrFreeMsg (Some p) OSA_SOK x1 of
                      Done st x2 \<Rightarrow> if msg_cmd m = waitCmd then Some (Done (OSA_SOK, None) x2)
                                    else OSA_mbxWaitCmd b want waitCmd x2
                    | Block q c x2 \<Rightarrow> Some (Block q c x2)
                    | Fault \<Rightarrow> Some Fault))
     | Block q c x1 \<Rightarrow> Some (Block q c x1)
     | Fault \<Rightarrow> Some Fault)"

text \<open>The two loops of \<open>OSA_mbxFlush\<close>.\<close>

partial_function (option) flush_rcv :: "nat \<Rightarrow> mbx_world \<Rightarrow> int mbx_out option" where
  "flush_rcv b x =
    (case OSA_mbxCheckMsg b x of
       Done (st, got) x1 \<Rightarrow>
         if st \<noteq> OSA_SOK then Some (Done st x1)
         else (case OSA_mbxAckOrFreeMsg got OSA_SOK x1 of
                 Done st1 x2 \<Rightarrow> flush_rcv b x2
               | Block q c x2 \<Rightarrow> Some (Block q c x2)
               | Fault \<Rightarrow> Some Fault)
     | Block q c x1 \<Rightarrow> Some (Block q c x1)
     | Fault \<Rightarrow> Some Fault)"

function flush_ack :: "nat \<Rightarrow> mbx_world \<Rightarrow> int mbx_out" where
  "flush_ack b x =
    (case mbx_recv (ackMbx b) OSA_TIMEOUT_NONE x of
       Done (st, None) x1 \<Rightarrow> if st \<noteq> OSA_SOK then Done st x1 else Fault
     | Done (st, Some p) x1 \<Rightarrow>
         (case OSA_mbxFreeMsg p x1 of None \<Rightarrow> Fault | Some x2 \<Rightarrow> flush_ack b x2)
     | Block q c x1 \<Rightarrow> Block q c x1
     | Fault \<Rightarrow> Fault)"
  by pat_completeness auto
termination
  by (relation "measure (\<lambda>(b, x). mq_count (mx_que x (ackMbx b)))") (auto dest!: mbx_recv_shrinks FreeMsg_ques)

declare flush_ack.simps [simp del]

definition OSA_mbxFlush :: "nat \<Rightarrow> mbx_world \<Rightarrow> int mbx_out option" where
  "OSA_mbxFlush b x =
    (case flush_rcv b x of
       Some (Done st x1) \<Rightarrow> Some (flush_ack b x1)
     | r \<Rightarrow> r)"

text \<open>Broadcast: the sends, each with its status and the pointer it leaves in the list of
  the messages sent (NULL when it fails).\<close>

fun broadcast_send :: "(msg_ptr option \<times> nat) list \<Rightarrow> msgq_ptr \<Rightarrow> nat \<Rightarrow> nat \<Rightarrow> nat \<Rightarrow> mbx_world
    \<Rightarrow> (int \<times> msg_ptr) list mbx_out" where
  "broadcast_send [] ack cmd prm flags x = Done [] x"
| "broadcast_send ((alloc, to) # tos) ack cmd prm flags x =
    (case (case OSA_msgqAllocMsgHndl alloc (rcvMbx to) ack cmd prm flags (mx_world x) of
             (None, w1) \<Rightarrow> Done (OSA_EFAIL, 0) (x\<lparr>mx_world := w1\<rparr>)
           | (Some p, w1) \<Rightarrow>
               (case mbx_send (rcvMbx to) p (x\<lparr>mx_world := w1\<rparr>) of
                  Done st x1 \<Rightarrow> Done (st, if st = OSA_SOK then p else 0) x1
                | Block q c x1 \<Rightarrow> Block q c x1
                | Fault \<Rightarrow> Fault)) of
       Done r x1 \<Rightarrow>
         (case broadcast_send tos ack cmd prm flags x1 of
            Done rs x2 \<Rightarrow> Done (r # rs) x2
          | Block q c x2 \<Rightarrow> Block q c x2
          | Fault \<Rightarrow> Fault)
     | Block q c x1 \<Rightarrow> Block q c x1
     | Fault \<Rightarrow> Fault)"

text \<open>The acknowledgements: \<open>missing\<close> are the messages whose acknowledgement has not been
  received, \<open>ackRet\<close> is the first status that was not \<open>OSA_SOK\<close>.  A message that was
  sent and acknowledged before counts as known.  Nothing of a known message is freed, an
  unknown one goes to \<open>OSA_mbxFreeMsg\<close>.\<close>

function broadcast_wait :: "msgq_ptr \<Rightarrow> msg_ptr list \<Rightarrow> msg_ptr list \<Rightarrow> int \<Rightarrow> mbx_world \<Rightarrow> int mbx_out" where
  "broadcast_wait ackq sent missing ackRet x =
    (case mbx_recv ackq OSA_TIMEOUT_FOREVER x of
       Done (st, None) x1 \<Rightarrow> Fault
     | Done (st, Some p) x1 \<Rightarrow>
         (case mx_msg x1 p of None \<Rightarrow> Fault
          | Some m \<Rightarrow>
              let ackRet1 = (if p \<in> set sent \<and> ackRet = OSA_SOK then msg_status m else ackRet);
                  missing1 = remove1 p missing in
              case (if p \<in> set sent then Some x1 else OSA_mbxFreeMsg p x1) of
                None \<Rightarrow> Fault
              | Some x2 \<Rightarrow> if missing1 = [] then Done ackRet1 x2 else broadcast_wait ackq sent missing1 ackRet1 x2)
     | Block q c x1 \<Rightarrow> Block q c x1
     | Fault \<Rightarrow> Fault)"
  by pat_completeness auto
termination
  by (relation "measure (\<lambda>(q, sent, missing, ret, x). mq_count (mx_que x q))")
     (auto dest!: mbx_recv_shrinks FreeMsg_ques split: if_splits)

declare broadcast_wait.simps [simp del]

text \<open>\<open>tos\<close>: the mailboxes of the list, each with what the allocation of its message
  returns.  The arrays of a broadcast have ten entries; a longer list overruns them.\<close>

definition OSA_mbxBroadcastMsg :: "(msg_ptr option \<times> nat) list \<Rightarrow> nat option \<Rightarrow> nat \<Rightarrow> nat \<Rightarrow> nat \<Rightarrow> mbx_world \<Rightarrow> int mbx_out" where
  "OSA_mbxBroadcastMsg tos from cmd prm flags x =
    (if tos = [] then Done OSA_SOK x
     else if length tos > OSA_MBX_BROADCAST_MAX then Fault
     else
       let ack = (case from of None \<Rightarrow> 0 | Some b \<Rightarrow> ackMbx b) in
       case broadcast_send tos ack cmd prm flags x of
         Block q c x1 \<Rightarrow> Block q c x1
       | Fault \<Rightarrow> Fault
       | Done rs x1 \<Rightarrow>
           if flags AND OSA_MBX_WAIT_ACK = 0 \<or> ack = 0 then Done (fst (last rs)) x1
           else (case broadcast_wait ack (map snd rs) (map snd rs) OSA_SOK x1 of
                   Block q c x2 \<Rightarrow> Block q c x2
                 | Fault \<Rightarrow> Fault
                 | Done ret x2 \<Rightarrow>
                     if flags AND OSA_MBX_FREE_PRM \<noteq> 0 \<and> prm \<noteq> 0
                     then (if prm \<in> mx_heap x2 then Done ret (x2\<lparr>mx_heap := mx_heap x2 - {prm}\<rparr>) else Fault)
                     else Done ret x2))"

end
