(* ===== verification/Mbx_Client.thy ===== *)
theory Mbx_Client
  imports Osa_Mbx
begin

text \<open>What the mailboxes promise: every message is in one place at a time, its parameter is
  freed at most once, and the message itself never; a request with acknowledgement returns the
  status the receiver gave.\<close>

section \<open>Queues, by branch\<close>

lemma mx_que_put [simp]: "mx_que (put_que q h x) r = (if r = q then h else mx_que x r)"
  and mx_msg_put [simp]: "mx_msg (put_que q h x) p = mx_msg x p"
  and mx_heap_put [simp]: "mx_heap (put_que q h x) = mx_heap x"
  by (simp_all add: put_que_def)

lemma mbx_send_cases:
  assumes "msgq_ok (mx_que x q)"
  obtains (sent) h where "mbx_send q p x = Done OSA_SOK (put_que q h x)" "msgq_ok h"
      "msgq_elems h = msgq_elems (mx_que x q) @ [p]"
  | (full) "mbx_send q p x = Block q CondWr x" "length (msgq_elems (mx_que x q)) = 32"
proof (cases "mq_count (mx_que x q) < mq_len (mx_que x q)")
  case True
  then show thesis using msgq.put_room [OF assms, of p OSA_TIMEOUT_FOREVER] sent by (auto simp: mbx_send_def)
next
  case False
  then have full: "length (msgq_elems (mx_que x q)) = mq_len (mx_que x q)"
    using msgq.elems_cap [OF assms] by simp
  moreover have "mq_len (mx_que x q) = 32" using assms by (simp add: msgq_ok_def const_defs)
  ultimately show thesis
    using msgq.put_full [OF assms full, of p OSA_TIMEOUT_FOREVER] that(2) by (simp add: mbx_send_def)
qed

lemma mbx_recv_cases:
  assumes "msgq_ok (mx_que x q)"
  obtains (got) p ps h where "msgq_elems (mx_que x q) = p # ps"
      "mbx_recv q t x = Done (OSA_SOK, Some p) (put_que q h x)" "msgq_ok h" "msgq_elems h = ps"
  | (empty) "msgq_elems (mx_que x q) = []"
      "mbx_recv q t x = (if t = OSA_TIMEOUT_NONE then Done (OSA_EFAIL, None) (put_que q (mx_que x q) x) else Block q CondRd x)"
proof (cases "msgq_elems (mx_que x q)")
  case Nil
  then show thesis using msgq.get_empty [OF assms, of t] empty by (simp add: mbx_recv_def)
next
  case (Cons p ps)
  then show thesis using msgq.get_elem [OF assms, of p ps t] got by (auto simp: mbx_recv_def)
qed

section \<open>The invariant\<close>

text \<open>Everything that owns a message: the queues \<open>Q\<close>, and threads that have received one
  and not yet acknowledged or freed it.\<close>

definition owned :: "msgq_ptr set \<Rightarrow> msg_ptr multiset \<Rightarrow> mbx_world \<Rightarrow> msg_ptr multiset" where
  "owned Q held x = held + (\<Sum>q \<in> Q. mset (msgq_elems (mx_que x q)))"

text \<open>The message that frees parameter \<open>d\<close>.\<close>

definition carries :: "osa_msg \<Rightarrow> nat \<Rightarrow> bool" where
  "carries m d \<longleftrightarrow> msg_flags m AND OSA_MBX_FREE_PRM \<noteq> 0 \<and> msg_pPrm m = d \<and> d \<noteq> 0"

text \<open>What holds of a message \<open>p\<close> in one of these places, as long as it is there.\<close>

definition msg_ok :: "msgq_ptr set \<Rightarrow> msg_ptr multiset \<Rightarrow> mbx_world \<Rightarrow> msg_ptr \<Rightarrow> bool" where
  "msg_ok Q own x p \<longleftrightarrow> (\<exists>m. mx_msg x p = Some m
     \<and> (msg_flags m AND OSA_MBX_WAIT_ACK \<noteq> 0 \<longrightarrow> msg_pFrom m \<in> Q \<and> odd (msg_pFrom m))
     \<and> (\<forall>d. carries m d \<longrightarrow> d \<in> mx_heap x \<and> (\<forall>p' \<in># own. \<forall>m'. mx_msg x p' = Some m' \<longrightarrow> carries m' d \<longrightarrow> p' = p)))"

definition mbx_ok :: "msgq_ptr set \<Rightarrow> msg_ptr multiset \<Rightarrow> mbx_world \<Rightarrow> bool" where
  "mbx_ok Q held x \<longleftrightarrow> finite Q \<and> (\<forall>q \<in> Q. msgq_ok (mx_que x q))
    \<and> (\<forall>p. count (owned Q held x) p \<le> 1) \<and> (\<forall>p \<in># owned Q held x. msg_ok Q (owned Q held x) x p)"

lemma owned_put:
  assumes "finite Q" "q \<in> Q"
  shows "owned Q held (put_que q h x) + mset (msgq_elems (mx_que x q)) = owned Q held x + mset (msgq_elems h)"
proof -
  let ?f = "\<lambda>x q. mset (msgq_elems (mx_que x q))"
  have "sum (?f (put_que q h x)) (Q - {q}) = sum (?f x) (Q - {q})" by (rule sum.cong) auto
  then show ?thesis using assms
    by (simp add: owned_def sum.remove [of Q q] ac_simps)
qed

lemma owned_same: "mw_ques (mx_world y) = mw_ques (mx_world x) \<Longrightarrow> owned Q held y = owned Q held x"
  by (simp add: owned_def)

lemma mbx_okD:
  assumes "mbx_ok Q held x"
  shows "finite Q" "q \<in> Q \<Longrightarrow> msgq_ok (mx_que x q)" "count (owned Q held x) p \<le> 1"
    "p \<in># owned Q held x \<Longrightarrow> msg_ok Q (owned Q held x) x p"
  using assms unfolding mbx_ok_def by blast+

lemma msg_okD:
  assumes "msg_ok Q own x p" "mx_msg x p = Some m"
  shows "msg_flags m AND OSA_MBX_WAIT_ACK \<noteq> 0 \<Longrightarrow> msg_pFrom m \<in> Q \<and> odd (msg_pFrom m)"
    "carries m d \<Longrightarrow> d \<in> mx_heap x"
    "carries m d \<Longrightarrow> p' \<in># own \<Longrightarrow> mx_msg x p' = Some m' \<Longrightarrow> carries m' d \<Longrightarrow> p' = p"
proof -
  have *: "(msg_flags m AND OSA_MBX_WAIT_ACK \<noteq> 0 \<longrightarrow> msg_pFrom m \<in> Q \<and> odd (msg_pFrom m))
     \<and> (\<forall>d. carries m d \<longrightarrow> d \<in> mx_heap x \<and> (\<forall>p' \<in># own. \<forall>m'. mx_msg x p' = Some m' \<longrightarrow> carries m' d \<longrightarrow> p' = p))"
    using assms unfolding msg_ok_def by simp
  show "msg_flags m AND OSA_MBX_WAIT_ACK \<noteq> 0 \<Longrightarrow> msg_pFrom m \<in> Q \<and> odd (msg_pFrom m)" using * by blast
  show "carries m d \<Longrightarrow> d \<in> mx_heap x" using * by blast
  show "carries m d \<Longrightarrow> p' \<in># own \<Longrightarrow> mx_msg x p' = Some m' \<Longrightarrow> carries m' d \<Longrightarrow> p' = p" using * by blast
qed

text \<open>A message that is owned somewhere is live.\<close>

lemma owned_live: "mbx_ok Q held x \<Longrightarrow> p \<in># owned Q held x \<Longrightarrow> \<exists>m. mx_msg x p = Some m"
  using mbx_okD(4) [of Q held x p] by (auto simp: msg_ok_def)

text \<open>Fewer owners, and a change that spares what the others carry.\<close>

lemma msg_ok_less:
  assumes "msg_ok Q own x p" "mx_msg y = mx_msg x" "set_mset own' \<subseteq> set_mset own"
    and "\<And>m d. mx_msg x p = Some m \<Longrightarrow> carries m d \<Longrightarrow> d \<in> mx_heap x \<Longrightarrow> d \<in> mx_heap y"
  shows "msg_ok Q own' y p"
  using assms unfolding msg_ok_def by (metis subsetD)

lemma queued_owned: "finite Q \<Longrightarrow> q \<in> Q \<Longrightarrow> p \<in> set (msgq_elems (mx_que x q)) \<Longrightarrow> p \<in># owned Q held x"
  by (simp add: owned_def) (metis finite_set_mset_mset_set in_image_mset mset_set.infinite set_mset_mset set_mset_sum UN_I)

section \<open>Every operation keeps it\<close>

text \<open>Taking a message out of a queue, and putting one in.\<close>

lemma moved_ok:
  assumes "mbx_ok Q held x" "owned Q held' y = owned Q held x" "mx_msg y = mx_msg x" "mx_heap y = mx_heap x"
    and "\<And>q. q \<in> Q \<Longrightarrow> msgq_ok (mx_que y q)"
  shows "mbx_ok Q held' y"
  using assms unfolding mbx_ok_def msg_ok_def by simp

lemma recv_ok:
  assumes ok: "mbx_ok Q held x" and q: "q \<in> Q" and el: "msgq_elems (mx_que x q) = p # ps" and h: "msgq_ok h" "msgq_elems h = ps"
  shows "mbx_ok Q (add_mset p held) (put_que q h x)"
proof (rule moved_ok [OF ok])
  have "owned Q held (put_que q h x) + {#p#} = owned Q held x"
    using owned_put [OF mbx_okD(1) [OF ok] q, of held h x] by (simp add: el h(2))
  then show "owned Q (add_mset p held) (put_que q h x) = owned Q held x" by (simp add: owned_def)
qed (use mbx_okD(2) [OF ok] h(1) in \<open>simp_all add: put_que_def\<close>)

lemma send_ok:
  assumes ok: "mbx_ok Q (add_mset p held) x" and q: "q \<in> Q" and h: "msgq_ok h" "msgq_elems h = msgq_elems (mx_que x q) @ [p]"
  shows "mbx_ok Q held (put_que q h x)"
proof (rule moved_ok [OF ok])
  have "owned Q held (put_que q h x) = owned Q held x + {#p#}"
    using owned_put [OF mbx_okD(1) [OF ok] q, of held h x] by (simp add: h(2))
  then show "owned Q held (put_que q h x) = owned Q (add_mset p held) x" by (simp add: owned_def)
qed (use mbx_okD(2) [OF ok] h(1) in \<open>simp_all add: put_que_def\<close>)

text \<open>Freeing a message that is held succeeds: its parameter is freed, and it is nowhere
  after that.\<close>

lemma free_ok:
  assumes ok: "mbx_ok Q (add_mset p held) x"
  shows "\<exists>y. OSA_mbxFreeMsg p x = Some y \<and> mbx_ok Q held y \<and> p \<notin># owned Q held y"
proof -
  have p: "p \<in># owned Q (add_mset p held) x" by (simp add: owned_def)
  then obtain m where m: "mx_msg x p = Some m" using owned_live [OF ok] by blast
  note pd = msg_okD [OF mbx_okD(4) [OF ok p] m]
  let ?y = "x\<lparr>mx_heap := mx_heap x - {d. carries m d}\<rparr>"
  have "OSA_mbxFreeMsg p x = Some ?y"
  proof (cases "msg_flags m AND OSA_MBX_FREE_PRM \<noteq> 0 \<and> msg_pPrm m \<noteq> 0")
    case True
    then have c: "carries m (msg_pPrm m)" "{d. carries m d} = {msg_pPrm m}" by (auto simp: carries_def)
    with True pd(2) [OF c(1)] show ?thesis by (simp add: OSA_mbxFreeMsg_def m)
  next
    case False
    then have "{d. carries m d} = {}" by (auto simp: carries_def)
    with False show ?thesis by (auto simp: OSA_mbxFreeMsg_def m)
  qed
  moreover have own: "owned Q (add_mset p held) x = add_mset p (owned Q held ?y)" by (simp add: owned_def)
  moreover have gone: "p \<notin># owned Q held ?y"
    using mbx_okD(3) [OF ok, of p] own by (simp add: not_in_iff)
  moreover have "mbx_ok Q held ?y"
    unfolding mbx_ok_def
  proof (intro conjI allI ballI)
    show "finite Q" by (rule mbx_okD(1) [OF ok])
    show "msgq_ok (mx_que ?y q)" if "q \<in> Q" for q using mbx_okD(2) [OF ok that] by simp
    show "count (owned Q held ?y) p' \<le> 1" for p'
      using mbx_okD(3) [OF ok, of p'] own by (simp split: if_splits)
    show "msg_ok Q (owned Q held ?y) ?y p'" if p': "p' \<in># owned Q held ?y" for p'
    proof (rule msg_ok_less)
      have in': "p' \<in># owned Q (add_mset p held) x" using p' own by simp
      show ok': "msg_ok Q (owned Q (add_mset p held) x) x p'" by (rule mbx_okD(4) [OF ok in'])
      show "d \<in> mx_heap ?y" if "mx_msg x p' = Some m'" "carries m' d" "d \<in> mx_heap x" for m' d
        using that pd(3) [OF _ in' that(1,2)] p' gone by auto
    qed (use own in auto)
  qed
  ultimately show ?thesis by blast
qed

text \<open>The outcomes of an operation on the invariant: done with the messages the caller
  then holds, or blocked in a queue.\<close>

definition safe :: "msgq_ptr set \<Rightarrow> ('a \<Rightarrow> msg_ptr multiset) \<Rightarrow> msg_ptr multiset \<Rightarrow> 'a mbx_out \<Rightarrow> bool" where
  "safe Q after during out \<longleftrightarrow> (case out of
     Done r x \<Rightarrow> mbx_ok Q (after r) x | Block q c x \<Rightarrow> mbx_ok Q during x | Fault \<Rightarrow> False)"

lemma safe_simps [simp]:
  "safe Q after during (Done r x) = mbx_ok Q (after r) x"
  "safe Q after during (Block q c x) = mbx_ok Q during x"
  "\<not> safe Q after during Fault"
  by (simp_all add: safe_def)

definition with_got :: "msg_ptr multiset \<Rightarrow> int \<times> msg_ptr option \<Rightarrow> msg_ptr multiset" where
  "with_got held r = (case snd r of None \<Rightarrow> held | Some p \<Rightarrow> add_mset p held)"

lemma recv_safe:
  assumes ok: "mbx_ok Q held x" and q: "q \<in> Q"
  shows "safe Q (with_got held) held (mbx_recv q t x)"
proof (cases rule: mbx_recv_cases [OF mbx_okD(2) [OF ok q], of t, case_names got empty])
  case (got p ps h)
  then show ?thesis using recv_ok [OF ok q got(1,3,4)] by (simp add: with_got_def)
next
  case empty
  then have "put_que q (mx_que x q) x = x" by (simp add: put_que_def)
  with empty ok show ?thesis by (simp add: with_got_def)
qed

lemma send_safe:
  assumes ok: "mbx_ok Q (add_mset p held) x" and q: "q \<in> Q"
  shows "safe Q (\<lambda>st. held) (add_mset p held) (mbx_send q p x)"
    "mbx_send q p x = Done st y \<Longrightarrow> st = OSA_SOK"
  by (cases rule: mbx_send_cases [OF mbx_okD(2) [OF ok q], of p, case_names sent full], use send_ok [OF ok q] ok in auto)+

text \<open>A new message.\<close>

lemma alloc_ok:
  assumes ok: "mbx_ok Q held x" and fresh: "mx_msg x p = None"
    and flags: "flags AND OSA_MBX_WAIT_ACK \<noteq> 0 \<Longrightarrow> from \<in> Q \<and> odd from"
    and own: "flags AND OSA_MBX_FREE_PRM \<noteq> 0 \<Longrightarrow> prm \<noteq> 0 \<Longrightarrow> prm \<in> mx_heap x
      \<and> (\<forall>p \<in># owned Q held x. \<forall>m. mx_msg x p = Some m \<longrightarrow> \<not> carries m prm)"
  shows "mbx_ok Q (add_mset p held) (x\<lparr>mx_world := (mx_world x)\<lparr>mw_msgs := (mw_msgs (mx_world x))(p \<mapsto>
    \<lparr>msg_pTo = to, msg_pFrom = from, msg_pPrm = prm, msg_status = st, msg_cmd = c, msg_flags = flags\<rparr>)\<rparr>\<rparr>)"
proof -
  define m where "m = \<lparr>msg_pTo = to, msg_pFrom = from, msg_pPrm = prm, msg_status = st, msg_cmd = c, msg_flags = flags\<rparr>"
  define y where "y = x\<lparr>mx_world := (mx_world x)\<lparr>mw_msgs := (mw_msgs (mx_world x))(p \<mapsto> m)\<rparr>\<rparr>"
  have y: "mx_msg y p' = (if p' = p then Some m else mx_msg x p')" "mx_heap y = mx_heap x" "mx_que y q = mx_que x q" for p' q
    by (simp_all add: y_def)
  have carries: "d \<in> mx_heap x \<and> (\<forall>p \<in># owned Q held x. \<forall>m. mx_msg x p = Some m \<longrightarrow> \<not> carries m d)" if "carries m d" for d
    using that own by (auto simp: carries_def m_def)
  have oy: "owned Q (add_mset p held) y = add_mset p (owned Q held x)" by (simp add: owned_def y)
  have new: "p \<notin># owned Q held x" using owned_live [OF ok, of p] fresh by auto
  have "count (owned Q (add_mset p held) y) p' \<le> 1" for p'
    using mbx_okD(3) [OF ok, of p'] new unfolding oy by (auto simp: not_in_iff)
  moreover have "msg_ok Q (owned Q (add_mset p held) y) y p1" if p1: "p1 \<in># owned Q (add_mset p held) y" for p1
  proof (cases "p1 = p")
    case True
    with carries flags show ?thesis unfolding msg_ok_def oy y by (auto simp: m_def)
  next
    case False
    then have in1: "p1 \<in># owned Q held x" using p1 by (simp add: oy)
    obtain m1 where m1: "mx_msg x p1 = Some m1" using owned_live [OF ok in1] by blast
    note old = msg_okD [OF mbx_okD(4) [OF ok in1] m1]
    have "\<not> carries m d" if "carries m1 d" for d using carries [of d] in1 m1 that by blast
    with old m1 False show ?thesis unfolding msg_ok_def oy y by auto
  qed
  ultimately have "mbx_ok Q (add_mset p held) y" using mbx_okD(1,2) [OF ok] unfolding mbx_ok_def y(3) by blast
  then show ?thesis by (simp only: y_def m_def)
qed

text \<open>The flags are cut to 16 bits in the message.\<close>

lemma flag16: "flags mod 2 ^ 16 AND OSA_MBX_WAIT_ACK \<noteq> 0 \<longleftrightarrow> flags AND OSA_MBX_WAIT_ACK \<noteq> 0"
  "flags mod 2 ^ 16 AND OSA_MBX_FREE_PRM \<noteq> 0 \<longleftrightarrow> flags AND OSA_MBX_FREE_PRM \<noteq> 0"
proof -
  have "n AND 2 = (n AND 2 ^ 1)" "n AND 4 = (n AND 2 ^ 2)" for n :: nat by simp_all
  then show "flags mod 2 ^ 16 AND OSA_MBX_WAIT_ACK \<noteq> 0 \<longleftrightarrow> flags AND OSA_MBX_WAIT_ACK \<noteq> 0"
    "flags mod 2 ^ 16 AND OSA_MBX_FREE_PRM \<noteq> 0 \<longleftrightarrow> flags AND OSA_MBX_FREE_PRM \<noteq> 0"
    unfolding const_defs by (simp_all only: and_exp_eq_0_iff_not_bit take_bit_eq_mod [symmetric] bit_take_bit_iff) simp_all
qed

text \<open>What a sender has to see to: a message of its own (the allocation may also fail), a
  mailbox for the answer if it asks for one, and a parameter to be freed that is on the
  heap and that no other message in a queue or in the hands of a thread carries.\<close>

definition may_send :: "msgq_ptr set \<Rightarrow> msg_ptr multiset \<Rightarrow> msg_ptr option \<Rightarrow> nat \<Rightarrow> nat option \<Rightarrow> nat \<Rightarrow> nat \<Rightarrow> mbx_world \<Rightarrow> bool" where
  "may_send Q held alloc to from prm flags x \<longleftrightarrow> (\<forall>p. alloc = Some p \<longrightarrow> mx_msg x p = None) \<and> rcvMbx to \<in> Q
     \<and> (case from of None \<Rightarrow> flags AND OSA_MBX_WAIT_ACK = 0 | Some b \<Rightarrow> ackMbx b \<in> Q)
     \<and> (flags AND OSA_MBX_FREE_PRM \<noteq> 0 \<longrightarrow> prm \<noteq> 0 \<longrightarrow> prm \<in> mx_heap x
          \<and> (\<forall>p \<in># owned Q held x. \<forall>m. mx_msg x p = Some m \<longrightarrow> \<not> carries m prm))"

text \<open>A send that blocks keeps its message: it is among those held.\<close>

lemma send_post_safe:
  assumes ok: "mbx_ok Q held x" and may: "may_send Q held alloc to from prm flags x"
  shows "safe Q (\<lambda>r. held) (add_mset (the alloc) held) (OSA_mbxSendMsg_post alloc junk to from cmd prm flags x)"
proof (cases alloc)
  case None
  with ok show ?thesis by (simp add: OSA_mbxSendMsg_post_def OSA_msgqAllocMsgHndl_def Let_def)
next
  case (Some p)
  with may have p: "mx_msg x p = None" "rcvMbx to \<in> Q" by (simp_all add: may_send_def)
  define ack where "ack = (case from of None \<Rightarrow> 0 | Some b \<Rightarrow> ackMbx b)"
  let ?m = "\<lparr>msg_pTo = rcvMbx to, msg_pFrom = ack, msg_pPrm = prm, msg_status = OSA_SOK,
    msg_cmd = cmd mod 2 ^ 16, msg_flags = flags mod 2 ^ 16\<rparr>"
  let ?y = "x\<lparr>mx_world := (mx_world x)\<lparr>mw_msgs := (mw_msgs (mx_world x))(p \<mapsto> ?m)\<rparr>\<rparr>"
  have y: "mbx_ok Q (add_mset p held) ?y"
  proof (rule alloc_ok [OF ok p(1)])
    show "ack \<in> Q \<and> odd ack" if "flags mod 2 ^ 16 AND OSA_MBX_WAIT_ACK \<noteq> 0"
      using that may unfolding flag16 by (auto simp: may_send_def ack_def ackMbx_def split: option.splits)
    show "prm \<in> mx_heap x \<and> (\<forall>p \<in># owned Q held x. \<forall>m. mx_msg x p = Some m \<longrightarrow> \<not> carries m prm)"
      if "flags mod 2 ^ 16 AND OSA_MBX_FREE_PRM \<noteq> 0" "prm \<noteq> 0"
      using that may unfolding flag16 by (simp add: may_send_def)
  qed
  show ?thesis
    using send_safe [OF y p(2)]
    by (cases "mbx_send (rcvMbx to) p ?y")
       (auto simp: OSA_mbxSendMsg_post_def OSA_msgqAllocMsgHndl_def Some ack_def [symmetric] Let_def)
qed

lemma send_wait_safe:
  "mbx_ok Q held x \<Longrightarrow> ackq \<in> Q \<Longrightarrow> safe Q (\<lambda>st. held) held (OSA_mbxSendMsg_wait ackq sent x)"
proof (induction ackq sent x rule: OSA_mbxSendMsg_wait.induct)
  case (1 ackq sent x)
  show ?case
  proof (cases rule: mbx_recv_cases [OF mbx_okD(2) [OF 1(2,3)], of OSA_TIMEOUT_FOREVER, case_names got empty])
    case (got p ps h)
    let ?x1 = "put_que ackq h x"
    have x1: "mbx_ok Q (add_mset p held) ?x1" by (rule recv_ok [OF 1(2,3) got(1,3,4)])
    obtain m where m: "mx_msg ?x1 p = Some m" using owned_live [OF x1, of p] by (auto simp: owned_def)
    obtain x2 where x2: "OSA_mbxFreeMsg p ?x1 = Some x2" "mbx_ok Q held x2" using free_ok [OF x1] by blast
    show ?thesis
    proof (cases "p = sent")
      case True
      then show ?thesis using got(2) m x2 by (subst OSA_mbxSendMsg_wait.simps) simp
    next
      case False
      have "safe Q (\<lambda>st. held) held (OSA_mbxSendMsg_wait ackq sent x2)"
        by (rule 1(1) [OF got(2) refl refl m x2(1) False x2(2) 1(3)])
      then show ?thesis using got(2) m x2(1) False by (subst OSA_mbxSendMsg_wait.simps) simp
    qed
  next
    case empty
    then show ?thesis using 1(2) by (subst OSA_mbxSendMsg_wait.simps) simp
  qed
qed

lemma ack_or_free_safe:
  assumes ok: "mbx_ok Q (add_mset p held) x"
  shows "safe Q (\<lambda>st. held) (add_mset p held) (OSA_mbxAckOrFreeMsg (Some p) ackRet x)"
proof -
  have p: "p \<in># owned Q (add_mset p held) x" by (simp add: owned_def)
  obtain m where m: "mx_msg x p = Some m" using owned_live [OF ok p] by blast
  show ?thesis
  proof (cases "msg_flags m AND OSA_MBX_WAIT_ACK = 0")
    case True
    then show ?thesis using free_ok [OF ok] by (auto simp: OSA_mbxAckOrFreeMsg_def m)
  next
    case False
    let ?y = "x\<lparr>mx_world := (mx_world x)\<lparr>mw_msgs := (mw_msgs (mx_world x))(p \<mapsto> m\<lparr>msg_status := ackRet\<rparr>)\<rparr>\<rparr>"
    have carries: "carries (m\<lparr>msg_status := ackRet\<rparr>) d = carries m d" for d by (simp add: carries_def)
    have own: "owned Q (add_mset p held) ?y = owned Q (add_mset p held) x" by (rule owned_same) simp
    have y: "mbx_ok Q (add_mset p held) ?y"
      unfolding mbx_ok_def own
    proof (intro conjI allI ballI)
      show "msg_ok Q (owned Q (add_mset p held) x) ?y p1" if "p1 \<in># owned Q (add_mset p held) x" for p1
        using mbx_okD(4) [OF ok that] m unfolding msg_ok_def by (cases "p1 = p") (auto simp: carries split: if_splits)
    qed (use mbx_okD(1-3) [OF ok] in simp_all)
    have src: "msg_pFrom m \<in> Q" "msg_pFrom m \<noteq> 0"
      using msg_okD(1) [OF mbx_okD(4) [OF ok p] m] False by (auto intro: Nat.gr0I)
    show ?thesis using send_safe(1) [OF y src(1)] False src(2) by (simp add: OSA_mbxAckOrFreeMsg_def m)
  qed
qed

section \<open>The system\<close>

definition out_state :: "('a \<Rightarrow> msg_ptr multiset) \<Rightarrow> msg_ptr multiset \<Rightarrow> 'a mbx_out \<Rightarrow> (msg_ptr multiset \<times> mbx_world) option" where
  "out_state after during out =
    (case out of Done r y \<Rightarrow> Some (after r, y) | Block q c y \<Rightarrow> Some (during, y) | Fault \<Rightarrow> None)"

text \<open>Threads that allocate a parameter, send (or try again after blocking), wait for an
  acknowledgement (of any message), take a message, answer one they hold.\<close>

inductive mbx_step :: "msgq_ptr set \<Rightarrow> msg_ptr multiset \<times> mbx_world \<Rightarrow> msg_ptr multiset \<times> mbx_world \<Rightarrow> bool" for Q where
  step_alloc: "d \<noteq> 0 \<Longrightarrow> mbx_step Q (held, x) (held, x\<lparr>mx_heap := insert d (mx_heap x)\<rparr>)"
| step_send: "may_send Q held alloc to from prm flags x
    \<Longrightarrow> out_state (\<lambda>r. held) (add_mset (the alloc) held) (OSA_mbxSendMsg_post alloc junk to from cmd prm flags x) = Some s
    \<Longrightarrow> mbx_step Q (held, x) s"
| step_resend: "rcvMbx to \<in> Q \<Longrightarrow> out_state (\<lambda>r. held) (add_mset p held) (mbx_send (rcvMbx to) p x) = Some s
    \<Longrightarrow> mbx_step Q (add_mset p held, x) s"
| step_wait: "ackMbx b \<in> Q \<Longrightarrow> out_state (\<lambda>r. held) held (OSA_mbxSendMsg_wait (ackMbx b) sent x) = Some s
    \<Longrightarrow> mbx_step Q (held, x) s"
| step_take: "rcvMbx b \<in> Q \<Longrightarrow> out = OSA_mbxWaitMsg b x \<or> out = OSA_mbxCheckMsg b x
    \<Longrightarrow> out_state (with_got held) held out = Some s \<Longrightarrow> mbx_step Q (held, x) s"
| step_answer: "out_state (\<lambda>r. held) (add_mset p held) (OSA_mbxAckOrFreeMsg (Some p) ret x) = Some s
    \<Longrightarrow> mbx_step Q (add_mset p held, x) s"

definition mbx_start :: "msgq_ptr set \<Rightarrow> mbx_world \<Rightarrow> bool" where
  "mbx_start Q x \<longleftrightarrow> finite Q \<and> (\<forall>q \<in> Q. msgq_ok (mx_que x q) \<and> msgq_elems (mx_que x q) = []) \<and> (\<forall>p. mx_msg x p = None)"

inductive mbx_reach :: "msgq_ptr set \<Rightarrow> msg_ptr multiset \<times> mbx_world \<Rightarrow> bool" for Q where
  reach_start: "mbx_start Q x \<Longrightarrow> mbx_reach Q ({#}, x)"
| reach_step: "mbx_reach Q s \<Longrightarrow> mbx_step Q s t \<Longrightarrow> mbx_reach Q t"

lemma out_state_safe: "out_state after during out = Some s \<Longrightarrow> safe Q after during out \<Longrightarrow> mbx_ok Q (fst s) (snd s)"
  by (cases out) (auto simp: out_state_def)

lemma mbx_step_ok:
  assumes "mbx_step Q s t" "mbx_ok Q (fst s) (snd s)"
  shows "mbx_ok Q (fst t) (snd t)"
  using assms
proof (cases rule: mbx_step.cases)
  case (step_alloc d held x)
  have "owned Q held (x\<lparr>mx_heap := insert d (mx_heap x)\<rparr>) = owned Q held x" by (rule owned_same) simp
  moreover have "msg_ok Q own (x\<lparr>mx_heap := insert d (mx_heap x)\<rparr>) p" if "msg_ok Q own x p" for own p
    by (rule msg_ok_less [OF that]) simp_all
  ultimately show ?thesis using assms(2) step_alloc unfolding mbx_ok_def by simp
next
  case (step_send held alloc to "from" prm flags x junk cmd)
  with out_state_safe send_post_safe assms(2) show ?thesis by (metis fst_conv snd_conv)
next
  case (step_resend to held p x)
  with out_state_safe send_safe(1) assms(2) show ?thesis by (metis fst_conv snd_conv)
next
  case (step_wait b held sent x)
  with out_state_safe send_wait_safe assms(2) show ?thesis by (metis fst_conv snd_conv)
next
  case (step_take b out x held)
  with recv_safe [of Q held x "rcvMbx b"] assms(2) have "safe Q (with_got held) held out"
    by (auto simp: OSA_mbxWaitMsg_def OSA_mbxCheckMsg_def)
  with out_state_safe step_take(4) show ?thesis by blast
next
  case (step_answer held p ret x)
  with out_state_safe ack_or_free_safe assms(2) show ?thesis by (metis fst_conv snd_conv)
qed

lemma mbx_reach_ok: "mbx_reach Q s \<Longrightarrow> mbx_ok Q (fst s) (snd s)"
proof (induction rule: mbx_reach.induct)
  case (reach_start x)
  then have "owned Q {#} x = {#}" by (simp add: mbx_start_def owned_def)
  with reach_start show ?case by (simp add: mbx_ok_def mbx_start_def)
next
  case (reach_step s t)
  then show ?case using mbx_step_ok by blast
qed

text \<open>No step frees a message.\<close>

lemma FreeMsg_msgs: "OSA_mbxFreeMsg p x = Some y \<Longrightarrow> mx_msg y = mx_msg x"
  by (auto simp: OSA_mbxFreeMsg_def split: option.splits if_splits)

text \<open>C34: Every message is in one place at a time.  In every run of any number of threads that send,
  wait for acknowledgements, take messages and answer those they have taken, a message is
  in at most one queue, once, or held by one thread, and it is allocated there; hence
  answering a message that a thread holds, and waiting for an acknowledgement, never use a
  message that is not allocated and never free a parameter twice.  The threads share the
  discipline \<open>may_send\<close>: a message to be allocated is not in use, a request for an acknowledgement names a
  mailbox to receive it, and a parameter that is to be freed with its message is on the heap and is
  given to one message at a time.  Broadcasts and flushes are not part of the runs.\<close>

theorem mailbox_ownership:
  assumes "mbx_reach Q (held, x)"
  shows "(\<forall>p. count (owned Q held x) p \<le> 1 \<and> (p \<in># owned Q held x \<longrightarrow> mx_msg x p \<noteq> None))
    \<and> (\<forall>p \<in># held. OSA_mbxAckOrFreeMsg (Some p) ret x \<noteq> Fault)
    \<and> (\<forall>b. ackMbx b \<in> Q \<longrightarrow> OSA_mbxSendMsg_wait (ackMbx b) sent x \<noteq> Fault)"
proof -
  have ok: "mbx_ok Q held x" using mbx_reach_ok [OF assms] by simp
  have "OSA_mbxAckOrFreeMsg (Some p) ret x \<noteq> Fault" if "p \<in># held" for p
  proof -
    have "mbx_ok Q (add_mset p (held - {#p#})) x" using ok that by simp
    from ack_or_free_safe [OF this, of ret] show ?thesis by auto
  qed
  moreover have "OSA_mbxSendMsg_wait (ackMbx b) sent x \<noteq> Fault" if "ackMbx b \<in> Q" for b
    using send_wait_safe [OF ok that, of sent] by auto
  ultimately show ?thesis using mbx_okD(3) [OF ok] owned_live [OF ok] by blast
qed

definition demo_mailboxes :: mbx_world where
  "demo_mailboxes = \<lparr>mx_world = demo_world, mx_heap = {}\<rparr>"

lemma demo_mailboxes_start: "mbx_start {2, 3, 4, 5} demo_mailboxes"
  using msgqCreate_ok [of "replicate 32 0" "[]"] by (simp add: mbx_start_def demo_mailboxes_def demo_world_def const_defs)

lemma mailbox_ownership_witness:
  "mbx_reach {2, 3, 4, 5} ({#}, demo_mailboxes) \<and> OSA_mbxSendMsg_wait (ackMbx 2) 7 demo_mailboxes \<noteq> Fault"
proof -
  have r: "mbx_reach {2, 3, 4, 5} ({#}, demo_mailboxes)" by (rule reach_start [OF demo_mailboxes_start])
  with mailbox_ownership [OF r, of 0 7] show ?thesis by (simp add: ackMbx_def)
qed

section \<open>Requests and replies\<close>

text \<open>The wait, over any acknowledgements that are left in the queue before the one it
  waits for.\<close>

lemma wait_finds:
  "mbx_ok Q held x \<Longrightarrow> ackq \<in> Q \<Longrightarrow> msgq_elems (mx_que x ackq) = stale @ sent # rest \<Longrightarrow> sent \<notin> set stale
    \<Longrightarrow> mx_msg x sent = Some m
    \<Longrightarrow> \<exists>y. OSA_mbxSendMsg_wait ackq sent x = Done (msg_status m) y \<and> mbx_ok Q held y
        \<and> msgq_elems (mx_que y ackq) = rest \<and> mx_msg y = mx_msg x \<and> sent \<notin># owned Q held y"
proof (induction stale arbitrary: x)
  case Nil
  obtain h where r: "mbx_recv ackq OSA_TIMEOUT_FOREVER x = Done (OSA_SOK, Some sent) (put_que ackq h x)"
      "msgq_ok h" "msgq_elems h = rest"
    using Nil(3) by (cases rule: mbx_recv_cases [OF mbx_okD(2) [OF Nil(1,2)], of OSA_TIMEOUT_FOREVER, case_names got empty]) auto
  have "mbx_ok Q (add_mset sent held) (put_que ackq h x)" by (rule recv_ok [OF Nil(1,2) _ r(2,3)]) (simp add: Nil(3))
  from free_ok [OF this] obtain y where y: "OSA_mbxFreeMsg sent (put_que ackq h x) = Some y" "mbx_ok Q held y" "sent \<notin># owned Q held y" by blast
  have "OSA_mbxSendMsg_wait ackq sent x = Done (msg_status m) y"
    using r(1) Nil(5) y(1) by (subst OSA_mbxSendMsg_wait.simps) simp
  moreover have "mx_msg y = mx_msg x" using FreeMsg_msgs [OF y(1)] by (simp add: put_que_def)
  ultimately show ?case using y(2,3) FreeMsg_ques [OF y(1)] r(3) by simp
next
  case (Cons p stale)
  obtain h where r: "mbx_recv ackq OSA_TIMEOUT_FOREVER x = Done (OSA_SOK, Some p) (put_que ackq h x)"
      "msgq_ok h" "msgq_elems h = stale @ sent # rest"
    using Cons.prems(3) by (cases rule: mbx_recv_cases [OF mbx_okD(2) [OF Cons.prems(1,2)], of OSA_TIMEOUT_FOREVER, case_names got empty]) auto
  have x1: "mbx_ok Q (add_mset p held) (put_que ackq h x)"
    by (rule recv_ok [OF Cons.prems(1,2) _ r(2,3)]) (simp add: Cons.prems(3))
  obtain mp where mp: "mx_msg (put_que ackq h x) p = Some mp" using owned_live [OF x1, of p] by (auto simp: owned_def)
  from free_ok [OF x1] obtain x2 where x2: "OSA_mbxFreeMsg p (put_que ackq h x) = Some x2" "mbx_ok Q held x2" by blast
  have same: "mx_que x2 ackq = h" "mx_msg x2 = mx_msg x"
    using FreeMsg_ques [OF x2(1)] FreeMsg_msgs [OF x2(1)] by (simp_all add: put_que_def)
  have ne: "p \<noteq> sent" using Cons.prems(4) by auto
  have "\<exists>y. OSA_mbxSendMsg_wait ackq sent x2 = Done (msg_status m) y \<and> mbx_ok Q held y
        \<and> msgq_elems (mx_que y ackq) = rest \<and> mx_msg y = mx_msg x2 \<and> sent \<notin># owned Q held y"
    using Cons.prems(2,4,5) r(3) same by (intro Cons.IH x2(2)) auto
  moreover have "OSA_mbxSendMsg_wait ackq sent x = OSA_mbxSendMsg_wait ackq sent x2"
    using r(1) mp x2(1) ne by (subst OSA_mbxSendMsg_wait.simps) simp
  ultimately show ?case using same(2) by simp
qed

text \<open>A request up to the answer.\<close>

lemma request_to_answer:
  assumes ok: "mbx_ok Q held x" and may: "may_send Q held (Some p) to (Some b) prm flags x"
    and ack: "flags AND OSA_MBX_WAIT_ACK \<noteq> 0"
    and rcv: "msgq_elems (mx_que x (rcvMbx to)) = []"
    and stale: "msgq_elems (mx_que x (ackMbx b)) = stale" "length stale < 32"
  shows "\<exists>x1 x2 x3 m. OSA_mbxSendMsg_post (Some p) junk to (Some b) cmd prm flags x = Done (OSA_SOK, Some p) x1
    \<and> OSA_mbxWaitMsg to x1 = Done (OSA_SOK, Some p) x2
    \<and> mx_msg x2 p = Some m \<and> msg_cmd m = cmd mod 2 ^ 16 \<and> msg_pPrm m = prm
    \<and> OSA_mbxAckOrFreeMsg (Some p) ret x2 = Done OSA_SOK x3
    \<and> mx_msg x3 = (mx_msg x)(p \<mapsto> m\<lparr>msg_status := ret\<rparr>)
    \<and> msgq_elems (mx_que x3 (ackMbx b)) = stale @ [p]"
proof -
  have q: "rcvMbx to \<in> Q" "ackMbx b \<in> Q" using may by (auto simp: may_send_def)
  have ne: "rcvMbx to \<noteq> ackMbx b" by (simp add: rcvMbx_def ackMbx_def) presburger
  define m where "m = \<lparr>msg_pTo = rcvMbx to, msg_pFrom = ackMbx b, msg_pPrm = prm, msg_status = OSA_SOK,
    msg_cmd = cmd mod 2 ^ 16, msg_flags = flags mod 2 ^ 16\<rparr>"
  define x0 where "x0 = x\<lparr>mx_world := (mx_world x)\<lparr>mw_msgs := (mw_msgs (mx_world x))(p \<mapsto> m)\<rparr>\<rparr>"
  have x0: "mx_que x0 = mx_que x" "mx_msg x0 = (mx_msg x)(p \<mapsto> m)" by (simp_all add: x0_def fun_eq_iff)
  have okq: "msgq_ok (mx_que x q)" if "q \<in> Q" for q by (rule mbx_okD(2) [OF ok that])
  obtain h1 where h1: "mbx_send (rcvMbx to) p x0 = Done OSA_SOK (put_que (rcvMbx to) h1 x0)" "msgq_ok h1" "msgq_elems h1 = [p]"
  proof (cases rule: mbx_send_cases [of x0 "rcvMbx to" p, case_names ok sent full])
    case full
    then show thesis using rcv x0 by simp
  qed (use rcv x0 that okq q in simp_all)
  let ?x1 = "put_que (rcvMbx to) h1 x0"
  have post: "OSA_mbxSendMsg_post (Some p) junk to (Some b) cmd prm flags x = Done (OSA_SOK, Some p) ?x1"
    using h1(1) ack by (simp add: OSA_mbxSendMsg_post_def OSA_msgqAllocMsgHndl_def x0_def m_def Let_def ackMbx_def)
  obtain h2 where h2: "OSA_mbxWaitMsg to ?x1 = Done (OSA_SOK, Some p) (put_que (rcvMbx to) h2 ?x1)" "msgq_ok h2"
  proof (cases rule: mbx_recv_cases [of ?x1 "rcvMbx to" OSA_TIMEOUT_FOREVER, case_names ok got empty])
    case empty
    then show thesis using h1 by simp
  qed (use h1 that in \<open>simp_all add: OSA_mbxWaitMsg_def\<close>)
  let ?x2 = "put_que (rcvMbx to) h2 ?x1"
  let ?x2' = "?x2\<lparr>mx_world := (mx_world ?x2)\<lparr>mw_msgs := (mw_msgs (mx_world ?x2))(p \<mapsto> m\<lparr>msg_status := ret\<rparr>)\<rparr>\<rparr>"
  have x2: "mx_msg ?x2 p = Some m" "mx_que ?x2' (ackMbx b) = mx_que x (ackMbx b)"
    using x0 ne by simp_all
  have "mq_count (mx_que x (ackMbx b)) < 32" using stale by (metis length_msgq_elems)
  then have room: "length (msgq_elems (mx_que ?x2' (ackMbx b))) < 32" unfolding x2(2) by simp
  obtain h3 where h3: "mbx_send (ackMbx b) p ?x2' = Done OSA_SOK (put_que (ackMbx b) h3 ?x2')" "msgq_elems h3 = stale @ [p]"
  proof (cases rule: mbx_send_cases [of ?x2' "ackMbx b" p, case_names ok sent full])
    case full
    then show thesis using room by (metis less_irrefl)
  qed (use stale x2 that okq q in simp_all)
  have "msg_flags m AND OSA_MBX_WAIT_ACK \<noteq> 0" using ack flag16(1) [of flags] unfolding m_def by simp
  moreover have "msg_pFrom m = ackMbx b" "ackMbx b \<noteq> 0" by (simp_all add: m_def ackMbx_def)
  ultimately have ans: "OSA_mbxAckOrFreeMsg (Some p) ret ?x2 = Done OSA_SOK (put_que (ackMbx b) h3 ?x2')"
    using h3(1) x2(1) by (simp add: OSA_mbxAckOrFreeMsg_def)
  show ?thesis
    by (rule exI [of _ ?x1], rule exI [of _ ?x2], rule exI [of _ "put_que (ackMbx b) h3 ?x2'"], rule exI [of _ m])
       (use post h2(1) x2(1) ans h3(2) x0 in \<open>simp add: m_def fun_eq_iff\<close>)
qed

text \<open>A request that waits for its acknowledgement gets the status of that
  acknowledgement, whatever acknowledgements were left in the queue before it: those
  are dropped, and the ones behind it stay in the queue.  No message is freed.\<close>

theorem mailbox_wait_returns_status:
  assumes reach: "mbx_reach Q (held, x)" and b: "ackMbx b \<in> Q"
    and el: "msgq_elems (mx_que x (ackMbx b)) = stale @ sent # rest" "sent \<notin> set stale"
    and m: "mx_msg x sent = Some m"
  shows "\<exists>y. OSA_mbxSendMsg_wait (ackMbx b) sent x = Done (msg_status m) y
    \<and> msgq_elems (mx_que y (ackMbx b)) = rest \<and> mx_msg y = mx_msg x"
proof -
  have "mbx_ok Q held x" using mbx_reach_ok [OF reach] by simp
  from wait_finds [OF this b el m] show ?thesis by blast
qed

text \<open>C35: The whole exchange, and its leak.  In a run as in C34, a request with acknowledgement by a sender that keeps to \<open>may_send\<close>,
  to a mailbox that is empty, from a mailbox with room for the answer, with no other thread
  in between: the receiver gets the command (its low 16 bits) and the
  parameter, answers, and the sender's wait returns the answer,
  whatever older answers are before it in the queue, which the wait drops.  The message of the request is
  then in no queue and held by no thread, and it is still allocated: the
  call that frees it is the argument of an assertion that this build leaves out.\<close>

theorem mailbox_request_reply:
  assumes reach: "mbx_reach Q (held, x)" and may: "may_send Q held (Some p) to (Some b) prm flags x"
    and ack: "flags AND OSA_MBX_WAIT_ACK \<noteq> 0"
    and rcv: "msgq_elems (mx_que x (rcvMbx to)) = []"
    and room: "length (msgq_elems (mx_que x (ackMbx b))) < 32"
  shows "\<exists>x1 x2 x3 x4 m. OSA_mbxSendMsg_post (Some p) junk to (Some b) cmd prm flags x = Done (OSA_SOK, Some p) x1
    \<and> OSA_mbxWaitMsg to x1 = Done (OSA_SOK, Some p) x2
    \<and> mx_msg x2 p = Some m \<and> msg_cmd m = cmd mod 2 ^ 16 \<and> msg_pPrm m = prm
    \<and> OSA_mbxAckOrFreeMsg (Some p) ret x2 = Done OSA_SOK x3
    \<and> OSA_mbxSendMsg_wait (ackMbx b) p x3 = Done ret x4
    \<and> msgq_elems (mx_que x4 (ackMbx b)) = [] \<and> p \<notin># owned Q held x4 \<and> mx_msg x4 p \<noteq> None"
proof -
  let ?stale = "msgq_elems (mx_que x (ackMbx b))"
  have ok: "mbx_ok Q held x" using mbx_reach_ok [OF reach] by simp
  have q: "rcvMbx to \<in> Q" "ackMbx b \<in> Q" and fresh: "mx_msg x p = None" using may by (auto simp: may_send_def)
  obtain x1 x2 x3 m where
    post: "OSA_mbxSendMsg_post (Some p) junk to (Some b) cmd prm flags x = Done (OSA_SOK, Some p) x1"
    and take: "OSA_mbxWaitMsg to x1 = Done (OSA_SOK, Some p) x2"
    and m: "mx_msg x2 p = Some m" "msg_cmd m = cmd mod 2 ^ 16" "msg_pPrm m = prm"
    and answer: "OSA_mbxAckOrFreeMsg (Some p) ret x2 = Done OSA_SOK x3"
    and x3: "mx_msg x3 = (mx_msg x)(p \<mapsto> m\<lparr>msg_status := ret\<rparr>)" "msgq_elems (mx_que x3 (ackMbx b)) = ?stale @ [p]"
    using request_to_answer [OF ok may ack rcv refl room, of junk cmd ret] by auto
  have ok1: "mbx_ok Q held x1" using send_post_safe [OF ok may, of junk cmd] post by simp
  then have ok2: "mbx_ok Q (add_mset p held) x2"
    using recv_safe [OF ok1 q(1), of OSA_TIMEOUT_FOREVER] take by (simp add: OSA_mbxWaitMsg_def with_got_def)
  then have ok3: "mbx_ok Q held x3" using ack_or_free_safe [OF ok2, of ret] answer by simp
  have "p \<notin> set ?stale" using queued_owned [OF mbx_okD(1) [OF ok] q(2)] owned_live [OF ok] fresh by (metis option.distinct(1))
  then obtain x4 where "OSA_mbxSendMsg_wait (ackMbx b) p x3 = Done ret x4" "msgq_elems (mx_que x4 (ackMbx b)) = []"
      "p \<notin># owned Q held x4" "mx_msg x4 p \<noteq> None"
    using wait_finds [OF ok3 q(2), of ?stale p "[]" "m\<lparr>msg_status := ret\<rparr>"] x3 by auto
  with post take m answer show ?thesis by blast
qed

lemma demo_may_send: "may_send {2, 3, 4, 5} {#} (Some 7) 1 (Some 2) 0 2 demo_mailboxes"
  by (simp add: may_send_def demo_mailboxes_def demo_world_def rcvMbx_def ackMbx_def const_defs)

lemma mailbox_request_reply_witness:
  "\<exists>x3 x4. OSA_mbxSendMsg_wait (ackMbx 2) 7 x3 = Done 9 x4"
  using mailbox_request_reply [OF reach_start [OF demo_mailboxes_start] demo_may_send, of 0 5 9]
    msgqCreate_ok [of "replicate 32 0" "[]"]
  by (auto simp: const_defs demo_mailboxes_def demo_world_def)

text \<open>A reachable state in which a message has been answered.\<close>

lemma demo_answered:
  "\<exists>x m. mbx_reach {2, 3, 4, 5} ({#}, x) \<and> msgq_elems (mx_que x 5) = [7] \<and> mx_msg x 7 = Some m \<and> msg_status m = 9"
proof -
  let ?Q = "{2, 3, 4, 5} :: nat set"
  have r0: "mbx_reach ?Q ({#}, demo_mailboxes)" by (rule reach_start [OF demo_mailboxes_start])
  have ok: "mbx_ok ?Q {#} demo_mailboxes" using mbx_reach_ok [OF r0] by simp
  have empty: "msgq_elems (mx_que demo_mailboxes q) = []" for q
    using msgqCreate_ok [of "replicate 32 0" "[]"] by (simp add: demo_mailboxes_def demo_world_def const_defs)
  have flag: "(2::nat) AND OSA_MBX_WAIT_ACK \<noteq> 0" by (simp add: const_defs)
  obtain x1 x2 x3 m where
    post: "OSA_mbxSendMsg_post (Some 7) 0 1 (Some 2) 5 0 2 demo_mailboxes = Done (OSA_SOK, Some 7) x1"
    and take: "OSA_mbxWaitMsg 1 x1 = Done (OSA_SOK, Some 7) x2"
    and answer: "OSA_mbxAckOrFreeMsg (Some 7) 9 x2 = Done OSA_SOK x3"
    and x3: "mx_msg x3 7 = Some (m\<lparr>msg_status := 9\<rparr>)" "msgq_elems (mx_que x3 (ackMbx 2)) = [7]"
    using request_to_answer [OF ok demo_may_send flag empty empty, of 0 5 9] by auto
  have "mbx_reach ?Q ({#}, x1)"
    by (rule reach_step [OF r0], rule step_send [OF demo_may_send, of 0 5]) (use post in \<open>simp add: out_state_def\<close>)
  then have "mbx_reach ?Q ({#7#}, x2)"
    by (rule reach_step) (rule step_take [of 1, OF _ disjI1 [OF refl]], use take in \<open>simp_all add: rcvMbx_def out_state_def with_got_def\<close>)
  then have "mbx_reach ?Q ({#}, x3)"
    by (rule reach_step) (rule step_answer [of _ _ 9], use answer in \<open>simp add: out_state_def\<close>)
  with x3 show ?thesis by (intro exI [of _ x3] exI [of _ "m\<lparr>msg_status := 9\<rparr>"]) (simp add: ackMbx_def)
qed

lemma mailbox_wait_returns_status_witness:
  "\<exists>x y. mbx_reach {2, 3, 4, 5} ({#}, x) \<and> OSA_mbxSendMsg_wait (ackMbx 2) 7 x = Done 9 y \<and> mx_msg y 7 \<noteq> None"
proof -
  obtain x m where x: "mbx_reach {2, 3, 4, 5} ({#}, x)" "msgq_elems (mx_que x 5) = [7]" "mx_msg x 7 = Some m" "msg_status m = 9"
    using demo_answered by blast
  with mailbox_wait_returns_status [OF x(1), of 2 "[]" 7 "[]" m] show ?thesis by (auto simp: ackMbx_def)
qed

text \<open>The flush of a mailbox.\<close>

lemma flush_ack_ok:
  "mbx_ok Q held x \<Longrightarrow> ackMbx b \<in> Q \<Longrightarrow> \<exists>y. flush_ack b x = Done OSA_EFAIL y \<and> mbx_ok Q held y
     \<and> msgq_elems (mx_que y (ackMbx b)) = [] \<and> (\<forall>q. q \<noteq> ackMbx b \<longrightarrow> mx_que y q = mx_que x q)"
proof (induction "msgq_elems (mx_que x (ackMbx b))" arbitrary: x)
  case Nil
  then have "mbx_recv (ackMbx b) OSA_TIMEOUT_NONE x = Done (OSA_EFAIL, None) (put_que (ackMbx b) (mx_que x (ackMbx b)) x)"
    by (cases rule: mbx_recv_cases [OF mbx_okD(2) [OF Nil(2,3)], of OSA_TIMEOUT_NONE, case_names got empty]) auto
  moreover have "put_que (ackMbx b) (mx_que x (ackMbx b)) x = x" by (simp add: put_que_def)
  ultimately have "flush_ack b x = Done OSA_EFAIL x" by (subst flush_ack.simps) (simp add: const_defs)
  with Nil show ?case by simp
next
  case (Cons p ps)
  obtain h where r: "mbx_recv (ackMbx b) OSA_TIMEOUT_NONE x = Done (OSA_SOK, Some p) (put_que (ackMbx b) h x)"
      "msgq_ok h" "msgq_elems h = ps"
    using Cons.hyps(2) [symmetric]
    by (cases rule: mbx_recv_cases [OF mbx_okD(2) [OF Cons.prems], of OSA_TIMEOUT_NONE, case_names got empty]) auto
  have x1: "mbx_ok Q (add_mset p held) (put_que (ackMbx b) h x)"
    by (rule recv_ok [OF Cons.prems Cons.hyps(2) [symmetric] r(2,3)])
  from free_ok [OF x1] obtain x2 where x2: "OSA_mbxFreeMsg p (put_que (ackMbx b) h x) = Some x2" "mbx_ok Q held x2" by blast
  note same = FreeMsg_ques [OF x2(1)]
  have "flush_ack b x = flush_ack b x2" using r(1) x2(1) by (subst flush_ack.simps) simp
  then show ?case using Cons.hyps(1) [OF _ x2(2) Cons.prems(2)] same r(3) by auto
qed

lemma answer_que:
  "OSA_mbxAckOrFreeMsg (Some p) ret x = Done st y \<Longrightarrow> mx_msg x p = Some m
    \<Longrightarrow> (msg_flags m AND OSA_MBX_WAIT_ACK \<noteq> 0 \<Longrightarrow> msg_pFrom m \<noteq> q) \<Longrightarrow> mx_que y q = mx_que x q"
  by (auto simp: OSA_mbxAckOrFreeMsg_def mbx_send_def dest: FreeMsg_ques split: option.splits if_splits pass.splits)

lemma answer_block:
  "OSA_mbxAckOrFreeMsg (Some p) ret x = Block q c y \<Longrightarrow> mx_msg x p = Some m \<Longrightarrow> msg_pFrom m = q \<and> c = CondWr \<and> mx_que y q = mx_que x q
     \<and> msg_flags m AND OSA_MBX_WAIT_ACK \<noteq> 0"
  by (auto simp: OSA_mbxAckOrFreeMsg_def mbx_send_def OSA_msgqSend_def split: option.splits if_splits pass.splits)

text \<open>An answer ends, or blocks on the full acknowledgement queue of the requester.\<close>

lemma answer_cases:
  assumes ok: "mbx_ok Q (add_mset p held) x"
  obtains (answered) y where "OSA_mbxAckOrFreeMsg (Some p) ret x = Done OSA_SOK y" "mbx_ok Q held y"
      "\<And>q. even q \<Longrightarrow> mx_que y q = mx_que x q"
  | (blocked) q y where "OSA_mbxAckOrFreeMsg (Some p) ret x = Block q CondWr y" "odd q" "q \<in> Q"
      "length (msgq_elems (mx_que y q)) = 32" "mbx_ok Q (add_mset p held) y"
proof -
  obtain m where m: "mx_msg x p = Some m" using owned_live [OF ok, of p] by (auto simp: owned_def)
  have src: "msg_pFrom m \<in> Q" "odd (msg_pFrom m)" if "msg_flags m AND OSA_MBX_WAIT_ACK \<noteq> 0"
    using msg_okD(1) [OF mbx_okD(4) [OF ok, of p] m that] by (simp_all add: owned_def)
  have safe: "safe Q (\<lambda>st. held) (add_mset p held) (OSA_mbxAckOrFreeMsg (Some p) ret x)" by (rule ack_or_free_safe [OF ok])
  show thesis
  proof (cases "OSA_mbxAckOrFreeMsg (Some p) ret x")
    case (Done st y)
    have "st = OSA_SOK" using Done m
      by (auto simp: OSA_mbxAckOrFreeMsg_def mbx_send_def OSA_msgqSend_def const_defs split: option.splits if_splits)
    moreover have "mx_que y q = mx_que x q" if "even q" for q using answer_que [OF Done m, of q] src(2) that by auto
    ultimately show thesis using answered [of y] Done safe by simp
  next
    case (Block q c y)
    note bl = answer_block [OF Block m]
    have "length (msgq_elems (mx_que x q)) = 32"
    proof (cases rule: mbx_send_cases [OF mbx_okD(2) [OF ok, of q], of p, case_names q sent full])
      case q
      then show ?case using bl src by simp
    next
      case (sent h)
      then show ?thesis using Block bl m by (auto simp: OSA_mbxAckOrFreeMsg_def mbx_send_def split: if_splits pass.splits)
    next
      case full
      then show ?thesis by simp
    qed
    with blocked [of q y] Block safe bl src show thesis by simp
  next
    case Fault
    with safe show thesis by simp
  qed
qed

definition flushed :: "msgq_ptr set \<Rightarrow> nat \<Rightarrow> msg_ptr multiset \<Rightarrow> int mbx_out \<Rightarrow> bool" where
  "flushed Q b held out \<longleftrightarrow> (case out of
     Done st y \<Rightarrow> st = OSA_EFAIL \<and> mbx_ok Q held y \<and> msgq_elems (mx_que y (rcvMbx b)) = []
   | Block q c y \<Rightarrow> c = CondWr \<and> odd q \<and> q \<in> Q \<and> length (msgq_elems (mx_que y q)) = 32
   | Fault \<Rightarrow> False)"

lemma flush_rcv_ok:
  "mbx_ok Q held x \<Longrightarrow> rcvMbx b \<in> Q \<Longrightarrow> \<exists>out. flush_rcv b x = Some out \<and> flushed Q b held out"
proof (induction "msgq_elems (mx_que x (rcvMbx b))" arbitrary: x)
  case Nil
  then have "OSA_mbxCheckMsg b x = Done (OSA_EFAIL, None) (put_que (rcvMbx b) (mx_que x (rcvMbx b)) x)"
    by (cases rule: mbx_recv_cases [OF mbx_okD(2) [OF Nil(2,3)], of OSA_TIMEOUT_NONE, case_names got empty])
       (auto simp: OSA_mbxCheckMsg_def)
  moreover have "put_que (rcvMbx b) (mx_que x (rcvMbx b)) x = x" by (simp add: put_que_def)
  ultimately have "flush_rcv b x = Some (Done OSA_EFAIL x)" by (subst flush_rcv.simps) (simp add: const_defs)
  with Nil show ?case by (simp add: flushed_def)
next
  case (Cons p ps)
  obtain h where r: "OSA_mbxCheckMsg b x = Done (OSA_SOK, Some p) (put_que (rcvMbx b) h x)"
      "msgq_ok h" "msgq_elems h = ps"
    using Cons.hyps(2) [symmetric]
    by (cases rule: mbx_recv_cases [OF mbx_okD(2) [OF Cons.prems], of OSA_TIMEOUT_NONE, case_names got empty])
       (auto simp: OSA_mbxCheckMsg_def)
  have x1: "mbx_ok Q (add_mset p held) (put_que (rcvMbx b) h x)"
    by (rule recv_ok [OF Cons.prems Cons.hyps(2) [symmetric] r(2,3)])
  show ?case
  proof (cases rule: answer_cases [OF x1, of OSA_SOK, case_names answered blocked])
    case (answered y)
    have "mx_que y (rcvMbx b) = h" using answered(3) [of "rcvMbx b"] by (simp add: rcvMbx_def)
    then have "\<exists>out. flush_rcv b y = Some out \<and> flushed Q b held out"
      using Cons.hyps(1) [OF _ answered(2) Cons.prems(2)] r(3) by simp
    moreover have "flush_rcv b x = flush_rcv b y" using r(1) answered(1) by (subst flush_rcv.simps) simp
    ultimately show ?thesis by simp
  next
    case (blocked q y)
    have "flush_rcv b x = Some (Block q CondWr y)" using r(1) blocked(1) by (subst flush_rcv.simps) simp
    with blocked show ?thesis by (simp add: flushed_def)
  qed
qed

text \<open>\<open>OSA_mbxFlush\<close> ends in every reachable state.  Either both queues of the mailbox
  are empty afterwards, and the status is \<open>OSA_EFAIL\<close> although it has done its work,
  or it blocks on the acknowledgement queue of some requester, which holds its 32
  messages.\<close>

theorem mailbox_flush:
  assumes reach: "mbx_reach Q (held, x)" and b: "rcvMbx b \<in> Q" "ackMbx b \<in> Q"
  shows "(\<exists>y. OSA_mbxFlush b x = Some (Done OSA_EFAIL y) \<and> msgq_elems (mx_que y (rcvMbx b)) = []
      \<and> msgq_elems (mx_que y (ackMbx b)) = [])
    \<or> (\<exists>q y. OSA_mbxFlush b x = Some (Block q CondWr y) \<and> odd q \<and> q \<in> Q \<and> length (msgq_elems (mx_que y q)) = 32)"
proof -
  have ok: "mbx_ok Q held x" using mbx_reach_ok [OF reach] by simp
  obtain out where out: "flush_rcv b x = Some out" "flushed Q b held out" using flush_rcv_ok [OF ok b(1)] by blast
  show ?thesis
  proof (cases out)
    case (Done st y)
    with out have y: "mbx_ok Q held y" "msgq_elems (mx_que y (rcvMbx b)) = []" by (simp_all add: flushed_def)
    obtain z where "flush_ack b y = Done OSA_EFAIL z" "msgq_elems (mx_que z (ackMbx b)) = []"
        "mx_que z (rcvMbx b) = mx_que y (rcvMbx b)"
      using flush_ack_ok [OF y(1) b(2)] by (auto simp: rcvMbx_def ackMbx_def)
    with y Done out show ?thesis by (auto simp: OSA_mbxFlush_def)
  next
    case (Block q c y)
    with out show ?thesis by (simp add: OSA_mbxFlush_def flushed_def)
  next
    case Fault
    with out show ?thesis by (simp add: flushed_def)
  qed
qed

lemma mailbox_flush_witness:
  "\<exists>y. OSA_mbxFlush 2 demo_mailboxes = Some y"
  using mailbox_flush [OF reach_start [OF demo_mailboxes_start], of 2] by (auto simp: rcvMbx_def ackMbx_def)

text \<open>The broadcast waits for the acknowledgements of all its messages.\<close>

definition first_error :: "int list \<Rightarrow> int" where
  "first_error sts = (case find (\<lambda>st. st \<noteq> OSA_SOK) sts of None \<Rightarrow> OSA_SOK | Some st \<Rightarrow> st)"

lemma first_error_simps [simp]:
  "first_error [] = OSA_SOK"
  "first_error (st # sts) = (if st = OSA_SOK then first_error sts else st)"
  by (simp_all add: first_error_def)

lemma broadcast_wait_all:
  "msgq_ok (mx_que x ackq) \<Longrightarrow> msgq_elems (mx_que x ackq) = acks @ rest \<Longrightarrow> distinct acks \<Longrightarrow> set acks \<subseteq> set sent
    \<Longrightarrow> mset missing = mset acks \<Longrightarrow> acks \<noteq> [] \<Longrightarrow> (\<And>p. p \<in> set acks \<Longrightarrow> mx_msg x p = Some (msg p))
    \<Longrightarrow> \<exists>y. broadcast_wait ackq sent missing ret x
          = Done (first_error (ret # map (\<lambda>p. msg_status (msg p)) acks)) y
        \<and> msgq_elems (mx_que y ackq) = rest \<and> mx_heap y = mx_heap x \<and> mx_msg y = mx_msg x"
proof (induction acks arbitrary: x missing ret)
  case Nil
  then show ?case by simp
next
  case (Cons p acks)
  obtain h where r: "mbx_recv ackq OSA_TIMEOUT_FOREVER x = Done (OSA_SOK, Some p) (put_que ackq h x)"
      "msgq_ok h" "msgq_elems h = acks @ rest"
    using Cons.prems(2) by (cases rule: mbx_recv_cases [OF Cons.prems(1), of OSA_TIMEOUT_FOREVER, case_names got empty]) auto
  let ?x1 = "put_que ackq h x"
  have x1: "mx_msg ?x1 = mx_msg x" "mx_que ?x1 ackq = h" "mx_heap ?x1 = mx_heap x"
    by (simp_all add: put_que_def)
  have p: "mx_msg ?x1 p = Some (msg p)" "p \<in> set sent" "p \<notin> set acks" using Cons.prems(3,4,7) by auto
  let ?ret = "if ret = OSA_SOK then msg_status (msg p) else ret"
  have step: "broadcast_wait ackq sent missing ret x = (if remove1 p missing = [] then Done ?ret ?x1
      else broadcast_wait ackq sent (remove1 p missing) ?ret ?x1)"
    using r(1) p by (subst broadcast_wait.simps) (simp add: Let_def)
  have missing: "mset (remove1 p missing) = mset acks" using Cons.prems(5) by simp
  show ?case
  proof (cases "acks = []")
    case True
    then have "remove1 p missing = []" using missing by (metis mset_zero_iff mset.simps(1))
    with step x1 r(3) True show ?thesis by (auto simp: fun_eq_iff)
  next
    case False
    then have "remove1 p missing \<noteq> []" using missing by (metis mset_zero_iff mset.simps(1))
    moreover have "\<exists>y. broadcast_wait ackq sent (remove1 p missing) ?ret ?x1
          = Done (first_error (?ret # map (\<lambda>p. msg_status (msg p)) acks)) y
        \<and> msgq_elems (mx_que y ackq) = rest \<and> mx_heap y = mx_heap ?x1
        \<and> mx_msg y = mx_msg ?x1"
      by (rule Cons.IH) (use x1 r Cons.prems p missing False in \<open>auto split: if_splits\<close>)
    ultimately show ?thesis using step x1 by (auto simp: fun_eq_iff)
  qed
qed

text \<open>A broadcast that has sent its messages returns once each has been acknowledged,
  in whatever order: its status is the first one that is not \<open>OSA_SOK\<close> in the order
  of arrival, and no message and no parameter is freed.\<close>

theorem mailbox_broadcast_wait:
  assumes reach: "mbx_reach Q (held, x)" and b: "ackMbx b \<in> Q"
    and el: "msgq_elems (mx_que x (ackMbx b)) = acks @ rest" "mset acks = mset sent" "sent \<noteq> []"
    and sts: "map (mx_msg x) acks = map Some msgs"
  shows "\<exists>y. broadcast_wait (ackMbx b) sent sent OSA_SOK x = Done (first_error (map msg_status msgs)) y
    \<and> msgq_elems (mx_que y (ackMbx b)) = rest \<and> mx_heap y = mx_heap x \<and> mx_msg y = mx_msg x"
proof -
  have ok: "mbx_ok Q held x" using mbx_reach_ok [OF reach] by simp
  have "count (mset acks) p \<le> count (owned Q held x) p" for p
    using mbx_okD(1) [OF ok] b el(1) by (simp add: owned_def count_sum sum.remove [of Q "ackMbx b"])
  then have "count (mset acks) p \<le> 1" for p
    using mbx_okD(3) [OF ok, of p] by (rule le_trans)
  then have dist: "distinct acks" by (auto simp: distinct_count_atmost_1 le_Suc_eq count_eq_zero_iff) 
  have each: "mx_msg x p = Some (the (mx_msg x p))" if "p \<in> set acks" for p
    using that sts by (metis image_eqI image_set list.set_map option.sel imageE)
  have stats: "map (\<lambda>p. msg_status (the (mx_msg x p))) acks = map msg_status msgs"
  proof -
    have "map (\<lambda>p. msg_status (the (mx_msg x p))) acks = map (msg_status \<circ> the) (map (mx_msg x) acks)" by simp
    then show ?thesis unfolding sts by simp
  qed
  have sets: "set acks = set sent" using el(2) by (rule mset_eq_setD)
  show ?thesis
    using broadcast_wait_all [of x "ackMbx b" acks rest sent sent "\<lambda>p. the (mx_msg x p)" OSA_SOK]
      mbx_okD(2) [OF ok b] el dist each sets by (simp add: stats) (metis mset.simps(1) mset_zero_iff)
qed

lemma mailbox_broadcast_wait_witness:
  "\<exists>x y. mbx_reach {2, 3, 4, 5} ({#}, x) \<and> broadcast_wait (ackMbx 2) [7] [7] OSA_SOK x = Done 9 y"
proof -
  obtain x m where x: "mbx_reach {2, 3, 4, 5} ({#}, x)" "msgq_elems (mx_que x 5) = [7]" "mx_msg x 7 = Some m" "msg_status m = 9"
    using demo_answered by blast
  with mailbox_broadcast_wait [OF x(1), of 2 "[7]" "[]" "[7]" "[m]"] show ?thesis by (auto simp: ackMbx_def const_defs)
qed

end
