(* ===== verification/Mem_Types.thy ===== *)
theory Mem_Types
  imports Prelude "HOL-Library.Signed_Division"
begin

text \<open>The data of the stream memory (include/mem_mng.h): its constants, and its
  structures as records.  C ints are integers; \<open>-1\<close> marks an unset index or
  serial as in the code.  Serial numbers count frames from 0 and are taken not to
  reach 2^31.  Addresses are integers, 0 for NULL, and the shared memory maps
  them to bytes.  Time stamps are unsigned ints.\<close>

section \<open>Constants\<close>

definition MP4_CACHE_SIZE :: int where [const_defs]: "MP4_CACHE_SIZE = 0x100000"
definition AUDIO_CACHE_SIZE :: int where [const_defs]: "AUDIO_CACHE_SIZE = 0x2000"
definition MP4_CACHE_BLK_SIZE :: int where [const_defs]: "MP4_CACHE_BLK_SIZE = 30 * 1024"
definition AUDIO_CACHE_BLK_SIZE :: int where [const_defs]: "AUDIO_CACHE_BLK_SIZE = 1 * 512"
definition MP4_MEM_SIZE :: int where [const_defs]: "MP4_MEM_SIZE = 0x100000"
definition MP4_EXT_MEM_SIZE :: int where [const_defs]: "MP4_EXT_MEM_SIZE = 0x50000"
definition AUDIO_MEM_SIZE :: int where [const_defs]: "AUDIO_MEM_SIZE = 0x2000"
definition MP4_BLK_SIZE :: int where [const_defs]: "MP4_BLK_SIZE = 30 * 1024"
definition MP4_EXT_BLK_SIZE :: int where [const_defs]: "MP4_EXT_BLK_SIZE = 10 * 1024"
definition AUDIO_BLK_SIZE :: int where [const_defs]: "AUDIO_BLK_SIZE = 1 * 512"
definition MP4_1_EXTRA_SIZE :: int where [const_defs]: "MP4_1_EXTRA_SIZE = 128"
definition MP4_2_EXTRA_SIZE :: int where [const_defs]: "MP4_2_EXTRA_SIZE = 128"
definition SHMEM_KEY :: int where [const_defs]: "SHMEM_KEY = 0x4321"

definition VIDEO_MJPG :: int where [const_defs]: "VIDEO_MJPG = 0"
definition VIDEO_MP4 :: int where [const_defs]: "VIDEO_MP4 = 1"
definition AUDIO_G711 :: int where [const_defs]: "AUDIO_G711 = 2"

definition DUMMY_FRAME :: int where [const_defs]: "DUMMY_FRAME = -2"
definition EMPTY_FRAME :: int where [const_defs]: "EMPTY_FRAME = -1"
definition AUDIO_FRAME :: int where [const_defs]: "AUDIO_FRAME = 0"
definition I_FRAME :: int where [const_defs]: "I_FRAME = 1"
definition P_FRAME :: int where [const_defs]: "P_FRAME = 2"
definition B_FRAME :: int where [const_defs]: "B_FRAME = 3"
definition END_FRAME_TYPE :: int where [const_defs]: "END_FRAME_TYPE = 4"

definition AUDIO_INFO_G711_CH1 :: nat where [const_defs]: "AUDIO_INFO_G711_CH1 = 16"
definition VIDOE_INFO_END :: nat where [const_defs]: "VIDOE_INFO_END = 32"

definition CACHE_PARM_ERR :: int where [const_defs]: "CACHE_PARM_ERR = -100"
definition CACHE_NOMEM :: int where [const_defs]: "CACHE_NOMEM = -99"
definition CACHE_MEM_FAIL :: int where [const_defs]: "CACHE_MEM_FAIL = -98"
definition CACHE_ERR :: int where [const_defs]: "CACHE_ERR = -97"
definition CACHE_OK :: int where [const_defs]: "CACHE_OK = 0"

definition EMPTY_CACHE :: int where [const_defs]: "EMPTY_CACHE = -1"
definition END_CACHE_TYPE :: int where [const_defs]: "END_CACHE_TYPE = 4"

definition MEM_LAYOUT_DEFAULT :: int where [const_defs]: "MEM_LAYOUT_DEFAULT = 0"
definition MEM_LAYOUT_1 :: int where [const_defs]: "MEM_LAYOUT_1 = 0"
definition MEM_LAYOUT_2 :: int where [const_defs]: "MEM_LAYOUT_2 = 1"
definition MEM_LAYOUT_NUM :: int where [const_defs]: "MEM_LAYOUT_NUM = 2"

section \<open>Structures\<close>

record cache_data_info =
  ci_serial :: int
  ci_type :: int
  ci_start_addr :: int
  ci_start_phy :: int
  ci_realsize :: int
  ci_flag :: int
  ci_timestamp :: "32 word"
  ci_ref_serial :: "int list"

record cache_data =
  cd_serial :: int
  cd_type :: int
  cd_blkindex :: int
  cd_blks :: int
  cd_realsize :: int
  cd_cnt :: int
  cd_flag :: int
  cd_timestamp :: "32 word"
  cd_ref_serial :: "int list"

record cache_blk =
  cb_IsFree :: int
  cb_offset :: int
  cb_serial :: int

record cache_mng =
  cm_video_type :: int
  cm_start_addr :: int
  cm_start_phy :: int
  cm_size :: int
  cm_blk_sz :: int
  cm_blk_num :: int
  cm_cache_num :: int
  cm_cache :: "cache_data list"
  cm_blk :: "cache_blk list"

record video_frame =
  vf_serial :: int
  vf_type :: int
  vf_blkindex :: int
  vf_blks :: int
  vf_realsize :: int
  vf_flag :: int
  vf_timestamp :: "32 word"
  vf_ref_serial :: "int list"

record video_gop =
  gop_last_Start :: int
  gop_last_Start_serial :: int
  gop_last_End :: int
  gop_last_End_serial :: int
  gop_lastest_I :: int
  gop_lastest_I_serial :: int

text \<open>The back pointer \<open>cachemng\<close> is left out: the frame store never follows it.\<close>

record video_blk_info =
  vi_video_type :: int
  vi_width :: int
  vi_height :: int
  vi_start :: int
  vi_start_phy :: int
  vi_size :: int
  vi_extradata :: int
  vi_extrasize :: int
  vi_IsCache :: int
  vi_blk_sz :: int
  vi_blk_num :: int
  vi_blk_free :: int
  vi_frame_num :: int
  vi_cur_frame :: int
  vi_cur_serial :: int
  vi_cur_blk :: int
  vi_timestamp :: "32 word"
  vi_gop :: video_gop
  vi_frame :: "video_frame list"

record mem_mng_info =
  mm_start_addr :: int
  mm_start_phyAddr :: int
  mm_freesize :: int
  mm_totalsize :: int
  mm_offset :: int
  mm_mem_layout :: int
  mm_shmem_key :: int
  mm_video_info_nums :: int
  mm_video_info :: "video_blk_info list"

record mem_size =
  ms_cache_size :: int
  ms_cache_blk_size :: int
  ms_mem_size :: int
  ms_mem_blk_size :: int
  ms_ext_size :: int

section \<open>Bytes\<close>

type_synonym byte = "8 word"
type_synonym memory = "int \<Rightarrow> byte"

text \<open>\<open>memcpy\<close> into and out of the shared memory.\<close>

definition mem_write :: "int \<Rightarrow> byte list \<Rightarrow> memory \<Rightarrow> memory" where
  "mem_write addr bs m = (\<lambda>a. if addr \<le> a \<and> a < addr + int (length bs) then bs ! nat (a - addr) else m a)"

definition mem_read :: "int \<Rightarrow> nat \<Rightarrow> memory \<Rightarrow> byte list" where
  "mem_read addr n m = map (\<lambda>i. m (addr + int i)) [0..<n]"

lemma length_mem_read [simp]: "length (mem_read addr n m) = n"
  by (simp add: mem_read_def)

lemma mem_read_write_same [simp]:
  "mem_read addr (length bs) (mem_write addr bs m) = bs"
  by (rule nth_equalityI) (simp_all add: mem_read_def mem_write_def)

lemma mem_read_write_other:
  "addr + int n \<le> addr' \<or> addr' + int (length bs) \<le> addr
    \<Longrightarrow> mem_read addr n (mem_write addr' bs m) = mem_read addr n m"
  by (auto simp: mem_read_def mem_write_def)

lemma mem_write_outside:
  "a < addr \<or> addr + int (length bs) \<le> a \<Longrightarrow> mem_write addr bs m a = m a"
  by (auto simp: mem_write_def)

text \<open>The quotient of C and the one of mathematics agree on naturals.\<close>

lemma sdiv_nonneg: "0 \<le> a \<Longrightarrow> 0 < b \<Longrightarrow> (a :: int) sdiv b = a div b"
  by (cases "a = 0") (simp_all add: signed_divide_int_def)

text \<open>The blocks a payload of \<open>sz\<close> bytes takes: the rounded up quotient.\<close>

definition blocks_for :: "int \<Rightarrow> int \<Rightarrow> int" where
  "blocks_for sz blk_sz = (sz + blk_sz - 1) sdiv blk_sz"

lemma blocks_for_bounds:
  assumes "0 < sz" "0 < blk_sz"
  shows "0 < blocks_for sz blk_sz" "sz \<le> blocks_for sz blk_sz * blk_sz"
    "(blocks_for sz blk_sz - 1) * blk_sz < sz"
proof -
  have eq: "blocks_for sz blk_sz = (sz + blk_sz - 1) div blk_sz"
    using assms by (simp add: blocks_for_def sdiv_nonneg)
  have dm: "(sz + blk_sz - 1) div blk_sz * blk_sz + (sz + blk_sz - 1) mod blk_sz = sz + blk_sz - 1"
    by (rule div_mult_mod_eq)
  have "0 \<le> (sz + blk_sz - 1) mod blk_sz" "(sz + blk_sz - 1) mod blk_sz < blk_sz"
    using assms by simp_all
  with dm show "sz \<le> blocks_for sz blk_sz * blk_sz" "(blocks_for sz blk_sz - 1) * blk_sz < sz"
    unfolding eq left_diff_distrib by linarith+
  with assms show "0 < blocks_for sz blk_sz"
    by (smt (verit) mult_nonneg_nonpos2 mult_le_0_iff)
qed

end
