(* ===== verification/Mem_Mng.thy ===== *)
theory Mem_Mng
  imports Mem_Types
begin

text \<open>The frame store of src/mem_mng.c: one ring of blocks and one ring of frame
  descriptors per channel.  A write makes room by freeing the oldest frames,
  pads the end of the block ring with a dummy frame when the payload would not be
  contiguous, and copies the payload into shared memory.  Operands of \<open>%\<close> are
  never negative here, so \<open>mod\<close> is C's remainder, except in the loop of the write.\<close>

section \<open>Frames\<close>

definition Video_Frame_reset :: "video_frame \<Rightarrow> video_frame" where
  "Video_Frame_reset pframe = pframe\<lparr>vf_type := EMPTY_FRAME, vf_serial := -1, vf_blkindex := -1,
     vf_blks := -1, vf_realsize := -1, vf_flag := 0, vf_timestamp := 0,
     vf_ref_serial := replicate VIDOE_INFO_END (-1)\<rparr>"

abbreviation frame_at :: "video_blk_info \<Rightarrow> int \<Rightarrow> video_frame" where
  "frame_at v i \<equiv> vi_frame v ! nat i"

definition set_frame :: "int \<Rightarrow> (video_frame \<Rightarrow> video_frame) \<Rightarrow> video_blk_info \<Rightarrow> video_blk_info" where
  "set_frame i f v = v\<lparr>vi_frame := (vi_frame v)[nat i := f (frame_at v i)]\<rparr>"

text \<open>What freeing a frame does to the group-of-pictures record (the code tests
  \<open>> 0\<close>, so index 0 is never forgotten).\<close>

definition gop_on_free :: "int \<Rightarrow> video_gop \<Rightarrow> video_gop" where
  "gop_on_free frame_id g =
    (let g1 = (if gop_last_Start g > 0 then
                 if gop_last_Start g = frame_id
                 then g\<lparr>gop_last_Start := -1, gop_last_Start_serial := -1,
                        gop_last_End := -1, gop_last_End_serial := -1\<rparr> else g
               else g)
     in if gop_lastest_I g1 > 0 then
          if gop_lastest_I g1 = frame_id
          then g1\<lparr>gop_lastest_I := -1, gop_last_End_serial := -1\<rparr> else g1
        else g1)"

definition MemMng_VidFrame_Free :: "video_blk_info \<Rightarrow> int \<Rightarrow> int \<times> video_blk_info" where
  "MemMng_VidFrame_Free v frame_id =
    (if frame_id \<ge> vi_frame_num v \<or> frame_id < 0 then (-1, v)
     else if vf_type (frame_at v frame_id) = EMPTY_FRAME then (0, v)
     else
       let f = frame_at v frame_id;
           blkStart = (if vf_blks f > 0 then vf_blkindex f else -1);
           v1 = (if vf_blks f > 0 then v\<lparr>vi_blk_free := vi_blk_free v + vf_blks f\<rparr> else v)
       in (blkStart,
           set_frame frame_id Video_Frame_reset (v1\<lparr>vi_gop := gop_on_free frame_id (vi_gop v1)\<rparr>)))"

definition MemMng_VidFrame_SetFlag :: "video_blk_info \<Rightarrow> video_blk_info" where
  "MemMng_VidFrame_SetFlag v =
    (let cur = vi_cur_frame v in
     if vf_type (frame_at v cur) = I_FRAME \<and> vi_video_type v = VIDEO_MP4 then
       let v1 = set_frame cur (\<lambda>f. f\<lparr>vf_flag := 1\<rparr>) v;
           last_frame = (if cur - 1 > 0 then cur - 1 else vi_frame_num v - 1)
       in if vf_type (frame_at v1 last_frame) = P_FRAME \<or> vf_type (frame_at v1 last_frame) = B_FRAME
          then set_frame last_frame (\<lambda>f. f\<lparr>vf_flag := 2\<rparr>) v1 else v1
     else set_frame cur (\<lambda>f. f\<lparr>vf_flag := 0\<rparr>) v)"

text \<open>What an I frame does to the group-of-pictures record.\<close>

definition gop_on_I :: "video_blk_info \<Rightarrow> video_gop" where
  "gop_on_I v = (let g = vi_gop v; cur = vi_cur_frame v in
     if gop_last_Start g < 0 then
       g\<lparr>gop_last_Start := cur, gop_lastest_I := cur,
         gop_last_Start_serial := vi_cur_serial v, gop_lastest_I_serial := vi_cur_serial v,
         gop_last_End := -1, gop_last_End_serial := -1\<rparr>
     else
       g\<lparr>gop_last_Start := gop_lastest_I g, gop_last_Start_serial := gop_lastest_I_serial g,
         gop_last_End := (if cur - 1 > 0 then cur - 1 else vi_frame_num v - 1),
         gop_last_End_serial := vi_cur_serial v - 1,
         gop_lastest_I := cur, gop_lastest_I_serial := vi_cur_serial v\<rparr>)"

text \<open>The first half of an insertion: take the next serial, block and descriptor
  and fill the descriptor.\<close>

definition insert_head :: "int \<Rightarrow> int \<Rightarrow> int \<Rightarrow> video_blk_info \<Rightarrow> video_blk_info" where
  "insert_head sz blks frame_type v =
    (let v1 = (if frame_type \<noteq> DUMMY_FRAME then v\<lparr>vi_cur_serial := vi_cur_serial v + 1\<rparr> else v);
         v2 = v1\<lparr>vi_cur_blk := (vi_cur_blk v1 + 1) mod vi_blk_num v1,
                 vi_cur_frame := (vi_cur_frame v1 + 1) mod vi_frame_num v1\<rparr>
     in set_frame (vi_cur_frame v2)
          (\<lambda>f. f\<lparr>vf_serial := vi_cur_serial v2, vf_type := frame_type, vf_blkindex := vi_cur_blk v2,
                 vf_blks := blks, vf_realsize := sz, vf_timestamp := vi_timestamp v2\<rparr>) v2)"

text \<open>The second half, once the payload is in place.\<close>

definition insert_tail :: "int \<Rightarrow> int \<Rightarrow> video_blk_info \<Rightarrow> video_blk_info" where
  "insert_tail blks frame_type v =
    (let v1 = (if frame_type = I_FRAME \<and> vi_video_type v = VIDEO_MP4
               then v\<lparr>vi_gop := gop_on_I v\<rparr> else v);
         v2 = MemMng_VidFrame_SetFlag v1
     in v2\<lparr>vi_cur_blk := (vi_cur_blk v2 + blks - 1) mod vi_blk_num v2,
           vi_blk_free := vi_blk_free v2 - blks\<rparr>)"

definition write_addr :: "video_blk_info \<Rightarrow> int \<Rightarrow> int" where
  "write_addr v blk = vi_start v + blk * vi_blk_sz v"

text \<open>\<open>data\<close> is None for NULL, and otherwise holds the bytes readable at the
  pointer: the first \<open>sz\<close> of them are the payload; the first frame also copies
  \<open>extrasize\<close> bytes to \<open>extradata\<close>, whatever \<open>sz\<close> is.\<close>

definition MemMng_VidFrame_Insert :: "byte list option \<Rightarrow> int \<Rightarrow> int \<Rightarrow> int \<Rightarrow> video_blk_info \<Rightarrow> memory
    \<Rightarrow> int \<times> video_blk_info \<times> memory" where
  "MemMng_VidFrame_Insert data sz blks frame_type v m =
    (if frame_type \<ge> END_FRAME_TYPE \<or> blks \<le> 0 then (-1, v, m)
     else
       let v1 = insert_head sz blks frame_type v in
       if frame_type = DUMMY_FRAME then (0, insert_tail blks frame_type v1, m)
       else
         let addr = write_addr v1 (vi_cur_blk v1) in
         case data of
           None \<Rightarrow> (-1, v1, m)
         | Some bytes \<Rightarrow>
             if addr = 0 then (-1, v1, m)
             else
               let m1 = mem_write addr (take (nat sz) bytes) m;
                   m2 = (if vi_cur_serial v1 = 0 \<and> vi_extradata v1 \<noteq> 0 \<and> vi_extrasize v1 \<noteq> 0
                         then mem_write (vi_extradata v1) (take (nat (vi_extrasize v1)) bytes) m1 else m1)
               in (0, insert_tail blks frame_type v1, m2))"

text \<open>The loop that makes room.  Some (0, ..) is its normal end, Some (-1, ..) the
  jump to the failure label, None a loop that does not end.  The count of freed frames
  and its sum with the next frame are \<open>int\<close>s that wrap, and the remainder of a
  negative sum is negative or 0.\<close>

partial_function (option) write_loop :: "int \<Rightarrow> int \<Rightarrow> memory \<Rightarrow> video_blk_info
    \<Rightarrow> (int \<times> video_blk_info \<times> memory) option" where
  "write_loop blk_use free_cnt m v =
    (if blk_use > vi_blk_free v then
       let freeframe = off32 (vi_cur_frame v + 1 + free_cnt) smod vi_frame_num v;
           r = MemMng_VidFrame_Free v freeframe
       in if fst r < 0 then Some (-1, snd r, m) else write_loop blk_use (off32 (free_cnt + 1)) m (snd r)
     else
       let nextblk = (vi_cur_blk v + 1) mod vi_blk_num v in
       if nextblk + blk_use > vi_blk_num v then
         let r = MemMng_VidFrame_Insert None 0 (vi_blk_num v - nextblk) DUMMY_FRAME v m
         in if fst r < 0 then Some (-1, snd r) else write_loop blk_use 0 (snd (snd r)) (fst (snd r))
       else Some (0, v, m))"

declare write_loop.simps [code]

text \<open>As long as nothing overflows the loop runs around the ring.\<close>

lemma free_index: "0 \<le> x \<Longrightarrow> x < 2 ^ 31 \<Longrightarrow> 0 < n \<Longrightarrow> off32 x smod n = x mod n"
  by (simp add: off32_id smod_mod_positive)

definition MemMng_Video_Write :: "byte list option \<Rightarrow> int \<Rightarrow> int \<Rightarrow> video_blk_info \<Rightarrow> memory
    \<Rightarrow> (int \<times> video_blk_info \<times> memory) option" where
  "MemMng_Video_Write data sz frame_type v m =
    (let blk_use = blocks_for sz (vi_blk_sz v) in
     if blk_use > vi_blk_num v \<or> sz = 0 then Some (-1, v, m)
     else case write_loop blk_use 0 m v of
       None \<Rightarrow> None
     | Some (st, v1, m1) \<Rightarrow>
         if st < 0 then Some (-1, v1, m1)
         else
           let r = MemMng_VidFrame_Insert data sz blk_use frame_type v1 m1
           in if fst r < 0 then Some (-1, snd r) else Some (0, snd r))"

text \<open>Reading a frame: status, size, type and the bytes stored at \<open>pDest\<close>.  \<open>dest\<close>
  tells whether \<open>pDest\<close> is not NULL, \<open>frm\<close> is None for a NULL frame.\<close>

definition MemMng_Video_ReadFrame :: "bool \<Rightarrow> int \<Rightarrow> video_frame option \<Rightarrow> video_blk_info \<Rightarrow> memory
    \<Rightarrow> int \<times> (int \<times> int \<times> byte list) option" where
  "MemMng_Video_ReadFrame dest bufflimit frm v m =
    (if \<not> dest then (-1, None)
     else case frm of
       None \<Rightarrow> (-1, None)
     | Some f \<Rightarrow>
         if vf_type f = DUMMY_FRAME \<or> vf_type f = EMPTY_FRAME then (-1, None)
         else if vf_realsize f > bufflimit then (-1, None)
         else (0, Some (vf_realsize f, vf_type f,
                 mem_read (vi_start v + vf_blkindex f * vi_blk_sz v) (nat (vf_realsize f)) m)))"

text \<open>The search answers the index of the frame.\<close>

definition MemMng_GetFrameBySerial :: "int \<Rightarrow> video_blk_info \<Rightarrow> int option" where
  "MemMng_GetFrameBySerial serial v =
    (if serial < 0 \<or> serial > vi_cur_serial v then None
     else if serial = vf_serial (frame_at v (vi_cur_frame v)) then Some (vi_cur_frame v)
     else map_option int (List.find
       (\<lambda>cnt. serial = vf_serial (vi_frame v ! cnt)
          \<and> \<not> (vf_type (vi_frame v ! cnt) = DUMMY_FRAME \<or> vf_type (vi_frame v ! cnt) = EMPTY_FRAME))
       [0..<nat (vi_frame_num v)]))"

definition GetCurrentSerialNo :: "video_blk_info \<Rightarrow> int" where
  "GetCurrentSerialNo v = vi_cur_serial v"

definition GetCurrentFrame :: "video_blk_info \<Rightarrow> int option" where
  "GetCurrentFrame v = (if vi_cur_frame v < 0 then None else Some (vi_cur_frame v))"

definition GetLastI_Frame :: "video_blk_info \<Rightarrow> int option" where
  "GetLastI_Frame v = (if gop_lastest_I (vi_gop v) < 0 then None else Some (gop_lastest_I (vi_gop v)))"

definition GetCurrentOffset :: "video_blk_info \<Rightarrow> int" where
  "GetCurrentOffset v = vi_cur_blk v * vi_blk_sz v"

end
