(* ===== verification/Mem_Inv.thy ===== *)
theory Mem_Inv
  imports Mem_Mng
begin

text \<open>The invariant of the frame store, and that every operation of src/mem_mng.c
  keeps it.  The store is seen as the list of its live frames, oldest first.\<close>

section \<open>The store as a list of frames\<close>

text \<open>A frame without its flag and its references to other channels, which play no
  part in the layout.\<close>

definition core :: "video_frame \<Rightarrow> video_frame" where
  "core f = f\<lparr>vf_flag := 0, vf_ref_serial := []\<rparr>"

text \<open>All descriptors, from the one the next insertion overwrites to the current one.\<close>

definition slots :: "video_blk_info \<Rightarrow> video_frame list" where
  "slots v = ring_list (map core (vi_frame v)) (nat (vi_cur_frame v + 1))
     (nat (vi_frame_num v)) (nat (vi_frame_num v))"

definition live :: "video_blk_info \<Rightarrow> video_frame list" where
  "live v = filter (\<lambda>f. vf_type f \<noteq> EMPTY_FRAME) (slots v)"

definition real_frame :: "video_frame \<Rightarrow> bool" where
  "real_frame f \<longleftrightarrow> vf_type f \<noteq> DUMMY_FRAME"

definition blocks :: "video_frame \<Rightarrow> nat list" where
  "blocks f = [nat (vf_blkindex f)..<nat (vf_blkindex f + vf_blks f)]"

definition frame_ok :: "int \<Rightarrow> int \<Rightarrow> video_frame \<Rightarrow> bool" where
  "frame_ok blk_num blk_sz f \<longleftrightarrow>
     1 \<le> vf_blks f \<and> 0 \<le> vf_blkindex f \<and> vf_blkindex f + vf_blks f \<le> blk_num
     \<and> vf_flag f = 0
     \<and> (vf_type f = DUMMY_FRAME \<or>
        0 \<le> vf_type f \<and> vf_type f < END_FRAME_TYPE
        \<and> 0 < vf_realsize f \<and> vf_realsize f \<le> vf_blks f * blk_sz)"

text \<open>Serials of the real frames run without gap up to the current one.\<close>

definition serials_ok :: "int \<Rightarrow> video_frame list \<Rightarrow> bool" where
  "serials_ok cur fs \<longleftrightarrow> -1 \<le> cur \<and> int (length (filter real_frame fs)) \<le> cur + 1
     \<and> map vf_serial (filter real_frame fs) = [cur + 1 - int (length (filter real_frame fs))..cur]"

definition store_geom :: "video_blk_info \<Rightarrow> bool" where
  "store_geom v \<longleftrightarrow> 0 < vi_blk_sz v \<and> 0 < vi_blk_num v \<and> vi_frame_num v = vi_blk_num v \<and> vi_frame_num v \<le> 2 ^ 30
     \<and> length (vi_frame v) = nat (vi_frame_num v)
     \<and> -1 \<le> vi_cur_frame v \<and> vi_cur_frame v < vi_frame_num v
     \<and> -1 \<le> vi_cur_blk v \<and> vi_cur_blk v < vi_blk_num v
     \<and> 0 \<le> vi_blk_free v \<and> vi_blk_free v \<le> vi_blk_num v"

definition store_rel :: "video_blk_info \<Rightarrow> video_frame list \<Rightarrow> bool" where
  "store_rel v fs \<longleftrightarrow> store_geom v
     \<and> (\<exists>es. slots v = es @ fs \<and> (\<forall>f \<in> set es. vf_type f = EMPTY_FRAME))
     \<and> (\<forall>f \<in> set fs. frame_ok (vi_blk_num v) (vi_blk_sz v) f)
     \<and> concat (map blocks fs) = seg (nat (vi_blk_num v))
          (nat (vi_cur_blk v + 1) + nat (vi_blk_free v)) (nat (vi_blk_num v - vi_blk_free v))
     \<and> serials_ok (vi_cur_serial v) fs
     \<and> (vi_cur_frame v = -1 \<longrightarrow> vi_cur_serial v = -1)"

definition store_ok :: "video_blk_info \<Rightarrow> bool" where
  "store_ok v \<longleftrightarrow> store_rel v (live v)"

text \<open>Between two writes the newest frame is a real one, or there is no frame yet.\<close>

definition settled :: "video_blk_info \<Rightarrow> bool" where
  "settled v \<longleftrightarrow> vi_cur_serial v = -1 \<or> live v \<noteq> [] \<and> real_frame (last (live v))"

text \<open>What no operation of the store changes.\<close>

definition params :: "video_blk_info \<Rightarrow> int list \<times> 32 word" where
  "params v = ([vi_video_type v, vi_width v, vi_height v, vi_start v, vi_start_phy v, vi_size v,
     vi_extradata v, vi_extrasize v, vi_IsCache v, vi_blk_sz v, vi_blk_num v, vi_frame_num v],
     vi_timestamp v)"

section \<open>Basic facts\<close>

lemma core_simps [simp]:
  "vf_serial (core f) = vf_serial f" "vf_type (core f) = vf_type f"
  "vf_blkindex (core f) = vf_blkindex f" "vf_blks (core f) = vf_blks f"
  "vf_realsize (core f) = vf_realsize f" "vf_timestamp (core f) = vf_timestamp f"
  "vf_flag (core f) = 0" "core (f\<lparr>vf_flag := x\<rparr>) = core f"
  "core (f\<lparr>vf_ref_serial := y\<rparr>) = core f"
  "real_frame (core f) = real_frame f" "blocks (core f) = blocks f"
  by (simp_all add: core_def real_frame_def blocks_def)

lemma frame_ok_not_empty: "frame_ok n b f \<Longrightarrow> vf_type f \<noteq> EMPTY_FRAME"
  by (auto simp: frame_ok_def const_defs)

lemma store_rel_live:
  assumes "store_rel v fs"
  shows "live v = fs"
proof -
  obtain es where "slots v = es @ fs" "\<forall>f \<in> set es. vf_type f = EMPTY_FRAME"
    using assms by (auto simp: store_rel_def)
  moreover have "\<forall>f \<in> set fs. vf_type f \<noteq> EMPTY_FRAME"
    using assms frame_ok_not_empty by (auto simp: store_rel_def)
  ultimately show ?thesis by (simp add: live_def)
qed

lemma store_rel_ok: "store_rel v fs \<longleftrightarrow> store_ok v \<and> fs = live v"
  using store_rel_live by (auto simp: store_ok_def)

lemma length_slots [simp]: "length (slots v) = nat (vi_frame_num v)"
  by (simp add: slots_def)

lemma length_blocks: "frame_ok n b f \<Longrightarrow> length (blocks f) = nat (vf_blks f)"
  by (simp add: frame_ok_def blocks_def nat_add_distrib)

lemma frame_ok_blks: "frame_ok n b f \<Longrightarrow> 1 \<le> vf_blks f"
  by (simp add: frame_ok_def)

text \<open>The blocks in use are those of the live frames, and every live frame has at
  least one: a store that is not full has a free descriptor.\<close>

lemma used_blocks:
  assumes "store_rel v fs"
  shows "(\<Sum>f\<leftarrow>fs. vf_blks f) = vi_blk_num v - vi_blk_free v"
    and "int (length fs) \<le> vi_blk_num v - vi_blk_free v"
proof -
  have ok: "\<forall>f \<in> set fs. frame_ok (vi_blk_num v) (vi_blk_sz v) f"
    using assms by (simp add: store_rel_def)
  have "length (concat (map blocks fs)) = nat (vi_blk_num v - vi_blk_free v)"
    using assms by (simp add: store_rel_def)
  moreover have "int (length (concat (map blocks fs))) = (\<Sum>f\<leftarrow>fs. vf_blks f)"
    using ok
  proof (induction fs)
    case (Cons f fs)
    then have "frame_ok (vi_blk_num v) (vi_blk_sz v) f" by simp
    with Cons length_blocks [OF this] frame_ok_blks [OF this] show ?case by simp
  qed simp
  ultimately show sum: "(\<Sum>f\<leftarrow>fs. vf_blks f) = vi_blk_num v - vi_blk_free v"
    using assms by (simp add: store_rel_def store_geom_def)
  have "int (length fs) \<le> (\<Sum>f\<leftarrow>fs. vf_blks f)"
    using ok by (induction fs) (auto dest: frame_ok_blks)
  with sum show "int (length fs) \<le> vi_blk_num v - vi_blk_free v" by simp
qed

lemma sum_blks_nonneg: "\<forall>f \<in> set fs. frame_ok n b f \<Longrightarrow> 0 \<le> (\<Sum>f\<leftarrow>fs. vf_blks f)"
  by (induction fs) (auto dest: frame_ok_blks)

lemma serials_tl: "serials_ok cur (f # fs) \<Longrightarrow> serials_ok cur fs"
  by (auto simp: serials_ok_def upto_rec1 algebra_simps split: if_splits)

lemma serials_snoc:
  "serials_ok cur fs \<Longrightarrow> real_frame f \<Longrightarrow> vf_serial f = cur + 1 \<Longrightarrow> serials_ok (cur + 1) (fs @ [f])"
  "serials_ok cur fs \<Longrightarrow> \<not> real_frame f \<Longrightarrow> serials_ok cur (fs @ [f])"
  by (auto simp: serials_ok_def upto_rec2 algebra_simps)

text \<open>A descriptor update seen in ring order.\<close>

lemma slots_set_frame:
  assumes "store_geom v" "j < nat (vi_frame_num v)"
    and "i = (vi_cur_frame v + 1 + int j) mod vi_frame_num v"
  shows "slots (set_frame i g v) = (slots v)[j := core (g (frame_at v i))]"
    and "core (frame_at v i) = slots v ! j"
proof -
  let ?n = "nat (vi_frame_num v)"
  have n: "0 < ?n" "length (vi_frame v) = ?n" using assms by (auto simp: store_geom_def)
  have i: "nat i = (nat (vi_cur_frame v + 1) + j) mod ?n"
    using assms by (simp add: store_geom_def nat_mod_distrib nat_add_distrib)
  show "slots (set_frame i g v) = (slots v)[j := core (g (frame_at v i))]"
    using ring_list_update [where j = j and cnt = ?n and n = ?n and q = "map core (vi_frame v)"
        and x = "core (g (frame_at v i))" and rd = "nat (vi_cur_frame v + 1)"] assms(2) n
    by (simp add: slots_def set_frame_def i map_update)
  show "core (frame_at v i) = slots v ! j"
    using assms(2) n by (simp add: slots_def ring_list_def i)
qed

section \<open>Freeing\<close>

lemma slots_simps [simp]:
  "slots (v\<lparr>vi_gop := g\<rparr>) = slots v" "slots (v\<lparr>vi_blk_free := b\<rparr>) = slots v"
  "slots (v\<lparr>vi_cur_blk := c\<rparr>) = slots v" "slots (v\<lparr>vi_cur_serial := d\<rparr>) = slots v"
  by (simp_all add: slots_def)

lemma params_simps [simp]:
  "params (v\<lparr>vi_gop := g\<rparr>) = params v" "params (v\<lparr>vi_blk_free := b\<rparr>) = params v"
  "params (v\<lparr>vi_cur_blk := c\<rparr>) = params v" "params (v\<lparr>vi_cur_serial := d\<rparr>) = params v"
  "params (v\<lparr>vi_cur_frame := e\<rparr>) = params v"
  by (simp_all add: params_def)

lemma store_geom_simps [simp]:
  "store_geom (v\<lparr>vi_gop := g\<rparr>) = store_geom v" "store_geom (set_frame i h v) = store_geom v"
  by (simp_all add: store_geom_def set_frame_def)

lemma set_frame_simps [simp]:
  "vi_video_type (set_frame i h v) = vi_video_type v" "vi_start (set_frame i h v) = vi_start v"
  "vi_blk_sz (set_frame i h v) = vi_blk_sz v" "vi_blk_num (set_frame i h v) = vi_blk_num v"
  "vi_blk_free (set_frame i h v) = vi_blk_free v" "vi_frame_num (set_frame i h v) = vi_frame_num v"
  "vi_cur_frame (set_frame i h v) = vi_cur_frame v" "vi_cur_serial (set_frame i h v) = vi_cur_serial v"
  "vi_cur_blk (set_frame i h v) = vi_cur_blk v" "vi_gop (set_frame i h v) = vi_gop v"
  "vi_timestamp (set_frame i h v) = vi_timestamp v" "vi_extradata (set_frame i h v) = vi_extradata v"
  "length (vi_frame (set_frame i h v)) = length (vi_frame v)"
  "vi_extrasize (set_frame i h v) = vi_extrasize v" "params (set_frame i h v) = params v"
  by (simp_all add: set_frame_def params_def)

lemma Video_Frame_reset_type [simp]: "vf_type (Video_Frame_reset f) = EMPTY_FRAME"
  by (simp add: Video_Frame_reset_def)

lemma slot_range:
  assumes "store_geom v"
  shows "0 \<le> (vi_cur_frame v + 1 + x) mod vi_frame_num v" "(vi_cur_frame v + 1 + x) mod vi_frame_num v < vi_frame_num v"
  using assms by (simp_all add: store_geom_def)

lemma free_empty_slot:
  assumes rel: "store_rel v fs" and j: "0 \<le> j" "j < vi_frame_num v - int (length fs)"
  shows "MemMng_VidFrame_Free v ((vi_cur_frame v + 1 + j) mod vi_frame_num v) = (0, v)"
proof -
  have geom: "store_geom v" using rel by (simp add: store_rel_def)
  obtain es where es: "slots v = es @ fs" "\<forall>f \<in> set es. vf_type f = EMPTY_FRAME"
    using rel by (auto simp: store_rel_def)
  have len: "length es + length fs = nat (vi_frame_num v)"
    using arg_cong [OF es(1), of length] by simp
  have jes: "nat j < length es" using j len by linarith
  let ?i = "(vi_cur_frame v + 1 + j) mod vi_frame_num v"
  have "core (frame_at v ?i) = slots v ! nat j"
    by (rule slots_set_frame(2) [OF geom]) (use jes len j in auto)
  then have "vf_type (frame_at v ?i) = vf_type (slots v ! nat j)"
    by (metis core_simps(2))
  then have "vf_type (frame_at v ?i) = EMPTY_FRAME"
    using es jes by (simp add: nth_append)
  then show ?thesis
    using slot_range [OF geom, of j] by (simp add: MemMng_VidFrame_Free_def)
qed

lemma free_oldest:
  assumes rel: "store_rel v (f # fs)"
    and i: "i = (vi_cur_frame v + 1 + (vi_frame_num v - int (length (f # fs)))) mod vi_frame_num v"
  obtains v' where "MemMng_VidFrame_Free v i = (vf_blkindex f, v')" "store_rel v' fs"
    "params v' = params v" "vi_blk_free v' = vi_blk_free v + vf_blks f"
    "vi_cur_serial v' = vi_cur_serial v" "vi_cur_frame v' = vi_cur_frame v" "vi_cur_blk v' = vi_cur_blk v"
    "vi_gop v' = gop_on_free i (vi_gop v)" "core (frame_at v i) = f"
    "vi_frame v' = (vi_frame v)[nat i := Video_Frame_reset (frame_at v i)]"
proof -
  have geom: "store_geom v" using rel by (simp add: store_rel_def)
  obtain es where es: "slots v = es @ f # fs" "\<forall>f \<in> set es. vf_type f = EMPTY_FRAME"
    using rel by (auto simp: store_rel_def)
  have ok: "frame_ok (vi_blk_num v) (vi_blk_sz v) f" using rel by (simp add: store_rel_def)
  have len: "length es + length (f # fs) = nat (vi_frame_num v)"
    using arg_cong [OF es(1), of length] by simp
  have "vi_frame_num v - int (length (f # fs)) = int (length es)"
    using len geom by (simp add: store_geom_def)
  with i have i': "i = (vi_cur_frame v + 1 + int (length es)) mod vi_frame_num v" by (simp only:)
  have j: "length es < nat (vi_frame_num v)" using len by simp
  have f: "core (frame_at v i) = f"
    using slots_set_frame(2) [OF geom j i'] es by simp
  have fields: "vf_type (frame_at v i) = vf_type f" "vf_blks (frame_at v i) = vf_blks f"
      "vf_blkindex (frame_at v i) = vf_blkindex f"
    by (simp_all add: f [symmetric])
  define v1 where "v1 = v\<lparr>vi_blk_free := vi_blk_free v + vf_blks f, vi_gop := gop_on_free i (vi_gop v)\<rparr>"
  let ?v = "set_frame i Video_Frame_reset v1"
  have range: "0 \<le> i" "i < vi_frame_num v"
    using slot_range [OF geom, of "int (length es)"] i' by simp_all
  have free: "MemMng_VidFrame_Free v i = (vf_blkindex f, ?v)"
    using range frame_ok_not_empty [OF ok] frame_ok_blks [OF ok]
    by (simp add: MemMng_VidFrame_Free_def fields v1_def Let_def)
  have used: "vi_blk_free v + vf_blks f \<le> vi_blk_num v"
    using used_blocks(1) [OF rel] sum_blks_nonneg [of fs "vi_blk_num v" "vi_blk_sz v"] rel
    by (simp add: store_rel_def)
  have "slots ?v = (slots v1)[length es := core (Video_Frame_reset (frame_at v1 i))]"
    by (rule slots_set_frame(1)) (use geom j i' used frame_ok_blks [OF ok] in \<open>simp_all add: v1_def store_geom_def\<close>)
  then have slots: "slots ?v = (es @ [core (Video_Frame_reset (frame_at v1 i))]) @ fs"
    using es by (simp add: v1_def)
  show thesis
  proof (rule that)
    show "MemMng_VidFrame_Free v i = (vf_blkindex f, ?v)" by (fact free)
    show "store_rel ?v fs"
      unfolding store_rel_def
    proof (intro conjI)
      show "store_geom ?v" using geom used frame_ok_blks [OF ok]
        by (simp add: v1_def store_geom_def)
      show "\<exists>es. slots ?v = es @ fs \<and> (\<forall>f \<in> set es. vf_type f = EMPTY_FRAME)"
        using slots es by (intro exI [of _ "es @ [core (Video_Frame_reset (frame_at v1 i))]"]) auto
      have "nat (vi_blk_num v - vi_blk_free v)
          = nat (vf_blks f) + nat (vi_blk_num v - (vi_blk_free v + vf_blks f))"
        using used frame_ok_blks [OF ok] by simp
      with rel have "blocks f @ concat (map blocks fs)
          = seg (nat (vi_blk_num v)) (nat (vi_cur_blk v + 1) + nat (vi_blk_free v)) (nat (vf_blks f))
            @ seg (nat (vi_blk_num v)) (nat (vi_cur_blk v + 1) + nat (vi_blk_free v) + nat (vf_blks f))
                (nat (vi_blk_num v - (vi_blk_free v + vf_blks f)))"
        by (simp add: store_rel_def seg_add)
      then have "concat (map blocks fs) = seg (nat (vi_blk_num v))
          (nat (vi_cur_blk v + 1) + nat (vi_blk_free v) + nat (vf_blks f))
          (nat (vi_blk_num v - (vi_blk_free v + vf_blks f)))"
        using length_blocks [OF ok] by simp
      moreover have "nat (vi_blk_free v + vf_blks f) = nat (vi_blk_free v) + nat (vf_blks f)"
        using geom frame_ok_blks [OF ok] by (simp add: store_geom_def nat_add_distrib)
      ultimately show "concat (map blocks fs) = seg (nat (vi_blk_num ?v))
          (nat (vi_cur_blk ?v + 1) + nat (vi_blk_free ?v)) (nat (vi_blk_num ?v - vi_blk_free ?v))"
        by (simp add: v1_def add.assoc)
      show "serials_ok (vi_cur_serial ?v) fs"
        using rel serials_tl [of "vi_cur_serial v" f fs] by (simp add: store_rel_def v1_def)
    qed (use rel in \<open>simp_all add: store_rel_def v1_def\<close>)
  qed (simp_all add: v1_def params_def f set_frame_def)
qed

section \<open>Inserting\<close>

text \<open>Flags and references are invisible in the list of frames.\<close>

lemma set_flag_core:
  assumes "\<And>f. core (g f) = core f"
  shows "map core (vi_frame (set_frame i g v)) = map core (vi_frame v)"
proof (cases "nat i < length (vi_frame v)")
  case True
  then have "(map core (vi_frame v))[nat i := core (vi_frame v ! nat i)] = map core (vi_frame v)"
    by (metis list_update_id nth_map)
  then show ?thesis by (simp add: set_frame_def map_update assms)
qed (simp add: set_frame_def list_update_beyond)

lemma SetFlag_frame:
  "map core (vi_frame (MemMng_VidFrame_SetFlag v)) = map core (vi_frame v)"
  "length (vi_frame (MemMng_VidFrame_SetFlag v)) = length (vi_frame v)"
  by (simp_all add: MemMng_VidFrame_SetFlag_def Let_def set_flag_core)

lemma SetFlag_simps [simp]:
  "vi_video_type (MemMng_VidFrame_SetFlag v) = vi_video_type v"
  "vi_start (MemMng_VidFrame_SetFlag v) = vi_start v" "vi_blk_sz (MemMng_VidFrame_SetFlag v) = vi_blk_sz v"
  "vi_blk_num (MemMng_VidFrame_SetFlag v) = vi_blk_num v"
  "vi_blk_free (MemMng_VidFrame_SetFlag v) = vi_blk_free v"
  "vi_frame_num (MemMng_VidFrame_SetFlag v) = vi_frame_num v"
  "vi_cur_frame (MemMng_VidFrame_SetFlag v) = vi_cur_frame v"
  "vi_cur_serial (MemMng_VidFrame_SetFlag v) = vi_cur_serial v"
  "vi_cur_blk (MemMng_VidFrame_SetFlag v) = vi_cur_blk v"
  "vi_gop (MemMng_VidFrame_SetFlag v) = vi_gop v"
  "params (MemMng_VidFrame_SetFlag v) = params v"
  by (simp_all add: MemMng_VidFrame_SetFlag_def Let_def)

lemma insert_tail_fields:
  "map core (vi_frame (insert_tail blks ft v)) = map core (vi_frame v)"
  "length (vi_frame (insert_tail blks ft v)) = length (vi_frame v)"
  "vi_frame_num (insert_tail blks ft v) = vi_frame_num v"
  "vi_blk_num (insert_tail blks ft v) = vi_blk_num v"
  "vi_blk_sz (insert_tail blks ft v) = vi_blk_sz v"
  "vi_cur_frame (insert_tail blks ft v) = vi_cur_frame v"
  "vi_cur_serial (insert_tail blks ft v) = vi_cur_serial v"
  "vi_cur_blk (insert_tail blks ft v) = (vi_cur_blk v + blks - 1) mod vi_blk_num v"
  "vi_blk_free (insert_tail blks ft v) = vi_blk_free v - blks"
  "params (insert_tail blks ft v) = params v"
  "vi_start (insert_tail blks ft v) = vi_start v"
  by (simp_all add: insert_tail_def Let_def SetFlag_frame)

lemma insert_head_fields:
  "length (vi_frame (insert_head sz blks ft v)) = length (vi_frame v)"
  "vi_frame_num (insert_head sz blks ft v) = vi_frame_num v"
  "vi_blk_num (insert_head sz blks ft v) = vi_blk_num v"
  "vi_blk_sz (insert_head sz blks ft v) = vi_blk_sz v"
  "vi_start (insert_head sz blks ft v) = vi_start v"
  "vi_blk_free (insert_head sz blks ft v) = vi_blk_free v"
  "vi_gop (insert_head sz blks ft v) = vi_gop v"
  "vi_extradata (insert_head sz blks ft v) = vi_extradata v"
  "vi_extrasize (insert_head sz blks ft v) = vi_extrasize v"
  "vi_video_type (insert_head sz blks ft v) = vi_video_type v"
  "vi_cur_frame (insert_head sz blks ft v) = (vi_cur_frame v + 1) mod vi_frame_num v"
  "vi_cur_blk (insert_head sz blks ft v) = (vi_cur_blk v + 1) mod vi_blk_num v"
  "vi_cur_serial (insert_head sz blks ft v) = (if ft \<noteq> DUMMY_FRAME then vi_cur_serial v + 1 else vi_cur_serial v)"
  "params (insert_head sz blks ft v) = params v"
  by (simp_all add: insert_head_def Let_def)

definition new_frame :: "int \<Rightarrow> int \<Rightarrow> int \<Rightarrow> video_blk_info \<Rightarrow> video_frame" where
  "new_frame sz blks ft v = core ((frame_at v ((vi_cur_frame v + 1) mod vi_frame_num v))
    \<lparr>vf_serial := (if ft \<noteq> DUMMY_FRAME then vi_cur_serial v + 1 else vi_cur_serial v), vf_type := ft,
     vf_blkindex := (vi_cur_blk v + 1) mod vi_blk_num v, vf_blks := blks, vf_realsize := sz,
     vf_timestamp := vi_timestamp v\<rparr>)"

lemma new_frame_fields [simp]:
  "vf_serial (new_frame sz blks ft v) = (if ft \<noteq> DUMMY_FRAME then vi_cur_serial v + 1 else vi_cur_serial v)"
  "vf_type (new_frame sz blks ft v) = ft" "vf_blks (new_frame sz blks ft v) = blks"
  "vf_blkindex (new_frame sz blks ft v) = (vi_cur_blk v + 1) mod vi_blk_num v"
  "vf_realsize (new_frame sz blks ft v) = sz" "vf_flag (new_frame sz blks ft v) = 0"
  "vf_timestamp (new_frame sz blks ft v) = vi_timestamp v"
  by (simp_all add: new_frame_def)

lemma insert_head_frame:
  "map core (vi_frame (insert_head sz blks ft v))
    = (map core (vi_frame v))[nat ((vi_cur_frame v + 1) mod vi_frame_num v) := new_frame sz blks ft v]"
  by (simp add: insert_head_def Let_def set_frame_def map_update new_frame_def)

lemma slots_insert:
  assumes "store_geom v"
  shows "slots (insert_tail blks ft (insert_head sz blks ft v)) = tl (slots v) @ [new_frame sz blks ft v]"
proof -
  let ?n = "nat (vi_frame_num v)" and ?rd = "nat (vi_cur_frame v + 1)"
  have n: "0 < ?n" "length (vi_frame v) = ?n" using assms by (auto simp: store_geom_def)
  have idx: "nat ((vi_cur_frame v + 1) mod vi_frame_num v) = ?rd mod ?n"
    by (rule nat_mod_distrib) (use assms in \<open>simp_all add: store_geom_def\<close>)
  have next_rd: "nat ((vi_cur_frame v + 1) mod vi_frame_num v + 1) = Suc (?rd mod ?n)"
    using slot_range(1) [OF assms, of 0] idx Suc_nat_eq_nat_zadd1 [of "(vi_cur_frame v + 1) mod vi_frame_num v"]
    by (simp add: add.commute)
  have "slots (insert_tail blks ft (insert_head sz blks ft v))
      = ring_list ((map core (vi_frame v))[?rd mod ?n := new_frame sz blks ft v]) (Suc (?rd mod ?n)) ?n ?n"
    by (simp add: slots_def insert_tail_fields insert_head_fields insert_head_frame next_rd idx)
  also have "\<dots> = ring_list ((map core (vi_frame v))[?rd mod ?n := new_frame sz blks ft v]) (Suc ?rd) ?n ?n"
    using ring_list_mod [of _ "Suc (?rd mod ?n)" ?n ?n] ring_list_mod [of _ "Suc ?rd" ?n ?n]
    by (metis mod_Suc_eq)
  also have "\<dots> = tl (slots v) @ [new_frame sz blks ft v]"
    using ring_list_rotate [of ?n "map core (vi_frame v)" ?rd] n by (simp add: slots_def)
  finally show ?thesis .
qed

text \<open>The blocks a new frame takes continue the ring.\<close>

lemma insert_blocks:
  assumes geom: "store_geom v" and b: "0 < blks" "blks \<le> vi_blk_free v"
    and contiguous: "(vi_cur_blk v + 1) mod vi_blk_num v + blks \<le> vi_blk_num v"
    and used: "bs = seg (nat (vi_blk_num v)) (nat (vi_cur_blk v + 1) + nat (vi_blk_free v))
          (nat (vi_blk_num v - vi_blk_free v))"
    and cb: "cb = ((vi_cur_blk v + 1) mod vi_blk_num v + blks - 1) mod vi_blk_num v"
  shows "bs @ [nat ((vi_cur_blk v + 1) mod vi_blk_num v)..<nat ((vi_cur_blk v + 1) mod vi_blk_num v + blks)]
    = seg (nat (vi_blk_num v)) (nat (cb + 1) + nat (vi_blk_free v - blks))
        (nat (vi_blk_num v - (vi_blk_free v - blks)))"
proof -
  define N where "N = nat (vi_blk_num v)"
  define c where "c = nat (vi_cur_blk v + 1)"
  define b' where "b' = nat blks"
  define fr where "fr = nat (vi_blk_free v)"
  have ints: "vi_blk_num v = int N" "vi_cur_blk v + 1 = int c" "blks = int b'" "vi_blk_free v = int fr"
    using geom b by (simp_all add: N_def c_def b'_def fr_def store_geom_def)
  have N: "0 < N" "fr \<le> N" "b' \<le> fr" "0 < b'"
    using geom b ints by (simp_all add: store_geom_def)
  have blk: "(vi_cur_blk v + 1) mod vi_blk_num v = int (c mod N)"
    by (simp add: ints zmod_int)
  have fits: "c mod N + b' \<le> N" 
  proof -
    have "int (c mod N) + int b' \<le> int N" using contiguous [unfolded blk] by (simp only: ints(1,3))
    then show ?thesis by linarith
  qed
  have cb': "cb + 1 = int (c mod N + b')"
  proof -
    have "cb = (int (c mod N) + int b' - 1) mod int N" using cb [unfolded blk] by (simp only: ints(1,3))
    also have "\<dots> = int (c mod N) + int b' - 1"
      by (rule mod_pos_pos_trivial) (use N fits in linarith)+
    finally show ?thesis by simp
  qed
  have new: "[nat ((vi_cur_blk v + 1) mod vi_blk_num v)..<nat ((vi_cur_blk v + 1) mod vi_blk_num v + blks)]
      = seg N c b'"
    using seg_upt [OF fits] by (simp only: blk ints(3) seg_mod nat_int flip: of_nat_add)
  have nums: "nat (vi_blk_num v - vi_blk_free v) = N - fr" "nat (vi_blk_free v - blks) = fr - b'"
      "nat (vi_blk_num v - (vi_blk_free v - blks)) = N - (fr - b')"
    using N unfolding ints(1,3,4) by linarith+
  have "bs @ seg N c b' = seg N (c + fr) (N - fr) @ seg N (c + fr + (N - fr)) b'"
    using N by (simp add: used nums flip: N_def c_def fr_def)
  also have "\<dots> = seg N (c + fr) (N - fr + b')" by (simp only: seg_add)
  also have "\<dots> = seg N (c mod N + b' + (fr - b')) (N - (fr - b'))"
  proof -
    have "seg N (c mod N + b' + (fr - b')) l = seg N (c + fr) l" for l
      using N by (metis add.assoc le_add_diff_inverse mod_add_left_eq seg_mod)
    with N show ?thesis by simp
  qed
  finally show ?thesis
    by (simp only: new cb' nums nat_int flip: N_def)
qed

lemma insert_rel:
  assumes rel: "store_rel v fs" and b: "0 < blks" "blks \<le> vi_blk_free v"
    and contiguous: "(vi_cur_blk v + 1) mod vi_blk_num v + blks \<le> vi_blk_num v"
    and type: "ft = DUMMY_FRAME \<or> 0 \<le> ft \<and> ft < END_FRAME_TYPE \<and> 0 < sz \<and> sz \<le> blks * vi_blk_sz v"
  shows "store_rel (insert_tail blks ft (insert_head sz blks ft v)) (fs @ [new_frame sz blks ft v])"
    (is "store_rel ?v _")
proof -
  have geom: "store_geom v" using rel by (simp add: store_rel_def)
  have range: "0 \<le> (vi_cur_blk v + 1) mod vi_blk_num v" "(vi_cur_blk v + 1) mod vi_blk_num v < vi_blk_num v"
    "0 \<le> (vi_cur_frame v + 1) mod vi_frame_num v" "(vi_cur_frame v + 1) mod vi_frame_num v < vi_frame_num v"
    using geom by (simp_all add: store_geom_def)
  obtain es where es: "slots v = es @ fs" "\<forall>f \<in> set es. vf_type f = EMPTY_FRAME"
    using rel by (auto simp: store_rel_def)
  have "length fs < nat (vi_frame_num v)"
    using used_blocks(2) [OF rel] b geom by (simp add: store_geom_def)
  then have "es \<noteq> []" using arg_cong [OF es(1), of length] by auto
  then have slots: "slots ?v = tl es @ fs @ [new_frame sz blks ft v]"
    using es slots_insert [OF geom] by simp
  have new_ok: "frame_ok (vi_blk_num v) (vi_blk_sz v) (new_frame sz blks ft v)"
    using b contiguous type range by (auto simp: frame_ok_def)
  show ?thesis
    unfolding store_rel_def
  proof (intro conjI)
    show "store_geom ?v"
      using geom b range pos_mod_sign [of "vi_blk_num v" "(vi_cur_blk v + 1) mod vi_blk_num v + blks - 1"]
      by (auto simp: store_geom_def insert_tail_fields insert_head_fields intro: order_trans [of "-1" 0])
    show "\<exists>es. slots ?v = es @ fs @ [new_frame sz blks ft v] \<and> (\<forall>f \<in> set es. vf_type f = EMPTY_FRAME)"
      using slots es \<open>es \<noteq> []\<close> by (intro exI [of _ "tl es"]) (auto dest: list.set_sel(2))
    show "\<forall>f \<in> set (fs @ [new_frame sz blks ft v]). frame_ok (vi_blk_num ?v) (vi_blk_sz ?v) f"
      using rel new_ok by (simp add: store_rel_def insert_tail_fields insert_head_fields)
    show "concat (map blocks (fs @ [new_frame sz blks ft v])) = seg (nat (vi_blk_num ?v))
        (nat (vi_cur_blk ?v + 1) + nat (vi_blk_free ?v)) (nat (vi_blk_num ?v - vi_blk_free ?v))"
      using insert_blocks [OF geom b contiguous _ refl, of "concat (map blocks fs)"] rel
      by (simp add: store_rel_def insert_tail_fields insert_head_fields blocks_def)
    show "serials_ok (vi_cur_serial ?v) (fs @ [new_frame sz blks ft v])"
      using rel serials_snoc [of "vi_cur_serial v" fs "new_frame sz blks ft v"]
      by (auto simp: store_rel_def insert_tail_fields insert_head_fields real_frame_def)
    show "vi_cur_frame ?v = -1 \<longrightarrow> vi_cur_serial ?v = -1"
      using range by (simp add: insert_tail_fields insert_head_fields)
  qed
qed

section \<open>Making room\<close>

text \<open>What the loop keeps besides the layout is a parameter of the next lemmas: any
  property that freeing the oldest frame and inserting a dummy keep.\<close>

definition loop_stable :: "(video_blk_info \<Rightarrow> bool) \<Rightarrow> bool" where
  "loop_stable P \<longleftrightarrow>
     (\<forall>v f fs. store_rel v (f # fs) \<longrightarrow> P v \<longrightarrow> P (snd (MemMng_VidFrame_Free v
        ((vi_cur_frame v + 1 + (vi_frame_num v - int (length (f # fs)))) mod vi_frame_num v))))
   \<and> (\<forall>v fs d. store_rel v fs \<longrightarrow> P v \<longrightarrow> 0 < d \<longrightarrow> d \<le> vi_blk_free v
        \<longrightarrow> P (insert_tail d DUMMY_FRAME (insert_head 0 d DUMMY_FRAME v)))"

lemma free_phase:
  assumes "store_rel v fs" "0 < b" "b \<le> vi_blk_num v" "0 \<le> fc" "fc \<le> vi_frame_num v - int (length fs)"
    and stable: "loop_stable P" and "P v"
  shows "\<exists>v' fs0 fs' fc'. write_loop b fc m v = write_loop b fc' m v' \<and> store_rel v' fs' \<and> P v'
    \<and> fs = fs0 @ fs' \<and> b \<le> vi_blk_free v' \<and> params v' = params v
    \<and> vi_cur_serial v' = vi_cur_serial v \<and> vi_cur_frame v' = vi_cur_frame v \<and> vi_cur_blk v' = vi_cur_blk v
    \<and> (b \<le> vi_blk_free v \<longrightarrow> v' = v)"
  using assms
proof (induction "nat (vi_frame_num v - fc)" arbitrary: v fs fc rule: less_induct)
  case less
  show ?case
  proof (cases "b \<le> vi_blk_free v")
    case True
    with less.prems show ?thesis
      by (intro exI [of _ v] exI [of _ "[]"] exI [of _ fs] exI [of _ fc]) auto
  next
    case False
    have geom: "store_geom v" using less.prems(1) by (simp add: store_rel_def)
    have "fs \<noteq> []" using used_blocks(1) [OF less.prems(1)] False less.prems(3) by auto
    then obtain f fs1 where fs: "fs = f # fs1" by (cases fs) auto
    have fc: "fc < vi_frame_num v" using less.prems(5) fs by simp
    let ?i = "(vi_cur_frame v + 1 + fc) mod vi_frame_num v"
    have i: "off32 (vi_cur_frame v + 1 + fc) smod vi_frame_num v = ?i" "off32 (fc + 1) = fc + 1"
      by (rule free_index off32_id; use geom fc less.prems(4) in \<open>simp add: store_geom_def\<close>)+
    show ?thesis
    proof (cases "fc < vi_frame_num v - int (length fs)")
      case True
      have "MemMng_VidFrame_Free v ?i = (0, v)"
        using free_empty_slot [OF less.prems(1,4) True] .
      with False have step: "write_loop b fc m v = write_loop b (fc + 1) m v"
        by (subst write_loop.simps) (simp add: i)
      show ?thesis
        unfolding step
        by (rule less.hyps) (use less.prems True fc in auto)
    next
      case False': False
      with less.prems(5) have fc_eq: "fc = vi_frame_num v - int (length (f # fs1))" by (simp add: fs)
      from free_oldest [OF less.prems(1) [unfolded fs] refl] obtain v1 where
        v1: "MemMng_VidFrame_Free v ?i = (vf_blkindex f, v1)" "store_rel v1 fs1" "params v1 = params v"
          "vi_blk_free v1 = vi_blk_free v + vf_blks f" "vi_cur_serial v1 = vi_cur_serial v"
          "vi_cur_frame v1 = vi_cur_frame v" "vi_cur_blk v1 = vi_cur_blk v"
        unfolding fc_eq by metis
      have num: "vi_frame_num v1 = vi_frame_num v" "vi_blk_num v1 = vi_blk_num v"
        using v1(3) by (simp_all add: params_def)
      have "0 \<le> vf_blkindex f" using less.prems(1) by (simp add: fs store_rel_def frame_ok_def)
      with False v1(1) have step: "write_loop b fc m v = write_loop b (fc + 1) m v1"
        by (subst write_loop.simps) (simp add: i)
      have "P v1"
        using stable less.prems(1,7) v1(1) unfolding loop_stable_def fs fc_eq by (metis snd_conv)
      have "\<exists>v' fs0 fs' fc'. write_loop b (fc + 1) m v1 = write_loop b fc' m v' \<and> store_rel v' fs' \<and> P v'
        \<and> fs1 = fs0 @ fs' \<and> b \<le> vi_blk_free v' \<and> params v' = params v1
        \<and> vi_cur_serial v' = vi_cur_serial v1 \<and> vi_cur_frame v' = vi_cur_frame v1
        \<and> vi_cur_blk v' = vi_cur_blk v1 \<and> (b \<le> vi_blk_free v1 \<longrightarrow> v' = v1)"
        by (rule less.hyps) (use less.prems v1 num fc fc_eq \<open>P v1\<close> in auto)
      then obtain v' fs0 fs' fc' where "write_loop b (fc + 1) m v1 = write_loop b fc' m v'"
        "store_rel v' fs'" "P v'" "fs1 = fs0 @ fs'" "b \<le> vi_blk_free v'" "params v' = params v"
        "vi_cur_serial v' = vi_cur_serial v" "vi_cur_frame v' = vi_cur_frame v" "vi_cur_blk v' = vi_cur_blk v"
        using v1 by metis
      then show ?thesis
        unfolding step using False fs
        by (intro exI [of _ v'] exI [of _ "f # fs0"] exI [of _ fs'] exI [of _ fc']) simp
    qed
  qed
qed

text \<open>The loop ends, with room for the payload and the newest real frames kept.\<close>

lemma write_loop_ok:
  assumes rel: "store_rel v fs" and b: "0 < b" "b \<le> vi_blk_num v" and stable: "loop_stable P" and P: "P v"
  obtains v' fs' gone where "write_loop b 0 m v = Some (0, v', m)" "store_rel v' fs'" "P v'"
    "b \<le> vi_blk_free v'" "(vi_cur_blk v' + 1) mod vi_blk_num v' + b \<le> vi_blk_num v'"
    "params v' = params v" "vi_cur_serial v' = vi_cur_serial v"
    "filter real_frame fs = gone @ filter real_frame fs'"
    "b \<le> vi_blk_free v \<and> (vi_cur_blk v + 1) mod vi_blk_num v + b \<le> vi_blk_num v \<longrightarrow> v' = v"
proof -
  have "int (length fs) \<le> vi_frame_num v"
    using used_blocks(2) [OF rel] rel by (simp add: store_rel_def store_geom_def)
  then have fc: "(0::int) \<le> 0" "0 \<le> vi_frame_num v - int (length fs)" by simp_all
  from free_phase [OF rel b fc stable P, of m] obtain v1 gone1 fs1 fc1 where
    1: "write_loop b 0 m v = write_loop b fc1 m v1" "store_rel v1 fs1" "P v1" "fs = gone1 @ fs1"
      "b \<le> vi_blk_free v1" "params v1 = params v" "vi_cur_serial v1 = vi_cur_serial v"
      "vi_cur_blk v1 = vi_cur_blk v" "b \<le> vi_blk_free v \<longrightarrow> v1 = v"
    by metis
  have num1: "vi_blk_num v1 = vi_blk_num v" using 1(6) by (simp add: params_def)
  let ?next = "(vi_cur_blk v1 + 1) mod vi_blk_num v1"
  show thesis
  proof (cases "?next + b \<le> vi_blk_num v1")
    case True
    then have "write_loop b 0 m v = Some (0, v1, m)"
      unfolding 1(1) using 1(5) by (subst write_loop.simps) simp
    with 1 True show thesis by (intro that [of v1 fs1 "filter real_frame gone1"]) auto
  next
    case False
    let ?d = "vi_blk_num v1 - ?next"
    let ?v2 = "insert_tail ?d DUMMY_FRAME (insert_head 0 ?d DUMMY_FRAME v1)"
    let ?fs2 = "fs1 @ [new_frame 0 ?d DUMMY_FRAME v1]"
    have geom1: "store_geom v1" using 1(2) by (simp add: store_rel_def)
    have range: "0 \<le> ?next" "?next < vi_blk_num v1" using geom1 by (simp_all add: store_geom_def)
    have d: "0 < ?d" "?d \<le> vi_blk_free v1" using range False 1(5) by simp_all
    have insert: "MemMng_VidFrame_Insert None 0 ?d DUMMY_FRAME v1 m = (0, ?v2, m)"
      using d by (simp add: MemMng_VidFrame_Insert_def const_defs)
    have step: "write_loop b 0 m v = write_loop b 0 m ?v2"
      unfolding 1(1) using 1(5) False insert by (subst write_loop.simps) (simp add: Let_def)
    have rel2: "store_rel ?v2 ?fs2" by (rule insert_rel) (use 1(2) d in simp_all)
    have P2: "P ?v2" using stable 1(2,3) d unfolding loop_stable_def by blast
    have num2: "vi_blk_num ?v2 = vi_blk_num v" "vi_frame_num ?v2 = vi_blk_num v"
      using num1 geom1 by (simp_all add: insert_tail_fields insert_head_fields store_geom_def)
    have "int (length ?fs2) \<le> vi_frame_num ?v2"
      using used_blocks(2) [OF rel2] rel2 by (simp only: store_rel_def store_geom_def) linarith
    then have fc2: "(0::int) \<le> 0" "0 \<le> vi_frame_num ?v2 - int (length ?fs2)" by simp_all
    from free_phase [OF rel2 b(1) _ fc2 stable P2, of m] b(2) num2 obtain v3 gone2 fs3 fc3 where
      3: "write_loop b 0 m ?v2 = write_loop b fc3 m v3" "store_rel v3 fs3" "P v3" "?fs2 = gone2 @ fs3"
        "b \<le> vi_blk_free v3" "params v3 = params ?v2" "vi_cur_serial v3 = vi_cur_serial ?v2"
        "vi_cur_blk v3 = vi_cur_blk ?v2"
      by metis
    have num3: "vi_blk_num v3 = vi_blk_num v" using 3(6) num2 by (simp add: params_def)
    have "vi_cur_blk v3 = vi_blk_num v - 1"
      using 3(8) range num1 zmod_minus1 [of "vi_blk_num v"] by (simp add: insert_tail_fields insert_head_fields)
    then have next3: "(vi_cur_blk v3 + 1) mod vi_blk_num v3 + b \<le> vi_blk_num v3" using num3 b by simp
    then have "write_loop b 0 m v = Some (0, v3, m)"
      unfolding step 3(1) using 3(5) by (subst write_loop.simps) (simp add: Let_def)
    moreover have "filter real_frame fs = (filter real_frame gone1 @ filter real_frame gone2) @ filter real_frame fs3"
      using arg_cong [OF 3(4), of "filter real_frame"] 1(4)
      by (simp add: real_frame_def)
    moreover have "params v3 = params v" "vi_cur_serial v3 = vi_cur_serial v"
      using 3 1 by (simp_all add: insert_tail_fields insert_head_fields)
    moreover have "\<not> (b \<le> vi_blk_free v \<and> (vi_cur_blk v + 1) mod vi_blk_num v + b \<le> vi_blk_num v)"
      using False num1 1(8) by simp
    ultimately show thesis using 3 next3 by (intro that [of v3 fs3]) auto
  qed
qed

section \<open>Writing\<close>

text \<open>The address range of the extra data lies outside the blocks.\<close>

definition extra_apart :: "video_blk_info \<Rightarrow> bool" where
  "extra_apart v \<longleftrightarrow> vi_extradata v = 0 \<or> vi_extrasize v = 0
     \<or> vi_extradata v + vi_extrasize v \<le> vi_start v
     \<or> vi_start v + vi_blk_num v * vi_blk_sz v \<le> vi_extradata v"

definition frame_addr :: "video_blk_info \<Rightarrow> video_frame \<Rightarrow> int" where
  "frame_addr v f = vi_start v + vf_blkindex f * vi_blk_sz v"

text \<open>What a reader finds in the store: serial, type and payload of every real
  frame, oldest first.\<close>

definition contents :: "video_blk_info \<Rightarrow> memory \<Rightarrow> (int \<times> int \<times> byte list) list" where
  "contents v m = map (\<lambda>f. (vf_serial f, vf_type f, mem_read (frame_addr v f) (nat (vf_realsize f)) m))
     (filter real_frame (live v))"

lemma frame_extent:
  assumes "frame_ok n b f" "real_frame f" "0 < b"
  shows "vf_blkindex f * b + vf_realsize f \<le> (vf_blkindex f + vf_blks f) * b" "0 \<le> vf_blkindex f * b"
    "0 < vf_realsize f" "(vf_blkindex f + vf_blks f) * b \<le> n * b"
  using assms mult_right_mono [of "vf_blkindex f + vf_blks f" n b]
  by (auto simp: frame_ok_def real_frame_def distrib_right)

lemma interval_apart:
  fixes a b c d :: nat
  assumes "{a..<b} \<inter> {c..<d} = {}" "a < b" "c < d"
  shows "b \<le> c \<or> d \<le> a"
proof (rule ccontr)
  assume "\<not> (b \<le> c \<or> d \<le> a)"
  with assms(2,3) have "max a c \<in> {a..<b} \<inter> {c..<d}" by auto
  with assms(1) show False by blast
qed

lemma newest_apart:
  assumes rel: "store_rel v (fs @ [f])" and g: "g \<in> set fs"
  shows "vf_blkindex g + vf_blks g \<le> vf_blkindex f \<or> vf_blkindex f + vf_blks f \<le> vf_blkindex g"
proof -
  have "distinct (concat (map blocks (fs @ [f])))"
    using rel by (auto simp: store_rel_def store_geom_def intro!: distinct_seg)
  then have apart: "set (blocks g) \<inter> set (blocks f) = {}" using g by auto
  have ok: "frame_ok (vi_blk_num v) (vi_blk_sz v) g" "frame_ok (vi_blk_num v) (vi_blk_sz v) f"
    using rel g by (auto simp: store_rel_def)
  from interval_apart [OF apart [unfolded blocks_def set_upt]] ok show ?thesis
    by (auto simp: frame_ok_def)
qed

lemma payload_apart:
  assumes rel: "store_rel v (fs @ [f])" and g: "g \<in> set fs" and real: "real_frame f" "real_frame g"
  shows "frame_addr v g + vf_realsize g \<le> frame_addr v f \<or> frame_addr v f + vf_realsize f \<le> frame_addr v g"
proof -
  have ok: "frame_ok (vi_blk_num v) (vi_blk_sz v) g" "frame_ok (vi_blk_num v) (vi_blk_sz v) f"
    and pos: "0 < vi_blk_sz v"
    using rel g by (auto simp: store_rel_def store_geom_def)
  note ext = frame_extent(1) [OF ok(1) real(2) pos] frame_extent(1) [OF ok(2) real(1) pos]
  from newest_apart [OF rel g] show ?thesis
  proof
    assume "vf_blkindex g + vf_blks g \<le> vf_blkindex f"
    then have "(vf_blkindex g + vf_blks g) * vi_blk_sz v \<le> vf_blkindex f * vi_blk_sz v"
      using pos by (simp add: mult_right_mono)
    with ext show ?thesis by (simp add: frame_addr_def)
  next
    assume "vf_blkindex f + vf_blks f \<le> vf_blkindex g"
    then have "(vf_blkindex f + vf_blks f) * vi_blk_sz v \<le> vf_blkindex g * vi_blk_sz v"
      using pos by (simp add: mult_right_mono)
    with ext show ?thesis by (simp add: frame_addr_def)
  qed
qed

text \<open>The memory a successful insertion leaves.\<close>

definition written :: "byte list \<Rightarrow> int \<Rightarrow> int \<Rightarrow> video_blk_info \<Rightarrow> memory \<Rightarrow> memory" where
  "written bytes addr sz v m =
    (let m1 = mem_write addr (take (nat sz) bytes) m in
     if vi_cur_serial v = -1 \<and> vi_extradata v \<noteq> 0 \<and> vi_extrasize v \<noteq> 0
     then mem_write (vi_extradata v) (take (nat (vi_extrasize v)) bytes) m1 else m1)"

lemma insert_real:
  assumes "0 \<le> ft" "ft < END_FRAME_TYPE" "0 < blks" "write_addr v ((vi_cur_blk v + 1) mod vi_blk_num v) \<noteq> 0"
  shows "MemMng_VidFrame_Insert (Some bytes) sz blks ft v m =
    (0, insert_tail blks ft (insert_head sz blks ft v),
     written bytes (write_addr v ((vi_cur_blk v + 1) mod vi_blk_num v)) sz v m)"
proof -
  have "ft \<noteq> DUMMY_FRAME" using assms(1) by (simp add: const_defs)
  with assms show ?thesis
    by (simp add: MemMng_VidFrame_Insert_def Let_def write_addr_def insert_head_fields written_def)
qed

text \<open>Everything about a successful write, in terms of the list of frames.\<close>

lemma Video_Write_ok:
  assumes rel: "store_rel v fs" and sz: "0 < sz" "blocks_for sz (vi_blk_sz v) \<le> vi_blk_num v"
    and ft: "0 \<le> ft" "ft < END_FRAME_TYPE" and start: "0 < vi_start v"
    and stable: "loop_stable P" and P: "P v"
  obtains v1 fs1 gone v' where
    "MemMng_Video_Write (Some bytes) sz ft v m = Some (0, v', written bytes
        (frame_addr v (new_frame sz (blocks_for sz (vi_blk_sz v)) ft v1)) sz v m)"
    "store_rel v1 fs1" "P v1" "params v1 = params v" "vi_cur_serial v1 = vi_cur_serial v"
    "filter real_frame fs = gone @ filter real_frame fs1"
    "v' = insert_tail (blocks_for sz (vi_blk_sz v)) ft (insert_head sz (blocks_for sz (vi_blk_sz v)) ft v1)"
    "store_rel v' (fs1 @ [new_frame sz (blocks_for sz (vi_blk_sz v)) ft v1])"
    "params v' = params v" "vi_cur_serial v' = vi_cur_serial v + 1"
    "0 < blocks_for sz (vi_blk_sz v)" "blocks_for sz (vi_blk_sz v) \<le> vi_blk_free v1"
proof -
  let ?b = "blocks_for sz (vi_blk_sz v)"
  have pos: "0 < vi_blk_sz v" using rel by (simp add: store_rel_def store_geom_def)
  note b = blocks_for_bounds(1,2) [OF sz(1) pos]
  obtain v1 fs1 gone where 1: "write_loop ?b 0 m v = Some (0, v1, m)" "store_rel v1 fs1" "P v1"
      "?b \<le> vi_blk_free v1" "(vi_cur_blk v1 + 1) mod vi_blk_num v1 + ?b \<le> vi_blk_num v1"
      "params v1 = params v" "vi_cur_serial v1 = vi_cur_serial v"
      "filter real_frame fs = gone @ filter real_frame fs1"
    using write_loop_ok [OF rel b(1) sz(2) stable P, of m] by metis
  have par: "vi_blk_sz v1 = vi_blk_sz v" "vi_start v1 = vi_start v" "vi_extradata v1 = vi_extradata v"
      "vi_extrasize v1 = vi_extrasize v"
    using 1(6) by (simp_all add: params_def)
  let ?v' = "insert_tail ?b ft (insert_head sz ?b ft v1)"
  let ?addr = "write_addr v1 ((vi_cur_blk v1 + 1) mod vi_blk_num v1)"
  have "0 \<le> (vi_cur_blk v1 + 1) mod vi_blk_num v1" using 1(2) by (simp add: store_rel_def store_geom_def)
  then have addr: "?addr \<noteq> 0" using start pos par
    by (simp add: write_addr_def) (smt (verit) mult_nonneg_nonneg)
  have addr_eq: "?addr = frame_addr v (new_frame sz ?b ft v1)"
    by (simp add: write_addr_def frame_addr_def par)
  have nd: "ft \<noteq> DUMMY_FRAME" using ft(1) by (simp add: const_defs)
  have "written bytes ?addr sz v1 m = written bytes ?addr sz v m"
    using par 1(7) by (simp add: written_def Let_def)
  then have "MemMng_Video_Write (Some bytes) sz ft v m = Some (0, ?v', written bytes ?addr sz v m)"
    using sz 1(1) insert_real [OF ft b(1) addr, of bytes sz m]
    by (simp add: MemMng_Video_Write_def Let_def)
  moreover have "store_rel ?v' (fs1 @ [new_frame sz ?b ft v1])"
    by (rule insert_rel) (use 1 b ft sz par in simp_all)
  ultimately show thesis
    using 1 nd b by (intro that [of ?v' v1 fs1 gone]) (simp_all add: addr_eq insert_tail_fields insert_head_fields)
qed

end
