(* ===== verification/Mem_Store.thy ===== *)
theory Mem_Store
  imports Mem_Inv
begin

text \<open>What the frame store promises its clients: a write always ends and succeeds
  for a payload that fits, keeps the invariant, appends its frame to a log of
  which only the oldest frames are dropped, and leaves every other payload
  untouched; the searches find exactly the frames of the log.\<close>

section \<open>Fresh stores\<close>

definition fresh :: "video_blk_info \<Rightarrow> bool" where
  "fresh v \<longleftrightarrow> 0 < vi_blk_sz v \<and> 0 < vi_blk_num v \<and> vi_blk_free v = vi_blk_num v
     \<and> vi_frame_num v = vi_blk_num v \<and> vi_frame_num v \<le> 2 ^ 30 \<and> length (vi_frame v) = nat (vi_blk_num v)
     \<and> (\<forall>f \<in> set (vi_frame v). vf_type f = EMPTY_FRAME)
     \<and> vi_cur_frame v = -1 \<and> vi_cur_serial v = -1 \<and> vi_cur_blk v = -1
     \<and> gop_last_Start (vi_gop v) = -1 \<and> gop_lastest_I (vi_gop v) = -1"

lemma fresh_rel:
  assumes "fresh v"
  shows "store_rel v []"
proof -
  have "\<forall>f \<in> set (slots v). vf_type f = EMPTY_FRAME"
    using assms by (auto simp: slots_def ring_list_def fresh_def)
  with assms show ?thesis
    by (auto simp: store_rel_def store_geom_def fresh_def serials_ok_def)
qed

lemma fresh_ok: "fresh v \<Longrightarrow> store_ok v \<and> settled v \<and> live v = []"
  using fresh_rel store_rel_live by (auto simp: store_rel_ok settled_def fresh_def)

section \<open>Writing\<close>

lemma loop_stable_True: "loop_stable (\<lambda>_. True)"
  by (simp add: loop_stable_def)

lemma frame_addr_params: "params v = params v' \<Longrightarrow> frame_addr v f = frame_addr v' f"
  by (simp add: params_def frame_addr_def)

text \<open>A payload survives the write of another frame.\<close>

lemma payload_kept:
  assumes rel: "store_rel v (fs @ [f])" and g: "g \<in> set fs" "real_frame g" and f: "real_frame f"
    and apart: "extra_apart v" and len: "vf_realsize f \<le> int (length bytes)"
    and extra: "0 \<le> vi_extrasize v" and same: "params w = params v"
  shows "mem_read (frame_addr v g) (nat (vf_realsize g)) (written bytes (frame_addr v f) (vf_realsize f) w m)
    = mem_read (frame_addr v g) (nat (vf_realsize g)) m"
proof -
  have ok: "frame_ok (vi_blk_num v) (vi_blk_sz v) g" "frame_ok (vi_blk_num v) (vi_blk_sz v) f"
    and pos: "0 < vi_blk_sz v"
    using rel g by (auto simp: store_rel_def store_geom_def)
  note eg = frame_extent [OF ok(1) g(2) pos] and ef = frame_extent [OF ok(2) f pos]
  have 1: "mem_read (frame_addr v g) (nat (vf_realsize g)) (mem_write (frame_addr v f) (take (nat (vf_realsize f)) bytes) m)
      = mem_read (frame_addr v g) (nat (vf_realsize g)) m"
    using payload_apart [OF rel g(1) f g(2)] eg ef len by (intro mem_read_write_other) auto
  have ext: "vi_extradata w = vi_extradata v" "vi_extrasize w = vi_extrasize v"
    using same by (simp_all add: params_def)
  have 2: "mem_read (frame_addr v g) (nat (vf_realsize g)) (mem_write (vi_extradata v) (take (nat (vi_extrasize v)) bytes) m')
      = mem_read (frame_addr v g) (nat (vf_realsize g)) m'"
    if "vi_extradata v \<noteq> 0" "vi_extrasize v \<noteq> 0" for m'
    using apart that eg extra by (intro mem_read_write_other) (auto simp: extra_apart_def frame_addr_def)
  show ?thesis using 1 2 by (auto simp: written_def Let_def ext)
qed

lemma payload_written:
  assumes ok: "frame_ok (vi_blk_num v) (vi_blk_sz v) f" and f: "real_frame f" and pos: "0 < vi_blk_sz v"
    and apart: "extra_apart v" and len: "vf_realsize f \<le> int (length bytes)"
    and extra: "0 \<le> vi_extrasize v" and same: "params w = params v"
  shows "mem_read (frame_addr v f) (nat (vf_realsize f)) (written bytes (frame_addr v f) (vf_realsize f) w m)
    = take (nat (vf_realsize f)) bytes"
proof -
  note ef = frame_extent [OF ok f pos]
  have n: "length (take (nat (vf_realsize f)) bytes) = nat (vf_realsize f)" using len by simp
  then have 1: "mem_read (frame_addr v f) (nat (vf_realsize f)) (mem_write (frame_addr v f) (take (nat (vf_realsize f)) bytes) m)
      = take (nat (vf_realsize f)) bytes"
    by (metis mem_read_write_same)
  have ext: "vi_extradata w = vi_extradata v" "vi_extrasize w = vi_extrasize v"
    using same by (simp_all add: params_def)
  have 2: "mem_read (frame_addr v f) (nat (vf_realsize f)) (mem_write (vi_extradata v) (take (nat (vi_extrasize v)) bytes) m')
      = mem_read (frame_addr v f) (nat (vf_realsize f)) m'"
    if "vi_extradata v \<noteq> 0" "vi_extrasize v \<noteq> 0" for m'
    using apart that ef extra by (intro mem_read_write_other) (auto simp: extra_apart_def frame_addr_def)
  show ?thesis using 1 2 by (auto simp: written_def Let_def ext)
qed

lemma write_total_aux:
  assumes "store_ok v" "0 < sz" "blocks_for sz (vi_blk_sz v) \<le> vi_blk_num v"
    and "0 \<le> ft" "ft < END_FRAME_TYPE" "0 < vi_start v"
  shows "\<exists>v' m'. MemMng_Video_Write (Some bytes) sz ft v m = Some (0, v', m')
    \<and> store_ok v' \<and> settled v' \<and> params v' = params v \<and> vi_cur_serial v' = vi_cur_serial v + 1"
proof -
  have rel: "store_rel v (live v)" using assms(1) by (simp add: store_ok_def)
  let ?b = "blocks_for sz (vi_blk_sz v)"
  obtain v1 fs1 v' where *: "MemMng_Video_Write (Some bytes) sz ft v m
      = Some (0, v', written bytes (frame_addr v (new_frame sz ?b ft v1)) sz v m)"
    "store_rel v' (fs1 @ [new_frame sz ?b ft v1])" "params v' = params v"
    "vi_cur_serial v' = vi_cur_serial v + 1"
    using Video_Write_ok [OF rel assms(2-6) loop_stable_True TrueI, of bytes m] by metis
  have "live v' = fs1 @ [new_frame sz ?b ft v1]" using store_rel_live [OF *(2)] .
  moreover have "ft \<noteq> DUMMY_FRAME" using assms(4) by (simp add: const_defs)
  ultimately have "settled v'" by (simp add: settled_def real_frame_def)
  with * store_rel_ok show ?thesis by blast
qed

text \<open>C26: \<open>MemMng_Video_Write\<close> is total and keeps the invariant.  On a well formed
  store (of at most \<open>2 ^ 30\<close> blocks, at an address that is not 0), for a payload of at least one byte that fits the block ring and a valid
  frame type, the loop that frees old frames and pads the ring ends, the write
  returns 0, the store stays well formed with a real newest frame, the serial
  number grows by one and the configuration is unchanged.\<close>

theorem Video_Write_total:
  assumes "store_ok v" "0 < sz" "blocks_for sz (vi_blk_sz v) \<le> vi_blk_num v"
    and "0 \<le> ft" "ft < END_FRAME_TYPE" "0 < vi_start v"
  shows "\<exists>v' m'. MemMng_Video_Write (Some bytes) sz ft v m = Some (0, v', m')
    \<and> store_ok v' \<and> settled v' \<and> params v' = params v \<and> vi_cur_serial v' = vi_cur_serial v + 1"
  by (rule write_total_aux [OF assms])

lemma write_contents_aux:
  assumes "store_ok v" "0 < sz" "blocks_for sz (vi_blk_sz v) \<le> vi_blk_num v"
    and "0 \<le> ft" "ft < END_FRAME_TYPE" "0 < vi_start v"
    and "extra_apart v" "0 \<le> vi_extrasize v" "sz \<le> int (length bytes)"
  shows "\<exists>v' m' j. MemMng_Video_Write (Some bytes) sz ft v m = Some (0, v', m')
    \<and> contents v' m' = drop j (contents v m) @ [(vi_cur_serial v + 1, ft, take (nat sz) bytes)]"
proof -
  have rel: "store_rel v (live v)" using assms(1) by (simp add: store_ok_def)
  let ?b = "blocks_for sz (vi_blk_sz v)"
  obtain v1 fs1 gone v' where *: "MemMng_Video_Write (Some bytes) sz ft v m
      = Some (0, v', written bytes (frame_addr v (new_frame sz ?b ft v1)) sz v m)"
    "store_rel v1 fs1" "vi_cur_serial v1 = vi_cur_serial v"
    "filter real_frame (live v) = gone @ filter real_frame fs1"
    "store_rel v' (fs1 @ [new_frame sz ?b ft v1])" "params v' = params v"
    using Video_Write_ok [OF rel assms(2-6) loop_stable_True TrueI, of bytes m] by metis
  let ?new = "new_frame sz ?b ft v1"
  let ?m = "written bytes (frame_addr v ?new) sz v m"
  have nd: "ft \<noteq> DUMMY_FRAME" using assms(4) by (simp add: const_defs)
  then have real: "real_frame ?new" by (simp add: real_frame_def)
  have cfg: "extra_apart v'" "0 \<le> vi_extrasize v'" "vi_blk_sz v' = vi_blk_sz v" "vi_blk_num v' = vi_blk_num v"
    using assms(7,8) *(6) by (simp_all add: params_def extra_apart_def)
  have pos: "0 < vi_blk_sz v'" using *(5) by (simp add: store_rel_def store_geom_def)
  have addr: "frame_addr v' f = frame_addr v f" for f
    using frame_addr_params [OF *(6)] .
  have m: "?m = written bytes (frame_addr v' ?new) (vf_realsize ?new) v m"
    by (simp add: addr)
  have len: "vf_realsize ?new \<le> int (length bytes)" using assms(9) by simp
  have kept: "mem_read (frame_addr v' g) (nat (vf_realsize g)) ?m = mem_read (frame_addr v g) (nat (vf_realsize g)) m"
    if "g \<in> set fs1" "real_frame g" for g
    unfolding m using payload_kept [OF *(5) that real cfg(1) len cfg(2) *(6) [symmetric]] addr by simp
  have new: "mem_read (frame_addr v' ?new) (nat sz) ?m = take (nat sz) bytes"
    unfolding m using payload_written [OF _ real pos cfg(1) len cfg(2) *(6) [symmetric]] *(5)
    by (simp add: store_rel_def)
  have "contents v' ?m = map (\<lambda>f. (vf_serial f, vf_type f, mem_read (frame_addr v f) (nat (vf_realsize f)) m))
      (filter real_frame fs1) @ [(vi_cur_serial v + 1, ft, take (nat sz) bytes)]"
    using store_rel_live [OF *(5)] kept new real nd *(3) by (auto simp: contents_def)
  also have "map (\<lambda>f. (vf_serial f, vf_type f, mem_read (frame_addr v f) (nat (vf_realsize f)) m))
      (filter real_frame fs1) = drop (length gone) (contents v m)"
    using *(4) by (simp add: contents_def)
  finally show ?thesis using *(1) by blast
qed

text \<open>The store is a log.  After a write the readable contents (serial, type
  and bytes of every real frame) are those before it, less some of the oldest,
  followed by the new frame with exactly the bytes written: no payload that is
  kept is touched, wherever the ring wraps.\<close>

theorem Video_Write_contents:
  assumes "store_ok v" "0 < sz" "blocks_for sz (vi_blk_sz v) \<le> vi_blk_num v"
    and "0 \<le> ft" "ft < END_FRAME_TYPE" "0 < vi_start v"
    and "extra_apart v" "0 \<le> vi_extrasize v" "sz \<le> int (length bytes)"
  shows "\<exists>v' m' j. MemMng_Video_Write (Some bytes) sz ft v m = Some (0, v', m')
    \<and> contents v' m' = drop j (contents v m) @ [(vi_cur_serial v + 1, ft, take (nat sz) bytes)]"
  by (rule write_contents_aux [OF assms])

section \<open>Searching\<close>

lemma set_slots:
  assumes "store_geom v"
  shows "set (slots v) = core ` set (vi_frame v)"
proof -
  have "set (slots v) = set (map core (vi_frame v))"
    unfolding slots_def by (rule set_ring_list) (use assms in \<open>simp_all add: store_geom_def\<close>)
  then show ?thesis by simp
qed

lemma set_live:
  assumes "store_geom v"
  shows "f \<in> set (live v) \<longleftrightarrow>
    (\<exists>i < nat (vi_frame_num v). f = core (vi_frame v ! i) \<and> vf_type (vi_frame v ! i) \<noteq> EMPTY_FRAME)"
proof -
  have "length (vi_frame v) = nat (vi_frame_num v)" using assms by (simp add: store_geom_def)
  then show ?thesis
    using assms by (auto simp: live_def set_slots in_set_conv_nth) (metis image_eqI nth_mem)
qed

lemma current_frame:
  assumes "store_ok v" "settled v" "vi_cur_serial v \<noteq> -1"
  shows "0 \<le> vi_cur_frame v" "core (frame_at v (vi_cur_frame v)) = last (live v)"
    "real_frame (last (live v))" "live v \<noteq> []" "vf_serial (last (live v)) = vi_cur_serial v"
proof -
  have rel: "store_rel v (live v)" using assms(1) by (simp add: store_ok_def)
  then have geom: "store_geom v" by (simp add: store_rel_def)
  show cur: "0 \<le> vi_cur_frame v" using rel assms(3) by (auto simp: store_rel_def store_geom_def)
  show real: "real_frame (last (live v))" and ne: "live v \<noteq> []"
    using assms(2,3) by (simp_all add: settled_def)
  let ?n = "vi_frame_num v"
  have "core (frame_at v (vi_cur_frame v)) = slots v ! (nat ?n - 1)"
  proof (rule slots_set_frame(2) [OF geom])
    have "0 < ?n" using geom by (simp add: store_geom_def)
    then have "vi_cur_frame v + 1 + int (nat ?n - 1) = vi_cur_frame v + ?n" by linarith
    then show "vi_cur_frame v = (vi_cur_frame v + 1 + int (nat ?n - 1)) mod ?n"
      using cur geom by (simp add: store_geom_def)
  qed (use geom in \<open>simp add: store_geom_def\<close>)
  also have "\<dots> = last (slots v)"
    using geom by (subst last_conv_nth) (auto simp: store_geom_def simp flip: length_greater_0_conv)
  also have "\<dots> = last (live v)"
    using rel ne by (auto simp: store_rel_def)
  finally show "core (frame_at v (vi_cur_frame v)) = last (live v)" .
  obtain xs where live: "live v = xs @ [last (live v)]" using ne by (metis append_butlast_last_id)
  let ?r = "length (filter real_frame (live v))"
  have "0 < ?r" using ne real by (metis filter_empty_conv last_in_set length_greater_0_conv)
  have ser: "map vf_serial (filter real_frame (live v)) = [vi_cur_serial v + 1 - int ?r..vi_cur_serial v]"
    using rel by (simp add: store_rel_def serials_ok_def)
  have "vf_serial (last (live v)) = last (map vf_serial (filter real_frame (live v)))"
    by (subst (1 2) live) (use real in simp)
  also have "\<dots> = vi_cur_serial v"
  proof -
    have "vi_cur_serial v + 1 - int ?r \<le> vi_cur_serial v" using \<open>0 < ?r\<close> by linarith
    then show ?thesis unfolding ser by (simp only: upto_rec2 last_snoc)
  qed
  finally show "vf_serial (last (live v)) = vi_cur_serial v" .
qed

lemma GetFrameBySerial_sound:
  assumes "store_ok v" "settled v" "MemMng_GetFrameBySerial s v = Some i"
  shows "0 \<le> i \<and> i < vi_frame_num v \<and> vf_serial (frame_at v i) = s
    \<and> core (frame_at v i) \<in> set (live v) \<and> real_frame (frame_at v i)"
proof -
  have rel: "store_rel v (live v)" using assms(1) by (simp add: store_ok_def)
  then have geom: "store_geom v" by (simp add: store_rel_def)
  have s: "0 \<le> s" "s \<le> vi_cur_serial v"
    using assms(3) by (auto simp: MemMng_GetFrameBySerial_def split: if_splits)
  then have "vi_cur_serial v \<noteq> -1" by auto
  note cur = current_frame [OF assms(1,2) this]
  show ?thesis
  proof (cases "s = vf_serial (frame_at v (vi_cur_frame v))")
    case True
    with assms(3) s have "i = vi_cur_frame v" by (simp add: MemMng_GetFrameBySerial_def)
    with cur True geom last_in_set [OF cur(4)] show ?thesis
      by (metis core_simps(10) store_geom_def)
  next
    case False
    with assms(3) s obtain cnt where cnt: "i = int cnt" "cnt < nat (vi_frame_num v)"
      "s = vf_serial (vi_frame v ! cnt)" "vf_type (vi_frame v ! cnt) \<noteq> DUMMY_FRAME"
      "vf_type (vi_frame v ! cnt) \<noteq> EMPTY_FRAME"
      by (auto simp: MemMng_GetFrameBySerial_def find_Some_iff)
    with set_live [OF geom] show ?thesis by (auto simp: real_frame_def)
  qed
qed

text \<open>\<open>MemMng_GetFrameBySerial\<close> finds a frame exactly for the serials of the
  log, which are the last \<open>r\<close> ones without a gap when \<open>r\<close> real frames are kept,
  and what it finds is a real frame that carries that serial.\<close>

theorem GetFrameBySerial_correct:
  assumes "store_ok v" "settled v"
  shows "(MemMng_GetFrameBySerial s v \<noteq> None \<longleftrightarrow>
      vi_cur_serial v - int (length (filter real_frame (live v))) < s \<and> s \<le> vi_cur_serial v)
    \<and> (\<forall>i. MemMng_GetFrameBySerial s v = Some i \<longrightarrow>
        vf_serial (frame_at v i) = s \<and> core (frame_at v i) \<in> set (live v) \<and> real_frame (frame_at v i))"
proof -
  have rel: "store_rel v (live v)" using assms(1) by (simp add: store_ok_def)
  then have geom: "store_geom v" by (simp add: store_rel_def)
  let ?r = "length (filter real_frame (live v))"
  have ser: "map vf_serial (filter real_frame (live v)) = [vi_cur_serial v + 1 - int ?r..vi_cur_serial v]"
      "int ?r \<le> vi_cur_serial v + 1"
    using rel by (simp_all add: store_rel_def serials_ok_def)
  have sers: "vf_serial ` set (filter real_frame (live v)) = {vi_cur_serial v + 1 - int ?r..vi_cur_serial v}"
    using arg_cong [OF ser(1), of set] by (simp only: set_map set_upto)
  have "MemMng_GetFrameBySerial s v \<noteq> None"
    if s: "vi_cur_serial v - int ?r < s" "s \<le> vi_cur_serial v"
  proof (cases "s = vf_serial (frame_at v (vi_cur_frame v))")
    case True
    with s ser(2) show ?thesis by (simp add: MemMng_GetFrameBySerial_def)
  next
    case False
    from s have "s \<in> vf_serial ` set (filter real_frame (live v))"
      unfolding sers by simp
    then obtain f where f: "f \<in> set (live v)" "real_frame f" "vf_serial f = s" by auto
    with set_live [OF geom] obtain cnt where cnt: "cnt < nat (vi_frame_num v)"
      "f = core (vi_frame v ! cnt)" "vf_type (vi_frame v ! cnt) \<noteq> EMPTY_FRAME" by auto
    with f False s ser(2) show ?thesis
      by (auto simp: MemMng_GetFrameBySerial_def find_None_iff real_frame_def)
  qed
  moreover have "vi_cur_serial v - int ?r < s \<and> s \<le> vi_cur_serial v"
    if "MemMng_GetFrameBySerial s v = Some i" for i
  proof -
    note sound = GetFrameBySerial_sound [OF assms that]
    then have "core (frame_at v i) \<in> set (filter real_frame (live v))" by simp
    then have "vf_serial (core (frame_at v i)) \<in> {vi_cur_serial v + 1 - int ?r..vi_cur_serial v}"
      unfolding sers [symmetric] by blast
    with sound show ?thesis by simp
  qed
  ultimately show ?thesis using GetFrameBySerial_sound [OF assms] by blast
qed

section \<open>Sequences of writes\<close>

text \<open>Payloads with their frame types, written one after the other.\<close>

fun write_run :: "(byte list \<times> int) list \<Rightarrow> video_blk_info \<Rightarrow> memory \<Rightarrow> (video_blk_info \<times> memory) option" where
  "write_run [] v m = Some (v, m)"
| "write_run ((bytes, ft) # ws) v m =
    (case MemMng_Video_Write (Some bytes) (int (length bytes)) ft v m of
       Some (st, v', m') \<Rightarrow> if st = 0 then write_run ws v' m' else None
     | None \<Rightarrow> None)"

definition writable :: "video_blk_info \<Rightarrow> byte list \<times> int \<Rightarrow> bool" where
  "writable v w \<longleftrightarrow> (case w of (bytes, ft) \<Rightarrow> bytes \<noteq> []
     \<and> blocks_for (int (length bytes)) (vi_blk_sz v) \<le> vi_blk_num v \<and> 0 \<le> ft \<and> ft < END_FRAME_TYPE)"

definition store_cfg :: "video_blk_info \<Rightarrow> bool" where
  "store_cfg v \<longleftrightarrow> 0 < vi_start v \<and> extra_apart v \<and> 0 \<le> vi_extrasize v"

fun log_from :: "int \<Rightarrow> (byte list \<times> int) list \<Rightarrow> (int \<times> int \<times> byte list) list" where
  "log_from k [] = []"
| "log_from k ((bytes, ft) # ws) = (k, ft, bytes) # log_from (k + 1) ws"

lemma length_log [simp]: "length (log_from k ws) = length ws"
  by (induction k ws rule: log_from.induct) auto

lemma log_nth: "i < length ws \<Longrightarrow> log_from k ws ! i = (k + int i, snd (ws ! i), fst (ws ! i))"
  by (induction k ws arbitrary: i rule: log_from.induct) (auto simp: nth_Cons split: nat.split)

lemma writable_params: "params v = params v' \<Longrightarrow> writable v w \<longleftrightarrow> writable v' w"
  and store_cfg_params: "params v = params v' \<Longrightarrow> store_cfg v \<longleftrightarrow> store_cfg v'"
  by (simp_all add: params_def writable_def store_cfg_def extra_apart_def)

lemma write_step:
  assumes "store_ok v" "store_cfg v" "writable v (bytes, ft)"
  obtains v' m' j where "MemMng_Video_Write (Some bytes) (int (length bytes)) ft v m = Some (0, v', m')"
    "store_ok v'" "settled v'" "params v' = params v" "vi_cur_serial v' = vi_cur_serial v + 1"
    "contents v' m' = drop j (contents v m) @ [(vi_cur_serial v + 1, ft, bytes)]"
proof -
  have pre: "0 < int (length bytes)" "blocks_for (int (length bytes)) (vi_blk_sz v) \<le> vi_blk_num v"
    "0 \<le> ft" "ft < END_FRAME_TYPE" "0 < vi_start v"
    using assms by (simp_all add: store_cfg_def writable_def)
  from write_total_aux [OF assms(1) pre, of bytes m] obtain v' m' where
    1: "MemMng_Video_Write (Some bytes) (int (length bytes)) ft v m = Some (0, v', m')"
      "store_ok v'" "settled v'" "params v' = params v" "vi_cur_serial v' = vi_cur_serial v + 1" by blast
  moreover obtain j where "contents v' m' = drop j (contents v m) @ [(vi_cur_serial v + 1, ft, bytes)]"
    using write_contents_aux [OF assms(1) pre, of bytes m] assms(2) 1(1) by (auto simp: store_cfg_def)
  ultimately show thesis by (rule that)
qed

lemma write_run_log:
  assumes "store_ok v" "settled v" "store_cfg v" "\<forall>w \<in> set ws. writable v w"
  shows "\<exists>v' m' j. write_run ws v m = Some (v', m') \<and> store_ok v' \<and> settled v' \<and> params v' = params v
    \<and> vi_cur_serial v' = vi_cur_serial v + int (length ws)
    \<and> contents v' m' = drop j (contents v m @ log_from (vi_cur_serial v + 1) ws)
    \<and> (ws \<noteq> [] \<longrightarrow> contents v' m' \<noteq> [])"
  using assms
proof (induction ws arbitrary: v m)
  case Nil
  then show ?case by (auto intro!: exI [of _ "0::nat"])
next
  case (Cons w ws)
  obtain bytes ft where w: "w = (bytes, ft)" by (cases w)
  from write_step [OF Cons.prems(1,3), of bytes ft m] Cons.prems(4) w obtain v1 m1 j1 where
    1: "MemMng_Video_Write (Some bytes) (int (length bytes)) ft v m = Some (0, v1, m1)"
      "store_ok v1" "settled v1" "params v1 = params v" "vi_cur_serial v1 = vi_cur_serial v + 1"
      "contents v1 m1 = drop j1 (contents v m) @ [(vi_cur_serial v + 1, ft, bytes)]" by auto
  have "store_cfg v1" "\<forall>w \<in> set ws. writable v1 w"
    using Cons.prems(3,4) store_cfg_params [OF 1(4)] writable_params [OF 1(4)] by simp_all
  from Cons.IH [OF 1(2,3) this, of m1] obtain v' m' j where
    2: "write_run ws v1 m1 = Some (v', m')" "store_ok v'" "settled v'" "params v' = params v1"
      "vi_cur_serial v' = vi_cur_serial v1 + int (length ws)"
      "contents v' m' = drop j (contents v1 m1 @ log_from (vi_cur_serial v1 + 1) ws)"
      "ws \<noteq> [] \<longrightarrow> contents v' m' \<noteq> []" by blast
  have ne: "contents v' m' \<noteq> []"
    using 2 1(6) by (cases "ws = []") auto
  let ?all = "contents v m @ log_from (vi_cur_serial v + 1) (w # ws)"
  let ?j1 = "min j1 (length (contents v m))"
  have "contents v1 m1 @ log_from (vi_cur_serial v1 + 1) ws = drop ?j1 ?all"
    using 1(5,6) w by (simp add: add.commute min_def)
  then have "contents v' m' = drop (j + ?j1) ?all"
    using 2(6) by (simp add: add.commute)
  with 1 2 ne w show ?case by (auto intro!: exI [of _ "j + ?j1"])
qed

text \<open>Reading a live real frame delivers its entry of the contents.\<close>

lemma ReadFrame_contents:
  assumes "store_ok v" "core (frame_at v i) \<in> set (live v)" "real_frame (frame_at v i)"
    and "vf_realsize (frame_at v i) \<le> limit"
  obtains bytes where
    "MemMng_Video_ReadFrame True limit (Some (frame_at v i)) v m
      = (0, Some (vf_realsize (frame_at v i), vf_type (frame_at v i), bytes))"
    "(vf_serial (frame_at v i), vf_type (frame_at v i), bytes) \<in> set (contents v m)"
    "int (length bytes) = vf_realsize (frame_at v i)"
proof -
  let ?f = "frame_at v i"
  let ?bytes = "mem_read (frame_addr v ?f) (nat (vf_realsize ?f)) m"
  have ok: "frame_ok (vi_blk_num v) (vi_blk_sz v) (core ?f)"
    using assms(1,2) by (simp add: store_ok_def store_rel_def)
  then have "vf_type ?f \<noteq> EMPTY_FRAME" "vf_type ?f \<noteq> DUMMY_FRAME" "0 < vf_realsize ?f"
    using frame_ok_not_empty [OF ok] assms(3) by (auto simp: frame_ok_def real_frame_def)
  moreover have "core ?f \<in> set (filter real_frame (live v))" using assms(2,3) by simp
  then have "(vf_serial (core ?f), vf_type (core ?f),
      mem_read (frame_addr v (core ?f)) (nat (vf_realsize (core ?f))) m) \<in> set (contents v m)"
    unfolding contents_def set_map by (rule image_eqI [rotated]) (rule refl)
  then have "(vf_serial ?f, vf_type ?f, ?bytes) \<in> set (contents v m)"
    by (simp add: frame_addr_def)
  ultimately show thesis
    using assms(4) by (intro that [of ?bytes]) (simp_all add: MemMng_Video_ReadFrame_def frame_addr_def)
qed

text \<open>A write touches the blocks of the store and the extra data, nothing else.\<close>

lemma write_outside:
  assumes "store_ok v" "store_cfg v" "writable v (bytes, ft)"
    and "MemMng_Video_Write (Some bytes) (int (length bytes)) ft v m = Some (st, v', m')"
    and "a < vi_start v \<or> vi_start v + vi_blk_num v * vi_blk_sz v \<le> a"
    and "vi_extradata v = 0 \<or> vi_extrasize v = 0 \<or> a < vi_extradata v \<or> vi_extradata v + vi_extrasize v \<le> a"
  shows "m' a = m a"
proof -
  have rel: "store_rel v (live v)" using assms(1) by (simp add: store_ok_def)
  have pre: "0 < int (length bytes)" "blocks_for (int (length bytes)) (vi_blk_sz v) \<le> vi_blk_num v"
    "0 \<le> ft" "ft < END_FRAME_TYPE" "0 < vi_start v"
    using assms by (simp_all add: store_cfg_def writable_def)
  let ?b = "blocks_for (int (length bytes)) (vi_blk_sz v)"
  obtain v1 fs1 w where *: "MemMng_Video_Write (Some bytes) (int (length bytes)) ft v m
      = Some (0, w, written bytes (frame_addr v (new_frame (int (length bytes)) ?b ft v1)) (int (length bytes)) v m)"
    "store_rel w (fs1 @ [new_frame (int (length bytes)) ?b ft v1])" "params w = params v"
    using Video_Write_ok [OF rel pre loop_stable_True TrueI, of bytes m] by metis
  let ?f = "new_frame (int (length bytes)) ?b ft v1"
  have par: "vi_blk_sz w = vi_blk_sz v" "vi_blk_num w = vi_blk_num v"
    using *(3) by (simp_all add: params_def)
  have nd: "ft \<noteq> DUMMY_FRAME" using pre(3) by (simp add: const_defs)
  then have "frame_ok (vi_blk_num v) (vi_blk_sz v) ?f" "real_frame ?f" "0 < vi_blk_sz v"
    using *(2) par rel by (simp_all add: store_rel_def store_geom_def real_frame_def)
  note ext = frame_extent [OF this]
  have m': "m' = written bytes (frame_addr v ?f) (int (length bytes)) v m" using assms(4) *(1) by simp
  have 1: "mem_write (frame_addr v ?f) bytes m a = m a"
    using assms(5) ext by (intro mem_write_outside) (auto simp: frame_addr_def)
  have 2: "mem_write (vi_extradata v) (take (nat (vi_extrasize v)) bytes) m0 a = m0 a"
    if "vi_extradata v \<noteq> 0" "vi_extrasize v \<noteq> 0" for m0
    using assms(2,6) that by (intro mem_write_outside) (auto simp: store_cfg_def)
  show ?thesis using 1 2 by (simp add: m' written_def Let_def)
qed

lemma found_contents:
  assumes "store_ok v" "settled v" "MemMng_GetFrameBySerial s v = Some i"
  shows "(s, vf_type (frame_at v i), mem_read (frame_addr v (frame_at v i)) (nat (vf_realsize (frame_at v i))) m)
    \<in> set (contents v m)"
proof -
  note sound = GetFrameBySerial_sound [OF assms]
  then have "core (frame_at v i) \<in> set (filter real_frame (live v))" by simp
  then have "(vf_serial (core (frame_at v i)), vf_type (core (frame_at v i)),
      mem_read (frame_addr v (core (frame_at v i))) (nat (vf_realsize (core (frame_at v i)))) m) \<in> set (contents v m)"
    unfolding contents_def set_map by (rule image_eqI [rotated]) (rule refl)
  with sound show ?thesis by (simp add: frame_addr_def)
qed

lemma read_back_aux:
  assumes "fresh v" "store_cfg v" "\<forall>w \<in> set ws. writable v w" "write_run ws v m = Some (v', m')"
    and "MemMng_GetFrameBySerial s v' = Some i"
  shows "0 \<le> s \<and> s < int (length ws)
    \<and> (int (length (fst (ws ! nat s))) \<le> limit \<longrightarrow>
        MemMng_Video_ReadFrame True limit (Some (frame_at v' i)) v' m'
          = (0, Some (int (length (fst (ws ! nat s))), snd (ws ! nat s), fst (ws ! nat s))))"
proof -
  have ser: "vi_cur_serial v = -1" using assms(1) by (simp add: fresh_def)
  have "contents v m = []" using fresh_ok [OF assms(1)] by (simp add: contents_def)
  with write_run_log [of v ws m] fresh_ok [OF assms(1)] assms(2-4) ser obtain j where
    v': "store_ok v'" "settled v'" "contents v' m' = drop j (log_from 0 ws)" by auto
  note sound = GetFrameBySerial_sound [OF v'(1,2) assms(5)]
  then have in_live: "core (frame_at v' i) \<in> set (live v')" and real: "real_frame (frame_at v' i)"
    and serial: "vf_serial (frame_at v' i) = s" by auto
  obtain bytes where read: "MemMng_Video_ReadFrame True (vf_realsize (frame_at v' i)) (Some (frame_at v' i)) v' m'
      = (0, Some (vf_realsize (frame_at v' i), vf_type (frame_at v' i), bytes))"
    "(s, vf_type (frame_at v' i), bytes) \<in> set (contents v' m')" "int (length bytes) = vf_realsize (frame_at v' i)"
    using ReadFrame_contents [OF v'(1) in_live real order_refl] unfolding serial by metis
  have "(s, vf_type (frame_at v' i), bytes) \<in> set (log_from 0 ws)"
    using read(2) v'(3) by (auto dest: in_set_dropD)
  then obtain n where n: "n < length ws" "log_from 0 ws ! n = (s, vf_type (frame_at v' i), bytes)"
    by (auto simp: in_set_conv_nth)
  with log_nth [OF n(1), of 0] have eqs: "s = int n" "vf_type (frame_at v' i) = snd (ws ! n)" "bytes = fst (ws ! n)"
    by simp_all
  have "MemMng_Video_ReadFrame True limit (Some (frame_at v' i)) v' m'
      = MemMng_Video_ReadFrame True (vf_realsize (frame_at v' i)) (Some (frame_at v' i)) v' m'"
    if "vf_realsize (frame_at v' i) \<le> limit"
    using that by (simp add: MemMng_Video_ReadFrame_def)
  with read eqs n show ?thesis by simp
qed

text \<open>C25: End to end, the store is a window on everything written.  After any
  sequence of valid writes to a fresh store of at most \<open>2 ^ 30\<close> blocks the contents are the newest entries
  of the complete log of the writes, in order, and never none of them.\<close>

theorem store_is_log:
  assumes "fresh v" "store_cfg v" "\<forall>w \<in> set ws. writable v w"
  shows "\<exists>v' m' j. write_run ws v m = Some (v', m') \<and> store_ok v' \<and> settled v'
    \<and> contents v' m' = drop j (log_from 0 ws) \<and> (ws \<noteq> [] \<longrightarrow> contents v' m' \<noteq> [])"
  using write_run_log [of v ws m] fresh_ok [OF assms(1)] assms
  by (auto simp: contents_def fresh_def)

text \<open>C24: Read after write.  After any sequence of valid writes to a fresh store (of at most
  \<open>2 ^ 30\<close> blocks, so that the counter of the loop does not overflow),
  whatever serial a client asks for, if \<open>MemMng_GetFrameBySerial\<close> finds a frame
  then \<open>MemMng_Video_ReadFrame\<close> on it delivers the bytes, the size and the type of
  exactly the write with that number.\<close>

theorem read_back:
  assumes "fresh v" "store_cfg v" "\<forall>w \<in> set ws. writable v w" "write_run ws v m = Some (v', m')"
    and "MemMng_GetFrameBySerial s v' = Some i" "int (length (fst (ws ! nat s))) \<le> limit"
  shows "0 \<le> s \<and> s < int (length ws)
    \<and> MemMng_Video_ReadFrame True limit (Some (frame_at v' i)) v' m'
        = (0, Some (int (length (fst (ws ! nat s))), snd (ws ! nat s), fst (ws ! nat s)))"
  using read_back_aux [OF assms(1-5)] assms(6) by blast

end
