(* ===== verification/Mem_Gop.thy ===== *)
theory Mem_Gop
  imports Mem_Store
begin

text \<open>The group-of-pictures record of the frame store, the error exits of its
  operations, and a small store on which they are run.\<close>

section \<open>A small store\<close>

definition empty_frame :: video_frame where
  "empty_frame = \<lparr>vf_serial = -1, vf_type = EMPTY_FRAME, vf_blkindex = -1, vf_blks = -1,
     vf_realsize = -1, vf_flag = 0, vf_timestamp = 0, vf_ref_serial = replicate VIDOE_INFO_END (-1)\<rparr>"

definition demo_gop :: video_gop where
  "demo_gop = \<lparr>gop_last_Start = -1, gop_last_Start_serial = -1, gop_last_End = -1,
     gop_last_End_serial = -1, gop_lastest_I = -1, gop_lastest_I_serial = -1\<rparr>"

text \<open>Three blocks of four bytes at address 1000, extra data at 500.\<close>

definition demo_store :: video_blk_info where
  "demo_store = \<lparr>vi_video_type = VIDEO_MP4, vi_width = 0, vi_height = 0, vi_start = 1000, vi_start_phy = 0,
     vi_size = 12, vi_extradata = 500, vi_extrasize = 2, vi_IsCache = 0, vi_blk_sz = 4, vi_blk_num = 3,
     vi_blk_free = 3, vi_frame_num = 3, vi_cur_frame = -1, vi_cur_serial = -1, vi_cur_blk = -1,
     vi_timestamp = -1, vi_gop = demo_gop, vi_frame = [empty_frame, empty_frame, empty_frame]\<rparr>"

lemma demo_store_fresh: "fresh demo_store" "store_cfg demo_store"
  by (simp_all add: fresh_def store_cfg_def demo_store_def demo_gop_def empty_frame_def extra_apart_def)

lemma blocks_for_4 [simp]:
  "blocks_for 1 4 = 1" "blocks_for 2 4 = 1" "blocks_for 3 4 = 1" "blocks_for 4 4 = 1"
  "blocks_for 5 4 = 2" "blocks_for 6 4 = 2" "blocks_for 8 4 = 2" "blocks_for 13 4 = 4"
  by (simp_all add: blocks_for_def signed_divide_int_def)

lemmas run_defs = demo_store_def demo_gop_def empty_frame_def MemMng_Video_Write_def
  write_loop.simps MemMng_VidFrame_Insert_def insert_head_def insert_tail_def
  MemMng_VidFrame_SetFlag_def set_frame_def gop_on_I_def write_addr_def MemMng_VidFrame_Free_def
  gop_on_free_def Video_Frame_reset_def Let_def const_defs off32_def signed_modulo_int_def

lemma Video_Write_total_witness:
  "\<exists>v' m'. MemMng_Video_Write (Some [1, 2, 3, 4, 5]) 5 I_FRAME demo_store (\<lambda>_. 0) = Some (0, v', m')"
  using Video_Write_total [of demo_store 5 I_FRAME "[1, 2, 3, 4, 5]" "\<lambda>_. 0"] fresh_ok [OF demo_store_fresh(1)]
  by (auto simp: demo_store_def const_defs)

lemma Video_Write_contents_witness:
  "\<exists>v' m' j. MemMng_Video_Write (Some [1, 2, 3, 4, 5]) 5 I_FRAME demo_store (\<lambda>_. 0) = Some (0, v', m')
    \<and> contents v' m' = drop j (contents demo_store (\<lambda>_. 0)) @ [(0, I_FRAME, [1, 2, 3, 4, 5])]"
  using Video_Write_contents [of demo_store 5 I_FRAME "[1, 2, 3, 4, 5]" "\<lambda>_. 0"] fresh_ok [OF demo_store_fresh(1)]
  by (simp add: demo_store_def const_defs extra_apart_def)

lemma GetFrameBySerial_correct_witness: "MemMng_GetFrameBySerial 0 demo_store = None"
  using GetFrameBySerial_correct [of demo_store 0] fresh_ok [OF demo_store_fresh(1)]
  by (simp add: demo_store_def)

lemma store_is_log_witness:
  "\<exists>v' m' j. write_run [([1, 2], 1), ([3], 2)] demo_store (\<lambda>_. 0) = Some (v', m')
    \<and> contents v' m' = drop j [(0, 1, [1, 2]), (1, 2, [3])]"
  using store_is_log [OF demo_store_fresh, of "[([1, 2], 1), ([3], 2)]" "\<lambda>_. 0"]
  by (auto simp: writable_def demo_store_def const_defs)

lemma read_back_witness:
  "\<exists>v' m' i. write_run [([1, 2], 1), ([3], 2)] demo_store (\<lambda>_. 0) = Some (v', m')
    \<and> MemMng_Video_ReadFrame True 10 (Some (frame_at v' i)) v' m' = (0, Some (2, 1, [1, 2]))"
proof -
  obtain v' m' where run: "write_run [([1, 2], 1), ([3], 2)] demo_store (\<lambda>_. 0) = Some (v', m')"
    and find: "MemMng_GetFrameBySerial 0 v' = Some 0"
    by (simp add: run_defs MemMng_GetFrameBySerial_def upt_rec)
  have "\<forall>w \<in> set [([1, 2], 1), ([3], 2)]. writable demo_store w"
    by (simp add: writable_def demo_store_def const_defs)
  from read_back [OF demo_store_fresh this run find, of 10]
  have "MemMng_Video_ReadFrame True 10 (Some (frame_at v' 0)) v' m' = (0, Some (2, 1, [1, 2]))" by simp
  with run show ?thesis by blast
qed

section \<open>Properties\<close>

text \<open>The error exits of \<open>MemMng_Video_Write\<close> that come before the loop change
  nothing: a payload of 0 bytes, or one that needs more blocks than the ring
  has, is refused with -1.\<close>

theorem Video_Write_refused:
  assumes "sz = 0 \<or> blocks_for sz (vi_blk_sz v) > vi_blk_num v"
  shows "MemMng_Video_Write data sz ft v m = Some (-1, v, m)"
  using assms by (auto simp: MemMng_Video_Write_def)

lemma Video_Write_refused_witness:
  "MemMng_Video_Write (Some [1]) 13 I_FRAME demo_store (\<lambda>_. 0) = Some (-1, demo_store, \<lambda>_. 0)"
  by (rule Video_Write_refused) (simp add: demo_store_def)

text \<open>A write of NULL data fails half way: it returns -1 after the frame
  descriptor, the serial number and the current block have moved on, while the
  count of free blocks has not.  When such a frame is freed later its blocks are
  counted twice: on a store of three blocks, three failed writes and the next
  one that has to evict leave the count above the number of blocks.\<close>

theorem Video_Write_NULL:
  "(\<exists>v'. MemMng_Video_Write None 3 I_FRAME demo_store m = Some (-1, v', m)
      \<and> vi_cur_serial v' = 0 \<and> vi_cur_frame v' = 0 \<and> vf_type (frame_at v' 0) = I_FRAME
      \<and> vi_blk_free v' = vi_blk_num v')
   \<and> (\<exists>v1 v2. MemMng_Video_Write None 3 I_FRAME demo_store m = Some (-1, v1, m)
      \<and> MemMng_VidFrame_Free v1 0 = (0, v2) \<and> vi_blk_free v2 = vi_blk_num v2 + 1)"
  by (simp add: run_defs)

section \<open>The record of I frames\<close>

text \<open>What the record says about I frames, as far as the code maintains it: an index
  above 0 is that of a live I frame with the recorded serial.\<close>

definition points_at :: "video_blk_info \<Rightarrow> int \<Rightarrow> int \<Rightarrow> bool" where
  "points_at v i s \<longleftrightarrow> (0 < i \<longrightarrow> i < vi_frame_num v
     \<and> vf_type (frame_at v i) = I_FRAME \<and> vf_serial (frame_at v i) = s)"

definition gop_ok :: "video_blk_info \<Rightarrow> bool" where
  "gop_ok v \<longleftrightarrow> points_at v (gop_lastest_I (vi_gop v)) (gop_lastest_I_serial (vi_gop v))
     \<and> points_at v (gop_last_Start (vi_gop v)) (gop_last_Start_serial (vi_gop v))"

lemma gop_ok_free:
  assumes rel: "store_rel v (f # fs)" and "gop_ok v"
    and i: "i = (vi_cur_frame v + 1 + (vi_frame_num v - int (length (f # fs)))) mod vi_frame_num v"
  shows "gop_ok (snd (MemMng_VidFrame_Free v i))"
proof -
  have geom: "store_geom v" using rel by (simp add: store_rel_def)
  have i0: "0 \<le> i" unfolding i by (rule slot_range(1) [OF geom])
  from free_oldest [OF rel i] obtain v' where free: "MemMng_VidFrame_Free v i = (vf_blkindex f, v')"
    "vi_gop v' = gop_on_free i (vi_gop v)" "params v' = params v"
    "vi_frame v' = (vi_frame v)[nat i := Video_Frame_reset (frame_at v i)]" by metis
  have num: "vi_frame_num v' = vi_frame_num v" using free(3) by (simp add: params_def)
  have other: "points_at v x s \<Longrightarrow> x \<noteq> i \<Longrightarrow> points_at v' x s" for x s
    using i0 by (auto simp: points_at_def num free(4) nth_list_update nat_eq_iff)
  have none: "points_at v' x s" if "x \<le> 0" for x s using that by (simp add: points_at_def)
  have "gop_ok v'"
    using assms(2) other none unfolding gop_ok_def free(2) gop_on_free_def Let_def
    by (cases "gop_last_Start (vi_gop v) > 0"; cases "gop_lastest_I (vi_gop v) > 0") auto
  with free(1) show ?thesis by simp
qed

lemma gop_ok_insert:
  assumes rel: "store_rel v fs" and gop: "gop_ok v" and b: "0 < blks" "blks \<le> vi_blk_free v"
  shows "gop_ok (insert_tail blks ft (insert_head sz blks ft v))" (is "gop_ok ?v'")
proof -
  have geom: "store_geom v" using rel by (simp add: store_rel_def)
  let ?c = "(vi_cur_frame v + 1) mod vi_frame_num v"
  have c: "0 \<le> ?c" "?c < vi_frame_num v" "length (vi_frame v) = nat (vi_frame_num v)"
    using geom by (simp_all add: store_geom_def)
  have one: "(1::int) \<le> vi_frame_num v - int (length fs)"
    using used_blocks(2) [OF rel] b geom by (simp add: store_geom_def)
  have empty: "vf_type (frame_at v ?c) = EMPTY_FRAME"
  proof -
    obtain es where es: "slots v = es @ fs" "\<forall>f \<in> set es. vf_type f = EMPTY_FRAME"
      using rel by (auto simp: store_rel_def)
    have "length es + length fs = nat (vi_frame_num v)" using arg_cong [OF es(1), of length] by simp
    with one have "0 < length es" by linarith
    then have "es \<noteq> []" by simp
    with es have "vf_type (slots v ! 0) = EMPTY_FRAME" by (cases es) auto
    moreover have "core (frame_at v ?c) = slots v ! 0"
      by (rule slots_set_frame(2) [OF geom]) (use c in simp_all)
    ultimately show ?thesis by (metis core_simps(2))
  qed
  have cores: "map core (vi_frame ?v') = (map core (vi_frame v))[nat ?c := new_frame sz blks ft v]"
    by (simp add: insert_tail_fields insert_head_frame)
  have at: "core (frame_at ?v' x) = (if x = ?c then new_frame sz blks ft v else core (frame_at v x))"
    if "0 \<le> x" "x < vi_frame_num v" for x
  proof -
    have "nat x < length (vi_frame v)" using that c by simp
    then have "core (frame_at ?v' x) = map core (vi_frame ?v') ! nat x"
      by (intro nth_map [symmetric]) (simp add: insert_tail_fields insert_head_fields)
    with that c show ?thesis by (simp add: cores nth_list_update eq_nat_nat_iff)
  qed
  have fields: "vf_type (frame_at ?v' x) = (if x = ?c then ft else vf_type (frame_at v x))"
    "vf_serial (frame_at ?v' x) = (if x = ?c then vi_cur_serial ?v' else vf_serial (frame_at v x))"
    if "0 \<le> x" "x < vi_frame_num v" for x
    using arg_cong [OF at [OF that], of vf_type] arg_cong [OF at [OF that], of vf_serial]
    by (auto simp: insert_tail_fields insert_head_fields)
  have num: "vi_frame_num ?v' = vi_frame_num v" by (simp add: insert_tail_fields insert_head_fields)
  have keep: "points_at v x s \<Longrightarrow> points_at ?v' x s" for x s
    using empty fields [of x] by (auto simp: points_at_def num const_defs)
  have new: "points_at ?v' ?c (vi_cur_serial ?v')" if "ft = I_FRAME"
    unfolding points_at_def num using fields [OF c(1,2)] c that by auto
  have cur: "vi_cur_frame (insert_head sz blks ft v) = ?c" "vi_cur_serial (insert_head sz blks ft v) = vi_cur_serial ?v'"
    by (simp_all add: insert_head_fields insert_tail_fields)
  have g: "vi_gop ?v' = (if ft = I_FRAME \<and> vi_video_type v = VIDEO_MP4
      then gop_on_I (insert_head sz blks ft v) else vi_gop v)"
    by (simp add: insert_tail_def Let_def insert_head_fields)
  have gi: "vi_gop (insert_head sz blks ft v) = vi_gop v" by (simp add: insert_head_fields)
  show ?thesis
    using gop keep new unfolding gop_ok_def g gop_on_I_def cur gi Let_def by auto
qed

lemma gop_ok_stable: "loop_stable gop_ok"
  unfolding loop_stable_def using gop_ok_free gop_ok_insert by blast

lemma gop_ok_fresh: "fresh v \<Longrightarrow> gop_ok v"
  by (simp add: fresh_def gop_ok_def points_at_def)

lemma gop_ok_write:
  assumes "store_ok v" "0 < sz" "blocks_for sz (vi_blk_sz v) \<le> vi_blk_num v"
    and "0 \<le> ft" "ft < END_FRAME_TYPE" "0 < vi_start v" "gop_ok v"
    and "MemMng_Video_Write (Some bytes) sz ft v m = Some (st, v', m')"
  shows "gop_ok v'"
proof -
  have rel: "store_rel v (live v)" using assms(1) by (simp add: store_ok_def)
  from Video_Write_ok [OF rel assms(2-6) gop_ok_stable assms(7), of bytes m] assms(8)
  show ?thesis using gop_ok_insert by (metis (no_types, lifting) Pair_inject option.inject)
qed

text \<open>Where the record is kept.  Every valid write keeps it: an index above 0 of
  the last I frame, or of the start of the last complete group, names a live
  I frame with the recorded serial, so that \<open>GetLastI_Frame\<close> answers an I frame
  whenever it answers an index above 0.\<close>

theorem gop_record_kept:
  assumes "store_ok v" "0 < sz" "blocks_for sz (vi_blk_sz v) \<le> vi_blk_num v"
    and "0 \<le> ft" "ft < END_FRAME_TYPE" "0 < vi_start v" "gop_ok v"
    and "MemMng_Video_Write (Some bytes) sz ft v m = Some (st, v', m')"
  shows "gop_ok v' \<and> (\<forall>i. GetLastI_Frame v' = Some i \<longrightarrow> 0 < i \<longrightarrow>
    vf_type (frame_at v' i) = I_FRAME \<and> vf_serial (frame_at v' i) = gop_lastest_I_serial (vi_gop v'))"
  using gop_ok_write [OF assms]
  by (auto simp: gop_ok_def points_at_def GetLastI_Frame_def split: if_splits)

lemma gop_record_kept_witness:
  "\<exists>v' m'. MemMng_Video_Write (Some [1, 2]) 2 I_FRAME demo_store (\<lambda>_. 0) = Some (0, v', m') \<and> gop_ok v'"
proof -
  obtain v' m' where w: "MemMng_Video_Write (Some [1, 2]) 2 I_FRAME demo_store (\<lambda>_. 0) = Some (0, v', m')"
    by (simp add: run_defs)
  have pre: "store_ok demo_store" "(0::int) < 2" "blocks_for 2 (vi_blk_sz demo_store) \<le> vi_blk_num demo_store"
    "0 \<le> I_FRAME" "I_FRAME < END_FRAME_TYPE" "0 < vi_start demo_store" "gop_ok demo_store"
    using fresh_ok [OF demo_store_fresh(1)] gop_ok_fresh [OF demo_store_fresh(1)]
    by (simp_all add: demo_store_def const_defs)
  from gop_record_kept [OF pre w] w show ?thesis by blast
qed

text \<open>Index 0 is never forgotten.  \<open>MemMng_VidFrame_Free\<close> tests the recorded
  indices with \<open>> 0\<close>: after an I frame in slot 0 and three P frames have been
  written to a store of three blocks, slot 0 holds the newest P frame and
  \<open>GetLastI_Frame\<close> still answers it as the last I frame, under the serial of the
  I frame that is gone.\<close>

theorem GetLastI_Frame_stale:
  "\<exists>v' m'. write_run [([1], I_FRAME), ([2], P_FRAME), ([3], P_FRAME), ([4], P_FRAME)] demo_store m = Some (v', m')
    \<and> GetLastI_Frame v' = Some 0 \<and> vf_type (frame_at v' 0) = P_FRAME
    \<and> vf_serial (frame_at v' 0) = 3 \<and> gop_lastest_I_serial (vi_gop v') = 0"
  by (simp add: run_defs GetLastI_Frame_def)

text \<open>The end-of-group flag misses slot 0.  When an I frame arrives in slot 1,
  \<open>MemMng_VidFrame_SetFlag\<close> does not mark the P frame before it, in slot 0, as the
  end of its group: the test \<open>cur_frame - 1 > 0\<close> sends it to the last slot.  When
  the I frame arrives in slot 2 the P frame in slot 1 is marked.\<close>

theorem SetFlag_misses_slot_0:
  "(\<exists>v' m'. write_run [([1], P_FRAME), ([2], I_FRAME)] demo_store m = Some (v', m')
      \<and> map vf_type (vi_frame v') = [P_FRAME, I_FRAME, EMPTY_FRAME] \<and> map vf_flag (vi_frame v') = [0, 1, 0])
   \<and> (\<exists>v' m'. write_run [([1], I_FRAME), ([2], P_FRAME), ([3], I_FRAME)] demo_store m = Some (v', m')
      \<and> map vf_flag (vi_frame v') = [1, 2, 1])"
  by (simp add: run_defs)

section \<open>Writes that starve a store\<close>

text \<open>Every descriptor looks empty, so that no block can be given back.\<close>

definition looks_empty :: "video_blk_info \<Rightarrow> bool" where
  "looks_empty v \<longleftrightarrow> 2 \<le> vi_frame_num v \<and> vi_frame_num v \<le> 2 ^ 30 \<and> length (vi_frame v) = nat (vi_frame_num v)
     \<and> -1 \<le> vi_cur_frame v \<and> vi_cur_frame v < vi_frame_num v
     \<and> (\<forall>f \<in> set (vi_frame v). vf_type f = EMPTY_FRAME)"

lemma looks_empty_free:
  assumes "looks_empty v" "0 \<le> i" "i < vi_frame_num v"
  shows "MemMng_VidFrame_Free v i = (0, v)"
  using assms by (simp add: looks_empty_def MemMng_VidFrame_Free_def)

lemma smod_neg: "0 \<le> x \<Longrightarrow> 0 < n \<Longrightarrow> (- x) smod n = - (x mod n)" for x n :: int
  by (simp add: smod_mod_positive)

lemma free_index_over:
  fixes n :: int
  assumes "2 \<le> n"
  shows "off32 (2 ^ 31) smod n = - (2 ^ 31 mod n)" "2 ^ 31 mod n = 0 \<Longrightarrow> off32 (2 ^ 31 + 1) smod n < 0"
proof -
  have low: "off32 (2 ^ 31) = - (2 ^ 31)" "off32 (2 ^ 31 + 1) = - (2 ^ 31 - 1)" by (simp_all add: off32_def)
  show "off32 (2 ^ 31) smod n = - (2 ^ 31 mod n)" unfolding low by (rule smod_neg) (use assms in simp_all)
  assume d: "2 ^ 31 mod n = 0"
  have "(2 ^ 31 - 1) mod n \<noteq> 0"
  proof
    assume "(2 ^ 31 - 1) mod n = 0"
    with d have "n dvd 2 ^ 31 - (2 ^ 31 - 1)" by (metis dvd_diff dvd_eq_mod_eq_0)
    moreover have "(2 ^ 31 - (2 ^ 31 - 1) :: int) = 1" by simp
    ultimately have "n dvd 1" by metis
    with assms show False using zdvd_imp_le [of n 1] by simp
  qed
  then have "0 < (2 ^ 31 - 1) mod n" using assms by (simp add: order_less_le)
  moreover have "- (2 ^ 31 - 1) smod n = - ((2 ^ 31 - 1) mod n)" by (rule smod_neg) (use assms in simp_all)
  ultimately show "off32 (2 ^ 31 + 1) smod n < 0" unfolding low by simp
qed

text \<open>The count runs up to the largest \<open>int\<close> and over; one of the first two indices after
  that is negative, at which the loop gives up.\<close>

lemma write_loop_step:
  assumes "looks_empty v" "vi_blk_free v < b" "i = off32 (vi_cur_frame v + 1 + t) smod vi_frame_num v"
  shows "i < 0 \<Longrightarrow> write_loop b (off32 t) m v = Some (-1, v, m)"
    "0 \<le> i \<Longrightarrow> i < vi_frame_num v \<Longrightarrow> write_loop b (off32 t) m v = write_loop b (off32 (t + 1)) m v"
proof -
  have i: "off32 (vi_cur_frame v + 1 + off32 t) smod vi_frame_num v = i" using assms(3) by (simp only: off32_add)
  have t: "off32 (off32 t + 1) = off32 (t + 1)" by (rule off32_add)
  show "write_loop b (off32 t) m v = Some (-1, v, m)" if "i < 0"
    by (subst write_loop.simps) (use assms(2) that in \<open>simp only: i Let_def\<close>, simp add: MemMng_VidFrame_Free_def)
  show "write_loop b (off32 t) m v = write_loop b (off32 (t + 1)) m v" if "0 \<le> i" "i < vi_frame_num v"
    by (subst write_loop.simps) (use assms(2) looks_empty_free [OF assms(1) that] in \<open>simp only: i t Let_def if_True fst_conv snd_conv\<close>, simp)
qed

lemma write_loop_gives_up:
  assumes v: "looks_empty v" "vi_blk_free v < b"
  shows "0 \<le> t \<Longrightarrow> vi_cur_frame v + 1 + t \<le> 2 ^ 31 \<Longrightarrow> write_loop b (off32 t) m v = Some (-1, v, m)"
proof (induction "nat (2 ^ 31 - (vi_cur_frame v + 1 + t))" arbitrary: t rule: less_induct)
  case less
  note step = write_loop_step [OF v refl]
  have n: "2 \<le> vi_frame_num v" "-1 \<le> vi_cur_frame v" using v(1) by (simp_all add: looks_empty_def)
  note over = free_index_over [OF n(1)]
  show ?case
  proof (cases "vi_cur_frame v + 1 + t = 2 ^ 31")
    case False
    with less.prems have lt: "vi_cur_frame v + 1 + t < 2 ^ 31" by simp
    then have "off32 (vi_cur_frame v + 1 + t) smod vi_frame_num v = (vi_cur_frame v + 1 + t) mod vi_frame_num v"
      by (intro free_index) (use n less.prems in simp_all)
    then have "write_loop b (off32 t) m v = write_loop b (off32 (t + 1)) m v"
      using n by (intro step(2)) simp_all
    also have "\<dots> = Some (-1, v, m)" by (rule less.hyps) (use lt less.prems in simp_all)
    finally show ?thesis .
  next
    case True
    then have s: "vi_cur_frame v + 1 + (t + 1) = 2 ^ 31 + 1" by simp
    show ?thesis
    proof (cases "2 ^ 31 mod vi_frame_num v = 0")
      case d: True
      have "write_loop b (off32 t) m v = write_loop b (off32 (t + 1)) m v"
        by (rule step(2); unfold True over(1) d; use n in simp)
      also have "\<dots> = Some (-1, v, m)" by (rule step(1); unfold s; rule over(2) [OF d])
      finally show ?thesis .
    next
      case d: False
      then have "0 < 2 ^ 31 mod vi_frame_num v" using n by (simp add: order_less_le)
      then show ?thesis by (intro step(1); unfold True over(1)) simp
    qed
  qed
qed

lemma blocks_taken:
  assumes "looks_empty v"
  shows "looks_empty (insert_tail blks EMPTY_FRAME (insert_head sz blks EMPTY_FRAME v))"
proof -
  let ?h = "insert_head sz blks EMPTY_FRAME v"
  let ?t = "insert_tail blks EMPTY_FRAME ?h"
  have cur: "0 \<le> (vi_cur_frame v + 1) mod vi_frame_num v" "(vi_cur_frame v + 1) mod vi_frame_num v < vi_frame_num v"
    using assms by (simp_all add: looks_empty_def)
  have "\<forall>f \<in> set (vi_frame ?h). vf_type f = EMPTY_FRAME"
    using assms set_update_subset_insert [of "vi_frame v"]
    by (fastforce simp: looks_empty_def insert_head_def set_frame_def const_defs Let_def)
  moreover have "map vf_type (vi_frame ?t) = map vf_type (vi_frame ?h)"
    using arg_cong [OF insert_tail_fields(1) [of blks EMPTY_FRAME ?h], of "map vf_type"] by (simp add: comp_def)
  then have "vf_type ` set (vi_frame ?t) = vf_type ` set (vi_frame ?h)" by (metis list.set_map)
  ultimately have "\<forall>f \<in> set (vi_frame ?t). vf_type f = EMPTY_FRAME" by (metis imageE imageI)
  with assms cur show ?thesis by (simp add: looks_empty_def insert_tail_fields insert_head_fields order_trans [of "-1" 0])
qed

text \<open>C27: A frame type below the valid range starves the encoder.
  \<open>MemMng_VidFrame_Insert\<close> refuses types from \<open>END_FRAME_TYPE\<close> on but not -1, which is
  \<open>EMPTY_FRAME\<close> and what \<open>VIDEO_streamShmCopy\<close> passes for an unknown key-frame flag.
  In a store all of whose descriptors look empty (as a fresh one does) such a write, of data that
  is not NULL, at an address that is not 0, and for which contiguous blocks are free, succeeds, takes its blocks, and leaves all
  descriptors looking empty; and as soon as a frame of any type needs more blocks
  than are free, its write fails and changes nothing, so that it fails for ever:
  the loop frees nothing until its counter has passed the largest \<open>int\<close> and the
  index of the descriptor becomes negative (an overflowing \<open>int\<close> wraps around, as on the
  target).  Stores of at least two and at most \<open>2 ^ 30\<close> descriptors.\<close>

theorem Video_Write_empty_type_starves:
  assumes "looks_empty v"
  shows "(\<forall>bytes sz m. 0 < blocks_for sz (vi_blk_sz v) \<and> blocks_for sz (vi_blk_sz v) \<le> vi_blk_free v \<and> vi_blk_free v \<le> vi_blk_num v
        \<and> (vi_cur_blk v + 1) mod vi_blk_num v + blocks_for sz (vi_blk_sz v) \<le> vi_blk_num v
        \<and> sz \<noteq> 0 \<and> write_addr v ((vi_cur_blk v + 1) mod vi_blk_num v) \<noteq> 0
      \<longrightarrow> (\<exists>v' m'. MemMng_Video_Write (Some bytes) sz EMPTY_FRAME v m = Some (0, v', m') \<and> looks_empty v'
        \<and> vi_blk_free v' = vi_blk_free v - blocks_for sz (vi_blk_sz v) \<and> params v' = params v))
    \<and> (\<forall>data sz type m. vi_blk_free v < blocks_for sz (vi_blk_sz v) \<longrightarrow> MemMng_Video_Write data sz type v m = Some (-1, v, m))"
proof (intro conjI allI impI)
  fix data sz type m
  assume few: "vi_blk_free v < blocks_for sz (vi_blk_sz v)"
  have "vi_cur_frame v + 1 + 0 \<le> 2 ^ 31" using assms by (simp add: looks_empty_def)
  from write_loop_gives_up [OF assms few _ this, of m] have "write_loop (blocks_for sz (vi_blk_sz v)) 0 m v = Some (-1, v, m)"
    by (simp add: off32_def)
  then show "MemMng_Video_Write data sz type v m = Some (-1, v, m)" by (simp add: MemMng_Video_Write_def Let_def)
next
  fix bytes sz m
  let ?b = "blocks_for sz (vi_blk_sz v)"
  assume b: "0 < ?b \<and> ?b \<le> vi_blk_free v \<and> vi_blk_free v \<le> vi_blk_num v \<and> (vi_cur_blk v + 1) mod vi_blk_num v + ?b \<le> vi_blk_num v
    \<and> sz \<noteq> 0 \<and> write_addr v ((vi_cur_blk v + 1) mod vi_blk_num v) \<noteq> 0"
  let ?v' = "insert_tail ?b EMPTY_FRAME (insert_head sz ?b EMPTY_FRAME v)"
  have "write_loop ?b 0 m v = Some (0, v, m)" by (subst write_loop.simps) (use b in \<open>simp add: Let_def\<close>)
  moreover have "write_addr (insert_head sz ?b EMPTY_FRAME v) (vi_cur_blk (insert_head sz ?b EMPTY_FRAME v)) \<noteq> 0"
    using b by (simp add: write_addr_def insert_head_fields)
  ultimately have "\<exists>m'. MemMng_Video_Write (Some bytes) sz EMPTY_FRAME v m = Some (0, ?v', m')"
    using b by (simp add: MemMng_Video_Write_def MemMng_VidFrame_Insert_def Let_def const_defs)
  moreover have "vi_blk_free ?v' = vi_blk_free v - ?b" "params ?v' = params v"
    by (simp add: insert_tail_fields insert_head_fields) (rule trans [OF insert_tail_fields(10) insert_head_fields(14)])
  ultimately show "\<exists>v' m'. MemMng_Video_Write (Some bytes) sz EMPTY_FRAME v m = Some (0, v', m') \<and> looks_empty v'
      \<and> vi_blk_free v' = vi_blk_free v - ?b \<and> params v' = params v"
    using blocks_taken [OF assms, of ?b sz] by blast
qed

text \<open>The small store, filled by one such write.\<close>

lemma Video_Write_empty_type_starves_witness:
  "\<exists>v m. MemMng_Video_Write (Some (replicate 12 7)) 12 EMPTY_FRAME demo_store (\<lambda>_. 0) = Some (0, v, m)
    \<and> MemMng_Video_Write (Some [1]) 1 I_FRAME v m = Some (-1, v, m)"
proof -
  have "looks_empty demo_store" "blocks_for 12 (vi_blk_sz demo_store) = 3" "blocks_for 1 (vi_blk_sz demo_store) = 1"
    by (simp_all add: looks_empty_def demo_store_def empty_frame_def blocks_for_def signed_divide_int_def)
  with Video_Write_empty_type_starves [of demo_store, THEN conjunct1, rule_format, of 12 "replicate 12 7" "\<lambda>_. 0"] obtain v m where
    v: "MemMng_Video_Write (Some (replicate 12 7)) 12 EMPTY_FRAME demo_store (\<lambda>_. 0) = Some (0, v, m)" "looks_empty v" "vi_blk_free v = 0" "params v = params demo_store"
    by (auto simp: demo_store_def write_addr_def)
  from v(4) have "vi_blk_sz v = 4" by (simp add: params_def demo_store_def)
  then have few: "vi_blk_free v < blocks_for 1 (vi_blk_sz v)" using v(3) by simp
  with v(1) Video_Write_empty_type_starves [OF v(2)] show ?thesis by blast
qed

end
