(* ===== verification/Mem_Layout.thy ===== *)
theory Mem_Layout
  imports Mem_Gop
begin

text \<open>Setting up the shared memory (src/mem_mng.c): the profiles of the two
  layouts, the templates of the 32 channels, and the loop that carves one store
  after the other out of the segment.\<close>

section \<open>Profiles and templates\<close>

text \<open>\<open>mem_layout_setting[layout].profiles[cnt]\<close> as \<open>MemMng_Init\<close> fills it.\<close>

definition mem_profile :: "int \<Rightarrow> nat \<Rightarrow> mem_size" where
  "mem_profile layout cnt =
    (if cnt \<ge> AUDIO_INFO_G711_CH1 then
       \<lparr>ms_cache_size = AUDIO_CACHE_SIZE, ms_cache_blk_size = AUDIO_CACHE_BLK_SIZE,
        ms_mem_size = AUDIO_MEM_SIZE, ms_mem_blk_size = AUDIO_BLK_SIZE, ms_ext_size = 0\<rparr>
     else if layout = MEM_LAYOUT_1 then
       \<lparr>ms_cache_size = MP4_CACHE_SIZE, ms_cache_blk_size = MP4_CACHE_BLK_SIZE,
        ms_mem_size = MP4_MEM_SIZE, ms_mem_blk_size = MP4_BLK_SIZE, ms_ext_size = MP4_1_EXTRA_SIZE\<rparr>
     else
       \<lparr>ms_cache_size = MP4_CACHE_SIZE, ms_cache_blk_size = 5 * 1024,
        ms_mem_size = MP4_MEM_SIZE, ms_mem_blk_size = 5 * 1024, ms_ext_size = MP4_1_EXTRA_SIZE\<rparr>)"

definition gop_unset :: video_gop where
  "gop_unset = \<lparr>gop_last_Start = -1, gop_last_Start_serial = -1, gop_last_End = -1,
     gop_last_End_serial = -1, gop_lastest_I = -1, gop_lastest_I_serial = -1\<rparr>"

text \<open>\<open>Video_info_default[cnt]\<close> before the layout is applied; what is not assigned is
  zero, the array being static.\<close>

definition video_template :: "nat \<Rightarrow> video_blk_info" where
  "video_template cnt =
    (let audio = cnt \<ge> AUDIO_INFO_G711_CH1;
         sz = (if audio then AUDIO_MEM_SIZE else MP4_EXT_MEM_SIZE);
         bs = (if audio then AUDIO_BLK_SIZE else MP4_EXT_BLK_SIZE)
     in \<lparr>vi_video_type = (if audio then AUDIO_G711 else VIDEO_MP4), vi_width = 0, vi_height = 0,
         vi_start = 0, vi_start_phy = 0, vi_size = sz, vi_extradata = 0,
         vi_extrasize = (if audio then 0 else MP4_2_EXTRA_SIZE), vi_IsCache = 0,
         vi_blk_sz = bs, vi_blk_num = sz div bs, vi_blk_free = sz div bs, vi_frame_num = 0,
         vi_cur_frame = -1, vi_cur_serial = -1, vi_cur_blk = -1, vi_timestamp = -1,
         vi_gop = gop_unset, vi_frame = []\<rparr>)"

definition cache_template :: "nat \<Rightarrow> cache_mng" where
  "cache_template cnt =
    (let audio = cnt \<ge> AUDIO_INFO_G711_CH1;
         sz = (if audio then AUDIO_CACHE_SIZE else MP4_CACHE_SIZE);
         bs = (if audio then AUDIO_CACHE_BLK_SIZE else MP4_CACHE_BLK_SIZE)
     in \<lparr>cm_video_type = (if audio then AUDIO_G711 else VIDEO_MP4), cm_start_addr = 0, cm_start_phy = 0,
         cm_size = sz, cm_blk_sz = bs, cm_blk_num = sz div bs, cm_cache_num = sz div bs,
         cm_cache = [], cm_blk = []\<rparr>)"

text \<open>\<open>MemMng_Mem_layout\<close>: the two arrays with the profile applied, and the total.\<close>

definition layout_of :: "int \<Rightarrow> int" where
  "layout_of layout = (if layout \<ge> MEM_LAYOUT_NUM \<or> layout < 0 then MEM_LAYOUT_DEFAULT else layout)"

definition layout_video :: "int \<Rightarrow> nat \<Rightarrow> video_blk_info" where
  "layout_video layout cnt = (let p = mem_profile (layout_of layout) cnt in
     (video_template cnt)\<lparr>vi_size := ms_mem_size p, vi_extrasize := ms_ext_size p,
       vi_blk_sz := ms_mem_blk_size p, vi_blk_num := ms_mem_size p div ms_mem_blk_size p,
       vi_blk_free := ms_mem_size p div ms_mem_blk_size p\<rparr>)"

definition layout_cache :: "int \<Rightarrow> nat \<Rightarrow> cache_mng" where
  "layout_cache layout cnt = (let p = mem_profile (layout_of layout) cnt in
     (cache_template cnt)\<lparr>cm_size := ms_cache_size p, cm_blk_sz := ms_cache_blk_size p,
       cm_blk_num := ms_cache_size p div ms_cache_blk_size p,
       cm_cache_num := ms_cache_size p div ms_cache_blk_size p\<rparr>)"

definition MemMng_Mem_layout :: "int \<Rightarrow> video_blk_info list \<times> cache_mng list \<times> int" where
  "MemMng_Mem_layout layout =
    (let vs = map (layout_video layout) [0..<VIDOE_INFO_END];
         cs = map (layout_cache layout) [0..<VIDOE_INFO_END]
     in (vs, cs, \<Sum>(v, c) \<leftarrow> zip vs cs. vi_size v + vi_extrasize v + cm_size c))"

section \<open>Carving the segment\<close>

definition zero_frame :: video_frame where
  "zero_frame = \<lparr>vf_serial = 0, vf_type = 0, vf_blkindex = 0, vf_blks = 0, vf_realsize = 0,
     vf_flag = 0, vf_timestamp = 0, vf_ref_serial = replicate VIDOE_INFO_END 0\<rparr>"

text \<open>One trip of the loop of \<open>Video_Mem_Malloc\<close>: the new store, free size and offset.\<close>

definition place_store :: "int \<Rightarrow> int \<Rightarrow> int \<times> int \<Rightarrow> video_blk_info \<Rightarrow> video_blk_info \<times> int \<times> int" where
  "place_store start_addr start_phy fo v =
    (let (freesize, offset) = fo;
         v1 = v\<lparr>vi_start := start_addr + offset, vi_start_phy := start_phy + offset,
                vi_frame_num := vi_blk_num v,
                vi_frame := replicate (nat (vi_blk_num v)) (Video_Frame_reset zero_frame)\<rparr>;
         freesize1 = freesize - vi_size v; offset1 = offset + vi_size v
     in if vi_extrasize v > 0
        then (v1\<lparr>vi_extradata := start_addr + offset1\<rparr>, freesize1 - vi_extrasize v, offset1 + vi_extrasize v)
        else (v1, freesize1, offset1))"

text \<open>\<open>callocs\<close> tells which of the frame arrays can be allocated.  The descriptors are
  reset before the pointer is checked, so that a NULL array is a crash (None)
  unless it has no element.\<close>

fun place_all :: "(nat \<Rightarrow> bool) \<Rightarrow> nat \<Rightarrow> int \<Rightarrow> int \<Rightarrow> int \<times> int \<Rightarrow> video_blk_info list
    \<Rightarrow> (int \<times> video_blk_info list \<times> int \<times> int) option" where
  "place_all callocs cnt sa sp fo [] = Some (0, [], fo)"
| "place_all callocs cnt sa sp fo (v # vs) =
    (let (v1, freesize, offset) = place_store sa sp fo v in
     if \<not> callocs cnt \<and> vi_blk_num v > 0 then None
     else if freesize < 0 \<or> \<not> callocs cnt then Some (-1, v1 # vs, freesize, offset)
     else map_option (\<lambda>(st, vs', fo'). (st, v1 # vs', fo')) (place_all callocs (cnt + 1) sa sp (freesize, offset) vs))"

definition Video_Mem_Malloc :: "(nat \<Rightarrow> bool) \<Rightarrow> video_blk_info list \<Rightarrow> mem_mng_info \<Rightarrow> (int \<times> mem_mng_info) option" where
  "Video_Mem_Malloc callocs defaults mm =
    map_option (\<lambda>(st, vs, freesize, offset).
        (st, mm\<lparr>mm_video_info_nums := int (length defaults), mm_video_info := vs,
                mm_freesize := freesize, mm_offset := offset\<rparr>))
      (place_all callocs 0 (mm_start_addr mm) (mm_start_phyAddr mm) (mm_freesize mm, mm_offset mm) defaults)"

definition zero_mem_mng :: mem_mng_info where
  "zero_mem_mng = \<lparr>mm_start_addr = 0, mm_start_phyAddr = 0, mm_freesize = 0, mm_totalsize = 0,
     mm_offset = 0, mm_mem_layout = 0, mm_shmem_key = 0, mm_video_info_nums = 0, mm_video_info = []\<rparr>"

text \<open>\<open>shmid\<close> and \<open>addr\<close> are what \<open>shmget\<close> and \<open>shmat\<close> return, the latter as an
  unsigned 32-bit address: \<open>2 ^ 32 - 1\<close> is \<open>(void * ) -1\<close>, POSIX's failure value.\<close>

definition MemMng_Init :: "int \<Rightarrow> int \<Rightarrow> (nat \<Rightarrow> bool) \<Rightarrow> mem_mng_info \<Rightarrow> (int \<times> mem_mng_info) option" where
  "MemMng_Init shmid addr callocs pInfo =
    (let layout = mm_mem_layout pInfo;
         (vs, cs, tot) = MemMng_Mem_layout layout;
         mm = zero_mem_mng\<lparr>mm_shmem_key := SHMEM_KEY, mm_totalsize := tot\<rparr>
     in if shmid = -1 then Some (-1, mm)
        else let mm1 = mm\<lparr>mm_start_addr := addr\<rparr> in
          if addr = 0 then Some (-1, mm1)
          else map_option (\<lambda>(st, mm2). if st = 0 then (0, mm2) else (-1, mm2))
            (Video_Mem_Malloc callocs vs (mm1\<lparr>mm_freesize := tot, mm_offset := 0\<rparr>)))"

text \<open>The pointer \<open>video_info\<close> becomes NULL and the start address 0.  The frame
  arrays go, the segment stays attached.\<close>

definition Video_Mem_Free :: "mem_mng_info \<Rightarrow> int \<times> mem_mng_info" where
  "Video_Mem_Free mm = (let mm1 = mm\<lparr>mm_video_info_nums := int VIDOE_INFO_END\<rparr> in
     if mm_video_info mm1 = [] then (-1, mm1)
     else (0, mm1\<lparr>mm_video_info := map (\<lambda>v. v\<lparr>vi_frame := []\<rparr>) (mm_video_info mm1)\<rparr>))"

definition MemMng_release :: "mem_mng_info \<Rightarrow> int \<times> mem_mng_info" where
  "MemMng_release mm = (0, (snd (Video_Mem_Free mm))\<lparr>mm_video_info := [], mm_start_addr := 0\<rparr>)"

definition GetMemMngPhyBaseAddr :: "mem_mng_info option \<Rightarrow> int" where
  "GetMemMngPhyBaseAddr p = (case p of None \<Rightarrow> 0 | Some mm \<Rightarrow> mm_start_phyAddr mm)"

definition GetMemMngShmemKey :: "mem_mng_info option \<Rightarrow> int" where
  "GetMemMngShmemKey p = (case p of None \<Rightarrow> 0 | Some mm \<Rightarrow> mm_shmem_key mm)"

definition GetMemMngTotalMemSize :: "mem_mng_info option \<Rightarrow> int" where
  "GetMemMngTotalMemSize p = (case p of None \<Rightarrow> 0 | Some mm \<Rightarrow> mm_totalsize mm)"

section \<open>Properties\<close>

text \<open>What the code relies on in a template.\<close>

definition template_ok :: "video_blk_info \<Rightarrow> bool" where
  "template_ok v \<longleftrightarrow> 0 < vi_blk_sz v \<and> 0 < vi_blk_num v \<and> vi_blk_num v \<le> 2 ^ 30 \<and> vi_blk_num v * vi_blk_sz v \<le> vi_size v
     \<and> vi_blk_free v = vi_blk_num v \<and> 0 \<le> vi_extrasize v \<and> vi_extradata v = 0
     \<and> vi_cur_frame v = -1 \<and> vi_cur_serial v = -1 \<and> vi_cur_blk v = -1 \<and> vi_gop v = gop_unset"

definition footprint :: "video_blk_info \<Rightarrow> int" where
  "footprint v = vi_size v + vi_extrasize v"

text \<open>The store and its extra data occupy \<open>[a, b)\<close>.\<close>

definition occupies :: "video_blk_info \<Rightarrow> int \<Rightarrow> int \<Rightarrow> bool" where
  "occupies v a b \<longleftrightarrow> vi_start v = a \<and> a + vi_blk_num v * vi_blk_sz v \<le> b
     \<and> (vi_extrasize v = 0 \<or> a + vi_blk_num v * vi_blk_sz v \<le> vi_extradata v
         \<and> vi_extradata v + vi_extrasize v \<le> b)"

lemma place_store_ok:
  assumes "template_ok v" "0 < sa + offset" "place_store sa sp (freesize, offset) v = (v1, f1, o1)"
  shows "f1 = freesize - footprint v" "o1 = offset + footprint v" "fresh v1" "store_cfg v1"
    "occupies v1 (sa + offset) (sa + o1)"
  using assms
  by (auto simp: place_store_def template_ok_def footprint_def fresh_def store_cfg_def extra_apart_def
      occupies_def gop_unset_def Let_def split: if_splits)

lemma footprint_pos: "template_ok v \<Longrightarrow> 0 < footprint v"
  by (simp add: template_ok_def footprint_def) (smt (verit) mult_pos_pos)

lemma place_all_ok:
  assumes "\<forall>v \<in> set ts. template_ok v" "0 < sa + offset" "\<forall>n. callocs n"
    and "(\<Sum>v\<leftarrow>ts. footprint v) \<le> freesize"
  shows "\<exists>vs. place_all callocs cnt sa sp (freesize, offset) ts
      = Some (0, vs, freesize - (\<Sum>v\<leftarrow>ts. footprint v), offset + (\<Sum>v\<leftarrow>ts. footprint v))
    \<and> length vs = length ts
    \<and> (\<forall>i < length ts. fresh (vs ! i) \<and> store_cfg (vs ! i)
        \<and> occupies (vs ! i) (sa + offset + (\<Sum>v\<leftarrow>take i ts. footprint v))
            (sa + offset + (\<Sum>v\<leftarrow>take (Suc i) ts. footprint v)))"
  using assms
proof (induction ts arbitrary: cnt offset freesize)
  case (Cons t ts)
  obtain v1 f1 o1 where place: "place_store sa sp (freesize, offset) t = (v1, f1, o1)"
    by (cases "place_store sa sp (freesize, offset) t")
  have t: "template_ok t" using Cons.prems(1) by simp
  note ok = place_store_ok [OF t Cons.prems(2) place]
  have pos: "0 < footprint t" by (rule footprint_pos [OF t])
  have sum_nonneg: "0 \<le> (\<Sum>v\<leftarrow>ts. footprint v)"
    using Cons.prems(1) footprint_pos by (intro sum_list_nonneg) force
  have prems': "\<forall>v \<in> set ts. template_ok v" "0 < sa + o1" "(\<Sum>v\<leftarrow>ts. footprint v) \<le> f1"
    using Cons.prems pos ok(1,2) by auto
  from Cons.IH [OF prems'(1,2) Cons.prems(3) prems'(3), of "cnt + 1"] obtain vs where
    vs: "place_all callocs (cnt + 1) sa sp (f1, o1) ts
      = Some (0, vs, f1 - (\<Sum>v\<leftarrow>ts. footprint v), o1 + (\<Sum>v\<leftarrow>ts. footprint v))"
      "length vs = length ts"
      "\<forall>i < length ts. fresh (vs ! i) \<and> store_cfg (vs ! i)
        \<and> occupies (vs ! i) (sa + o1 + (\<Sum>v\<leftarrow>take i ts. footprint v))
            (sa + o1 + (\<Sum>v\<leftarrow>take (Suc i) ts. footprint v))" by auto
  have "\<not> f1 < 0" using prems'(3) sum_nonneg by simp
  then have "place_all callocs cnt sa sp (freesize, offset) (t # ts)
      = Some (0, v1 # vs, freesize - (\<Sum>v\<leftarrow>t # ts. footprint v), offset + (\<Sum>v\<leftarrow>t # ts. footprint v))"
    using place vs(1) Cons.prems(3) ok(1,2) by simp
  moreover have "fresh ((v1 # vs) ! i) \<and> store_cfg ((v1 # vs) ! i)
        \<and> occupies ((v1 # vs) ! i) (sa + offset + (\<Sum>v\<leftarrow>take i (t # ts). footprint v))
            (sa + offset + (\<Sum>v\<leftarrow>take (Suc i) (t # ts). footprint v))" if "i < length (t # ts)" for i
  proof (cases i)
    case 0
    with ok show ?thesis by (simp add: add.assoc)
  next
    case (Suc k)
    with that vs(3) ok(2) show ?thesis by (simp add: add.assoc)
  qed
  ultimately show ?case using vs(2) by (intro exI [of _ "v1 # vs"]) simp
qed simp

lemma layout_video_ok: "template_ok (layout_video layout cnt)"
  by (simp add: template_ok_def layout_video_def mem_profile_def video_template_def Let_def const_defs)

lemma layout_sums:
  assumes "MemMng_Mem_layout layout = (vs, cs, tot)"
  shows "tot = (\<Sum>v\<leftarrow>vs. footprint v) + (\<Sum>c\<leftarrow>cs. cm_size c)" "length vs = VIDOE_INFO_END"
    "length cs = VIDOE_INFO_END" "\<forall>v \<in> set vs. template_ok v" "\<forall>c \<in> set cs. 0 < cm_size c"
proof -
  have eqs: "vs = map (layout_video layout) [0..<VIDOE_INFO_END]" "cs = map (layout_cache layout) [0..<VIDOE_INFO_END]"
    "tot = (\<Sum>(v, c) \<leftarrow> zip vs cs. vi_size v + vi_extrasize v + cm_size c)"
    using assms by (auto simp: MemMng_Mem_layout_def Let_def)
  have "length xs = length ys \<Longrightarrow> (\<Sum>(v, c) \<leftarrow> zip xs ys. vi_size v + vi_extrasize v + cm_size c)
      = (\<Sum>v\<leftarrow>xs. footprint v) + (\<Sum>c\<leftarrow>ys. cm_size c)" for xs :: "video_blk_info list" and ys :: "cache_mng list"
    by (induction xs ys rule: list_induct2) (auto simp: footprint_def)
  with eqs show "tot = (\<Sum>v\<leftarrow>vs. footprint v) + (\<Sum>c\<leftarrow>cs. cm_size c)" by simp
  show "length vs = VIDOE_INFO_END" "length cs = VIDOE_INFO_END" "\<forall>v \<in> set vs. template_ok v"
    using eqs layout_video_ok by simp_all
  show "\<forall>c \<in> set cs. 0 < cm_size c"
    using eqs(2) by (auto simp: layout_cache_def mem_profile_def Let_def const_defs)
qed

lemma prefix_sum_mono:
  fixes g :: "'a \<Rightarrow> int"
  assumes "\<forall>x \<in> set xs. 0 \<le> g x" "i \<le> j"
  shows "(\<Sum>x\<leftarrow>take i xs. g x) \<le> (\<Sum>x\<leftarrow>take j xs. g x)"
proof -
  have "take j xs = take i xs @ take (j - i) (drop i xs)"
    using assms(2) by (metis le_add_diff_inverse take_add)
  moreover have "0 \<le> (\<Sum>x\<leftarrow>take (j - i) (drop i xs). g x)"
    using assms(1) by (intro sum_list_nonneg) (auto dest!: in_set_takeD in_set_dropD)
  ultimately show ?thesis by simp
qed

lemma init_partition:
  assumes "shmid \<noteq> -1" "0 < addr" "\<forall>n. callocs n"
    and "MemMng_Mem_layout (mm_mem_layout pInfo) = (ts, cs, tot)"
  shows "\<exists>mm bound. MemMng_Init shmid addr callocs pInfo = Some (0, mm)
    \<and> length (mm_video_info mm) = VIDOE_INFO_END \<and> mm_start_addr mm = addr \<and> mm_totalsize mm = tot
    \<and> mm_freesize mm = (\<Sum>c\<leftarrow>cs. cm_size c) \<and> mm_offset mm + mm_freesize mm = tot
    \<and> bound 0 = addr \<and> bound VIDOE_INFO_END = addr + mm_offset mm
    \<and> (\<forall>i < VIDOE_INFO_END. \<forall>j \<le> i. bound j \<le> bound i)
    \<and> (\<forall>i < VIDOE_INFO_END. fresh (mm_video_info mm ! i) \<and> store_cfg (mm_video_info mm ! i)
        \<and> occupies (mm_video_info mm ! i) (bound i) (bound (Suc i)))"
proof -
  note sums = layout_sums [OF assms(4)]
  let ?F = "\<Sum>v\<leftarrow>ts. footprint v"
  have "0 \<le> (\<Sum>c\<leftarrow>cs. cm_size c)" using sums(5) by (intro sum_list_nonneg) force
  then have "?F \<le> tot" using sums(1) by simp
  with place_all_ok [OF sums(4), of addr 0 callocs tot 0 0] assms(2,3) obtain vs where
    vs: "place_all callocs 0 addr 0 (tot, 0) ts = Some (0, vs, tot - ?F, 0 + ?F)"
      "length vs = length ts"
      "\<forall>i < length ts. fresh (vs ! i) \<and> store_cfg (vs ! i)
        \<and> occupies (vs ! i) (addr + 0 + (\<Sum>v\<leftarrow>take i ts. footprint v))
            (addr + 0 + (\<Sum>v\<leftarrow>take (Suc i) ts. footprint v))" by auto
  define mm where "mm = zero_mem_mng\<lparr>mm_shmem_key := SHMEM_KEY, mm_totalsize := tot, mm_start_addr := addr,
    mm_freesize := tot - ?F, mm_offset := ?F, mm_video_info_nums := int (length ts), mm_video_info := vs\<rparr>"
  define bound where "bound i = addr + (\<Sum>v\<leftarrow>take i ts. footprint v)" for i
  have init: "MemMng_Init shmid addr callocs pInfo = Some (0, mm)"
    using assms(1,2,4) vs(1)
    by (simp add: MemMng_Init_def Video_Mem_Malloc_def zero_mem_mng_def mm_def)
  have mono: "bound j \<le> bound i" if "j \<le> i" for i j
    using prefix_sum_mono [OF _ that, of ts footprint] sums(4) footprint_pos
    unfolding bound_def by force
  show ?thesis
    by (rule exI [of _ mm], rule exI [of _ bound])
       (use init vs(2,3) sums mono in \<open>simp add: mm_def bound_def\<close>)
qed

text \<open>\<open>MemMng_Init\<close> partitions the segment.  Whatever layout is asked for, when
  the segment is attached at a positive address and the allocations succeed it
  returns 0 with 32 fresh, well configured stores; each store with its extra data
  lies inside the segment, before that of the next channel; and the space left
  is exactly what the caches need.\<close>

theorem MemMng_Init_partition:
  assumes "shmid \<noteq> -1" "0 < addr" "\<forall>n. callocs n"
    and "MemMng_Mem_layout (mm_mem_layout pInfo) = (ts, cs, tot)"
  shows "\<exists>mm bound. MemMng_Init shmid addr callocs pInfo = Some (0, mm)
    \<and> length (mm_video_info mm) = VIDOE_INFO_END \<and> mm_start_addr mm = addr \<and> mm_totalsize mm = tot
    \<and> mm_freesize mm = (\<Sum>c\<leftarrow>cs. cm_size c) \<and> mm_offset mm + mm_freesize mm = tot
    \<and> bound 0 = addr \<and> bound VIDOE_INFO_END = addr + mm_offset mm
    \<and> (\<forall>i < VIDOE_INFO_END. \<forall>j \<le> i. bound j \<le> bound i)
    \<and> (\<forall>i < VIDOE_INFO_END. fresh (mm_video_info mm ! i) \<and> store_cfg (mm_video_info mm ! i)
        \<and> occupies (mm_video_info mm ! i) (bound i) (bound (Suc i)))"
  by (rule init_partition [OF assms])

lemma MemMng_Init_partition_witness:
  "\<exists>mm. MemMng_Init 7 4096 (\<lambda>_. True) zero_mem_mng = Some (0, mm) \<and> length (mm_video_info mm) = 32"
proof -
  obtain ts cs tot where l: "MemMng_Mem_layout (mm_mem_layout zero_mem_mng) = (ts, cs, tot)"
    by (cases "MemMng_Mem_layout (mm_mem_layout zero_mem_mng)")
  from MemMng_Init_partition [OF _ _ _ l, of 7 4096 "\<lambda>_. True"] show ?thesis
    by (auto simp: const_defs)
qed

text \<open>\<open>MemMng_Init\<close> does not notice a failed attach.  \<open>shmat\<close> reports failure
  with \<open>(void * ) -1\<close>, the code tests for NULL: it returns success and puts the
  32 stores at the top of the address space.\<close>

theorem MemMng_Init_shmat_failure:
  assumes "\<forall>n. callocs n"
  shows "\<exists>mm. MemMng_Init 7 (2 ^ 32 - 1) callocs pInfo = Some (0, mm)
    \<and> vi_start (mm_video_info mm ! 0) = 2 ^ 32 - 1"
proof -
  obtain ts cs tot where l: "MemMng_Mem_layout (mm_mem_layout pInfo) = (ts, cs, tot)"
    by (cases "MemMng_Mem_layout (mm_mem_layout pInfo)")
  note sums = layout_sums [OF l]
  have "0 \<le> (\<Sum>c\<leftarrow>cs. cm_size c)" using sums(5) by (intro sum_list_nonneg) force
  then have le: "(\<Sum>v\<leftarrow>ts. footprint v) \<le> tot" using sums(1) by simp
  from place_all_ok [OF sums(4) _ assms le, of "2 ^ 32 - 1" 0 0 0] obtain vs st fo where
    vs: "place_all callocs 0 (2 ^ 32 - 1) 0 (tot, 0) ts = Some (0, vs, fo)"
      "occupies (vs ! 0) (2 ^ 32 - 1) st" using sums(2) by (fastforce simp: const_defs)
  then show ?thesis
    using l by (cases fo) (auto simp: MemMng_Init_def Video_Mem_Malloc_def zero_mem_mng_def occupies_def)
qed

lemma MemMng_Init_shmat_failure_witness:
  "\<exists>mm. MemMng_Init 7 (2 ^ 32 - 1) (\<lambda>_. True) zero_mem_mng = Some (0, mm)"
  using MemMng_Init_shmat_failure [of "\<lambda>_. True" zero_mem_mng] by blast

end
