(* ===== verification/Cache_Mng.thy ===== *)
theory Cache_Mng
  imports Mem_Layout
begin

text \<open>The frame cache of src/cache_mng.c.  A client that wants to keep a frame locks
  it: the frame is copied out of the ring into blocks of the cache, found first
  fit, and stays there, counted, until the last client unlocks it.\<close>

section \<open>State\<close>

text \<open>A channel with its cache (\<open>pVidInfo\<close> and \<open>pVidInfo->cachemng\<close>) and the shared
  memory.\<close>

record channel =
  ch_video :: video_blk_info
  ch_cache :: cache_mng
  ch_mem :: memory

definition CacheMng_cache_reset :: "cache_data \<Rightarrow> cache_data" where
  "CacheMng_cache_reset pcache = pcache\<lparr>cd_type := EMPTY_CACHE, cd_serial := -1, cd_blkindex := -1,
     cd_blks := -1, cd_realsize := -1, cd_cnt := 0, cd_flag := -1, cd_timestamp := 0,
     cd_ref_serial := replicate VIDOE_INFO_END (-1)\<rparr>"

definition CacheMng_blk_set :: "int \<Rightarrow> cache_blk \<Rightarrow> cache_blk" where
  "CacheMng_blk_set serial pblk = pblk\<lparr>cb_IsFree := 0, cb_serial := serial\<rparr>"

definition CacheMng_blk_unset :: "cache_blk \<Rightarrow> cache_blk" where
  "CacheMng_blk_unset pblk = pblk\<lparr>cb_IsFree := 1, cb_serial := -1\<rparr>"

definition CacheMng_blk_reset :: "int \<Rightarrow> cache_blk \<Rightarrow> cache_blk" where
  "CacheMng_blk_reset offset pblk = pblk\<lparr>cb_IsFree := 1, cb_offset := offset, cb_serial := -1\<rparr>"

text \<open>\<open>CacheMng_MemCpy\<close>: NULL is refused.\<close>

definition CacheMng_MemCpy :: "int \<Rightarrow> int \<Rightarrow> int \<Rightarrow> memory \<Rightarrow> int \<times> memory" where
  "CacheMng_MemCpy Des Src sz m =
    (if Des = 0 \<or> Src = 0 then (CACHE_PARM_ERR, m)
     else (0, mem_write Des (mem_read Src (nat sz) m) m))"

section \<open>Searches\<close>

text \<open>The index of the first hit below \<open>n\<close>, or the error code.\<close>

definition first_index :: "(nat \<Rightarrow> bool) \<Rightarrow> int \<Rightarrow> int" where
  "first_index P n = (case List.find P [0..<nat n] of Some i \<Rightarrow> int i | None \<Rightarrow> CACHE_ERR)"

definition CacheMng_Find_Freeblk :: "cache_mng \<Rightarrow> int \<Rightarrow> int" where
  "CacheMng_Find_Freeblk cm blk_use =
    first_index (\<lambda>cnt. list_all (\<lambda>cnt2. cb_IsFree (cm_blk cm ! (cnt + cnt2)) = 1) [0..<nat blk_use])
      (cm_blk_num cm - blk_use + 1)"

definition CacheMng_Find_FreeCache :: "cache_mng \<Rightarrow> int" where
  "CacheMng_Find_FreeCache cm =
    first_index (\<lambda>cnt. cd_type (cm_cache cm ! cnt) = EMPTY_CACHE) (cm_cache_num cm)"

definition holds_serial :: "cache_mng \<Rightarrow> int \<Rightarrow> nat \<Rightarrow> bool" where
  "holds_serial cm serial cnt \<longleftrightarrow>
     cd_serial (cm_cache cm ! cnt) = serial \<and> cd_type (cm_cache cm ! cnt) \<noteq> EMPTY_CACHE"

definition CacheMng_FindCacheBySerial :: "int \<Rightarrow> channel \<Rightarrow> int" where
  "CacheMng_FindCacheBySerial serial ch =
    (if serial > vi_cur_serial (ch_video ch) then CACHE_ERR
     else first_index (holds_serial (ch_cache ch) serial) (cm_cache_num (ch_cache ch)))"

text \<open>\<open>CacheMng_GetCacheBySerial\<close> answers the entry, None for NULL.\<close>

definition CacheMng_GetCacheBySerial :: "int \<Rightarrow> channel \<Rightarrow> cache_data option" where
  "CacheMng_GetCacheBySerial serial ch =
    (let i = CacheMng_FindCacheBySerial serial ch in
     if i \<ge> 0 then Some (cm_cache (ch_cache ch) ! nat i) else None)"

text \<open>This one does not look at the current serial number.\<close>

definition CacheMng_GetCacheInfoBySerial :: "int \<Rightarrow> channel \<Rightarrow> int \<times> cache_data_info option" where
  "CacheMng_GetCacheInfoBySerial serial ch =
    (let cm = ch_cache ch; i = first_index (holds_serial cm serial) (cm_cache_num cm) in
     if i \<ge> 0 then
       let c = cm_cache cm ! nat i; pblk = cm_blk cm ! nat (cd_blkindex c) in
       (0, Some \<lparr>ci_serial = cd_serial c, ci_type = cd_type c,
                ci_start_addr = cm_start_addr cm + cb_offset pblk,
                ci_start_phy = cm_start_phy cm + cb_offset pblk,
                ci_realsize = cd_realsize c, ci_flag = cd_flag c, ci_timestamp = cd_timestamp c,
                ci_ref_serial = cd_ref_serial c\<rparr>)
     else (CACHE_ERR, None))"

section \<open>Locking\<close>

definition set_cache :: "nat \<Rightarrow> (cache_data \<Rightarrow> cache_data) \<Rightarrow> cache_mng \<Rightarrow> cache_mng" where
  "set_cache i f cm = cm\<lparr>cm_cache := (cm_cache cm)[i := f (cm_cache cm ! i)]\<rparr>"

text \<open>Applies \<open>f\<close> to the blocks \<open>idx, .., idx + n - 1\<close>.\<close>

definition set_blks :: "int \<Rightarrow> int \<Rightarrow> (cache_blk \<Rightarrow> cache_blk) \<Rightarrow> cache_mng \<Rightarrow> cache_mng" where
  "set_blks idx n f cm = cm\<lparr>cm_blk := fold (\<lambda>k bs. bs[k := f (bs ! k)])
     (map (\<lambda>cnt. nat (idx + int cnt)) [0..<nat n]) (cm_blk cm)\<rparr>"

text \<open>\<open>CacheMng_cache_write\<close> on entry \<open>i\<close> for a frame of the store.\<close>

definition CacheMng_cache_write :: "nat \<Rightarrow> video_frame \<Rightarrow> channel \<Rightarrow> int \<times> channel" where
  "CacheMng_cache_write i f ch =
    (let cm1 = set_cache i (\<lambda>c. c\<lparr>cd_type := vf_type f, cd_serial := vf_serial f,
                 cd_realsize := vf_realsize f, cd_flag := vf_flag f, cd_timestamp := vf_timestamp f,
                 cd_ref_serial := vf_ref_serial f\<rparr>) (ch_cache ch);
         c = cm_cache cm1 ! i;
         cm2 = set_blks (cd_blkindex c) (cd_blks c) (CacheMng_blk_set (cd_serial c)) cm1;
         Des_Addr = cm_start_addr cm2 + cb_offset (cm_blk cm2 ! nat (cd_blkindex c));
         Src_Addr = vi_start (ch_video ch) + vi_blk_sz (ch_video ch) * vf_blkindex f;
         (r, m) = CacheMng_MemCpy Des_Addr Src_Addr (cd_realsize c) (ch_mem ch)
     in (if r < 0 then CACHE_PARM_ERR else 0, ch\<lparr>ch_cache := cm2, ch_mem := m\<rparr>))"

definition CacheMng_Video_CacheLock :: "int \<Rightarrow> channel \<Rightarrow> int \<times> channel" where
  "CacheMng_Video_CacheLock serial ch =
    (if serial < 0 then (CACHE_PARM_ERR, ch)
     else let cache_index = CacheMng_FindCacheBySerial serial ch in
       if cache_index \<ge> 0 then
         (0, ch\<lparr>ch_cache := set_cache (nat cache_index) (\<lambda>c. c\<lparr>cd_cnt := cd_cnt c + 1\<rparr>) (ch_cache ch)\<rparr>)
       else case MemMng_GetFrameBySerial serial (ch_video ch) of
         None \<Rightarrow> (CACHE_ERR, ch)
       | Some fi \<Rightarrow>
           let f = frame_at (ch_video ch) fi;
               blk_use = blocks_for (vf_realsize f) (cm_blk_sz (ch_cache ch));
               blk_index = CacheMng_Find_Freeblk (ch_cache ch) blk_use
           in if blk_index < 0 then (CACHE_NOMEM, ch)
              else let free_index = CacheMng_Find_FreeCache (ch_cache ch) in
                if free_index < 0 then (CACHE_NOMEM, ch)
                else
                  let ch1 = ch\<lparr>ch_cache := set_cache (nat free_index)
                        (\<lambda>c. c\<lparr>cd_blkindex := blk_index, cd_blks := blk_use, cd_cnt := 1\<rparr>) (ch_cache ch)\<rparr>;
                      (r, ch2) = CacheMng_cache_write (nat free_index) f ch1
                  in (if r < 0 then CACHE_PARM_ERR else 0, ch2))"

text \<open>Reading: status, and size, type and bytes.  The copy's own result is ignored by
  the code: a NULL destination stores nothing and still returns 0.\<close>

definition CacheMng_Video_CacheRead :: "bool \<Rightarrow> int \<Rightarrow> int \<Rightarrow> channel \<Rightarrow> int \<times> (int \<times> int \<times> byte list option) option" where
  "CacheMng_Video_CacheRead dest bufflimit serial ch =
    (if serial < 0 then (CACHE_PARM_ERR, None)
     else case CacheMng_GetCacheBySerial serial ch of
       None \<Rightarrow> (CACHE_PARM_ERR, None)
     | Some c \<Rightarrow>
         if cd_realsize c > bufflimit then (CACHE_MEM_FAIL, None)
         else
           let Src_Addr = cm_start_addr (ch_cache ch)
                 + cb_offset (cm_blk (ch_cache ch) ! nat (cd_blkindex c))
           in (0, Some (cd_realsize c, cd_type c,
                 if dest \<and> Src_Addr \<noteq> 0 then Some (mem_read Src_Addr (nat (cd_realsize c)) (ch_mem ch)) else None)))"

definition CacheMng_Video_CacheUnlock :: "int \<Rightarrow> channel \<Rightarrow> int \<times> channel" where
  "CacheMng_Video_CacheUnlock serial ch =
    (if serial < 0 then (CACHE_PARM_ERR, ch)
     else let cache_index = CacheMng_FindCacheBySerial serial ch in
       if cache_index < 0 then (CACHE_ERR, ch)
       else
         let i = nat cache_index;
             cm1 = set_cache i (\<lambda>c. c\<lparr>cd_cnt := cd_cnt c - 1\<rparr>) (ch_cache ch);
             c = cm_cache cm1 ! i
         in if cd_cnt c \<le> 0
            then (0, ch\<lparr>ch_cache := set_cache i CacheMng_cache_reset
                         (set_blks (cd_blkindex c) (cd_blks c) CacheMng_blk_unset cm1)\<rparr>)
            else (0, ch\<lparr>ch_cache := cm1\<rparr>))"

section \<open>Set-up\<close>

definition zero_cache :: cache_data where
  "zero_cache = \<lparr>cd_serial = 0, cd_type = 0, cd_blkindex = 0, cd_blks = 0, cd_realsize = 0, cd_cnt = 0,
     cd_flag = 0, cd_timestamp = 0, cd_ref_serial = replicate VIDOE_INFO_END 0\<rparr>"

definition zero_blk :: cache_blk where
  "zero_blk = \<lparr>cb_IsFree = 0, cb_offset = 0, cb_serial = 0\<rparr>"

text \<open>One channel of \<open>CacheMng_Init\<close>: the cache at the current offset, all entries
  and blocks reset.\<close>

definition place_cache :: "int \<Rightarrow> int \<Rightarrow> int \<Rightarrow> cache_mng \<Rightarrow> cache_mng" where
  "place_cache start_addr start_phy offset c =
    c\<lparr>cm_start_addr := start_addr + offset, cm_start_phy := start_phy + offset,
      cm_cache := replicate (nat (cm_cache_num c)) (CacheMng_cache_reset zero_cache),
      cm_blk := map (\<lambda>cnt2. CacheMng_blk_reset (int cnt2 * cm_blk_sz c) zero_blk) [0..<nat (cm_blk_num c)]\<rparr>"

text \<open>The loop over the channels: the flags \<open>IsCache\<close> and the caches; \<open>allocs\<close> tells
  whether the two arrays of a channel can be allocated (the cache record itself
  is used before it is checked and taken to be there).\<close>

fun place_caches :: "(nat \<Rightarrow> bool) \<Rightarrow> nat \<Rightarrow> int \<Rightarrow> int \<Rightarrow> int \<times> int \<Rightarrow> (video_blk_info \<times> cache_mng) list
    \<Rightarrow> int \<times> (video_blk_info \<times> cache_mng option) list \<times> int \<times> int" where
  "place_caches allocs cnt sa sp fo [] = (0, [], fo)"
| "place_caches allocs cnt sa sp (freesize, offset) ((v, c) # vcs) =
    (if cm_video_type c = vi_video_type v then
       let c1 = place_cache sa sp offset c; freesize1 = freesize - cm_size c; offset1 = offset + cm_size c in
       if freesize1 < 0 \<or> \<not> allocs cnt
       then (CACHE_PARM_ERR, [(v\<lparr>vi_IsCache := 1\<rparr>, Some c1)], freesize1, offset1)
       else let (st, rest, fo') = place_caches allocs (cnt + 1) sa sp (freesize1, offset1) vcs
            in (st, (v\<lparr>vi_IsCache := 1\<rparr>, Some c1) # rest, fo')
     else
       let (st, rest, fo') = place_caches allocs (cnt + 1) sa sp (freesize, offset) vcs
       in (st, (v\<lparr>vi_IsCache := 0\<rparr>, None) # rest, fo'))"

definition CacheMng_Init :: "(nat \<Rightarrow> bool) \<Rightarrow> cache_mng list \<Rightarrow> mem_mng_info
    \<Rightarrow> int \<times> mem_mng_info \<times> cache_mng option list" where
  "CacheMng_Init allocs defaults mm =
    (if mm_freesize mm \<le> 0 then (CACHE_NOMEM, mm, [])
     else let (st, vcs, freesize, offset) =
            place_caches allocs 0 (mm_start_addr mm) (mm_start_phyAddr mm) (mm_freesize mm, mm_offset mm)
              (zip (mm_video_info mm) defaults)
          in (st, mm\<lparr>mm_video_info := map fst vcs @ drop (length vcs) (mm_video_info mm),
                     mm_freesize := freesize, mm_offset := offset\<rparr>, map snd vcs))"

text \<open>The cache of the first channel that has one.\<close>

definition CacheMng_Get_BaseMem :: "mem_mng_info \<Rightarrow> cache_mng option list \<Rightarrow> cache_mng option" where
  "CacheMng_Get_BaseMem mm caches =
    (case List.find (\<lambda>cnt. vi_IsCache (mm_video_info mm ! cnt) \<noteq> 0) [0..<nat (mm_video_info_nums mm)] of
       None \<Rightarrow> None | Some cnt \<Rightarrow> caches ! cnt)"

definition CacheMng_Release :: "mem_mng_info \<Rightarrow> cache_mng option list \<Rightarrow> int \<times> cache_mng option list" where
  "CacheMng_Release mm caches =
    (0, map (\<lambda>(v, c). if vi_IsCache v \<noteq> 0 then None else c) (zip (mm_video_info mm) caches))"

end
