(* ===== verification/Cache_Inv.thy ===== *)
theory Cache_Inv
  imports Cache_Mng
begin

text \<open>The invariant of the frame cache, and what locking and unlocking do to it: the
  reference counts, the copied payloads and the blocks.\<close>

section \<open>Searches\<close>

lemma find_upt:
  "List.find P [0..<n] = Some i \<longleftrightarrow> i < n \<and> P i \<and> (\<forall>j<i. \<not> P j)"
  "List.find P [0..<n] = None \<longleftrightarrow> (\<forall>i<n. \<not> P i)"
proof -
  show "List.find P [0..<n] = None \<longleftrightarrow> (\<forall>i<n. \<not> P i)"
    by (simp add: find_None_iff)
  show "List.find P [0..<n] = Some i \<longleftrightarrow> i < n \<and> P i \<and> (\<forall>j<i. \<not> P j)"
  proof
    assume "List.find P [0..<n] = Some i"
    then obtain k where "k < n" "P ([0..<n] ! k)" "i = [0..<n] ! k" "\<forall>j<k. \<not> P ([0..<n] ! j)"
      by (auto simp: find_Some_iff)
    then show "i < n \<and> P i \<and> (\<forall>j<i. \<not> P j)" by simp
  next
    assume "i < n \<and> P i \<and> (\<forall>j<i. \<not> P j)"
    then show "List.find P [0..<n] = Some i"
      unfolding find_Some_iff by (intro exI [of _ i]) simp
  qed
qed

lemma first_index_cases:
  obtains (hit) i where "first_index P n = int i" "i < nat n" "P i" "\<forall>j<i. \<not> P j"
    | (miss) "first_index P n = CACHE_ERR" "\<forall>i < nat n. \<not> P i"
proof (cases "List.find P [0..<nat n]")
  case None
  with miss show thesis by (simp add: first_index_def find_upt)
next
  case (Some i)
  then have "i < nat n \<and> P i \<and> (\<forall>j<i. \<not> P j)" by (rule find_upt(1) [THEN iffD1])
  moreover have "first_index P n = int i" using Some by (simp add: first_index_def)
  ultimately show thesis using hit by blast
qed

lemma first_index_hit:
  assumes "0 \<le> first_index P n"
  shows "nat (first_index P n) < nat n" "P (nat (first_index P n))"
    "\<forall>j < nat (first_index P n). \<not> P j"
proof -
  obtain i where i: "first_index P n = int i" "i < nat n" "P i" "\<forall>j<i. \<not> P j"
  proof (cases rule: first_index_cases [of P n])
    case miss
    then have "first_index P n < 0" by (simp add: const_defs)
    with assms show thesis by simp
  qed
  then have "nat (first_index P n) = i" by simp
  with i(2-4) show "nat (first_index P n) < nat n" "P (nat (first_index P n))"
    "\<forall>j < nat (first_index P n). \<not> P j" by blast+
qed

lemma first_index_miss: "first_index P n < 0 \<longleftrightarrow> (\<forall>i < nat n. \<not> P i)"
proof (cases rule: first_index_cases [of P n])
  case (hit i)
  then have "\<not> first_index P n < 0" by simp
  with hit show ?thesis by blast
next
  case miss
  then have "first_index P n < 0" by (simp add: const_defs)
  with miss show ?thesis by blast
qed

lemma first_index_unique:
  assumes "i < nat n" "P i" "\<And>j. j < nat n \<Longrightarrow> P j \<Longrightarrow> j = i"
  shows "first_index P n = int i"
proof -
  have "\<forall>j<i. \<not> P j"
  proof (intro allI impI notI)
    fix j assume "j < i" "P j"
    with assms(1) have "j = i" by (intro assms(3)) simp_all
    with \<open>j < i\<close> show False by simp
  qed
  with assms(1,2) have "List.find P [0..<nat n] = Some i" unfolding find_upt by blast
  then show ?thesis by (simp add: first_index_def)
qed

text \<open>An unused cache.\<close>

definition zero_cm :: cache_mng where
  "zero_cm = \<lparr>cm_video_type = 0, cm_start_addr = 0, cm_start_phy = 0, cm_size = 0, cm_blk_sz = 4,
     cm_blk_num = 0, cm_cache_num = 0, cm_cache = [], cm_blk = []\<rparr>"

text \<open>First fit.  \<open>CacheMng_Find_Freeblk\<close> answers the lowest index at which
  \<open>blk_use\<close> free blocks follow each other inside the cache, and an error exactly
  when there is no such run.\<close>

theorem Find_Freeblk_first_fit:
  assumes "0 \<le> blk_use"
  shows "if \<exists>i. int i + blk_use \<le> cm_blk_num cm \<and> (\<forall>k < nat blk_use. cb_IsFree (cm_blk cm ! (i + k)) = 1)
    then 0 \<le> CacheMng_Find_Freeblk cm blk_use
      \<and> CacheMng_Find_Freeblk cm blk_use + blk_use \<le> cm_blk_num cm
      \<and> (\<forall>k < nat blk_use. cb_IsFree (cm_blk cm ! (nat (CacheMng_Find_Freeblk cm blk_use) + k)) = 1)
      \<and> (\<forall>i. int i < CacheMng_Find_Freeblk cm blk_use \<longrightarrow>
          \<not> (\<forall>k < nat blk_use. cb_IsFree (cm_blk cm ! (i + k)) = 1))
    else CacheMng_Find_Freeblk cm blk_use = CACHE_ERR"
proof -
  let ?P = "\<lambda>cnt. list_all (\<lambda>cnt2. cb_IsFree (cm_blk cm ! (cnt + cnt2)) = 1) [0..<nat blk_use]"
  let ?n = "cm_blk_num cm - blk_use + 1"
  have P: "?P i \<longleftrightarrow> (\<forall>k < nat blk_use. cb_IsFree (cm_blk cm ! (i + k)) = 1)" for i
    by (auto simp: list_all_iff)
  have inside: "i < nat ?n \<longleftrightarrow> int i + blk_use \<le> cm_blk_num cm" for i by linarith
  define fi where "fi = first_index ?P ?n"
  have fi: "CacheMng_Find_Freeblk cm blk_use = fi" by (simp add: fi_def CacheMng_Find_Freeblk_def)
  show ?thesis
  proof (cases "0 \<le> fi")
    case True
    have hit: "nat fi < nat ?n" "\<forall>k < nat blk_use. cb_IsFree (cm_blk cm ! (nat fi + k)) = 1"
      "\<forall>j < nat fi. \<not> (\<forall>k < nat blk_use. cb_IsFree (cm_blk cm ! (j + k)) = 1)"
      using first_index_hit [OF True [unfolded fi_def]] unfolding P fi_def by blast+
    have run: "fi + blk_use \<le> cm_blk_num cm" "int (nat fi) = fi" using hit(1) True by linarith+
    have "\<exists>i. int i + blk_use \<le> cm_blk_num cm \<and> (\<forall>k < nat blk_use. cb_IsFree (cm_blk cm ! (i + k)) = 1)"
      using hit(2) run by (intro exI [of _ "nat fi"]) simp
    moreover have "i < nat fi" if "int i < fi" for i using that by linarith
    ultimately show ?thesis
      using True hit(2,3) run(1) unfolding fi by simp
  next
    case False
    then have "\<forall>i < nat ?n. \<not> ?P i" by (simp add: first_index_miss [symmetric] fi_def)
    moreover have "fi = CACHE_ERR"
      using False by (auto simp: fi_def first_index_def split: option.splits)
    ultimately have "\<not> (\<exists>i. int i + blk_use \<le> cm_blk_num cm
        \<and> (\<forall>k < nat blk_use. cb_IsFree (cm_blk cm ! (i + k)) = 1))"
      unfolding P inside by blast
    then show ?thesis unfolding fi using \<open>fi = CACHE_ERR\<close> by (subst if_not_P)
  qed
qed

lemma Find_Freeblk_first_fit_witness:
  "CacheMng_Find_Freeblk (zero_cm\<lparr>cm_blk_num := 3, cm_blk := [zero_blk, CacheMng_blk_reset 4 zero_blk,
     CacheMng_blk_reset 8 zero_blk]\<rparr>) 2 = 1"
proof -
  let ?cm = "zero_cm\<lparr>cm_blk_num := 3, cm_blk := [zero_blk, CacheMng_blk_reset 4 zero_blk, CacheMng_blk_reset 8 zero_blk]\<rparr>"
  have two: "(\<forall>k < nat 2. P k) \<longleftrightarrow> P 0 \<and> P 1" for P :: "nat \<Rightarrow> bool"
    by (auto simp: less_Suc_eq numeral_2_eq_2)
  have hit: "\<exists>i. int i + 2 \<le> cm_blk_num ?cm \<and> (\<forall>k < nat 2. cb_IsFree (cm_blk ?cm ! (i + k)) = 1)"
    by (rule exI [of _ 1]) (auto simp: CacheMng_blk_reset_def less_2_cases_iff)
  let ?r = "CacheMng_Find_Freeblk ?cm 2"
  from Find_Freeblk_first_fit [of 2 ?cm] hit
  have r: "0 \<le> ?r" "?r + 2 \<le> 3" "\<forall>k < nat 2. cb_IsFree (cm_blk ?cm ! (nat ?r + k)) = 1" by simp_all
  have "cb_IsFree (cm_blk ?cm ! 0) = 0" by (simp add: zero_blk_def)
  with r(3) have "nat ?r \<noteq> 0" unfolding two by (metis add_0 zero_neq_one)
  with r(1,2) show ?thesis by linarith
qed

section \<open>Block updates\<close>

lemma fold_update_range:
  "fold (\<lambda>k bs. bs[k := f (bs ! k)]) (map (\<lambda>cnt. a + cnt) [0..<n]) xs
    = map (\<lambda>k. if a \<le> k \<and> k < a + n then f (xs ! k) else xs ! k) [0..<length xs]"
proof (induction n)
  case 0
  show ?case by (rule nth_equalityI) auto
next
  case (Suc n)
  show ?case
    by (rule nth_equalityI) (auto simp: Suc.IH nth_list_update less_Suc_eq)
qed

lemma set_blks_blk:
  assumes "0 \<le> idx"
  shows "cm_blk (set_blks idx n f cm)
    = map (\<lambda>k. if idx \<le> int k \<and> int k < idx + n then f (cm_blk cm ! k) else cm_blk cm ! k)
        [0..<length (cm_blk cm)]"
proof -
  have eq: "map (\<lambda>cnt. nat (idx + int cnt)) [0..<nat n] = map (\<lambda>cnt. nat idx + cnt) [0..<nat n]"
    using assms by (simp add: nat_add_distrib)
  have "cm_blk (set_blks idx n f cm) = fold (\<lambda>k bs. bs[k := f (bs ! k)])
      (map (\<lambda>cnt. nat idx + cnt) [0..<nat n]) (cm_blk cm)"
    unfolding set_blks_def eq by simp
  also have "\<dots> = map (\<lambda>k. if nat idx \<le> k \<and> k < nat idx + nat n then f (cm_blk cm ! k) else cm_blk cm ! k)
        [0..<length (cm_blk cm)]"
    by (rule fold_update_range)
  also have "\<dots> = map (\<lambda>k. if idx \<le> int k \<and> int k < idx + n then f (cm_blk cm ! k) else cm_blk cm ! k)
        [0..<length (cm_blk cm)]"
    using assms by (intro map_cong refl) auto
  finally show ?thesis .
qed

lemma set_blks_fields [simp]:
  "cm_cache (set_blks idx n f cm) = cm_cache cm" "cm_start_addr (set_blks idx n f cm) = cm_start_addr cm"
  "cm_blk_sz (set_blks idx n f cm) = cm_blk_sz cm" "cm_blk_num (set_blks idx n f cm) = cm_blk_num cm"
  "cm_cache_num (set_blks idx n f cm) = cm_cache_num cm"
  by (simp_all add: set_blks_def)

lemma set_cache_fields [simp]:
  "cm_blk (set_cache i f cm) = cm_blk cm" "cm_start_addr (set_cache i f cm) = cm_start_addr cm"
  "cm_blk_sz (set_cache i f cm) = cm_blk_sz cm" "cm_blk_num (set_cache i f cm) = cm_blk_num cm"
  "cm_cache_num (set_cache i f cm) = cm_cache_num cm"
  "length (cm_cache (set_cache i f cm)) = length (cm_cache cm)"
  by (simp_all add: set_cache_def)

lemma set_cache_nth:
  "j < length (cm_cache cm) \<Longrightarrow>
    cm_cache (set_cache i f cm) ! j = (if j = i then f (cm_cache cm ! i) else cm_cache cm ! j)"
  by (simp add: set_cache_def nth_list_update)

section \<open>Invariant\<close>

text \<open>What a reset leaves.\<close>

definition empty_entry :: cache_data where
  "empty_entry = CacheMng_cache_reset zero_cache"

lemma cache_reset_const [simp]: "CacheMng_cache_reset c = empty_entry"
  by (cases c) (simp add: CacheMng_cache_reset_def empty_entry_def zero_cache_def)

lemma empty_entry_fields [simp]:
  "cd_type empty_entry = EMPTY_CACHE" "cd_serial empty_entry = -1"
  unfolding empty_entry_def CacheMng_cache_reset_def by simp_all

definition used :: "cache_data \<Rightarrow> bool" where
  "used c \<longleftrightarrow> cd_type c \<noteq> EMPTY_CACHE"

definition owns :: "cache_data \<Rightarrow> nat \<Rightarrow> bool" where
  "owns c k \<longleftrightarrow> cd_blkindex c \<le> int k \<and> int k < cd_blkindex c + cd_blks c"

definition entry_ok :: "int \<Rightarrow> cache_mng \<Rightarrow> cache_data \<Rightarrow> bool" where
  "entry_ok cur cm c \<longleftrightarrow> 1 \<le> cd_cnt c \<and> 0 \<le> cd_serial c \<and> cd_serial c \<le> cur
     \<and> 1 \<le> cd_blks c \<and> 0 \<le> cd_blkindex c \<and> cd_blkindex c + cd_blks c \<le> cm_blk_num cm
     \<and> 0 < cd_realsize c \<and> cd_realsize c \<le> cd_blks c * cm_blk_sz cm
     \<and> (\<forall>k. owns c k \<longrightarrow> cb_IsFree (cm_blk cm ! k) = 0 \<and> cb_serial (cm_blk cm ! k) = cd_serial c)"

definition owned :: "cache_mng \<Rightarrow> nat \<Rightarrow> bool" where
  "owned cm k \<longleftrightarrow> (\<exists>i < length (cm_cache cm). used (cm_cache cm ! i) \<and> owns (cm_cache cm ! i) k)"

definition cache_ok :: "int \<Rightarrow> cache_mng \<Rightarrow> bool" where
  "cache_ok cur cm \<longleftrightarrow> 0 < cm_blk_sz cm \<and> 0 \<le> cm_blk_num cm \<and> 0 \<le> cm_cache_num cm
     \<and> length (cm_cache cm) = nat (cm_cache_num cm) \<and> length (cm_blk cm) = nat (cm_blk_num cm)
     \<and> (\<forall>k < length (cm_blk cm). cb_offset (cm_blk cm ! k) = int k * cm_blk_sz cm
          \<and> (cb_IsFree (cm_blk cm ! k) = 1 \<and> cb_serial (cm_blk cm ! k) = -1
             \<or> cb_IsFree (cm_blk cm ! k) = 0 \<and> owned cm k))
     \<and> (\<forall>i < length (cm_cache cm). cm_cache cm ! i = empty_entry
          \<or> used (cm_cache cm ! i) \<and> entry_ok cur cm (cm_cache cm ! i))
     \<and> (\<forall>i < length (cm_cache cm). \<forall>j < length (cm_cache cm).
          used (cm_cache cm ! i) \<and> used (cm_cache cm ! j)
          \<and> cd_serial (cm_cache cm ! i) = cd_serial (cm_cache cm ! j) \<longrightarrow> i = j)"

lemma cache_ok_geom:
  assumes "cache_ok cur cm"
  shows "0 < cm_blk_sz cm" "0 \<le> cm_blk_num cm" "0 \<le> cm_cache_num cm"
    "length (cm_cache cm) = nat (cm_cache_num cm)" "length (cm_blk cm) = nat (cm_blk_num cm)"
  using assms by (simp_all add: cache_ok_def)

lemma cache_ok_blk:
  assumes "cache_ok cur cm" "k < length (cm_blk cm)"
  shows "cb_offset (cm_blk cm ! k) = int k * cm_blk_sz cm"
    "cb_IsFree (cm_blk cm ! k) = 1 \<and> cb_serial (cm_blk cm ! k) = -1
     \<or> cb_IsFree (cm_blk cm ! k) = 0 \<and> owned cm k"
  using assms unfolding cache_ok_def by blast+

lemma cache_ok_entry:
  assumes "cache_ok cur cm" "i < length (cm_cache cm)"
  shows "cm_cache cm ! i = empty_entry \<or> used (cm_cache cm ! i) \<and> entry_ok cur cm (cm_cache cm ! i)"
  using assms unfolding cache_ok_def by blast

lemma cache_ok_inj:
  assumes "cache_ok cur cm" "i < length (cm_cache cm)" "j < length (cm_cache cm)"
    and "used (cm_cache cm ! i)" "used (cm_cache cm ! j)"
    and "cd_serial (cm_cache cm ! i) = cd_serial (cm_cache cm ! j)"
  shows "i = j"
  using assms unfolding cache_ok_def by blast

text \<open>The entry of a serial number and its reference count.\<close>

definition entry :: "cache_mng \<Rightarrow> int \<Rightarrow> cache_data option" where
  "entry cm s = List.find (\<lambda>c. used c \<and> cd_serial c = s) (cm_cache cm)"

definition lock_count :: "cache_mng \<Rightarrow> int \<Rightarrow> int" where
  "lock_count cm s = (case entry cm s of None \<Rightarrow> 0 | Some c \<Rightarrow> cd_cnt c)"

lemma used_empty [simp]: "\<not> used empty_entry"
  by (simp add: used_def)

lemma entry_at:
  assumes "cache_ok cur cm" "i < length (cm_cache cm)" "used (cm_cache cm ! i)"
  shows "entry cm (cd_serial (cm_cache cm ! i)) = Some (cm_cache cm ! i)"
proof -
  have "\<not> (used (cm_cache cm ! j) \<and> cd_serial (cm_cache cm ! j) = cd_serial (cm_cache cm ! i))" if "j < i" for j
  proof
    assume j: "used (cm_cache cm ! j) \<and> cd_serial (cm_cache cm ! j) = cd_serial (cm_cache cm ! i)"
    have "j < length (cm_cache cm)" using that assms(2) by simp
    with j assms have "j = i" unfolding cache_ok_def by blast
    with that show False by simp
  qed
  with assms(2,3) show ?thesis
    unfolding entry_def find_Some_iff by (intro exI [of _ i]) simp
qed

lemma entry_Some:
  assumes "entry cm s = Some c"
  obtains i where "i < length (cm_cache cm)" "cm_cache cm ! i = c" "used c" "cd_serial c = s"
  using assms by (auto simp: entry_def find_Some_iff)

lemma entry_None: "entry cm s = None \<longleftrightarrow> (\<forall>i < length (cm_cache cm). used (cm_cache cm ! i) \<longrightarrow> cd_serial (cm_cache cm ! i) \<noteq> s)"
  unfolding entry_def find_None_iff by (auto simp: in_set_conv_nth)

lemma entry_index:
  assumes ok: "cache_ok cur cm" and c: "entry cm s = Some c"
  obtains i where "i < length (cm_cache cm)" "cm_cache cm ! i = c" "used c" "cd_serial c = s"
    "entry_ok cur cm c" "first_index (holds_serial cm s) (cm_cache_num cm) = int i"
proof -
  from c obtain i where i: "i < length (cm_cache cm)" "cm_cache cm ! i = c" "used c" "cd_serial c = s"
    by (rule entry_Some)
  have "first_index (holds_serial cm s) (cm_cache_num cm) = int i"
  proof (rule first_index_unique)
    show "i < nat (cm_cache_num cm)" "holds_serial cm s i"
      using ok i by (auto simp: cache_ok_def holds_serial_def used_def)
    show "j = i" if "j < nat (cm_cache_num cm)" "holds_serial cm s j" for j
      using that i ok by (auto simp: cache_ok_def holds_serial_def used_def)
  qed
  moreover have "entry_ok cur cm c" using ok i by (auto simp: cache_ok_def)
  ultimately show thesis using i that by blast
qed

lemma entry_serial_le:
  assumes "cache_ok cur cm" "entry cm s = Some c"
  shows "0 \<le> s" "s \<le> cur"
  using entry_index [OF assms] by (auto simp: entry_ok_def)

lemma FindCache_hit:
  assumes "cache_ok (vi_cur_serial (ch_video ch)) (ch_cache ch)" "entry (ch_cache ch) s = Some c"
  obtains i where "i < length (cm_cache (ch_cache ch))" "cm_cache (ch_cache ch) ! i = c" "used c" "cd_serial c = s"
    "entry_ok (vi_cur_serial (ch_video ch)) (ch_cache ch) c" "CacheMng_FindCacheBySerial s ch = int i"
  using entry_index [OF assms] entry_serial_le [OF assms]
  by (auto simp: CacheMng_FindCacheBySerial_def)

lemma FindCache_miss:
  assumes "cache_ok (vi_cur_serial (ch_video ch)) (ch_cache ch)" "entry (ch_cache ch) s = None"
  shows "CacheMng_FindCacheBySerial s ch < 0"
proof -
  have "\<not> holds_serial (ch_cache ch) s i" if "i < nat (cm_cache_num (ch_cache ch))" for i
    using that assms unfolding entry_None by (auto simp: holds_serial_def used_def cache_ok_def)
  then have "first_index (holds_serial (ch_cache ch) s) (cm_cache_num (ch_cache ch)) < 0"
    by (simp add: first_index_miss)
  then show ?thesis by (simp add: CacheMng_FindCacheBySerial_def const_defs)
qed

lemma entry_iff:
  assumes "cache_ok cur cm"
  shows "entry cm s = Some c \<longleftrightarrow>
    (\<exists>i < length (cm_cache cm). cm_cache cm ! i = c \<and> used c \<and> cd_serial c = s)"
  using entry_at [OF assms] entry_Some [of cm s c] by metis

lemma entry_eqI:
  assumes "cache_ok cur cm"
    and "\<And>c. (\<exists>i < length (cm_cache cm). cm_cache cm ! i = c \<and> used c \<and> cd_serial c = s) \<longleftrightarrow> e = Some c"
  shows "entry cm s = e"
  using entry_iff [OF assms(1), of s] assms(2) by (metis option.exhaust)

section \<open>Counting\<close>

lemma set_cnt_ok:
  assumes ok: "cache_ok cur cm" and i: "i < length (cm_cache cm)" "used (cm_cache cm ! i)" and x: "1 \<le> x"
  shows "cache_ok cur (set_cache i (\<lambda>c. c\<lparr>cd_cnt := x\<rparr>) cm)" (is "cache_ok cur ?cm")
proof -
  let ?c = "(cm_cache cm ! i)\<lparr>cd_cnt := x\<rparr>"
  have nth: "cm_cache ?cm ! j = (if j = i then ?c else cm_cache cm ! j)" if "j < length (cm_cache cm)" for j
    using that by (rule set_cache_nth)
  have fields: "used ?c = used (cm_cache cm ! i)" "owns ?c = owns (cm_cache cm ! i)"
    "cd_serial ?c = cd_serial (cm_cache cm ! i)"
    by (auto simp: used_def owns_def fun_eq_iff)
  have entry_ok_i: "entry_ok cur ?cm ?c" and others: "\<And>d. entry_ok cur ?cm d = entry_ok cur cm d"
    using ok i x by (auto simp: cache_ok_def entry_ok_def owns_def)
  have owned: "owned ?cm k = owned cm k" for k
    unfolding owned_def using nth fields(1,2) by (metis set_cache_fields(6))
  show ?thesis
    unfolding cache_ok_def
  proof (intro conjI allI impI)
    fix k assume "k < length (cm_blk ?cm)"
    then show "cb_offset (cm_blk ?cm ! k) = int k * cm_blk_sz ?cm"
      "cb_IsFree (cm_blk ?cm ! k) = 1 \<and> cb_serial (cm_blk ?cm ! k) = -1
        \<or> cb_IsFree (cm_blk ?cm ! k) = 0 \<and> owned ?cm k"
      using cache_ok_blk [OF ok, of k] unfolding owned by simp_all
  next
    fix j assume "j < length (cm_cache ?cm)"
    then show "cm_cache ?cm ! j = empty_entry \<or> used (cm_cache ?cm ! j) \<and> entry_ok cur ?cm (cm_cache ?cm ! j)"
      using cache_ok_entry [OF ok, of j] i entry_ok_i fields(1) nth [of j] unfolding others by auto
  next
    fix j k assume jk: "j < length (cm_cache ?cm)" "k < length (cm_cache ?cm)"
      "used (cm_cache ?cm ! j) \<and> used (cm_cache ?cm ! k)
        \<and> cd_serial (cm_cache ?cm ! j) = cd_serial (cm_cache ?cm ! k)"
    have same: "used (cm_cache ?cm ! l) = used (cm_cache cm ! l)"
        "cd_serial (cm_cache ?cm ! l) = cd_serial (cm_cache cm ! l)" if "l < length (cm_cache ?cm)" for l
      using nth [of l] that fields by simp_all
    show "j = k"
      using jk same [OF jk(1)] same [OF jk(2)] by (intro cache_ok_inj [OF ok]) simp_all
  qed (use cache_ok_geom [OF ok] in simp_all)
qed

lemma set_cnt_entry:
  assumes ok: "cache_ok cur cm" and i: "i < length (cm_cache cm)" "used (cm_cache cm ! i)" and x: "1 \<le> x"
  shows "entry (set_cache i (\<lambda>c. c\<lparr>cd_cnt := x\<rparr>) cm) s
    = (if s = cd_serial (cm_cache cm ! i) then Some ((cm_cache cm ! i)\<lparr>cd_cnt := x\<rparr>) else entry cm s)"
proof (rule entry_eqI [OF set_cnt_ok [OF assms]])
  fix c
  let ?cm = "set_cache i (\<lambda>c. c\<lparr>cd_cnt := x\<rparr>) cm"
  let ?c = "(cm_cache cm ! i)\<lparr>cd_cnt := x\<rparr>"
  have nth: "cm_cache ?cm ! j = (if j = i then ?c else cm_cache cm ! j)" if "j < length (cm_cache cm)" for j
    using that by (rule set_cache_nth)
  have uniq: "j = i" if "j < length (cm_cache cm)" "used (cm_cache cm ! j)"
      "cd_serial (cm_cache cm ! j) = cd_serial (cm_cache cm ! i)" for j
    using ok i that unfolding cache_ok_def by blast
  have "used ?c" "cd_serial ?c = cd_serial (cm_cache cm ! i)" using i(2) by (simp_all add: used_def)
  then have at_i: "cm_cache ?cm ! i = c \<and> used c \<and> cd_serial c = s \<longleftrightarrow> c = ?c \<and> s = cd_serial (cm_cache cm ! i)"
    using nth [OF i(1)] by auto
  show "(\<exists>j < length (cm_cache ?cm). cm_cache ?cm ! j = c \<and> used c \<and> cd_serial c = s)
    \<longleftrightarrow> (if s = cd_serial (cm_cache cm ! i) then Some ?c else entry cm s) = Some c"
  proof (cases "s = cd_serial (cm_cache cm ! i)")
    case True
    have "\<not> (cm_cache ?cm ! j = c \<and> used c \<and> cd_serial c = s)" if "j < length (cm_cache cm)" "j \<noteq> i" for j
      using that nth uniq True by metis
    then have "(\<exists>j < length (cm_cache ?cm). cm_cache ?cm ! j = c \<and> used c \<and> cd_serial c = s) \<longleftrightarrow> c = ?c"
      using at_i i(1) True by (metis set_cache_fields(6))
    with True show ?thesis by auto
  next
    case False
    then have "(\<exists>j < length (cm_cache ?cm). cm_cache ?cm ! j = c \<and> used c \<and> cd_serial c = s)
      \<longleftrightarrow> (\<exists>j < length (cm_cache cm). cm_cache cm ! j = c \<and> used c \<and> cd_serial c = s)"
      using at_i nth by (metis set_cache_fields(6))
    with False entry_iff [OF ok, of s c] show ?thesis by simp
  qed
qed

section \<open>Taking and giving back blocks\<close>

text \<open>A cache in which entry \<open>i\<close> is replaced and blocks change.\<close>

definition with_entry :: "nat \<Rightarrow> cache_data \<Rightarrow> cache_blk list \<Rightarrow> cache_mng \<Rightarrow> cache_mng" where
  "with_entry i c bs cm = cm\<lparr>cm_cache := (cm_cache cm)[i := c], cm_blk := bs\<rparr>"

lemma with_entry_fields [simp]:
  "cm_blk (with_entry i c bs cm) = bs" "cm_start_addr (with_entry i c bs cm) = cm_start_addr cm"
  "cm_blk_sz (with_entry i c bs cm) = cm_blk_sz cm" "cm_blk_num (with_entry i c bs cm) = cm_blk_num cm"
  "cm_cache_num (with_entry i c bs cm) = cm_cache_num cm"
  "length (cm_cache (with_entry i c bs cm)) = length (cm_cache cm)"
  by (simp_all add: with_entry_def)

lemma with_entry_nth:
  "j < length (cm_cache cm) \<Longrightarrow> cm_cache (with_entry i c bs cm) ! j = (if j = i then c else cm_cache cm ! j)"
  by (simp add: with_entry_def nth_list_update)

text \<open>Entries other than \<open>i\<close> keep their serials, so searches for them do not change.\<close>

lemma with_entry_entry:
  assumes ok: "cache_ok cur cm" and ok': "cache_ok cur (with_entry i c bs cm)" and i: "i < length (cm_cache cm)"
    and old: "used (cm_cache cm ! i) \<Longrightarrow> s \<noteq> cd_serial (cm_cache cm ! i)"
    and new: "used c \<Longrightarrow> s \<noteq> cd_serial c"
  shows "entry (with_entry i c bs cm) s = entry cm s"
proof (rule entry_eqI [OF ok'])
  fix d
  let ?cm = "with_entry i c bs cm"
  have "cm_cache ?cm ! j = d \<and> used d \<and> cd_serial d = s \<longleftrightarrow> cm_cache cm ! j = d \<and> used d \<and> cd_serial d = s"
    if "j < length (cm_cache cm)" for j
    using with_entry_nth [OF that, of i c bs] old new by (cases "j = i") auto
  then show "(\<exists>j < length (cm_cache ?cm). cm_cache ?cm ! j = d \<and> used d \<and> cd_serial d = s) \<longleftrightarrow> entry cm s = Some d"
    unfolding entry_iff [OF ok] by (metis with_entry_fields(6))
qed

text \<open>Blocks \<open>owned\<close> by distinct used entries are distinct.\<close>

lemma owns_apart:
  assumes ok: "cache_ok cur cm" and "i < length (cm_cache cm)" "j < length (cm_cache cm)" "i \<noteq> j"
    and "used (cm_cache cm ! i)" "used (cm_cache cm ! j)" "owns (cm_cache cm ! i) k"
  shows "\<not> owns (cm_cache cm ! j) k"
proof
  assume "owns (cm_cache cm ! j) k"
  moreover have "entry_ok cur cm (cm_cache cm ! i)" "entry_ok cur cm (cm_cache cm ! j)"
    using assms cache_ok_entry [OF ok] by (metis used_empty)+
  ultimately have "cd_serial (cm_cache cm ! i) = cd_serial (cm_cache cm ! j)"
    using assms(7) unfolding entry_ok_def by metis
  with assms show False using cache_ok_inj [OF ok] by blast
qed

definition release_blks :: "cache_data \<Rightarrow> cache_mng \<Rightarrow> cache_blk list" where
  "release_blks c cm = map (\<lambda>k. if owns c k then CacheMng_blk_unset (cm_blk cm ! k) else cm_blk cm ! k)
     [0..<length (cm_blk cm)]"

lemma release_ok:
  assumes ok: "cache_ok cur cm" and i: "i < length (cm_cache cm)" "used (cm_cache cm ! i)"
  shows "cache_ok cur (with_entry i empty_entry (release_blks (cm_cache cm ! i) cm) cm)" (is "cache_ok cur ?cm")
proof -
  let ?c = "cm_cache cm ! i"
  have nth: "cm_cache ?cm ! j = (if j = i then empty_entry else cm_cache cm ! j)" if "j < length (cm_cache cm)" for j
    using that by (rule with_entry_nth)
  have blk: "cm_blk ?cm ! k = (if owns ?c k then CacheMng_blk_unset (cm_blk cm ! k) else cm_blk cm ! k)"
    if "k < length (cm_blk cm)" for k
    using that by (simp add: release_blks_def)
  have len: "length (cm_blk ?cm) = length (cm_blk cm)" by (simp add: release_blks_def)
  show ?thesis
    unfolding cache_ok_def
  proof (intro conjI allI impI)
    fix k assume "k < length (cm_blk ?cm)"
    then have k: "k < length (cm_blk cm)" using len by simp
    note b = cache_ok_blk [OF ok k]
    show "cb_offset (cm_blk ?cm ! k) = int k * cm_blk_sz ?cm"
      using b(1) blk [OF k] by (simp add: CacheMng_blk_unset_def)
    show "cb_IsFree (cm_blk ?cm ! k) = 1 \<and> cb_serial (cm_blk ?cm ! k) = -1
        \<or> cb_IsFree (cm_blk ?cm ! k) = 0 \<and> owned ?cm k"
    proof (cases "owns ?c k")
      case True
      then show ?thesis using blk [OF k] by (simp add: CacheMng_blk_unset_def)
    next
      case False
      have "owned ?cm k" if "owned cm k"
        using that False nth unfolding owned_def by (metis with_entry_fields(6))
      with False b(2) blk [OF k] show ?thesis by auto
    qed
  next
    fix j assume "j < length (cm_cache ?cm)"
    then have j: "j < length (cm_cache cm)" by simp
    show "cm_cache ?cm ! j = empty_entry \<or> used (cm_cache ?cm ! j) \<and> entry_ok cur ?cm (cm_cache ?cm ! j)"
    proof (cases "j = i \<or> cm_cache cm ! j = empty_entry")
      case True
      then show ?thesis using nth [OF j] by auto
    next
      case False
      then have e: "used (cm_cache cm ! j)" "entry_ok cur cm (cm_cache cm ! j)"
        using cache_ok_entry [OF ok j] by auto
      have "\<not> owns ?c k" if "owns (cm_cache cm ! j) k" for k
        using owns_apart [OF ok j i(1) _ e(1) i(2) that] False by blast
      moreover have "k < length (cm_blk cm)" if "owns (cm_cache cm ! j) k" for k
        using that e(2) cache_ok_geom [OF ok] by (auto simp: owns_def entry_ok_def)
      ultimately have "entry_ok cur ?cm (cm_cache cm ! j)"
        using e(2) blk unfolding entry_ok_def by simp
      with False e(1) nth [OF j] show ?thesis by simp
    qed
  next
    fix j k assume jk: "j < length (cm_cache ?cm)" "k < length (cm_cache ?cm)"
      "used (cm_cache ?cm ! j) \<and> used (cm_cache ?cm ! k)
        \<and> cd_serial (cm_cache ?cm ! j) = cd_serial (cm_cache ?cm ! k)"
    then have "cm_cache ?cm ! j = cm_cache cm ! j" "cm_cache ?cm ! k = cm_cache cm ! k"
      using nth [of j] nth [of k] by (auto split: if_splits)
    with jk show "j = k" by (intro cache_ok_inj [OF ok]) simp_all
  qed (use cache_ok_geom [OF ok] len in simp_all)
qed

lemma release_entry:
  assumes ok: "cache_ok cur cm" and i: "i < length (cm_cache cm)" "used (cm_cache cm ! i)"
  shows "entry (with_entry i empty_entry (release_blks (cm_cache cm ! i) cm) cm) s
    = (if s = cd_serial (cm_cache cm ! i) then None else entry cm s)"
proof (cases "s = cd_serial (cm_cache cm ! i)")
  case True
  have "\<not> (used (cm_cache cm ! j) \<and> cd_serial (cm_cache cm ! j) = s)" if "j < length (cm_cache cm)" "j \<noteq> i" for j
    using cache_ok_inj [OF ok that(1) i(1) _ i(2)] that(2) True by blast
  then show ?thesis
    using True unfolding entry_None
    by (simp add: entry_None with_entry_nth)
next
  case False
  then show ?thesis using with_entry_entry [OF ok release_ok [OF assms] i(1)] by simp
qed

definition acquire_blks :: "cache_data \<Rightarrow> cache_mng \<Rightarrow> cache_blk list" where
  "acquire_blks c cm = map (\<lambda>k. if owns c k then CacheMng_blk_set (cd_serial c) (cm_blk cm ! k) else cm_blk cm ! k)
     [0..<length (cm_blk cm)]"

lemma acquire_ok:
  assumes ok: "cache_ok cur cm" and i: "i < length (cm_cache cm)" "cm_cache cm ! i = empty_entry"
    and c: "used c" "1 \<le> cd_cnt c" "0 \<le> cd_serial c" "cd_serial c \<le> cur" "1 \<le> cd_blks c" "0 \<le> cd_blkindex c"
      "cd_blkindex c + cd_blks c \<le> cm_blk_num cm" "0 < cd_realsize c" "cd_realsize c \<le> cd_blks c * cm_blk_sz cm"
    and free: "\<And>k. owns c k \<Longrightarrow> cb_IsFree (cm_blk cm ! k) = 1"
    and fresh_serial: "entry cm (cd_serial c) = None"
  shows "cache_ok cur (with_entry i c (acquire_blks c cm) cm)" (is "cache_ok cur ?cm")
proof -
  have nth: "cm_cache ?cm ! j = (if j = i then c else cm_cache cm ! j)" if "j < length (cm_cache cm)" for j
    using that by (rule with_entry_nth)
  have len: "length (cm_blk ?cm) = length (cm_blk cm)" by (simp add: acquire_blks_def)
  have blk: "cm_blk ?cm ! k = (if owns c k then CacheMng_blk_set (cd_serial c) (cm_blk cm ! k) else cm_blk cm ! k)"
    if "k < length (cm_blk cm)" for k
    using that by (simp add: acquire_blks_def)
  have inside: "k < length (cm_blk cm)" if "owns c k" for k
    using that c cache_ok_geom [OF ok] by (auto simp: owns_def)
  show ?thesis
    unfolding cache_ok_def
  proof (intro conjI allI impI)
    fix k assume "k < length (cm_blk ?cm)"
    then have k: "k < length (cm_blk cm)" using len by simp
    note b = cache_ok_blk [OF ok k]
    show "cb_offset (cm_blk ?cm ! k) = int k * cm_blk_sz ?cm"
      using b(1) blk [OF k] by (simp add: CacheMng_blk_set_def)
    show "cb_IsFree (cm_blk ?cm ! k) = 1 \<and> cb_serial (cm_blk ?cm ! k) = -1
        \<or> cb_IsFree (cm_blk ?cm ! k) = 0 \<and> owned ?cm k"
    proof (cases "owns c k")
      case True
      then have "owned ?cm k" unfolding owned_def using nth [OF i(1)] i(1) c(1) by (intro exI [of _ i]) simp
      with True show ?thesis using blk [OF k] by (simp add: CacheMng_blk_set_def)
    next
      case False
      have "owned ?cm k" if "owned cm k"
        using that i nth unfolding owned_def by (metis used_empty with_entry_fields(6))
      with False b(2) blk [OF k] show ?thesis by auto
    qed
  next
    fix j assume "j < length (cm_cache ?cm)"
    then have j: "j < length (cm_cache cm)" by simp
    show "cm_cache ?cm ! j = empty_entry \<or> used (cm_cache ?cm ! j) \<and> entry_ok cur ?cm (cm_cache ?cm ! j)"
    proof (cases "j = i")
      case True
      have "entry_ok cur ?cm c"
        using c blk inside by (auto simp: entry_ok_def CacheMng_blk_set_def)
      with True c(1) nth [OF j] show ?thesis by simp
    next
      case False
      have "entry_ok cur ?cm (cm_cache cm ! j)" if e: "entry_ok cur cm (cm_cache cm ! j)"
      proof -
        have "\<not> owns c k" "k < length (cm_blk cm)" if "owns (cm_cache cm ! j) k" for k
          using that e free [of k] cache_ok_geom [OF ok] by (auto simp: entry_ok_def owns_def)
        with e blk show ?thesis unfolding entry_ok_def by simp
      qed
      with False cache_ok_entry [OF ok j] nth [OF j] show ?thesis by auto
    qed
  next
    fix j k assume jk: "j < length (cm_cache ?cm)" "k < length (cm_cache ?cm)"
      "used (cm_cache ?cm ! j) \<and> used (cm_cache ?cm ! k)
        \<and> cd_serial (cm_cache ?cm ! j) = cd_serial (cm_cache ?cm ! k)"
    have none: "cd_serial (cm_cache cm ! l) \<noteq> cd_serial c" if "l < length (cm_cache cm)" "used (cm_cache cm ! l)" for l
      using that fresh_serial unfolding entry_None by blast
    have at_i: "cm_cache ?cm ! i = c" using nth [OF i(1)] by simp
    have other: "l \<noteq> i \<Longrightarrow> l < length (cm_cache cm) \<Longrightarrow> cm_cache ?cm ! l = cm_cache cm ! l" for l
      using nth [of l] by simp
    consider "j = k" | "j = i" "k \<noteq> i" | "j \<noteq> i" "k = i" | "j \<noteq> i" "k \<noteq> i" by blast
    then show "j = k"
    proof cases
      case 2
      with jk none [of k] at_i other [of k] show ?thesis by simp
    next
      case 3
      with jk none [of j] at_i other [of j] show ?thesis by simp
    next
      case 4
      with jk other show ?thesis by (intro cache_ok_inj [OF ok]) simp_all
    qed
  qed (use cache_ok_geom [OF ok] len in simp_all)
qed

lemma acquire_entry:
  assumes ok': "cache_ok cur (with_entry i c bs cm)" and ok: "cache_ok cur cm"
    and i: "i < length (cm_cache cm)" "cm_cache cm ! i = empty_entry" and c: "used c"
  shows "entry (with_entry i c bs cm) s = (if s = cd_serial c then Some c else entry cm s)"
proof (cases "s = cd_serial c")
  case True
  have "cm_cache (with_entry i c bs cm) ! i = c" using with_entry_nth [OF i(1)] by simp
  with True c i(1) show ?thesis using entry_iff [OF ok', of s c] by auto
next
  case False
  then show ?thesis using with_entry_entry [OF ok ok' i(1)] i(2) by simp
qed

end
