(* ===== verification/Cache_Lock.thy ===== *)
theory Cache_Lock
  imports Cache_Inv
begin

text \<open>Locking, reading and unlocking a channel's cache: the operations keep the
  invariant of the channel, count their clients, undo each other, and a locked
  payload stays what it was when it was locked.\<close>

section \<open>Channels\<close>

text \<open>The blocks of the store, its extra data and the cache do not overlap.\<close>

definition channel_cfg :: "video_blk_info \<Rightarrow> cache_mng \<Rightarrow> bool" where
  "channel_cfg v cm \<longleftrightarrow> 0 < vi_start v \<and> 0 < cm_start_addr cm
     \<and> (vi_start v + vi_blk_num v * vi_blk_sz v \<le> cm_start_addr cm
        \<or> cm_start_addr cm + cm_blk_num cm * cm_blk_sz cm \<le> vi_start v)
     \<and> (vi_extradata v = 0 \<or> vi_extrasize v = 0
        \<or> vi_extradata v + vi_extrasize v \<le> cm_start_addr cm
        \<or> cm_start_addr cm + cm_blk_num cm * cm_blk_sz cm \<le> vi_extradata v)"

definition channel_ok :: "channel \<Rightarrow> bool" where
  "channel_ok ch \<longleftrightarrow> store_ok (ch_video ch) \<and> settled (ch_video ch)
     \<and> cache_ok (vi_cur_serial (ch_video ch)) (ch_cache ch) \<and> channel_cfg (ch_video ch) (ch_cache ch)"

definition cache_addr :: "cache_mng \<Rightarrow> cache_data \<Rightarrow> int" where
  "cache_addr cm c = cm_start_addr cm + cd_blkindex c * cm_blk_sz cm"

text \<open>Type and payload held for a serial.\<close>

definition cached :: "channel \<Rightarrow> int \<Rightarrow> (int \<times> byte list) option" where
  "cached ch s = map_option (\<lambda>c. (cd_type c, mem_read (cache_addr (ch_cache ch) c) (nat (cd_realsize c)) (ch_mem ch)))
     (entry (ch_cache ch) s)"

lemma set_blks_eq:
  assumes "0 \<le> idx"
  shows "set_blks idx n f cm = cm\<lparr>cm_blk := map (\<lambda>k. if idx \<le> int k \<and> int k < idx + n
    then f (cm_blk cm ! k) else cm_blk cm ! k) [0..<length (cm_blk cm)]\<rparr>"
proof -
  have "set_blks idx n f cm = cm\<lparr>cm_blk := cm_blk (set_blks idx n f cm)\<rparr>"
    by (simp add: set_blks_def)
  then show ?thesis by (simp only: set_blks_blk [OF assms])
qed

lemma cache_extent:
  assumes "entry_ok cur cm c" "0 < cm_blk_sz cm"
  shows "0 \<le> cd_blkindex c * cm_blk_sz cm"
    "cd_blkindex c * cm_blk_sz cm + cd_realsize c \<le> (cd_blkindex c + cd_blks c) * cm_blk_sz cm"
    "(cd_blkindex c + cd_blks c) * cm_blk_sz cm \<le> cm_blk_num cm * cm_blk_sz cm" "0 < cd_realsize c"
  using assms mult_right_mono [of "cd_blkindex c + cd_blks c" "cm_blk_num cm" "cm_blk_sz cm"]
  by (auto simp: entry_ok_def distrib_right)

section \<open>Unlocking\<close>

lemma unlock_miss:
  assumes "channel_ok ch" "entry (ch_cache ch) s = None"
  shows "fst (CacheMng_Video_CacheUnlock s ch) < 0" "snd (CacheMng_Video_CacheUnlock s ch) = ch"
  using FindCache_miss [of ch s] assms
  by (simp_all add: CacheMng_Video_CacheUnlock_def channel_ok_def Let_def const_defs)

lemma unlock_hit:
  assumes ok: "channel_ok ch" and c: "entry (ch_cache ch) s = Some c"
  obtains i where "i < length (cm_cache (ch_cache ch))" "cm_cache (ch_cache ch) ! i = c" "used c" "cd_serial c = s"
    "CacheMng_Video_CacheUnlock s ch = (0, ch\<lparr>ch_cache :=
      (if 1 < cd_cnt c then set_cache i (\<lambda>d. d\<lparr>cd_cnt := cd_cnt c - 1\<rparr>) (ch_cache ch)
       else with_entry i empty_entry (release_blks c (ch_cache ch)) (ch_cache ch))\<rparr>)"
proof -
  let ?cm = "ch_cache ch"
  have cok: "cache_ok (vi_cur_serial (ch_video ch)) ?cm" using ok by (simp add: channel_ok_def)
  from FindCache_hit [OF cok c] obtain i where i: "i < length (cm_cache ?cm)" "cm_cache ?cm ! i = c" "used c"
    "cd_serial c = s" "entry_ok (vi_cur_serial (ch_video ch)) ?cm c" "CacheMng_FindCacheBySerial s ch = int i"
    by blast
  have s: "0 \<le> s" using i(4,5) by (simp add: entry_ok_def)
  let ?cm1 = "set_cache i (\<lambda>d. d\<lparr>cd_cnt := cd_cnt c - 1\<rparr>) ?cm"
  have cm1: "set_cache i (\<lambda>d. d\<lparr>cd_cnt := cd_cnt d - 1\<rparr>) ?cm = ?cm1"
    using i(1,2) by (simp add: set_cache_def)
  have c1: "cm_cache ?cm1 ! i = c\<lparr>cd_cnt := cd_cnt c - 1\<rparr>"
    using set_cache_nth [OF i(1), of i] i(2) by simp
  have idx: "0 \<le> cd_blkindex c" using i(5) by (simp add: entry_ok_def)
  have rel: "set_cache i CacheMng_cache_reset
      (set_blks (cd_blkindex c) (cd_blks c) CacheMng_blk_unset ?cm1)
      = with_entry i empty_entry (release_blks c ?cm) ?cm"
    by (simp add: set_blks_eq [OF idx] set_cache_def with_entry_def release_blks_def owns_def)
  have "CacheMng_Video_CacheUnlock s ch = (0, ch\<lparr>ch_cache :=
      (if 1 < cd_cnt c then ?cm1 else with_entry i empty_entry (release_blks c ?cm) ?cm)\<rparr>)"
    using s i(6) by (simp add: CacheMng_Video_CacheUnlock_def Let_def cm1 c1 rel)
  with i show thesis by (intro that)
qed

lemma channel_cfg_cache:
  assumes "channel_cfg v cm" "cm_start_addr cm' = cm_start_addr cm" "cm_blk_num cm' = cm_blk_num cm"
    "cm_blk_sz cm' = cm_blk_sz cm"
  shows "channel_cfg v cm'"
  using assms by (simp add: channel_cfg_def)

text \<open>Unlocking in terms of entries.\<close>

lemma unlock_entry:
  assumes ok: "channel_ok ch" and c: "entry (ch_cache ch) s = Some c"
    and un: "CacheMng_Video_CacheUnlock s ch = (r, ch')"
  shows "r = 0" "channel_ok ch'" "ch_video ch' = ch_video ch" "ch_mem ch' = ch_mem ch"
    "entry (ch_cache ch') s = (if 1 < cd_cnt c then Some (c\<lparr>cd_cnt := cd_cnt c - 1\<rparr>) else None)"
    "\<And>t. t \<noteq> s \<Longrightarrow> entry (ch_cache ch') t = entry (ch_cache ch) t"
    "cm_start_addr (ch_cache ch') = cm_start_addr (ch_cache ch)" "cm_blk_sz (ch_cache ch') = cm_blk_sz (ch_cache ch)"
proof -
  let ?cm = "ch_cache ch"
  have cok: "cache_ok (vi_cur_serial (ch_video ch)) ?cm" using ok by (simp add: channel_ok_def)
  from unlock_hit [OF ok c] obtain i where i: "i < length (cm_cache ?cm)" "cm_cache ?cm ! i = c" "used c" "cd_serial c = s"
    "CacheMng_Video_CacheUnlock s ch = (0, ch\<lparr>ch_cache :=
      (if 1 < cd_cnt c then set_cache i (\<lambda>d. d\<lparr>cd_cnt := cd_cnt c - 1\<rparr>) ?cm
       else with_entry i empty_entry (release_blks c ?cm) ?cm)\<rparr>)" by blast
  have ui: "used (cm_cache ?cm ! i)" using i by simp
  have set_ok: "1 < cd_cnt c \<Longrightarrow> 1 \<le> cd_cnt c - 1" by simp
  have ch': "r = 0" "ch' = ch\<lparr>ch_cache := (if 1 < cd_cnt c then set_cache i (\<lambda>d. d\<lparr>cd_cnt := cd_cnt c - 1\<rparr>) ?cm
       else with_entry i empty_entry (release_blks c ?cm) ?cm)\<rparr>"
    using un i(5) by simp_all
  show "r = 0" by (fact ch'(1))
  show "ch_video ch' = ch_video ch" "ch_mem ch' = ch_mem ch" using ch'(2) by simp_all
  show same: "cm_start_addr (ch_cache ch') = cm_start_addr ?cm" "cm_blk_sz (ch_cache ch') = cm_blk_sz ?cm"
    using ch'(2) by simp_all
  have "cache_ok (vi_cur_serial (ch_video ch)) (ch_cache ch')"
    using set_cnt_ok [OF cok i(1) ui set_ok] release_ok [OF cok i(1) ui] i(2) ch'(2) by simp
  then show "channel_ok ch'"
    using ok ch'(2) channel_cfg_cache [of "ch_video ch" ?cm "ch_cache ch'"] by (simp add: channel_ok_def)
  show "entry (ch_cache ch') s = (if 1 < cd_cnt c then Some (c\<lparr>cd_cnt := cd_cnt c - 1\<rparr>) else None)"
    using set_cnt_entry [OF cok i(1) ui set_ok, of s] release_entry [OF cok i(1) ui, of s] i(2,4) ch'(2) by simp
  show "entry (ch_cache ch') t = entry ?cm t" if "t \<noteq> s" for t
    using set_cnt_entry [OF cok i(1) ui set_ok, of t] release_entry [OF cok i(1) ui, of t] i(2,4) ch'(2) that by simp
qed

section \<open>Locking\<close>

definition locked_entry :: "video_frame \<Rightarrow> int \<Rightarrow> int \<Rightarrow> cache_data" where
  "locked_entry f blk_index blk_use = empty_entry\<lparr>cd_blkindex := blk_index, cd_blks := blk_use, cd_cnt := 1,
     cd_type := vf_type f, cd_serial := vf_serial f, cd_realsize := vf_realsize f, cd_flag := vf_flag f,
     cd_timestamp := vf_timestamp f, cd_ref_serial := vf_ref_serial f\<rparr>"

lemma locked_entry_fields [simp]:
  "cd_blkindex (locked_entry f bi b) = bi" "cd_blks (locked_entry f bi b) = b" "cd_cnt (locked_entry f bi b) = 1"
  "cd_type (locked_entry f bi b) = vf_type f" "cd_serial (locked_entry f bi b) = vf_serial f"
  "cd_realsize (locked_entry f bi b) = vf_realsize f"
  by (simp_all add: locked_entry_def)

lemma lock_hit:
  assumes ok: "channel_ok ch" and c: "entry (ch_cache ch) s = Some c"
  obtains i where "i < length (cm_cache (ch_cache ch))" "cm_cache (ch_cache ch) ! i = c" "used c" "cd_serial c = s"
    "1 \<le> cd_cnt c"
    "CacheMng_Video_CacheLock s ch
      = (0, ch\<lparr>ch_cache := set_cache i (\<lambda>d. d\<lparr>cd_cnt := cd_cnt c + 1\<rparr>) (ch_cache ch)\<rparr>)"
proof -
  have cok: "cache_ok (vi_cur_serial (ch_video ch)) (ch_cache ch)" using ok by (simp add: channel_ok_def)
  from FindCache_hit [OF cok c] obtain i where i: "i < length (cm_cache (ch_cache ch))" "cm_cache (ch_cache ch) ! i = c"
    "used c" "cd_serial c = s" "entry_ok (vi_cur_serial (ch_video ch)) (ch_cache ch) c"
    "CacheMng_FindCacheBySerial s ch = int i" by blast
  have "set_cache i (\<lambda>d. d\<lparr>cd_cnt := cd_cnt d + 1\<rparr>) (ch_cache ch)
      = set_cache i (\<lambda>d. d\<lparr>cd_cnt := cd_cnt c + 1\<rparr>) (ch_cache ch)"
    using i(1,2) by (simp add: set_cache_def)
  with i show thesis
    by (intro that [of i]) (simp_all add: CacheMng_Video_CacheLock_def entry_ok_def)
qed

text \<open>What the store holds for a frame that can be found.\<close>

lemma found_frame:
  assumes "channel_ok ch" "MemMng_GetFrameBySerial s (ch_video ch) = Some fi"
  defines "f \<equiv> frame_at (ch_video ch) fi"
  shows "vf_serial f = s" "0 \<le> s" "s \<le> vi_cur_serial (ch_video ch)" "0 < vf_realsize f" "vf_type f \<noteq> EMPTY_CACHE"
    "0 < vi_start (ch_video ch) + vi_blk_sz (ch_video ch) * vf_blkindex f"
    "frame_addr (ch_video ch) f = vi_start (ch_video ch) + vi_blk_sz (ch_video ch) * vf_blkindex f"
proof -
  let ?v = "ch_video ch"
  have ok: "store_ok ?v" "settled ?v" using assms(1) by (simp_all add: channel_ok_def)
  note sound = GetFrameBySerial_sound [OF ok assms(2)]
  then have "frame_ok (vi_blk_num ?v) (vi_blk_sz ?v) (core f)" "real_frame f"
    using ok by (simp_all add: f_def store_ok_def store_rel_def)
  then show "0 < vf_realsize f" "vf_type f \<noteq> EMPTY_CACHE"
    by (auto simp: frame_ok_def real_frame_def const_defs)
  show "vf_serial f = s" using sound by (simp add: f_def)
  show "0 \<le> s" "s \<le> vi_cur_serial ?v"
    using assms(2) by (auto simp: MemMng_GetFrameBySerial_def split: if_splits)
  have "0 \<le> vf_blkindex f" "0 < vi_blk_sz ?v"
    using \<open>frame_ok _ _ (core f)\<close> ok by (simp_all add: frame_ok_def store_ok_def store_rel_def store_geom_def)
  then show "0 < vi_start ?v + vi_blk_sz ?v * vf_blkindex f"
    using assms(1) by (simp add: channel_ok_def channel_cfg_def add_pos_nonneg)
  show "frame_addr ?v f = vi_start ?v + vi_blk_sz ?v * vf_blkindex f"
    by (simp add: frame_addr_def mult.commute)
qed

lemma free_entry:
  assumes "cache_ok cur cm" "\<not> CacheMng_Find_FreeCache cm < 0"
  obtains i where "CacheMng_Find_FreeCache cm = int i" "i < length (cm_cache cm)" "cm_cache cm ! i = empty_entry"
proof -
  have pos: "0 \<le> first_index (\<lambda>cnt. cd_type (cm_cache cm ! cnt) = EMPTY_CACHE) (cm_cache_num cm)"
    using assms(2) by (simp add: CacheMng_Find_FreeCache_def)
  define i where "i = nat (CacheMng_Find_FreeCache cm)"
  have i: "i < nat (cm_cache_num cm)" "cd_type (cm_cache cm ! i) = EMPTY_CACHE"
    using first_index_hit(1,2) [OF pos] unfolding i_def CacheMng_Find_FreeCache_def by blast+
  then have "i < length (cm_cache cm)" using cache_ok_geom [OF assms(1)] by simp
  moreover from cache_ok_entry [OF assms(1) this] i(2) have "cm_cache cm ! i = empty_entry"
    by (auto simp: used_def)
  moreover have "CacheMng_Find_FreeCache cm = int i" using assms(2) by (simp add: i_def)
  ultimately show thesis by (intro that)
qed

lemma free_run:
  assumes "cache_ok cur cm" "0 < b" "\<not> CacheMng_Find_Freeblk cm b < 0"
  shows "CacheMng_Find_Freeblk cm b + b \<le> cm_blk_num cm"
    "CacheMng_Find_Freeblk cm b \<le> int k \<Longrightarrow> int k < CacheMng_Find_Freeblk cm b + b
      \<Longrightarrow> cb_IsFree (cm_blk cm ! k) = 1"
proof -
  let ?P = "\<lambda>cnt. list_all (\<lambda>cnt2. cb_IsFree (cm_blk cm ! (cnt + cnt2)) = 1) [0..<nat b]"
  let ?i = "CacheMng_Find_Freeblk cm b"
  have pos: "0 \<le> first_index ?P (cm_blk_num cm - b + 1)"
    using assms(3) by (simp add: CacheMng_Find_Freeblk_def)
  have i: "nat ?i < nat (cm_blk_num cm - b + 1)" "?P (nat ?i)"
    using first_index_hit(1,2) [OF pos] unfolding CacheMng_Find_Freeblk_def by blast+
  show "?i + b \<le> cm_blk_num cm" using i(1) assms(3) by linarith
  show "cb_IsFree (cm_blk cm ! k) = 1" if k: "?i \<le> int k" "int k < ?i + b"
  proof -
    have "nat (int k - ?i) < nat b" "nat ?i + nat (int k - ?i) = k" using k assms(3) by linarith+
    with i(2) show ?thesis unfolding list_all_iff by (metis atLeastLessThan_upt atLeastLessThan_iff zero_le)
  qed
qed

text \<open>A lock that misses the cache: it fails and changes nothing, or copies the frame
  into a free run of blocks.\<close>

lemma lock_new:
  assumes ok: "channel_ok ch" and none: "entry (ch_cache ch) s = None"
  shows "fst (CacheMng_Video_CacheLock s ch) < 0 \<and> snd (CacheMng_Video_CacheLock s ch) = ch
      \<and> (\<forall>fi. MemMng_GetFrameBySerial s (ch_video ch) = Some fi \<longrightarrow>
            CacheMng_Find_Freeblk (ch_cache ch) (blocks_for (vf_realsize (frame_at (ch_video ch) fi)) (cm_blk_sz (ch_cache ch))) < 0
            \<or> CacheMng_Find_FreeCache (ch_cache ch) < 0)
    \<or> (\<exists>fi i bi c. MemMng_GetFrameBySerial s (ch_video ch) = Some fi
        \<and> c = locked_entry (frame_at (ch_video ch) fi) bi (blocks_for (vf_realsize (frame_at (ch_video ch) fi)) (cm_blk_sz (ch_cache ch)))
        \<and> i < length (cm_cache (ch_cache ch)) \<and> cm_cache (ch_cache ch) ! i = empty_entry
        \<and> 0 \<le> bi \<and> bi + cd_blks c \<le> cm_blk_num (ch_cache ch)
        \<and> (\<forall>k. owns c k \<longrightarrow> cb_IsFree (cm_blk (ch_cache ch) ! k) = 1)
        \<and> CacheMng_Video_CacheLock s ch = (0, ch\<lparr>ch_cache := with_entry i c (acquire_blks c (ch_cache ch)) (ch_cache ch),
            ch_mem := mem_write (cache_addr (ch_cache ch) c)
              (mem_read (frame_addr (ch_video ch) (frame_at (ch_video ch) fi)) (nat (cd_realsize c)) (ch_mem ch)) (ch_mem ch)\<rparr>))"
    (is "?fail \<or> ?new")
proof (cases "s < 0 \<or> MemMng_GetFrameBySerial s (ch_video ch) = None")
  case True
  have "MemMng_GetFrameBySerial s (ch_video ch) = None"
  proof (cases "s < 0")
    case True
    then show ?thesis by (simp add: MemMng_GetFrameBySerial_def)
  qed (use True in simp)
  then show ?thesis
    using FindCache_miss [of ch s] ok none
    by (auto simp: CacheMng_Video_CacheLock_def channel_ok_def Let_def const_defs)
next
  case False
  then obtain fi where s: "0 \<le> s" and fi: "MemMng_GetFrameBySerial s (ch_video ch) = Some fi" by auto
  let ?v = "ch_video ch" and ?cm = "ch_cache ch"
  define f where "f = frame_at ?v fi"
  define b where "b = blocks_for (vf_realsize f) (cm_blk_sz ?cm)"
  define bi where "bi = CacheMng_Find_Freeblk ?cm b"
  note found = found_frame [OF ok fi, folded f_def]
  have cok: "cache_ok (vi_cur_serial ?v) ?cm" using ok by (simp add: channel_ok_def)
  have miss: "\<not> 0 \<le> CacheMng_FindCacheBySerial s ch" using FindCache_miss [OF cok none] by simp
  have b: "0 < b" using blocks_for_bounds(1) [OF found(4) cache_ok_geom(1) [OF cok]] by (simp add: b_def)
  show ?thesis
  proof (cases "bi < 0 \<or> CacheMng_Find_FreeCache ?cm < 0")
    case True
    then have ?fail
      using s miss fi by (auto simp: CacheMng_Video_CacheLock_def Let_def const_defs f_def b_def bi_def)
    then show ?thesis ..
  next
    case False
    then obtain i where i: "CacheMng_Find_FreeCache ?cm = int i" "i < length (cm_cache ?cm)" "cm_cache ?cm ! i = empty_entry"
      using free_entry [OF cok] by blast
    have bi: "0 \<le> bi" "bi + b \<le> cm_blk_num ?cm" "\<And>k. bi \<le> int k \<Longrightarrow> int k < bi + b \<Longrightarrow> cb_IsFree (cm_blk ?cm ! k) = 1"
      using False free_run [OF cok b] by (simp_all add: bi_def)
    let ?c = "locked_entry f bi b"
    let ?cm1 = "set_cache i (\<lambda>c. c\<lparr>cd_blkindex := bi, cd_blks := b, cd_cnt := 1\<rparr>) ?cm"
    have k: "nat bi < length (cm_blk ?cm)" using bi(1,2) b cache_ok_geom [OF cok] by linarith
    have off: "cb_offset (cm_blk ?cm ! nat bi) = bi * cm_blk_sz ?cm"
      using cache_ok_blk(1) [OF cok k] bi(1) by simp
    have cm2: "set_blks bi b (CacheMng_blk_set (vf_serial f)) (set_cache i (\<lambda>c. c\<lparr>cd_type := vf_type f, cd_serial := vf_serial f,
        cd_realsize := vf_realsize f, cd_flag := vf_flag f, cd_timestamp := vf_timestamp f,
        cd_ref_serial := vf_ref_serial f\<rparr>) ?cm1) = with_entry i ?c (acquire_blks ?c ?cm) ?cm"
      using i(2,3)
      by (simp add: set_blks_eq [OF bi(1)] set_cache_def with_entry_def acquire_blks_def owns_def locked_entry_def)
    have addr: "cm_start_addr ?cm + cb_offset (acquire_blks ?c ?cm ! nat bi) = cache_addr ?cm ?c"
      using k off by (simp add: acquire_blks_def cache_addr_def CacheMng_blk_set_def)
    have des: "0 < cache_addr ?cm ?c"
      using ok bi(1) cache_ok_geom(1) [OF cok]
      by (simp add: cache_addr_def channel_ok_def channel_cfg_def add_pos_nonneg)
    have at_i: "cm_cache (set_cache i (\<lambda>c. c\<lparr>cd_type := vf_type f, cd_serial := vf_serial f,
        cd_realsize := vf_realsize f, cd_flag := vf_flag f, cd_timestamp := vf_timestamp f,
        cd_ref_serial := vf_ref_serial f\<rparr>) ?cm1) ! i = ?c"
      using i(2,3) by (simp add: set_cache_def locked_entry_def)
    have copy: "CacheMng_cache_write i f (ch\<lparr>ch_cache := ?cm1\<rparr>)
      = (0, ch\<lparr>ch_cache := with_entry i ?c (acquire_blks ?c ?cm) ?cm,
          ch_mem := mem_write (cache_addr ?cm ?c) (mem_read (frame_addr ?v f) (nat (vf_realsize f)) (ch_mem ch)) (ch_mem ch)\<rparr>)"
      unfolding CacheMng_cache_write_def Let_def channel.simps at_i
      using found(6,7) des addr by (simp add: at_i cm2 CacheMng_MemCpy_def)
    have "CacheMng_Video_CacheLock s ch = (0, ch\<lparr>ch_cache := with_entry i ?c (acquire_blks ?c ?cm) ?cm,
          ch_mem := mem_write (cache_addr ?cm ?c) (mem_read (frame_addr ?v f) (nat (vf_realsize f)) (ch_mem ch)) (ch_mem ch)\<rparr>)"
      using s miss fi False i(1) copy
      by (simp add: CacheMng_Video_CacheLock_def Let_def f_def [symmetric] b_def [symmetric] bi_def [symmetric])
    moreover have "cb_IsFree (cm_blk ?cm ! k) = 1" if "owns ?c k" for k
      using that by (intro bi(3)) (simp_all add: owns_def)
    ultimately have ?new
      using fi i bi(1,2) unfolding f_def [symmetric] b_def [symmetric]
      by (intro exI [of _ fi] exI [of _ i] exI [of _ bi] exI [of _ ?c]) (simp add: f_def b_def)
    then show ?thesis ..
  qed
qed

lemma lock_hit_entry:
  assumes ok: "channel_ok ch" and c: "entry (ch_cache ch) s = Some c"
    and lk: "CacheMng_Video_CacheLock s ch = (r, ch')"
  shows "r = 0" "channel_ok ch'" "ch_video ch' = ch_video ch" "ch_mem ch' = ch_mem ch"
    "entry (ch_cache ch') t = (if t = s then Some (c\<lparr>cd_cnt := cd_cnt c + 1\<rparr>) else entry (ch_cache ch) t)"
    "cm_start_addr (ch_cache ch') = cm_start_addr (ch_cache ch)" "cm_blk_sz (ch_cache ch') = cm_blk_sz (ch_cache ch)"
proof -
  let ?cm = "ch_cache ch"
  have cok: "cache_ok (vi_cur_serial (ch_video ch)) ?cm" using ok by (simp add: channel_ok_def)
  from lock_hit [OF ok c] obtain i where i: "i < length (cm_cache ?cm)" "cm_cache ?cm ! i = c" "used c" "cd_serial c = s"
    "1 \<le> cd_cnt c" and ch': "r = 0" "ch' = ch\<lparr>ch_cache := set_cache i (\<lambda>d. d\<lparr>cd_cnt := cd_cnt c + 1\<rparr>) ?cm\<rparr>"
    using lk by (metis prod.inject)
  have ui: "used (cm_cache ?cm ! i)" "1 \<le> cd_cnt c + 1" using i by simp_all
  show "r = 0" by (fact ch'(1))
  show "ch_video ch' = ch_video ch" "ch_mem ch' = ch_mem ch"
    "cm_start_addr (ch_cache ch') = cm_start_addr ?cm" "cm_blk_sz (ch_cache ch') = cm_blk_sz ?cm"
    using ch'(2) by simp_all
  show "channel_ok ch'"
    using ok set_cnt_ok [OF cok i(1) ui] ch'(2) channel_cfg_cache [of "ch_video ch" ?cm "ch_cache ch'"]
    by (simp add: channel_ok_def)
  show "entry (ch_cache ch') t = (if t = s then Some (c\<lparr>cd_cnt := cd_cnt c + 1\<rparr>) else entry ?cm t)"
    using set_cnt_entry [OF cok i(1) ui, of t] i(2,4) ch'(2) by simp
qed

lemma lock_new_entry:
  assumes ok: "channel_ok ch" and none: "entry (ch_cache ch) s = None"
    and lk: "CacheMng_Video_CacheLock s ch = (0, ch')"
  obtains fi bi where "MemMng_GetFrameBySerial s (ch_video ch) = Some fi" "channel_ok ch'" "ch_video ch' = ch_video ch"
    "cm_start_addr (ch_cache ch') = cm_start_addr (ch_cache ch)" "cm_blk_sz (ch_cache ch') = cm_blk_sz (ch_cache ch)"
    "0 \<le> bi" "bi + blocks_for (vf_realsize (frame_at (ch_video ch) fi)) (cm_blk_sz (ch_cache ch)) \<le> cm_blk_num (ch_cache ch)"
    "\<And>t. entry (ch_cache ch') t = (if t = s then Some (locked_entry (frame_at (ch_video ch) fi) bi
        (blocks_for (vf_realsize (frame_at (ch_video ch) fi)) (cm_blk_sz (ch_cache ch)))) else entry (ch_cache ch) t)"
    "\<And>k. bi \<le> int k \<Longrightarrow> int k < bi + blocks_for (vf_realsize (frame_at (ch_video ch) fi)) (cm_blk_sz (ch_cache ch))
      \<Longrightarrow> cb_IsFree (cm_blk (ch_cache ch) ! k) = 1"
    "ch_mem ch' = mem_write (cm_start_addr (ch_cache ch) + bi * cm_blk_sz (ch_cache ch))
      (mem_read (frame_addr (ch_video ch) (frame_at (ch_video ch) fi)) (nat (vf_realsize (frame_at (ch_video ch) fi))) (ch_mem ch)) (ch_mem ch)"
proof -
  let ?cm = "ch_cache ch" and ?v = "ch_video ch"
  from lock_new [OF ok none] lk obtain fi i bi c where fi: "MemMng_GetFrameBySerial s ?v = Some fi"
    and c: "c = locked_entry (frame_at ?v fi) bi (blocks_for (vf_realsize (frame_at ?v fi)) (cm_blk_sz ?cm))"
    and i: "i < length (cm_cache ?cm)" "cm_cache ?cm ! i = empty_entry"
    and bi: "0 \<le> bi" "bi + cd_blks c \<le> cm_blk_num ?cm" "\<forall>k. owns c k \<longrightarrow> cb_IsFree (cm_blk ?cm ! k) = 1"
    and ch': "ch' = ch\<lparr>ch_cache := with_entry i c (acquire_blks c ?cm) ?cm,
            ch_mem := mem_write (cache_addr ?cm c)
              (mem_read (frame_addr ?v (frame_at ?v fi)) (nat (cd_realsize c)) (ch_mem ch)) (ch_mem ch)\<rparr>"
    by auto
  have cok: "cache_ok (vi_cur_serial ?v) ?cm" using ok by (simp add: channel_ok_def)
  note found = found_frame [OF ok fi] and geom = cache_ok_geom [OF cok]
  note blks = blocks_for_bounds [OF found(4) geom(1)]
  have used: "used c" using found(5) by (simp add: c used_def)
  have serial: "cd_serial c = s" using found(1) by (simp add: c)
  have cok': "cache_ok (vi_cur_serial ?v) (with_entry i c (acquire_blks c ?cm) ?cm)"
    by (rule acquire_ok [OF cok i used])
      (use found(1-4) blks bi none in \<open>simp_all add: c\<close>)
  show thesis
  proof (rule that [OF fi])
    show "channel_ok ch'"
      using ok cok' ch' channel_cfg_cache [of ?v ?cm "ch_cache ch'"] by (simp add: channel_ok_def)
    show "entry (ch_cache ch') t = (if t = s then Some (locked_entry (frame_at ?v fi) bi
        (blocks_for (vf_realsize (frame_at ?v fi)) (cm_blk_sz ?cm))) else entry ?cm t)" for t
      using acquire_entry [OF cok' cok i used, of t] serial ch' c by simp
    show "cb_IsFree (cm_blk ?cm ! k) = 1" if "bi \<le> int k"
      "int k < bi + blocks_for (vf_realsize (frame_at ?v fi)) (cm_blk_sz ?cm)" for k
      using bi(3) that by (simp add: owns_def c)
  qed (use bi ch' c in \<open>simp_all add: cache_addr_def\<close>)
qed

lemma lock_fail:
  assumes "channel_ok ch" "CacheMng_Video_CacheLock s ch = (r, ch')" "r \<noteq> 0"
  shows "r < 0" "ch' = ch"
proof -
  have "entry (ch_cache ch) s = None"
    using lock_hit_entry(1) [OF assms(1) _ assms(2)] assms(3) by (cases "entry (ch_cache ch) s") auto
  from lock_new [OF assms(1) this] assms(2,3) show "r < 0" "ch' = ch" by auto
qed

section \<open>Payloads\<close>

text \<open>A newly taken run of blocks is apart from those of every entry.\<close>

lemma new_run_apart:
  assumes cok: "cache_ok cur cm" and d: "entry cm t = Some d" and bi: "0 \<le> bi" "0 < b"
    and free: "\<And>k. bi \<le> int k \<Longrightarrow> int k < bi + b \<Longrightarrow> cb_IsFree (cm_blk cm ! k) = 1"
  shows "cache_addr cm d + cd_realsize d \<le> cm_start_addr cm + bi * cm_blk_sz cm
    \<or> cm_start_addr cm + (bi + b) * cm_blk_sz cm \<le> cache_addr cm d"
proof -
  have dok: "entry_ok cur cm d" using entry_index [OF cok d] by blast
  note pos = cache_ok_geom(1) [OF cok] and ext = cache_extent [OF dok cache_ok_geom(1) [OF cok]]
  have dblk: "0 \<le> cd_blkindex d" "1 \<le> cd_blks d"
    and own: "\<And>k. owns d k \<Longrightarrow> cb_IsFree (cm_blk cm ! k) = 0" using dok by (auto simp: entry_ok_def)
  have "False" if "bi < cd_blkindex d + cd_blks d" "cd_blkindex d < bi + b"
  proof -
    define k where "k = nat (max bi (cd_blkindex d))"
    have "int k = max bi (cd_blkindex d)" using bi by (simp add: k_def max_def)
    then have "bi \<le> int k" "int k < bi + b" "owns d k" using that dblk bi by (auto simp: owns_def)
    with free [of k] own [of k] show False by simp
  qed
  then consider "cd_blkindex d + cd_blks d \<le> bi" | "bi + b \<le> cd_blkindex d"
    by (meson not_le)
  then show ?thesis
  proof cases
    case 1
    then have "(cd_blkindex d + cd_blks d) * cm_blk_sz cm \<le> bi * cm_blk_sz cm" using pos by (simp add: mult_right_mono)
    with ext(2) show ?thesis by (simp add: cache_addr_def)
  next
    case 2
    then have "(bi + b) * cm_blk_sz cm \<le> cd_blkindex d * cm_blk_sz cm" using pos by (simp add: mult_right_mono)
    then show ?thesis by (simp add: cache_addr_def)
  qed
qed

text \<open>A payload stays what it was when neither its entry nor its bytes change.\<close>

lemma cached_eqI:
  assumes "entry (ch_cache ch') t = map_option (cd_cnt_update g) (entry (ch_cache ch) t)"
    and "cm_start_addr (ch_cache ch') = cm_start_addr (ch_cache ch)" "cm_blk_sz (ch_cache ch') = cm_blk_sz (ch_cache ch)"
    and "\<And>d. entry (ch_cache ch) t = Some d \<Longrightarrow>
      mem_read (cache_addr (ch_cache ch) d) (nat (cd_realsize d)) (ch_mem ch')
        = mem_read (cache_addr (ch_cache ch) d) (nat (cd_realsize d)) (ch_mem ch)"
  shows "cached ch' t = cached ch t"
  using assms by (cases "entry (ch_cache ch) t") (simp_all add: cached_def cache_addr_def)

lemma cached_same_entry:
  assumes "entry (ch_cache ch') t = entry (ch_cache ch) t"
    and "cm_start_addr (ch_cache ch') = cm_start_addr (ch_cache ch)" "cm_blk_sz (ch_cache ch') = cm_blk_sz (ch_cache ch)"
    and "\<And>d. entry (ch_cache ch) t = Some d \<Longrightarrow>
      mem_read (cache_addr (ch_cache ch) d) (nat (cd_realsize d)) (ch_mem ch')
        = mem_read (cache_addr (ch_cache ch) d) (nat (cd_realsize d)) (ch_mem ch)"
  shows "cached ch' t = cached ch t"
  using assms by (cases "entry (ch_cache ch) t") (simp_all add: cached_def cache_addr_def)

lemma lock_count_map:
  "lock_count cm s = (case entry cm s of None \<Rightarrow> 0 | Some c \<Rightarrow> cd_cnt c)"
  by (simp add: lock_count_def)

text \<open>The store's payloads and the cache area are apart.\<close>

lemma contents_outside:
  assumes ok: "store_ok v"
    and same: "\<And>a. vi_start v \<le> a \<Longrightarrow> a < vi_start v + vi_blk_num v * vi_blk_sz v \<Longrightarrow> m' a = m a"
  shows "contents v m' = contents v m"
proof -
  have "mem_read (frame_addr v f) (nat (vf_realsize f)) m' = mem_read (frame_addr v f) (nat (vf_realsize f)) m"
    if "f \<in> set (live v)" "real_frame f" for f
  proof -
    have fok: "frame_ok (vi_blk_num v) (vi_blk_sz v) f" and pos: "0 < vi_blk_sz v"
      using ok that by (simp_all add: store_ok_def store_rel_def store_geom_def)
    note ext = frame_extent [OF fok that(2) pos]
    show ?thesis
      unfolding mem_read_def using ext by (intro map_cong refl same) (simp_all add: frame_addr_def)
  qed
  then show ?thesis by (simp add: contents_def)
qed

definition lock_effect :: "int \<Rightarrow> channel \<Rightarrow> channel \<Rightarrow> bool" where
  "lock_effect s ch ch' \<longleftrightarrow> channel_ok ch' \<and> ch_video ch' = ch_video ch
    \<and> lock_count (ch_cache ch') = (lock_count (ch_cache ch))(s := lock_count (ch_cache ch) s + 1)
    \<and> contents (ch_video ch) (ch_mem ch') = contents (ch_video ch) (ch_mem ch)
    \<and> (\<forall>t. cached ch t \<noteq> None \<longrightarrow> cached ch' t = cached ch t)
    \<and> (cached ch s = None \<longrightarrow> (\<exists>ty bytes. cached ch' s = Some (ty, bytes)
      \<and> (s, ty, bytes) \<in> set (contents (ch_video ch) (ch_mem ch))))"

lemma lock_hit_effect:
  assumes ok: "channel_ok ch" and c: "entry (ch_cache ch) s = Some c"
    and lk: "CacheMng_Video_CacheLock s ch = (0, ch')"
  shows "lock_effect s ch ch'"
proof -
  note hit = lock_hit_entry [OF ok c lk]
  have "lock_count (ch_cache ch') t = ((lock_count (ch_cache ch))(s := lock_count (ch_cache ch) s + 1)) t" for t
    using hit(5) [of t] c by (simp add: lock_count_def)
  then have "lock_count (ch_cache ch') = (lock_count (ch_cache ch))(s := lock_count (ch_cache ch) s + 1)" ..
  moreover have "cached ch' t = cached ch t" for t
    using hit(4-7) c by (cases "t = s") (simp_all add: cached_def cache_addr_def)
  moreover have "cached ch s \<noteq> None" using c by (simp add: cached_def)
  ultimately show ?thesis using hit(2-4) by (simp add: lock_effect_def)
qed

text \<open>The copy of a frame into a free run of blocks, in shared memory.\<close>

lemma copy_apart:
  assumes ok: "channel_ok ch" and bi: "0 \<le> bi" "0 < b" "bi + b \<le> cm_blk_num (ch_cache ch)"
    and free: "\<forall>k. bi \<le> int k \<and> int k < bi + b \<longrightarrow> cb_IsFree (cm_blk (ch_cache ch) ! k) = 1"
    and len: "int (length bytes) \<le> b * cm_blk_sz (ch_cache ch)"
    and mem: "m' = mem_write (cm_start_addr (ch_cache ch) + bi * cm_blk_sz (ch_cache ch)) bytes (ch_mem ch)"
  shows "contents (ch_video ch) m' = contents (ch_video ch) (ch_mem ch)"
    "entry (ch_cache ch) t = Some d \<Longrightarrow> mem_read (cache_addr (ch_cache ch) d) (nat (cd_realsize d)) m'
      = mem_read (cache_addr (ch_cache ch) d) (nat (cd_realsize d)) (ch_mem ch)"
proof -
  let ?v = "ch_video ch" and ?cm = "ch_cache ch"
  have cok: "cache_ok (vi_cur_serial ?v) ?cm" and sok: "store_ok ?v" and cfg: "channel_cfg ?v ?cm"
    using ok by (simp_all add: channel_ok_def)
  note pos = cache_ok_geom(1) [OF cok]
  have range: "bi * cm_blk_sz ?cm + int (length bytes) \<le> (bi + b) * cm_blk_sz ?cm"
    "(bi + b) * cm_blk_sz ?cm \<le> cm_blk_num ?cm * cm_blk_sz ?cm" "0 \<le> bi * cm_blk_sz ?cm"
    using len bi pos mult_right_mono [OF bi(3), of "cm_blk_sz ?cm"] by (simp_all add: distrib_right)
  have "m' a = ch_mem ch a" if "vi_start ?v \<le> a" "a < vi_start ?v + vi_blk_num ?v * vi_blk_sz ?v" for a
    unfolding mem by (rule mem_write_outside) (use cfg that range in \<open>auto simp: channel_cfg_def\<close>)
  then show "contents ?v m' = contents ?v (ch_mem ch)" by (rule contents_outside [OF sok])
  assume d: "entry ?cm t = Some d"
  have "0 < cd_realsize d" using entry_index [OF cok d] by (auto simp: entry_ok_def)
  then show "mem_read (cache_addr ?cm d) (nat (cd_realsize d)) m' = mem_read (cache_addr ?cm d) (nat (cd_realsize d)) (ch_mem ch)"
    unfolding mem using new_run_apart [OF cok d bi(1,2)] free range(1)
    by (intro mem_read_write_other) auto
qed

lemma lock_new_effect:
  assumes ok: "channel_ok ch" and none: "entry (ch_cache ch) s = None"
    and lk: "CacheMng_Video_CacheLock s ch = (0, ch')"
  shows "lock_effect s ch ch'"
proof -
  let ?v = "ch_video ch" and ?cm = "ch_cache ch"
  from lock_new_entry [OF ok none lk] obtain fi bi where fi: "MemMng_GetFrameBySerial s ?v = Some fi"
    and new: "channel_ok ch'" "ch_video ch' = ?v" "cm_start_addr (ch_cache ch') = cm_start_addr ?cm"
      "cm_blk_sz (ch_cache ch') = cm_blk_sz ?cm"
    and bi: "0 \<le> bi" "bi + blocks_for (vf_realsize (frame_at ?v fi)) (cm_blk_sz ?cm) \<le> cm_blk_num ?cm"
    and ent: "\<And>t. entry (ch_cache ch') t = (if t = s then Some (locked_entry (frame_at ?v fi) bi
      (blocks_for (vf_realsize (frame_at ?v fi)) (cm_blk_sz ?cm))) else entry ?cm t)"
    and free: "\<And>k. bi \<le> int k \<Longrightarrow> int k < bi + blocks_for (vf_realsize (frame_at ?v fi)) (cm_blk_sz ?cm)
      \<Longrightarrow> cb_IsFree (cm_blk ?cm ! k) = 1"
    and mem: "ch_mem ch' = mem_write (cm_start_addr ?cm + bi * cm_blk_sz ?cm)
      (mem_read (frame_addr ?v (frame_at ?v fi)) (nat (vf_realsize (frame_at ?v fi))) (ch_mem ch)) (ch_mem ch)"
    by blast
  let ?f = "frame_at ?v fi"
  let ?bytes = "mem_read (frame_addr ?v ?f) (nat (vf_realsize ?f)) (ch_mem ch)"
  have cok: "cache_ok (vi_cur_serial ?v) ?cm" and sok: "store_ok ?v" "settled ?v"
    using ok by (simp_all add: channel_ok_def)
  note blks = blocks_for_bounds [OF found_frame(4) [OF ok fi] cache_ok_geom(1) [OF cok]]
  have free': "\<forall>k. bi \<le> int k \<and> int k < bi + blocks_for (vf_realsize ?f) (cm_blk_sz ?cm)
      \<longrightarrow> cb_IsFree (cm_blk ?cm ! k) = 1" using free by blast
  have len: "int (length ?bytes) \<le> blocks_for (vf_realsize ?f) (cm_blk_sz ?cm) * cm_blk_sz ?cm"
    using blks(2) found_frame(4) [OF ok fi] by simp
  note copy = copy_apart [OF ok bi(1) blks(1) bi(2) free' len mem]
  have "cached ch' t = cached ch t" if "cached ch t \<noteq> None" for t
  proof -
    have "t \<noteq> s" using that none by (auto simp: cached_def)
    then show ?thesis
      by (intro cached_same_entry copy(2)) (use ent [of t] new in simp_all)
  qed
  moreover have "cached ch' s = Some (vf_type ?f, ?bytes)"
    using ent [of s] new(3,4) mem_read_write_same [of "cm_start_addr ?cm + bi * cm_blk_sz ?cm" ?bytes "ch_mem ch"]
    by (simp add: cached_def cache_addr_def mem)
  moreover have "(s, vf_type ?f, ?bytes) \<in> set (contents ?v (ch_mem ch))"
    by (rule found_contents [OF sok fi])
  moreover have "lock_count (ch_cache ch') t = ((lock_count ?cm)(s := lock_count ?cm s + 1)) t" for t
    using ent [of t] none by (simp add: lock_count_def)
  then have "lock_count (ch_cache ch') = (lock_count ?cm)(s := lock_count ?cm s + 1)" ..
  ultimately show ?thesis unfolding lock_effect_def using new(1,2) copy(1) by blast
qed

lemma lock_effect:
  assumes "channel_ok ch" "CacheMng_Video_CacheLock s ch = (0, ch')"
  shows "lock_effect s ch ch'"
  using lock_hit_effect [OF assms(1) _ assms(2)] lock_new_effect [OF assms(1) _ assms(2)]
  by (cases "entry (ch_cache ch) s") auto

end
