(* ===== verification/Cache_Client.thy ===== *)
theory Cache_Client
  imports Cache_Lock
begin

text \<open>The contract of the frame cache with its clients, as a locale of counted
  locks, and what a client gets: while it holds a lock, the payload it reads is
  the one of the frame, whatever is written to the store or locked and unlocked by
  others.\<close>

section \<open>The effect of unlocking\<close>

lemma lock_count_pos:
  assumes "channel_ok ch"
  shows "0 < lock_count (ch_cache ch) s \<longleftrightarrow> entry (ch_cache ch) s \<noteq> None" "0 \<le> lock_count (ch_cache ch) s"
proof -
  have cok: "cache_ok (vi_cur_serial (ch_video ch)) (ch_cache ch)" using assms by (simp add: channel_ok_def)
  have "1 \<le> cd_cnt c" if "entry (ch_cache ch) s = Some c" for c
    using entry_index [OF cok that] by (auto simp: entry_ok_def)
  then show "0 < lock_count (ch_cache ch) s \<longleftrightarrow> entry (ch_cache ch) s \<noteq> None" "0 \<le> lock_count (ch_cache ch) s"
    by (auto simp: lock_count_def split: option.splits)
qed

lemma unlock_effect:
  assumes ok: "channel_ok ch" and cnt: "0 < lock_count (ch_cache ch) s"
    and un: "CacheMng_Video_CacheUnlock s ch = (r, ch')"
  shows "r = 0" "channel_ok ch'" "ch_video ch' = ch_video ch" "ch_mem ch' = ch_mem ch"
    "lock_count (ch_cache ch') = (lock_count (ch_cache ch))(s := lock_count (ch_cache ch) s - 1)"
    "0 < lock_count (ch_cache ch') t \<Longrightarrow> cached ch' t = cached ch t"
proof -
  obtain c where c: "entry (ch_cache ch) s = Some c" using cnt lock_count_pos(1) [OF ok] by auto
  note un = unlock_entry [OF ok c un]
  show "r = 0" "channel_ok ch'" "ch_video ch' = ch_video ch" "ch_mem ch' = ch_mem ch" by (fact un(1-4))+
  have pos: "0 < cd_cnt c" using cnt c by (simp add: lock_count_def)
  have "lock_count (ch_cache ch') t = ((lock_count (ch_cache ch))(s := lock_count (ch_cache ch) s - 1)) t" for t
    using un(5) un(6) [of t] c pos by (cases "t = s") (simp_all add: lock_count_def)
  then show "lock_count (ch_cache ch') = (lock_count (ch_cache ch))(s := lock_count (ch_cache ch) s - 1)" ..
  show "cached ch' t = cached ch t" if "0 < lock_count (ch_cache ch') t"
    using that un(4-8) c
    by (cases "t = s") (auto simp: cached_def cache_addr_def lock_count_def split: if_splits)
qed

lemma unlock_none:
  assumes ok: "channel_ok ch" and cnt: "lock_count (ch_cache ch) s = 0"
    and un: "CacheMng_Video_CacheUnlock s ch = (r, ch')"
  shows "r < 0" "ch' = ch"
proof -
  have "entry (ch_cache ch) s = None" using lock_count_pos(1) [OF ok, of s] cnt by auto
  from unlock_miss [OF ok this] un show "r < 0" "ch' = ch" by simp_all
qed

section \<open>Unlocking undoes locking\<close>

lemma blk_unset_set:
  assumes "cb_serial b = -1" "cb_IsFree b = 1"
  shows "CacheMng_blk_unset (CacheMng_blk_set s b) = b"
  using assms by (cases b) (simp add: CacheMng_blk_unset_def CacheMng_blk_set_def)

lemma release_acquire:
  assumes cok: "cache_ok cur cm" and free: "\<forall>k. owns c k \<longrightarrow> cb_IsFree (cm_blk cm ! k) = 1"
  shows "release_blks c (with_entry i c (acquire_blks c cm) cm) = cm_blk cm"
proof (rule nth_equalityI)
  fix k assume "k < length (release_blks c (with_entry i c (acquire_blks c cm) cm))"
  then have k: "k < length (cm_blk cm)" by (simp add: release_blks_def acquire_blks_def)
  have "cb_serial (cm_blk cm ! k) = -1" if "owns c k"
    using cache_ok_blk(2) [OF cok k] free that by auto
  with k free show "release_blks c (with_entry i c (acquire_blks c cm) cm) ! k = cm_blk cm ! k"
    by (simp add: release_blks_def acquire_blks_def blk_unset_set)
qed (simp add: release_blks_def acquire_blks_def)

lemma set_cnt_back:
  assumes "i < length (cm_cache cm)" "cm_cache cm ! i = c"
  shows "set_cache i (\<lambda>d. d\<lparr>cd_cnt := cd_cnt c\<rparr>) (set_cache i (\<lambda>d. d\<lparr>cd_cnt := x\<rparr>) cm) = cm"
proof -
  have "(c\<lparr>cd_cnt := x\<rparr>)\<lparr>cd_cnt := cd_cnt c\<rparr> = c" by simp
  then show ?thesis using assms by (simp add: set_cache_def list_update_same_conv)
qed

lemma with_entry_back:
  assumes "i < length (cm_cache cm)" "cm_cache cm ! i = d"
  shows "with_entry i d (cm_blk cm) (with_entry i c bs cm) = cm"
  using assms by (simp add: with_entry_def list_update_same_conv)

lemma unlock_after_lock:
  assumes ok: "channel_ok ch" and lk: "CacheMng_Video_CacheLock s ch = (0, ch1)"
    and same: "ch_cache ch2 = ch_cache ch1" "ch_video ch2 = ch_video ch1"
  shows "CacheMng_Video_CacheUnlock s ch2 = (0, ch2\<lparr>ch_cache := ch_cache ch\<rparr>)"
proof -
  let ?cm = "ch_cache ch"
  have cok: "cache_ok (vi_cur_serial (ch_video ch)) ?cm" using ok by (simp add: channel_ok_def)
  have eff: "channel_ok ch1" using lock_effect [OF ok lk] by (simp add: lock_effect_def)
  then have ok2: "channel_ok ch2" using same by (simp add: channel_ok_def)
  then have cok2: "cache_ok (vi_cur_serial (ch_video ch2)) (ch_cache ch2)" by (simp add: channel_ok_def)
  show ?thesis
  proof (cases "entry ?cm s")
    case (Some c)
    from lock_hit [OF ok Some] obtain i where i: "i < length (cm_cache ?cm)" "cm_cache ?cm ! i = c" "used c" "cd_serial c = s"
      "1 \<le> cd_cnt c" and ch1: "ch1 = ch\<lparr>ch_cache := set_cache i (\<lambda>d. d\<lparr>cd_cnt := cd_cnt c + 1\<rparr>) ?cm\<rparr>"
      using lk by (metis prod.inject)
    let ?c = "c\<lparr>cd_cnt := cd_cnt c + 1\<rparr>"
    have cm2: "ch_cache ch2 = set_cache i (\<lambda>d. d\<lparr>cd_cnt := cd_cnt c + 1\<rparr>) ?cm" using same ch1 by simp
    have ent: "entry (ch_cache ch2) s = Some ?c"
      using lock_hit_entry(5) [OF ok Some lk, of s] same by simp
    from unlock_hit [OF ok2 ent] obtain j where j: "j < length (cm_cache (ch_cache ch2))" "cm_cache (ch_cache ch2) ! j = ?c"
      "used ?c" "cd_serial ?c = s" and un: "CacheMng_Video_CacheUnlock s ch2 = (0, ch2\<lparr>ch_cache :=
        (if 1 < cd_cnt ?c then set_cache j (\<lambda>d. d\<lparr>cd_cnt := cd_cnt ?c - 1\<rparr>) (ch_cache ch2)
         else with_entry j empty_entry (release_blks ?c (ch_cache ch2)) (ch_cache ch2))\<rparr>)" by blast
    have at_i: "cm_cache (ch_cache ch2) ! i = ?c" "i < length (cm_cache (ch_cache ch2))"
      using i(1,2) set_cache_nth [OF i(1), of i] cm2 by simp_all
    have "j = i" by (rule cache_ok_inj [OF cok2 j(1) at_i(2)]) (use j at_i in simp_all)
    then have "set_cache j (\<lambda>d. d\<lparr>cd_cnt := cd_cnt ?c - 1\<rparr>) (ch_cache ch2) = ?cm"
      using set_cnt_back [OF i(1,2)] by (simp add: cm2)
    with un i(5) show ?thesis by simp
  next
    case None
    from lock_new [OF ok None] lk obtain fi i bi c where
      c: "c = locked_entry (frame_at (ch_video ch) fi) bi (blocks_for (vf_realsize (frame_at (ch_video ch) fi)) (cm_blk_sz ?cm))"
      and i: "i < length (cm_cache ?cm)" "cm_cache ?cm ! i = empty_entry"
      and free: "\<forall>k. owns c k \<longrightarrow> cb_IsFree (cm_blk ?cm ! k) = 1"
      and "ch1 = ch\<lparr>ch_cache := with_entry i c (acquire_blks c ?cm) ?cm, ch_mem := mem_write (cache_addr ?cm c)
              (mem_read (frame_addr (ch_video ch) (frame_at (ch_video ch) fi)) (nat (cd_realsize c)) (ch_mem ch)) (ch_mem ch)\<rparr>"
      by auto
    then have ch1: "ch_cache ch1 = with_entry i c (acquire_blks c ?cm) ?cm" by simp
    from lock_new_entry [OF ok None lk] obtain c' where ent: "entry (ch_cache ch2) s = Some c'" "cd_cnt c' = 1"
      using same by (metis locked_entry_fields(3))
    from unlock_hit [OF ok2 ent(1)] obtain j where j: "j < length (cm_cache (ch_cache ch2))" "cm_cache (ch_cache ch2) ! j = c'"
      "used c'" "cd_serial c' = s" and un: "CacheMng_Video_CacheUnlock s ch2 = (0, ch2\<lparr>ch_cache :=
        with_entry j empty_entry (release_blks c' (ch_cache ch2)) (ch_cache ch2)\<rparr>)" using ent(2) by auto
    have "j = i"
    proof (rule ccontr)
      assume "j \<noteq> i"
      with j same ch1 have "cm_cache ?cm ! j = c'" "j < length (cm_cache ?cm)"
        using with_entry_nth [of j ?cm i c] by simp_all
      with None j(3,4) show False unfolding entry_None by blast
    qed
    then have "c' = c" using j i same ch1 with_entry_nth [OF i(1), of i c] by simp
    have "with_entry i empty_entry (release_blks c (ch_cache ch2)) (ch_cache ch2) = ?cm"
      using release_acquire [OF cok free, of i] with_entry_back [OF i] by (simp add: same(1) ch1)
    with un \<open>j = i\<close> \<open>c' = c\<close> show ?thesis by simp
  qed
qed

section \<open>Writing to the store\<close>

lemma cache_ok_later:
  assumes "cache_ok cur cm" "cur \<le> cur'"
  shows "cache_ok cur' cm"
proof -
  have "entry_ok cur cm c \<Longrightarrow> entry_ok cur' cm c" for c using assms(2) by (simp add: entry_ok_def)
  with assms(1) show ?thesis unfolding cache_ok_def by blast
qed

text \<open>The encoder's write, on a channel.\<close>

definition write_channel :: "byte list \<Rightarrow> int \<Rightarrow> channel \<Rightarrow> (int \<times> channel) option" where
  "write_channel bytes ft ch =
    (case MemMng_Video_Write (Some bytes) (int (length bytes)) ft (ch_video ch) (ch_mem ch) of
       None \<Rightarrow> None
     | Some (st, v, m) \<Rightarrow> Some (st, ch\<lparr>ch_video := v, ch_mem := m\<rparr>))"

lemma write_effect:
  assumes ok: "channel_ok ch" and cfg: "store_cfg (ch_video ch)" and wr: "writable (ch_video ch) (bytes, ft)"
  obtains ch' where "write_channel bytes ft ch = Some (0, ch')" "channel_ok ch'" "ch_cache ch' = ch_cache ch"
    "params (ch_video ch') = params (ch_video ch)" "vi_cur_serial (ch_video ch') = vi_cur_serial (ch_video ch) + 1"
    "\<And>t. cached ch' t = cached ch t"
proof -
  let ?v = "ch_video ch" and ?cm = "ch_cache ch"
  have sok: "store_ok ?v" and cok: "cache_ok (vi_cur_serial ?v) ?cm" and ccfg: "channel_cfg ?v ?cm"
    using ok by (simp_all add: channel_ok_def)
  from write_step [OF sok cfg wr, of "ch_mem ch"] obtain v m where
    w: "MemMng_Video_Write (Some bytes) (int (length bytes)) ft ?v (ch_mem ch) = Some (0, v, m)"
      "store_ok v" "settled v" "params v = params ?v" "vi_cur_serial v = vi_cur_serial ?v + 1" by metis
  let ?ch = "ch\<lparr>ch_video := v, ch_mem := m\<rparr>"
  have par: "vi_start v = vi_start ?v" "vi_blk_num v = vi_blk_num ?v" "vi_blk_sz v = vi_blk_sz ?v"
    "vi_extradata v = vi_extradata ?v" "vi_extrasize v = vi_extrasize ?v"
    using w(4) by (simp_all add: params_def)
  have "cached ?ch t = cached ch t" for t
  proof (rule cached_same_entry)
    fix d assume d: "entry ?cm t = Some d"
    have dok: "entry_ok (vi_cur_serial ?v) ?cm d" using entry_index [OF cok d] by blast
    note ext = cache_extent [OF dok cache_ok_geom(1) [OF cok]]
    have "m a = ch_mem ch a" if "cm_start_addr ?cm \<le> a" "a < cm_start_addr ?cm + cm_blk_num ?cm * cm_blk_sz ?cm" for a
      by (rule write_outside [OF sok cfg wr w(1)]) (use ccfg that in \<open>auto simp: channel_cfg_def\<close>)
    then show "mem_read (cache_addr ?cm d) (nat (cd_realsize d)) (ch_mem ?ch)
        = mem_read (cache_addr ?cm d) (nat (cd_realsize d)) (ch_mem ch)"
      using ext by (simp add: mem_read_def cache_addr_def)
  qed simp_all
  moreover have "channel_ok ?ch"
    using w ccfg cache_ok_later [OF cok, of "vi_cur_serial v"] par by (simp add: channel_ok_def channel_cfg_def)
  ultimately show thesis
    using w by (intro that [of ?ch]) (simp_all add: write_channel_def)
qed

section \<open>Reading\<close>

lemma read_cached:
  assumes ok: "channel_ok ch"
  shows "CacheMng_Video_CacheRead True limit s ch =
    (case cached ch s of
       None \<Rightarrow> (CACHE_PARM_ERR, None)
     | Some (ty, bytes) \<Rightarrow>
         if int (length bytes) > limit then (CACHE_MEM_FAIL, None)
         else (0, Some (int (length bytes), ty, Some bytes)))"
proof (cases "entry (ch_cache ch) s")
  case None
  have cok: "cache_ok (vi_cur_serial (ch_video ch)) (ch_cache ch)" using ok by (simp add: channel_ok_def)
  from FindCache_miss [OF cok None] None show ?thesis
    by (simp add: CacheMng_Video_CacheRead_def CacheMng_GetCacheBySerial_def cached_def Let_def)
next
  case (Some c)
  let ?cm = "ch_cache ch"
  have cok: "cache_ok (vi_cur_serial (ch_video ch)) ?cm" and cfg: "0 < cm_start_addr ?cm"
    using ok by (simp_all add: channel_ok_def channel_cfg_def)
  from FindCache_hit [OF cok Some] obtain i where i: "i < length (cm_cache ?cm)" "cm_cache ?cm ! i = c" "cd_serial c = s"
    "entry_ok (vi_cur_serial (ch_video ch)) ?cm c" "CacheMng_FindCacheBySerial s ch = int i" by blast
  have c: "0 \<le> s" "0 \<le> cd_blkindex c" "nat (cd_blkindex c) < length (cm_blk ?cm)" "0 < cd_realsize c"
    using i(3,4) cache_ok_geom [OF cok] by (auto simp: entry_ok_def)
  have addr: "cm_start_addr ?cm + cb_offset (cm_blk ?cm ! nat (cd_blkindex c)) = cache_addr ?cm c"
    using cache_ok_blk(1) [OF cok c(3)] c(2) by (simp add: cache_addr_def)
  have "0 < cache_addr ?cm c"
    using cfg c(2) cache_ok_geom(1) [OF cok] by (simp add: cache_addr_def add_pos_nonneg)
  then show ?thesis
    using c i(2,5) addr Some
    by (simp add: CacheMng_Video_CacheRead_def CacheMng_GetCacheBySerial_def cached_def Let_def)
qed

section \<open>Counted locks\<close>

text \<open>What a client of a lock table relies on: a lock counts or changes nothing, an
  unlock takes back a count that is there, and undoes the last lock as far as the
  table is concerned (the \<open>view\<close> leaves out the payload bytes); the \<open>rest\<close> of the
  state is left alone.\<close>

locale lock_table =
  fixes lock unlock :: "int \<Rightarrow> 's \<Rightarrow> int \<times> 's"
    and count :: "'s \<Rightarrow> int \<Rightarrow> int"
    and view :: "'s \<Rightarrow> 'v"
    and rest :: "'s \<Rightarrow> 'w"
    and good :: "'s \<Rightarrow> bool"
  assumes lock_ok: "good st \<Longrightarrow> lock s st = (0, st') \<Longrightarrow> good st' \<and> rest st' = rest st \<and> count st' = (count st)(s := count st s + 1)"
    and lock_fail: "good st \<Longrightarrow> lock s st = (r, st') \<Longrightarrow> r \<noteq> 0 \<Longrightarrow> r < 0 \<and> st' = st"
    and unlock_ok: "good st \<Longrightarrow> 0 < count st s \<Longrightarrow> unlock s st = (r, st')
      \<Longrightarrow> r = 0 \<and> good st' \<and> rest st' = rest st \<and> count st' = (count st)(s := count st s - 1)"
    and unlock_undoes: "good st \<Longrightarrow> lock s st = (0, st1) \<Longrightarrow> good st2 \<Longrightarrow> view st2 = view st1
      \<Longrightarrow> fst (unlock s st2) = 0 \<and> view (snd (unlock s st2)) = view st \<and> good (snd (unlock s st2))"

interpretation cache: lock_table CacheMng_Video_CacheLock CacheMng_Video_CacheUnlock
  "\<lambda>ch. lock_count (ch_cache ch)" "\<lambda>ch. (ch_video ch, ch_cache ch)" ch_video channel_ok
proof (unfold_locales, goal_cases)
  case (1 st s st')
  then show ?case using lock_effect [of st s st'] by (simp add: lock_effect_def)
next
  case (2 st s r st')
  then show ?case using Cache_Lock.lock_fail by blast
next
  case (3 st s r st')
  then show ?case using unlock_effect [of st s r st'] by blast
next
  case (4 st s st1 st2)
  then have un: "CacheMng_Video_CacheUnlock s st2 = (0, st2\<lparr>ch_cache := ch_cache st\<rparr>)"
    by (intro unlock_after_lock) simp_all
  have "ch_video st2 = ch_video st" using 4 lock_effect [of st s st1] by (simp add: lock_effect_def)
  with un 4(1) show ?case by (simp add: channel_ok_def)
qed

section \<open>When a lock succeeds\<close>

lemma find_run_iff:
  assumes "0 < b"
  shows "0 \<le> CacheMng_Find_Freeblk cm b \<longleftrightarrow>
    (\<exists>i. int i + b \<le> cm_blk_num cm \<and> (\<forall>k < nat b. cb_IsFree (cm_blk cm ! (i + k)) = 1))"
proof -
  have "\<not> 0 \<le> CacheMng_Find_Freeblk cm b \<longleftrightarrow>
    (\<forall>i < nat (cm_blk_num cm - b + 1). \<not> list_all (\<lambda>cnt2. cb_IsFree (cm_blk cm ! (i + cnt2)) = 1) [0..<nat b])"
    unfolding CacheMng_Find_Freeblk_def not_le first_index_miss ..
  moreover have "i < nat (cm_blk_num cm - b + 1) \<longleftrightarrow> int i + b \<le> cm_blk_num cm" for i by linarith
  ultimately show ?thesis by (auto simp: list_all_iff)
qed

lemma find_entry_iff:
  assumes "cache_ok cur cm"
  shows "0 \<le> CacheMng_Find_FreeCache cm \<longleftrightarrow> (\<exists>i < length (cm_cache cm). \<not> used (cm_cache cm ! i))"
proof -
  have "\<not> 0 \<le> CacheMng_Find_FreeCache cm \<longleftrightarrow> (\<forall>i < nat (cm_cache_num cm). \<not> cd_type (cm_cache cm ! i) = EMPTY_CACHE)"
    unfolding CacheMng_Find_FreeCache_def not_le first_index_miss ..
  then show ?thesis using cache_ok_geom(4) [OF assms] by (auto simp: used_def)
qed

lemma lock_succeeds_iff:
  assumes ok: "channel_ok ch"
  shows "fst (CacheMng_Video_CacheLock s ch) = 0 \<longleftrightarrow>
    0 < lock_count (ch_cache ch) s \<or>
    (\<exists>fi. MemMng_GetFrameBySerial s (ch_video ch) = Some fi
      \<and> (\<exists>i. int i + blocks_for (vf_realsize (frame_at (ch_video ch) fi)) (cm_blk_sz (ch_cache ch)) \<le> cm_blk_num (ch_cache ch)
           \<and> (\<forall>k < nat (blocks_for (vf_realsize (frame_at (ch_video ch) fi)) (cm_blk_sz (ch_cache ch))).
                cb_IsFree (cm_blk (ch_cache ch) ! (i + k)) = 1))
      \<and> (\<exists>i < length (cm_cache (ch_cache ch)). \<not> used (cm_cache (ch_cache ch) ! i)))"
proof (cases "entry (ch_cache ch) s")
  case (Some c)
  then show ?thesis
    using lock_hit [OF ok Some] lock_count_pos(1) [OF ok, of s] by (metis fst_conv option.distinct(1))
next
  case None
  have cok: "cache_ok (vi_cur_serial (ch_video ch)) (ch_cache ch)" using ok by (simp add: channel_ok_def)
  have cnt: "\<not> 0 < lock_count (ch_cache ch) s" using None lock_count_pos(1) [OF ok, of s] by simp
  have miss: "\<not> 0 \<le> CacheMng_FindCacheBySerial s ch" using FindCache_miss [OF cok None] by simp
  show ?thesis
  proof (cases "MemMng_GetFrameBySerial s (ch_video ch)")
    case none: None
    then show ?thesis using cnt miss by (simp add: CacheMng_Video_CacheLock_def Let_def const_defs)
  next
    case (Some fi)
    let ?b = "blocks_for (vf_realsize (frame_at (ch_video ch) fi)) (cm_blk_sz (ch_cache ch))"
    have b: "0 < ?b" using blocks_for_bounds(1) [OF found_frame(4) [OF ok Some] cache_ok_geom(1) [OF cok]] .
    have s: "\<not> s < 0" using found_frame(2) [OF ok Some] by simp
    have "fst (CacheMng_Video_CacheLock s ch) = 0 \<longleftrightarrow>
        0 \<le> CacheMng_Find_Freeblk (ch_cache ch) ?b \<and> 0 \<le> CacheMng_Find_FreeCache (ch_cache ch)"
    proof
      assume "fst (CacheMng_Video_CacheLock s ch) = 0"
      then show "0 \<le> CacheMng_Find_Freeblk (ch_cache ch) ?b \<and> 0 \<le> CacheMng_Find_FreeCache (ch_cache ch)"
        using s miss Some by (auto simp: CacheMng_Video_CacheLock_def Let_def const_defs split: if_splits)
    next
      assume "0 \<le> CacheMng_Find_Freeblk (ch_cache ch) ?b \<and> 0 \<le> CacheMng_Find_FreeCache (ch_cache ch)"
      then show "fst (CacheMng_Video_CacheLock s ch) = 0"
        using lock_new [OF ok None] Some by auto
    qed
    then show ?thesis using cnt Some find_run_iff [OF b, of "ch_cache ch"] find_entry_iff [OF cok] by simp
  qed
qed

section \<open>Holding a lock\<close>

text \<open>What may happen while a client holds a lock on \<open>s\<close>: writes by the encoder,
  locks and unlocks of any frame by anyone, as long as the count of \<open>s\<close> stays
  positive.\<close>

inductive held :: "int \<Rightarrow> channel \<Rightarrow> channel \<Rightarrow> bool" for s ch0 where
  held_start: "held s ch0 ch0"
| held_write: "held s ch0 ch \<Longrightarrow> store_cfg (ch_video ch) \<Longrightarrow> writable (ch_video ch) (bytes, ft)
    \<Longrightarrow> write_channel bytes ft ch = Some (r, ch') \<Longrightarrow> held s ch0 ch'"
| held_lock: "held s ch0 ch \<Longrightarrow> CacheMng_Video_CacheLock t ch = (r, ch') \<Longrightarrow> held s ch0 ch'"
| held_unlock: "held s ch0 ch \<Longrightarrow> CacheMng_Video_CacheUnlock t ch = (r, ch')
    \<Longrightarrow> 0 < lock_count (ch_cache ch') s \<Longrightarrow> held s ch0 ch'"

lemma lock_keeps:
  assumes "channel_ok ch" "0 < lock_count (ch_cache ch) s" "CacheMng_Video_CacheLock t ch = (r, ch')"
  shows "channel_ok ch' \<and> 0 < lock_count (ch_cache ch') s \<and> cached ch' s = cached ch s"
proof (cases "r = 0")
  case True
  have "cached ch s \<noteq> None" using assms(1,2) lock_count_pos(1) by (simp add: cached_def)
  moreover have "lock_effect t ch ch'" using lock_effect assms True by blast
  ultimately show ?thesis using assms(2) by (auto simp: lock_effect_def)
next
  case False
  then show ?thesis using Cache_Lock.lock_fail [OF assms(1,3)] assms by simp
qed

lemma unlock_keeps:
  assumes "channel_ok ch" "0 < lock_count (ch_cache ch') s" "CacheMng_Video_CacheUnlock t ch = (r, ch')"
  shows "channel_ok ch' \<and> cached ch' s = cached ch s"
proof (cases "0 < lock_count (ch_cache ch) t")
  case True
  then show ?thesis using unlock_effect(2,6) [OF assms(1) _ assms(3)] assms(2) by blast
next
  case False
  then have "lock_count (ch_cache ch) t = 0" using lock_count_pos(2) [OF assms(1), of t] by simp
  then show ?thesis using unlock_none(2) [OF assms(1) _ assms(3)] assms by simp
qed

lemma held_keeps:
  assumes "held s ch ch'" "channel_ok ch" "0 < lock_count (ch_cache ch) s"
  shows "channel_ok ch' \<and> 0 < lock_count (ch_cache ch') s \<and> cached ch' s = cached ch s"
  using assms
proof induction
  case held_start
  then show ?case by simp
next
  case (held_write ch1 bytes ft r ch2)
  then have ok1: "channel_ok ch1" "0 < lock_count (ch_cache ch1) s" "cached ch1 s = cached ch s" by auto
  from write_effect [OF ok1(1) held_write.hyps(2,3)] held_write.hyps(4)
  have "channel_ok ch2" "ch_cache ch2 = ch_cache ch1" "cached ch2 s = cached ch1 s" by (metis option.inject prod.inject)+
  with ok1 show ?case by simp
next
  case (held_lock ch1 t r ch2)
  then show ?case using lock_keeps [of ch1 s t r ch2] by simp
next
  case (held_unlock ch1 t r ch2)
  then show ?case using unlock_keeps [of ch1 ch2 s t r] by simp
qed

section \<open>A fresh cache\<close>

lemma placed_cache_ok:
  assumes "0 < cm_blk_sz c" "0 \<le> cm_blk_num c" "0 \<le> cm_cache_num c"
  shows "cache_ok cur (place_cache sa sp off c)" "lock_count (place_cache sa sp off c) s = 0"
proof -
  let ?c = "place_cache sa sp off c"
  have "cm_cache ?c ! i = empty_entry" if "i < length (cm_cache ?c)" for i
    using that by (simp add: place_cache_def)
  moreover have "cb_offset (cm_blk ?c ! k) = int k * cm_blk_sz ?c \<and> cb_IsFree (cm_blk ?c ! k) = 1 \<and> cb_serial (cm_blk ?c ! k) = -1"
    if "k < length (cm_blk ?c)" for k
    using that by (simp add: place_cache_def CacheMng_blk_reset_def)
  moreover have "0 < cm_blk_sz ?c" "0 \<le> cm_blk_num ?c" "0 \<le> cm_cache_num ?c"
    "length (cm_cache ?c) = nat (cm_cache_num ?c)" "length (cm_blk ?c) = nat (cm_blk_num ?c)"
    using assms by (simp_all add: place_cache_def)
  ultimately show "cache_ok cur ?c" unfolding cache_ok_def by simp
  have "entry ?c s = None" unfolding entry_None by (simp add: place_cache_def)
  then show "lock_count ?c s = 0" by (simp add: lock_count_def)
qed

text \<open>The small store of Mem_Gop with a cache of two entries and four blocks at
  address 2000, and the frame with serial 0 written to it.\<close>

definition demo_cache :: cache_mng where
  "demo_cache = place_cache 2000 2000 0 (zero_cm\<lparr>cm_blk_num := 4, cm_cache_num := 2\<rparr>)"

definition demo_channel :: channel where
  "demo_channel = \<lparr>ch_video = demo_store, ch_cache = demo_cache, ch_mem = (\<lambda>_. 0)\<rparr>"

lemma demo_channel_ok: "channel_ok demo_channel" "store_cfg (ch_video demo_channel)"
proof -
  have "cache_ok cur demo_cache" for cur
    unfolding demo_cache_def by (rule placed_cache_ok) (simp_all add: zero_cm_def)
  moreover have "cm_start_addr demo_cache = 2000" "cm_blk_num demo_cache = 4" "cm_blk_sz demo_cache = 4"
    by (simp_all add: demo_cache_def place_cache_def zero_cm_def)
  ultimately show "channel_ok demo_channel"
    using fresh_ok [OF demo_store_fresh(1)]
    by (simp add: channel_ok_def demo_channel_def channel_cfg_def demo_store_def)
  show "store_cfg (ch_video demo_channel)" using demo_store_fresh(2) by (simp add: demo_channel_def)
qed

definition demo_ready :: channel where
  "demo_ready = snd (the (write_channel [1, 2, 3, 4, 5] I_FRAME demo_channel))"

lemma demo_write: "write_channel [1, 2, 3, 4, 5] I_FRAME demo_channel = Some (0, demo_ready)"
  and demo_ready_ok: "channel_ok demo_ready" "ch_cache demo_ready = demo_cache"
proof -
  have "writable (ch_video demo_channel) ([1, 2, 3, 4, 5], I_FRAME)"
    by (simp add: writable_def demo_channel_def demo_store_def const_defs)
  from write_effect [OF demo_channel_ok this] obtain ch' where
    "write_channel [1, 2, 3, 4, 5] I_FRAME demo_channel = Some (0, ch')" "channel_ok ch'"
    "ch_cache ch' = ch_cache demo_channel" by blast
  then show "write_channel [1, 2, 3, 4, 5] I_FRAME demo_channel = Some (0, demo_ready)" "channel_ok demo_ready"
    "ch_cache demo_ready = demo_cache"
    by (simp_all add: demo_ready_def demo_channel_def)
qed

lemma demo_found: "MemMng_GetFrameBySerial 0 (ch_video demo_ready) = Some 0"
  "vf_realsize (frame_at (ch_video demo_ready) 0) = 5"
  by (simp_all add: demo_ready_def write_channel_def demo_channel_def run_defs MemMng_GetFrameBySerial_def upt_rec)

lemma demo_lock: "fst (CacheMng_Video_CacheLock 0 demo_ready) = 0"
proof -
  have two: "k < nat 2 \<longleftrightarrow> k = 0 \<or> k = 1" for k :: nat by auto
  have "int 0 + blocks_for (vf_realsize (frame_at (ch_video demo_ready) 0)) (cm_blk_sz (ch_cache demo_ready))
      \<le> cm_blk_num (ch_cache demo_ready)
    \<and> (\<forall>k < nat (blocks_for (vf_realsize (frame_at (ch_video demo_ready) 0)) (cm_blk_sz (ch_cache demo_ready))).
        cb_IsFree (cm_blk (ch_cache demo_ready) ! (0 + k)) = 1)"
    using demo_found(2) two
    by (auto simp: demo_ready_ok demo_cache_def place_cache_def zero_cm_def CacheMng_blk_reset_def upt_rec)
  moreover have "0 < length (cm_cache (ch_cache demo_ready)) \<and> \<not> used (cm_cache (ch_cache demo_ready) ! 0)"
    by (simp add: demo_ready_ok demo_cache_def place_cache_def zero_cm_def)
  ultimately show ?thesis
    unfolding lock_succeeds_iff [OF demo_ready_ok(1)] using demo_found(1) by blast
qed

section \<open>Properties\<close>

text \<open>C39: What a client holds stays what it was.  A frame that nobody has locked is
  locked successfully; then, whatever the encoder writes and other clients lock
  and unlock, as long as the count of the frame stays positive,
  \<open>CacheMng_Video_CacheRead\<close> delivers the type and the bytes the store held for this
  serial number at the time of the lock, and refuses only a buffer that is too
  small.\<close>

theorem locked_payload_stable:
  assumes "channel_ok ch" "lock_count (ch_cache ch) s = 0"
    and "CacheMng_Video_CacheLock s ch = (0, ch1)" "held s ch1 ch2"
  shows "\<exists>ty bytes. (s, ty, bytes) \<in> set (contents (ch_video ch) (ch_mem ch))
    \<and> (\<forall>limit. CacheMng_Video_CacheRead True limit s ch2 =
          (if int (length bytes) > limit then (CACHE_MEM_FAIL, None)
           else (0, Some (int (length bytes), ty, Some bytes))))"
proof -
  have eff: "lock_effect s ch ch1" by (rule lock_effect [OF assms(1,3)])
  have "cached ch s = None" using assms(2) lock_count_pos(1) [OF assms(1), of s] by (simp add: cached_def)
  with eff obtain ty bytes where c: "cached ch1 s = Some (ty, bytes)"
    "(s, ty, bytes) \<in> set (contents (ch_video ch) (ch_mem ch))" by (auto simp: lock_effect_def)
  have "channel_ok ch1" "0 < lock_count (ch_cache ch1) s" using eff assms(2) by (auto simp: lock_effect_def)
  with held_keeps [OF assms(4)] c(1) have "channel_ok ch2" "cached ch2 s = Some (ty, bytes)" by auto
  with read_cached [of ch2 _ s] c(2) show ?thesis by auto
qed

lemma locked_payload_stable_witness:
  "\<exists>ty bytes. (0, ty, bytes) \<in> set (contents (ch_video demo_ready) (ch_mem demo_ready))
    \<and> (\<forall>limit. CacheMng_Video_CacheRead True limit 0 (snd (CacheMng_Video_CacheLock 0 demo_ready)) =
          (if int (length bytes) > limit then (CACHE_MEM_FAIL, None)
           else (0, Some (int (length bytes), ty, Some bytes))))"
proof (rule locked_payload_stable [OF demo_ready_ok(1)])
  show "lock_count (ch_cache demo_ready) 0 = 0"
    unfolding demo_ready_ok(2) demo_cache_def by (rule placed_cache_ok) (simp_all add: zero_cm_def)
  show "CacheMng_Video_CacheLock 0 demo_ready = (0, snd (CacheMng_Video_CacheLock 0 demo_ready))"
    using demo_lock by (metis prod.collapse)
qed (rule held_start)

text \<open>\<open>CacheMng_Video_CacheLock\<close> counts.  It keeps the invariant of the channel
  and does not touch the frame store; it succeeds exactly when the frame is held
  already, or the store has it and the cache has a free entry and a free run of
  blocks long enough; a success adds one to the count of that serial number and to
  no other, and a failure leaves the channel as it was.\<close>

theorem CacheLock_spec:
  assumes "channel_ok ch" "CacheMng_Video_CacheLock s ch = (r, ch')"
  shows "channel_ok ch' \<and> ch_video ch' = ch_video ch
    \<and> contents (ch_video ch) (ch_mem ch') = contents (ch_video ch) (ch_mem ch)
    \<and> (r = 0 \<and> lock_count (ch_cache ch') = (lock_count (ch_cache ch))(s := lock_count (ch_cache ch) s + 1)
       \<or> r < 0 \<and> ch' = ch)
    \<and> (r = 0 \<longleftrightarrow> 0 < lock_count (ch_cache ch) s \<or>
      (\<exists>fi. MemMng_GetFrameBySerial s (ch_video ch) = Some fi
        \<and> (\<exists>i. int i + blocks_for (vf_realsize (frame_at (ch_video ch) fi)) (cm_blk_sz (ch_cache ch)) \<le> cm_blk_num (ch_cache ch)
             \<and> (\<forall>k < nat (blocks_for (vf_realsize (frame_at (ch_video ch) fi)) (cm_blk_sz (ch_cache ch))).
                  cb_IsFree (cm_blk (ch_cache ch) ! (i + k)) = 1))
        \<and> (\<exists>i < length (cm_cache (ch_cache ch)). \<not> used (cm_cache (ch_cache ch) ! i))))"
proof -
  have iff: "fst (CacheMng_Video_CacheLock s ch) = r" using assms(2) by simp
  note lock_succeeds_iff [OF assms(1), of s, unfolded iff]
  moreover have "channel_ok ch' \<and> ch_video ch' = ch_video ch
    \<and> contents (ch_video ch) (ch_mem ch') = contents (ch_video ch) (ch_mem ch)
    \<and> (r = 0 \<and> lock_count (ch_cache ch') = (lock_count (ch_cache ch))(s := lock_count (ch_cache ch) s + 1)
       \<or> r < 0 \<and> ch' = ch)"
  proof (cases "r = 0")
    case True
    have "lock_effect s ch ch'" using lock_effect assms True by blast
    then show ?thesis using True by (simp add: lock_effect_def)
  next
    case False
    then show ?thesis using Cache_Lock.lock_fail [OF assms False] assms(1) by simp
  qed
  ultimately show ?thesis by blast
qed

lemma CacheLock_spec_witness:
  "lock_count (ch_cache (snd (CacheMng_Video_CacheLock 0 demo_ready))) 0
    = lock_count (ch_cache demo_ready) 0 + 1"
  using CacheLock_spec [OF demo_ready_ok(1), of 0] demo_lock
  by (cases "CacheMng_Video_CacheLock 0 demo_ready") fastforce

text \<open>\<open>CacheMng_Video_CacheUnlock\<close> keeps the invariant, takes back one lock if
  there is one and fails without effect if there is none; the payload of every
  frame that is still locked afterwards is untouched.\<close>

theorem CacheUnlock_spec:
  assumes "channel_ok ch" "CacheMng_Video_CacheUnlock s ch = (r, ch')"
  shows "channel_ok ch' \<and> ch_video ch' = ch_video ch \<and> ch_mem ch' = ch_mem ch
    \<and> (0 < lock_count (ch_cache ch) s \<and> r = 0
         \<and> lock_count (ch_cache ch') = (lock_count (ch_cache ch))(s := lock_count (ch_cache ch) s - 1)
       \<or> lock_count (ch_cache ch) s = 0 \<and> r < 0 \<and> ch' = ch)
    \<and> (lock_count (ch_cache ch') t \<le> 0 \<or> cached ch' t = cached ch t)"
proof (cases "0 < lock_count (ch_cache ch) s")
  case True
  note eff = unlock_effect [OF assms(1) True assms(2)]
  have "lock_count (ch_cache ch') t \<le> 0 \<or> cached ch' t = cached ch t" using eff(6) by (meson not_le)
  with True eff(1-5) show ?thesis by blast
next
  case False
  then have "lock_count (ch_cache ch) s = 0" using lock_count_pos(2) [OF assms(1), of s] by simp
  with unlock_none [OF assms(1) this assms(2)] assms(1) show ?thesis by simp
qed

lemma CacheUnlock_spec_witness:
  "CacheMng_Video_CacheUnlock 0 demo_ready = (fst (CacheMng_Video_CacheUnlock 0 demo_ready), demo_ready)"
proof -
  have "lock_count (ch_cache demo_ready) 0 = 0"
    unfolding demo_ready_ok(2) demo_cache_def by (rule placed_cache_ok) (simp_all add: zero_cm_def)
  then show ?thesis
    using CacheUnlock_spec [OF demo_ready_ok(1), of 0] by (metis less_irrefl prod.collapse)
qed

text \<open>Unlocking undoes locking.  A lock followed by an unlock of the same frame
  leaves the cache manager, down to the entry and the blocks used, and the store
  exactly as before, so that nothing leaks.\<close>

theorem unlock_undoes_lock:
  assumes "channel_ok ch" "CacheMng_Video_CacheLock s ch = (0, ch1)"
  shows "\<exists>ch2. CacheMng_Video_CacheUnlock s ch1 = (0, ch2)
    \<and> ch_cache ch2 = ch_cache ch \<and> ch_video ch2 = ch_video ch"
  using unlock_after_lock [OF assms refl refl] lock_effect [OF assms] by (simp add: lock_effect_def)

lemma unlock_undoes_lock_witness:
  "\<exists>ch2. CacheMng_Video_CacheUnlock 0 (snd (CacheMng_Video_CacheLock 0 demo_ready)) = (0, ch2)
    \<and> ch_cache ch2 = ch_cache demo_ready \<and> ch_video ch2 = ch_video demo_ready"
  by (rule unlock_undoes_lock [OF demo_ready_ok(1)]) (use demo_lock in \<open>metis prod.collapse\<close>)

end
