(* ===== verification/Gop_Lock.thy ===== *)
theory Gop_Lock
  imports Cache_Client
begin

text \<open>Locks on groups of pictures (src/gop_lock.c).  A client locks a group: all its
  frames are locked in the cache, and the group enters a list with its own count.
  The list is that of one index, newest first; a pointer to a group is its
  position.  The calls of the semaphore around the list updates leave no trace.\<close>

section \<open>State\<close>

definition GOP_FAIL :: int where [const_defs]: "GOP_FAIL = -104"
definition GOP_INCOMPLETE :: int where [const_defs]: "GOP_INCOMPLETE = -103"
definition GOP_INVALID_PRM :: int where [const_defs]: "GOP_INVALID_PRM = -102"
definition GOP_ERROR_OP :: int where [const_defs]: "GOP_ERROR_OP = -101"
definition GOP_NOMEM :: int where [const_defs]: "GOP_NOMEM = -100"
definition GOP_OVERWRITTEN :: int where [const_defs]: "GOP_OVERWRITTEN = -99"
definition GOP_NOT_READY :: int where [const_defs]: "GOP_NOT_READY = -98"
definition GOP_COMPLETE :: int where [const_defs]: "GOP_COMPLETE = 0"

record gop_info =
  gi_start :: int
  gi_end :: int
  gi_lock :: int

type_synonym gop_state = "gop_info list \<times> channel"

definition GopInit :: "nat \<Rightarrow> gop_info list" where
  "GopInit index = []"

section \<open>The list\<close>

definition covers :: "gop_info \<Rightarrow> int \<Rightarrow> bool" where
  "covers g serial \<longleftrightarrow> gi_start g \<le> serial \<and> serial \<le> gi_end g"

definition GetGopInfoBySerial :: "int \<Rightarrow> gop_info list \<Rightarrow> nat option" where
  "GetGopInfoBySerial serial gl = List.find (\<lambda>n. covers (gl ! n) serial) [0..<length gl]"

text \<open>\<open>alloc\<close>: the allocation succeeds.\<close>

definition AddNewGop :: "bool \<Rightarrow> int \<Rightarrow> int \<Rightarrow> gop_info list \<Rightarrow> int \<times> gop_info list" where
  "AddNewGop alloc start_serial end_serial gl =
    (if \<not> alloc then (GOP_NOMEM, gl)
     else (GOP_COMPLETE, \<lparr>gi_start = start_serial, gi_end = end_serial, gi_lock = 1\<rparr> # gl))"

definition DeleteGop :: "nat option \<Rightarrow> gop_info list \<Rightarrow> int \<times> gop_info list" where
  "DeleteGop pGop gl =
    (case pGop of
       None \<Rightarrow> (GOP_INVALID_PRM, gl)
     | Some n \<Rightarrow> if n < length gl then (GOP_COMPLETE, take n gl @ drop (Suc n) gl) else (GOP_FAIL, gl))"

section \<open>Locking and unlocking the frames of a group\<close>

text \<open>The loops of \<open>LockGop\<close> and \<open>UnlockGop\<close> over any lock table: lock the serials
  one by one, and on a failure unlock the ones done in reverse; unlock the serials
  one by one, and tell whether all were locked.\<close>

fun unlock_each :: "(int \<Rightarrow> 's \<Rightarrow> int \<times> 's) \<Rightarrow> int list \<Rightarrow> 's \<Rightarrow> bool \<times> 's" where
  "unlock_each unlock [] st = (True, st)"
| "unlock_each unlock (s # ss) st =
    (let r = unlock s st; q = unlock_each unlock ss (snd r) in (fst r = 0 \<and> fst q, snd q))"

fun lock_each :: "(int \<Rightarrow> 's \<Rightarrow> int \<times> 's) \<Rightarrow> (int \<Rightarrow> 's \<Rightarrow> int \<times> 's) \<Rightarrow> int list \<Rightarrow> int list \<Rightarrow> 's \<Rightarrow> int \<times> 's" where
  "lock_each lock unlock locked [] st = (0, st)"
| "lock_each lock unlock locked (s # ss) st =
    (let r = lock s st in
     if fst r \<noteq> 0 then (fst r, snd (unlock_each unlock locked (snd r)))
     else lock_each lock unlock (s # locked) ss (snd r))"

definition LockGop :: "int \<Rightarrow> int \<Rightarrow> channel \<Rightarrow> int \<times> channel" where
  "LockGop start_serial end_serial ch =
    (let r = lock_each CacheMng_Video_CacheLock CacheMng_Video_CacheUnlock [] [start_serial..end_serial] ch in
     (if fst r = 0 then GOP_COMPLETE else if fst r = CACHE_NOMEM then GOP_NOMEM else GOP_FAIL, snd r))"

definition UnlockGop :: "int \<Rightarrow> int \<Rightarrow> channel \<Rightarrow> int \<times> channel" where
  "UnlockGop start_serial end_serial ch =
    (let r = unlock_each CacheMng_Video_CacheUnlock [start_serial..end_serial] ch in
     (if fst r then GOP_COMPLETE else GOP_FAIL, snd r))"

definition AddAndLockGop :: "bool \<Rightarrow> int \<Rightarrow> int \<Rightarrow> gop_state \<Rightarrow> int \<times> gop_state" where
  "AddAndLockGop alloc start_serial end_serial st =
    (let a = AddNewGop alloc start_serial end_serial (fst st) in
     if fst a \<noteq> 0 then (fst a, snd a, snd st)
     else let l = LockGop start_serial end_serial (snd st) in
       if fst l \<noteq> 0
       then (case GetGopInfoBySerial start_serial (snd a) of
               Some n \<Rightarrow> (fst l, snd (DeleteGop (Some n) (snd a)), snd l)
             | None \<Rightarrow> (fst l, snd a, snd l))
       else (fst l, snd a, snd l))"

text \<open>The last frame of the group that starts at \<open>start_serial\<close>: the search for the
  next I frame.\<close>

function last_P :: "video_blk_info \<Rightarrow> int \<Rightarrow> int" where
  "last_P v LastP =
    (case MemMng_GetFrameBySerial LastP v of
       None \<Rightarrow> -1
     | Some i \<Rightarrow> if vf_type (frame_at v i) = I_FRAME then LastP - 1 else last_P v (LastP + 1))"
  by pat_completeness auto

termination
proof (relation "measure (\<lambda>(v, LastP). nat (vi_cur_serial v + 1 - LastP))")
  fix v :: video_blk_info and LastP i
  assume "MemMng_GetFrameBySerial LastP v = Some i"
  then have "LastP \<le> vi_cur_serial v" by (auto simp: MemMng_GetFrameBySerial_def split: if_splits)
  then show "((v, LastP + 1), v, LastP) \<in> measure (\<lambda>(v, LastP). nat (vi_cur_serial v + 1 - LastP))" by simp
qed simp

declare last_P.simps [simp del]

definition GetGopLastPwithStartSerial :: "int \<Rightarrow> video_blk_info \<Rightarrow> int" where
  "GetGopLastPwithStartSerial start_serial v = last_P v (start_serial + 1)"

section \<open>The operations of the clients\<close>

definition LockGopBySerial :: "bool \<Rightarrow> int \<Rightarrow> gop_state \<Rightarrow> int \<times> gop_state" where
  "LockGopBySerial alloc serial st =
    (let gl = fst st; ch = snd st in
     if serial < 0 then (GOP_INVALID_PRM, st)
     else case GetGopInfoBySerial serial gl of
       Some n \<Rightarrow> (GOP_COMPLETE, gl[n := (gl ! n)\<lparr>gi_lock := gi_lock (gl ! n) + 1\<rparr>], ch)
     | None \<Rightarrow>
         let cur_serial = GetCurrentSerialNo (ch_video ch) in
         case MemMng_GetFrameBySerial serial (ch_video ch) of
           None \<Rightarrow> (if cur_serial = serial then GOP_FAIL
                    else if cur_serial < serial then GOP_NOT_READY else GOP_OVERWRITTEN, st)
         | Some fi \<Rightarrow>
             if vf_type (frame_at (ch_video ch) fi) = I_FRAME then
               let end_serial = GetGopLastPwithStartSerial serial (ch_video ch) in
               if 0 > end_serial then
                 let r = AddAndLockGop alloc serial cur_serial st in
                 (if fst r = GOP_COMPLETE then GOP_INCOMPLETE else fst r, snd r)
               else AddAndLockGop alloc serial end_serial st
             else if vf_type (frame_at (ch_video ch) fi) = P_FRAME then
               case GetGopInfoBySerial (serial - 1) gl of
                 Some n \<Rightarrow>
                   let r = CacheMng_Video_CacheLock serial ch in
                   if fst r = 0
                   then (0, gl[n := (gl ! n)\<lparr>gi_lock := gi_lock (gl ! n) + 1, gi_end := serial\<rparr>], snd r)
                   else (if fst r = CACHE_NOMEM then GOP_NOMEM else GOP_FAIL, gl, snd r)
               | None \<Rightarrow> (GOP_ERROR_OP, st)
             else (GOP_COMPLETE, st))"

definition UnlockGopBySerial :: "int \<Rightarrow> gop_state \<Rightarrow> int \<times> gop_state" where
  "UnlockGopBySerial serial st =
    (let gl = fst st; ch = snd st; cur_serial = GetCurrentSerialNo (ch_video ch) in
     if serial < 0 then (GOP_INVALID_PRM, st)
     else case GetGopInfoBySerial serial gl of
       None \<Rightarrow> (GOP_INVALID_PRM, st)
     | Some n \<Rightarrow>
         let gl1 = gl[n := (gl ! n)\<lparr>gi_lock := gi_lock (gl ! n) - 1\<rparr>]; g = gl1 ! n in
         if gi_lock g = 0 then
           (if gi_start g \<le> cur_serial \<and> gi_end g \<ge> cur_serial then GOP_INCOMPLETE else GOP_COMPLETE,
            snd (DeleteGop (Some n) gl1), snd (UnlockGop (gi_start g) (gi_end g) ch))
         else (GOP_COMPLETE, gl1, ch))"

fun GopCleanup :: "gop_info list \<Rightarrow> channel \<Rightarrow> gop_info list \<times> channel" where
  "GopCleanup [] ch = ([], ch)"
| "GopCleanup (g # gl) ch = GopCleanup gl (snd (UnlockGop (gi_start g) (gi_end g) ch))"

definition LockCurrentGopP :: "gop_state \<Rightarrow> int \<times> gop_state" where
  "LockCurrentGopP st =
    (let gl = fst st; ch = snd st; cur_serial = GetCurrentSerialNo (ch_video ch) in
     case GetGopInfoBySerial (cur_serial - 1) gl of
       None \<Rightarrow> (GOP_ERROR_OP, st)
     | Some n \<Rightarrow>
         let r = CacheMng_Video_CacheLock cur_serial ch in
         if fst r \<noteq> 0 then
           (if fst r = CACHE_NOMEM then GOP_NOMEM else GOP_FAIL,
            snd (DeleteGop (Some n) gl), snd (UnlockGop (gi_start (gl ! n)) (gi_end (gl ! n)) (snd r)))
         else (GOP_COMPLETE, gl[n := (gl ! n)\<lparr>gi_end := cur_serial\<rparr>], snd r))"

section \<open>The loops over a lock table\<close>

inductive locked_by :: "(int \<Rightarrow> 's \<Rightarrow> int \<times> 's) \<Rightarrow> 's \<Rightarrow> int list \<Rightarrow> 's \<Rightarrow> bool" for lock st0 where
  locked_none: "locked_by lock st0 [] st0"
| locked_more: "locked_by lock st0 ss st \<Longrightarrow> lock s st = (0, st') \<Longrightarrow> locked_by lock st0 (s # ss) st'"

context lock_table
begin

lemma unlock_each_ok:
  assumes "good st" "\<And>t. int (count_list ss t) \<le> count st t"
  shows "fst (unlock_each unlock ss st) \<and> good (snd (unlock_each unlock ss st))
    \<and> rest (snd (unlock_each unlock ss st)) = rest st \<and> count (snd (unlock_each unlock ss st)) = (\<lambda>t. count st t - int (count_list ss t))"
  using assms
proof (induction ss arbitrary: st)
  case (Cons s ss)
  have "0 < count st s" using Cons.prems(2) [of s] by simp
  then obtain st1 where un: "unlock s st = (0, st1)" "good st1" "rest st1 = rest st" "count st1 = (count st)(s := count st s - 1)"
    using unlock_ok [OF Cons.prems(1)] by (metis prod.collapse)
  have "int (count_list ss t) \<le> count st1 t" for t
    using Cons.prems(2) [of t] un(4) by (simp split: if_splits)
  from Cons.IH [OF un(2) this] un(1,3,4) show ?case by (auto simp: Let_def)
qed simp

lemma rollback:
  assumes "locked_by lock st0 ss st" "good st0" "good st2" "view st2 = view st"
  shows "good (snd (unlock_each unlock ss st2)) \<and> view (snd (unlock_each unlock ss st2)) = view st0"
  using assms
proof (induction arbitrary: st2)
  case (locked_more ss st s st')
  have "good st"
    using locked_more.hyps(1) \<open>good st0\<close> by induction (auto dest: lock_ok)
  from unlock_undoes [OF this locked_more.hyps(2) locked_more.prems(2,3)]
  show ?case using locked_more.IH [OF \<open>good st0\<close>] by (simp add: Let_def)
qed simp

lemma lock_each_spec:
  assumes "locked_by lock st0 locked st" "good st0" "good st" "lock_each lock unlock locked ss st = (r, st')"
  shows "good st' \<and> (r = 0 \<and> rest st' = rest st \<and> count st' = (\<lambda>t. count st t + int (count_list ss t))
    \<or> r < 0 \<and> view st' = view st0)"
  using assms
proof (induction ss arbitrary: locked st)
  case Nil
  then show ?case by auto
next
  case (Cons s ss)
  obtain q st1 where lk: "lock s st = (q, st1)" by (cases "lock s st")
  show ?case
  proof (cases "q = 0")
    case True
    with lock_ok [OF Cons.prems(3), of s st1] lk
    have 1: "good st1" "rest st1 = rest st" "count st1 = (count st)(s := count st s + 1)" by auto
    from Cons.IH [OF locked_more [OF Cons.prems(1)] Cons.prems(2) 1(1)] Cons.prems(4) lk True 1(2,3)
    show ?thesis by (fastforce simp: Let_def)
  next
    case False
    with lock_fail [OF Cons.prems(3) lk] have "q < 0" "st1 = st" by auto
    with rollback [OF Cons.prems(1,2) Cons.prems(3) refl] Cons.prems(4) lk False show ?thesis
      by (auto simp: Let_def)
  qed
qed

lemma lock_all_spec:
  assumes "good st" "lock_each lock unlock [] ss st = (r, st')"
  shows "good st' \<and> (r = 0 \<and> rest st' = rest st \<and> count st' = (\<lambda>t. count st t + int (count_list ss t)) \<or> r < 0 \<and> view st' = view st)"
  using lock_each_spec [OF locked_none assms(1,1,2)] .

end

section \<open>Groups and counts\<close>

lemma count_upto: "int (count_list [a..b] t) = (if a \<le> t \<and> t \<le> b then 1 else 0)"
proof -
  have "distinct xs \<Longrightarrow> int (count_list xs t) = (if t \<in> set xs then 1 else 0)" for xs :: "int list"
    by (induction xs) auto
  from this [of "[a..b]"] show ?thesis by simp
qed

lemma LockGop_spec:
  assumes "channel_ok ch" "LockGop a b ch = (r, ch')"
  shows "channel_ok ch' \<and> ch_video ch' = ch_video ch
    \<and> (r = 0 \<and> lock_count (ch_cache ch') = (\<lambda>t. lock_count (ch_cache ch) t + (if a \<le> t \<and> t \<le> b then 1 else 0))
       \<or> (r = GOP_NOMEM \<or> r = GOP_FAIL) \<and> ch_cache ch' = ch_cache ch)"
proof -
  obtain q st where run: "lock_each CacheMng_Video_CacheLock CacheMng_Video_CacheUnlock [] [a..b] ch = (q, st)"
    by fastforce
  have "r = (if q = 0 then GOP_COMPLETE else if q = CACHE_NOMEM then GOP_NOMEM else GOP_FAIL)" "ch' = st"
    using assms(2) run by (auto simp: LockGop_def Let_def)
  with cache.lock_all_spec [OF assms(1) run] show ?thesis by (auto simp: count_upto const_defs)
qed

lemma UnlockGop_spec:
  assumes "channel_ok ch" "\<And>t. a \<le> t \<Longrightarrow> t \<le> b \<Longrightarrow> 1 \<le> lock_count (ch_cache ch) t"
  shows "fst (UnlockGop a b ch) = 0 \<and> channel_ok (snd (UnlockGop a b ch))
    \<and> ch_video (snd (UnlockGop a b ch)) = ch_video ch
    \<and> lock_count (ch_cache (snd (UnlockGop a b ch)))
        = (\<lambda>t. lock_count (ch_cache ch) t - (if a \<le> t \<and> t \<le> b then 1 else 0))"
proof -
  have "int (count_list [a..b] t) \<le> lock_count (ch_cache ch) t" for t
    using assms(2) [of t] lock_count_pos(2) [OF assms(1), of t] by (simp add: count_upto)
  from cache.unlock_each_ok [OF assms(1) this] show ?thesis
    by (simp add: UnlockGop_def Let_def count_upto const_defs)
qed

text \<open>How many groups of the list cover a serial number.\<close>

definition gop_locks :: "gop_info list \<Rightarrow> int \<Rightarrow> int" where
  "gop_locks gl t = (\<Sum>g\<leftarrow>gl. if covers g t then 1 else 0)"

lemma gop_locks_simps [simp]:
  "gop_locks [] t = 0" "gop_locks (g # gl) t = (if covers g t then 1 else 0) + gop_locks gl t"
  "gop_locks (gl @ hl) t = gop_locks gl t + gop_locks hl t"
  by (simp_all add: gop_locks_def)

lemma gop_locks_nonneg: "0 \<le> gop_locks gl t"
  by (induction gl) auto

lemma gop_locks_split:
  assumes "n < length gl"
  shows "gop_locks (take n gl @ drop (Suc n) gl) t = gop_locks gl t - (if covers (gl ! n) t then 1 else 0)"
    "gop_locks (gl[n := g]) t = gop_locks gl t - (if covers (gl ! n) t then 1 else 0) + (if covers g t then 1 else 0)"
proof -
  have "gl = take n gl @ gl ! n # drop (Suc n) gl" by (rule id_take_nth_drop [OF assms])
  then have eq: "gop_locks gl t = gop_locks (take n gl @ gl ! n # drop (Suc n) gl) t" by simp
  show "gop_locks (take n gl @ drop (Suc n) gl) t = gop_locks gl t - (if covers (gl ! n) t then 1 else 0)"
    unfolding eq by simp
  show "gop_locks (gl[n := g]) t = gop_locks gl t - (if covers (gl ! n) t then 1 else 0) + (if covers g t then 1 else 0)"
    unfolding eq upd_conv_take_nth_drop [OF assms] by simp
qed

lemma gop_locks_member: "n < length gl \<Longrightarrow> covers (gl ! n) t \<Longrightarrow> 1 \<le> gop_locks gl t"
  using gop_locks_split(1) [of n gl t] gop_locks_nonneg [of "take n gl @ drop (Suc n) gl" t] by simp

lemma find_gop_Some:
  "GetGopInfoBySerial s gl = Some n \<longleftrightarrow> n < length gl \<and> covers (gl ! n) s \<and> (\<forall>j<n. \<not> covers (gl ! j) s)"
  unfolding GetGopInfoBySerial_def find_upt(1) by simp

lemma find_gop_None: "GetGopInfoBySerial s gl = None \<longleftrightarrow> (\<forall>g \<in> set gl. \<not> covers g s)"
  unfolding GetGopInfoBySerial_def find_None_iff by (auto simp: in_set_conv_nth) (metis nth_mem)

lemma gop_locks_none: "GetGopInfoBySerial s gl = None \<Longrightarrow> gop_locks gl s = 0"
  unfolding find_gop_None by (induction gl) auto

text \<open>The locks on a frame that do not come from the list.\<close>

definition balance :: "gop_state \<Rightarrow> int \<Rightarrow> int" where
  "balance st t = lock_count (ch_cache (snd st)) t - gop_locks (fst st) t"

definition gop_ok :: "gop_state \<Rightarrow> bool" where
  "gop_ok st \<longleftrightarrow> channel_ok (snd st)
     \<and> (\<forall>g \<in> set (fst st). 1 \<le> gi_lock g \<and> 0 \<le> gi_start g \<and> gi_start g \<le> gi_end g
          \<and> gi_end g \<le> vi_cur_serial (ch_video (snd st)))
     \<and> (\<forall>t. 0 \<le> balance st t)"

text \<open>How an operation changes the state: the invariant and the balance are kept.\<close>

definition gop_keeps :: "gop_state \<Rightarrow> gop_state \<Rightarrow> bool" where
  "gop_keeps st st' \<longleftrightarrow> gop_ok st' \<and> balance st' = balance st \<and> ch_video (snd st') = ch_video (snd st)"

lemma gop_keepsI:
  assumes "gop_ok st" "channel_ok (snd st')" "ch_video (snd st') = ch_video (snd st)"
    and "\<And>t. balance st' t = balance st t"
    and "\<And>g. g \<in> set (fst st') \<Longrightarrow> g \<in> set (fst st) \<or> 1 \<le> gi_lock g \<and> 0 \<le> gi_start g \<and> gi_start g \<le> gi_end g
          \<and> gi_end g \<le> vi_cur_serial (ch_video (snd st))"
  shows "gop_keeps st st'"
proof -
  have "balance st' = balance st" using assms(4) by (rule ext)
  moreover have "\<forall>g \<in> set (fst st'). 1 \<le> gi_lock g \<and> 0 \<le> gi_start g \<and> gi_start g \<le> gi_end g
      \<and> gi_end g \<le> vi_cur_serial (ch_video (snd st))"
    using assms(1,5) unfolding gop_ok_def by blast
  ultimately show ?thesis using assms(1-3) by (simp add: gop_keeps_def gop_ok_def)
qed

lemma gop_keeps_refl: "gop_ok st \<Longrightarrow> gop_keeps st st"
  by (simp add: gop_keeps_def)

lemma gop_ok_member:
  assumes "gop_ok st" "n < length (fst st)"
  shows "1 \<le> gi_lock (fst st ! n)" "0 \<le> gi_start (fst st ! n)" "gi_start (fst st ! n) \<le> gi_end (fst st ! n)"
    "gi_end (fst st ! n) \<le> vi_cur_serial (ch_video (snd st))"
  using assms nth_mem [OF assms(2)] unfolding gop_ok_def by blast+

text \<open>A change of the count of a group.\<close>

lemma set_lock_keeps:
  assumes ok: "gop_ok (gl, ch)" and n: "n < length gl" and x: "1 \<le> x"
  shows "gop_keeps (gl, ch) (gl[n := (gl ! n)\<lparr>gi_lock := x\<rparr>], ch)"
proof (rule gop_keepsI [OF ok])
  have cov: "covers ((gl ! n)\<lparr>gi_lock := x\<rparr>) t = covers (gl ! n) t" for t by (simp add: covers_def)
  show "balance (gl[n := (gl ! n)\<lparr>gi_lock := x\<rparr>], ch) t = balance (gl, ch) t" for t
    using gop_locks_split(2) [OF n, of "(gl ! n)\<lparr>gi_lock := x\<rparr>" t] by (simp add: balance_def cov)
  fix g assume "g \<in> set (fst (gl[n := (gl ! n)\<lparr>gi_lock := x\<rparr>], ch))"
  then have "g \<in> set gl \<or> g = (gl ! n)\<lparr>gi_lock := x\<rparr>" using set_update_subset_insert [of gl n] by auto
  then show "g \<in> set (fst (gl, ch)) \<or> 1 \<le> gi_lock g \<and> 0 \<le> gi_start g \<and> gi_start g \<le> gi_end g
      \<and> gi_end g \<le> vi_cur_serial (ch_video (snd (gl, ch)))"
    using gop_ok_member [OF ok, of n] n x by auto
qed (use ok in \<open>simp_all add: gop_ok_def\<close>)

text \<open>Unlocking a group and dropping it from the list.\<close>

lemma drop_gop_keeps:
  assumes ok: "gop_ok (gl, ch)" and n: "n < length gl"
  shows "fst (UnlockGop (gi_start (gl ! n)) (gi_end (gl ! n)) ch) = 0
    \<and> gop_keeps (gl, ch) (take n gl @ drop (Suc n) gl, snd (UnlockGop (gi_start (gl ! n)) (gi_end (gl ! n)) ch))"
proof -
  let ?g = "gl ! n"
  have "1 \<le> lock_count (ch_cache ch) t" if "gi_start ?g \<le> t" "t \<le> gi_end ?g" for t
  proof -
    have "1 \<le> gop_locks gl t" by (rule gop_locks_member [OF n]) (use that in \<open>simp add: covers_def\<close>)
    moreover have "0 \<le> balance (gl, ch) t" using ok by (simp add: gop_ok_def)
    ultimately show ?thesis by (simp add: balance_def)
  qed
  note un = UnlockGop_spec [OF _ this]
  have "channel_ok ch" using ok by (simp add: gop_ok_def)
  note un = un [OF this]
  have "gop_keeps (gl, ch) (take n gl @ drop (Suc n) gl, snd (UnlockGop (gi_start ?g) (gi_end ?g) ch))"
  proof (rule gop_keepsI [OF ok])
    show "balance (take n gl @ drop (Suc n) gl, snd (UnlockGop (gi_start ?g) (gi_end ?g) ch)) t = balance (gl, ch) t" for t
      using un gop_locks_split(1) [OF n, of t] by (simp add: balance_def covers_def)
    fix g assume "g \<in> set (fst (take n gl @ drop (Suc n) gl, snd (UnlockGop (gi_start ?g) (gi_end ?g) ch)))"
    then show "g \<in> set (fst (gl, ch)) \<or> 1 \<le> gi_lock g \<and> 0 \<le> gi_start g \<and> gi_start g \<le> gi_end g
        \<and> gi_end g \<le> vi_cur_serial (ch_video (snd (gl, ch)))"
      by (auto dest: in_set_takeD in_set_dropD)
  qed (use un in simp_all)
  with un show ?thesis by blast
qed

text \<open>Adding a group: all of its frames are locked and it heads the list, or nothing
  has changed but the bytes of free cache blocks.\<close>

lemma AddAndLockGop_keeps:
  assumes ok: "gop_ok (gl, ch)" and g: "0 \<le> a" "a \<le> b" "b \<le> vi_cur_serial (ch_video ch)"
    and run: "AddAndLockGop alloc a b (gl, ch) = (r, gl', ch')"
  shows "gop_keeps (gl, ch) (gl', ch')
    \<and> (r = 0 \<and> gl' = \<lparr>gi_start = a, gi_end = b, gi_lock = 1\<rparr> # gl
      \<or> (r = GOP_NOMEM \<or> r = GOP_FAIL) \<and> gl' = gl \<and> ch_cache ch' = ch_cache ch)"
proof (cases alloc)
  case False
  then show ?thesis using run gop_keeps_refl [OF ok] by (auto simp: AddAndLockGop_def AddNewGop_def Let_def const_defs)
next
  case True
  let ?g = "\<lparr>gi_start = a, gi_end = b, gi_lock = 1\<rparr>"
  obtain q ch1 where lk: "LockGop a b ch = (q, ch1)" by fastforce
  have cok: "channel_ok ch" using ok by (simp add: gop_ok_def)
  note spec = LockGop_spec [OF cok lk]
  have head: "GetGopInfoBySerial a (?g # gl) = Some 0"
    using g(2) by (simp add: find_gop_Some covers_def)
  show ?thesis
  proof (cases "q = 0")
    case True
    then have "gl' = ?g # gl" "ch' = ch1" "r = 0"
      using run lk \<open>alloc\<close> by (simp_all add: AddAndLockGop_def AddNewGop_def Let_def const_defs)
    moreover have "gop_keeps (gl, ch) (?g # gl, ch1)"
      by (rule gop_keepsI [OF ok]) (use spec True g in \<open>auto simp: balance_def covers_def const_defs\<close>)
    ultimately show ?thesis by simp
  next
    case False
    then have "gl' = gl" "ch' = ch1" "r = q"
      using run lk head \<open>alloc\<close> by (simp_all add: AddAndLockGop_def AddNewGop_def DeleteGop_def Let_def const_defs)
    moreover have "gop_keeps (gl, ch) (gl, ch1)"
      by (rule gop_keepsI [OF ok]) (use spec False in \<open>auto simp: balance_def\<close>)
    ultimately show ?thesis using spec False by simp
  qed
qed

lemma last_P_range: "last_P v LastP = -1 \<or> LastP - 1 \<le> last_P v LastP \<and> last_P v LastP < vi_cur_serial v"
proof (induction v LastP rule: last_P.induct)
  case (1 v LastP)
  have "LastP \<le> vi_cur_serial v" if "MemMng_GetFrameBySerial LastP v = Some i" for i
    using that by (auto simp: MemMng_GetFrameBySerial_def split: if_splits)
  then show ?case
    using 1 by (subst (1 2 3) last_P.simps) (auto split: option.split)
qed

section \<open>The operations keep the balance\<close>

text \<open>A P frame joins the group that ends just before it.\<close>

lemma extend_keeps:
  assumes ok: "gop_ok (gl, ch)" and n: "GetGopInfoBySerial (s - 1) gl = Some n" and x: "1 \<le> x"
    and s: "0 \<le> s" "s \<le> vi_cur_serial (ch_video ch)" and last: "gi_end (gl ! n) = s - 1"
    and lk: "CacheMng_Video_CacheLock s ch = (0, ch')"
  shows "gop_keeps (gl, ch) (gl[n := (gl ! n)\<lparr>gi_lock := x, gi_end := s\<rparr>], ch')"
proof (rule gop_keepsI [OF ok])
  let ?g = "(gl ! n)\<lparr>gi_lock := x, gi_end := s\<rparr>"
  have len: "n < length gl" and range: "gi_start (gl ! n) \<le> s - 1" using n by (auto simp: find_gop_Some covers_def)
  have "channel_ok ch" using ok by (simp add: gop_ok_def)
  from lock_effect [OF this lk] show "channel_ok (snd (gl[n := ?g], ch'))"
    "ch_video (snd (gl[n := ?g], ch')) = ch_video (snd (gl, ch))"
    by (simp_all add: lock_effect_def)
  have cnt: "lock_count (ch_cache ch') t = lock_count (ch_cache ch) t + (if t = s then 1 else 0)" for t
    using lock_effect [OF \<open>channel_ok ch\<close> lk] by (simp add: lock_effect_def)
  have "(if covers ?g t then 1 else 0) = (if covers (gl ! n) t then 1 else 0) + (if t = s then 1 else 0 :: int)" for t
    using range last by (auto simp: covers_def)
  then show "balance (gl[n := ?g], ch') t = balance (gl, ch) t" for t
    using gop_locks_split(2) [OF len, of ?g t] cnt [of t] by (simp add: balance_def)
  fix g assume "g \<in> set (fst (gl[n := ?g], ch'))"
  then have "g \<in> set gl \<or> g = ?g" using set_update_subset_insert [of gl n ?g] by auto
  then show "g \<in> set (fst (gl, ch)) \<or> 1 \<le> gi_lock g \<and> 0 \<le> gi_start g \<and> gi_start g \<le> gi_end g
      \<and> gi_end g \<le> vi_cur_serial (ch_video (snd (gl, ch)))"
    using gop_ok_member [OF ok, of n] len range x s by auto
qed

text \<open>Where the group before an uncovered frame ends.\<close>

lemma gop_end_before:
  assumes "GetGopInfoBySerial s gl = None" "GetGopInfoBySerial (s - 1) gl = Some n"
  shows "gi_end (gl ! n) = s - 1"
proof -
  have n: "n < length gl" "covers (gl ! n) (s - 1)" using assms(2) by (auto simp: find_gop_Some)
  then have "\<not> covers (gl ! n) s" using assms(1) by (simp add: find_gop_None)
  with n(2) show ?thesis by (simp add: covers_def)
qed

lemma lock_P_keeps:
  assumes ok: "gop_ok (gl, ch)" and found: "MemMng_GetFrameBySerial s (ch_video ch) = Some fi"
    and none: "GetGopInfoBySerial s gl = None" and n: "GetGopInfoBySerial (s - 1) gl = Some n"
    and lk: "CacheMng_Video_CacheLock s ch = (q, ch')"
  shows "gop_keeps (gl, ch) (if q = 0 then gl[n := (gl ! n)\<lparr>gi_lock := gi_lock (gl ! n) + 1, gi_end := s\<rparr>] else gl, ch')"
proof (cases "q = 0")
  case True
  have cok: "channel_ok ch" using ok by (simp add: gop_ok_def)
  have "1 \<le> gi_lock (gl ! n) + 1"
    using gop_ok_member(1) [OF ok, of n] n by (simp add: find_gop_Some)
  from extend_keeps [OF ok n this found_frame(2,3) [OF cok found] gop_end_before [OF none n]] lk True show ?thesis
    by simp
next
  case False
  have cok: "channel_ok ch" using ok by (simp add: gop_ok_def)
  from Cache_Lock.lock_fail(2) [OF cok lk False] False gop_keeps_refl [OF ok] show ?thesis by simp
qed

lemma lock_I_keeps:
  assumes ok: "gop_ok (gl, ch)" and found: "MemMng_GetFrameBySerial s (ch_video ch) = Some fi"
    and b: "b = (if 0 > GetGopLastPwithStartSerial s (ch_video ch) then vi_cur_serial (ch_video ch)
      else GetGopLastPwithStartSerial s (ch_video ch))"
    and run: "AddAndLockGop alloc s b (gl, ch) = (r, gl', ch')"
  shows "gop_keeps (gl, ch) (gl', ch') \<and> s \<le> b
    \<and> (r = 0 \<and> gl' = \<lparr>gi_start = s, gi_end = b, gi_lock = 1\<rparr> # gl
      \<or> (r = GOP_NOMEM \<or> r = GOP_FAIL) \<and> gl' = gl \<and> ch_cache ch' = ch_cache ch)"
proof -
  have cok: "channel_ok ch" using ok by (simp add: gop_ok_def)
  note s = found_frame(2,3) [OF cok found]
  have range: "s \<le> b" "b \<le> vi_cur_serial (ch_video ch)"
    using last_P_range [of "ch_video ch" "s + 1"] s unfolding b by (auto simp: GetGopLastPwithStartSerial_def)
  from AddAndLockGop_keeps [OF ok s(1) range run] range show ?thesis by blast
qed

text \<open>What a call reports and what it has done.\<close>

definition lock_outcome :: "int \<Rightarrow> gop_state \<Rightarrow> int \<Rightarrow> gop_state \<Rightarrow> bool" where
  "lock_outcome s st r st' \<longleftrightarrow>
     (if r = GOP_COMPLETE \<or> r = GOP_INCOMPLETE
      then (\<exists>g \<in> set (fst st'). covers g s)
        \<or> st' = st \<and> (\<exists>fi. MemMng_GetFrameBySerial s (ch_video (snd st)) = Some fi
             \<and> vf_type (frame_at (ch_video (snd st)) fi) \<noteq> I_FRAME
             \<and> vf_type (frame_at (ch_video (snd st)) fi) \<noteq> P_FRAME)
      else fst st' = fst st \<and> ch_cache (snd st') = ch_cache (snd st))"

lemma outcome_refused: "r \<noteq> GOP_COMPLETE \<Longrightarrow> r \<noteq> GOP_INCOMPLETE \<Longrightarrow> lock_outcome s st r st"
  by (simp add: lock_outcome_def)

lemma outcome_covered: "g \<in> set (fst st') \<Longrightarrow> covers g s \<Longrightarrow> r = GOP_COMPLETE \<or> r = GOP_INCOMPLETE \<Longrightarrow> lock_outcome s st r st'"
  by (auto simp: lock_outcome_def)

lemma LockGopBySerial_P:
  assumes ok: "gop_ok (gl, ch)" and found: "MemMng_GetFrameBySerial s (ch_video ch) = Some fi"
    and none: "GetGopInfoBySerial s gl = None" and s: "\<not> s < 0"
    and P: "vf_type (frame_at (ch_video ch) fi) = P_FRAME"
    and run: "LockGopBySerial alloc s (gl, ch) = (r, st')"
  shows "gop_keeps (gl, ch) st' \<and> lock_outcome s (gl, ch) r st'"
proof (cases "GetGopInfoBySerial (s - 1) gl")
  case None
  have "\<not> vf_type (frame_at (ch_video ch) fi) = I_FRAME" using P by (simp add: const_defs)
  with run s none found P None have "r = GOP_ERROR_OP" "st' = (gl, ch)"
    by (simp_all add: LockGopBySerial_def Let_def)
  with gop_keeps_refl [OF ok] outcome_refused [of r s st'] show ?thesis by (simp add: const_defs)
next
  case (Some n)
  obtain q ch' where lk: "CacheMng_Video_CacheLock s ch = (q, ch')" by fastforce
  let ?g = "(gl ! n)\<lparr>gi_lock := gi_lock (gl ! n) + 1, gi_end := s\<rparr>"
  have n: "n < length gl" "covers (gl ! n) (s - 1)" using Some by (auto simp: find_gop_Some)
  have "\<not> vf_type (frame_at (ch_video ch) fi) = I_FRAME" using P by (simp add: const_defs)
  then have st': "st' = (if q = 0 then gl[n := ?g] else gl, ch')"
    and r: "r = (if q = 0 then 0 else if q = CACHE_NOMEM then GOP_NOMEM else GOP_FAIL)"
    using run s none found P Some lk by (auto simp: LockGopBySerial_def Let_def)
  have "lock_outcome s (gl, ch) r st'"
  proof (cases "q = 0")
    case True
    have "?g \<in> set (gl[n := ?g])" by (rule set_update_memI [OF n(1)])
    moreover have "covers ?g s" using n(2) by (simp add: covers_def)
    ultimately show ?thesis using r st' True by (intro outcome_covered) (auto simp: const_defs)
  next
    case False
    have "channel_ok ch" using ok by (simp add: gop_ok_def)
    from Cache_Lock.lock_fail(2) [OF this lk False] r st' False show ?thesis
      by (auto simp: lock_outcome_def const_defs)
  qed
  with lock_P_keeps [OF ok found none Some lk] st' show ?thesis by simp
qed

lemma LockGopBySerial_I:
  assumes ok: "gop_ok (gl, ch)" and found: "MemMng_GetFrameBySerial s (ch_video ch) = Some fi"
    and none: "GetGopInfoBySerial s gl = None" and s: "\<not> s < 0"
    and I: "vf_type (frame_at (ch_video ch) fi) = I_FRAME"
    and run: "LockGopBySerial alloc s (gl, ch) = (r, st')"
  shows "gop_keeps (gl, ch) st' \<and> lock_outcome s (gl, ch) r st'"
proof -
  let ?b = "if 0 > GetGopLastPwithStartSerial s (ch_video ch) then vi_cur_serial (ch_video ch)
      else GetGopLastPwithStartSerial s (ch_video ch)"
  obtain q gl' ch' where add: "AddAndLockGop alloc s ?b (gl, ch) = (q, gl', ch')" by (metis prod.exhaust)
  then have st': "st' = (gl', ch')" and r: "r = q \<or> q = GOP_COMPLETE \<and> r = GOP_INCOMPLETE"
    using run s none found I
    by (auto simp: LockGopBySerial_def Let_def GetCurrentSerialNo_def split: if_splits)
  have spec: "gop_keeps (gl, ch) (gl', ch')" "s \<le> ?b"
    "q = 0 \<and> gl' = \<lparr>gi_start = s, gi_end = ?b, gi_lock = 1\<rparr> # gl
      \<or> (q = GOP_NOMEM \<or> q = GOP_FAIL) \<and> gl' = gl \<and> ch_cache ch' = ch_cache ch"
    using lock_I_keeps [OF ok found refl add] by blast+
  from spec(3) have "lock_outcome s (gl, ch) r st'"
  proof
    assume "q = 0 \<and> gl' = \<lparr>gi_start = s, gi_end = ?b, gi_lock = 1\<rparr> # gl"
    then show ?thesis using st' r spec(2)
      by (intro outcome_covered [of "\<lparr>gi_start = s, gi_end = ?b, gi_lock = 1\<rparr>"]) (auto simp: covers_def const_defs)
  next
    assume "(q = GOP_NOMEM \<or> q = GOP_FAIL) \<and> gl' = gl \<and> ch_cache ch' = ch_cache ch"
    then show ?thesis using st' r by (auto simp: lock_outcome_def const_defs)
  qed
  with spec(1) st' show ?thesis by simp
qed

lemma LockGopBySerial_spec:
  assumes ok: "gop_ok (gl, ch)" and run: "LockGopBySerial alloc s (gl, ch) = (r, st')"
  shows "gop_keeps (gl, ch) st' \<and> lock_outcome s (gl, ch) r st'"
proof (cases "s < 0")
  case True
  with run gop_keeps_refl [OF ok] outcome_refused [of r s st'] show ?thesis
    by (auto simp: LockGopBySerial_def Let_def const_defs)
next
  case s: False
  show ?thesis
  proof (cases "GetGopInfoBySerial s gl")
    case (Some n)
    let ?g = "(gl ! n)\<lparr>gi_lock := gi_lock (gl ! n) + 1\<rparr>"
    have n: "n < length gl" "covers (gl ! n) s" using Some by (auto simp: find_gop_Some)
    then have "gop_keeps (gl, ch) (gl[n := ?g], ch)"
      using gop_ok_member(1) [OF ok, of n] by (intro set_lock_keeps [OF ok]) auto
    moreover have "?g \<in> set (gl[n := ?g])" "covers ?g s"
      using n set_update_memI [OF n(1)] by (simp_all add: covers_def)
    moreover have "st' = (gl[n := ?g], ch)" "r = GOP_COMPLETE"
      using run s Some by (simp_all add: LockGopBySerial_def Let_def)
    ultimately show ?thesis using outcome_covered [of ?g st' s r] by simp
  next
    case none: None
    show ?thesis
    proof (cases "MemMng_GetFrameBySerial s (ch_video ch)")
      case None
      then have "st' = (gl, ch)" "r = GOP_FAIL \<or> r = GOP_NOT_READY \<or> r = GOP_OVERWRITTEN"
        using run s none by (auto simp: LockGopBySerial_def Let_def split: if_splits)
      with gop_keeps_refl [OF ok] outcome_refused [of r s st'] show ?thesis by (auto simp: const_defs)
    next
      case (Some fi)
      let ?t = "vf_type (frame_at (ch_video ch) fi)"
      show ?thesis
      proof (cases "?t = I_FRAME \<or> ?t = P_FRAME")
        case True
        then show ?thesis
          using LockGopBySerial_I [OF ok Some none s _ run] LockGopBySerial_P [OF ok Some none s _ run] by blast
      next
        case False
        then have "st' = (gl, ch)" "r = GOP_COMPLETE"
          using run s none Some by (simp_all add: LockGopBySerial_def Let_def)
        with gop_keeps_refl [OF ok] False Some show ?thesis by (simp add: lock_outcome_def)
      qed
    qed
  qed
qed

lemma UnlockGopBySerial_keeps:
  assumes ok: "gop_ok (gl, ch)" and run: "UnlockGopBySerial s (gl, ch) = (r, st')"
  shows "gop_keeps (gl, ch) st'"
proof (cases "s < 0 \<or> GetGopInfoBySerial s gl = None")
  case True
  with run gop_keeps_refl [OF ok] show ?thesis
    by (auto simp: UnlockGopBySerial_def Let_def split: if_splits option.splits)
next
  case False
  then obtain n where n: "GetGopInfoBySerial s gl = Some n" "n < length gl" and s: "\<not> s < 0"
    by (auto simp: find_gop_Some)
  let ?gl = "gl[n := (gl ! n)\<lparr>gi_lock := gi_lock (gl ! n) - 1\<rparr>]"
  show ?thesis
  proof (cases "gi_lock (gl ! n) = 1")
    case True
    have "take n ?gl @ drop (Suc n) ?gl = take n gl @ drop (Suc n) gl" by simp
    then have "st' = (take n gl @ drop (Suc n) gl, snd (UnlockGop (gi_start (gl ! n)) (gi_end (gl ! n)) ch))"
      using run n s True by (auto simp: UnlockGopBySerial_def DeleteGop_def Let_def)
    with drop_gop_keeps [OF ok n(2)] show ?thesis by simp
  next
    case False
    with gop_ok_member(1) [OF ok, of n] n(2) have x: "1 \<le> gi_lock (gl ! n) - 1" by simp
    have "st' = (?gl, ch)" using run n s False by (auto simp: UnlockGopBySerial_def Let_def)
    with set_lock_keeps [OF ok n(2) x] show ?thesis by simp
  qed
qed

lemma GopCleanup_keeps:
  assumes "gop_ok (gl, ch)"
  shows "gop_keeps (gl, ch) (GopCleanup gl ch) \<and> fst (GopCleanup gl ch) = []"
  using assms
proof (induction gl arbitrary: ch)
  case Nil
  then show ?case by (simp add: gop_keeps_refl)
next
  case (Cons g gl)
  let ?ch = "snd (UnlockGop (gi_start g) (gi_end g) ch)"
  have keep: "gop_keeps (g # gl, ch) (gl, ?ch)"
    using drop_gop_keeps [OF Cons.prems, of 0] by simp
  then have "gop_ok (gl, ?ch)" by (simp add: gop_keeps_def)
  from Cons.IH [OF this] keep show ?case by (simp add: gop_keeps_def)
qed

lemma LockCurrentGopP_keeps:
  assumes ok: "gop_ok (gl, ch)" and none: "GetGopInfoBySerial (vi_cur_serial (ch_video ch)) gl = None"
    and run: "LockCurrentGopP (gl, ch) = (r, st')"
  shows "gop_keeps (gl, ch) st'"
proof (cases "GetGopInfoBySerial (vi_cur_serial (ch_video ch) - 1) gl")
  case None
  with run gop_keeps_refl [OF ok] show ?thesis by (simp add: LockCurrentGopP_def Let_def GetCurrentSerialNo_def)
next
  case (Some n)
  let ?s = "vi_cur_serial (ch_video ch)"
  have n: "n < length gl" "covers (gl ! n) (?s - 1)" using Some by (auto simp: find_gop_Some)
  have cok: "channel_ok ch" using ok by (simp add: gop_ok_def)
  obtain q ch' where lk: "CacheMng_Video_CacheLock ?s ch = (q, ch')" by fastforce
  show ?thesis
  proof (cases "q = 0")
    case True
    have "0 \<le> ?s" using gop_ok_member(2) [OF ok, of n] n by (simp add: covers_def)
    with extend_keeps [OF ok Some gop_ok_member(1) [OF ok, of n] _ order_refl gop_end_before [OF none Some]] lk True n(1)
    have "gop_keeps (gl, ch) (gl[n := (gl ! n)\<lparr>gi_lock := gi_lock (gl ! n), gi_end := ?s\<rparr>], ch')" by simp
    moreover have "(gl ! n)\<lparr>gi_lock := gi_lock (gl ! n), gi_end := ?s\<rparr> = (gl ! n)\<lparr>gi_end := ?s\<rparr>" by simp
    ultimately show ?thesis
      using run Some lk True by (simp add: LockCurrentGopP_def Let_def GetCurrentSerialNo_def)
  next
    case False
    with Cache_Lock.lock_fail(2) [OF cok lk] have "ch' = ch" by simp
    then have "st' = (take n gl @ drop (Suc n) gl, snd (UnlockGop (gi_start (gl ! n)) (gi_end (gl ! n)) ch))"
      using run Some lk False n(1) by (auto simp: LockCurrentGopP_def DeleteGop_def Let_def GetCurrentSerialNo_def)
    with drop_gop_keeps [OF ok n(1)] show ?thesis by simp
  qed
qed

end
