(* ===== verification/Gop_Client.thy ===== *)
theory Gop_Client
  imports Gop_Lock
begin

text \<open>What the clients of the group locks get: every lock in the cache belongs to a
  listed group, a locked group is held as a whole, and two places where the code
  does not live up to it.\<close>

section \<open>Reachable states\<close>

text \<open>The encoder writes a frame.\<close>

lemma write_gop_ok:
  assumes ok: "gop_ok (gl, ch)" and cfg: "store_cfg (ch_video ch)" and wr: "writable (ch_video ch) (bytes, ft)"
    and run: "write_channel bytes ft ch = Some (r, ch')"
  shows "gop_ok (gl, ch') \<and> balance (gl, ch') = balance (gl, ch)"
proof -
  have "channel_ok ch" using ok by (simp add: gop_ok_def)
  from write_effect [OF this cfg wr] run have "channel_ok ch'" "ch_cache ch' = ch_cache ch"
    "vi_cur_serial (ch_video ch') = vi_cur_serial (ch_video ch) + 1" by (metis option.inject prod.inject)+
  moreover from this have "balance (gl, ch') = balance (gl, ch)" by (simp add: balance_def fun_eq_iff)
  ultimately show ?thesis using ok by (fastforce simp: gop_ok_def)
qed

text \<open>Any sequence of writes and of calls of the clients.  A P frame is appended by
  \<open>LockCurrentGopP\<close> only while no group covers the current frame.\<close>

inductive gop_reach :: "gop_state \<Rightarrow> gop_state \<Rightarrow> bool" for st0 where
  gop_start: "gop_reach st0 st0"
| gop_write: "gop_reach st0 (gl, ch) \<Longrightarrow> store_cfg (ch_video ch) \<Longrightarrow> writable (ch_video ch) (bytes, ft)
    \<Longrightarrow> write_channel bytes ft ch = Some (r, ch') \<Longrightarrow> gop_reach st0 (gl, ch')"
| gop_lock: "gop_reach st0 st \<Longrightarrow> LockGopBySerial alloc s st = (r, st') \<Longrightarrow> gop_reach st0 st'"
| gop_unlock: "gop_reach st0 st \<Longrightarrow> UnlockGopBySerial s st = (r, st') \<Longrightarrow> gop_reach st0 st'"
| gop_current: "gop_reach st0 (gl, ch) \<Longrightarrow> GetGopInfoBySerial (vi_cur_serial (ch_video ch)) gl = None
    \<Longrightarrow> LockCurrentGopP (gl, ch) = (r, st') \<Longrightarrow> gop_reach st0 st'"
| gop_cleanup: "gop_reach st0 (gl, ch) \<Longrightarrow> gop_reach st0 (GopCleanup gl ch)"

lemma gop_reach_ok:
  assumes "gop_reach st0 st" "gop_ok st0"
  shows "gop_ok st \<and> balance st = balance st0"
  using assms
proof induction
  case gop_start
  then show ?case by simp
next
  case (gop_write gl ch bytes ft r ch')
  with write_gop_ok [OF _ gop_write.hyps(2-4)] show ?case by simp
next
  case (gop_lock st alloc s r st')
  then show ?case
    using LockGopBySerial_spec [of "fst st" "snd st" alloc s r st'] by (simp add: gop_keeps_def)
next
  case (gop_unlock st s r st')
  then show ?case
    using UnlockGopBySerial_keeps [of "fst st" "snd st" s r st'] by (simp add: gop_keeps_def)
next
  case (gop_current gl ch r st')
  then show ?case using LockCurrentGopP_keeps [of gl ch r st'] by (simp add: gop_keeps_def)
next
  case (gop_cleanup gl ch)
  then show ?case using GopCleanup_keeps [of gl ch] by (simp add: gop_keeps_def)
qed

definition no_locks :: "channel \<Rightarrow> bool" where
  "no_locks ch \<longleftrightarrow> channel_ok ch \<and> (\<forall>t. lock_count (ch_cache ch) t = 0)"

lemma no_locks_gop_ok: "no_locks ch \<Longrightarrow> gop_ok ([], ch) \<and> balance ([], ch) = (\<lambda>_. 0)"
  by (simp add: no_locks_def gop_ok_def balance_def fun_eq_iff)

lemma demo_no_locks: "no_locks demo_ready"
proof -
  have "lock_count demo_cache t = 0" for t
    unfolding demo_cache_def by (rule placed_cache_ok) (simp_all add: zero_cm_def)
  then show ?thesis using demo_ready_ok by (simp add: no_locks_def)
qed

section \<open>Properties\<close>

text \<open>C40: Locks do not leak, with one exception.  From a channel without locks, whatever sequence of
  writes of valid frames, \<open>LockGopBySerial\<close>, \<open>UnlockGopBySerial\<close>, \<open>GopCleanup\<close>
  and those calls of \<open>LockCurrentGopP\<close> that find the current frame in no group
  is made, failed ones included, the count of every frame in the cache is
  the number of listed groups that cover it; so after \<open>GopCleanup\<close> no frame is
  locked.  The exception is a \<open>LockCurrentGopP\<close> while a group covers the current frame
  already: it locks the frame a second time without a group for it, see \<open>LockCurrentGopP_leaks\<close>.\<close>

theorem gop_locks_do_not_leak:
  assumes "no_locks ch0" "gop_reach ([], ch0) (gl, ch)"
  shows "lock_count (ch_cache ch) t = gop_locks gl t
    \<and> fst (GopCleanup gl ch) = [] \<and> lock_count (ch_cache (snd (GopCleanup gl ch))) t = 0"
proof -
  have ok: "gop_ok (gl, ch)" "balance (gl, ch) t = 0"
    using gop_reach_ok [OF assms(2)] no_locks_gop_ok [OF assms(1)] by simp_all
  have "balance (GopCleanup gl ch) t = 0" "fst (GopCleanup gl ch) = []"
    using GopCleanup_keeps [OF ok(1)] ok(2) by (simp_all add: gop_keeps_def)
  with ok(2) show ?thesis by (simp add: balance_def)
qed

lemma gop_locks_do_not_leak_witness:
  "lock_count (ch_cache (snd (snd (LockGopBySerial True 0 ([], demo_ready))))) 0
    = gop_locks (fst (snd (LockGopBySerial True 0 ([], demo_ready)))) 0"
proof -
  obtain r gl ch where run: "LockGopBySerial True 0 ([], demo_ready) = (r, gl, ch)" by (metis prod.exhaust)
  have "gop_reach ([], demo_ready) (gl, ch)" by (rule gop_lock [OF gop_start run])
  with gop_locks_do_not_leak [OF demo_no_locks, of gl ch 0] run show ?thesis by simp
qed

text \<open>A group is locked as a whole or not at all.  When \<open>LockGopBySerial\<close> reports
  an error, the list and the cache manager are as before.  When it reports
  \<open>GOP_COMPLETE\<close> or \<open>GOP_INCOMPLETE\<close>, the frame is covered by a listed group and
  every frame of every listed group is held in the cache; the only exception is a
  frame that is neither an I nor a P frame, for which nothing is done.\<close>

theorem LockGopBySerial_all_or_nothing:
  assumes "gop_ok (gl, ch)" "LockGopBySerial alloc s (gl, ch) = (r, gl', ch')"
  shows "(if r = GOP_COMPLETE \<or> r = GOP_INCOMPLETE
     then (\<exists>g \<in> set gl'. covers g s)
       \<or> (gl', ch') = (gl, ch) \<and> (\<exists>fi. MemMng_GetFrameBySerial s (ch_video ch) = Some fi
            \<and> vf_type (frame_at (ch_video ch) fi) \<noteq> I_FRAME \<and> vf_type (frame_at (ch_video ch) fi) \<noteq> P_FRAME)
     else gl' = gl \<and> ch_cache ch' = ch_cache ch)
    \<and> (\<forall>g \<in> set gl'. \<forall>t \<in> {gi_start g..gi_end g}. 0 < lock_count (ch_cache ch') t)"
proof -
  have spec: "gop_keeps (gl, ch) (gl', ch')" "lock_outcome s (gl, ch) r (gl', ch')"
    using LockGopBySerial_spec [OF assms] by simp_all
  have ok': "gop_ok (gl', ch')" using spec(1) by (simp add: gop_keeps_def)
  have "0 < lock_count (ch_cache ch') t" if "g \<in> set gl'" "t \<in> {gi_start g..gi_end g}" for g t
  proof -
    from that(1) obtain n where "n < length gl'" "gl' ! n = g" unfolding in_set_conv_nth by blast
    with that(2) have "1 \<le> gop_locks gl' t" by (intro gop_locks_member) (auto simp: covers_def)
    moreover have "0 \<le> balance (gl', ch') t" using ok' by (simp add: gop_ok_def)
    ultimately show ?thesis by (simp add: balance_def)
  qed
  with spec(2) show ?thesis unfolding lock_outcome_def fst_conv snd_conv by blast
qed

lemma LockGopBySerial_all_or_nothing_witness:
  "\<exists>r gl ch. LockGopBySerial True 0 ([], demo_ready) = (r, gl, ch)
    \<and> (\<forall>g \<in> set gl. \<forall>t \<in> {gi_start g..gi_end g}. 0 < lock_count (ch_cache ch) t)"
proof -
  obtain r gl ch where run: "LockGopBySerial True 0 ([], demo_ready) = (r, gl, ch)" by (metis prod.exhaust)
  have "gop_ok ([], demo_ready)" using no_locks_gop_ok [OF demo_no_locks] by simp
  from LockGopBySerial_all_or_nothing [OF this run] run show ?thesis by blast
qed

text \<open>The last unlock frees a group.  When the group that covers the frame has
  one lock left, \<open>UnlockGopBySerial\<close> takes it off the list and gives back one lock
  of each of its frames and no other; it reports \<open>GOP_INCOMPLETE\<close> when the group
  was still growing.  With more locks left only the count of the group changes, and
  a frame that no group covers is refused.\<close>

theorem UnlockGopBySerial_frees:
  assumes "gop_ok (gl, ch)" "0 \<le> s"
  shows "case GetGopInfoBySerial s gl of
      None \<Rightarrow> UnlockGopBySerial s (gl, ch) = (GOP_INVALID_PRM, gl, ch)
    | Some n \<Rightarrow>
        if gi_lock (gl ! n) = 1 then
          (\<exists>ch'. UnlockGopBySerial s (gl, ch)
              = (if covers (gl ! n) (vi_cur_serial (ch_video ch)) then GOP_INCOMPLETE else GOP_COMPLETE,
                 take n gl @ drop (Suc n) gl, ch')
            \<and> lock_count (ch_cache ch') = (\<lambda>t. lock_count (ch_cache ch) t - (if covers (gl ! n) t then 1 else 0)))
        else UnlockGopBySerial s (gl, ch)
          = (GOP_COMPLETE, gl[n := (gl ! n)\<lparr>gi_lock := gi_lock (gl ! n) - 1\<rparr>], ch)"
proof (cases "GetGopInfoBySerial s gl")
  case None
  with assms(2) show ?thesis by (simp add: UnlockGopBySerial_def Let_def)
next
  case (Some n)
  then have n: "n < length gl" by (simp add: find_gop_Some)
  let ?ch = "snd (UnlockGop (gi_start (gl ! n)) (gi_end (gl ! n)) ch)"
  have bal: "balance (take n gl @ drop (Suc n) gl, ?ch) t = balance (gl, ch) t" for t
    using drop_gop_keeps [OF assms(1) n] by (simp add: gop_keeps_def)
  have "lock_count (ch_cache ?ch) t = lock_count (ch_cache ch) t - (if covers (gl ! n) t then 1 else 0)" for t
    using bal [of t] gop_locks_split(1) [OF n, of t] by (auto simp: balance_def)
  then have "lock_count (ch_cache ?ch) = (\<lambda>t. lock_count (ch_cache ch) t - (if covers (gl ! n) t then 1 else 0))" ..
  with Some n assms(2) show ?thesis
    by (auto simp: UnlockGopBySerial_def DeleteGop_def GetCurrentSerialNo_def covers_def Let_def)
qed

lemma UnlockGopBySerial_frees_witness: "UnlockGopBySerial 0 ([], demo_ready) = (GOP_INVALID_PRM, [], demo_ready)"
  using UnlockGopBySerial_frees [of "[]" demo_ready 0] no_locks_gop_ok [OF demo_no_locks]
  by (simp add: GetGopInfoBySerial_def)

text \<open>\<open>LockCurrentGopP\<close> leaks a lock when a group already covers the current
  frame (the test for this is commented out in the code): it locks the frame once
  more without any group to account for it, so that after \<open>GopCleanup\<close> the frame
  stays locked.\<close>

theorem LockCurrentGopP_leaks:
  assumes "gop_ok (gl, ch)" "GetGopInfoBySerial (vi_cur_serial (ch_video ch) - 1) gl = Some n"
    and "gi_end (gl ! n) = vi_cur_serial (ch_video ch)"
  shows "\<exists>ch'. LockCurrentGopP (gl, ch) = (GOP_COMPLETE, gl, ch')
    \<and> balance (gl, ch') = (balance (gl, ch))(vi_cur_serial (ch_video ch) := balance (gl, ch) (vi_cur_serial (ch_video ch)) + 1)
    \<and> 0 < lock_count (ch_cache (snd (GopCleanup gl ch'))) (vi_cur_serial (ch_video ch))"
proof -
  let ?s = "vi_cur_serial (ch_video ch)"
  have cok: "channel_ok ch" using assms(1) by (simp add: gop_ok_def)
  have n: "n < length gl" "covers (gl ! n) ?s" using assms(2,3) by (auto simp: find_gop_Some covers_def)
  have pos: "0 < lock_count (ch_cache ch) ?s"
    using gop_locks_member [OF n] assms(1) by (auto simp: gop_ok_def balance_def) (smt (verit))
  then obtain ch' where lk: "CacheMng_Video_CacheLock ?s ch = (0, ch')"
    using lock_succeeds_iff [OF cok, of ?s] by (metis prod.collapse)
  have eff: "lock_effect ?s ch ch'" by (rule lock_effect [OF cok lk])
  have "gl[n := (gl ! n)\<lparr>gi_end := ?s\<rparr>] = gl" using assms(3) by (simp flip: assms(3))
  with lk assms(2) have run: "LockCurrentGopP (gl, ch) = (GOP_COMPLETE, gl, ch')"
    by (simp add: LockCurrentGopP_def GetCurrentSerialNo_def Let_def)
  have bal: "balance (gl, ch') = (balance (gl, ch))(?s := balance (gl, ch) ?s + 1)"
    using eff by (simp add: balance_def lock_effect_def fun_eq_iff)
  have "gop_ok (gl, ch')" using assms(1) eff bal by (simp add: gop_ok_def lock_effect_def)
  from GopCleanup_keeps [OF this] have "balance (GopCleanup gl ch') ?s = balance (gl, ch) ?s + 1" "fst (GopCleanup gl ch') = []"
    using bal by (simp_all add: gop_keeps_def)
  moreover have "0 \<le> balance (gl, ch) ?s" using assms(1) by (simp add: gop_ok_def)
  ultimately have "0 < lock_count (ch_cache (snd (GopCleanup gl ch'))) ?s" by (simp add: balance_def)
  with run bal show ?thesis by blast
qed

definition demo_pair :: channel where
  "demo_pair = snd (the (write_channel [6] P_FRAME demo_ready))"

lemma demo_pair_ok: "no_locks demo_pair" "vi_cur_serial (ch_video demo_pair) = 1"
proof -
  have "writable (ch_video demo_channel) ([1, 2, 3, 4, 5], I_FRAME)"
    by (simp add: writable_def demo_channel_def demo_store_def const_defs)
  from write_effect [OF demo_channel_ok this] demo_write
  have par: "params (ch_video demo_ready) = params (ch_video demo_channel)"
    and cur: "vi_cur_serial (ch_video demo_ready) = 0"
    by (auto simp: demo_channel_def demo_store_def)
  have cfg: "store_cfg (ch_video demo_ready)" "writable (ch_video demo_ready) ([6], P_FRAME)"
    using store_cfg_params [OF par] writable_params [OF par] demo_channel_ok(2)
    by (simp_all add: writable_def demo_channel_def demo_store_def const_defs)
  from write_effect [OF demo_ready_ok(1) cfg] obtain ch' where
    "write_channel [6] P_FRAME demo_ready = Some (0, ch')" "channel_ok ch'" "ch_cache ch' = ch_cache demo_ready"
    "vi_cur_serial (ch_video ch') = 1" using cur by auto
  then show "no_locks demo_pair" "vi_cur_serial (ch_video demo_pair) = 1"
    using demo_no_locks by (simp_all add: demo_pair_def no_locks_def)
qed

lemma demo_pair_lock:
  "fst (LockGopBySerial True 0 ([], demo_pair)) = GOP_INCOMPLETE"
  "fst (snd (LockGopBySerial True 0 ([], demo_pair))) = [\<lparr>gi_start = 0, gi_end = 1, gi_lock = 1\<rparr>]"
  by code_simp+

lemma LockCurrentGopP_leaks_witness:
  "\<exists>gl ch ch'. LockCurrentGopP (gl, ch) = (GOP_COMPLETE, gl, ch') \<and> 0 < lock_count (ch_cache (snd (GopCleanup gl ch'))) 1"
proof -
  let ?g = "\<lparr>gi_start = 0, gi_end = 1, gi_lock = 1\<rparr>"
  obtain r ch where run: "LockGopBySerial True 0 ([], demo_pair) = (r, [?g], ch)"
    using demo_pair_lock(2) by (metis prod.collapse)
  have keep: "gop_keeps ([], demo_pair) ([?g], ch)"
    using LockGopBySerial_spec [OF _ run] no_locks_gop_ok [OF demo_pair_ok(1)] by simp
  then have cur: "vi_cur_serial (ch_video ch) = 1" "gop_ok ([?g], ch)"
    using demo_pair_ok(2) by (simp_all add: gop_keeps_def)
  then have "GetGopInfoBySerial (vi_cur_serial (ch_video ch) - 1) [?g] = Some 0"
    by (simp add: find_gop_Some covers_def)
  from LockCurrentGopP_leaks [OF cur(2) this] cur(1)
  have "\<exists>ch'. LockCurrentGopP ([?g], ch) = (GOP_COMPLETE, [?g], ch') \<and> 0 < lock_count (ch_cache (snd (GopCleanup [?g] ch'))) 1"
    by (simp del: GopCleanup.simps) blast
  then show ?thesis by blast
qed

end
