(* ===== verification/Stream.thy ===== *)
theory Stream
  imports Gop_Lock
begin

text \<open>The stream server (src/stream.c): the encoder's entry point \<open>stream_write\<close> and
  the message thread \<open>Msg_CTRL\<close> that looks up and locks frames for other processes
  (structures of include/stream.h and include/Msg_Def.h).  Every operation runs under the mutex of its
  channel, so that it is one step.  Formats and stream types index the 32
  channels; the code does not check them.  \<open>stream_feature_setup\<close> has an empty body.\<close>

section \<open>Messages\<close>

datatype msg_cmd = MSG_CMD_START | MSG_CMD_GET_MEM | MSG_CMD_QUIT | MSG_CMD_SET_MEM | MSG_CMD_PRINT_MEM
  | MSG_CMD_GET_CUR_FRAME | MSG_CMD_LOCK_FRAME | MSG_CMD_UNLOCK_FRAME | MSG_CMD_GET_VOL
  | MSG_CMD_GET_NEW_FRAME | MSG_CMD_GET_AND_LOCK_IFRAME | MSG_CMD_SET_DAY_NIGHT
  | MSG_CMD_SET_WHITE_BALANCE | MSG_CMD_SET_BACKLIGHT | MSG_CMD_SET_BRIGHTNESS | MSG_CMD_SET_CONTRAST
  | MSG_CMD_SET_SATURATION | MSG_CMD_SET_SHARPNESS | MSG_CMD_SET_BITRATE1 | MSG_CMD_SET_BITRATE2
  | MSG_CMD_SET_JPEG_QUALITY | MSG_CMD_SET_ROTATION | MSG_CMD_SET_FDETECT | MSG_CMD_SET_MIRROR
  | MSG_CMD_SET_OSDWINDOW | MSG_CMD_SET_M41_FRAMERATE | MSG_CMD_SET_M42_FRAMERATE
  | MSG_CMD_SET_JPG_FRAMERATE | MSG_CMD_SWITCH_2A | MSG_CMD_TYPE_2A | MSG_CMD_SET_TV_SYSTEM
  | MSG_CMD_SET_BINNING_SKIP | MSG_CMD_SET_TSTAMP | MSG_CMD_PTZ | MSG_CMD_INIT_PTZ
  | MSG_CMD_SET_MOTION_BLOCK | MSG_CMD_SET_MOTION | MSG_CMD_SET_MOTION_CENABLE
  | MSG_CMD_SET_MOTION_LEVEL | MSG_CMD_SET_MOTION_CVALUE | MSG_CMD_SET_M41_ADV_FEATURE
  | MSG_CMD_SET_M42_ADV_FEATURE | MSG_CMD_SET_JPG_ADV_FEATURE | MSG_CMD_SET_ROICFG
  | MSG_CMD_SET_OSDTEXT_EN | MSG_CMD_SET_HIST_EN | MSG_CMD_SET_GBCE_EN | MSG_CMD_SET_EVALMSG
  | MSG_CMD_SET_OSDLOGO_EN | MSG_CMD_SET_OSDTEXT | MSG_CMD_END

definition FMT_AUDIO_CH1 :: int where [const_defs]: "FMT_AUDIO_CH1 = 16"
definition MSG_TYPE_MSG1 :: int where [const_defs]: "MSG_TYPE_MSG1 = 1"
definition STREAM_FAILURE :: int where [const_defs]: "STREAM_FAILURE = -1"
definition STREAM_SUCCESS :: int where [const_defs]: "STREAM_SUCCESS = 0"
definition GOP_INDEX_NUM :: nat where [const_defs]: "GOP_INDEX_NUM = 32"

record frame_info =
  fi_offset :: int
  fi_serial_no :: int
  fi_size :: int
  fi_width :: int
  fi_height :: int
  fi_format :: int
  fi_frameType :: int
  fi_quality :: int
  fi_flags :: int
  fi_timestamp :: "32 word"
  fi_ref_serial :: "int list"

record msg_buf =
  mb_Des :: int
  mb_cmd :: msg_cmd
  mb_Src :: int
  mb_ret :: int
  mb_addr :: int
  mb_size :: int
  mb_frame :: frame_info

section \<open>The server's state\<close>

record stream_set =
  ss_ImageWidth :: "int list"
  ss_ImageHeight :: "int list"
  ss_ImageWidth_Ext :: "int list"
  ss_ImageHeight_Ext :: "int list"
  ss_JpgQuality :: int
  ss_Mpeg4Quality :: "int list"
  ss_Mem_layout :: int

text \<open>With the caches that \<open>video_info\<close> points to, the group lists of gop_lock.c and
  the shared memory; thread, queue and semaphore handles are left out.\<close>

record stream_parm =
  sp_MemInfo :: mem_mng_info
  sp_caches :: "cache_mng option list"
  sp_gops :: "nat \<Rightarrow> gop_info list"
  sp_memory :: memory
  sp_checkNewFrame :: "int list"
  sp_lockNewFrame :: "int list"
  sp_IsQuit :: int
  sp_ImageWidth :: "int list"
  sp_ImageHeight :: "int list"
  sp_ImageWidth_Ext :: "int list"
  sp_ImageHeight_Ext :: "int list"
  sp_JpgQuality :: int
  sp_Mpeg4Quality :: "int list"

abbreviation video_of :: "nat \<Rightarrow> stream_parm \<Rightarrow> video_blk_info" where
  "video_of k sp \<equiv> mm_video_info (sp_MemInfo sp) ! k"

definition channel_of :: "nat \<Rightarrow> stream_parm \<Rightarrow> channel" where
  "channel_of k sp = \<lparr>ch_video = video_of k sp, ch_cache = the (sp_caches sp ! k), ch_mem = sp_memory sp\<rparr>"

definition put_video :: "nat \<Rightarrow> video_blk_info \<Rightarrow> stream_parm \<Rightarrow> stream_parm" where
  "put_video k v sp = sp\<lparr>sp_MemInfo := (sp_MemInfo sp)\<lparr>mm_video_info := (mm_video_info (sp_MemInfo sp))[k := v]\<rparr>\<rparr>"

definition put_channel :: "nat \<Rightarrow> channel \<Rightarrow> stream_parm \<Rightarrow> stream_parm" where
  "put_channel k ch sp = (put_video k (ch_video ch) sp)
     \<lparr>sp_caches := (sp_caches sp)[k := Some (ch_cache ch)], sp_memory := ch_mem ch\<rparr>"

definition put_gops :: "nat \<Rightarrow> gop_state \<Rightarrow> stream_parm \<Rightarrow> stream_parm" where
  "put_gops k st sp = (put_channel k (snd st) sp)\<lparr>sp_gops := (sp_gops sp)(k := fst st)\<rparr>"

section \<open>Starting and ending\<close>

text \<open>\<open>shmid\<close>, \<open>addr\<close>, \<open>callocs\<close>, \<open>allocs\<close>: what the memory set-up gets from the
  system; \<open>thr\<close>: the result of \<open>Init_Msg_Func\<close>.\<close>

definition stream_init :: "int \<Rightarrow> int \<Rightarrow> (nat \<Rightarrow> bool) \<Rightarrow> (nat \<Rightarrow> bool) \<Rightarrow> int \<Rightarrow> stream_set \<Rightarrow> stream_parm
    \<Rightarrow> (int \<times> stream_parm) option" where
  "stream_init shmid addr callocs allocs thr pSet pParm =
    (let pInfo = (sp_MemInfo pParm)\<lparr>mm_mem_layout := ss_Mem_layout pSet\<rparr> in
     case MemMng_Init shmid addr callocs pInfo of
       None \<Rightarrow> None
     | Some (r, mm) \<Rightarrow>
         if r \<noteq> STREAM_SUCCESS then Some (STREAM_FAILURE, pParm\<lparr>sp_MemInfo := mm\<rparr>)
         else
           let (r2, mm2, cs) = CacheMng_Init allocs (fst (snd (MemMng_Mem_layout (mm_mem_layout pInfo)))) mm in
           if r2 \<noteq> STREAM_SUCCESS then Some (STREAM_FAILURE, pParm\<lparr>sp_MemInfo := mm2, sp_caches := cs\<rparr>)
           else Some (if thr < 0 then STREAM_FAILURE else STREAM_SUCCESS,
             pParm\<lparr>sp_MemInfo := mm2, sp_caches := cs, sp_gops := GopInit,
               sp_checkNewFrame := replicate GOP_INDEX_NUM 0, sp_lockNewFrame := replicate GOP_INDEX_NUM 0,
               sp_IsQuit := 0, sp_ImageWidth := ss_ImageWidth pSet, sp_ImageHeight := ss_ImageHeight pSet,
               sp_Mpeg4Quality := ss_Mpeg4Quality pSet, sp_ImageWidth_Ext := ss_ImageWidth_Ext pSet,
               sp_ImageHeight_Ext := ss_ImageHeight_Ext pSet, sp_JpgQuality := ss_JpgQuality pSet\<rparr>))"

text \<open>\<open>GopCleanup\<close> on one channel.\<close>

definition cleanup_channel :: "nat \<Rightarrow> stream_parm \<Rightarrow> stream_parm" where
  "cleanup_channel k sp = put_gops k (GopCleanup (sp_gops sp k) (channel_of k sp)) sp"

text \<open>\<open>stream_end\<close> up to the release of the memory: the loop stops one channel short.\<close>

definition stream_cleanup :: "stream_parm \<Rightarrow> stream_parm" where
  "stream_cleanup sp = fold (\<lambda>k sp. cleanup_channel k (cleanup_channel k sp)) [0..<VIDOE_INFO_END - 1]
     (sp\<lparr>sp_IsQuit := 1\<rparr>)"

section \<open>Writing\<close>

text \<open>The frame just written gets the current serial number of every channel.\<close>

definition set_refs :: "nat \<Rightarrow> stream_parm \<Rightarrow> stream_parm" where
  "set_refs k sp = put_video k (set_frame (vi_cur_frame (video_of k sp))
     (\<lambda>f. f\<lparr>vf_ref_serial := map vi_cur_serial (mm_video_info (sp_MemInfo sp))\<rparr>) (video_of k sp)) sp"

text \<open>A P frame joins a group that is locked while it grows; an I frame ends it.\<close>

definition lock_new_frame :: "nat \<Rightarrow> int \<Rightarrow> stream_parm \<Rightarrow> stream_parm" where
  "lock_new_frame k frame_type sp =
    (if sp_lockNewFrame sp ! k = 0 then sp
     else if frame_type = P_FRAME then
       let r = LockCurrentGopP (sp_gops sp k, channel_of k sp); sp1 = put_gops k (snd r) sp in
       if fst r \<noteq> 0 then sp1\<lparr>sp_lockNewFrame := (sp_lockNewFrame sp1)[k := 0]\<rparr> else sp1
     else if frame_type = I_FRAME then sp\<lparr>sp_lockNewFrame := (sp_lockNewFrame sp)[k := 0]\<rparr>
     else sp)"

text \<open>None: the write does not return.  A client waiting for a new frame is met and
  the flag \<open>checkNewFrame\<close> cleared.\<close>

definition stream_write :: "byte list option \<Rightarrow> int \<Rightarrow> int \<Rightarrow> nat \<Rightarrow> 32 word \<Rightarrow> stream_parm
    \<Rightarrow> (int \<times> stream_parm) option" where
  "stream_write pAddr sz frame_type stream_type timestamp pParm =
    (let v = (video_of stream_type pParm)\<lparr>vi_extrasize := (if stream_type < AUDIO_INFO_G711_CH1 then 24 else 0),
               vi_timestamp := timestamp\<rparr>
     in case MemMng_Video_Write pAddr sz frame_type v (sp_memory pParm) of
       None \<Rightarrow> None
     | Some (ret, v1, m1) \<Rightarrow>
         let sp1 = (put_video stream_type v1 pParm)\<lparr>sp_memory := m1\<rparr> in
         if ret < 0 then Some (STREAM_FAILURE, sp1)
         else
           let sp2 = lock_new_frame stream_type frame_type (set_refs stream_type sp1)
           in Some (STREAM_SUCCESS, sp2\<lparr>sp_checkNewFrame := (sp_checkNewFrame sp2)[stream_type := 0]\<rparr>))"

section \<open>Message handlers\<close>

definition picture_size :: "msg_buf \<Rightarrow> stream_parm \<Rightarrow> frame_info \<Rightarrow> frame_info" where
  "picture_size mb sp fi =
    (if fi_format (mb_frame mb) < FMT_AUDIO_CH1
     then fi\<lparr>fi_width := sp_ImageWidth sp ! nat (fi_format (mb_frame mb)),
             fi_height := sp_ImageHeight sp ! nat (fi_format (mb_frame mb))\<rparr> else fi)"

definition get_cur_frame :: "msg_buf \<Rightarrow> stream_parm \<Rightarrow> msg_buf" where
  "get_cur_frame mb sp =
    (let k = nat (fi_format (mb_frame mb)); v = video_of k sp;
         pFrame = (if fi_format (mb_frame mb) < FMT_AUDIO_CH1 then GetLastI_Frame v else GetCurrentFrame v)
     in case pFrame of
       None \<Rightarrow> mb\<lparr>mb_ret := -1\<rparr>
     | Some i \<Rightarrow>
         let f = frame_at v i;
             fi = picture_size mb sp ((mb_frame mb)\<lparr>fi_serial_no := vf_serial f, fi_size := vf_realsize f,
                    fi_offset := GetCurrentOffset v\<rparr>)
         in mb\<lparr>mb_frame := fi\<lparr>fi_flags := vf_flag f, fi_frameType := vf_type f,
                 fi_timestamp := vf_timestamp f, fi_ref_serial := vf_ref_serial f\<rparr>, mb_ret := 0\<rparr>)"

text \<open>The answer about a locked frame, from \<open>CacheMng_GetCacheInfoBySerial\<close>; \<open>junk\<close> is
  the uninitialised local variable that is used when that call finds nothing.\<close>

definition cache_reply :: "cache_data_info \<Rightarrow> msg_buf \<Rightarrow> stream_parm \<Rightarrow> msg_buf" where
  "cache_reply junk mb sp =
    (let info = (case snd (CacheMng_GetCacheInfoBySerial (fi_serial_no (mb_frame mb))
                        (channel_of (nat (fi_format (mb_frame mb))) sp)) of
                   Some i \<Rightarrow> i | None \<Rightarrow> junk);
         fi = picture_size mb sp ((mb_frame mb)
                \<lparr>fi_offset := ci_start_phy info - GetMemMngPhyBaseAddr (Some (sp_MemInfo sp)),
                 fi_size := ci_realsize info\<rparr>)
     in mb\<lparr>mb_frame := fi\<lparr>fi_flags := ci_flag info, fi_frameType := ci_type info,
             fi_timestamp := ci_timestamp info, fi_ref_serial := ci_ref_serial info\<rparr>\<rparr>)"

text \<open>A group lock: a growing group is reported as complete and followed.\<close>

definition lock_gop :: "bool \<Rightarrow> nat \<Rightarrow> int \<Rightarrow> stream_parm \<Rightarrow> int \<times> stream_parm" where
  "lock_gop alloc k serial sp =
    (let r = LockGopBySerial alloc serial (sp_gops sp k, channel_of k sp); sp1 = put_gops k (snd r) sp in
     if fst r = GOP_INCOMPLETE then (0, sp1\<lparr>sp_lockNewFrame := (sp_lockNewFrame sp1)[k := 1]\<rparr>)
     else (fst r, sp1))"

definition lock_frame :: "bool \<Rightarrow> cache_data_info \<Rightarrow> msg_buf \<Rightarrow> stream_parm \<Rightarrow> msg_buf \<times> stream_parm" where
  "lock_frame alloc junk mb sp =
    (let k = nat (fi_format (mb_frame mb)); serial = fi_serial_no (mb_frame mb);
         (mb1, sp1) =
           (if fi_format (mb_frame mb) \<ge> FMT_AUDIO_CH1 then
              let r = CacheMng_Video_CacheLock serial (channel_of k sp)
              in (mb\<lparr>mb_frame := (mb_frame mb)\<lparr>fi_quality := 0\<rparr>, mb_ret := fst r\<rparr>, put_channel k (snd r) sp)
            else
              let r = lock_gop alloc k serial sp
              in (mb\<lparr>mb_frame := (mb_frame mb)\<lparr>fi_quality := sp_Mpeg4Quality sp ! k\<rparr>, mb_ret := fst r\<rparr>, snd r))
     in (if mb_ret mb1 = 0 then cache_reply junk mb1 sp1 else mb1, sp1))"

text \<open>Nothing is reported to the client.\<close>

definition unlock_frame :: "msg_buf \<Rightarrow> stream_parm \<Rightarrow> stream_parm" where
  "unlock_frame mb sp =
    (let k = nat (fi_format (mb_frame mb)); serial = fi_serial_no (mb_frame mb) in
     if fi_format (mb_frame mb) \<ge> FMT_AUDIO_CH1
     then put_channel k (snd (CacheMng_Video_CacheUnlock serial (channel_of k sp))) sp
     else
       let r = UnlockGopBySerial serial (sp_gops sp k, channel_of k sp); sp1 = put_gops k (snd r) sp in
       if fst r = GOP_INCOMPLETE then sp1\<lparr>sp_lockNewFrame := (sp_lockNewFrame sp1)[k := 0]\<rparr> else sp1)"

definition get_vol :: "msg_buf \<Rightarrow> stream_parm \<Rightarrow> msg_buf" where
  "get_vol mb sp =
    (if fi_format (mb_frame mb) < FMT_AUDIO_CH1 then
       let v = video_of (nat (fi_format (mb_frame mb))) sp
       in mb\<lparr>mb_frame := (mb_frame mb)\<lparr>fi_offset := vi_extradata v - mm_start_addr (sp_MemInfo sp),
                fi_size := vi_extrasize v\<rparr>\<rparr>
     else mb)"

definition get_and_lock_iframe :: "bool \<Rightarrow> cache_data_info \<Rightarrow> msg_buf \<Rightarrow> stream_parm \<Rightarrow> msg_buf \<times> stream_parm" where
  "get_and_lock_iframe alloc junk mb sp =
    (let k = nat (fi_format (mb_frame mb)) in
     if \<not> fi_format (mb_frame mb) < FMT_AUDIO_CH1 then (mb\<lparr>mb_ret := -1\<rparr>, sp)
     else case GetLastI_Frame (video_of k sp) of
       None \<Rightarrow> (mb\<lparr>mb_ret := -1\<rparr>, sp)
     | Some i \<Rightarrow>
         let serial = vf_serial (frame_at (video_of k sp) i);
             r = lock_gop alloc k serial sp;
             mb1 = mb\<lparr>mb_frame := (mb_frame mb)\<lparr>fi_serial_no := serial, fi_quality := sp_Mpeg4Quality sp ! k\<rparr>,
                     mb_ret := fst r\<rparr>
         in (if mb_ret mb1 = GOP_COMPLETE then cache_reply junk mb1 (snd r) else mb1, snd r))"

text \<open>One message.  \<open>MSG_CMD_GET_NEW_FRAME\<close> first sets \<open>checkNewFrame\<close> and waits for the
  next write of the channel (\<open>Msg_CTRL_wait\<close>), then answers like
  \<open>MSG_CMD_GET_CUR_FRAME\<close>.\<close>

definition Msg_CTRL_wait :: "msg_buf \<Rightarrow> stream_parm \<Rightarrow> stream_parm" where
  "Msg_CTRL_wait mb sp =
    (if mb_cmd mb = MSG_CMD_GET_NEW_FRAME
     then sp\<lparr>sp_checkNewFrame := (sp_checkNewFrame sp)[nat (fi_format (mb_frame mb)) := 1]\<rparr> else sp)"

text \<open>The commands that set up the camera: \<open>stream_feature_setup\<close> has an empty body, so
  that only the return code is written; the commands of the enumeration without a
  case leave the message as it is.\<close>

definition Msg_CTRL_setup :: "msg_buf \<Rightarrow> msg_buf" where
  "Msg_CTRL_setup mb =
    (if mb_cmd mb = MSG_CMD_SET_OSDTEXT then mb\<lparr>mb_ret := mb_addr mb\<rparr>
     else if mb_cmd mb \<in> {MSG_CMD_START, MSG_CMD_SET_MEM, MSG_CMD_PRINT_MEM, MSG_CMD_SET_ROTATION, MSG_CMD_SET_MIRROR,
               MSG_CMD_SET_OSDWINDOW, MSG_CMD_SWITCH_2A, MSG_CMD_INIT_PTZ, MSG_CMD_SET_MOTION_BLOCK,
               MSG_CMD_SET_MOTION_CENABLE, MSG_CMD_SET_MOTION_LEVEL, MSG_CMD_SET_MOTION_CVALUE, MSG_CMD_END}
     then mb else mb\<lparr>mb_ret := 0\<rparr>)"

definition Msg_CTRL_handle :: "bool \<Rightarrow> cache_data_info \<Rightarrow> msg_buf \<Rightarrow> stream_parm \<Rightarrow> msg_buf \<times> stream_parm" where
  "Msg_CTRL_handle alloc junk mb sp =
    (case mb_cmd mb of
       MSG_CMD_GET_MEM \<Rightarrow>
         let n = GetMemMngTotalMemSize (Some (sp_MemInfo sp)) in (mb\<lparr>mb_size := n, mb_ret := (if n > 0 then 0 else -1)\<rparr>, sp)
     | MSG_CMD_QUIT \<Rightarrow> (mb, sp\<lparr>sp_IsQuit := 1\<rparr>)
     | MSG_CMD_GET_NEW_FRAME \<Rightarrow> (get_cur_frame mb sp, sp)
     | MSG_CMD_GET_CUR_FRAME \<Rightarrow> (get_cur_frame mb sp, sp)
     | MSG_CMD_LOCK_FRAME \<Rightarrow> lock_frame alloc junk mb sp
     | MSG_CMD_UNLOCK_FRAME \<Rightarrow> (mb, unlock_frame mb sp)
     | MSG_CMD_GET_VOL \<Rightarrow> (get_vol mb sp, sp)
     | MSG_CMD_GET_AND_LOCK_IFRAME \<Rightarrow> get_and_lock_iframe alloc junk mb sp
     | c \<Rightarrow> (Msg_CTRL_setup mb, sp))"

definition Msg_CTRL_reply :: "msg_buf \<Rightarrow> msg_buf option" where
  "Msg_CTRL_reply mb = (if mb_Src mb \<noteq> 0 then Some (mb\<lparr>mb_Des := mb_Src mb, mb_Src := MSG_TYPE_MSG1\<rparr>) else None)"

end
