(* ===== verification/Stream_Inv.thy ===== *)
theory Stream_Inv
  imports Stream
begin

text \<open>The invariant of the stream server: every channel has a well formed store and
  cache, every lock of a video channel belongs to a listed group, audio channels
  have no groups, and the areas of different channels do not overlap.  Every
  operation of the server keeps it and leaves the other channels alone.\<close>

section \<open>Channels of the server\<close>

lemma channel_of_simps [simp]:
  "ch_video (channel_of k sp) = video_of k sp" "ch_cache (channel_of k sp) = the (sp_caches sp ! k)"
  "ch_mem (channel_of k sp) = sp_memory sp"
  by (simp_all add: channel_of_def)

text \<open>The number of channels, and what an operation on one of them must not change
  elsewhere.\<close>

definition stream_shape :: "stream_parm \<Rightarrow> bool" where
  "stream_shape sp \<longleftrightarrow> length (mm_video_info (sp_MemInfo sp)) = VIDOE_INFO_END
     \<and> length (sp_caches sp) = VIDOE_INFO_END \<and> length (sp_lockNewFrame sp) = GOP_INDEX_NUM
     \<and> length (sp_checkNewFrame sp) = GOP_INDEX_NUM"

lemma shape_put [simp]:
  "stream_shape (put_video k v sp) = stream_shape sp"
  "stream_shape (put_channel k ch sp) = stream_shape sp"
  "stream_shape (put_gops k st sp) = stream_shape sp"
  "stream_shape (sp\<lparr>sp_memory := m\<rparr>) = stream_shape sp"
  "stream_shape (sp\<lparr>sp_IsQuit := q\<rparr>) = stream_shape sp"
  "stream_shape (sp\<lparr>sp_checkNewFrame := (sp_checkNewFrame sp)[k := x]\<rparr>) = stream_shape sp"
  "stream_shape (sp\<lparr>sp_lockNewFrame := (sp_lockNewFrame sp)[k := x]\<rparr>) = stream_shape sp"
  by (simp_all add: stream_shape_def put_video_def put_channel_def put_gops_def)

lemma put_fields [simp]:
  "sp_gops (put_video k v sp) = sp_gops sp" "sp_caches (put_video k v sp) = sp_caches sp"
  "sp_memory (put_video k v sp) = sp_memory sp" "sp_lockNewFrame (put_video k v sp) = sp_lockNewFrame sp"
  "sp_gops (put_channel k ch sp) = sp_gops sp" "sp_memory (put_channel k ch sp) = ch_mem ch"
  "sp_gops (put_gops k st sp) = (sp_gops sp)(k := fst st)" "sp_memory (put_gops k st sp) = ch_mem (snd st)"
  "sp_lockNewFrame (put_gops k st sp) = sp_lockNewFrame sp" "sp_lockNewFrame (put_channel k ch sp) = sp_lockNewFrame sp"
  "mm_start_addr (sp_MemInfo (put_video k v sp)) = mm_start_addr (sp_MemInfo sp)"
  "mm_start_addr (sp_MemInfo (put_channel k ch sp)) = mm_start_addr (sp_MemInfo sp)"
  "mm_start_addr (sp_MemInfo (put_gops k st sp)) = mm_start_addr (sp_MemInfo sp)"
  "mm_start_phyAddr (sp_MemInfo (put_video k v sp)) = mm_start_phyAddr (sp_MemInfo sp)"
  "mm_start_phyAddr (sp_MemInfo (put_channel k ch sp)) = mm_start_phyAddr (sp_MemInfo sp)"
  "mm_start_phyAddr (sp_MemInfo (put_gops k st sp)) = mm_start_phyAddr (sp_MemInfo sp)"
  by (simp_all add: put_video_def put_channel_def put_gops_def)

text \<open>Reading a channel back.\<close>

lemma video_of_put [simp]:
  assumes "stream_shape sp" "k < VIDOE_INFO_END"
  shows "video_of j (put_video k v sp) = (if j = k then v else video_of j sp)"
    "video_of j (put_channel k ch sp) = (if j = k then ch_video ch else video_of j sp)"
    "video_of j (put_gops k st sp) = (if j = k then ch_video (snd st) else video_of j sp)"
  using assms by (auto simp: put_video_def put_channel_def put_gops_def stream_shape_def)

lemma cache_of_put [simp]:
  assumes "stream_shape sp" "k < VIDOE_INFO_END"
  shows "the (sp_caches (put_channel k ch sp) ! j) = (if j = k then ch_cache ch else the (sp_caches sp ! j))"
    "the (sp_caches (put_gops k st sp) ! j) = (if j = k then ch_cache (snd st) else the (sp_caches sp ! j))"
  using assms by (auto simp: put_channel_def put_gops_def stream_shape_def)

section \<open>One channel\<close>

text \<open>Nothing but payloads depends on the memory.\<close>

lemma memory_irrelevant [simp]:
  "channel_ok (ch\<lparr>ch_mem := m\<rparr>) = channel_ok ch" "gop_ok (gl, ch\<lparr>ch_mem := m\<rparr>) = gop_ok (gl, ch)"
  "balance (gl, ch\<lparr>ch_mem := m\<rparr>) = balance (gl, ch)"
  by (simp_all add: channel_ok_def gop_ok_def balance_def fun_eq_iff)

text \<open>The extra data keep room for the 24 bytes that \<open>stream_write\<close> asks for.\<close>

definition extra_room :: "channel \<Rightarrow> bool" where
  "extra_room ch \<longleftrightarrow> store_cfg ((ch_video ch)\<lparr>vi_extrasize := 24\<rparr>)
     \<and> channel_cfg ((ch_video ch)\<lparr>vi_extrasize := 24\<rparr>) (ch_cache ch)"

definition slot_ok :: "nat \<Rightarrow> gop_info list \<Rightarrow> channel \<Rightarrow> bool" where
  "slot_ok k gl ch \<longleftrightarrow> gop_ok (gl, ch) \<and> extra_room ch
     \<and> (if k < AUDIO_INFO_G711_CH1 then balance (gl, ch) = (\<lambda>_. 0) else gl = [] \<and> vi_extradata (ch_video ch) = 0)"

text \<open>Where a channel keeps its data; the same before and after every operation.\<close>

definition geom :: "channel \<Rightarrow> int list" where
  "geom ch = [vi_start (ch_video ch), vi_blk_num (ch_video ch), vi_blk_sz (ch_video ch), vi_extradata (ch_video ch),
     cm_start_addr (ch_cache ch), cm_start_phy (ch_cache ch), cm_blk_num (ch_cache ch), cm_blk_sz (ch_cache ch),
     cm_cache_num (ch_cache ch)]"

lemma geom_mem [simp]: "geom (ch\<lparr>ch_mem := m\<rparr>) = geom ch"
  by (simp add: geom_def)

lemma extra_room_geom: "geom ch' = geom ch \<Longrightarrow> extra_room ch' = extra_room ch"
  by (simp add: geom_def extra_room_def store_cfg_def extra_apart_def channel_cfg_def)

definition area :: "channel \<Rightarrow> int \<Rightarrow> bool" where
  "area ch a \<longleftrightarrow> vi_start (ch_video ch) \<le> a \<and> a < vi_start (ch_video ch) + vi_blk_num (ch_video ch) * vi_blk_sz (ch_video ch)
     \<or> vi_extradata (ch_video ch) \<noteq> 0 \<and> vi_extradata (ch_video ch) \<le> a \<and> a < vi_extradata (ch_video ch) + 24
     \<or> cm_start_addr (ch_cache ch) \<le> a \<and> a < cm_start_addr (ch_cache ch) + cm_blk_num (ch_cache ch) * cm_blk_sz (ch_cache ch)"

lemma area_geom: "geom ch' = geom ch \<Longrightarrow> area ch' = area ch"
  by (simp add: geom_def area_def fun_eq_iff)

text \<open>An operation stays in its channel when it writes to its own areas only.\<close>

definition stays :: "channel \<Rightarrow> channel \<Rightarrow> bool" where
  "stays ch ch' \<longleftrightarrow> geom ch' = geom ch \<and> (\<forall>a. \<not> area ch a \<longrightarrow> ch_mem ch' a = ch_mem ch a)"

lemma stays_refl [simp]: "stays ch ch"
  by (simp add: stays_def)

lemma stays_trans: "stays a b \<Longrightarrow> stays b c \<Longrightarrow> stays a c"
  using area_geom [of b a] by (simp add: stays_def)

section \<open>The cache stays in its channel\<close>

lemma geom_cache [simp]:
  "geom (ch\<lparr>ch_cache := set_cache i f cm\<rparr>) = geom (ch\<lparr>ch_cache := cm\<rparr>)"
  "geom (ch\<lparr>ch_cache := set_blks j n g cm\<rparr>) = geom (ch\<lparr>ch_cache := cm\<rparr>)"
  "geom (ch\<lparr>ch_cache := cm, ch_mem := m\<rparr>) = geom (ch\<lparr>ch_cache := cm\<rparr>)"
  by (simp_all add: geom_def set_cache_def set_blks_def)

lemma cache_write_geom: "geom (snd (CacheMng_cache_write i f ch)) = geom ch"
  by (auto simp: CacheMng_cache_write_def Let_def split: if_splits prod.split)

lemma lock_geom: "geom (snd (CacheMng_Video_CacheLock s ch)) = geom ch"
  unfolding CacheMng_Video_CacheLock_def
  by (auto simp: Let_def cache_write_geom split_beta split: option.split)

lemma unlock_stays: "stays ch (snd (CacheMng_Video_CacheUnlock s ch))"
  unfolding CacheMng_Video_CacheUnlock_def by (auto simp: stays_def Let_def)

lemma lock_stays:
  assumes ok: "channel_ok ch"
  shows "channel_ok (snd (CacheMng_Video_CacheLock s ch)) \<and> stays ch (snd (CacheMng_Video_CacheLock s ch))"
proof -
  obtain r ch' where lk: "CacheMng_Video_CacheLock s ch = (r, ch')" by fastforce
  have "channel_ok ch' \<and> (\<forall>a. \<not> area ch a \<longrightarrow> ch_mem ch' a = ch_mem ch a)"
  proof (cases "r = 0")
    case False
    with Cache_Lock.lock_fail(2) [OF ok lk] ok show ?thesis by simp
  next
    case r: True
    show ?thesis
    proof (cases "entry (ch_cache ch) s")
      case (Some c)
      from lock_hit_entry(2,4) [OF ok Some lk] show ?thesis by simp
    next
      case None
      show ?thesis
      proof (rule lock_new_entry [OF ok None lk [unfolded r]], goal_cases)
        case (1 fi bi)
        let ?n = "vf_realsize (frame_at (ch_video ch) fi)" and ?sz = "cm_blk_sz (ch_cache ch)"
        have pos: "0 < ?sz" using ok cache_ok_geom(1) by (auto simp: channel_ok_def)
        have n: "0 < ?n" by (rule found_frame(4) [OF ok 1(1)])
        have "0 \<le> bi * ?sz" using 1(6) pos by simp
        moreover have "bi * ?sz + ?n \<le> cm_blk_num (ch_cache ch) * ?sz"
          using blocks_for_bounds(2) [OF n pos] mult_right_mono [OF 1(7), of ?sz] pos by (simp add: distrib_right)
        ultimately have "ch_mem ch' a = ch_mem ch a" if "\<not> area ch a" for a
          unfolding 1(10) by (intro mem_write_outside) (use that n in \<open>auto simp: area_def\<close>)
        with 1(2) show ?case by blast
      qed
    qed
  qed
  with lk lock_geom [of s ch] show ?thesis by (simp add: stays_def)
qed

lemma unlock_ok_stays:
  assumes "channel_ok ch"
  shows "channel_ok (snd (CacheMng_Video_CacheUnlock s ch)) \<and> stays ch (snd (CacheMng_Video_CacheUnlock s ch))"
proof -
  obtain r ch' where un: "CacheMng_Video_CacheUnlock s ch = (r, ch')" by fastforce
  have "channel_ok ch'"
  proof (cases "0 < lock_count (ch_cache ch) s")
    case True
    then show ?thesis using unlock_effect(2) [OF assms _ un] by blast
  next
    case False
    then have "lock_count (ch_cache ch) s = 0" using lock_count_pos(2) [OF assms, of s] by simp
    with unlock_none(2) [OF assms _ un] assms show ?thesis by simp
  qed
  with un unlock_stays [of ch s] show ?thesis by simp
qed

section \<open>The loops of the group locks\<close>

lemma unlock_each_stays:
  assumes "channel_ok ch"
  shows "channel_ok (snd (unlock_each CacheMng_Video_CacheUnlock ss ch))
    \<and> stays ch (snd (unlock_each CacheMng_Video_CacheUnlock ss ch))"
  using assms
proof (induction ss arbitrary: ch)
  case (Cons s ss)
  from unlock_ok_stays [OF Cons.prems, of s] Cons.IH show ?case by (auto simp: Let_def intro: stays_trans)
qed simp

lemma lock_each_stays:
  assumes "channel_ok ch"
  shows "stays ch (snd (lock_each CacheMng_Video_CacheLock CacheMng_Video_CacheUnlock locked ss ch))"
  using assms
proof (induction ss arbitrary: locked ch)
  case (Cons s ss)
  from lock_stays [OF Cons.prems, of s] Cons.IH unlock_each_stays show ?case
    by (auto simp: Let_def intro: stays_trans)
qed simp

lemma LockGop_stays: "channel_ok ch \<Longrightarrow> stays ch (snd (LockGop a b ch))"
  by (simp add: LockGop_def Let_def lock_each_stays)

lemma UnlockGop_stays: "channel_ok ch \<Longrightarrow> channel_ok (snd (UnlockGop a b ch)) \<and> stays ch (snd (UnlockGop a b ch))"
  by (simp add: UnlockGop_def Let_def unlock_each_stays)

lemma AddAndLockGop_stays: "channel_ok (snd st) \<Longrightarrow> stays (snd st) (snd (snd (AddAndLockGop alloc a b st)))"
  by (auto simp: AddAndLockGop_def Let_def LockGop_stays split: option.split)

lemma LockGopBySerial_stays: "channel_ok (snd st) \<Longrightarrow> stays (snd st) (snd (snd (LockGopBySerial alloc s st)))"
  using lock_stays [of "snd st" s] AddAndLockGop_stays [of st]
  by (auto simp: LockGopBySerial_def Let_def split: option.split)

lemma UnlockGopBySerial_stays: "channel_ok (snd st) \<Longrightarrow> stays (snd st) (snd (snd (UnlockGopBySerial s st)))"
  by (auto simp: UnlockGopBySerial_def Let_def UnlockGop_stays split: option.split)

lemma LockCurrentGopP_stays:
  assumes "channel_ok (snd st)"
  shows "stays (snd st) (snd (snd (LockCurrentGopP st)))"
proof -
  let ?r = "CacheMng_Video_CacheLock (GetCurrentSerialNo (ch_video (snd st))) (snd st)"
  have "channel_ok (snd ?r)" "stays (snd st) (snd ?r)" using lock_stays [OF assms] by simp_all
  then show ?thesis
    using UnlockGop_stays by (auto simp: LockCurrentGopP_def Let_def split: option.split intro: stays_trans)
qed

lemma GopCleanup_stays: "channel_ok ch \<Longrightarrow> stays ch (snd (GopCleanup gl ch))"
proof (induction gl arbitrary: ch)
  case (Cons g gl)
  with UnlockGop_stays [OF Cons.prems, of "gi_start g" "gi_end g"] show ?case by (auto intro: stays_trans)
qed simp

section \<open>Payloads that stay locked\<close>

text \<open>Where a client finds a locked frame.\<close>

definition place :: "channel \<Rightarrow> int \<Rightarrow> (int \<times> int) option" where
  "place ch t = map_option (\<lambda>c. (cache_addr (ch_cache ch) c, cd_realsize c)) (entry (ch_cache ch) t)"

definition keeps_payloads :: "channel \<Rightarrow> channel \<Rightarrow> bool" where
  "keeps_payloads ch ch' \<longleftrightarrow> (\<forall>t. 0 < lock_count (ch_cache ch) t \<and> 0 < lock_count (ch_cache ch') t
     \<longrightarrow> place ch' t = place ch t)"

text \<open>What the cache gains comes from the store, which keeps its contents.\<close>

definition honest :: "channel \<Rightarrow> channel \<Rightarrow> bool" where
  "honest ch ch' \<longleftrightarrow> ch_video ch' = ch_video ch
     \<and> contents (ch_video ch) (ch_mem ch') = contents (ch_video ch) (ch_mem ch)
     \<and> (\<forall>t x. cached ch' t = Some x \<longrightarrow> cached ch t = Some x \<or> (t, x) \<in> set (contents (ch_video ch) (ch_mem ch)))"

lemma keeps_payloads_refl [simp]: "keeps_payloads ch ch"
  by (simp add: keeps_payloads_def)

lemma honest_refl [simp]: "honest ch ch"
  by (simp add: honest_def)

lemma honest_trans: "honest a b \<Longrightarrow> honest b c \<Longrightarrow> honest a c"
  unfolding honest_def by metis

lemma cached_count: "channel_ok ch \<Longrightarrow> cached ch t \<noteq> None \<longleftrightarrow> 0 < lock_count (ch_cache ch) t"
  using lock_count_pos(1) [of ch t] by (simp add: cached_def)

lemma lock_payloads:
  assumes ok: "channel_ok ch"
  shows "lock_count (ch_cache ch) t \<le> lock_count (ch_cache (snd (CacheMng_Video_CacheLock s ch))) t"
    "0 < lock_count (ch_cache ch) t \<Longrightarrow> place (snd (CacheMng_Video_CacheLock s ch)) t = place ch t"
    "honest ch (snd (CacheMng_Video_CacheLock s ch))"
proof -
  obtain r ch' where lk: "CacheMng_Video_CacheLock s ch = (r, ch')" by fastforce
  have "lock_count (ch_cache ch) t \<le> lock_count (ch_cache ch') t
    \<and> (0 < lock_count (ch_cache ch) t \<longrightarrow> place ch' t = place ch t) \<and> honest ch ch'"
  proof (cases "r = 0")
    case True
    with lk have lk0: "CacheMng_Video_CacheLock s ch = (0, ch')" by simp
    have eff: "lock_effect s ch ch'" by (rule lock_effect [OF ok lk0])
    then have ok': "channel_ok ch'" by (simp add: lock_effect_def)
    have "place ch' t = place ch t" if "0 < lock_count (ch_cache ch) t"
    proof (cases "entry (ch_cache ch) s")
      case (Some c)
      from lock_hit_entry [OF ok Some lk0] Some show ?thesis by (simp add: place_def cache_addr_def)
    next
      case None
      then have "t \<noteq> s" using that by (auto simp: lock_count_def)
      show ?thesis
        by (rule lock_new_entry [OF ok None lk0]) (use \<open>t \<noteq> s\<close> in \<open>simp add: place_def cache_addr_def\<close>)
    qed
    moreover have "cached ch u = Some x \<or> (u, x) \<in> set (contents (ch_video ch) (ch_mem ch))"
      if u: "cached ch' u = Some x" for u x
    proof (cases "cached ch u")
      case (Some y)
      with eff u show ?thesis by (auto simp: lock_effect_def)
    next
      case None
      have "0 < lock_count (ch_cache ch') u" using u cached_count [OF ok', of u] by simp
      moreover have "\<not> 0 < lock_count (ch_cache ch) u" using None cached_count [OF ok, of u] by simp
      ultimately have "u = s" using eff by (auto simp: lock_effect_def split: if_splits)
      with None eff u show ?thesis by (auto simp: lock_effect_def)
    qed
    ultimately show ?thesis using eff by (auto simp: lock_effect_def honest_def)
  next
    case False
    with Cache_Lock.lock_fail(2) [OF ok lk] show ?thesis by simp
  qed
  with lk show "lock_count (ch_cache ch) t \<le> lock_count (ch_cache (snd (CacheMng_Video_CacheLock s ch))) t"
    "0 < lock_count (ch_cache ch) t \<Longrightarrow> place (snd (CacheMng_Video_CacheLock s ch)) t = place ch t"
    "honest ch (snd (CacheMng_Video_CacheLock s ch))" by simp_all
qed

lemma unlock_payloads:
  assumes ok: "channel_ok ch"
  shows "lock_count (ch_cache (snd (CacheMng_Video_CacheUnlock s ch))) t \<le> lock_count (ch_cache ch) t"
    "0 < lock_count (ch_cache (snd (CacheMng_Video_CacheUnlock s ch))) t
      \<Longrightarrow> place (snd (CacheMng_Video_CacheUnlock s ch)) t = place ch t"
    "honest ch (snd (CacheMng_Video_CacheUnlock s ch))"
proof -
  obtain r ch' where un: "CacheMng_Video_CacheUnlock s ch = (r, ch')" by fastforce
  have "lock_count (ch_cache ch') t \<le> lock_count (ch_cache ch) t
    \<and> (0 < lock_count (ch_cache ch') t \<longrightarrow> place ch' t = place ch t) \<and> honest ch ch'"
  proof (cases "0 < lock_count (ch_cache ch) s")
    case True
    then obtain c where c: "entry (ch_cache ch) s = Some c" using lock_count_pos(1) [OF ok] by auto
    note eff = unlock_effect [OF ok True un] and ent = unlock_entry [OF ok c un]
    have "place ch' t = place ch t" if "0 < lock_count (ch_cache ch') t"
      using that ent(5,6,7,8) c
      by (cases "t = s") (auto simp: place_def cache_addr_def lock_count_def split: if_splits)
    moreover have "cached ch u = Some x" if "cached ch' u = Some x" for u x
      using that eff(6) [of u] cached_count [OF eff(2), of u] by simp
    ultimately show ?thesis using eff(3,4,5) by (auto simp: honest_def)
  next
    case False
    then have "lock_count (ch_cache ch) s = 0" using lock_count_pos(2) [OF ok, of s] by simp
    with unlock_none(2) [OF ok _ un] show ?thesis by simp
  qed
  with un show "lock_count (ch_cache (snd (CacheMng_Video_CacheUnlock s ch))) t \<le> lock_count (ch_cache ch) t"
    "0 < lock_count (ch_cache (snd (CacheMng_Video_CacheUnlock s ch))) t
      \<Longrightarrow> place (snd (CacheMng_Video_CacheUnlock s ch)) t = place ch t"
    "honest ch (snd (CacheMng_Video_CacheUnlock s ch))" by simp_all
qed

lemma unlock_each_payloads:
  assumes "channel_ok ch"
  shows "lock_count (ch_cache (snd (unlock_each CacheMng_Video_CacheUnlock ss ch))) t \<le> lock_count (ch_cache ch) t
    \<and> (0 < lock_count (ch_cache (snd (unlock_each CacheMng_Video_CacheUnlock ss ch))) t
       \<longrightarrow> place (snd (unlock_each CacheMng_Video_CacheUnlock ss ch)) t = place ch t)
    \<and> honest ch (snd (unlock_each CacheMng_Video_CacheUnlock ss ch))"
  using assms
proof (induction ss arbitrary: ch)
  case (Cons s ss)
  let ?ch = "snd (CacheMng_Video_CacheUnlock s ch)"
  have "channel_ok ?ch" using unlock_ok_stays [OF Cons.prems] by blast
  from Cons.IH [OF this] unlock_payloads(1,2) [OF Cons.prems, of s t] unlock_payloads(3) [OF Cons.prems, of s] show ?case
    by (auto simp: Let_def intro: honest_trans)
qed simp

lemma lock_each_payloads:
  assumes "channel_ok ch"
  shows "(0 < lock_count (ch_cache ch) t
      \<and> 0 < lock_count (ch_cache (snd (lock_each CacheMng_Video_CacheLock CacheMng_Video_CacheUnlock locked ss ch))) t
    \<longrightarrow> place (snd (lock_each CacheMng_Video_CacheLock CacheMng_Video_CacheUnlock locked ss ch)) t = place ch t)
    \<and> honest ch (snd (lock_each CacheMng_Video_CacheLock CacheMng_Video_CacheUnlock locked ss ch))"
  using assms
proof (induction ss arbitrary: locked ch)
  case (Cons s ss)
  let ?ch = "snd (CacheMng_Video_CacheLock s ch)"
  have ok: "channel_ok ?ch" using lock_stays [OF Cons.prems(1)] by blast
  note lk = lock_payloads(1,2) [OF Cons.prems(1), of t s] lock_payloads(3) [OF Cons.prems(1), of s]
  show ?case
    using Cons.IH [OF ok, of "s # locked"] lk unlock_each_payloads [OF ok, of locked t]
    by (auto simp: Let_def intro: honest_trans split: if_splits)
qed simp

definition faithful :: "channel \<Rightarrow> channel \<Rightarrow> bool" where
  "faithful ch ch' \<longleftrightarrow> keeps_payloads ch ch' \<and> honest ch ch'"

lemma faithful_refl [simp]: "faithful ch ch"
  by (simp add: faithful_def)

lemma LockGop_faithful: "channel_ok ch \<Longrightarrow> faithful ch (snd (LockGop a b ch))"
  using lock_each_payloads by (simp add: faithful_def keeps_payloads_def LockGop_def Let_def)

lemma UnlockGop_faithful: "channel_ok ch \<Longrightarrow> faithful ch (snd (UnlockGop a b ch))"
  using unlock_each_payloads by (simp add: faithful_def keeps_payloads_def UnlockGop_def Let_def)

lemma CacheLock_faithful: "channel_ok ch \<Longrightarrow> faithful ch (snd (CacheMng_Video_CacheLock s ch))"
  by (simp add: faithful_def keeps_payloads_def lock_payloads)

lemma CacheUnlock_faithful: "channel_ok ch \<Longrightarrow> faithful ch (snd (CacheMng_Video_CacheUnlock s ch))"
  by (simp add: faithful_def keeps_payloads_def unlock_payloads)

lemma LockGopBySerial_faithful:
  "channel_ok (snd st) \<Longrightarrow> faithful (snd st) (snd (snd (LockGopBySerial alloc s st)))"
  by (auto simp: LockGopBySerial_def AddAndLockGop_def Let_def LockGop_faithful CacheLock_faithful split: option.split)

lemma UnlockGopBySerial_faithful:
  "channel_ok (snd st) \<Longrightarrow> faithful (snd st) (snd (snd (UnlockGopBySerial s st)))"
  by (auto simp: UnlockGopBySerial_def Let_def UnlockGop_faithful split: option.split)

text \<open>A failed lock leaves the channel alone before the group is given up.\<close>

lemma LockCurrentGopP_faithful:
  assumes ok: "channel_ok (snd st)"
  shows "faithful (snd st) (snd (snd (LockCurrentGopP st)))"
proof -
  obtain r ch' where lk: "CacheMng_Video_CacheLock (GetCurrentSerialNo (ch_video (snd st))) (snd st) = (r, ch')"
    by fastforce
  have "r \<noteq> 0 \<Longrightarrow> ch' = snd st" using Cache_Lock.lock_fail(2) [OF ok lk] .
  with CacheLock_faithful [OF ok, of "GetCurrentSerialNo (ch_video (snd st))"] UnlockGop_faithful [OF ok] lk show ?thesis
    by (auto simp: LockCurrentGopP_def Let_def split: option.split)
qed

text \<open>What a channel holds, against the list of frames written to it since the start.\<close>

definition logged :: "(byte list \<times> int) list \<Rightarrow> channel \<Rightarrow> bool" where
  "logged ws ch \<longleftrightarrow> vi_cur_serial (ch_video ch) = int (length ws) - 1
     \<and> (\<exists>j. contents (ch_video ch) (ch_mem ch) = drop j (log_from 0 ws))
     \<and> (\<forall>t x. cached ch t = Some x \<longrightarrow> (t, x) \<in> set (log_from 0 ws))"

lemma logged_honest: "logged ws ch \<Longrightarrow> honest ch ch' \<Longrightarrow> logged ws ch'"
  unfolding logged_def honest_def by (metis in_set_dropD)

lemma logged_lookup:
  assumes "logged ws ch" "cached ch t = Some (ty, bytes)"
  shows "0 \<le> t" "nat t < length ws" "ws ! nat t = (bytes, ty)"
proof -
  have "(t, ty, bytes) \<in> set (log_from 0 ws)" using assms by (auto simp: logged_def)
  then obtain i where "i < length ws" "log_from 0 ws ! i = (t, ty, bytes)" by (auto simp: in_set_conv_nth)
  then show "0 \<le> t" "nat t < length ws" "ws ! nat t = (bytes, ty)"
    by (auto simp: log_nth intro: prod_eqI)
qed

end
