(* ===== verification/Stream_Client.thy ===== *)
theory Stream_Client
  imports Stream_Inv
begin

text \<open>The server as a whole: every call of an encoder and every message keeps the
  invariant of all channels and touches the areas of one channel only, so that a
  client reads the same bytes as long as it holds its lock.\<close>

section \<open>The invariant\<close>

definition stream_ok :: "stream_parm \<Rightarrow> bool" where
  "stream_ok sp \<longleftrightarrow> stream_shape sp
     \<and> (\<forall>k < VIDOE_INFO_END. slot_ok k (sp_gops sp k) (channel_of k sp)
          \<and> cm_start_addr (the (sp_caches sp ! k)) - cm_start_phy (the (sp_caches sp ! k))
             = mm_start_addr (sp_MemInfo sp) - mm_start_phyAddr (sp_MemInfo sp))
     \<and> (\<forall>j < VIDOE_INFO_END. \<forall>k < VIDOE_INFO_END. j \<noteq> k
          \<longrightarrow> (\<forall>a. \<not> (area (channel_of j sp) a \<and> area (channel_of k sp) a)))"

text \<open>A change of channel \<open>k\<close> alone.\<close>

definition only :: "nat \<Rightarrow> stream_parm \<Rightarrow> stream_parm \<Rightarrow> bool" where
  "only k sp sp' \<longleftrightarrow> stream_shape sp'
     \<and> mm_start_addr (sp_MemInfo sp') = mm_start_addr (sp_MemInfo sp)
     \<and> mm_start_phyAddr (sp_MemInfo sp') = mm_start_phyAddr (sp_MemInfo sp)
     \<and> stays (channel_of k sp) (channel_of k sp')
     \<and> (\<forall>j < VIDOE_INFO_END. j \<noteq> k \<longrightarrow> sp_gops sp' j = sp_gops sp j
          \<and> channel_of j sp' = (channel_of j sp)\<lparr>ch_mem := sp_memory sp'\<rparr>)"

lemma only_refl: "stream_ok sp \<Longrightarrow> only k sp sp"
  by (simp add: only_def stream_ok_def channel_of_def)

lemma stream_okD:
  assumes "stream_ok sp" "k < VIDOE_INFO_END"
  shows "stream_shape sp" "slot_ok k (sp_gops sp k) (channel_of k sp)" "gop_ok (sp_gops sp k, channel_of k sp)"
    "channel_ok (channel_of k sp)"
  using assms by (auto simp: stream_ok_def slot_ok_def gop_ok_def)

lemma slot_ok_mem [simp]: "slot_ok k gl (ch\<lparr>ch_mem := m\<rparr>) = slot_ok k gl ch"
  by (simp add: slot_ok_def extra_room_def)

lemma only_geom:
  assumes "only k sp sp'" "j < VIDOE_INFO_END" "k < VIDOE_INFO_END"
  shows "geom (channel_of j sp') = geom (channel_of j sp)"
  using assms by (cases "j = k") (simp_all add: only_def stays_def)

text \<open>The invariant has to be checked for the changed channel only.\<close>

lemma only_ok:
  assumes ok: "stream_ok sp" and k: "k < VIDOE_INFO_END" and only: "only k sp sp'"
    and slot: "slot_ok k (sp_gops sp' k) (channel_of k sp')"
  shows "stream_ok sp'"
proof -
  have "slot_ok j (sp_gops sp' j) (channel_of j sp')" if "j < VIDOE_INFO_END" for j
    using slot only stream_okD(2) [OF ok that] that by (cases "j = k") (simp_all add: only_def)
  moreover have phy: "cm_start_addr (the (sp_caches sp' ! j)) - cm_start_phy (the (sp_caches sp' ! j))
      = mm_start_addr (sp_MemInfo sp') - mm_start_phyAddr (sp_MemInfo sp')" if "j < VIDOE_INFO_END" for j
    using only_geom [OF only that k] only ok that by (auto simp: geom_def stream_ok_def only_def)
  moreover have "area (channel_of j sp') = area (channel_of j sp)" if "j < VIDOE_INFO_END" for j
    by (rule area_geom) (rule only_geom [OF only that k])
  ultimately show ?thesis using ok only by (simp add: stream_ok_def only_def)
qed

text \<open>Another channel keeps its contents, its counts and all its payloads.\<close>

lemma area_same:
  assumes ok: "channel_ok ch" and m: "\<And>a. area ch a \<Longrightarrow> m a = ch_mem ch a"
  shows "cached (ch\<lparr>ch_mem := m\<rparr>) t = cached ch t" "contents (ch_video ch) m = contents (ch_video ch) (ch_mem ch)"
proof -
  show "cached (ch\<lparr>ch_mem := m\<rparr>) t = cached ch t"
  proof (rule cached_same_entry)
    fix d assume d: "entry (ch_cache ch) t = Some d"
    have cok: "cache_ok (vi_cur_serial (ch_video ch)) (ch_cache ch)" using ok by (simp add: channel_ok_def)
    have "entry_ok (vi_cur_serial (ch_video ch)) (ch_cache ch) d" using entry_index [OF cok d] by blast
    from cache_extent [OF this cache_ok_geom(1) [OF cok]]
    have "area ch (cache_addr (ch_cache ch) d + int i)" if "i < nat (cd_realsize d)" for i
      using that by (auto simp: area_def cache_addr_def)
    then show "mem_read (cache_addr (ch_cache ch) d) (nat (cd_realsize d)) (ch_mem (ch\<lparr>ch_mem := m\<rparr>))
        = mem_read (cache_addr (ch_cache ch) d) (nat (cd_realsize d)) (ch_mem ch)"
      using m by (simp add: mem_read_def)
  qed simp_all
  have "store_ok (ch_video ch)" using ok by (simp add: channel_ok_def)
  then show "contents (ch_video ch) m = contents (ch_video ch) (ch_mem ch)"
    by (rule contents_outside) (rule m, simp add: area_def)
qed

lemma only_others:
  assumes ok: "stream_ok sp" and only: "only k sp sp'" and k: "k < VIDOE_INFO_END" and j: "j < VIDOE_INFO_END" "j \<noteq> k"
  shows "faithful (channel_of j sp) (channel_of j sp')"
proof -
  have "sp_memory sp' a = sp_memory sp a" if "area (channel_of j sp) a" for a
  proof -
    have "\<not> area (channel_of k sp) a" using ok that j k unfolding stream_ok_def by blast
    with only show ?thesis by (simp add: only_def stays_def)
  qed
  then have "cached ((channel_of j sp)\<lparr>ch_mem := sp_memory sp'\<rparr>) t = cached (channel_of j sp) t"
    "contents (video_of j sp) (sp_memory sp') = contents (video_of j sp) (sp_memory sp)" for t
    using area_same [OF stream_okD(4) [OF ok j(1)], of "sp_memory sp'"] by simp_all
  moreover have "channel_of j sp' = (channel_of j sp)\<lparr>ch_mem := sp_memory sp'\<rparr>"
    using only j by (simp add: only_def)
  ultimately show ?thesis by (simp add: faithful_def keeps_payloads_def honest_def place_def)
qed

section \<open>Changes of one channel\<close>

text \<open>\<open>ws\<close> are the frames that the step has written to the channel.\<close>

definition good_step :: "nat \<Rightarrow> (byte list \<times> int) list \<Rightarrow> stream_parm \<Rightarrow> stream_parm \<Rightarrow> bool" where
  "good_step k ws sp sp' \<longleftrightarrow> stream_ok sp' \<and> only k sp sp' \<and> keeps_payloads (channel_of k sp) (channel_of k sp')
     \<and> (\<forall>us. logged us (channel_of k sp) \<longrightarrow> logged (us @ ws) (channel_of k sp'))"

lemma good_step_refl: "stream_ok sp \<Longrightarrow> good_step k [] sp sp"
  by (simp add: good_step_def only_refl)

text \<open>The flags are not part of a channel.\<close>

lemma channel_of_flags [simp]:
  "channel_of k (sp\<lparr>sp_lockNewFrame := x\<rparr>) = channel_of k sp"
  "channel_of k (sp\<lparr>sp_checkNewFrame := y\<rparr>) = channel_of k sp"
  "channel_of k (sp\<lparr>sp_IsQuit := z\<rparr>) = channel_of k sp"
  by (simp_all add: channel_of_def)

lemma good_step_flags [simp]:
  "length fl = length (sp_lockNewFrame sp') \<Longrightarrow> good_step k ws sp (sp'\<lparr>sp_lockNewFrame := fl\<rparr>) = good_step k ws sp sp'"
  "length fl = length (sp_checkNewFrame sp') \<Longrightarrow> good_step k ws sp (sp'\<lparr>sp_checkNewFrame := fl\<rparr>) = good_step k ws sp sp'"
  "good_step k ws sp (sp'\<lparr>sp_IsQuit := q\<rparr>) = good_step k ws sp sp'"
  by (simp_all add: good_step_def stream_ok_def only_def stream_shape_def)

lemma channel_of_put:
  assumes "stream_shape sp" "k < VIDOE_INFO_END"
  shows "channel_of j (put_channel k ch sp) = (if j = k then ch else (channel_of j sp)\<lparr>ch_mem := ch_mem ch\<rparr>)"
    "channel_of j (put_gops k st sp) = (if j = k then snd st else (channel_of j sp)\<lparr>ch_mem := ch_mem (snd st)\<rparr>)"
  using assms by (simp_all add: channel_of_def)

lemma put_gops_only:
  assumes ok: "stream_ok sp" and k: "k < VIDOE_INFO_END" and stays: "stays (channel_of k sp) (snd st)"
  shows "only k sp (put_gops k st sp)"
  using stream_okD(1) [OF ok k] k stays by (simp add: only_def channel_of_put)

lemma put_channel_only:
  assumes ok: "stream_ok sp" and k: "k < VIDOE_INFO_END" and stays: "stays (channel_of k sp) ch"
  shows "only k sp (put_channel k ch sp)"
  using stream_okD(1) [OF ok k] k stays by (simp add: only_def channel_of_put)

text \<open>An operation on the groups of a channel.\<close>

lemma put_gops_step:
  assumes ok: "stream_ok sp" and k: "k < VIDOE_INFO_END"
    and keep: "gop_keeps (sp_gops sp k, channel_of k sp) st" and stays: "stays (channel_of k sp) (snd st)"
    and pay: "faithful (channel_of k sp) (snd st)"
    and groups: "k < AUDIO_INFO_G711_CH1 \<or> fst st = []"
  shows "good_step k [] sp (put_gops k st sp)"
proof -
  note only = put_gops_only [OF ok k stays]
  have ch: "channel_of k (put_gops k st sp) = snd st"
    using stream_okD(1) [OF ok k] k by (simp add: channel_of_put)
  have slot: "slot_ok k (sp_gops sp k) (channel_of k sp)" by (rule stream_okD(2) [OF ok k])
  have "gop_ok (fst st, snd st)" "balance (fst st, snd st) = balance (sp_gops sp k, channel_of k sp)"
    "ch_video (snd st) = video_of k sp"
    using keep by (simp_all add: gop_keeps_def)
  moreover have "geom (snd st) = geom (channel_of k sp)" using stays by (simp add: stays_def)
  ultimately have "slot_ok k (fst st) (snd st)"
    using slot groups extra_room_geom [of "snd st" "channel_of k sp"] by (auto simp: slot_ok_def)
  with only_ok [OF ok k only] only pay show ?thesis
    by (auto simp: good_step_def ch faithful_def intro: logged_honest)
qed

text \<open>A lock of an audio frame.\<close>

lemma put_channel_step:
  assumes ok: "stream_ok sp" and k: "k < VIDOE_INFO_END" "\<not> k < AUDIO_INFO_G711_CH1"
    and chan: "channel_ok ch" "ch_video ch = video_of k sp" and stays: "stays (channel_of k sp) ch"
    and pay: "faithful (channel_of k sp) ch"
  shows "good_step k [] sp (put_channel k ch sp)"
proof -
  note only = put_channel_only [OF ok k(1) stays]
  have ch: "channel_of k (put_channel k ch sp) = ch"
    using stream_okD(1) [OF ok k(1)] k by (simp add: channel_of_put)
  have slot: "slot_ok k (sp_gops sp k) (channel_of k sp)" by (rule stream_okD(2) [OF ok k(1)])
  have "geom ch = geom (channel_of k sp)" using stays by (simp add: stays_def)
  moreover have "0 \<le> lock_count (ch_cache ch) t" for t by (rule lock_count_pos(2) [OF chan(1)])
  ultimately have "slot_ok k (sp_gops sp k) ch"
    using slot k(2) chan extra_room_geom [of ch "channel_of k sp"]
    by (simp add: slot_ok_def gop_ok_def balance_def)
  with only_ok [OF ok k(1) only] only pay show ?thesis
    by (auto simp: good_step_def ch faithful_def intro: logged_honest)
qed

section \<open>Messages\<close>

lemma lock_gop_step:
  assumes ok: "stream_ok sp" and k: "k < AUDIO_INFO_G711_CH1"
  shows "good_step k [] sp (snd (lock_gop alloc k s sp))"
proof -
  let ?st = "(sp_gops sp k, channel_of k sp)"
  have k': "k < VIDOE_INFO_END" using k by (simp add: const_defs)
  obtain r st' where run: "LockGopBySerial alloc s ?st = (r, st')" by (metis surj_pair)
  have "gop_keeps ?st st'" using LockGopBySerial_spec [OF stream_okD(3) [OF ok k'] run] by blast
  moreover have "stays (channel_of k sp) (snd st')" "faithful (channel_of k sp) (snd st')"
    using LockGopBySerial_stays [of ?st alloc s] LockGopBySerial_faithful [of ?st alloc s] stream_okD(4) [OF ok k'] run
    by simp_all
  ultimately have "good_step k [] sp (put_gops k st' sp)" using put_gops_step [OF ok k'] k by blast
  then show ?thesis using run by (simp add: lock_gop_def Let_def)
qed

lemma unlock_gop_step:
  assumes ok: "stream_ok sp" and k: "k < AUDIO_INFO_G711_CH1"
  shows "good_step k [] sp (put_gops k (snd (UnlockGopBySerial s (sp_gops sp k, channel_of k sp))) sp)"
proof -
  let ?st = "(sp_gops sp k, channel_of k sp)"
  have k': "k < VIDOE_INFO_END" using k by (simp add: const_defs)
  obtain r st' where run: "UnlockGopBySerial s ?st = (r, st')" by (metis surj_pair)
  have "gop_keeps ?st st'" using UnlockGopBySerial_keeps [OF stream_okD(3) [OF ok k'] run] .
  moreover have "stays (channel_of k sp) (snd st')" "faithful (channel_of k sp) (snd st')"
    using UnlockGopBySerial_stays [of ?st s] UnlockGopBySerial_faithful [of ?st s] stream_okD(4) [OF ok k'] run
    by simp_all
  ultimately show ?thesis using put_gops_step [OF ok k'] k run by simp
qed

lemma cache_video [simp]:
  assumes "channel_ok ch"
  shows "ch_video (snd (CacheMng_Video_CacheLock s ch)) = ch_video ch"
    "ch_video (snd (CacheMng_Video_CacheUnlock s ch)) = ch_video ch"
proof -
  obtain r ch' where lk: "CacheMng_Video_CacheLock s ch = (r, ch')" by fastforce
  show "ch_video (snd (CacheMng_Video_CacheLock s ch)) = ch_video ch"
    using lk lock_effect [OF assms] Cache_Lock.lock_fail(2) [OF assms lk]
    by (cases "r = 0") (auto simp: lock_effect_def)
  obtain q ch2 where un: "CacheMng_Video_CacheUnlock s ch = (q, ch2)" by fastforce
  show "ch_video (snd (CacheMng_Video_CacheUnlock s ch)) = ch_video ch"
    using un unlock_effect(3) [OF assms _ un] unlock_none(2) [OF assms _ un] lock_count_pos(2) [OF assms, of s]
    by (cases "0 < lock_count (ch_cache ch) s") (auto simp: not_less)
qed

lemma cache_lock_step:
  assumes ok: "stream_ok sp" and k: "k < VIDOE_INFO_END" "\<not> k < AUDIO_INFO_G711_CH1"
  shows "good_step k [] sp (put_channel k (snd (CacheMng_Video_CacheLock s (channel_of k sp))) sp)"
    "good_step k [] sp (put_channel k (snd (CacheMng_Video_CacheUnlock s (channel_of k sp))) sp)"
proof -
  note cok = stream_okD(4) [OF ok k(1)]
  show "good_step k [] sp (put_channel k (snd (CacheMng_Video_CacheLock s (channel_of k sp))) sp)"
    by (rule put_channel_step [OF ok k]) (use lock_stays [OF cok] CacheLock_faithful [OF cok] cache_video [OF cok] in simp_all)
  show "good_step k [] sp (put_channel k (snd (CacheMng_Video_CacheUnlock s (channel_of k sp))) sp)"
    by (rule put_channel_step [OF ok k]) (use unlock_ok_stays [OF cok] CacheUnlock_faithful [OF cok] cache_video [OF cok] in simp_all)
qed

text \<open>The format of a message names its channel.\<close>

definition valid_format :: "msg_buf \<Rightarrow> bool" where
  "valid_format mb \<longleftrightarrow> 0 \<le> fi_format (mb_frame mb) \<and> fi_format (mb_frame mb) < int VIDOE_INFO_END"

lemma video_format:
  "valid_format mb \<Longrightarrow> nat (fi_format (mb_frame mb)) < VIDOE_INFO_END
    \<and> (nat (fi_format (mb_frame mb)) < AUDIO_INFO_G711_CH1 \<longleftrightarrow> fi_format (mb_frame mb) < FMT_AUDIO_CH1)"
  by (auto simp: valid_format_def const_defs)

lemma Msg_CTRL_handle_step:
  assumes ok: "stream_ok sp" and fmt: "valid_format mb"
  shows "good_step (nat (fi_format (mb_frame mb))) [] sp (snd (Msg_CTRL_handle alloc junk mb sp))"
proof -
  let ?k = "nat (fi_format (mb_frame mb))"
  note k = video_format [OF fmt]
  have lock: "good_step ?k [] sp (snd (lock_frame alloc junk mb sp))"
    using lock_gop_step [OF ok, of ?k] cache_lock_step(1) [OF ok, of ?k] k
    by (simp add: lock_frame_def Let_def)
  have unlock: "good_step ?k [] sp (unlock_frame mb sp)"
    using unlock_gop_step [OF ok, of ?k] cache_lock_step(2) [OF ok, of ?k] k
    by (simp add: unlock_frame_def Let_def)
  have iframe: "good_step ?k [] sp (snd (get_and_lock_iframe alloc junk mb sp))"
    using lock_gop_step [OF ok, of ?k] good_step_refl [OF ok, of ?k] k
    by (auto simp: get_and_lock_iframe_def Let_def split: option.split)
  show ?thesis
    using lock unlock iframe good_step_refl [OF ok, of ?k]
    by (cases "mb_cmd mb") (simp_all add: Msg_CTRL_handle_def Let_def)
qed

section \<open>Writing\<close>

text \<open>The list of frames does not depend on the size of the extra data and the time
  stamp, nor on the reference serials.\<close>

lemma slots_stamp: "slots (v\<lparr>vi_extrasize := e, vi_timestamp := ts\<rparr>) = slots v"
  and slots_refs: "slots (set_frame i (\<lambda>f. f\<lparr>vf_ref_serial := rs\<rparr>) v) = slots v"
proof -
  show "slots (v\<lparr>vi_extrasize := e, vi_timestamp := ts\<rparr>) = slots v" by (simp add: slots_def)
  have "map core (vi_frame (set_frame i (\<lambda>f. f\<lparr>vf_ref_serial := rs\<rparr>) v)) = map core (vi_frame v)"
    by (rule set_flag_core) simp
  then show "slots (set_frame i (\<lambda>f. f\<lparr>vf_ref_serial := rs\<rparr>) v) = slots v" by (simp add: slots_def)
qed

lemma store_stamp:
  "store_ok (v\<lparr>vi_extrasize := e, vi_timestamp := ts\<rparr>) = store_ok v"
  "settled (v\<lparr>vi_extrasize := e, vi_timestamp := ts\<rparr>) = settled v"
  by (simp_all add: store_ok_def store_rel_def store_geom_def live_def settled_def slots_stamp)

lemma store_refs:
  "store_ok (set_frame i (\<lambda>f. f\<lparr>vf_ref_serial := rs\<rparr>) v) = store_ok v"
  "settled (set_frame i (\<lambda>f. f\<lparr>vf_ref_serial := rs\<rparr>) v) = settled v"
  by (simp_all add: store_ok_def store_rel_def live_def settled_def slots_refs)

text \<open>A change of the store that keeps its list of frames and its place.\<close>

lemma slot_ok_video:
  assumes slot: "slot_ok k gl ch" and chan: "channel_ok (ch\<lparr>ch_video := v\<rparr>)"
    and same: "geom (ch\<lparr>ch_video := v\<rparr>) = geom ch" and cur: "vi_cur_serial (ch_video ch) \<le> vi_cur_serial v"
  shows "slot_ok k gl (ch\<lparr>ch_video := v\<rparr>)"
proof -
  have bal: "balance (gl, ch\<lparr>ch_video := v\<rparr>) = balance (gl, ch)" by (simp add: balance_def fun_eq_iff)
  then have "gop_ok (gl, ch\<lparr>ch_video := v\<rparr>)" using slot chan cur by (fastforce simp: slot_ok_def gop_ok_def)
  moreover have "vi_extradata v = vi_extradata (ch_video ch)" using same by (simp add: geom_def)
  ultimately show ?thesis
    using slot bal extra_room_geom [OF same] by (simp add: slot_ok_def)
qed

definition stamped :: "nat \<Rightarrow> 32 word \<Rightarrow> video_blk_info \<Rightarrow> video_blk_info" where
  "stamped k ts v = v\<lparr>vi_extrasize := (if k < AUDIO_INFO_G711_CH1 then 24 else 0), vi_timestamp := ts\<rparr>"

lemma stamped_ok:
  assumes slot: "slot_ok k gl ch"
  shows "channel_ok (ch\<lparr>ch_video := stamped k ts (ch_video ch)\<rparr>)" "store_cfg (stamped k ts (ch_video ch))"
    "geom (ch\<lparr>ch_video := stamped k ts (ch_video ch)\<rparr>) = geom ch"
    "vi_cur_serial (stamped k ts (ch_video ch)) = vi_cur_serial (ch_video ch)"
proof -
  have room: "extra_room ch" and cok: "channel_ok ch" and audio: "\<not> k < AUDIO_INFO_G711_CH1 \<Longrightarrow> vi_extradata (ch_video ch) = 0"
    using slot by (auto simp: slot_ok_def gop_ok_def split: if_splits)
  have cfg: "channel_cfg (stamped k ts (ch_video ch)) (ch_cache ch)"
    using room audio by (auto simp: extra_room_def channel_cfg_def stamped_def)
  show "store_cfg (stamped k ts (ch_video ch))"
    using room audio by (auto simp: extra_room_def store_cfg_def extra_apart_def stamped_def)
  show "vi_cur_serial (stamped k ts (ch_video ch)) = vi_cur_serial (ch_video ch)" by (simp add: stamped_def)
  with cok cfg show "channel_ok (ch\<lparr>ch_video := stamped k ts (ch_video ch)\<rparr>)"
    by (simp add: channel_ok_def stamped_def store_stamp)
  show "geom (ch\<lparr>ch_video := stamped k ts (ch_video ch)\<rparr>) = geom ch" by (simp add: geom_def stamped_def)
qed

lemma log_from_snoc: "log_from k (ws @ [(bytes, ft)]) = log_from k ws @ [(k + int (length ws), ft, bytes)]"
  by (induction k ws rule: log_from.induct) (auto simp: add.assoc)

lemma logged_write:
  assumes log: "logged us ch" and cur: "vi_cur_serial (ch_video ch') = vi_cur_serial (ch_video ch) + 1"
    and new: "contents (ch_video ch') (ch_mem ch')
      = drop j (contents (ch_video ch) (ch_mem ch)) @ [(vi_cur_serial (ch_video ch) + 1, ft, bytes)]"
    and cached: "\<And>t. cached ch' t = cached ch t"
  shows "logged (us @ [(bytes, ft)]) ch'"
proof -
  from log obtain i where i: "contents (ch_video ch) (ch_mem ch) = drop i (log_from 0 us)"
    and serial: "vi_cur_serial (ch_video ch) = int (length us) - 1" by (auto simp: logged_def)
  have "contents (ch_video ch') (ch_mem ch') = drop (min (j + i) (length us)) (log_from 0 (us @ [(bytes, ft)]))"
    by (simp add: new i serial log_from_snoc min_def)
  moreover have "vi_cur_serial (ch_video ch') = int (length (us @ [(bytes, ft)])) - 1" using cur serial by simp
  moreover have "(t, x) \<in> set (log_from 0 (us @ [(bytes, ft)]))" if "cached ch' t = Some x" for t x
  proof -
    have "(t, x) \<in> set (log_from 0 us)" using log that unfolding logged_def cached by blast
    then show ?thesis by (simp add: log_from_snoc)
  qed
  ultimately show ?thesis unfolding logged_def by blast
qed

text \<open>The write of a frame, on the stamped channel.\<close>

lemma write_channel_step:
  assumes slot: "slot_ok k gl ch" and wr: "writable (ch_video ch) (bytes, ft)"
  obtains v m where
    "MemMng_Video_Write (Some bytes) (int (length bytes)) ft (stamped k ts (ch_video ch)) (ch_mem ch) = Some (0, v, m)"
    "slot_ok k gl (ch\<lparr>ch_video := v, ch_mem := m\<rparr>)" "stays ch (ch\<lparr>ch_video := v, ch_mem := m\<rparr>)"
    "vi_cur_serial v = vi_cur_serial (ch_video ch) + 1"
    "\<And>us. logged us ch \<Longrightarrow> logged (us @ [(bytes, ft)]) (ch\<lparr>ch_video := v, ch_mem := m\<rparr>)"
proof -
  let ?ch = "ch\<lparr>ch_video := stamped k ts (ch_video ch)\<rparr>"
  note st = stamped_ok [OF slot, of ts]
  have wr': "writable (ch_video ?ch) (bytes, ft)" using wr by (simp add: writable_def stamped_def)
  have cfg: "store_cfg (ch_video ?ch)" using st(2) by simp
  from write_effect [OF st(1) cfg wr'] obtain ch' where
    w: "write_channel bytes ft ?ch = Some (0, ch')" "channel_ok ch'" "ch_cache ch' = ch_cache ?ch"
    "params (ch_video ch') = params (ch_video ?ch)" "vi_cur_serial (ch_video ch') = vi_cur_serial (ch_video ?ch) + 1"
    "\<And>t. cached ch' t = cached ?ch t" by blast
  from w(1) obtain v m where run: "MemMng_Video_Write (Some bytes) (int (length bytes)) ft (ch_video ?ch) (ch_mem ?ch) = Some (0, v, m)"
    and ch': "ch' = ?ch\<lparr>ch_video := v, ch_mem := m\<rparr>"
    by (auto simp: write_channel_def split: option.splits)
  have par: "params v = params (ch_video ?ch)" using w(4) ch' by simp
  have geo: "geom (ch\<lparr>ch_video := v\<rparr>) = geom ch"
    using par by (simp add: geom_def params_def stamped_def)
  have "channel_ok (ch\<lparr>ch_video := v\<rparr>)" using w(2) ch' by (simp add: channel_ok_def)
  then have slot': "slot_ok k gl (ch\<lparr>ch_video := v\<rparr>)"
    by (rule slot_ok_video [OF slot _ geo]) (use w(5) ch' st(4) in simp)
  have mem: "m a = ch_mem ch a" if "\<not> area ch a" for a
  proof -
    have "m a = ch_mem ?ch a"
      by (rule write_outside [OF _ cfg wr' run]) (use st(1) that in \<open>auto simp: channel_ok_def area_def stamped_def\<close>)
    then show ?thesis by simp
  qed
  have sok: "store_ok (ch_video ?ch)" using st(1) by (simp add: channel_ok_def)
  have "contents (stamped k ts (ch_video ch)) (ch_mem ch) = contents (ch_video ch) (ch_mem ch)"
    by (simp add: contents_def live_def slots_stamp stamped_def frame_addr_def)
  moreover obtain v' m' j where w': "MemMng_Video_Write (Some bytes) (int (length bytes)) ft (ch_video ?ch) (ch_mem ?ch) = Some (0, v', m')"
    "contents v' m' = drop j (contents (ch_video ?ch) (ch_mem ?ch)) @ [(vi_cur_serial (ch_video ?ch) + 1, ft, bytes)]"
    by (rule write_step [OF sok cfg wr', of "ch_mem ?ch"])
  ultimately have new: "contents v m = drop j (contents (ch_video ch) (ch_mem ch)) @ [(vi_cur_serial (ch_video ch) + 1, ft, bytes)]"
    using run st(4) by simp
  show thesis
  proof (rule that [of v m])
    show "MemMng_Video_Write (Some bytes) (int (length bytes)) ft (stamped k ts (ch_video ch)) (ch_mem ch) = Some (0, v, m)"
      using run by simp
    show "stays ch (ch\<lparr>ch_video := v, ch_mem := m\<rparr>)" using geo mem by (simp add: stays_def)
    show "logged us ch \<Longrightarrow> logged (us @ [(bytes, ft)]) (ch\<lparr>ch_video := v, ch_mem := m\<rparr>)" for us
      by (rule logged_write [where j = j]) (use w(5,6) ch' st(4) new in \<open>simp_all add: cached_def\<close>)
  qed (use slot' w(5) ch' st(4) in simp_all)
qed

lemma good_step_trans:
  assumes "good_step k ws sp sp1" "good_step k vs sp1 sp2" "ch_cache (channel_of k sp1) = ch_cache (channel_of k sp)"
  shows "good_step k (ws @ vs) sp sp2"
proof -
  have "keeps_payloads (channel_of k sp) (channel_of k sp2)"
    using assms unfolding good_step_def keeps_payloads_def place_def by metis
  moreover have "only k sp sp2"
    using assms(1,2) stays_trans [of "channel_of k sp" "channel_of k sp1" "channel_of k sp2"]
    unfolding good_step_def only_def by (auto simp: channel_of_def)
  ultimately show ?thesis using assms(1,2) unfolding good_step_def by (simp flip: append_assoc)
qed

lemma good_stepI:
  assumes ok: "stream_ok sp" and k: "k < VIDOE_INFO_END"
    and same: "sp' = (put_video k (ch_video ch) sp)\<lparr>sp_memory := ch_mem ch\<rparr>" "ch_cache ch = ch_cache (channel_of k sp)"
    and slot: "slot_ok k (sp_gops sp k) ch" and stays: "stays (channel_of k sp) ch"
    and log: "\<And>us. logged us (channel_of k sp) \<Longrightarrow> logged (us @ ws) ch"
  shows "good_step k ws sp sp'" "channel_of k sp' = ch"
proof -
  have shape: "stream_shape sp" by (rule stream_okD(1) [OF ok k])
  have chan: "channel_of j sp' = (if j = k then ch else (channel_of j sp)\<lparr>ch_mem := sp_memory sp'\<rparr>)" for j
    using shape k same by (cases ch) (simp add: channel_of_def)
  show "channel_of k sp' = ch" using chan by simp
  have eqs: "stream_shape sp'" "sp_gops sp' = sp_gops sp" "mm_start_addr (sp_MemInfo sp') = mm_start_addr (sp_MemInfo sp)"
    "mm_start_phyAddr (sp_MemInfo sp') = mm_start_phyAddr (sp_MemInfo sp)" using shape same(1) by simp_all
  then have only: "only k sp sp'" using stays by (simp add: only_def chan)
  have "slot_ok k (sp_gops sp' k) (channel_of k sp')" using slot eqs(2) by (simp add: chan)
  from only_ok [OF ok k only this] only log show "good_step k ws sp sp'"
    by (simp add: good_step_def chan keeps_payloads_def place_def same(2) [simplified])
qed

text \<open>The frame just written gets its references.\<close>

lemma set_refs_step:
  assumes ok: "stream_ok sp" and k: "k < VIDOE_INFO_END"
  shows "good_step k [] sp (set_refs k sp)" "ch_cache (channel_of k (set_refs k sp)) = ch_cache (channel_of k sp)"
    "vi_cur_serial (video_of k (set_refs k sp)) = vi_cur_serial (video_of k sp)" "sp_gops (set_refs k sp) = sp_gops sp"
proof -
  let ?refs = "map vi_cur_serial (mm_video_info (sp_MemInfo sp))"
  let ?v = "set_frame (vi_cur_frame (video_of k sp)) (\<lambda>f. f\<lparr>vf_ref_serial := ?refs\<rparr>) (video_of k sp)"
  let ?ch = "(channel_of k sp)\<lparr>ch_video := ?v\<rparr>"
  note shape = stream_okD(1) [OF ok k] and slot = stream_okD(2) [OF ok k]
  have geo: "geom ?ch = geom (channel_of k sp)" by (simp add: geom_def)
  have "channel_ok ?ch"
    using stream_okD(4) [OF ok k] by (simp add: channel_ok_def store_refs channel_cfg_def)
  then have "slot_ok k (sp_gops sp k) ?ch" by (rule slot_ok_video [OF slot _ geo]) simp
  moreover have "stays (channel_of k sp) ?ch" using geo by (simp add: stays_def)
  moreover have "contents ?v (sp_memory sp) = contents (video_of k sp) (sp_memory sp)"
    by (simp add: contents_def live_def slots_refs frame_addr_def)
  then have "logged us (channel_of k sp) \<Longrightarrow> logged (us @ []) ?ch" for us
    by (simp add: logged_def cached_def)
  moreover have "set_refs k sp = (put_video k (ch_video ?ch) sp)\<lparr>sp_memory := ch_mem ?ch\<rparr>"
    by (simp add: set_refs_def put_video_def)
  ultimately show "good_step k [] sp (set_refs k sp)" using good_stepI(1) [OF ok k, of _ ?ch] by simp
  show "ch_cache (channel_of k (set_refs k sp)) = ch_cache (channel_of k sp)" "sp_gops (set_refs k sp) = sp_gops sp"
    "vi_cur_serial (video_of k (set_refs k sp)) = vi_cur_serial (video_of k sp)"
    using shape k by (simp_all add: set_refs_def)
qed

lemma lock_new_frame_step:
  assumes ok: "stream_ok sp" and k: "k < VIDOE_INFO_END"
    and new: "GetGopInfoBySerial (vi_cur_serial (video_of k sp)) (sp_gops sp k) = None"
  shows "good_step k [] sp (lock_new_frame k ft sp)"
proof -
  let ?st = "(sp_gops sp k, channel_of k sp)"
  obtain r st' where run: "LockCurrentGopP ?st = (r, st')" by (metis surj_pair)
  have "gop_keeps ?st st'" by (rule LockCurrentGopP_keeps [OF stream_okD(3) [OF ok k] _ run]) (use new in simp)
  moreover have "stays (channel_of k sp) (snd st')" "faithful (channel_of k sp) (snd st')"
    using LockCurrentGopP_stays [of ?st] LockCurrentGopP_faithful [of ?st] stream_okD(4) [OF ok k] run by simp_all
  moreover have "k < AUDIO_INFO_G711_CH1 \<or> fst st' = []"
    using stream_okD(2) [OF ok k] run by (auto simp: slot_ok_def LockCurrentGopP_def GetGopInfoBySerial_def split: if_splits)
  ultimately have "good_step k [] sp (put_gops k st' sp)" by (intro put_gops_step [OF ok k]) auto
  with good_step_refl [OF ok, of k] show ?thesis using run by (simp add: lock_new_frame_def Let_def)
qed

lemma stream_write_step:
  assumes ok: "stream_ok sp" and k: "k < VIDOE_INFO_END" and wr: "writable (video_of k sp) (bytes, ft)"
  obtains sp' where "stream_write (Some bytes) (int (length bytes)) ft k ts sp = Some (STREAM_SUCCESS, sp')"
    "good_step k [(bytes, ft)] sp sp'"
proof -
  let ?ch = "channel_of k sp" and ?gl = "sp_gops sp k"
  note shape = stream_okD(1) [OF ok k] and slot = stream_okD(2) [OF ok k]
  from write_channel_step [OF slot, of bytes ft ts] wr obtain v m where
    w: "MemMng_Video_Write (Some bytes) (int (length bytes)) ft (stamped k ts (video_of k sp)) (sp_memory sp) = Some (0, v, m)"
    "slot_ok k ?gl (?ch\<lparr>ch_video := v, ch_mem := m\<rparr>)" "stays ?ch (?ch\<lparr>ch_video := v, ch_mem := m\<rparr>)"
    "vi_cur_serial v = vi_cur_serial (video_of k sp) + 1"
    "\<And>us. logged us ?ch \<Longrightarrow> logged (us @ [(bytes, ft)]) (?ch\<lparr>ch_video := v, ch_mem := m\<rparr>)" by auto
  define sp1 where "sp1 = (put_video k v sp)\<lparr>sp_memory := m\<rparr>"
  have 1: "good_step k [(bytes, ft)] sp sp1" "channel_of k sp1 = ?ch\<lparr>ch_video := v, ch_mem := m\<rparr>"
    using good_stepI [OF ok k, of sp1 "?ch\<lparr>ch_video := v, ch_mem := m\<rparr>" "[(bytes, ft)]"] w(2,3,5) by (simp_all add: sp1_def)
  have ok1: "stream_ok sp1" using 1(1) by (simp add: good_step_def)
  note 2 = set_refs_step [OF ok1 k]
  have ok2: "stream_ok (set_refs k sp1)" using 2(1) by (simp add: good_step_def)
  have "video_of k sp1 = v" using shape k by (simp add: sp1_def)
  then have cur: "vi_cur_serial (video_of k (set_refs k sp1)) = vi_cur_serial (video_of k sp) + 1"
    using 2(3) w(4) by simp
  have "\<forall>g \<in> set ?gl. gi_end g \<le> vi_cur_serial (video_of k sp)"
    using slot by (simp add: slot_ok_def gop_ok_def)
  then have "GetGopInfoBySerial (vi_cur_serial (video_of k (set_refs k sp1))) (sp_gops (set_refs k sp1) k) = None"
    using cur 2(4) by (force simp: find_gop_None covers_def sp1_def)
  note 3 = lock_new_frame_step [OF ok2 k this, of ft]
  have cache: "ch_cache (channel_of k sp1) = ch_cache ?ch" using 1(2) by simp
  have "good_step k ([(bytes, ft)] @ []) sp (set_refs k sp1)" by (rule good_step_trans [OF 1(1) 2(1) cache])
  from good_step_trans [OF this 3] 2(2) cache have 4: "good_step k [(bytes, ft)] sp (lock_new_frame k ft (set_refs k sp1))" by simp
  let ?sp = "lock_new_frame k ft (set_refs k sp1)"
  have run: "stream_write (Some bytes) (int (length bytes)) ft k ts sp
      = Some (STREAM_SUCCESS, ?sp\<lparr>sp_checkNewFrame := (sp_checkNewFrame ?sp)[k := 0]\<rparr>)"
    using w(1) by (simp add: stream_write_def Let_def sp1_def stamped_def)
  show thesis by (rule that [OF run]) (simp add: 4)
qed

end
