(* ===== verification/Stream_Init.thy ===== *)
theory Stream_Init
  imports Stream_Client
begin

text \<open>\<open>stream_init\<close> establishes the invariant: the stores and caches of the 32
  channels are carved out of one segment, one after the other.\<close>

section \<open>What the templates fix\<close>

lemma place_all_fields:
  assumes "place_all callocs cnt sa sp fo ts = Some (0, vs, fo')"
  shows "length vs = length ts \<and> (\<forall>i < length ts. vi_video_type (vs ! i) = vi_video_type (ts ! i)
    \<and> vi_extrasize (vs ! i) = vi_extrasize (ts ! i)
    \<and> (vi_extrasize (ts ! i) \<le> 0 \<longrightarrow> vi_extradata (vs ! i) = vi_extradata (ts ! i)))"
  using assms
proof (induction ts arbitrary: cnt fo vs)
  case (Cons t ts)
  obtain v1 f1 o1 where place: "place_store sa sp fo t = (v1, f1, o1)" by (metis surj_pair)
  from Cons.prems place obtain vs1 where vs: "vs = v1 # vs1" "place_all callocs (cnt + 1) sa sp (f1, o1) ts = Some (0, vs1, fo')"
    by (auto simp: Let_def split: if_splits)
  have v1: "vi_video_type v1 = vi_video_type t" "vi_extrasize v1 = vi_extrasize t"
    "vi_extrasize t \<le> 0 \<longrightarrow> vi_extradata v1 = vi_extradata t"
    using place by (auto simp: place_store_def Let_def split: if_splits prod.splits)
  from Cons.IH [OF vs(2)] v1 show ?case by (auto simp: vs(1) nth_Cons split: nat.split)
qed simp

lemma MemMng_Init_stores:
  assumes "MemMng_Init shmid addr callocs pInfo = Some (0, mm)"
  shows "mm_start_phyAddr mm = 0" "\<exists>fo. place_all callocs 0 addr 0 (snd (snd (MemMng_Mem_layout (mm_mem_layout pInfo))), 0)
    (fst (MemMng_Mem_layout (mm_mem_layout pInfo))) = Some (0, mm_video_info mm, fo)"
  using assms
  by (auto simp: MemMng_Init_def Video_Mem_Malloc_def zero_mem_mng_def Let_def split_beta split: if_splits)

definition cache_of_template :: "cache_mng \<Rightarrow> bool" where
  "cache_of_template c \<longleftrightarrow> 0 < cm_blk_sz c \<and> 0 < cm_blk_num c \<and> 0 < cm_cache_num c
     \<and> cm_blk_num c * cm_blk_sz c \<le> cm_size c \<and> 0 < cm_size c"

lemma layout_nth:
  assumes "MemMng_Mem_layout layout = (ts, cs, tot)" "k < VIDOE_INFO_END"
  shows "cache_of_template (cs ! k)" "cm_video_type (cs ! k) = vi_video_type (ts ! k)"
    "k < AUDIO_INFO_G711_CH1 \<Longrightarrow> vi_extrasize (ts ! k) = 128"
    "\<not> k < AUDIO_INFO_G711_CH1 \<Longrightarrow> vi_extrasize (ts ! k) = 0 \<and> vi_extradata (ts ! k) = 0"
proof -
  have eqs: "ts ! k = layout_video layout k" "cs ! k = layout_cache layout k"
    using assms by (auto simp: MemMng_Mem_layout_def Let_def)
  show "cache_of_template (cs ! k)" "cm_video_type (cs ! k) = vi_video_type (ts ! k)"
    "k < AUDIO_INFO_G711_CH1 \<Longrightarrow> vi_extrasize (ts ! k) = 128"
    "\<not> k < AUDIO_INFO_G711_CH1 \<Longrightarrow> vi_extrasize (ts ! k) = 0 \<and> vi_extradata (ts ! k) = 0"
    by (simp_all add: eqs layout_video_def layout_cache_def cache_of_template_def mem_profile_def
        video_template_def cache_template_def Let_def const_defs)
qed

section \<open>Placing the caches\<close>

lemma place_caches_ok:
  assumes "length vs = length cs" "\<forall>i < length cs. cm_video_type (cs ! i) = vi_video_type (vs ! i)"
    and "\<forall>n. allocs n" "(\<Sum>c\<leftarrow>cs. cm_size c) \<le> freesize" "\<forall>c \<in> set cs. 0 < cm_size c"
  shows "place_caches allocs cnt sa sp (freesize, offset) (zip vs cs)
    = (0, map (\<lambda>i. ((vs ! i)\<lparr>vi_IsCache := 1\<rparr>, Some (place_cache sa sp (offset + (\<Sum>c\<leftarrow>take i cs. cm_size c)) (cs ! i)))) [0..<length cs],
       freesize - (\<Sum>c\<leftarrow>cs. cm_size c), offset + (\<Sum>c\<leftarrow>cs. cm_size c))"
  using assms
proof (induction vs cs arbitrary: cnt freesize offset rule: list_induct2)
  case (Cons v vs c cs)
  have "0 \<le> (\<Sum>c\<leftarrow>cs. cm_size c)" using Cons.prems(4) by (intro sum_list_nonneg) force
  then have free: "\<not> freesize - cm_size c < 0" "(\<Sum>c\<leftarrow>cs. cm_size c) \<le> freesize - cm_size c"
    using Cons.prems(3) by simp_all
  have types: "cm_video_type c = vi_video_type v" "\<forall>i < length cs. cm_video_type (cs ! i) = vi_video_type (vs ! i)"
    using Cons.prems(1) by (auto simp: nth_Cons' dest: spec [where x = "Suc _"])
  have "\<forall>c \<in> set cs. 0 < cm_size c" using Cons.prems(4) by simp
  note IH = Cons.IH [OF types(2) Cons.prems(2) free(2) this]
  have "allocs cnt" using Cons.prems(2) by blast
  with types(1) free(1) show ?case
    by (simp add: IH Let_def add.assoc map_upt_Suc del: upt_Suc)
qed simp

text \<open>Intervals of one increasing sequence.\<close>

lemma interval_unique:
  fixes f :: "nat \<Rightarrow> int"
  assumes "\<forall>i \<le> n. \<forall>j \<le> i. f j \<le> f i" "j < n" "k < n" "f j \<le> a" "a < f (Suc j)" "f k \<le> a" "a < f (Suc k)"
  shows "j = k"
proof (rule ccontr)
  assume "j \<noteq> k"
  then consider "Suc j \<le> k" | "Suc k \<le> j" by linarith
  then show False
  proof cases
    case 1
    then have "f (Suc j) \<le> f k" using assms(1,3) by simp
    with assms(5,6) show False by simp
  next
    case 2
    then have "f (Suc k) \<le> f j" using assms(1,2) by simp
    with assms(4,7) show False by simp
  qed
qed

section \<open>One freshly placed channel\<close>

lemma fresh_cached: "fresh (v\<lparr>vi_IsCache := x\<rparr>) = fresh v"
  by (simp add: fresh_def)

text \<open>A store in \<open>[a, b)\<close> with its cache behind.\<close>

lemma fresh_slot:
  fixes v :: video_blk_info and c :: cache_mng and m :: memory and sa sp off a b :: int and k :: nat
  assumes v: "fresh v" "occupies v a b" "0 < a" and c: "cache_of_template c" "b \<le> sa + off"
    and extra: "k < AUDIO_INFO_G711_CH1 \<Longrightarrow> vi_extrasize v = 128"
      "\<not> k < AUDIO_INFO_G711_CH1 \<Longrightarrow> vi_extrasize v = 0 \<and> vi_extradata v = 0"
  defines "ch \<equiv> \<lparr>ch_video = v\<lparr>vi_IsCache := 1\<rparr>, ch_cache = place_cache sa sp off c, ch_mem = m\<rparr>"
  shows "slot_ok k [] ch" "lock_count (ch_cache ch) s = 0"
    "area ch x \<Longrightarrow> a \<le> x \<and> x < b \<or> sa + off \<le> x \<and> x < sa + off + cm_size c"
proof -
  have sizes: "0 < cm_blk_sz c" "0 \<le> cm_blk_num c" "0 \<le> cm_cache_num c" "cm_blk_num c * cm_blk_sz c \<le> cm_size c"
    using c(1) by (simp_all add: cache_of_template_def)
  note cache = placed_cache_ok [OF sizes(1-3)]
  have vsz: "0 < vi_blk_num v" "0 < vi_blk_sz v" using v(1) by (simp_all add: fresh_def)
  then have pos: "0 < vi_blk_num v * vi_blk_sz v" by simp
  have occ: "vi_start v = a" "a + vi_blk_num v * vi_blk_sz v \<le> b"
    "vi_extrasize v \<noteq> 0 \<Longrightarrow> a + vi_blk_num v * vi_blk_sz v \<le> vi_extradata v \<and> vi_extradata v + vi_extrasize v \<le> b"
    using v(2) by (auto simp: occupies_def)
  have start: "cm_start_addr (place_cache sa sp off c) = sa + off" "cm_blk_num (place_cache sa sp off c) = cm_blk_num c"
    "cm_blk_sz (place_cache sa sp off c) = cm_blk_sz c" by (simp_all add: place_cache_def)
  have cm0: "0 < sa + off" using v(3) occ(2) c(2) pos by linarith
  show cnt: "lock_count (ch_cache ch) s = 0" for s using cache(2) by (simp add: ch_def)
  have cfg: "channel_cfg (v\<lparr>vi_IsCache := 1, vi_extrasize := e\<rparr>) (place_cache sa sp off c)"
    if "e = vi_extrasize v \<or> e = 24" for e
    using that occ extra v(3) c(2) cm0 by (cases "k < AUDIO_INFO_G711_CH1") (auto simp: channel_cfg_def start)
  have same: "v\<lparr>vi_IsCache := 1, vi_extrasize := vi_extrasize v\<rparr> = v\<lparr>vi_IsCache := 1\<rparr>" by simp
  have "store_ok (v\<lparr>vi_IsCache := 1\<rparr>)" "settled (v\<lparr>vi_IsCache := 1\<rparr>)"
    using fresh_ok [of "v\<lparr>vi_IsCache := 1\<rparr>"] v(1) by (simp_all add: fresh_cached)
  moreover have "channel_cfg (v\<lparr>vi_IsCache := 1\<rparr>) (place_cache sa sp off c)"
    using cfg [of "vi_extrasize v"] unfolding same by simp
  ultimately have chan: "channel_ok ch" using cache(1) by (simp add: channel_ok_def ch_def)
  have "store_cfg (v\<lparr>vi_IsCache := 1, vi_extrasize := 24\<rparr>)"
    using occ extra v(3) by (cases "k < AUDIO_INFO_G711_CH1") (auto simp: store_cfg_def extra_apart_def)
  then have "extra_room ch" using cfg [of 24] by (simp add: extra_room_def ch_def)
  then show "slot_ok k [] ch"
    using chan cnt extra(2) by (simp add: slot_ok_def gop_ok_def balance_def ch_def fun_eq_iff)
  show "area ch x \<Longrightarrow> a \<le> x \<and> x < b \<or> sa + off \<le> x \<and> x < sa + off + cm_size c"
    using occ extra sizes(4) pos by (cases "k < AUDIO_INFO_G711_CH1") (auto simp: area_def ch_def start)
qed

section \<open>Starting the server\<close>

lemma CacheMng_Init_ok:
  assumes l: "MemMng_Mem_layout layout = (ts, cs, tot)" and len: "length (mm_video_info mm) = VIDOE_INFO_END"
    and types: "\<forall>i < VIDOE_INFO_END. vi_video_type (mm_video_info mm ! i) = vi_video_type (ts ! i)"
    and allocs: "\<forall>n. allocs n" and free: "mm_freesize mm = (\<Sum>c\<leftarrow>cs. cm_size c)"
  shows "\<exists>mm2 caches. CacheMng_Init allocs cs mm = (0, mm2, caches) \<and> length (mm_video_info mm2) = VIDOE_INFO_END
    \<and> length caches = VIDOE_INFO_END \<and> mm_start_addr mm2 = mm_start_addr mm \<and> mm_start_phyAddr mm2 = mm_start_phyAddr mm
    \<and> (\<forall>i < VIDOE_INFO_END. mm_video_info mm2 ! i = (mm_video_info mm ! i)\<lparr>vi_IsCache := 1\<rparr>
        \<and> caches ! i = Some (place_cache (mm_start_addr mm) (mm_start_phyAddr mm)
            (mm_offset mm + (\<Sum>c\<leftarrow>take i cs. cm_size c)) (cs ! i)))"
proof -
  note sums = layout_sums [OF l]
  have type: "\<forall>i < length cs. cm_video_type (cs ! i) = vi_video_type (mm_video_info mm ! i)"
    using types layout_nth(2) [OF l] sums(3) by simp
  have "cs \<noteq> []" using sums(3) by (auto simp: const_defs)
  then obtain c cs' where "cs = c # cs'" by (cases cs) auto
  moreover have "0 \<le> (\<Sum>c\<leftarrow>cs'. cm_size c)" using calculation sums(5) by (intro sum_list_nonneg) force
  ultimately have "0 < mm_freesize mm" using sums(5) free by simp
  moreover have "length (mm_video_info mm) = length cs" using len sums(3) by simp
  note place = place_caches_ok [OF this type allocs _ sums(5), of "mm_freesize mm" 0 "mm_start_addr mm" "mm_start_phyAddr mm" "mm_offset mm"]
  ultimately show ?thesis
    using place free len sums(3) by (simp add: CacheMng_Init_def comp_def)
qed

text \<open>The areas of the channels are consecutive intervals.\<close>

lemma apart_intervals:
  fixes a :: int and f g :: "nat \<Rightarrow> int"
  assumes mono: "\<forall>i \<le> n. \<forall>j \<le> i. f j \<le> f i" "\<forall>i \<le> n. \<forall>j \<le> i. g j \<le> g i" and link: "f n \<le> g 0"
    and jk: "j < n" "k < n" "j \<noteq> k"
    and j: "f j \<le> a \<and> a < f (Suc j) \<or> g j \<le> a \<and> a < g (Suc j)"
    and k: "f k \<le> a \<and> a < f (Suc k) \<or> g k \<le> a \<and> a < g (Suc k)"
  shows "False"
proof -
  have "f (Suc j) \<le> f n" "f (Suc k) \<le> f n" "g 0 \<le> g j" "g 0 \<le> g k" using mono jk by auto
  then have "\<not> (a < f (Suc j) \<and> g k \<le> a)" "\<not> (a < f (Suc k) \<and> g j \<le> a)" using link by linarith+
  then show False
    using j k interval_unique [OF mono(1) jk(1,2), of a] interval_unique [OF mono(2) jk(1,2), of a] jk(3) by blast
qed

lemma prefix_mono:
  assumes "\<forall>c \<in> set cs. 0 < cm_size c" "j \<le> i" "i \<le> length cs"
  shows "(\<Sum>c\<leftarrow>take j cs. cm_size c) \<le> (\<Sum>c\<leftarrow>take i cs. cm_size c)"
proof -
  have "take i cs = take j cs @ take (i - j) (drop j cs)" using assms(2) by (metis le_add_diff_inverse take_add)
  moreover have "0 \<le> (\<Sum>c\<leftarrow>take (i - j) (drop j cs). cm_size c)"
    using assms(1) by (intro sum_list_nonneg) (auto dest!: in_set_takeD in_set_dropD intro: less_imp_le)
  ultimately show ?thesis by simp
qed

lemma mono_steps:
  fixes f :: "nat \<Rightarrow> int"
  assumes "\<forall>i < n. f i \<le> f (Suc i)"
  shows "\<forall>i \<le> n. \<forall>j \<le> i. f j \<le> f i"
proof -
  have "i \<le> n \<longrightarrow> f j \<le> f i" if "j \<le> i" for i j
    using that by (induction rule: dec_induct) (use assms in \<open>auto intro: order_trans\<close>)
  then show ?thesis by blast
qed

lemma occupies_pos:
  assumes "fresh v" "occupies v a b"
  shows "a \<le> b"
proof -
  have "0 < vi_blk_num v * vi_blk_sz v" using assms(1) by (simp add: fresh_def)
  with assms(2) show ?thesis by (simp add: occupies_def)
qed

text \<open>Channel \<open>k\<close> is fresh, its store lies between \<open>f k\<close> and \<open>f (k + 1)\<close> and its cache
  between \<open>g k\<close> and \<open>g (k + 1)\<close>.\<close>

definition placed :: "(nat \<Rightarrow> int) \<Rightarrow> (nat \<Rightarrow> int) \<Rightarrow> nat \<Rightarrow> stream_parm \<Rightarrow> bool" where
  "placed f g k sp \<longleftrightarrow> (\<exists>v c off. video_of k sp = v\<lparr>vi_IsCache := 1\<rparr> \<and> fresh v \<and> occupies v (f k) (f (Suc k))
     \<and> (if k < AUDIO_INFO_G711_CH1 then vi_extrasize v = 128 else vi_extrasize v = 0 \<and> vi_extradata v = 0)
     \<and> sp_caches sp ! k = Some (place_cache (mm_start_addr (sp_MemInfo sp)) (mm_start_phyAddr (sp_MemInfo sp)) off c)
     \<and> cache_of_template c \<and> g k = mm_start_addr (sp_MemInfo sp) + off \<and> g (Suc k) = g k + cm_size c)"

lemma placed_slot:
  assumes "placed f g k sp" "0 < f k" "f (Suc k) \<le> g k"
  shows "slot_ok k [] (channel_of k sp)" "lock_count (the (sp_caches sp ! k)) s = 0" "fresh (video_of k sp)"
    "area (channel_of k sp) a \<Longrightarrow> f k \<le> a \<and> a < f (Suc k) \<or> g k \<le> a \<and> a < g (Suc k)"
    "cm_start_addr (the (sp_caches sp ! k)) - cm_start_phy (the (sp_caches sp ! k))
      = mm_start_addr (sp_MemInfo sp) - mm_start_phyAddr (sp_MemInfo sp)"
    "0 < cm_blk_num (the (sp_caches sp ! k)) \<and> 0 < cm_cache_num (the (sp_caches sp ! k))"
proof -
  from assms(1) obtain v c off where p: "video_of k sp = v\<lparr>vi_IsCache := 1\<rparr>" "fresh v" "occupies v (f k) (f (Suc k))"
    "if k < AUDIO_INFO_G711_CH1 then vi_extrasize v = 128 else vi_extrasize v = 0 \<and> vi_extradata v = 0"
    "sp_caches sp ! k = Some (place_cache (mm_start_addr (sp_MemInfo sp)) (mm_start_phyAddr (sp_MemInfo sp)) off c)"
    "cache_of_template c" "g k = mm_start_addr (sp_MemInfo sp) + off" "g (Suc k) = g k + cm_size c"
    by (auto simp: placed_def)
  have extra: "k < AUDIO_INFO_G711_CH1 \<Longrightarrow> vi_extrasize v = 128"
    "\<not> k < AUDIO_INFO_G711_CH1 \<Longrightarrow> vi_extrasize v = 0 \<and> vi_extradata v = 0" using p(4) by simp_all
  have link: "f (Suc k) \<le> mm_start_addr (sp_MemInfo sp) + off" using assms(3) p(7) by simp
  note fr = fresh_slot [OF p(2,3) assms(2) p(6) link extra]
  have chan: "channel_of k sp = \<lparr>ch_video = v\<lparr>vi_IsCache := 1\<rparr>, ch_cache =
      place_cache (mm_start_addr (sp_MemInfo sp)) (mm_start_phyAddr (sp_MemInfo sp)) off c, ch_mem = sp_memory sp\<rparr>"
    using p(1,5) by (simp add: channel_of_def)
  show "slot_ok k [] (channel_of k sp)" unfolding chan by (rule fr(1))
  show "lock_count (the (sp_caches sp ! k)) s = 0" using fr(2) p(5) by simp
  show "fresh (video_of k sp)" using p(1,2) by (simp add: fresh_cached)
  show "area (channel_of k sp) a \<Longrightarrow> f k \<le> a \<and> a < f (Suc k) \<or> g k \<le> a \<and> a < g (Suc k)"
    unfolding chan p(7,8) by (rule fr(3))
  show "cm_start_addr (the (sp_caches sp ! k)) - cm_start_phy (the (sp_caches sp ! k))
      = mm_start_addr (sp_MemInfo sp) - mm_start_phyAddr (sp_MemInfo sp)" using p(5) by (simp add: place_cache_def)
  show "0 < cm_blk_num (the (sp_caches sp ! k)) \<and> 0 < cm_cache_num (the (sp_caches sp ! k))"
    using p(5,6) by (simp add: place_cache_def cache_of_template_def)
qed

lemma placed_ok:
  assumes placed: "\<forall>k < VIDOE_INFO_END. placed f g k sp" and pos: "0 < f 0" and link: "f VIDOE_INFO_END \<le> g 0"
    and shape: "stream_shape sp" and gops: "\<forall>k. sp_gops sp k = []"
    and fsteps: "\<forall>k < VIDOE_INFO_END. f k \<le> f (Suc k)" and gsteps: "\<forall>k < VIDOE_INFO_END. g k \<le> g (Suc k)"
  shows "stream_ok sp" "k < VIDOE_INFO_END \<Longrightarrow> fresh (video_of k sp) \<and> (\<forall>s. lock_count (the (sp_caches sp ! k)) s = 0)
    \<and> 0 < cm_blk_num (the (sp_caches sp ! k)) \<and> 0 < cm_cache_num (the (sp_caches sp ! k))"
proof -
  note mono = mono_steps [OF fsteps] mono_steps [OF gsteps]
  have range: "0 < f k" "f (Suc k) \<le> g k" if "k < VIDOE_INFO_END" for k
  proof -
    have "f 0 \<le> f k" "f (Suc k) \<le> f VIDOE_INFO_END" "g 0 \<le> g k" using mono that by auto
    with pos link show "0 < f k" "f (Suc k) \<le> g k" by simp_all
  qed
  note slot = placed_slot [OF placed [rule_format] range]
  have "\<not> (area (channel_of j sp) a \<and> area (channel_of k sp) a)"
    if "j < VIDOE_INFO_END" "k < VIDOE_INFO_END" "j \<noteq> k" for j k a
    using apart_intervals [OF mono link that] slot(4) [OF that(1) that(1) that(1)] slot(4) [OF that(2) that(2) that(2)] by blast
  with shape gops slot(1,5) show "stream_ok sp" by (simp add: stream_ok_def)
  show "k < VIDOE_INFO_END \<Longrightarrow> fresh (video_of k sp) \<and> (\<forall>s. lock_count (the (sp_caches sp ! k)) s = 0)
    \<and> 0 < cm_blk_num (the (sp_caches sp ! k)) \<and> 0 < cm_cache_num (the (sp_caches sp ! k))"
    using slot(2,3,6) by blast
qed

text \<open>What \<open>stream_init\<close> sets up.\<close>

lemma stream_init_placed:
  assumes "shmid \<noteq> -1" "0 < addr" "\<forall>n. callocs n" "\<forall>n. allocs n" "0 \<le> thr"
  obtains sp f g where "stream_init shmid addr callocs allocs thr pSet pParm = Some (STREAM_SUCCESS, sp)"
    "stream_shape sp" "\<forall>k. sp_gops sp k = []" "\<forall>k < VIDOE_INFO_END. placed f g k sp" "0 < f 0"
    "f VIDOE_INFO_END = g (0 :: nat)"
proof -
  let ?pInfo = "(sp_MemInfo pParm)\<lparr>mm_mem_layout := ss_Mem_layout pSet\<rparr>"
  obtain ts cs tot where l: "MemMng_Mem_layout (mm_mem_layout ?pInfo) = (ts, cs, tot)" by (metis surj_pair)
  note sums = layout_sums [OF l]
  from init_partition [OF assms(1-3) l] obtain mm bound where
    init: "MemMng_Init shmid addr callocs ?pInfo = Some (0, mm)" and len: "length (mm_video_info mm) = VIDOE_INFO_END"
    and addr: "mm_start_addr mm = addr" and free: "mm_freesize mm = (\<Sum>c\<leftarrow>cs. cm_size c)"
    and b: "bound 0 = addr" "bound VIDOE_INFO_END = addr + mm_offset mm"
    and st: "\<forall>i < VIDOE_INFO_END. fresh (mm_video_info mm ! i) \<and> store_cfg (mm_video_info mm ! i)
        \<and> occupies (mm_video_info mm ! i) (bound i) (bound (Suc i))" by blast
  obtain fo where place: "place_all callocs 0 addr 0 (tot, 0) ts = Some (0, mm_video_info mm, fo)" and phy: "mm_start_phyAddr mm = 0"
    using MemMng_Init_stores [OF init] l by auto
  have fields: "\<forall>i < VIDOE_INFO_END. vi_video_type (mm_video_info mm ! i) = vi_video_type (ts ! i)
    \<and> vi_extrasize (mm_video_info mm ! i) = vi_extrasize (ts ! i)
    \<and> (vi_extrasize (ts ! i) \<le> 0 \<longrightarrow> vi_extradata (mm_video_info mm ! i) = vi_extradata (ts ! i))"
    using place_all_fields [OF place] sums(2) by simp
  then obtain mm2 caches where
    cinit: "CacheMng_Init allocs cs mm = (0, mm2, caches)" and len2: "length (mm_video_info mm2) = VIDOE_INFO_END"
      "length caches = VIDOE_INFO_END" and addr2: "mm_start_addr mm2 = addr" "mm_start_phyAddr mm2 = 0"
    and at: "\<And>i. i < VIDOE_INFO_END \<Longrightarrow> mm_video_info mm2 ! i = (mm_video_info mm ! i)\<lparr>vi_IsCache := 1\<rparr>
        \<and> caches ! i = Some (place_cache addr 0 (mm_offset mm + (\<Sum>c\<leftarrow>take i cs. cm_size c)) (cs ! i))"
    using CacheMng_Init_ok [OF l len _ assms(4) free] addr phy by auto
  define sp where "sp = pParm\<lparr>sp_MemInfo := mm2, sp_caches := caches, sp_gops := GopInit,
               sp_checkNewFrame := replicate GOP_INDEX_NUM 0, sp_lockNewFrame := replicate GOP_INDEX_NUM 0,
               sp_IsQuit := 0, sp_ImageWidth := ss_ImageWidth pSet, sp_ImageHeight := ss_ImageHeight pSet,
               sp_Mpeg4Quality := ss_Mpeg4Quality pSet, sp_ImageWidth_Ext := ss_ImageWidth_Ext pSet,
               sp_ImageHeight_Ext := ss_ImageHeight_Ext pSet, sp_JpgQuality := ss_JpgQuality pSet\<rparr>"
  let ?S = "\<lambda>i. addr + (mm_offset mm + (\<Sum>c\<leftarrow>take i cs. cm_size c))"
  have "placed bound ?S k sp" if k: "k < VIDOE_INFO_END" for k
    unfolding placed_def
    by (rule exI [of _ "mm_video_info mm ! k"], rule exI [of _ "cs ! k"],
        rule exI [of _ "mm_offset mm + (\<Sum>c\<leftarrow>take k cs. cm_size c)"])
       (use at [OF k] st fields layout_nth [OF l k] k sums(3) addr2 in \<open>simp add: sp_def take_Suc_conv_app_nth\<close>)
  moreover have "stream_shape sp" "\<forall>k. sp_gops sp k = []" using len2 by (simp_all add: stream_shape_def sp_def GopInit_def)
  moreover have "stream_init shmid addr callocs allocs thr pSet pParm = Some (STREAM_SUCCESS, sp)"
    using init cinit l assms(5) by (simp add: stream_init_def sp_def const_defs)
  ultimately show thesis using that [of sp bound ?S] b assms(2) by simp
qed

lemma stream_init_ok:
  assumes "shmid \<noteq> -1" "0 < addr" "\<forall>n. callocs n" "\<forall>n. allocs n" "0 \<le> thr"
  shows "\<exists>sp. stream_init shmid addr callocs allocs thr pSet pParm = Some (STREAM_SUCCESS, sp) \<and> stream_ok sp
    \<and> (\<forall>k < VIDOE_INFO_END. sp_gops sp k = [] \<and> fresh (video_of k sp)
        \<and> (\<forall>s. lock_count (the (sp_caches sp ! k)) s = 0)
        \<and> 0 < cm_blk_num (the (sp_caches sp ! k)) \<and> 0 < cm_cache_num (the (sp_caches sp ! k)))"
proof -
  from stream_init_placed [OF assms, of pSet pParm] obtain sp f g where
    run: "stream_init shmid addr callocs allocs thr pSet pParm = Some (STREAM_SUCCESS, sp)"
    and sp: "stream_shape sp" "\<forall>k. sp_gops sp k = []" "\<forall>k < VIDOE_INFO_END. placed f g k sp" "0 < f 0"
      "f VIDOE_INFO_END = g (0 :: nat)" by blast
  have steps: "\<forall>k < VIDOE_INFO_END. f k \<le> f (Suc k)" "\<forall>k < VIDOE_INFO_END. g k \<le> g (Suc k)"
    using sp(3) occupies_pos by (force simp: placed_def cache_of_template_def)+
  have link: "f VIDOE_INFO_END \<le> g 0" using sp(5) by simp
  note ok = placed_ok [OF sp(3,4) link sp(1,2) steps]
  with run sp(2) show ?thesis by blast
qed

end
