(* ===== verification/Stream_System.thy ===== *)
theory Stream_System
  imports Stream_Init
begin

text \<open>The server from \<open>stream_init\<close> on: encoders writing to any channel and clients
  sending any message, in any order.  What clients read is what was written.\<close>

section \<open>Runs of the server\<close>

text \<open>The server after \<open>stream_init\<close> has succeeded on a segment at a positive address.\<close>

definition server_started :: "stream_parm \<Rightarrow> bool" where
  "server_started sp \<longleftrightarrow> (\<exists>shmid addr callocs allocs thr pSet pParm. shmid \<noteq> -1 \<and> 0 < addr
     \<and> (\<forall>n. callocs n) \<and> (\<forall>n. allocs n) \<and> 0 \<le> thr
     \<and> stream_init shmid addr callocs allocs thr pSet pParm = Some (STREAM_SUCCESS, sp))"

text \<open>One call, with the channel it is for and the frames it adds: a write of a frame
  that fits, a write that is refused, a message, the first half of
  \<open>MSG_CMD_GET_NEW_FRAME\<close>.\<close>

inductive server_step :: "stream_parm \<Rightarrow> nat \<Rightarrow> (byte list \<times> int) list \<Rightarrow> stream_parm \<Rightarrow> bool" where
  step_write: "k < VIDOE_INFO_END \<Longrightarrow> writable (video_of k sp) (bytes, ft)
    \<Longrightarrow> stream_write (Some bytes) (int (length bytes)) ft k ts sp = Some (r, sp')
    \<Longrightarrow> server_step sp k [(bytes, ft)] sp'"
| step_refused: "k < VIDOE_INFO_END \<Longrightarrow> sz = 0 \<or> blocks_for sz (vi_blk_sz (video_of k sp)) > vi_blk_num (video_of k sp)
    \<Longrightarrow> stream_write data sz ft k ts sp = Some (r, sp') \<Longrightarrow> server_step sp k [] sp'"
| step_msg: "valid_format mb \<Longrightarrow> Msg_CTRL_handle alloc junk mb sp = (reply, sp')
    \<Longrightarrow> server_step sp (nat (fi_format (mb_frame mb))) [] sp'"
| step_wait: "valid_format mb \<Longrightarrow> server_step sp (nat (fi_format (mb_frame mb))) [] (Msg_CTRL_wait mb sp)"

inductive server_run :: "stream_parm \<Rightarrow> (nat \<Rightarrow> (byte list \<times> int) list) \<Rightarrow> stream_parm \<Rightarrow> bool" for sp0 where
  run_start: "server_run sp0 (\<lambda>_. []) sp0"
| run_step: "server_run sp0 log sp \<Longrightarrow> server_step sp k ws sp' \<Longrightarrow> server_run sp0 (log(k := log k @ ws)) sp'"

text \<open>Steps during which frame \<open>s\<close> of channel \<open>k\<close> stays locked.\<close>

inductive held_run :: "nat \<Rightarrow> int \<Rightarrow> stream_parm \<Rightarrow> stream_parm \<Rightarrow> bool" for k s sp1 where
  hold_start: "0 < lock_count (the (sp_caches sp1 ! k)) s \<Longrightarrow> held_run k s sp1 sp1"
| hold_step: "held_run k s sp1 sp \<Longrightarrow> server_step sp j ws sp'
    \<Longrightarrow> 0 < lock_count (the (sp_caches sp' ! k)) s \<Longrightarrow> held_run k s sp1 sp'"

section \<open>Every step keeps the invariant\<close>

text \<open>A refused write only stamps the channel.\<close>

lemma stream_write_refused:
  assumes ok: "stream_ok sp" and k: "k < VIDOE_INFO_END"
    and bad: "sz = 0 \<or> blocks_for sz (vi_blk_sz (video_of k sp)) > vi_blk_num (video_of k sp)"
    and run: "stream_write data sz ft k ts sp = Some (r, sp')"
  shows "good_step k [] sp sp'" "r = STREAM_FAILURE"
proof -
  let ?ch = "(channel_of k sp)\<lparr>ch_video := stamped k ts (video_of k sp)\<rparr>"
  note slot = stream_okD(2) [OF ok k]
  note st = stamped_ok [OF slot, of ts, simplified]
  have "MemMng_Video_Write data sz ft (stamped k ts (video_of k sp)) (sp_memory sp)
      = Some (-1, stamped k ts (video_of k sp), sp_memory sp)"
    using bad by (auto simp: MemMng_Video_Write_def stamped_def)
  then have sp': "sp' = (put_video k (ch_video ?ch) sp)\<lparr>sp_memory := ch_mem ?ch\<rparr>" "r = STREAM_FAILURE"
    using run by (auto simp: stream_write_def stamped_def Let_def)
  show "r = STREAM_FAILURE" by (fact sp'(2))
  have "slot_ok k (sp_gops sp k) ?ch" by (rule slot_ok_video [OF slot]) (use st in simp_all)
  moreover have "contents (stamped k ts (video_of k sp)) (sp_memory sp) = contents (video_of k sp) (sp_memory sp)"
    by (simp add: contents_def live_def slots_stamp stamped_def frame_addr_def)
  then have "logged us (channel_of k sp) \<Longrightarrow> logged (us @ []) ?ch" for us
    using st(4) by (simp add: logged_def cached_def)
  moreover have "stays (channel_of k sp) ?ch" using st(3) by (simp add: stays_def)
  ultimately show "good_step k [] sp sp'" by (intro good_stepI(1) [OF ok k sp'(1)]) simp_all
qed

lemma server_step_good:
  assumes "server_step sp k ws sp'" "stream_ok sp"
  shows "k < VIDOE_INFO_END \<and> good_step k ws sp sp'"
  using assms
proof cases
  case (step_write bytes ft ts r)
  with stream_write_step [OF assms(2) step_write(2,3), of ts] show ?thesis by auto
next
  case (step_refused sz data ft ts r)
  with stream_write_refused(1) [OF assms(2) step_refused(2,3,4)] show ?thesis by simp
next
  case (step_msg mb alloc junk reply)
  with Msg_CTRL_handle_step [OF assms(2) step_msg(3), of alloc junk] video_format [OF step_msg(3)] show ?thesis by simp
next
  case (step_wait mb)
  with video_format [OF step_wait(4)] good_step_refl [OF assms(2)] show ?thesis by (simp add: Msg_CTRL_wait_def)
qed

lemma started_ok:
  assumes "server_started sp"
  shows "stream_ok sp" "k < VIDOE_INFO_END \<Longrightarrow> logged [] (channel_of k sp)"
    "k < VIDOE_INFO_END \<Longrightarrow> lock_count (the (sp_caches sp ! k)) s = 0"
    "k < VIDOE_INFO_END \<Longrightarrow> 0 < cm_blk_num (the (sp_caches sp ! k)) \<and> 0 < cm_cache_num (the (sp_caches sp ! k))"
proof -
  have init: "stream_ok sp \<and> (\<forall>k < VIDOE_INFO_END. sp_gops sp k = [] \<and> fresh (video_of k sp)
        \<and> (\<forall>s. lock_count (the (sp_caches sp ! k)) s = 0)
        \<and> 0 < cm_blk_num (the (sp_caches sp ! k)) \<and> 0 < cm_cache_num (the (sp_caches sp ! k)))"
    using assms stream_init_ok unfolding server_started_def by (metis option.inject prod.inject)
  then show ok: "stream_ok sp" "k < VIDOE_INFO_END \<Longrightarrow> lock_count (the (sp_caches sp ! k)) s = 0"
    "k < VIDOE_INFO_END \<Longrightarrow> 0 < cm_blk_num (the (sp_caches sp ! k)) \<and> 0 < cm_cache_num (the (sp_caches sp ! k))"
    by blast+
  show "logged [] (channel_of k sp)" if k: "k < VIDOE_INFO_END"
  proof -
    have v: "fresh (video_of k sp)" "\<And>s. lock_count (the (sp_caches sp ! k)) s = 0" using init k by simp_all
    have "cached (channel_of k sp) t = None" for t
      using cached_count [OF stream_okD(4) [OF ok(1) k], of t] v(2) [of t] by (metis channel_of_simps(2) less_irrefl)
    moreover have "contents (video_of k sp) (sp_memory sp) = []" "vi_cur_serial (video_of k sp) = -1"
      using fresh_ok [OF v(1)] v(1) by (simp_all add: contents_def fresh_def)
    ultimately show ?thesis by (simp add: logged_def)
  qed
qed

lemma run_ok:
  assumes "server_run sp0 log sp" "server_started sp0"
  shows "stream_ok sp \<and> (\<forall>k < VIDOE_INFO_END. logged (log k) (channel_of k sp)
    \<and> geom (channel_of k sp) = geom (channel_of k sp0))"
  using assms
proof induction
  case run_start
  then show ?case using started_ok by blast
next
  case (run_step log sp k ws sp')
  then have ok: "stream_ok sp" and log: "\<And>j. j < VIDOE_INFO_END \<Longrightarrow> logged (log j) (channel_of j sp)" by blast+
  from server_step_good [OF run_step.hyps(2) ok] have k: "k < VIDOE_INFO_END" and good: "good_step k ws sp sp'" by blast+
  have "logged ((log(k := log k @ ws)) j) (channel_of j sp')" if j: "j < VIDOE_INFO_END" for j
  proof (cases "j = k")
    case True
    with good log [OF k] show ?thesis by (simp add: good_step_def)
  next
    case False
    have "only k sp sp'" using good by (simp add: good_step_def)
    from only_others [OF ok this k j False] log [OF j] False show ?thesis
      by (auto simp: faithful_def intro: logged_honest)
  qed
  moreover have "geom (channel_of j sp') = geom (channel_of j sp)" if "j < VIDOE_INFO_END" for j
    using only_geom [OF _ that k] good by (simp add: good_step_def)
  ultimately show ?case using good run_step by (simp add: good_step_def)
qed

section \<open>Held frames\<close>

lemma held_ok:
  assumes "held_run k s sp1 sp2" "stream_ok sp1" "k < VIDOE_INFO_END" "logged ws (channel_of k sp1)"
  shows "stream_ok sp2 \<and> 0 < lock_count (the (sp_caches sp2 ! k)) s
    \<and> place (channel_of k sp2) s = place (channel_of k sp1) s
    \<and> mm_start_addr (sp_MemInfo sp2) = mm_start_addr (sp_MemInfo sp1)
    \<and> (\<exists>vs. logged (ws @ vs) (channel_of k sp2))"
  using assms
proof induction
  case hold_start
  then show ?case by (auto intro: exI [of _ "[]"])
next
  case (hold_step sp j us sp')
  then obtain vs where IH: "stream_ok sp" "0 < lock_count (the (sp_caches sp ! k)) s"
    "place (channel_of k sp) s = place (channel_of k sp1) s"
    "mm_start_addr (sp_MemInfo sp) = mm_start_addr (sp_MemInfo sp1)" "logged (ws @ vs) (channel_of k sp)" by blast
  note k = hold_step.prems(2)
  from server_step_good [OF hold_step.hyps(2) IH(1)] have j: "j < VIDOE_INFO_END" and good: "good_step j us sp sp'" by blast+
  have only: "only j sp sp'" using good by (simp add: good_step_def)
  have "keeps_payloads (channel_of k sp) (channel_of k sp') \<and> (\<exists>xs. logged (ws @ xs) (channel_of k sp'))"
  proof (cases "k = j")
    case True
    with good IH(5) have "keeps_payloads (channel_of k sp) (channel_of k sp')" "logged ((ws @ vs) @ us) (channel_of k sp')"
      by (auto simp: good_step_def)
    then show ?thesis unfolding append_assoc by blast
  next
    case False
    from only_others [OF IH(1) only j k False] IH(5) show ?thesis
      unfolding faithful_def by (blast intro: logged_honest)
  qed
  moreover have "mm_start_addr (sp_MemInfo sp') = mm_start_addr (sp_MemInfo sp)" "stream_ok sp'"
    using only good by (simp_all add: only_def good_step_def)
  ultimately show ?case
    using IH hold_step.hyps(3) unfolding keeps_payloads_def by auto
qed

section \<open>Answers about locked frames\<close>

lemma cache_info:
  assumes ok: "channel_ok ch" and c: "entry (ch_cache ch) s = Some c"
  obtains info where "CacheMng_GetCacheInfoBySerial s ch = (0, Some info)"
    "ci_start_phy info = cm_start_phy (ch_cache ch) + cd_blkindex c * cm_blk_sz (ch_cache ch)"
    "ci_realsize info = cd_realsize c" "ci_type info = cd_type c"
proof -
  let ?cm = "ch_cache ch"
  have cok: "cache_ok (vi_cur_serial (ch_video ch)) ?cm" using ok by (simp add: channel_ok_def)
  from FindCache_hit [OF cok c] obtain i where i: "i < length (cm_cache ?cm)" "cm_cache ?cm ! i = c"
    "entry_ok (vi_cur_serial (ch_video ch)) ?cm c" "CacheMng_FindCacheBySerial s ch = int i" by blast
  have first: "first_index (holds_serial ?cm s) (cm_cache_num ?cm) = int i"
    using i(4) by (auto simp: CacheMng_FindCacheBySerial_def const_defs split: if_splits)
  have blk: "0 \<le> cd_blkindex c" "nat (cd_blkindex c) < length (cm_blk ?cm)"
    using i(3) cache_ok_geom [OF cok] by (auto simp: entry_ok_def)
  then have "cb_offset (cm_blk ?cm ! nat (cd_blkindex c)) = cd_blkindex c * cm_blk_sz ?cm"
    using cache_ok_blk(1) [OF cok blk(2)] by simp
  then have "\<exists>info. CacheMng_GetCacheInfoBySerial s ch = (0, Some info)
      \<and> ci_start_phy info = cm_start_phy ?cm + cd_blkindex c * cm_blk_sz ?cm
      \<and> ci_realsize info = cd_realsize c \<and> ci_type info = cd_type c"
    by (simp add: CacheMng_GetCacheInfoBySerial_def Let_def first i(2))
  with that show thesis by blast
qed

text \<open>The answer names the place of the frame in the client's mapping of the segment.\<close>

lemma cache_reply_place:
  assumes ok: "stream_ok sp" and fmt: "valid_format mb"
    and pos: "0 < lock_count (the (sp_caches sp ! nat (fi_format (mb_frame mb)))) (fi_serial_no (mb_frame mb))"
  shows "place (channel_of (nat (fi_format (mb_frame mb))) sp) (fi_serial_no (mb_frame mb))
      = Some (mm_start_addr (sp_MemInfo sp) + fi_offset (mb_frame (cache_reply junk mb sp)), fi_size (mb_frame (cache_reply junk mb sp)))"
    "\<exists>bytes. cached (channel_of (nat (fi_format (mb_frame mb))) sp) (fi_serial_no (mb_frame mb))
      = Some (fi_frameType (mb_frame (cache_reply junk mb sp)), bytes)"
    "fi_serial_no (mb_frame (cache_reply junk mb sp)) = fi_serial_no (mb_frame mb)"
proof -
  let ?k = "nat (fi_format (mb_frame mb))" and ?s = "fi_serial_no (mb_frame mb)"
  have k: "?k < VIDOE_INFO_END" using video_format [OF fmt] by blast
  note cok = stream_okD(4) [OF ok k]
  obtain c where c: "entry (ch_cache (channel_of ?k sp)) ?s = Some c"
    using pos lock_count_pos(1) [OF cok, of ?s] by auto
  obtain info where info: "CacheMng_GetCacheInfoBySerial ?s (channel_of ?k sp) = (0, Some info)"
    "ci_start_phy info = cm_start_phy (ch_cache (channel_of ?k sp)) + cd_blkindex c * cm_blk_sz (ch_cache (channel_of ?k sp))"
    "ci_realsize info = cd_realsize c" "ci_type info = cd_type c" by (rule cache_info [OF cok c])
  have phy: "cm_start_addr (the (sp_caches sp ! ?k)) - cm_start_phy (the (sp_caches sp ! ?k))
      = mm_start_addr (sp_MemInfo sp) - mm_start_phyAddr (sp_MemInfo sp)"
    using ok k by (simp add: stream_ok_def)
  have reply: "fi_offset (mb_frame (cache_reply junk mb sp)) = ci_start_phy info - mm_start_phyAddr (sp_MemInfo sp)"
    "fi_size (mb_frame (cache_reply junk mb sp)) = ci_realsize info"
    "fi_frameType (mb_frame (cache_reply junk mb sp)) = ci_type info"
    "fi_serial_no (mb_frame (cache_reply junk mb sp)) = ?s"
    using info(1) by (simp_all add: cache_reply_def picture_size_def GetMemMngPhyBaseAddr_def Let_def)
  show "place (channel_of ?k sp) ?s
      = Some (mm_start_addr (sp_MemInfo sp) + fi_offset (mb_frame (cache_reply junk mb sp)), fi_size (mb_frame (cache_reply junk mb sp)))"
    using c phy info(2,3) by (simp add: place_def cache_addr_def reply)
  show "\<exists>bytes. cached (channel_of ?k sp) ?s = Some (fi_frameType (mb_frame (cache_reply junk mb sp)), bytes)"
    using c info(4) by (simp add: cached_def reply)
  show "fi_serial_no (mb_frame (cache_reply junk mb sp)) = ?s" by (fact reply(4))
qed

text \<open>A place and a payload determine the bytes in memory.\<close>

lemma place_cached:
  assumes "place ch t = Some (a, n)" "cached ch t = Some (ty, bytes)"
  shows "mem_read a (nat n) (ch_mem ch) = bytes"
  using assms by (auto simp: place_def cached_def)

lemma cache_reply_ret [simp]: "mb_ret (cache_reply junk mb sp) = mb_ret mb"
  by (simp add: cache_reply_def Let_def)

lemma lock_frame_reply:
  assumes "mb_cmd mb = MSG_CMD_LOCK_FRAME" "Msg_CTRL_handle alloc junk mb sp = (reply, sp')" "mb_ret reply = 0"
  obtains mb1 where "reply = cache_reply junk mb1 sp'" "fi_format (mb_frame mb1) = fi_format (mb_frame mb)"
    "fi_serial_no (mb_frame mb1) = fi_serial_no (mb_frame mb)"
  using assms by (auto simp: Msg_CTRL_handle_def lock_frame_def Let_def split: if_splits)

end
