(* ===== verification/Stream_Server.thy ===== *)
theory Stream_Server
  imports Stream_System
begin

text \<open>What the stream server promises to its encoders and clients, with a small run as
  an example.\<close>

section \<open>The first frame can be locked\<close>

text \<open>Without entries every block of a cache is free.\<close>

lemma idle_cache:
  assumes ok: "channel_ok ch" and idle: "\<And>t. entry (ch_cache ch) t = None"
  shows "i < length (cm_cache (ch_cache ch)) \<Longrightarrow> \<not> used (cm_cache (ch_cache ch) ! i)"
    "k < length (cm_blk (ch_cache ch)) \<Longrightarrow> cb_IsFree (cm_blk (ch_cache ch) ! k) = 1"
proof -
  have cok: "cache_ok (vi_cur_serial (ch_video ch)) (ch_cache ch)" using ok by (simp add: channel_ok_def)
  show unused: "i < length (cm_cache (ch_cache ch)) \<Longrightarrow> \<not> used (cm_cache (ch_cache ch) ! i)" for i
    using entry_at [OF cok, of i] idle by auto
  show "k < length (cm_blk (ch_cache ch)) \<Longrightarrow> cb_IsFree (cm_blk (ch_cache ch) ! k) = 1"
    using cache_ok_blk(2) [OF cok, of k] unused by (auto simp: owned_def)
qed

lemma first_lock:
  assumes ok: "channel_ok ch" and log: "logged [([b], ft)] ch"
    and room: "0 < cm_blk_num (ch_cache ch)" "0 < cm_cache_num (ch_cache ch)"
  shows "fst (CacheMng_Video_CacheLock 0 ch) = 0"
proof (cases "entry (ch_cache ch) 0")
  case (Some c)
  then show ?thesis using lock_count_pos(1) [OF ok, of 0] lock_succeeds_iff [OF ok, of 0] by auto
next
  case None
  have idle: "entry (ch_cache ch) t = None" for t
  proof (cases "t = 0")
    case False
    then have "cached ch t = None" using log by (cases "cached ch t") (auto simp: logged_def)
    then show ?thesis by (simp add: cached_def)
  qed (use None in simp)
  have cok: "cache_ok (vi_cur_serial (ch_video ch)) (ch_cache ch)" and sok: "store_ok (ch_video ch)" "settled (ch_video ch)"
    using ok by (simp_all add: channel_ok_def)
  note geom = cache_ok_geom [OF cok]
  have cur: "vi_cur_serial (ch_video ch) = 0" using log by (simp add: logged_def)
  let ?fi = "vi_cur_frame (ch_video ch)"
  have "vf_serial (frame_at (ch_video ch) ?fi) = 0"
    using current_frame [OF sok] cur by (metis core_simps(1) zero_neq_neg_one)
  then have fi: "MemMng_GetFrameBySerial 0 (ch_video ch) = Some ?fi" using cur by (simp add: MemMng_GetFrameBySerial_def)
  let ?n = "vf_realsize (frame_at (ch_video ch) ?fi)"
  have "(0, vf_type (frame_at (ch_video ch) ?fi), mem_read (frame_addr (ch_video ch) (frame_at (ch_video ch) ?fi)) (nat ?n) (ch_mem ch))
      \<in> set (contents (ch_video ch) (ch_mem ch))" by (rule found_contents [OF sok fi])
  then have "mem_read (frame_addr (ch_video ch) (frame_at (ch_video ch) ?fi)) (nat ?n) (ch_mem ch) = [b]"
    using log by (auto simp: logged_def dest!: in_set_dropD)
  then have "nat ?n = 1" by (metis length_mem_read length_Cons list.size(3) One_nat_def)
  then have n: "?n = 1" by linarith
  have "blocks_for ?n (cm_blk_sz (ch_cache ch)) = 1"
    using geom(1) by (simp add: n blocks_for_def sdiv_nonneg)
  then have "int 0 + blocks_for ?n (cm_blk_sz (ch_cache ch)) \<le> cm_blk_num (ch_cache ch)
    \<and> (\<forall>k < nat (blocks_for ?n (cm_blk_sz (ch_cache ch))). cb_IsFree (cm_blk (ch_cache ch) ! (0 + k)) = 1)"
    using room(1) idle_cache(2) [OF ok idle, of 0] geom(5) by simp
  moreover have "0 < length (cm_cache (ch_cache ch)) \<and> \<not> used (cm_cache (ch_cache ch) ! 0)"
    using room(2) geom(4) idle_cache(1) [OF ok idle, of 0] by simp
  ultimately show ?thesis unfolding lock_succeeds_iff [OF ok] using fi by blast
qed

definition demo_msg :: "msg_cmd \<Rightarrow> int \<Rightarrow> int \<Rightarrow> msg_buf" where
  "demo_msg c fmt s = \<lparr>mb_Des = 1, mb_cmd = c, mb_Src = 2, mb_ret = 0, mb_addr = 0, mb_size = 0,
     mb_frame = \<lparr>fi_offset = 0, fi_serial_no = s, fi_size = 0, fi_width = 0, fi_height = 0, fi_format = fmt,
       fi_frameType = 0, fi_quality = 0, fi_flags = 0, fi_timestamp = 0, fi_ref_serial = []\<rparr>\<rparr>"

definition demo_junk :: cache_data_info where
  "demo_junk = \<lparr>ci_serial = 0, ci_type = 0, ci_start_addr = 0, ci_start_phy = 0, ci_realsize = 0, ci_flag = 0,
     ci_timestamp = 0, ci_ref_serial = []\<rparr>"

lemma some_server: "\<exists>sp. server_started sp"
proof -
  have "\<exists>sp. stream_init 1 4096 (\<lambda>_. True) (\<lambda>_. True) 0 pSet pParm = Some (STREAM_SUCCESS, sp)" for pSet pParm
    using stream_init_ok [of 1 4096 "\<lambda>_. True" "\<lambda>_. True" 0 pSet pParm] by auto
  then show ?thesis unfolding server_started_def by (metis order_refl zero_less_numeral one_neq_neg_one)
qed

lemma small_writable:
  assumes "stream_ok sp" "k < VIDOE_INFO_END" "0 \<le> ft" "ft < END_FRAME_TYPE"
  shows "writable (video_of k sp) ([b], ft)"
proof -
  have "store_geom (video_of k sp)"
    using stream_okD(4) [OF assms(1,2)] by (simp add: channel_ok_def store_ok_def store_rel_def)
  then show ?thesis using assms(3,4) by (simp add: writable_def store_geom_def blocks_for_def sdiv_nonneg)
qed

text \<open>A server with one audio frame on channel 16, and the same after a client has
  locked it.\<close>

lemma demo_server:
  obtains sp0 log sp reply sp1 where "server_started sp0" "server_run sp0 log sp" "log 16 = [([7], AUDIO_FRAME)]"
    "Msg_CTRL_handle True demo_junk (demo_msg MSG_CMD_LOCK_FRAME 16 0) sp = (reply, sp1)" "mb_ret reply = 0"
    "0 < lock_count (the (sp_caches sp1 ! 16)) 0" "stream_ok sp"
proof -
  obtain sp0 where sp0: "server_started sp0" using some_server by blast
  have ok0: "stream_ok sp0" by (rule started_ok(1) [OF sp0])
  have k: "16 < VIDOE_INFO_END" "\<not> 16 < AUDIO_INFO_G711_CH1" by (simp_all add: const_defs)
  have wr: "writable (video_of 16 sp0) ([7], AUDIO_FRAME)"
    by (rule small_writable [OF ok0 k(1)]) (simp_all add: const_defs)
  obtain sp where w: "stream_write (Some [7]) (int (length [7::byte])) AUDIO_FRAME 16 0 sp0 = Some (STREAM_SUCCESS, sp)"
    using stream_write_step [OF ok0 k(1) wr, of 0] by auto
  have run: "server_run sp0 ((\<lambda>_. [])(16 := [] @ [([7], AUDIO_FRAME)])) sp"
    using run_step [OF run_start step_write [OF k(1) wr w]] by simp
  from run_ok [OF run sp0] k(1) have ok: "stream_ok sp" and log: "logged [([7], AUDIO_FRAME)] (channel_of 16 sp)"
    and geo: "geom (channel_of 16 sp) = geom (channel_of 16 sp0)" by auto
  note cok = stream_okD(4) [OF ok k(1)]
  have "fst (CacheMng_Video_CacheLock 0 (channel_of 16 sp)) = 0"
    by (rule first_lock [OF cok log]) (use started_ok(4) [OF sp0 k(1)] geo in \<open>simp_all add: geom_def\<close>)
  then obtain ch where lk: "CacheMng_Video_CacheLock 0 (channel_of 16 sp) = (0, ch)" by (metis prod.collapse)
  obtain reply sp1 where msg: "Msg_CTRL_handle True demo_junk (demo_msg MSG_CMD_LOCK_FRAME 16 0) sp = (reply, sp1)" by fastforce
  then have sp1: "sp1 = put_channel 16 ch sp" "mb_ret reply = 0"
    using lk by (auto simp: Msg_CTRL_handle_def lock_frame_def demo_msg_def Let_def const_defs)
  have "0 \<le> lock_count (the (sp_caches sp ! 16)) 0" using lock_count_pos(2) [OF cok, of 0] by simp
  then have "0 < lock_count (ch_cache ch) 0" using lock_effect [OF cok lk] by (simp add: lock_effect_def)
  then have "0 < lock_count (the (sp_caches sp1 ! 16)) 0"
    using sp1(1) stream_okD(1) [OF ok k(1)] k(1) by simp
  with that [OF sp0 run _ msg sp1(2)] ok show thesis by simp
qed

section \<open>Properties\<close>

text \<open>C1: Clients read what the encoders wrote.  A run of the server starts with a \<open>stream_init\<close> all of
  whose allocations succeed.  Its steps are calls of \<open>stream_write\<close> on one of the 32 channels and messages
  whose format is one of the 32 (\<open>Msg_CTRL\<close> does not check it), and a write is
  either of a frame that the store can take (data that is not NULL and not empty, of the size given,
  no longer than the ring, of a type from 0 to below \<open>END_FRAME_TYPE\<close>, so not the
  type -1 of an unknown key-frame flag) or refused because its size is 0 or more than
  the ring.  Take any such run, \<open>log k\<close> being the frames written to channel \<open>k\<close> so far, and a
  \<open>MSG_CMD_LOCK_FRAME\<close> of a valid format that is answered with success and has locked its frame.
  Then, after any further steps of these kinds, on any channel and for any client, during which the
  frame stays locked, the bytes of the segment at the answered offset and size are
  those of the frame with the answered serial number, and the answered type is
  its type.\<close>

theorem server_delivers_what_was_written:
  assumes "server_started sp0" "server_run sp0 log sp" "mb_cmd mb = MSG_CMD_LOCK_FRAME" "valid_format mb"
    and "Msg_CTRL_handle alloc junk mb sp = (reply, sp1)" "mb_ret reply = 0"
    and "held_run (nat (fi_format (mb_frame mb))) (fi_serial_no (mb_frame mb)) sp1 sp2"
    and "0 < lock_count (the (sp_caches sp1 ! nat (fi_format (mb_frame mb)))) (fi_serial_no (mb_frame mb))"
  shows "0 \<le> fi_serial_no (mb_frame mb)
    \<and> nat (fi_serial_no (mb_frame mb)) < length (log (nat (fi_format (mb_frame mb))))
    \<and> mem_read (mm_start_addr (sp_MemInfo sp2) + fi_offset (mb_frame reply)) (nat (fi_size (mb_frame reply))) (sp_memory sp2)
        = fst (log (nat (fi_format (mb_frame mb))) ! nat (fi_serial_no (mb_frame mb)))
    \<and> fi_frameType (mb_frame reply) = snd (log (nat (fi_format (mb_frame mb))) ! nat (fi_serial_no (mb_frame mb)))"
proof -
  let ?k = "nat (fi_format (mb_frame mb))" and ?s = "fi_serial_no (mb_frame mb)"
  have k: "?k < VIDOE_INFO_END" using video_format [OF assms(4)] by blast
  from run_ok [OF assms(2,1)] k have ok: "stream_ok sp" and log: "logged (log ?k) (channel_of ?k sp)" by auto
  have "good_step ?k [] sp sp1" using Msg_CTRL_handle_step [OF ok assms(4), of alloc junk] assms(5) by simp
  then have ok1: "stream_ok sp1" and log1: "logged (log ?k) (channel_of ?k sp1)"
    using log by (auto simp: good_step_def)
  from lock_frame_reply [OF assms(3,5,6)] obtain mb1 where reply: "reply = cache_reply junk mb1 sp1"
    and mb1: "fi_format (mb_frame mb1) = fi_format (mb_frame mb)" "fi_serial_no (mb_frame mb1) = ?s" by blast
  have fmt1: "valid_format mb1" using assms(4) mb1 by (simp add: valid_format_def)
  have cnt1: "0 < lock_count (the (sp_caches sp1 ! nat (fi_format (mb_frame mb1)))) (fi_serial_no (mb_frame mb1))"
    using assms(8) mb1 by simp
  from cache_reply_place [OF ok1 fmt1 cnt1, of junk, folded reply] mb1 obtain bytes1 where
    place1: "place (channel_of ?k sp1) ?s = Some (mm_start_addr (sp_MemInfo sp1) + fi_offset (mb_frame reply), fi_size (mb_frame reply))"
    and cached1: "cached (channel_of ?k sp1) ?s = Some (fi_frameType (mb_frame reply), bytes1)" by auto
  note in_log = logged_lookup [OF log1 cached1]
  from held_ok [OF assms(7) ok1 k log1] obtain vs where
    2: "stream_ok sp2" "0 < lock_count (the (sp_caches sp2 ! ?k)) ?s"
      "place (channel_of ?k sp2) ?s = place (channel_of ?k sp1) ?s"
      "mm_start_addr (sp_MemInfo sp2) = mm_start_addr (sp_MemInfo sp1)" "logged (log ?k @ vs) (channel_of ?k sp2)" by blast
  have "cached (channel_of ?k sp2) ?s \<noteq> None" using cached_count [OF stream_okD(4) [OF 2(1) k], of ?s] 2(2) by simp
  then obtain ty bytes where cached2: "cached (channel_of ?k sp2) ?s = Some (ty, bytes)" by auto
  from logged_lookup(3) [OF 2(5) cached2] in_log(2) have "bytes = fst (log ?k ! nat ?s)" by (simp add: nth_append)
  moreover have "mem_read (mm_start_addr (sp_MemInfo sp2) + fi_offset (mb_frame reply)) (nat (fi_size (mb_frame reply))) (sp_memory sp2) = bytes"
    using place_cached [OF _ cached2] place1 2(3,4) by simp
  ultimately show ?thesis using in_log by simp
qed

lemma server_delivers_what_was_written_witness:
  "\<exists>sp0 log sp reply sp1. server_started sp0 \<and> server_run sp0 log sp \<and> log 16 = [([7], AUDIO_FRAME)]
    \<and> Msg_CTRL_handle True demo_junk (demo_msg MSG_CMD_LOCK_FRAME 16 0) sp = (reply, sp1)
    \<and> mem_read (mm_start_addr (sp_MemInfo sp1) + fi_offset (mb_frame reply)) (nat (fi_size (mb_frame reply))) (sp_memory sp1) = [7]"
proof (rule demo_server)
  fix sp0 log sp reply sp1
  assume 1: "server_started sp0" "server_run sp0 log sp" "log 16 = [([7], AUDIO_FRAME)]"
    and 2: "Msg_CTRL_handle True demo_junk (demo_msg MSG_CMD_LOCK_FRAME 16 0) sp = (reply, sp1)" "mb_ret reply = 0"
    and 3: "0 < lock_count (the (sp_caches sp1 ! 16)) 0"
  have "mb_cmd (demo_msg MSG_CMD_LOCK_FRAME 16 0) = MSG_CMD_LOCK_FRAME" "valid_format (demo_msg MSG_CMD_LOCK_FRAME 16 0)"
    "fi_format (mb_frame (demo_msg MSG_CMD_LOCK_FRAME 16 0)) = 16" "fi_serial_no (mb_frame (demo_msg MSG_CMD_LOCK_FRAME 16 0)) = 0"
    by (simp_all add: demo_msg_def valid_format_def const_defs)
  with server_delivers_what_was_written [OF 1(1,2) _ _ 2, of sp1] hold_start [OF 3] 3 1 2 show ?thesis by fastforce
qed

text \<open>C2: The invariant of the server.  In every run of the kind of C1 (valid channels and formats;
  writes of frames that are not NULL, not empty, fit the ring and have a type from 0 to below
  \<open>END_FRAME_TYPE\<close>, or refused for their size), each of the
  32 channels has a well formed store and cache, the store holds the most recent
  frames of what was written, with serial numbers counting from 0, and the cache
  holds only frames that were written; on a video channel the count of every frame
  is the number of listed groups that cover it, on an audio channel there are no
  groups; and no byte belongs to two channels.  (Writes of the type -1 break the store: see
  \<open>Video_Write_empty_type_starves\<close>.)\<close>

theorem server_invariant:
  assumes "server_started sp0" "server_run sp0 log sp" "k < VIDOE_INFO_END"
  shows "channel_ok (channel_of k sp)
    \<and> (\<exists>j. contents (video_of k sp) (sp_memory sp) = drop j (log_from 0 (log k)))
    \<and> vi_cur_serial (video_of k sp) = int (length (log k)) - 1
    \<and> (\<forall>t ty bytes. cached (channel_of k sp) t = Some (ty, bytes) \<longrightarrow> (t, ty, bytes) \<in> set (log_from 0 (log k)))
    \<and> (if k < AUDIO_INFO_G711_CH1 then lock_count (the (sp_caches sp ! k)) = gop_locks (sp_gops sp k) else sp_gops sp k = [])
    \<and> (\<forall>j < VIDOE_INFO_END. j \<noteq> k \<longrightarrow> (\<forall>a. \<not> (area (channel_of j sp) a \<and> area (channel_of k sp) a)))"
proof -
  from run_ok [OF assms(2,1)] assms(3) have ok: "stream_ok sp" and log: "logged (log k) (channel_of k sp)" by auto
  have slot: "slot_ok k (sp_gops sp k) (channel_of k sp)" by (rule stream_okD(2) [OF ok assms(3)])
  have "lock_count (the (sp_caches sp ! k)) = gop_locks (sp_gops sp k)" if "k < AUDIO_INFO_G711_CH1"
    using slot that by (simp add: slot_ok_def balance_def fun_eq_iff)
  moreover have "sp_gops sp k = []" if "\<not> k < AUDIO_INFO_G711_CH1" using slot that by (simp add: slot_ok_def)
  moreover have "\<forall>j < VIDOE_INFO_END. j \<noteq> k \<longrightarrow> (\<forall>a. \<not> (area (channel_of j sp) a \<and> area (channel_of k sp) a))"
    using ok assms(3) unfolding stream_ok_def by blast
  moreover note stream_okD(4) [OF ok assms(3)]
  ultimately show ?thesis using log unfolding logged_def channel_of_simps by simp
qed

lemma server_invariant_witness:
  "\<exists>sp0 log sp. server_run sp0 log sp \<and> log 16 = [([7], AUDIO_FRAME)] \<and> vi_cur_serial (video_of 16 sp) = 0"
proof (rule demo_server)
  fix sp0 log sp assume 1: "server_started sp0" "server_run sp0 log sp" "log 16 = [([7], AUDIO_FRAME)]"
  have "16 < VIDOE_INFO_END" by (simp add: const_defs)
  with server_invariant [OF 1(1,2), of 16] 1(3) have "vi_cur_serial (video_of 16 sp) = 0" by simp
  with 1 show ?thesis by blast
qed

text \<open>The encoders never hang.  In every run of the server a write of a frame of
  a valid type returns: with success when the frame has at least one byte and fits
  into the ring of its channel, and with failure otherwise.\<close>

theorem server_write_returns:
  assumes "server_started sp0" "server_run sp0 log sp" "k < VIDOE_INFO_END" "0 \<le> ft" "ft < END_FRAME_TYPE"
  shows "\<exists>sp'. stream_write (Some bytes) (int (length bytes)) ft k ts sp =
    Some (if bytes \<noteq> [] \<and> blocks_for (int (length bytes)) (vi_blk_sz (video_of k sp)) \<le> vi_blk_num (video_of k sp)
          then STREAM_SUCCESS else STREAM_FAILURE, sp')"
proof -
  have ok: "stream_ok sp" using run_ok [OF assms(2,1)] by blast
  show ?thesis
  proof (cases "writable (video_of k sp) (bytes, ft)")
    case True
    obtain sp' where "stream_write (Some bytes) (int (length bytes)) ft k ts sp = Some (STREAM_SUCCESS, sp')"
      by (rule stream_write_step [OF ok assms(3) True, of ts])
    then show ?thesis using True by (simp add: writable_def)
  next
    case False
    then have bad: "int (length bytes) = 0 \<or> blocks_for (int (length bytes)) (vi_blk_sz (video_of k sp)) > vi_blk_num (video_of k sp)"
      using assms(4,5) by (auto simp: writable_def)
    then have "stream_write (Some bytes) (int (length bytes)) ft k ts sp \<noteq> None"
      by (auto simp: stream_write_def MemMng_Video_Write_def Let_def)
    then obtain r sp' where run: "stream_write (Some bytes) (int (length bytes)) ft k ts sp = Some (r, sp')" by auto
    with stream_write_refused(2) [OF ok assms(3) bad run] bad show ?thesis by auto
  qed
qed

lemma server_write_returns_witness:
  "\<exists>sp sp'. stream_write (Some []) (int (length ([] :: byte list))) AUDIO_FRAME 16 0 sp = Some (STREAM_FAILURE, sp')"
proof (rule demo_server)
  fix sp0 log sp assume 1: "server_started sp0" "server_run sp0 log sp"
  have "16 < VIDOE_INFO_END" "0 \<le> AUDIO_FRAME" "AUDIO_FRAME < END_FRAME_TYPE" by (simp_all add: const_defs)
  from server_write_returns [OF 1 this, of "[]" 0] show ?thesis by auto
qed

section \<open>Ending\<close>

lemma cleanup_step:
  assumes ok: "stream_ok sp" and k: "k < VIDOE_INFO_END"
  shows "stream_ok (cleanup_channel k sp)" "sp_gops (cleanup_channel k sp) = (sp_gops sp)(k := [])"
proof -
  let ?st = "GopCleanup (sp_gops sp k) (channel_of k sp)"
  have keep: "gop_keeps (sp_gops sp k, channel_of k sp) ?st" and none: "fst ?st = []"
    using GopCleanup_keeps [OF stream_okD(3) [OF ok k]] by simp_all
  have stays: "stays (channel_of k sp) (snd ?st)" by (rule GopCleanup_stays [OF stream_okD(4) [OF ok k]])
  note only = put_gops_only [OF ok k stays]
  have slot: "slot_ok k (sp_gops sp k) (channel_of k sp)" by (rule stream_okD(2) [OF ok k])
  have geo: "geom (snd ?st) = geom (channel_of k sp)" using stays by (simp add: stays_def)
  have "gop_ok ([], snd ?st)" "balance ([], snd ?st) = balance (sp_gops sp k, channel_of k sp)"
    using keep none by (cases ?st; simp add: gop_keeps_def)+
  moreover have "vi_extradata (ch_video (snd ?st)) = vi_extradata (video_of k sp)" using geo by (simp add: geom_def)
  ultimately have "slot_ok k [] (snd ?st)"
    using slot extra_room_geom [OF geo] by (auto simp: slot_ok_def)
  then have "slot_ok k (sp_gops (put_gops k ?st sp) k) (channel_of k (put_gops k ?st sp))"
    using stream_okD(1) [OF ok k] k none by (simp add: channel_of_put)
  from only_ok [OF ok k only this] show "stream_ok (cleanup_channel k sp)" by (simp add: cleanup_channel_def)
  show "sp_gops (cleanup_channel k sp) = (sp_gops sp)(k := [])" using none by (simp add: cleanup_channel_def)
qed

text \<open>Ending the server frees every lock of the video channels, whatever clients
  have left locked: after the clean-up loop of \<open>stream_end\<close> their group lists are
  empty and the count of every frame is 0.\<close>

theorem stream_cleanup_frees:
  assumes "server_started sp0" "server_run sp0 log sp" "k < AUDIO_INFO_G711_CH1"
  shows "sp_gops (stream_cleanup sp) k = [] \<and> lock_count (the (sp_caches (stream_cleanup sp) ! k)) s = 0"
proof -
  have ok: "stream_ok sp" using run_ok [OF assms(2,1)] by blast
  define sp1 where "sp1 = sp\<lparr>sp_IsQuit := 1\<rparr>"
  have ok1: "stream_ok sp1" using ok by (simp add: sp1_def stream_ok_def)
  have loop: "stream_ok (fold (\<lambda>k sp. cleanup_channel k (cleanup_channel k sp)) [0..<n] sp1)
    \<and> (\<forall>j < n. sp_gops (fold (\<lambda>k sp. cleanup_channel k (cleanup_channel k sp)) [0..<n] sp1) j = [])"
    if "n < VIDOE_INFO_END" for n
    using that
  proof (induction n)
    case (Suc n)
    let ?sp = "fold (\<lambda>k sp. cleanup_channel k (cleanup_channel k sp)) [0..<n] sp1"
    have n: "n < VIDOE_INFO_END" and IH: "stream_ok ?sp" "\<forall>j < n. sp_gops ?sp j = []" using Suc by simp_all
    note 1 = cleanup_step [OF IH(1) n]
    note 2 = cleanup_step [OF 1(1) n]
    show ?case using 1(2) 2 IH(2) by (auto simp: less_Suc_eq)
  qed (use ok1 in simp)
  have end_ok: "stream_ok (stream_cleanup sp)" "sp_gops (stream_cleanup sp) k = []"
    using loop [of "VIDOE_INFO_END - 1"] assms(3) by (simp_all add: stream_cleanup_def sp1_def const_defs)
  have k: "k < VIDOE_INFO_END" using assms(3) by (simp add: const_defs)
  have "slot_ok k [] (channel_of k (stream_cleanup sp))" using stream_okD(2) [OF end_ok(1) k] end_ok(2) by simp
  with assms(3) have "balance ([], channel_of k (stream_cleanup sp)) s = 0" by (simp add: slot_ok_def)
  with end_ok(2) show ?thesis by (simp add: balance_def)
qed

lemma stream_cleanup_frees_witness:
  "\<exists>sp0 log sp. server_run sp0 log sp \<and> log 16 = [([7], AUDIO_FRAME)] \<and> sp_gops (stream_cleanup sp) 0 = []"
proof (rule demo_server)
  fix sp0 log sp assume 1: "server_started sp0" "server_run sp0 log sp" "log 16 = [([7], AUDIO_FRAME)]"
  with stream_cleanup_frees [OF 1(1,2), of 0 0] show ?thesis by (auto simp: const_defs)
qed

section \<open>Asking for the current frame\<close>

text \<open>A server whose first channel is the small store of Mem_Gop.\<close>

definition demo_parm :: "video_blk_info \<Rightarrow> memory \<Rightarrow> stream_parm" where
  "demo_parm v m = \<lparr>sp_MemInfo = zero_mem_mng\<lparr>mm_start_addr := vi_start v, mm_video_info := [v]\<rparr>,
     sp_caches = [], sp_gops = GopInit, sp_memory = m, sp_checkNewFrame = [], sp_lockNewFrame = [], sp_IsQuit = 0,
     sp_ImageWidth = [704], sp_ImageHeight = [480], sp_ImageWidth_Ext = [], sp_ImageHeight_Ext = [],
     sp_JpgQuality = 0, sp_Mpeg4Quality = [0]\<rparr>"

text \<open>\<open>MSG_CMD_GET_CUR_FRAME\<close> answers a wrong place.  On a video channel it reports
  serial number, size and type of the last I frame, but the offset of the last
  block of the newest frame: after an I frame of two blocks and a P frame, the 5
  bytes at the answered offset are not the I frame.\<close>

theorem get_cur_frame_wrong_offset:
  "case write_run [([1, 2, 3, 4, 5], I_FRAME), ([6], P_FRAME)] demo_store (\<lambda>_. 0) of
     None \<Rightarrow> False
   | Some (v, m) \<Rightarrow>
       (let fi = mb_frame (get_cur_frame (demo_msg MSG_CMD_GET_CUR_FRAME 0 0) (demo_parm v m)) in
        fi_serial_no fi = 0 \<and> fi_size fi = 5 \<and> fi_frameType fi = I_FRAME \<and> fi_offset fi = 8
        \<and> mem_read (frame_addr v (vi_frame v ! 0)) 5 m = [1, 2, 3, 4, 5]
        \<and> mem_read (vi_start v + fi_offset fi) 5 m \<noteq> [1, 2, 3, 4, 5])"
  by code_simp

end
