(* ===== verification/Av_Stream.thy ===== *)
theory Av_Stream
  imports Stream_Server Osa_Buf
begin

text \<open>The encoders' side of the stream server: src/videoStream.c and src/audioStream.c
  on the configuration of include/avserver_config.h.  An encoder hands over a
  buffer descriptor of osa_buf.h; the bytes its address points to are an argument.\<close>

section \<open>Configuration\<close>

definition AVSERVER_MAX_STREAMS :: nat where [const_defs]: "AVSERVER_MAX_STREAMS = 16"
definition ALG_VID_CODEC_H264 :: int where [const_defs]: "ALG_VID_CODEC_H264 = 0"
definition VIDEO_ENC_FRAME_TYPE_NON_KEY_FRAME :: nat where [const_defs]: "VIDEO_ENC_FRAME_TYPE_NON_KEY_FRAME = 0"
definition VIDEO_ENC_FRAME_TYPE_KEY_FRAME :: nat where [const_defs]: "VIDEO_ENC_FRAME_TYPE_KEY_FRAME = 1"
definition STREAM_AUDIO_1 :: nat where [const_defs]: "STREAM_AUDIO_1 = 16"
definition STREAM_VIDEO_NUM :: nat where [const_defs]: "STREAM_VIDEO_NUM = 16"
definition STREAM_EXT_NUM :: nat where [const_defs]: "STREAM_EXT_NUM = 2"

text \<open>The fields of \<open>VIDEO_EncodeConfig\<close> and \<open>AVSERVER_Config\<close> that the streams use.\<close>

record encode_config =
  ec_cropWidth :: int
  ec_cropHeight :: int
  ec_codecType :: int
  ec_codecBitrate :: int

record avserver_config =
  ac_numEncodeStream :: nat
  ac_encodeConfig :: "encode_config list"
  ac_mem_layou_set :: int

section \<open>Operations\<close>

text \<open>The settings that the configuration gives: zeroed, then one entry per stream.\<close>

definition stream_settings :: "avserver_config \<Rightarrow> stream_set" where
  "stream_settings cfg =
    (let z = \<lparr>ss_ImageWidth = replicate STREAM_VIDEO_NUM 0, ss_ImageHeight = replicate STREAM_VIDEO_NUM 0,
              ss_ImageWidth_Ext = replicate STREAM_EXT_NUM 0, ss_ImageHeight_Ext = replicate STREAM_EXT_NUM 0,
              ss_JpgQuality = 0, ss_Mpeg4Quality = replicate STREAM_VIDEO_NUM 0, ss_Mem_layout = 0\<rparr>
     in (fold (\<lambda>cnt s. let c = ac_encodeConfig cfg ! cnt in
           s\<lparr>ss_ImageWidth := (ss_ImageWidth s)[cnt := ec_cropWidth c],
             ss_ImageHeight := (ss_ImageHeight s)[cnt := ec_cropHeight c],
             ss_Mpeg4Quality := (ss_Mpeg4Quality s)[cnt := ec_codecBitrate c]\<rparr>)
          [0..<ac_numEncodeStream cfg] z)\<lparr>ss_Mem_layout := ac_mem_layou_set cfg\<rparr>)"

definition VIDEO_streamSysInit :: "int \<Rightarrow> int \<Rightarrow> (nat \<Rightarrow> bool) \<Rightarrow> (nat \<Rightarrow> bool) \<Rightarrow> int \<Rightarrow> avserver_config
    \<Rightarrow> stream_parm \<Rightarrow> (int \<times> stream_parm) option" where
  "VIDEO_streamSysInit shmid addr callocs allocs thr cfg pParm =
    stream_init shmid addr callocs allocs thr (stream_settings cfg) pParm"

text \<open>The type of a frame: \<open>None\<close> for the stream type means -1.\<close>

definition shm_frame_type :: "nat \<Rightarrow> int" where
  "shm_frame_type isKeyFrame =
    (if isKeyFrame = VIDEO_ENC_FRAME_TYPE_KEY_FRAME then 1
     else if isKeyFrame = VIDEO_ENC_FRAME_TYPE_NON_KEY_FRAME then 2 else -1)"

definition shm_stream_type :: "avserver_config \<Rightarrow> nat \<Rightarrow> nat option" where
  "shm_stream_type cfg streamId =
    (if ec_codecType (ac_encodeConfig cfg ! streamId) = ALG_VID_CODEC_H264 then Some streamId else None)"

text \<open>None: the call does not return, or (the stream type is -1) it writes through
  \<open>video_info[-1]\<close>.\<close>

definition VIDEO_streamShmCopy :: "avserver_config \<Rightarrow> nat \<Rightarrow> osa_buf_info \<Rightarrow> byte list option \<Rightarrow> stream_parm
    \<Rightarrow> (int \<times> stream_parm) option" where
  "VIDEO_streamShmCopy cfg streamId pBufInfo payload pParm =
    (case shm_stream_type cfg streamId of
       None \<Rightarrow> None
     | Some streamType \<Rightarrow>
         stream_write payload (bi_size pBufInfo) (shm_frame_type (bi_isKeyFrame pBufInfo)) streamType
           (of_nat (bi_timestamp pBufInfo)) pParm)"

definition AUDIO_streamShmCopy :: "nat \<Rightarrow> osa_buf_info \<Rightarrow> byte list option \<Rightarrow> stream_parm
    \<Rightarrow> (int \<times> stream_parm) option" where
  "AUDIO_streamShmCopy streamId pBufInfo payload pParm =
    stream_write payload (bi_size pBufInfo) AUDIO_FRAME (STREAM_AUDIO_1 + streamId)
      (of_nat (bi_timestamp pBufInfo)) pParm"

section \<open>A frame handed over is logged or refused\<close>

text \<open>One write, as a step of the server.\<close>

lemma write_runs:
  assumes st: "server_started sp0" and run: "server_run sp0 log sp" and k: "k < VIDOE_INFO_END"
    and ft: "0 \<le> ft" "ft < END_FRAME_TYPE"
  obtains r sp' where "stream_write (Some bytes) (int (length bytes)) ft k ts sp = Some (r, sp')"
    "r = STREAM_SUCCESS \<or> r = STREAM_FAILURE"
    "server_run sp0 (log(k := log k @ (if r = STREAM_SUCCESS then [(bytes, ft)] else []))) sp'"
proof -
  have ok: "stream_ok sp" using run_ok [OF run st] by blast
  show thesis
  proof (cases "writable (video_of k sp) (bytes, ft)")
    case True
    obtain sp' where w: "stream_write (Some bytes) (int (length bytes)) ft k ts sp = Some (STREAM_SUCCESS, sp')"
      by (rule stream_write_step [OF ok k True, of ts])
    show thesis by (rule that [OF w]) (use run_step [OF run step_write [OF k True w]] in simp_all)
  next
    case False
    then have bad: "int (length bytes) = 0 \<or> blocks_for (int (length bytes)) (vi_blk_sz (video_of k sp)) > vi_blk_num (video_of k sp)"
      using ft by (auto simp: writable_def)
    then have "stream_write (Some bytes) (int (length bytes)) ft k ts sp \<noteq> None"
      by (auto simp: stream_write_def MemMng_Video_Write_def Let_def)
    then obtain r sp' where w: "stream_write (Some bytes) (int (length bytes)) ft k ts sp = Some (r, sp')" by auto
    have r: "r = STREAM_FAILURE" by (rule stream_write_refused(2) [OF ok k bad w])
    show thesis
      by (rule that [OF w]) (use r run_step [OF run step_refused [OF k bad w]] in \<open>simp_all add: const_defs\<close>)
  qed
qed

definition demo_buf :: "nat \<Rightarrow> nat \<Rightarrow> osa_buf_info" where
  "demo_buf n key = \<lparr>bi_size = int n, bi_count = 0, bi_flags = 0, bi_timestamp = 9, bi_width = 352, bi_height = 288,
     bi_isKeyFrame = key, bi_codecType = 0, bi_physAddr = 0, bi_virtAddr = 0\<rparr>"

definition demo_config :: avserver_config where
  "demo_config = \<lparr>ac_numEncodeStream = 2,
     ac_encodeConfig = [\<lparr>ec_cropWidth = 352, ec_cropHeight = 288, ec_codecType = 0, ec_codecBitrate = 2000000\<rparr>,
                        \<lparr>ec_cropWidth = 704, ec_cropHeight = 576, ec_codecType = 0, ec_codecBitrate = 4000000\<rparr>],
     ac_mem_layou_set = 1\<rparr>"

text \<open>What the encoders hand over reaches the log.  In every run of the server a
  buffer of a H.264 stream whose key-frame flag is one of the two known values, and
  whose size is the length of its bytes, is either appended to the log of its
  channel, as an I frame when the flag is set and as a P frame otherwise, or refused
  with \<open>STREAM_FAILURE\<close>; and the run goes on.\<close>

theorem video_copy_logged:
  assumes "server_started sp0" "server_run sp0 log sp" "streamId < AVSERVER_MAX_STREAMS"
    and "ec_codecType (ac_encodeConfig cfg ! streamId) = ALG_VID_CODEC_H264"
    and "bi_isKeyFrame b = VIDEO_ENC_FRAME_TYPE_KEY_FRAME \<or> bi_isKeyFrame b = VIDEO_ENC_FRAME_TYPE_NON_KEY_FRAME"
    and "bi_size b = int (length bytes)"
  shows "\<exists>r sp'. VIDEO_streamShmCopy cfg streamId b (Some bytes) sp = Some (r, sp')
    \<and> (r = STREAM_SUCCESS \<or> r = STREAM_FAILURE)
    \<and> server_run sp0 (log(streamId := log streamId @ (if r = STREAM_SUCCESS
         then [(bytes, if bi_isKeyFrame b = VIDEO_ENC_FRAME_TYPE_KEY_FRAME then I_FRAME else P_FRAME)] else []))) sp'"
proof -
  let ?ft = "if bi_isKeyFrame b = VIDEO_ENC_FRAME_TYPE_KEY_FRAME then I_FRAME else P_FRAME"
  have ft: "shm_frame_type (bi_isKeyFrame b) = ?ft" using assms(5) by (auto simp: shm_frame_type_def const_defs)
  have "0 \<le> ?ft" "?ft < END_FRAME_TYPE" "streamId < VIDOE_INFO_END"
    using assms(3) by (simp_all add: const_defs)
  with write_runs [OF assms(1,2), of streamId ?ft bytes "of_nat (bi_timestamp b)"] obtain r sp' where
    "stream_write (Some bytes) (bi_size b) ?ft streamId (of_nat (bi_timestamp b)) sp = Some (r, sp')"
    "r = STREAM_SUCCESS \<or> r = STREAM_FAILURE"
    "server_run sp0 (log(streamId := log streamId @ (if r = STREAM_SUCCESS then [(bytes, ?ft)] else []))) sp'"
    using assms(6) by auto
  then show ?thesis
    unfolding VIDEO_streamShmCopy_def shm_stream_type_def using assms(4) ft by simp
qed

lemma video_copy_logged_witness:
  "\<exists>sp0 log sp r sp' log'. server_run sp0 log sp
    \<and> VIDEO_streamShmCopy demo_config 1 (demo_buf 3 1) (Some [1, 2, 3]) sp = Some (r, sp') \<and> server_run sp0 log' sp'"
proof (rule demo_server)
  fix sp0 log sp assume 1: "server_started sp0" "server_run sp0 log sp"
  have "1 < AVSERVER_MAX_STREAMS" "ec_codecType (ac_encodeConfig demo_config ! 1) = ALG_VID_CODEC_H264"
    "bi_isKeyFrame (demo_buf 3 1) = VIDEO_ENC_FRAME_TYPE_KEY_FRAME \<or> bi_isKeyFrame (demo_buf 3 1) = VIDEO_ENC_FRAME_TYPE_NON_KEY_FRAME"
    "bi_size (demo_buf 3 1) = int (length [1, 2, 3 :: byte])"
    by (simp_all add: demo_config_def demo_buf_def const_defs)
  from video_copy_logged [OF 1 this] 1 show ?thesis by blast
qed

text \<open>The same for sound: a buffer of one of the 16 audio streams is logged on
  channel 16 + stream as an audio frame, or refused.\<close>

theorem audio_copy_logged:
  assumes "server_started sp0" "server_run sp0 log sp" "streamId < 16" "bi_size b = int (length bytes)"
  shows "\<exists>r sp'. AUDIO_streamShmCopy streamId b (Some bytes) sp = Some (r, sp')
    \<and> (r = STREAM_SUCCESS \<or> r = STREAM_FAILURE)
    \<and> server_run sp0 (log(16 + streamId := log (16 + streamId) @
         (if r = STREAM_SUCCESS then [(bytes, AUDIO_FRAME)] else []))) sp'"
proof -
  have "0 \<le> AUDIO_FRAME" "AUDIO_FRAME < END_FRAME_TYPE" "16 + streamId < VIDOE_INFO_END"
    using assms(3) by (simp_all add: const_defs)
  with write_runs [OF assms(1,2), of "16 + streamId" AUDIO_FRAME bytes "of_nat (bi_timestamp b)"] obtain r sp' where
    "stream_write (Some bytes) (bi_size b) AUDIO_FRAME (16 + streamId) (of_nat (bi_timestamp b)) sp = Some (r, sp')"
    "r = STREAM_SUCCESS \<or> r = STREAM_FAILURE"
    "server_run sp0 (log(16 + streamId := log (16 + streamId) @
       (if r = STREAM_SUCCESS then [(bytes, AUDIO_FRAME)] else []))) sp'"
    using assms(4) by auto
  then show ?thesis unfolding AUDIO_streamShmCopy_def STREAM_AUDIO_1_def by blast
qed

lemma audio_copy_logged_witness:
  "\<exists>sp0 log sp r sp' log'. server_run sp0 log sp
    \<and> AUDIO_streamShmCopy 2 (demo_buf 1 0) (Some [7]) sp = Some (r, sp') \<and> server_run sp0 log' sp'"
proof (rule demo_server)
  fix sp0 log sp assume 1: "server_started sp0" "server_run sp0 log sp"
  have "2 < (16 :: nat)" "bi_size (demo_buf 1 0) = int (length [7 :: byte])" by (simp_all add: demo_buf_def)
  from audio_copy_logged [OF 1 this] 1 show ?thesis by blast
qed

section \<open>Starting\<close>

text \<open>The loop writes the first \<open>n\<close> entries and leaves the others.\<close>

lemma settings_loop:
  assumes "n \<le> length cs" "n \<le> length zs"
  shows "fold (\<lambda>cnt xs. xs[cnt := f (cs ! cnt)]) [0..<n] zs = map f (take n cs) @ drop n zs"
  using assms
proof (induction n)
  case (Suc n)
  then show ?case
    by (simp add: take_Suc_conv_app_nth list_update_append Cons_nth_drop_Suc [symmetric])
qed simp

lemma settings_fields:
  "ss_ImageWidth (fold (\<lambda>cnt s. s\<lparr>ss_ImageWidth := (ss_ImageWidth s)[cnt := f cnt], ss_ImageHeight := (ss_ImageHeight s)[cnt := g cnt],
      ss_Mpeg4Quality := (ss_Mpeg4Quality s)[cnt := h cnt]\<rparr>) ks s) = fold (\<lambda>cnt xs. xs[cnt := f cnt]) ks (ss_ImageWidth s)"
  "ss_ImageHeight (fold (\<lambda>cnt s. s\<lparr>ss_ImageWidth := (ss_ImageWidth s)[cnt := f cnt], ss_ImageHeight := (ss_ImageHeight s)[cnt := g cnt],
      ss_Mpeg4Quality := (ss_Mpeg4Quality s)[cnt := h cnt]\<rparr>) ks s) = fold (\<lambda>cnt xs. xs[cnt := g cnt]) ks (ss_ImageHeight s)"
  "ss_Mpeg4Quality (fold (\<lambda>cnt s. s\<lparr>ss_ImageWidth := (ss_ImageWidth s)[cnt := f cnt], ss_ImageHeight := (ss_ImageHeight s)[cnt := g cnt],
      ss_Mpeg4Quality := (ss_Mpeg4Quality s)[cnt := h cnt]\<rparr>) ks s) = fold (\<lambda>cnt xs. xs[cnt := h cnt]) ks (ss_Mpeg4Quality s)"
  by (induction ks arbitrary: s) simp_all

text \<open>The server starts from any configuration.  When the system calls succeed,
  \<open>VIDEO_streamSysInit\<close> returns success whatever the layout number is, and the result
  is a started server with empty channels that reports, for every configured
  stream, the configured picture size and bit rate.\<close>

theorem stream_sys_init_starts:
  assumes "shmid \<noteq> -1" "0 < addr" "\<forall>n. callocs n" "\<forall>n. allocs n" "0 \<le> thr"
    and "ac_numEncodeStream cfg \<le> AVSERVER_MAX_STREAMS" "ac_numEncodeStream cfg \<le> length (ac_encodeConfig cfg)"
  shows "\<exists>sp. VIDEO_streamSysInit shmid addr callocs allocs thr cfg pParm = Some (STREAM_SUCCESS, sp)
    \<and> server_started sp \<and> server_run sp (\<lambda>_. []) sp
    \<and> (\<forall>i < ac_numEncodeStream cfg. sp_ImageWidth sp ! i = ec_cropWidth (ac_encodeConfig cfg ! i)
         \<and> sp_ImageHeight sp ! i = ec_cropHeight (ac_encodeConfig cfg ! i)
         \<and> sp_Mpeg4Quality sp ! i = ec_codecBitrate (ac_encodeConfig cfg ! i))"
proof -
  let ?set = "stream_settings cfg"
  from stream_init_ok [OF assms(1-5), of ?set pParm] obtain sp where
    sp: "stream_init shmid addr callocs allocs thr ?set pParm = Some (STREAM_SUCCESS, sp)" by blast
  then have started: "server_started sp" unfolding server_started_def using assms(1-5) by blast
  have "sp_ImageWidth sp = ss_ImageWidth ?set" "sp_ImageHeight sp = ss_ImageHeight ?set"
    "sp_Mpeg4Quality sp = ss_Mpeg4Quality ?set"
    using sp by (auto simp: stream_init_def Let_def STREAM_FAILURE_def STREAM_SUCCESS_def split: option.splits prod.splits if_splits)
  moreover have "i < ac_numEncodeStream cfg \<Longrightarrow> ss_ImageWidth ?set ! i = ec_cropWidth (ac_encodeConfig cfg ! i)"
    "i < ac_numEncodeStream cfg \<Longrightarrow> ss_ImageHeight ?set ! i = ec_cropHeight (ac_encodeConfig cfg ! i)"
    "i < ac_numEncodeStream cfg \<Longrightarrow> ss_Mpeg4Quality ?set ! i = ec_codecBitrate (ac_encodeConfig cfg ! i)" for i
    using assms(6,7)
    by (simp_all add: stream_settings_def Let_def settings_fields settings_loop const_defs nth_append)
  ultimately show ?thesis using sp started run_start unfolding VIDEO_streamSysInit_def by auto
qed

lemma stream_sys_init_starts_witness:
  "\<exists>sp. VIDEO_streamSysInit 1 4096 (\<lambda>_. True) (\<lambda>_. True) 0 demo_config (demo_parm demo_store (\<lambda>_. 0)) = Some (STREAM_SUCCESS, sp)
    \<and> sp_ImageWidth sp ! 1 = 704"
  using stream_sys_init_starts [of 1 4096 "\<lambda>_. True" "\<lambda>_. True" 0 demo_config "demo_parm demo_store (\<lambda>_. 0)"]
  by (auto simp: demo_config_def const_defs)

end
