(* ===== verification/Rendezvous.thy ===== *)
theory Rendezvous
  imports Prelude
begin

text \<open>How \<open>MSG_CMD_GET_NEW_FRAME\<close> waits for the next frame of a channel: the rendezvous
  object of include/rendezvous.h, the flag \<open>checkNewFrame\<close>, the mutex of the channel
  (\<open>Sem_lock\<close>), and the two threads that meet, the message thread \<open>Msg_CTRL\<close> and the
  encoder in \<open>stream_write\<close> (src/stream.c).  The encoder holds the mutex from before its
  write until it has reset the rendezvous.  The message thread sets the flag and meets
  without it, and takes it for the reply.  Every access to the flag and every lock is a
  step of its own; a call of a rendezvous operation is one step, since it runs under the
  mutex of the rendezvous, and blocks in the state \<open>wait\<close> of its thread.\<close>

section \<open>The rendezvous object\<close>

record rendezvous =
  rv_orig :: int
  rv_count :: int

definition Rendezvous_open :: "int \<Rightarrow> rendezvous" where
  "Rendezvous_open n = \<lparr>rv_orig = n, rv_count = n\<rparr>"

text \<open>True: the caller waits.  False: it has woken everybody and returns.\<close>

definition Rendezvous_meet :: "rendezvous \<Rightarrow> bool \<times> rendezvous" where
  "Rendezvous_meet hRv = (let r = hRv\<lparr>rv_count := rv_count hRv - 1\<rparr> in (rv_count r > 0, r))"

definition Rendezvous_force :: "rendezvous \<Rightarrow> rendezvous" where
  "Rendezvous_force hRv = hRv\<lparr>rv_count := 0\<rparr>"

definition Rendezvous_reset :: "rendezvous \<Rightarrow> rendezvous" where
  "Rendezvous_reset hRv = hRv\<lparr>rv_count := rv_orig hRv\<rparr>"

section \<open>The two threads of a channel\<close>

text \<open>\<open>S_lock\<close>: about to lock the channel for the reply; \<open>S_reply\<close>: makes the reply.\<close>

datatype server_pc = S_idle | S_meet | S_wait | S_lock | S_reply

text \<open>\<open>W_test\<close>: in the channel, the frame not yet written; \<open>W_clear\<close>, \<open>W_reset\<close>: about to
  clear the flag, to reset the rendezvous; \<open>W_unlock\<close>: about to leave the channel.\<close>

datatype writer_pc = W_idle | W_test | W_meet | W_wait | W_clear | W_reset | W_unlock

record meeting =
  me_rv :: rendezvous
  me_check :: int
  me_locked :: bool
  me_server :: server_pc
  me_writer :: writer_pc

definition wake_server :: "meeting \<Rightarrow> meeting" where
  "wake_server s = (if me_server s = S_wait then s\<lparr>me_server := S_lock\<rparr> else s)"

definition wake_writer :: "meeting \<Rightarrow> meeting" where
  "wake_writer s = (if me_writer s = W_wait then s\<lparr>me_writer := W_clear\<rparr> else s)"

text \<open>The next step of the message thread: a \<open>GET_NEW_FRAME\<close> sets the flag and meets, then
  the reply is made under the mutex.  None: it is blocked.\<close>

fun server_next :: "meeting \<Rightarrow> meeting option" where
  "server_next s =
    (case me_server s of
       S_idle \<Rightarrow> Some (s\<lparr>me_check := 1, me_server := S_meet\<rparr>)
     | S_meet \<Rightarrow>
         let (wait, r) = Rendezvous_meet (me_rv s) in
         Some (if wait then s\<lparr>me_rv := r, me_server := S_wait\<rparr>
               else wake_writer (s\<lparr>me_rv := r, me_server := S_lock\<rparr>))
     | S_wait \<Rightarrow> None
     | S_lock \<Rightarrow> if me_locked s then None else Some (s\<lparr>me_locked := True, me_server := S_reply\<rparr>)
     | S_reply \<Rightarrow> Some (s\<lparr>me_locked := False, me_server := S_idle\<rparr>))"

text \<open>The next step of the encoder: lock, write and test the flag, meet, clear the flag, reset,
  unlock.  \<open>ok\<close>: the write succeeds; otherwise the call only unlocks.\<close>

fun writer_next :: "bool \<Rightarrow> meeting \<Rightarrow> meeting option" where
  "writer_next ok s =
    (case me_writer s of
       W_idle \<Rightarrow> if me_locked s then None else Some (s\<lparr>me_locked := True, me_writer := W_test\<rparr>)
     | W_test \<Rightarrow> Some (s\<lparr>me_writer := if ok \<and> me_check s \<noteq> 0 then W_meet else W_unlock\<rparr>)
     | W_meet \<Rightarrow>
         let (wait, r) = Rendezvous_meet (me_rv s) in
         Some (if wait then s\<lparr>me_rv := r, me_writer := W_wait\<rparr>
               else wake_server (s\<lparr>me_rv := r, me_writer := W_clear\<rparr>))
     | W_wait \<Rightarrow> None
     | W_clear \<Rightarrow> Some (s\<lparr>me_check := 0, me_writer := W_reset\<rparr>)
     | W_reset \<Rightarrow> Some (s\<lparr>me_rv := Rendezvous_reset (me_rv s), me_writer := W_unlock\<rparr>)
     | W_unlock \<Rightarrow> Some (s\<lparr>me_locked := False, me_writer := W_idle\<rparr>))"

declare server_next.simps [simp del] writer_next.simps [simp del]

lemmas meet_defs = server_next.simps writer_next.simps Rendezvous_meet_def Rendezvous_reset_def wake_server_def wake_writer_def

text \<open>\<open>other\<close>: a message of another kind, which only takes the mutex for its reply.\<close>

inductive meet_step :: "meeting \<Rightarrow> meeting \<Rightarrow> bool" where
  server: "server_next s = Some t \<Longrightarrow> meet_step s t"
| other: "me_server s = S_idle \<Longrightarrow> meet_step s (s\<lparr>me_server := S_lock\<rparr>)"
| writer: "writer_next ok s = Some t \<Longrightarrow> meet_step s t"

text \<open>\<open>pthread_cond_wait\<close> may also return without a broadcast, and neither thread tests again.\<close>

inductive stray_step :: "meeting \<Rightarrow> meeting \<Rightarrow> bool" where
  stray_server: "me_server s = S_wait \<Longrightarrow> stray_step s (s\<lparr>me_server := S_lock\<rparr>)"
| stray_writer: "me_writer s = W_wait \<Longrightarrow> stray_step s (s\<lparr>me_writer := W_clear\<rparr>)"

text \<open>As \<open>stream_init\<close> leaves a channel.\<close>

definition meeting_start :: meeting where
  "meeting_start = \<lparr>me_rv = Rendezvous_open 2, me_check = 0, me_locked = False, me_server = S_idle, me_writer = W_idle\<rparr>"

section \<open>The invariant\<close>

text \<open>The mutex is held by at most one thread; while the encoder clears up, the message thread
  waits for it, so that no request begins in between.\<close>

definition in_channel :: "writer_pc \<Rightarrow> bool" where
  "in_channel w \<longleftrightarrow> w \<noteq> W_idle"

definition calm :: "meeting \<Rightarrow> bool" where
  "calm s \<longleftrightarrow> rv_orig (me_rv s) = 2 \<and> me_locked s = (in_channel (me_writer s) \<or> me_server s = S_reply)
     \<and> \<not> (in_channel (me_writer s) \<and> me_server s = S_reply) \<and>
    (if me_writer s \<in> {W_idle, W_test, W_unlock} then
       (case me_server s of
          S_meet \<Rightarrow> me_check s = 1 \<and> rv_count (me_rv s) = 2
        | S_wait \<Rightarrow> me_check s = 1 \<and> rv_count (me_rv s) = 1
        | _ \<Rightarrow> me_check s = 0 \<and> rv_count (me_rv s) = 2)
     else
       (case me_writer s of
          W_meet \<Rightarrow> me_check s = 1 \<and> (me_server s = S_meet \<and> rv_count (me_rv s) = 2 \<or> me_server s = S_wait \<and> rv_count (me_rv s) = 1)
        | W_wait \<Rightarrow> me_check s = 1 \<and> me_server s = S_meet \<and> rv_count (me_rv s) = 1
        | W_clear \<Rightarrow> me_server s = S_lock \<and> rv_count (me_rv s) = 0
        | _ \<Rightarrow> me_check s = 0 \<and> me_server s = S_lock \<and> rv_count (me_rv s) = 0))"

lemma server_calm:
  assumes "server_next s = Some t" "calm s"
  shows "calm t"
proof -
  obtain cnt orig ck lk sv w where s: "s = \<lparr>me_rv = \<lparr>rv_orig = orig, rv_count = cnt\<rparr>, me_check = ck, me_locked = lk, me_server = sv, me_writer = w\<rparr>"
    by (metis meeting.surjective rendezvous.surjective old.unit.exhaust)
  show ?thesis
    using assms by (cases sv; cases w) (auto simp: s calm_def in_channel_def meet_defs Let_def split: if_splits)
qed

lemma writer_calm:
  assumes "writer_next ok s = Some t" "calm s"
  shows "calm t"
proof -
  obtain cnt orig ck lk sv w where s: "s = \<lparr>me_rv = \<lparr>rv_orig = orig, rv_count = cnt\<rparr>, me_check = ck, me_locked = lk, me_server = sv, me_writer = w\<rparr>"
    by (metis meeting.surjective rendezvous.surjective old.unit.exhaust)
  show ?thesis
    using assms by (cases w; cases sv) (auto simp: s calm_def in_channel_def meet_defs Let_def split: if_splits)
qed

lemma other_calm: "me_server s = S_idle \<Longrightarrow> calm s \<Longrightarrow> calm (s\<lparr>me_server := S_lock\<rparr>)"
  by (cases "me_writer s") (auto simp: calm_def in_channel_def)

lemma calm_step: "meet_step s t \<Longrightarrow> calm s \<Longrightarrow> calm t"
  by (induction rule: meet_step.induct) (rule server_calm writer_calm other_calm, assumption+)+

lemma calm_reached: "meet_step\<^sup>*\<^sup>* meeting_start s \<Longrightarrow> calm s"
proof (induction rule: rtranclp_induct)
  case base
  then show ?case by (simp add: calm_def in_channel_def meeting_start_def Rendezvous_open_def)
qed (rule calm_step)

fun writer_steps :: "nat \<Rightarrow> meeting \<Rightarrow> meeting option" where
  "writer_steps 0 s = Some s"
| "writer_steps (Suc n) s = (case writer_next True s of None \<Rightarrow> None | Some t \<Rightarrow> writer_steps n t)"

section \<open>Properties\<close>

text \<open>C28: A waiting client is served by the next write.  In every state that the two threads can
  reach from \<open>stream_init\<close> on, in any interleaving, with messages of other kinds and with
  writes that fail in between (but without stray wake-ups of \<open>pthread_cond_wait\<close>), a message thread that waits is released by
  the next write of the channel that succeeds: at most seven steps of the encoder, none of which
  blocks, bring the message thread to its reply, with the mutex free, the flag clear and
  the rendezvous as it was opened.  An encoder that waits is released by the next step of
  the message thread.  And some thread can always go on.\<close>

theorem next_write_serves:
  assumes "meet_step\<^sup>*\<^sup>* meeting_start s"
  shows "(me_server s = S_wait \<longrightarrow> (\<exists>n \<le> 7. writer_steps n s = Some (meeting_start\<lparr>me_server := S_lock\<rparr>)))
    \<and> (me_writer s = W_wait \<longrightarrow> (\<exists>t. server_next s = Some t \<and> me_writer t = W_clear))
    \<and> (\<exists>t. meet_step s t)"
proof (intro conjI impI)
  have c: "calm s" by (rule calm_reached [OF assms])
  obtain cnt orig ck lk sv w where s: "s = \<lparr>me_rv = \<lparr>rv_orig = orig, rv_count = cnt\<rparr>, me_check = ck, me_locked = lk, me_server = sv, me_writer = w\<rparr>"
    by (metis meeting.surjective rendezvous.surjective old.unit.exhaust)
  show "\<exists>n \<le> 7. writer_steps n s = Some (meeting_start\<lparr>me_server := S_lock\<rparr>)" if sw: "me_server s = S_wait"
  proof -
    have "w = W_idle \<or> w = W_test \<or> w = W_unlock \<or> w = W_meet" using c sw by (cases w) (auto simp: calm_def s)
    then have "writer_steps (case w of W_idle \<Rightarrow> 6 | W_test \<Rightarrow> 5 | W_meet \<Rightarrow> 4 | _ \<Rightarrow> 7) s = Some (meeting_start\<lparr>me_server := S_lock\<rparr>)"
      by (elim disjE) (use c sw in \<open>simp_all add: calm_def in_channel_def s meet_defs meeting_start_def Rendezvous_open_def numeral_eq_Suc\<close>)
    then show ?thesis by (intro exI [of _ "case w of W_idle \<Rightarrow> 6 | W_test \<Rightarrow> 5 | W_meet \<Rightarrow> 4 | _ \<Rightarrow> 7"]) (simp split: writer_pc.split)
  qed
  show "\<exists>t. server_next s = Some t \<and> me_writer t = W_clear" if "me_writer s = W_wait"
    using c that by (simp add: calm_def s meet_defs)
  show "\<exists>t. meet_step s t"
  proof (cases "server_next s")
    case None
    then have "\<exists>t. writer_next True s = Some t"
      using c by (cases w; cases sv) (auto simp: calm_def in_channel_def s meet_defs Let_def)
    then show ?thesis using writer by blast
  qed (use server in blast)
qed

fun schedule :: "bool list \<Rightarrow> meeting \<Rightarrow> meeting option" where
  "schedule [] s = Some s"
| "schedule (b # bs) s = (case (if b then server_next s else writer_next True s) of None \<Rightarrow> None | Some t \<Rightarrow> schedule bs t)"

lemma schedule_steps: "schedule bs s = Some t \<Longrightarrow> meet_step\<^sup>*\<^sup>* s t"
proof (induction bs s rule: schedule.induct)
  case (2 b bs s)
  then obtain u where u: "(if b then server_next s else writer_next True s) = Some u" "meet_step\<^sup>*\<^sup>* u t"
    by (auto split: option.splits)
  then have "meet_step s u" by (cases b) (auto intro: meet_step.intros)
  then show ?case using u(2) by (rule converse_rtranclp_into_rtranclp)
qed simp

definition one_request :: meeting where
  "one_request = meeting_start\<lparr>me_rv := \<lparr>rv_orig = 2, rv_count = 1\<rparr>, me_check := 1, me_server := S_wait\<rparr>"

lemma one_request_reached: "meet_step\<^sup>*\<^sup>* meeting_start one_request"
  by (rule schedule_steps [of "[True, True]"]) (simp add: meeting_start_def meet_defs one_request_def Rendezvous_open_def)

lemma next_write_serves_witness: "\<exists>n \<le> 7. writer_steps n one_request = Some (meeting_start\<lparr>me_server := S_lock\<rparr>)"
  using next_write_serves [OF one_request_reached] by (simp add: one_request_def)

text \<open>A request sets the flag, the encoder sees it and waits, is let through, and clears up before
  the message thread meets.\<close>

definition before_stray :: meeting where
  "before_stray = \<lparr>me_rv = \<lparr>rv_orig = 2, rv_count = 1\<rparr>, me_check = 1, me_locked = True, me_server = S_meet, me_writer = W_wait\<rparr>"

definition hung :: "writer_pc \<Rightarrow> meeting" where
  "hung w = \<lparr>me_rv = \<lparr>rv_orig = 2, rv_count = 1\<rparr>, me_check = 0, me_locked = (w \<noteq> W_idle), me_server = S_wait, me_writer = w\<rparr>"

lemma before_stray_reached: "meet_step\<^sup>*\<^sup>* meeting_start before_stray"
  by (rule schedule_steps [of "[False, True, False, False]"]) (simp add: meeting_start_def meet_defs before_stray_def Rendezvous_open_def)

lemma after_stray: "meet_step\<^sup>*\<^sup>* (before_stray\<lparr>me_writer := W_clear\<rparr>) (hung W_idle)"
  by (rule schedule_steps [of "[False, False, False, True]"]) (simp add: meet_defs before_stray_def hung_def)

lemma hung_stays: "meet_step\<^sup>*\<^sup>* (hung W_idle) t \<Longrightarrow> \<exists>w \<in> {W_idle, W_test, W_unlock}. t = hung w"
proof (induction rule: rtranclp_induct)
  case (step t u)
  then show ?case by (auto elim!: meet_step.cases simp: hung_def meet_defs split: if_splits)
qed simp

text \<open>C29: A stray wake-up can hang the message thread.  \<open>Rendezvous_meet\<close> does not wait in a loop.  There
  is a run with a single stray wake-up, of the encoder that waits for a request to arrive at
  the rendezvous, after which the message thread waits and no step of the two threads ever
  releases it, however many frames are written: the flag that makes a write meet it is
  clear.\<close>

theorem stray_wakeup_hangs:
  "\<exists>s s' t. meet_step\<^sup>*\<^sup>* meeting_start s \<and> me_writer s = W_wait \<and> stray_step s s' \<and> meet_step\<^sup>*\<^sup>* s' t \<and> me_server t = S_wait
    \<and> \<not> (\<exists>u. meet_step\<^sup>*\<^sup>* t u \<and> me_server u \<noteq> S_wait)"
proof (intro exI conjI notI)
  show "meet_step\<^sup>*\<^sup>* meeting_start before_stray" by (rule before_stray_reached)
  show w: "me_writer before_stray = W_wait" by (simp add: before_stray_def)
  show "stray_step before_stray (before_stray\<lparr>me_writer := W_clear\<rparr>)" by (rule stray_writer [OF w])
  show "meet_step\<^sup>*\<^sup>* (before_stray\<lparr>me_writer := W_clear\<rparr>) (hung W_idle)" by (rule after_stray)
  show "me_server (hung W_idle) = S_wait" by (simp add: hung_def)
  assume "\<exists>u. meet_step\<^sup>*\<^sup>* (hung W_idle) u \<and> me_server u \<noteq> S_wait"
  then obtain u where u: "meet_step\<^sup>*\<^sup>* (hung W_idle) u" "me_server u \<noteq> S_wait" by blast
  from hung_stays [OF u(1)] u(2) show False by (auto simp: hung_def)
qed

end
