(* ===== verification/Ulaw_Codec.thy ===== *)
theory Ulaw_Codec
  imports Prelude
begin

text \<open>The mu-law codec (src/app_alg_uLawCodec.c) and the functions that run it over a
  buffer (src/app_audio_EncDec.c).  Samples and buffer cells are \<open>short\<close>, words of 16
  bits; the arithmetic is C's, on promoted ints, cut down to a \<open>short\<close> where the
  code stores into one.  A right shift of an int is a division that rounds down.\<close>

unbundle bit_operations_syntax

section \<open>One sample\<close>

text \<open>Storing an int into a \<open>short\<close>.\<close>

abbreviation short :: "int \<Rightarrow> int" where
  "short n \<equiv> signed_take_bit 15 n"

text \<open>The ladders of the encoder and of the decoder: segments of growing step width.\<close>

definition ulaw_compress :: "int \<Rightarrow> int" where
  "ulaw_compress data =
    (if data \<le> 1 then data
     else if data \<le> 31 then (data - 1) div 2 + 1
     else if data \<le> 95 then (data - 31) div 4 + 16
     else if data \<le> 223 then (data - 95) div 8 + 32
     else if data \<le> 479 then (data - 223) div 16 + 48
     else if data \<le> 991 then (data - 479) div 32 + 64
     else if data \<le> 2015 then (data - 991) div 64 + 80
     else if data \<le> 4063 then (data - 2015) div 128 + 96
     else if data \<le> 7903 then (data - 4063) div 256 + 112
     else 127)"

definition ulaw_expand :: "int \<Rightarrow> int" where
  "ulaw_expand nOut =
    (if nOut < 2 then nOut * 2
     else if nOut < 16 then (nOut - 1) * 2 + 1 + 1
     else if nOut < 32 then (nOut - 16) * 4 + 2 + 31
     else if nOut < 48 then (nOut - 32) * 8 + 4 + 95
     else if nOut < 64 then (nOut - 48) * 16 + 8 + 223
     else if nOut < 80 then (nOut - 64) * 32 + 16 + 479
     else if nOut < 96 then (nOut - 80) * 64 + 32 + 991
     else if nOut < 112 then (nOut - 96) * 128 + 64 + 2015
     else (nOut - 112) * 256 + 128 + 4063)"

text \<open>The code of one sample, as the body of the encoder's loop computes it.\<close>

definition ulaw_code :: "16 word \<Rightarrow> int" where
  "ulaw_code s =
    (let data = sint s div 4;
         isNegative = data < 0;
         nOut = ulaw_compress (if isNegative then short (- data) else data)
     in if isNegative then 127 - nOut else 255 - nOut)"

definition ALG_ulawDecode :: "16 word \<Rightarrow> 16 word" where
  "ALG_ulawDecode input =
    (let isNegative = (uint input AND 128 = 0);
         nOut = short (if isNegative then 127 - uint input else 255 - uint input);
         nOut1 = short (ulaw_expand nOut);
         nOut2 = short (if isNegative then - nOut1 else nOut1)
     in word_of_int (nOut2 * 4))"

section \<open>A buffer\<close>

text \<open>The loop counter is an \<open>unsigned short\<close> and the bound an int, so that the loop
  need not end: its value is then None.  Two codes share a cell of the output, the
  first one in the low byte.\<close>

partial_function (option) ulaw_loop :: "16 word \<Rightarrow> bool \<Rightarrow> int \<Rightarrow> 16 word list \<Rightarrow> 16 word list
    \<Rightarrow> 16 word list option" where
  "ulaw_loop i lowByte outputSize src dst =
    (if uint i < outputSize then
       let nOut = ulaw_code (src ! unat i); k = unat i div 2;
           cell = (if lowByte then word_of_int (nOut AND 0x00FF)
                   else dst ! k OR word_of_int (push_bit 8 nOut AND 0xFF00))
       in ulaw_loop (i + 1) (\<not> lowByte) outputSize src (dst[k := cell])
     else Some dst)"

definition ALG_ulawEncode :: "16 word list \<Rightarrow> 16 word list \<Rightarrow> int \<Rightarrow> (int \<times> 16 word list) option" where
  "ALG_ulawEncode dst src bufsize =
    (let outputSize = (if bufsize < 0 then - (- bufsize div 2) else bufsize div 2)
     in map_option (\<lambda>dst'. (outputSize, dst')) (ulaw_loop 0 True outputSize src dst))"

text \<open>Both \<open>switch\<close> statements select on a comparison and their default case is the
  codec, so that the codec number has no influence.\<close>

definition AUDIO_audioEncode :: "int \<Rightarrow> 16 word list \<Rightarrow> 16 word list \<Rightarrow> int \<Rightarrow> (int \<times> 16 word list) option" where
  "AUDIO_audioEncode AudioCodecId dst src bufsize = ALG_ulawEncode dst src bufsize"

definition AUDIO_audioDecode :: "int \<Rightarrow> 8 word list \<Rightarrow> 16 word list \<Rightarrow> int \<Rightarrow> int \<times> 16 word list" where
  "AUDIO_audioDecode AudioCodecId pIndata pOutdata inBufSize =
    (1, fold (\<lambda>i out. out[i := ALG_ulawDecode (ucast (pIndata ! i))]) [0..<nat inBufSize] pOutdata)"

text \<open>The global switch of the codec.\<close>

definition Audio_G711codecEnable :: "8 word \<Rightarrow> 8 word" where
  "Audio_G711codecEnable audioG711codec = 1"

definition Audio_G711codecDisable :: "8 word \<Rightarrow> 8 word" where
  "Audio_G711codecDisable audioG711codec = 0"

section \<open>Codes\<close>

lemma sint_short_range: "- 32768 \<le> sint (s :: 16 word)" "sint (s :: 16 word) < 32768"
  using sint_greater_eq [of s] sint_less [of s] by simp_all

lemma compress_range:
  assumes "0 \<le> d"
  shows "0 \<le> ulaw_compress d" "ulaw_compress d \<le> 127"
  using assms unfolding ulaw_compress_def by (auto split: if_splits)

lemma short_self: "- 32768 \<le> n \<Longrightarrow> n < 32768 \<Longrightarrow> short n = n"
  by (rule signed_take_bit_int_eq_self) simp_all

text \<open>The magnitude that is compressed, without the intermediate \<open>short\<close>.\<close>

lemma ulaw_code_eq:
  "ulaw_code s = (if sint s div 4 < 0 then 127 - ulaw_compress (- (sint s div 4)) else 255 - ulaw_compress (sint s div 4))"
proof -
  have "- 32768 \<le> - (sint s div 4)" "- (sint s div 4) < 32768" using sint_short_range [of s] by linarith+
  then show ?thesis by (simp add: ulaw_code_def Let_def short_self)
qed

lemma ulaw_code_range: "0 \<le> ulaw_code s" "ulaw_code s < 256"
  using compress_range [of "- (sint s div 4)"] compress_range [of "sint s div 4"] by (auto simp: ulaw_code_eq)

text \<open>On a byte the decoder's arithmetic stays within a \<open>short\<close>.\<close>

lemma sign_bit:
  assumes "0 \<le> c" "c < (256 :: int)"
  shows "c AND 128 = 0 \<longleftrightarrow> c < 128"
proof -
  have "c AND 2 ^ 7 = 0 \<longleftrightarrow> even (c div 2 ^ 7)" by (simp only: and_exp_eq_0_iff_not_bit bit_iff_odd) simp
  moreover have "c div 128 = (if c < 128 then 0 else 1)" using assms by auto
  ultimately show ?thesis by simp
qed

lemma expand_range:
  assumes "0 \<le> n" "n \<le> 127"
  shows "0 \<le> ulaw_expand n" "ulaw_expand n \<le> 8031"
  using assms unfolding ulaw_expand_def by (auto split: if_splits)

lemma decode_byte:
  assumes "0 \<le> c" "c < 256"
  shows "sint (ALG_ulawDecode (word_of_int c)) =
    (if c < 128 then - 4 * ulaw_expand (127 - c) else 4 * ulaw_expand (255 - c))"
proof -
  have u: "uint (word_of_int c :: 16 word) = c" using assms by (simp add: uint_word_of_int)
  have s: "sint (word_of_int n :: 16 word) = n" if "- 32768 \<le> n" "n < 32768" for n
    using that by (simp add: sint_sbintrunc' short_self)
  show ?thesis
  proof (cases "c < 128")
    case True
    note r = expand_range [of "127 - c"]
    have "ALG_ulawDecode (word_of_int c) = word_of_int (- 4 * ulaw_expand (127 - c))"
      using True r assms by (simp add: ALG_ulawDecode_def Let_def u sign_bit short_self)
    moreover have "sint (word_of_int (- 4 * ulaw_expand (127 - c)) :: 16 word) = - 4 * ulaw_expand (127 - c)"
      by (rule s) (use True r assms in linarith)+
    ultimately show ?thesis by (simp only: True if_True)
  next
    case False
    note r = expand_range [of "255 - c"]
    have "ALG_ulawDecode (word_of_int c) = word_of_int (4 * ulaw_expand (255 - c))"
      using False r assms by (simp add: ALG_ulawDecode_def Let_def u sign_bit short_self)
    moreover have "sint (word_of_int (4 * ulaw_expand (255 - c)) :: 16 word) = 4 * ulaw_expand (255 - c)"
      by (rule s) (use False r assms in linarith)+
    ultimately show ?thesis by (simp only: False if_False)
  qed
qed

section \<open>Accuracy\<close>

text \<open>Expanding a compressed magnitude meets it within the step of its segment.\<close>

lemma step_div: "0 < w \<Longrightarrow> w * (e div w) \<le> e \<and> e < w * (e div w) + (w :: int)"
  using mult_div_mod_eq [of w e] pos_mod_bound [of w e] pos_mod_sign [of w e] by linarith

lemma expand_segments:
  assumes "0 \<le> q" "q \<le> 15"
  shows "ulaw_expand (q + 1) = q * 2 + 2 + (if q = 15 then 1 else 0)" "ulaw_expand (q + 16) = q * 4 + 33" "ulaw_expand (q + 32) = q * 8 + 99"
    "ulaw_expand (q + 48) = q * 16 + 231" "ulaw_expand (q + 64) = q * 32 + 495" "ulaw_expand (q + 80) = q * 64 + 1023"
    "ulaw_expand (q + 96) = q * 128 + 2079" "ulaw_expand (q + 112) = q * 256 + 4191"
  using assms unfolding ulaw_expand_def by auto

text \<open>The last magnitude of a segment already gets the first code of the next one.\<close>

lemma expand_last:
  "ulaw_expand 32 = 99" "ulaw_expand 48 = 231" "ulaw_expand 64 = 495" "ulaw_expand 80 = 1023" "ulaw_expand 96 = 2079"
  "ulaw_expand 112 = 4191" "ulaw_expand 127 = 8031"
  by (simp_all add: ulaw_expand_def)

lemma compress_segments:
  "d = 0 \<or> d = 1 \<Longrightarrow> ulaw_compress d = d" "1 < d \<Longrightarrow> d \<le> 31 \<Longrightarrow> ulaw_compress d = (d - 1) div 2 + 1"
  "31 < d \<Longrightarrow> d \<le> 95 \<Longrightarrow> ulaw_compress d = (d - 31) div 4 + 16"
  "95 < d \<Longrightarrow> d \<le> 223 \<Longrightarrow> ulaw_compress d = (d - 95) div 8 + 32"
  "223 < d \<Longrightarrow> d \<le> 479 \<Longrightarrow> ulaw_compress d = (d - 223) div 16 + 48"
  "479 < d \<Longrightarrow> d \<le> 991 \<Longrightarrow> ulaw_compress d = (d - 479) div 32 + 64"
  "991 < d \<Longrightarrow> d \<le> 2015 \<Longrightarrow> ulaw_compress d = (d - 991) div 64 + 80"
  "2015 < d \<Longrightarrow> d \<le> 4063 \<Longrightarrow> ulaw_compress d = (d - 2015) div 128 + 96"
  "4063 < d \<Longrightarrow> d \<le> 7903 \<Longrightarrow> ulaw_compress d = (d - 4063) div 256 + 112"
  "7903 < d \<Longrightarrow> ulaw_compress d = 127"
  unfolding ulaw_compress_def by auto

lemma expand_compress:
  assumes "0 \<le> d" "d \<le> 8192"
  shows "64 * ulaw_expand (ulaw_compress d) \<le> 68 * d + 60" "60 * d \<le> 64 * ulaw_expand (ulaw_compress d)"
proof -
  note seg = expand_segments expand_last compress_segments
  consider "d = 0 \<or> d = 1" | "1 < d" "d \<le> 31" | "31 < d" "d \<le> 95" | "95 < d" "d \<le> 223" | "223 < d" "d \<le> 479"
    | "479 < d" "d \<le> 991" | "991 < d" "d \<le> 2015" | "2015 < d" "d \<le> 4063" | "4063 < d" "d \<le> 7903" | "7903 < d"
    using assms(1) by linarith
  then have "64 * ulaw_expand (ulaw_compress d) \<le> 68 * d + 60 \<and> 60 * d \<le> 64 * ulaw_expand (ulaw_compress d)"
  proof cases
    case 1 then show ?thesis by (auto simp: seg ulaw_expand_def)
  next
    case 2
    from step_div [of 2 "d - 1"] 2 have "0 \<le> (d - 1) div 2" "(d - 1) div 2 \<le> 15" by linarith+
    then show ?thesis using step_div [of 2 "d - 1"] 2 by (simp add: seg)
  next
    case 3
    note s = step_div [of 4 "d - 31", simplified]
    from s 3 have "0 \<le> (d - 31) div 4" "(d - 31) div 4 \<le> 15 \<or> (d - 31) div 4 = 16" by linarith+
    then show ?thesis using s 3 by (auto simp: seg)
  next
    case 4
    note s = step_div [of 8 "d - 95", simplified]
    from s 4 have "0 \<le> (d - 95) div 8" "(d - 95) div 8 \<le> 15 \<or> (d - 95) div 8 = 16" by linarith+
    then show ?thesis using s 4 by (auto simp: seg)
  next
    case 5
    note s = step_div [of 16 "d - 223", simplified]
    from s 5 have "0 \<le> (d - 223) div 16" "(d - 223) div 16 \<le> 15 \<or> (d - 223) div 16 = 16" by linarith+
    then show ?thesis using s 5 by (auto simp: seg)
  next
    case 6
    note s = step_div [of 32 "d - 479", simplified]
    from s 6 have "0 \<le> (d - 479) div 32" "(d - 479) div 32 \<le> 15 \<or> (d - 479) div 32 = 16" by linarith+
    then show ?thesis using s 6 by (auto simp: seg)
  next
    case 7
    note s = step_div [of 64 "d - 991", simplified]
    from s 7 have "0 \<le> (d - 991) div 64" "(d - 991) div 64 \<le> 15 \<or> (d - 991) div 64 = 16" by linarith+
    then show ?thesis using s 7 by (auto simp: seg)
  next
    case 8
    note s = step_div [of 128 "d - 2015", simplified]
    from s 8 have "0 \<le> (d - 2015) div 128" "(d - 2015) div 128 \<le> 15 \<or> (d - 2015) div 128 = 16" by linarith+
    then show ?thesis using s 8 by (auto simp: seg)
  next
    case 9
    note s = step_div [of 256 "d - 4063", simplified]
    from s 9 have "0 \<le> (d - 4063) div 256" "(d - 4063) div 256 \<le> 15" by linarith+
    then show ?thesis using s 9 by (auto simp: seg)
  next
    case 10 then show ?thesis using assms(2) by (auto simp: seg)
  qed
  then show "64 * ulaw_expand (ulaw_compress d) \<le> 68 * d + 60" "60 * d \<le> 64 * ulaw_expand (ulaw_compress d)" by simp_all
qed

text \<open>Compressing an expanded code gives the code.\<close>

lemma compress_expand:
  assumes "0 \<le> n" "n \<le> 127"
  shows "ulaw_compress (ulaw_expand n) = n"
proof -
  have "list_all (\<lambda>n. ulaw_compress (ulaw_expand n) = n) [0..127]" by code_simp
  then show ?thesis using assms by (simp only: list_all_iff set_upto) simp
qed

lemma within_step:
  fixes m d e :: int
  assumes "64 * e \<le> 68 * d + 60" "60 * d \<le> 64 * e" "4 * d - 3 \<le> m" "m \<le> 4 * d + 3"
  shows "16 * \<bar>4 * e - m\<bar> \<le> m + 111"
proof -
  have "68 * d - 51 \<le> 17 * m" "15 * m \<le> 60 * d + 45" using assms(3,4) by simp_all
  with assms(1,2) show ?thesis by (simp add: abs_if)
qed

section \<open>The loop of the encoder\<close>

text \<open>Byte \<open>j\<close> of a buffer of shorts, as little endian memory holds it.\<close>

definition byte_at :: "16 word list \<Rightarrow> nat \<Rightarrow> 8 word" where
  "byte_at ws j = (if even j then ucast (ws ! (j div 2)) else ucast (drop_bit 8 (ws ! (j div 2))))"

lemma low_cell:
  "(ucast (word_of_int (c AND 0x00FF) :: 16 word) :: 8 word) = word_of_int c"
  "(ucast (drop_bit 8 (word_of_int (c AND 0x00FF) :: 16 word)) :: 8 word) = 0"
proof -
  have m: "c AND 0x00FF = take_bit 8 c" by (simp add: take_bit_eq_mask mask_numeral)
  show "(ucast (word_of_int (c AND 0x00FF) :: 16 word) :: 8 word) = word_of_int c"
    unfolding m by (rule bit_word_eqI) (auto simp: bit_simps)
  show "(ucast (drop_bit 8 (word_of_int (c AND 0x00FF) :: 16 word)) :: 8 word) = 0"
    unfolding m by (rule bit_word_eqI) (auto simp: bit_simps)
qed

lemma high_cell:
  "(ucast (x OR word_of_int (push_bit 8 c AND 0xFF00) :: 16 word) :: 8 word) = ucast x"
  "(ucast (drop_bit 8 x) :: 8 word) = 0 \<Longrightarrow>
     (ucast (drop_bit 8 (x OR word_of_int (push_bit 8 c AND 0xFF00) :: 16 word)) :: 8 word) = word_of_int c"
proof -
  have "push_bit 8 c AND 0xFF00 = push_bit 8 c AND push_bit 8 0xFF" by simp
  also have "\<dots> = push_bit 8 (c AND 0xFF)" by (simp only: push_bit_and)
  finally have m: "push_bit 8 c AND 0xFF00 = push_bit 8 (take_bit 8 c)" by (simp add: take_bit_eq_mask mask_numeral)
  show "(ucast (x OR word_of_int (push_bit 8 c AND 0xFF00) :: 16 word) :: 8 word) = ucast x"
    unfolding m by (rule bit_word_eqI) (auto simp: bit_simps)
  assume z: "(ucast (drop_bit 8 x) :: 8 word) = 0"
  have "\<not> bit x (8 + n)" if "n < 8" for n
  proof -
    have "bit (ucast (drop_bit 8 x) :: 8 word) n = bit x (8 + n)" using that by (simp add: bit_simps)
    with z show ?thesis by simp
  qed
  then show "(ucast (drop_bit 8 (x OR word_of_int (push_bit 8 c AND 0xFF00) :: 16 word)) :: 8 word) = word_of_int c"
    unfolding m by (intro bit_word_eqI) (auto simp: bit_simps)
qed

text \<open>After \<open>m\<close> rounds: the bytes written, the high byte that the next round fills,
  the cells not reached.\<close>

definition encoded :: "16 word list \<Rightarrow> 16 word list \<Rightarrow> nat \<Rightarrow> 16 word list \<Rightarrow> bool" where
  "encoded src dst0 m dst \<longleftrightarrow> length dst = length dst0
     \<and> (\<forall>j < m. byte_at dst j = word_of_int (ulaw_code (src ! j)))
     \<and> (odd m \<longrightarrow> byte_at dst m = 0)
     \<and> (\<forall>k. (m + 1) div 2 \<le> k \<longrightarrow> dst ! k = dst0 ! k)"

definition next_cell :: "nat \<Rightarrow> int \<Rightarrow> 16 word list \<Rightarrow> 16 word" where
  "next_cell m c dst = (if even m then word_of_int (c AND 0x00FF)
     else dst ! (m div 2) OR word_of_int (push_bit 8 c AND 0xFF00))"

lemma byte_at_update_other: "j div 2 \<noteq> k \<Longrightarrow> byte_at (dst[k := x]) j = byte_at dst j"
  by (simp add: byte_at_def)

lemma encoded_step:
  assumes "encoded src dst0 m dst" "m div 2 < length dst0"
  shows "encoded src dst0 (Suc m) (dst[m div 2 := next_cell m (ulaw_code (src ! m)) dst])"
proof (cases "even m")
  case True
  then obtain k where m: "m = 2 * k" by (rule evenE)
  let ?d = "dst[k := word_of_int (ulaw_code (src ! m) AND 0x00FF)]"
  have k: "k < length dst" using assms m by (simp add: encoded_def)
  have "byte_at ?d j = word_of_int (ulaw_code (src ! j))" if "j < Suc m" for j
  proof (cases "j = m")
    case True
    then show ?thesis using m k by (simp add: byte_at_def low_cell)
  next
    case False
    then have "j < m" "j div 2 \<noteq> k" using that m by auto
    then show ?thesis using assms(1) by (simp add: byte_at_update_other encoded_def)
  qed
  moreover have "byte_at ?d (Suc m) = 0" using m k by (simp add: byte_at_def low_cell)
  moreover have "?d ! i = dst0 ! i" if "(Suc m + 1) div 2 \<le> i" for i
    using that m assms(1) by (simp add: encoded_def)
  ultimately show ?thesis using True m assms(1) by (simp add: encoded_def next_cell_def)
next
  case False
  then obtain k where m: "m = 2 * k + 1" by (rule oddE)
  let ?d = "dst[k := dst ! k OR word_of_int (push_bit 8 (ulaw_code (src ! m)) AND 0xFF00)]"
  have k: "k < length dst" using assms m by (simp add: encoded_def)
  have z: "(ucast (drop_bit 8 (dst ! k)) :: 8 word) = 0"
    using assms(1) m by (auto simp: encoded_def byte_at_def)
  have "byte_at ?d j = word_of_int (ulaw_code (src ! j))" if "j < Suc m" for j
  proof -
    have "j = m \<or> j = 2 * k \<or> (j < m \<and> j div 2 \<noteq> k)" using that m by presburger
    then consider "j = m" | "j = 2 * k" | "j < m" "j div 2 \<noteq> k" by blast
    then show ?thesis
    proof cases
      case 1 then show ?thesis using m k high_cell(2) [OF z, of "ulaw_code (src ! m)"] by (simp add: byte_at_def)
    next
      case 2
      have "byte_at dst (2 * k) = word_of_int (ulaw_code (src ! (2 * k)))" using assms(1) m by (simp add: encoded_def)
      then show ?thesis using 2 k by (simp add: byte_at_def high_cell)
    next
      case 3 then show ?thesis using assms(1) by (simp add: byte_at_update_other encoded_def)
    qed
  qed
  moreover have "?d ! i = dst0 ! i" if "(Suc m + 1) div 2 \<le> i" for i
    using that m assms(1) by (simp add: encoded_def)
  ultimately show ?thesis using False m assms(1) by (simp add: encoded_def next_cell_def)
qed

lemma ulaw_loop_ok:
  assumes "uint i = int m" "m \<le> n" "n \<le> 65535" "(n + 1) div 2 \<le> length dst0" "encoded src dst0 m dst"
  shows "\<exists>dst'. ulaw_loop i (even m) (int n) src dst = Some dst' \<and> encoded src dst0 n dst'"
  using assms
proof (induction "n - m" arbitrary: i m dst)
  case 0
  then show ?case by (simp add: ulaw_loop.simps)
next
  case (Suc d)
  have "m < n" "d = n - Suc m" using Suc.hyps(2) by simp_all
  then have nxt: "uint (i + 1) = int (Suc m)" using Suc.prems(1,3) by (simp add: uint_word_ariths)
  have un: "unat i = m" using Suc.prems(1) by (simp add: unat_eq_nat_uint)
  have "m div 2 < length dst0" using \<open>m < n\<close> Suc.prems(4) by linarith
  from Suc.hyps(1) [OF _ nxt _ Suc.prems(3,4) encoded_step [OF Suc.prems(5) this]] \<open>m < n\<close> \<open>d = n - Suc m\<close> obtain dst' where
    "ulaw_loop (i + 1) (even (Suc m)) (int n) src (dst[m div 2 := next_cell m (ulaw_code (src ! m)) dst]) = Some dst'"
    "encoded src dst0 n dst'" by auto
  then show ?case using \<open>m < n\<close> Suc.prems(1)
    by (subst ulaw_loop.simps) (auto simp: un Let_def next_cell_def)
qed

section \<open>The loop that does not end\<close>

lemma ulaw_loop_hangs:
  assumes "65536 \<le> n"
  shows "ulaw_loop i b n src dst = None"
proof -
  have "n < 65536" if "ulaw_loop i b n src dst = Some y" for y
  proof (rule ulaw_loop.raw_induct [where P = "\<lambda>i b n src dst y. n < 65536", OF _ that])
    fix wl b n src dst y and i :: "16 word"
    assume IH: "\<And>i b n src dst y. wl i b n src dst = Some y \<Longrightarrow> n < 65536"
      and run: "(if uint i < n then
          let nOut = ulaw_code (src ! unat i); k = unat i div 2;
            cell = if b then word_of_int (nOut AND 0x00FF) else dst ! k OR word_of_int (push_bit 8 nOut AND 0xFF00)
          in wl (i + 1) (\<not> b) n src (dst[k := cell])
        else Some dst) = Some y"
    show "n < 65536"
    proof (cases "uint i < n")
      case True
      then show ?thesis using run IH by (auto simp: Let_def)
    next
      case False
      then show ?thesis using uint_bounded [of i] by simp
    qed
  qed
  with assms show ?thesis by (cases "ulaw_loop i b n src dst") auto
qed

lemma within_bound:
  "16 * \<bar>sint (ALG_ulawDecode (word_of_int (ulaw_code s))) - sint s\<bar> \<le> \<bar>sint s\<bar> + 111"
proof -
  let ?neg = "sint s div 4 < 0"
  define d where "d = \<bar>sint s div 4\<bar>"
  have d: "0 \<le> d" "d \<le> 8192" "4 * d - 3 \<le> \<bar>sint s\<bar>" "\<bar>sint s\<bar> \<le> 4 * d + 3"
    using sint_short_range [of s] unfolding d_def by linarith+
  have n: "0 \<le> ulaw_compress d" "ulaw_compress d \<le> 127" using compress_range [OF d(1)] by simp_all
  have "sint (ALG_ulawDecode (word_of_int (ulaw_code s))) = (if ?neg then - 1 else 1) * (4 * ulaw_expand (ulaw_compress d))"
    using n decode_byte [of "127 - ulaw_compress d"] decode_byte [of "255 - ulaw_compress d"]
    by (cases ?neg) (simp_all add: ulaw_code_eq d_def)
  moreover have "sint s = (if ?neg then - 1 else 1) * \<bar>sint s\<bar>" by simp
  ultimately have "\<bar>sint (ALG_ulawDecode (word_of_int (ulaw_code s))) - sint s\<bar> = \<bar>4 * ulaw_expand (ulaw_compress d) - \<bar>sint s\<bar>\<bar>"
    by (simp split: if_splits)
  then show ?thesis using within_step [OF expand_compress [OF d(1,2)] d(3,4)] by simp
qed

lemma encode_is_map_aux:
  assumes "n \<le> 65535" "(n + 1) div 2 \<le> length dst"
  shows "\<exists>dst'. ALG_ulawEncode dst src (2 * int n) = Some (int n, dst') \<and> encoded src dst n dst'"
proof -
  have "uint (0 :: 16 word) = int 0" "encoded src dst 0 dst" by (simp_all add: encoded_def)
  from ulaw_loop_ok [OF this(1) _ assms this(2)] show ?thesis by (auto simp: ALG_ulawEncode_def)
qed

section \<open>Properties\<close>

text \<open>C33: The codec loses little.  Decoding the code of any sample meets the sample
  within 7 units and a sixteenth of its magnitude.\<close>

theorem ulaw_error_bound:
  "16 * \<bar>sint (ALG_ulawDecode (word_of_int (ulaw_code s))) - sint s\<bar> \<le> \<bar>sint s\<bar> + 111"
  by (rule within_bound)

text \<open>Decoding is exact on codes: encoding a decoded byte gives the byte back,
  except for the negative zero (127), which comes back as the positive one (255).\<close>

theorem ulaw_code_roundtrip:
  "\<forall>c \<in> {0..255}. ulaw_code (ALG_ulawDecode (word_of_int c)) = (if c = 127 then 255 else c)"
proof
  fix c :: int assume "c \<in> {0..255}"
  then have c: "0 \<le> c" "c < 256" by simp_all
  show "ulaw_code (ALG_ulawDecode (word_of_int c)) = (if c = 127 then 255 else c)"
  proof (cases "c < 128")
    case True
    have dec: "sint (ALG_ulawDecode (word_of_int c)) = (- ulaw_expand (127 - c)) * 4"
      using c True by (simp add: decode_byte)
    show ?thesis
    proof (cases "c = 127")
      case True
      then show ?thesis using dec by (simp add: ulaw_code_eq ulaw_expand_def ulaw_compress_def)
    next
      case False
      then have "0 < ulaw_expand (127 - c)" using True unfolding ulaw_expand_def by auto
      moreover have "sint (ALG_ulawDecode (word_of_int c)) div 4 = - ulaw_expand (127 - c)"
        unfolding dec by (rule nonzero_mult_div_cancel_right) simp
      ultimately show ?thesis using False True c compress_expand [of "127 - c"] by (simp add: ulaw_code_eq)
    qed
  next
    case False
    then show ?thesis
      using c compress_expand [of "255 - c"] expand_range [of "255 - c"] by (auto simp: ulaw_code_eq decode_byte)
  qed
qed

lemma ulaw_code_roundtrip_witness:
  "ulaw_code (ALG_ulawDecode (word_of_int 42)) = 42"
  using bspec [OF ulaw_code_roundtrip, of 42] by simp

text \<open>The encoder is the map of \<open>ulaw_code\<close> over the samples.  For up to 65535
  samples, and an output of at least half as many cells, it returns the number of
  samples; that many bytes of the output are the codes in order, and the cells
  behind them are untouched.\<close>

theorem encode_is_map:
  assumes "n \<le> 65535" "(n + 1) div 2 \<le> length dst"
  shows "\<exists>dst'. ALG_ulawEncode dst src (2 * int n) = Some (int n, dst') \<and> length dst' = length dst
    \<and> map (byte_at dst') [0..<n] = map (\<lambda>j. word_of_int (ulaw_code (src ! j))) [0..<n]
    \<and> drop ((n + 1) div 2) dst' = drop ((n + 1) div 2) dst"
proof -
  from encode_is_map_aux [OF assms, of src] obtain dst' where
    run: "ALG_ulawEncode dst src (2 * int n) = Some (int n, dst')" and enc: "encoded src dst n dst'" by blast
  have "drop ((n + 1) div 2) dst' = drop ((n + 1) div 2) dst"
    using enc by (auto simp: encoded_def intro!: nth_equalityI)
  with run enc show ?thesis by (simp add: encoded_def)
qed

lemma encode_is_map_witness:
  "\<exists>dst'. ALG_ulawEncode [0, 0] [8, - 1, 32767] 6 = Some (3, dst')
    \<and> map (byte_at dst') [0..<3] = map (\<lambda>j. word_of_int (ulaw_code ([8, - 1, 32767] ! j))) [0..<3]"
  using encode_is_map [of 3 "[0, 0]" "[8, - 1, 32767]"] by auto

text \<open>From 65536 samples on (a buffer of 131072 bytes) the encoder never returns:
  its counter is an \<open>unsigned short\<close> and wraps before it reaches the bound.\<close>

theorem encode_hangs:
  assumes "131072 \<le> bufsize"
  shows "AUDIO_audioEncode codec dst src bufsize = None"
  using assms ulaw_loop_hangs [of "bufsize div 2"] by (simp add: AUDIO_audioEncode_def ALG_ulawEncode_def)

lemma encode_hangs_witness: "AUDIO_audioEncode 1 [] [] 131072 = None"
  by (rule encode_hangs) simp

lemma decode_loop:
  assumes "n \<le> length out" "n \<le> length xs"
  shows "fold (\<lambda>i out. out[i := ALG_ulawDecode (ucast (xs ! i))]) [0..<n] out
    = map (\<lambda>x. ALG_ulawDecode (ucast x)) (take n xs) @ drop n out"
  using assms
proof (induction n)
  case (Suc n)
  then show ?case
    by (simp add: take_Suc_conv_app_nth list_update_append Cons_nth_drop_Suc [symmetric])
qed simp

text \<open>C32: Sound survives the way through a recording.  Samples encoded by
  \<open>AUDIO_audioEncode\<close>, stored as that many bytes and decoded by \<open>AUDIO_audioDecode\<close>
  come back in order, each within 7 units and a sixteenth of its magnitude,
  whatever codec numbers the two calls are given.\<close>

theorem audio_roundtrip:
  assumes "n \<le> 65535" "(n + 1) div 2 \<le> length dst" "n \<le> length out"
  shows "\<exists>dst' out'. AUDIO_audioEncode codec dst src (2 * int n) = Some (int n, dst')
    \<and> AUDIO_audioDecode codec' (map (byte_at dst') [0..<n]) out (int n) = (1, out')
    \<and> length out' = length out
    \<and> (\<forall>i < n. 16 * \<bar>sint (out' ! i) - sint (src ! i)\<bar> \<le> \<bar>sint (src ! i)\<bar> + 111)"
proof -
  from encode_is_map_aux [OF assms(1,2), of src] obtain dst' where
    enc: "ALG_ulawEncode dst src (2 * int n) = Some (int n, dst')" "encoded src dst n dst'" by blast
  let ?out = "map (\<lambda>x. ALG_ulawDecode (ucast x)) (map (byte_at dst') [0..<n]) @ drop n out"
  have "AUDIO_audioDecode codec' (map (byte_at dst') [0..<n]) out (int n) = (1, ?out)"
    using assms(3) decode_loop [of n out "map (byte_at dst') [0..<n]"] by (simp add: AUDIO_audioDecode_def)
  moreover have "16 * \<bar>sint (?out ! i) - sint (src ! i)\<bar> \<le> \<bar>sint (src ! i)\<bar> + 111" if "i < n" for i
  proof -
    have "?out ! i = ALG_ulawDecode (ucast (word_of_int (ulaw_code (src ! i)) :: 8 word))"
      using enc(2) that by (simp add: nth_append encoded_def)
    also have "(ucast (word_of_int (ulaw_code (src ! i)) :: 8 word) :: 16 word) = word_of_int (ulaw_code (src ! i))"
      using ulaw_code_range [of "src ! i"] by (simp add: unsigned_of_int take_bit_int_eq_self)
    finally show ?thesis using within_bound [of "src ! i"] by simp
  qed
  ultimately show ?thesis using enc(1) assms(3) by (auto simp: AUDIO_audioEncode_def)
qed

lemma audio_roundtrip_witness:
  "\<exists>dst' out'. AUDIO_audioEncode 1 [0] [1000, - 20000] 4 = Some (2, dst')
    \<and> AUDIO_audioDecode 1 (map (byte_at dst') [0..<2]) [0, 0] 2 = (1, out')
    \<and> 16 * \<bar>sint (out' ! 1) - sint ([1000, - 20000 :: 16 word] ! 1)\<bar> \<le> \<bar>sint ([1000, - 20000 :: 16 word] ! 1)\<bar> + 111"
proof -
  obtain dst' out' where "AUDIO_audioEncode 1 [0] [1000, - 20000] 4 = Some (2, dst')"
    "AUDIO_audioDecode 1 (map (byte_at dst') [0..<2]) [0, 0] 2 = (1, out')"
    "\<forall>i < 2. 16 * \<bar>sint (out' ! i) - sint ([1000, - 20000 :: 16 word] ! i)\<bar> \<le> \<bar>sint ([1000, - 20000 :: 16 word] ! i)\<bar> + 111"
    using audio_roundtrip [of 2 "[0]" "[0, 0]" 1 "[1000, - 20000]" 1] by auto
  then show ?thesis by (metis one_less_numeral_iff semiring_norm(76))
qed

end
