(* ===== verification/Rsa_Math.thy ===== *)
theory Rsa_Math
  imports Complex_Main
begin

text \<open>The arithmetic behind the key exchange of src/encrypt__sock.c: Fermat's little
  theorem by the binomial formula, and the identity of RSA for two primes.\<close>

section \<open>Primes\<close>

definition is_prime :: "nat \<Rightarrow> bool" where
  "is_prime p \<longleftrightarrow> 1 < p \<and> (\<forall>m. m dvd p \<longrightarrow> m = 1 \<or> m = p)"

lemma is_prime_coprime:
  assumes "is_prime p" "\<not> p dvd x"
  shows "coprime x p"
proof -
  have "gcd x p = 1 \<or> gcd x p = p" using assms(1) by (simp add: is_prime_def)
  moreover have "gcd x p \<noteq> p" using assms(2) by (metis gcd_dvd1)
  ultimately show ?thesis by (simp add: coprime_iff_gcd_eq_1)
qed

lemma primes_coprime:
  assumes "is_prime p" "is_prime q" "p \<noteq> q"
  shows "coprime p q"
proof (rule is_prime_coprime [OF assms(2)])
  show "\<not> q dvd p" using assms by (auto simp: is_prime_def)
qed

text \<open>Trial division up to the square root is enough.\<close>

lemma is_prime_trial:
  assumes "1 < p" "p < b * b" "\<forall>m \<in> set [2..<b]. m < p \<longrightarrow> p mod m \<noteq> 0"
  shows "is_prime p"
  unfolding is_prime_def
proof (intro conjI allI impI)
  fix m assume m: "m dvd p"
  show "m = 1 \<or> m = p"
  proof (rule ccontr)
    assume not: "\<not> (m = 1 \<or> m = p)"
    obtain k where k: "p = m * k" using m by (rule dvdE)
    have "k \<noteq> 0" "m \<noteq> 0" using k assms(1) by (auto intro: gr0I)
    moreover have "k \<noteq> 1" using k not by auto
    ultimately have two: "2 \<le> m" "2 \<le> k" using not by auto
    have "m * 2 \<le> p" "2 * k \<le> p" unfolding k using two by (auto intro: mult_le_mono)
    with two have "2 \<le> m" "m < p" "2 \<le> k" "k < p" by linarith+
    moreover have "m < b \<or> k < b"
    proof (rule ccontr)
      assume "\<not> (m < b \<or> k < b)"
      then have "b * b \<le> m * k" by (intro mult_le_mono) simp_all
      with k assms(2) show False by simp
    qed
    moreover have "p mod m = 0" "p mod k = 0" unfolding k by simp_all
    ultimately show False using assms(3) by (metis atLeastLessThan_iff set_upt)
  qed
qed (rule assms(1))

section \<open>Fermat\<close>

lemma prime_dvd_binomial:
  assumes "is_prime p" "0 < k" "k < p"
  shows "p dvd (p choose k)"
proof -
  have "\<not> p dvd k" using assms(2,3) by (auto dest: dvd_imp_le)
  then have "coprime k p" by (rule is_prime_coprime [OF assms(1)])
  moreover have "p dvd k * (p choose k)" by (simp add: times_binomial_minus1_eq [OF assms(2)])
  ultimately show ?thesis by (simp add: coprime_dvd_mult_right_iff coprime_commute)
qed

lemma power_Suc_mod_prime:
  assumes "is_prime p"
  shows "(x + 1) ^ p mod p = (x ^ p + 1) mod p"
proof -
  have p: "0 < p" using assms by (simp add: is_prime_def)
  have "(x + 1) ^ p = (\<Sum>k\<le>p. (p choose k) * x ^ k)"
    using binomial [of x 1 p] by simp
  also have "{..p} = insert 0 (insert p {1..<p})" using p by auto
  also have "(\<Sum>k \<in> insert 0 (insert p {1..<p}). (p choose k) * x ^ k) = 1 + (x ^ p + (\<Sum>k = 1..<p. (p choose k) * x ^ k))"
    using p by simp
  also have "\<dots> mod p = (x ^ p + 1) mod p"
  proof -
    have "p dvd (\<Sum>k = 1..<p. (p choose k) * x ^ k)"
      by (rule dvd_sum) (simp add: dvd_mult2 prime_dvd_binomial [OF assms])
    then obtain s where "(\<Sum>k = 1..<p. (p choose k) * x ^ k) = p * s" by (rule dvdE)
    then show ?thesis by (simp add: add.assoc [symmetric] add.commute)
  qed
  finally show ?thesis .
qed

lemma fermat:
  assumes "is_prime p"
  shows "x ^ p mod p = x mod p"
proof (induction x)
  case 0
  then show ?case using assms by (simp add: is_prime_def power_0_left)
next
  case (Suc x)
  have "(x + 1) ^ p mod p = (x ^ p mod p + 1) mod p"
    by (simp only: power_Suc_mod_prime [OF assms] mod_add_left_eq)
  also have "\<dots> = (x + 1) mod p" by (simp only: Suc.IH mod_add_left_eq)
  finally show ?case by simp
qed

lemma fermat_steps:
  assumes "is_prime p"
  shows "x ^ (1 + j * (p - 1)) mod p = x mod p"
proof (induction j)
  case (Suc j)
  obtain r where p: "p = Suc r" using assms by (cases p) (auto simp: is_prime_def)
  have "1 + Suc j * (p - 1) = j * (p - 1) + p" by (simp add: p)
  then have "x ^ (1 + Suc j * (p - 1)) = x ^ (j * (p - 1)) * x ^ p" by (simp only: power_add)
  also have "\<dots> mod p = x ^ (j * (p - 1)) * x mod p"
    by (metis fermat [OF assms] mod_mult_right_eq)
  also have "\<dots> = x mod p" using Suc.IH by (simp add: mult.commute)
  finally show ?case .
qed simp

section \<open>RSA\<close>

theorem rsa_identity:
  assumes "is_prime p" "is_prime q" "p \<noteq> q" "e * d mod ((p - 1) * (q - 1)) = 1"
  shows "x ^ (e * d) mod (p * q) = x mod (p * q)"
proof -
  obtain t where t: "e * d = 1 + t * ((p - 1) * (q - 1))"
    using assms(4) by (metis add.commute div_mult_mod_eq)
  have "e * d = 1 + t * (q - 1) * (p - 1)" "e * d = 1 + t * (p - 1) * (q - 1)"
    unfolding t by (simp_all only: ac_simps)
  then have "x ^ (e * d) mod p = x mod p" "x ^ (e * d) mod q = x mod q"
    using fermat_steps [OF assms(1), of x "t * (q - 1)"] fermat_steps [OF assms(2), of x "t * (p - 1)"]
    by (simp_all only:)
  then have "int p dvd int (x ^ (e * d)) - int x" "int q dvd int (x ^ (e * d)) - int x"
    by (metis mod_eq_dvd_iff zmod_int)+
  moreover have "coprime (int p) (int q)" using primes_coprime [OF assms(1-3)] by simp
  ultimately have "int p * int q dvd int (x ^ (e * d)) - int x" by (rule divides_mult)
  then show ?thesis by (metis mod_eq_dvd_iff of_nat_eq_iff of_nat_mult zmod_int)
qed

end
