(* ===== verification/Encrypt_Sock.thy ===== *)
theory Encrypt_Sock
  imports Prelude Rsa_Math
begin

text \<open>The key exchange of the network service (src/encrypt__sock.c).  An unsigned long
  has 32 bits; its values are naturals, and \<open>u32\<close> is written where an operation can
  wrap.  What \<open>rand\<close> returns is an argument, one value per call.\<close>

unbundle bit_operations_syntax

abbreviation u32 :: "nat \<Rightarrow> nat" where "u32 n \<equiv> n mod 2 ^ 32"

section \<open>Arithmetic\<close>

text \<open>Square and multiply over the bits of the exponent, from bit 31 down.\<close>

definition modulo_step :: "nat \<Rightarrow> nat \<Rightarrow> nat \<Rightarrow> nat \<Rightarrow> nat \<Rightarrow> nat" where
  "modulo_step nSub nExp nMod i d =
    (let d1 = u32 (d * d) mod nMod in if bit nExp i then u32 (d1 * nSub) mod nMod else d1)"

definition getModulo :: "nat \<Rightarrow> nat \<Rightarrow> nat \<Rightarrow> nat" where
  "getModulo nSub nExp nMod = fold (modulo_step nSub nExp nMod) (rev [0..<32]) 1"

fun getGDC :: "nat \<Rightarrow> nat \<Rightarrow> nat" where
  "getGDC a b = (if b = 0 then a else getGDC b (a mod b))"

declare getGDC.simps [simp del]

section \<open>Primes\<close>

definition primeNumbers :: "nat list" where
  "primeNumbers = [
    2, 3, 5, 7, 11, 13, 17, 19, 23, 29,
    31, 37, 41, 43, 47, 53, 59, 61, 67, 71,
    73, 79, 83, 89, 97, 101, 103, 107, 109, 113,
    127, 131, 137, 139, 149, 151, 157, 163, 167, 173,
    179, 181, 191, 193, 197, 199, 211, 223, 227, 229,
    233, 239, 241, 251, 257, 263, 269, 271, 277, 281,
    283, 293, 307, 311, 313, 317, 331, 337, 347, 349,
    353, 359, 367, 373, 379, 383, 389, 397, 401, 409,
    419, 421, 431, 433, 439, 443, 449, 457, 461, 463,
    467, 479, 487, 491, 499, 503, 509, 521, 523, 541,
    547, 547, 563, 569, 571, 577, 587, 593, 599, 601,
    607, 613, 617, 619, 631, 641, 643, 647, 653, 659,
    661, 673, 677, 683, 691, 701, 709, 719, 727, 733,
    739, 743, 751, 757, 761, 769, 773, 787, 797, 809,
    811, 821, 823, 827, 829, 839, 853, 857, 859, 863,
    877, 881, 883, 887, 907, 911, 919, 929, 937, 941,
    947, 953, 967, 971, 977, 983, 991, 997, 1009, 1013,
    1019, 1021, 1031, 1033, 1039, 1049, 1051, 1061, 1063, 1069,
    1087, 1091, 1093, 1097, 1103, 1109, 1117, 1123, 1129, 1151,
    1153, 1163, 1171, 1181, 1187, 1193, 1201, 1213, 1217, 1223,
    1229, 1231, 1237, 1249, 1259, 1277, 1279, 1283, 1289, 1291,
    1297, 1301, 1303, 1307, 1319, 1321, 1327, 1361, 1367, 1373,
    1381, 1399, 1409, 1423, 1427, 1429, 1433, 1439, 1447, 1451,
    1453, 1459, 1471, 1481, 1483, 1487, 1489, 1493, 1499, 1511,
    1523, 1531, 1543, 1549, 1553, 1559, 1567, 1571, 1579, 1583,
    1597, 1607, 1607, 1609, 1613, 1619, 1621, 1627, 1637, 1657,
    1663, 1667, 1669, 1693, 1697, 1699, 1709, 1721, 1723, 1733,
    1741, 1747, 1753, 1759, 1777, 1783, 1787, 1789, 1801, 1811,
    1823, 1831, 1847, 1861, 1867, 1871, 1873, 1877, 1879, 1889,
    1901, 1907, 1913, 1931, 1933, 1979, 1987, 1993, 1997, 1999]"

definition NUMBER_PRIME :: nat where [const_defs]: "NUMBER_PRIME = 300"

text \<open>\<open>rand n\<close> is what call \<open>n\<close> of \<open>rand\<close> returns, \<open>pos\<close> counts the calls.\<close>

fun prime_tries :: "nat \<Rightarrow> (nat \<Rightarrow> nat) \<Rightarrow> nat \<Rightarrow> nat \<Rightarrow> nat \<times> nat" where
  "prime_tries 0 rand maxLimit pos = (0, pos)"
| "prime_tries (Suc cnt) rand maxLimit pos =
    (let prime = primeNumbers ! (rand pos mod NUMBER_PRIME) in
     if prime \<le> maxLimit then (prime, pos + 1) else prime_tries cnt rand maxLimit (pos + 1))"

text \<open>The counter starts at 0x0FFF and is decremented before it is tested.\<close>

definition getPrime :: "(nat \<Rightarrow> nat) \<Rightarrow> nat \<Rightarrow> nat \<Rightarrow> nat \<times> nat" where
  "getPrime rand maxLimit pos = prime_tries (0x0FFF - 1) rand maxLimit pos"

section \<open>Keys\<close>

text \<open>The endless loop that picks two primes; None: it does not end.  The inner None:
  \<open>getPrime\<close> has failed.\<close>

partial_function (option) pick_primes :: "(nat \<Rightarrow> nat) \<Rightarrow> nat \<Rightarrow> (nat \<times> nat) option option" where
  "pick_primes rand pos =
    (let (primeP, pos1) = getPrime rand 0x0FFF pos in
     if primeP = 0 then Some None
     else
       let (primeQ, pos2) = getPrime rand (0xFFFF div primeP) pos1 in
       if primeQ = 0 then Some None
       else if u32 (primeP * primeQ) < 0xFFFF \<and> primeP \<noteq> primeQ then Some (Some (primeP, primeQ))
       else pick_primes rand pos2)"

record rsa_keys =
  rk_private :: nat
  rk_public :: nat
  rk_mod :: nat

text \<open>A loop \<open>for (cnt = 2; cnt < temp; cnt++)\<close> that breaks at the first hit and
  returns -1 from the function when the last round has none.  When it has no round
  at all the key keeps its value.\<close>

definition search_key :: "(nat \<Rightarrow> bool) \<Rightarrow> nat \<Rightarrow> nat \<Rightarrow> nat option" where
  "search_key P temp old =
    (case List.find P [2..<temp] of Some cnt \<Rightarrow> Some cnt | None \<Rightarrow> if 2 < temp then None else Some old)"

definition createKeys :: "(nat \<Rightarrow> nat) \<Rightarrow> rsa_keys \<Rightarrow> (int \<times> rsa_keys) option" where
  "createKeys rand keys =
    (case pick_primes rand 0 of
       None \<Rightarrow> None
     | Some None \<Rightarrow> Some (-1, keys)
     | Some (Some (primeP, primeQ)) \<Rightarrow>
         let keys1 = keys\<lparr>rk_mod := u32 (primeP * primeQ)\<rparr>; temp = u32 ((primeP - 1) * (primeQ - 1)) in
         case search_key (\<lambda>cnt. getGDC cnt temp = 1) temp (rk_public keys1) of
           None \<Rightarrow> Some (-1, keys1)
         | Some e \<Rightarrow>
             let keys2 = keys1\<lparr>rk_public := e\<rparr> in
             case search_key (\<lambda>cnt. getModulo (u32 (cnt * e)) 1 temp = 1) temp (rk_private keys2) of
               None \<Rightarrow> Some (-1, keys2)
             | Some d \<Rightarrow> Some (0, keys2\<lparr>rk_private := d\<rparr>))"

section \<open>Buffers\<close>

text \<open>The bound \<open>size - 1\<close> of \<open>swapBytes\<close> is unsigned.\<close>

function swap_from :: "nat \<Rightarrow> nat \<Rightarrow> 8 word list \<Rightarrow> 8 word list" where
  "swap_from i bound buf =
    (if i < bound then swap_from (i + 2) bound (buf[i := buf ! (i + 1), i + 1 := buf ! i]) else buf)"
  by pat_completeness auto
termination by (relation "measure (\<lambda>(i, bound, buf). bound - i)") auto

declare swap_from.simps [simp del]

definition swapBytes :: "8 word list \<Rightarrow> nat \<Rightarrow> 8 word list" where
  "swapBytes bufferPtr sz = swap_from 1 (u32 (sz + (2 ^ 32 - 1))) bufferPtr"

definition swapBits :: "8 word list \<Rightarrow> nat \<Rightarrow> 8 word list" where
  "swapBits bufferPtr sz =
    fold (\<lambda>i buf. buf[i := drop_bit 4 (buf ! i) OR push_bit 4 (buf ! i AND 0xF)]) [0..<sz] bufferPtr"

section \<open>Encryption\<close>

text \<open>\<open>encrypt\<close> and \<open>decrypt\<close> only call \<open>getModulo\<close>.  Four bytes of the output hold the
  cypher of one byte, the highest first.\<close>

definition put_cypher :: "nat \<Rightarrow> nat \<Rightarrow> 8 word list \<Rightarrow> 8 word list" where
  "put_cypher i cypher out = out[i * 4 + 3 := of_nat (cypher AND 0x000000FF),
     i * 4 + 2 := of_nat (drop_bit 8 (cypher AND 0x0000FF00)), i * 4 + 1 := of_nat (drop_bit 16 (cypher AND 0x00FF0000)),
     i * 4 := of_nat (drop_bit 24 (cypher AND 0xFF000000))]"

definition ss_encrypt :: "nat \<Rightarrow> nat \<Rightarrow> 8 word list \<Rightarrow> nat \<Rightarrow> 8 word list \<Rightarrow> nat \<Rightarrow> nat \<times> 8 word list" where
  "ss_encrypt publicKey modNumber srcBuf srcSize outBuf outBufSize =
    (if srcSize = 0 then (0, outBuf)
     else if u32 (srcSize * 4) > outBufSize then (0, outBuf)
     else
       let out = fold (\<lambda>i. put_cypher i (getModulo (unat (srcBuf ! i)) publicKey modNumber)) [0..<srcSize] outBuf
       in (u32 (srcSize * 4), swapBits (swapBytes out (u32 (srcSize * 4))) (u32 (srcSize * 4))))"

definition get_cypher :: "nat \<Rightarrow> 8 word list \<Rightarrow> nat" where
  "get_cypher i src = unat (src ! (i * 4 + 3)) OR push_bit 8 (unat (src ! (i * 4 + 2)))
     OR push_bit 16 (unat (src ! (i * 4 + 1))) OR push_bit 24 (unat (src ! (i * 4)))"

text \<open>The source buffer is shuffled in place: it is part of the result.\<close>

definition ss_decrypt :: "nat \<Rightarrow> nat \<Rightarrow> 8 word list \<Rightarrow> nat \<Rightarrow> 8 word list \<Rightarrow> nat
    \<Rightarrow> nat \<times> 8 word list \<times> 8 word list" where
  "ss_decrypt privateKey modNumber srcBuf srcSize outBuf outBufSize =
    (if srcSize = 0 \<or> srcSize mod 4 \<noteq> 0 then (0, srcBuf, outBuf)
     else if srcSize div 4 > outBufSize then (0, srcBuf, outBuf)
     else
       let src = swapBytes (swapBits srcBuf srcSize) srcSize;
           out = fold (\<lambda>i out. out[i := of_nat (getModulo (get_cypher i src) privateKey modNumber)])
                   [0..<srcSize div 4] outBuf
       in (srcSize div 4, src, out))"

section \<open>The arithmetic is right\<close>

lemma getGDC_gcd: "getGDC a b = gcd a b"
proof (induction a b rule: getGDC.induct)
  case (1 a b)
  show ?case
  proof (cases "b = 0")
    case False
    then have "getGDC a b = gcd b (a mod b)" using 1 by (subst getGDC.simps) simp
    then show ?thesis by (simp only: gcd_red_nat [symmetric])
  qed (simp add: getGDC.simps)
qed

lemma u32_small: "n < 2 ^ 32 \<Longrightarrow> u32 n = n"
  by simp

lemma modulo_step_eq:
  assumes "m \<le> 65536" "0 < m" "x \<le> 65536" "d \<le> 65535"
  shows "modulo_step x e m i d = d * d * (if bit e i then x else 1) mod m"
proof -
  have "d * d \<le> 65535 * 65535" using assms(4) by (intro mult_le_mono)
  then have d: "u32 (d * d) = d * d" by (intro u32_small) (rule le_less_trans, assumption, simp)
  have "d * d mod m < m" using assms(2) by (rule mod_less_divisor)
  then have "d * d mod m \<le> 65535" using assms(1) by linarith
  then have "d * d mod m * x \<le> 65535 * 65536" using assms(3) by (intro mult_le_mono)
  then have "u32 (d * d mod m * x) = d * d mod m * x" by (intro u32_small) (rule le_less_trans, assumption, simp)
  with d show ?thesis by (simp only: modulo_step_def Let_def mod_mult_left_eq mult_1_right split: if_split) simp
qed

lemma drop_bit_step: "drop_bit k n = 2 * drop_bit (Suc k) n + of_bool (bit n k)" for n :: nat
proof -
  have "n div 2 ^ Suc k = n div 2 ^ k div 2" by (simp only: power_Suc2 div_mult2_eq)
  then have "drop_bit (Suc k) n = drop_bit k n div 2" by (simp only: drop_bit_eq_div)
  then show ?thesis by (simp add: bit_iff_odd_drop_bit)
qed

text \<open>After the bits from 31 down to \<open>k\<close> the accumulator is the power of the exponent
  shifted right by \<open>k\<close>.\<close>

lemma modulo_loop:
  assumes "0 < m" "m \<le> 65536" "x \<le> 65536" "n \<le> 32"
  shows "let d = fold (modulo_step x e m) (rev [32 - n..<32]) 1 in
    d mod m = x ^ drop_bit (32 - n) (take_bit 32 e) mod m \<and> d \<le> 65535 \<and> (0 < n \<longrightarrow> d < m)"
  using assms(4)
proof (induction n)
  case 0
  then show ?case by (simp add: drop_bit_take_bit)
next
  case (Suc n)
  let ?k = "32 - Suc n"
  have k: "?k < 32" "Suc ?k = 32 - n" using Suc.prems by simp_all
  let ?d = "fold (modulo_step x e m) (rev [Suc ?k..<32]) 1" and ?y = "drop_bit (Suc ?k) (take_bit 32 e)"
  let ?b = "if bit e ?k then x else 1"
  have IH: "?d mod m = x ^ ?y mod m" "?d \<le> 65535" using Suc.IH Suc.prems k(2) by (simp_all add: Let_def)
  have "[?k..<32] = ?k # [Suc ?k..<32]" by (rule upt_conv_Cons) (rule k(1))
  then have d: "fold (modulo_step x e m) (rev [?k..<32]) 1 = ?d * ?d * ?b mod m"
    using modulo_step_eq [OF assms(2,1,3) IH(2)] by simp
  have "bit (take_bit 32 e) ?k = bit e ?k" using k(1) by (simp only: bit_take_bit_iff simp_thms)
  then have "drop_bit ?k (take_bit 32 e) = ?y + ?y + of_bool (bit e ?k)"
    using drop_bit_step [of ?k "take_bit 32 e"] by (simp only: mult_2)
  moreover have "x ^ (y + y + of_bool b) = x ^ y * x ^ y * (if b then x else 1)" for y b by (cases b) (simp_all add: power_add)
  ultimately have "x ^ drop_bit ?k (take_bit 32 e) = x ^ ?y * x ^ ?y * ?b" by (simp only:)
  also have "\<dots> mod m = ?d * ?d * ?b mod m" by (intro mod_mult_cong IH(1) [symmetric] refl)
  finally have "?d * ?d * ?b mod m = x ^ drop_bit ?k (take_bit 32 e) mod m" by (rule sym)
  moreover have "?d * ?d * ?b mod m < m" using assms(1) by (rule mod_less_divisor)
  moreover from this have "?d * ?d * ?b mod m \<le> 65535" using assms(2) by linarith
  ultimately show ?case unfolding d Let_def mod_mod_trivial by blast
qed

lemma getModulo_power:
  assumes "0 < m" "m \<le> 65536" "x \<le> 65536" "e < 2 ^ 32"
  shows "getModulo x e m = x ^ e mod m"
proof -
  have "take_bit 32 e = e" by (rule take_bit_nat_eq_self [OF assms(4)])
  then show ?thesis using modulo_loop [OF assms(1-3), of 32 e] by (auto simp: getModulo_def Let_def)
qed

text \<open>With exponent 1 the base may be any unsigned long.\<close>

lemma getModulo_1:
  assumes "1 < m" "m \<le> 65536" "x < 2 ^ 32"
  shows "getModulo x 1 m = x mod m"
proof -
  have ones: "fold (modulo_step x 1 m) ks 1 = 1" if "0 \<notin> set ks" for ks
    using that assms(1)
  proof (induction ks)
    case (Cons k ks)
    then have "k \<noteq> 0" by auto
    then have "\<not> bit (1 :: nat) k" by (simp only: bit_1_iff simp_thms)
    then have "modulo_step x 1 m k 1 = 1" using assms(1) by (simp only: modulo_step_def Let_def if_False) simp
    then show ?case using Cons by (simp only: fold_simps) simp
  qed simp
  have "rev [0..<32] = rev [1..<32] @ [0]" by (simp add: upt_conv_Cons)
  then have "getModulo x 1 m = modulo_step x 1 m 0 (fold (modulo_step x 1 m) (rev [1..<32]) 1)"
    by (simp only: getModulo_def fold_append comp_apply fold_simps id_apply)
  also have "\<dots> = modulo_step x 1 m 0 1" by (subst ones) simp_all
  also have "\<dots> = x mod m"
  proof -
    have "bit (1 :: nat) 0" by (simp only: bit_1_iff)
    moreover have "u32 (1 * 1) mod m = 1" "u32 (1 * x) = x" using assms(1,3) by simp_all
    ultimately show ?thesis by (simp only: modulo_step_def Let_def if_True)
  qed
  finally show ?thesis .
qed

section \<open>The table\<close>

text \<open>Every entry is a prime (547 and 1607 are there twice, in the places of 557 and
  1601), so that the keys rest on two primes.\<close>

definition small_primes :: "nat list" where
  "small_primes = [2, 3, 5, 7, 11, 13, 17, 19, 23, 29, 31, 37, 41, 43]"

lemma small_factor:
  assumes "m \<in> set [2..<45]"
  shows "\<exists>r \<in> set small_primes. r dvd m \<and> r \<le> m"
proof -
  have "list_all (\<lambda>m. list_ex (\<lambda>r. m mod r = 0) small_primes) [2..<45]"
    by (simp add: upt_rec small_primes_def)
  then have "list_ex (\<lambda>r. m mod r = 0) small_primes" using assms unfolding list_all_iff by (rule bspec)
  then obtain r where r: "r \<in> set small_primes" "m mod r = 0" unfolding list_ex_iff by (rule bexE)
  have m: "0 < m" using assms by auto
  from r(2) have "r dvd m" by (simp only: mod_eq_0_iff_dvd)
  moreover from this have "r \<le> m" using m by (rule dvd_imp_le)
  ultimately show ?thesis using r(1) by blast
qed

lemma table_trial:
  "list_all (\<lambda>p. 1 < p \<and> p < 45 * 45 \<and> list_all (\<lambda>m. m < p \<longrightarrow> p mod m \<noteq> 0) small_primes) primeNumbers"
  by (simp add: primeNumbers_def small_primes_def)

lemma table_prime:
  assumes "p \<in> set primeNumbers"
  shows "is_prime p" "p < 2025"
proof -
  have p: "1 < p" "p < 45 * 45" and trial: "\<forall>m \<in> set small_primes. m < p \<longrightarrow> p mod m \<noteq> 0"
    using table_trial assms unfolding list_all_iff by blast+
  show "p < 2025" using p(2) by simp
  have "p mod m \<noteq> 0" if m: "m \<in> set [2..<45]" "m < p" for m
  proof
    assume "p mod m = 0"
    moreover obtain r where r: "r \<in> set small_primes" "r dvd m" "r \<le> m" using small_factor [OF m(1)] by blast
    ultimately have "p mod r = 0" by (meson dvd_trans mod_eq_0_iff_dvd)
    with trial r(1,3) m(2) show False by (meson le_less_trans)
  qed
  then show "is_prime p" using is_prime_trial [OF p] by blast
qed

lemma length_table: "length primeNumbers = NUMBER_PRIME"
  by (simp add: primeNumbers_def NUMBER_PRIME_def)

section \<open>Shuffling is undone by shuffling\<close>

lemma swap_from_update:
  assumes "j < i"
  shows "swap_from i bound (buf[j := x]) = (swap_from i bound buf)[j := x]"
  using assms
proof (induction i bound buf rule: swap_from.induct)
  case (1 i bound buf)
  show ?case
  proof (cases "i < bound")
    case True
    have "(buf[j := x])[i := buf[j := x] ! (i + 1), i + 1 := buf[j := x] ! i]
        = (buf[i := buf ! (i + 1), i + 1 := buf ! i])[j := x]"
      using 1(2) by (simp add: list_update_swap)
    with True 1 show ?thesis by (subst (1 2) swap_from.simps) simp
  qed (simp add: swap_from.simps)
qed

lemma swap_from_length [simp]: "length (swap_from i bound buf) = length buf"
  by (induction i bound buf rule: swap_from.induct) (subst swap_from.simps, simp)

lemma swap_from_nth:
  assumes "j < i"
  shows "swap_from i bound buf ! j = buf ! j"
  using assms
proof (induction i bound buf rule: swap_from.induct)
  case (1 i bound buf)
  then show ?case by (subst swap_from.simps) simp
qed

lemma swap_from_twice:
  assumes "bound < length buf"
  shows "swap_from i bound (swap_from i bound buf) = buf"
  using assms
proof (induction i bound buf rule: swap_from.induct)
  case (1 i bound buf)
  show ?case
  proof (cases "i < bound")
    case True
    let ?b = "buf[i := buf ! (i + 1), i + 1 := buf ! i]" and ?n = "i + 2"
    let ?r = "swap_from ?n bound ?b"
    have r: "swap_from i bound buf = ?r" using True by (subst swap_from.simps) simp
    have nth: "?r ! i = buf ! (i + 1)" "?r ! (i + 1) = buf ! i"
      using True 1(2) by (simp_all add: swap_from_nth)
    have "swap_from i bound ?r = swap_from ?n bound (?r[i := ?r ! (i + 1), i + 1 := ?r ! i])"
      using True by (subst swap_from.simps) simp
    also have "\<dots> = (swap_from ?n bound ?r)[i := buf ! i, i + 1 := buf ! (i + 1)]"
      by (simp only: nth) (simp add: swap_from_update)
    also have "swap_from ?n bound ?r = ?b" using 1(1) [OF True] 1(2) by simp
    also have "?b[i := buf ! i, i + 1 := buf ! (i + 1)] = buf"
      using True 1(2) by (intro nth_equalityI) (auto simp: nth_list_update)
    finally show ?thesis by (simp only: r)
  qed (simp add: swap_from.simps)
qed

lemma swapBytes_twice:
  assumes "0 < n" "n \<le> length buf" "n < 2 ^ 32"
  shows "swapBytes (swapBytes buf n) n = buf"
proof -
  have "u32 (n + (2 ^ 32 - 1)) = n - 1"
  proof -
    have "n + (2 ^ 32 - 1) = (n - 1) + 2 ^ 32" using assms(1) by simp
    then show ?thesis using assms(3) by (simp only: mod_add_self2) simp
  qed
  then show ?thesis unfolding swapBytes_def using assms by (simp only:) (rule swap_from_twice, simp)
qed

definition nibbles :: "8 word \<Rightarrow> 8 word" where
  "nibbles b = drop_bit 4 b OR push_bit 4 (b AND 0xF)"

lemma nibbles_twice: "nibbles (nibbles b) = b"
proof -
  have m: "x AND 0xF = take_bit 4 x" for x :: "8 word" by (simp add: take_bit_eq_mask mask_numeral)
  show ?thesis unfolding nibbles_def m by (rule bit_word_eqI) (auto simp: bit_simps)
qed

lemma swapBits_map:
  assumes "n \<le> length buf"
  shows "swapBits buf n = map nibbles (take n buf) @ drop n buf"
  using assms
proof (induction n)
  case (Suc n)
  then show ?case
    by (simp add: swapBits_def nibbles_def take_Suc_conv_app_nth list_update_append nth_append Cons_nth_drop_Suc [symmetric])
qed (simp add: swapBits_def)

lemma swapBits_twice: "n \<le> length buf \<Longrightarrow> swapBits (swapBits buf n) n = buf"
  by (simp add: swapBits_map nibbles_twice comp_def)

section \<open>One cypher\<close>

lemma cypher_bytes:
  assumes "c < 2 ^ 32"
  shows "unat (of_nat (c AND 0x000000FF) :: 8 word) OR push_bit 8 (unat (of_nat (drop_bit 8 (c AND 0x0000FF00)) :: 8 word))
      OR push_bit 16 (unat (of_nat (drop_bit 16 (c AND 0x00FF0000)) :: 8 word))
      OR push_bit 24 (unat (of_nat (drop_bit 24 (c AND 0xFF000000)) :: 8 word)) = c"
proof -
  have m: "c AND 0x000000FF = take_bit 8 c" "c AND 0x0000FF00 = c AND push_bit 8 (mask 8)"
    "c AND 0x00FF0000 = c AND push_bit 16 (mask 8)" "c AND 0xFF000000 = c AND push_bit 24 (mask 8)"
    by (simp_all add: take_bit_eq_mask mask_eq_exp_minus_1 push_bit_eq_mult)
  have c: "bit c n \<Longrightarrow> n < 32" for n
    using assms by (metis bit_take_bit_iff take_bit_nat_eq_self)
  show ?thesis unfolding m
  proof (rule bit_eqI, goal_cases)
    case (1 n)
    consider "n < 8" | "8 \<le> n" "n < 16" | "16 \<le> n" "n < 24" | "24 \<le> n" by linarith
    then show ?case by cases (auto simp: bit_simps unsigned_of_nat dest: c)
  qed
qed

lemma get_put_cypher:
  assumes "i * 4 + 3 < length out" "c < 2 ^ 32"
  shows "get_cypher i (put_cypher i c out) = c"
  using cypher_bytes [OF assms(2)] assms(1) by (simp add: get_cypher_def put_cypher_def)

lemma length_put_cypher [simp]: "length (put_cypher i c out) = length out"
  by (simp add: put_cypher_def)

lemma get_put_other:
  assumes "i \<noteq> j"
  shows "get_cypher i (put_cypher j c out) = get_cypher i out"
proof -
  have "i * 4 + a \<noteq> j * 4 + b" if "a < 4" "b < 4" for a b using assms that by linarith
  from this [of _ 0] this [of _ 1] this [of _ 2] this [of _ 3] this [of 0] this [of 0 0] show ?thesis
    unfolding get_cypher_def put_cypher_def by (simp add: nth_list_update)
qed

lemma encrypt_loop:
  assumes "n * 4 \<le> length out" "\<forall>i < n. f i < 2 ^ 32"
  shows "length (fold (\<lambda>i. put_cypher i (f i)) [0..<n] out) = length out
    \<and> (\<forall>i < n. get_cypher i (fold (\<lambda>i. put_cypher i (f i)) [0..<n] out) = f i)"
  using assms
proof (induction n)
  case (Suc n)
  let ?out = "fold (\<lambda>i. put_cypher i (f i)) [0..<n] out"
  have IH: "length ?out = length out" "\<forall>i < n. get_cypher i ?out = f i" using Suc by simp_all
  have "get_cypher i (put_cypher n (f n) ?out) = f i" if "i < Suc n" for i
    using that IH Suc.prems by (cases "i = n") (simp_all add: get_put_cypher get_put_other)
  with IH(1) show ?case by simp
qed simp

lemma decrypt_loop:
  assumes "n \<le> length out"
  shows "fold (\<lambda>i out. out[i := f i]) [0..<n] out = map f [0..<n] @ drop n out"
  using assms
proof (induction n)
  case (Suc n)
  then show ?case by (simp add: list_update_append Cons_nth_drop_Suc [symmetric])
qed simp

section \<open>Choosing the keys\<close>

lemma getPrime_table:
  assumes "getPrime rand maxLimit pos = (p, pos')" "p \<noteq> 0"
  shows "p \<in> set primeNumbers \<and> p \<le> maxLimit"
proof -
  have "prime_tries cnt rand maxLimit pos = (p, pos') \<Longrightarrow> p \<noteq> 0 \<Longrightarrow> p \<in> set primeNumbers \<and> p \<le> maxLimit" for cnt pos
  proof (induction cnt arbitrary: pos)
    case (Suc cnt)
    have "primeNumbers ! (rand pos mod NUMBER_PRIME) \<in> set primeNumbers"
      by (rule nth_mem) (simp add: length_table NUMBER_PRIME_def)
    with Suc show ?case by (auto simp: Let_def split: if_splits)
  qed simp
  with assms show ?thesis by (simp add: getPrime_def)
qed

lemma product_small: "q \<le> 65535 div p \<Longrightarrow> p * q \<le> 65535" for p q :: nat
  by (metis div_times_less_eq_dividend le_trans mult.commute mult_le_mono2)

definition good_pair :: "(nat \<times> nat) option \<Rightarrow> bool" where
  "good_pair r \<longleftrightarrow> (\<forall>p q. r = Some (p, q) \<longrightarrow>
     p \<in> set primeNumbers \<and> q \<in> set primeNumbers \<and> p \<noteq> q \<and> p * q < 65535)"

text \<open>One round of the loop.\<close>

lemma good_round:
  assumes run: "(let (primeP, pos1) = getPrime rand 0x0FFF pos in
      if primeP = 0 then Some None
      else let (primeQ, pos2) = getPrime rand (0xFFFF div primeP) pos1 in
        if primeQ = 0 then Some None
        else if u32 (primeP * primeQ) < 0xFFFF \<and> primeP \<noteq> primeQ then Some (Some (primeP, primeQ))
        else again pos2) = Some r"
    and IH: "\<And>pos2. again pos2 = Some r \<Longrightarrow> good_pair r"
  shows "good_pair r"
proof -
  obtain a pos1 where a: "getPrime rand 0x0FFF pos = (a, pos1)" by fastforce
  obtain b pos2 where b: "getPrime rand (0xFFFF div a) pos1 = (b, pos2)" by fastforce
  show ?thesis
  proof (cases "a = 0 \<or> b = 0")
    case True
    then show ?thesis using run by (auto simp: a b good_pair_def split: if_splits)
  next
    case False
    then have t: "a \<in> set primeNumbers" "b \<in> set primeNumbers" "b \<le> 65535 div a"
      using getPrime_table [OF a] getPrime_table [OF b] by simp_all
    then have "u32 (a * b) = a * b" using product_small [OF t(3)] by simp
    then show ?thesis using run IH [of pos2] False t by (auto simp: a b good_pair_def split: if_splits)
  qed
qed

lemma pick_primes_good:
  assumes "pick_primes rand pos = Some r"
  shows "good_pair r"
proof (rule pick_primes.raw_induct [where P = "\<lambda>rand pos r. good_pair r", OF _ assms], goal_cases)
  case (1 pp rand pos r)
  show ?case by (rule good_round [OF 1(2)]) (rule 1(1))
qed

section \<open>The two searches\<close>

lemma search_key_finds:
  assumes "P x" "2 \<le> x" "x < temp"
  shows "\<exists>y. search_key P temp old = Some y \<and> P y \<and> 2 \<le> y \<and> y < temp"
proof (cases "List.find P [2..<temp]")
  case None
  then show ?thesis using assms by (auto simp: find_None_iff)
next
  case (Some y)
  then have "P y" "y \<in> set [2..<temp]" by (auto simp: find_Some_iff)
  then show ?thesis using Some by (simp add: search_key_def)
qed

lemma inverse_exists:
  assumes "coprime e m" "1 < e" "e < m"
  shows "\<exists>d. 2 \<le> d \<and> d < m \<and> d * e mod m = (1 :: nat)"
proof -
  have "coprime (int e) (int m)" using assms(1) by simp
  then obtain u v where uv: "u * int e + v * int m = 1"
    using bezout_int [of "int e" "int m"] by (auto simp: coprime_iff_gcd_eq_1)
  define d where "d = nat (u mod int m)"
  have d: "int d = u mod int m" "d < m" using assms(2,3) by (simp_all add: d_def nat_less_iff)
  have "int (d * e mod m) = (u mod int m) * int e mod int m" by (simp add: d(1) zmod_int)
  also have "\<dots> = (u * int e + v * int m) mod int m" by (simp add: mod_mult_left_eq)
  also have "\<dots> = 1" using assms(2,3) by (simp add: uv)
  finally have one: "d * e mod m = 1" by simp
  have "d \<noteq> 0" "d \<noteq> 1" using one assms(2,3) by (auto intro: ccontr)
  then show ?thesis using d(2) one by (intro exI [of _ d]) simp
qed

lemma phi_small:
  fixes p q :: nat
  assumes "1 < p" "1 < q" "p \<noteq> q"
  shows "(p - 1) * (q - 1) \<le> 2 \<longleftrightarrow> p * q = 6"
proof -
  obtain a b where ab: "p = a + 2" "q = b + 2"
    using assms(1,2) by (metis add.commute less_eqE numeral_2_eq_2 Suc_leI One_nat_def)
  show ?thesis
  proof
    assume "(p - 1) * (q - 1) \<le> 2"
    then have "a * b + a + b \<le> 1" by (simp add: ab algebra_simps)
    then have "a = 0 \<and> b = 1 \<or> a = 1 \<and> b = 0" using assms(3) ab by auto
    then show "p * q = 6" by (auto simp: ab)
  next
    assume "p * q = 6"
    then have "a * b + 2 * a + 2 * b = 2" by (simp add: ab algebra_simps)
    then have "a + b \<le> 1" by linarith
    then have "a = 0 \<and> b \<le> 1 \<or> b = 0 \<and> a \<le> 1" by auto
    then show "(p - 1) * (q - 1) \<le> 2" by (auto simp: ab)
  qed
qed

text \<open>What a pair of keys must satisfy.\<close>

definition keys_fit :: "nat \<Rightarrow> nat \<Rightarrow> rsa_keys \<Rightarrow> bool" where
  "keys_fit p q ks \<longleftrightarrow> is_prime p \<and> is_prime q \<and> p \<noteq> q \<and> p * q < 65535 \<and> rk_mod ks = p * q
     \<and> rk_public ks < 2 ^ 32 \<and> rk_private ks < 2 ^ 32
     \<and> rk_public ks * rk_private ks mod ((p - 1) * (q - 1)) = 1"

lemma getGDC_pred: "0 < t \<Longrightarrow> getGDC (t - 1) t = 1"
  using coprime_diff_one_left_nat [of t] by (simp add: getGDC_gcd coprime_iff_gcd_eq_1)

lemma createKeys_run:
  assumes "pick_primes rand 0 = Some (Some (p, q))" "p * q \<noteq> 6"
  shows "\<exists>ks. createKeys rand keys = Some (0, ks) \<and> keys_fit p q ks
    \<and> coprime (rk_public ks) ((p - 1) * (q - 1)) \<and> 2 \<le> rk_public ks"
proof -
  from pick_primes_good [OF assms(1)] have pq: "p \<in> set primeNumbers" "q \<in> set primeNumbers" "p \<noteq> q" "p * q < 65535"
    by (auto simp: good_pair_def)
  have prime: "is_prime p" "is_prime q" using table_prime(1) pq(1,2) by blast+
  then have two: "1 < p" "1 < q" by (simp_all add: is_prime_def)
  let ?t = "(p - 1) * (q - 1)"
  have t: "2 < ?t" "?t < 65535"
  proof -
    show "2 < ?t" using phi_small [OF two pq(3)] assms(2) by linarith
    have "?t \<le> p * q" by (intro mult_le_mono) simp_all
    with pq(4) show "?t < 65535" by simp
  qed
  have small: "u32 (p * q) = p * q" "u32 ?t = ?t" using pq(4) t(2) by (simp_all add: u32_small)
  have "getGDC (?t - 1) ?t = 1" by (rule getGDC_pred) (use t(1) in linarith)
  moreover have "2 \<le> ?t - 1" "?t - 1 < ?t" using t(1) by linarith+
  ultimately obtain e where
    e: "search_key (\<lambda>cnt. getGDC cnt ?t = 1) ?t (rk_public keys) = Some e" "getGDC e ?t = 1" "2 \<le> e" "e < ?t"
    using search_key_finds [of "\<lambda>cnt. getGDC cnt ?t = 1" "?t - 1" ?t "rk_public keys"] by blast
  from e(2) have cop: "coprime e ?t" by (simp only: getGDC_gcd coprime_iff_gcd_eq_1)
  have test: "getModulo (u32 (cnt * e)) 1 ?t = cnt * e mod ?t" if "cnt < ?t" for cnt
  proof -
    have "cnt * e \<le> 65535 * 65535" using that e(4) t(2) by (intro mult_le_mono) simp_all
    then have "cnt * e < 2 ^ 32" by (rule le_less_trans) simp
    then show ?thesis using getModulo_1 [of ?t "cnt * e"] t by (simp add: u32_small)
  qed
  obtain d0 where d0: "2 \<le> d0" "d0 < ?t" "d0 * e mod ?t = 1" using inverse_exists [OF cop] e(3,4) by auto
  have "getModulo (u32 (d0 * e)) 1 ?t = 1" by (simp only: test [OF d0(2)] d0(3))
  then obtain d where
    d: "search_key (\<lambda>cnt. getModulo (u32 (cnt * e)) 1 ?t = 1) ?t (rk_private keys) = Some d" "d < ?t"
      "getModulo (u32 (d * e)) 1 ?t = 1"
    using search_key_finds [of "\<lambda>cnt. getModulo (u32 (cnt * e)) 1 ?t = 1" d0 ?t "rk_private keys"] d0(1,2) by blast
  have "d * e mod ?t = 1" using test [OF d(2)] d(3) by simp
  then have "keys_fit p q (keys\<lparr>rk_mod := p * q, rk_public := e, rk_private := d\<rparr>)"
    using prime pq(3,4) e(4) d(2) t(2) by (simp add: keys_fit_def mult.commute)
  moreover have "rk_public (keys\<lparr>rk_mod := x\<rparr>) = rk_public keys"
    "rk_private (keys\<lparr>rk_mod := x, rk_public := y\<rparr>) = rk_private keys" for x y by simp_all
  then have "createKeys rand keys = Some (0, keys\<lparr>rk_mod := p * q, rk_public := e, rk_private := d\<rparr>)"
    by (simp only: createKeys_def assms(1) option.case prod.case Let_def small e(1) d(1))
  ultimately show ?thesis using cop e(3) by (intro exI conjI) (assumption, assumption, simp_all)
qed

section \<open>A message\<close>

lemma ss_roundtrip:
  assumes m: "0 < m" "m \<le> 65536" and keys: "e < 2 ^ 32" "d < 2 ^ 32" "\<And>x. x ^ (e * d) mod m = x mod m"
    and n: "0 < n" "n * 4 < 2 ^ 32" "n * 4 \<le> length out" "n \<le> length plain"
  shows "\<exists>code src'. ss_encrypt e m src n out (length out) = (n * 4, code)
    \<and> ss_decrypt d m code (n * 4) plain (length plain)
        = (n, src', map (\<lambda>i. of_nat (unat (src ! i) mod m)) [0..<n] @ drop n plain)"
proof -
  let ?f = "\<lambda>i. getModulo (unat (src ! i)) e m"
  have byte: "unat b \<le> 65536" for b :: "8 word"
  proof -
    have "unat b < 2 ^ LENGTH(8)" by (rule unsigned_less)
    then show ?thesis by simp
  qed
  have f: "?f i = unat (src ! i) ^ e mod m" for i by (rule getModulo_power [OF m byte keys(1)])
  have f_small: "?f i < m" for i using m(1) by (simp add: f)
  have "?f i < 2 ^ 32" for i by (rule less_le_trans [OF f_small]) (use m(2) in simp)
  then have f_word: "\<forall>i < n. ?f i < 2 ^ 32" by blast
  define raw where "raw = fold (\<lambda>i. put_cypher i (?f i)) [0..<n] out"
  have raw: "length raw = length out" "\<And>i. i < n \<Longrightarrow> get_cypher i raw = ?f i"
    using encrypt_loop [OF n(3) f_word] by (simp_all add: raw_def)
  let ?code = "swapBits (swapBytes raw (n * 4)) (n * 4)"
  have enc: "ss_encrypt e m src n out (length out) = (n * 4, ?code)"
    using n by (simp add: ss_encrypt_def Let_def raw_def u32_small)
  have "length (swapBytes raw (n * 4)) = length out" by (simp add: swapBytes_def raw(1))
  then have undo: "swapBytes (swapBits ?code (n * 4)) (n * 4) = raw"
    using n raw(1) by (simp add: swapBits_twice swapBytes_twice)
  have "getModulo (get_cypher i raw) d m = unat (src ! i) mod m" if "i < n" for i
  proof -
    have "getModulo (get_cypher i raw) d m = ?f i ^ d mod m"
      using getModulo_power [OF m _ keys(2), of "?f i"] f_small [of i] m(2) raw(2) [OF that] by simp
    also have "\<dots> = unat (src ! i) ^ (e * d) mod m" by (simp add: f power_mod power_mult)
    finally show ?thesis by (simp add: keys(3))
  qed
  then have "map (\<lambda>i. of_nat (getModulo (get_cypher i raw) d m)) [0..<n]
      = map (\<lambda>i. of_nat (unat (src ! i) mod m) :: 8 word) [0..<n]" by simp
  then have "ss_decrypt d m ?code (n * 4) plain (length plain)
      = (n, raw, map (\<lambda>i. of_nat (unat (src ! i) mod m)) [0..<n] @ drop n plain)"
    using n undo by (simp add: ss_decrypt_def Let_def decrypt_loop)
  with enc show ?thesis by blast
qed

section \<open>Properties\<close>

text \<open>C31: Square and multiply is the power.  With a modulus and a base of at most
  65536 no product wraps, and \<open>getModulo\<close> is the power of the base modulo the
  modulus for every 32 bit exponent.\<close>

theorem getModulo_is_power:
  assumes "0 < nMod" "nMod \<le> 65536" "nSub \<le> 65536" "nExp < 2 ^ 32"
  shows "getModulo nSub nExp nMod = nSub ^ nExp mod nMod"
  by (rule getModulo_power [OF assms])

lemma getModulo_is_power_witness: "getModulo 65 3 899 = 65 ^ 3 mod 899"
  by (rule getModulo_is_power) simp_all

text \<open>Once two primes are picked, the keys are made.  The primes are different
  entries of the table with a product below 65535, \<open>createKeys\<close> returns 0, and unless
  they are 2 and 3 the public key is at least 2 and coprime to (p - 1) (q - 1), and
  the private key is its inverse: neither search can fail.\<close>

theorem createKeys_correct:
  assumes "pick_primes rand 0 = Some (Some (p, q))" "p * q \<noteq> 6"
  shows "\<exists>ks. createKeys rand keys = Some (0, ks) \<and> p \<in> set primeNumbers \<and> q \<in> set primeNumbers \<and> p \<noteq> q
    \<and> rk_mod ks = p * q \<and> p * q < 65535 \<and> 2 \<le> rk_public ks \<and> coprime (rk_public ks) ((p - 1) * (q - 1))
    \<and> rk_public ks * rk_private ks mod ((p - 1) * (q - 1)) = 1"
  using createKeys_run [OF assms, of keys] pick_primes_good [OF assms(1)]
  by (auto simp: keys_fit_def good_pair_def)

text \<open>A draw that fits is taken.\<close>

lemma getPrime_first:
  assumes "rand pos mod NUMBER_PRIME = i" "primeNumbers ! i = p" "p \<le> maxLimit"
  shows "getPrime rand maxLimit pos = (p, pos + 1)"
proof -
  have "0x0FFF - 1 = Suc 4093" by simp
  then show ?thesis unfolding getPrime_def using assms by (simp only: prime_tries.simps Let_def if_True)
qed

text \<open>The entries 9 and 10 of the table, 29 and 31.\<close>

lemma pick_29_31: "pick_primes (\<lambda>n. n + 9) 0 = Some (Some (29, 31))"
proof -
  have "primeNumbers ! 9 = 29" "primeNumbers ! 10 = 31" by (simp_all add: primeNumbers_def)
  then have "getPrime (\<lambda>n. n + 9) 0x0FFF 0 = (29, 1)" "getPrime (\<lambda>n. n + 9) 2259 1 = (31, 2)"
    using getPrime_first [where rand = "\<lambda>n. n + 9" and pos = 0 and i = 9 and p = 29 and maxLimit = "0x0FFF"] getPrime_first [where rand = "\<lambda>n. n + 9" and pos = 1 and i = 10 and p = 31 and maxLimit = 2259]
    by (simp_all add: NUMBER_PRIME_def numeral_2_eq_2)
  then show ?thesis by (subst pick_primes.simps) simp
qed

definition no_keys :: rsa_keys where
  "no_keys = \<lparr>rk_private = 0, rk_public = 0, rk_mod = 0\<rparr>"

lemma createKeys_correct_witness:
  "\<exists>ks. createKeys (\<lambda>n. n + 9) no_keys = Some (0, ks) \<and> rk_mod ks = 899"
  using createKeys_correct [OF pick_29_31, of no_keys] by auto

text \<open>C30: What is encrypted can be decrypted.  With keys that \<open>createKeys\<close> made from
  primes other than 2 and 3, a message encrypted with the public key and decrypted
  with the private one comes back, byte by byte, modulo the product of the primes:
  unchanged when the product is at least 256, and corrupted from that value on when
  it is smaller.\<close>

theorem message_roundtrip:
  assumes "createKeys rand keys = Some (0, ks)" "rk_mod ks \<noteq> 6"
    and "0 < n" "n * 4 < 2 ^ 32" "n * 4 \<le> length out" "n \<le> length plain"
  shows "\<exists>code src'. ss_encrypt (rk_public ks) (rk_mod ks) src n out (length out) = (n * 4, code)
    \<and> ss_decrypt (rk_private ks) (rk_mod ks) code (n * 4) plain (length plain)
        = (n, src', map (\<lambda>i. of_nat (unat (src ! i) mod rk_mod ks)) [0..<n] @ drop n plain)"
proof -
  obtain p q where pq: "pick_primes rand 0 = Some (Some (p, q))"
    using assms(1) by (auto simp: createKeys_def split: option.splits)
  have "u32 (p * q) = p * q" using pick_primes_good [OF pq] by (simp add: good_pair_def)
  then have "rk_mod ks = p * q"
    using assms(1) by (auto simp: createKeys_def pq Let_def split: option.splits)
  with createKeys_run [OF pq, of keys] assms(1,2) have fit: "keys_fit p q ks" by auto
  then have m: "0 < rk_mod ks" "rk_mod ks \<le> 65536" by (auto simp: keys_fit_def is_prime_def)
  have "x ^ (rk_public ks * rk_private ks) mod rk_mod ks = x mod rk_mod ks" for x
    using fit rsa_identity [of p q "rk_public ks" "rk_private ks" x] by (simp add: keys_fit_def)
  moreover have "rk_public ks < 2 ^ 32" "rk_private ks < 2 ^ 32" using fit by (simp_all add: keys_fit_def)
  ultimately show ?thesis using ss_roundtrip [OF m _ _ _ assms(3-6)] by blast
qed

lemma message_roundtrip_witness:
  "\<exists>ks code src'. createKeys (\<lambda>n. n + 9) no_keys = Some (0, ks)
    \<and> ss_encrypt (rk_public ks) (rk_mod ks) [72, 105] 2 (replicate 8 0) 8 = (8, code)
    \<and> ss_decrypt (rk_private ks) (rk_mod ks) code 8 (replicate 2 0) 2 = (2, src', [72, 105])"
proof -
  obtain ks where ks: "createKeys (\<lambda>n. n + 9) no_keys = Some (0, ks)" "rk_mod ks = 899"
    using createKeys_run [OF pick_29_31, of no_keys] by (auto simp: keys_fit_def)
  then have "rk_mod ks \<noteq> 6" by simp
  from message_roundtrip [OF ks(1) this, of 2 "replicate 8 0" "replicate 2 0" "[72, 105]"] ks
  show ?thesis by (auto simp: upt_rec)
qed

text \<open>The primes 2 and 3 give no keys: \<open>createKeys\<close> returns success, but both
  searches have no round and the keys keep whatever was in them.\<close>

theorem createKeys_of_2_3:
  "createKeys (\<lambda>n. n) keys = Some (0, keys\<lparr>rk_mod := 6\<rparr>)"
proof -
  have "primeNumbers ! 0 = 2" "primeNumbers ! 1 = 3" by (simp_all add: primeNumbers_def)
  then have "getPrime (\<lambda>n. n) 0x0FFF 0 = (2, 1)" "getPrime (\<lambda>n. n) 32767 1 = (3, 2)"
    using getPrime_first [where rand = "\<lambda>n. n" and pos = 0 and i = 0 and p = 2 and maxLimit = "0x0FFF"] getPrime_first [where rand = "\<lambda>n. n" and pos = 1 and i = 1 and p = 3 and maxLimit = 32767]
    by (simp_all add: NUMBER_PRIME_def numeral_2_eq_2)
  then have "pick_primes (\<lambda>n. n) 0 = Some (Some (2, 3))" by (subst pick_primes.simps) simp
  then show ?thesis by (simp add: createKeys_def search_key_def Let_def)
qed

end
