(* ===== verification/Basket_Format.thy ===== *)
theory Basket_Format
  imports Prelude
begin

text \<open>The files of the basket storage (src/include/udbasket.h): structures laid out as
  little-endian bytes, files as byte strings with a position, and system calls that can
  fail or transfer less than was asked for.  A \<open>long\<close> has 32 bits.\<close>

type_synonym byte = "8 word"

section \<open>Numbers as bytes\<close>

text \<open>The \<open>n\<close> low bytes of a number, the lowest first, and back, as an unsigned and as a
  signed number.\<close>

primrec le_bytes :: "nat \<Rightarrow> int \<Rightarrow> byte list" where
  "le_bytes 0 x = []"
| "le_bytes (Suc n) x = word_of_int x # le_bytes n (x div 256)"

primrec le_num :: "byte list \<Rightarrow> int" where
  "le_num [] = 0"
| "le_num (b # bs) = uint b + 256 * le_num bs"

definition le_int :: "byte list \<Rightarrow> int" where
  "le_int bs = (let u = le_num bs in if 2 * u < 256 ^ length bs then u else u - 256 ^ length bs)"

definition fits :: "nat \<Rightarrow> int \<Rightarrow> bool" where
  "fits n x \<longleftrightarrow> - (256 ^ n) \<le> 2 * x \<and> 2 * x < 256 ^ n"

lemma length_le_bytes [simp]: "length (le_bytes n x) = n"
  by (induction n arbitrary: x) auto

lemma le_num_le_bytes: "le_num (le_bytes n x) = x mod 256 ^ n"
proof (induction n arbitrary: x)
  case 0
  then show ?case by simp
next
  case (Suc n)
  have "uint (word_of_int x :: byte) = x mod 256" by (simp add: uint_word_of_int)
  moreover have "x mod 256 + 256 * (x div 256 mod 256 ^ n) = x mod (256 * 256 ^ n)"
    by (simp add: zmod_zmult2_eq)
  ultimately show ?case using Suc by simp
qed

lemma le_int_le_bytes:
  assumes "fits n x"
  shows "le_int (le_bytes n x) = x"
proof (cases "0 \<le> x")
  case True
  then have "x mod 256 ^ n = x" using assms by (simp add: fits_def)
  then show ?thesis using assms by (simp add: le_int_def le_num_le_bytes fits_def)
next
  case False
  have "0 \<le> x + 256 ^ n" "x + 256 ^ n < 256 ^ n" using assms False by (auto simp: fits_def)
  then have "(x + 256 ^ n) mod 256 ^ n = x + 256 ^ n" by (rule mod_pos_pos_trivial)
  then have "x mod 256 ^ n = x + 256 ^ n" by simp
  then show ?thesis using assms False by (simp add: le_int_def le_num_le_bytes fits_def)
qed

section \<open>Structures\<close>

text \<open>A structure is a list of members, each with its width in bytes.\<close>

definition enc :: "(nat \<times> int) list \<Rightarrow> byte list" where
  "enc fs = concat (map (\<lambda>(n, x). le_bytes n x) fs)"

primrec dec :: "nat list \<Rightarrow> byte list \<Rightarrow> int list" where
  "dec [] bs = []"
| "dec (n # ns) bs = le_int (take n bs) # dec ns (drop n bs)"

lemma enc_simps [simp]: "enc [] = []" "enc ((n, x) # fs) = le_bytes n x @ enc fs" "enc (fs @ gs) = enc fs @ enc gs"
  by (simp_all add: enc_def)

lemma length_enc: "length (enc fs) = sum_list (map fst fs)"
  by (induction fs) auto

lemma length_dec [simp]: "length (dec ns bs) = length ns"
  by (induction ns arbitrary: bs) auto

lemma dec_enc:
  assumes "\<forall>(n, x) \<in> set fs. fits n x"
  shows "dec (map fst fs) (enc fs @ rest) = map snd fs"
  using assms by (induction fs) (auto simp: le_int_le_bytes)

definition longs :: "int list \<Rightarrow> (nat \<times> int) list" where
  "longs xs = map (Pair 4) xs"

lemma length_enc_longs [simp]: "length (enc (longs xs)) = 4 * length xs"
  by (induction xs) (auto simp: longs_def)

abbreviation long :: "int \<Rightarrow> bool" where "long x \<equiv> fits 4 x"
abbreviation short :: "int \<Rightarrow> bool" where "short x \<equiv> fits 2 x"

section \<open>Files\<close>

text \<open>Writing at a position: the file is extended with zeros up to the position, and
  what follows the written bytes stays.\<close>

definition put_bytes :: "nat \<Rightarrow> byte list \<Rightarrow> byte list \<Rightarrow> byte list" where
  "put_bytes pos bs f = take pos (f @ replicate (pos - length f) 0) @ bs @ drop (pos + length bs) f"

definition get_bytes :: "nat \<Rightarrow> nat \<Rightarrow> byte list \<Rightarrow> byte list" where
  "get_bytes pos n f = take n (drop pos f)"

lemma length_put_bytes: "length (put_bytes pos bs f) = max (length f) (pos + length bs)"
  by (auto simp: put_bytes_def)

lemma get_put_same:
  assumes "pos \<le> length f"
  shows "get_bytes pos (length bs) (put_bytes pos bs f) = bs"
  using assms by (simp add: get_bytes_def put_bytes_def)

lemma take_put_bytes:
  assumes "n \<le> pos" "pos \<le> length f"
  shows "take n (put_bytes pos bs f) = take n f"
  using assms by (simp add: put_bytes_def)

text \<open>A file written up to a position: what a chunk written there adds.\<close>

lemma take_put_end:
  assumes "pos \<le> length f"
  shows "take (pos + length bs) (put_bytes pos bs f) = take pos f @ bs"
  using assms by (simp add: put_bytes_def)

lemma drop_put_bytes:
  assumes "pos + length bs \<le> n" "pos \<le> length f"
  shows "drop n (put_bytes pos bs f) = drop n f"
  using assms by (simp add: put_bytes_def) 

section \<open>Constants\<close>

text \<open>The identifiers are unsigned in the source and are compared as 32 bit patterns; here
  they are the values a \<open>long\<close> member holds.\<close>

definition BKT_MAX_CHANNEL :: nat where [const_defs]: "BKT_MAX_CHANNEL = 16"
definition MAX_HDD_COUNT :: nat where [const_defs]: "MAX_HDD_COUNT = 4"
definition BKT_OK :: int where [const_defs]: "BKT_OK = 1"
definition BKT_FULL :: int where [const_defs]: "BKT_FULL = 2"
definition BKT_OVERHDD :: int where [const_defs]: "BKT_OVERHDD = 5"
definition BKT_ERR :: int where [const_defs]: "BKT_ERR = -1"
definition S_OK :: int where [const_defs]: "S_OK = 1"
definition SIZE_MB :: int where [const_defs]: "SIZE_MB = 1024 * 1024"
definition BASKET_SIZE :: int where [const_defs]: "BASKET_SIZE = 629145600"
definition BKT_FORWARD :: int where [const_defs]: "BKT_FORWARD = 1"
definition BKT_BACKWARD :: int where [const_defs]: "BKT_BACKWARD = 0"
definition BKT_SPACE_REMAIN :: int where [const_defs]: "BKT_SPACE_REMAIN = 0"
definition BKT_SPACE_FULL :: int where [const_defs]: "BKT_SPACE_FULL = 1"
definition FT_IFRAME :: int where [const_defs]: "FT_IFRAME = 0"
definition FT_PFRAME :: int where [const_defs]: "FT_PFRAME = 1"
definition ST_VIDEO :: int where [const_defs]: "ST_VIDEO = 1"
definition ST_AUDIO :: int where [const_defs]: "ST_AUDIO = 2"
definition SF_EMPTY :: int where [const_defs]: "SF_EMPTY = 0"
definition SF_USING :: int where [const_defs]: "SF_USING = 1"
definition SF_STOP :: int where [const_defs]: "SF_STOP = 2"
definition SF_FULL :: int where [const_defs]: "SF_FULL = 3"
definition BKT_RECYCLE_ON :: int where [const_defs]: "BKT_RECYCLE_ON = 0"
definition BKT_RECYCLE_ONCE :: int where [const_defs]: "BKT_RECYCLE_ONCE = 1"
definition ID_BKTMGR_HEADER :: int where [const_defs]: "ID_BKTMGR_HEADER = 0xB0000001 - 2 ^ 32"
definition ID_BASKET_HDR :: int where [const_defs]: "ID_BASKET_HDR = 0xC0000001 - 2 ^ 32"
definition ID_VIDEO_HEADER :: int where [const_defs]: "ID_VIDEO_HEADER = 0xD0000001 - 2 ^ 32"
definition ID_AUDIO_HEADER :: int where [const_defs]: "ID_AUDIO_HEADER = 0xE0000001 - 2 ^ 32"
definition ID_INDEX_HEADER :: int where [const_defs]: "ID_INDEX_HEADER = 0xF0000001 - 2 ^ 32"
definition ID_INDEX_DATA :: int where [const_defs]: "ID_INDEX_DATA = 0xF0000002 - 2 ^ 32"
definition ID_BASKET_END :: int where [const_defs]: "ID_BASKET_END = 0xFFFFFFFF - 2 ^ 32"
definition BKT_STATUS_CLOSED :: int where [const_defs]: "BKT_STATUS_CLOSED = 0"
definition BKT_STATUS_OPENED :: int where [const_defs]: "BKT_STATUS_OPENED = 1"
definition BKT_STATUS_FULL :: int where [const_defs]: "BKT_STATUS_FULL = 3"
definition TOTAL_MINUTES_DAY :: nat where [const_defs]: "TOTAL_MINUTES_DAY = 1440"
definition BKT_BBUF_SIZE :: int where [const_defs]: "BKT_BBUF_SIZE = 12 * 1024 * 1024"
definition BKT_IBUF_SIZE :: int where [const_defs]: "BKT_IBUF_SIZE = 1 * 1024"
definition BKT_RBUF_SIZE :: int where [const_defs]: "BKT_RBUF_SIZE = 1024"
definition SIZEOF_RDB_PRM :: int where [const_defs]: "SIZEOF_RDB_PRM = 20"
definition SIZEOF_STREAM_HDR :: int where [const_defs]: "SIZEOF_STREAM_HDR = 44"
definition SIZEOF_VSTREAM_HDR :: int where [const_defs]: "SIZEOF_VSTREAM_HDR = 40"
definition SIZEOF_ASTREAM_HDR :: int where [const_defs]: "SIZEOF_ASTREAM_HDR = 24"
definition SIZEOF_INDEX_DATA :: int where [const_defs]: "SIZEOF_INDEX_DATA = 44"

section \<open>The structures\<close>

record bkt_tm =
  tm_year :: int
  tm_mon :: int
  tm_mday :: int
  tm_hour :: int
  tm_min :: int

text \<open>Start and end times of the 16 channels, in seconds and microseconds.\<close>

record basket_time =
  bt_t1 :: "(int \<times> int) list"
  bt_t2 :: "(int \<times> int) list"

definition no_time :: basket_time where
  "no_time = \<lparr>bt_t1 = replicate BKT_MAX_CHANNEL (0, 0), bt_t2 = replicate BKT_MAX_CHANNEL (0, 0)\<rparr>"

definition ts_longs :: "basket_time \<Rightarrow> int list" where
  "ts_longs t = concat (map (\<lambda>(s, u). [s, u]) (bt_t1 t @ bt_t2 t))"

fun pairs :: "int list \<Rightarrow> (int \<times> int) list" where
  "pairs (s # u # xs) = (s, u) # pairs xs"
| "pairs xs = []"

definition ts_of_longs :: "int list \<Rightarrow> basket_time" where
  "ts_of_longs xs = (let ps = pairs xs in
    \<lparr>bt_t1 = take BKT_MAX_CHANNEL ps, bt_t2 = take BKT_MAX_CHANNEL (drop BKT_MAX_CHANNEL ps)\<rparr>)"

record basket_hdr =
  bh_id :: int
  bh_bid :: int
  bh_latest_update :: int
  bh_lPriority :: int
  bh_s_type :: int
  bh_ts :: basket_time
  bh_save_flag :: int
  bh_totalframecount :: int
  bh_reserved :: int

definition enc_basket_hdr :: "basket_hdr \<Rightarrow> byte list" where
  "enc_basket_hdr h = enc (longs ([bh_id h, bh_bid h, bh_latest_update h, bh_lPriority h, bh_s_type h]
     @ ts_longs (bh_ts h) @ [bh_save_flag h, bh_totalframecount h, bh_reserved h]))"

text \<open>The size of the structure.\<close>

definition BASKET_HDR_LEN :: nat where [const_defs]: "BASKET_HDR_LEN = 288"

definition dec_basket_hdr :: "byte list \<Rightarrow> basket_hdr" where
  "dec_basket_hdr bs = (let xs = dec (replicate 72 4) bs in
    \<lparr>bh_id = xs ! 0, bh_bid = xs ! 1, bh_latest_update = xs ! 2, bh_lPriority = xs ! 3, bh_s_type = xs ! 4,
     bh_ts = ts_of_longs (take 64 (drop 5 xs)), bh_save_flag = xs ! 69, bh_totalframecount = xs ! 70, bh_reserved = xs ! 71\<rparr>)"

record index_hdr =
  ih_id :: int
  ih_bid :: int
  ih_count :: int
  ih_ts :: basket_time
  ih_reserved :: int

definition INDEX_HDR_LEN :: nat where [const_defs]: "INDEX_HDR_LEN = 272"

definition enc_index_hdr :: "index_hdr \<Rightarrow> byte list" where
  "enc_index_hdr h = enc (longs ([ih_id h, ih_bid h, ih_count h] @ ts_longs (ih_ts h) @ [ih_reserved h]))"

definition dec_index_hdr :: "byte list \<Rightarrow> index_hdr" where
  "dec_index_hdr bs = (let xs = dec (replicate 68 4) bs in
    \<lparr>ih_id = xs ! 0, ih_bid = xs ! 1, ih_count = xs ! 2, ih_ts = ts_of_longs (take 64 (drop 3 xs)), ih_reserved = xs ! 67\<rparr>)"

record index_data =
  ix_id :: int
  ix_sec :: int
  ix_usec :: int
  ix_fpos :: int
  ix_ch :: int
  ix_s_type :: int
  ix_event :: int
  ix_width :: int
  ix_height :: int
  ix_capMode :: int
  ix_reserved1 :: int
  ix_reserved2 :: int

definition INDEX_DATA_LEN :: nat where [const_defs]: "INDEX_DATA_LEN = 44"

definition index_data_fields :: "nat list" where
  "index_data_fields = [4, 4, 4, 4, 4, 4, 4, 2, 2, 4, 4, 4]"

definition enc_index_data :: "index_data \<Rightarrow> byte list" where
  "enc_index_data d = enc (zip index_data_fields [ix_id d, ix_sec d, ix_usec d, ix_fpos d, ix_ch d, ix_s_type d, ix_event d,
     ix_width d, ix_height d, ix_capMode d, ix_reserved1 d, ix_reserved2 d])"

definition dec_index_data :: "byte list \<Rightarrow> index_data" where
  "dec_index_data bs = (let xs = dec index_data_fields bs in
    \<lparr>ix_id = xs ! 0, ix_sec = xs ! 1, ix_usec = xs ! 2, ix_fpos = xs ! 3, ix_ch = xs ! 4, ix_s_type = xs ! 5, ix_event = xs ! 6,
     ix_width = xs ! 7, ix_height = xs ! 8, ix_capMode = xs ! 9, ix_reserved1 = xs ! 10, ix_reserved2 = xs ! 11\<rparr>)"

record stream_hdr =
  sh_id :: int
  sh_ch :: int
  sh_framesize :: int
  sh_sec :: int
  sh_usec :: int
  sh_frametype :: int
  sh_prevFpos :: int
  sh_reserved :: "int list"

definition STREAM_HDR_LEN :: nat where [const_defs]: "STREAM_HDR_LEN = 44"

definition enc_stream_hdr :: "stream_hdr \<Rightarrow> byte list" where
  "enc_stream_hdr h = enc (longs ([sh_id h, sh_ch h, sh_framesize h, sh_sec h, sh_usec h, sh_frametype h, sh_prevFpos h]
     @ sh_reserved h))"

definition dec_stream_hdr :: "byte list \<Rightarrow> stream_hdr" where
  "dec_stream_hdr bs = (let xs = dec (replicate 11 4) bs in
    \<lparr>sh_id = xs ! 0, sh_ch = xs ! 1, sh_framesize = xs ! 2, sh_sec = xs ! 3, sh_usec = xs ! 4, sh_frametype = xs ! 5,
     sh_prevFpos = xs ! 6, sh_reserved = drop 7 xs\<rparr>)"

record video_hdr =
  vh_audioONOFF :: int
  vh_framerate :: int
  vh_event :: int
  vh_width :: int
  vh_height :: int
  vh_camName :: "int list"
  vh_capMode :: int
  vh_reserved1 :: int
  vh_reserved2 :: int

definition VIDEO_HDR_LEN :: nat where [const_defs]: "VIDEO_HDR_LEN = 40"

definition video_hdr_fields :: "nat list" where
  "video_hdr_fields = [2, 2, 4, 2, 2] @ replicate 16 1 @ [4, 4, 4]"

definition enc_video_hdr :: "video_hdr \<Rightarrow> byte list" where
  "enc_video_hdr h = enc (zip video_hdr_fields ([vh_audioONOFF h, vh_framerate h, vh_event h, vh_width h, vh_height h]
     @ vh_camName h @ [vh_capMode h, vh_reserved1 h, vh_reserved2 h]))"

definition dec_video_hdr :: "byte list \<Rightarrow> video_hdr" where
  "dec_video_hdr bs = (let xs = dec video_hdr_fields bs in
    \<lparr>vh_audioONOFF = xs ! 0, vh_framerate = xs ! 1, vh_event = xs ! 2, vh_width = xs ! 3, vh_height = xs ! 4,
     vh_camName = take 16 (drop 5 xs), vh_capMode = xs ! 21, vh_reserved1 = xs ! 22, vh_reserved2 = xs ! 23\<rparr>)"

record audio_hdr =
  ah_samplingrate :: int
  ah_bitspersample :: int
  ah_achannel :: int
  ah_codec :: int
  ah_reserved1 :: int
  ah_reserved2 :: int

definition AUDIO_HDR_LEN :: nat where [const_defs]: "AUDIO_HDR_LEN = 24"

definition enc_audio_hdr :: "audio_hdr \<Rightarrow> byte list" where
  "enc_audio_hdr h = enc (longs [ah_samplingrate h, ah_bitspersample h, ah_achannel h, ah_codec h, ah_reserved1 h, ah_reserved2 h])"

definition dec_audio_hdr :: "byte list \<Rightarrow> audio_hdr" where
  "dec_audio_hdr bs = (let xs = dec (replicate 6 4) bs in
    \<lparr>ah_samplingrate = xs ! 0, ah_bitspersample = xs ! 1, ah_achannel = xs ! 2, ah_codec = xs ! 3,
     ah_reserved1 = xs ! 4, ah_reserved2 = xs ! 5\<rparr>)"

section \<open>Reading back what was laid out\<close>

lemma dec_longs:
  assumes "\<forall>x \<in> set xs. long x" "length xs = n"
  shows "dec (replicate n 4) (enc (longs xs) @ rest) = xs"
proof -
  have "dec (map fst (longs xs)) (enc (longs xs) @ rest) = map snd (longs xs)"
    by (rule dec_enc) (use assms in \<open>auto simp: longs_def\<close>)
  then show ?thesis by (simp add: longs_def comp_def map_replicate_const assms(2))
qed

definition stream_hdr_ok :: "stream_hdr \<Rightarrow> bool" where
  "stream_hdr_ok h \<longleftrightarrow> length (sh_reserved h) = 4
    \<and> (\<forall>x \<in> set ([sh_id h, sh_ch h, sh_framesize h, sh_sec h, sh_usec h, sh_frametype h, sh_prevFpos h] @ sh_reserved h). long x)"

lemma length_stream_hdr [simp]: "length (sh_reserved h) = 4 \<Longrightarrow> length (enc_stream_hdr h) = STREAM_HDR_LEN"
  by (simp add: enc_stream_hdr_def const_defs)

lemma dec_enc_stream_hdr:
  assumes "stream_hdr_ok h"
  shows "dec_stream_hdr (enc_stream_hdr h @ rest) = h"
proof -
  define xs where "xs = [sh_id h, sh_ch h, sh_framesize h, sh_sec h, sh_usec h, sh_frametype h, sh_prevFpos h] @ sh_reserved h"
  have len: "length xs = 11" and longs: "\<forall>x \<in> set xs. long x"
    using assms by (auto simp: stream_hdr_ok_def xs_def)
  have e: "enc_stream_hdr h = enc (longs xs)" by (simp add: enc_stream_hdr_def xs_def)
  show ?thesis unfolding dec_stream_hdr_def e dec_longs [OF longs len] Let_def by (simp add: xs_def)
qed

definition index_data_ok :: "index_data \<Rightarrow> bool" where
  "index_data_ok d \<longleftrightarrow> (\<forall>x \<in> {ix_id d, ix_sec d, ix_usec d, ix_fpos d, ix_ch d, ix_s_type d, ix_event d, ix_capMode d, ix_reserved1 d, ix_reserved2 d}. long x)
    \<and> short (ix_width d) \<and> short (ix_height d)"

lemma length_index_data [simp]: "length (enc_index_data d) = INDEX_DATA_LEN"
  by (simp add: enc_index_data_def index_data_fields_def const_defs)

lemma dec_enc_index_data:
  assumes "index_data_ok d"
  shows "dec_index_data (enc_index_data d @ rest) = d"
proof -
  define xs where "xs = [ix_id d, ix_sec d, ix_usec d, ix_fpos d, ix_ch d, ix_s_type d, ix_event d,
     ix_width d, ix_height d, ix_capMode d, ix_reserved1 d, ix_reserved2 d]"
  have "dec (map fst (zip index_data_fields xs)) (enc (zip index_data_fields xs) @ rest) = map snd (zip index_data_fields xs)"
    by (rule dec_enc) (use assms in \<open>auto simp: index_data_ok_def index_data_fields_def xs_def\<close>)
  then have "dec index_data_fields (enc_index_data d @ rest) = xs"
    by (simp add: enc_index_data_def xs_def index_data_fields_def)
  then show ?thesis unfolding dec_index_data_def Let_def by (simp add: xs_def)
qed

definition video_hdr_ok :: "video_hdr \<Rightarrow> bool" where
  "video_hdr_ok h \<longleftrightarrow> length (vh_camName h) = 16 \<and> (\<forall>x \<in> set (vh_camName h). fits 1 x)
    \<and> (\<forall>x \<in> {vh_audioONOFF h, vh_framerate h, vh_width h, vh_height h}. short x)
    \<and> (\<forall>x \<in> {vh_event h, vh_capMode h, vh_reserved1 h, vh_reserved2 h}. long x)"

lemma length_video_hdr [simp]: "length (vh_camName h) = 16 \<Longrightarrow> length (enc_video_hdr h) = VIDEO_HDR_LEN"
  by (simp add: enc_video_hdr_def video_hdr_fields_def length_enc const_defs sum_list_replicate)

lemma dec_enc_video_hdr:
  assumes "video_hdr_ok h"
  shows "dec_video_hdr (enc_video_hdr h @ rest) = h"
proof -
  define xs where "xs = [vh_audioONOFF h, vh_framerate h, vh_event h, vh_width h, vh_height h]
     @ vh_camName h @ [vh_capMode h, vh_reserved1 h, vh_reserved2 h]"
  have len: "length xs = 24" using assms by (simp add: video_hdr_ok_def xs_def)
  have name: "length (vh_camName h) = 16" using assms by (simp add: video_hdr_ok_def)
  have "dec (map fst (zip video_hdr_fields xs)) (enc (zip video_hdr_fields xs) @ rest) = map snd (zip video_hdr_fields xs)"
  proof (rule dec_enc, safe)
    fix n x assume mem: "(n, x) \<in> set (zip video_hdr_fields xs)"
    have z: "zip video_hdr_fields xs = zip [2, 2, 4, 2, 2] [vh_audioONOFF h, vh_framerate h, vh_event h, vh_width h, vh_height h]
       @ zip (replicate 16 1) (vh_camName h) @ zip [4, 4, 4] [vh_capMode h, vh_reserved1 h, vh_reserved2 h]"
      using name by (simp add: video_hdr_fields_def xs_def)
    have "n = 1 \<and> x \<in> set (vh_camName h)" if "(n, x) \<in> set (zip (replicate 16 1) (vh_camName h))"
      using that by (auto dest: set_zip_leftD set_zip_rightD)
    then show "fits n x" using mem assms unfolding z by (auto simp: video_hdr_ok_def)
  qed
  moreover have "length video_hdr_fields = 24" by (simp add: video_hdr_fields_def)
  ultimately have "dec video_hdr_fields (enc_video_hdr h @ rest) = xs"
    using len by (simp add: enc_video_hdr_def xs_def)
  then show ?thesis unfolding dec_video_hdr_def Let_def by (simp add: xs_def name nth_append)
qed

definition audio_hdr_ok :: "audio_hdr \<Rightarrow> bool" where
  "audio_hdr_ok h \<longleftrightarrow> (\<forall>x \<in> {ah_samplingrate h, ah_bitspersample h, ah_achannel h, ah_codec h, ah_reserved1 h, ah_reserved2 h}. long x)"

lemma length_audio_hdr [simp]: "length (enc_audio_hdr h) = AUDIO_HDR_LEN"
  by (simp add: enc_audio_hdr_def const_defs)

lemma dec_enc_audio_hdr:
  assumes "audio_hdr_ok h"
  shows "dec_audio_hdr (enc_audio_hdr h @ rest) = h"
proof -
  define xs where "xs = [ah_samplingrate h, ah_bitspersample h, ah_achannel h, ah_codec h, ah_reserved1 h, ah_reserved2 h]"
  have e: "enc_audio_hdr h = enc (longs xs)" by (simp add: enc_audio_hdr_def xs_def)
  have len: "length xs = 6" and longs: "\<forall>x \<in> set xs. long x"
    using assms by (auto simp: audio_hdr_ok_def xs_def)
  show ?thesis unfolding dec_audio_hdr_def e dec_longs [OF longs len] Let_def by (simp add: xs_def)
qed

end
