(* ===== verification/Basket_Rec.thy ===== *)
theory Basket_Rec
  imports Basket_Format
begin

text \<open>The recorder of the basket storage (src/basket_rec.c, src/udbasket.c): frames are
  collected in buffers and written to the open basket file, key frames to its index
  file, and once a minute and channel an entry to the record database (rdb) of the
  day.  A full basket is closed and the next one opened.\<close>

section \<open>Disks\<close>

text \<open>The manager file of a disk lists its baskets.\<close>

record mgr_body =
  mb_id :: int
  mb_bid :: int
  mb_path :: nat
  mb_latest_update :: int
  mb_lPriority :: int
  mb_s_type :: int
  mb_ts :: basket_time
  mb_save_flag :: int
  mb_lRecycleCount :: int

record mgr_file =
  mf_id :: int
  mf_mgrid :: int
  mf_date :: int
  mf_latest_update :: int
  mf_bkt_count :: int
  mf_bodies :: "mgr_body list"

record rec_info =
  ri_save_flag :: int
  ri_bid :: int
  ri_path :: nat

text \<open>The record database of a day: for every channel and minute the event and the place
  of the first key frame.  None: the file ends before that part.\<close>

record rdb_file =
  rf_evts :: "(nat \<Rightarrow> int) option"
  rf_rdbs :: "(nat \<Rightarrow> int \<times> int) option"

text \<open>A disk, with its files: None is a file that does not exist, Some None an info file
  that is empty; the files of the record database are named by the number
  that their name shows.\<close>

record bkt_disk =
  dk_mgr :: "mgr_file option"
  dk_info :: "rec_info option option"
  dk_bkt :: "int \<rightharpoonup> byte list"
  dk_idx :: "int \<rightharpoonup> byte list"
  dk_rdb_dir :: bool
  dk_rdb :: "int \<rightharpoonup> rdb_file"

text \<open>The environment of a call: \<open>ev_io l r\<close> is the most bytes that the system call on line
  \<open>l\<close> of the source transfers in round \<open>r\<close> of its loop (None: no limit, Some 0: the
  call fails); the time, local time, and what the uninitialised local structures hold,
  for the recorder as structures and for the players as the bytes on the stack.
  The manager, info and rdb files are read and written whole or not at all.\<close>

record bkt_env =
  ev_io :: "nat \<Rightarrow> nat \<Rightarrow> nat option"
  ev_now :: int
  ev_local :: "int \<Rightarrow> bkt_tm"
  ev_sh :: stream_hdr
  ev_ah :: audio_hdr
  ev_ix :: index_data
  ev_bh :: basket_hdr
  ev_ih :: index_hdr
  ev_junk :: "nat \<Rightarrow> nat \<Rightarrow> byte"

abbreviation sys_ok :: "bkt_env \<Rightarrow> nat \<Rightarrow> bool" where
  "sys_ok ev l \<equiv> ev_io ev l 0 \<noteq> Some 0"

definition day_key :: "bkt_tm \<Rightarrow> int" where
  "day_key tm = tm_year tm * 10000 + tm_mon tm * 100 + tm_mday tm"

datatype fkind = Bkt | Idx

record bkt_handle =
  hd_kind :: fkind
  hd_disk :: nat
  hd_bid :: int
  hd_pos :: nat

type_synonym disks = "nat \<Rightarrow> bkt_disk"

definition the_file :: "disks \<Rightarrow> fkind \<Rightarrow> nat \<Rightarrow> int \<Rightarrow> byte list option" where
  "the_file ds k d b = (case k of Bkt \<Rightarrow> dk_bkt (ds d) b | Idx \<Rightarrow> dk_idx (ds d) b)"

definition file_of :: "bkt_handle \<Rightarrow> disks \<Rightarrow> byte list" where
  "file_of h ds = (case the_file ds (hd_kind h) (hd_disk h) (hd_bid h) of None \<Rightarrow> [] | Some f \<Rightarrow> f)"

definition set_file :: "fkind \<Rightarrow> nat \<Rightarrow> int \<Rightarrow> byte list \<Rightarrow> disks \<Rightarrow> disks" where
  "set_file k d b f ds = ds(d := (case k of
     Bkt \<Rightarrow> (ds d)\<lparr>dk_bkt := (dk_bkt (ds d))(b \<mapsto> f)\<rparr>
   | Idx \<Rightarrow> (ds d)\<lparr>dk_idx := (dk_idx (ds d))(b \<mapsto> f)\<rparr>))"

text \<open>\<open>write\<close>, \<open>read\<close>, \<open>lseek\<close> from the start and the current position (-1 on a closed
  handle).  \<open>WRITE_ST\<close> and \<open>READ_ST\<close> take every transfer of at least one byte for a
  success.\<close>

definition h_write :: "nat option \<Rightarrow> byte list \<Rightarrow> bkt_handle option \<Rightarrow> disks \<Rightarrow> bool \<times> bkt_handle option \<times> disks" where
  "h_write cap bs h ds = (case h of
     None \<Rightarrow> (False, None, ds)
   | Some fh \<Rightarrow>
       let out = (case cap of None \<Rightarrow> bs | Some n \<Rightarrow> take n bs) in
       (out \<noteq> [], Some (fh\<lparr>hd_pos := hd_pos fh + length out\<rparr>),
        if out = [] then ds
        else set_file (hd_kind fh) (hd_disk fh) (hd_bid fh) (put_bytes (hd_pos fh) out (file_of fh ds)) ds))"

definition h_seek :: "nat \<Rightarrow> bkt_handle option \<Rightarrow> bool \<times> bkt_handle option" where
  "h_seek pos h = (h \<noteq> None, map_option (\<lambda>fh. fh\<lparr>hd_pos := pos\<rparr>) h)"

definition h_tell :: "bkt_handle option \<Rightarrow> int" where
  "h_tell h = (case h of None \<Rightarrow> -1 | Some fh \<Rightarrow> int (hd_pos fh))"

definition h_read :: "nat option \<Rightarrow> nat \<Rightarrow> bkt_handle option \<Rightarrow> disks \<Rightarrow> byte list \<times> bkt_handle option" where
  "h_read cap n h ds = (case h of
     None \<Rightarrow> ([], None)
   | Some fh \<Rightarrow>
       let bs = get_bytes (hd_pos fh) (case cap of None \<Rightarrow> n | Some k \<Rightarrow> min k n) (file_of fh ds) in
       (bs, Some (fh\<lparr>hd_pos := hd_pos fh + length bs\<rparr>)))"

section \<open>The recorder\<close>

record rdb_prm =
  rp_ch :: int
  rp_sec :: int
  rp_evt :: int
  rp_bid :: int
  rp_idx_pos :: int

text \<open>\<open>BKTREC_CTRL\<close>.  The buffers are lists: \<open>b_pos\<close> and \<open>i_pos\<close> are the lengths of what
  has been put in, \<open>r_pos\<close> is the length times the size of an entry.\<close>

record bktrec =
  rc_bid :: int
  rc_fpos_bkt :: int
  rc_fpos_idx :: int
  rc_prev_day :: int
  rc_prev_min :: "int list"
  rc_bkt_secs :: basket_time
  rc_idx_secs :: basket_time
  rc_b_buf :: "byte list"
  rc_i_buf :: "byte list"
  rc_idx_pos :: "int list"
  rc_r_buf :: "rdb_prm list"
  rc_r_skip :: bool
  rc_target_path :: nat
  rc_bkt_cnt :: int

definition rc_b_pos :: "bktrec \<Rightarrow> int" where "rc_b_pos c = int (length (rc_b_buf c))"
definition rc_i_pos :: "bktrec \<Rightarrow> int" where "rc_i_pos c = int (length (rc_i_buf c))"
definition rc_r_pos :: "bktrec \<Rightarrow> int" where "rc_r_pos c = SIZEOF_RDB_PRM * int (length (rc_r_buf c))"

record hdd_info =
  hi_isMounted :: bool
  hi_prevHddIdx :: nat
  hi_nextHddIdx :: nat
  hi_formatDate :: int
  hi_initUsedSize :: int
  hi_mountDiskPath :: nat

record mount_info =
  mi_hddCnt :: int
  mi_curHddIdx :: nat
  mi_hddInfo :: "hdd_info list"

record hdd_mgr =
  hm_curid :: int
  hm_hddcnt :: int

record rec_world =
  rw_disks :: disks
  rw_hddmgr :: "hdd_mgr option option"
  rw_mount :: mount_info
  rw_space :: int
  rw_status :: int
  rw_recycle :: int
  rw_ctrl :: bktrec
  rw_hbkt :: "bkt_handle option"
  rw_hidx :: "bkt_handle option"
  rw_prevFpos :: int

abbreviation upd_ctrl :: "(bktrec \<Rightarrow> bktrec) \<Rightarrow> rec_world \<Rightarrow> rec_world" where
  "upd_ctrl f w \<equiv> w\<lparr>rw_ctrl := f (rw_ctrl w)\<rparr>"

abbreviation cur_disk :: "rec_world \<Rightarrow> bkt_disk" where
  "cur_disk w \<equiv> rw_disks w (rc_target_path (rw_ctrl w))"

definition upd_disk :: "(bkt_disk \<Rightarrow> bkt_disk) \<Rightarrow> rec_world \<Rightarrow> rec_world" where
  "upd_disk f w = w\<lparr>rw_disks := (rw_disks w)(rc_target_path (rw_ctrl w) := f (cur_disk w))\<rparr>"

section \<open>Times and counts\<close>

definition BKT_GetMaxTS :: "(int \<times> int) list \<Rightarrow> int" where
  "BKT_GetMaxTS arr = fold (\<lambda>t m. if fst t > m then fst t else m) arr 0"

definition BKT_GetMinTS :: "(int \<times> int) list \<Rightarrow> int" where
  "BKT_GetMinTS arr = fold (\<lambda>t m. if fst t \<noteq> 0 then (if fst t < m then fst t else m) else m) arr 0x7fffffff"

text \<open>Unsigned 32 bit arithmetic.\<close>

definition BKT_transIndexPosToNum :: "int \<Rightarrow> int" where
  "BKT_transIndexPosToNum fpos = (fpos - int INDEX_HDR_LEN) mod 2 ^ 32 div int INDEX_DATA_LEN"

definition BKT_transIndexNumToPos :: "int \<Rightarrow> int" where
  "BKT_transIndexNumToPos n = (n * int INDEX_DATA_LEN + int INDEX_HDR_LEN) mod 2 ^ 32"

definition BKT_GetRecordingIndexCount :: "bktrec \<Rightarrow> int" where
  "BKT_GetRecordingIndexCount c = BKT_transIndexPosToNum (rc_fpos_idx c)"

definition BKTREC_checkBasketSize :: "int \<Rightarrow> int \<Rightarrow> int \<Rightarrow> int" where
  "BKTREC_checkBasketSize fpbasket fpindex framesize =
    (let basketsize = fpbasket + framesize + fpindex in if basketsize < BASKET_SIZE then 1 else 0)"

definition BKTREC_IsOpenBasket :: "rec_world \<Rightarrow> bool" where
  "BKTREC_IsOpenBasket w \<longleftrightarrow> rw_status w = BKT_STATUS_OPENED"

definition BKT_SetRecycleMode :: "int \<Rightarrow> rec_world \<Rightarrow> int \<times> rec_world" where
  "BKT_SetRecycleMode recycle w = (1, w\<lparr>rw_recycle := recycle\<rparr>)"

definition BKT_isRecording :: "int \<Rightarrow> nat \<Rightarrow> rec_world \<Rightarrow> bool" where
  "BKT_isRecording bid target_path w \<longleftrightarrow> bid = rc_bid (rw_ctrl w) \<and> rc_target_path (rw_ctrl w) = target_path"

section \<open>The record database\<close>

definition rdb_offset :: "int \<Rightarrow> bkt_tm \<Rightarrow> nat" where
  "rdb_offset ch tm = nat (int TOTAL_MINUTES_DAY * ch + (tm_hour tm * 60 + tm_min tm))"

text \<open>The events of the file are bytes.\<close>

definition evt_char :: "int \<Rightarrow> int" where
  "evt_char e = le_int (le_bytes 1 e)"

text \<open>The loop over the buffered entries, up to the first one of another day: what becomes
  of the arrays, how many cells are set, and the entries that remain.\<close>

fun rdb_loop :: "(int \<Rightarrow> bkt_tm) \<Rightarrow> int \<Rightarrow> rdb_prm list \<Rightarrow> (nat \<Rightarrow> int) \<Rightarrow> (nat \<Rightarrow> int \<times> int) \<Rightarrow> nat
    \<Rightarrow> (nat \<Rightarrow> int) \<times> (nat \<Rightarrow> int \<times> int) \<times> nat \<times> rdb_prm list" where
  "rdb_loop local prev_day [] evts rdbs beUpdate = (evts, rdbs, beUpdate, [])"
| "rdb_loop local prev_day (p # ps) evts rdbs beUpdate =
    (let tm = local (rp_sec p); offset = rdb_offset (rp_ch p) tm in
     if prev_day \<noteq> tm_mday tm then (evts, rdbs, beUpdate, p # ps)
     else if fst (rdbs offset) = 0
     then rdb_loop local prev_day ps (evts(offset := evt_char (rp_evt p))) (rdbs(offset := (rp_bid p, rp_idx_pos p))) (beUpdate + 1)
     else rdb_loop local prev_day ps evts rdbs beUpdate)"

text \<open>What the arrays hold when the file of the day is opened or created: None if that
  fails.\<close>

definition rdb_open :: "bkt_env \<Rightarrow> int \<Rightarrow> bkt_disk \<Rightarrow> ((nat \<Rightarrow> int) \<times> (nat \<Rightarrow> int \<times> int)) option \<times> bkt_disk" where
  "rdb_open ev key d =
    (case dk_rdb d key of
       Some f \<Rightarrow>
         (if \<not> sys_ok ev 2276 then (None, d)
          else case (rf_evts f, rf_rdbs f) of
            (Some e, Some r) \<Rightarrow> if sys_ok ev 2282 \<and> sys_ok ev 2289 then (Some (e, r), d) else (None, d)
          | _ \<Rightarrow> (None, d))
     | None \<Rightarrow>
         (if \<not> dk_rdb_dir d \<and> \<not> sys_ok ev 2301 then (None, d)
          else let d1 = d\<lparr>dk_rdb_dir := True\<rparr> in
            if \<not> sys_ok ev 2309 then (None, d1)
            else (Some (\<lambda>_. 0, \<lambda>_. (0, 0)), d1\<lparr>dk_rdb := (dk_rdb d1)(key \<mapsto> \<lparr>rf_evts = None, rf_rdbs = None\<rparr>)\<rparr>)))"

definition BKTREC_Flush_RDBDATA :: "bkt_env \<Rightarrow> rec_world \<Rightarrow> int \<times> rec_world" where
  "BKTREC_Flush_RDBDATA ev w =
    (case rc_r_buf (rw_ctrl w) of
       [] \<Rightarrow> (BKT_ERR, w)
     | p # ps \<Rightarrow>
         let tm = ev_local ev (rp_sec p); key = day_key tm in
         case rdb_open ev key (cur_disk w) of
           (None, d1) \<Rightarrow> (BKT_ERR, upd_disk (\<lambda>d. d1) w)
         | (Some (evts, rdbs), d1) \<Rightarrow>
             (case rdb_loop (ev_local ev) (tm_mday tm) (p # ps) evts rdbs 0 of
                (evts1, rdbs1, beUpdate, rest) \<Rightarrow>
                  let w1 = upd_ctrl (rc_r_buf_update (\<lambda>_. rest)) (upd_disk (\<lambda>d. d1) w);
                      f = the (dk_rdb d1 key) in
                  if beUpdate = 0 then (BKT_OK, w1)
                  else if \<not> sys_ok ev 2363 \<or> \<not> sys_ok ev 2371 then (BKT_ERR, w1)
                  else if \<not> sys_ok ev 2379
                  then (BKT_ERR, upd_disk (\<lambda>d. d\<lparr>dk_rdb := (dk_rdb d)(key \<mapsto> f\<lparr>rf_evts := Some evts1\<rparr>)\<rparr>) w1)
                  else (BKT_OK, upd_disk (\<lambda>d. d\<lparr>dk_rdb := (dk_rdb d)(key \<mapsto> \<lparr>rf_evts = Some evts1, rf_rdbs = Some rdbs1\<rparr>)\<rparr>) w1)))"

section \<open>Flushing the buffers\<close>

definition flush_bkt :: "bkt_env \<Rightarrow> rec_world \<Rightarrow> bool \<times> rec_world" where
  "flush_bkt ev w =
    (if rc_b_buf (rw_ctrl w) = [] then (True, w)
     else case h_write (ev_io ev 2403 0) (rc_b_buf (rw_ctrl w)) (rw_hbkt w) (rw_disks w) of
       (ok, h, ds) \<Rightarrow>
         let w1 = w\<lparr>rw_hbkt := h, rw_disks := ds\<rparr> in
         if \<not> ok then (False, w1)
         else (True, upd_ctrl (\<lambda>c. c\<lparr>rc_fpos_bkt := h_tell h, rc_b_buf := []\<rparr>) w1))"

definition flush_idx :: "bkt_env \<Rightarrow> rec_world \<Rightarrow> bool \<times> rec_world" where
  "flush_idx ev w =
    (if rc_i_buf (rw_ctrl w) = [] then (True, w)
     else case h_write (ev_io ev 2421 0) (rc_i_buf (rw_ctrl w)) (rw_hidx w) (rw_disks w) of
       (ok, h, ds) \<Rightarrow>
         let w1 = w\<lparr>rw_hidx := h, rw_disks := ds\<rparr> in
         if \<not> ok then (False, w1)
         else (True, upd_ctrl (\<lambda>c. c\<lparr>rc_fpos_idx := h_tell h, rc_i_buf := []\<rparr>) w1))"

definition flush_rdb :: "bkt_env \<Rightarrow> rec_world \<Rightarrow> int \<times> rec_world" where
  "flush_rdb ev w =
    (if rc_r_buf (rw_ctrl w) \<noteq> [] \<and> rc_r_skip (rw_ctrl w)
     then (case BKTREC_Flush_RDBDATA ev w of
             (st, w1) \<Rightarrow> if st = BKT_ERR then (BKT_ERR, upd_ctrl (rc_r_buf_update (\<lambda>_. [])) w1) else (BKT_OK, w1))
     else (BKT_OK, w))"

definition BKTREC_FlushWriteBuffer :: "bkt_env \<Rightarrow> rec_world \<Rightarrow> int \<times> rec_world" where
  "BKTREC_FlushWriteBuffer ev w =
    (case flush_bkt ev w of
       (False, w1) \<Rightarrow> (BKT_ERR, w1)
     | (True, w1) \<Rightarrow>
         (case flush_idx ev w1 of
            (False, w2) \<Rightarrow> (BKT_ERR, w2)
          | (True, w2) \<Rightarrow> flush_rdb ev w2))"

section \<open>The manager file\<close>

text \<open>The search of the loops over the bodies: None at a failed read or at the end.\<close>

fun mgr_find :: "bkt_env \<Rightarrow> nat \<Rightarrow> (mgr_body \<Rightarrow> bool) \<Rightarrow> nat \<Rightarrow> nat \<Rightarrow> mgr_body list \<Rightarrow> (nat \<times> mgr_body) option" where
  "mgr_find ev l P 0 i bodies = None"
| "mgr_find ev l P (Suc n) i bodies =
    (if ev_io ev l i = Some 0 \<or> i \<ge> length bodies then None
     else if P (bodies ! i) then Some (i, bodies ! i)
     else mgr_find ev l P n (Suc i) bodies)"

definition BKTREC_get_count :: "bkt_env \<Rightarrow> nat \<Rightarrow> rec_world \<Rightarrow> int" where
  "BKTREC_get_count ev diskpath w =
    (case dk_mgr (rw_disks w diskpath) of None \<Rightarrow> 0
     | Some m \<Rightarrow> if sys_ok ev 161 \<and> sys_ok ev 167 then mf_bkt_count m else 0)"

definition search_info :: "bkt_env \<Rightarrow> nat \<Rightarrow> nat \<Rightarrow> int \<Rightarrow> rec_world \<Rightarrow> int" where
  "search_info ev lopen lread flag w =
    (case dk_info (cur_disk w) of None \<Rightarrow> BKT_ERR
     | Some None \<Rightarrow> BKT_ERR
     | Some (Some bi) \<Rightarrow>
         if \<not> sys_ok ev lopen \<or> \<not> sys_ok ev lread then BKT_ERR
         else if ri_save_flag bi = flag then ri_bid bi else BKT_ERR)"

definition BKTREC_searchUsingBasket :: "bkt_env \<Rightarrow> rec_world \<Rightarrow> int" where
  "BKTREC_searchUsingBasket ev w = search_info ev 735 741 SF_USING w"

definition BKTREC_searchStoppedBasket :: "bkt_env \<Rightarrow> rec_world \<Rightarrow> int" where
  "BKTREC_searchStoppedBasket ev w = search_info ev 778 784 SF_STOP w"

definition BKTREC_searchEmptyBasket :: "bkt_env \<Rightarrow> rec_world \<Rightarrow> int" where
  "BKTREC_searchEmptyBasket ev w =
    (case dk_mgr (cur_disk w) of None \<Rightarrow> BKT_ERR
     | Some m \<Rightarrow>
         if \<not> sys_ok ev 822 \<or> \<not> sys_ok ev 828 then BKT_ERR
         else case mgr_find ev 837 (\<lambda>bd. mb_save_flag bd = SF_EMPTY) (nat (mf_bkt_count m)) 0 (mf_bodies m) of
           None \<Rightarrow> BKT_ERR
         | Some (i, bd) \<Rightarrow> mb_bid bd)"

text \<open>Removes the rdb files of earlier days, and the cells of basket \<open>rmbid\<close> in the file
  of the day.\<close>

definition clear_evts :: "int \<Rightarrow> (nat \<Rightarrow> int \<times> int) \<Rightarrow> (nat \<Rightarrow> int) \<Rightarrow> nat \<Rightarrow> int" where
  "clear_evts rmbid rdbs evts = (\<lambda>i. if i < BKT_MAX_CHANNEL * TOTAL_MINUTES_DAY \<and> fst (rdbs i) = rmbid then 0 else evts i)"

definition clear_rdbs :: "int \<Rightarrow> (nat \<Rightarrow> int \<times> int) \<Rightarrow> nat \<Rightarrow> int \<times> int" where
  "clear_rdbs rmbid rdbs = (\<lambda>i. if i < BKT_MAX_CHANNEL * TOTAL_MINUTES_DAY \<and> fst (rdbs i) = rmbid then (0, 0) else rdbs i)"

definition BKTREC_removeRDB :: "bkt_env \<Rightarrow> int \<Rightarrow> int \<Rightarrow> rec_world \<Rightarrow> int \<times> rec_world" where
  "BKTREC_removeRDB ev rmbid sec w =
    (let key = day_key (ev_local ev sec) in
     if \<not> dk_rdb_dir (cur_disk w) \<or> \<not> sys_ok ev 885 then (BKT_ERR, w)
     else
       let w1 = upd_disk (\<lambda>d. d\<lparr>dk_rdb := (\<lambda>k. if k < key then None else dk_rdb d k)\<rparr>) w in
       case dk_rdb (cur_disk w1) key of None \<Rightarrow> (BKT_ERR, w1)
       | Some f \<Rightarrow>
           if \<not> sys_ok ev 927 then (BKT_ERR, w1)
           else case (rf_evts f, rf_rdbs f) of
             (Some evts, Some rdbs) \<Rightarrow>
               (let evts1 = clear_evts rmbid rdbs evts; rdbs1 = clear_rdbs rmbid rdbs in
                if \<not> sys_ok ev 933 \<or> \<not> sys_ok ev 940 \<or> \<not> sys_ok ev 1031 \<or> \<not> sys_ok ev 1038 then (BKT_ERR, w1)
                else if \<not> sys_ok ev 1045
                then (BKT_ERR, upd_disk (\<lambda>d. d\<lparr>dk_rdb := (dk_rdb d)(key \<mapsto> f\<lparr>rf_evts := Some evts1\<rparr>)\<rparr>) w1)
                else (BKT_OK, upd_disk (\<lambda>d. d\<lparr>dk_rdb := (dk_rdb d)(key \<mapsto> \<lparr>rf_evts = Some evts1, rf_rdbs = Some rdbs1\<rparr>)\<rparr>) w1))
           | _ \<Rightarrow> (BKT_ERR, w1))"

text \<open>The search of the oldest basket from the second body on: the time and the basket
  found so far.\<close>

fun oldest_loop :: "bkt_env \<Rightarrow> nat \<Rightarrow> nat \<Rightarrow> mgr_body list \<Rightarrow> int \<Rightarrow> int \<Rightarrow> int \<times> int" where
  "oldest_loop ev 0 i bodies min_ts bid = (min_ts, bid)"
| "oldest_loop ev (Suc n) i bodies min_ts bid =
    (if ev_io ev 1107 i = Some 0 \<or> i \<ge> length bodies then (min_ts, bid)
     else
       let bd = bodies ! i; t = BKT_GetMinTS (bt_t2 (mb_ts bd)) in
       if mb_save_flag bd = SF_FULL \<and> t < min_ts then oldest_loop ev n (Suc i) bodies t (mb_bid bd)
       else oldest_loop ev n (Suc i) bodies min_ts bid)"

definition BKTREC_searchOldestBasket :: "bkt_env \<Rightarrow> rec_world \<Rightarrow> int \<times> rec_world" where
  "BKTREC_searchOldestBasket ev w =
    (case dk_mgr (cur_disk w) of None \<Rightarrow> (BKT_ERR, w)
     | Some m \<Rightarrow>
         if \<not> sys_ok ev 1075 \<or> \<not> sys_ok ev 1081 \<or> \<not> sys_ok ev 1089 \<or> mf_bodies m = [] then (BKT_ERR, w)
         else
           let bd = hd (mf_bodies m) in
           case oldest_loop ev (nat (mf_bkt_count m) - 1) 1 (mf_bodies m) (BKT_GetMinTS (bt_t2 (mb_ts bd))) (mb_bid bd) of
             (min_ts, bid) \<Rightarrow> (bid, snd (BKTREC_removeRDB ev bid min_ts w)))"

text \<open>The result is the flag, and the basket when the search succeeds.\<close>

definition BKTREC_searchBasket :: "bkt_env \<Rightarrow> bool \<Rightarrow> rec_world \<Rightarrow> (int \<times> int option) \<times> rec_world" where
  "BKTREC_searchBasket ev in_all w =
    (if dk_mgr (cur_disk w) = None then ((BKT_ERR, None), w)
     else
       let n = BKTREC_searchUsingBasket ev w in
       if in_all \<and> n \<noteq> BKT_ERR then ((SF_USING, Some n), w)
       else
         let n = BKTREC_searchStoppedBasket ev w in
         if in_all \<and> n \<noteq> BKT_ERR then ((SF_STOP, Some n), w)
         else
           let n = BKTREC_searchEmptyBasket ev w in
           if rw_space w = BKT_SPACE_REMAIN \<and> n \<noteq> BKT_ERR then ((SF_EMPTY, Some n), w)
           else
             case BKTREC_searchOldestBasket ev (w\<lparr>rw_space := BKT_SPACE_FULL\<rparr>) of
               (n, w1) \<Rightarrow> if n \<noteq> BKT_ERR then ((SF_FULL, Some n), w1) else ((BKT_ERR, None), w1))"

definition BKTREC_setBasketRecinfo :: "bkt_env \<Rightarrow> int \<Rightarrow> int \<Rightarrow> nat \<Rightarrow> rec_world \<Rightarrow> int \<times> rec_world" where
  "BKTREC_setBasketRecinfo ev bid flag path w =
    (if (if dk_info (cur_disk w) \<noteq> None then \<not> sys_ok ev 1225 else \<not> sys_ok ev 1236) then (BKT_ERR, w)
     else
       let w1 = (if dk_info (cur_disk w) = None then upd_disk (\<lambda>d. d\<lparr>dk_info := Some None\<rparr>) w else w) in
       if \<not> sys_ok ev 1248 then (BKT_ERR, w1)
       else (BKT_OK, upd_disk (\<lambda>d. d\<lparr>dk_info := Some (Some \<lparr>ri_save_flag = flag, ri_bid = bid, ri_path = path\<rparr>)\<rparr>) w1))"

definition set_body :: "nat \<Rightarrow> mgr_body \<Rightarrow> rec_world \<Rightarrow> rec_world" where
  "set_body i bd w = upd_disk (\<lambda>d. d\<lparr>dk_mgr := map_option (\<lambda>m. m\<lparr>mf_bodies := (mf_bodies m)[i := bd]\<rparr>) (dk_mgr d)\<rparr>) w"

definition BKTREC_setBasketStatus :: "bkt_env \<Rightarrow> int \<Rightarrow> int \<Rightarrow> rec_world \<Rightarrow> int \<times> rec_world" where
  "BKTREC_setBasketStatus ev bktid save_flag w =
    (case dk_mgr (cur_disk w) of None \<Rightarrow> (BKT_ERR, w)
     | Some m \<Rightarrow>
         if \<not> sys_ok ev 1279 \<or> \<not> sys_ok ev 1285 then (BKT_ERR, w)
         else case mgr_find ev 1294 (\<lambda>bd. mb_bid bd = bktid) (nat (mf_bkt_count m)) 0 (mf_bodies m) of
           None \<Rightarrow> (BKT_ERR, w)
         | Some (i, bd) \<Rightarrow>
             if \<not> sys_ok ev 1305 \<or> \<not> sys_ok ev 1313 then (BKT_ERR, w)
             else
               let w1 = set_body i (bd\<lparr>mb_save_flag := save_flag, mb_latest_update := ev_now ev\<rparr>) w in
               (S_OK, snd (BKTREC_setBasketRecinfo ev bktid save_flag (rc_target_path (rw_ctrl w)) w1)))"

definition BKTREC_updateBasketManager :: "bkt_env \<Rightarrow> int \<Rightarrow> int \<Rightarrow> rec_world \<Rightarrow> int \<times> rec_world" where
  "BKTREC_updateBasketManager ev bid save_flag w =
    (case dk_mgr (cur_disk w) of None \<Rightarrow> (BKT_ERR, w)
     | Some m \<Rightarrow>
         if \<not> sys_ok ev 1850 \<or> \<not> sys_ok ev 1857 then (BKT_ERR, w)
         else case mgr_find ev 1866 (\<lambda>bd. mb_bid bd = bid) (nat (mf_bkt_count m)) 0 (mf_bodies m) of
           None \<Rightarrow> (BKT_ERR, w)
         | Some (i, bd) \<Rightarrow>
             if \<not> sys_ok ev 1879 \<or> \<not> sys_ok ev 1886 then (BKT_ERR, w)
             else
               let w1 = set_body i (bd\<lparr>mb_ts := rc_bkt_secs (rw_ctrl w), mb_save_flag := save_flag, mb_latest_update := ev_now ev\<rparr>) w in
               (S_OK, snd (BKTREC_setBasketRecinfo ev bid save_flag (rc_target_path (rw_ctrl w)) w1)))"

section \<open>Opening and closing baskets\<close>

definition h_open :: "bkt_env \<Rightarrow> nat \<Rightarrow> fkind \<Rightarrow> nat \<Rightarrow> int \<Rightarrow> disks \<Rightarrow> bkt_handle option" where
  "h_open ev l k d b ds =
    (if sys_ok ev l \<and> the_file ds k d b \<noteq> None
     then Some \<lparr>hd_kind = k, hd_disk = d, hd_bid = b, hd_pos = 0\<rparr> else None)"

definition write_bkt :: "bkt_env \<Rightarrow> nat \<Rightarrow> byte list \<Rightarrow> rec_world \<Rightarrow> bool \<times> rec_world" where
  "write_bkt ev l bs w = (case h_write (ev_io ev l 0) bs (rw_hbkt w) (rw_disks w) of
     (ok, h, ds) \<Rightarrow> (ok, w\<lparr>rw_hbkt := h, rw_disks := ds\<rparr>))"

definition write_idx :: "bkt_env \<Rightarrow> nat \<Rightarrow> byte list \<Rightarrow> rec_world \<Rightarrow> bool \<times> rec_world" where
  "write_idx ev l bs w = (case h_write (ev_io ev l 0) bs (rw_hidx w) (rw_disks w) of
     (ok, h, ds) \<Rightarrow> (ok, w\<lparr>rw_hidx := h, rw_disks := ds\<rparr>))"

text \<open>The disk to record on; the manager of the disks is a file of the working directory.
  A seek that fails is only reported.\<close>

definition BKTREC_setTargetDisk :: "bkt_env \<Rightarrow> nat \<Rightarrow> rec_world \<Rightarrow> int \<times> rec_world" where
  "BKTREC_setTargetDisk ev curHddIdx w =
    (let target = (\<lambda>w. let p = hi_mountDiskPath (mi_hddInfo (rw_mount w) ! curHddIdx) in
           (BKT_OK, upd_ctrl (\<lambda>c. c\<lparr>rc_target_path := p, rc_bkt_cnt := BKTREC_get_count ev p w\<rparr>) w)) in
     case rw_hddmgr w of
       None \<Rightarrow>
         (if \<not> sys_ok ev 2714 then (BKT_ERR, w)
          else if \<not> sys_ok ev 2725 then (BKT_ERR, w\<lparr>rw_hddmgr := Some None\<rparr>)
          else target (w\<lparr>rw_hddmgr := Some (Some \<lparr>hm_curid = int curHddIdx, hm_hddcnt = mi_hddCnt (rw_mount w)\<rparr>)\<rparr>))
     | Some None \<Rightarrow> (BKT_ERR, w)
     | Some (Some m) \<Rightarrow>
         (if \<not> sys_ok ev 2738 \<or> \<not> sys_ok ev 2744 \<or> \<not> sys_ok ev 2759 then (BKT_ERR, w)
          else target (w\<lparr>rw_hddmgr := Some (Some (m\<lparr>hm_curid := int curHddIdx\<rparr>))\<rparr>)))"

text \<open>The headers that close the two files; what the writes return is only reported.\<close>

definition close_idx :: "bkt_env \<Rightarrow> nat \<Rightarrow> int \<Rightarrow> rec_world \<Rightarrow> rec_world" where
  "close_idx ev l reserved w =
    (let c = rw_ctrl w;
         idx_hdr = \<lparr>ih_id = ID_INDEX_HEADER, ih_bid = rc_bid c, ih_count = BKT_GetRecordingIndexCount c,
                    ih_ts = rc_idx_secs c, ih_reserved = reserved\<rparr>;
         w1 = w\<lparr>rw_hidx := snd (h_seek 0 (rw_hidx w))\<rparr>;
         w2 = snd (write_idx ev l (enc_index_hdr idx_hdr) w1)
     in w2\<lparr>rw_hidx := None\<rparr>)"

definition close_bkt :: "bkt_env \<Rightarrow> nat \<Rightarrow> int \<Rightarrow> rec_world \<Rightarrow> rec_world" where
  "close_bkt ev l save_flag w =
    (let c = rw_ctrl w;
         bhdr = (ev_bh ev)\<lparr>bh_id := ID_BASKET_HDR, bh_bid := rc_bid c, bh_latest_update := ev_now ev,
                    bh_save_flag := save_flag, bh_ts := rc_bkt_secs c\<rparr>;
         w1 = w\<lparr>rw_hbkt := snd (h_seek 0 (rw_hbkt w))\<rparr>;
         w2 = snd (write_bkt ev l (enc_basket_hdr bhdr) w1)
     in w2\<lparr>rw_hbkt := None\<rparr>)"

definition BKTREC_SaveFull :: "bkt_env \<Rightarrow> rec_world \<Rightarrow> int \<times> rec_world" where
  "BKTREC_SaveFull ev w =
    (if rw_status w \<noteq> BKT_STATUS_CLOSED then
       let w1 = close_idx ev 2040 0x7FFFFFFF w;
           w2 = close_bkt ev 2064 SF_FULL w1;
           w3 = snd (BKTREC_updateBasketManager ev (rc_bid (rw_ctrl w2)) SF_FULL w2)
       in (S_OK, upd_ctrl (\<lambda>c. c\<lparr>rc_fpos_bkt := 0, rc_fpos_idx := 0, rc_bkt_secs := no_time, rc_idx_secs := no_time\<rparr>) w3)
     else (BKT_ERR, w))"

text \<open>After the last basket of a disk the next disk is the target.\<close>

definition next_target :: "bkt_env \<Rightarrow> rec_world \<Rightarrow> rec_world" where
  "next_target ev w =
    (if rc_bid (rw_ctrl w) = rc_bkt_cnt (rw_ctrl w) \<and> mi_hddCnt (rw_mount w) > 1 then
       let nextHddIdx = hi_nextHddIdx (mi_hddInfo (rw_mount w) ! mi_curHddIdx (rw_mount w));
           wa = w\<lparr>rw_mount := (rw_mount w)\<lparr>mi_curHddIdx := nextHddIdx\<rparr>\<rparr>;
           wb = snd (BKTREC_setTargetDisk ev nextHddIdx wa)
       in upd_ctrl (rc_prev_min_update (\<lambda>_. replicate BKT_MAX_CHANNEL (-1))) wb
     else w)"

text \<open>The files of the basket that the search has found.  The header of the new index file
  takes the basket number from the control record, which has just been cleared.\<close>

definition open_found :: "bkt_env \<Rightarrow> int \<Rightarrow> int \<Rightarrow> rec_world \<Rightarrow> int \<times> rec_world" where
  "open_found ev stream_type newbid w =
    (let d = rc_target_path (rw_ctrl w);
         w4 = w\<lparr>rw_hbkt := h_open ev 1403 Bkt d newbid (rw_disks w)\<rparr> in
     if rw_hbkt w4 = None then (BKT_ERR, w4)
     else
       let bhd = \<lparr>bh_id = ID_BASKET_HDR, bh_bid = newbid, bh_latest_update = ev_now ev, bh_lPriority = 0,
             bh_s_type = stream_type, bh_ts = no_time, bh_save_flag = SF_USING, bh_totalframecount = 0, bh_reserved = 0\<rparr>;
           (ok, w5) = write_bkt ev 1421 (enc_basket_hdr bhd) w4 in
       if \<not> ok then (BKT_ERR, w5\<lparr>rw_hbkt := None\<rparr>)
       else
         let w6 = w5\<lparr>rw_hidx := h_open ev 1433 Idx d newbid (rw_disks w5)\<rparr> in
         if rw_hidx w6 = None then (BKT_ERR, w6\<lparr>rw_hbkt := None\<rparr>)
         else
           let ihd = (ev_ih ev)\<lparr>ih_id := ID_INDEX_HEADER, ih_bid := rc_bid (rw_ctrl w6), ih_ts := no_time, ih_count := 0\<rparr>;
               (ok, w7) = write_idx ev 1449 (enc_index_hdr ihd) w6 in
           if \<not> ok then (BKT_ERR, w7\<lparr>rw_hbkt := None\<rparr>)
           else
             let w8 = upd_ctrl (\<lambda>c. c\<lparr>rc_fpos_bkt := h_tell (rw_hbkt w7), rc_fpos_idx := h_tell (rw_hidx w7), rc_bid := newbid\<rparr>) w7;
                 w9 = w8\<lparr>rw_status := BKT_STATUS_OPENED\<rparr>
             in (BKT_OK, snd (BKTREC_setBasketStatus ev newbid SF_USING w9)))"

definition BKTREC_OpenFullBasket :: "bkt_env \<Rightarrow> int \<Rightarrow> rec_world \<Rightarrow> int \<times> rec_world" where
  "BKTREC_OpenFullBasket ev stream_type w =
    (let w2 = upd_ctrl (\<lambda>c. c\<lparr>rc_bkt_secs := no_time, rc_idx_secs := no_time, rc_fpos_bkt := 0, rc_fpos_idx := 0,
           rc_bid := 0, rc_idx_pos := replicate BKT_MAX_CHANNEL 0\<rparr>) (next_target ev w) in
     case BKTREC_searchBasket ev (mi_hddCnt (rw_mount w2) > 1) w2 of
       ((saveflag, None), w3) \<Rightarrow> (BKT_ERR, w3)
     | ((saveflag, Some newbid), w3) \<Rightarrow>
         if saveflag = SF_FULL \<and> rw_recycle w3 = BKT_RECYCLE_ONCE
         then (BKT_FULL, w3\<lparr>rw_status := BKT_STATUS_FULL\<rparr>)
         else open_found ev stream_type newbid w3)"

definition BKT_REC_CLOSE_BUF_FLUSH :: int where [const_defs]: "BKT_REC_CLOSE_BUF_FLUSH = 1"

definition BKTREC_exit :: "bkt_env \<Rightarrow> int \<Rightarrow> int \<Rightarrow> rec_world \<Rightarrow> int \<times> rec_world" where
  "BKTREC_exit ev save_flag flushbuffer w =
    (if rw_status w \<noteq> BKT_STATUS_CLOSED then
       case (if flushbuffer = BKT_REC_CLOSE_BUF_FLUSH then BKTREC_FlushWriteBuffer ev w else (BKT_OK, w)) of
         (st, w0) \<Rightarrow>
           if st \<noteq> BKT_OK then (BKT_ERR, w0)
           else
             let w1 = close_idx ev 1945 (ih_reserved (ev_ih ev)) w0;
                 w2 = close_bkt ev 1974 save_flag w1;
                 w3 = snd (BKTREC_updateBasketManager ev (rc_bid (rw_ctrl w2)) save_flag w2);
                 w4 = snd (BKTREC_setTargetDisk ev (mi_curHddIdx (rw_mount w3)) w3)
             in (S_OK, upd_ctrl (\<lambda>c. c\<lparr>rc_fpos_bkt := 0, rc_fpos_idx := 0, rc_bid := 0, rc_b_buf := [], rc_i_buf := [], rc_r_buf := [],
                  rc_idx_pos := replicate BKT_MAX_CHANNEL 0, rc_bkt_secs := no_time, rc_idx_secs := no_time,
                  rc_prev_min := replicate BKT_MAX_CHANNEL (-1)\<rparr>) (w4\<lparr>rw_status := BKT_STATUS_CLOSED\<rparr>))
     else (BKT_ERR, w))"

section \<open>Writing frames\<close>

record video_rec_param =
  vp_ch :: int
  vp_framesize :: int
  vp_sec :: int
  vp_usec :: int
  vp_event :: int
  vp_frametype :: int
  vp_framerate :: int
  vp_width :: int
  vp_height :: int
  vp_buff :: "byte list"
  vp_camName :: "int list"
  vp_audioONOFF :: int
  vp_capMode :: int

record audio_rec_param =
  ap_ch :: int
  ap_framesize :: int
  ap_sec :: int
  ap_usec :: int
  ap_samplingrate :: int
  ap_bitspersample :: int
  ap_achannel :: int
  ap_buff :: "byte list"

text \<open>\<open>strncpy\<close> of 16 characters into a cleared array: it stops at the first zero.\<close>

definition name16 :: "int list \<Rightarrow> int list" where
  "name16 s = (let t = take 16 (takeWhile (\<lambda>c. c \<noteq> 0) s) in t @ replicate (16 - length t) 0)"

text \<open>\<open>memcpy\<close> to the end of the stream buffer.  None: it runs past the end of the
  buffer.\<close>

definition put_b :: "byte list \<Rightarrow> rec_world \<Rightarrow> rec_world option" where
  "put_b bs w = (let c = rw_ctrl w in
    if rc_b_pos c + int (length bs) > BKT_BBUF_SIZE then None
    else Some (w\<lparr>rw_ctrl := c\<lparr>rc_b_buf := rc_b_buf c @ bs\<rparr>\<rparr>))"

text \<open>The part of \<open>BKTREC_WriteVideoStream\<close> for an intra frame: the index entry and the
  time stamps.\<close>

definition put_index :: "bkt_env \<Rightarrow> video_rec_param \<Rightarrow> bktrec \<Rightarrow> bktrec" where
  "put_index ev pv c =
    (let ch = nat (vp_ch pv); t = (vp_sec pv, vp_usec pv);
         idd = (ev_ix ev)\<lparr>ix_id := ID_INDEX_DATA, ix_ch := vp_ch pv, ix_event := vp_event pv, ix_fpos := rc_fpos_bkt c + rc_b_pos c,
           ix_s_type := ST_VIDEO, ix_sec := vp_sec pv, ix_usec := vp_usec pv, ix_width := vp_width pv, ix_height := vp_height pv,
           ix_capMode := vp_capMode pv\<rparr>;
         c1 = c\<lparr>rc_i_buf := rc_i_buf c @ enc_index_data idd, rc_idx_pos := (rc_idx_pos c)[ch := rc_fpos_idx c + rc_i_pos c]\<rparr>;
         c2 = (if fst (bt_t1 (rc_bkt_secs c1) ! ch) = 0
               then c1\<lparr>rc_bkt_secs := (rc_bkt_secs c1)\<lparr>bt_t1 := (bt_t1 (rc_bkt_secs c1))[ch := t]\<rparr>,
                       rc_idx_secs := (rc_idx_secs c1)\<lparr>bt_t1 := (bt_t1 (rc_idx_secs c1))[ch := t]\<rparr>\<rparr>
               else c1)
     in c2\<lparr>rc_idx_secs := (rc_idx_secs c2)\<lparr>bt_t2 := (bt_t2 (rc_idx_secs c2))[ch := t]\<rparr>\<rparr>)"

definition video_stream_hdr :: "bkt_env \<Rightarrow> video_rec_param \<Rightarrow> int \<Rightarrow> stream_hdr" where
  "video_stream_hdr ev pv prevFpos = (ev_sh ev)\<lparr>sh_id := ID_VIDEO_HEADER, sh_ch := vp_ch pv, sh_framesize := vp_framesize pv,
     sh_sec := vp_sec pv, sh_usec := vp_usec pv, sh_frametype := vp_frametype pv, sh_prevFpos := prevFpos\<rparr>"

definition video_hdr_of :: "video_rec_param \<Rightarrow> video_hdr" where
  "video_hdr_of pv = \<lparr>vh_audioONOFF = vp_audioONOFF pv, vh_framerate = vp_framerate pv, vh_event = vp_event pv,
     vh_width = vp_width pv, vh_height = vp_height pv, vh_camName = name16 (vp_camName pv), vh_capMode = vp_capMode pv,
     vh_reserved1 = 0, vh_reserved2 = 0\<rparr>"

text \<open>The entry for the record database, once a minute.  None: past the end of the
  buffer.\<close>

definition put_rdb :: "video_rec_param \<Rightarrow> int \<Rightarrow> bktrec \<Rightarrow> bktrec option" where
  "put_rdb pv cur_min c =
    (let ch = nat (vp_ch pv) in
     if fst (bt_t1 (rc_idx_secs c) ! ch) \<noteq> 0 \<and> rc_prev_min c ! ch \<noteq> cur_min \<and> fst (bt_t2 (rc_idx_secs c) ! ch) \<ge> vp_sec pv then
       (if rc_r_pos c + SIZEOF_RDB_PRM > BKT_RBUF_SIZE then None
        else Some (c\<lparr>rc_r_buf := rc_r_buf c @ [\<lparr>rp_ch = vp_ch pv, rp_sec = vp_sec pv, rp_evt = vp_event pv, rp_bid = rc_bid c,
                      rp_idx_pos = rc_idx_pos c ! ch\<rparr>], rc_prev_min := (rc_prev_min c)[ch := cur_min]\<rparr>))
     else Some c)"

definition put_video :: "bkt_env \<Rightarrow> video_rec_param \<Rightarrow> rec_world \<Rightarrow> rec_world option" where
  "put_video ev pv w =
    (let tm = ev_local ev (vp_sec pv); ch = nat (vp_ch pv);
         c = (if vp_frametype pv = FT_IFRAME then put_index ev pv (rw_ctrl w) else rw_ctrl w);
         sh = video_stream_hdr ev pv (rw_prevFpos w);
         w1 = w\<lparr>rw_ctrl := c, rw_prevFpos := rc_fpos_bkt c + rc_b_pos c\<rparr> in
     case put_b (enc_stream_hdr sh @ enc_video_hdr (video_hdr_of pv) @ take (nat (vp_framesize pv)) (vp_buff pv)) w1 of
       None \<Rightarrow> None
     | Some w2 \<Rightarrow>
         (case put_rdb pv (tm_min tm) (rw_ctrl w2) of
            None \<Rightarrow> None
          | Some c2 \<Rightarrow>
              Some (w2\<lparr>rw_ctrl := c2\<lparr>rc_bkt_secs := (rc_bkt_secs c2)\<lparr>bt_t2 := (bt_t2 (rc_bkt_secs c2))[ch := (vp_sec pv, vp_usec pv)]\<rparr>,
                rc_prev_day := tm_mday tm\<rparr>\<rparr>)))"

text \<open>The change to the next basket, after the end mark has been put.\<close>

definition next_basket :: "bkt_env \<Rightarrow> rec_world \<Rightarrow> int \<times> rec_world" where
  "next_basket ev w =
    (case BKTREC_FlushWriteBuffer ev w of
       (st, w1) \<Rightarrow>
         if st \<noteq> BKT_OK then (BKT_ERR, w1)
         else case BKTREC_SaveFull ev w1 of
           (st, w2) \<Rightarrow> if st = BKT_ERR then (BKT_ERR, w2) else BKTREC_OpenFullBasket ev ST_VIDEO w2)"

text \<open>None: the call reads or writes outside its arrays (a channel that does not exist, a
  frame longer than its buffer, a full stream or rdb buffer).\<close>

definition BKTREC_WriteVideoStream :: "bkt_env \<Rightarrow> video_rec_param \<Rightarrow> rec_world \<Rightarrow> (int \<times> rec_world) option" where
  "BKTREC_WriteVideoStream ev pv w =
    (if rw_status w = BKT_STATUS_CLOSED then Some (BKT_ERR, w)
     else if vp_ch pv < 0 \<or> int BKT_MAX_CHANNEL \<le> vp_ch pv \<or> vp_framesize pv < 0 \<or> int (length (vp_buff pv)) < vp_framesize pv then None
     else
       let c = rw_ctrl w; cur_day = tm_mday (ev_local ev (vp_sec pv));
           then_write = (\<lambda>r. if fst r \<noteq> BKT_OK then Some r else map_option (Pair BKT_OK) (put_video ev pv (snd r))) in
       if BKTREC_checkBasketSize (rc_fpos_bkt c) (rc_fpos_idx c)
            (rc_b_pos c + vp_framesize pv + SIZEOF_STREAM_HDR + SIZEOF_VSTREAM_HDR + rc_i_pos c + SIZEOF_INDEX_DATA) \<noteq> S_OK
          \<or> rc_prev_day c \<noteq> cur_day then
         let sh = (ev_sh ev)\<lparr>sh_id := ID_BASKET_END, sh_ch := vp_ch pv, sh_framesize := vp_framesize pv, sh_sec := vp_sec pv,
               sh_usec := vp_usec pv, sh_frametype := vp_frametype pv\<rparr> in
         case put_b (enc_stream_hdr sh) (upd_ctrl (rc_r_skip_update (\<lambda>_. False)) w) of
           None \<Rightarrow> None
         | Some w1 \<Rightarrow> then_write (next_basket ev w1)
       else if rc_b_pos c + vp_framesize pv + SIZEOF_STREAM_HDR + SIZEOF_VSTREAM_HDR \<ge> BKT_BBUF_SIZE
          \<or> rc_i_pos c + SIZEOF_INDEX_DATA \<ge> BKT_IBUF_SIZE then
         case BKTREC_FlushWriteBuffer ev (upd_ctrl (rc_r_skip_update (\<lambda>_. True)) w) of
           (st, w1) \<Rightarrow> if st \<noteq> BKT_OK then Some (BKT_ERR, w1) else then_write (BKT_OK, w1)
       else then_write (BKT_OK, w))"

definition audio_stream_hdr :: "bkt_env \<Rightarrow> audio_rec_param \<Rightarrow> int \<Rightarrow> stream_hdr" where
  "audio_stream_hdr ev pa prevFpos = (ev_sh ev)\<lparr>sh_id := ID_AUDIO_HEADER, sh_ch := ap_ch pa, sh_framesize := ap_framesize pa,
     sh_sec := ap_sec pa, sh_usec := ap_usec pa, sh_prevFpos := prevFpos\<rparr>"

definition audio_hdr_of :: "bkt_env \<Rightarrow> audio_rec_param \<Rightarrow> audio_hdr" where
  "audio_hdr_of ev pa = (ev_ah ev)\<lparr>ah_samplingrate := ap_samplingrate pa\<rparr>"

definition BKTREC_WriteAudioStream :: "bkt_env \<Rightarrow> audio_rec_param \<Rightarrow> rec_world \<Rightarrow> (int \<times> rec_world) option" where
  "BKTREC_WriteAudioStream ev pa w =
    (if rw_status w = BKT_STATUS_CLOSED then Some (BKT_ERR, w)
     else if ap_framesize pa < 0 \<or> int (length (ap_buff pa)) < ap_framesize pa then None
     else
       let c = rw_ctrl w;
           then_write = (\<lambda>r. if fst r \<noteq> BKT_OK then Some r else
             map_option (Pair BKT_OK) (put_b (enc_stream_hdr (audio_stream_hdr ev pa (rw_prevFpos (snd r)))
               @ enc_audio_hdr (audio_hdr_of ev pa) @ take (nat (ap_framesize pa)) (ap_buff pa))
               ((snd r)\<lparr>rw_prevFpos := rc_fpos_bkt (rw_ctrl (snd r)) + rc_b_pos (rw_ctrl (snd r))\<rparr>))) in
       if BKTREC_checkBasketSize (rc_fpos_bkt c) (rc_fpos_idx c)
            (rc_b_pos c + ap_framesize pa + SIZEOF_STREAM_HDR + SIZEOF_ASTREAM_HDR + rc_i_pos c) \<noteq> S_OK then
         then_write (next_basket ev w)
       else if rc_b_pos c + ap_framesize pa + SIZEOF_STREAM_HDR + SIZEOF_ASTREAM_HDR \<ge> BKT_BBUF_SIZE then
         case BKTREC_FlushWriteBuffer ev w of
           (st, w1) \<Rightarrow> if st \<noteq> BKT_OK then Some (BKT_ERR, w1) else then_write (BKT_OK, w1)
       else then_write (BKT_OK, w))"

end
