(* ===== verification/Basket_Inv.thy ===== *)
theory Basket_Inv
  imports Basket_Rec
begin

text \<open>What an open basket holds.  The file, up to the position of the handle, and the stream
  buffer behind it are a header and a sequence of items; the index file and its buffer
  list the intra frames among them with their places.\<close>

section \<open>Files, by operation\<close>

lemma the_file_set_file [simp]:
  "the_file (set_file k d b f ds) k' d' b' = (if k' = k \<and> d' = d \<and> b' = b then Some f else the_file ds k' d' b')"
  by (cases k; cases k') (auto simp: the_file_def set_file_def)

lemma set_file_meta [simp]:
  "dk_mgr (set_file k d b f ds d') = dk_mgr (ds d')"
  "dk_info (set_file k d b f ds d') = dk_info (ds d')"
  "dk_rdb_dir (set_file k d b f ds d') = dk_rdb_dir (ds d')"
  "dk_rdb (set_file k d b f ds d') = dk_rdb (ds d')"
  by (cases k; simp add: set_file_def)+

text \<open>A handle at the end of what has been written.\<close>

definition open_at :: "disks \<Rightarrow> bkt_handle option \<Rightarrow> fkind \<Rightarrow> nat \<Rightarrow> int \<Rightarrow> byte list \<Rightarrow> bool" where
  "open_at ds h k d b bs \<longleftrightarrow> h = Some \<lparr>hd_kind = k, hd_disk = d, hd_bid = b, hd_pos = length bs\<rparr>
     \<and> (\<exists>f. the_file ds k d b = Some f \<and> length bs \<le> length f \<and> take (length bs) f = bs)"

lemma open_at_tell: "open_at ds h k d b bs \<Longrightarrow> h_tell h = int (length bs)"
  by (auto simp: open_at_def h_tell_def)

lemma open_at_open:
  assumes "the_file ds k d b \<noteq> None" "ev_io ev l 0 = None"
  shows "open_at ds (h_open ev l k d b ds) k d b []"
  using assms by (auto simp: open_at_def h_open_def)

lemma h_write_open:
  assumes "open_at ds h k d b bs" "out \<noteq> []"
  shows "\<exists>h' f'. h_write None out h ds = (True, h', set_file k d b f' ds) \<and> open_at (set_file k d b f' ds) h' k d b (bs @ out)"
proof -
  obtain f where h: "h = Some \<lparr>hd_kind = k, hd_disk = d, hd_bid = b, hd_pos = length bs\<rparr>"
    and f: "the_file ds k d b = Some f" "length bs \<le> length f" "take (length bs) f = bs"
    using assms(1) by (auto simp: open_at_def)
  let ?f = "put_bytes (length bs) out f"
  have "take (length bs + length out) ?f = bs @ out" using take_put_end [OF f(2), of out] f(3) by simp
  moreover have "length bs + length out \<le> length ?f" by (simp add: length_put_bytes)
  ultimately have "open_at (set_file k d b ?f ds) (Some \<lparr>hd_kind = k, hd_disk = d, hd_bid = b, hd_pos = length bs + length out\<rparr>)
      k d b (bs @ out)"
    by (simp add: open_at_def)
  then show ?thesis using assms(2) f(1)
    by (intro exI [of _ "Some \<lparr>hd_kind = k, hd_disk = d, hd_bid = b, hd_pos = length bs + length out\<rparr>"] exI [of _ ?f])
       (simp add: h_write_def h file_of_def)
qed

text \<open>Writing a header over the start of a file keeps what follows.\<close>

lemma h_write_header:
  assumes "open_at ds h k d b (hdr @ bs)" "length hdr' = length hdr" "hdr' \<noteq> []"
  shows "\<exists>h' rest. h_write None hdr' (snd (h_seek 0 h)) ds = (True, h', set_file k d b (hdr' @ bs @ rest) ds)"
proof -
  obtain f where h: "h = Some \<lparr>hd_kind = k, hd_disk = d, hd_bid = b, hd_pos = length hdr + length bs\<rparr>"
    and f: "the_file ds k d b = Some f" "take (length hdr + length bs) f = hdr @ bs"
    using assms(1) by (auto simp: open_at_def)
  let ?rest = "drop (length hdr + length bs) f"
  have "f = hdr @ bs @ ?rest"
    using f(2) by (metis append_take_drop_id append.assoc)
  then have "put_bytes 0 hdr' f = hdr' @ bs @ ?rest"
    using assms(2) by (simp add: put_bytes_def) (metis append_eq_conv_conj)
  then have "h_write None hdr' (snd (h_seek 0 h)) ds
      = (True, Some \<lparr>hd_kind = k, hd_disk = d, hd_bid = b, hd_pos = length hdr'\<rparr>, set_file k d b (hdr' @ bs @ ?rest) ds)"
    using assms(3) f(1) by (simp add: h_write_def h_seek_def h file_of_def)
  then show ?thesis by blast
qed

section \<open>Items\<close>

datatype item = Vid stream_hdr video_hdr "byte list" | Aud stream_hdr audio_hdr "byte list" | End stream_hdr

fun item_bytes :: "item \<Rightarrow> byte list" where
  "item_bytes (Vid sh vh p) = enc_stream_hdr sh @ enc_video_hdr vh @ p"
| "item_bytes (Aud sh ah p) = enc_stream_hdr sh @ enc_audio_hdr ah @ p"
| "item_bytes (End sh) = enc_stream_hdr sh"

definition items_bytes :: "item list \<Rightarrow> byte list" where
  "items_bytes items = concat (map item_bytes items)"

lemma items_bytes_simps [simp]:
  "items_bytes [] = []" "items_bytes (i # items) = item_bytes i @ items_bytes items"
  "items_bytes (xs @ ys) = items_bytes xs @ items_bytes ys"
  by (simp_all add: items_bytes_def)

text \<open>An item that can be read back.\<close>

fun item_ok :: "item \<Rightarrow> bool" where
  "item_ok (Vid sh vh p) \<longleftrightarrow> stream_hdr_ok sh \<and> video_hdr_ok vh \<and> sh_id sh = ID_VIDEO_HEADER \<and> sh_framesize sh = int (length p)
     \<and> 0 \<le> sh_ch sh \<and> sh_ch sh < 16"
| "item_ok (Aud sh ah p) \<longleftrightarrow> stream_hdr_ok sh \<and> audio_hdr_ok ah \<and> sh_id sh = ID_AUDIO_HEADER \<and> sh_framesize sh = int (length p)"
| "item_ok (End sh) \<longleftrightarrow> stream_hdr_ok sh \<and> sh_id sh = ID_BASKET_END"

text \<open>The intra frames with their positions.\<close>

fun iframes :: "nat \<Rightarrow> item list \<Rightarrow> (nat \<times> stream_hdr \<times> video_hdr) list" where
  "iframes pos [] = []"
| "iframes pos (i # items) =
    (case i of Vid sh vh p \<Rightarrow> if sh_frametype sh = FT_IFRAME then [(pos, sh, vh)] else [] | _ \<Rightarrow> [])
    @ iframes (pos + length (item_bytes i)) items"

lemma iframes_append [simp]:
  "iframes pos (xs @ ys) = iframes pos xs @ iframes (pos + length (items_bytes xs)) ys"
  by (induction xs arbitrary: pos) (simp_all add: add.assoc)

definition indexes :: "nat \<times> stream_hdr \<times> video_hdr \<Rightarrow> index_data \<Rightarrow> bool" where
  "indexes = (\<lambda>(pos, sh, vh) d. index_data_ok d \<and> ix_id d = ID_INDEX_DATA \<and> ix_fpos d = int pos \<and> ix_ch d = sh_ch sh
     \<and> ix_sec d = sh_sec sh \<and> ix_usec d = sh_usec sh \<and> ix_event d = vh_event vh \<and> ix_s_type d = ST_VIDEO
     \<and> ix_width d = vh_width vh \<and> ix_height d = vh_height vh)"

definition index_bytes :: "index_data list \<Rightarrow> byte list" where
  "index_bytes ixs = concat (map enc_index_data ixs)"

lemma index_bytes_simps [simp]:
  "index_bytes [] = []" "index_bytes (i # ixs) = enc_index_data i @ index_bytes ixs"
  "index_bytes (xs @ ys) = index_bytes xs @ index_bytes ys"
  by (simp_all add: index_bytes_def)

lemma length_index_bytes [simp]: "length (index_bytes ixs) = INDEX_DATA_LEN * length ixs"
  by (induction ixs) auto

section \<open>An open basket\<close>

definition buffers_ok :: "bktrec \<Rightarrow> bool" where
  "buffers_ok c \<longleftrightarrow> rc_b_pos c \<le> BKT_BBUF_SIZE \<and> rc_i_pos c \<le> BKT_IBUF_SIZE \<and> rc_r_pos c \<le> BKT_RBUF_SIZE
    \<and> rc_fpos_bkt c + rc_b_pos c + rc_fpos_idx c + rc_i_pos c < BASKET_SIZE + BKT_BBUF_SIZE
    \<and> length (rc_prev_min c) = BKT_MAX_CHANNEL \<and> length (rc_idx_pos c) = BKT_MAX_CHANNEL
    \<and> (\<forall>t \<in> {rc_bkt_secs c, rc_idx_secs c}. length (bt_t1 t) = BKT_MAX_CHANNEL \<and> length (bt_t2 t) = BKT_MAX_CHANNEL)"

text \<open>One of the two files with its buffer: a header of \<open>len\<close> bytes and \<open>data\<close>.\<close>

definition part_open :: "disks \<Rightarrow> bkt_handle option \<Rightarrow> fkind \<Rightarrow> nat \<Rightarrow> int \<Rightarrow> nat \<Rightarrow> int \<Rightarrow> byte list \<Rightarrow> byte list \<Rightarrow> bool" where
  "part_open ds h k d b len fpos buf data \<longleftrightarrow>
     (\<exists>hdr bs. length hdr = len \<and> open_at ds h k d b bs \<and> fpos = int (length bs) \<and> bs @ buf = hdr @ data)"

definition basket_open :: "item list \<Rightarrow> index_data list \<Rightarrow> rec_world \<Rightarrow> bool" where
  "basket_open items ixs w \<longleftrightarrow> (let c = rw_ctrl w; d = rc_target_path c; b = rc_bid c in
     rw_status w = BKT_STATUS_OPENED \<and> buffers_ok c \<and> long (rw_prevFpos w)
     \<and> list_all item_ok items \<and> list_all2 indexes (iframes BASKET_HDR_LEN items) ixs
     \<and> part_open (rw_disks w) (rw_hbkt w) Bkt d b BASKET_HDR_LEN (rc_fpos_bkt c) (rc_b_buf c) (items_bytes items)
     \<and> part_open (rw_disks w) (rw_hidx w) Idx d b INDEX_HDR_LEN (rc_fpos_idx c) (rc_i_buf c) (index_bytes ixs))"

lemma part_open_append: "part_open ds h k d b len fpos buf data \<Longrightarrow> part_open ds h k d b len fpos (buf @ bs) (data @ bs)"
  unfolding part_open_def by (metis append.assoc)

lemma part_open_len: "part_open ds h k d b len fpos buf data \<Longrightarrow> fpos + int (length buf) = int (len + length data)"
  unfolding part_open_def by (metis length_append of_nat_add)

lemma basket_openD:
  assumes "basket_open items ixs w"
  shows "rw_status w = BKT_STATUS_OPENED" "buffers_ok (rw_ctrl w)" "long (rw_prevFpos w)" "list_all item_ok items"
    "list_all2 indexes (iframes BASKET_HDR_LEN items) ixs"
  using assms by (simp_all add: basket_open_def Let_def)

text \<open>A call in which no system call fails or falls short, on initialised locals that hold
  32 bit values.\<close>

definition healthy :: "bkt_env \<Rightarrow> bool" where
  "healthy ev \<longleftrightarrow> (\<forall>l r. ev_io ev l r = None) \<and> stream_hdr_ok (ev_sh ev) \<and> audio_hdr_ok (ev_ah ev) \<and> index_data_ok (ev_ix ev)"

lemma healthy_io [simp]: "healthy ev \<Longrightarrow> ev_io ev l r = None"
  by (simp add: healthy_def)

section \<open>Flushing\<close>

lemma set_file_same: "the_file ds k d b = Some f \<Longrightarrow> set_file k d b f ds = ds"
  by (cases k) (auto simp: set_file_def the_file_def fun_upd_idem)

lemma open_at_other:
  "(k', d', b') \<noteq> (k, d, b) \<Longrightarrow> open_at (set_file k d b f ds) h k' d' b' bs = open_at ds h k' d' b' bs"
  by (auto simp: open_at_def)

lemma part_open_other:
  assumes "(k', d', b') \<noteq> (k, d, b)"
  shows "part_open (set_file k d b f ds) h k' d' b' len fpos buf data = part_open ds h k' d' b' len fpos buf data"
  unfolding part_open_def open_at_other [OF assms] ..

text \<open>A flush of one file.\<close>

lemma flush_file:
  assumes "part_open ds h k d b len fpos buf data"
  shows "\<exists>h' f'. (if buf = [] then (True, h, ds) else h_write None buf h ds) = (True, h', set_file k d b f' ds)
    \<and> h_tell h' = fpos + int (length buf) \<and> part_open (set_file k d b f' ds) h' k d b len (fpos + int (length buf)) [] data"
proof -
  obtain hdr bs where p: "length hdr = len" "open_at ds h k d b bs" "fpos = int (length bs)" "bs @ buf = hdr @ data"
    using assms by (auto simp: part_open_def)
  obtain h' f' where w: "(if buf = [] then (True, h, ds) else h_write None buf h ds) = (True, h', set_file k d b f' ds)"
    and at: "open_at (set_file k d b f' ds) h' k d b (bs @ buf)"
  proof (cases "buf = []")
    case True
    obtain f where "the_file ds k d b = Some f" using p(2) by (auto simp: open_at_def)
    then show thesis using that [of h f] True p(2) by (simp add: set_file_same)
  next
    case False
    then show thesis using h_write_open [OF p(2) False] that by auto
  qed
  have "part_open (set_file k d b f' ds) h' k d b len (fpos + int (length buf)) [] data"
    unfolding part_open_def
  proof (rule exI [of _ hdr], rule exI [of _ "bs @ buf"], intro conjI p(1) at)
    show "fpos + int (length buf) = int (length (bs @ buf))" using p(3) by simp
    show "(bs @ buf) @ [] = hdr @ data" using p(4) by simp
  qed
  with w open_at_tell [OF at] p(3) show ?thesis by auto
qed

lemma flush_bkt_ok:
  assumes ev: "healthy ev" and op: "part_open (rw_disks w) (rw_hbkt w) Bkt d b len (rc_fpos_bkt (rw_ctrl w)) (rc_b_buf (rw_ctrl w)) data"
  shows "\<exists>h f. flush_bkt ev w = (True, w\<lparr>rw_hbkt := h, rw_disks := set_file Bkt d b f (rw_disks w),
      rw_ctrl := (rw_ctrl w)\<lparr>rc_fpos_bkt := rc_fpos_bkt (rw_ctrl w) + rc_b_pos (rw_ctrl w), rc_b_buf := []\<rparr>\<rparr>)
    \<and> part_open (set_file Bkt d b f (rw_disks w)) h Bkt d b len (rc_fpos_bkt (rw_ctrl w) + rc_b_pos (rw_ctrl w)) [] data"
proof -
  let ?c = "rw_ctrl w"
  obtain h f where w: "(if rc_b_buf ?c = [] then (True, rw_hbkt w, rw_disks w)
      else h_write None (rc_b_buf ?c) (rw_hbkt w) (rw_disks w)) = (True, h, set_file Bkt d b f (rw_disks w))"
    and h: "h_tell h = rc_fpos_bkt ?c + rc_b_pos ?c"
    and p: "part_open (set_file Bkt d b f (rw_disks w)) h Bkt d b len (rc_fpos_bkt ?c + rc_b_pos ?c) [] data"
    using flush_file [OF op] unfolding rc_b_pos_def by auto
  have "flush_bkt ev w = (True, w\<lparr>rw_hbkt := h, rw_disks := set_file Bkt d b f (rw_disks w),
      rw_ctrl := ?c\<lparr>rc_fpos_bkt := rc_fpos_bkt ?c + rc_b_pos ?c, rc_b_buf := []\<rparr>\<rparr>)"
  proof (cases "rc_b_buf ?c = []")
    case True
    then have "?c\<lparr>rc_fpos_bkt := rc_fpos_bkt ?c + rc_b_pos ?c, rc_b_buf := []\<rparr> = ?c" by (simp add: rc_b_pos_def)
    with True w show ?thesis by (simp add: flush_bkt_def)
  next
    case False
    with w h ev show ?thesis by (simp add: flush_bkt_def)
  qed
  with p show ?thesis by blast
qed

lemma flush_idx_ok:
  assumes ev: "healthy ev" and op: "part_open (rw_disks w) (rw_hidx w) Idx d b len (rc_fpos_idx (rw_ctrl w)) (rc_i_buf (rw_ctrl w)) data"
  shows "\<exists>h f. flush_idx ev w = (True, w\<lparr>rw_hidx := h, rw_disks := set_file Idx d b f (rw_disks w),
      rw_ctrl := (rw_ctrl w)\<lparr>rc_fpos_idx := rc_fpos_idx (rw_ctrl w) + rc_i_pos (rw_ctrl w), rc_i_buf := []\<rparr>\<rparr>)
    \<and> part_open (set_file Idx d b f (rw_disks w)) h Idx d b len (rc_fpos_idx (rw_ctrl w) + rc_i_pos (rw_ctrl w)) [] data"
proof -
  let ?c = "rw_ctrl w"
  obtain h f where w: "(if rc_i_buf ?c = [] then (True, rw_hidx w, rw_disks w)
      else h_write None (rc_i_buf ?c) (rw_hidx w) (rw_disks w)) = (True, h, set_file Idx d b f (rw_disks w))"
    and h: "h_tell h = rc_fpos_idx ?c + rc_i_pos ?c"
    and p: "part_open (set_file Idx d b f (rw_disks w)) h Idx d b len (rc_fpos_idx ?c + rc_i_pos ?c) [] data"
    using flush_file [OF op] unfolding rc_i_pos_def by auto
  have "flush_idx ev w = (True, w\<lparr>rw_hidx := h, rw_disks := set_file Idx d b f (rw_disks w),
      rw_ctrl := ?c\<lparr>rc_fpos_idx := rc_fpos_idx ?c + rc_i_pos ?c, rc_i_buf := []\<rparr>\<rparr>)"
  proof (cases "rc_i_buf ?c = []")
    case True
    then have "?c\<lparr>rc_fpos_idx := rc_fpos_idx ?c + rc_i_pos ?c, rc_i_buf := []\<rparr> = ?c" by (simp add: rc_i_pos_def)
    with True w show ?thesis by (simp add: flush_idx_def)
  next
    case False
    with w h ev show ?thesis by (simp add: flush_idx_def)
  qed
  with p show ?thesis by blast
qed

text \<open>The two files flushed.\<close>

definition flushed :: "rec_world \<Rightarrow> bkt_handle option \<Rightarrow> bkt_handle option \<Rightarrow> byte list \<Rightarrow> byte list \<Rightarrow> rec_world" where
  "flushed w hb hi fb fi = (let c = rw_ctrl w; d = rc_target_path c; b = rc_bid c in
     w\<lparr>rw_hbkt := hb, rw_hidx := hi, rw_disks := set_file Idx d b fi (set_file Bkt d b fb (rw_disks w)),
       rw_ctrl := c\<lparr>rc_fpos_bkt := rc_fpos_bkt c + rc_b_pos c, rc_b_buf := [], rc_fpos_idx := rc_fpos_idx c + rc_i_pos c, rc_i_buf := []\<rparr>\<rparr>)"

lemma flush_files:
  assumes ev: "healthy ev" and op: "basket_open items ixs w"
  shows "\<exists>hb hi fb fi. BKTREC_FlushWriteBuffer ev w = flush_rdb ev (flushed w hb hi fb fi) \<and> basket_open items ixs (flushed w hb hi fb fi)"
proof -
  let ?c = "rw_ctrl w"
  let ?d = "rc_target_path ?c" and ?b = "rc_bid ?c"
  have parts: "part_open (rw_disks w) (rw_hbkt w) Bkt ?d ?b BASKET_HDR_LEN (rc_fpos_bkt ?c) (rc_b_buf ?c) (items_bytes items)"
     "part_open (rw_disks w) (rw_hidx w) Idx ?d ?b INDEX_HDR_LEN (rc_fpos_idx ?c) (rc_i_buf ?c) (index_bytes ixs)"
    using op by (simp_all add: basket_open_def Let_def)
  from flush_bkt_ok [OF ev parts(1)] obtain hb fb where
    fb: "flush_bkt ev w = (True, w\<lparr>rw_hbkt := hb, rw_disks := set_file Bkt ?d ?b fb (rw_disks w),
      rw_ctrl := ?c\<lparr>rc_fpos_bkt := rc_fpos_bkt ?c + rc_b_pos ?c, rc_b_buf := []\<rparr>\<rparr>)" (is "_ = (True, ?w1)")
    and pb: "part_open (set_file Bkt ?d ?b fb (rw_disks w)) hb Bkt ?d ?b BASKET_HDR_LEN (rc_fpos_bkt ?c + rc_b_pos ?c) [] (items_bytes items)"
    by blast
  have "part_open (rw_disks ?w1) (rw_hidx ?w1) Idx ?d ?b INDEX_HDR_LEN (rc_fpos_idx (rw_ctrl ?w1)) (rc_i_buf (rw_ctrl ?w1)) (index_bytes ixs)"
    using parts(2) by (simp add: part_open_other)
  from flush_idx_ok [OF ev this] obtain hi fi where
    fi: "flush_idx ev ?w1 = (True, flushed w hb hi fb fi)"
    and pi: "part_open (set_file Idx ?d ?b fi (rw_disks ?w1)) hi Idx ?d ?b INDEX_HDR_LEN (rc_fpos_idx ?c + rc_i_pos ?c) [] (index_bytes ixs)"
    by (auto simp: flushed_def Let_def rc_i_pos_def)
  have "BKTREC_FlushWriteBuffer ev w = flush_rdb ev (flushed w hb hi fb fi)"
    by (simp add: BKTREC_FlushWriteBuffer_def fb fi)
  moreover have "buffers_ok (rw_ctrl (flushed w hb hi fb fi))"
    using basket_openD(2) [OF op] by (simp add: flushed_def Let_def buffers_ok_def rc_b_pos_def rc_i_pos_def rc_r_pos_def const_defs)
  then have "basket_open items ixs (flushed w hb hi fb fi)"
    using basket_openD [OF op] pb pi by (simp add: basket_open_def flushed_def Let_def part_open_other)
  ultimately show ?thesis by blast
qed

section \<open>The record database of a healthy disk\<close>

definition rdb_ok :: "bkt_disk \<Rightarrow> bool" where
  "rdb_ok d \<longleftrightarrow> (\<forall>k f. dk_rdb d k = Some f \<longrightarrow> rf_evts f \<noteq> None \<and> rf_rdbs f \<noteq> None)"

lemma rdb_loop_rest:
  "length (snd (snd (snd (rdb_loop local day ps evts rdbs n)))) \<le> length ps
   \<and> n \<le> fst (snd (snd (rdb_loop local day ps evts rdbs n)))"
proof (induction ps arbitrary: evts rdbs n)
  case (Cons p ps)
  let ?o = "rdb_offset (rp_ch p) (local (rp_sec p))"
  show ?case
    using Cons.IH [of "evts(?o := evt_char (rp_evt p))" "rdbs(?o := (rp_bid p, rp_idx_pos p))" "n + 1"] Cons.IH [of evts rdbs n]
    by (cases "day = tm_mday (local (rp_sec p))"; cases "fst (rdbs ?o) = 0") (simp_all add: Let_def fun_upd_def)
qed simp

lemma rdb_loop_first:
  assumes "rdb_loop local (tm_mday (local (rp_sec p))) (p # ps) evts (\<lambda>_. (0, 0)) 0 = (evts', rdbs', n', rest)"
  shows "n' \<noteq> 0"
proof -
  let ?o = "rdb_offset (rp_ch p) (local (rp_sec p))"
  have "rdb_loop local (tm_mday (local (rp_sec p))) ps (evts(?o := evt_char (rp_evt p))) ((\<lambda>_. (0, 0))(?o := (rp_bid p, rp_idx_pos p))) 1
      = (evts', rdbs', n', rest)"
    using assms by (simp add: Let_def)
  with rdb_loop_rest [of local "tm_mday (local (rp_sec p))" ps "evts(?o := evt_char (rp_evt p))" "(\<lambda>_. (0, 0))(?o := (rp_bid p, rp_idx_pos p))" 1]
  show ?thesis by simp
qed

text \<open>Only the record database and its buffer change.\<close>

definition rdb_changed :: "rec_world \<Rightarrow> (int \<rightharpoonup> rdb_file) \<Rightarrow> bool \<Rightarrow> rdb_prm list \<Rightarrow> rec_world" where
  "rdb_changed w rdb dir r = upd_disk (\<lambda>d. d\<lparr>dk_rdb_dir := dir, dk_rdb := rdb\<rparr>) (upd_ctrl (rc_r_buf_update (\<lambda>_. r)) w)"

lemma rdb_changed_simps [simp]:
  "rw_ctrl (rdb_changed w rdb dir r) = (rw_ctrl w)\<lparr>rc_r_buf := r\<rparr>"
  "rw_hbkt (rdb_changed w rdb dir r) = rw_hbkt w" "rw_hidx (rdb_changed w rdb dir r) = rw_hidx w"
  "rw_status (rdb_changed w rdb dir r) = rw_status w" "rw_prevFpos (rdb_changed w rdb dir r) = rw_prevFpos w"
  "rw_mount (rdb_changed w rdb dir r) = rw_mount w" "rw_space (rdb_changed w rdb dir r) = rw_space w"
  "rw_recycle (rdb_changed w rdb dir r) = rw_recycle w" "rw_hddmgr (rdb_changed w rdb dir r) = rw_hddmgr w"
  "the_file (rw_disks (rdb_changed w rdb dir r)) k d b = the_file (rw_disks w) k d b"
  "dk_mgr (rw_disks (rdb_changed w rdb dir r) d) = dk_mgr (rw_disks w d)"
  "dk_info (rw_disks (rdb_changed w rdb dir r) d) = dk_info (rw_disks w d)"
  by (auto simp: rdb_changed_def upd_disk_def the_file_def split: fkind.split)

lemma open_at_cong: "(\<And>k d b. the_file ds' k d b = the_file ds k d b) \<Longrightarrow> open_at ds' h k d b bs = open_at ds h k d b bs"
  by (simp add: open_at_def)

lemma part_open_cong:
  assumes "\<And>k d b. the_file ds' k d b = the_file ds k d b"
  shows "part_open ds' h k d b len fpos buf data = part_open ds h k d b len fpos buf data"
proof -
  have "open_at ds' = open_at ds" using assms by (intro ext open_at_cong)
  then show ?thesis by (simp only: part_open_def)
qed

lemma Flush_RDBDATA_ok:
  assumes ev: "healthy ev" and ok: "rdb_ok (cur_disk w)" and r: "rc_r_buf (rw_ctrl w) \<noteq> []"
  shows "\<exists>rdb dir r. BKTREC_Flush_RDBDATA ev w = (BKT_OK, rdb_changed w rdb dir r)
    \<and> rdb_ok (cur_disk (rdb_changed w rdb dir r)) \<and> length r \<le> length (rc_r_buf (rw_ctrl w))"
proof -
  obtain p ps where buf: "rc_r_buf (rw_ctrl w) = p # ps" using r by (cases "rc_r_buf (rw_ctrl w)") auto
  let ?tm = "ev_local ev (rp_sec p)" and ?d = "cur_disk w"
  let ?key = "day_key ?tm"
  show ?thesis
  proof (cases "dk_rdb ?d ?key")
    case (Some f)
    obtain e rb where f: "rf_evts f = Some e" "rf_rdbs f = Some rb" using ok Some unfolding rdb_ok_def by blast
    obtain e' rb' n rest where l: "rdb_loop (ev_local ev) (tm_mday ?tm) (p # ps) e rb 0 = (e', rb', n, rest)"
      by (metis prod_cases4)
    have L: "length rest \<le> length (rc_r_buf (rw_ctrl w))"
      using rdb_loop_rest [of "ev_local ev" "tm_mday ?tm" "p # ps" e rb 0] unfolding l buf by simp
    have open': "rdb_open ev ?key ?d = (Some (e, rb), ?d)" using Some f ev by (simp add: rdb_open_def)
    let ?rdb = "if n = 0 then dk_rdb ?d else (dk_rdb ?d)(?key \<mapsto> \<lparr>rf_evts = Some e', rf_rdbs = Some rb'\<rparr>)"
    have "BKTREC_Flush_RDBDATA ev w = (BKT_OK, rdb_changed w ?rdb (dk_rdb_dir ?d) rest)"
      using buf open' l ev by (simp add: BKTREC_Flush_RDBDATA_def Let_def rdb_changed_def upd_disk_def)
    moreover have "rdb_ok (cur_disk (rdb_changed w ?rdb (dk_rdb_dir ?d) rest))"
      using ok by (simp add: rdb_ok_def rdb_changed_def upd_disk_def)
    moreover have "length rest \<le> length (rc_r_buf (rw_ctrl w))" using L by simp
    ultimately show ?thesis by blast
  next
    case None
    obtain e' rb' n rest where l: "rdb_loop (ev_local ev) (tm_mday ?tm) (p # ps) (\<lambda>_. 0) (\<lambda>_. (0, 0)) 0 = (e', rb', n, rest)"
      by (metis prod_cases4)
    have n: "n \<noteq> 0" by (rule rdb_loop_first [OF l])
    let ?d1 = "?d\<lparr>dk_rdb_dir := True, dk_rdb := (dk_rdb ?d)(?key \<mapsto> \<lparr>rf_evts = None, rf_rdbs = None\<rparr>)\<rparr>"
    have L: "length rest \<le> length (rc_r_buf (rw_ctrl w))"
      using rdb_loop_rest [of "ev_local ev" "tm_mday ?tm" "p # ps" "\<lambda>_. 0" "\<lambda>_. (0, 0)" 0] unfolding l buf by simp
    have open': "rdb_open ev ?key ?d = (Some (\<lambda>_. 0, \<lambda>_. (0, 0)), ?d1)" using None ev by (simp add: rdb_open_def Let_def)
    let ?rdb = "(dk_rdb ?d)(?key \<mapsto> \<lparr>rf_evts = Some e', rf_rdbs = Some rb'\<rparr>)"
    have "BKTREC_Flush_RDBDATA ev w = (BKT_OK, rdb_changed w ?rdb True rest)"
      using buf open' l n ev by (simp add: BKTREC_Flush_RDBDATA_def Let_def rdb_changed_def upd_disk_def)
    moreover have "rdb_ok (cur_disk (rdb_changed w ?rdb True rest))"
      using ok by (simp add: rdb_ok_def rdb_changed_def upd_disk_def)
    moreover have "length rest \<le> length (rc_r_buf (rw_ctrl w))" using L by simp
    ultimately show ?thesis by blast
  qed
qed

lemma flush_rdb_ok:
  assumes ev: "healthy ev" and ok: "rdb_ok (cur_disk w)"
  shows "\<exists>rdb dir r. flush_rdb ev w = (BKT_OK, rdb_changed w rdb dir r)
    \<and> rdb_ok (cur_disk (rdb_changed w rdb dir r)) \<and> length r \<le> length (rc_r_buf (rw_ctrl w))"
proof (cases "rc_r_buf (rw_ctrl w) \<noteq> [] \<and> rc_r_skip (rw_ctrl w)")
  case True
  then obtain rdb dir r where f: "BKTREC_Flush_RDBDATA ev w = (BKT_OK, rdb_changed w rdb dir r)"
    and ok: "rdb_ok (cur_disk (rdb_changed w rdb dir r))" "length r \<le> length (rc_r_buf (rw_ctrl w))"
    using Flush_RDBDATA_ok [OF assms] by blast
  have "flush_rdb ev w = (BKT_OK, rdb_changed w rdb dir r)"
    using True f by (simp add: flush_rdb_def BKT_OK_def BKT_ERR_def)
  with ok show ?thesis by blast
next
  case False
  have "w = rdb_changed w (dk_rdb (cur_disk w)) (dk_rdb_dir (cur_disk w)) (rc_r_buf (rw_ctrl w))"
    by (simp add: rdb_changed_def upd_disk_def)
  with False ok show ?thesis unfolding flush_rdb_def by (metis le_refl)
qed

lemma basket_open_rdb:
  assumes "basket_open items ixs w" "length r \<le> length (rc_r_buf (rw_ctrl w))"
  shows "basket_open items ixs (rdb_changed w rdb dir r)"
proof -
  have buf: "buffers_ok ((rw_ctrl w)\<lparr>rc_r_buf := r\<rparr>)"
    using basket_openD(2) [OF assms(1)] assms(2)
    by (simp add: buffers_ok_def rc_b_pos_def rc_i_pos_def rc_r_pos_def SIZEOF_RDB_PRM_def)
  have part: "part_open (rw_disks (rdb_changed w rdb dir r)) h k d b len fpos b' data = part_open (rw_disks w) h k d b len fpos b' data"
    for h k d b len fpos b' data
    by (rule part_open_cong) simp
  show ?thesis using assms(1) buf by (simp add: basket_open_def Let_def part)
qed

section \<open>Putting frames\<close>

definition payload :: "video_rec_param \<Rightarrow> byte list" where
  "payload pv = take (nat (vp_framesize pv)) (vp_buff pv)"

definition video_item :: "bkt_env \<Rightarrow> video_rec_param \<Rightarrow> int \<Rightarrow> item" where
  "video_item ev pv prev = Vid (video_stream_hdr ev pv prev) (video_hdr_of pv) (payload pv)"

text \<open>A frame whose members hold values of their types, with a channel that exists and a
  size below that of the stream buffer.\<close>

definition video_ok :: "video_rec_param \<Rightarrow> bool" where
  "video_ok pv \<longleftrightarrow> 0 \<le> vp_ch pv \<and> vp_ch pv < 16 \<and> 0 \<le> vp_framesize pv \<and> vp_framesize pv \<le> int (length (vp_buff pv))
     \<and> vp_framesize pv + 84 < BKT_BBUF_SIZE
     \<and> (\<forall>x \<in> {vp_sec pv, vp_usec pv, vp_event pv, vp_capMode pv}. long x)
     \<and> (\<forall>x \<in> {vp_frametype pv, vp_framerate pv, vp_width pv, vp_height pv, vp_audioONOFF pv}. short x)
     \<and> (\<forall>x \<in> set (vp_camName pv). fits 1 x)"

lemma short_long: "short x \<Longrightarrow> long x"
  by (simp add: fits_def)

lemma name16_ok:
  assumes "\<forall>x \<in> set s. fits 1 x"
  shows "length (name16 s) = 16" "\<forall>x \<in> set (name16 s). fits 1 x"
proof -
  show "\<forall>x \<in> set (name16 s). fits 1 x"
  proof
    fix x assume "x \<in> set (name16 s)"
    then consider "x \<in> set (take 16 (takeWhile (\<lambda>c. c \<noteq> 0) s))" | "x = 0"
      by (auto simp: name16_def Let_def)
    then show "fits 1 x"
    proof cases
      case 1
      then have "x \<in> set s" by (meson in_set_takeD set_takeWhileD)
      with assms show ?thesis by blast
    qed (simp add: fits_def)
  qed
qed (simp add: name16_def Let_def)

lemma length_payload: "video_ok pv \<Longrightarrow> int (length (payload pv)) = vp_framesize pv"
  by (simp add: video_ok_def payload_def min_absorb2 nat_le_iff)

lemma video_hdr_of_ok: "video_ok pv \<Longrightarrow> video_hdr_ok (video_hdr_of pv)"
  using name16_ok [of "vp_camName pv"] by (simp add: video_hdr_ok_def video_hdr_of_def video_ok_def) (simp add: fits_def)

lemma video_item_ok:
  assumes "healthy ev" "video_ok pv" "long prev"
  shows "item_ok (video_item ev pv prev)"
proof -
  have "long (vp_framesize pv)" "long (vp_ch pv)" "long (vp_frametype pv)"
    using assms(2) by (auto simp: video_ok_def const_defs fits_def)
  then have "stream_hdr_ok (video_stream_hdr ev pv prev)"
    using assms by (simp add: healthy_def stream_hdr_ok_def video_stream_hdr_def video_ok_def) (simp add: const_defs fits_def)
  then show ?thesis using assms(2) video_hdr_of_ok [OF assms(2)] length_payload [OF assms(2)]
    by (simp add: video_item_def video_stream_hdr_def video_ok_def)
qed

lemma length_video_item:
  assumes "healthy ev" "video_ok pv"
  shows "int (length (item_bytes (video_item ev pv prev))) = 84 + vp_framesize pv"
proof -
  have "length (sh_reserved (ev_sh ev)) = 4" using assms(1) by (simp add: healthy_def stream_hdr_ok_def)
  then show ?thesis using assms name16_ok(1) [of "vp_camName pv"] length_payload [OF assms(2)]
    by (simp add: video_item_def video_stream_hdr_def video_hdr_of_def video_ok_def const_defs)
qed

end
