(* ===== verification/Basket_Write.thy ===== *)
theory Basket_Write
  imports Basket_Inv
begin

text \<open>Writing frames into an open basket (\<open>BKTREC_WriteVideoStream\<close> and
  \<open>BKTREC_WriteAudioStream\<close> of src/basket_rec.c, without a change of basket): every frame is
  appended as one item, every intra frame is indexed, and the basket keeps within its
  size.\<close>

section \<open>Room\<close>

definition total_size :: "bktrec \<Rightarrow> int" where
  "total_size c = rc_fpos_bkt c + rc_b_pos c + rc_fpos_idx c + rc_i_pos c"

lemma pos_nonneg [simp]: "0 \<le> rc_b_pos c" "0 \<le> rc_i_pos c" "0 \<le> rc_r_pos c"
  by (simp_all add: rc_b_pos_def rc_i_pos_def rc_r_pos_def SIZEOF_RDB_PRM_def)

lemma basket_open_nonneg:
  assumes "basket_open items ixs w"
  shows "rc_fpos_bkt (rw_ctrl w) + rc_b_pos (rw_ctrl w) = int (BASKET_HDR_LEN + length (items_bytes items))"
    "rc_fpos_idx (rw_ctrl w) + rc_i_pos (rw_ctrl w) = int (INDEX_HDR_LEN + INDEX_DATA_LEN * length ixs)"
    "0 \<le> rc_fpos_bkt (rw_ctrl w)" "0 \<le> rc_fpos_idx (rw_ctrl w)"
proof -
  let ?c = "rw_ctrl w"
  have p: "part_open (rw_disks w) (rw_hbkt w) Bkt (rc_target_path ?c) (rc_bid ?c) BASKET_HDR_LEN (rc_fpos_bkt ?c) (rc_b_buf ?c) (items_bytes items)"
    "part_open (rw_disks w) (rw_hidx w) Idx (rc_target_path ?c) (rc_bid ?c) INDEX_HDR_LEN (rc_fpos_idx ?c) (rc_i_buf ?c) (index_bytes ixs)"
    using assms by (simp_all add: basket_open_def Let_def)
  show "rc_fpos_bkt ?c + rc_b_pos ?c = int (BASKET_HDR_LEN + length (items_bytes items))"
    using part_open_len [OF p(1)] by (simp add: rc_b_pos_def)
  show "rc_fpos_idx ?c + rc_i_pos ?c = int (INDEX_HDR_LEN + INDEX_DATA_LEN * length ixs)"
    using part_open_len [OF p(2)] by (simp add: rc_i_pos_def)
  show "0 \<le> rc_fpos_bkt ?c" "0 \<le> rc_fpos_idx ?c" using p by (auto simp: part_open_def)
qed

lemma total_size_eq:
  assumes "basket_open items ixs w"
  shows "total_size (rw_ctrl w) = int (BASKET_HDR_LEN + length (items_bytes items) + INDEX_HDR_LEN + INDEX_DATA_LEN * length ixs)"
  using basket_open_nonneg(1,2) [OF assms] by (simp add: total_size_def)

text \<open>The long value of a place in an open basket.\<close>

lemma place_long:
  assumes "basket_open items ixs w"
  shows "long (rc_fpos_bkt (rw_ctrl w) + rc_b_pos (rw_ctrl w))"
proof -
  have "total_size (rw_ctrl w) < BASKET_SIZE + BKT_BBUF_SIZE"
    using basket_openD(2) [OF assms] by (simp add: buffers_ok_def total_size_def)
  then show ?thesis using basket_open_nonneg(3,4) [OF assms] pos_nonneg [of "rw_ctrl w"]
    by (simp add: total_size_def fits_def BASKET_SIZE_def BKT_BBUF_SIZE_def del: pos_nonneg)
qed

section \<open>The parts of a write\<close>

text \<open>What a write leaves alone.\<close>

definition same_place :: "rec_world \<Rightarrow> rec_world \<Rightarrow> bool" where
  "same_place w' w \<longleftrightarrow> rw_disks w' = rw_disks w \<and> rw_hbkt w' = rw_hbkt w \<and> rw_hidx w' = rw_hidx w \<and> rw_status w' = rw_status w
     \<and> rw_hddmgr w' = rw_hddmgr w \<and> rw_mount w' = rw_mount w \<and> rw_space w' = rw_space w \<and> rw_recycle w' = rw_recycle w
     \<and> rc_bid (rw_ctrl w') = rc_bid (rw_ctrl w) \<and> rc_target_path (rw_ctrl w') = rc_target_path (rw_ctrl w)
     \<and> rc_bkt_cnt (rw_ctrl w') = rc_bkt_cnt (rw_ctrl w) \<and> rc_fpos_bkt (rw_ctrl w') = rc_fpos_bkt (rw_ctrl w)
     \<and> rc_fpos_idx (rw_ctrl w') = rc_fpos_idx (rw_ctrl w)"

text \<open>The bytes of an item put to the stream buffer.\<close>

lemma put_b_ok:
  assumes "rc_b_pos (rw_ctrl w) + int (length bs) \<le> BKT_BBUF_SIZE"
  shows "put_b bs w = Some (upd_ctrl (rc_b_buf_update (\<lambda>b. b @ bs)) w)"
  using assms by (simp add: put_b_def Let_def)

definition index_entry :: "bkt_env \<Rightarrow> video_rec_param \<Rightarrow> bktrec \<Rightarrow> index_data" where
  "index_entry ev pv c = (ev_ix ev)\<lparr>ix_id := ID_INDEX_DATA, ix_ch := vp_ch pv, ix_event := vp_event pv, ix_fpos := rc_fpos_bkt c + rc_b_pos c,
     ix_s_type := ST_VIDEO, ix_sec := vp_sec pv, ix_usec := vp_usec pv, ix_width := vp_width pv, ix_height := vp_height pv,
     ix_capMode := vp_capMode pv\<rparr>"

lemma put_index_simps:
  "rc_i_buf (put_index ev pv c) = rc_i_buf c @ enc_index_data (index_entry ev pv c)"
  "rc_b_buf (put_index ev pv c) = rc_b_buf c" "rc_r_buf (put_index ev pv c) = rc_r_buf c"
  "rc_fpos_bkt (put_index ev pv c) = rc_fpos_bkt c" "rc_fpos_idx (put_index ev pv c) = rc_fpos_idx c"
  "rc_bid (put_index ev pv c) = rc_bid c" "rc_target_path (put_index ev pv c) = rc_target_path c"
  "rc_bkt_cnt (put_index ev pv c) = rc_bkt_cnt c" "rc_r_skip (put_index ev pv c) = rc_r_skip c"
  "rc_prev_min (put_index ev pv c) = rc_prev_min c" "rc_prev_day (put_index ev pv c) = rc_prev_day c"
  "length (rc_idx_pos (put_index ev pv c)) = length (rc_idx_pos c)"
  "length (bt_t1 (rc_bkt_secs (put_index ev pv c))) = length (bt_t1 (rc_bkt_secs c))"
  "length (bt_t2 (rc_bkt_secs (put_index ev pv c))) = length (bt_t2 (rc_bkt_secs c))"
  "length (bt_t1 (rc_idx_secs (put_index ev pv c))) = length (bt_t1 (rc_idx_secs c))"
  "length (bt_t2 (rc_idx_secs (put_index ev pv c))) = length (bt_t2 (rc_idx_secs c))"
  by (simp_all add: put_index_def Let_def index_entry_def)

lemma index_entry_ok:
  assumes "healthy ev" "video_ok pv" "basket_open items ixs w"
  shows "indexes (BASKET_HDR_LEN + length (items_bytes items), video_stream_hdr ev pv prev, video_hdr_of pv) (index_entry ev pv (rw_ctrl w))"
proof -
  have "index_data_ok (index_entry ev pv (rw_ctrl w))"
    using assms(1,2) place_long [OF assms(3)]
    by (simp add: healthy_def index_data_ok_def index_entry_def video_ok_def) (simp add: const_defs fits_def)
  then show ?thesis using basket_open_nonneg(1) [OF assms(3)]
    by (simp add: indexes_def index_entry_def video_stream_hdr_def video_hdr_of_def)
qed

text \<open>The entries of the record database.\<close>

lemma put_rdb_ok:
  assumes r: "length (rc_r_buf c) < 51 \<or> put_rdb pv cur_min c \<noteq> None" and c: "length (rc_prev_min c) = BKT_MAX_CHANNEL" "rc_r_pos c \<le> BKT_RBUF_SIZE"
  shows "\<exists>r m. put_rdb pv cur_min c = Some (c\<lparr>rc_r_buf := r, rc_prev_min := m\<rparr>) \<and> length r \<le> Suc (length (rc_r_buf c))
    \<and> length m = BKT_MAX_CHANNEL \<and> SIZEOF_RDB_PRM * int (length r) \<le> BKT_RBUF_SIZE"
proof (cases "fst (bt_t1 (rc_idx_secs c) ! nat (vp_ch pv)) \<noteq> 0 \<and> rc_prev_min c ! nat (vp_ch pv) \<noteq> cur_min
    \<and> fst (bt_t2 (rc_idx_secs c) ! nat (vp_ch pv)) \<ge> vp_sec pv")
  case True
  let ?r = "rc_r_buf c @ [\<lparr>rp_ch = vp_ch pv, rp_sec = vp_sec pv, rp_evt = vp_event pv, rp_bid = rc_bid c, rp_idx_pos = rc_idx_pos c ! nat (vp_ch pv)\<rparr>]"
  have small: "\<not> rc_r_pos c + SIZEOF_RDB_PRM > BKT_RBUF_SIZE"
    using r
  proof
    assume "put_rdb pv cur_min c \<noteq> None"
    then show ?thesis using True by (auto simp: put_rdb_def Let_def split: if_splits)
  qed (simp add: rc_r_pos_def SIZEOF_RDB_PRM_def BKT_RBUF_SIZE_def)
  then have "put_rdb pv cur_min c = Some (c\<lparr>rc_r_buf := ?r, rc_prev_min := (rc_prev_min c)[nat (vp_ch pv) := cur_min]\<rparr>)"
    using True by (simp add: put_rdb_def Let_def)
  moreover have "length ((rc_prev_min c)[nat (vp_ch pv) := cur_min]) = BKT_MAX_CHANNEL" using c(1) by simp
  moreover have "SIZEOF_RDB_PRM * int (length ?r) \<le> BKT_RBUF_SIZE"
    using small by (simp add: rc_r_pos_def SIZEOF_RDB_PRM_def)
  ultimately show ?thesis by (metis length_append_singleton le_refl)
next
  case False
  have "c = c\<lparr>rc_r_buf := rc_r_buf c, rc_prev_min := rc_prev_min c\<rparr>" by simp
  with False c show ?thesis unfolding put_rdb_def Let_def rc_r_pos_def by (metis le_SucI le_refl)
qed

text \<open>The parts of an open basket that a write changes.\<close>

lemma basket_open_write:
  assumes op: "basket_open items ixs w"
    and same: "same_place w' w" and buf: "buffers_ok (rw_ctrl w')" and prev: "long (rw_prevFpos w')"
    and i: "item_ok i" and b: "rc_b_buf (rw_ctrl w') = rc_b_buf (rw_ctrl w) @ item_bytes i"
    and x: "rc_i_buf (rw_ctrl w') = rc_i_buf (rw_ctrl w) @ index_bytes ix"
    and ix: "list_all2 indexes (iframes (BASKET_HDR_LEN + length (items_bytes items)) [i]) ix"
  shows "basket_open (items @ [i]) (ixs @ ix) w'"
proof -
  let ?c = "rw_ctrl w"
  have p: "part_open (rw_disks w) (rw_hbkt w) Bkt (rc_target_path ?c) (rc_bid ?c) BASKET_HDR_LEN (rc_fpos_bkt ?c) (rc_b_buf ?c) (items_bytes items)"
    "part_open (rw_disks w) (rw_hidx w) Idx (rc_target_path ?c) (rc_bid ?c) INDEX_HDR_LEN (rc_fpos_idx ?c) (rc_i_buf ?c) (index_bytes ixs)"
    using op by (simp_all add: basket_open_def Let_def)
  have "list_all2 indexes (iframes BASKET_HDR_LEN (items @ [i])) (ixs @ ix)"
    unfolding iframes_append using basket_openD(5) [OF op] ix by (rule list_all2_appendI)
  moreover have "list_all item_ok (items @ [i])" using basket_openD(4) [OF op] i by simp
  moreover have "items_bytes (items @ [i]) = items_bytes items @ item_bytes i" by simp
  ultimately show ?thesis
    using part_open_append [OF p(1), of "item_bytes i"] part_open_append [OF p(2), of "index_bytes ix"]
      same buf prev basket_openD(1) [OF op]
    unfolding basket_open_def Let_def same_place_def b x by simp
qed

text \<open>A video frame put to the buffers.\<close>

lemma put_video_ok:
  assumes ev: "healthy ev" and pv: "video_ok pv" and op: "basket_open items ixs w"
    and room: "rc_b_pos (rw_ctrl w) + vp_framesize pv + 84 \<le> BKT_BBUF_SIZE" "rc_i_pos (rw_ctrl w) + 44 \<le> BKT_IBUF_SIZE"
      "total_size (rw_ctrl w) + vp_framesize pv + 128 < BASKET_SIZE" "length (rc_r_buf (rw_ctrl w)) < 51 \<or> put_video ev pv w \<noteq> None"
  shows "\<exists>w' ix. put_video ev pv w = Some w' \<and> basket_open (items @ [video_item ev pv (rw_prevFpos w)]) (ixs @ ix) w'
    \<and> same_place w' w \<and> total_size (rw_ctrl w') < BASKET_SIZE \<and> rc_prev_day (rw_ctrl w') = tm_mday (ev_local ev (vp_sec pv))
    \<and> length (rc_r_buf (rw_ctrl w')) \<le> Suc (length (rc_r_buf (rw_ctrl w)))"
proof -
  let ?c = "rw_ctrl w" and ?i = "video_item ev pv (rw_prevFpos w)"
  define ix where "ix = (if vp_frametype pv = FT_IFRAME then [index_entry ev pv ?c] else [])"
  define c where "c = (if vp_frametype pv = FT_IFRAME then put_index ev pv ?c else ?c)"
  have c: "rc_i_buf c = rc_i_buf ?c @ index_bytes ix" "rc_b_buf c = rc_b_buf ?c" "rc_r_buf c = rc_r_buf ?c"
    "rc_fpos_bkt c = rc_fpos_bkt ?c" "rc_fpos_idx c = rc_fpos_idx ?c" "rc_bid c = rc_bid ?c"
    "rc_target_path c = rc_target_path ?c" "rc_bkt_cnt c = rc_bkt_cnt ?c"
    "rc_prev_min c = rc_prev_min ?c" "length (rc_idx_pos c) = length (rc_idx_pos ?c)"
    "length (bt_t1 (rc_bkt_secs c)) = length (bt_t1 (rc_bkt_secs ?c))"
    "length (bt_t2 (rc_bkt_secs c)) = length (bt_t2 (rc_bkt_secs ?c))"
    "length (bt_t1 (rc_idx_secs c)) = length (bt_t1 (rc_idx_secs ?c))"
    "length (bt_t2 (rc_idx_secs c)) = length (bt_t2 (rc_idx_secs ?c))"
    by (simp_all add: c_def ix_def put_index_simps)
  have bytes: "enc_stream_hdr (video_stream_hdr ev pv (rw_prevFpos w)) @ enc_video_hdr (video_hdr_of pv) @ take (nat (vp_framesize pv)) (vp_buff pv)
      = item_bytes ?i"
    by (simp add: video_item_def payload_def)
  have len: "int (length (item_bytes ?i)) = 84 + vp_framesize pv" by (rule length_video_item [OF ev pv])
  let ?w1 = "w\<lparr>rw_ctrl := c, rw_prevFpos := rc_fpos_bkt c + rc_b_pos c\<rparr>"
  have pb: "put_b (item_bytes ?i) ?w1 = Some (upd_ctrl (rc_b_buf_update (\<lambda>b. b @ item_bytes ?i)) ?w1)"
    by (rule put_b_ok) (use room(1) len c(2) in \<open>simp add: rc_b_pos_def\<close>)
  have bok: "buffers_ok ?c" by (rule basket_openD(2) [OF op])
  let ?c2 = "rc_b_buf_update (\<lambda>b. b @ item_bytes ?i) c"
  obtain r m where r: "put_rdb pv (tm_min (ev_local ev (vp_sec pv))) ?c2 = Some (?c2\<lparr>rc_r_buf := r, rc_prev_min := m\<rparr>)"
    and rl: "length r \<le> Suc (length (rc_r_buf ?c2))" and ml: "length m = BKT_MAX_CHANNEL" and rp: "SIZEOF_RDB_PRM * int (length r) \<le> BKT_RBUF_SIZE"
  proof -
    have "put_rdb pv (tm_min (ev_local ev (vp_sec pv))) ?c2 \<noteq> None" if "put_video ev pv w \<noteq> None"
      using that pb by (auto simp: put_video_def Let_def bytes simp flip: c_def split: option.splits)
    then have "length (rc_r_buf ?c2) < 51 \<or> put_rdb pv (tm_min (ev_local ev (vp_sec pv))) ?c2 \<noteq> None"
      using room(4) c(3) by auto
    then show thesis using put_rdb_ok [of ?c2] bok c(3,9) that by (auto simp: buffers_ok_def rc_r_pos_def)
  qed
  define w' where "w' = ?w1\<lparr>rw_ctrl := ?c2\<lparr>rc_r_buf := r, rc_prev_min := m,
      rc_bkt_secs := (rc_bkt_secs ?c2)\<lparr>bt_t2 := (bt_t2 (rc_bkt_secs ?c2))[nat (vp_ch pv) := (vp_sec pv, vp_usec pv)]\<rparr>,
      rc_prev_day := tm_mday (ev_local ev (vp_sec pv))\<rparr>\<rparr>"
  have run: "put_video ev pv w = Some w'"
    using pb r by (simp add: put_video_def Let_def bytes w'_def flip: c_def)
  have same: "same_place w' w" by (simp add: same_place_def w'_def c)
  have il: "int (length (index_bytes ix)) \<le> 44" by (simp add: ix_def INDEX_DATA_LEN_def)
  have tot: "total_size (rw_ctrl w') < BASKET_SIZE"
    using room(3) len il c by (simp add: total_size_def w'_def rc_b_pos_def rc_i_pos_def)
  have "rc_r_pos (rw_ctrl w') \<le> BKT_RBUF_SIZE"
    using rp by (simp add: w'_def rc_r_pos_def)
  moreover have "rc_b_pos (rw_ctrl w') \<le> BKT_BBUF_SIZE" using room(1) len c(2) by (simp add: w'_def rc_b_pos_def)
  moreover have "rc_i_pos (rw_ctrl w') \<le> BKT_IBUF_SIZE" using room(2) il c(1) by (simp add: w'_def rc_i_pos_def)
  moreover have "rc_fpos_bkt (rw_ctrl w') + rc_b_pos (rw_ctrl w') + rc_fpos_idx (rw_ctrl w') + rc_i_pos (rw_ctrl w') < BASKET_SIZE + BKT_BBUF_SIZE"
    using tot by (simp add: total_size_def BKT_BBUF_SIZE_def)
  ultimately have buf: "buffers_ok (rw_ctrl w')"
    using bok ml c by (simp add: buffers_ok_def w'_def)
  have "basket_open (items @ [?i]) (ixs @ ix) w'"
  proof (rule basket_open_write [OF op same buf])
    show "long (rw_prevFpos w')" using place_long [OF op] c(2,4) by (simp add: w'_def rc_b_pos_def)
    show "item_ok ?i" by (rule video_item_ok [OF ev pv basket_openD(3) [OF op]])
    show "rc_b_buf (rw_ctrl w') = rc_b_buf ?c @ item_bytes ?i" "rc_i_buf (rw_ctrl w') = rc_i_buf ?c @ index_bytes ix"
      by (simp_all add: w'_def c)
    have "sh_frametype (video_stream_hdr ev pv (rw_prevFpos w)) = vp_frametype pv" by (simp add: video_stream_hdr_def)
    then show "list_all2 indexes (iframes (BASKET_HDR_LEN + length (items_bytes items)) [?i]) ix"
      using index_entry_ok [OF ev pv op, of "rw_prevFpos w"] by (simp add: ix_def video_item_def)
  qed
  moreover have "length (rc_r_buf (rw_ctrl w')) \<le> Suc (length (rc_r_buf ?c))" using rl c(3) by (simp add: w'_def)
  moreover have "rc_prev_day (rw_ctrl w') = tm_mday (ev_local ev (vp_sec pv))" by (simp add: w'_def)
  ultimately show ?thesis using run same tot by blast
qed

section \<open>Writing without a change of basket\<close>

text \<open>What a call leaves alone when it only goes on in the current basket.\<close>

definition same_basket :: "rec_world \<Rightarrow> rec_world \<Rightarrow> bool" where
  "same_basket w' w \<longleftrightarrow> rw_status w' = rw_status w \<and> rw_hddmgr w' = rw_hddmgr w \<and> rw_mount w' = rw_mount w \<and> rw_space w' = rw_space w
     \<and> rw_recycle w' = rw_recycle w \<and> rc_bid (rw_ctrl w') = rc_bid (rw_ctrl w)
     \<and> rc_target_path (rw_ctrl w') = rc_target_path (rw_ctrl w) \<and> rc_bkt_cnt (rw_ctrl w') = rc_bkt_cnt (rw_ctrl w)
     \<and> (\<forall>d. dk_mgr (rw_disks w' d) = dk_mgr (rw_disks w d) \<and> dk_info (rw_disks w' d) = dk_info (rw_disks w d)
           \<and> (rdb_ok (rw_disks w d) \<longrightarrow> rdb_ok (rw_disks w' d)))
     \<and> (\<forall>k d b. (the_file (rw_disks w') k d b = None) = (the_file (rw_disks w) k d b = None)
           \<and> ((d, b) \<noteq> (rc_target_path (rw_ctrl w), rc_bid (rw_ctrl w)) \<longrightarrow> the_file (rw_disks w') k d b = the_file (rw_disks w) k d b))"

lemma same_basket_refl: "same_basket w w"
  by (simp add: same_basket_def)

lemma same_basket_trans:
  assumes "same_basket w2 w1" "same_basket w1 w"
  shows "same_basket w2 w"
  using assms unfolding same_basket_def by simp

lemma same_place_basket: "same_place w' w \<Longrightarrow> same_basket w' w"
  by (simp add: same_place_def same_basket_def)

lemma rdb_ok_set_file [simp]: "rdb_ok (set_file k d b f ds d') = rdb_ok (ds d')"
  by (simp add: rdb_ok_def)

lemma flushed_same:
  assumes "basket_open items ixs w"
  shows "same_basket (flushed w hb hi fb fi) w"
proof -
  have ex: "the_file (rw_disks w) Bkt (rc_target_path (rw_ctrl w)) (rc_bid (rw_ctrl w)) \<noteq> None"
    "the_file (rw_disks w) Idx (rc_target_path (rw_ctrl w)) (rc_bid (rw_ctrl w)) \<noteq> None"
    using assms by (auto simp: basket_open_def Let_def part_open_def open_at_def)
  then show ?thesis by (auto simp: same_basket_def flushed_def Let_def)
qed

lemma rdb_changed_same:
  assumes "rdb_ok (cur_disk (rdb_changed w rdb dir r))"
  shows "same_basket (rdb_changed w rdb dir r) w"
proof -
  have "rw_disks (rdb_changed w rdb dir r) d = rw_disks w d" if "d \<noteq> rc_target_path (rw_ctrl w)" for d
    using that by (simp add: rdb_changed_def upd_disk_def)
  then have "rdb_ok (rw_disks w d) \<longrightarrow> rdb_ok (rw_disks (rdb_changed w rdb dir r) d)" for d
    using assms by (cases "d = rc_target_path (rw_ctrl w)") simp_all
  then show ?thesis by (simp add: same_basket_def)
qed

text \<open>A flush succeeds, empties the stream and index buffers and keeps the basket.\<close>

lemma Flush_ok:
  assumes ev: "healthy ev" and op: "basket_open items ixs w" and rdb: "rdb_ok (cur_disk w)"
  shows "\<exists>w'. BKTREC_FlushWriteBuffer ev w = (BKT_OK, w') \<and> basket_open items ixs w' \<and> same_basket w' w
    \<and> rc_b_buf (rw_ctrl w') = [] \<and> rc_i_buf (rw_ctrl w') = [] \<and> rw_prevFpos w' = rw_prevFpos w
    \<and> rc_prev_day (rw_ctrl w') = rc_prev_day (rw_ctrl w) \<and> length (rc_r_buf (rw_ctrl w')) \<le> length (rc_r_buf (rw_ctrl w))
    \<and> rc_bkt_secs (rw_ctrl w') = rc_bkt_secs (rw_ctrl w) \<and> rc_idx_secs (rw_ctrl w') = rc_idx_secs (rw_ctrl w)"
proof -
  obtain hb hi fb fi where f: "BKTREC_FlushWriteBuffer ev w = flush_rdb ev (flushed w hb hi fb fi)"
    and op1: "basket_open items ixs (flushed w hb hi fb fi)" (is "basket_open items ixs ?w1")
    using flush_files [OF ev op] by blast
  have s1: "same_basket ?w1 w" by (rule flushed_same [OF op])
  have c1: "rc_b_buf (rw_ctrl ?w1) = []" "rc_i_buf (rw_ctrl ?w1) = []" "rw_prevFpos ?w1 = rw_prevFpos w"
    "rc_prev_day (rw_ctrl ?w1) = rc_prev_day (rw_ctrl w)" "rc_r_buf (rw_ctrl ?w1) = rc_r_buf (rw_ctrl w)"
    "rc_bkt_secs (rw_ctrl ?w1) = rc_bkt_secs (rw_ctrl w)" "rc_idx_secs (rw_ctrl ?w1) = rc_idx_secs (rw_ctrl w)"
    by (simp_all add: flushed_def Let_def)
  have "rdb_ok (cur_disk ?w1)" using s1 rdb by (simp add: same_basket_def)
  then obtain rdb dir r where r: "flush_rdb ev ?w1 = (BKT_OK, rdb_changed ?w1 rdb dir r)"
    and rok: "rdb_ok (cur_disk (rdb_changed ?w1 rdb dir r))" and rl: "length r \<le> length (rc_r_buf (rw_ctrl ?w1))"
    using flush_rdb_ok [OF ev] by blast
  have "basket_open items ixs (rdb_changed ?w1 rdb dir r)" by (rule basket_open_rdb [OF op1 rl])
  moreover have "same_basket (rdb_changed ?w1 rdb dir r) w"
    by (rule same_basket_trans [OF rdb_changed_same [OF rok] s1])
  ultimately show ?thesis using f r rl c1 by (intro exI [of _ "rdb_changed ?w1 rdb dir r"]) simp
qed

lemma check_size:
  "BKTREC_checkBasketSize (rc_fpos_bkt c) (rc_fpos_idx c) (rc_b_pos c + n + rc_i_pos c + m) = S_OK \<longleftrightarrow> total_size c + n + m < BASKET_SIZE"
  by (auto simp: BKTREC_checkBasketSize_def total_size_def S_OK_def Let_def)

lemma check_size_video:
  "BKTREC_checkBasketSize (rc_fpos_bkt c) (rc_fpos_idx c)
     (rc_b_pos c + n + SIZEOF_STREAM_HDR + SIZEOF_VSTREAM_HDR + rc_i_pos c + SIZEOF_INDEX_DATA) = S_OK \<longleftrightarrow> total_size c + n + 128 < BASKET_SIZE"
  using check_size [of c "n + SIZEOF_STREAM_HDR + SIZEOF_VSTREAM_HDR" SIZEOF_INDEX_DATA]
  by (simp add: SIZEOF_STREAM_HDR_def SIZEOF_VSTREAM_HDR_def SIZEOF_INDEX_DATA_def ac_simps)

lemma check_size_audio:
  "BKTREC_checkBasketSize (rc_fpos_bkt c) (rc_fpos_idx c)
     (rc_b_pos c + n + SIZEOF_STREAM_HDR + SIZEOF_ASTREAM_HDR + rc_i_pos c) = S_OK \<longleftrightarrow> total_size c + n + 68 < BASKET_SIZE"
  using check_size [of c "n + SIZEOF_STREAM_HDR + SIZEOF_ASTREAM_HDR" 0]
  by (simp add: SIZEOF_STREAM_HDR_def SIZEOF_ASTREAM_HDR_def ac_simps)

lemma total_size_same:
  assumes "basket_open items ixs w" "basket_open items ixs w'"
  shows "total_size (rw_ctrl w') = total_size (rw_ctrl w)"
  using assms by (simp add: total_size_eq)

text \<open>The result of a write that stays in its basket.\<close>

definition appended :: "bkt_env \<Rightarrow> item list \<Rightarrow> index_data list \<Rightarrow> item \<Rightarrow> rec_world \<Rightarrow> rec_world \<Rightarrow> bool" where
  "appended ev items ixs i w w' \<longleftrightarrow> (\<exists>ix. basket_open (items @ [i]) (ixs @ ix) w') \<and> same_basket w' w
     \<and> total_size (rw_ctrl w') < BASKET_SIZE \<and> length (rc_r_buf (rw_ctrl w')) \<le> Suc (length (rc_r_buf (rw_ctrl w)))"

text \<open>A video frame of the day of the last one, for which there is room in the basket.\<close>

definition stays_video :: "bkt_env \<Rightarrow> video_rec_param \<Rightarrow> bktrec \<Rightarrow> bool" where
  "stays_video ev pv c \<longleftrightarrow> total_size c + vp_framesize pv + 128 < BASKET_SIZE \<and> rc_prev_day c = tm_mday (ev_local ev (vp_sec pv))"

lemma video_guard:
  assumes "basket_open items ixs w" "video_ok pv"
  shows "\<not> (rw_status w = BKT_STATUS_CLOSED)"
    "\<not> (vp_ch pv < 0 \<or> int BKT_MAX_CHANNEL \<le> vp_ch pv \<or> vp_framesize pv < 0 \<or> int (length (vp_buff pv)) < vp_framesize pv)"
  using basket_openD(1) [OF assms(1)] assms(2)
  by (simp_all add: BKT_STATUS_CLOSED_def BKT_STATUS_OPENED_def video_ok_def BKT_MAX_CHANNEL_def)

lemma WriteVideo_appended:
  assumes ev: "healthy ev" and pv: "video_ok pv" and op: "basket_open items ixs w" and rdb: "rdb_ok (cur_disk w)"
    and stay: "stays_video ev pv (rw_ctrl w)" and r: "length (rc_r_buf (rw_ctrl w)) < 51 \<or> BKTREC_WriteVideoStream ev pv w \<noteq> None"
  shows "\<exists>w'. BKTREC_WriteVideoStream ev pv w = Some (BKT_OK, w') \<and> appended ev items ixs (video_item ev pv (rw_prevFpos w)) w w'
    \<and> rc_prev_day (rw_ctrl w') = rc_prev_day (rw_ctrl w)"
proof -
  let ?c = "rw_ctrl w"
  have size: "total_size ?c + vp_framesize pv + 128 < BASKET_SIZE" and day: "rc_prev_day ?c = tm_mday (ev_local ev (vp_sec pv))"
    using stay by (simp_all add: stays_video_def)
  let ?fl = "rc_b_pos ?c + vp_framesize pv + SIZEOF_STREAM_HDR + SIZEOF_VSTREAM_HDR \<ge> BKT_BBUF_SIZE
     \<or> rc_i_pos ?c + SIZEOF_INDEX_DATA \<ge> BKT_IBUF_SIZE"
  obtain w1 where step: "BKTREC_WriteVideoStream ev pv w = map_option (Pair BKT_OK) (put_video ev pv w1)"
    and op1: "basket_open items ixs w1" and s1: "same_basket w1 w" and prev: "rw_prevFpos w1 = rw_prevFpos w"
    and room: "rc_b_pos (rw_ctrl w1) + vp_framesize pv + 84 \<le> BKT_BBUF_SIZE" "rc_i_pos (rw_ctrl w1) + 44 \<le> BKT_IBUF_SIZE"
    and r1: "length (rc_r_buf (rw_ctrl w1)) \<le> length (rc_r_buf ?c)"
  proof (cases ?fl)
    case True
    let ?w0 = "upd_ctrl (rc_r_skip_update (\<lambda>_. True)) w"
    have op0: "basket_open items ixs ?w0"
      using op by (simp add: basket_open_def Let_def buffers_ok_def rc_b_pos_def rc_i_pos_def rc_r_pos_def)
    have s0: "same_basket ?w0 w" by (simp add: same_basket_def)
    obtain w1 where f: "BKTREC_FlushWriteBuffer ev ?w0 = (BKT_OK, w1)" "basket_open items ixs w1" "same_basket w1 ?w0"
      "rc_b_buf (rw_ctrl w1) = []" "rc_i_buf (rw_ctrl w1) = []" "rw_prevFpos w1 = rw_prevFpos ?w0"
      "length (rc_r_buf (rw_ctrl w1)) \<le> length (rc_r_buf (rw_ctrl ?w0))"
      using Flush_ok [OF ev op0] rdb by auto
    have "BKTREC_WriteVideoStream ev pv w = map_option (Pair BKT_OK) (put_video ev pv w1)"
      using True f(1) day size video_guard [OF op pv] unfolding BKTREC_WriteVideoStream_def
      by (simp add: check_size_video Let_def)
    then show thesis
    proof (rule that [OF _ f(2) same_basket_trans [OF f(3) s0]])
      show "rw_prevFpos w1 = rw_prevFpos w" "length (rc_r_buf (rw_ctrl w1)) \<le> length (rc_r_buf ?c)" using f(6,7) by simp_all
      show "rc_b_pos (rw_ctrl w1) + vp_framesize pv + 84 \<le> BKT_BBUF_SIZE" using f(4) pv by (simp add: rc_b_pos_def video_ok_def)
      show "rc_i_pos (rw_ctrl w1) + 44 \<le> BKT_IBUF_SIZE" using f(5) by (simp add: rc_i_pos_def BKT_IBUF_SIZE_def)
    qed
  next
    case False
    have "BKTREC_WriteVideoStream ev pv w = map_option (Pair BKT_OK) (put_video ev pv w)"
      using False day size video_guard [OF op pv] unfolding BKTREC_WriteVideoStream_def
      by (simp add: check_size_video Let_def)
    then show thesis
      by (rule that [OF _ op same_basket_refl refl])
         (use False in \<open>simp_all add: SIZEOF_STREAM_HDR_def SIZEOF_VSTREAM_HDR_def SIZEOF_INDEX_DATA_def\<close>)
  qed
  have "total_size (rw_ctrl w1) + vp_framesize pv + 128 < BASKET_SIZE"
    using size total_size_same [OF op op1] by simp
  moreover have "length (rc_r_buf (rw_ctrl w1)) < 51 \<or> put_video ev pv w1 \<noteq> None" using r r1 step by auto
  ultimately obtain w' ix where put: "put_video ev pv w1 = Some w'" "basket_open (items @ [video_item ev pv (rw_prevFpos w1)]) (ixs @ ix) w'"
    "same_place w' w1" "total_size (rw_ctrl w') < BASKET_SIZE" "rc_prev_day (rw_ctrl w') = tm_mday (ev_local ev (vp_sec pv))"
    "length (rc_r_buf (rw_ctrl w')) \<le> Suc (length (rc_r_buf (rw_ctrl w1)))"
    using put_video_ok [OF ev pv op1 room] by auto
  have "appended ev items ixs (video_item ev pv (rw_prevFpos w)) w w'"
    using put(2,4,6) prev r1 same_basket_trans [OF same_place_basket [OF put(3)] s1] by (auto simp: appended_def)
  with step put(1,5) day show ?thesis by auto
qed

section \<open>Audio\<close>

definition audio_item :: "bkt_env \<Rightarrow> audio_rec_param \<Rightarrow> int \<Rightarrow> item" where
  "audio_item ev pa prev = Aud (audio_stream_hdr ev pa prev) (audio_hdr_of ev pa) (take (nat (ap_framesize pa)) (ap_buff pa))"

definition audio_ok :: "audio_rec_param \<Rightarrow> bool" where
  "audio_ok pa \<longleftrightarrow> 0 \<le> ap_framesize pa \<and> ap_framesize pa \<le> int (length (ap_buff pa)) \<and> ap_framesize pa + 84 < BKT_BBUF_SIZE
     \<and> (\<forall>x \<in> {ap_ch pa, ap_sec pa, ap_usec pa, ap_samplingrate pa}. long x)"

lemma length_audio_payload: "audio_ok pa \<Longrightarrow> int (length (take (nat (ap_framesize pa)) (ap_buff pa))) = ap_framesize pa"
  by (simp add: audio_ok_def min_absorb2 nat_le_iff)

lemma audio_item_ok:
  assumes "healthy ev" "audio_ok pa" "long prev"
  shows "item_ok (audio_item ev pa prev)"
proof -
  have "long (ap_framesize pa)" using assms(2) by (auto simp: audio_ok_def const_defs fits_def)
  then have "stream_hdr_ok (audio_stream_hdr ev pa prev)"
    using assms by (simp add: healthy_def stream_hdr_ok_def audio_stream_hdr_def audio_ok_def) (simp add: const_defs fits_def)
  moreover have "audio_hdr_ok (audio_hdr_of ev pa)"
    using assms(1,2) by (simp add: healthy_def audio_hdr_ok_def audio_hdr_of_def audio_ok_def)
  ultimately show ?thesis using length_audio_payload [OF assms(2)]
    by (simp add: audio_item_def audio_stream_hdr_def)
qed

lemma length_audio_item:
  assumes "healthy ev" "audio_ok pa"
  shows "int (length (item_bytes (audio_item ev pa prev))) = 68 + ap_framesize pa"
proof -
  have "length (sh_reserved (ev_sh ev)) = 4" using assms(1) by (simp add: healthy_def stream_hdr_ok_def)
  then have "length (enc_stream_hdr (audio_stream_hdr ev pa prev)) = STREAM_HDR_LEN" by (simp add: audio_stream_hdr_def)
  then show ?thesis using length_audio_payload [OF assms(2)]
    by (simp add: audio_item_def STREAM_HDR_LEN_def AUDIO_HDR_LEN_def)
qed

definition put_audio :: "bkt_env \<Rightarrow> audio_rec_param \<Rightarrow> rec_world \<Rightarrow> rec_world option" where
  "put_audio ev pa w = put_b (item_bytes (audio_item ev pa (rw_prevFpos w))) (w\<lparr>rw_prevFpos := rc_fpos_bkt (rw_ctrl w) + rc_b_pos (rw_ctrl w)\<rparr>)"

text \<open>An item without an index entry, put to the stream buffer.\<close>

lemma basket_open_put:
  assumes op: "basket_open items ixs w" and i: "item_ok i" and noix: "\<And>pos. iframes pos [i] = []" and prev: "long (rw_prevFpos w')"
    and room: "rc_b_pos (rw_ctrl w) + int (length (item_bytes i)) \<le> BKT_BBUF_SIZE"
      "total_size (rw_ctrl w) + int (length (item_bytes i)) < BASKET_SIZE + BKT_BBUF_SIZE"
    and w': "w' = upd_ctrl (rc_b_buf_update (\<lambda>b. b @ item_bytes i)) (w\<lparr>rw_prevFpos := rw_prevFpos w'\<rparr>)"
  shows "basket_open (items @ [i]) ixs w'" "same_place w' w" "total_size (rw_ctrl w') = total_size (rw_ctrl w) + int (length (item_bytes i))"
proof -
  have c: "rw_ctrl w' = rc_b_buf_update (\<lambda>b. b @ item_bytes i) (rw_ctrl w)" by (subst w') simp
  show same: "same_place w' w" by (subst w') (simp add: same_place_def)
  show tot: "total_size (rw_ctrl w') = total_size (rw_ctrl w) + int (length (item_bytes i))"
    unfolding c by (simp add: total_size_def rc_b_pos_def rc_i_pos_def)
  have "buffers_ok (rw_ctrl w')"
    using basket_openD(2) [OF op] room unfolding c
    by (simp add: buffers_ok_def total_size_def rc_b_pos_def rc_i_pos_def rc_r_pos_def)
  then have "basket_open (items @ [i]) (ixs @ []) w'"
  proof (rule basket_open_write [OF op same _ prev i])
    show "list_all2 indexes (iframes (BASKET_HDR_LEN + length (items_bytes items)) [i]) []" unfolding noix by simp
  qed (simp_all add: c)
  then show "basket_open (items @ [i]) ixs w'" by simp
qed

definition stays_audio :: "audio_rec_param \<Rightarrow> bktrec \<Rightarrow> bool" where
  "stays_audio pa c \<longleftrightarrow> total_size c + ap_framesize pa + 68 < BASKET_SIZE"

lemma put_audio_ok:
  assumes ev: "healthy ev" and pa: "audio_ok pa" and op: "basket_open items ixs w"
    and room: "rc_b_pos (rw_ctrl w) + ap_framesize pa + 68 \<le> BKT_BBUF_SIZE" "stays_audio pa (rw_ctrl w)"
  shows "\<exists>w'. put_audio ev pa w = Some w' \<and> basket_open (items @ [audio_item ev pa (rw_prevFpos w)]) ixs w'
    \<and> same_place w' w \<and> total_size (rw_ctrl w') < BASKET_SIZE \<and> rc_r_buf (rw_ctrl w') = rc_r_buf (rw_ctrl w)
    \<and> rc_prev_day (rw_ctrl w') = rc_prev_day (rw_ctrl w)"
proof -
  let ?i = "audio_item ev pa (rw_prevFpos w)" and ?w1 = "w\<lparr>rw_prevFpos := rc_fpos_bkt (rw_ctrl w) + rc_b_pos (rw_ctrl w)\<rparr>"
  define w' where "w' = upd_ctrl (rc_b_buf_update (\<lambda>b. b @ item_bytes ?i)) ?w1"
  have len: "int (length (item_bytes ?i)) = 68 + ap_framesize pa" by (rule length_audio_item [OF ev pa])
  have run: "put_audio ev pa w = Some w'"
    unfolding put_audio_def w'_def by (rule put_b_ok) (use room(1) len in simp)
  have prev: "long (rw_prevFpos w')" using place_long [OF op] by (simp add: w'_def)
  have w': "w' = upd_ctrl (rc_b_buf_update (\<lambda>b. b @ item_bytes ?i)) (w\<lparr>rw_prevFpos := rw_prevFpos w'\<rparr>)"
    by (simp add: w'_def)
  have room': "rc_b_pos (rw_ctrl w) + int (length (item_bytes ?i)) \<le> BKT_BBUF_SIZE"
    "total_size (rw_ctrl w) + int (length (item_bytes ?i)) < BASKET_SIZE + BKT_BBUF_SIZE"
    using room len by (simp_all add: stays_audio_def BKT_BBUF_SIZE_def)
  note put = basket_open_put [OF op audio_item_ok [OF ev pa basket_openD(3) [OF op]] _ prev room' w']
  have "total_size (rw_ctrl w') < BASKET_SIZE" using put(3) len room(2) by (simp add: audio_item_def stays_audio_def)
  moreover have "rc_r_buf (rw_ctrl w') = rc_r_buf (rw_ctrl w)" "rc_prev_day (rw_ctrl w') = rc_prev_day (rw_ctrl w)"
    by (simp_all add: w'_def)
  ultimately show ?thesis using run put(1,2) by (simp add: audio_item_def)
qed

lemma audio_guard:
  assumes "basket_open items ixs w" "audio_ok pa"
  shows "\<not> (rw_status w = BKT_STATUS_CLOSED)" "\<not> (ap_framesize pa < 0 \<or> int (length (ap_buff pa)) < ap_framesize pa)"
  using basket_openD(1) [OF assms(1)] assms(2)
  by (simp_all add: BKT_STATUS_CLOSED_def BKT_STATUS_OPENED_def audio_ok_def)

lemma put_audio_fold:
  "put_b (enc_stream_hdr (audio_stream_hdr ev pa (rw_prevFpos w)) @ enc_audio_hdr (audio_hdr_of ev pa) @ take (nat (ap_framesize pa)) (ap_buff pa))
      (w\<lparr>rw_prevFpos := rc_fpos_bkt (rw_ctrl w) + rc_b_pos (rw_ctrl w)\<rparr>) = put_audio ev pa w"
  by (simp add: put_audio_def audio_item_def)

lemma WriteAudio_appended:
  assumes ev: "healthy ev" and pa: "audio_ok pa" and op: "basket_open items ixs w" and rdb: "rdb_ok (cur_disk w)"
    and stay: "stays_audio pa (rw_ctrl w)"
  shows "\<exists>w'. BKTREC_WriteAudioStream ev pa w = Some (BKT_OK, w') \<and> appended ev items ixs (audio_item ev pa (rw_prevFpos w)) w w'
    \<and> rc_prev_day (rw_ctrl w') = rc_prev_day (rw_ctrl w) \<and> length (rc_r_buf (rw_ctrl w')) \<le> length (rc_r_buf (rw_ctrl w))"
proof -
  let ?c = "rw_ctrl w"
  obtain w1 where step: "BKTREC_WriteAudioStream ev pa w = map_option (Pair BKT_OK) (put_audio ev pa w1)"
    and op1: "basket_open items ixs w1" and s1: "same_basket w1 w" and prev: "rw_prevFpos w1 = rw_prevFpos w"
    and room: "rc_b_pos (rw_ctrl w1) + ap_framesize pa + 68 \<le> BKT_BBUF_SIZE"
    and r1: "length (rc_r_buf (rw_ctrl w1)) \<le> length (rc_r_buf ?c)" "rc_prev_day (rw_ctrl w1) = rc_prev_day ?c"
  proof (cases "rc_b_pos ?c + ap_framesize pa + SIZEOF_STREAM_HDR + SIZEOF_ASTREAM_HDR \<ge> BKT_BBUF_SIZE")
    case True
    obtain w1 where f: "BKTREC_FlushWriteBuffer ev w = (BKT_OK, w1)" "basket_open items ixs w1" "same_basket w1 w"
      "rc_b_buf (rw_ctrl w1) = []" "rw_prevFpos w1 = rw_prevFpos w" "length (rc_r_buf (rw_ctrl w1)) \<le> length (rc_r_buf ?c)"
      "rc_prev_day (rw_ctrl w1) = rc_prev_day ?c"
      using Flush_ok [OF ev op rdb] by auto
    have "BKTREC_WriteAudioStream ev pa w = map_option (Pair BKT_OK) (put_audio ev pa w1)"
      using True f(1) stay audio_guard [OF op pa] unfolding BKTREC_WriteAudioStream_def
      by (simp add: check_size_audio stays_audio_def Let_def flip: put_audio_fold)
    then show thesis
      by (rule that [OF _ f(2,3,5) _ f(6,7)]) (use f(4) pa in \<open>simp add: rc_b_pos_def audio_ok_def\<close>)
  next
    case False
    have "BKTREC_WriteAudioStream ev pa w = map_option (Pair BKT_OK) (put_audio ev pa w)"
      using False stay audio_guard [OF op pa] unfolding BKTREC_WriteAudioStream_def
      by (simp add: check_size_audio stays_audio_def Let_def flip: put_audio_fold)
    then show thesis
      by (rule that [OF _ op same_basket_refl refl])
         (use False in \<open>simp_all add: SIZEOF_STREAM_HDR_def SIZEOF_ASTREAM_HDR_def\<close>)
  qed
  have "stays_audio pa (rw_ctrl w1)" using stay total_size_same [OF op op1] by (simp add: stays_audio_def)
  then obtain w' where put: "put_audio ev pa w1 = Some w'" "basket_open (items @ [audio_item ev pa (rw_prevFpos w1)]) ixs w'"
    "same_place w' w1" "total_size (rw_ctrl w') < BASKET_SIZE" "rc_r_buf (rw_ctrl w') = rc_r_buf (rw_ctrl w1)"
    "rc_prev_day (rw_ctrl w') = rc_prev_day (rw_ctrl w1)"
    using put_audio_ok [OF ev pa op1 room] by auto
  have "basket_open (items @ [audio_item ev pa (rw_prevFpos w)]) (ixs @ []) w'" using put(2) prev by simp
  then have "\<exists>ix. basket_open (items @ [audio_item ev pa (rw_prevFpos w)]) (ixs @ ix) w'" by blast
  then have "appended ev items ixs (audio_item ev pa (rw_prevFpos w)) w w'"
    using put(4,5) r1 same_basket_trans [OF same_place_basket [OF put(3)] s1] unfolding appended_def by auto
  with step put r1 show ?thesis by auto
qed

end
