(* ===== verification/Basket_Change.thy ===== *)
theory Basket_Change
  imports Basket_Write
begin

text \<open>The change to the next basket (\<open>BKTREC_SaveFull\<close>, \<open>BKTREC_OpenFullBasket\<close>,
  \<open>BKTREC_exit\<close> of src/basket_rec.c): the full basket is sealed with its headers, the search
  of the next one leaves all stream and index files alone, and the next one starts
  empty.\<close>

section \<open>Disks with a manager\<close>

text \<open>A formatted disk: every basket that the manager file lists, and the one the info file
  names, has its two files.\<close>

definition has_files :: "bkt_disk \<Rightarrow> int \<Rightarrow> bool" where
  "has_files d b \<longleftrightarrow> b \<noteq> BKT_ERR \<and> dk_bkt d b \<noteq> None \<and> dk_idx d b \<noteq> None"

definition disk_ok :: "bkt_disk \<Rightarrow> bool" where
  "disk_ok d \<longleftrightarrow> rdb_ok d
     \<and> (\<exists>m. dk_mgr d = Some m \<and> mf_bodies m \<noteq> [] \<and> (\<forall>bd \<in> set (mf_bodies m). has_files d (mb_bid bd)))
     \<and> (\<forall>bi. dk_info d = Some (Some bi) \<longrightarrow> has_files d (ri_bid bi))"

text \<open>A change of the manager, info and rdb files of the current disk.\<close>

definition touched :: "rec_world \<Rightarrow> rec_world \<Rightarrow> bool" where
  "touched w' w \<longleftrightarrow> (\<exists>d s. w' = w\<lparr>rw_disks := (rw_disks w)(rc_target_path (rw_ctrl w) := d), rw_space := s\<rparr>
     \<and> dk_bkt d = dk_bkt (cur_disk w) \<and> dk_idx d = dk_idx (cur_disk w) \<and> (disk_ok (cur_disk w) \<longrightarrow> disk_ok d))"

lemma touched_refl: "touched w w"
  unfolding touched_def by (rule exI [of _ "cur_disk w"], rule exI [of _ "rw_space w"]) simp

lemma touched_trans:
  assumes "touched w2 w1" "touched w1 w"
  shows "touched w2 w"
proof -
  let ?p = "rc_target_path (rw_ctrl w)"
  obtain d s where 1: "w1 = w\<lparr>rw_disks := (rw_disks w)(?p := d), rw_space := s\<rparr>" "dk_bkt d = dk_bkt (cur_disk w)"
    "dk_idx d = dk_idx (cur_disk w)" "disk_ok (cur_disk w) \<longrightarrow> disk_ok d"
    using assms(2) unfolding touched_def by blast
  obtain d' s' where 2: "w2 = w1\<lparr>rw_disks := (rw_disks w1)(?p := d'), rw_space := s'\<rparr>" "dk_bkt d' = dk_bkt d" "dk_idx d' = dk_idx d"
    "disk_ok d \<longrightarrow> disk_ok d'"
    using assms(1) 1(1) unfolding touched_def by auto
  have "w2 = w\<lparr>rw_disks := (rw_disks w)(?p := d'), rw_space := s'\<rparr>" using 1(1) 2(1) by simp
  then show ?thesis using 1(2-4) 2(2-4) unfolding touched_def by metis
qed

lemma touched_upd:
  assumes "dk_bkt (f (cur_disk w)) = dk_bkt (cur_disk w)" "dk_idx (f (cur_disk w)) = dk_idx (cur_disk w)"
    "disk_ok (cur_disk w) \<Longrightarrow> disk_ok (f (cur_disk w))"
  shows "touched (upd_disk f w) w"
  unfolding touched_def upd_disk_def
  by (rule exI [of _ "f (cur_disk w)"], rule exI [of _ "rw_space w"]) (use assms in simp)

lemma touched_simps:
  assumes "touched w' w"
  shows "rw_ctrl w' = rw_ctrl w" "rw_hbkt w' = rw_hbkt w" "rw_hidx w' = rw_hidx w" "rw_status w' = rw_status w"
    "rw_prevFpos w' = rw_prevFpos w" "rw_mount w' = rw_mount w" "rw_recycle w' = rw_recycle w" "rw_hddmgr w' = rw_hddmgr w"
    "the_file (rw_disks w') k d b = the_file (rw_disks w) k d b" "has_files (rw_disks w' d) b = has_files (rw_disks w d) b"
    "disk_ok (rw_disks w d) \<Longrightarrow> disk_ok (rw_disks w' d)"
proof -
  have f: "dk_bkt (rw_disks w' d) = dk_bkt (rw_disks w d)" "dk_idx (rw_disks w' d) = dk_idx (rw_disks w d)" for d
    using assms by (auto simp: touched_def)
  then show "the_file (rw_disks w') k d b = the_file (rw_disks w) k d b" "has_files (rw_disks w' d) b = has_files (rw_disks w d) b"
    by (simp_all add: the_file_def has_files_def split: fkind.split)
qed (use assms in \<open>auto simp: touched_def\<close>)

lemma mgr_find_some:
  "mgr_find ev l P n i bodies = Some (j, bd) \<Longrightarrow> j < length bodies \<and> bd = bodies ! j \<and> P bd"
  by (induction ev l P n i bodies rule: mgr_find.induct) (auto split: if_splits)

section \<open>The manager and info files\<close>

lemma setBasketRecinfo_touched:
  assumes "has_files (cur_disk w) bid"
  shows "touched (snd (BKTREC_setBasketRecinfo ev bid flag path w)) w"
proof -
  have 1: "touched (if dk_info (cur_disk w) = None then upd_disk (\<lambda>d. d\<lparr>dk_info := Some None\<rparr>) w else w) w" (is "touched ?w1 w")
    by (auto intro!: touched_upd touched_refl simp: disk_ok_def has_files_def rdb_ok_def)
  have "touched (upd_disk (\<lambda>d. d\<lparr>dk_info := Some (Some \<lparr>ri_save_flag = flag, ri_bid = bid, ri_path = path\<rparr>)\<rparr>) ?w1) ?w1"
    by (rule touched_upd) (use assms touched_simps(10) [OF 1] touched_simps(1) [OF 1] in \<open>auto simp: disk_ok_def has_files_def rdb_ok_def\<close>)
  with 1 show ?thesis unfolding BKTREC_setBasketRecinfo_def by (auto simp: Let_def intro: touched_refl touched_trans)
qed

lemma set_body_touched:
  assumes "dk_mgr (cur_disk w) = Some m" "i < length (mf_bodies m)" "mb_bid bd = mb_bid (mf_bodies m ! i)"
  shows "touched (set_body i bd w) w"
  unfolding set_body_def
proof (rule touched_upd)
  let ?d = "cur_disk w"
  let ?m = "m\<lparr>mf_bodies := (mf_bodies m)[i := bd]\<rparr>"
  assume ok: "disk_ok ?d"
  have "has_files ?d (mb_bid bd')" if "bd' \<in> set (mf_bodies ?m)" for bd'
  proof -
    from that have "bd' = bd \<or> bd' \<in> set (mf_bodies m)" using set_update_subset_insert by fastforce
    then show ?thesis using ok assms by (auto simp: disk_ok_def)
  qed
  then show "disk_ok (?d\<lparr>dk_mgr := map_option (\<lambda>m. m\<lparr>mf_bodies := (mf_bodies m)[i := bd]\<rparr>) (dk_mgr ?d)\<rparr>)"
    using ok assms(1) by (simp add: disk_ok_def rdb_ok_def has_files_def)
qed simp_all

lemma mgr_body_files:
  assumes "disk_ok (cur_disk w)" "dk_mgr (cur_disk w) = Some m" "i < length (mf_bodies m)"
  shows "has_files (cur_disk w) (mb_bid (mf_bodies m ! i))"
  using assms by (auto simp: disk_ok_def)

text \<open>Both updates of a body change the manager and the info file only.\<close>

lemma body_update_touched:
  assumes ok: "disk_ok (cur_disk w)" and m: "dk_mgr (cur_disk w) = Some m"
    and f: "mgr_find ev l (\<lambda>bd. mb_bid bd = bid) n i (mf_bodies m) = Some (j, bd)" and b: "mb_bid bd' = mb_bid bd"
  shows "touched (snd (BKTREC_setBasketRecinfo ev bid flag path (set_body j bd' w))) w"
proof -
  note f' = mgr_find_some [OF f]
  have t: "touched (set_body j bd' w) w" by (rule set_body_touched [OF m]) (use f' b in auto)
  have "has_files (cur_disk w) bid" using mgr_body_files [OF ok m] f' by auto
  then have "has_files (cur_disk (set_body j bd' w)) bid" using touched_simps(1,10) [OF t] by simp
  from touched_trans [OF setBasketRecinfo_touched [OF this] t] show ?thesis .
qed

lemma setBasketStatus_touched:
  assumes "disk_ok (cur_disk w)"
  shows "touched (snd (BKTREC_setBasketStatus ev bid flag w)) w"
  unfolding BKTREC_setBasketStatus_def
  by (auto split: option.splits simp: Let_def intro!: touched_refl body_update_touched [OF assms])

lemma updateBasketManager_touched:
  assumes "disk_ok (cur_disk w)"
  shows "touched (snd (BKTREC_updateBasketManager ev bid flag w)) w"
  unfolding BKTREC_updateBasketManager_def
  by (auto split: option.splits simp: Let_def intro!: touched_refl body_update_touched [OF assms])

lemma removeRDB_touched: "touched (snd (BKTREC_removeRDB ev rmbid sec w)) w"
proof -
  let ?key = "day_key (ev_local ev sec)"
  let ?w1 = "upd_disk (\<lambda>d. d\<lparr>dk_rdb := (\<lambda>k. if k < ?key then None else dk_rdb d k)\<rparr>) w"
  have 1: "touched ?w1 w" by (rule touched_upd) (auto simp: disk_ok_def has_files_def rdb_ok_def)
  have 2: "touched (upd_disk (\<lambda>d. d\<lparr>dk_rdb := (dk_rdb d)(?key \<mapsto> f)\<rparr>) ?w1) ?w1" if "rf_evts f \<noteq> None" "rf_rdbs f \<noteq> None" for f
    by (rule touched_upd) (use that in \<open>auto simp: disk_ok_def has_files_def rdb_ok_def\<close>)
  show ?thesis unfolding BKTREC_removeRDB_def
    by (auto split: option.splits simp: Let_def intro: touched_refl 1 intro!: touched_trans [OF 2 1])
qed

section \<open>The search of the next basket\<close>

lemma oldest_loop_mem:
  "bid \<in> B \<Longrightarrow> \<forall>bd \<in> set bodies. mb_bid bd \<in> B \<Longrightarrow> oldest_loop ev n i bodies min_ts bid = (t, b) \<Longrightarrow> b \<in> B"
  by (induction ev n i bodies min_ts bid rule: oldest_loop.induct) (auto simp: Let_def split: if_splits)

lemma searchOldest_ok:
  assumes ev: "healthy ev" and ok: "disk_ok (cur_disk w)"
  shows "\<exists>b w'. BKTREC_searchOldestBasket ev w = (b, w') \<and> touched w' w \<and> has_files (cur_disk w) b"
proof -
  obtain m where m: "dk_mgr (cur_disk w) = Some m" "mf_bodies m \<noteq> []" "\<forall>bd \<in> set (mf_bodies m). has_files (cur_disk w) (mb_bid bd)"
    using ok by (auto simp: disk_ok_def)
  let ?bd = "hd (mf_bodies m)"
  obtain t b where l: "oldest_loop ev (nat (mf_bkt_count m) - 1) 1 (mf_bodies m) (BKT_GetMinTS (bt_t2 (mb_ts ?bd))) (mb_bid ?bd) = (t, b)"
    by (meson surj_pair)
  have "b \<in> Collect (has_files (cur_disk w))"
    by (rule oldest_loop_mem [OF _ _ l]) (use m(2,3) in auto)
  moreover have "BKTREC_searchOldestBasket ev w = (b, snd (BKTREC_removeRDB ev b t w))"
    using m(1,2) l ev by (simp add: BKTREC_searchOldestBasket_def Let_def)
  ultimately show ?thesis using removeRDB_touched by blast
qed

lemma search_info_files:
  assumes "disk_ok (cur_disk w)" "search_info ev lo lr flag w = b" "b \<noteq> BKT_ERR"
  shows "has_files (cur_disk w) b"
  using assms by (auto simp: search_info_def disk_ok_def split: option.splits if_splits)

lemma searchEmpty_files:
  assumes "disk_ok (cur_disk w)" "BKTREC_searchEmptyBasket ev w = b" "b \<noteq> BKT_ERR"
  shows "has_files (cur_disk w) b"
  using assms by (auto simp: BKTREC_searchEmptyBasket_def disk_ok_def split: option.splits if_splits dest!: mgr_find_some)

text \<open>On a formatted disk the search finds a basket with its files.\<close>

lemma searchBasket_ok:
  assumes ev: "healthy ev" and ok: "disk_ok (cur_disk w)"
  shows "\<exists>flag b w'. BKTREC_searchBasket ev in_all w = ((flag, Some b), w') \<and> touched w' w \<and> has_files (cur_disk w) b"
proof -
  obtain m where m: "dk_mgr (cur_disk w) = Some m" using ok by (auto simp: disk_ok_def)
  let ?w1 = "w\<lparr>rw_space := BKT_SPACE_FULL\<rparr>"
  have t1: "touched ?w1 w" unfolding touched_def
    by (rule exI [of _ "cur_disk w"], rule exI [of _ BKT_SPACE_FULL]) simp
  obtain b w' where old: "BKTREC_searchOldestBasket ev ?w1 = (b, w')" "touched w' ?w1" "has_files (cur_disk ?w1) b"
    using searchOldest_ok [OF ev, of ?w1] ok by auto
  have b: "b \<noteq> BKT_ERR" using old(3) by (simp add: has_files_def)
  consider (isusing) "in_all \<and> BKTREC_searchUsingBasket ev w \<noteq> BKT_ERR"
    | (stopped) "\<not> (in_all \<and> BKTREC_searchUsingBasket ev w \<noteq> BKT_ERR)" "in_all \<and> BKTREC_searchStoppedBasket ev w \<noteq> BKT_ERR"
    | (empty) "\<not> (in_all \<and> BKTREC_searchUsingBasket ev w \<noteq> BKT_ERR)" "\<not> (in_all \<and> BKTREC_searchStoppedBasket ev w \<noteq> BKT_ERR)"
       "rw_space w = BKT_SPACE_REMAIN \<and> BKTREC_searchEmptyBasket ev w \<noteq> BKT_ERR"
    | (oldest) "\<not> (in_all \<and> BKTREC_searchUsingBasket ev w \<noteq> BKT_ERR)" "\<not> (in_all \<and> BKTREC_searchStoppedBasket ev w \<noteq> BKT_ERR)"
       "\<not> (rw_space w = BKT_SPACE_REMAIN \<and> BKTREC_searchEmptyBasket ev w \<noteq> BKT_ERR)"
    by blast
  then show ?thesis
  proof cases
    case isusing
    then have "BKTREC_searchBasket ev in_all w = ((SF_USING, Some (BKTREC_searchUsingBasket ev w)), w)"
      using m by (simp add: BKTREC_searchBasket_def Let_def)
    moreover have "has_files (cur_disk w) (BKTREC_searchUsingBasket ev w)"
      using isusing search_info_files [OF ok] unfolding BKTREC_searchUsingBasket_def by blast
    ultimately show ?thesis using touched_refl by blast
  next
    case stopped
    then have "BKTREC_searchBasket ev in_all w = ((SF_STOP, Some (BKTREC_searchStoppedBasket ev w)), w)"
      using m unfolding BKTREC_searchBasket_def Let_def by simp
    moreover have "has_files (cur_disk w) (BKTREC_searchStoppedBasket ev w)"
      using stopped search_info_files [OF ok] unfolding BKTREC_searchStoppedBasket_def by blast
    ultimately show ?thesis using touched_refl by blast
  next
    case empty
    then have "BKTREC_searchBasket ev in_all w = ((SF_EMPTY, Some (BKTREC_searchEmptyBasket ev w)), w)"
      using m unfolding BKTREC_searchBasket_def Let_def by simp
    moreover have "has_files (cur_disk w) (BKTREC_searchEmptyBasket ev w)"
      using empty searchEmpty_files [OF ok] by blast
    ultimately show ?thesis using touched_refl by blast
  next
    case oldest
    then have "BKTREC_searchBasket ev in_all w = ((SF_FULL, Some b), w')"
      using m old(1) b unfolding BKTREC_searchBasket_def Let_def by simp
    then show ?thesis using touched_trans [OF old(2) t1] old(3) by auto
  qed
qed

section \<open>Closing\<close>

lemma length_ts_longs:
  assumes "length (bt_t1 t) = BKT_MAX_CHANNEL" "length (bt_t2 t) = BKT_MAX_CHANNEL"
  shows "length (ts_longs t) = 64"
proof -
  have "length (concat (map (\<lambda>(s, u). [s, u]) xs)) = 2 * length xs" for xs :: "(int \<times> int) list"
    by (induction xs) auto
  then show ?thesis using assms by (simp add: ts_longs_def BKT_MAX_CHANNEL_def)
qed

lemma length_basket_hdr:
  "length (bt_t1 (bh_ts h)) = BKT_MAX_CHANNEL \<Longrightarrow> length (bt_t2 (bh_ts h)) = BKT_MAX_CHANNEL \<Longrightarrow> length (enc_basket_hdr h) = BASKET_HDR_LEN"
  by (simp add: enc_basket_hdr_def length_ts_longs BASKET_HDR_LEN_def)

lemma length_index_hdr:
  "length (bt_t1 (ih_ts h)) = BKT_MAX_CHANNEL \<Longrightarrow> length (bt_t2 (ih_ts h)) = BKT_MAX_CHANNEL \<Longrightarrow> length (enc_index_hdr h) = INDEX_HDR_LEN"
  by (simp add: enc_index_hdr_def length_ts_longs INDEX_HDR_LEN_def)

text \<open>A closed basket: both files hold their header and the items or entries, and then what
  an earlier use of the basket has left behind.\<close>

definition sealed :: "int \<Rightarrow> basket_time \<Rightarrow> basket_time \<Rightarrow> item list \<Rightarrow> index_data list \<Rightarrow> disks \<Rightarrow> nat \<Rightarrow> int \<Rightarrow> bool" where
  "sealed flag bts its items ixs ds d b \<longleftrightarrow>
     (\<exists>bh ih rb ri. the_file ds Bkt d b = Some (enc_basket_hdr bh @ items_bytes items @ rb)
        \<and> the_file ds Idx d b = Some (enc_index_hdr ih @ index_bytes ixs @ ri)
        \<and> length (enc_basket_hdr bh) = BASKET_HDR_LEN \<and> length (enc_index_hdr ih) = INDEX_HDR_LEN
        \<and> bh_id bh = ID_BASKET_HDR \<and> bh_bid bh = b \<and> bh_save_flag bh = flag \<and> bh_ts bh = bts
        \<and> ih_id ih = ID_INDEX_HEADER \<and> ih_bid ih = b \<and> ih_count ih = int (length ixs) \<and> ih_ts ih = its
        \<and> list_all item_ok items \<and> list_all2 indexes (iframes BASKET_HDR_LEN items) ixs)"

lemma sealed_cong:
  assumes "the_file ds' Bkt d b = the_file ds Bkt d b" "the_file ds' Idx d b = the_file ds Idx d b"
  shows "sealed flag bts its items ixs ds' d b = sealed flag bts its items ixs ds d b"
  unfolding sealed_def assms ..

lemma recording_index_count:
  assumes op: "basket_open items ixs w" and i: "rc_i_buf (rw_ctrl w) = []"
  shows "BKT_GetRecordingIndexCount (rw_ctrl w) = int (length ixs)"
proof -
  have f: "rc_fpos_idx (rw_ctrl w) = int (INDEX_HDR_LEN + INDEX_DATA_LEN * length ixs)"
    using basket_open_nonneg(2) [OF op] i by (simp add: rc_i_pos_def)
  have "total_size (rw_ctrl w) < BASKET_SIZE + BKT_BBUF_SIZE"
    using basket_openD(2) [OF op] by (simp add: buffers_ok_def total_size_def)
  then have "int (INDEX_DATA_LEN * length ixs) < 2 ^ 32"
    using f basket_open_nonneg(3) [OF op] pos_nonneg [of "rw_ctrl w"]
    by (simp add: total_size_def BASKET_SIZE_def BKT_BBUF_SIZE_def del: pos_nonneg)
  then have "int (INDEX_DATA_LEN * length ixs) mod 2 ^ 32 = int (INDEX_DATA_LEN * length ixs)" by simp
  then show ?thesis unfolding BKT_GetRecordingIndexCount_def BKT_transIndexPosToNum_def f
    by (simp add: INDEX_DATA_LEN_def)
qed

text \<open>The two headers written over the start of the files.\<close>

definition closed_world :: "rec_world \<Rightarrow> byte list \<Rightarrow> byte list \<Rightarrow> rec_world" where
  "closed_world w fb fi = (let d = rc_target_path (rw_ctrl w); b = rc_bid (rw_ctrl w) in
     w\<lparr>rw_hidx := None, rw_hbkt := None, rw_disks := set_file Bkt d b fb (set_file Idx d b fi (rw_disks w))\<rparr>)"

lemma part_open_empty:
  assumes "part_open ds h k d b len fpos [] data"
  obtains hdr where "length hdr = len" "open_at ds h k d b (hdr @ data)"
  using assms by (auto simp: part_open_def)

lemma close_files:
  assumes ev: "healthy ev" and op: "basket_open items ixs w" and b: "rc_b_buf (rw_ctrl w) = []" and i: "rc_i_buf (rw_ctrl w) = []"
  shows "\<exists>fb fi. close_bkt ev l2 flag (close_idx ev l1 res w) = closed_world w fb fi
    \<and> sealed flag (rc_bkt_secs (rw_ctrl w)) (rc_idx_secs (rw_ctrl w)) items ixs (rw_disks (closed_world w fb fi))
        (rc_target_path (rw_ctrl w)) (rc_bid (rw_ctrl w))"
proof -
  let ?c = "rw_ctrl w"
  let ?d = "rc_target_path ?c" and ?b = "rc_bid ?c"
  have p: "part_open (rw_disks w) (rw_hbkt w) Bkt ?d ?b BASKET_HDR_LEN (rc_fpos_bkt ?c) [] (items_bytes items)"
    "part_open (rw_disks w) (rw_hidx w) Idx ?d ?b INDEX_HDR_LEN (rc_fpos_idx ?c) [] (index_bytes ixs)"
    using op b i by (simp_all add: basket_open_def Let_def)
  have ts: "length (bt_t1 (rc_bkt_secs ?c)) = BKT_MAX_CHANNEL" "length (bt_t2 (rc_bkt_secs ?c)) = BKT_MAX_CHANNEL"
    "length (bt_t1 (rc_idx_secs ?c)) = BKT_MAX_CHANNEL" "length (bt_t2 (rc_idx_secs ?c)) = BKT_MAX_CHANNEL"
    using basket_openD(2) [OF op] by (simp_all add: buffers_ok_def)
  define ih where "ih = \<lparr>ih_id = ID_INDEX_HEADER, ih_bid = ?b, ih_count = BKT_GetRecordingIndexCount ?c, ih_ts = rc_idx_secs ?c, ih_reserved = res\<rparr>"
  define bh where "bh = (ev_bh ev)\<lparr>bh_id := ID_BASKET_HDR, bh_bid := ?b, bh_latest_update := ev_now ev, bh_save_flag := flag, bh_ts := rc_bkt_secs ?c\<rparr>"
  have li: "length (enc_index_hdr ih) = INDEX_HDR_LEN" and lb: "length (enc_basket_hdr bh) = BASKET_HDR_LEN"
    using ts by (simp_all add: length_index_hdr length_basket_hdr ih_def bh_def)
  have ne: "enc_index_hdr ih \<noteq> []" "enc_basket_hdr bh \<noteq> []" using li lb by (auto simp: INDEX_HDR_LEN_def BASKET_HDR_LEN_def)
  obtain hi where hi: "length hi = INDEX_HDR_LEN" "open_at (rw_disks w) (rw_hidx w) Idx ?d ?b (hi @ index_bytes ixs)"
    by (rule part_open_empty [OF p(2)])
  obtain h1 ri where wi: "h_write None (enc_index_hdr ih) (snd (h_seek 0 (rw_hidx w))) (rw_disks w)
      = (True, h1, set_file Idx ?d ?b (enc_index_hdr ih @ index_bytes ixs @ ri) (rw_disks w))"
    using h_write_header [OF hi(2), of "enc_index_hdr ih"] li hi(1) ne by auto
  let ?ds = "set_file Idx ?d ?b (enc_index_hdr ih @ index_bytes ixs @ ri) (rw_disks w)"
  have c1: "close_idx ev l1 res w = w\<lparr>rw_hidx := None, rw_disks := ?ds\<rparr>"
    using wi ev by (simp add: close_idx_def write_idx_def Let_def flip: ih_def)
  obtain hb where hb: "length hb = BASKET_HDR_LEN" "open_at (rw_disks w) (rw_hbkt w) Bkt ?d ?b (hb @ items_bytes items)"
    by (rule part_open_empty [OF p(1)])
  have "open_at ?ds (rw_hbkt w) Bkt ?d ?b (hb @ items_bytes items)" using hb(2) by (simp add: open_at_other)
  then obtain h2 rb where wb: "h_write None (enc_basket_hdr bh) (snd (h_seek 0 (rw_hbkt w))) ?ds
      = (True, h2, set_file Bkt ?d ?b (enc_basket_hdr bh @ items_bytes items @ rb) ?ds)"
    using h_write_header [of ?ds "rw_hbkt w" Bkt ?d ?b hb "items_bytes items" "enc_basket_hdr bh"] lb hb(1) ne by auto
  have c2: "close_bkt ev l2 flag (close_idx ev l1 res w)
      = closed_world w (enc_basket_hdr bh @ items_bytes items @ rb) (enc_index_hdr ih @ index_bytes ixs @ ri)"
    using wb ev unfolding c1 by (simp add: close_bkt_def write_bkt_def closed_world_def Let_def flip: bh_def)
  have "sealed flag (rc_bkt_secs ?c) (rc_idx_secs ?c) items ixs
      (rw_disks (closed_world w (enc_basket_hdr bh @ items_bytes items @ rb) (enc_index_hdr ih @ index_bytes ixs @ ri))) ?d ?b"
    unfolding sealed_def
  proof (rule exI [of _ bh], rule exI [of _ ih], rule exI [of _ rb], rule exI [of _ ri], intro conjI)
    show "ih_count ih = int (length ixs)" using recording_index_count [OF op i] by (simp add: ih_def)
  qed (use li lb basket_openD [OF op] in \<open>simp_all add: closed_world_def Let_def ih_def bh_def\<close>)
  with c2 show ?thesis by blast
qed

section \<open>All disks\<close>

text \<open>The mounted disks are formatted and linked in a ring, and the target is the
  current one.\<close>

definition mounted :: "mount_info \<Rightarrow> nat \<Rightarrow> bool" where
  "mounted m i \<longleftrightarrow> i < length (mi_hddInfo m) \<and> hi_isMounted (mi_hddInfo m ! i)"

definition disk_path :: "mount_info \<Rightarrow> nat \<Rightarrow> nat" where
  "disk_path m i = hi_mountDiskPath (mi_hddInfo m ! i)"

definition mount_ok :: "rec_world \<Rightarrow> bool" where
  "mount_ok w \<longleftrightarrow> (let m = rw_mount w in
     (\<forall>i. mounted m i \<longrightarrow> disk_ok (rw_disks w (disk_path m i)) \<and> mounted m (hi_nextHddIdx (mi_hddInfo m ! i)))
     \<and> mounted m (mi_curHddIdx m) \<and> rw_hddmgr w \<noteq> Some None)"

definition cur_path :: "rec_world \<Rightarrow> nat" where
  "cur_path w = disk_path (rw_mount w) (mi_curHddIdx (rw_mount w))"

definition disks_ok :: "rec_world \<Rightarrow> bool" where
  "disks_ok w \<longleftrightarrow> mount_ok w \<and> rc_target_path (rw_ctrl w) = cur_path w"

lemma disks_ok_cur: "disks_ok w \<Longrightarrow> disk_ok (cur_disk w)"
  by (auto simp: disks_ok_def mount_ok_def cur_path_def Let_def)

lemma disks_ok_mgr: "disks_ok w \<Longrightarrow> rw_hddmgr w \<noteq> Some None"
  by (simp add: disks_ok_def mount_ok_def Let_def)

lemma disks_ok_cong:
  assumes "disks_ok w" "\<And>d. disk_ok (rw_disks w d) \<Longrightarrow> disk_ok (rw_disks w' d)" "rw_mount w' = rw_mount w" "rw_hddmgr w' = rw_hddmgr w"
    "rc_target_path (rw_ctrl w') = rc_target_path (rw_ctrl w)"
  shows "disks_ok w'"
  using assms unfolding disks_ok_def mount_ok_def cur_path_def Let_def by simp

lemma disks_ok_touched: "touched w' w \<Longrightarrow> disks_ok w \<Longrightarrow> disks_ok w'"
  by (rule disks_ok_cong) (auto simp: touched_simps)

text \<open>The contents of files that exist do not matter.\<close>

lemma disk_ok_files:
  assumes ok: "disk_ok d" and meta: "dk_mgr d' = dk_mgr d" "dk_info d' = dk_info d" "rdb_ok d \<Longrightarrow> rdb_ok d'"
    and files: "\<And>b. has_files d b \<Longrightarrow> has_files d' b"
  shows "disk_ok d'"
  using ok files meta(3) unfolding disk_ok_def meta(1,2) by blast

lemma has_files_the_file:
  "has_files (ds d) b \<longleftrightarrow> b \<noteq> BKT_ERR \<and> the_file ds Bkt d b \<noteq> None \<and> the_file ds Idx d b \<noteq> None"
  by (simp add: has_files_def the_file_def)

lemma disk_ok_set_file: "disk_ok (ds d') \<Longrightarrow> disk_ok (set_file k d b f ds d')"
  by (erule disk_ok_files) (auto simp: has_files_the_file)

lemma disks_ok_same_basket:
  assumes "same_basket w' w" "disks_ok w"
  shows "disks_ok w'"
proof (rule disks_ok_cong [OF assms(2)])
  fix d assume "disk_ok (rw_disks w d)"
  then show "disk_ok (rw_disks w' d)"
  proof (rule disk_ok_files)
    show "has_files (rw_disks w' d) b" if "has_files (rw_disks w d) b" for b
      using that assms(1) by (simp add: has_files_the_file same_basket_def del: not_None_eq)
  qed (use assms(1) in \<open>auto simp: same_basket_def\<close>)
qed (use assms(1) in \<open>auto simp: same_basket_def\<close>)

section \<open>SaveFull\<close>

text \<open>The files other than those of one basket.\<close>

definition others_same :: "disks \<Rightarrow> disks \<Rightarrow> nat \<Rightarrow> int \<Rightarrow> bool" where
  "others_same ds' ds d b \<longleftrightarrow> (\<forall>k d' b'. (d', b') \<noteq> (d, b) \<longrightarrow> the_file ds' k d' b' = the_file ds k d' b')"

lemma touched_upd_ctrl:
  assumes "touched w1 w" "rc_target_path (f (rw_ctrl w)) = rc_target_path (rw_ctrl w)" "disks_ok w"
  shows "disks_ok (upd_ctrl f w1)"
  by (rule disks_ok_cong [OF disks_ok_touched [OF assms(1,3)]]) (use assms(1,2) touched_simps(1) [OF assms(1)] in auto)

lemma SaveFull_ok:
  assumes ev: "healthy ev" and op: "basket_open items ixs w" and b: "rc_b_buf (rw_ctrl w) = []" and i: "rc_i_buf (rw_ctrl w) = []"
    and ok: "disks_ok w"
  shows "\<exists>w'. BKTREC_SaveFull ev w = (S_OK, w')
    \<and> sealed SF_FULL (rc_bkt_secs (rw_ctrl w)) (rc_idx_secs (rw_ctrl w)) items ixs (rw_disks w') (rc_target_path (rw_ctrl w)) (rc_bid (rw_ctrl w))
    \<and> disks_ok w' \<and> others_same (rw_disks w') (rw_disks w) (rc_target_path (rw_ctrl w)) (rc_bid (rw_ctrl w))
    \<and> rw_ctrl w' = (rw_ctrl w)\<lparr>rc_fpos_bkt := 0, rc_fpos_idx := 0, rc_bkt_secs := no_time, rc_idx_secs := no_time\<rparr>
    \<and> rw_mount w' = rw_mount w \<and> rw_recycle w' = rw_recycle w \<and> rw_prevFpos w' = rw_prevFpos w"
proof -
  let ?c = "rw_ctrl w" and ?f = "\<lambda>c. c\<lparr>rc_fpos_bkt := 0, rc_fpos_idx := 0, rc_bkt_secs := no_time, rc_idx_secs := no_time\<rparr>"
  let ?d = "rc_target_path ?c" and ?b = "rc_bid ?c"
  obtain fb fi where cl: "close_bkt ev 2064 SF_FULL (close_idx ev 2040 0x7FFFFFFF w) = closed_world w fb fi"
    and se: "sealed SF_FULL (rc_bkt_secs ?c) (rc_idx_secs ?c) items ixs (rw_disks (closed_world w fb fi)) ?d ?b"
    using close_files [OF ev op b i] by blast
  let ?w2 = "closed_world w fb fi"
  have c2: "rw_ctrl ?w2 = ?c" "rw_mount ?w2 = rw_mount w" "rw_recycle ?w2 = rw_recycle w" "rw_prevFpos ?w2 = rw_prevFpos w" "rw_hddmgr ?w2 = rw_hddmgr w"
    by (simp_all add: closed_world_def Let_def)
  have ok2: "disks_ok ?w2"
    by (rule disks_ok_cong [OF ok]) (simp_all add: closed_world_def Let_def disk_ok_set_file)
  let ?w3 = "snd (BKTREC_updateBasketManager ev ?b SF_FULL ?w2)"
  have t: "touched ?w3 ?w2" by (rule updateBasketManager_touched [OF disks_ok_cur [OF ok2]])
  have status: "rw_status w \<noteq> BKT_STATUS_CLOSED"
    using basket_openD(1) [OF op] by (simp add: BKT_STATUS_CLOSED_def BKT_STATUS_OPENED_def)
  have run: "BKTREC_SaveFull ev w = (S_OK, upd_ctrl ?f ?w3)"
    using status by (simp add: BKTREC_SaveFull_def Let_def cl c2)
  moreover have "disks_ok (upd_ctrl ?f ?w3)" by (rule touched_upd_ctrl [OF t _ ok2]) simp
  moreover have "sealed SF_FULL (rc_bkt_secs ?c) (rc_idx_secs ?c) items ixs (rw_disks (upd_ctrl ?f ?w3)) ?d ?b"
    using se by (subst sealed_cong [of _ _ _ "rw_disks ?w2"]) (simp_all add: touched_simps(9) [OF t])
  moreover have "others_same (rw_disks (upd_ctrl ?f ?w3)) (rw_disks w) ?d ?b"
    by (auto simp: others_same_def touched_simps(9) [OF t]) (auto simp: closed_world_def Let_def)
  ultimately show ?thesis using touched_simps(1,5,6,7) [OF t] c2 by (intro exI [of _ "upd_ctrl ?f ?w3"]) simp
qed

section \<open>Opening the next basket\<close>

lemma setTargetDisk_ok:
  assumes "healthy ev" "rw_hddmgr w \<noteq> Some None"
  shows "\<exists>m n. BKTREC_setTargetDisk ev i w
    = (BKT_OK, upd_ctrl (\<lambda>c. c\<lparr>rc_target_path := hi_mountDiskPath (mi_hddInfo (rw_mount w) ! i), rc_bkt_cnt := n\<rparr>) (w\<lparr>rw_hddmgr := Some (Some m)\<rparr>))"
proof (cases "rw_hddmgr w")
  case None
  then show ?thesis using assms(1) by (simp add: BKTREC_setTargetDisk_def Let_def) blast
next
  case (Some m)
  then show ?thesis using assms by (cases m; simp add: BKTREC_setTargetDisk_def Let_def) blast
qed

lemma mounted_cur [simp]: "mounted (m\<lparr>mi_curHddIdx := i\<rparr>) j = mounted m j" "disk_path (m\<lparr>mi_curHddIdx := i\<rparr>) j = disk_path m j"
  by (simp_all add: mounted_def disk_path_def)

text \<open>The current disk is made the target.\<close>

lemma setTargetDisk_disks:
  assumes ev: "healthy ev" and m: "mount_ok w" and i: "i = mi_curHddIdx (rw_mount w)"
  shows "disks_ok (snd (BKTREC_setTargetDisk ev i w))"
proof -
  obtain hm n where t: "BKTREC_setTargetDisk ev i w
      = (BKT_OK, upd_ctrl (\<lambda>c. c\<lparr>rc_target_path := hi_mountDiskPath (mi_hddInfo (rw_mount w) ! i), rc_bkt_cnt := n\<rparr>) (w\<lparr>rw_hddmgr := Some (Some hm)\<rparr>))"
    using setTargetDisk_ok [OF ev, of w i] m by (auto simp: mount_ok_def Let_def)
  show ?thesis using m i unfolding t by (auto simp: disks_ok_def mount_ok_def Let_def disk_path_def cur_path_def)
qed

text \<open>The recorder between two baskets.\<close>

definition between :: "rec_world \<Rightarrow> bool" where
  "between w \<longleftrightarrow> rc_b_buf (rw_ctrl w) = [] \<and> rc_i_buf (rw_ctrl w) = [] \<and> rc_r_pos (rw_ctrl w) \<le> BKT_RBUF_SIZE
     \<and> length (rc_prev_min (rw_ctrl w)) = BKT_MAX_CHANNEL \<and> long (rw_prevFpos w) \<and> disks_ok w"

lemma next_target_ok:
  assumes ev: "healthy ev" and bt: "between w"
  shows "between (next_target ev w)" "rw_disks (next_target ev w) = rw_disks w" "rw_recycle (next_target ev w) = rw_recycle w"
    "rw_prevFpos (next_target ev w) = rw_prevFpos w" "rc_r_buf (rw_ctrl (next_target ev w)) = rc_r_buf (rw_ctrl w)"
    "rc_prev_day (rw_ctrl (next_target ev w)) = rc_prev_day (rw_ctrl w)"
    "mi_hddInfo (rw_mount (next_target ev w)) = mi_hddInfo (rw_mount w)"
proof -
  let ?hdds = "mi_hddInfo (rw_mount w)"
  let ?n = "hi_nextHddIdx (?hdds ! mi_curHddIdx (rw_mount w))"
  let ?wa = "w\<lparr>rw_mount := (rw_mount w)\<lparr>mi_curHddIdx := ?n\<rparr>\<rparr>"
  have dok: "disks_ok w" using bt by (simp add: between_def)
  have n: "mounted (rw_mount w) ?n" and mok: "mount_ok w" using dok by (auto simp: disks_ok_def mount_ok_def Let_def)
  have mok': "mount_ok ?wa" using mok n by (simp add: mount_ok_def Let_def)
  obtain m c where t: "BKTREC_setTargetDisk ev ?n ?wa
      = (BKT_OK, upd_ctrl (\<lambda>c'. c'\<lparr>rc_target_path := hi_mountDiskPath (?hdds ! ?n), rc_bkt_cnt := c\<rparr>) (?wa\<lparr>rw_hddmgr := Some (Some m)\<rparr>))"
    using setTargetDisk_ok [OF ev, of ?wa ?n] disks_ok_mgr [OF dok] by auto
  show "rw_disks (next_target ev w) = rw_disks w" "rw_recycle (next_target ev w) = rw_recycle w"
    "rw_prevFpos (next_target ev w) = rw_prevFpos w" "rc_r_buf (rw_ctrl (next_target ev w)) = rc_r_buf (rw_ctrl w)"
    "rc_prev_day (rw_ctrl (next_target ev w)) = rc_prev_day (rw_ctrl w)"
    "mi_hddInfo (rw_mount (next_target ev w)) = mi_hddInfo (rw_mount w)"
    using t by (simp_all add: next_target_def Let_def)
  have "disks_ok (snd (BKTREC_setTargetDisk ev ?n ?wa))" by (rule setTargetDisk_disks [OF ev mok']) (use n in simp)
  then have "disks_ok (upd_ctrl (rc_prev_min_update f) (snd (BKTREC_setTargetDisk ev ?n ?wa)))" for f by (rule disks_ok_cong) simp_all
  then show "between (next_target ev w)"
    using t bt by (auto simp: between_def next_target_def Let_def rc_r_pos_def)
qed

text \<open>What opening a basket achieves: the new basket is empty and open; the files of all
  others are as they were.\<close>

definition opened :: "rec_world \<Rightarrow> rec_world \<Rightarrow> bool" where
  "opened w' w \<longleftrightarrow> basket_open [] [] w' \<and> disks_ok w' \<and> others_same (rw_disks w') (rw_disks w) (rc_target_path (rw_ctrl w')) (rc_bid (rw_ctrl w'))
     \<and> has_files (rw_disks w (rc_target_path (rw_ctrl w'))) (rc_bid (rw_ctrl w'))
     \<and> rc_r_buf (rw_ctrl w') = rc_r_buf (rw_ctrl w) \<and> rc_b_buf (rw_ctrl w') = [] \<and> rc_i_buf (rw_ctrl w') = [] \<and> rw_prevFpos w' = rw_prevFpos w \<and> rw_recycle w' = rw_recycle w"

lemma ts_no_time [simp]: "length (bt_t1 no_time) = BKT_MAX_CHANNEL" "length (bt_t2 no_time) = BKT_MAX_CHANNEL"
  by (simp_all add: no_time_def)

lemma part_open_header:
  assumes "length hdr = len" "hdr \<noteq> []" "the_file ds k d b \<noteq> None" "ev_io ev l 0 = None"
  shows "\<exists>h f. h_write None hdr (h_open ev l k d b ds) ds = (True, h, set_file k d b f ds) \<and> h_tell h = int len
    \<and> part_open (set_file k d b f ds) h k d b len (int len) [] []"
proof -
  obtain h f where h: "h_write None hdr (h_open ev l k d b ds) ds = (True, h, set_file k d b f ds)"
    and at: "open_at (set_file k d b f ds) h k d b ([] @ hdr)"
    using h_write_open [OF open_at_open [OF assms(3,4)] assms(2)] by blast
  have "part_open (set_file k d b f ds) h k d b len (int len) [] []"
    unfolding part_open_def by (rule exI [of _ hdr], rule exI [of _ hdr]) (use at assms(1) in simp)
  with h open_at_tell [OF at] assms(1) show ?thesis by auto
qed

lemma open_found_ok:
  assumes ev: "healthy ev" and bt: "between w" and files: "has_files (cur_disk w) newbid"
    and c: "rc_bkt_secs (rw_ctrl w) = no_time" "rc_idx_secs (rw_ctrl w) = no_time" "length (rc_idx_pos (rw_ctrl w)) = BKT_MAX_CHANNEL"
  shows "\<exists>w'. open_found ev stream_type newbid w = (BKT_OK, w') \<and> opened w' w \<and> rc_bid (rw_ctrl w') = newbid
    \<and> rc_target_path (rw_ctrl w') = rc_target_path (rw_ctrl w) \<and> rc_prev_day (rw_ctrl w') = rc_prev_day (rw_ctrl w)"
proof -
  let ?d = "rc_target_path (rw_ctrl w)" and ?ds = "rw_disks w"
  have ex: "the_file ?ds Bkt ?d newbid \<noteq> None" "the_file ?ds Idx ?d newbid \<noteq> None"
    using files by (simp_all add: has_files_def the_file_def)
  define bhd where "bhd = \<lparr>bh_id = ID_BASKET_HDR, bh_bid = newbid, bh_latest_update = ev_now ev, bh_lPriority = 0,
      bh_s_type = stream_type, bh_ts = no_time, bh_save_flag = SF_USING, bh_totalframecount = 0, bh_reserved = 0\<rparr>"
  define ihd where "ihd = (ev_ih ev)\<lparr>ih_id := ID_INDEX_HEADER, ih_bid := rc_bid (rw_ctrl w), ih_ts := no_time, ih_count := 0\<rparr>"
  have lb: "length (enc_basket_hdr bhd) = BASKET_HDR_LEN" by (rule length_basket_hdr) (simp_all add: bhd_def)
  have li: "length (enc_index_hdr ihd) = INDEX_HDR_LEN" by (rule length_index_hdr) (simp_all add: ihd_def)
  have ne: "enc_basket_hdr bhd \<noteq> []" "enc_index_hdr ihd \<noteq> []" using lb li by (auto simp: BASKET_HDR_LEN_def INDEX_HDR_LEN_def)
  obtain hb fb where hb: "h_write None (enc_basket_hdr bhd) (h_open ev 1403 Bkt ?d newbid ?ds) ?ds = (True, hb, set_file Bkt ?d newbid fb ?ds)"
    "h_tell hb = int BASKET_HDR_LEN" "part_open (set_file Bkt ?d newbid fb ?ds) hb Bkt ?d newbid BASKET_HDR_LEN (int BASKET_HDR_LEN) [] []"
    using part_open_header [OF lb ne(1) ex(1), of ev 1403] ev by auto
  let ?ds1 = "set_file Bkt ?d newbid fb ?ds"
  have "the_file ?ds1 Idx ?d newbid \<noteq> None" using ex(2) by simp
  then obtain hi fi where hi: "h_write None (enc_index_hdr ihd) (h_open ev 1433 Idx ?d newbid ?ds1) ?ds1 = (True, hi, set_file Idx ?d newbid fi ?ds1)"
    "h_tell hi = int INDEX_HDR_LEN" "part_open (set_file Idx ?d newbid fi ?ds1) hi Idx ?d newbid INDEX_HDR_LEN (int INDEX_HDR_LEN) [] []"
    using part_open_header [OF li ne(2), of ?ds1 Idx ?d newbid ev 1433] ev by auto
  let ?ds2 = "set_file Idx ?d newbid fi ?ds1"
  obtain h0 h1 where open1: "h_open ev 1403 Bkt ?d newbid ?ds = Some h0" "h_open ev 1433 Idx ?d newbid ?ds1 = Some h1"
    using ex ev by (simp add: h_open_def)
  define w9 where "w9 = w\<lparr>rw_hbkt := hb, rw_hidx := hi, rw_disks := ?ds2,
      rw_ctrl := (rw_ctrl w)\<lparr>rc_fpos_bkt := int BASKET_HDR_LEN, rc_fpos_idx := int INDEX_HDR_LEN, rc_bid := newbid\<rparr>,
      rw_status := BKT_STATUS_OPENED\<rparr>"
  have run: "open_found ev stream_type newbid w = (BKT_OK, snd (BKTREC_setBasketStatus ev newbid SF_USING w9))"
    unfolding open_found_def Let_def
    using open1 hb(1,2) hi(1,2) ev
    by (simp add: write_bkt_def write_idx_def w9_def del: fun_upd_apply flip: bhd_def ihd_def)
  have dok: "disks_ok w" using bt by (simp add: between_def)
  have ok9: "disks_ok w9"
    by (rule disks_ok_cong [OF dok]) (simp_all add: w9_def disk_ok_set_file)
  let ?w = "snd (BKTREC_setBasketStatus ev newbid SF_USING w9)"
  have t: "touched ?w w9" by (rule setBasketStatus_touched [OF disks_ok_cur [OF ok9]])
  note ts = touched_simps [OF t]
  have part: "part_open (rw_disks ?w) h k d b len fpos b' data = part_open ?ds2 h k d b len fpos b' data" for h k d b len fpos b' data
    by (rule part_open_cong) (simp add: ts(9), simp add: w9_def)
  have pb: "part_open ?ds2 hb Bkt ?d newbid BASKET_HDR_LEN (int BASKET_HDR_LEN) [] []" using hb(3) by (simp add: part_open_other)
  have bufs: "buffers_ok (rw_ctrl ?w)"
    using bt c unfolding ts(1) by (simp add: w9_def between_def buffers_ok_def rc_b_pos_def rc_i_pos_def rc_r_pos_def)
       (simp add: const_defs)
  have "basket_open [] [] ?w"
    using bufs bt pb hi(3) by (simp add: basket_open_def Let_def part ts(1-5)) (simp add: w9_def between_def)
  moreover have "others_same (rw_disks ?w) ?ds ?d newbid"
    by (auto simp: others_same_def ts(9)) (auto simp: w9_def)
  ultimately have "opened ?w w" using disks_ok_touched [OF t ok9] files bt
    by (simp add: opened_def ts(1-7)) (simp add: w9_def between_def)
  moreover have "rc_bid (rw_ctrl ?w) = newbid" "rc_target_path (rw_ctrl ?w) = ?d" "rc_prev_day (rw_ctrl ?w) = rc_prev_day (rw_ctrl w)"
    unfolding ts(1) by (simp_all add: w9_def)
  ultimately show ?thesis using run by blast
qed

lemma OpenFullBasket_ok:
  assumes ev: "healthy ev" and bt: "between w" and on: "rw_recycle w \<noteq> BKT_RECYCLE_ONCE"
  shows "\<exists>w'. BKTREC_OpenFullBasket ev stream_type w = (BKT_OK, w') \<and> opened w' w"
proof -
  let ?f = "\<lambda>c. c\<lparr>rc_bkt_secs := no_time, rc_idx_secs := no_time, rc_fpos_bkt := 0, rc_fpos_idx := 0,
         rc_bid := 0, rc_idx_pos := replicate BKT_MAX_CHANNEL 0\<rparr>"
  let ?w1 = "next_target ev w"
  let ?w2 = "upd_ctrl ?f ?w1"
  note n = next_target_ok [OF ev bt]
  have bt2: "between ?w2" using n(1) by (simp add: between_def disks_ok_def mount_ok_def cur_path_def Let_def rc_r_pos_def)
  then have "disks_ok ?w2" unfolding between_def by blast
  from disks_ok_cur [OF this] obtain flag b w3 where s: "BKTREC_searchBasket ev (mi_hddCnt (rw_mount ?w2) > 1) ?w2 = ((flag, Some b), w3)"
    and t: "touched w3 ?w2" and hf: "has_files (cur_disk ?w2) b"
    using searchBasket_ok [OF ev] by blast
  note ts = touched_simps [OF t]
  have bt3: "between w3" using bt2 disks_ok_touched [OF t] ts(1,5) by (simp add: between_def)
  have hf3: "has_files (cur_disk w3) b" using hf ts(1,10) by simp
  have rec3: "rw_recycle w3 = rw_recycle w" using ts(7) n(3) by simp
  have c3: "rc_bkt_secs (rw_ctrl w3) = no_time" "rc_idx_secs (rw_ctrl w3) = no_time" "length (rc_idx_pos (rw_ctrl w3)) = BKT_MAX_CHANNEL"
    using ts(1) by simp_all
  obtain w' where o: "open_found ev stream_type b w3 = (BKT_OK, w')" "opened w' w3"
    using open_found_ok [OF ev bt3 hf3 c3] by blast
  have run: "BKTREC_OpenFullBasket ev stream_type w = (BKT_OK, w')"
    using s o(1) on rec3 unfolding BKTREC_OpenFullBasket_def Let_def by simp
  have files: "the_file (rw_disks w3) k d b = the_file (rw_disks w) k d b" "has_files (rw_disks w3 d) b = has_files (rw_disks w d) b" for k d b
    using ts(9,10) n(2) by simp_all
  have "opened w' w"
    using o(2) rec3 ts(1,5) n(4,5) by (simp add: opened_def others_same_def files)
  with run show ?thesis by blast
qed

section \<open>Writing with a change of basket\<close>

text \<open>The change: the old basket is sealed with its items, and only then are the files of the
  new one touched.\<close>

definition changed :: "item list \<Rightarrow> index_data list \<Rightarrow> rec_world \<Rightarrow> rec_world \<Rightarrow> bool" where
  "changed items ixs w w' \<longleftrightarrow> (\<exists>ds bts its. let d = rc_target_path (rw_ctrl w); b = rc_bid (rw_ctrl w) in
     sealed SF_FULL bts its items ixs ds d b \<and> others_same ds (rw_disks w) d b
     \<and> others_same (rw_disks w') ds (rc_target_path (rw_ctrl w')) (rc_bid (rw_ctrl w')))"

lemma next_basket_ok:
  assumes ev: "healthy ev" and op: "basket_open items ixs w" and ok: "disks_ok w" and on: "rw_recycle w \<noteq> BKT_RECYCLE_ONCE"
  shows "\<exists>w'. next_basket ev w = (BKT_OK, w') \<and> changed items ixs w w' \<and> basket_open [] [] w' \<and> disks_ok w'
    \<and> rw_prevFpos w' = rw_prevFpos w \<and> length (rc_r_buf (rw_ctrl w')) \<le> length (rc_r_buf (rw_ctrl w)) \<and> rw_recycle w' = rw_recycle w
    \<and> rc_b_buf (rw_ctrl w') = [] \<and> rc_i_buf (rw_ctrl w') = []"
proof -
  let ?d = "rc_target_path (rw_ctrl w)" and ?b = "rc_bid (rw_ctrl w)"
  have rdb: "rdb_ok (cur_disk w)" using disks_ok_cur [OF ok] by (simp add: disk_ok_def)
  obtain w1 where f: "BKTREC_FlushWriteBuffer ev w = (BKT_OK, w1)" "basket_open items ixs w1" "same_basket w1 w"
    "rc_b_buf (rw_ctrl w1) = []" "rc_i_buf (rw_ctrl w1) = []" "rw_prevFpos w1 = rw_prevFpos w"
    "length (rc_r_buf (rw_ctrl w1)) \<le> length (rc_r_buf (rw_ctrl w))"
    using Flush_ok [OF ev op rdb] by auto
  have ok1: "disks_ok w1" by (rule disks_ok_same_basket [OF f(3) ok])
  have id1: "rc_target_path (rw_ctrl w1) = ?d" "rc_bid (rw_ctrl w1) = ?b" "rw_recycle w1 = rw_recycle w"
    "others_same (rw_disks w1) (rw_disks w) ?d ?b"
    using f(3) by (auto simp: same_basket_def others_same_def)
  obtain w2 where sv: "BKTREC_SaveFull ev w1 = (S_OK, w2)"
    "sealed SF_FULL (rc_bkt_secs (rw_ctrl w1)) (rc_idx_secs (rw_ctrl w1)) items ixs (rw_disks w2) ?d ?b" "disks_ok w2"
    "others_same (rw_disks w2) (rw_disks w1) ?d ?b"
    "rw_ctrl w2 = (rw_ctrl w1)\<lparr>rc_fpos_bkt := 0, rc_fpos_idx := 0, rc_bkt_secs := no_time, rc_idx_secs := no_time\<rparr>"
    "rw_recycle w2 = rw_recycle w1" "rw_prevFpos w2 = rw_prevFpos w1"
    using SaveFull_ok [OF ev f(2,4,5) ok1] unfolding id1(1,2) by blast
  have bt: "between w2"
    using f(2,4,5) sv(3,5,7) basket_openD(2,3) [OF f(2)] by (simp add: between_def buffers_ok_def rc_r_pos_def)
  obtain w3 where o: "BKTREC_OpenFullBasket ev ST_VIDEO w2 = (BKT_OK, w3)" "opened w3 w2"
    using OpenFullBasket_ok [OF ev bt] on sv(6) id1(3) by auto
  have "next_basket ev w = (BKT_OK, w3)"
    using f(1) sv(1) o(1) by (simp add: next_basket_def S_OK_def BKT_ERR_def)
  moreover have "changed items ixs w w3"
    unfolding changed_def Let_def
  proof (rule exI [of _ "rw_disks w2"], intro exI conjI)
    show "sealed SF_FULL (rc_bkt_secs (rw_ctrl w1)) (rc_idx_secs (rw_ctrl w1)) items ixs (rw_disks w2) ?d ?b" by (rule sv(2))
    show "others_same (rw_disks w2) (rw_disks w) ?d ?b" using sv(4) id1(4) by (simp add: others_same_def)
    show "others_same (rw_disks w3) (rw_disks w2) (rc_target_path (rw_ctrl w3)) (rc_bid (rw_ctrl w3))"
      using o(2) by (simp add: opened_def)
  qed
  ultimately show ?thesis using o(2) sv(5,6,7) f(6,7) id1(3) by (auto simp: opened_def)
qed

text \<open>The end mark that the change puts behind the last frame.\<close>

definition end_item :: "bkt_env \<Rightarrow> video_rec_param \<Rightarrow> item" where
  "end_item ev pv = End ((ev_sh ev)\<lparr>sh_id := ID_BASKET_END, sh_ch := vp_ch pv, sh_framesize := vp_framesize pv, sh_sec := vp_sec pv,
     sh_usec := vp_usec pv, sh_frametype := vp_frametype pv\<rparr>)"

lemma end_item_ok:
  assumes "healthy ev" "video_ok pv"
  shows "item_ok (end_item ev pv)" "length (item_bytes (end_item ev pv)) = STREAM_HDR_LEN"
proof -
  have "long (vp_framesize pv)" "long (vp_ch pv)" "long (vp_frametype pv)"
    using assms(2) by (auto simp: video_ok_def const_defs fits_def)
  then show "item_ok (end_item ev pv)"
    using assms by (simp add: end_item_def healthy_def stream_hdr_ok_def video_ok_def) (simp add: const_defs fits_def)
  show "length (item_bytes (end_item ev pv)) = STREAM_HDR_LEN"
    using assms(1) by (simp add: end_item_def healthy_def stream_hdr_ok_def)
qed

text \<open>The result of a write that goes to the next basket.\<close>

definition moved :: "item list \<Rightarrow> index_data list \<Rightarrow> item \<Rightarrow> rec_world \<Rightarrow> rec_world \<Rightarrow> bool" where
  "moved items ixs i w w' \<longleftrightarrow> changed items ixs w w' \<and> (\<exists>ix. basket_open [i] ix w') \<and> disks_ok w'
     \<and> total_size (rw_ctrl w') < BASKET_SIZE \<and> length (rc_r_buf (rw_ctrl w')) \<le> Suc (length (rc_r_buf (rw_ctrl w))) \<and> rw_recycle w' = rw_recycle w"

lemma changed_place:
  assumes "changed items ixs w w'" "same_place w'' w'"
  shows "changed items ixs w w''"
  using assms by (simp add: changed_def same_place_def)

lemma disks_ok_place:
  assumes "same_place w' w" "disks_ok w"
  shows "disks_ok w'"
  by (rule disks_ok_same_basket [OF same_place_basket [OF assms(1)] assms(2)])

lemma empty_total: "basket_open [] [] w \<Longrightarrow> total_size (rw_ctrl w) = 560"
  by (simp add: total_size_eq BASKET_HDR_LEN_def INDEX_HDR_LEN_def)

lemma WriteVideo_moved:
  assumes ev: "healthy ev" and pv: "video_ok pv" and op: "basket_open items ixs w" and ok: "disks_ok w"
    and leave: "\<not> stays_video ev pv (rw_ctrl w)" and r: "length (rc_r_buf (rw_ctrl w)) < 51 \<or> BKTREC_WriteVideoStream ev pv w \<noteq> None" and on: "rw_recycle w \<noteq> BKT_RECYCLE_ONCE"
    and room0: "rc_b_pos (rw_ctrl w) + 44 \<le> BKT_BBUF_SIZE \<or> BKTREC_WriteVideoStream ev pv w \<noteq> None" and total: "total_size (rw_ctrl w) < BASKET_SIZE"
  shows "\<exists>w'. BKTREC_WriteVideoStream ev pv w = Some (BKT_OK, w')
    \<and> moved (items @ [end_item ev pv]) ixs (video_item ev pv (rw_prevFpos w)) w w' \<and> rc_prev_day (rw_ctrl w') = tm_mday (ev_local ev (vp_sec pv))"
proof -
  let ?w0 = "upd_ctrl (rc_r_skip_update (\<lambda>_. False)) w" and ?e = "end_item ev pv"
  have op0: "basket_open items ixs ?w0"
    using op by (simp add: basket_open_def Let_def buffers_ok_def rc_b_pos_def rc_i_pos_def rc_r_pos_def)
  have len: "int (length (item_bytes ?e)) = 44" by (simp add: end_item_ok(2) [OF ev pv] STREAM_HDR_LEN_def)
  have step: "BKTREC_WriteVideoStream ev pv w = (case put_b (item_bytes ?e) ?w0 of None \<Rightarrow> None
      | Some w1 \<Rightarrow> if fst (next_basket ev w1) \<noteq> BKT_OK then Some (next_basket ev w1)
                   else map_option (Pair BKT_OK) (put_video ev pv (snd (next_basket ev w1))))"
    using leave video_guard [OF op pv] unfolding BKTREC_WriteVideoStream_def
    by (simp add: check_size_video stays_video_def Let_def end_item_def)
  have "\<not> rc_b_pos (rw_ctrl w) + 44 > BKT_BBUF_SIZE"
    using room0
  proof
    assume "BKTREC_WriteVideoStream ev pv w \<noteq> None"
    then show ?thesis unfolding step put_b_def Let_def using len by (auto simp: rc_b_pos_def split: if_splits)
  qed simp
  with total have room: "rc_b_pos (rw_ctrl w) + 44 \<le> BKT_BBUF_SIZE" "total_size (rw_ctrl w) < BASKET_SIZE" by simp_all
  define w1 where "w1 = upd_ctrl (rc_b_buf_update (\<lambda>b. b @ item_bytes ?e)) ?w0"
  have put: "put_b (item_bytes ?e) ?w0 = Some w1"
    unfolding w1_def by (rule put_b_ok) (use room(1) len in \<open>simp add: rc_b_pos_def\<close>)
  have room': "rc_b_pos (rw_ctrl ?w0) + int (length (item_bytes ?e)) \<le> BKT_BBUF_SIZE"
    "total_size (rw_ctrl ?w0) + int (length (item_bytes ?e)) < BASKET_SIZE + BKT_BBUF_SIZE"
    using room len by (simp_all add: total_size_def rc_b_pos_def rc_i_pos_def BKT_BBUF_SIZE_def)
  have w1: "w1 = upd_ctrl (rc_b_buf_update (\<lambda>b. b @ item_bytes ?e)) (?w0\<lparr>rw_prevFpos := rw_prevFpos w1\<rparr>)"
    "rw_prevFpos w1 = rw_prevFpos w" "rw_disks w1 = rw_disks w" "rc_r_buf (rw_ctrl w1) = rc_r_buf (rw_ctrl w)" "rw_recycle w1 = rw_recycle w"
    "rc_target_path (rw_ctrl w1) = rc_target_path (rw_ctrl w)" "rc_bid (rw_ctrl w1) = rc_bid (rw_ctrl w)"
    "rw_mount w1 = rw_mount w" "rw_hddmgr w1 = rw_hddmgr w"
    by (simp_all add: w1_def)
  have op1: "basket_open (items @ [?e]) ixs w1"
    by (rule basket_open_put(1) [OF op0 end_item_ok(1) [OF ev pv] _ _ room' w1(1)])
       (simp_all add: end_item_def w1(2) basket_openD(3) [OF op])
  have ok1: "disks_ok w1" by (rule disks_ok_cong [OF ok]) (simp_all add: w1(2-9))
  obtain w2 where nb: "next_basket ev w1 = (BKT_OK, w2)" "changed (items @ [?e]) ixs w1 w2" "basket_open [] [] w2" "disks_ok w2"
    "rw_prevFpos w2 = rw_prevFpos w1" "length (rc_r_buf (rw_ctrl w2)) \<le> length (rc_r_buf (rw_ctrl w1))" "rw_recycle w2 = rw_recycle w1"
    "rc_b_buf (rw_ctrl w2) = []" "rc_i_buf (rw_ctrl w2) = []"
    using next_basket_ok [OF ev op1 ok1] on w1(5) by auto
  have fs: "vp_framesize pv + 84 < BKT_BBUF_SIZE" using pv by (simp add: video_ok_def)
  have small: "rc_b_pos (rw_ctrl w2) + vp_framesize pv + 84 \<le> BKT_BBUF_SIZE" "rc_i_pos (rw_ctrl w2) + 44 \<le> BKT_IBUF_SIZE"
    "total_size (rw_ctrl w2) + vp_framesize pv + 128 < BASKET_SIZE"
    using nb(8,9) empty_total [OF nb(3)] fs by (simp_all add: rc_b_pos_def rc_i_pos_def BASKET_SIZE_def BKT_BBUF_SIZE_def BKT_IBUF_SIZE_def)
  have "length (rc_r_buf (rw_ctrl w2)) < 51 \<or> put_video ev pv w2 \<noteq> None"
    using r nb(1,6) w1(4) unfolding step put by auto
  then obtain w' ix where v: "put_video ev pv w2 = Some w'" "basket_open ([] @ [video_item ev pv (rw_prevFpos w2)]) ([] @ ix) w'"
    "same_place w' w2" "total_size (rw_ctrl w') < BASKET_SIZE" "rc_prev_day (rw_ctrl w') = tm_mday (ev_local ev (vp_sec pv))"
    "length (rc_r_buf (rw_ctrl w')) \<le> Suc (length (rc_r_buf (rw_ctrl w2)))"
    using put_video_ok [OF ev pv nb(3) small] by auto
  have run: "BKTREC_WriteVideoStream ev pv w = Some (BKT_OK, w')"
    using nb(1) v(1) unfolding step put by simp
  have "changed (items @ [?e]) ixs w w2" using nb(2) by (simp add: changed_def w1(2-9))
  then have ch: "changed (items @ [?e]) ixs w w'" by (rule changed_place [OF _ v(3)])
  have "moved (items @ [?e]) ixs (video_item ev pv (rw_prevFpos w)) w w'"
    unfolding moved_def using ch v(2,4,6) nb(5,6,7) w1(2,4,5) disks_ok_place [OF v(3) nb(4)] v(3)
    by (auto simp: same_place_def)
  with run v(5) show ?thesis by blast
qed

end
