(* ===== verification/Basket_Log.thy ===== *)
theory Basket_Log
  imports Basket_Change
begin

text \<open>What the recorder promises: a log of frames, cut into baskets.  Every write of
  src/basket_rec.c that returns on working disks adds exactly its frame, at the end of the
  current basket or at the start of the next one, and all other closed baskets keep what
  they hold.\<close>

section \<open>Audio with a change of basket\<close>

lemma WriteAudio_moved:
  assumes ev: "healthy ev" and pa: "audio_ok pa" and op: "basket_open items ixs w" and ok: "disks_ok w"
    and leave: "\<not> stays_audio pa (rw_ctrl w)" and on: "rw_recycle w \<noteq> BKT_RECYCLE_ONCE"
  shows "\<exists>w'. BKTREC_WriteAudioStream ev pa w = Some (BKT_OK, w') \<and> moved items ixs (audio_item ev pa (rw_prevFpos w)) w w'"
proof -
  obtain w2 where nb: "next_basket ev w = (BKT_OK, w2)" "changed items ixs w w2" "basket_open [] [] w2" "disks_ok w2"
    "rw_prevFpos w2 = rw_prevFpos w" "length (rc_r_buf (rw_ctrl w2)) \<le> length (rc_r_buf (rw_ctrl w))" "rw_recycle w2 = rw_recycle w"
    "rc_b_buf (rw_ctrl w2) = []" "rc_i_buf (rw_ctrl w2) = []"
    using next_basket_ok [OF ev op ok on] by auto
  have fs: "ap_framesize pa + 84 < BKT_BBUF_SIZE" using pa by (simp add: audio_ok_def)
  have small: "rc_b_pos (rw_ctrl w2) + ap_framesize pa + 68 \<le> BKT_BBUF_SIZE" "stays_audio pa (rw_ctrl w2)"
    using nb(8,9) empty_total [OF nb(3)] fs by (simp_all add: rc_b_pos_def stays_audio_def BASKET_SIZE_def BKT_BBUF_SIZE_def)
  obtain w' where v: "put_audio ev pa w2 = Some w'" "basket_open ([] @ [audio_item ev pa (rw_prevFpos w2)]) [] w'"
    "same_place w' w2" "total_size (rw_ctrl w') < BASKET_SIZE" "rc_r_buf (rw_ctrl w') = rc_r_buf (rw_ctrl w2)"
    using put_audio_ok [OF ev pa nb(3) small] by auto
  have "BKTREC_WriteAudioStream ev pa w = Some (BKT_OK, w')"
    using leave audio_guard [OF op pa] nb(1) v(1) unfolding BKTREC_WriteAudioStream_def
    by (simp add: check_size_audio stays_audio_def Let_def flip: put_audio_fold)
  moreover have "changed items ixs w w'" by (rule changed_place [OF nb(2) v(3)])
  then have "moved items ixs (audio_item ev pa (rw_prevFpos w)) w w'"
    unfolding moved_def using v(2,4,5) nb(5,6,7) disks_ok_place [OF v(3) nb(4)] v(3)
    by (auto simp: same_place_def)
  ultimately show ?thesis by blast
qed

section \<open>The log\<close>

text \<open>The baskets closed so far, in order, with the basket file of each, and the current one.\<close>

record rec_log =
  lg_past :: "((nat \<times> int) \<times> item list) list"
  lg_cur :: "nat \<times> int"
  lg_items :: "item list"

text \<open>What a closed basket file still holds: its last use, unless it is in use again.\<close>

definition lg_done :: "rec_log \<Rightarrow> nat \<times> int \<rightharpoonup> item list" where
  "lg_done L = (map_of (rev (lg_past L)))(lg_cur L := None)"

fun is_frame :: "item \<Rightarrow> bool" where
  "is_frame (End sh) = False"
| "is_frame _ = True"

text \<open>All frames of the log in the order of recording.\<close>

definition log_frames :: "rec_log \<Rightarrow> item list" where
  "log_frames L = filter is_frame (concat (map snd (lg_past L)) @ lg_items L)"

definition log_append :: "item \<Rightarrow> rec_log \<Rightarrow> rec_log" where
  "log_append i L = L\<lparr>lg_items := lg_items L @ [i]\<rparr>"

text \<open>The next basket may be a recycled one, also the one just closed.\<close>

definition log_next :: "item list \<Rightarrow> nat \<times> int \<Rightarrow> item \<Rightarrow> rec_log \<Rightarrow> rec_log" where
  "log_next e k i L = \<lparr>lg_past = lg_past L @ [(lg_cur L, lg_items L @ e)], lg_cur = k, lg_items = [i]\<rparr>"

lemma lg_done_append [simp]: "lg_done (log_append i L) = lg_done L"
  by (simp add: lg_done_def log_append_def)

lemma lg_done_cur [simp]: "lg_done L (lg_cur L) = None"
  by (simp add: lg_done_def)

lemma lg_done_next:
  "lg_done (log_next e k i L) = ((lg_done L)(lg_cur L \<mapsto> lg_items L @ e))(k := None)"
  by (auto simp: lg_done_def log_next_def)

lemma log_frames_append: "is_frame i \<Longrightarrow> log_frames (log_append i L) = log_frames L @ [i]"
  by (simp add: log_frames_def log_append_def)

lemma log_frames_next: "is_frame i \<Longrightarrow> filter is_frame e = [] \<Longrightarrow> log_frames (log_next e k i L) = log_frames L @ [i]"
  by (simp add: log_frames_def log_next_def)

definition log_rel :: "rec_world \<Rightarrow> rec_log \<Rightarrow> bool" where
  "log_rel w L \<longleftrightarrow> (\<exists>ixs. basket_open (lg_items L) ixs w) \<and> lg_cur L = (rc_target_path (rw_ctrl w), rc_bid (rw_ctrl w))
     \<and> (\<forall>d b items. lg_done L (d, b) = Some items \<longrightarrow> (\<exists>bts its ixs. sealed SF_FULL bts its items ixs (rw_disks w) d b))"

text \<open>A recorder that can go on.\<close>

definition rec_ok :: "rec_world \<Rightarrow> bool" where
  "rec_ok w \<longleftrightarrow> disks_ok w \<and> total_size (rw_ctrl w) < BASKET_SIZE \<and> rw_recycle w \<noteq> BKT_RECYCLE_ONCE"

lemma log_appended:
  assumes L: "log_rel w L" and w: "rec_ok w" and ap: "\<And>ixs. basket_open (lg_items L) ixs w \<Longrightarrow> appended ev (lg_items L) ixs i w w'"
  shows "log_rel w' (log_append i L)" "rec_ok w'"
proof -
  obtain ixs where op: "basket_open (lg_items L) ixs w" using L by (auto simp: log_rel_def)
  obtain ix where op': "basket_open (lg_items L @ [i]) (ixs @ ix) w'" and same: "same_basket w' w" and tot: "total_size (rw_ctrl w') < BASKET_SIZE"
    using ap [OF op] by (auto simp: appended_def)
  show "rec_ok w'" using w tot same disks_ok_same_basket [OF same] by (simp add: rec_ok_def same_basket_def)
  have "sealed SF_FULL bts its items ixs (rw_disks w') d b = sealed SF_FULL bts its items ixs (rw_disks w) d b"
    if "(d, b) \<noteq> lg_cur L" for bts its items ixs d b
    by (rule sealed_cong) (use that same L in \<open>auto simp: same_basket_def log_rel_def\<close>)
  note keep = this
  show "log_rel w' (log_append i L)"
    unfolding log_rel_def
  proof (intro conjI allI impI)
    show "\<exists>ixs. basket_open (lg_items (log_append i L)) ixs w'" using op' by (auto simp: log_append_def)
    show "lg_cur (log_append i L) = (rc_target_path (rw_ctrl w'), rc_bid (rw_ctrl w'))"
      using L same by (simp add: log_rel_def log_append_def same_basket_def)
    fix d b items assume "lg_done (log_append i L) (d, b) = Some items"
    then have d: "lg_done L (d, b) = Some items" by simp
    then have "(d, b) \<noteq> lg_cur L" by (metis lg_done_cur option.distinct(1))
    moreover have "\<exists>bts its ixs. sealed SF_FULL bts its items ixs (rw_disks w) d b"
      using d L unfolding log_rel_def by blast
    ultimately show "\<exists>bts its ixs. sealed SF_FULL bts its items ixs (rw_disks w') d b" unfolding keep [OF \<open>(d, b) \<noteq> lg_cur L\<close>] by blast
  qed
qed

lemma log_moved:
  assumes L: "log_rel w L" and w: "rec_ok w" and mv: "\<And>ixs. basket_open (lg_items L) ixs w \<Longrightarrow> moved (lg_items L @ e) ixs i w w'"
  shows "log_rel w' (log_next e (rc_target_path (rw_ctrl w'), rc_bid (rw_ctrl w')) i L)" "rec_ok w'"
proof -
  obtain ixs where op: "basket_open (lg_items L) ixs w" using L by (auto simp: log_rel_def)
  note m = mv [OF op]
  show "rec_ok w'" using m w by (auto simp: moved_def rec_ok_def)
  let ?cur = "(rc_target_path (rw_ctrl w'), rc_bid (rw_ctrl w'))"
  have cur: "lg_cur L = (rc_target_path (rw_ctrl w), rc_bid (rw_ctrl w))" using L by (simp add: log_rel_def)
  obtain ds bts its where ch: "sealed SF_FULL bts its (lg_items L @ e) ixs ds (rc_target_path (rw_ctrl w)) (rc_bid (rw_ctrl w))"
    "others_same ds (rw_disks w) (rc_target_path (rw_ctrl w)) (rc_bid (rw_ctrl w))"
    "others_same (rw_disks w') ds (rc_target_path (rw_ctrl w')) (rc_bid (rw_ctrl w'))"
    using m by (auto simp: moved_def changed_def Let_def)
  have later: "sealed SF_FULL bts its items ixs (rw_disks w') d b = sealed SF_FULL bts its items ixs ds d b"
    if "(d, b) \<noteq> ?cur" for bts its items ixs d b
    by (rule sealed_cong) (use that ch(3) in \<open>auto simp: others_same_def\<close>)
  have earlier: "sealed SF_FULL bts its items ixs ds d b = sealed SF_FULL bts its items ixs (rw_disks w) d b"
    if "(d, b) \<noteq> lg_cur L" for bts its items ixs d b
    by (rule sealed_cong) (use that ch(2) cur in \<open>auto simp: others_same_def\<close>)
  show "log_rel w' (log_next e ?cur i L)"
    unfolding log_rel_def
  proof (intro conjI allI impI)
    show "\<exists>ixs. basket_open (lg_items (log_next e ?cur i L)) ixs w'" using m by (auto simp: moved_def log_next_def)
    show "lg_cur (log_next e ?cur i L) = ?cur" by (simp add: log_next_def)
    fix d b items assume d: "lg_done (log_next e ?cur i L) (d, b) = Some items"
    then have ne: "(d, b) \<noteq> ?cur" by (auto simp: lg_done_next)
    show "\<exists>bts its ixs. sealed SF_FULL bts its items ixs (rw_disks w') d b"
    proof (cases "(d, b) = lg_cur L")
      case True
      then have "items = lg_items L @ e" using d ne by (auto simp: lg_done_next)
      then show ?thesis using ch(1) True cur unfolding later [OF ne] by auto
    next
      case False
      then have "lg_done L (d, b) = Some items" using d ne by (auto simp: lg_done_next split: if_splits)
      then show ?thesis using L unfolding later [OF ne] earlier [OF False] log_rel_def by blast
    qed
  qed
qed

section \<open>Runs\<close>

datatype media = Video video_rec_param | Audio audio_rec_param

fun media_ok :: "media \<Rightarrow> bool" where
  "media_ok (Video pv) = video_ok pv"
| "media_ok (Audio pa) = audio_ok pa"

fun write_media :: "bkt_env \<Rightarrow> media \<Rightarrow> rec_world \<Rightarrow> (int \<times> rec_world) option" where
  "write_media ev (Video pv) w = BKTREC_WriteVideoStream ev pv w"
| "write_media ev (Audio pa) w = BKTREC_WriteAudioStream ev pa w"

fun media_item :: "bkt_env \<Rightarrow> media \<Rightarrow> int \<Rightarrow> item" where
  "media_item ev (Video pv) prev = video_item ev pv prev"
| "media_item ev (Audio pa) prev = audio_item ev pa prev"

fun stays :: "bkt_env \<Rightarrow> media \<Rightarrow> bktrec \<Rightarrow> bool" where
  "stays ev (Video pv) c = stays_video ev pv c"
| "stays ev (Audio pa) c = stays_audio pa c"

text \<open>The mark that a change leaves behind the last frame of the full basket: none when an
  audio frame causes it.\<close>

fun end_mark :: "bkt_env \<Rightarrow> media \<Rightarrow> item list" where
  "end_mark ev (Video pv) = [end_item ev pv]"
| "end_mark ev (Audio pa) = []"

definition log_write :: "bkt_env \<Rightarrow> media \<Rightarrow> rec_world \<Rightarrow> rec_world \<Rightarrow> rec_log \<Rightarrow> rec_log" where
  "log_write ev x w w' L =
    (if stays ev x (rw_ctrl w) then log_append (media_item ev x (rw_prevFpos w)) L
     else log_next (end_mark ev x) (rc_target_path (rw_ctrl w'), rc_bid (rw_ctrl w')) (media_item ev x (rw_prevFpos w)) L)"

lemma rec_ok_rdb: "rec_ok w \<Longrightarrow> rdb_ok (cur_disk w)"
  using disks_ok_cur by (auto simp: rec_ok_def disk_ok_def)

lemma write_media_log:
  assumes ev: "healthy ev" and x: "media_ok x" and w: "rec_ok w" and L: "log_rel w L" and run: "write_media ev x w = Some r"
  shows "\<exists>w'. r = (BKT_OK, w') \<and> rec_ok w' \<and> log_rel w' (log_write ev x w w' L)"
proof -
  obtain ixs where op: "basket_open (lg_items L) ixs w" using L by (auto simp: log_rel_def)
  have ok: "disks_ok w" "total_size (rw_ctrl w) < BASKET_SIZE" "rw_recycle w \<noteq> BKT_RECYCLE_ONCE" using w by (simp_all add: rec_ok_def)
  note rdb = rec_ok_rdb [OF w]
  show ?thesis
  proof (cases x)
    case (Video pv)
    have pv: "video_ok pv" and ne: "BKTREC_WriteVideoStream ev pv w \<noteq> None" using x run Video by simp_all
    show ?thesis
    proof (cases "stays_video ev pv (rw_ctrl w)")
      case True
      obtain w' where r: "r = (BKT_OK, w')" using WriteVideo_appended [OF ev pv op rdb True] ne run Video by auto
      have "appended ev (lg_items L) ixs (video_item ev pv (rw_prevFpos w)) w w'" if "basket_open (lg_items L) ixs w" for ixs
        using WriteVideo_appended [OF ev pv that rdb True] ne run r Video by auto
      from log_appended [OF L w this] r True Video show ?thesis by (simp add: log_write_def)
    next
      case False
      obtain w' where r: "r = (BKT_OK, w')" using WriteVideo_moved [OF ev pv op ok(1) False _ ok(3) _ ok(2)] ne run Video by auto
      have "moved (lg_items L @ [end_item ev pv]) ixs (video_item ev pv (rw_prevFpos w)) w w'" if "basket_open (lg_items L) ixs w" for ixs
        using WriteVideo_moved [OF ev pv that ok(1) False _ ok(3) _ ok(2)] ne run r Video by auto
      from log_moved [OF L w this] r False Video show ?thesis by (simp add: log_write_def)
    qed
  next
    case (Audio pa)
    have pa: "audio_ok pa" using x Audio by simp
    show ?thesis
    proof (cases "stays_audio pa (rw_ctrl w)")
      case True
      obtain w' where r: "r = (BKT_OK, w')" using WriteAudio_appended [OF ev pa op rdb True] run Audio by auto
      have "appended ev (lg_items L) ixs (audio_item ev pa (rw_prevFpos w)) w w'" if "basket_open (lg_items L) ixs w" for ixs
        using WriteAudio_appended [OF ev pa that rdb True] run r Audio by auto
      from log_appended [OF L w this] r True Audio show ?thesis by (simp add: log_write_def)
    next
      case False
      obtain w' where r: "r = (BKT_OK, w')" using WriteAudio_moved [OF ev pa op ok(1) False ok(3)] run Audio by auto
      have "moved (lg_items L @ []) ixs (audio_item ev pa (rw_prevFpos w)) w w'" if "basket_open (lg_items L) ixs w" for ixs
        using WriteAudio_moved [OF ev pa that ok(1) False ok(3)] run r Audio by auto
      from log_moved [OF L w this] r False Audio show ?thesis by (simp add: log_write_def)
    qed
  qed
qed

text \<open>When a write stays within its arrays: an audio frame always does, a video frame when the
  buffer of the record database has room, and a change also needs room for the end mark.\<close>

fun write_fits :: "bkt_env \<Rightarrow> media \<Rightarrow> bktrec \<Rightarrow> bool" where
  "write_fits ev (Video pv) c \<longleftrightarrow> length (rc_r_buf c) < 51 \<and> (stays_video ev pv c \<or> rc_b_pos c + 44 \<le> BKT_BBUF_SIZE)"
| "write_fits ev (Audio pa) c \<longleftrightarrow> True"

lemma write_media_defined:
  assumes ev: "healthy ev" and x: "media_ok x" and w: "rec_ok w" and op: "basket_open items ixs w" and fit: "write_fits ev x (rw_ctrl w)"
  shows "write_media ev x w \<noteq> None"
proof -
  have ok: "disks_ok w" "total_size (rw_ctrl w) < BASKET_SIZE" "rw_recycle w \<noteq> BKT_RECYCLE_ONCE" using w by (simp_all add: rec_ok_def)
  note rdb = rec_ok_rdb [OF w]
  show ?thesis
  proof (cases x)
    case (Video pv)
    then have pv: "video_ok pv" and r: "length (rc_r_buf (rw_ctrl w)) < 51" and e: "stays_video ev pv (rw_ctrl w) \<or> rc_b_pos (rw_ctrl w) + 44 \<le> BKT_BBUF_SIZE"
      using x fit by simp_all
    then show ?thesis using WriteVideo_appended [OF ev pv op rdb] WriteVideo_moved [OF ev pv op ok(1) _ _ ok(3) _ ok(2)] Video
      by (cases "stays_video ev pv (rw_ctrl w)") auto
  next
    case (Audio pa)
    then show ?thesis using x WriteAudio_appended [OF ev _ op rdb, of pa] WriteAudio_moved [OF ev _ op ok(1) _ ok(3), of pa]
      by (cases "stays_audio pa (rw_ctrl w)") auto
  qed
qed

lemma media_item_frame [simp]: "is_frame (media_item ev x prev)"
  by (cases x) (simp_all add: video_item_def audio_item_def)

lemma log_frames_write: "log_frames (log_write ev x w w' L) = log_frames L @ [media_item ev x (rw_prevFpos w)]"
proof -
  have "filter is_frame (end_mark ev x) = []" by (cases x) (simp_all add: end_item_def)
  then show ?thesis by (simp add: log_write_def log_frames_append log_frames_next)
qed

section \<open>Simulation\<close>

text \<open>A run of steps: the results and the last state.  None: a step fails.\<close>

fun run_steps :: "('o \<Rightarrow> 'w \<Rightarrow> ('r \<times> 'w) option) \<Rightarrow> 'o list \<Rightarrow> 'w \<Rightarrow> ('r list \<times> 'w) option" where
  "run_steps step [] w = Some ([], w)"
| "run_steps step (x # xs) w =
    (case step x w of None \<Rightarrow> None
     | Some (r, w') \<Rightarrow> map_option (\<lambda>(rs, w''). (r # rs, w'')) (run_steps step xs w'))"

fun spec_run :: "('o \<Rightarrow> 'r \<Rightarrow> 'l \<Rightarrow> 'l \<Rightarrow> bool) \<Rightarrow> 'o list \<Rightarrow> 'r list \<Rightarrow> 'l \<Rightarrow> 'l \<Rightarrow> bool" where
  "spec_run spec [] [] L L' = (L' = L)"
| "spec_run spec (x # xs) (r # rs) L L' = (\<exists>L1. spec x r L L1 \<and> spec_run spec xs rs L1 L')"
| "spec_run spec _ _ L L' = False"

locale simulation =
  fixes step :: "'o \<Rightarrow> 'w \<Rightarrow> ('r \<times> 'w) option"
    and legal :: "'o \<Rightarrow> bool"
    and rel :: "'w \<Rightarrow> 'l \<Rightarrow> bool"
    and spec :: "'o \<Rightarrow> 'r \<Rightarrow> 'l \<Rightarrow> 'l \<Rightarrow> bool"
  assumes sim_step: "legal x \<Longrightarrow> rel w L \<Longrightarrow> step x w = Some (r, w') \<Longrightarrow> \<exists>L'. spec x r L L' \<and> rel w' L'"
begin

lemma sim_run:
  assumes "list_all legal xs" "rel w L" "run_steps step xs w = Some (rs, w')"
  shows "\<exists>L'. spec_run spec xs rs L L' \<and> rel w' L'"
  using assms
proof (induction xs arbitrary: w L rs)
  case (Cons x xs)
  obtain r w1 rs' where s: "step x w = Some (r, w1)" "run_steps step xs w1 = Some (rs', w')" "rs = r # rs'"
    using Cons.prems(3) by (auto split: option.splits)
  obtain L1 where 1: "spec x r L L1" "rel w1 L1" using sim_step [OF _ Cons.prems(2) s(1)] Cons.prems(1) by auto
  obtain L' where 2: "spec_run spec xs rs' L1 L'" "rel w' L'" using Cons.IH [OF _ 1(2) s(2)] Cons.prems(1) by auto
  show ?case using 1(1) 2 s(3) by auto
qed simp

end

definition rec_spec :: "bkt_env \<times> media \<Rightarrow> int \<Rightarrow> rec_log \<Rightarrow> rec_log \<Rightarrow> bool" where
  "rec_spec = (\<lambda>(ev, x) st L L'. st = BKT_OK \<and> (\<exists>prev. log_frames L' = log_frames L @ [media_item ev x prev]))"

definition rec_legal :: "bkt_env \<times> media \<Rightarrow> bool" where
  "rec_legal = (\<lambda>(ev, x). healthy ev \<and> media_ok x)"

definition rec_rel :: "rec_world \<Rightarrow> rec_log \<Rightarrow> bool" where
  "rec_rel w L \<longleftrightarrow> rec_ok w \<and> log_rel w L"

interpretation recorder: simulation "\<lambda>(ev, x). write_media ev x" rec_legal rec_rel rec_spec
proof unfold_locales
  fix o' :: "bkt_env \<times> media" and w L st w'
  assume l: "rec_legal o'" and r: "rec_rel w L" and s: "(case o' of (ev, x) \<Rightarrow> write_media ev x) w = Some (st, w')"
  obtain ev x where o': "o' = (ev, x)" by (cases o')
  have "write_media ev x w = Some (st, w')" using s by (simp add: o')
  moreover have "healthy ev" "media_ok x" "rec_ok w" "log_rel w L" using l r by (simp_all add: o' rec_legal_def rec_rel_def)
  ultimately have "(st, w') = (BKT_OK, w') \<and> rec_ok w' \<and> log_rel w' (log_write ev x w w' L)"
    using write_media_log [of ev x w L "(st, w')"] by auto
  then show "\<exists>L'. rec_spec o' st L L' \<and> rec_rel w' L'"
    unfolding o' rec_rel_def rec_spec_def using log_frames_write [of ev x w w' L] by auto
qed

lemma rec_spec_run:
  "spec_run rec_spec xs sts L L' \<Longrightarrow> sts = replicate (length xs) BKT_OK
    \<and> (\<exists>prevs. length prevs = length xs \<and> log_frames L' = log_frames L @ map2 (\<lambda>(ev, x) prev. media_item ev x prev) xs prevs)"
proof (induction rec_spec xs sts L L' rule: spec_run.induct)
  case (2 o' xs st sts L L')
  obtain ev x where o': "o' = (ev, x)" by (cases o')
  obtain L1 prev where 1: "st = BKT_OK" "log_frames L1 = log_frames L @ [media_item ev x prev]" "spec_run rec_spec xs sts L1 L'"
    using 2(2) by (auto simp: o' rec_spec_def)
  obtain prevs where "sts = replicate (length xs) BKT_OK" "length prevs = length xs"
      "log_frames L' = log_frames L1 @ map2 (\<lambda>(ev, x) prev. media_item ev x prev) xs prevs"
    using 2(1) [OF 1(3)] by blast
  then show ?case using 1(1,2) o' by (intro conjI exI [of _ "prev # prevs"]) auto
qed auto

text \<open>The time stamps of the channel.\<close>

lemma put_video_secs:
  assumes "put_video ev pv w = Some w'"
  shows "rc_bkt_secs (rw_ctrl w') = (let s = rc_bkt_secs (if vp_frametype pv = FT_IFRAME then put_index ev pv (rw_ctrl w) else rw_ctrl w) in
    s\<lparr>bt_t2 := (bt_t2 s)[nat (vp_ch pv) := (vp_sec pv, vp_usec pv)]\<rparr>)"
  using assms by (auto simp: put_video_def put_b_def put_rdb_def Let_def split: if_splits option.splits)

section \<open>A full stream buffer\<close>

text \<open>A frame that fills the stream buffer without a flush.\<close>

lemma WriteVideo_fills:
  assumes ev: "healthy ev" and pv: "video_ok pv" and op: "basket_open items ixs w" and r: "length (rc_r_buf (rw_ctrl w)) < 51"
    and stay: "stays_video ev pv (rw_ctrl w)"
    and room: "rc_b_pos (rw_ctrl w) + vp_framesize pv + 84 < BKT_BBUF_SIZE" "rc_i_pos (rw_ctrl w) + 44 < BKT_IBUF_SIZE"
  shows "\<exists>w' ix. BKTREC_WriteVideoStream ev pv w = Some (BKT_OK, w') \<and> basket_open (items @ [video_item ev pv (rw_prevFpos w)]) (ixs @ ix) w'
    \<and> put_video ev pv w = Some w' \<and> rc_b_pos (rw_ctrl w') = rc_b_pos (rw_ctrl w) + vp_framesize pv + 84 \<and> rc_prev_day (rw_ctrl w') = tm_mday (ev_local ev (vp_sec pv))"
proof -
  have size: "total_size (rw_ctrl w) + vp_framesize pv + 128 < BASKET_SIZE" and day: "rc_prev_day (rw_ctrl w) = tm_mday (ev_local ev (vp_sec pv))"
    using stay by (simp_all add: stays_video_def)
  have "\<not> (rc_b_pos (rw_ctrl w) + vp_framesize pv + SIZEOF_STREAM_HDR + SIZEOF_VSTREAM_HDR \<ge> BKT_BBUF_SIZE
     \<or> rc_i_pos (rw_ctrl w) + SIZEOF_INDEX_DATA \<ge> BKT_IBUF_SIZE)"
    using room by (simp add: SIZEOF_STREAM_HDR_def SIZEOF_VSTREAM_HDR_def SIZEOF_INDEX_DATA_def)
  then have "BKTREC_WriteVideoStream ev pv w = map_option (Pair BKT_OK) (put_video ev pv w)"
    using day size video_guard [OF op pv] unfolding BKTREC_WriteVideoStream_def by (simp add: check_size_video Let_def)
  moreover obtain w' ix where v: "put_video ev pv w = Some w'" "basket_open (items @ [video_item ev pv (rw_prevFpos w)]) (ixs @ ix) w'"
    "same_place w' w" "rc_prev_day (rw_ctrl w') = tm_mday (ev_local ev (vp_sec pv))"
    using put_video_ok [OF ev pv op _ _ size] room r by auto
  moreover have "rc_b_pos (rw_ctrl w') = rc_b_pos (rw_ctrl w) + vp_framesize pv + 84"
    using basket_open_nonneg(1) [OF op] basket_open_nonneg(1) [OF v(2)] v(3) length_video_item [OF ev pv, of "rw_prevFpos w"]
    by (simp add: same_place_def)
  ultimately show ?thesis by auto
qed

text \<open>The end mark is put behind what the buffer holds, before any flush.\<close>

lemma end_mark_past_buffer:
  assumes ev: "healthy ev" and pv: "video_ok pv" and op: "basket_open items ixs w" and leave: "\<not> stays_video ev pv (rw_ctrl w)"
    and full: "rc_b_pos (rw_ctrl w) + 44 > BKT_BBUF_SIZE"
  shows "BKTREC_WriteVideoStream ev pv w = None"
proof -
  let ?e = "end_item ev pv"
  have "int (length (item_bytes ?e)) = 44" by (simp add: end_item_ok(2) [OF ev pv] STREAM_HDR_LEN_def)
  then have "put_b (item_bytes ?e) (upd_ctrl (rc_r_skip_update (\<lambda>_. False)) w) = None"
    using full by (simp add: put_b_def Let_def rc_b_pos_def)
  then show ?thesis using leave video_guard [OF op pv] unfolding BKTREC_WriteVideoStream_def
    by (simp add: check_size_video stays_video_def Let_def end_item_def)
qed

section \<open>Stopping the recorder\<close>

text \<open>What is behind the frames in the basket file: flushing and closing leave it alone.\<close>

definition tail :: "nat \<Rightarrow> rec_world \<Rightarrow> nat \<Rightarrow> int \<Rightarrow> byte list option" where
  "tail n w d b = map_option (drop n) (the_file (rw_disks w) Bkt d b)"

lemma part_open_handle:
  assumes "part_open ds h k d b len fpos buf data"
  obtains f n where "h = Some \<lparr>hd_kind = k, hd_disk = d, hd_bid = b, hd_pos = n\<rparr>" "the_file ds k d b = Some f" "n \<le> length f"
    "n + length buf = len + length data"
proof -
  obtain hdr bs where p: "length hdr = len" "open_at ds h k d b bs" "bs @ buf = hdr @ data" using assms by (auto simp: part_open_def)
  then have "length bs + length buf = len + length data" by (metis length_append)
  then show thesis using p(2) that by (auto simp: open_at_def)
qed

text \<open>What a flush makes of the two files.\<close>

definition wrote :: "rec_world \<Rightarrow> rec_world \<Rightarrow> fkind \<Rightarrow> nat \<Rightarrow> int \<Rightarrow> nat \<Rightarrow> byte list \<Rightarrow> bool" where
  "wrote w' w k d b n bs \<longleftrightarrow> (\<exists>f pos. the_file (rw_disks w) k d b = Some f \<and> pos \<le> length f \<and> pos + length bs = n
     \<and> the_file (rw_disks w') k d b = Some (put_bytes pos bs f))"

lemma put_nothing: "pos \<le> length f \<Longrightarrow> put_bytes pos [] f = f"
  by (simp add: put_bytes_def)

lemma Flush_wrote:
  assumes ev: "healthy ev" and op: "basket_open items ixs w" and rdb: "rdb_ok (cur_disk w)" and f: "BKTREC_FlushWriteBuffer ev w = (st, w')"
  shows "wrote w' w Bkt (rc_target_path (rw_ctrl w)) (rc_bid (rw_ctrl w)) (BASKET_HDR_LEN + length (items_bytes items)) (rc_b_buf (rw_ctrl w))"
    "wrote w' w Idx (rc_target_path (rw_ctrl w)) (rc_bid (rw_ctrl w)) (INDEX_HDR_LEN + length (index_bytes ixs)) (rc_i_buf (rw_ctrl w))"
proof -
  let ?d = "rc_target_path (rw_ctrl w)" and ?b = "rc_bid (rw_ctrl w)" and ?c = "rw_ctrl w"
  have parts: "part_open (rw_disks w) (rw_hbkt w) Bkt ?d ?b BASKET_HDR_LEN (rc_fpos_bkt ?c) (rc_b_buf ?c) (items_bytes items)"
     "part_open (rw_disks w) (rw_hidx w) Idx ?d ?b INDEX_HDR_LEN (rc_fpos_idx ?c) (rc_i_buf ?c) (index_bytes ixs)"
    using op by (simp_all add: basket_open_def Let_def)
  from flush_bkt_ok [OF ev parts(1)] obtain hb fb where
    fb: "flush_bkt ev w = (True, w\<lparr>rw_hbkt := hb, rw_disks := set_file Bkt ?d ?b fb (rw_disks w),
      rw_ctrl := ?c\<lparr>rc_fpos_bkt := rc_fpos_bkt ?c + rc_b_pos ?c, rc_b_buf := []\<rparr>\<rparr>)" (is "_ = (True, ?w1)")
    by blast
  have "part_open (rw_disks ?w1) (rw_hidx ?w1) Idx ?d ?b INDEX_HDR_LEN (rc_fpos_idx (rw_ctrl ?w1)) (rc_i_buf (rw_ctrl ?w1)) (index_bytes ixs)"
    using parts(2) by (simp add: part_open_other)
  from flush_idx_ok [OF ev this] obtain hi fi where
    fi: "flush_idx ev ?w1 = (True, ?w1\<lparr>rw_hidx := hi, rw_disks := set_file Idx ?d ?b fi (rw_disks ?w1),
      rw_ctrl := (rw_ctrl ?w1)\<lparr>rc_fpos_idx := rc_fpos_idx (rw_ctrl ?w1) + rc_i_pos (rw_ctrl ?w1), rc_i_buf := []\<rparr>\<rparr>)" (is "_ = (True, ?w2)")
    by blast
  have w2: "cur_disk ?w2 = set_file Idx ?d ?b fi (set_file Bkt ?d ?b fb (rw_disks w)) ?d" by simp
  have "rdb_ok (cur_disk ?w2)" using rdb unfolding w2 by (simp add: rdb_ok_def)
  from flush_rdb_ok [OF ev this] obtain rdb' dir r where "flush_rdb ev ?w2 = (BKT_OK, rdb_changed ?w2 rdb' dir r)" by blast
  then have w': "w' = rdb_changed ?w2 rdb' dir r" using f fb fi by (simp add: BKTREC_FlushWriteBuffer_def)
  obtain f0 n where h: "rw_hbkt w = Some \<lparr>hd_kind = Bkt, hd_disk = ?d, hd_bid = ?b, hd_pos = n\<rparr>" "the_file (rw_disks w) Bkt ?d ?b = Some f0" "n \<le> length f0"
    "n + length (rc_b_buf ?c) = BASKET_HDR_LEN + length (items_bytes items)"
    by (rule part_open_handle [OF parts(1)])
  have "the_file (rw_disks (snd (flush_bkt ev w))) Bkt ?d ?b = Some (put_bytes n (rc_b_buf ?c) f0)"
    using h ev by (auto simp: flush_bkt_def h_write_def file_of_def put_nothing)
  then have "fb = put_bytes n (rc_b_buf ?c) f0" unfolding fb by simp
  then show "wrote w' w Bkt ?d ?b (BASKET_HDR_LEN + length (items_bytes items)) (rc_b_buf ?c)"
    using h(2-4) by (auto simp: wrote_def w')
  obtain f1 m where h1: "rw_hidx w = Some \<lparr>hd_kind = Idx, hd_disk = ?d, hd_bid = ?b, hd_pos = m\<rparr>" "the_file (rw_disks w) Idx ?d ?b = Some f1" "m \<le> length f1"
    "m + length (rc_i_buf ?c) = INDEX_HDR_LEN + length (index_bytes ixs)"
    by (rule part_open_handle [OF parts(2)])
  have "the_file (rw_disks (snd (flush_idx ev ?w1))) Idx ?d ?b = Some (put_bytes m (rc_i_buf ?c) f1)"
    using h1 ev by (auto simp: flush_idx_def h_write_def file_of_def put_nothing)
  then have "fi = put_bytes m (rc_i_buf ?c) f1" unfolding fi by simp
  then show "wrote w' w Idx ?d ?b (INDEX_HDR_LEN + length (index_bytes ixs)) (rc_i_buf ?c)"
    using h1(2-4) by (auto simp: wrote_def w')
qed

lemma Flush_tail:
  assumes "healthy ev" "basket_open items ixs w" "rdb_ok (cur_disk w)" "BKTREC_FlushWriteBuffer ev w = (st, w')"
  shows "tail (BASKET_HDR_LEN + length (items_bytes items)) w' (rc_target_path (rw_ctrl w)) (rc_bid (rw_ctrl w))
    = tail (BASKET_HDR_LEN + length (items_bytes items)) w (rc_target_path (rw_ctrl w)) (rc_bid (rw_ctrl w))"
  using Flush_wrote(1) [OF assms] by (auto simp: wrote_def tail_def drop_put_bytes)

lemma close_tail:
  assumes ev: "healthy ev" and op: "basket_open items ixs w"
  shows "tail (BASKET_HDR_LEN + length (items_bytes items)) (close_bkt ev l2 flag (close_idx ev l1 res w)) (rc_target_path (rw_ctrl w)) (rc_bid (rw_ctrl w))
    = tail (BASKET_HDR_LEN + length (items_bytes items)) w (rc_target_path (rw_ctrl w)) (rc_bid (rw_ctrl w))"
proof -
  let ?d = "rc_target_path (rw_ctrl w)" and ?b = "rc_bid (rw_ctrl w)" and ?c = "rw_ctrl w"
  have parts: "part_open (rw_disks w) (rw_hbkt w) Bkt ?d ?b BASKET_HDR_LEN (rc_fpos_bkt ?c) (rc_b_buf ?c) (items_bytes items)"
     "part_open (rw_disks w) (rw_hidx w) Idx ?d ?b INDEX_HDR_LEN (rc_fpos_idx ?c) (rc_i_buf ?c) (index_bytes ixs)"
    using op by (simp_all add: basket_open_def Let_def)
  obtain f0 n where h: "rw_hbkt w = Some \<lparr>hd_kind = Bkt, hd_disk = ?d, hd_bid = ?b, hd_pos = n\<rparr>" "the_file (rw_disks w) Bkt ?d ?b = Some f0"
    by (rule part_open_handle [OF parts(1)])
  obtain f1 m where h1: "rw_hidx w = Some \<lparr>hd_kind = Idx, hd_disk = ?d, hd_bid = ?b, hd_pos = m\<rparr>" "the_file (rw_disks w) Idx ?d ?b = Some f1"
    by (rule part_open_handle [OF parts(2)])
  define w1 where "w1 = close_idx ev l1 res w"
  have w1: "rw_hbkt w1 = rw_hbkt w" "the_file (rw_disks w1) Bkt ?d ?b = Some f0" "rw_ctrl w1 = ?c"
    using h h1 ev by (auto simp: w1_def close_idx_def write_idx_def h_seek_def h_write_def Let_def)
  let ?bh = "(ev_bh ev)\<lparr>bh_id := ID_BASKET_HDR, bh_bid := ?b, bh_latest_update := ev_now ev, bh_save_flag := flag, bh_ts := rc_bkt_secs ?c\<rparr>"
  have len: "length (enc_basket_hdr ?bh) = BASKET_HDR_LEN"
    by (rule length_basket_hdr) (use basket_openD(2) [OF op] in \<open>simp_all add: buffers_ok_def\<close>)
  then have ne: "enc_basket_hdr ?bh \<noteq> []" by (auto simp: BASKET_HDR_LEN_def)
  have "the_file (rw_disks (close_bkt ev l2 flag w1)) Bkt ?d ?b = Some (put_bytes 0 (enc_basket_hdr ?bh) f0)"
    using w1 h ev ne by (simp add: close_bkt_def write_bkt_def h_seek_def h_write_def Let_def file_of_def)
  moreover have "drop (BASKET_HDR_LEN + length (items_bytes items)) (put_bytes 0 (enc_basket_hdr ?bh) f0) = drop (BASKET_HDR_LEN + length (items_bytes items)) f0"
    by (rule drop_put_bytes) (use len in simp_all)
  ultimately show ?thesis using h(2) by (simp add: tail_def flip: w1_def)
qed

text \<open>A basket that the manager file lists is noted in the info file.\<close>

definition lists :: "bkt_disk \<Rightarrow> int \<Rightarrow> bool" where
  "lists d b \<longleftrightarrow> (\<exists>m j. dk_mgr d = Some m \<and> j < nat (mf_bkt_count m) \<and> j < length (mf_bodies m) \<and> mb_bid (mf_bodies m ! j) = b)"

lemma mgr_find_lists:
  assumes "\<And>r. ev_io ev l r = None"
  shows "i \<le> j \<Longrightarrow> j < i + n \<Longrightarrow> j < length bodies \<Longrightarrow> P (bodies ! j) \<Longrightarrow> mgr_find ev l P n i bodies \<noteq> None"
proof (induction n arbitrary: i)
  case (Suc n)
  then show ?case using Suc.IH [of "Suc i"] assms by (cases "j = i") auto
qed simp

lemma update_notes:
  assumes ev: "healthy ev" and l: "lists (cur_disk w) b"
  shows "dk_info (cur_disk (snd (BKTREC_updateBasketManager ev b flag w)))
    = Some (Some \<lparr>ri_save_flag = flag, ri_bid = b, ri_path = rc_target_path (rw_ctrl w)\<rparr>)"
proof -
  obtain m j where m: "dk_mgr (cur_disk w) = Some m" "j < nat (mf_bkt_count m)" "j < length (mf_bodies m)" "mb_bid (mf_bodies m ! j) = b"
    using l by (auto simp: lists_def)
  obtain i bd where f: "mgr_find ev 1866 (\<lambda>bd. mb_bid bd = b) (nat (mf_bkt_count m)) 0 (mf_bodies m) = Some (i, bd)"
    using mgr_find_lists [of ev 1866 0 j "nat (mf_bkt_count m)" "mf_bodies m" "\<lambda>bd. mb_bid bd = b"] ev m by fastforce
  show ?thesis using m(1) f ev
    by (simp add: BKTREC_updateBasketManager_def BKTREC_setBasketRecinfo_def Let_def set_body_def upd_disk_def)
qed

lemma exit_ok:
  assumes ev: "healthy ev" and op: "basket_open items ixs w" and ok: "disks_ok w"
  shows "\<exists>w'. BKTREC_exit ev flag BKT_REC_CLOSE_BUF_FLUSH w = (S_OK, w')
    \<and> sealed flag (rc_bkt_secs (rw_ctrl w)) (rc_idx_secs (rw_ctrl w)) items ixs (rw_disks w') (rc_target_path (rw_ctrl w)) (rc_bid (rw_ctrl w))
    \<and> others_same (rw_disks w') (rw_disks w) (rc_target_path (rw_ctrl w)) (rc_bid (rw_ctrl w))
    \<and> rw_status w' = BKT_STATUS_CLOSED \<and> rw_hbkt w' = None \<and> rw_hidx w' = None
    \<and> mount_ok w' \<and> rw_mount w' = rw_mount w \<and> rw_recycle w' = rw_recycle w \<and> rw_prevFpos w' = rw_prevFpos w
    \<and> tail (BASKET_HDR_LEN + length (items_bytes items)) w' (rc_target_path (rw_ctrl w)) (rc_bid (rw_ctrl w))
      = tail (BASKET_HDR_LEN + length (items_bytes items)) w (rc_target_path (rw_ctrl w)) (rc_bid (rw_ctrl w))
    \<and> (lists (cur_disk w) (rc_bid (rw_ctrl w)) \<longrightarrow> dk_info (rw_disks w' (rc_target_path (rw_ctrl w)))
       = Some (Some \<lparr>ri_save_flag = flag, ri_bid = rc_bid (rw_ctrl w), ri_path = rc_target_path (rw_ctrl w)\<rparr>))"
proof -
  let ?d = "rc_target_path (rw_ctrl w)" and ?b = "rc_bid (rw_ctrl w)"
  have rdb: "rdb_ok (cur_disk w)" using disks_ok_cur [OF ok] by (simp add: disk_ok_def)
  obtain w1 where f: "BKTREC_FlushWriteBuffer ev w = (BKT_OK, w1)" "basket_open items ixs w1" "same_basket w1 w"
    "rc_b_buf (rw_ctrl w1) = []" "rc_i_buf (rw_ctrl w1) = []"
    and secs: "rc_bkt_secs (rw_ctrl w1) = rc_bkt_secs (rw_ctrl w)" "rc_idx_secs (rw_ctrl w1) = rc_idx_secs (rw_ctrl w)"
    and prev: "rw_prevFpos w1 = rw_prevFpos w"
    using Flush_ok [OF ev op rdb] by auto
  have ok1: "disks_ok w1" by (rule disks_ok_same_basket [OF f(3) ok])
  have id1: "rc_target_path (rw_ctrl w1) = ?d" "rc_bid (rw_ctrl w1) = ?b" "others_same (rw_disks w1) (rw_disks w) ?d ?b"
    using f(3) by (auto simp: same_basket_def others_same_def)
  obtain fb fi where cl: "close_bkt ev 1974 flag (close_idx ev 1945 (ih_reserved (ev_ih ev)) w1) = closed_world w1 fb fi"
    and se: "sealed flag (rc_bkt_secs (rw_ctrl w1)) (rc_idx_secs (rw_ctrl w1)) items ixs (rw_disks (closed_world w1 fb fi)) ?d ?b"
    using close_files [OF ev f(2,4,5)] unfolding id1(1,2) by blast
  let ?w2 = "closed_world w1 fb fi"
  have ok2: "disks_ok ?w2"
    by (rule disks_ok_cong [OF ok1]) (simp_all add: closed_world_def Let_def disk_ok_set_file)
  define w3 where "w3 = snd (BKTREC_updateBasketManager ev (rc_bid (rw_ctrl ?w2)) flag ?w2)"
  have t: "touched w3 ?w2" unfolding w3_def by (rule updateBasketManager_touched [OF disks_ok_cur [OF ok2]])
  have ok3: "disks_ok w3" by (rule disks_ok_touched [OF t ok2])
  obtain m n where td: "BKTREC_setTargetDisk ev (mi_curHddIdx (rw_mount w3)) w3
      = (BKT_OK, upd_ctrl (\<lambda>c. c\<lparr>rc_target_path := hi_mountDiskPath (mi_hddInfo (rw_mount w3) ! mi_curHddIdx (rw_mount w3)), rc_bkt_cnt := n\<rparr>)
          (w3\<lparr>rw_hddmgr := Some (Some m)\<rparr>))"
    using setTargetDisk_ok [OF ev disks_ok_mgr [OF ok3]] by blast
  have status: "rw_status w \<noteq> BKT_STATUS_CLOSED"
    using basket_openD(1) [OF op] by (simp add: BKT_STATUS_CLOSED_def BKT_STATUS_OPENED_def)
  define w' where "w' = snd (BKTREC_exit ev flag BKT_REC_CLOSE_BUF_FLUSH w)"
  have run: "BKTREC_exit ev flag BKT_REC_CLOSE_BUF_FLUSH w = (S_OK, w')"
    and disks: "rw_disks w' = rw_disks w3" and st: "rw_status w' = BKT_STATUS_CLOSED" and h: "rw_hbkt w' = None" "rw_hidx w' = None"
    using status touched_simps(2,3) [OF t] unfolding w'_def
    by (simp_all add: BKTREC_exit_def Let_def f(1) cl td flip: w3_def) (simp_all add: closed_world_def Let_def)
  have "sealed flag (rc_bkt_secs (rw_ctrl w1)) (rc_idx_secs (rw_ctrl w1)) items ixs (rw_disks w') ?d ?b"
    unfolding disks using se by (subst sealed_cong [of _ _ _ "rw_disks ?w2"]) (simp_all add: touched_simps(9) [OF t])
  moreover have "others_same (rw_disks w') (rw_disks w) ?d ?b"
    unfolding disks using id1(3)
    by (auto simp: others_same_def touched_simps(9) [OF t]) (auto simp: closed_world_def Let_def id1)
  moreover have "rw_mount w' = rw_mount w" "rw_recycle w' = rw_recycle w" "rw_prevFpos w' = rw_prevFpos w" "mount_ok w'"
  proof -
    have m3: "mount_ok w3" using ok3 by (simp add: disks_ok_def)
    have 3: "rw_mount w' = rw_mount w3" "rw_recycle w' = rw_recycle w3" "rw_prevFpos w' = rw_prevFpos w3" "rw_hddmgr w' = Some (Some m)"
      using status unfolding w'_def by (simp_all add: BKTREC_exit_def Let_def f(1) cl td flip: w3_def)
    have 2: "rw_mount w3 = rw_mount w" "rw_recycle w3 = rw_recycle w" "rw_prevFpos w3 = rw_prevFpos w"
      using touched_simps(5,6,7) [OF t] f(3) prev by (simp_all add: closed_world_def Let_def same_basket_def)
    show "rw_mount w' = rw_mount w" "rw_recycle w' = rw_recycle w" "rw_prevFpos w' = rw_prevFpos w" using 2 3 by simp_all
    show "mount_ok w'" using m3 3(1,4) disks by (simp add: mount_ok_def Let_def)
  qed
  moreover have "tail (BASKET_HDR_LEN + length (items_bytes items)) w' ?d ?b = tail (BASKET_HDR_LEN + length (items_bytes items)) w ?d ?b"
    using Flush_tail [OF ev op rdb f(1)] close_tail [OF ev f(2), of 1974 flag 1945 "ih_reserved (ev_ih ev)"] unfolding cl id1(1,2)
    by (simp add: tail_def disks touched_simps(9) [OF t])
  moreover have "dk_info (rw_disks w' ?d) = Some (Some \<lparr>ri_save_flag = flag, ri_bid = ?b, ri_path = ?d\<rparr>)" if "lists (cur_disk w) ?b"
  proof -
    have c2: "rc_target_path (rw_ctrl ?w2) = ?d" "rc_bid (rw_ctrl ?w2) = ?b" using id1 by (simp_all add: closed_world_def Let_def)
    have "dk_mgr (rw_disks ?w2 ?d) = dk_mgr (cur_disk w)" using f(3) by (simp add: closed_world_def Let_def same_basket_def)
    then have "lists (cur_disk ?w2) ?b" using that unfolding c2 lists_def by simp
    from update_notes [OF ev this, of flag] show ?thesis
      unfolding disks w3_def c2(2) using touched_simps(1) [OF t] c2 by (simp add: w3_def)
  qed
  ultimately show ?thesis using run st h unfolding secs by blast
qed

text \<open>A stop that succeeds leaves nothing buffered.\<close>

lemma exit_clears:
  assumes "BKTREC_exit ev flag fl w = (S_OK, w')"
  shows "rc_r_buf (rw_ctrl w') = [] \<and> rc_b_buf (rw_ctrl w') = [] \<and> rc_i_buf (rw_ctrl w') = []"
  using assms by (auto simp: BKTREC_exit_def Let_def S_OK_def BKT_ERR_def split: if_splits prod.splits)

end
