(* ===== verification/Basket_Play.thy ===== *)
theory Basket_Play
  imports Basket_Rec
begin

text \<open>The player of the basket storage (src/basket_muldec.c, with the two helpers of
  src/udbasket.c): a basket is opened by a time of the record database, and read frame by
  frame, or from key frame to key frame, forwards into the next basket and backwards into
  the previous one.  A handle that has been closed fails every call.\<close>

section \<open>Reading\<close>

definition junk :: "bkt_env \<Rightarrow> nat \<Rightarrow> nat \<Rightarrow> byte list" where
  "junk ev l n = map (ev_junk ev l) [0..<n]"

text \<open>\<open>READ_ST\<close>, \<open>READ_HDR\<close> and \<open>READ_PTSZ\<close> into a structure or buffer that holds \<open>old\<close>:
  what is not transferred stays.\<close>

definition rd :: "bkt_env \<Rightarrow> nat \<Rightarrow> nat \<Rightarrow> byte list \<Rightarrow> bkt_handle option \<Rightarrow> disks \<Rightarrow> bool \<times> byte list \<times> bkt_handle option" where
  "rd ev l r old h ds = (case h_read (ev_io ev l r) (length old) h ds of (bs, h') \<Rightarrow> (bs \<noteq> [], bs @ drop (length bs) old, h'))"

text \<open>\<open>LSEEK_SET\<close>, \<open>LSEEK_CUR\<close> and \<open>LSEEK_END\<close>; positions are signed 32 bit numbers.\<close>

definition seek_set :: "int \<Rightarrow> bkt_handle option \<Rightarrow> bool \<times> bkt_handle option" where
  "seek_set pos h = (if pos < 0 then (False, h) else h_seek (nat pos) h)"

definition seek_cur :: "int \<Rightarrow> bkt_handle option \<Rightarrow> bool \<times> bkt_handle option" where
  "seek_cur n h = (case h of None \<Rightarrow> (False, None) | Some fh \<Rightarrow> seek_set (int (hd_pos fh) + n) h)"

definition seek_end :: "int \<Rightarrow> bkt_handle option \<Rightarrow> disks \<Rightarrow> bool \<times> bkt_handle option" where
  "seek_end n h ds = (case h of None \<Rightarrow> (False, None) | Some fh \<Rightarrow> seek_set (int (length (file_of fh ds)) + n) h)"

section \<open>The player\<close>

definition BKTMD_STATUS_STOP :: int where [const_defs]: "BKTMD_STATUS_STOP = 0"
definition BKTMD_STATUS_OPEN :: int where [const_defs]: "BKTMD_STATUS_OPEN = 1"

text \<open>\<open>T_BKTMD_CTRL\<close>.\<close>

record bktmd =
  md_ch :: int
  md_bid :: int
  md_sec :: int
  md_status :: int
  md_hbkt :: "bkt_handle option"
  md_hidx :: "bkt_handle option"
  md_fpos_bkt :: int
  md_iframe_cnt :: int
  md_iframe_cur :: int
  md_bktcnt :: int
  md_curhdd :: nat
  md_nexthdd :: nat
  md_target :: nat

text \<open>\<open>T_BKTMD_PARAM\<close>: what a read delivers, with the buffer it fills.\<close>

record md_param =
  mp_fpos :: int
  mp_ch :: int
  mp_sec :: int
  mp_usec :: int
  mp_framesize :: int
  mp_framerate :: int
  mp_frameWidth :: int
  mp_frameHeight :: int
  mp_frametype :: int
  mp_streamtype :: int
  mp_event :: int
  mp_samplingrate :: int
  mp_camName :: "int list"
  mp_vbuffer :: "byte list"
  mp_focusChannel :: int
  mp_bktId :: int
  mp_fpos_bkt :: int
  mp_audioONOFF :: int
  mp_capMode :: int

record player =
  pl_md :: bktmd
  pl_dp :: md_param

abbreviation upd_md :: "(bktmd \<Rightarrow> bktmd) \<Rightarrow> player \<Rightarrow> player" where
  "upd_md f p \<equiv> p\<lparr>pl_md := f (pl_md p)\<rparr>"

definition BKT_isRecordingBasket :: "int \<Rightarrow> rec_world \<Rightarrow> bktmd \<Rightarrow> bool" where
  "BKT_isRecordingBasket bid w c \<longleftrightarrow> bid = rc_bid (rw_ctrl w) \<and> rc_target_path (rw_ctrl w) = md_target c"

definition BKTMD_close :: "bool \<Rightarrow> bktmd \<Rightarrow> bktmd" where
  "BKTMD_close bStop c = c\<lparr>md_status := if bStop then BKTMD_STATUS_STOP else md_status c, md_hbkt := None, md_hidx := None,
     md_ch := 0, md_bid := 0, md_fpos_bkt := 0, md_iframe_cnt := 0, md_iframe_cur := 0\<rparr>"

section \<open>The record database\<close>

text \<open>The minutes of a day, and the rdb files in the order of their names.\<close>

definition minute_of :: "bkt_tm \<Rightarrow> nat" where
  "minute_of tm = nat (tm_hour tm * 60 + tm_min tm)"

definition rdb_files :: "bkt_disk \<Rightarrow> (int \<times> rdb_file) list" where
  "rdb_files d = map (\<lambda>k. (k, the (dk_rdb d k))) (sorted_list_of_set (dom (dk_rdb d)))"

text \<open>The first basket number of the cells that is accepted: by minutes, then channels.\<close>

definition find_cell :: "(int \<Rightarrow> bool) \<Rightarrow> (nat \<Rightarrow> int \<times> int) \<Rightarrow> nat list \<Rightarrow> int option" where
  "find_cell P rdbs minutes =
    List.find P (concat (map (\<lambda>m. map (\<lambda>ch. fst (rdbs (TOTAL_MINUTES_DAY * ch + m))) [0..<BKT_MAX_CHANNEL]) minutes))"

text \<open>The files are searched one by one, the first from a minute on and the others from
  end to end; the lines are those of opening, seeking and reading, the round is the
  number of the file.\<close>

fun scan_bids :: "bkt_env \<Rightarrow> nat \<times> nat \<times> nat \<Rightarrow> nat \<Rightarrow> (int \<Rightarrow> bool) \<Rightarrow> nat list \<Rightarrow> nat list \<Rightarrow> (int \<times> rdb_file) list \<Rightarrow> int" where
  "scan_bids ev (lo, ls, lr) r P ms ms' [] = BKT_ERR"
| "scan_bids ev (lo, ls, lr) r P ms ms' ((k, f) # fs) =
    (if ev_io ev lo r = Some 0 \<or> ev_io ev ls r = Some 0 \<or> ev_io ev lr r = Some 0 then BKT_ERR
     else case rf_rdbs f of None \<Rightarrow> BKT_ERR
     | Some rdbs \<Rightarrow>
         (case find_cell P rdbs ms of
            Some b \<Rightarrow> b
          | None \<Rightarrow> scan_bids ev (lo, ls, lr) (Suc r) P ms' ms' fs))"

definition BKTMD_SearchPrevHddStartBID :: "bkt_env \<Rightarrow> rec_world \<Rightarrow> nat \<Rightarrow> int \<Rightarrow> int" where
  "BKTMD_SearchPrevHddStartBID ev w path sec =
    (let tm = ev_local ev sec; d = rw_disks w path in
     if \<not> dk_rdb_dir d \<or> \<not> sys_ok ev 467 then BKT_ERR
     else scan_bids ev (508, 514, 521) 0 (\<lambda>b. b \<noteq> 0) (rev [0..<minute_of tm]) (rev [0..<TOTAL_MINUTES_DAY])
       (filter (\<lambda>(k, f). k \<le> day_key tm) (rev (rdb_files d))))"

definition BKTMD_SearchNextHddStartBID :: "bkt_env \<Rightarrow> rec_world \<Rightarrow> nat \<Rightarrow> int \<Rightarrow> int" where
  "BKTMD_SearchNextHddStartBID ev w nextPath sec =
    (let tm = ev_local ev sec; d = rw_disks w nextPath in
     if \<not> dk_rdb_dir d \<or> \<not> sys_ok ev 580 then BKT_ERR
     else scan_bids ev (621, 627, 634) 0 (\<lambda>b. b \<noteq> 0) [minute_of tm..<TOTAL_MINUTES_DAY] [0..<TOTAL_MINUTES_DAY]
       (filter (\<lambda>(k, f). day_key tm \<le> k) (rdb_files d)))"

text \<open>The first and the last second of a basket, from its header.\<close>

definition BKTMD_GetBasketTime :: "bkt_env \<Rightarrow> rec_world \<Rightarrow> int \<Rightarrow> bktmd \<Rightarrow> (int \<times> int) option" where
  "BKTMD_GetBasketTime ev w bid c =
    (case rd ev 1870 0 (junk ev 1856 BASKET_HDR_LEN) (h_open ev 1864 Bkt (md_target c) bid (rw_disks w)) (rw_disks w) of
       (ok, bs, h) \<Rightarrow>
         let ts = bh_ts (dec_basket_hdr bs) in
         if ok then Some (BKT_GetMinTS (bt_t1 ts), BKT_GetMaxTS (bt_t2 ts)) else None)"

definition BKTMD_SearchNextBID :: "bkt_env \<Rightarrow> rec_world \<Rightarrow> int \<Rightarrow> int \<Rightarrow> bktmd \<Rightarrow> int" where
  "BKTMD_SearchNextBID ev w curbid sec c =
    (if BKT_isRecordingBasket curbid w c then BKT_ERR
     else case BKTMD_GetBasketTime ev w curbid c of
       None \<Rightarrow> BKT_ERR
     | Some (bts, ets) \<Rightarrow>
         let tm = ev_local ev (if sec < ets then ets else sec); d = rw_disks w (md_target c) in
         if \<not> dk_rdb_dir d \<or> \<not> sys_ok ev 715 then BKT_ERR
         else scan_bids ev (755, 761, 768) 0 (\<lambda>b. b \<noteq> 0 \<and> b \<noteq> curbid) [minute_of tm + 1..<TOTAL_MINUTES_DAY] [0..<TOTAL_MINUTES_DAY]
           (filter (\<lambda>(k, f). day_key tm \<le> k) (rdb_files d)))"

definition BKTMD_SearchPrevBID :: "bkt_env \<Rightarrow> rec_world \<Rightarrow> int \<Rightarrow> int \<Rightarrow> bktmd \<Rightarrow> int" where
  "BKTMD_SearchPrevBID ev w curbid sec c =
    (case BKTMD_GetBasketTime ev w curbid c of
       None \<Rightarrow> BKT_ERR
     | Some (bts, ets) \<Rightarrow>
         let tm = ev_local ev (if bts < sec then bts else sec); d = rw_disks w (md_target c) in
         if \<not> dk_rdb_dir d \<or> \<not> sys_ok ev 844 then BKT_ERR
         else scan_bids ev (884, 890, 897) 0 (\<lambda>b. b \<noteq> 0 \<and> b \<noteq> curbid) (rev [0..<minute_of tm]) (rev [0..<TOTAL_MINUTES_DAY])
           (filter (\<lambda>(k, f). k \<le> day_key tm) (rev (rdb_files d))))"

text \<open>Whether a minute, or one after or before it, has a record.  The channel is one of the
  sixteen.\<close>

definition search_minutes :: "int \<Rightarrow> nat \<Rightarrow> nat list" where
  "search_minutes direction m = (if direction = BKT_FORWARD then [m..<TOTAL_MINUTES_DAY]
     else if direction = BKT_BACKWARD then rev [0..<Suc m] else [m])"

definition read_evts :: "bkt_env \<Rightarrow> nat \<Rightarrow> nat \<Rightarrow> rec_world \<Rightarrow> bkt_tm \<Rightarrow> bktmd \<Rightarrow> (nat \<Rightarrow> int) option" where
  "read_evts ev lo lr w tm c = (case dk_rdb (rw_disks w (md_target c)) (day_key tm) of None \<Rightarrow> None
     | Some f \<Rightarrow> if sys_ok ev lo \<and> sys_ok ev lr then rf_evts f else None)"

definition BKTMD_hasRecData :: "bkt_env \<Rightarrow> rec_world \<Rightarrow> nat \<Rightarrow> int \<Rightarrow> int \<Rightarrow> bktmd \<Rightarrow> int" where
  "BKTMD_hasRecData ev w ch sec direction c =
    (let tm = ev_local ev sec in
     case read_evts ev 959 965 w tm c of None \<Rightarrow> BKT_ERR
     | Some evts \<Rightarrow>
         if list_ex (\<lambda>i. evts (ch * TOTAL_MINUTES_DAY + i) \<noteq> 0) (search_minutes direction (minute_of tm)) then BKT_OK else BKT_ERR)"

definition BKTMD_hasRecDataAll :: "bkt_env \<Rightarrow> rec_world \<Rightarrow> int \<Rightarrow> int \<Rightarrow> bktmd \<Rightarrow> int" where
  "BKTMD_hasRecDataAll ev w sec direction c =
    (let tm = ev_local ev sec in
     case read_evts ev 1024 1030 w tm c of None \<Rightarrow> BKT_ERR
     | Some evts \<Rightarrow>
         if list_ex (\<lambda>i. list_ex (\<lambda>ch. evts (ch * TOTAL_MINUTES_DAY + i) \<noteq> 0) [0..<BKT_MAX_CHANNEL])
              (search_minutes direction (minute_of tm)) then BKT_OK else BKT_ERR)"

section \<open>Opening\<close>

definition BKTMD_OpenNext :: "bkt_env \<Rightarrow> rec_world \<Rightarrow> int \<Rightarrow> bktmd \<Rightarrow> int \<times> bktmd" where
  "BKTMD_OpenNext ev w nextbid c =
    (let ds = rw_disks w; fail = (\<lambda>c. (BKT_ERR, BKTMD_close True c));
         c0 = BKTMD_close False c;
         c1 = c0\<lparr>md_hbkt := h_open ev 259 Bkt (md_target c) nextbid ds\<rparr> in
     if md_hbkt c1 = None then fail c1
     else case rd ev 267 0 (junk ev 266 BASKET_HDR_LEN) (md_hbkt c1) ds of
       (ok, bs, hb) \<Rightarrow>
         let c2 = c1\<lparr>md_hbkt := hb\<rparr>; bhdr = dec_basket_hdr bs in
         if \<not> ok then fail c2
         else
           let c3 = c2\<lparr>md_hidx := h_open ev 276 Idx (md_target c) nextbid ds\<rparr> in
           if md_hidx c3 = None then fail c3
           else case rd ev 285 0 (junk ev 284 INDEX_HDR_LEN) (md_hidx c3) ds of
             (ok, ihs, hi) \<Rightarrow>
               let c4 = c3\<lparr>md_hidx := hi\<rparr>; ihd = dec_index_hdr ihs; sec = BKT_GetMinTS (bt_t1 (bh_ts bhdr)) in
               if \<not> ok then fail c4
               else (BKT_OK, c4\<lparr>md_bid := nextbid,
                      md_iframe_cnt := if BKT_isRecordingBasket nextbid w c4 then BKT_GetRecordingIndexCount (rw_ctrl w) else ih_count ihd,
                      md_sec := if sec = 0 then BKT_GetMinTS (bt_t1 (ih_ts ihd)) else sec,
                      md_iframe_cur := 0, md_fpos_bkt := h_tell (md_hbkt c4), md_status := BKTMD_STATUS_OPEN\<rparr>))"

text \<open>The search of the last entry of an index without a count.  Each round reads at least a
  byte, so that the length of the file bounds the rounds.\<close>

fun last_index :: "bkt_env \<Rightarrow> nat \<Rightarrow> nat \<Rightarrow> byte list \<Rightarrow> bkt_handle option \<Rightarrow> disks \<Rightarrow> int \<times> int \<Rightarrow> int \<Rightarrow> int
    \<Rightarrow> int \<times> int \<times> bkt_handle option" where
  "last_index ev 0 r old h ds prev cnt fpos = (cnt, fpos, h)"
| "last_index ev (Suc n) r old h ds (prev_sec, prev_usec) cnt fpos =
    (case rd ev 383 r old h ds of
       (ok, bs, h') \<Rightarrow>
         let idd = dec_index_data bs in
         if \<not> ok then (cnt, fpos, h')
         else if (ix_sec idd \<le> prev_sec \<and> ix_usec idd \<le> prev_usec) \<or> ix_id idd \<noteq> ID_INDEX_DATA \<or> ix_fpos idd \<le> fpos
         then (cnt, fpos, h')
         else last_index ev n (Suc r) bs h' ds (ix_sec idd, ix_usec idd) (cnt + 1) (ix_fpos idd))"

text \<open>The place in the previous basket: its last key frame.  The result is None when a call
  fails.\<close>

definition seek_last :: "bkt_env \<Rightarrow> disks \<Rightarrow> index_hdr \<Rightarrow> bktmd \<Rightarrow> bktmd option" where
  "seek_last ev ds ihd c =
    (if ih_count ihd \<noteq> 0 then
       (case seek_cur (off32 (int INDEX_DATA_LEN * (ih_count ihd - 1))) (md_hidx c) of
          (False, h) \<Rightarrow> None
        | (True, h) \<Rightarrow>
            (case rd ev 363 0 (junk ev 362 INDEX_DATA_LEN) h ds of
               (False, bs, h1) \<Rightarrow> None
             | (True, bs, h1) \<Rightarrow>
                 (case seek_set (ix_fpos (dec_index_data bs)) (md_hbkt c) of
                    (False, hb) \<Rightarrow> None
                  | (True, hb) \<Rightarrow> Some (c\<lparr>md_hidx := h1, md_hbkt := hb\<rparr>))))
     else
       (case last_index ev (case md_hidx c of None \<Rightarrow> 0 | Some h \<Rightarrow> Suc (length (file_of h ds))) 0
               (junk ev 382 INDEX_DATA_LEN) (md_hidx c) ds (0, 0) 0 0 of
          (cnt, fpos, h) \<Rightarrow>
            if cnt \<noteq> 0 then
              (case seek_set fpos (md_hbkt c) of (False, hb) \<Rightarrow> None
               | (True, hb) \<Rightarrow>
                   (case seek_set (off32 (int INDEX_DATA_LEN * cnt)) h of (False, hi) \<Rightarrow> None
                    | (True, hi) \<Rightarrow> Some (c\<lparr>md_hbkt := hb, md_hidx := hi\<rparr>)))
            else
              (case seek_end 0 (md_hbkt c) ds of (False, hb) \<Rightarrow> None
               | (True, hb) \<Rightarrow>
                   (case seek_end (- int INDEX_DATA_LEN) h ds of (False, hi) \<Rightarrow> None
                    | (True, hi) \<Rightarrow> Some (c\<lparr>md_hbkt := hb, md_hidx := hi\<rparr>)))))"

definition BKTMD_OpenPrev :: "bkt_env \<Rightarrow> rec_world \<Rightarrow> int \<Rightarrow> bktmd \<Rightarrow> int \<times> bktmd" where
  "BKTMD_OpenPrev ev w prevbid c =
    (let ds = rw_disks w; fail = (\<lambda>c. (BKT_ERR, BKTMD_close True c));
         c0 = BKTMD_close False c;
         c1 = c0\<lparr>md_hbkt := h_open ev 321 Bkt (md_target c) prevbid ds\<rparr> in
     if md_hbkt c1 = None then fail c1
     else case rd ev 329 0 (junk ev 328 BASKET_HDR_LEN) (md_hbkt c1) ds of
       (ok, bs, hb) \<Rightarrow>
         let c2 = c1\<lparr>md_hbkt := hb\<rparr>; bhdr = dec_basket_hdr bs in
         if \<not> ok then fail c2
         else
           let c3 = c2\<lparr>md_hidx := h_open ev 338 Idx (md_target c) prevbid ds\<rparr> in
           if md_hidx c3 = None then fail c3
           else case rd ev 346 0 (junk ev 345 INDEX_HDR_LEN) (md_hidx c3) ds of
             (ok, ihs, hi) \<Rightarrow>
               let c4 = c3\<lparr>md_hidx := hi\<rparr>; ihd = dec_index_hdr ihs in
               if \<not> ok then fail c4
               else case seek_last ev ds ihd c4 of
                 None \<Rightarrow> fail c4
               | Some c5 \<Rightarrow>
                   let cnt = (if BKT_isRecordingBasket prevbid w c5 then BKT_GetRecordingIndexCount (rw_ctrl w) else ih_count ihd);
                       sec = BKT_GetMaxTS (bt_t2 (bh_ts bhdr))
                   in (BKT_OK, c5\<lparr>md_bid := prevbid, md_iframe_cnt := cnt,
                         md_sec := if sec = 0 then BKT_GetMaxTS (bt_t2 (ih_ts ihd)) else sec,
                         md_iframe_cur := cnt - 1, md_fpos_bkt := h_tell (md_hbkt c5)\<rparr>))"

text \<open>The basket and the index position of the first minute with a record, over the
  channels of a minute and the minutes; the loop over the channels ends at a record of
  another basket.\<close>

record md_open_param =
  op_openbid :: int
  op_openfpos :: int
  op_withAudio :: int
  op_sec :: int
  op_usec :: int
  op_firstCh :: int
  op_recChannelCount :: int
  op_recChannels :: "int list"
  op_frameWidth :: int
  op_frameHeight :: int
  op_capMode :: int

fun open_chs :: "(nat \<Rightarrow> int) \<Rightarrow> (nat \<Rightarrow> int \<times> int) \<Rightarrow> nat \<Rightarrow> nat list \<Rightarrow> int \<times> int \<Rightarrow> md_open_param
    \<Rightarrow> (int \<times> int) \<times> md_open_param" where
  "open_chs evts rdbs i [] rdb pOP = (rdb, pOP)"
| "open_chs evts rdbs i (ch # chs) (bid, pos) pOP =
    (let cell = rdbs (TOTAL_MINUTES_DAY * ch + i);
         pOP1 = pOP\<lparr>op_recChannelCount := op_recChannelCount pOP + 1, op_recChannels := (op_recChannels pOP)[ch := 1]\<rparr> in
     if evts (TOTAL_MINUTES_DAY * ch + i) \<noteq> 0 \<and> fst cell \<noteq> 0 then
       if bid = 0 then open_chs evts rdbs i chs cell pOP1
       else if bid \<noteq> fst cell then ((bid, pos), pOP)
       else open_chs evts rdbs i chs (bid, min pos (snd cell)) pOP1
     else open_chs evts rdbs i chs (bid, pos) pOP)"

fun open_scan :: "(nat \<Rightarrow> int) \<Rightarrow> (nat \<Rightarrow> int \<times> int) \<Rightarrow> nat list \<Rightarrow> md_open_param \<Rightarrow> (int \<times> int) \<times> md_open_param" where
  "open_scan evts rdbs [] pOP = ((0, 0), pOP)"
| "open_scan evts rdbs (i # is) pOP =
    (case open_chs evts rdbs i [0..<BKT_MAX_CHANNEL] (0, 0) pOP of
       (rdb, pOP1) \<Rightarrow> if fst rdb \<noteq> 0 then (rdb, pOP1) else open_scan evts rdbs is pOP1)"

text \<open>The resolution of the frame at the current position; None: not a video frame.\<close>

definition BKTMD_GetRelsolutionFromVHDR :: "bkt_env \<Rightarrow> rec_world \<Rightarrow> bktmd \<Rightarrow> (stream_hdr \<times> video_hdr) option \<times> bktmd" where
  "BKTMD_GetRelsolutionFromVHDR ev w c =
    (let cur = h_tell (md_hbkt c) in
     case rd ev 2057 0 (junk ev 2053 STREAM_HDR_LEN) (md_hbkt c) (rw_disks w) of
       (ok, bs, h1) \<Rightarrow>
         let shd = dec_stream_hdr bs in
         if \<not> ok \<or> sh_id shd \<noteq> ID_VIDEO_HEADER then (None, c\<lparr>md_hbkt := h1\<rparr>)
         else case rd ev 2074 0 (junk ev 2054 VIDEO_HDR_LEN) h1 (rw_disks w) of
           (ok, vs, h2) \<Rightarrow>
             if \<not> ok then (None, c\<lparr>md_hbkt := h2\<rparr>)
             else case seek_set cur h2 of
               (ok, h3) \<Rightarrow> (if ok then Some (shd, dec_video_hdr vs) else None, c\<lparr>md_hbkt := h3\<rparr>))"

definition BKTMD_Open :: "bkt_env \<Rightarrow> rec_world \<Rightarrow> int \<Rightarrow> md_open_param \<Rightarrow> bktmd \<Rightarrow> (int \<times> md_open_param) \<times> bktmd" where
  "BKTMD_Open ev w sec pOP c =
    (let ds = rw_disks w; tm = ev_local ev sec; c0 = BKTMD_close True c in
     case dk_rdb (ds (md_target c)) (day_key tm) of
       None \<Rightarrow> ((BKT_ERR, pOP), c0)
     | Some f \<Rightarrow>
         (case (rf_evts f, rf_rdbs f) of
            (Some evts, Some rdbs) \<Rightarrow>
              if \<not> sys_ok ev 82 \<or> \<not> sys_ok ev 89 \<or> \<not> sys_ok ev 97 then ((BKT_ERR, pOP), c0)
              else case open_scan evts rdbs [minute_of tm..<TOTAL_MINUTES_DAY] pOP of
                ((bid, idx_pos), pOP1) \<Rightarrow>
                  let fail = (\<lambda>c. ((BKT_ERR, pOP1), BKTMD_close True c)); c1 = c0\<lparr>md_hbkt := h_open ev 155 Bkt (md_target c) bid ds\<rparr> in
                  if bid = 0 then ((BKT_ERR, pOP1), c0)
                  else if md_hbkt c1 = None then ((BKT_ERR, pOP1), c1)
                  else
                    let c2 = c1\<lparr>md_hidx := h_open ev 164 Idx (md_target c) bid ds\<rparr> in
                    if md_hidx c2 = None then ((BKT_ERR, pOP1), c2\<lparr>md_hbkt := None\<rparr>)
                    else case rd ev 173 0 (junk ev 172 INDEX_HDR_LEN) (md_hidx c2) ds of
                      (ok, ihs, h1) \<Rightarrow>
                        if \<not> ok then fail c2
                        else case seek_set idx_pos h1 of
                          (False, h2) \<Rightarrow> fail c2
                        | (True, h2) \<Rightarrow>
                            (case rd ev 192 0 (junk ev 189 INDEX_DATA_LEN) h2 ds of
                               (ok, xs, h3) \<Rightarrow>
                                 let ihd = dec_index_hdr ihs; idd = dec_index_data xs; pos = h_tell h3 - int INDEX_DATA_LEN;
                                     c3 = c2\<lparr>md_hidx := h3,
                                        md_iframe_cnt := if BKT_isRecordingBasket bid w c2 then BKT_GetRecordingIndexCount (rw_ctrl w) else ih_count ihd,
                                        md_iframe_cur := BKT_transIndexPosToNum pos\<rparr> in
                                 if \<not> ok then fail c2
                                 else case seek_set (ix_fpos idd) (md_hbkt c3) of
                                   (False, hb) \<Rightarrow> fail c3
                                 | (True, hb) \<Rightarrow>
                                     (case BKTMD_GetRelsolutionFromVHDR ev w (c3\<lparr>md_hbkt := hb\<rparr>) of
                                        (None, c4) \<Rightarrow> fail c4
                                      | (Some (shd, vhd), c4) \<Rightarrow>
                                          let pOP2 = pOP1\<lparr>op_firstCh := sh_ch shd, op_frameWidth := vh_width vhd, op_frameHeight := vh_height vhd,
                                                op_withAudio := vh_audioONOFF vhd, op_capMode := vh_capMode vhd\<rparr> in
                                          case seek_set pos (md_hidx c4) of
                                            (False, hi) \<Rightarrow> ((BKT_ERR, pOP2), BKTMD_close True c4)
                                          | (True, hi) \<Rightarrow>
                                              ((BKT_OK, pOP2\<lparr>op_openbid := bid, op_openfpos := ix_fpos idd, op_sec := ix_sec idd, op_usec := ix_usec idd\<rparr>),
                                               c4\<lparr>md_hidx := hi, md_bid := bid, md_sec := ix_sec idd, md_fpos_bkt := ix_fpos idd,
                                                  md_status := BKTMD_STATUS_OPEN\<rparr>)))
          | _ \<Rightarrow> ((BKT_ERR, pOP), c0)))"

definition BKTMD_SeekBidFpos :: "bkt_env \<Rightarrow> rec_world \<Rightarrow> int \<Rightarrow> int \<Rightarrow> bktmd \<Rightarrow> int \<times> bktmd" where
  "BKTMD_SeekBidFpos ev w bid fpos c =
    (case (if bid \<noteq> 0 \<and> bid \<noteq> md_bid c then BKTMD_OpenNext ev w bid c else (BKT_OK, c)) of
       (st, c1) \<Rightarrow>
         if st = BKT_ERR then (BKT_ERR, c1)
         else if fpos = 0 then (BKT_ERR, c1)
         else case seek_set fpos (md_hbkt c1) of (ok, h) \<Rightarrow> (if ok then BKT_OK else BKT_ERR, c1\<lparr>md_hbkt := h\<rparr>))"

section \<open>Frames\<close>

text \<open>Reading \<open>n\<close> bytes into the buffer of the caller.  None: more bytes arrive than the
  buffer holds.\<close>

definition read_data :: "bkt_env \<Rightarrow> nat \<Rightarrow> nat \<Rightarrow> int \<Rightarrow> rec_world \<Rightarrow> player \<Rightarrow> (bool \<times> player) option" where
  "read_data ev l r n w p =
    (case h_read (ev_io ev l r) (nat n) (md_hbkt (pl_md p)) (rw_disks w) of
       (bs, h) \<Rightarrow>
         if length bs > length (mp_vbuffer (pl_dp p)) then None
         else Some (bs \<noteq> [], p\<lparr>pl_md := (pl_md p)\<lparr>md_hbkt := h\<rparr>,
                pl_dp := (pl_dp p)\<lparr>mp_vbuffer := bs @ drop (length bs) (mp_vbuffer (pl_dp p))\<rparr>\<rparr>))"

text \<open>The members of the parameter after a video frame.\<close>

definition show_video :: "stream_hdr \<Rightarrow> video_hdr \<Rightarrow> md_param \<Rightarrow> md_param" where
  "show_video shd vhd dp = dp\<lparr>mp_streamtype := ST_VIDEO, mp_ch := sh_ch shd, mp_framesize := sh_framesize shd, mp_frametype := sh_frametype shd,
     mp_sec := sh_sec shd, mp_usec := sh_usec shd, mp_framerate := vh_framerate vhd, mp_frameWidth := vh_width vhd,
     mp_frameHeight := vh_height vhd, mp_event := vh_event vhd, mp_audioONOFF := vh_audioONOFF vhd, mp_capMode := vh_capMode vhd,
     mp_camName := if hd (vh_camName vhd) \<noteq> 0 then name16 (vh_camName vhd) else mp_camName dp\<rparr>"

definition at_frame :: "stream_hdr \<Rightarrow> player \<Rightarrow> player" where
  "at_frame shd p = upd_md (\<lambda>c. c\<lparr>md_sec := sh_sec shd, md_fpos_bkt := h_tell (md_hbkt c)\<rparr>) p"

definition set_place :: "player \<Rightarrow> player" where
  "set_place p = p\<lparr>pl_dp := (pl_dp p)\<lparr>mp_bktId := md_bid (pl_md p), mp_fpos_bkt := md_fpos_bkt (pl_md p)\<rparr>\<rparr>"

definition channel_on :: "int list \<Rightarrow> int \<Rightarrow> bool option" where
  "channel_on decflags ch = (if 0 \<le> ch \<and> ch < int (length decflags) then Some (decflags ! nat ch = 1) else None)"

datatype loop_end = Go | Break | Return int

text \<open>One round of the loop of \<open>BKTMD_ReadNextFrame\<close>, with what the stream header holds.\<close>

definition video_round :: "bkt_env \<Rightarrow> nat \<Rightarrow> rec_world \<Rightarrow> int list \<Rightarrow> stream_hdr \<Rightarrow> player \<Rightarrow> (loop_end \<times> player) option" where
  "video_round ev r w decflags shd p =
    (case channel_on decflags (sh_ch shd) of
       None \<Rightarrow> None
     | Some True \<Rightarrow>
         if sh_sec shd - md_sec (pl_md p) > 4 \<or> sh_sec shd - md_sec (pl_md p) < 0 then Some (Break, p)
         else (case rd ev 1309 r (junk ev 1286 VIDEO_HDR_LEN) (md_hbkt (pl_md p)) (rw_disks w) of
           (ok, vs, h) \<Rightarrow>
             let p1 = upd_md (\<lambda>c. c\<lparr>md_hbkt := h\<rparr>) p in
             if \<not> ok then Some (Break, p1)
             else case read_data ev 1315 r (sh_framesize shd) w p1 of
               None \<Rightarrow> None
             | Some (False, p2) \<Rightarrow> Some (Break, p2)
             | Some (True, p2) \<Rightarrow>
                 let p3 = at_frame shd (p2\<lparr>pl_dp := show_video shd (dec_video_hdr vs) (pl_dp p2)\<rparr>);
                     p4 = (if sh_frametype shd = FT_IFRAME
                       then upd_md (\<lambda>c. c\<lparr>md_iframe_cur := md_iframe_cur c + 1,
                              md_iframe_cnt := if BKT_isRecordingBasket (md_bid c) w c then BKT_GetRecordingIndexCount (rw_ctrl w) else md_iframe_cnt c\<rparr>) p3
                       else p3)
                 in Some (Return BKT_OK, set_place p4))
     | Some False \<Rightarrow>
         (case seek_cur (int VIDEO_HDR_LEN + sh_framesize shd) (md_hbkt (pl_md p)) of
            (ok, h) \<Rightarrow>
              if \<not> ok then Some (Break, p)
              else Some (Go, upd_md (\<lambda>c. c\<lparr>md_hbkt := h, md_fpos_bkt := h_tell h\<rparr>) p)))"

definition audio_round :: "bkt_env \<Rightarrow> nat \<Rightarrow> rec_world \<Rightarrow> stream_hdr \<Rightarrow> player \<Rightarrow> (loop_end \<times> player) option" where
  "audio_round ev r w shd p =
    (if mp_focusChannel (pl_dp p) \<noteq> sh_ch shd then
       (case seek_cur (int AUDIO_HDR_LEN + sh_framesize shd) (md_hbkt (pl_md p)) of
          (ok, h) \<Rightarrow>
            if \<not> ok then Some (Break, p)
            else Some (Go, upd_md (\<lambda>c. c\<lparr>md_hbkt := h, md_fpos_bkt := h_tell h\<rparr>) p))
     else (case rd ev 1382 r (junk ev 1287 AUDIO_HDR_LEN) (md_hbkt (pl_md p)) (rw_disks w) of
       (ok, ahs, h) \<Rightarrow>
         let p1 = upd_md (\<lambda>c. c\<lparr>md_hbkt := h\<rparr>) p in
         if \<not> ok then Some (Return BKT_ERR, p1)
         else case read_data ev 1388 r (sh_framesize shd) w p1 of
           None \<Rightarrow> None
         | Some (False, p2) \<Rightarrow> Some (Return BKT_ERR, p2)
         | Some (True, p2) \<Rightarrow>
             Some (Return BKT_OK, at_frame shd (p2\<lparr>pl_dp := (pl_dp p2)\<lparr>mp_ch := sh_ch shd, mp_sec := sh_sec shd, mp_usec := sh_usec shd,
               mp_streamtype := ST_AUDIO, mp_framesize := sh_framesize shd, mp_samplingrate := ah_samplingrate (dec_audio_hdr ahs)\<rparr>\<rparr>))))"

definition frame_round :: "bkt_env \<Rightarrow> nat \<Rightarrow> rec_world \<Rightarrow> int list \<Rightarrow> byte list \<Rightarrow> player \<Rightarrow> (loop_end \<times> byte list \<times> player) option" where
  "frame_round ev r w decflags old p =
    (case rd ev 1292 r old (md_hbkt (pl_md p)) (rw_disks w) of
       (ok, bs, h) \<Rightarrow>
         let p1 = upd_md (\<lambda>c. c\<lparr>md_hbkt := h\<rparr>) p; shd = dec_stream_hdr bs in
         if \<not> ok then Some (Break, bs, p1)
         else if sh_id shd = ID_VIDEO_HEADER then map_option (\<lambda>(e, p2). (e, bs, p2)) (video_round ev r w decflags shd p1)
         else if sh_id shd = ID_AUDIO_HEADER then map_option (\<lambda>(e, p2). (e, bs, p2)) (audio_round ev r w shd p1)
         else Some (Break, bs, p1))"

text \<open>The loop: None when it does not end, or leaves an array.  The result is what it returns,
  or None when it is left, and the last stream header.\<close>

partial_function (option) frame_loop ::
  "bkt_env \<Rightarrow> nat \<Rightarrow> rec_world \<Rightarrow> int list \<Rightarrow> byte list \<Rightarrow> player \<Rightarrow> (int option \<times> byte list \<times> player) option" where
  "frame_loop ev r w decflags old p =
    (if md_status (pl_md p) \<noteq> BKTMD_STATUS_OPEN then Some (None, old, p)
     else Option.bind (frame_round ev r w decflags old p) (\<lambda>(e, bs, p1).
       case e of Go \<Rightarrow> frame_loop ev (Suc r) w decflags bs p1
       | Break \<Rightarrow> Some (None, bs, p1)
       | Return st \<Rightarrow> Some (Some st, bs, p1)))"

section \<open>Key frames\<close>

text \<open>The target disk of playing: the first basket on it from the current second on.\<close>

definition BKTMD_setTargetDisk :: "bkt_env \<Rightarrow> rec_world \<Rightarrow> nat \<Rightarrow> bktmd \<Rightarrow> int \<times> bktmd" where
  "BKTMD_setTargetDisk ev w hddid c =
    (let info = mi_hddInfo (rw_mount w) ! hddid; path = hi_mountDiskPath info;
         c1 = c\<lparr>md_curhdd := hddid, md_nexthdd := hi_nextHddIdx info\<rparr>;
         firstBid = BKTMD_SearchNextHddStartBID ev w path (md_sec c1) in
     if firstBid = BKT_ERR then (BKT_ERR, c1)
     else case dk_mgr (rw_disks w path) of None \<Rightarrow> (BKT_ERR, c1)
     | Some m \<Rightarrow>
         if \<not> sys_ok ev 1912 \<or> \<not> sys_ok ev 1918 then (BKT_ERR, c1)
         else (firstBid, c1\<lparr>md_bktcnt := mf_bkt_count m, md_target := path\<rparr>))"

partial_function (option) next_hdd :: "bkt_env \<Rightarrow> rec_world \<Rightarrow> nat \<Rightarrow> bktmd \<Rightarrow> (int \<times> bktmd) option" where
  "next_hdd ev w oldHddidx c =
    (case BKTMD_setTargetDisk ev w (md_nexthdd c) c of
       (nextbid, c1) \<Rightarrow>
         if nextbid \<noteq> BKT_ERR then Some (nextbid, c1)
         else if md_nexthdd c1 = oldHddidx then next_hdd ev w oldHddidx c1
         else Some (nextbid, c1))"

text \<open>To the next key frame: of this basket, or of the next one.\<close>

definition next_index :: "bkt_env \<Rightarrow> rec_world \<Rightarrow> bktmd \<Rightarrow> (int \<times> bktmd) option" where
  "next_index ev w c =
    (let c1 = (if BKT_isRecordingBasket (md_bid c) w c then c\<lparr>md_iframe_cnt := BKT_GetRecordingIndexCount (rw_ctrl w)\<rparr> else c) in
     if md_iframe_cur c1 + 1 \<ge> md_iframe_cnt c1 then
       let nextbid = BKTMD_SearchNextBID ev w (md_bid c1) (md_sec c1) c1; open_next = (\<lambda>(b, c). BKTMD_OpenNext ev w b c) in
       if mi_hddCnt (rw_mount w) = 1 \<and> nextbid = BKT_ERR then Some (BKT_ERR, c1)
       else if mi_hddCnt (rw_mount w) > 1 \<and> md_bktcnt c1 = md_bid c1 then
         Option.bind (next_hdd ev w (md_curhdd c1) c1) (\<lambda>(b, c2). if b = BKT_ERR then Some (BKT_ERR, c2) else Some (open_next (b, c2)))
       else Some (open_next (nextbid, c1))
     else Some (BKT_OK, c1\<lparr>md_iframe_cur := md_iframe_cur c1 + 1\<rparr>))"

text \<open>The video frame at the current place; the lines are those of the three reads.\<close>

definition read_video :: "bkt_env \<Rightarrow> nat \<times> nat \<times> nat \<Rightarrow> rec_world \<Rightarrow> int list \<Rightarrow> byte list \<Rightarrow> byte list \<Rightarrow> player \<Rightarrow> (bool \<times> player) option" where
  "read_video ev lines w decflags old vold p =
    (case lines of (lh, lv, ld) \<Rightarrow>
     case rd ev lh 0 old (md_hbkt (pl_md p)) (rw_disks w) of
       (ok, bs, h) \<Rightarrow>
         let p1 = upd_md (\<lambda>c. c\<lparr>md_hbkt := h\<rparr>) p; shd = dec_stream_hdr bs in
         if \<not> ok \<or> sh_id shd \<noteq> ID_VIDEO_HEADER then Some (False, p1)
         else case channel_on decflags (sh_ch shd) of
           None \<Rightarrow> None
         | Some False \<Rightarrow> Some (False, p1)
         | Some True \<Rightarrow>
             (case rd ev lv 0 vold h (rw_disks w) of
                (ok, vs, h2) \<Rightarrow>
                  let p2 = upd_md (\<lambda>c. c\<lparr>md_hbkt := h2\<rparr>) p1 in
                  if \<not> ok then Some (False, p2)
                  else case read_data ev ld 0 (sh_framesize shd) w p2 of
                    None \<Rightarrow> None
                  | Some (False, p3) \<Rightarrow> Some (False, p3)
                  | Some (True, p3) \<Rightarrow>
                      Some (True, set_place (at_frame shd (p3\<lparr>pl_dp := (show_video shd (dec_video_hdr vs) (pl_dp p3))\<lparr>mp_fpos := 1\<rparr>\<rparr>)))))"

text \<open>The entry of the index at the current key frame.\<close>

definition seek_index :: "bktmd \<Rightarrow> bool \<times> bktmd" where
  "seek_index c = (case seek_set (off32 (BKT_transIndexNumToPos (md_iframe_cur c))) (md_hidx c) of (ok, h) \<Rightarrow> (ok, c\<lparr>md_hidx := h\<rparr>))"

partial_function (option) BKTMD_ReadNextIFrame :: "bkt_env \<Rightarrow> rec_world \<Rightarrow> int list \<Rightarrow> player \<Rightarrow> (int \<times> player) option" where
  "BKTMD_ReadNextIFrame ev w decflags p =
    Option.bind (next_index ev w (pl_md p)) (\<lambda>(st, c1).
      if st = BKT_ERR then Some (BKT_ERR, p\<lparr>pl_md := c1\<rparr>)
      else case seek_index c1 of (ok, c2) \<Rightarrow>
        if \<not> ok then Some (BKT_ERR, p\<lparr>pl_md := c2\<rparr>)
        else if md_status c2 \<noteq> BKTMD_STATUS_OPEN then BKTMD_ReadNextIFrame ev w decflags (p\<lparr>pl_md := c2\<rparr>)
        else case rd ev 1636 0 (junk ev 1630 INDEX_DATA_LEN) (md_hidx c2) (rw_disks w) of (ok, xs, hi) \<Rightarrow>
          let c3 = c2\<lparr>md_hidx := hi\<rparr>; idd = dec_index_data xs in
          case seek_set (ix_fpos idd) (md_hbkt c3) of (sk, hb) \<Rightarrow>
            if \<not> ok \<or> ix_fpos idd < md_fpos_bkt c3 \<or> \<not> sk then BKTMD_ReadNextIFrame ev w decflags (p\<lparr>pl_md := c3\<rparr>)
            else Option.bind (read_video ev (1643, 1649, 1651) w decflags (junk ev 1631 STREAM_HDR_LEN) (junk ev 1632 VIDEO_HDR_LEN)
                   (p\<lparr>pl_md := c3\<lparr>md_hbkt := hb\<rparr>\<rparr>)) (\<lambda>(done, p1).
                 if done then Some (BKT_OK, p1) else BKTMD_ReadNextIFrame ev w decflags p1))"

definition BKTMD_ReadNextFirstFrame :: "bkt_env \<Rightarrow> rec_world \<Rightarrow> int list \<Rightarrow> player \<Rightarrow> (int \<times> player) option" where
  "BKTMD_ReadNextFirstFrame ev w decflags p =
    Option.bind (next_index ev w (pl_md p)) (\<lambda>(st, c1).
      if st = BKT_ERR then Some (BKT_ERR, p\<lparr>pl_md := c1\<rparr>)
      else case seek_index c1 of (ok, c2) \<Rightarrow>
        if \<not> ok then Some (BKT_ERR, p\<lparr>pl_md := c2\<rparr>)
        else if md_status c2 \<noteq> BKTMD_STATUS_OPEN then BKTMD_ReadNextIFrame ev w decflags (p\<lparr>pl_md := c2\<rparr>)
        else case rd ev 1495 0 (junk ev 1489 INDEX_DATA_LEN) (md_hidx c2) (rw_disks w) of (ok, xs, hi) \<Rightarrow>
          let p1 = p\<lparr>pl_md := c2\<lparr>md_hidx := hi\<rparr>\<rparr> in
          if \<not> ok then BKTMD_ReadNextIFrame ev w decflags p1
          else Option.bind (read_video ev (1497, 1503, 1505) w decflags (junk ev 1490 STREAM_HDR_LEN) (junk ev 1491 VIDEO_HDR_LEN) p1)
            (\<lambda>(done, p2). if done then Some (BKT_OK, p2) else BKTMD_ReadNextIFrame ev w decflags p2))"

definition BKTMD_ReadNextFrame :: "bkt_env \<Rightarrow> rec_world \<Rightarrow> int list \<Rightarrow> player \<Rightarrow> (int \<times> player) option" where
  "BKTMD_ReadNextFrame ev w decflags p =
    Option.bind (frame_loop ev 0 w decflags (junk ev 1285 STREAM_HDR_LEN) p) (\<lambda>(ret, bs, p1).
      case ret of Some st \<Rightarrow> Some (st, p1)
      | None \<Rightarrow>
          if sh_id (dec_stream_hdr bs) = ID_BASKET_END then BKTMD_ReadNextFirstFrame ev w decflags p1
          else BKTMD_ReadNextIFrame ev w decflags p1)"

text \<open>The loop of \<open>BKTMD_ReadPrevIFrame\<close>, with what the structures hold.\<close>

partial_function (option) prev_loop :: "bkt_env \<Rightarrow> rec_world \<Rightarrow> int list \<Rightarrow> player \<Rightarrow> (int \<times> player) option" where
  "prev_loop ev w decflags p =
    (if md_status (pl_md p) \<noteq> BKTMD_STATUS_OPEN then Some (BKT_ERR, p)
     else
       let c = pl_md p; prevbid = BKTMD_SearchPrevBID ev w (md_bid c) (md_sec c) c in
       case (if md_iframe_cur c - 1 < 0 then (if prevbid = BKT_ERR then (BKT_ERR, c) else BKTMD_OpenPrev ev w prevbid c)
             else (BKT_OK, c\<lparr>md_iframe_cur := md_iframe_cur c - 1\<rparr>)) of
         (st, c1) \<Rightarrow>
           if st = BKT_ERR then Some (BKT_ERR, p\<lparr>pl_md := c1\<rparr>)
           else case seek_index c1 of (ok, c2) \<Rightarrow>
             if \<not> ok then Some (BKT_ERR, p\<lparr>pl_md := c2\<rparr>)
             else case rd ev 1757 0 (junk ev 1728 INDEX_DATA_LEN) (md_hidx c2) (rw_disks w) of (ok, xs, hi) \<Rightarrow>
               let c3 = c2\<lparr>md_hidx := hi\<rparr>; idd = dec_index_data xs in
               if \<not> ok then prev_loop ev w decflags (p\<lparr>pl_md := c3\<rparr>)
               else case seek_set (ix_fpos idd) (md_hbkt c3) of (sk, hb) \<Rightarrow>
                 if \<not> sk then prev_loop ev w decflags (p\<lparr>pl_md := c3\<rparr>)
                 else Option.bind (read_video ev (1772, 1787, 1792) w decflags (junk ev 1729 STREAM_HDR_LEN) (junk ev 1730 VIDEO_HDR_LEN)
                        (p\<lparr>pl_md := c3\<lparr>md_hbkt := hb\<rparr>\<rparr>)) (\<lambda>(done, p1).
                      if done then Some (BKT_OK, p1) else prev_loop ev w decflags p1))"

definition BKTMD_ReadPrevIFrame :: "bkt_env \<Rightarrow> rec_world \<Rightarrow> int list \<Rightarrow> player \<Rightarrow> (int \<times> player) option" where
  "BKTMD_ReadPrevIFrame = prev_loop"

end
