(* ===== verification/Basket_Replay.thy ===== *)
theory Basket_Replay
  imports Basket_Log Basket_Play
begin

text \<open>What the player delivers from a basket that the recorder has written: the frames of
  the chosen channels, in the order of recording.\<close>

section \<open>Reading at a position\<close>

text \<open>A handle on a file, before some bytes.\<close>

definition before :: "disks \<Rightarrow> bkt_handle option \<Rightarrow> fkind \<Rightarrow> nat \<Rightarrow> int \<Rightarrow> nat \<Rightarrow> byte list \<Rightarrow> bool" where
  "before ds h k d b pos bs \<longleftrightarrow> h = Some \<lparr>hd_kind = k, hd_disk = d, hd_bid = b, hd_pos = pos\<rparr>
     \<and> (\<exists>f rest. the_file ds k d b = Some f \<and> pos \<le> length f \<and> drop pos f = bs @ rest)"

lemma before_tell: "before ds h k d b pos bs \<Longrightarrow> h_tell h = int pos"
  by (auto simp: before_def h_tell_def)

lemma before_prefix:
  assumes "before ds h k d b pos (xs @ ys)"
  shows "before ds h k d b pos xs"
  using assms by (auto simp: before_def)

text \<open>The handle after the first of two parts.\<close>

lemma before_skip:
  assumes "before ds h k d b pos (xs @ ys)"
  shows "before ds (Some \<lparr>hd_kind = k, hd_disk = d, hd_bid = b, hd_pos = pos + length xs\<rparr>) k d b (pos + length xs) ys"
proof -
  obtain f rest where f: "the_file ds k d b = Some f" "pos \<le> length f" "drop pos f = (xs @ ys) @ rest"
    using assms by (auto simp: before_def)
  have "drop (pos + length xs) f = ys @ rest"
    using f(3) by (metis append.assoc append_eq_conv_conj drop_drop add.commute)
  moreover have "pos + length xs \<le> length f"
    using arg_cong [OF f(3), of length] f(2) by simp
  ultimately show ?thesis using f(1) by (simp add: before_def)
qed

lemma h_read_before:
  assumes "before ds h k d b pos (xs @ ys)"
  shows "h_read None (length xs) h ds = (xs, Some \<lparr>hd_kind = k, hd_disk = d, hd_bid = b, hd_pos = pos + length xs\<rparr>)"
proof -
  obtain f rest where f: "the_file ds k d b = Some f" "drop pos f = (xs @ ys) @ rest"
      and h: "h = Some \<lparr>hd_kind = k, hd_disk = d, hd_bid = b, hd_pos = pos\<rparr>"
    using assms by (auto simp: before_def)
  have "get_bytes pos (length xs) f = xs" unfolding get_bytes_def f(2) by simp
  then show ?thesis using f(1) by (simp add: h_read_def h file_of_def Let_def)
qed

lemma rd_before:
  assumes "healthy ev" "before ds h k d b pos (xs @ ys)" "length old = length xs" "xs \<noteq> []"
  shows "rd ev l r old h ds = (True, xs, Some \<lparr>hd_kind = k, hd_disk = d, hd_bid = b, hd_pos = pos + length xs\<rparr>)"
  using h_read_before [OF assms(2)] assms(1,3,4) by (simp add: rd_def)

lemma seek_cur_before:
  assumes "before ds h k d b pos bs"
  shows "seek_cur (int n) h = (True, Some \<lparr>hd_kind = k, hd_disk = d, hd_bid = b, hd_pos = pos + n\<rparr>)"
  using assms by (simp add: before_def seek_cur_def seek_set_def h_seek_def nat_add_distrib)

lemma seek_set_int: "seek_set (int n) (Some fh) = (True, Some (fh\<lparr>hd_pos := n\<rparr>))"
  by (simp add: seek_set_def h_seek_def)

lemma length_junk [simp]: "length (junk ev l n) = n"
  by (simp add: junk_def)

lemma item_ok_stream: "item_ok (Vid sh vh pl) \<Longrightarrow> stream_hdr_ok sh" "item_ok (Aud sh ah pl) \<Longrightarrow> stream_hdr_ok sh" "item_ok (End sh) \<Longrightarrow> stream_hdr_ok sh"
  by simp_all

lemma length_stream_enc: "stream_hdr_ok sh \<Longrightarrow> length (enc_stream_hdr sh) = STREAM_HDR_LEN"
  by (simp add: stream_hdr_ok_def)

lemma dec_stream_enc: "stream_hdr_ok sh \<Longrightarrow> dec_stream_hdr (enc_stream_hdr sh) = sh"
  using dec_enc_stream_hdr [of sh "[]"] by simp

lemma enc_stream_ne: "stream_hdr_ok sh \<Longrightarrow> enc_stream_hdr sh \<noteq> []"
  using length_stream_enc [of sh] by (auto simp: STREAM_HDR_LEN_def)

lemma video_enc:
  assumes "video_hdr_ok vh"
  shows "length (enc_video_hdr vh) = VIDEO_HDR_LEN" "dec_video_hdr (enc_video_hdr vh) = vh" "enc_video_hdr vh \<noteq> []"
proof -
  show l: "length (enc_video_hdr vh) = VIDEO_HDR_LEN" using assms by (simp add: video_hdr_ok_def)
  show "dec_video_hdr (enc_video_hdr vh) = vh" using dec_enc_video_hdr [OF assms, of "[]"] by simp
  show "enc_video_hdr vh \<noteq> []" using l by (intro notI) (simp add: VIDEO_HDR_LEN_def)
qed

lemma audio_enc:
  assumes "audio_hdr_ok ah"
  shows "length (enc_audio_hdr ah) = AUDIO_HDR_LEN" "dec_audio_hdr (enc_audio_hdr ah) = ah" "enc_audio_hdr ah \<noteq> []"
proof -
  show l: "length (enc_audio_hdr ah) = AUDIO_HDR_LEN" by simp
  show "dec_audio_hdr (enc_audio_hdr ah) = ah" using dec_enc_audio_hdr [OF assms, of "[]"] by simp
  show "enc_audio_hdr ah \<noteq> []" using l by (intro notI) (simp add: AUDIO_HDR_LEN_def)
qed

section \<open>One item\<close>

text \<open>Which items are delivered, and what the caller then sees: the fields of the headers (of the
  name of the camera, if it is not empty) and the bytes.\<close>

fun shown :: "int list \<Rightarrow> int \<Rightarrow> item \<Rightarrow> bool" where
  "shown decflags focus (Vid sh vh pl) \<longleftrightarrow> decflags ! nat (sh_ch sh) = 1"
| "shown decflags focus (Aud sh ah pl) \<longleftrightarrow> sh_ch sh = focus"
| "shown decflags focus (End sh) \<longleftrightarrow> False"

fun delivers :: "item \<Rightarrow> md_param \<Rightarrow> bool" where
  "delivers (Vid sh vh pl) dp \<longleftrightarrow> mp_streamtype dp = ST_VIDEO \<and> mp_ch dp = sh_ch sh \<and> mp_framesize dp = int (length pl)
     \<and> mp_frametype dp = sh_frametype sh \<and> mp_sec dp = sh_sec sh \<and> mp_usec dp = sh_usec sh \<and> mp_framerate dp = vh_framerate vh
     \<and> mp_frameWidth dp = vh_width vh \<and> mp_frameHeight dp = vh_height vh \<and> mp_event dp = vh_event vh
     \<and> mp_audioONOFF dp = vh_audioONOFF vh \<and> mp_capMode dp = vh_capMode vh
     \<and> (hd (vh_camName vh) \<noteq> 0 \<longrightarrow> mp_camName dp = name16 (vh_camName vh)) \<and> take (length pl) (mp_vbuffer dp) = pl"
| "delivers (Aud sh ah pl) dp \<longleftrightarrow> mp_streamtype dp = ST_AUDIO \<and> mp_ch dp = sh_ch sh \<and> mp_framesize dp = int (length pl)
     \<and> mp_sec dp = sh_sec sh \<and> mp_usec dp = sh_usec sh \<and> mp_samplingrate dp = ah_samplingrate ah \<and> take (length pl) (mp_vbuffer dp) = pl"
| "delivers (End sh) dp \<longleftrightarrow> False"

fun item_sec :: "item \<Rightarrow> int" where
  "item_sec (Vid sh vh pl) = sh_sec sh"
| "item_sec (Aud sh ah pl) = sh_sec sh"
| "item_sec (End sh) = sh_sec sh"

text \<open>A frame that is not empty, fits the buffer, and, for video, follows within four
  seconds.\<close>

fun readable :: "int \<Rightarrow> nat \<Rightarrow> item \<Rightarrow> bool" where
  "readable sec n (Vid sh vh pl) \<longleftrightarrow> 0 < length pl \<and> length pl \<le> n \<and> sec \<le> sh_sec sh \<and> sh_sec sh \<le> sec + 4"
| "readable sec n (Aud sh ah pl) \<longleftrightarrow> 0 < length pl \<and> length pl \<le> n"
| "readable sec n (End sh) \<longleftrightarrow> False"

text \<open>A player that is open, before some bytes of its basket.\<close>

definition playing :: "rec_world \<Rightarrow> nat \<Rightarrow> int \<Rightarrow> nat \<Rightarrow> byte list \<Rightarrow> player \<Rightarrow> bool" where
  "playing w d b pos bs p \<longleftrightarrow> md_status (pl_md p) = BKTMD_STATUS_OPEN \<and> md_bid (pl_md p) = b \<and> md_target (pl_md p) = d
     \<and> before (rw_disks w) (md_hbkt (pl_md p)) Bkt d b pos bs"

text \<open>What stays over a read.\<close>

definition keeps :: "player \<Rightarrow> player \<Rightarrow> bool" where
  "keeps p' p \<longleftrightarrow> length (mp_vbuffer (pl_dp p')) = length (mp_vbuffer (pl_dp p)) \<and> mp_focusChannel (pl_dp p') = mp_focusChannel (pl_dp p)
     \<and> md_hidx (pl_md p') = md_hidx (pl_md p) \<and> md_bktcnt (pl_md p') = md_bktcnt (pl_md p)"

lemma keeps_trans: "keeps p2 p1 \<Longrightarrow> keeps p1 p \<Longrightarrow> keeps p2 p"
  by (simp add: keeps_def)

lemma read_data_before:
  assumes ev: "healthy ev" and h: "before (rw_disks w) (md_hbkt (pl_md p)) k d b pos (pl @ rest)"
    and pl: "0 < length pl" "length pl \<le> length (mp_vbuffer (pl_dp p))" and n: "n = int (length pl)"
  shows "read_data ev l r n w p = Some (True,
     p\<lparr>pl_md := (pl_md p)\<lparr>md_hbkt := Some \<lparr>hd_kind = k, hd_disk = d, hd_bid = b, hd_pos = pos + length pl\<rparr>\<rparr>,
       pl_dp := (pl_dp p)\<lparr>mp_vbuffer := pl @ drop (length pl) (mp_vbuffer (pl_dp p))\<rparr>\<rparr>)"
  using h_read_before [OF h] ev pl n by (simp add: read_data_def not_less)

lemma round_video:
  assumes ev: "healthy ev" and p: "playing w d b pos (item_bytes (Vid sh vh pl) @ rest) p"
    and i: "item_ok (Vid sh vh pl)" "readable (md_sec (pl_md p)) (length (mp_vbuffer (pl_dp p))) (Vid sh vh pl)"
    and on: "length decflags = 16" "decflags ! nat (sh_ch sh) = 1" and old: "length old = STREAM_HDR_LEN"
  shows "\<exists>p'. frame_round ev r w decflags old p = Some (Return BKT_OK, enc_stream_hdr sh, p') \<and> delivers (Vid sh vh pl) (pl_dp p')
    \<and> playing w d b (pos + length (item_bytes (Vid sh vh pl))) rest p' \<and> md_sec (pl_md p') = sh_sec sh \<and> keeps p' p
    \<and> md_fpos_bkt (pl_md p') = int (pos + length (item_bytes (Vid sh vh pl)))"
proof -
  have sok: "stream_hdr_ok sh" and vok: "video_hdr_ok vh" and id: "sh_id sh = ID_VIDEO_HEADER"
    and fs: "sh_framesize sh = int (length pl)" and ch: "0 \<le> sh_ch sh" "sh_ch sh < 16" using i(1) by simp_all
  have b0: "before (rw_disks w) (md_hbkt (pl_md p)) Bkt d b pos (enc_stream_hdr sh @ enc_video_hdr vh @ pl @ rest)"
    and st: "md_status (pl_md p) = BKTMD_STATUS_OPEN" "md_bid (pl_md p) = b" "md_target (pl_md p) = d"
    using p by (simp_all add: playing_def)
  let ?h = "\<lambda>n. Some \<lparr>hd_kind = Bkt, hd_disk = d, hd_bid = b, hd_pos = n\<rparr>"
  have r1: "rd ev 1292 r old (md_hbkt (pl_md p)) (rw_disks w) = (True, enc_stream_hdr sh, ?h (pos + length (enc_stream_hdr sh)))"
    by (rule rd_before [OF ev b0]) (use old length_stream_enc [OF sok] enc_stream_ne [OF sok] in simp_all)
  note b1 = before_skip [OF b0]
  have r2: "rd ev 1309 r (junk ev 1286 VIDEO_HDR_LEN) (?h (pos + length (enc_stream_hdr sh))) (rw_disks w)
      = (True, enc_video_hdr vh, ?h (pos + length (enc_stream_hdr sh) + length (enc_video_hdr vh)))"
    by (rule rd_before [OF ev b1]) (use video_enc [OF vok] in simp_all)
  note b2 = before_skip [OF b1]
  have pl: "0 < length pl" "length pl \<le> length (mp_vbuffer (pl_dp p))" using i(2) by simp_all
  let ?p1 = "upd_md (\<lambda>c. c\<lparr>md_hbkt := ?h (pos + length (enc_stream_hdr sh) + length (enc_video_hdr vh))\<rparr>) p"
  let ?p2 = "p\<lparr>pl_md := (pl_md p)\<lparr>md_hbkt := ?h (pos + length (enc_stream_hdr sh) + length (enc_video_hdr vh) + length pl)\<rparr>,
       pl_dp := (pl_dp p)\<lparr>mp_vbuffer := pl @ drop (length pl) (mp_vbuffer (pl_dp p))\<rparr>\<rparr>"
  have r3: "read_data ev 1315 r (sh_framesize sh) w ?p1 = Some (True, ?p2)"
    using read_data_before [OF ev, of w ?p1 Bkt d b _ pl rest] b2 pl fs by simp
  let ?p3 = "at_frame sh (?p2\<lparr>pl_dp := show_video sh vh (pl_dp ?p2)\<rparr>)"
  define p4 where "p4 = (if sh_frametype sh = FT_IFRAME
      then upd_md (\<lambda>c. c\<lparr>md_iframe_cur := md_iframe_cur c + 1,
             md_iframe_cnt := if BKT_isRecordingBasket (md_bid c) w c then BKT_GetRecordingIndexCount (rw_ctrl w) else md_iframe_cnt c\<rparr>) ?p3
      else ?p3)"
  have sec: "\<not> sh_sec sh - md_sec (pl_md p) > 4" "\<not> sh_sec sh - md_sec (pl_md p) < 0" using i(2) by simp_all
  have con: "channel_on decflags (sh_ch sh) = Some True" using ch on by (simp add: channel_on_def)
  have vr: "video_round ev r w decflags sh (upd_md (\<lambda>c. c\<lparr>md_hbkt := ?h (pos + length (enc_stream_hdr sh))\<rparr>) p) = Some (Return BKT_OK, set_place p4)"
    using con sec r2 r3 video_enc [OF vok] unfolding video_round_def p4_def by (simp add: Let_def)
  have run: "frame_round ev r w decflags old p = Some (Return BKT_OK, enc_stream_hdr sh, set_place p4)"
    using r1 vr id dec_stream_enc [OF sok] by (simp add: frame_round_def Let_def)
  have p4: "pl_dp p4 = show_video sh vh (pl_dp ?p2)" "md_sec (pl_md p4) = sh_sec sh" "md_hidx (pl_md p4) = md_hidx (pl_md p)"
    "md_status (pl_md p4) = BKTMD_STATUS_OPEN" "md_bid (pl_md p4) = b" "md_target (pl_md p4) = d" "md_bktcnt (pl_md p4) = md_bktcnt (pl_md p)"
    "md_hbkt (pl_md p4) = md_hbkt (pl_md ?p2)" "md_fpos_bkt (pl_md p4) = int (pos + length (item_bytes (Vid sh vh pl)))"
    by (simp_all add: p4_def at_frame_def st h_tell_def)
  have "delivers (Vid sh vh pl) (pl_dp (set_place p4))"
    using fs by (simp add: set_place_def p4(1) show_video_def)
  moreover have "playing w d b (pos + length (item_bytes (Vid sh vh pl))) rest (set_place p4)"
    using before_skip [OF b2] by (simp add: playing_def set_place_def p4 add.assoc)
  moreover have "keeps (set_place p4) p" using pl by (simp add: keeps_def set_place_def p4 show_video_def)
  moreover have "md_sec (pl_md (set_place p4)) = sh_sec sh" "md_fpos_bkt (pl_md (set_place p4)) = int (pos + length (item_bytes (Vid sh vh pl)))"
    by (simp_all add: set_place_def p4)
  ultimately show ?thesis using run by blast
qed

lemma round_audio:
  assumes ev: "healthy ev" and p: "playing w d b pos (item_bytes (Aud sh ah pl) @ rest) p"
    and i: "item_ok (Aud sh ah pl)" "readable (md_sec (pl_md p)) (length (mp_vbuffer (pl_dp p))) (Aud sh ah pl)"
    and on: "sh_ch sh = mp_focusChannel (pl_dp p)" and old: "length old = STREAM_HDR_LEN"
  shows "\<exists>p'. frame_round ev r w decflags old p = Some (Return BKT_OK, enc_stream_hdr sh, p') \<and> delivers (Aud sh ah pl) (pl_dp p')
    \<and> playing w d b (pos + length (item_bytes (Aud sh ah pl))) rest p' \<and> md_sec (pl_md p') = sh_sec sh \<and> keeps p' p
    \<and> md_fpos_bkt (pl_md p') = int (pos + length (item_bytes (Aud sh ah pl)))"
proof -
  have sok: "stream_hdr_ok sh" and aok: "audio_hdr_ok ah" and id: "sh_id sh = ID_AUDIO_HEADER"
    and fs: "sh_framesize sh = int (length pl)" using i(1) by simp_all
  have b0: "before (rw_disks w) (md_hbkt (pl_md p)) Bkt d b pos (enc_stream_hdr sh @ enc_audio_hdr ah @ pl @ rest)"
    and st: "md_status (pl_md p) = BKTMD_STATUS_OPEN" "md_bid (pl_md p) = b" "md_target (pl_md p) = d"
    using p by (simp_all add: playing_def)
  let ?h = "\<lambda>n. Some \<lparr>hd_kind = Bkt, hd_disk = d, hd_bid = b, hd_pos = n\<rparr>"
  have r1: "rd ev 1292 r old (md_hbkt (pl_md p)) (rw_disks w) = (True, enc_stream_hdr sh, ?h (pos + length (enc_stream_hdr sh)))"
    by (rule rd_before [OF ev b0]) (use old length_stream_enc [OF sok] enc_stream_ne [OF sok] in simp_all)
  note b1 = before_skip [OF b0]
  have r2: "rd ev 1382 r (junk ev 1287 AUDIO_HDR_LEN) (?h (pos + length (enc_stream_hdr sh))) (rw_disks w)
      = (True, enc_audio_hdr ah, ?h (pos + length (enc_stream_hdr sh) + length (enc_audio_hdr ah)))"
    by (rule rd_before [OF ev b1]) (use audio_enc [OF aok] in simp_all)
  note b2 = before_skip [OF b1]
  have pl: "0 < length pl" "length pl \<le> length (mp_vbuffer (pl_dp p))" using i(2) by simp_all
  let ?p1 = "upd_md (\<lambda>c. c\<lparr>md_hbkt := ?h (pos + length (enc_stream_hdr sh) + length (enc_audio_hdr ah))\<rparr>) p"
  let ?p2 = "p\<lparr>pl_md := (pl_md p)\<lparr>md_hbkt := ?h (pos + length (enc_stream_hdr sh) + length (enc_audio_hdr ah) + length pl)\<rparr>,
       pl_dp := (pl_dp p)\<lparr>mp_vbuffer := pl @ drop (length pl) (mp_vbuffer (pl_dp p))\<rparr>\<rparr>"
  have r3: "read_data ev 1388 r (sh_framesize sh) w ?p1 = Some (True, ?p2)"
    using read_data_before [OF ev, of w ?p1 Bkt d b _ pl rest] b2 pl fs by simp
  define p' where "p' = at_frame sh (?p2\<lparr>pl_dp := (pl_dp ?p2)\<lparr>mp_ch := sh_ch sh, mp_sec := sh_sec sh, mp_usec := sh_usec sh,
               mp_streamtype := ST_AUDIO, mp_framesize := sh_framesize sh, mp_samplingrate := ah_samplingrate ah\<rparr>\<rparr>)"
  have ar: "audio_round ev r w sh (upd_md (\<lambda>c. c\<lparr>md_hbkt := ?h (pos + length (enc_stream_hdr sh))\<rparr>) p) = Some (Return BKT_OK, p')"
    using on r2 r3 audio_enc [OF aok] unfolding audio_round_def p'_def by (simp add: Let_def)
  have "sh_id sh \<noteq> ID_VIDEO_HEADER" using id by (simp add: ID_AUDIO_HEADER_def ID_VIDEO_HEADER_def)
  then have run: "frame_round ev r w decflags old p = Some (Return BKT_OK, enc_stream_hdr sh, p')"
    using r1 ar id dec_stream_enc [OF sok] by (simp add: frame_round_def Let_def)
  have "delivers (Aud sh ah pl) (pl_dp p')" using fs by (simp add: p'_def at_frame_def)
  moreover have "playing w d b (pos + length (item_bytes (Aud sh ah pl))) rest p'"
    using before_skip [OF b2] by (simp add: playing_def p'_def at_frame_def st add.assoc)
  moreover have "keeps p' p" using pl by (simp add: keeps_def p'_def at_frame_def)
  moreover have "md_sec (pl_md p') = sh_sec sh" "md_fpos_bkt (pl_md p') = int (pos + length (item_bytes (Aud sh ah pl)))"
    by (simp_all add: p'_def at_frame_def h_tell_def)
  ultimately show ?thesis using run by blast
qed

text \<open>An item of another channel is passed over.\<close>

lemma round_skip:
  assumes ev: "healthy ev" and p: "playing w d b pos (item_bytes i @ rest) p"
    and i: "item_ok i" "is_frame i" "\<not> shown decflags (mp_focusChannel (pl_dp p)) i"
    and on: "length decflags = 16" and old: "length old = STREAM_HDR_LEN"
  shows "\<exists>p' old'. frame_round ev r w decflags old p = Some (Go, old', p') \<and> length old' = STREAM_HDR_LEN
    \<and> playing w d b (pos + length (item_bytes i)) rest p' \<and> md_sec (pl_md p') = md_sec (pl_md p) \<and> keeps p' p \<and> pl_dp p' = pl_dp p"
proof -
  let ?h = "\<lambda>n. Some \<lparr>hd_kind = Bkt, hd_disk = d, hd_bid = b, hd_pos = n\<rparr>"
  obtain sh body where i': "item_bytes i = enc_stream_hdr sh @ body" "stream_hdr_ok sh"
    and e: "frame_round ev r w decflags old p = (case rd ev 1292 r old (md_hbkt (pl_md p)) (rw_disks w) of (ok, bs, h) \<Rightarrow>
       if ok \<and> bs = enc_stream_hdr sh then (case seek_cur (int (length body)) h of
            (ok, h) \<Rightarrow> if \<not> ok then Some (Break, bs, upd_md (\<lambda>c. c\<lparr>md_hbkt := snd (snd (rd ev 1292 r old (md_hbkt (pl_md p)) (rw_disks w)))\<rparr>) p)
              else Some (Go, bs, upd_md (\<lambda>c. c\<lparr>md_hbkt := h, md_fpos_bkt := h_tell h\<rparr>) p)) else frame_round ev r w decflags old p)"
  proof (cases i)
    case (Vid sh vh pl)
    have ok: "stream_hdr_ok sh" "sh_id sh = ID_VIDEO_HEADER" "sh_framesize sh = int (length pl)" "video_hdr_ok vh" "0 \<le> sh_ch sh" "sh_ch sh < 16"
      using i(1) Vid by simp_all
    have c: "channel_on decflags (sh_ch sh) = Some False" using ok i(3) on Vid by (simp add: channel_on_def)
    have n: "int VIDEO_HDR_LEN + sh_framesize sh = int (length (enc_video_hdr vh @ pl))" using ok(3) video_enc(1) [OF ok(4)] by simp
    show ?thesis
    proof (rule that [of sh "enc_video_hdr vh @ pl"])
      show "item_bytes i = enc_stream_hdr sh @ enc_video_hdr vh @ pl" using Vid by simp
    qed (use ok c n dec_stream_enc [OF ok(1)] in \<open>auto simp: frame_round_def video_round_def Let_def split: prod.splits\<close>)
  next
    case (Aud sh ah pl)
    have ok: "stream_hdr_ok sh" "sh_id sh = ID_AUDIO_HEADER" "sh_framesize sh = int (length pl)" "audio_hdr_ok ah"
      using i(1) Aud by simp_all
    have v: "sh_id sh \<noteq> ID_VIDEO_HEADER" using ok(2) by (simp add: ID_AUDIO_HEADER_def ID_VIDEO_HEADER_def)
    have c: "mp_focusChannel (pl_dp p) \<noteq> sh_ch sh" using i(3) Aud by simp
    have n: "int AUDIO_HDR_LEN + sh_framesize sh = int (length (enc_audio_hdr ah @ pl))" using ok(3) audio_enc(1) [OF ok(4)] by simp
    show ?thesis
    proof (rule that [of sh "enc_audio_hdr ah @ pl"])
      show "item_bytes i = enc_stream_hdr sh @ enc_audio_hdr ah @ pl" using Aud by simp
    qed (use ok c n v dec_stream_enc [OF ok(1)] in \<open>auto simp: frame_round_def audio_round_def Let_def split: prod.splits\<close>)
  qed (use i(2) in simp)
  have b0: "before (rw_disks w) (md_hbkt (pl_md p)) Bkt d b pos (enc_stream_hdr sh @ body @ rest)"
    and st: "md_status (pl_md p) = BKTMD_STATUS_OPEN" "md_bid (pl_md p) = b" "md_target (pl_md p) = d"
    using p i'(1) by (simp_all add: playing_def)
  have r1: "rd ev 1292 r old (md_hbkt (pl_md p)) (rw_disks w) = (True, enc_stream_hdr sh, ?h (pos + length (enc_stream_hdr sh)))"
    by (rule rd_before [OF ev b0]) (use old length_stream_enc [OF i'(2)] enc_stream_ne [OF i'(2)] in simp_all)
  note b1 = before_skip [OF b0]
  have run: "frame_round ev r w decflags old p = Some (Go, enc_stream_hdr sh,
      upd_md (\<lambda>c. c\<lparr>md_hbkt := ?h (pos + length (enc_stream_hdr sh) + length body),
        md_fpos_bkt := int (pos + length (enc_stream_hdr sh) + length body)\<rparr>) p)"
    by (subst e) (simp add: r1 seek_cur_before [OF b1] h_tell_def)
  show ?thesis
    by (intro exI conjI, rule run) (use before_skip [OF b1] st length_stream_enc [OF i'(2)] in \<open>simp_all add: playing_def i'(1) keeps_def add.assoc\<close>)
qed

text \<open>The end mark, or anything else that is no frame, stops the loop.\<close>

lemma round_end:
  assumes ev: "healthy ev" and p: "playing w d b pos (item_bytes (End sh) @ rest) p" and i: "item_ok (End sh)" and old: "length old = STREAM_HDR_LEN"
  shows "\<exists>p'. frame_round ev r w decflags old p = Some (Break, enc_stream_hdr sh, p') \<and> playing w d b (pos + STREAM_HDR_LEN) rest p'
    \<and> md_sec (pl_md p') = md_sec (pl_md p) \<and> keeps p' p \<and> pl_dp p' = pl_dp p \<and> md_iframe_cur (pl_md p') = md_iframe_cur (pl_md p)
    \<and> md_iframe_cnt (pl_md p') = md_iframe_cnt (pl_md p)"
proof -
  have sok: "stream_hdr_ok sh" and id: "sh_id sh = ID_BASKET_END" using i by simp_all
  have b0: "before (rw_disks w) (md_hbkt (pl_md p)) Bkt d b pos (enc_stream_hdr sh @ rest)"
    and st: "md_status (pl_md p) = BKTMD_STATUS_OPEN" "md_bid (pl_md p) = b" "md_target (pl_md p) = d"
    using p by (simp_all add: playing_def)
  let ?h = "Some \<lparr>hd_kind = Bkt, hd_disk = d, hd_bid = b, hd_pos = pos + length (enc_stream_hdr sh)\<rparr>"
  have r1: "rd ev 1292 r old (md_hbkt (pl_md p)) (rw_disks w) = (True, enc_stream_hdr sh, ?h)"
    by (rule rd_before [OF ev b0]) (use old length_stream_enc [OF sok] enc_stream_ne [OF sok] in simp_all)
  have "frame_round ev r w decflags old p = Some (Break, enc_stream_hdr sh, upd_md (\<lambda>c. c\<lparr>md_hbkt := ?h\<rparr>) p)"
    using r1 id dec_stream_enc [OF sok]
    by (simp add: frame_round_def Let_def ID_AUDIO_HEADER_def ID_VIDEO_HEADER_def ID_BASKET_END_def)
  then show ?thesis
    using before_skip [OF b0] st length_stream_enc [OF sok] by (intro exI conjI) (assumption, simp_all add: playing_def keeps_def)
qed

section \<open>The loop\<close>

definition passed :: "int list \<Rightarrow> int \<Rightarrow> item \<Rightarrow> bool" where
  "passed decflags focus i \<longleftrightarrow> item_ok i \<and> is_frame i \<and> \<not> shown decflags focus i"

lemma loop_passed:
  assumes ev: "healthy ev" and on: "length decflags = 16"
  shows "playing w d b pos (items_bytes sk @ rest) p \<Longrightarrow> list_all (passed decflags (mp_focusChannel (pl_dp p))) sk \<Longrightarrow> length old = STREAM_HDR_LEN
    \<Longrightarrow> \<exists>p' r' old'. frame_loop ev r w decflags old p = frame_loop ev r' w decflags old' p' \<and> length old' = STREAM_HDR_LEN
      \<and> playing w d b (pos + length (items_bytes sk)) rest p' \<and> md_sec (pl_md p') = md_sec (pl_md p) \<and> keeps p' p \<and> pl_dp p' = pl_dp p"
proof (induction sk arbitrary: pos p r old)
  case Nil
  then show ?case by - (rule exI [of _ p], rule exI [of _ r], rule exI [of _ old], simp add: keeps_def)
next
  case (Cons i sk)
  have p: "playing w d b pos (item_bytes i @ items_bytes sk @ rest) p" using Cons.prems(1) by simp
  have i: "item_ok i" "is_frame i" "\<not> shown decflags (mp_focusChannel (pl_dp p)) i" using Cons.prems(2) by (simp_all add: passed_def)
  obtain p1 old1 where 1: "frame_round ev r w decflags old p = Some (Go, old1, p1)" "length old1 = STREAM_HDR_LEN"
    "playing w d b (pos + length (item_bytes i)) (items_bytes sk @ rest) p1" "md_sec (pl_md p1) = md_sec (pl_md p)" "keeps p1 p" "pl_dp p1 = pl_dp p"
    using round_skip [OF ev p i on Cons.prems(3)] by blast
  have step: "frame_loop ev r w decflags old p = frame_loop ev (Suc r) w decflags old1 p1"
    using 1(1) p by (subst frame_loop.simps) (simp add: playing_def)
  obtain p' r' old' where 2: "frame_loop ev (Suc r) w decflags old1 p1 = frame_loop ev r' w decflags old' p'" "length old' = STREAM_HDR_LEN"
    "playing w d b (pos + length (item_bytes i) + length (items_bytes sk)) rest p'" "md_sec (pl_md p') = md_sec (pl_md p1)" "keeps p' p1" "pl_dp p' = pl_dp p1"
    using Cons.IH [OF 1(3) _ 1(2), of "Suc r"] Cons.prems(2) 1(6) by auto
  show ?case
    by (rule exI [of _ p'], rule exI [of _ r'], rule exI [of _ old'])
       (use step 1 2 keeps_trans in \<open>auto simp: add.assoc\<close>)
qed

text \<open>The next frame that is shown is delivered.\<close>

lemma ReadNextFrame_shown:
  assumes ev: "healthy ev" and on: "length decflags = 16" and p: "playing w d b pos (items_bytes (sk @ [i]) @ rest) p"
    and sk: "list_all (passed decflags (mp_focusChannel (pl_dp p))) sk"
    and i: "item_ok i" "shown decflags (mp_focusChannel (pl_dp p)) i" "readable (md_sec (pl_md p)) (length (mp_vbuffer (pl_dp p))) i"
  shows "\<exists>p'. BKTMD_ReadNextFrame ev w decflags p = Some (BKT_OK, p') \<and> delivers i (pl_dp p')
    \<and> playing w d b (pos + length (items_bytes (sk @ [i]))) rest p' \<and> md_sec (pl_md p') = item_sec i \<and> keeps p' p"
proof -
  have p0: "playing w d b pos (items_bytes sk @ item_bytes i @ rest) p" using p by simp
  obtain p1 r old where 1: "frame_loop ev 0 w decflags (junk ev 1285 STREAM_HDR_LEN) p = frame_loop ev r w decflags old p1" "length old = STREAM_HDR_LEN"
    "playing w d b (pos + length (items_bytes sk)) (item_bytes i @ rest) p1" "md_sec (pl_md p1) = md_sec (pl_md p)" "keeps p1 p" "pl_dp p1 = pl_dp p"
    using loop_passed [OF ev on p0 sk, of "junk ev 1285 STREAM_HDR_LEN" 0] by auto
  obtain bs p' where 2: "frame_round ev r w decflags old p1 = Some (Return BKT_OK, bs, p')" "delivers i (pl_dp p')"
    "playing w d b (pos + length (items_bytes sk) + length (item_bytes i)) rest p'" "md_sec (pl_md p') = item_sec i" "keeps p' p1"
  proof (cases i)
    case (Vid sh vh pl)
    then show thesis using round_video [OF ev, of w d b _ sh vh pl rest p1 decflags old r] 1 i on that by auto
  next
    case (Aud sh ah pl)
    then show thesis using round_audio [OF ev, of w d b _ sh ah pl rest p1 old r decflags] 1 i that by auto
  next
    case (End sh)
    then show thesis using i(2) by simp
  qed
  have "frame_loop ev r w decflags old p1 = Some (Some BKT_OK, bs, p')"
    using 2(1) 1(3) by (subst frame_loop.simps) (simp add: playing_def)
  then have "BKTMD_ReadNextFrame ev w decflags p = Some (BKT_OK, p')"
    using 1(1) by (simp add: BKTMD_ReadNextFrame_def)
  then show ?thesis using 2 keeps_trans [OF 2(5) 1(5)] by (auto simp: add.assoc)
qed

section \<open>A whole basket\<close>

text \<open>Reading again and again: what the caller sees each time.\<close>

fun play :: "bkt_env list \<Rightarrow> rec_world \<Rightarrow> int list \<Rightarrow> player \<Rightarrow> (md_param list \<times> player) option" where
  "play [] w decflags p = Some ([], p)"
| "play (ev # evs) w decflags p =
    (case BKTMD_ReadNextFrame ev w decflags p of
       None \<Rightarrow> None
     | Some (st, p1) \<Rightarrow> if st \<noteq> BKT_OK then None else map_option (\<lambda>(dps, p2). (pl_dp p1 # dps, p2)) (play evs w decflags p1))"

text \<open>Frames without gaps in time.\<close>

fun paced :: "int list \<Rightarrow> int \<Rightarrow> nat \<Rightarrow> int \<Rightarrow> item list \<Rightarrow> bool" where
  "paced decflags focus n sec [] \<longleftrightarrow> True"
| "paced decflags focus n sec (i # items) \<longleftrightarrow>
    (if shown decflags focus i then readable sec n i \<and> paced decflags focus n (item_sec i) items
     else paced decflags focus n sec items)"

lemma split_shown:
  assumes "filter P xs = y # ys"
  obtains sk zs where "xs = sk @ y # zs" "list_all (\<lambda>x. \<not> P x) sk" "P y" "filter P zs = ys"
  using assms unfolding filter_eq_Cons_iff by (auto simp: list_all_iff)

lemma paced_skip: "list_all (\<lambda>x. \<not> shown decflags focus x) sk \<Longrightarrow> paced decflags focus n sec (sk @ items) = paced decflags focus n sec items"
  by (induction sk) auto

lemma play_basket:
  assumes on: "length decflags = 16"
  shows "list_all healthy evs \<Longrightarrow> playing w d b pos (items_bytes items @ rest) p \<Longrightarrow> list_all (\<lambda>i. item_ok i \<and> is_frame i) items
    \<Longrightarrow> paced decflags (mp_focusChannel (pl_dp p)) (length (mp_vbuffer (pl_dp p))) (md_sec (pl_md p)) items
    \<Longrightarrow> length evs = length (filter (shown decflags (mp_focusChannel (pl_dp p))) items)
    \<Longrightarrow> \<exists>dps p' sk. play evs w decflags p = Some (dps, p') \<and> list_all2 delivers (filter (shown decflags (mp_focusChannel (pl_dp p))) items) dps
      \<and> playing w d b (pos + length (items_bytes items) - length (items_bytes sk)) (items_bytes sk @ rest) p' \<and> keeps p' p
      \<and> list_all (passed decflags (mp_focusChannel (pl_dp p))) sk \<and> length (items_bytes sk) \<le> length (items_bytes items)"
proof (induction evs arbitrary: pos p items)
  case Nil
  then have f: "filter (shown decflags (mp_focusChannel (pl_dp p))) items = []" by simp
  then have "list_all (passed decflags (mp_focusChannel (pl_dp p))) items"
    using Nil.prems(3) by (auto simp: passed_def list_all_iff filter_empty_conv)
  then show ?case using Nil.prems(2) f
    by - (rule exI [of _ "[]"], rule exI [of _ p], rule exI [of _ items], simp add: keeps_def)
next
  case (Cons ev evs)
  let ?S = "shown decflags (mp_focusChannel (pl_dp p))"
  obtain y ys where "filter ?S items = y # ys" using Cons.prems(5) by (cases "filter ?S items") auto
  then obtain sk zs where s: "items = sk @ y # zs" "list_all (\<lambda>x. \<not> ?S x) sk" "?S y" "filter ?S zs = ys"
    by (rule split_shown)
  have f: "filter ?S items = y # ys" by fact
  have sk: "list_all (passed decflags (mp_focusChannel (pl_dp p))) sk"
    using s(1,2) Cons.prems(3) by (auto simp: passed_def list_all_iff)
  have p: "playing w d b pos (items_bytes (sk @ [y]) @ items_bytes zs @ rest) p" using Cons.prems(2) s(1) by simp
  have pc: "readable (md_sec (pl_md p)) (length (mp_vbuffer (pl_dp p))) y"
    "paced decflags (mp_focusChannel (pl_dp p)) (length (mp_vbuffer (pl_dp p))) (item_sec y) zs"
    using Cons.prems(4) s(3) unfolding s(1) paced_skip [OF s(2)] by simp_all
  obtain p1 where 1: "BKTMD_ReadNextFrame ev w decflags p = Some (BKT_OK, p1)" "delivers y (pl_dp p1)"
    "playing w d b (pos + length (items_bytes (sk @ [y]))) (items_bytes zs @ rest) p1" "md_sec (pl_md p1) = item_sec y" "keeps p1 p"
    using ReadNextFrame_shown [OF _ on p sk _ s(3) pc(1)] Cons.prems(1,3) s(1) by auto
  have k: "mp_focusChannel (pl_dp p1) = mp_focusChannel (pl_dp p)" "length (mp_vbuffer (pl_dp p1)) = length (mp_vbuffer (pl_dp p))"
    using 1(5) by (simp_all add: keeps_def)
  have len: "length evs = length (filter ?S zs)" using Cons.prems(5) f s(4) by simp
  obtain dps p' sk' where 2: "play evs w decflags p1 = Some (dps, p')" "list_all2 delivers (filter ?S zs) dps"
    "playing w d b (pos + length (items_bytes (sk @ [y])) + length (items_bytes zs) - length (items_bytes sk')) (items_bytes sk' @ rest) p'"
    "keeps p' p1" "list_all (passed decflags (mp_focusChannel (pl_dp p))) sk'" "length (items_bytes sk') \<le> length (items_bytes zs)"
    using Cons.IH [OF _ 1(3)] Cons.prems(1,3) s(1) pc(2) len unfolding k 1(4) by auto
  have "play (ev # evs) w decflags p = Some (pl_dp p1 # dps, p')" using 1(1) 2(1) by simp
  moreover have "list_all2 delivers (filter ?S items) (pl_dp p1 # dps)" using f s(4) 1(2) 2(2) by simp
  moreover have len: "pos + length (items_bytes (sk @ [y])) + length (items_bytes zs) = pos + length (items_bytes items)" by (simp add: s(1))
  moreover have "length (items_bytes sk') \<le> length (items_bytes items)" using 2(6) by (simp add: s(1))
  ultimately show ?case using 2(3) [unfolded len] 2(5) keeps_trans [OF 2(4) 1(5)] by blast
qed

section \<open>The headers\<close>

definition ts_ok :: "basket_time \<Rightarrow> bool" where
  "ts_ok t \<longleftrightarrow> length (bt_t1 t) = BKT_MAX_CHANNEL \<and> length (bt_t2 t) = BKT_MAX_CHANNEL \<and> list_all (\<lambda>(s, u). long s \<and> long u) (bt_t1 t @ bt_t2 t)"

definition norm4 :: "int \<Rightarrow> int" where
  "norm4 x = le_int (le_bytes 4 x)"

lemma norm4_long [simp]: "long x \<Longrightarrow> norm4 x = x"
  by (simp add: norm4_def le_int_le_bytes)

lemma dec_longs_norm: "length xs = n \<Longrightarrow> dec (replicate n 4) (enc (longs xs) @ rest) = map norm4 xs"
  by (induction xs arbitrary: n) (auto simp: longs_def norm4_def)

lemma pairs_concat: "pairs (concat (map (\<lambda>(s, u). [s, u]) xs)) = xs"
  by (induction xs) auto

lemma ts_of_longs_norm:
  assumes "ts_ok t"
  shows "ts_of_longs (map norm4 (ts_longs t)) = t"
proof -
  have "map norm4 (concat (map (\<lambda>(s, u). [s, u]) xs)) = concat (map (\<lambda>(s, u). [s, u]) xs)"
    if "list_all (\<lambda>(s, u). long s \<and> long u) xs" for xs
    using that by (induction xs) auto
  then have "map norm4 (ts_longs t) = ts_longs t" using assms by (simp add: ts_longs_def ts_ok_def)
  moreover have "pairs (ts_longs t) = bt_t1 t @ bt_t2 t" unfolding ts_longs_def by (rule pairs_concat)
  ultimately show ?thesis using assms by (simp add: ts_of_longs_def Let_def ts_ok_def)
qed

lemma dec_basket_ts:
  assumes "ts_ok (bh_ts h)"
  shows "bh_ts (dec_basket_hdr (enc_basket_hdr h)) = bh_ts h"
proof -
  let ?xs = "[bh_id h, bh_bid h, bh_latest_update h, bh_lPriority h, bh_s_type h] @ ts_longs (bh_ts h) @ [bh_save_flag h, bh_totalframecount h, bh_reserved h]"
  have ts: "length (ts_longs (bh_ts h)) = 64" using assms by (simp add: length_ts_longs ts_ok_def)
  then have "length ?xs = 72" by simp
  then have "dec (replicate 72 4) (enc_basket_hdr h) = map norm4 ?xs"
    using dec_longs_norm [of ?xs 72 "[]"] by (simp add: enc_basket_hdr_def)
  moreover have "take 64 (drop 5 (map norm4 ?xs)) = map norm4 (ts_longs (bh_ts h))" using ts by simp
  ultimately show ?thesis using ts_of_longs_norm [OF assms] by (simp add: dec_basket_hdr_def Let_def)
qed

lemma dec_index_count:
  assumes "length (enc_index_hdr h) = INDEX_HDR_LEN" "long (ih_count h)"
  shows "ih_count (dec_index_hdr (enc_index_hdr h)) = ih_count h"
proof -
  let ?xs = "[ih_id h, ih_bid h, ih_count h] @ ts_longs (ih_ts h) @ [ih_reserved h]"
  have "length ?xs = 68" using assms(1) by (simp add: enc_index_hdr_def INDEX_HDR_LEN_def)
  then have "dec (replicate 68 4) (enc_index_hdr h) = map norm4 ?xs"
    using dec_longs_norm [of ?xs 68 "[]"] by (simp add: enc_index_hdr_def)
  then show ?thesis using assms(2) by (simp add: dec_index_hdr_def Let_def)
qed

lemma min_ts_nonzero: "BKT_GetMinTS arr \<noteq> 0"
proof -
  let ?f = "\<lambda>(t :: int \<times> int) m. if fst t \<noteq> 0 then (if fst t < m then fst t else m) else m"
  have "fold ?f xs m \<noteq> 0" if "m \<noteq> 0" for xs m
    using that by (induction xs arbitrary: m) auto
  from this [of "0x7fffffff" arr] show ?thesis by (simp add: BKT_GetMinTS_def)
qed

section \<open>Opening a closed basket\<close>

lemma before_start:
  assumes "the_file ds k d b = Some (bs @ rest)"
  shows "before ds (Some \<lparr>hd_kind = k, hd_disk = d, hd_bid = b, hd_pos = 0\<rparr>) k d b 0 (bs @ rest)"
  using assms by (simp add: before_def)

lemma OpenNext_sealed:
  assumes ev: "healthy ev" and s: "sealed flag bts its items ixs (rw_disks w) d b" and ts: "ts_ok bts" and d: "md_target c = d"
  shows "\<exists>c' rest. BKTMD_OpenNext ev w b c = (BKT_OK, c') \<and> md_sec c' = BKT_GetMinTS (bt_t1 bts) \<and> md_status c' = BKTMD_STATUS_OPEN
    \<and> md_bid c' = b \<and> md_target c' = d \<and> before (rw_disks w) (md_hbkt c') Bkt d b BASKET_HDR_LEN (items_bytes items @ rest)
    \<and> md_iframe_cur c' = 0"
proof -
  obtain bh ih rb ri where f: "the_file (rw_disks w) Bkt d b = Some (enc_basket_hdr bh @ items_bytes items @ rb)"
    "the_file (rw_disks w) Idx d b = Some (enc_index_hdr ih @ index_bytes ixs @ ri)"
    "length (enc_basket_hdr bh) = BASKET_HDR_LEN" "length (enc_index_hdr ih) = INDEX_HDR_LEN" "bh_ts bh = bts"
    using s by (auto simp: sealed_def)
  have ne: "enc_basket_hdr bh \<noteq> []" "enc_index_hdr ih \<noteq> []" using f(3,4) by (auto simp: BASKET_HDR_LEN_def INDEX_HDR_LEN_def)
  let ?hb = "\<lambda>n. Some \<lparr>hd_kind = Bkt, hd_disk = d, hd_bid = b, hd_pos = n\<rparr>" and ?hi = "\<lambda>n. Some \<lparr>hd_kind = Idx, hd_disk = d, hd_bid = b, hd_pos = n\<rparr>"
  have o: "h_open ev 259 Bkt d b (rw_disks w) = ?hb 0" "h_open ev 276 Idx d b (rw_disks w) = ?hi 0"
    using ev f(1,2) by (simp_all add: h_open_def)
  note b0 = before_start [OF f(1)] and i0 = before_start [OF f(2)]
  have r1: "rd ev 267 0 (junk ev 266 BASKET_HDR_LEN) (?hb 0) (rw_disks w) = (True, enc_basket_hdr bh, ?hb BASKET_HDR_LEN)"
    using rd_before [OF ev b0, of "junk ev 266 BASKET_HDR_LEN" 267 0] f(3) ne by simp
  have r2: "rd ev 285 0 (junk ev 284 INDEX_HDR_LEN) (?hi 0) (rw_disks w) = (True, enc_index_hdr ih, ?hi INDEX_HDR_LEN)"
    using rd_before [OF ev i0, of "junk ev 284 INDEX_HDR_LEN" 285 0] f(4) ne by simp
  have sec: "BKT_GetMinTS (bt_t1 (bh_ts (dec_basket_hdr (enc_basket_hdr bh)))) = BKT_GetMinTS (bt_t1 bts)"
    using dec_basket_ts [of bh] ts f(5) by simp
  define c' where "c' = snd (BKTMD_OpenNext ev w b c)"
  have run: "BKTMD_OpenNext ev w b c = (BKT_OK, c')" "md_sec c' = BKT_GetMinTS (bt_t1 bts)" "md_status c' = BKTMD_STATUS_OPEN"
    "md_bid c' = b" "md_target c' = d" "md_hbkt c' = ?hb BASKET_HDR_LEN" "md_iframe_cur c' = 0"
    unfolding c'_def by (simp_all add: BKTMD_OpenNext_def BKTMD_close_def Let_def d o r1 r2 sec min_ts_nonzero)
  have "before (rw_disks w) (md_hbkt c') Bkt d b BASKET_HDR_LEN (items_bytes items @ rb)"
    using before_skip [OF b0] f(3) run(6) by simp
  then show ?thesis using run by blast
qed

lemma item_ok_sealed: "sealed flag bts its items ixs ds d b \<Longrightarrow> list_all item_ok items"
  by (auto simp: sealed_def)

lemma play_sealed:
  assumes ev: "healthy ev" "list_all healthy evs" and s: "sealed flag bts its (fs @ e) ixs (rw_disks w) d b" and ts: "ts_ok bts"
    and fs: "list_all is_frame fs" and on: "length decflags = 16" and d: "md_target (pl_md p) = d"
    and pc: "paced decflags (mp_focusChannel (pl_dp p)) (length (mp_vbuffer (pl_dp p))) (BKT_GetMinTS (bt_t1 bts)) fs"
    and n: "length evs = length (filter (shown decflags (mp_focusChannel (pl_dp p))) fs)"
  shows "\<exists>c dps p'. BKTMD_OpenNext ev w b (pl_md p) = (BKT_OK, c) \<and> play evs w decflags (p\<lparr>pl_md := c\<rparr>) = Some (dps, p')
    \<and> list_all2 delivers (filter (shown decflags (mp_focusChannel (pl_dp p))) fs) dps"
proof -
  obtain c rest where c: "BKTMD_OpenNext ev w b (pl_md p) = (BKT_OK, c)" "md_sec c = BKT_GetMinTS (bt_t1 bts)" "md_status c = BKTMD_STATUS_OPEN"
    "md_bid c = b" "md_target c = d" "before (rw_disks w) (md_hbkt c) Bkt d b BASKET_HDR_LEN (items_bytes (fs @ e) @ rest)"
    using OpenNext_sealed [OF ev(1) s ts d] by blast
  have "playing w d b BASKET_HDR_LEN (items_bytes fs @ items_bytes e @ rest) (p\<lparr>pl_md := c\<rparr>)"
    using c(3-6) by (simp add: playing_def)
  moreover have "list_all (\<lambda>i. item_ok i \<and> is_frame i) fs" using fs item_ok_sealed [OF s] by (simp add: list_all_iff)
  ultimately obtain dps p' where "play evs w decflags (p\<lparr>pl_md := c\<rparr>) = Some (dps, p')"
    "list_all2 delivers (filter (shown decflags (mp_focusChannel (pl_dp p))) fs) dps"
    using play_basket [OF on ev(2), of w d b BASKET_HDR_LEN fs "items_bytes e @ rest" "p\<lparr>pl_md := c\<rparr>"] pc n c(2) by auto
  with c(1) show ?thesis by blast
qed

section \<open>The index\<close>

text \<open>The number of a key frame in its basket, as its index counts it.\<close>

fun is_key :: "item \<Rightarrow> bool" where
  "is_key (Vid sh vh pl) \<longleftrightarrow> sh_frametype sh = FT_IFRAME"
| "is_key _ \<longleftrightarrow> False"

definition keys_in :: "item list \<Rightarrow> nat" where
  "keys_in items = length (filter is_key items)"

lemma length_iframes: "length (iframes pos items) = keys_in items"
  by (induction items arbitrary: pos) (auto simp: keys_in_def split: item.splits)

lemma index_bytes_drop: "k < length ixs \<Longrightarrow> drop (INDEX_DATA_LEN * k) (index_bytes ixs) = enc_index_data (ixs ! k) @ index_bytes (drop (Suc k) ixs)"
proof (induction ixs arbitrary: k)
  case (Cons x ixs)
  show ?case
  proof (cases k)
    case (Suc j)
    have "drop (INDEX_DATA_LEN * Suc j) (enc_index_data x @ index_bytes ixs) = drop (INDEX_DATA_LEN * j) (index_bytes ixs)"
      by simp
    then show ?thesis using Cons Suc by simp
  qed simp
qed simp

text \<open>A player on a closed basket at key frame \<open>k\<close>.\<close>

definition on_basket :: "rec_world \<Rightarrow> nat \<Rightarrow> int \<Rightarrow> player \<Rightarrow> bool" where
  "on_basket w d b p \<longleftrightarrow> (\<exists>n m. md_hbkt (pl_md p) = Some \<lparr>hd_kind = Bkt, hd_disk = d, hd_bid = b, hd_pos = n\<rparr>
     \<and> md_hidx (pl_md p) = Some \<lparr>hd_kind = Idx, hd_disk = d, hd_bid = b, hd_pos = m\<rparr>)
     \<and> md_status (pl_md p) = BKTMD_STATUS_OPEN \<and> md_bid (pl_md p) = b \<and> md_target (pl_md p) = d"

lemma index_entry_read:
  assumes ev: "healthy ev" and s: "sealed flag bts its items ixs (rw_disks w) d b" and p: "on_basket w d b p"
    and k: "md_iframe_cur (pl_md p) = int k" "k < length ixs" "int (INDEX_HDR_LEN + INDEX_DATA_LEN * length ixs) < 2 ^ 31"
  shows "\<exists>hi. seek_index (pl_md p) = (True, (pl_md p)\<lparr>md_hidx := hi\<rparr>) \<and> before (rw_disks w) hi Idx d b (INDEX_HDR_LEN + INDEX_DATA_LEN * k) (enc_index_data (ixs ! k))"
proof -
  obtain bh ih rb ri where f: "the_file (rw_disks w) Idx d b = Some (enc_index_hdr ih @ index_bytes ixs @ ri)" "length (enc_index_hdr ih) = INDEX_HDR_LEN"
    using s by (auto simp: sealed_def)
  have pos: "int (INDEX_HDR_LEN + INDEX_DATA_LEN * k) < 2 ^ 31" using k(2,3) by (simp add: INDEX_DATA_LEN_def)
  have "BKT_transIndexNumToPos (int k) = int (INDEX_HDR_LEN + INDEX_DATA_LEN * k)"
    using pos by (simp add: BKT_transIndexNumToPos_def INDEX_DATA_LEN_def INDEX_HDR_LEN_def)
  then have o: "off32 (BKT_transIndexNumToPos (int k)) = int (INDEX_HDR_LEN + INDEX_DATA_LEN * k)"
    using pos by (simp add: off32_def Let_def)
  let ?hi = "Some \<lparr>hd_kind = Idx, hd_disk = d, hd_bid = b, hd_pos = INDEX_HDR_LEN + INDEX_DATA_LEN * k\<rparr>"
  obtain m where h: "md_hidx (pl_md p) = Some \<lparr>hd_kind = Idx, hd_disk = d, hd_bid = b, hd_pos = m\<rparr>" using p by (auto simp: on_basket_def)
  have seek: "seek_index (pl_md p) = (True, (pl_md p)\<lparr>md_hidx := ?hi\<rparr>)"
    unfolding seek_index_def h k(1) o seek_set_int by simp
  have "drop (INDEX_HDR_LEN + INDEX_DATA_LEN * k) (enc_index_hdr ih @ index_bytes ixs @ ri)
      = enc_index_data (ixs ! k) @ index_bytes (drop (Suc k) ixs) @ ri"
    using index_bytes_drop [OF k(2)] f(2) k(2) by (simp add: INDEX_DATA_LEN_def)
  moreover have "INDEX_HDR_LEN + INDEX_DATA_LEN * k \<le> length (enc_index_hdr ih @ index_bytes ixs @ ri)"
    using f(2) k(2) by (simp add: INDEX_DATA_LEN_def)
  ultimately have "before (rw_disks w) ?hi Idx d b (INDEX_HDR_LEN + INDEX_DATA_LEN * k) (enc_index_data (ixs ! k))"
    using f(1) by (auto simp: before_def)
  with seek show ?thesis by blast
qed

lemma read_video_ok:
  assumes ev: "healthy ev" and h: "before (rw_disks w) (md_hbkt (pl_md p)) Bkt d b pos (item_bytes (Vid sh vh pl) @ rest)"
    and i: "item_ok (Vid sh vh pl)" "0 < length pl" "length pl \<le> length (mp_vbuffer (pl_dp p))"
    and on: "length decflags = 16" "decflags ! nat (sh_ch sh) = 1" and old: "length old = STREAM_HDR_LEN" "length vold = VIDEO_HDR_LEN"
  shows "\<exists>p'. read_video ev (lh, lv, ld) w decflags old vold p = Some (True, p') \<and> delivers (Vid sh vh pl) (pl_dp p')
    \<and> before (rw_disks w) (md_hbkt (pl_md p')) Bkt d b (pos + length (item_bytes (Vid sh vh pl))) rest
    \<and> pl_md p' = (pl_md p)\<lparr>md_hbkt := md_hbkt (pl_md p'), md_sec := sh_sec sh, md_fpos_bkt := int (pos + length (item_bytes (Vid sh vh pl)))\<rparr>
    \<and> mp_bktId (pl_dp p') = md_bid (pl_md p)"
proof -
  have sok: "stream_hdr_ok sh" and vok: "video_hdr_ok vh" and id: "sh_id sh = ID_VIDEO_HEADER"
    and fs: "sh_framesize sh = int (length pl)" and ch: "0 \<le> sh_ch sh" "sh_ch sh < 16" using i(1) by simp_all
  have b0: "before (rw_disks w) (md_hbkt (pl_md p)) Bkt d b pos (enc_stream_hdr sh @ enc_video_hdr vh @ pl @ rest)" using h by simp
  let ?h = "\<lambda>n. Some \<lparr>hd_kind = Bkt, hd_disk = d, hd_bid = b, hd_pos = n\<rparr>"
  have r1: "rd ev lh 0 old (md_hbkt (pl_md p)) (rw_disks w) = (True, enc_stream_hdr sh, ?h (pos + length (enc_stream_hdr sh)))"
    by (rule rd_before [OF ev b0]) (use old length_stream_enc [OF sok] enc_stream_ne [OF sok] in simp_all)
  note b1 = before_skip [OF b0]
  have r2: "rd ev lv 0 vold (?h (pos + length (enc_stream_hdr sh))) (rw_disks w)
      = (True, enc_video_hdr vh, ?h (pos + length (enc_stream_hdr sh) + length (enc_video_hdr vh)))"
    by (rule rd_before [OF ev b1]) (use old video_enc [OF vok] in simp_all)
  note b2 = before_skip [OF b1]
  let ?n = "pos + length (enc_stream_hdr sh) + length (enc_video_hdr vh)"
  let ?p2 = "p\<lparr>pl_md := (pl_md p)\<lparr>md_hbkt := ?h ?n\<rparr>\<rparr>"
  let ?p3 = "p\<lparr>pl_md := (pl_md p)\<lparr>md_hbkt := ?h (?n + length pl)\<rparr>, pl_dp := (pl_dp p)\<lparr>mp_vbuffer := pl @ drop (length pl) (mp_vbuffer (pl_dp p))\<rparr>\<rparr>"
  have r3: "read_data ev ld 0 (sh_framesize sh) w ?p2 = Some (True, ?p3)"
    using read_data_before [OF ev, of w ?p2 Bkt d b _ pl rest] b2 i fs by simp
  have con: "channel_on decflags (sh_ch sh) = Some True" using ch on by (simp add: channel_on_def)
  define p' where "p' = set_place (at_frame sh (?p3\<lparr>pl_dp := (show_video sh vh (pl_dp ?p3))\<lparr>mp_fpos := 1\<rparr>\<rparr>))"
  have run: "read_video ev (lh, lv, ld) w decflags old vold p = Some (True, p')"
    using r1 r2 r3 con id dec_stream_enc [OF sok] video_enc [OF vok] unfolding read_video_def p'_def by (simp add: Let_def)
  have "delivers (Vid sh vh pl) (pl_dp p')" using fs by (simp add: p'_def set_place_def at_frame_def show_video_def)
  moreover have "md_hbkt (pl_md p') = ?h (?n + length pl)" by (simp add: p'_def set_place_def at_frame_def)
  then have "before (rw_disks w) (md_hbkt (pl_md p')) Bkt d b (pos + length (item_bytes (Vid sh vh pl))) rest"
    using before_skip [OF b2] by (simp add: add.assoc)
  moreover have "pl_md p' = (pl_md p)\<lparr>md_hbkt := md_hbkt (pl_md p'), md_sec := sh_sec sh, md_fpos_bkt := int (pos + length (item_bytes (Vid sh vh pl)))\<rparr>"
    "mp_bktId (pl_dp p') = md_bid (pl_md p)"
    by (simp_all add: p'_def set_place_def at_frame_def h_tell_def)
  ultimately show ?thesis using run by blast
qed

text \<open>The entry of the index leads to its key frame.\<close>

lemma key_frame:
  assumes s: "sealed flag bts its (pre @ Vid sh vh pl # post) ixs (rw_disks w) d b" and key: "sh_frametype sh = FT_IFRAME"
  shows "keys_in pre < length ixs" "index_data_ok (ixs ! keys_in pre)"
    "ix_fpos (ixs ! keys_in pre) = int (BASKET_HDR_LEN + length (items_bytes pre))" "item_ok (Vid sh vh pl)"
    "\<exists>rest. before (rw_disks w) (Some \<lparr>hd_kind = Bkt, hd_disk = d, hd_bid = b, hd_pos = BASKET_HDR_LEN + length (items_bytes pre)\<rparr>)
       Bkt d b (BASKET_HDR_LEN + length (items_bytes pre)) (item_bytes (Vid sh vh pl) @ rest)"
proof -
  let ?items = "pre @ Vid sh vh pl # post" and ?q = "BASKET_HDR_LEN + length (items_bytes pre)"
  obtain bh rb where f: "the_file (rw_disks w) Bkt d b = Some (enc_basket_hdr bh @ items_bytes ?items @ rb)" "length (enc_basket_hdr bh) = BASKET_HDR_LEN"
    and ok: "list_all item_ok ?items" and ix: "list_all2 indexes (iframes BASKET_HDR_LEN ?items) ixs"
    using s by (auto simp: sealed_def)
  have i: "iframes BASKET_HDR_LEN ?items = iframes BASKET_HDR_LEN pre @ (?q, sh, vh) # iframes (?q + length (item_bytes (Vid sh vh pl))) post"
    using key by simp
  have len: "keys_in pre < length (iframes BASKET_HDR_LEN ?items)" unfolding i by (simp add: length_iframes)
  then show "keys_in pre < length ixs" unfolding list_all2_lengthD [OF ix] .
  have "iframes BASKET_HDR_LEN ?items ! keys_in pre = (?q, sh, vh)"
    unfolding i by (metis length_iframes nth_append_length)
  then have "indexes (?q, sh, vh) (ixs ! keys_in pre)" using list_all2_nthD [OF ix len] by metis
  then show "index_data_ok (ixs ! keys_in pre)" "ix_fpos (ixs ! keys_in pre) = int ?q" by (simp_all add: indexes_def)
  show "item_ok (Vid sh vh pl)" using ok by simp
  have "before (rw_disks w) (Some \<lparr>hd_kind = Bkt, hd_disk = d, hd_bid = b, hd_pos = 0\<rparr>) Bkt d b 0
      ((enc_basket_hdr bh @ items_bytes pre) @ (item_bytes (Vid sh vh pl) @ items_bytes post))"
    using before_prefix [of "rw_disks w" _ Bkt d b 0 _ rb] before_start [OF f(1)] by simp
  from before_skip [OF this] have "before (rw_disks w) (Some \<lparr>hd_kind = Bkt, hd_disk = d, hd_bid = b, hd_pos = ?q\<rparr>)
       Bkt d b ?q (item_bytes (Vid sh vh pl) @ items_bytes post)"
    using f(2) by simp
  then show "\<exists>rest. before (rw_disks w) (Some \<lparr>hd_kind = Bkt, hd_disk = d, hd_bid = b, hd_pos = ?q\<rparr>) Bkt d b ?q (item_bytes (Vid sh vh pl) @ rest)"
    by blast
qed

text \<open>From the current entry to its frame, as all three readers of key frames do it.\<close>

lemma key_frame_read:
  assumes ev: "healthy ev" and s: "sealed flag bts its (pre @ Vid sh vh pl # post) ixs (rw_disks w) d b" and key: "sh_frametype sh = FT_IFRAME"
    and p: "on_basket w d b p" and k: "md_iframe_cur (pl_md p) = int (keys_in pre)" "int (INDEX_HDR_LEN + INDEX_DATA_LEN * length ixs) < 2 ^ 31"
    and i: "0 < length pl" "length pl \<le> length (mp_vbuffer (pl_dp p))" and on: "length decflags = 16" "decflags ! nat (sh_ch sh) = 1"
    and lens: "length xold = INDEX_DATA_LEN" "length old = STREAM_HDR_LEN" "length vold = VIDEO_HDR_LEN"
  shows "\<exists>hi hi' hb p'. seek_index (pl_md p) = (True, (pl_md p)\<lparr>md_hidx := hi\<rparr>)
    \<and> rd ev lx 0 xold hi (rw_disks w) = (True, enc_index_data (ixs ! keys_in pre), hi')
    \<and> seek_set (ix_fpos (dec_index_data (enc_index_data (ixs ! keys_in pre)))) (md_hbkt (pl_md p)) = (True, hb)
    \<and> read_video ev (lh, lv, ld) w decflags old vold (p\<lparr>pl_md := (pl_md p)\<lparr>md_hidx := hi', md_hbkt := hb\<rparr>\<rparr>) = Some (True, p')
    \<and> delivers (Vid sh vh pl) (pl_dp p') \<and> on_basket w d b p' \<and> md_iframe_cur (pl_md p') = int (keys_in pre)
    \<and> md_sec (pl_md p') = sh_sec sh \<and> md_iframe_cnt (pl_md p') = md_iframe_cnt (pl_md p)"
proof -
  note kf = key_frame [OF s key]
  let ?x = "ixs ! keys_in pre" and ?q = "BASKET_HDR_LEN + length (items_bytes pre)"
  obtain hi where hi: "seek_index (pl_md p) = (True, (pl_md p)\<lparr>md_hidx := hi\<rparr>)"
    "before (rw_disks w) hi Idx d b (INDEX_HDR_LEN + INDEX_DATA_LEN * keys_in pre) (enc_index_data ?x)"
    using index_entry_read [OF ev s p k(1) kf(1) k(2)] by blast
  let ?hi' = "Some \<lparr>hd_kind = Idx, hd_disk = d, hd_bid = b, hd_pos = INDEX_HDR_LEN + INDEX_DATA_LEN * keys_in pre + length (enc_index_data ?x)\<rparr>"
  have "enc_index_data ?x \<noteq> []" using length_index_data [of ?x] by (intro notI) (simp add: INDEX_DATA_LEN_def)
  then have rx: "rd ev lx 0 xold hi (rw_disks w) = (True, enc_index_data ?x, ?hi')"
    using rd_before [OF ev, of "rw_disks w" hi Idx d b _ "enc_index_data ?x" "[]" xold lx 0] hi(2) lens(1) by simp
  have dx: "dec_index_data (enc_index_data ?x) = ?x" using dec_enc_index_data [OF kf(2), of "[]"] by simp
  obtain n where hb0: "md_hbkt (pl_md p) = Some \<lparr>hd_kind = Bkt, hd_disk = d, hd_bid = b, hd_pos = n\<rparr>" using p by (auto simp: on_basket_def)
  let ?hb = "Some \<lparr>hd_kind = Bkt, hd_disk = d, hd_bid = b, hd_pos = ?q\<rparr>"
  have sk: "seek_set (ix_fpos (dec_index_data (enc_index_data ?x))) (md_hbkt (pl_md p)) = (True, ?hb)"
    unfolding dx kf(3) hb0 seek_set_int by simp
  let ?p1 = "p\<lparr>pl_md := (pl_md p)\<lparr>md_hidx := ?hi', md_hbkt := ?hb\<rparr>\<rparr>"
  obtain rest where "before (rw_disks w) ?hb Bkt d b ?q (item_bytes (Vid sh vh pl) @ rest)" using kf(5) by blast
  then obtain p' where rv: "read_video ev (lh, lv, ld) w decflags old vold ?p1 = Some (True, p')" "delivers (Vid sh vh pl) (pl_dp p')"
    "before (rw_disks w) (md_hbkt (pl_md p')) Bkt d b (?q + length (item_bytes (Vid sh vh pl))) rest"
    "pl_md p' = (pl_md ?p1)\<lparr>md_hbkt := md_hbkt (pl_md p'), md_sec := sh_sec sh, md_fpos_bkt := int (?q + length (item_bytes (Vid sh vh pl)))\<rparr>"
    using read_video_ok [OF ev, of w ?p1 d b ?q sh vh pl rest decflags old vold lh lv ld] kf(4) i on lens by auto
  obtain h2 where md: "pl_md p' = (pl_md ?p1)\<lparr>md_hbkt := h2, md_sec := sh_sec sh, md_fpos_bkt := int (?q + length (item_bytes (Vid sh vh pl)))\<rparr>"
    using rv(4) by blast
  have "h2 = Some \<lparr>hd_kind = Bkt, hd_disk = d, hd_bid = b, hd_pos = ?q + length (item_bytes (Vid sh vh pl))\<rparr>"
    using rv(3) by (simp add: before_def md)
  then have "on_basket w d b p'" "md_iframe_cur (pl_md p') = int (keys_in pre)" "md_sec (pl_md p') = sh_sec sh" "md_iframe_cnt (pl_md p') = md_iframe_cnt (pl_md p)"
    using p k(1) by (simp_all add: md on_basket_def)
  with hi(1) rx sk rv(1,2) show ?thesis by blast
qed

text \<open>The previous key frame.\<close>

lemma prev_key_frame:
  assumes ev: "healthy ev" and s: "sealed flag bts its (pre @ Vid sh vh pl # post) ixs (rw_disks w) d b" and key: "sh_frametype sh = FT_IFRAME"
    and p: "on_basket w d b p" and k: "md_iframe_cur (pl_md p) = int (Suc (keys_in pre))" "int (INDEX_HDR_LEN + INDEX_DATA_LEN * length ixs) < 2 ^ 31"
    and i: "0 < length pl" "length pl \<le> length (mp_vbuffer (pl_dp p))" and on: "length decflags = 16" "decflags ! nat (sh_ch sh) = 1"
  shows "\<exists>p'. BKTMD_ReadPrevIFrame ev w decflags p = Some (BKT_OK, p') \<and> delivers (Vid sh vh pl) (pl_dp p') \<and> on_basket w d b p'
    \<and> md_iframe_cur (pl_md p') = int (keys_in pre) \<and> md_sec (pl_md p') = sh_sec sh"
proof -
  let ?p1 = "upd_md (\<lambda>c. c\<lparr>md_iframe_cur := int (keys_in pre)\<rparr>) p"
  have p1: "on_basket w d b ?p1" "md_iframe_cur (pl_md ?p1) = int (keys_in pre)" "length pl \<le> length (mp_vbuffer (pl_dp ?p1))"
    using p i(2) by (simp_all add: on_basket_def)
  obtain hi hi' hb p' where r: "seek_index (pl_md ?p1) = (True, (pl_md ?p1)\<lparr>md_hidx := hi\<rparr>)"
    "rd ev 1757 0 (junk ev 1728 INDEX_DATA_LEN) hi (rw_disks w) = (True, enc_index_data (ixs ! keys_in pre), hi')"
    "seek_set (ix_fpos (dec_index_data (enc_index_data (ixs ! keys_in pre)))) (md_hbkt (pl_md ?p1)) = (True, hb)"
    "read_video ev (1772, 1787, 1792) w decflags (junk ev 1729 STREAM_HDR_LEN) (junk ev 1730 VIDEO_HDR_LEN)
       (?p1\<lparr>pl_md := (pl_md ?p1)\<lparr>md_hidx := hi', md_hbkt := hb\<rparr>\<rparr>) = Some (True, p')"
    "delivers (Vid sh vh pl) (pl_dp p')" "on_basket w d b p'" "md_iframe_cur (pl_md p') = int (keys_in pre)" "md_sec (pl_md p') = sh_sec sh"
    using key_frame_read [OF ev s key p1(1,2) k(2) i(1) p1(3) on length_junk length_junk length_junk] by blast
  have "BKTMD_ReadPrevIFrame ev w decflags p = Some (BKT_OK, p')"
    unfolding BKTMD_ReadPrevIFrame_def using p k(1) r(1-4)
    by (subst prev_loop.simps) (simp add: on_basket_def Let_def BKT_OK_def BKT_ERR_def)
  with r(5-8) show ?thesis by blast
qed

text \<open>The next key frame of a basket that is not being recorded.\<close>

lemma next_key_frame:
  assumes ev: "healthy ev" and s: "sealed flag bts its (pre @ Vid sh vh pl # post) ixs (rw_disks w) d b" and key: "sh_frametype sh = FT_IFRAME"
    and p: "on_basket w d b p" and k: "md_iframe_cur (pl_md p) + 1 = int (keys_in pre)" "int (INDEX_HDR_LEN + INDEX_DATA_LEN * length ixs) < 2 ^ 31"
    and cnt: "md_iframe_cnt (pl_md p) = int (length ixs)" and notrec: "\<not> BKT_isRecordingBasket b w (pl_md p)"
    and ahead: "md_fpos_bkt (pl_md p) \<le> int (BASKET_HDR_LEN + length (items_bytes pre))"
    and i: "0 < length pl" "length pl \<le> length (mp_vbuffer (pl_dp p))" and on: "length decflags = 16" "decflags ! nat (sh_ch sh) = 1"
  shows "\<exists>p'. BKTMD_ReadNextIFrame ev w decflags p = Some (BKT_OK, p') \<and> delivers (Vid sh vh pl) (pl_dp p') \<and> on_basket w d b p'
    \<and> md_iframe_cur (pl_md p') = int (keys_in pre) \<and> md_sec (pl_md p') = sh_sec sh"
proof -
  let ?p1 = "upd_md (\<lambda>c. c\<lparr>md_iframe_cur := int (keys_in pre)\<rparr>) p"
  have p1: "on_basket w d b ?p1" "md_iframe_cur (pl_md ?p1) = int (keys_in pre)" "length pl \<le> length (mp_vbuffer (pl_dp ?p1))"
    using p i(2) by (simp_all add: on_basket_def)
  have ni: "next_index ev w (pl_md p) = Some (BKT_OK, pl_md ?p1)"
    using p k(1) cnt notrec key_frame(1) [OF s key] by (simp add: next_index_def Let_def on_basket_def)
  obtain hi hi' hb p' where r: "seek_index (pl_md ?p1) = (True, (pl_md ?p1)\<lparr>md_hidx := hi\<rparr>)"
    "rd ev 1636 0 (junk ev 1630 INDEX_DATA_LEN) hi (rw_disks w) = (True, enc_index_data (ixs ! keys_in pre), hi')"
    "seek_set (ix_fpos (dec_index_data (enc_index_data (ixs ! keys_in pre)))) (md_hbkt (pl_md ?p1)) = (True, hb)"
    "read_video ev (1643, 1649, 1651) w decflags (junk ev 1631 STREAM_HDR_LEN) (junk ev 1632 VIDEO_HDR_LEN)
       (?p1\<lparr>pl_md := (pl_md ?p1)\<lparr>md_hidx := hi', md_hbkt := hb\<rparr>\<rparr>) = Some (True, p')"
    "delivers (Vid sh vh pl) (pl_dp p')" "on_basket w d b p'" "md_iframe_cur (pl_md p') = int (keys_in pre)" "md_sec (pl_md p') = sh_sec sh"
    using key_frame_read [OF ev s key p1(1,2) k(2) i(1) p1(3) on length_junk length_junk length_junk] by blast
  have "ix_fpos (dec_index_data (enc_index_data (ixs ! keys_in pre))) = int (BASKET_HDR_LEN + length (items_bytes pre))"
    using dec_enc_index_data [OF key_frame(2) [OF s key], of "[]"] key_frame(3) [OF s key] by simp
  then have fp: "\<not> ix_fpos (dec_index_data (enc_index_data (ixs ! keys_in pre))) < md_fpos_bkt (pl_md p)" using ahead by linarith
  have "BKTMD_ReadNextIFrame ev w decflags p = Some (BKT_OK, p')"
    using p r(1-4) fp by (subst BKTMD_ReadNextIFrame.simps) (simp add: ni on_basket_def Let_def BKT_OK_def BKT_ERR_def)
  with r(5-8) show ?thesis by blast
qed

end
