(* ===== verification/Basket_Rdb.thy ===== *)
theory Basket_Rdb
  imports Basket_Replay
begin

text \<open>The record database between the recorder and the player: what a flush enters is found
  again, what a stop leaves out, and what the player does behind the end mark of a recycled
  basket.\<close>

section \<open>Minutes\<close>

text \<open>A cell with a basket has an event.\<close>

definition consistent :: "(nat \<Rightarrow> int) \<Rightarrow> (nat \<Rightarrow> int \<times> int) \<Rightarrow> bool" where
  "consistent evts rdbs \<longleftrightarrow> (\<forall>i. fst (rdbs i) \<noteq> 0 \<longrightarrow> evts i \<noteq> 0)"

definition entry_ok :: "(int \<Rightarrow> bkt_tm) \<Rightarrow> rdb_prm \<Rightarrow> bool" where
  "entry_ok local q \<longleftrightarrow> rp_bid q \<noteq> 0 \<and> evt_char (rp_evt q) \<noteq> 0 \<and> 0 \<le> rp_ch q \<and> rp_ch q < 16
     \<and> (let tm = local (rp_sec q) in 0 \<le> tm_hour tm \<and> tm_hour tm < 24 \<and> 0 \<le> tm_min tm \<and> tm_min tm < 60)"

lemma rdb_loop_all:
  assumes "consistent evts rdbs" "list_all (entry_ok local) ps" "\<forall>q \<in> set ps. tm_mday (local (rp_sec q)) = day"
    "rdb_loop local day ps evts rdbs n = (evts', rdbs', n', rest)"
  shows "rest = [] \<and> consistent evts' rdbs' \<and> (\<forall>i. fst (rdbs i) \<noteq> 0 \<longrightarrow> fst (rdbs' i) \<noteq> 0)
    \<and> (\<forall>q \<in> set ps. fst (rdbs' (rdb_offset (rp_ch q) (local (rp_sec q)))) \<noteq> 0)"
  using assms
proof (induction ps arbitrary: evts rdbs n)
  case (Cons q ps)
  let ?o = "rdb_offset (rp_ch q) (local (rp_sec q))"
  have q: "rp_bid q \<noteq> 0" "evt_char (rp_evt q) \<noteq> 0" "tm_mday (local (rp_sec q)) = day" using Cons.prems(2,3) by (simp_all add: entry_ok_def)
  show ?case
  proof (cases "fst (rdbs ?o) = 0")
    case True
    let ?e = "evts(?o := evt_char (rp_evt q))" and ?r = "rdbs(?o := (rp_bid q, rp_idx_pos q))"
    have c: "consistent ?e ?r" using Cons.prems(1) q by (simp add: consistent_def)
    have l: "rdb_loop local day ps ?e ?r (n + 1) = (evts', rdbs', n', rest)" using Cons.prems(4) True q(3) by (simp add: Let_def)
    from Cons.IH [OF c _ _ l] Cons.prems(2,3)
    have ih: "rest = []" "consistent evts' rdbs'" "\<forall>i. fst (?r i) \<noteq> 0 \<longrightarrow> fst (rdbs' i) \<noteq> 0"
      "\<forall>q \<in> set ps. fst (rdbs' (rdb_offset (rp_ch q) (local (rp_sec q)))) \<noteq> 0" by auto
    have "fst (rdbs' ?o) \<noteq> 0" using ih(3) q(1) by (auto dest: spec [of _ ?o])
    moreover have "fst (rdbs' i) \<noteq> 0" if "fst (rdbs i) \<noteq> 0" for i
      using ih(3) that True by (cases "i = ?o") (auto dest: spec [of _ i])
    ultimately show ?thesis using ih by simp
  next
    case False
    have l: "rdb_loop local day ps evts rdbs n = (evts', rdbs', n', rest)" using Cons.prems(4) False q(3) by (simp add: Let_def)
    from Cons.IH [OF Cons.prems(1) _ _ l] Cons.prems(2,3)
    have ih: "rest = []" "consistent evts' rdbs'" "\<forall>i. fst (rdbs i) \<noteq> 0 \<longrightarrow> fst (rdbs' i) \<noteq> 0"
      "\<forall>q \<in> set ps. fst (rdbs' (rdb_offset (rp_ch q) (local (rp_sec q)))) \<noteq> 0" by auto
    then show ?thesis using False by simp
  qed
qed simp

lemma rdb_loop_none:
  assumes "rdb_loop local day ps evts rdbs n = (evts', rdbs', n', rest)" "n' = n"
  shows "evts' = evts \<and> rdbs' = rdbs"
  using assms
proof (induction ps arbitrary: n)
  case (Cons q ps)
  let ?o = "rdb_offset (rp_ch q) (local (rp_sec q))"
  show ?case
  proof (cases "tm_mday (local (rp_sec q)) = day \<and> fst (rdbs ?o) = 0")
    case True
    then have "rdb_loop local day ps (evts(?o := evt_char (rp_evt q))) (rdbs(?o := (rp_bid q, rp_idx_pos q))) (n + 1) = (evts', rdbs', n', rest)"
      using Cons.prems(1) by (auto simp: Let_def)
    with rdb_loop_rest [of local day ps "evts(?o := evt_char (rp_evt q))" "rdbs(?o := (rp_bid q, rp_idx_pos q))" "n + 1"] Cons.prems(2)
    show ?thesis by simp
  next
    case False
    then show ?thesis using Cons by (cases "tm_mday (local (rp_sec q)) = day") (auto simp: Let_def)
  qed
qed simp

text \<open>A flush of entries of one day.\<close>

definition rdb_consistent :: "bkt_disk \<Rightarrow> bool" where
  "rdb_consistent d \<longleftrightarrow> (\<forall>k f e r. dk_rdb d k = Some f \<longrightarrow> rf_evts f = Some e \<longrightarrow> rf_rdbs f = Some r \<longrightarrow> consistent e r)"

lemma Flush_RDBDATA_enters:
  assumes ev: "healthy ev" and ok: "rdb_ok (cur_disk w)" "rdb_consistent (cur_disk w)" and r: "rc_r_buf (rw_ctrl w) = p # ps"
    and es: "list_all (entry_ok (ev_local ev)) (p # ps)" "\<forall>q \<in> set (p # ps). day_key (ev_local ev (rp_sec q)) = day_key (ev_local ev (rp_sec p))
      \<and> tm_mday (ev_local ev (rp_sec q)) = tm_mday (ev_local ev (rp_sec p))"
  shows "\<exists>w' e r'. BKTREC_Flush_RDBDATA ev w = (BKT_OK, w') \<and> rc_r_buf (rw_ctrl w') = [] \<and> rc_target_path (rw_ctrl w') = rc_target_path (rw_ctrl w)
    \<and> dk_rdb (cur_disk w') (day_key (ev_local ev (rp_sec p))) = Some \<lparr>rf_evts = Some e, rf_rdbs = Some r'\<rparr>
    \<and> consistent e r' \<and> (\<forall>q \<in> set (p # ps). fst (r' (rdb_offset (rp_ch q) (ev_local ev (rp_sec q)))) \<noteq> 0)"
proof -
  let ?tm = "ev_local ev (rp_sec p)" and ?d = "cur_disk w"
  let ?key = "day_key ?tm"
  have day: "\<forall>q \<in> set (p # ps). tm_mday (ev_local ev (rp_sec q)) = tm_mday ?tm" using es(2) by blast
  obtain e0 r0 d1 where o: "rdb_open ev ?key ?d = (Some (e0, r0), d1)" and c0: "consistent e0 r0"
    and d1: "dk_rdb d1 ?key = Some \<lparr>rf_evts = Some e0, rf_rdbs = Some r0\<rparr> \<or> dk_rdb ?d ?key = None \<and> e0 = (\<lambda>_. 0) \<and> r0 = (\<lambda>_. (0, 0))"
  proof (cases "dk_rdb ?d ?key")
    case (Some f)
    obtain e rb where f: "rf_evts f = Some e" "rf_rdbs f = Some rb" using ok(1) Some unfolding rdb_ok_def by blast
    then have "f = \<lparr>rf_evts = Some e, rf_rdbs = Some rb\<rparr>" by simp
    then show thesis using that [of e rb ?d] Some f ev ok(2) by (auto simp: rdb_open_def rdb_consistent_def)
  next
    case None
    then show thesis using that [of "\<lambda>_. 0" "\<lambda>_. (0, 0)"] ev by (simp add: rdb_open_def Let_def consistent_def)
  qed
  obtain e' r' n rest where l: "rdb_loop (ev_local ev) (tm_mday ?tm) (p # ps) e0 r0 0 = (e', r', n, rest)" by (metis prod_cases4)
  note all = rdb_loop_all [OF c0 es(1) day l]
  show ?thesis
  proof (cases "n = 0")
    case True
    have "n \<noteq> 0" if "r0 = (\<lambda>_. (0, 0))" using rdb_loop_first [of "ev_local ev" p ps e0] l that by simp
    then have d1': "dk_rdb d1 ?key = Some \<lparr>rf_evts = Some e0, rf_rdbs = Some r0\<rparr>" using d1 True by blast
    have same: "e' = e0 \<and> r' = r0" by (rule rdb_loop_none [OF l True])
    define w' where "w' = snd (BKTREC_Flush_RDBDATA ev w)"
    have "BKTREC_Flush_RDBDATA ev w = (BKT_OK, w')" "rc_r_buf (rw_ctrl w') = []" "rc_target_path (rw_ctrl w') = rc_target_path (rw_ctrl w)"
      "dk_rdb (cur_disk w') ?key = Some \<lparr>rf_evts = Some e0, rf_rdbs = Some r0\<rparr>"
      using r o l True all d1' by (simp_all add: w'_def BKTREC_Flush_RDBDATA_def Let_def upd_disk_def)
    then show ?thesis using all same by blast
  next
    case False
    define w' where "w' = snd (BKTREC_Flush_RDBDATA ev w)"
    have "BKTREC_Flush_RDBDATA ev w = (BKT_OK, w')" "rc_r_buf (rw_ctrl w') = []" "rc_target_path (rw_ctrl w') = rc_target_path (rw_ctrl w)"
      "dk_rdb (cur_disk w') ?key = Some \<lparr>rf_evts = Some e', rf_rdbs = Some r'\<rparr>"
      using r o l False all ev by (simp_all add: w'_def BKTREC_Flush_RDBDATA_def Let_def upd_disk_def)
    then show ?thesis using all by blast
  qed
qed

text \<open>A minute of the record database is found in either direction from itself, and alone.\<close>

lemma minute_searched:
  assumes "m < TOTAL_MINUTES_DAY"
  shows "m \<in> set (search_minutes direction m)"
  using assms by (simp add: search_minutes_def)

lemma hasRecData_found:
  assumes ev: "healthy ev" and f: "dk_rdb (rw_disks w (md_target c)) (day_key (ev_local ev (rp_sec q))) = Some \<lparr>rf_evts = Some e, rf_rdbs = Some r\<rparr>"
    and c: "consistent e r" and q: "entry_ok (ev_local ev) q" "fst (r (rdb_offset (rp_ch q) (ev_local ev (rp_sec q)))) \<noteq> 0"
  shows "BKTMD_hasRecData ev w (nat (rp_ch q)) (rp_sec q) direction c = BKT_OK"
proof -
  let ?tm = "ev_local ev (rp_sec q)"
  have t: "0 \<le> tm_hour ?tm" "tm_hour ?tm < 24" "0 \<le> tm_min ?tm" "tm_min ?tm < 60" "0 \<le> rp_ch q"
    using q(1) by (simp_all add: entry_ok_def Let_def)
  have m: "minute_of ?tm < TOTAL_MINUTES_DAY" using t by (simp add: minute_of_def TOTAL_MINUTES_DAY_def)
  have "rdb_offset (rp_ch q) ?tm = nat (rp_ch q) * TOTAL_MINUTES_DAY + minute_of ?tm"
    using t by (simp add: rdb_offset_def minute_of_def nat_add_distrib nat_mult_distrib mult.commute)
  then have "e (nat (rp_ch q) * TOTAL_MINUTES_DAY + minute_of ?tm) \<noteq> 0" using c q(2) by (simp add: consistent_def)
  then have "list_ex (\<lambda>i. e (nat (rp_ch q) * TOTAL_MINUTES_DAY + i) \<noteq> 0) (search_minutes direction (minute_of ?tm))"
    using minute_searched [OF m] by (auto simp: list_ex_iff)
  then show ?thesis using f ev by (simp add: BKTMD_hasRecData_def Let_def read_evts_def)
qed

section \<open>Stopping\<close>

lemma Recinfo_rdb: "dk_rdb (rw_disks (snd (BKTREC_setBasketRecinfo ev bid flag path w)) d) = dk_rdb (rw_disks w d)"
  by (simp add: BKTREC_setBasketRecinfo_def Let_def upd_disk_def)

lemma updateBasketManager_rdb: "dk_rdb (rw_disks (snd (BKTREC_updateBasketManager ev bid flag w)) d) = dk_rdb (rw_disks w d)"
  by (auto simp: BKTREC_updateBasketManager_def Let_def Recinfo_rdb set_body_def upd_disk_def split: option.splits)

lemma setTargetDisk_rdb: "rw_disks (snd (BKTREC_setTargetDisk ev i w)) = rw_disks w"
  by (auto simp: BKTREC_setTargetDisk_def Let_def split: option.splits)

lemma h_write_rdb: "h_write cap bs h ds = (ok, h', ds') \<Longrightarrow> dk_rdb (ds' d) = dk_rdb (ds d)"
  by (auto simp: h_write_def Let_def split: option.splits if_splits)

lemma close_rdb:
  "dk_rdb (rw_disks (close_idx ev l res w) d) = dk_rdb (rw_disks w d)"
  "dk_rdb (rw_disks (close_bkt ev l flag w) d) = dk_rdb (rw_disks w d)"
  by (auto simp: close_idx_def close_bkt_def write_idx_def write_bkt_def Let_def split: prod.splits dest: h_write_rdb [of _ _ _ _ _ _ _ d])

lemma flush_bkt_rdb: "flush_bkt ev w = (ok, w') \<Longrightarrow> dk_rdb (rw_disks w' d) = dk_rdb (rw_disks w d) \<and> rc_r_skip (rw_ctrl w') = rc_r_skip (rw_ctrl w)
    \<and> rw_status w' = rw_status w"
  by (auto simp: flush_bkt_def Let_def split: if_splits prod.splits dest: h_write_rdb [of _ _ _ _ _ _ _ d])

lemma flush_idx_rdb: "flush_idx ev w = (ok, w') \<Longrightarrow> dk_rdb (rw_disks w' d) = dk_rdb (rw_disks w d) \<and> rc_r_skip (rw_ctrl w') = rc_r_skip (rw_ctrl w)
    \<and> rw_status w' = rw_status w"
  by (auto simp: flush_idx_def Let_def split: if_splits prod.splits dest: h_write_rdb [of _ _ _ _ _ _ _ d])

lemma Flush_skip_rdb:
  assumes "\<not> rc_r_skip (rw_ctrl w)" "BKTREC_FlushWriteBuffer ev w = (st, w')"
  shows "dk_rdb (rw_disks w' d) = dk_rdb (rw_disks w d)"
proof -
  obtain ok1 w1 where 1: "flush_bkt ev w = (ok1, w1)" by (meson surj_pair)
  obtain ok2 w2 where 2: "flush_idx ev w1 = (ok2, w2)" by (meson surj_pair)
  note r1 = flush_bkt_rdb [OF 1] and r2 = flush_idx_rdb [OF 2]
  have "w' = w1 \<or> w' = w2"
    using assms 1 2 r1 r2 by (auto simp: BKTREC_FlushWriteBuffer_def flush_rdb_def split: bool.splits)
  then show ?thesis using r1 [of d] r2 [of d] by auto
qed

text \<open>Whatever the calls return, a stop without an earlier flush enters no minute.\<close>

lemma exit_rdb:
  assumes "\<not> rc_r_skip (rw_ctrl w)"
  shows "dk_rdb (rw_disks (snd (BKTREC_exit ev flag fl w)) d) = dk_rdb (rw_disks w d)"
proof -
  obtain st w0 where f: "(if fl = BKT_REC_CLOSE_BUF_FLUSH then BKTREC_FlushWriteBuffer ev w else (BKT_OK, w)) = (st, w0)" by (meson surj_pair)
  then have "dk_rdb (rw_disks w0 d) = dk_rdb (rw_disks w d)" using Flush_skip_rdb [OF assms] by (auto split: if_splits)
  then show ?thesis
    by (simp add: BKTREC_exit_def f Let_def setTargetDisk_rdb updateBasketManager_rdb close_rdb)
qed

section \<open>Behind the end mark\<close>

text \<open>When the key frames of a channel have been passed over, the count of the player is
  behind, and it takes what a recycled file holds after the end mark for the next frame.\<close>

lemma stale_frame:
  assumes ev: "healthy ev" and s: "sealed flag bts its items ixs (rw_disks w) d b"
    and p: "playing w d b pos (item_bytes (End e) @ item_bytes (Vid sh vh pl) @ rest) p" "on_basket w d b p" and e: "item_ok (End e)"
    and k: "md_iframe_cur (pl_md p) = int k" "Suc k < length ixs" "md_iframe_cnt (pl_md p) = int (length ixs)" "int (INDEX_HDR_LEN + INDEX_DATA_LEN * length ixs) < 2 ^ 31"
    and notrec: "\<not> BKT_isRecordingBasket b w (pl_md p)" and i: "item_ok (Vid sh vh pl)" "0 < length pl" "length pl \<le> length (mp_vbuffer (pl_dp p))"
    and on: "length decflags = 16" "decflags ! nat (sh_ch sh) = 1"
  shows "\<exists>p'. BKTMD_ReadNextFrame ev w decflags p = Some (BKT_OK, p') \<and> delivers (Vid sh vh pl) (pl_dp p')"
proof -
  obtain p1 where 1: "frame_round ev 0 w decflags (junk ev 1285 STREAM_HDR_LEN) p = Some (Break, enc_stream_hdr e, p1)"
    "playing w d b (pos + STREAM_HDR_LEN) (item_bytes (Vid sh vh pl) @ rest) p1" "keeps p1 p" "pl_dp p1 = pl_dp p"
    "md_iframe_cur (pl_md p1) = int k" "md_iframe_cnt (pl_md p1) = int (length ixs)"
    using round_end [OF ev p(1) e, of "junk ev 1285 STREAM_HDR_LEN" 0 decflags] k(1,3) by auto
  have id: "sh_id (dec_stream_hdr (enc_stream_hdr e)) = ID_BASKET_END" using dec_stream_enc [of e] e by simp
  have loop: "frame_loop ev 0 w decflags (junk ev 1285 STREAM_HDR_LEN) p = Some (None, enc_stream_hdr e, p1)"
    using 1(1) p(1) by (subst frame_loop.simps) (simp add: playing_def)
  let ?p2 = "upd_md (\<lambda>c. c\<lparr>md_iframe_cur := int (Suc k)\<rparr>) p1"
  have st: "md_status (pl_md p1) = BKTMD_STATUS_OPEN" "md_bid (pl_md p1) = b" "md_target (pl_md p1) = d" using 1(2) by (simp_all add: playing_def)
  have nr: "\<not> BKT_isRecordingBasket b w (pl_md p1)" using notrec p(1) st by (simp add: BKT_isRecordingBasket_def playing_def)
  have ni: "next_index ev w (pl_md p1) = Some (BKT_OK, pl_md ?p2)"
    using 1(5,6) k(2) nr st by (simp add: next_index_def Let_def)
  have ob: "on_basket w d b ?p2"
    using p(2) 1(2,3) st by (auto simp: on_basket_def keeps_def playing_def before_def)
  obtain hi where hi: "seek_index (pl_md ?p2) = (True, (pl_md ?p2)\<lparr>md_hidx := hi\<rparr>)"
    "before (rw_disks w) hi Idx d b (INDEX_HDR_LEN + INDEX_DATA_LEN * Suc k) (enc_index_data (ixs ! Suc k))"
    using index_entry_read [OF ev s ob _ k(2) k(4)] by auto
  have "enc_index_data (ixs ! Suc k) \<noteq> []" using length_index_data [of "ixs ! Suc k"] by (intro notI) (simp add: INDEX_DATA_LEN_def)
  then obtain hi' where rx: "rd ev 1495 0 (junk ev 1489 INDEX_DATA_LEN) hi (rw_disks w) = (True, enc_index_data (ixs ! Suc k), hi')"
    using rd_before [OF ev, of "rw_disks w" hi Idx d b _ "enc_index_data (ixs ! Suc k)" "[]" "junk ev 1489 INDEX_DATA_LEN" 1495 0] hi(2) by simp
  let ?p3 = "?p2\<lparr>pl_md := (pl_md ?p2)\<lparr>md_hidx := hi'\<rparr>\<rparr>"
  have b3: "before (rw_disks w) (md_hbkt (pl_md ?p3)) Bkt d b (pos + STREAM_HDR_LEN) (item_bytes (Vid sh vh pl) @ rest)"
    using 1(2) by (simp add: playing_def)
  have l3: "length pl \<le> length (mp_vbuffer (pl_dp ?p3))" using i(3) 1(4) by simp
  obtain p' where rv: "read_video ev (1497, 1503, 1505) w decflags (junk ev 1490 STREAM_HDR_LEN) (junk ev 1491 VIDEO_HDR_LEN) ?p3 = Some (True, p')"
    "delivers (Vid sh vh pl) (pl_dp p')"
    using read_video_ok [OF ev b3 i(1,2) l3 on length_junk length_junk] by blast
  have "BKTMD_ReadNextFirstFrame ev w decflags p1 = Some (BKT_OK, p')"
    using hi(1) rx rv(1) st by (simp add: BKTMD_ReadNextFirstFrame_def ni Let_def BKT_OK_def BKT_ERR_def)
  then have "BKTMD_ReadNextFrame ev w decflags p = Some (BKT_OK, p')"
    using loop id by (simp add: BKTMD_ReadNextFrame_def)
  with rv(2) show ?thesis by blast
qed

end
