(* ===== verification/Basket_Demo.thy ===== *)
theory Basket_Demo
  imports Basket_Rdb
begin

text \<open>A recorder and a closed basket on which the statements about the basket storage are
  tried: one disk with two baskets, of which the first has just been opened; and a disk
  whose first basket holds two key frames, an end mark, and a frame of its earlier use.\<close>

section \<open>A recorder\<close>

definition demo_sh :: stream_hdr where
  "demo_sh = \<lparr>sh_id = 0, sh_ch = 0, sh_framesize = 0, sh_sec = 0, sh_usec = 0, sh_frametype = 0, sh_prevFpos = 0, sh_reserved = [0, 0, 0, 0]\<rparr>"

definition demo_env :: bkt_env where
  "demo_env = \<lparr>ev_io = \<lambda>l r. None, ev_now = 0, ev_local = \<lambda>sec. \<lparr>tm_year = 112, tm_mon = 1, tm_mday = sec div 1000, tm_hour = 0, tm_min = 1\<rparr>,
     ev_sh = demo_sh, ev_ah = \<lparr>ah_samplingrate = 0, ah_bitspersample = 0, ah_achannel = 0, ah_codec = 0, ah_reserved1 = 0, ah_reserved2 = 0\<rparr>,
     ev_ix = \<lparr>ix_id = 0, ix_sec = 0, ix_usec = 0, ix_fpos = 0, ix_ch = 0, ix_s_type = 0, ix_event = 0, ix_width = 0, ix_height = 0,
       ix_capMode = 0, ix_reserved1 = 0, ix_reserved2 = 0\<rparr>,
     ev_bh = \<lparr>bh_id = 0, bh_bid = 0, bh_latest_update = 0, bh_lPriority = 0, bh_s_type = 0, bh_ts = no_time, bh_save_flag = 0,
       bh_totalframecount = 0, bh_reserved = 0\<rparr>,
     ev_ih = \<lparr>ih_id = 0, ih_bid = 0, ih_count = 0, ih_ts = no_time, ih_reserved = 0\<rparr>, ev_junk = \<lambda>l i. 0\<rparr>"

definition demo_body :: "int \<Rightarrow> mgr_body" where
  "demo_body b = \<lparr>mb_id = 0, mb_bid = b, mb_path = 0, mb_latest_update = 0, mb_lPriority = 0, mb_s_type = 0, mb_ts = no_time,
     mb_save_flag = SF_EMPTY, mb_lRecycleCount = 0\<rparr>"

definition demo_disk :: bkt_disk where
  "demo_disk = \<lparr>dk_mgr = Some \<lparr>mf_id = ID_BKTMGR_HEADER, mf_mgrid = 0, mf_date = 0, mf_latest_update = 0, mf_bkt_count = 2, mf_bodies = [demo_body 1, demo_body 2]\<rparr>,
     dk_info = Some (Some \<lparr>ri_save_flag = SF_USING, ri_bid = 1, ri_path = 5\<rparr>), dk_bkt = [1 \<mapsto> replicate 288 0, 2 \<mapsto> replicate 288 0], dk_idx = [1 \<mapsto> replicate 272 0, 2 \<mapsto> replicate 272 0],
     dk_rdb_dir = False, dk_rdb = Map.empty\<rparr>"

definition demo_handle :: "fkind \<Rightarrow> nat \<Rightarrow> bkt_handle option" where
  "demo_handle k n = Some \<lparr>hd_kind = k, hd_disk = 5, hd_bid = 1, hd_pos = n\<rparr>"

definition demo_ctrl :: bktrec where
  "demo_ctrl = \<lparr>rc_bid = 1, rc_fpos_bkt = 288, rc_fpos_idx = 272, rc_prev_day = 0, rc_prev_min = replicate 16 (-1),
     rc_bkt_secs = no_time, rc_idx_secs = no_time, rc_b_buf = [], rc_i_buf = [], rc_idx_pos = replicate 16 0, rc_r_buf = [], rc_r_skip = False,
     rc_target_path = 5, rc_bkt_cnt = 2\<rparr>"

definition demo_hdd :: "bool \<Rightarrow> hdd_info" where
  "demo_hdd mo = \<lparr>hi_isMounted = mo, hi_prevHddIdx = 0, hi_nextHddIdx = 0, hi_formatDate = 0, hi_initUsedSize = 0, hi_mountDiskPath = if mo then 5 else 0\<rparr>"

definition demo_world :: rec_world where
  "demo_world = \<lparr>rw_disks = \<lambda>_. demo_disk, rw_hddmgr = None,
     rw_mount = \<lparr>mi_hddCnt = 1, mi_curHddIdx = 0, mi_hddInfo = demo_hdd True # replicate 3 (demo_hdd False)\<rparr>,
     rw_space = BKT_SPACE_REMAIN, rw_status = BKT_STATUS_OPENED, rw_recycle = BKT_RECYCLE_ON, rw_ctrl = demo_ctrl,
     rw_hbkt = demo_handle Bkt 288, rw_hidx = demo_handle Idx 272, rw_prevFpos = 0\<rparr>"

definition demo_log :: rec_log where
  "demo_log = \<lparr>lg_past = [], lg_cur = (5, 1), lg_items = []\<rparr>"

definition demo_video :: "int \<Rightarrow> byte list \<Rightarrow> video_rec_param" where
  "demo_video sec bs = \<lparr>vp_ch = 0, vp_framesize = int (length bs), vp_sec = sec, vp_usec = 0, vp_event = 1, vp_frametype = FT_IFRAME, vp_framerate = 30,
     vp_width = 704, vp_height = 480, vp_buff = bs, vp_camName = [], vp_audioONOFF = 0, vp_capMode = 0\<rparr>"

lemmas demo_defs = demo_sh_def demo_env_def demo_body_def demo_disk_def demo_handle_def demo_ctrl_def demo_world_def demo_log_def demo_video_def

lemma demo_healthy: "healthy demo_env" "list_all healthy (replicate n demo_env)"
proof -
  show "healthy demo_env"
    by (simp add: healthy_def demo_defs stream_hdr_ok_def audio_hdr_ok_def index_data_ok_def fits_def)
  then show "list_all healthy (replicate n demo_env)" by (simp add: list_all_iff)
qed

lemma demo_disk_ok: "disk_ok demo_disk"
  by (auto simp: disk_ok_def rdb_ok_def has_files_def demo_defs const_defs)

lemma demo_disks_ok: "disks_ok demo_world"
proof -
  have "mounted (rw_mount demo_world) i \<longleftrightarrow> i = 0" for i
    by (cases i) (simp_all add: mounted_def demo_world_def demo_hdd_def)
  then show ?thesis using demo_disk_ok by (simp add: disks_ok_def mount_ok_def) (simp add: demo_world_def demo_ctrl_def demo_hdd_def disk_path_def cur_path_def)
qed

lemma demo_open: "basket_open [] [] demo_world"
proof -
  have "part_open (rw_disks demo_world) (demo_handle Bkt 288) Bkt 5 1 BASKET_HDR_LEN 288 [] []"
    unfolding part_open_def
    by (rule exI [of _ "replicate 288 0"], rule exI [of _ "replicate 288 0"]) (simp add: open_at_def demo_defs the_file_def const_defs)
  moreover have "part_open (rw_disks demo_world) (demo_handle Idx 272) Idx 5 1 INDEX_HDR_LEN 272 [] []"
    unfolding part_open_def
    by (rule exI [of _ "replicate 272 0"], rule exI [of _ "replicate 272 0"]) (simp add: open_at_def demo_defs the_file_def const_defs)
  moreover have "buffers_ok demo_ctrl"
    by (simp add: buffers_ok_def demo_ctrl_def rc_b_pos_def rc_i_pos_def rc_r_pos_def) (simp add: const_defs)
  ultimately show ?thesis
    by (simp add: basket_open_def Let_def) (simp add: demo_world_def demo_ctrl_def fits_def)
qed

lemma demo_rec: "rec_ok demo_world" "log_rel demo_world demo_log" "rec_rel demo_world demo_log"
proof -
  show r: "rec_ok demo_world"
    using demo_disks_ok by (simp add: rec_ok_def) (simp add: demo_world_def demo_ctrl_def total_size_def rc_b_pos_def rc_i_pos_def const_defs)
  have "lg_done demo_log k = None" for k by (simp add: lg_done_def demo_log_def)
  moreover have "lg_items demo_log = []" "lg_cur demo_log = (rc_target_path (rw_ctrl demo_world), rc_bid (rw_ctrl demo_world))"
    by (simp_all add: demo_defs)
  ultimately show l: "log_rel demo_world demo_log" using demo_open by (auto simp: log_rel_def)
  show "rec_rel demo_world demo_log" using r l by (simp add: rec_rel_def)
qed

lemma demo_video_ok:
  assumes "0 \<le> sec" "sec < 1000000" "int (length bs) + 84 < BKT_BBUF_SIZE"
  shows "video_ok (demo_video sec bs)"
  using assms by (simp add: video_ok_def demo_video_def fits_def) (simp add: const_defs)

lemma demo_fits: "length (rc_r_buf (rw_ctrl demo_world)) < 51" "rc_b_pos (rw_ctrl demo_world) = 0" "rc_i_pos (rw_ctrl demo_world) = 0"
  by (simp_all add: demo_defs rc_b_pos_def rc_i_pos_def)

lemma demo_stays:
  assumes "0 \<le> sec" "sec < 1000" "int (length bs) < BKT_BBUF_SIZE"
  shows "stays_video demo_env (demo_video sec bs) (rw_ctrl demo_world)"
  using assms by (simp add: stays_video_def total_size_def rc_b_pos_def rc_i_pos_def demo_defs const_defs)

section \<open>A closed basket\<close>

definition demo_key :: "int \<Rightarrow> item" where
  "demo_key sec = Vid (demo_sh\<lparr>sh_id := ID_VIDEO_HEADER, sh_framesize := 2, sh_sec := sec\<rparr>) (video_hdr_of (demo_video sec [1, 2])) [1, 2]"

definition demo_end :: item where
  "demo_end = End (demo_sh\<lparr>sh_id := ID_BASKET_END\<rparr>)"

definition demo_index :: "int \<Rightarrow> int \<Rightarrow> index_data" where
  "demo_index pos sec = (ev_ix demo_env)\<lparr>ix_id := ID_INDEX_DATA, ix_sec := sec, ix_fpos := pos, ix_s_type := ST_VIDEO, ix_event := 1,
     ix_width := 704, ix_height := 480\<rparr>"

definition demo_ts :: basket_time where
  "demo_ts = no_time\<lparr>bt_t1 := (100, 0) # replicate 15 (0, 0)\<rparr>"

definition demo_bkt :: "byte list" where
  "demo_bkt = enc_basket_hdr ((ev_bh demo_env)\<lparr>bh_id := ID_BASKET_HDR, bh_bid := 1, bh_ts := demo_ts, bh_save_flag := SF_FULL\<rparr>)
     @ items_bytes [demo_key 100, demo_key 101, demo_end] @ item_bytes (demo_key 50)"

definition demo_idx :: "byte list" where
  "demo_idx = enc_index_hdr ((ev_ih demo_env)\<lparr>ih_id := ID_INDEX_HEADER, ih_bid := 1, ih_count := 2, ih_ts := demo_ts\<rparr>)
     @ index_bytes [demo_index 288 100, demo_index 374 101]"

definition demo_closed :: rec_world where
  "demo_closed = demo_world\<lparr>rw_disks := \<lambda>_. demo_disk\<lparr>dk_bkt := [1 \<mapsto> demo_bkt, 2 \<mapsto> replicate 288 0], dk_idx := [1 \<mapsto> demo_idx, 2 \<mapsto> replicate 272 0]\<rparr>,
     rw_ctrl := demo_ctrl\<lparr>rc_bid := 2\<rparr>\<rparr>"

text \<open>A player at a position of that basket, with its key frame and position.\<close>

definition demo_player :: "nat \<Rightarrow> int \<Rightarrow> player" where
  "demo_player n cur = \<lparr>pl_md = \<lparr>md_ch = 0, md_bid = 1, md_sec = 100, md_status = BKTMD_STATUS_OPEN, md_hbkt = demo_handle Bkt n, md_hidx = demo_handle Idx 272,
       md_fpos_bkt = int n, md_iframe_cnt = 2, md_iframe_cur = cur, md_bktcnt = 2, md_curhdd = 0, md_nexthdd = 0, md_target = 5\<rparr>,
     pl_dp = \<lparr>mp_fpos = 0, mp_ch = 0, mp_sec = 0, mp_usec = 0, mp_framesize = 0, mp_framerate = 0, mp_frameWidth = 0, mp_frameHeight = 0,
       mp_frametype = 0, mp_streamtype = 0, mp_event = 0, mp_samplingrate = 0, mp_camName = replicate 16 0, mp_vbuffer = replicate 100 0,
       mp_focusChannel = 0, mp_bktId = 0, mp_fpos_bkt = 0, mp_audioONOFF = 0, mp_capMode = 0\<rparr>\<rparr>"

lemma demo_key_item:
  assumes "0 \<le> sec" "sec < 1000000"
  shows "item_ok (demo_key sec)" "length (item_bytes (demo_key sec)) = 86"
proof -
  have "video_ok (demo_video sec [1, 2])" by (rule demo_video_ok) (use assms in \<open>simp_all add: BKT_BBUF_SIZE_def\<close>)
  then have vh: "video_hdr_ok (video_hdr_of (demo_video sec [1, 2]))" by (rule video_hdr_of_ok)
  have sh: "stream_hdr_ok (demo_sh\<lparr>sh_id := ID_VIDEO_HEADER, sh_framesize := 2, sh_sec := sec\<rparr>)"
    using assms by (simp add: stream_hdr_ok_def demo_sh_def fits_def) (simp add: ID_VIDEO_HEADER_def)
  show "item_ok (demo_key sec)" using vh sh by (simp add: demo_key_def) (simp add: demo_sh_def)
  show "length (item_bytes (demo_key sec)) = 86"
    using length_stream_enc [OF sh] video_enc(1) [OF vh] by (simp add: demo_key_def) (simp add: const_defs)
qed

lemma demo_end_item: "item_ok demo_end" "length (item_bytes demo_end) = 44"
proof -
  have sh: "stream_hdr_ok (demo_sh\<lparr>sh_id := ID_BASKET_END\<rparr>)"
    by (simp add: stream_hdr_ok_def demo_sh_def fits_def) (simp add: ID_BASKET_END_def)
  then show "item_ok demo_end" by (simp add: demo_end_def)
  show "length (item_bytes demo_end) = 44" using length_stream_enc [OF sh] by (simp add: demo_end_def STREAM_HDR_LEN_def)
qed

lemma demo_iframes:
  "iframes 288 [demo_key 100, demo_key 101, demo_end]
    = [(288, demo_sh\<lparr>sh_id := ID_VIDEO_HEADER, sh_framesize := 2, sh_sec := 100\<rparr>, video_hdr_of (demo_video 100 [1, 2])),
       (374, demo_sh\<lparr>sh_id := ID_VIDEO_HEADER, sh_framesize := 2, sh_sec := 101\<rparr>, video_hdr_of (demo_video 101 [1, 2]))]"
proof -
  have "iframes 288 (demo_key 100 # xs) = (288, demo_sh\<lparr>sh_id := ID_VIDEO_HEADER, sh_framesize := 2, sh_sec := 100\<rparr>, video_hdr_of (demo_video 100 [1, 2]))
      # iframes 374 xs" for xs
    using demo_key_item(2) [of 100] by (simp add: demo_key_def) (simp add: demo_sh_def FT_IFRAME_def)
  moreover have "iframes 374 (demo_key 101 # xs) = (374, demo_sh\<lparr>sh_id := ID_VIDEO_HEADER, sh_framesize := 2, sh_sec := 101\<rparr>, video_hdr_of (demo_video 101 [1, 2]))
      # iframes 460 xs" for xs
    using demo_key_item(2) [of 101] by (simp add: demo_key_def) (simp add: demo_sh_def FT_IFRAME_def)
  moreover have "iframes 460 [demo_end] = []" by (simp add: demo_end_def)
  ultimately show ?thesis by presburger
qed

lemma demo_sealed:
  "sealed SF_FULL demo_ts demo_ts [demo_key 100, demo_key 101, demo_end] [demo_index 288 100, demo_index 374 101] (rw_disks demo_closed) 5 1"
proof -
  let ?bh = "(ev_bh demo_env)\<lparr>bh_id := ID_BASKET_HDR, bh_bid := 1, bh_ts := demo_ts, bh_save_flag := SF_FULL\<rparr>"
  let ?ih = "(ev_ih demo_env)\<lparr>ih_id := ID_INDEX_HEADER, ih_bid := 1, ih_count := 2, ih_ts := demo_ts\<rparr>"
  have ts: "length (bt_t1 demo_ts) = 16" "length (bt_t2 demo_ts) = 16" by (simp_all add: demo_ts_def no_time_def BKT_MAX_CHANNEL_def)
  have len: "length (enc_basket_hdr ?bh) = BASKET_HDR_LEN" "length (enc_index_hdr ?ih) = INDEX_HDR_LEN"
    using ts by (simp_all add: enc_basket_hdr_def enc_index_hdr_def length_ts_longs const_defs)
  have f: "the_file (rw_disks demo_closed) Bkt 5 1 = Some (enc_basket_hdr ?bh @ items_bytes [demo_key 100, demo_key 101, demo_end] @ item_bytes (demo_key 50))"
    "the_file (rw_disks demo_closed) Idx 5 1 = Some (enc_index_hdr ?ih @ index_bytes [demo_index 288 100, demo_index 374 101] @ [])"
    by (simp_all add: the_file_def demo_closed_def demo_bkt_def demo_idx_def)
  have ok: "list_all item_ok [demo_key 100, demo_key 101, demo_end]" using demo_key_item(1) demo_end_item(1) by simp
  have ix: "list_all2 indexes (iframes BASKET_HDR_LEN [demo_key 100, demo_key 101, demo_end]) [demo_index 288 100, demo_index 374 101]"
    unfolding BASKET_HDR_LEN_def demo_iframes
    by (simp add: indexes_def demo_index_def demo_env_def demo_sh_def demo_video_def video_hdr_of_def index_data_ok_def fits_def)
       (simp add: const_defs)
  show ?thesis unfolding sealed_def
    by (rule exI [of _ ?bh], rule exI [of _ ?ih], rule exI [of _ "item_bytes (demo_key 50)"], rule exI [of _ "[]"], intro conjI f len ok ix) simp_all
qed

lemma demo_before_end: "before (rw_disks demo_closed) (demo_handle Bkt 460) Bkt 5 1 460 (item_bytes demo_end @ item_bytes (demo_key 50))"
proof -
  let ?bh = "(ev_bh demo_env)\<lparr>bh_id := ID_BASKET_HDR, bh_bid := 1, bh_ts := demo_ts, bh_save_flag := SF_FULL\<rparr>"
  have ts: "length (bt_t1 demo_ts) = 16" "length (bt_t2 demo_ts) = 16" by (simp_all add: demo_ts_def no_time_def BKT_MAX_CHANNEL_def)
  have len: "length (enc_basket_hdr ?bh) = 288" using ts by (simp add: enc_basket_hdr_def length_ts_longs BKT_MAX_CHANNEL_def)
  have "the_file (rw_disks demo_closed) Bkt 5 1
      = Some ((enc_basket_hdr ?bh @ item_bytes (demo_key 100) @ item_bytes (demo_key 101)) @ (item_bytes demo_end @ item_bytes (demo_key 50)))"
    by (simp add: the_file_def demo_closed_def demo_bkt_def)
  from before_skip [OF before_start [OF this]] show ?thesis
    using len demo_key_item(2) [of 100] demo_key_item(2) [of 101] by (simp add: demo_handle_def)
qed

lemma demo_ts_ok: "ts_ok demo_ts" "BKT_GetMinTS (bt_t1 demo_ts) = 100"
proof -
  show "ts_ok demo_ts" by (simp add: ts_ok_def demo_ts_def no_time_def BKT_MAX_CHANNEL_def fits_def list_all_iff)
  show "BKT_GetMinTS (bt_t1 demo_ts) = 100" by (simp add: BKT_GetMinTS_def demo_ts_def numeral_eq_Suc)
qed

lemma demo_on_basket: "on_basket demo_closed 5 1 (demo_player n cur)"
  by (simp add: on_basket_def demo_player_def demo_handle_def)

lemma demo_not_recording: "\<not> BKT_isRecordingBasket 1 demo_closed (pl_md (demo_player n cur))"
  by (simp add: BKT_isRecordingBasket_def demo_closed_def)

text \<open>The recorder after one key frame.\<close>

lemma demo_written:
  "\<exists>w. BKTREC_WriteVideoStream demo_env (demo_video 100 [1, 2]) demo_world = Some (BKT_OK, w)
     \<and> rc_bkt_secs (rw_ctrl w) = demo_ts\<lparr>bt_t2 := (100, 0) # replicate 15 (0, 0)\<rparr>"
proof -
  let ?pv = "demo_video 100 [1, 2]"
  have pv: "video_ok ?pv" by (rule demo_video_ok) (simp_all add: BKT_BBUF_SIZE_def)
  have st: "stays_video demo_env ?pv (rw_ctrl demo_world)" by (rule demo_stays) (simp_all add: BKT_BBUF_SIZE_def)
  have room: "rc_b_pos (rw_ctrl demo_world) + vp_framesize ?pv + 84 < BKT_BBUF_SIZE" "rc_i_pos (rw_ctrl demo_world) + 44 < BKT_IBUF_SIZE"
    by (simp_all add: demo_fits demo_video_def BKT_BBUF_SIZE_def BKT_IBUF_SIZE_def)
  obtain w where w: "BKTREC_WriteVideoStream demo_env ?pv demo_world = Some (BKT_OK, w)" "put_video demo_env ?pv demo_world = Some w"
    using WriteVideo_fills [OF demo_healthy(1) pv demo_open demo_fits(1) st room] by blast
  have "rc_bkt_secs (rw_ctrl w) = demo_ts\<lparr>bt_t2 := (100, 0) # replicate 15 (0, 0)\<rparr>"
    unfolding put_video_secs [OF w(2)]
    by (simp add: put_index_def demo_video_def demo_world_def demo_ctrl_def no_time_def demo_ts_def Let_def BKT_MAX_CHANNEL_def numeral_eq_Suc)
  with w(1) show ?thesis by blast
qed

end
