(* ===== verification/Basket_Spec.thy ===== *)
theory Basket_Spec
  imports Basket_Demo
begin

text \<open>The properties of the basket storage: the recorder against a log of frames, the player
  against the recorder, and the places where they fail.\<close>

section \<open>The recorder\<close>

text \<open>C4: One write of the recorder against its abstract log.  No system call fails, the disks are in order, and
  recycling is not \<open>BKT_RECYCLE_ONCE\<close> (which may answer \<open>BKT_FULL\<close>).  A well-formed
  frame, video or audio, for which there is room in the arrays (a video frame needs one of the 51 places
  for minutes, and, when it changes the basket, 44 bytes for the end mark) is taken with \<open>BKT_OK\<close>, and the
  log grows by exactly this frame: in the open basket, or, when the basket has no room or, for a video
  frame, the day has changed, in the next one, after the open one has been closed; the closed one ends
  with an end mark when a video frame caused the change, and without one when an audio frame
  did.  Every basket file closed before that is not in use again keeps all frames of its log,
  readable, with an index entry for each key frame.\<close>

theorem recorder_refines_log:
  assumes "healthy ev" "media_ok x" "rec_ok w" "log_rel w L" "write_fits ev x (rw_ctrl w)"
  shows "\<exists>w'. write_media ev x w = Some (BKT_OK, w') \<and> rec_ok w' \<and> log_rel w' (log_write ev x w w' L)"
proof -
  obtain ixs where op: "basket_open (lg_items L) ixs w" using assms(4) by (auto simp: log_rel_def)
  obtain r where "write_media ev x w = Some r" using write_media_defined [OF assms(1-3) op assms(5)] by auto
  then show ?thesis using write_media_log [OF assms(1-4)] by blast
qed

lemma recorder_refines_log_witness:
  "\<exists>w'. write_media demo_env (Video (demo_video 100 [1, 2])) demo_world = Some (BKT_OK, w') \<and> rec_ok w'
     \<and> log_rel w' (log_write demo_env (Video (demo_video 100 [1, 2])) demo_world w' demo_log)"
  by (rule recorder_refines_log [OF demo_healthy(1) _ demo_rec(1,2)])
     (use demo_fits demo_stays [of 100 "[1, 2]"] demo_video_ok [of 100 "[1, 2]"] in \<open>simp_all add: BKT_BBUF_SIZE_def\<close>)

text \<open>A whole run of writes, with basket changes anywhere in it.  When the run stays within the
  arrays every write has answered BKT_OK, and the frames of the log are those it had before
  followed by the frames written, each once and in the order of the calls.\<close>

theorem recorded_run:
  assumes "list_all rec_legal xs" "rec_rel w L" "run_steps (\<lambda>(ev, x). write_media ev x) xs w = Some (sts, w')"
  shows "sts = replicate (length xs) BKT_OK \<and> (\<exists>L' prevs. rec_rel w' L' \<and> length prevs = length xs
    \<and> log_frames L' = log_frames L @ map2 (\<lambda>(ev, x) prev. media_item ev x prev) xs prevs)"
proof -
  obtain L' where "spec_run rec_spec xs sts L L'" "rec_rel w' L'" using recorder.sim_run [OF assms] by blast
  then show ?thesis using rec_spec_run [of xs sts L L'] by blast
qed

lemma demo_run: "\<exists>sts w'. run_steps (\<lambda>(ev, x). write_media ev x) [(demo_env, Video (demo_video 100 [1, 2]))] demo_world = Some (sts, w')"
proof -
  have "write_media demo_env (Video (demo_video 100 [1, 2])) demo_world \<noteq> None"
    by (rule write_media_defined [OF demo_healthy(1) _ demo_rec(1) demo_open])
       (use demo_fits demo_stays [of 100 "[1, 2]"] demo_video_ok [of 100 "[1, 2]"] in \<open>simp_all add: BKT_BBUF_SIZE_def\<close>)
  then show ?thesis by auto
qed

lemma demo_legal: "list_all rec_legal [(demo_env, Video (demo_video 100 [1, 2]))]"
  using demo_healthy(1) demo_video_ok [of 100 "[1, 2]"] by (simp add: rec_legal_def BKT_BBUF_SIZE_def)

lemma recorded_run_witness:
  "\<exists>sts w'. run_steps (\<lambda>(ev, x). write_media ev x) [(demo_env, Video (demo_video 100 [1, 2]))] demo_world = Some (sts, w') \<and> sts = [BKT_OK]"
proof -
  obtain sts w' where r: "run_steps (\<lambda>(ev, x). write_media ev x) [(demo_env, Video (demo_video 100 [1, 2]))] demo_world = Some (sts, w')"
    using demo_run by blast
  then have "sts = [BKT_OK]" using recorded_run [OF demo_legal demo_rec(3) r] by simp
  with r show ?thesis by blast
qed

text \<open>C21: The recorder stays well-formed as long as its calls return.  Over every run of well-formed frames on working
  disks (recycling not \<open>BKT_RECYCLE_ONCE\<close>) in which every call returns, its three buffers hold no more than their
  arrays, the tables have an entry for every channel, the basket stays below its size, both
  files are open, and the recorded positions are those of the handles.  And where it has got to,
  the next well-formed frame is taken if it fits: an audio frame always does, a video frame when fewer than
  51 minutes wait for the record database and, if it changes the basket, 44 bytes of the stream buffer
  are free for the end mark.  (Without them the code writes past its arrays: see \<open>end_mark_overflows\<close>.)\<close>

theorem recorder_well_formed:
  assumes "list_all rec_legal xs" "rec_rel w L" "run_steps (\<lambda>(ev, x). write_media ev x) xs w = Some (sts, w')"
  shows "buffers_ok (rw_ctrl w') \<and> total_size (rw_ctrl w') < BASKET_SIZE \<and> rw_status w' = BKT_STATUS_OPENED \<and> disks_ok w'
    \<and> h_tell (rw_hbkt w') = rc_fpos_bkt (rw_ctrl w') \<and> h_tell (rw_hidx w') = rc_fpos_idx (rw_ctrl w')
    \<and> (\<forall>ev x. rec_legal (ev, x) \<and> write_fits ev x (rw_ctrl w') \<longrightarrow> write_media ev x w' \<noteq> None)"
proof -
  obtain L' where rel: "rec_rel w' L'" using recorder.sim_run [OF assms] by blast
  obtain ixs where op: "basket_open (lg_items L') ixs w'" using rel by (auto simp: rec_rel_def log_rel_def)
  have "h_tell (rw_hbkt w') = rc_fpos_bkt (rw_ctrl w') \<and> h_tell (rw_hidx w') = rc_fpos_idx (rw_ctrl w')"
    using op by (auto simp: basket_open_def Let_def part_open_def dest: open_at_tell)
  moreover have "write_media ev x w' \<noteq> None" if "rec_legal (ev, x)" "write_fits ev x (rw_ctrl w')" for ev x
    using write_media_defined [OF _ _ _ op that(2)] that(1) rel by (simp add: rec_legal_def rec_rel_def)
  ultimately show ?thesis using basket_openD(1,2) [OF op] rel by (simp add: rec_rel_def rec_ok_def)
qed

lemma recorder_well_formed_witness:
  "\<exists>sts w'. run_steps (\<lambda>(ev, x). write_media ev x) [(demo_env, Video (demo_video 100 [1, 2]))] demo_world = Some (sts, w') \<and> buffers_ok (rw_ctrl w')"
proof -
  obtain sts w' where r: "run_steps (\<lambda>(ev, x). write_media ev x) [(demo_env, Video (demo_video 100 [1, 2]))] demo_world = Some (sts, w')"
    using demo_run by blast
  then have "buffers_ok (rw_ctrl w')" using recorder_well_formed [OF demo_legal demo_rec(3) r] by simp
  with r show ?thesis by blast
qed

text \<open>The end mark is put without a test for room.  When a frame has left less than the 44 bytes
  of a mark in the stream buffer and the next frame is of another day, the mark is copied
  past the end of the buffer, although both frames are well-formed.\<close>

theorem end_mark_overflows:
  assumes "healthy ev" "video_ok pv" "video_ok pv'" "basket_open items ixs w" "length (rc_r_buf (rw_ctrl w)) < 51" "stays_video ev pv (rw_ctrl w)"
    "rc_b_pos (rw_ctrl w) + vp_framesize pv + 84 < BKT_BBUF_SIZE" "BKT_BBUF_SIZE < rc_b_pos (rw_ctrl w) + vp_framesize pv + 128"
    "rc_i_pos (rw_ctrl w) + 44 < BKT_IBUF_SIZE" "healthy ev'" "tm_mday (ev_local ev' (vp_sec pv')) \<noteq> tm_mday (ev_local ev (vp_sec pv))"
  shows "\<exists>w'. BKTREC_WriteVideoStream ev pv w = Some (BKT_OK, w') \<and> BKTREC_WriteVideoStream ev' pv' w' = None"
proof -
  obtain w' ix where w': "BKTREC_WriteVideoStream ev pv w = Some (BKT_OK, w')" "basket_open (items @ [video_item ev pv (rw_prevFpos w)]) (ixs @ ix) w'"
    "rc_b_pos (rw_ctrl w') = rc_b_pos (rw_ctrl w) + vp_framesize pv + 84" "rc_prev_day (rw_ctrl w') = tm_mday (ev_local ev (vp_sec pv))"
    using WriteVideo_fills [OF assms(1,2,4,5,6,7,9)] by blast
  have "\<not> stays_video ev' pv' (rw_ctrl w')" using assms(11) w'(4) by (simp add: stays_video_def)
  then show ?thesis using end_mark_past_buffer [OF assms(10,3) w'(2)] w'(1,3) assms(8) by auto
qed

lemma end_mark_overflows_witness:
  "\<exists>w'. BKTREC_WriteVideoStream demo_env (demo_video 100 (replicate 12582820 0)) demo_world = Some (BKT_OK, w')
     \<and> BKTREC_WriteVideoStream demo_env (demo_video 2000 [1, 2]) w' = None"
proof (rule end_mark_overflows [OF demo_healthy(1) _ _ demo_open demo_fits(1) _ _ _ _ demo_healthy(1)])
  show "video_ok (demo_video 100 (replicate 12582820 0))" "video_ok (demo_video 2000 [1, 2])"
    by (rule demo_video_ok; simp add: BKT_BBUF_SIZE_def)+
  show "stays_video demo_env (demo_video 100 (replicate 12582820 0)) (rw_ctrl demo_world)"
    by (rule demo_stays) (simp_all add: BKT_BBUF_SIZE_def)
qed (simp_all add: demo_fits(2,3), simp_all add: demo_video_def demo_env_def const_defs)

section \<open>From the recorder to the player\<close>

text \<open>C3: Record, stop, play.  No system call fails.  Stopping a recorder whose open basket holds only frames
  (no end mark) succeeds and closes it;
  opening this basket with a player set to its disk and reading again and again then delivers, on the
  files that the stop left, exactly the recorded frames of the chosen video channels and the focused audio
  channel, each once, in the order of recording, with their bytes and the fields of their headers (of the
  camera name, when it is not empty).  The chosen frames are not empty, fit the buffer of the
  caller, and are paced: the second of every chosen video frame is that of the chosen frame before it, or up to four
  later; before the first one stands the earliest start time in the time stamps
  of the basket, which is the second of the first key frame recorded since the basket was opened.  So frames
  earlier than that, and those of a resumed basket, whose start times are cleared, are
  not covered.\<close>

theorem record_stop_play:
  assumes "healthy ev" "rec_ok w" "log_rel w L" "lg_cur L = (d, b)" "list_all is_frame (lg_items L)" "ts_ok (rc_bkt_secs (rw_ctrl w))"
    "healthy ev'" "list_all healthy evs" "length decflags = 16" "md_target (pl_md p) = d"
    "paced decflags (mp_focusChannel (pl_dp p)) (length (mp_vbuffer (pl_dp p))) (BKT_GetMinTS (bt_t1 (rc_bkt_secs (rw_ctrl w)))) (lg_items L)"
    "length evs = length (filter (shown decflags (mp_focusChannel (pl_dp p))) (lg_items L))"
  shows "\<exists>w' c dps p'. BKTREC_exit ev SF_STOP BKT_REC_CLOSE_BUF_FLUSH w = (S_OK, w') \<and> rw_status w' = BKT_STATUS_CLOSED
    \<and> BKTMD_OpenNext ev' w' b (pl_md p) = (BKT_OK, c) \<and> play evs w' decflags (p\<lparr>pl_md := c\<rparr>) = Some (dps, p')
    \<and> list_all2 delivers (filter (shown decflags (mp_focusChannel (pl_dp p))) (lg_items L)) dps"
proof -
  obtain ixs where op: "basket_open (lg_items L) ixs w" using assms(3) by (auto simp: log_rel_def)
  have cur: "d = rc_target_path (rw_ctrl w)" "b = rc_bid (rw_ctrl w)" using assms(3,4) by (auto simp: log_rel_def)
  obtain w' where w': "BKTREC_exit ev SF_STOP BKT_REC_CLOSE_BUF_FLUSH w = (S_OK, w')" "rw_status w' = BKT_STATUS_CLOSED"
    "sealed SF_STOP (rc_bkt_secs (rw_ctrl w)) (rc_idx_secs (rw_ctrl w)) (lg_items L @ []) ixs (rw_disks w') d b"
    using exit_ok [OF assms(1) op, of SF_STOP] assms(2) cur by (auto simp: rec_ok_def)
  from play_sealed [OF assms(7,8) w'(3) assms(6,5,9,10,11,12)] w'(1,2) show ?thesis by blast
qed

lemma demo_paced: "paced (replicate 16 1) 0 100 100 [video_item demo_env (demo_video 100 [1, 2]) prev]"
  by (simp add: video_item_def demo_video_def video_stream_hdr_def payload_def)

lemma record_stop_play_witness:
  "\<exists>w w' c dps p'. BKTREC_WriteVideoStream demo_env (demo_video 100 [1, 2]) demo_world = Some (BKT_OK, w)
     \<and> BKTREC_exit demo_env SF_STOP BKT_REC_CLOSE_BUF_FLUSH w = (S_OK, w')
     \<and> BKTMD_OpenNext demo_env w' 1 (pl_md (demo_player 0 0)) = (BKT_OK, c)
     \<and> play [demo_env] w' (replicate 16 1) ((demo_player 0 0)\<lparr>pl_md := c\<rparr>) = Some (dps, p')
     \<and> list_all2 delivers [video_item demo_env (demo_video 100 [1, 2]) 0] dps"
proof -
  let ?x = "Video (demo_video 100 [1, 2])" and ?p = "demo_player 0 0"
  have "video_ok (demo_video 100 [1, 2])" by (rule demo_video_ok) (simp_all add: BKT_BBUF_SIZE_def)
  then have x: "media_ok ?x" by simp
  have st: "stays demo_env ?x (rw_ctrl demo_world)" using demo_stays [of 100 "[1, 2]"] by (simp add: BKT_BBUF_SIZE_def)
  obtain w where w: "BKTREC_WriteVideoStream demo_env (demo_video 100 [1, 2]) demo_world = Some (BKT_OK, w)"
    and secs: "rc_bkt_secs (rw_ctrl w) = demo_ts\<lparr>bt_t2 := (100, 0) # replicate 15 (0, 0)\<rparr>" using demo_written by blast
  have run: "write_media demo_env ?x demo_world = Some (BKT_OK, w)" using w by simp
  define L where "L = log_append (video_item demo_env (demo_video 100 [1, 2]) 0) demo_log"
  have items: "lg_items L = [video_item demo_env (demo_video 100 [1, 2]) 0]" "lg_cur L = (5, 1)"
    by (simp_all add: L_def log_append_def demo_log_def)
  have prev: "rw_prevFpos demo_world = 0" by (simp add: demo_world_def)
  have rel: "rec_ok w" "log_rel w L"
    using write_media_log [OF demo_healthy(1) x demo_rec(1,2) run] st by (auto simp: log_write_def L_def prev)
  have ts: "ts_ok (rc_bkt_secs (rw_ctrl w))" "BKT_GetMinTS (bt_t1 (rc_bkt_secs (rw_ctrl w))) = 100"
    using demo_ts_ok by (simp_all add: secs ts_ok_def fits_def BKT_MAX_CHANNEL_def list_all_iff)
  have pl: "mp_focusChannel (pl_dp ?p) = 0" "length (mp_vbuffer (pl_dp ?p)) = 100" "md_target (pl_md ?p) = 5" by (simp_all add: demo_player_def)
  have fr: "list_all is_frame (lg_items L)" by (simp add: items video_item_def)
  have sh: "filter (shown (replicate 16 1) 0) (lg_items L) = lg_items L"
    by (simp add: items video_item_def demo_video_def video_stream_hdr_def)
  have "\<exists>w' c dps p'. BKTREC_exit demo_env SF_STOP BKT_REC_CLOSE_BUF_FLUSH w = (S_OK, w') \<and> rw_status w' = BKT_STATUS_CLOSED
    \<and> BKTMD_OpenNext demo_env w' 1 (pl_md ?p) = (BKT_OK, c) \<and> play [demo_env] w' (replicate 16 1) (?p\<lparr>pl_md := c\<rparr>) = Some (dps, p')
    \<and> list_all2 delivers (filter (shown (replicate 16 1) (mp_focusChannel (pl_dp ?p))) (lg_items L)) dps"
    by (rule record_stop_play [OF demo_healthy(1) rel items(2) fr ts(1) demo_healthy(1) _ _ pl(3)])
       (use demo_paced [of 0] sh demo_healthy(1) in \<open>simp_all add: items pl ts(2)\<close>)
  then show ?thesis using w unfolding pl(1) sh unfolding items by blast
qed

text \<open>A basket that the recorder has closed full, and left for the next one, plays up to its end
  mark: opening it and reading delivers exactly the chosen frames before the mark, in order,
  whatever older bytes the recycled file has behind it.\<close>

theorem closed_basket_plays:
  assumes "healthy ev" "list_all healthy evs" "sealed flag bts its (fs @ e) ixs (rw_disks w) d b" "ts_ok bts" "list_all is_frame fs"
    "length decflags = 16" "md_target (pl_md p) = d"
    "paced decflags (mp_focusChannel (pl_dp p)) (length (mp_vbuffer (pl_dp p))) (BKT_GetMinTS (bt_t1 bts)) fs"
    "length evs = length (filter (shown decflags (mp_focusChannel (pl_dp p))) fs)"
  shows "\<exists>c dps p'. BKTMD_OpenNext ev w b (pl_md p) = (BKT_OK, c) \<and> play evs w decflags (p\<lparr>pl_md := c\<rparr>) = Some (dps, p')
    \<and> list_all2 delivers (filter (shown decflags (mp_focusChannel (pl_dp p))) fs) dps"
  by (rule play_sealed [OF assms])

lemma closed_basket_plays_witness:
  "\<exists>c dps p'. BKTMD_OpenNext demo_env demo_closed 1 (pl_md (demo_player 0 0)) = (BKT_OK, c)
     \<and> play [demo_env, demo_env] demo_closed (replicate 16 1) ((demo_player 0 0)\<lparr>pl_md := c\<rparr>) = Some (dps, p')
     \<and> list_all2 delivers [demo_key 100, demo_key 101] dps"
proof -
  let ?p = "demo_player 0 0"
  have pl: "mp_focusChannel (pl_dp ?p) = 0" "length (mp_vbuffer (pl_dp ?p)) = 100" "md_target (pl_md ?p) = 5" by (simp_all add: demo_player_def)
  have s: "sealed SF_FULL demo_ts demo_ts ([demo_key 100, demo_key 101] @ [demo_end]) [demo_index 288 100, demo_index 374 101] (rw_disks demo_closed) 5 1"
    using demo_sealed by simp
  have f: "filter (shown (replicate 16 1) 0) [demo_key 100, demo_key 101] = [demo_key 100, demo_key 101]"
    by (simp add: demo_key_def demo_sh_def)
  have fr: "list_all is_frame [demo_key 100, demo_key 101]" by (simp add: demo_key_def)
  have pc: "paced (replicate 16 1) 0 100 100 [demo_key 100, demo_key 101]" by (simp add: demo_key_def demo_sh_def)
  show ?thesis using closed_basket_plays [OF demo_healthy(1) _ s demo_ts_ok(1) fr _ pl(3), of "[demo_env, demo_env]" "replicate 16 1"]
    demo_healthy(1) pc f unfolding pl demo_ts_ok(2) by simp
qed

text \<open>C23: From key frame to key frame, backwards.  On a basket the recorder has closed, whose index is shorter
  than 2 GB, and with no system call failing: when the player's count of key frames says number k + 1, key frame
  number k is of a channel that is chosen, is not empty and fits the buffer, then reading the previous key frame delivers key frame
  number k, through its entry in the index file, and leaves the player at it with the count k.  (After
  reading forwards the count is one ahead of the place, so that this call repeats a key frame; on a key frame of another channel it goes on to an
  earlier one.)\<close>

theorem previous_key_frame:
  assumes "healthy ev" "sealed flag bts its (pre @ Vid sh vh pl # post) ixs (rw_disks w) d b" "sh_frametype sh = FT_IFRAME"
    "on_basket w d b p" "md_iframe_cur (pl_md p) = int (Suc (keys_in pre))" "int (INDEX_HDR_LEN + INDEX_DATA_LEN * length ixs) < 2 ^ 31"
    "0 < length pl" "length pl \<le> length (mp_vbuffer (pl_dp p))" "length decflags = 16" "decflags ! nat (sh_ch sh) = 1"
  shows "\<exists>p'. BKTMD_ReadPrevIFrame ev w decflags p = Some (BKT_OK, p') \<and> delivers (Vid sh vh pl) (pl_dp p') \<and> on_basket w d b p'
    \<and> md_iframe_cur (pl_md p') = int (keys_in pre) \<and> md_sec (pl_md p') = sh_sec sh"
  by (rule prev_key_frame [OF assms])

lemma previous_key_frame_witness:
  "\<exists>p'. BKTMD_ReadPrevIFrame demo_env demo_closed (replicate 16 1) (demo_player 460 1) = Some (BKT_OK, p') \<and> delivers (demo_key 100) (pl_dp p')"
proof -
  have s: "sealed SF_FULL demo_ts demo_ts ([] @ Vid (demo_sh\<lparr>sh_id := ID_VIDEO_HEADER, sh_framesize := 2, sh_sec := 100\<rparr>) (video_hdr_of (demo_video 100 [1, 2])) [1, 2]
      # [demo_key 101, demo_end]) [demo_index 288 100, demo_index 374 101] (rw_disks demo_closed) 5 1"
    using demo_sealed by (simp add: demo_key_def)
  have "\<exists>p'. BKTMD_ReadPrevIFrame demo_env demo_closed (replicate 16 1) (demo_player 460 1) = Some (BKT_OK, p') \<and> delivers (demo_key 100) (pl_dp p')
      \<and> on_basket demo_closed 5 1 p' \<and> md_iframe_cur (pl_md p') = int (keys_in []) \<and> md_sec (pl_md p') = sh_sec (demo_sh\<lparr>sh_id := ID_VIDEO_HEADER, sh_framesize := 2, sh_sec := 100\<rparr>)"
    unfolding demo_key_def
    by (rule previous_key_frame [OF demo_healthy(1) s _ demo_on_basket]) (simp_all add: demo_player_def demo_sh_def keys_in_def const_defs)
  then show ?thesis by blast
qed

text \<open>And forwards, on a basket that is not the one being recorded: at key frame number k - 1,
  before its place, reading the next key frame delivers key frame number k of the basket.\<close>

theorem following_key_frame:
  assumes "healthy ev" "sealed flag bts its (pre @ Vid sh vh pl # post) ixs (rw_disks w) d b" "sh_frametype sh = FT_IFRAME"
    "on_basket w d b p" "md_iframe_cur (pl_md p) + 1 = int (keys_in pre)" "int (INDEX_HDR_LEN + INDEX_DATA_LEN * length ixs) < 2 ^ 31"
    "md_iframe_cnt (pl_md p) = int (length ixs)" "\<not> BKT_isRecordingBasket b w (pl_md p)"
    "md_fpos_bkt (pl_md p) \<le> int (BASKET_HDR_LEN + length (items_bytes pre))"
    "0 < length pl" "length pl \<le> length (mp_vbuffer (pl_dp p))" "length decflags = 16" "decflags ! nat (sh_ch sh) = 1"
  shows "\<exists>p'. BKTMD_ReadNextIFrame ev w decflags p = Some (BKT_OK, p') \<and> delivers (Vid sh vh pl) (pl_dp p') \<and> on_basket w d b p'
    \<and> md_iframe_cur (pl_md p') = int (keys_in pre) \<and> md_sec (pl_md p') = sh_sec sh"
  by (rule next_key_frame [OF assms])

lemma following_key_frame_witness:
  "\<exists>p'. BKTMD_ReadNextIFrame demo_env demo_closed (replicate 16 1) (demo_player 288 0) = Some (BKT_OK, p') \<and> delivers (demo_key 101) (pl_dp p')"
proof -
  have s: "sealed SF_FULL demo_ts demo_ts ([demo_key 100] @ Vid (demo_sh\<lparr>sh_id := ID_VIDEO_HEADER, sh_framesize := 2, sh_sec := 101\<rparr>) (video_hdr_of (demo_video 101 [1, 2])) [1, 2]
      # [demo_end]) [demo_index 288 100, demo_index 374 101] (rw_disks demo_closed) 5 1"
    using demo_sealed by (simp add: demo_key_def)
  have k: "keys_in [demo_key 100] = 1" by (simp add: keys_in_def demo_key_def demo_sh_def FT_IFRAME_def)
  have "\<exists>p'. BKTMD_ReadNextIFrame demo_env demo_closed (replicate 16 1) (demo_player 288 0) = Some (BKT_OK, p') \<and> delivers (demo_key 101) (pl_dp p')
      \<and> on_basket demo_closed 5 1 p' \<and> md_iframe_cur (pl_md p') = int (keys_in [demo_key 100])
      \<and> md_sec (pl_md p') = sh_sec (demo_sh\<lparr>sh_id := ID_VIDEO_HEADER, sh_framesize := 2, sh_sec := 101\<rparr>)"
    unfolding demo_key_def [of 101]
    by (rule following_key_frame [OF demo_healthy(1) s _ demo_on_basket _ _ _ demo_not_recording]) (simp_all add: k, simp_all add: demo_player_def demo_sh_def const_defs)
  then show ?thesis by blast
qed

section \<open>The record database\<close>

text \<open>C22: What a flush enters is found.  No system call fails, and the record database of the disk is whole and consistent (every cell
  that has a basket has an event), and the player looks at this disk with the same local time.  The buffered entries are of one day, and each has a valid channel and time, a basket number
  that is not 0, and an event that is not 0: the minutes of frames recorded under \<open>EVT_NONE\<close>, as those from before a
  channel was enabled, are entered but taken for empty by the search.  Then the flush succeeds, empties the
  buffer, and from then on every search of the player, forwards, backwards or exactly, at
  the channel and time of an entry answers that there is a record.\<close>

theorem flushed_minutes_found:
  assumes "healthy ev" "rdb_ok (cur_disk w)" "rdb_consistent (cur_disk w)" "rc_r_buf (rw_ctrl w) = p # ps"
    "list_all (entry_ok (ev_local ev)) (p # ps)" "\<forall>q \<in> set (p # ps). day_key (ev_local ev (rp_sec q)) = day_key (ev_local ev (rp_sec p))
      \<and> tm_mday (ev_local ev (rp_sec q)) = tm_mday (ev_local ev (rp_sec p))"
    "healthy ev'" "ev_local ev' = ev_local ev" "md_target c = rc_target_path (rw_ctrl w)" "q \<in> set (p # ps)"
  shows "\<exists>w'. BKTREC_Flush_RDBDATA ev w = (BKT_OK, w') \<and> rc_r_buf (rw_ctrl w') = []
    \<and> BKTMD_hasRecData ev' w' (nat (rp_ch q)) (rp_sec q) direction c = BKT_OK"
proof -
  obtain w' e r where w': "BKTREC_Flush_RDBDATA ev w = (BKT_OK, w')" "rc_r_buf (rw_ctrl w') = []" "rc_target_path (rw_ctrl w') = rc_target_path (rw_ctrl w)"
    "dk_rdb (cur_disk w') (day_key (ev_local ev (rp_sec p))) = Some \<lparr>rf_evts = Some e, rf_rdbs = Some r\<rparr>"
    "consistent e r" "\<forall>q \<in> set (p # ps). fst (r (rdb_offset (rp_ch q) (ev_local ev (rp_sec q)))) \<noteq> 0"
    using Flush_RDBDATA_enters [OF assms(1-6)] by blast
  have key: "day_key (ev_local ev (rp_sec q)) = day_key (ev_local ev (rp_sec p))" using assms(6,10) by blast
  have q: "entry_ok (ev_local ev') q" "fst (r (rdb_offset (rp_ch q) (ev_local ev' (rp_sec q)))) \<noteq> 0"
    using assms(5,8,10) w'(6) by (auto simp: list_all_iff)
  have "dk_rdb (rw_disks w' (md_target c)) (day_key (ev_local ev' (rp_sec q))) = Some \<lparr>rf_evts = Some e, rf_rdbs = Some r\<rparr>"
    using w'(3,4) key assms(8,9) by simp
  then have "BKTMD_hasRecData ev' w' (nat (rp_ch q)) (rp_sec q) direction c = BKT_OK"
    by (rule hasRecData_found [OF assms(7) _ w'(5) q])
  with w'(1,2) show ?thesis by blast
qed

definition demo_entry :: rdb_prm where
  "demo_entry = \<lparr>rp_ch = 0, rp_sec = 100, rp_evt = 1, rp_bid = 1, rp_idx_pos = 272\<rparr>"

lemma flushed_minutes_found_witness:
  "\<exists>w'. BKTREC_Flush_RDBDATA demo_env (upd_ctrl (rc_r_buf_update (\<lambda>_. [demo_entry])) demo_world) = (BKT_OK, w')
     \<and> BKTMD_hasRecData demo_env w' 0 100 BKT_FORWARD (pl_md (demo_player 0 0)) = BKT_OK"
proof -
  have "rdb_ok demo_disk" "rdb_consistent demo_disk" by (simp_all add: rdb_ok_def rdb_consistent_def demo_disk_def)
  moreover have "entry_ok (ev_local demo_env) demo_entry" by (simp add: entry_ok_def demo_entry_def demo_env_def evt_char_def le_int_def)
  moreover have "md_target (pl_md (demo_player 0 0)) = 5" "rc_target_path (rw_ctrl demo_world) = 5" "rw_disks demo_world 5 = demo_disk"
    by (simp_all add: demo_player_def demo_world_def demo_ctrl_def)
  ultimately show ?thesis
    using flushed_minutes_found [OF demo_healthy(1), of "upd_ctrl (rc_r_buf_update (\<lambda>_. [demo_entry])) demo_world" demo_entry "[]" demo_env
      "pl_md (demo_player 0 0)" demo_entry BKT_FORWARD] demo_healthy(1)
    by (auto simp: demo_entry_def)
qed

text \<open>A stop forgets minutes.  The flush of a stop enters the buffered entries only after an earlier
  flush in the same basket: without one, the stop succeeds and empties the buffer, but no
  record database changes, so the minutes recorded since the basket was opened are on disk
  and cannot be found.\<close>

theorem stop_forgets_minutes:
  assumes "healthy ev" "basket_open items ixs w" "disks_ok w" "\<not> rc_r_skip (rw_ctrl w)"
  shows "\<exists>w'. BKTREC_exit ev flag BKT_REC_CLOSE_BUF_FLUSH w = (S_OK, w') \<and> rc_r_buf (rw_ctrl w') = []
    \<and> (\<forall>d. dk_rdb (rw_disks w' d) = dk_rdb (rw_disks w d))"
proof -
  obtain w' where w': "BKTREC_exit ev flag BKT_REC_CLOSE_BUF_FLUSH w = (S_OK, w')" using exit_ok [OF assms(1-3)] by blast
  then show ?thesis using exit_clears [OF w'] exit_rdb [OF assms(4), of ev flag BKT_REC_CLOSE_BUF_FLUSH] by auto
qed

lemma demo_pending: "basket_open [] [] (upd_ctrl (rc_r_buf_update (\<lambda>_. [demo_entry])) demo_world)"
  using demo_open by (simp add: basket_open_def Let_def buffers_ok_def rc_b_pos_def rc_i_pos_def rc_r_pos_def SIZEOF_RDB_PRM_def BKT_RBUF_SIZE_def)

lemma stop_forgets_minutes_witness:
  "\<exists>w'. BKTREC_exit demo_env SF_STOP BKT_REC_CLOSE_BUF_FLUSH (upd_ctrl (rc_r_buf_update (\<lambda>_. [demo_entry])) demo_world) = (S_OK, w')
     \<and> rc_r_buf (rw_ctrl w') = [] \<and> dk_rdb (rw_disks w' 5) = Map.empty"
proof -
  let ?w = "upd_ctrl (rc_r_buf_update (\<lambda>_. [demo_entry])) demo_world"
  have ok: "disks_ok ?w" by (rule disks_ok_cong [OF demo_disks_ok]) simp_all
  have sk: "\<not> rc_r_skip (rw_ctrl ?w)" by (simp add: demo_world_def demo_ctrl_def)
  have "dk_rdb (rw_disks ?w 5) = Map.empty" by (simp add: demo_world_def demo_disk_def)
  then show ?thesis using stop_forgets_minutes [OF demo_healthy(1) demo_pending ok sk, of SF_STOP] by auto
qed

text \<open>Behind the end mark.  When the player passes the end mark while its count of key frames is behind
  the index, as after the key frames of a deselected channel, it does not open the next
  basket: it takes what the recycled file holds behind the mark, a frame of the basket's
  earlier use, and delivers it as the next frame.\<close>

theorem stale_frame_after_end_mark:
  assumes "healthy ev" "sealed flag bts its items ixs (rw_disks w) d b"
    "playing w d b pos (item_bytes (End e) @ item_bytes (Vid sh vh pl) @ rest) p" "on_basket w d b p" "item_ok (End e)"
    "md_iframe_cur (pl_md p) = int k" "Suc k < length ixs" "md_iframe_cnt (pl_md p) = int (length ixs)" "int (INDEX_HDR_LEN + INDEX_DATA_LEN * length ixs) < 2 ^ 31"
    "\<not> BKT_isRecordingBasket b w (pl_md p)" "item_ok (Vid sh vh pl)" "0 < length pl" "length pl \<le> length (mp_vbuffer (pl_dp p))"
    "length decflags = 16" "decflags ! nat (sh_ch sh) = 1"
  shows "\<exists>p'. BKTMD_ReadNextFrame ev w decflags p = Some (BKT_OK, p') \<and> delivers (Vid sh vh pl) (pl_dp p')"
  by (rule stale_frame [OF assms])

lemma stale_frame_after_end_mark_witness:
  "\<exists>p'. BKTMD_ReadNextFrame demo_env demo_closed (replicate 16 1) (demo_player 460 0) = Some (BKT_OK, p') \<and> delivers (demo_key 50) (pl_dp p')"
proof -
  have "before (rw_disks demo_closed) (demo_handle Bkt 460) Bkt 5 1 460 (item_bytes demo_end @ item_bytes (demo_key 50) @ [])"
    using demo_before_end by simp
  then have "playing demo_closed 5 1 460 (item_bytes demo_end @ item_bytes (demo_key 50) @ []) (demo_player 460 0)"
    by (simp add: playing_def demo_player_def)
  then have pl: "playing demo_closed 5 1 460 (item_bytes (End (demo_sh\<lparr>sh_id := ID_BASKET_END\<rparr>)) @ item_bytes (Vid (demo_sh\<lparr>sh_id := ID_VIDEO_HEADER, sh_framesize := 2,
      sh_sec := 50\<rparr>) (video_hdr_of (demo_video 50 [1, 2])) [1, 2]) @ []) (demo_player 460 0)"
    unfolding demo_end_def demo_key_def .
  show ?thesis using stale_frame_after_end_mark [OF demo_healthy(1) demo_sealed pl demo_on_basket _ _ _ _ _ demo_not_recording, of 0 "replicate 16 1"]
      demo_end_item(1) demo_key_item(1) [of 50]
    unfolding demo_end_def demo_key_def by (simp add: demo_player_def) (simp add: demo_sh_def const_defs)
qed

end
