(* ===== verification/Basket_Open.thy ===== *)
theory Basket_Open
  imports Basket_Replay
begin

text \<open>Opening the recorder (\<open>BKTREC_open\<close> of src/basket_rec.c): a new or recycled basket is
  started, or the last one resumed.  To resume, the end of what was recorded is searched:
  from the last key frame of the index on, the frames are passed one by one.\<close>

section \<open>The search for the end\<close>

text \<open>The index, when its header has no count, as after a crash.  Each round reads at least a
  byte, so that the length of the file bounds the rounds.\<close>

fun index_scan :: "bkt_env \<Rightarrow> nat \<Rightarrow> nat \<Rightarrow> byte list \<Rightarrow> bkt_handle option \<Rightarrow> disks \<Rightarrow> int \<times> int \<Rightarrow> int \<Rightarrow> int
    \<Rightarrow> int \<times> int \<times> bkt_handle option" where
  "index_scan ev 0 r old h ds prev idx_count bkt_fpos = (idx_count, bkt_fpos, h)"
| "index_scan ev (Suc n) r old h ds (prev_sec, prev_usec) idx_count bkt_fpos =
    (case rd ev 1571 r old h ds of
       (ok, bs, h') \<Rightarrow>
         let idd = dec_index_data bs in
         if \<not> ok then (idx_count, bkt_fpos, h')
         else if ix_sec idd < prev_sec \<or> (ix_sec idd = prev_sec \<and> ix_usec idd < prev_usec) \<or> ix_id idd \<noteq> ID_INDEX_DATA \<or> ix_fpos idd < bkt_fpos
         then (idx_count, bkt_fpos, h')
         else index_scan ev n (Suc r) bs h' ds (ix_sec idd, ix_usec idd) (idx_count + 1) (ix_fpos idd))"

definition scan_index :: "bkt_env \<Rightarrow> rec_world \<Rightarrow> int \<times> int \<times> bkt_handle option" where
  "scan_index ev w = index_scan ev (case rw_hidx w of None \<Rightarrow> 0 | Some h \<Rightarrow> Suc (length (file_of h (rw_disks w)))) 0
     (replicate INDEX_DATA_LEN 0) (rw_hidx w) (rw_disks w) (0, 0) 0 0"

text \<open>The frames; both loops do the same, \<open>l\<close> is the line.  None: the loop does not end.\<close>

partial_function (option) stream_scan :: "bkt_env \<Rightarrow> nat \<Rightarrow> nat \<Rightarrow> disks \<Rightarrow> byte list \<Rightarrow> bkt_handle option \<Rightarrow> int \<times> int \<Rightarrow> int
    \<Rightarrow> (int \<times> bkt_handle option) option" where
  "stream_scan ev l r ds old h prev bkt_fpos =
    (case rd ev l r old h ds of
       (ok, bs, h1) \<Rightarrow>
         let shd = dec_stream_hdr bs in
         if \<not> ok then Some (bkt_fpos, h1)
         else if sh_sec shd \<le> fst prev \<and> sh_usec shd < snd prev then Some (bkt_fpos, h1)
         else if sh_id shd \<noteq> ID_VIDEO_HEADER \<and> sh_id shd \<noteq> ID_AUDIO_HEADER then Some (bkt_fpos, h1)
         else case seek_cur (int (if sh_id shd = ID_VIDEO_HEADER then VIDEO_HDR_LEN else AUDIO_HDR_LEN) + sh_framesize shd) h1 of
           (ok, h2) \<Rightarrow>
             if \<not> ok then Some (bkt_fpos, h2)
             else stream_scan ev l (Suc r) ds bs h2 (sh_sec shd, sh_usec shd) (h_tell h2))"

definition scan_stream :: "bkt_env \<Rightarrow> nat \<Rightarrow> int \<Rightarrow> rec_world \<Rightarrow> (bool \<times> rec_world) option" where
  "scan_stream ev l bkt_fpos w =
    Option.bind (stream_scan ev l 0 (rw_disks w) (junk ev l STREAM_HDR_LEN) (rw_hbkt w) (0, 0) bkt_fpos) (\<lambda>(fpos, h).
      case seek_set fpos h of (ok, h') \<Rightarrow> Some (ok, w\<lparr>rw_hbkt := h'\<rparr>))"

section \<open>Resuming a basket\<close>

text \<open>The places in both files: seeks to a position in the stream and in the index file.\<close>

definition seek_both :: "int \<Rightarrow> int \<Rightarrow> rec_world \<Rightarrow> bool \<times> rec_world" where
  "seek_both bkt_fpos idx_fpos w =
    (case seek_set bkt_fpos (rw_hbkt w) of
       (ok, hb) \<Rightarrow>
         if \<not> ok then (False, w\<lparr>rw_hbkt := hb\<rparr>)
         else case seek_set idx_fpos (rw_hidx w) of (ok, hi) \<Rightarrow> (ok, w\<lparr>rw_hbkt := hb, rw_hidx := hi\<rparr>))"

definition resume_uncounted :: "bkt_env \<Rightarrow> rec_world \<Rightarrow> (bool \<times> rec_world) option" where
  "resume_uncounted ev w =
    (case scan_index ev w of
       (idx_count, bkt_fpos, h) \<Rightarrow>
         let w1 = w\<lparr>rw_hidx := h\<rparr> in
         if idx_count \<noteq> 0 then
           (case seek_both bkt_fpos (off32 (int INDEX_DATA_LEN * idx_count + int INDEX_HDR_LEN)) w1 of
              (ok, w2) \<Rightarrow> if \<not> ok then Some (False, w2) else scan_stream ev 1615 bkt_fpos w2)
         else Some (seek_both (int BASKET_HDR_LEN) (int INDEX_HDR_LEN) w1))"

definition resume_counted :: "bkt_env \<Rightarrow> int \<Rightarrow> rec_world \<Rightarrow> (bool \<times> rec_world) option" where
  "resume_counted ev cnt w =
    (case seek_cur (off32 (int INDEX_DATA_LEN * (cnt - 1))) (rw_hidx w) of
       (ok, h) \<Rightarrow>
         if \<not> ok then Some (False, w\<lparr>rw_hidx := h\<rparr>)
         else case rd ev 1687 0 (junk ev 1677 INDEX_DATA_LEN) h (rw_disks w) of
           (ok, bs, h1) \<Rightarrow>
             let w1 = w\<lparr>rw_hidx := h1\<rparr> in
             if \<not> ok then Some (False, w1)
             else case seek_set (ix_fpos (dec_index_data bs)) (rw_hbkt w1) of
               (ok, hb) \<Rightarrow>
                 let w2 = w1\<lparr>rw_hbkt := hb\<rparr> in
                 if \<not> ok then Some (False, w2) else scan_stream ev 1707 (h_tell hb) w2)"

text \<open>The header written when a basket is opened: the times are cleared.\<close>

definition open_header :: "bkt_env \<Rightarrow> int \<Rightarrow> basket_hdr" where
  "open_header ev bid = \<lparr>bh_id = ID_BASKET_HDR, bh_bid = bid, bh_latest_update = ev_now ev, bh_lPriority = 0, bh_s_type = 0, bh_ts = no_time,
     bh_save_flag = SF_USING, bh_totalframecount = 0, bh_reserved = 0xBBBBBBBB - 2 ^ 32\<rparr>"

definition close_both :: "rec_world \<Rightarrow> rec_world" where
  "close_both w = w\<lparr>rw_hbkt := None, rw_hidx := None\<rparr>"

text \<open>The places and the day are noted, and the recorder is open.\<close>

definition now_open :: "bkt_env \<Rightarrow> rec_world \<Rightarrow> rec_world" where
  "now_open ev w = upd_ctrl (\<lambda>c. c\<lparr>rc_fpos_bkt := h_tell (rw_hbkt w), rc_fpos_idx := h_tell (rw_hidx w), rc_prev_day := tm_mday (ev_local ev (ev_now ev))\<rparr>)
     (w\<lparr>rw_status := BKT_STATUS_OPENED\<rparr>)"

definition resume_basket :: "bkt_env \<Rightarrow> rec_world \<Rightarrow> (int \<times> rec_world) option" where
  "resume_basket ev w =
    (let d = rc_target_path (rw_ctrl w); b = rc_bid (rw_ctrl w);
         w1 = w\<lparr>rw_hbkt := h_open ev 1519 Bkt d b (rw_disks w)\<rparr> in
     if rw_hbkt w1 = None then Some (BKT_ERR, w1)
     else case write_bkt ev 1538 (enc_basket_hdr (open_header ev b)) w1 of
       (ok, w2) \<Rightarrow>
         if \<not> ok then Some (BKT_ERR, w2\<lparr>rw_hbkt := None\<rparr>)
         else
           let w3 = w2\<lparr>rw_hidx := h_open ev 1546 Idx d b (rw_disks w2)\<rparr> in
           if rw_hidx w3 = None then Some (BKT_ERR, w3\<lparr>rw_hbkt := None\<rparr>)
           else case rd ev 1554 0 (junk ev 1553 INDEX_HDR_LEN) (rw_hidx w3) (rw_disks w3) of
             (ok, bs, hi) \<Rightarrow>
               let w4 = w3\<lparr>rw_hidx := hi\<rparr>; cnt = ih_count (dec_index_hdr bs) in
               if \<not> ok then Some (BKT_ERR, close_both w4)
               else Option.bind (if cnt \<le> 0 then resume_uncounted ev w4 else resume_counted ev cnt w4) (\<lambda>(ok, w5).
                 if \<not> ok then Some (BKT_ERR, close_both w5) else Some (BKT_OK, now_open ev w5)))"

section \<open>Starting a basket\<close>

definition start_basket :: "bkt_env \<Rightarrow> rec_world \<Rightarrow> int \<times> rec_world" where
  "start_basket ev w =
    (let d = rc_target_path (rw_ctrl w); b = rc_bid (rw_ctrl w);
         w1 = w\<lparr>rw_hbkt := h_open ev 1761 Bkt d b (rw_disks w)\<rparr> in
     if rw_hbkt w1 = None then (BKT_ERR, w1)
     else case write_bkt ev 1781 (enc_basket_hdr (open_header ev b)) w1 of
       (ok, w2) \<Rightarrow>
         if \<not> ok then (BKT_ERR, w2\<lparr>rw_hbkt := None\<rparr>)
         else
           let w3 = w2\<lparr>rw_hidx := h_open ev 1789 Idx d b (rw_disks w2)\<rparr> in
           if rw_hidx w3 = None then (BKT_ERR, w3\<lparr>rw_hbkt := None\<rparr>)
           else
             let ihd = \<lparr>ih_id = ID_INDEX_HEADER, ih_bid = b, ih_count = 0, ih_ts = no_time, ih_reserved = 0xDDDDDDDD - 2 ^ 32\<rparr> in
             case write_idx ev 1807 (enc_index_hdr ihd) w3 of
               (ok, w4) \<Rightarrow> if \<not> ok then (BKT_ERR, close_both w4) else (BKT_OK, now_open ev w4))"

section \<open>Opening\<close>

text \<open>The control record after it is cleared.  Path 0 is the empty path.\<close>

definition cleared_ctrl :: bktrec where
  "cleared_ctrl = \<lparr>rc_bid = 0, rc_fpos_bkt = 0, rc_fpos_idx = 0, rc_prev_day = 0, rc_prev_min = replicate BKT_MAX_CHANNEL (-1),
     rc_bkt_secs = no_time, rc_idx_secs = no_time, rc_b_buf = [], rc_i_buf = [], rc_idx_pos = replicate BKT_MAX_CHANNEL 0, rc_r_buf = [],
     rc_r_skip = False, rc_target_path = 0, rc_bkt_cnt = 0\<rparr>"

definition BKTREC_open :: "bkt_env \<Rightarrow> nat \<Rightarrow> rec_world \<Rightarrow> (int \<times> rec_world) option" where
  "BKTREC_open ev target_mpoint w =
    (if rw_status w = BKT_STATUS_OPENED then Some (BKT_OK, w)
     else if target_mpoint = 0 then Some (BKT_ERR, w\<lparr>rw_ctrl := cleared_ctrl\<rparr>)
     else
       let w1 = w\<lparr>rw_ctrl := cleared_ctrl\<lparr>rc_target_path := target_mpoint\<rparr>\<rparr>;
           w2 = snd (BKTREC_setTargetDisk ev (mi_curHddIdx (rw_mount w1)) w1) in
       case BKTREC_searchBasket ev True w2 of
         ((saveflag, None), w3) \<Rightarrow> Some (BKT_ERR, w3)
       | ((saveflag, Some bid), w3) \<Rightarrow>
           let w4 = upd_ctrl (rc_bid_update (\<lambda>_. bid)) w3; with_status = (\<lambda>(st, w).
             if st \<noteq> BKT_OK then (st, w) else (BKT_OK, snd (BKTREC_setBasketStatus ev bid SF_USING w))) in
           if saveflag = SF_USING \<or> saveflag = SF_STOP then map_option with_status (resume_basket ev w4)
           else if saveflag = SF_FULL \<and> rw_recycle w4 = BKT_RECYCLE_ONCE then Some (BKT_FULL, w4)
           else Some (with_status (start_basket ev w4)))"

end
