(* ===== verification/Basket_Resume.thy ===== *)
theory Basket_Resume
  imports Basket_Open
begin

text \<open>What opening the recorder achieves: the two scans pass over the entries and frames that
  a stopped or crashed recorder has left, a resumed basket holds them again, and a started
  one is empty.\<close>

section \<open>Reading to the end of a file\<close>

definition at_rest :: "disks \<Rightarrow> bkt_handle option \<Rightarrow> fkind \<Rightarrow> nat \<Rightarrow> int \<Rightarrow> nat \<Rightarrow> byte list \<Rightarrow> bool" where
  "at_rest ds h k d b pos bs \<longleftrightarrow> h = Some \<lparr>hd_kind = k, hd_disk = d, hd_bid = b, hd_pos = pos\<rparr>
     \<and> (\<exists>f. the_file ds k d b = Some f \<and> pos \<le> length f \<and> drop pos f = bs)"

lemma at_rest_before: "at_rest ds h k d b pos bs \<Longrightarrow> before ds h k d b pos bs"
  by (auto simp: at_rest_def before_def)

lemma at_rest_skip:
  assumes "at_rest ds h k d b pos (xs @ ys)"
  shows "at_rest ds (Some \<lparr>hd_kind = k, hd_disk = d, hd_bid = b, hd_pos = pos + length xs\<rparr>) k d b (pos + length xs) ys"
proof -
  obtain f where f: "the_file ds k d b = Some f" "pos \<le> length f" "drop pos f = xs @ ys"
    using assms by (auto simp: at_rest_def)
  have "drop (pos + length xs) f = ys" using f(3) by (metis append_eq_conv_conj drop_drop add.commute)
  moreover have "pos + length xs \<le> length f" using arg_cong [OF f(3), of length] f(2) by simp
  ultimately show ?thesis using f(1) by (simp add: at_rest_def)
qed

text \<open>The first structure, if there is one.\<close>

lemma rd_rest:
  assumes ev: "healthy ev" and h: "at_rest ds h k d b pos bs" and n: "bs = [] \<or> length old \<le> length bs" "old \<noteq> []"
  shows "rd ev l r old h ds = (bs \<noteq> [], if bs = [] then old else take (length old) bs,
    Some \<lparr>hd_kind = k, hd_disk = d, hd_bid = b, hd_pos = pos + (if bs = [] then 0 else length old)\<rparr>)"
proof -
  obtain f where "the_file ds k d b = Some f" "drop pos f = bs" "h = Some \<lparr>hd_kind = k, hd_disk = d, hd_bid = b, hd_pos = pos\<rparr>"
    using h by (auto simp: at_rest_def)
  then show ?thesis using ev n by (auto simp: rd_def h_read_def get_bytes_def file_of_def Let_def)
qed

section \<open>The frames\<close>

fun item_hdr :: "item \<Rightarrow> stream_hdr" where
  "item_hdr (Vid sh vh p) = sh"
| "item_hdr (Aud sh ah p) = sh"
| "item_hdr (End sh) = sh"

text \<open>The test of the scan: a frame goes on unless it is not later in seconds and earlier in
  microseconds than the one before.\<close>

definition goes_on :: "int \<times> int \<Rightarrow> stream_hdr \<Rightarrow> bool" where
  "goes_on prev sh \<longleftrightarrow> \<not> (sh_sec sh \<le> fst prev \<and> sh_usec sh < snd prev)"

fun in_order :: "int \<times> int \<Rightarrow> item list \<Rightarrow> bool" where
  "in_order prev [] = True"
| "in_order prev (i # items) = (goes_on prev (item_hdr i) \<and> in_order (sh_sec (item_hdr i), sh_usec (item_hdr i)) items)"

definition last_time :: "int \<times> int \<Rightarrow> item list \<Rightarrow> int \<times> int" where
  "last_time prev items = (if items = [] then prev else (sh_sec (item_hdr (last items)), sh_usec (item_hdr (last items))))"

lemma last_time_Cons: "last_time prev (i # items) = last_time (sh_sec (item_hdr i), sh_usec (item_hdr i)) items"
  by (simp add: last_time_def)

text \<open>Bytes at which the scan stops.\<close>

definition stops :: "int \<times> int \<Rightarrow> byte list \<Rightarrow> bool" where
  "stops prev bs \<longleftrightarrow> bs = [] \<or> (STREAM_HDR_LEN \<le> length bs \<and> (let sh = dec_stream_hdr (take STREAM_HDR_LEN bs) in
     \<not> goes_on prev sh \<or> (sh_id sh \<noteq> ID_VIDEO_HEADER \<and> sh_id sh \<noteq> ID_AUDIO_HEADER)))"

lemma item_split:
  assumes "item_ok i" "is_frame i"
  obtains body where "item_bytes i = enc_stream_hdr (item_hdr i) @ body" "stream_hdr_ok (item_hdr i)"
    "sh_id (item_hdr i) = ID_VIDEO_HEADER \<or> sh_id (item_hdr i) = ID_AUDIO_HEADER"
    "int (if sh_id (item_hdr i) = ID_VIDEO_HEADER then VIDEO_HDR_LEN else AUDIO_HDR_LEN) + sh_framesize (item_hdr i) = int (length body)"
proof (cases i)
  case (Vid sh vh p)
  then show thesis using assms that [of "enc_video_hdr vh @ p"] video_enc(1) [of vh] by simp
next
  case (Aud sh ah p)
  then show thesis using assms that [of "enc_audio_hdr ah @ p"] audio_enc(1) [of ah]
    by (simp add: ID_VIDEO_HEADER_def ID_AUDIO_HEADER_def)
qed (use assms in simp)

lemma stream_scan_items:
  assumes ev: "healthy ev"
  shows "at_rest ds h Bkt d b pos (items_bytes items @ rb) \<Longrightarrow> list_all item_ok items \<Longrightarrow> list_all is_frame items \<Longrightarrow> in_order prev items
    \<Longrightarrow> stops (last_time prev items) rb \<Longrightarrow> length old = STREAM_HDR_LEN
    \<Longrightarrow> \<exists>n. stream_scan ev l r ds old h prev (int pos)
      = Some (int (pos + length (items_bytes items)), Some \<lparr>hd_kind = Bkt, hd_disk = d, hd_bid = b, hd_pos = n\<rparr>)"
proof (induction items arbitrary: h pos prev r old)
  case Nil
  have old: "old \<noteq> []" using Nil.prems(6) by (auto simp: STREAM_HDR_LEN_def)
  have "rd ev l r old h ds = (rb \<noteq> [], if rb = [] then old else take (length old) rb,
      Some \<lparr>hd_kind = Bkt, hd_disk = d, hd_bid = b, hd_pos = pos + (if rb = [] then 0 else length old)\<rparr>)"
    by (rule rd_rest [OF ev _ _ old]) (use Nil.prems in \<open>auto simp: stops_def\<close>)
  then show ?case using Nil.prems(5,6) by (subst stream_scan.simps) (auto simp: stops_def goes_on_def last_time_def Let_def)
next
  case (Cons i items)
  let ?sh = "item_hdr i"
  have i: "item_ok i" "is_frame i" using Cons.prems(2,3) by simp_all
  obtain body where ib: "item_bytes i = enc_stream_hdr ?sh @ body" and sok: "stream_hdr_ok ?sh"
    and id: "sh_id ?sh = ID_VIDEO_HEADER \<or> sh_id ?sh = ID_AUDIO_HEADER"
    and n: "int (if sh_id ?sh = ID_VIDEO_HEADER then VIDEO_HDR_LEN else AUDIO_HDR_LEN) + sh_framesize ?sh = int (length body)"
    by (rule item_split [OF i])
  have a0: "at_rest ds h Bkt d b pos (enc_stream_hdr ?sh @ body @ items_bytes items @ rb)" using Cons.prems(1) ib by simp
  have r1: "rd ev l r old h ds = (True, enc_stream_hdr ?sh, Some \<lparr>hd_kind = Bkt, hd_disk = d, hd_bid = b, hd_pos = pos + length (enc_stream_hdr ?sh)\<rparr>)"
    by (rule rd_before [OF ev at_rest_before [OF a0]]) (use Cons.prems(6) length_stream_enc [OF sok] enc_stream_ne [OF sok] in simp_all)
  note a1 = at_rest_skip [OF a0]
  note a2 = at_rest_skip [OF a1]
  have pos: "pos + length (enc_stream_hdr ?sh) + length body = pos + length (item_bytes i)" using ib by simp
  obtain m where m: "stream_scan ev l (Suc r) ds (enc_stream_hdr ?sh) (Some \<lparr>hd_kind = Bkt, hd_disk = d, hd_bid = b, hd_pos = pos + length (item_bytes i)\<rparr>)
      (sh_sec ?sh, sh_usec ?sh) (int (pos + length (item_bytes i)))
    = Some (int (pos + length (item_bytes i) + length (items_bytes items)), Some \<lparr>hd_kind = Bkt, hd_disk = d, hd_bid = b, hd_pos = m\<rparr>)"
    using Cons.IH [OF a2 [unfolded pos], of "(sh_sec ?sh, sh_usec ?sh)" "enc_stream_hdr ?sh" "Suc r"] Cons.prems(2-5) length_stream_enc [OF sok]
    by (auto simp: last_time_Cons)
  have go: "\<not> (sh_sec ?sh \<le> fst prev \<and> sh_usec ?sh < snd prev)" using Cons.prems(4) by (simp add: goes_on_def)
  have "stream_scan ev l r ds old h prev (int pos) = stream_scan ev l (Suc r) ds (enc_stream_hdr ?sh)
      (Some \<lparr>hd_kind = Bkt, hd_disk = d, hd_bid = b, hd_pos = pos + length (item_bytes i)\<rparr>) (sh_sec ?sh, sh_usec ?sh) (int (pos + length (item_bytes i)))"
    by (subst stream_scan.simps)
       (use r1 dec_stream_enc [OF sok] go id n seek_cur_before [OF at_rest_before [OF a1], of "length body"] pos in \<open>auto simp: Let_def h_tell_def\<close>)
  then show ?case using m by (auto simp: add.assoc)
qed

text \<open>The place behind the last frame is taken.\<close>

lemma scan_stream_items:
  assumes ev: "healthy ev" and h: "at_rest (rw_disks w) (rw_hbkt w) Bkt d b pos (items_bytes items @ rb)"
    and i: "list_all item_ok items" "list_all is_frame items" "in_order (0, 0) items" "stops (last_time (0, 0) items) rb"
  shows "scan_stream ev l (int pos) w = Some (True, w\<lparr>rw_hbkt := Some \<lparr>hd_kind = Bkt, hd_disk = d, hd_bid = b,
    hd_pos = pos + length (items_bytes items)\<rparr>\<rparr>)"
proof -
  obtain n where "stream_scan ev l 0 (rw_disks w) (junk ev l STREAM_HDR_LEN) (rw_hbkt w) (0, 0) (int pos)
      = Some (int (pos + length (items_bytes items)), Some \<lparr>hd_kind = Bkt, hd_disk = d, hd_bid = b, hd_pos = n\<rparr>)"
    using stream_scan_items [OF ev h i length_junk] by blast
  then show ?thesis using seek_set_int [of "pos + length (items_bytes items)"] by (simp add: scan_stream_def)
qed

section \<open>The index\<close>

fun times_up :: "int \<times> int \<Rightarrow> index_data list \<Rightarrow> bool" where
  "times_up prev [] = True"
| "times_up prev (d # ixs) = (\<not> (ix_sec d < fst prev \<or> (ix_sec d = fst prev \<and> ix_usec d < snd prev)) \<and> times_up (ix_sec d, ix_usec d) ixs)"

text \<open>Bytes at which the scan of the index stops.\<close>

definition idx_stops :: "int \<times> int \<Rightarrow> int \<Rightarrow> byte list \<Rightarrow> bool" where
  "idx_stops prev fpos bs \<longleftrightarrow> bs = [] \<or> (INDEX_DATA_LEN \<le> length bs \<and> (let d = dec_index_data (take INDEX_DATA_LEN bs) in
     ix_sec d < fst prev \<or> (ix_sec d = fst prev \<and> ix_usec d < snd prev) \<or> ix_id d \<noteq> ID_INDEX_DATA \<or> ix_fpos d < fpos))"

fun last_ix :: "int \<times> int \<Rightarrow> int \<Rightarrow> index_data list \<Rightarrow> (int \<times> int) \<times> int" where
  "last_ix prev fpos [] = (prev, fpos)"
| "last_ix prev fpos (d # ixs) = last_ix (ix_sec d, ix_usec d) (ix_fpos d) ixs"

text \<open>Entries whose places go up.\<close>

fun places_up :: "int \<Rightarrow> index_data list \<Rightarrow> bool" where
  "places_up fpos [] = True"
| "places_up fpos (d # ixs) = (ix_id d = ID_INDEX_DATA \<and> index_data_ok d \<and> fpos \<le> ix_fpos d \<and> places_up (ix_fpos d) ixs)"

lemma index_scan_entries:
  assumes ev: "healthy ev"
  shows "at_rest ds h Idx d b pos (index_bytes ixs @ ri) \<Longrightarrow> times_up prev ixs \<Longrightarrow> places_up fpos ixs
    \<Longrightarrow> last_ix prev fpos ixs = (prev', fpos') \<Longrightarrow> idx_stops prev' fpos' ri \<Longrightarrow> length old = INDEX_DATA_LEN \<Longrightarrow> length ixs \<le> n
    \<Longrightarrow> \<exists>m. index_scan ev n r old h ds prev cnt fpos = (cnt + int (length ixs), fpos', Some \<lparr>hd_kind = Idx, hd_disk = d, hd_bid = b, hd_pos = m\<rparr>)"
proof (induction ixs arbitrary: h pos prev fpos r old cnt n)
  case Nil
  have old: "old \<noteq> []" using Nil.prems(6) by (auto simp: INDEX_DATA_LEN_def)
  have h: "h = Some \<lparr>hd_kind = Idx, hd_disk = d, hd_bid = b, hd_pos = pos\<rparr>" using Nil.prems(1) by (simp add: at_rest_def)
  have "rd ev 1571 r old h ds = (ri \<noteq> [], if ri = [] then old else take (length old) ri,
      Some \<lparr>hd_kind = Idx, hd_disk = d, hd_bid = b, hd_pos = pos + (if ri = [] then 0 else length old)\<rparr>)"
    by (rule rd_rest [OF ev _ _ old]) (use Nil.prems in \<open>auto simp: idx_stops_def\<close>)
  then show ?case using Nil.prems(4-6) h by (cases n; cases prev) (auto simp: idx_stops_def Let_def)
next
  case (Cons x ixs)
  obtain n' where n: "n = Suc n'" "length ixs \<le> n'" using Cons.prems(7) by (cases n) auto
  have a0: "at_rest ds h Idx d b pos (enc_index_data x @ index_bytes ixs @ ri)" using Cons.prems(1) by simp
  have x: "index_data_ok x" "ix_id x = ID_INDEX_DATA" "fpos \<le> ix_fpos x" using Cons.prems(3) by simp_all
  have ne: "enc_index_data x \<noteq> []" by (metis length_index_data list.size(3) INDEX_DATA_LEN_def zero_neq_numeral)
  have r1: "rd ev 1571 r old h ds = (True, enc_index_data x, Some \<lparr>hd_kind = Idx, hd_disk = d, hd_bid = b, hd_pos = pos + length (enc_index_data x)\<rparr>)"
    by (rule rd_before [OF ev at_rest_before [OF a0]]) (use Cons.prems(6) ne in simp_all)
  have dec: "dec_index_data (enc_index_data x) = x" using dec_enc_index_data [OF x(1), of "[]"] by simp
  obtain m where m: "index_scan ev n' (Suc r) (enc_index_data x) (Some \<lparr>hd_kind = Idx, hd_disk = d, hd_bid = b, hd_pos = pos + length (enc_index_data x)\<rparr>) ds
      (ix_sec x, ix_usec x) (cnt + 1) (ix_fpos x) = (cnt + 1 + int (length ixs), fpos', Some \<lparr>hd_kind = Idx, hd_disk = d, hd_bid = b, hd_pos = m\<rparr>)"
    using Cons.IH [OF at_rest_skip [OF a0], of "(ix_sec x, ix_usec x)" "ix_fpos x" "enc_index_data x" n' "Suc r" "cnt + 1"] Cons.prems(2-5) n(2) by auto
  have t: "\<not> (ix_sec x < fst prev \<or> (ix_sec x = fst prev \<and> ix_usec x < snd prev))" using Cons.prems(2) by simp
  show ?case using m r1 dec t x(2,3) unfolding n(1) by (cases prev) (auto simp: Let_def)
qed

lemma indexes_places:
  "list_all2 indexes (iframes pos items) ixs \<Longrightarrow> fpos \<le> int pos \<Longrightarrow> places_up fpos ixs"
proof (induction items arbitrary: pos fpos ixs)
  case (Cons i items)
  show ?case
  proof (cases "iframes pos [i] = []")
    case True
    then have "iframes pos (i # items) = iframes (pos + length (item_bytes i)) items" by simp
    with Cons.prems have *: "list_all2 indexes (iframes (pos + length (item_bytes i)) items) ixs" by simp
    show ?thesis by (rule Cons.IH [OF *]) (use Cons.prems(2) in simp)
  next
    case False
    then obtain sh vh where i: "iframes pos [i] = [(pos, sh, vh)]" by (cases i) (auto split: if_splits)
    then have "iframes pos (i # items) = (pos, sh, vh) # iframes (pos + length (item_bytes i)) items" by simp
    with Cons.prems obtain x xs where x: "ixs = x # xs" "indexes (pos, sh, vh) x" "list_all2 indexes (iframes (pos + length (item_bytes i)) items) xs"
      by (auto simp: list_all2_Cons1)
    have "places_up (ix_fpos x) xs" by (rule Cons.IH [OF x(3)]) (use x(2) in \<open>simp add: indexes_def\<close>)
    then show ?thesis using x(1,2) Cons.prems(2) by (simp add: indexes_def)
  qed
qed simp

lemma last_ix_append: "last_ix prev fpos (ixs @ [x]) = ((ix_sec x, ix_usec x), ix_fpos x)"
  by (induction ixs arbitrary: prev fpos) auto

section \<open>What is left to resume\<close>

text \<open>The two files of a basket, with what is behind the frames and behind the entries, and
  the count of the index header.\<close>

definition stored :: "item list \<Rightarrow> index_data list \<Rightarrow> byte list \<Rightarrow> byte list \<Rightarrow> int \<Rightarrow> disks \<Rightarrow> nat \<Rightarrow> int \<Rightarrow> bool" where
  "stored items ixs rb ri cnt ds d b \<longleftrightarrow>
     (\<exists>hdr hi. the_file ds Bkt d b = Some (hdr @ items_bytes items @ rb) \<and> length hdr = BASKET_HDR_LEN
        \<and> the_file ds Idx d b = Some (hi @ index_bytes ixs @ ri) \<and> length hi = INDEX_HDR_LEN
        \<and> ih_count (dec_index_hdr hi) = cnt \<and> list_all item_ok items \<and> list_all is_frame items)"

text \<open>The entries list the key frames up to one.  From that key frame on the scan passes every
  frame and stops behind the last one; the count is that of the entries, or it is missing
  and the scan of the index passes every entry.\<close>

definition resumable :: "item list \<Rightarrow> index_data list \<Rightarrow> byte list \<Rightarrow> byte list \<Rightarrow> int \<Rightarrow> bool" where
  "resumable items ixs rb ri cnt \<longleftrightarrow>
     (\<exists>pre sh vh pl post. items = pre @ Vid sh vh pl # post \<and> sh_frametype sh = FT_IFRAME
        \<and> list_all2 indexes (iframes BASKET_HDR_LEN (pre @ [Vid sh vh pl])) ixs
        \<and> in_order (0, 0) (Vid sh vh pl # post) \<and> stops (last_time (0, 0) (Vid sh vh pl # post)) rb)
     \<and> (cnt = int (length ixs)
        \<or> (cnt \<le> 0 \<and> times_up (0, 0) ixs \<and> idx_stops (ix_sec (last ixs), ix_usec (last ixs)) (ix_fpos (last ixs)) ri))"

text \<open>The last entry of the index is that of the key frame.\<close>

lemma last_entry:
  assumes "list_all2 indexes (iframes pos (pre @ [Vid sh vh pl])) ixs" "sh_frametype sh = FT_IFRAME"
  obtains ixs' x where "ixs = ixs' @ [x]" "ix_fpos x = int (pos + length (items_bytes pre))" "index_data_ok x"
proof -
  have e: "iframes pos (pre @ [Vid sh vh pl]) = iframes pos pre @ [(pos + length (items_bytes pre), sh, vh)]"
    using assms(2) by simp
  from assms(1) [unfolded e] obtain ixs' x where "ixs = ixs' @ [x]" "indexes (pos + length (items_bytes pre), sh, vh) x"
    by (auto simp: list_all2_append1 list_all2_Cons1)
  then show thesis by (intro that) (auto simp: indexes_def)
qed

text \<open>A header written over the start of a file.\<close>

lemma header_over:
  assumes "the_file ds k d b = Some f" "hdr \<noteq> []"
  shows "h_write None hdr (Some \<lparr>hd_kind = k, hd_disk = d, hd_bid = b, hd_pos = 0\<rparr>) ds
    = (True, Some \<lparr>hd_kind = k, hd_disk = d, hd_bid = b, hd_pos = length hdr\<rparr>, set_file k d b (hdr @ drop (length hdr) f) ds)"
  using assms by (simp add: h_write_def file_of_def put_bytes_def)

lemma open_header_len: "length (enc_basket_hdr (open_header ev b)) = BASKET_HDR_LEN" "enc_basket_hdr (open_header ev b) \<noteq> []"
proof -
  show l: "length (enc_basket_hdr (open_header ev b)) = BASKET_HDR_LEN" by (rule length_basket_hdr) (simp_all add: open_header_def)
  show "enc_basket_hdr (open_header ev b) \<noteq> []" using l by (auto simp: BASKET_HDR_LEN_def)
qed

text \<open>Both files open at their data.\<close>

definition at_data :: "item list \<Rightarrow> index_data list \<Rightarrow> byte list \<Rightarrow> byte list \<Rightarrow> rec_world \<Rightarrow> nat \<Rightarrow> int \<Rightarrow> bool" where
  "at_data items ixs rb ri w d b \<longleftrightarrow> at_rest (rw_disks w) (rw_hbkt w) Bkt d b BASKET_HDR_LEN (items_bytes items @ rb)
     \<and> at_rest (rw_disks w) (rw_hidx w) Idx d b INDEX_HDR_LEN (index_bytes ixs @ ri)"

definition at_end :: "item list \<Rightarrow> index_data list \<Rightarrow> rec_world \<Rightarrow> nat \<Rightarrow> int \<Rightarrow> rec_world" where
  "at_end items ixs w d b = w\<lparr>rw_hbkt := Some \<lparr>hd_kind = Bkt, hd_disk = d, hd_bid = b, hd_pos = BASKET_HDR_LEN + length (items_bytes items)\<rparr>,
     rw_hidx := Some \<lparr>hd_kind = Idx, hd_disk = d, hd_bid = b, hd_pos = INDEX_HDR_LEN + INDEX_DATA_LEN * length ixs\<rparr>\<rparr>"

lemma at_rest_shift:
  assumes "at_rest ds h k d b pos (xs @ ys)" "n = pos + length xs"
  shows "at_rest ds (Some \<lparr>hd_kind = k, hd_disk = d, hd_bid = b, hd_pos = n\<rparr>) k d b n ys"
  using at_rest_skip [OF assms(1)] assms(2) by simp

text \<open>The scan from the last key frame.\<close>

lemma scan_from_key:
  assumes ev: "healthy ev" and at: "at_rest (rw_disks w) h Bkt d b BASKET_HDR_LEN (items_bytes (pre @ tls) @ rb)"
    and i: "list_all item_ok (pre @ tls)" "list_all is_frame (pre @ tls)" "in_order (0, 0) tls" "stops (last_time (0, 0) tls) rb"
    and hb: "rw_hbkt w = Some \<lparr>hd_kind = Bkt, hd_disk = d, hd_bid = b, hd_pos = BASKET_HDR_LEN + length (items_bytes pre)\<rparr>"
  shows "scan_stream ev l (int (BASKET_HDR_LEN + length (items_bytes pre))) w = Some (True, w\<lparr>rw_hbkt := Some \<lparr>hd_kind = Bkt, hd_disk = d, hd_bid = b,
    hd_pos = BASKET_HDR_LEN + length (items_bytes (pre @ tls))\<rparr>\<rparr>)"
proof -
  have "at_rest (rw_disks w) (rw_hbkt w) Bkt d b (BASKET_HDR_LEN + length (items_bytes pre)) (items_bytes tls @ rb)"
    unfolding hb by (rule at_rest_shift) (use at in simp_all)
  from scan_stream_items [OF ev this _ _ i(3,4)] i(1,2) show ?thesis by (simp add: add.assoc)
qed

lemma resume_counted_ok:
  assumes ev: "healthy ev" and at: "at_data items ixs rb ri w d b" and len: "int (INDEX_DATA_LEN * length ixs) < 2 ^ 31"
    and i: "list_all item_ok items" "list_all is_frame items"
    and r: "items = pre @ Vid sh vh pl # post" "sh_frametype sh = FT_IFRAME" "list_all2 indexes (iframes BASKET_HDR_LEN (pre @ [Vid sh vh pl])) ixs"
      "in_order (0, 0) (Vid sh vh pl # post)"
      "stops (last_time (0, 0) (Vid sh vh pl # post)) rb"
  shows "resume_counted ev (int (length ixs)) w = Some (True, at_end items ixs w d b)"
proof -
  obtain ixs' x where x: "ixs = ixs' @ [x]" "ix_fpos x = int (BASKET_HDR_LEN + length (items_bytes pre))" "index_data_ok x"
    using last_entry [OF r(3,2)] by blast
  have bi: "at_rest (rw_disks w) (rw_hidx w) Idx d b INDEX_HDR_LEN (index_bytes ixs' @ enc_index_data x @ ri)"
    and bb: "at_rest (rw_disks w) (rw_hbkt w) Bkt d b BASKET_HDR_LEN (items_bytes items @ rb)"
    using at x(1) by (simp_all add: at_data_def)
  have n: "off32 (int INDEX_DATA_LEN * (int (length ixs) - 1)) = int (length (index_bytes ixs'))"
    by (subst off32_id) (use len x(1) in \<open>simp_all add: algebra_simps\<close>)
  let ?hi = "\<lambda>n. Some \<lparr>hd_kind = Idx, hd_disk = d, hd_bid = b, hd_pos = n\<rparr>"
  let ?hb = "\<lambda>n. Some \<lparr>hd_kind = Bkt, hd_disk = d, hd_bid = b, hd_pos = n\<rparr>"
  have s: "seek_cur (off32 (int INDEX_DATA_LEN * (int (length ixs) - 1))) (rw_hidx w) = (True, ?hi (INDEX_HDR_LEN + length (index_bytes ixs')))"
    unfolding n by (rule seek_cur_before [OF at_rest_before [OF bi]])
  have ne: "enc_index_data x \<noteq> []" by (metis length_index_data list.size(3) INDEX_DATA_LEN_def zero_neq_numeral)
  have rd: "rd ev 1687 0 (junk ev 1677 INDEX_DATA_LEN) (?hi (INDEX_HDR_LEN + length (index_bytes ixs'))) (rw_disks w)
      = (True, enc_index_data x, ?hi (INDEX_HDR_LEN + INDEX_DATA_LEN * length ixs))"
    using rd_before [OF ev at_rest_before [OF at_rest_skip [OF bi]], of "junk ev 1677 INDEX_DATA_LEN"] ne x(1) by (simp add: algebra_simps)
  have dec: "dec_index_data (enc_index_data x) = x" using dec_enc_index_data [OF x(3), of "[]"] by simp
  have hb: "rw_hbkt w = ?hb BASKET_HDR_LEN" using bb by (simp add: at_rest_def)
  let ?w2 = "w\<lparr>rw_hidx := ?hi (INDEX_HDR_LEN + INDEX_DATA_LEN * length ixs), rw_hbkt := ?hb (BASKET_HDR_LEN + length (items_bytes pre))\<rparr>"
  have sc: "scan_stream ev 1707 (int (BASKET_HDR_LEN + length (items_bytes pre))) ?w2
      = Some (True, ?w2\<lparr>rw_hbkt := ?hb (BASKET_HDR_LEN + length (items_bytes (pre @ Vid sh vh pl # post)))\<rparr>)"
    by (rule scan_from_key [OF ev _ _ _ r(4,5)]) (use bb i(1,2) r(1) in simp_all)
  have t: "h_tell (?hb (BASKET_HDR_LEN + length (items_bytes pre))) = int (BASKET_HDR_LEN + length (items_bytes pre))" by (simp add: h_tell_def)
  have sk: "seek_set (int (BASKET_HDR_LEN + length (items_bytes pre))) (?hb BASKET_HDR_LEN) = (True, ?hb (BASKET_HDR_LEN + length (items_bytes pre)))"
    by (simp only: seek_set_int) simp
  show ?thesis
    unfolding resume_counted_def s using rd sc sk
    by (simp add: dec x(2) hb Let_def t at_end_def flip: r(1) of_nat_add)
qed

lemma resume_uncounted_ok:
  assumes ev: "healthy ev" and at: "at_data items ixs rb ri w d b" and len: "int (INDEX_HDR_LEN + INDEX_DATA_LEN * length ixs) < 2 ^ 31"
    and i: "list_all item_ok items" "list_all is_frame items"
    and r: "items = pre @ Vid sh vh pl # post" "sh_frametype sh = FT_IFRAME" "list_all2 indexes (iframes BASKET_HDR_LEN (pre @ [Vid sh vh pl])) ixs"
      "in_order (0, 0) (Vid sh vh pl # post)"
      "stops (last_time (0, 0) (Vid sh vh pl # post)) rb"
    and t: "times_up (0, 0) ixs" "idx_stops (ix_sec (last ixs), ix_usec (last ixs)) (ix_fpos (last ixs)) ri"
  shows "resume_uncounted ev w = Some (True, at_end items ixs w d b)"
proof -
  let ?hi = "\<lambda>n. Some \<lparr>hd_kind = Idx, hd_disk = d, hd_bid = b, hd_pos = n\<rparr>"
  let ?hb = "\<lambda>n. Some \<lparr>hd_kind = Bkt, hd_disk = d, hd_bid = b, hd_pos = n\<rparr>"
  obtain ixs' x where x: "ixs = ixs' @ [x]" "ix_fpos x = int (BASKET_HDR_LEN + length (items_bytes pre))"
    using last_entry [OF r(3,2)] by blast
  have bi: "at_rest (rw_disks w) (rw_hidx w) Idx d b INDEX_HDR_LEN (index_bytes ixs @ ri)"
    and bb: "at_rest (rw_disks w) (rw_hbkt w) Bkt d b BASKET_HDR_LEN (items_bytes items @ rb)"
    using at by (simp_all add: at_data_def)
  have hb: "rw_hbkt w = ?hb BASKET_HDR_LEN" and hi: "rw_hidx w = ?hi INDEX_HDR_LEN" using bb bi by (simp_all add: at_rest_def)
  obtain f where f: "the_file (rw_disks w) Idx d b = Some f" "INDEX_HDR_LEN \<le> length f" "drop INDEX_HDR_LEN f = index_bytes ixs @ ri"
    using bi by (auto simp: at_rest_def)
  have "length ixs \<le> length (index_bytes ixs @ ri)" by (simp add: INDEX_DATA_LEN_def)
  also have "\<dots> \<le> length f" unfolding f(3) [symmetric] by simp
  finally have fuel: "length ixs \<le> Suc (length (file_of \<lparr>hd_kind = Idx, hd_disk = d, hd_bid = b, hd_pos = INDEX_HDR_LEN\<rparr> (rw_disks w)))"
    using f(1) by (simp add: file_of_def)
  have li: "last_ix (0, 0) 0 ixs = ((ix_sec x, ix_usec x), ix_fpos x)" unfolding x(1) by (rule last_ix_append)
  have st: "idx_stops (ix_sec x, ix_usec x) (ix_fpos x) ri" using t(2) x(1) by simp
  have up: "places_up 0 ixs" by (rule indexes_places [OF r(3)]) simp
  obtain m where m: "scan_index ev w = (int (length ixs), ix_fpos x, ?hi m)"
    using index_scan_entries [OF ev bi t(1) up li st _ fuel, of "replicate INDEX_DATA_LEN 0" 0 0] unfolding scan_index_def hi by auto
  have n: "off32 (int INDEX_DATA_LEN * int (length ixs) + int INDEX_HDR_LEN) = int (INDEX_HDR_LEN + INDEX_DATA_LEN * length ixs)"
    by (subst off32_id) (use len in \<open>simp_all add: algebra_simps\<close>)
  let ?w2 = "w\<lparr>rw_hbkt := ?hb (BASKET_HDR_LEN + length (items_bytes pre)), rw_hidx := ?hi (INDEX_HDR_LEN + INDEX_DATA_LEN * length ixs)\<rparr>"
  have sk: "seek_both (ix_fpos x) (off32 (int INDEX_DATA_LEN * int (length ixs) + int INDEX_HDR_LEN)) (w\<lparr>rw_hidx := ?hi m\<rparr>) = (True, ?w2)"
    unfolding n x(2) seek_both_def hb using seek_set_int by (simp del: of_nat_add add: hb)
  have sc: "scan_stream ev 1615 (ix_fpos x) ?w2 = Some (True, ?w2\<lparr>rw_hbkt := ?hb (BASKET_HDR_LEN + length (items_bytes (pre @ Vid sh vh pl # post)))\<rparr>)"
    unfolding x(2) by (rule scan_from_key [OF ev _ _ _ r(4,5)]) (use bb i(1,2) r(1) in simp_all)
  have "ixs \<noteq> []" using x(1) by simp
  then show ?thesis unfolding resume_uncounted_def m using sk sc by (simp add: Let_def at_end_def flip: r(1))
qed

section \<open>A resumed basket is open\<close>

text \<open>A control record with which a basket can be opened.\<close>

definition fresh_ctrl :: "bktrec \<Rightarrow> bool" where
  "fresh_ctrl c \<longleftrightarrow> (\<exists>d b n. c = cleared_ctrl\<lparr>rc_bid := b, rc_target_path := d, rc_bkt_cnt := n\<rparr>)"

lemma open_at_file:
  assumes "the_file ds k d b = Some (bs @ rest)"
  shows "open_at ds (Some \<lparr>hd_kind = k, hd_disk = d, hd_bid = b, hd_pos = length bs\<rparr>) k d b bs"
  using assms by (simp add: open_at_def)

lemma part_open_file:
  assumes "the_file ds k d b = Some (hdr @ data @ rest)" "length hdr = len" "n = len + length data"
  shows "part_open ds (Some \<lparr>hd_kind = k, hd_disk = d, hd_bid = b, hd_pos = n\<rparr>) k d b len (int n) [] data"
  unfolding part_open_def
proof (intro exI conjI)
  show "length hdr = len" by (rule assms(2))
  show "open_at ds (Some \<lparr>hd_kind = k, hd_disk = d, hd_bid = b, hd_pos = n\<rparr>) k d b (hdr @ data)"
    using open_at_file [of ds k d b "hdr @ data" rest] assms by simp
qed (use assms in simp_all)

definition basket_size :: "item list \<Rightarrow> index_data list \<Rightarrow> int" where
  "basket_size items ixs = int (BASKET_HDR_LEN + length (items_bytes items) + INDEX_HDR_LEN + INDEX_DATA_LEN * length ixs)"

lemma now_open_ok:
  assumes c: "fresh_ctrl (rw_ctrl w)" and prev: "long (rw_prevFpos w)" and d: "d = rc_target_path (rw_ctrl w)" "b = rc_bid (rw_ctrl w)"
    and f: "the_file (rw_disks w) Bkt d b = Some (hdr @ items_bytes items @ rb)" "length hdr = BASKET_HDR_LEN"
    "the_file (rw_disks w) Idx d b = Some (hdr' @ index_bytes ixs @ ri)" "length hdr' = INDEX_HDR_LEN"
    and i: "list_all item_ok items" "list_all2 indexes (iframes BASKET_HDR_LEN items) ixs" and n: "basket_size items ixs < BASKET_SIZE"
  shows "basket_open items ixs (now_open ev (at_end items ixs w d b))" "total_size (rw_ctrl (now_open ev (at_end items ixs w d b))) < BASKET_SIZE"
proof -
  obtain n0 where c': "rw_ctrl w = cleared_ctrl\<lparr>rc_bid := b, rc_target_path := d, rc_bkt_cnt := n0\<rparr>"
    using c d by (auto simp: fresh_ctrl_def)
  define w' where "w' = now_open ev (at_end items ixs w d b)"
  have w': "rw_ctrl w' = cleared_ctrl\<lparr>rc_bid := b, rc_target_path := d, rc_bkt_cnt := n0, rc_fpos_bkt := int (BASKET_HDR_LEN + length (items_bytes items)),
      rc_fpos_idx := int (INDEX_HDR_LEN + INDEX_DATA_LEN * length ixs), rc_prev_day := tm_mday (ev_local ev (ev_now ev))\<rparr>"
    "rw_status w' = BKT_STATUS_OPENED" "rw_disks w' = rw_disks w" "rw_prevFpos w' = rw_prevFpos w"
    "rw_hbkt w' = Some \<lparr>hd_kind = Bkt, hd_disk = d, hd_bid = b, hd_pos = BASKET_HDR_LEN + length (items_bytes items)\<rparr>"
    "rw_hidx w' = Some \<lparr>hd_kind = Idx, hd_disk = d, hd_bid = b, hd_pos = INDEX_HDR_LEN + INDEX_DATA_LEN * length ixs\<rparr>"
    using c' by (simp_all add: w'_def now_open_def at_end_def h_tell_def cleared_ctrl_def)
  have pb: "part_open (rw_disks w') (rw_hbkt w') Bkt d b BASKET_HDR_LEN (int (BASKET_HDR_LEN + length (items_bytes items))) [] (items_bytes items)"
    unfolding w' by (rule part_open_file [OF f(1,2) refl])
  have pi: "part_open (rw_disks w') (rw_hidx w') Idx d b INDEX_HDR_LEN (int (INDEX_HDR_LEN + INDEX_DATA_LEN * length ixs)) [] (index_bytes ixs)"
    unfolding w' by (rule part_open_file [OF f(3,4)]) simp
  have "buffers_ok (rw_ctrl w')"
    using n unfolding w'(1) buffers_ok_def by (simp add: cleared_ctrl_def rc_b_pos_def rc_i_pos_def rc_r_pos_def basket_size_def) (simp add: const_defs)
  then show "basket_open items ixs (now_open ev (at_end items ixs w d b))"
    unfolding basket_open_def Let_def using pb pi i prev w' by (simp add: cleared_ctrl_def flip: w'_def)
  show "total_size (rw_ctrl (now_open ev (at_end items ixs w d b))) < BASKET_SIZE"
    using n by (simp add: w'(1) total_size_def cleared_ctrl_def rc_b_pos_def rc_i_pos_def basket_size_def flip: w'_def)
qed

lemma resume_ok:
  assumes ev: "healthy ev" and d: "d = rc_target_path (rw_ctrl w)" "b = rc_bid (rw_ctrl w)"
    and st: "stored items ixs rb ri cnt (rw_disks w) d b" and r: "resumable items ixs rb ri cnt" and n: "basket_size items ixs < BASKET_SIZE"
  shows "resume_basket ev w = Some (BKT_OK, now_open ev (at_end items ixs
    (w\<lparr>rw_disks := set_file Bkt d b (enc_basket_hdr (open_header ev b) @ items_bytes items @ rb) (rw_disks w)\<rparr>) d b))"
proof -
  let ?bh = "enc_basket_hdr (open_header ev b)"
  let ?hi = "\<lambda>n. Some \<lparr>hd_kind = Idx, hd_disk = d, hd_bid = b, hd_pos = n\<rparr>"
  let ?hb = "\<lambda>n. Some \<lparr>hd_kind = Bkt, hd_disk = d, hd_bid = b, hd_pos = n\<rparr>"
  obtain hdr hi where f: "the_file (rw_disks w) Bkt d b = Some (hdr @ items_bytes items @ rb)" "length hdr = BASKET_HDR_LEN"
    "the_file (rw_disks w) Idx d b = Some (hi @ index_bytes ixs @ ri)" "length hi = INDEX_HDR_LEN"
    and cnt: "ih_count (dec_index_hdr hi) = cnt" and i: "list_all item_ok items" "list_all is_frame items"
    using st by (auto simp: stored_def)
  let ?ds = "set_file Bkt d b (?bh @ items_bytes items @ rb) (rw_disks w)"
  have o1: "h_open ev 1519 Bkt d b (rw_disks w) = ?hb 0" using f(1) ev by (simp add: h_open_def)
  have w1: "h_write None ?bh (?hb 0) (rw_disks w) = (True, ?hb BASKET_HDR_LEN, ?ds)"
    using header_over [OF f(1) open_header_len(2), of ev b] f(2) by (simp add: open_header_len(1))
  have o2: "h_open ev 1546 Idx d b ?ds = ?hi 0" using f(3) ev by (simp add: h_open_def)
  have a0: "at_rest ?ds (?hi 0) Idx d b 0 (hi @ index_bytes ixs @ ri)" using f(3) by (simp add: at_rest_def)
  have ne: "hi \<noteq> []" using f(4) by (auto simp: INDEX_HDR_LEN_def)
  have r1: "rd ev 1554 0 (junk ev 1553 INDEX_HDR_LEN) (?hi 0) ?ds = (True, hi, ?hi INDEX_HDR_LEN)"
    using rd_before [OF ev at_rest_before [OF a0], of "junk ev 1553 INDEX_HDR_LEN"] ne f(4) by simp
  define w4 where "w4 = w\<lparr>rw_hbkt := ?hb BASKET_HDR_LEN, rw_disks := ?ds, rw_hidx := ?hi INDEX_HDR_LEN\<rparr>"
  have "at_rest ?ds (?hb BASKET_HDR_LEN) Bkt d b BASKET_HDR_LEN (items_bytes items @ rb)"
    by (simp add: at_rest_def open_header_len(1))
  moreover have "at_rest ?ds (?hi INDEX_HDR_LEN) Idx d b INDEX_HDR_LEN (index_bytes ixs @ ri)" using at_rest_skip [OF a0] f(4) by simp
  ultimately have at: "at_data items ixs rb ri w4 d b" by (simp add: at_data_def w4_def)
  have small: "int (INDEX_HDR_LEN + INDEX_DATA_LEN * length ixs) < 2 ^ 31" "int (INDEX_DATA_LEN * length ixs) < 2 ^ 31"
    using n by (simp_all add: basket_size_def BASKET_SIZE_def)
  obtain pre sh vh pl post where k: "items = pre @ Vid sh vh pl # post" "sh_frametype sh = FT_IFRAME"
      "list_all2 indexes (iframes BASKET_HDR_LEN (pre @ [Vid sh vh pl])) ixs" "in_order (0, 0) (Vid sh vh pl # post)" "stops (last_time (0, 0) (Vid sh vh pl # post)) rb"
    using r unfolding resumable_def by blast
  obtain ixs' x where x: "ixs = ixs' @ [x]" using last_entry [OF k(3,2)] by blast
  have "(if cnt \<le> 0 then resume_uncounted ev w4 else resume_counted ev cnt w4) = Some (True, at_end items ixs w4 d b)"
  proof (cases "cnt \<le> 0")
    case True
    then have "times_up (0, 0) ixs" "idx_stops (ix_sec (last ixs), ix_usec (last ixs)) (ix_fpos (last ixs)) ri"
      using r x by (auto simp: resumable_def)
    then show ?thesis using resume_uncounted_ok [OF ev at small(1) i k] True by simp
  next
    case False
    then have "cnt = int (length ixs)" using r by (simp add: resumable_def)
    then show ?thesis using resume_counted_ok [OF ev at small(2) i k] False by simp
  qed
  moreover have "at_end items ixs w4 d b = at_end items ixs (w\<lparr>rw_disks := ?ds\<rparr>) d b" by (simp add: at_end_def w4_def)
  ultimately show ?thesis
    using o1 o2 w1 r1 ev cnt unfolding resume_basket_def d [symmetric]
    by (cases "cnt \<le> 0") (simp_all add: Let_def write_bkt_def flip: w4_def)
qed

lemma start_ok:
  assumes ev: "healthy ev" and d: "d = rc_target_path (rw_ctrl w)" "b = rc_bid (rw_ctrl w)"
    and f: "the_file (rw_disks w) Bkt d b = Some fb" "the_file (rw_disks w) Idx d b = Some fi"
  shows "\<exists>hb hi. length hb = BASKET_HDR_LEN \<and> length hi = INDEX_HDR_LEN \<and> start_basket ev w = (BKT_OK, now_open ev (at_end [] []
    (w\<lparr>rw_disks := set_file Idx d b (hi @ drop INDEX_HDR_LEN fi) (set_file Bkt d b (hb @ drop BASKET_HDR_LEN fb) (rw_disks w))\<rparr>) d b))"
proof -
  let ?bh = "enc_basket_hdr (open_header ev b)"
  define ih where "ih = \<lparr>ih_id = ID_INDEX_HEADER, ih_bid = b, ih_count = 0, ih_ts = no_time, ih_reserved = - 572662307\<rparr>"
  have li: "length (enc_index_hdr ih) = INDEX_HDR_LEN" by (rule length_index_hdr) (simp_all add: ih_def)
  have ne: "enc_index_hdr ih \<noteq> []" using li by (auto simp: INDEX_HDR_LEN_def)
  let ?hi = "\<lambda>n. Some \<lparr>hd_kind = Idx, hd_disk = d, hd_bid = b, hd_pos = n\<rparr>"
  let ?hb = "\<lambda>n. Some \<lparr>hd_kind = Bkt, hd_disk = d, hd_bid = b, hd_pos = n\<rparr>"
  let ?ds1 = "set_file Bkt d b (?bh @ drop BASKET_HDR_LEN fb) (rw_disks w)"
  let ?ds2 = "set_file Idx d b (enc_index_hdr ih @ drop INDEX_HDR_LEN fi) ?ds1"
  have o: "h_open ev 1761 Bkt d b (rw_disks w) = ?hb 0" "h_open ev 1789 Idx d b ?ds1 = ?hi 0" using f ev by (simp_all add: h_open_def)
  have w1: "h_write None ?bh (?hb 0) (rw_disks w) = (True, ?hb BASKET_HDR_LEN, ?ds1)"
    using header_over [OF f(1) open_header_len(2), of ev b] by (simp add: open_header_len(1))
  have fi: "the_file ?ds1 Idx d b = Some fi" using f(2) by simp
  have w2: "h_write None (enc_index_hdr ih) (?hi 0) ?ds1 = (True, ?hi INDEX_HDR_LEN, ?ds2)"
    using header_over [OF fi ne] li by simp
  have "start_basket ev w = (BKT_OK, now_open ev (w\<lparr>rw_hbkt := ?hb BASKET_HDR_LEN, rw_hidx := ?hi INDEX_HDR_LEN, rw_disks := ?ds2\<rparr>))"
    using o w1 w2 ev unfolding start_basket_def d [symmetric]
    by (simp add: Let_def write_bkt_def write_idx_def flip: ih_def)
  moreover have "w\<lparr>rw_hbkt := ?hb BASKET_HDR_LEN, rw_hidx := ?hi INDEX_HDR_LEN, rw_disks := ?ds2\<rparr> = at_end [] [] (w\<lparr>rw_disks := ?ds2\<rparr>) d b"
    by (simp add: at_end_def)
  ultimately show ?thesis using li open_header_len(1) [of ev b] by (intro exI conjI) auto
qed

section \<open>Opening\<close>

text \<open>A recorder that is not open, on formatted disks.\<close>

definition closed_ok :: "rec_world \<Rightarrow> bool" where
  "closed_ok w \<longleftrightarrow> rw_status w \<noteq> BKT_STATUS_OPENED \<and> mount_ok w \<and> long (rw_prevFpos w) \<and> rw_recycle w \<noteq> BKT_RECYCLE_ONCE"

lemma open_target:
  assumes ev: "healthy ev" and w: "closed_ok w"
  obtains hm n where "BKTREC_setTargetDisk ev (mi_curHddIdx (rw_mount w)) (w\<lparr>rw_ctrl := cleared_ctrl\<lparr>rc_target_path := mp\<rparr>\<rparr>)
      = (BKT_OK, w\<lparr>rw_hddmgr := Some (Some hm), rw_ctrl := cleared_ctrl\<lparr>rc_target_path := cur_path w, rc_bkt_cnt := n\<rparr>\<rparr>)"
    "disks_ok (w\<lparr>rw_hddmgr := Some (Some hm), rw_ctrl := cleared_ctrl\<lparr>rc_target_path := cur_path w, rc_bkt_cnt := n\<rparr>\<rparr>)"
proof -
  let ?w = "w\<lparr>rw_ctrl := cleared_ctrl\<lparr>rc_target_path := mp\<rparr>\<rparr>"
  have m: "mount_ok ?w" "mi_curHddIdx (rw_mount w) = mi_curHddIdx (rw_mount ?w)" using w by (simp_all add: closed_ok_def mount_ok_def Let_def)
  obtain hm n where "BKTREC_setTargetDisk ev (mi_curHddIdx (rw_mount w)) ?w
      = (BKT_OK, w\<lparr>rw_hddmgr := Some (Some hm), rw_ctrl := cleared_ctrl\<lparr>rc_target_path := cur_path w, rc_bkt_cnt := n\<rparr>\<rparr>)"
    using setTargetDisk_ok [OF ev, of ?w "mi_curHddIdx (rw_mount w)"] m(1) by (auto simp: mount_ok_def Let_def cur_path_def disk_path_def)
  with setTargetDisk_disks [OF ev m] that show thesis by simp
qed

lemma basket_open_touched:
  assumes "touched w' w" "basket_open items ixs w"
  shows "basket_open items ixs w'"
proof -
  have "part_open (rw_disks w') = part_open (rw_disks w)"
    using touched_simps(9) [OF assms(1)] by (intro ext part_open_cong)
  with assms(2) show ?thesis by (simp add: basket_open_def Let_def touched_simps(1-5) [OF assms(1)])
qed

text \<open>The status of the opened basket is noted; what has been opened stays.\<close>

lemma open_noted:
  assumes op: "basket_open items ixs w" and ok: "disks_ok w" and n: "total_size (rw_ctrl w) < BASKET_SIZE" and r: "rw_recycle w \<noteq> BKT_RECYCLE_ONCE"
  shows "basket_open items ixs (snd (BKTREC_setBasketStatus ev b flag w))"
    "rec_rel (snd (BKTREC_setBasketStatus ev b flag w)) \<lparr>lg_past = [], lg_cur = (rc_target_path (rw_ctrl w), rc_bid (rw_ctrl w)), lg_items = items\<rparr>"
    "rw_ctrl (snd (BKTREC_setBasketStatus ev b flag w)) = rw_ctrl w"
    "others_same (rw_disks (snd (BKTREC_setBasketStatus ev b flag w))) (rw_disks w) d' b'"
proof -
  have t: "touched (snd (BKTREC_setBasketStatus ev b flag w)) w" by (rule setBasketStatus_touched [OF disks_ok_cur [OF ok]])
  note ts = touched_simps [OF t]
  show b: "basket_open items ixs (snd (BKTREC_setBasketStatus ev b flag w))" by (rule basket_open_touched [OF t op])
  show c: "rw_ctrl (snd (BKTREC_setBasketStatus ev b flag w)) = rw_ctrl w" by (rule ts(1))
  show "others_same (rw_disks (snd (BKTREC_setBasketStatus ev b flag w))) (rw_disks w) d' b'" by (simp add: others_same_def ts(9))
  have "rec_ok (snd (BKTREC_setBasketStatus ev b flag w))" using disks_ok_touched [OF t ok] n r by (simp add: rec_ok_def ts(1,7))
  moreover have "lg_done \<lparr>lg_past = [], lg_cur = k, lg_items = items\<rparr> k' = None" for k k' by (simp add: lg_done_def)
  ultimately show "rec_rel (snd (BKTREC_setBasketStatus ev b flag w)) \<lparr>lg_past = [], lg_cur = (rc_target_path (rw_ctrl w), rc_bid (rw_ctrl w)), lg_items = items\<rparr>"
    using b by (auto simp: rec_rel_def log_rel_def c)
qed

text \<open>An open basket that is kept on its own disk.\<close>

lemma set_files_disks_ok:
  assumes "disks_ok w"
  shows "disks_ok (now_open ev (at_end items ixs (w\<lparr>rw_disks := set_file k d b f (rw_disks w)\<rparr>) d' b'))"
  by (rule disks_ok_cong [OF assms]) (simp_all add: now_open_def at_end_def disk_ok_set_file)

text \<open>Where the handles are after a basket is resumed.\<close>

lemma BKTREC_open_places:
  assumes ev: "healthy ev" and w: "closed_ok w" and mp: "mp \<noteq> 0"
    and info: "dk_info (rw_disks w (cur_path w)) = Some (Some \<lparr>ri_save_flag = flag, ri_bid = b, ri_path = p\<rparr>)" "flag = SF_USING \<or> flag = SF_STOP"
    and st: "stored items ixs rb ri cnt (rw_disks w) (cur_path w) b" and r: "resumable items ixs rb ri cnt" and n: "basket_size items ixs < BASKET_SIZE"
  obtains w4 where "BKTREC_open ev mp w = Some (BKT_OK, snd (BKTREC_setBasketStatus ev b SF_USING (now_open ev (at_end items ixs w4 (cur_path w) b))))"
    "disks_ok (now_open ev (at_end items ixs w4 (cur_path w) b))" "fresh_ctrl (rw_ctrl w4)" "rc_target_path (rw_ctrl w4) = cur_path w"
    "rc_bid (rw_ctrl w4) = b" "rw_prevFpos w4 = rw_prevFpos w" "rw_recycle w4 = rw_recycle w"
    "rw_disks w4 = set_file Bkt (cur_path w) b (enc_basket_hdr (open_header ev b) @ items_bytes items @ rb) (rw_disks w)"
proof -
  let ?d = "cur_path w"
  obtain hm c where t: "BKTREC_setTargetDisk ev (mi_curHddIdx (rw_mount w)) (w\<lparr>rw_ctrl := cleared_ctrl\<lparr>rc_target_path := mp\<rparr>\<rparr>)
      = (BKT_OK, w\<lparr>rw_hddmgr := Some (Some hm), rw_ctrl := cleared_ctrl\<lparr>rc_target_path := ?d, rc_bkt_cnt := c\<rparr>\<rparr>)"
    and ok: "disks_ok (w\<lparr>rw_hddmgr := Some (Some hm), rw_ctrl := cleared_ctrl\<lparr>rc_target_path := ?d, rc_bkt_cnt := c\<rparr>\<rparr>)"
    by (rule open_target [OF ev w, of mp])
  define w2 where "w2 = w\<lparr>rw_hddmgr := Some (Some hm), rw_ctrl := cleared_ctrl\<lparr>rc_target_path := ?d, rc_bkt_cnt := c\<rparr>\<rparr>"
  have ok2: "disks_ok w2" using ok by (simp add: w2_def)
  have d2: "rc_target_path (rw_ctrl w2) = ?d" "rw_disks w2 = rw_disks w" by (simp_all add: w2_def)
  have hf: "has_files (cur_disk w2) b" using disks_ok_cur [OF ok2] info(1) by (simp add: disk_ok_def d2)
  then have b: "b \<noteq> BKT_ERR" by (simp add: has_files_def)
  obtain m where m: "dk_mgr (cur_disk w2) = Some m" using disks_ok_cur [OF ok2] by (auto simp: disk_ok_def)
  have s: "BKTREC_searchBasket ev True w2 = ((flag, Some b), w2)"
    using info ev m b d2 unfolding BKTREC_searchBasket_def BKTREC_searchUsingBasket_def BKTREC_searchStoppedBasket_def search_info_def Let_def
    by (auto simp: SF_USING_def SF_STOP_def)
  define w4 where "w4 = upd_ctrl (rc_bid_update (\<lambda>_. b)) w2"
  have w4: "rc_target_path (rw_ctrl w4) = ?d" "rc_bid (rw_ctrl w4) = b" "rw_disks w4 = rw_disks w" "rw_prevFpos w4 = rw_prevFpos w" "rw_recycle w4 = rw_recycle w"
    by (simp_all add: w4_def w2_def)
  have fresh: "fresh_ctrl (rw_ctrl w4)" unfolding fresh_ctrl_def
    by (intro exI [of _ ?d] exI [of _ b] exI [of _ c]) (simp add: w4_def w2_def cleared_ctrl_def)
  have ok4: "disks_ok w4" by (rule disks_ok_cong [OF ok2]) (simp_all add: w4_def)
  let ?w4 = "w4\<lparr>rw_disks := set_file Bkt ?d b (enc_basket_hdr (open_header ev b) @ items_bytes items @ rb) (rw_disks w4)\<rparr>"
  have run: "resume_basket ev w4 = Some (BKT_OK, now_open ev (at_end items ixs ?w4 ?d b))"
    by (rule resume_ok [OF ev _ _ _ r n]) (use w4 st in simp_all)
  have "BKTREC_open ev mp w = Some (BKT_OK, snd (BKTREC_setBasketStatus ev b SF_USING (now_open ev (at_end items ixs ?w4 ?d b))))"
    using w mp info(2) t s run unfolding BKTREC_open_def Let_def
    by (simp add: closed_ok_def flip: w2_def w4_def)
  moreover have "disks_ok (now_open ev (at_end items ixs ?w4 ?d b))" by (rule set_files_disks_ok [OF ok4])
  ultimately show thesis by (rule that) (use fresh w4 in simp_all)
qed

text \<open>When every key frame is in the index the basket is open again with all its frames.\<close>

lemma BKTREC_open_resumes:
  assumes ev: "healthy ev" and w: "closed_ok w" and mp: "mp \<noteq> 0"
    and info: "dk_info (rw_disks w (cur_path w)) = Some (Some \<lparr>ri_save_flag = flag, ri_bid = b, ri_path = p\<rparr>)" "flag = SF_USING \<or> flag = SF_STOP"
    and st: "stored items ixs rb ri cnt (rw_disks w) (cur_path w) b" and r: "resumable items ixs rb ri cnt" and n: "basket_size items ixs < BASKET_SIZE"
    and ix: "list_all2 indexes (iframes BASKET_HDR_LEN items) ixs"
  shows "\<exists>w'. BKTREC_open ev mp w = Some (BKT_OK, w') \<and> basket_open items ixs w'
    \<and> rec_rel w' \<lparr>lg_past = [], lg_cur = (cur_path w, b), lg_items = items\<rparr> \<and> rc_bkt_secs (rw_ctrl w') = no_time
    \<and> others_same (rw_disks w') (rw_disks w) (cur_path w) b"
proof -
  let ?d = "cur_path w" and ?f = "enc_basket_hdr (open_header ev b) @ items_bytes items @ rb"
  obtain w4 where run: "BKTREC_open ev mp w = Some (BKT_OK, snd (BKTREC_setBasketStatus ev b SF_USING (now_open ev (at_end items ixs w4 ?d b))))"
    and ok: "disks_ok (now_open ev (at_end items ixs w4 ?d b))" and fresh: "fresh_ctrl (rw_ctrl w4)"
    and w4: "rc_target_path (rw_ctrl w4) = ?d" "rc_bid (rw_ctrl w4) = b" "rw_prevFpos w4 = rw_prevFpos w" "rw_recycle w4 = rw_recycle w"
    "rw_disks w4 = set_file Bkt ?d b ?f (rw_disks w)"
    by (rule BKTREC_open_places [OF ev w mp info st r n])
  define w5 where "w5 = now_open ev (at_end items ixs w4 ?d b)"
  obtain hi where f: "the_file (rw_disks w) Idx ?d b = Some (hi @ index_bytes ixs @ ri)" "length hi = INDEX_HDR_LEN" and i: "list_all item_ok items"
    using st by (auto simp: stored_def)
  have op: "basket_open items ixs w5" "total_size (rw_ctrl w5) < BASKET_SIZE"
    unfolding w5_def by (rule now_open_ok [OF _ _ _ _ _ _ _ _ i ix n, where hdr = "enc_basket_hdr (open_header ev b)" and rb = rb and hdr' = hi and ri = ri];
      use fresh w4 w f open_header_len(1) [of ev b] in \<open>simp add: closed_ok_def\<close>)+
  have c5: "rc_target_path (rw_ctrl w5) = ?d" "rc_bid (rw_ctrl w5) = b" "rc_bkt_secs (rw_ctrl w5) = no_time" "rw_recycle w5 = rw_recycle w"
    "rw_disks w5 = set_file Bkt ?d b ?f (rw_disks w)"
    using w4 fresh by (auto simp: w5_def now_open_def at_end_def fresh_ctrl_def cleared_ctrl_def)
  have r5: "rw_recycle w5 \<noteq> BKT_RECYCLE_ONCE" using w c5(4) by (simp add: closed_ok_def)
  have ok5: "disks_ok w5" using ok by (simp add: w5_def)
  note nt = open_noted [OF op(1) ok5 op(2) r5, of ev b SF_USING]
  have "others_same (rw_disks (snd (BKTREC_setBasketStatus ev b SF_USING w5))) (rw_disks w) ?d b"
    using nt(4) [of ?d b] unfolding others_same_def c5(5) by auto
  then show ?thesis using nt(1-3) c5 run by (intro exI conjI) (auto simp: w5_def)
qed

text \<open>In any case the stream goes on behind the last frame, and the index behind the entries
  that were counted.\<close>

lemma BKTREC_open_positions:
  assumes ev: "healthy ev" and w: "closed_ok w" and mp: "mp \<noteq> 0"
    and info: "dk_info (rw_disks w (cur_path w)) = Some (Some \<lparr>ri_save_flag = flag, ri_bid = b, ri_path = p\<rparr>)" "flag = SF_USING \<or> flag = SF_STOP"
    and st: "stored items ixs rb ri cnt (rw_disks w) (cur_path w) b" and r: "resumable items ixs rb ri cnt" and n: "basket_size items ixs < BASKET_SIZE"
  shows "\<exists>w'. BKTREC_open ev mp w = Some (BKT_OK, w') \<and> rw_status w' = BKT_STATUS_OPENED
    \<and> rc_fpos_bkt (rw_ctrl w') = int (BASKET_HDR_LEN + length (items_bytes items))
    \<and> rc_fpos_idx (rw_ctrl w') = int (INDEX_HDR_LEN + INDEX_DATA_LEN * length ixs) \<and> rc_i_buf (rw_ctrl w') = []"
proof -
  obtain w4 where run: "BKTREC_open ev mp w = Some (BKT_OK, snd (BKTREC_setBasketStatus ev b SF_USING (now_open ev (at_end items ixs w4 (cur_path w) b))))"
    and ok: "disks_ok (now_open ev (at_end items ixs w4 (cur_path w) b))" and fresh: "fresh_ctrl (rw_ctrl w4)"
    by (rule BKTREC_open_places [OF ev w mp info st r n])
  note ts = touched_simps [OF setBasketStatus_touched [OF disks_ok_cur [OF ok], of ev b SF_USING]]
  have "rc_i_buf (rw_ctrl w4) = []" using fresh by (auto simp: fresh_ctrl_def cleared_ctrl_def)
  then show ?thesis using run by (auto simp: ts) (auto simp: now_open_def at_end_def h_tell_def)
qed

text \<open>Without a basket to resume, an empty or the oldest one is started.\<close>

definition nothing_pending :: "bkt_disk \<Rightarrow> bool" where
  "nothing_pending d \<longleftrightarrow> (\<forall>bi. dk_info d = Some (Some bi) \<longrightarrow> ri_save_flag bi \<noteq> SF_USING \<and> ri_save_flag bi \<noteq> SF_STOP)"

lemma search_new:
  assumes "nothing_pending (cur_disk w)" "BKTREC_searchBasket ev in_all w = ((flag, Some b), w')"
  shows "\<not> (flag = SF_USING \<or> flag = SF_STOP)"
proof -
  have "BKTREC_searchUsingBasket ev w = BKT_ERR" "BKTREC_searchStoppedBasket ev w = BKT_ERR"
    using assms(1) by (auto simp: BKTREC_searchUsingBasket_def BKTREC_searchStoppedBasket_def search_info_def nothing_pending_def split: option.splits)
  with assms(2) show ?thesis
    by (auto simp: BKTREC_searchBasket_def Let_def SF_USING_def SF_STOP_def SF_EMPTY_def SF_FULL_def BKT_ERR_def split: if_splits prod.splits)
qed

lemma BKTREC_open_starts:
  assumes ev: "healthy ev" and w: "closed_ok w" and mp: "mp \<noteq> 0" and np: "nothing_pending (rw_disks w (cur_path w))"
  shows "\<exists>w' b. BKTREC_open ev mp w = Some (BKT_OK, w') \<and> rec_rel w' \<lparr>lg_past = [], lg_cur = (cur_path w, b), lg_items = []\<rparr>
    \<and> has_files (rw_disks w (cur_path w)) b \<and> others_same (rw_disks w') (rw_disks w) (cur_path w) b"
proof -
  let ?d = "cur_path w"
  obtain hm c where t: "BKTREC_setTargetDisk ev (mi_curHddIdx (rw_mount w)) (w\<lparr>rw_ctrl := cleared_ctrl\<lparr>rc_target_path := mp\<rparr>\<rparr>)
      = (BKT_OK, w\<lparr>rw_hddmgr := Some (Some hm), rw_ctrl := cleared_ctrl\<lparr>rc_target_path := ?d, rc_bkt_cnt := c\<rparr>\<rparr>)"
    and ok: "disks_ok (w\<lparr>rw_hddmgr := Some (Some hm), rw_ctrl := cleared_ctrl\<lparr>rc_target_path := ?d, rc_bkt_cnt := c\<rparr>\<rparr>)"
    by (rule open_target [OF ev w, of mp])
  define w2 where "w2 = w\<lparr>rw_hddmgr := Some (Some hm), rw_ctrl := cleared_ctrl\<lparr>rc_target_path := ?d, rc_bkt_cnt := c\<rparr>\<rparr>"
  have ok2: "disks_ok w2" using ok by (simp add: w2_def)
  have d2: "rw_ctrl w2 = cleared_ctrl\<lparr>rc_target_path := ?d, rc_bkt_cnt := c\<rparr>" "rc_target_path (rw_ctrl w2) = ?d" "rw_disks w2 = rw_disks w"
    "rw_recycle w2 = rw_recycle w" "rw_prevFpos w2 = rw_prevFpos w" by (simp_all add: w2_def)
  obtain flag b w3 where s: "BKTREC_searchBasket ev True w2 = ((flag, Some b), w3)" and t3: "touched w3 w2" and hf: "has_files (cur_disk w2) b"
    using searchBasket_ok [OF ev disks_ok_cur [OF ok2]] by blast
  note ts = touched_simps [OF t3]
  have nf: "\<not> (flag = SF_USING \<or> flag = SF_STOP)" by (rule search_new [OF _ s]) (use np d2(2,3) in simp)
  define w4 where "w4 = upd_ctrl (rc_bid_update (\<lambda>_. b)) w3"
  have w4: "rc_target_path (rw_ctrl w4) = ?d" "rc_bid (rw_ctrl w4) = b" "rw_prevFpos w4 = rw_prevFpos w" "rw_recycle w4 = rw_recycle w"
    "rw_ctrl w4 = cleared_ctrl\<lparr>rc_bid := b, rc_target_path := ?d, rc_bkt_cnt := c\<rparr>"
    by (simp_all add: w4_def ts d2)
  have f4: "the_file (rw_disks w4) k d' b' = the_file (rw_disks w) k d' b'" for k d' b' by (simp add: w4_def ts(9) d2)
  obtain fb fi where f: "the_file (rw_disks w4) Bkt ?d b = Some fb" "the_file (rw_disks w4) Idx ?d b = Some fi"
    using hf unfolding f4 d2 by (auto simp: has_files_the_file)
  have fresh: "fresh_ctrl (rw_ctrl w4)" unfolding fresh_ctrl_def w4(5) by blast
  have ok4: "disks_ok w4" by (rule disks_ok_cong [OF disks_ok_touched [OF t3 ok2]]) (simp_all add: w4_def)
  obtain hb hi where h: "length hb = BASKET_HDR_LEN" "length hi = INDEX_HDR_LEN" and run: "start_basket ev w4 = (BKT_OK, now_open ev (at_end [] []
    (w4\<lparr>rw_disks := set_file Idx ?d b (hi @ drop INDEX_HDR_LEN fi) (set_file Bkt ?d b (hb @ drop BASKET_HDR_LEN fb) (rw_disks w4))\<rparr>) ?d b))"
    using start_ok [OF ev w4(1) [symmetric] w4(2) [symmetric] f] by blast
  let ?w4 = "w4\<lparr>rw_disks := set_file Idx ?d b (hi @ drop INDEX_HDR_LEN fi) (set_file Bkt ?d b (hb @ drop BASKET_HDR_LEN fb) (rw_disks w4))\<rparr>"
  define w5 where "w5 = now_open ev (at_end [] [] ?w4 ?d b)"
  have op: "basket_open [] [] w5" "total_size (rw_ctrl w5) < BASKET_SIZE"
    unfolding w5_def by (rule now_open_ok [where hdr = hb and rb = "drop BASKET_HDR_LEN fb" and hdr' = hi and ri = "drop INDEX_HDR_LEN fi"];
      use fresh w4 w h in \<open>simp add: closed_ok_def basket_size_def BASKET_HDR_LEN_def INDEX_HDR_LEN_def BASKET_SIZE_def\<close>)+
  have ok5: "disks_ok w5" by (rule disks_ok_cong [OF ok4]) (simp_all add: w5_def now_open_def at_end_def disk_ok_set_file)
  have c5: "rc_target_path (rw_ctrl w5) = ?d" "rc_bid (rw_ctrl w5) = b" "rw_recycle w5 = rw_recycle w"
    "rw_disks w5 = set_file Idx ?d b (hi @ drop INDEX_HDR_LEN fi) (set_file Bkt ?d b (hb @ drop BASKET_HDR_LEN fb) (rw_disks w4))"
    using w4 by (simp_all add: w5_def now_open_def at_end_def)
  have r5: "rw_recycle w5 \<noteq> BKT_RECYCLE_ONCE" using w c5(3) by (simp add: closed_ok_def)
  note nt = open_noted [OF op(1) ok5 op(2) r5, of ev b SF_USING]
  have "BKTREC_open ev mp w = Some (BKT_OK, snd (BKTREC_setBasketStatus ev b SF_USING w5))"
    using w mp nf t s run ts(7) d2(4) unfolding BKTREC_open_def Let_def
    by (simp add: closed_ok_def flip: w2_def w4_def w5_def)
  moreover have "others_same (rw_disks (snd (BKTREC_setBasketStatus ev b SF_USING w5))) (rw_disks w) ?d b"
    using nt(4) [of ?d b] f4 unfolding others_same_def c5(4) by auto
  ultimately show ?thesis using nt(2) c5(1,2) hf d2(2,3) by (intro exI conjI) auto
qed

end
