(* ===== verification/Basket_Restart.thy ===== *)
theory Basket_Restart
  imports Basket_Resume Basket_Demo
begin

text \<open>Stopping or crashing and starting again (\<open>BKTREC_exit\<close>, \<open>BKTREC_open\<close> of
  src/basket_rec.c): what has been written to disk is recorded on, and where the search of
  the end goes wrong.\<close>

section \<open>The last key frame\<close>

lemma iframes_none: "iframes pos items = [] \<longleftrightarrow> iframes pos' items = []"
proof (induction items arbitrary: pos pos')
  case (Cons i items)
  show ?case using Cons [of "pos + length (item_bytes i)" "pos' + length (item_bytes i)"]
    by (cases i) auto
qed simp

text \<open>The frames from the last key frame on pass the test of the scan, and what is behind them
  stops it.\<close>

definition ends_in_order :: "item list \<Rightarrow> byte list \<Rightarrow> bool" where
  "ends_in_order items rb \<longleftrightarrow> (\<exists>pre sh vh pl post. items = pre @ Vid sh vh pl # post \<and> sh_frametype sh = FT_IFRAME \<and> iframes 0 post = []
     \<and> in_order (0, 0) (Vid sh vh pl # post) \<and> stops (last_time (0, 0) (Vid sh vh pl # post)) rb)"

lemma ends_resumable:
  assumes "ends_in_order items rb" "list_all2 indexes (iframes BASKET_HDR_LEN items) ixs"
    "cnt = int (length ixs) \<or> (cnt \<le> 0 \<and> times_up (0, 0) ixs \<and> idx_stops (ix_sec (last ixs), ix_usec (last ixs)) (ix_fpos (last ixs)) ri)"
  shows "resumable items ixs rb ri cnt"
proof -
  obtain pre sh vh pl post where k: "items = pre @ Vid sh vh pl # post" "sh_frametype sh = FT_IFRAME" "iframes 0 post = []"
      "in_order (0, 0) (Vid sh vh pl # post)" "stops (last_time (0, 0) (Vid sh vh pl # post)) rb"
    using assms(1) unfolding ends_in_order_def by blast
  have "iframes BASKET_HDR_LEN items = iframes BASKET_HDR_LEN (pre @ [Vid sh vh pl])"
    using k(3) iframes_none [of _ post 0] unfolding k(1) by simp
  then have "list_all2 indexes (iframes BASKET_HDR_LEN (pre @ [Vid sh vh pl])) ixs" using assms(2) by simp
  with k have "\<exists>pre sh vh pl post. items = pre @ Vid sh vh pl # post \<and> sh_frametype sh = FT_IFRAME
        \<and> list_all2 indexes (iframes BASKET_HDR_LEN (pre @ [Vid sh vh pl])) ixs
        \<and> in_order (0, 0) (Vid sh vh pl # post) \<and> stops (last_time (0, 0) (Vid sh vh pl # post)) rb"
    by blast
  with assms(3) show ?thesis unfolding resumable_def by blast
qed

section \<open>Stop and start\<close>

lemma total_basket_size: "basket_open items ixs w \<Longrightarrow> total_size (rw_ctrl w) = basket_size items ixs"
  by (simp add: total_size_eq basket_size_def)

lemma sealed_stored:
  assumes s: "sealed flag bts its items ixs ds d b" and fr: "list_all is_frame items" and n: "basket_size items ixs < BASKET_SIZE"
  obtains rb ri where "stored items ixs rb ri (int (length ixs)) ds d b" "list_all2 indexes (iframes BASKET_HDR_LEN items) ixs"
    "map_option (drop (BASKET_HDR_LEN + length (items_bytes items))) (the_file ds Bkt d b) = Some rb"
proof -
  obtain bh ih rb ri where f: "the_file ds Bkt d b = Some (enc_basket_hdr bh @ items_bytes items @ rb)"
    "the_file ds Idx d b = Some (enc_index_hdr ih @ index_bytes ixs @ ri)"
    "length (enc_basket_hdr bh) = BASKET_HDR_LEN" "length (enc_index_hdr ih) = INDEX_HDR_LEN" "ih_count ih = int (length ixs)"
    and i: "list_all item_ok items" "list_all2 indexes (iframes BASKET_HDR_LEN items) ixs"
    using s by (auto simp: sealed_def)
  have "long (int (length ixs))" using n by (simp add: fits_def basket_size_def const_defs)
  then have "ih_count (dec_index_hdr (enc_index_hdr ih)) = int (length ixs)" using dec_index_count [OF f(4)] f(5) by simp
  then have "stored items ixs rb ri (int (length ixs)) ds d b" using f i(1) fr unfolding stored_def by blast
  then show thesis by (rule that [OF _ i(2)]) (simp add: f(1,3))
qed

text \<open>A recorder that is on a listed basket, with frames after which it can go on; \<open>old\<close> are
  frames of an earlier use of the file that the scan takes for later ones.\<close>

definition stoppable :: "item list \<Rightarrow> item list \<Rightarrow> index_data list \<Rightarrow> rec_world \<Rightarrow> bool" where
  "stoppable items old ixs w \<longleftrightarrow> rec_ok w \<and> lists (cur_disk w) (rc_bid (rw_ctrl w)) \<and> list_all is_frame (items @ old)
     \<and> list_all item_ok old \<and> iframes 0 old = [] \<and> basket_size (items @ old) ixs < BASKET_SIZE
     \<and> (\<exists>rb. tail (BASKET_HDR_LEN + length (items_bytes items)) w (rc_target_path (rw_ctrl w)) (rc_bid (rw_ctrl w)) = Some (items_bytes old @ rb)
        \<and> ends_in_order (items @ old) rb)"

lemma stored_old:
  assumes "stored items ixs (items_bytes old @ rb) ri cnt ds d b" "list_all item_ok old" "list_all is_frame old"
  shows "stored (items @ old) ixs rb ri cnt ds d b"
  using assms unfolding stored_def by simp

lemma indexes_old:
  assumes "list_all2 indexes (iframes pos items) ixs" "iframes 0 old = []"
  shows "list_all2 indexes (iframes pos (items @ old)) ixs"
  using assms(1) iframes_none [of _ old 0] assms(2) by simp

lemma stop_open:
  assumes ev: "healthy ev" "healthy ev'" and op: "basket_open items ixs w" and st: "stoppable items old ixs w" and mp: "mp \<noteq> 0"
  shows "\<exists>w1 w2. BKTREC_exit ev SF_STOP BKT_REC_CLOSE_BUF_FLUSH w = (S_OK, w1) \<and> BKTREC_open ev' mp w1 = Some (BKT_OK, w2)
    \<and> basket_open (items @ old) ixs w2
    \<and> rec_rel w2 \<lparr>lg_past = [], lg_cur = (rc_target_path (rw_ctrl w), rc_bid (rw_ctrl w)), lg_items = items @ old\<rparr>
    \<and> rc_bkt_secs (rw_ctrl w2) = no_time \<and> others_same (rw_disks w2) (rw_disks w) (rc_target_path (rw_ctrl w)) (rc_bid (rw_ctrl w))"
proof -
  let ?d = "rc_target_path (rw_ctrl w)" and ?b = "rc_bid (rw_ctrl w)"
  have rec: "rec_ok w" "lists (cur_disk w) ?b" "list_all is_frame items" and ok_old: "list_all item_ok old" "list_all is_frame old" "iframes 0 old = []"
    and nm: "basket_size (items @ old) ixs < BASKET_SIZE" using st by (simp_all add: stoppable_def)
  have ok: "disks_ok w" and n: "basket_size items ixs < BASKET_SIZE" and cyc: "rw_recycle w \<noteq> BKT_RECYCLE_ONCE"
    using rec(1) total_basket_size [OF op] by (simp_all add: rec_ok_def)
  obtain w1 where w1: "BKTREC_exit ev SF_STOP BKT_REC_CLOSE_BUF_FLUSH w = (S_OK, w1)"
    and se: "sealed SF_STOP (rc_bkt_secs (rw_ctrl w)) (rc_idx_secs (rw_ctrl w)) items ixs (rw_disks w1) ?d ?b"
    and oth: "others_same (rw_disks w1) (rw_disks w) ?d ?b"
    and c: "rw_status w1 = BKT_STATUS_CLOSED" "mount_ok w1" "rw_mount w1 = rw_mount w" "rw_recycle w1 = rw_recycle w" "rw_prevFpos w1 = rw_prevFpos w"
    and tl: "tail (BASKET_HDR_LEN + length (items_bytes items)) w1 ?d ?b = tail (BASKET_HDR_LEN + length (items_bytes items)) w ?d ?b"
    and info: "dk_info (rw_disks w1 ?d) = Some (Some \<lparr>ri_save_flag = SF_STOP, ri_bid = ?b, ri_path = ?d\<rparr>)"
    using exit_ok [OF ev(1) op ok, of SF_STOP] rec(2) by blast
  have cur: "cur_path w1 = ?d" using ok c(3) by (simp add: disks_ok_def cur_path_def)
  have clo: "closed_ok w1" using c cyc basket_openD(3) [OF op] by (simp add: closed_ok_def BKT_STATUS_CLOSED_def BKT_STATUS_OPENED_def)
  obtain rb0 ri where s0: "stored items ixs rb0 ri (int (length ixs)) (rw_disks w1) ?d ?b" and ix0: "list_all2 indexes (iframes BASKET_HDR_LEN items) ixs"
    and rb0: "map_option (drop (BASKET_HDR_LEN + length (items_bytes items))) (the_file (rw_disks w1) Bkt ?d ?b) = Some rb0"
    by (rule sealed_stored [OF se rec(3) n])
  obtain rb where rb: "rb0 = items_bytes old @ rb" and en: "ends_in_order (items @ old) rb" using st rb0 tl unfolding stoppable_def tail_def by auto
  note s = stored_old [OF s0 [unfolded rb] ok_old(1,2)] and ix = indexes_old [OF ix0 ok_old(3)]
  have r: "resumable (items @ old) ixs rb ri (int (length ixs))" by (rule ends_resumable [OF en ix]) simp
  obtain w2 where w2: "BKTREC_open ev' mp w1 = Some (BKT_OK, w2)" "basket_open (items @ old) ixs w2"
      "rec_rel w2 \<lparr>lg_past = [], lg_cur = (cur_path w1, ?b), lg_items = items @ old\<rparr>"
      "rc_bkt_secs (rw_ctrl w2) = no_time" "others_same (rw_disks w2) (rw_disks w1) (cur_path w1) ?b"
    using BKTREC_open_resumes [OF ev(2) clo mp, of SF_STOP ?b ?d "items @ old" ixs rb ri "int (length ixs)"] info s r nm ix unfolding cur by blast
  have "others_same (rw_disks w2) (rw_disks w) ?d ?b" using w2(5) oth unfolding cur others_same_def by simp
  then show ?thesis using w1 w2(1-4) unfolding cur by blast
qed

section \<open>Crash and start\<close>

text \<open>The program is started again: the files and the mounted disks are as they were.\<close>

definition restart :: "rec_world \<Rightarrow> rec_world" where
  "restart w = w\<lparr>rw_status := BKT_STATUS_CLOSED, rw_space := BKT_SPACE_REMAIN, rw_recycle := BKT_RECYCLE_ON,
     rw_ctrl := cleared_ctrl\<lparr>rc_prev_min := replicate BKT_MAX_CHANNEL 0\<rparr>, rw_hbkt := None, rw_hidx := None, rw_prevFpos := 0\<rparr>"

lemma restart_closed: "mount_ok w \<Longrightarrow> closed_ok (restart w)"
  by (simp add: closed_ok_def restart_def mount_ok_def Let_def fits_def const_defs)

text \<open>The files of a flushed basket.\<close>

lemma flushed_stored:
  assumes op: "basket_open items ixs w" and b: "rc_b_buf (rw_ctrl w) = []" and i: "rc_i_buf (rw_ctrl w) = []" and fr: "list_all is_frame items"
    and f: "the_file (rw_disks w) Bkt (rc_target_path (rw_ctrl w)) (rc_bid (rw_ctrl w)) = Some fb"
      "the_file (rw_disks w) Idx (rc_target_path (rw_ctrl w)) (rc_bid (rw_ctrl w)) = Some fi"
  shows "stored items ixs (drop (BASKET_HDR_LEN + length (items_bytes items)) fb) (drop (INDEX_HDR_LEN + INDEX_DATA_LEN * length ixs) fi)
      (ih_count (dec_index_hdr (take INDEX_HDR_LEN fi))) (rw_disks w) (rc_target_path (rw_ctrl w)) (rc_bid (rw_ctrl w))"
proof -
  let ?c = "rw_ctrl w"
  let ?d = "rc_target_path ?c" and ?b = "rc_bid ?c"
  have p: "part_open (rw_disks w) (rw_hbkt w) Bkt ?d ?b BASKET_HDR_LEN (rc_fpos_bkt ?c) [] (items_bytes items)"
    "part_open (rw_disks w) (rw_hidx w) Idx ?d ?b INDEX_HDR_LEN (rc_fpos_idx ?c) [] (index_bytes ixs)"
    using op b i by (simp_all add: basket_open_def Let_def)
  obtain hb where hb: "length hb = BASKET_HDR_LEN" "open_at (rw_disks w) (rw_hbkt w) Bkt ?d ?b (hb @ items_bytes items)"
    by (rule part_open_empty [OF p(1)])
  obtain hi where hi: "length hi = INDEX_HDR_LEN" "open_at (rw_disks w) (rw_hidx w) Idx ?d ?b (hi @ index_bytes ixs)"
    by (rule part_open_empty [OF p(2)])
  have tb: "take (BASKET_HDR_LEN + length (items_bytes items)) fb = hb @ items_bytes items" using hb f(1) by (auto simp: open_at_def)
  have ti: "take (INDEX_HDR_LEN + INDEX_DATA_LEN * length ixs) fi = hi @ index_bytes ixs" using hi f(2) by (auto simp: open_at_def)
  have fb: "fb = hb @ items_bytes items @ drop (BASKET_HDR_LEN + length (items_bytes items)) fb"
    using tb append_take_drop_id [of "BASKET_HDR_LEN + length (items_bytes items)" fb] by simp
  have fi: "fi = hi @ index_bytes ixs @ drop (INDEX_HDR_LEN + INDEX_DATA_LEN * length ixs) fi"
    using ti append_take_drop_id [of "INDEX_HDR_LEN + INDEX_DATA_LEN * length ixs" fi] by simp
  have hi': "take INDEX_HDR_LEN fi = hi" using hi(1) by (subst fi) simp
  have ok: "list_all item_ok items" by (rule basket_openD(4) [OF op])
  show ?thesis unfolding stored_def
    by (rule exI [of _ hb], rule exI [of _ hi]) (use f fb fi hb(1) hi(1) hi' ok fr in simp)
qed

text \<open>What a crash after a flush needs: the info file names the basket, the header of the index
  has no count, and the scans pass what is recorded and stop behind it.\<close>

definition crashable :: "item list \<Rightarrow> index_data list \<Rightarrow> rec_world \<Rightarrow> bool" where
  "crashable items ixs w \<longleftrightarrow> rec_ok w \<and> list_all is_frame items \<and> times_up (0, 0) ixs \<and> length (rc_i_buf (rw_ctrl w)) \<le> INDEX_DATA_LEN * length ixs
     \<and> (\<exists>p. dk_info (cur_disk w) = Some (Some \<lparr>ri_save_flag = SF_USING, ri_bid = rc_bid (rw_ctrl w), ri_path = p\<rparr>))
     \<and> (\<exists>fb fi. the_file (rw_disks w) Bkt (rc_target_path (rw_ctrl w)) (rc_bid (rw_ctrl w)) = Some fb
        \<and> the_file (rw_disks w) Idx (rc_target_path (rw_ctrl w)) (rc_bid (rw_ctrl w)) = Some fi
        \<and> ends_in_order items (drop (BASKET_HDR_LEN + length (items_bytes items)) fb) \<and> ih_count (dec_index_hdr (take INDEX_HDR_LEN fi)) \<le> 0
        \<and> idx_stops (ix_sec (last ixs), ix_usec (last ixs)) (ix_fpos (last ixs)) (drop (INDEX_HDR_LEN + INDEX_DATA_LEN * length ixs) fi))"

lemma crash_open:
  assumes ev: "healthy ev" "healthy ev'" and op: "basket_open items ixs w" and cr: "crashable items ixs w"
    and fl: "BKTREC_FlushWriteBuffer ev w = (BKT_OK, w1)"
    and later: "rw_disks v = rw_disks w1" "rw_mount v = rw_mount w1" "rw_hddmgr v = rw_hddmgr w1" and mp: "mp \<noteq> 0"
  shows "\<exists>w2. BKTREC_open ev' mp (restart v) = Some (BKT_OK, w2) \<and> basket_open items ixs w2
    \<and> rec_rel w2 \<lparr>lg_past = [], lg_cur = (rc_target_path (rw_ctrl w), rc_bid (rw_ctrl w)), lg_items = items\<rparr>"
proof -
  have rec: "rec_ok w" and fr: "list_all is_frame items" and up: "times_up (0, 0) ixs" and fi0: "length (rc_i_buf (rw_ctrl w)) \<le> INDEX_DATA_LEN * length ixs"
    using cr by (simp_all add: crashable_def)
  obtain p fb0 fi0 where info: "dk_info (cur_disk w) = Some (Some \<lparr>ri_save_flag = SF_USING, ri_bid = rc_bid (rw_ctrl w), ri_path = p\<rparr>)"
    and f0: "the_file (rw_disks w) Bkt (rc_target_path (rw_ctrl w)) (rc_bid (rw_ctrl w)) = Some fb0"
      "the_file (rw_disks w) Idx (rc_target_path (rw_ctrl w)) (rc_bid (rw_ctrl w)) = Some fi0"
    and en: "ends_in_order items (drop (BASKET_HDR_LEN + length (items_bytes items)) fb0)" and cnt: "ih_count (dec_index_hdr (take INDEX_HDR_LEN fi0)) \<le> 0"
    and ist: "idx_stops (ix_sec (last ixs), ix_usec (last ixs)) (ix_fpos (last ixs)) (drop (INDEX_HDR_LEN + INDEX_DATA_LEN * length ixs) fi0)"
    using cr unfolding crashable_def by blast
  let ?d = "rc_target_path (rw_ctrl w)" and ?b = "rc_bid (rw_ctrl w)"
  have ok: "disks_ok w" and n: "basket_size items ixs < BASKET_SIZE" using rec total_basket_size [OF op] by (simp_all add: rec_ok_def)
  have rdb: "rdb_ok (cur_disk w)" using disks_ok_cur [OF ok] by (simp add: disk_ok_def)
  have w1: "basket_open items ixs w1" "same_basket w1 w" "rc_b_buf (rw_ctrl w1) = []" "rc_i_buf (rw_ctrl w1) = []"
    using Flush_ok [OF ev(1) op rdb] fl by auto
  have id: "rc_target_path (rw_ctrl w1) = ?d" "rc_bid (rw_ctrl w1) = ?b" "rw_mount w1 = rw_mount w" "dk_info (rw_disks w1 ?d) = dk_info (cur_disk w)"
    using w1(2) by (simp_all add: same_basket_def)
  have "mount_ok w1" using disks_ok_same_basket [OF w1(2) ok] by (simp add: disks_ok_def)
  then have "mount_ok v" using later by (simp add: mount_ok_def)
  then have clo: "closed_ok (restart v)" by (rule restart_closed)
  have cur: "cur_path (restart v) = ?d" using ok id(3) later(2) by (simp add: disks_ok_def cur_path_def restart_def)
  have ds: "rw_disks (restart v) = rw_disks w1" by (simp add: restart_def later)
  obtain pb where fb: "the_file (rw_disks w1) Bkt ?d ?b = Some (put_bytes pb (rc_b_buf (rw_ctrl w)) fb0)" (is "_ = Some ?fb")
    and pb: "pb \<le> length fb0" "pb + length (rc_b_buf (rw_ctrl w)) = BASKET_HDR_LEN + length (items_bytes items)"
    using Flush_wrote(1) [OF ev(1) op rdb fl] f0(1) by (auto simp: wrote_def)
  obtain pi where fi: "the_file (rw_disks w1) Idx ?d ?b = Some (put_bytes pi (rc_i_buf (rw_ctrl w)) fi0)" (is "_ = Some ?fi")
    and pi: "pi \<le> length fi0" "pi + length (rc_i_buf (rw_ctrl w)) = INDEX_HDR_LEN + INDEX_DATA_LEN * length ixs"
    using Flush_wrote(2) [OF ev(1) op rdb fl] f0(2) by (auto simp: wrote_def)
  have tails: "drop (BASKET_HDR_LEN + length (items_bytes items)) ?fb = drop (BASKET_HDR_LEN + length (items_bytes items)) fb0"
    "drop (INDEX_HDR_LEN + INDEX_DATA_LEN * length ixs) ?fi = drop (INDEX_HDR_LEN + INDEX_DATA_LEN * length ixs) fi0"
    by (rule drop_put_bytes; use pb pi in simp)+
  have head: "take INDEX_HDR_LEN ?fi = take INDEX_HDR_LEN fi0" by (rule take_put_bytes) (use pi fi0 in simp_all)
  note f = fb fi
  note s = flushed_stored [OF w1(1,3,4) fr, unfolded id, OF f, unfolded tails head]
  note ix = basket_openD(5) [OF op]
  have r: "resumable items ixs (drop (BASKET_HDR_LEN + length (items_bytes items)) fb0) (drop (INDEX_HDR_LEN + INDEX_DATA_LEN * length ixs) fi0)
      (ih_count (dec_index_hdr (take INDEX_HDR_LEN fi0)))"
    by (rule ends_resumable [OF en ix]) (use cnt up ist in simp)
  have info': "dk_info (rw_disks (restart v) (cur_path (restart v))) = Some (Some \<lparr>ri_save_flag = SF_USING, ri_bid = ?b, ri_path = p\<rparr>)"
    unfolding cur ds id(4) by (rule info)
  show ?thesis
    using BKTREC_open_resumes [OF ev(2) clo mp info' _ _ r n ix] s unfolding cur ds by blast
qed

section \<open>A recorder with a key frame\<close>

lemma put_b_same: "put_b bs w = Some w' \<Longrightarrow> w' = upd_ctrl (rc_b_buf_update (\<lambda>b. b @ bs)) w"
  by (auto simp: put_b_def Let_def split: if_splits)

lemma put_rdb_same: "put_rdb pv m c = Some c' \<Longrightarrow> rc_i_buf c' = rc_i_buf c \<and> rc_target_path c' = rc_target_path c \<and> rc_bid c' = rc_bid c"
  by (auto simp: put_rdb_def Let_def split: if_splits)

lemma put_video_same:
  assumes "put_video ev pv w = Some w'" "vp_frametype pv = FT_IFRAME"
  shows "rw_disks w' = rw_disks w" "rc_target_path (rw_ctrl w') = rc_target_path (rw_ctrl w)" "rc_bid (rw_ctrl w') = rc_bid (rw_ctrl w)"
    "length (rc_i_buf (rw_ctrl w')) = length (rc_i_buf (rw_ctrl w)) + INDEX_DATA_LEN"
  using assms by (auto simp: put_video_def Let_def put_index_def length_index_data split: option.splits dest!: put_b_same put_rdb_same)

definition demo_item :: item where
  "demo_item = video_item demo_env (demo_video 100 [1, 2]) 0"

lemma demo_recorded:
  obtains w ix where "BKTREC_WriteVideoStream demo_env (demo_video 100 [1, 2]) demo_world = Some (BKT_OK, w)" "basket_open [demo_item] [ix] w" "rec_ok w"
    "rec_rel w (log_append demo_item demo_log)" "rw_disks w = rw_disks demo_world" "rc_target_path (rw_ctrl w) = 5" "rc_bid (rw_ctrl w) = 1"
    "length (rc_i_buf (rw_ctrl w)) = INDEX_DATA_LEN" "ix_sec ix = 100"
proof -
  let ?pv = "demo_video 100 [1, 2]"
  have pv: "video_ok ?pv" by (rule demo_video_ok) (simp_all add: BKT_BBUF_SIZE_def)
  have st: "stays_video demo_env ?pv (rw_ctrl demo_world)" by (rule demo_stays) (simp_all add: BKT_BBUF_SIZE_def)
  have room: "rc_b_pos (rw_ctrl demo_world) + vp_framesize ?pv + 84 < BKT_BBUF_SIZE" "rc_i_pos (rw_ctrl demo_world) + 44 < BKT_IBUF_SIZE"
    by (simp_all add: demo_fits demo_video_def BKT_BBUF_SIZE_def BKT_IBUF_SIZE_def)
  have prev: "rw_prevFpos demo_world = 0" by (simp add: demo_world_def)
  obtain w ixs where w: "BKTREC_WriteVideoStream demo_env ?pv demo_world = Some (BKT_OK, w)" "put_video demo_env ?pv demo_world = Some w"
    and op: "basket_open [demo_item] ixs w"
    using WriteVideo_fills [OF demo_healthy(1) pv demo_open demo_fits(1) st room] unfolding prev demo_item_def by auto
  have ft: "vp_frametype ?pv = FT_IFRAME" by (simp add: demo_video_def)
  note same = put_video_same [OF w(2) ft]
  have one: "iframes pos [demo_item] = [(pos, video_stream_hdr demo_env ?pv 0, video_hdr_of ?pv)]" for pos
    by (simp add: demo_item_def video_item_def demo_video_def video_stream_hdr_def)
  obtain ix where ix: "ixs = [ix]" "indexes (BASKET_HDR_LEN, video_stream_hdr demo_env ?pv 0, video_hdr_of ?pv) ix"
    using basket_openD(5) [OF op] unfolding one by (auto simp: list_all2_Cons1)
  have sec: "ix_sec ix = 100" using ix(2) by (simp add: indexes_def video_stream_hdr_def demo_video_def)
  have rel: "rec_ok w" "rec_rel w (log_append demo_item demo_log)"
    using write_media_log [OF demo_healthy(1) _ demo_rec(1,2), of "Video ?pv" "(BKT_OK, w)"] pv st w(1)
    by (auto simp: log_write_def prev demo_item_def rec_rel_def)
  show thesis by (rule that [OF w(1) op [unfolded ix(1)] rel same(1) _ _ _ sec]) (use same in \<open>simp_all add: demo_world_def demo_ctrl_def\<close>)
qed


lemma demo_item_facts: "item_ok demo_item" "is_frame demo_item" "length (item_bytes demo_item) = 86"
  "item_hdr demo_item = demo_sh\<lparr>sh_id := ID_VIDEO_HEADER, sh_framesize := 2, sh_sec := 100\<rparr>"
proof -
  have i: "demo_item = demo_key 100"
    by (simp add: demo_item_def demo_key_def video_item_def video_stream_hdr_def demo_video_def demo_env_def payload_def) (simp add: demo_sh_def FT_IFRAME_def)
  show "item_ok demo_item" "length (item_bytes demo_item) = 86" unfolding i by (rule demo_key_item; simp)+
  show "is_frame demo_item" "item_hdr demo_item = demo_sh\<lparr>sh_id := ID_VIDEO_HEADER, sh_framesize := 2, sh_sec := 100\<rparr>"
    unfolding i by (simp_all add: demo_key_def)
qed

lemma demo_ends: "ends_in_order [demo_item] []"
  unfolding ends_in_order_def demo_item_def video_item_def
  by (intro exI [of _ "[]"] exI [of _ "video_stream_hdr demo_env (demo_video 100 [1, 2]) 0"] exI [of _ "video_hdr_of (demo_video 100 [1, 2])"]
      exI [of _ "payload (demo_video 100 [1, 2])"]) (simp add: stops_def goes_on_def video_stream_hdr_def demo_video_def)

lemma demo_lists: "lists demo_disk 1"
  unfolding lists_def by (rule exI [of _ "the (dk_mgr demo_disk)"], rule exI [of _ 0]) (simp add: demo_disk_def demo_body_def)

lemma demo_size: "basket_size (demo_item # xs) [ix] = 690 + int (length (items_bytes xs))"
  by (simp add: basket_size_def demo_item_facts BASKET_HDR_LEN_def INDEX_HDR_LEN_def INDEX_DATA_LEN_def)

lemma demo_files: "the_file (rw_disks demo_world) Bkt 5 1 = Some (replicate 288 0)" "the_file (rw_disks demo_world) Idx 5 1 = Some (replicate 272 0)"
  by (simp_all add: the_file_def demo_world_def demo_disk_def)


definition demo_fresh :: rec_world where
  "demo_fresh = restart (demo_world\<lparr>rw_disks := \<lambda>_. demo_disk\<lparr>dk_info := None\<rparr>\<rparr>)"

lemma demo_mount: "mount_ok (demo_world\<lparr>rw_disks := \<lambda>_. demo_disk\<lparr>dk_info := None\<rparr>\<rparr>)"
proof -
  have "mounted (rw_mount demo_world) i \<longleftrightarrow> i = 0" for i
    by (cases i) (simp_all add: mounted_def demo_world_def demo_hdd_def)
  moreover have "disk_ok (demo_disk\<lparr>dk_info := None\<rparr>)" using demo_disk_ok by (simp add: disk_ok_def rdb_ok_def has_files_def)
  ultimately show ?thesis by (simp add: mount_ok_def) (simp add: demo_world_def demo_hdd_def)
qed

lemma open_at_longer:
  assumes "the_file ds k d b = Some f" "open_at ds h k d b bs"
  shows "open_at (set_file k d b (f @ g) ds) h k d b bs"
  using assms by (auto simp: open_at_def)

lemma basket_open_longer:
  assumes "basket_open items ixs w" "the_file (rw_disks w) Bkt (rc_target_path (rw_ctrl w)) (rc_bid (rw_ctrl w)) = Some f"
  shows "basket_open items ixs (w\<lparr>rw_disks := set_file Bkt (rc_target_path (rw_ctrl w)) (rc_bid (rw_ctrl w)) (f @ g) (rw_disks w)\<rparr>)"
proof -
  let ?d = "rc_target_path (rw_ctrl w)" and ?b = "rc_bid (rw_ctrl w)"
  have "part_open (set_file Bkt ?d ?b (f @ g) (rw_disks w)) (rw_hbkt w) Bkt ?d ?b BASKET_HDR_LEN (rc_fpos_bkt (rw_ctrl w)) (rc_b_buf (rw_ctrl w)) (items_bytes items)"
    using assms open_at_longer [OF assms(2)] unfolding basket_open_def part_open_def Let_def by blast
  then show ?thesis using assms(1) by (simp add: basket_open_def Let_def part_open_other)
qed

text \<open>A crashed recorder whose index header counts one of two key frames.\<close>

definition demo_counted :: "byte list" where
  "demo_counted = enc_index_hdr ((ev_ih demo_env)\<lparr>ih_id := ID_INDEX_HEADER, ih_bid := 1, ih_count := 1, ih_ts := demo_ts\<rparr>)
     @ index_bytes [demo_index 288 100] @ index_bytes [demo_index 374 101]"

definition demo_crashed :: rec_world where
  "demo_crashed = restart (demo_world\<lparr>rw_disks := \<lambda>_. demo_disk\<lparr>dk_bkt := [1 \<mapsto> demo_bkt, 2 \<mapsto> replicate 288 0],
     dk_idx := [1 \<mapsto> demo_counted, 2 \<mapsto> replicate 272 0]\<rparr>\<rparr>)"

lemma demo_crashed_ok: "closed_ok demo_crashed" "cur_path demo_crashed = 5"
  "dk_info (rw_disks demo_crashed 5) = Some (Some \<lparr>ri_save_flag = SF_USING, ri_bid = 1, ri_path = 5\<rparr>)"
proof -
  let ?d = "demo_disk\<lparr>dk_bkt := [1 \<mapsto> demo_bkt, 2 \<mapsto> replicate 288 0], dk_idx := [1 \<mapsto> demo_counted, 2 \<mapsto> replicate 272 0]\<rparr>"
  have "mounted (rw_mount demo_world) i \<longleftrightarrow> i = 0" for i
    by (cases i) (simp_all add: mounted_def demo_world_def demo_hdd_def)
  moreover have "disk_ok ?d" by (auto simp: disk_ok_def rdb_ok_def has_files_def demo_disk_def demo_body_def BKT_ERR_def)
  ultimately have "mount_ok (demo_world\<lparr>rw_disks := \<lambda>_. ?d\<rparr>)" by (simp add: mount_ok_def) (simp add: demo_world_def demo_hdd_def)
  then show "closed_ok demo_crashed" unfolding demo_crashed_def by (rule restart_closed)
  show "cur_path demo_crashed = 5" by (simp add: cur_path_def demo_crashed_def restart_def demo_world_def demo_hdd_def disk_path_def)
  show "dk_info (rw_disks demo_crashed 5) = Some (Some \<lparr>ri_save_flag = SF_USING, ri_bid = 1, ri_path = 5\<rparr>)"
    by (simp add: demo_crashed_def restart_def demo_disk_def)
qed

lemma demo_crashed_stored:
  "stored [demo_key 100, demo_key 101] [demo_index 288 100] (item_bytes demo_end @ item_bytes (demo_key 50)) (enc_index_data (demo_index 374 101)) 1
     (rw_disks demo_crashed) 5 1"
proof -
  let ?bh = "(ev_bh demo_env)\<lparr>bh_id := ID_BASKET_HDR, bh_bid := 1, bh_ts := demo_ts, bh_save_flag := SF_FULL\<rparr>"
  let ?ih = "(ev_ih demo_env)\<lparr>ih_id := ID_INDEX_HEADER, ih_bid := 1, ih_count := 1, ih_ts := demo_ts\<rparr>"
  have ts: "length (bt_t1 demo_ts) = 16" "length (bt_t2 demo_ts) = 16" by (simp_all add: demo_ts_def no_time_def BKT_MAX_CHANNEL_def)
  have len: "length (enc_basket_hdr ?bh) = BASKET_HDR_LEN" "length (enc_index_hdr ?ih) = INDEX_HDR_LEN"
    using ts by (simp_all add: enc_basket_hdr_def enc_index_hdr_def length_ts_longs const_defs)
  have cnt: "ih_count (dec_index_hdr (enc_index_hdr ?ih)) = 1" using dec_index_count [OF len(2)] by (simp add: fits_def)
  have fr: "is_frame (demo_key sec)" for sec by (simp add: demo_key_def)
  show ?thesis unfolding stored_def
    by (rule exI [of _ "enc_basket_hdr ?bh"], rule exI [of _ "enc_index_hdr ?ih"])
       (use len cnt demo_key_item(1) [of 100] demo_key_item(1) [of 101] fr in \<open>simp add: the_file_def demo_crashed_def restart_def demo_bkt_def demo_counted_def\<close>)
qed

lemma demo_crashed_resumable:
  "resumable [demo_key 100, demo_key 101] [demo_index 288 100] (item_bytes demo_end @ item_bytes (demo_key 50)) ri 1"
proof -
  have sh: "stream_hdr_ok (demo_sh\<lparr>sh_id := ID_BASKET_END\<rparr>)" using demo_end_item(1) by (simp add: demo_end_def)
  have en: "stops prev (item_bytes demo_end @ bs)" for prev bs
    using length_stream_enc [OF sh] dec_enc_stream_hdr [OF sh, of "[]"]
    by (simp add: stops_def demo_end_def) (simp add: ID_BASKET_END_def ID_VIDEO_HEADER_def ID_AUDIO_HEADER_def)
  have ix: "list_all2 indexes (iframes BASKET_HDR_LEN [demo_key 100]) [demo_index 288 100]"
    using list_all2_append
    by (simp add: indexes_def demo_key_def demo_index_def demo_env_def demo_sh_def demo_video_def video_hdr_of_def index_data_ok_def fits_def)
       (simp add: const_defs)
  show ?thesis unfolding resumable_def
    by (rule conjI, rule exI [of _ "[]"], rule exI [of _ "demo_sh\<lparr>sh_id := ID_VIDEO_HEADER, sh_framesize := 2, sh_sec := 100\<rparr>"],
        rule exI [of _ "video_hdr_of (demo_video 100 [1, 2])"], rule exI [of _ "[1, 2]"], rule exI [of _ "[demo_key 101]"])
       (use en ix in \<open>simp_all add: demo_key_def goes_on_def\<close>, simp_all add: demo_sh_def FT_IFRAME_def)
qed

section \<open>The properties\<close>

text \<open>Opening a recorder on a disk without a basket in use or stopped succeeds: an empty or
  the oldest basket of the disk is opened with no frames, ready to record, and no other
  basket file changes.\<close>

theorem open_starts:
  assumes "healthy ev" "closed_ok w" "mp \<noteq> 0" "nothing_pending (rw_disks w (cur_path w))"
  shows "\<exists>w' b. BKTREC_open ev mp w = Some (BKT_OK, w') \<and> rec_rel w' \<lparr>lg_past = [], lg_cur = (cur_path w, b), lg_items = []\<rparr>
    \<and> has_files (rw_disks w (cur_path w)) b \<and> others_same (rw_disks w') (rw_disks w) (cur_path w) b"
  by (rule BKTREC_open_starts [OF assms])

lemma open_starts_witness:
  "\<exists>w' b. BKTREC_open demo_env 5 demo_fresh = Some (BKT_OK, w') \<and> rec_rel w' \<lparr>lg_past = [], lg_cur = (5, b), lg_items = []\<rparr>"
proof -
  have cur: "cur_path demo_fresh = 5" by (simp add: cur_path_def demo_fresh_def restart_def demo_world_def demo_hdd_def disk_path_def)
  have np: "nothing_pending (rw_disks demo_fresh (cur_path demo_fresh))" by (simp add: nothing_pending_def demo_fresh_def restart_def)
  show ?thesis
    using open_starts [OF demo_healthy(1) restart_closed [OF demo_mount, folded demo_fresh_def] _ np, of 5] unfolding cur by auto
qed

text \<open>C5: Stop and start.  A recorder that is stopped in a listed basket, whose frames from the last
  key frame on are in order and are followed by bytes that stop the scan, is opened again
  on the same basket with exactly the frames it had, and goes on recording behind them: the
  new recorder is related to the log of these frames.\<close>

theorem stop_resumes:
  assumes "healthy ev" "healthy ev'" "rec_rel w L" "lg_cur L = (d, b)" "mp \<noteq> 0"
    "\<forall>ixs. basket_open (lg_items L) ixs w \<longrightarrow> stoppable (lg_items L) [] ixs w"
  shows "\<exists>w1 w2. BKTREC_exit ev SF_STOP BKT_REC_CLOSE_BUF_FLUSH w = (S_OK, w1) \<and> BKTREC_open ev' mp w1 = Some (BKT_OK, w2)
    \<and> rec_rel w2 \<lparr>lg_past = [], lg_cur = (d, b), lg_items = lg_items L\<rparr> \<and> others_same (rw_disks w2) (rw_disks w) d b"
proof -
  obtain ixs where op: "basket_open (lg_items L) ixs w" and cur: "d = rc_target_path (rw_ctrl w)" "b = rc_bid (rw_ctrl w)"
    using assms(3,4) by (auto simp: rec_rel_def log_rel_def)
  have "stoppable (lg_items L) [] ixs w" using assms(6) op by blast
  from stop_open [OF assms(1,2) op this assms(5)] show ?thesis unfolding cur by auto
qed

lemma stop_resumes_witness:
  "\<exists>w w1 w2. BKTREC_WriteVideoStream demo_env (demo_video 100 [1, 2]) demo_world = Some (BKT_OK, w)
    \<and> BKTREC_exit demo_env SF_STOP BKT_REC_CLOSE_BUF_FLUSH w = (S_OK, w1) \<and> BKTREC_open demo_env 5 w1 = Some (BKT_OK, w2)
    \<and> rec_rel w2 \<lparr>lg_past = [], lg_cur = (5, 1), lg_items = [demo_item]\<rparr>"
proof -
  obtain w ix where w: "BKTREC_WriteVideoStream demo_env (demo_video 100 [1, 2]) demo_world = Some (BKT_OK, w)" "basket_open [demo_item] [ix] w" "rec_ok w"
    "rec_rel w (log_append demo_item demo_log)" "rw_disks w = rw_disks demo_world" "rc_target_path (rw_ctrl w) = 5" "rc_bid (rw_ctrl w) = 1"
    by (rule demo_recorded)
  have L: "lg_items (log_append demo_item demo_log) = [demo_item]" "lg_cur (log_append demo_item demo_log) = (5, 1)"
    by (simp_all add: log_append_def demo_log_def)
  have li: "lists (cur_disk w) 1" using demo_lists by (simp add: w(5)) (simp add: demo_world_def)
  have tl: "tail (BASKET_HDR_LEN + length (items_bytes [demo_item])) w 5 1 = Some (items_bytes [] @ [])"
    using demo_files by (simp add: tail_def w(5) demo_item_facts BASKET_HDR_LEN_def)
  have "stoppable [demo_item] [] ixs w" if op: "basket_open [demo_item] ixs w" for ixs
  proof -
    have "length ixs = 1" using list_all2_lengthD [OF basket_openD(5) [OF op]] by (simp add: demo_item_def video_item_def video_stream_hdr_def demo_video_def)
    then have "basket_size ([demo_item] @ []) ixs < BASKET_SIZE"
      by (simp add: basket_size_def demo_item_facts BASKET_HDR_LEN_def INDEX_HDR_LEN_def INDEX_DATA_LEN_def BASKET_SIZE_def)
    then show ?thesis using w(3) li tl demo_ends demo_item_facts(2) unfolding stoppable_def w(6,7) by auto
  qed
  then have "\<exists>w1 w2. BKTREC_exit demo_env SF_STOP BKT_REC_CLOSE_BUF_FLUSH w = (S_OK, w1) \<and> BKTREC_open demo_env 5 w1 = Some (BKT_OK, w2)
    \<and> rec_rel w2 \<lparr>lg_past = [], lg_cur = (5, 1), lg_items = lg_items (log_append demo_item demo_log)\<rparr> \<and> others_same (rw_disks w2) (rw_disks w) 5 1"
    by (intro stop_resumes [OF demo_healthy(1) demo_healthy(1) w(4) L(2)]) (simp_all add: L)
  then show ?thesis using w(1) unfolding L by blast
qed

text \<open>C6: Crash and start.  When the program dies after a flush and is started again, on the files and mounted disks as they
  were, the recorder opens the basket that was in use with all frames that had been flushed, although neither
  header was completed: it finds their end by scanning the index and the stream.  The crashed basket must
  allow this (\<open>crashable\<close>): the header of its index has no positive count (a basket that was stopped and
  opened again keeps its old count, see \<open>counted_index_loses_keys\<close>); the info file of the disk names the basket as in
  use; it holds only frames, among them a key frame; the times of its index entries go up; from the last key
  frame on no frame looks earlier than the one before it to the test of the scan; and what an earlier use of the files has left
  behind the last frame and behind the last index entry stops the two scans (end of the file, another
  identifier, or an earlier time).  No system call fails, the disks are in order and recycling is not \<open>BKT_RECYCLE_ONCE\<close>.\<close>

theorem crash_recovers:
  assumes "healthy ev" "healthy ev'" "basket_open items ixs w" "crashable items ixs w" "BKTREC_FlushWriteBuffer ev w = (BKT_OK, w1)"
    "rw_disks v = rw_disks w1" "rw_mount v = rw_mount w1" "rw_hddmgr v = rw_hddmgr w1" "mp \<noteq> 0"
  shows "\<exists>w2. BKTREC_open ev' mp (restart v) = Some (BKT_OK, w2)
    \<and> rec_rel w2 \<lparr>lg_past = [], lg_cur = (rc_target_path (rw_ctrl w), rc_bid (rw_ctrl w)), lg_items = items\<rparr>"
  using crash_open [OF assms] by blast

lemma crash_recovers_witness:
  "\<exists>w w1 w2. BKTREC_WriteVideoStream demo_env (demo_video 100 [1, 2]) demo_world = Some (BKT_OK, w) \<and> BKTREC_FlushWriteBuffer demo_env w = (BKT_OK, w1)
    \<and> BKTREC_open demo_env 5 (restart w1) = Some (BKT_OK, w2) \<and> rec_rel w2 \<lparr>lg_past = [], lg_cur = (5, 1), lg_items = [demo_item]\<rparr>"
proof -
  obtain w ix where w: "BKTREC_WriteVideoStream demo_env (demo_video 100 [1, 2]) demo_world = Some (BKT_OK, w)" "basket_open [demo_item] [ix] w" "rec_ok w"
    "rec_rel w (log_append demo_item demo_log)" "rw_disks w = rw_disks demo_world" "rc_target_path (rw_ctrl w) = 5" "rc_bid (rw_ctrl w) = 1"
    "length (rc_i_buf (rw_ctrl w)) = INDEX_DATA_LEN" "ix_sec ix = 100"
    by (rule demo_recorded)
  have "rdb_ok (cur_disk w)" by (rule rec_ok_rdb [OF w(3)])
  then obtain w1 where fl: "BKTREC_FlushWriteBuffer demo_env w = (BKT_OK, w1)" using Flush_ok [OF demo_healthy(1) w(2)] by blast
  have info: "dk_info (cur_disk w) = Some (Some \<lparr>ri_save_flag = SF_USING, ri_bid = 1, ri_path = 5\<rparr>)"
    by (simp add: w(5)) (simp add: demo_world_def demo_disk_def)
  have cnt: "ih_count (dec_index_hdr (take INDEX_HDR_LEN (replicate 272 0))) \<le> 0" proof -
    have "replicate 68 (4::nat) = 4 # 4 # 4 # replicate 65 4" by (simp add: numeral_eq_Suc)
    then show ?thesis by (simp add: dec_index_hdr_def INDEX_HDR_LEN_def le_int_def) (simp add: numeral_eq_Suc)
  qed
  have "crashable [demo_item] [ix] w" unfolding crashable_def w(6,7)
    using w(3,8,9) info [unfolded w(6)] demo_files demo_ends demo_item_facts(2,3) cnt
    by (simp add: w(5) BASKET_HDR_LEN_def INDEX_HDR_LEN_def INDEX_DATA_LEN_def idx_stops_def)
  from crash_recovers [OF demo_healthy(1) demo_healthy(1) w(2) this fl refl refl refl, of 5] w(1) fl show ?thesis unfolding w(6,7) by auto
qed


lemma in_order_snoc: "in_order prev (xs @ [y]) \<longleftrightarrow> in_order prev xs \<and> goes_on (last_time prev xs) (item_hdr y)"
  by (induction xs arbitrary: prev) (auto simp: last_time_def)

lemma ends_in_order_old:
  assumes "ends_in_order items []" "sh_frametype sh \<noteq> FT_IFRAME" "sh_usec (item_hdr (last items)) \<le> sh_usec sh" "stops (sh_sec sh, sh_usec sh) rb"
  shows "ends_in_order (items @ [Vid sh vh pl]) rb"
proof -
  obtain pre s v p post where k: "items = pre @ Vid s v p # post" "sh_frametype s = FT_IFRAME" "iframes 0 post = []" "in_order (0, 0) (Vid s v p # post)"
    using assms(1) unfolding ends_in_order_def by blast
  let ?post = "post @ [Vid sh vh pl]"
  have l: "last_time (0, 0) (Vid s v p # post) = (sh_sec (item_hdr (last items)), sh_usec (item_hdr (last items)))"
    by (simp add: last_time_def k(1))
  have "in_order (0, 0) ((Vid s v p # post) @ [Vid sh vh pl])"
    unfolding in_order_snoc l using k(4) assms(3) by (simp add: goes_on_def)
  moreover have "iframes 0 ?post = []" using k(3) assms(2) by simp
  moreover have "last_time (0, 0) (Vid s v p # ?post) = (sh_sec sh, sh_usec sh)" by (simp add: last_time_def)
  ultimately show ?thesis unfolding ends_in_order_def k(1) using k(2) assms(4)
    by (intro exI [of _ pre] exI [of _ s] exI [of _ v] exI [of _ p] exI [of _ ?post]) simp
qed

text \<open>A frame of an earlier use is taken over.  When a recycled basket is stopped and behind its
  last frame there happens to be a frame of its earlier use, of an earlier second but with
  a microsecond that is not smaller, opening the basket again takes this frame for
  recorded: the scan stops only at a frame that is smaller in both.\<close>

theorem stale_frame_resumed:
  assumes "healthy ev" "healthy ev'" "basket_open items ixs w" "rec_ok w" "lists (cur_disk w) (rc_bid (rw_ctrl w))" "list_all is_frame items"
    "ends_in_order items []" "tail (BASKET_HDR_LEN + length (items_bytes items)) w (rc_target_path (rw_ctrl w)) (rc_bid (rw_ctrl w))
      = Some (item_bytes (Vid sh vh pl) @ rb)"
    "item_ok (Vid sh vh pl)" "sh_frametype sh \<noteq> FT_IFRAME" "sh_sec sh < sh_sec (item_hdr (last items))" "sh_usec (item_hdr (last items)) \<le> sh_usec sh"
    "stops (sh_sec sh, sh_usec sh) rb" "basket_size (items @ [Vid sh vh pl]) ixs < BASKET_SIZE" "mp \<noteq> 0"
  shows "\<exists>w1 w2. BKTREC_exit ev SF_STOP BKT_REC_CLOSE_BUF_FLUSH w = (S_OK, w1) \<and> BKTREC_open ev' mp w1 = Some (BKT_OK, w2)
    \<and> rec_rel w2 \<lparr>lg_past = [], lg_cur = (rc_target_path (rw_ctrl w), rc_bid (rw_ctrl w)), lg_items = items @ [Vid sh vh pl]\<rparr>"
proof -
  note en = ends_in_order_old [OF assms(7,10,12,13), of vh pl]
  have "stoppable items [Vid sh vh pl] ixs w" unfolding stoppable_def
    using assms(4-6,8-10,14) en by auto
  from stop_open [OF assms(1-3) this assms(15)] show ?thesis by blast
qed

definition demo_old_sh :: stream_hdr where
  "demo_old_sh = demo_sh\<lparr>sh_id := ID_VIDEO_HEADER, sh_framesize := 2, sh_sec := 50, sh_frametype := 1\<rparr>"

lemma stale_frame_resumed_witness:
  "\<exists>w w1 w2. BKTREC_exit demo_env SF_STOP BKT_REC_CLOSE_BUF_FLUSH w = (S_OK, w1) \<and> BKTREC_open demo_env 5 w1 = Some (BKT_OK, w2)
    \<and> rec_rel w2 \<lparr>lg_past = [], lg_cur = (5, 1), lg_items = [demo_item, Vid demo_old_sh (video_hdr_of (demo_video 50 [1, 2])) [1, 2]]\<rparr>"
proof -
  let ?vh = "video_hdr_of (demo_video 50 [1, 2])"
  let ?old = "Vid demo_old_sh ?vh [1, 2]"
  obtain w0 ix where w0: "basket_open [demo_item] [ix] w0" "rec_ok w0"
    "rw_disks w0 = rw_disks demo_world" "rc_target_path (rw_ctrl w0) = 5" "rc_bid (rw_ctrl w0) = 1"
    by (rule demo_recorded)
  let ?w = "w0\<lparr>rw_disks := set_file Bkt 5 1 (replicate 288 0 @ replicate 86 0 @ item_bytes ?old) (rw_disks w0)\<rparr>"
  have op: "basket_open [demo_item] [ix] ?w" using basket_open_longer [OF w0(1), of "replicate 288 0"] demo_files(1) w0(3-5) by simp
  have vh: "video_hdr_ok ?vh" by (rule video_hdr_of_ok [OF demo_video_ok]) (simp_all add: BKT_BBUF_SIZE_def)
  have sh: "stream_hdr_ok demo_old_sh" by (simp add: stream_hdr_ok_def demo_old_sh_def demo_sh_def fits_def) (simp add: ID_VIDEO_HEADER_def)
  have ok: "item_ok ?old" using vh sh by (simp add: demo_old_sh_def) (simp add: demo_sh_def)
  have len: "length (item_bytes ?old) = 86" using length_stream_enc [OF sh] video_enc(1) [OF vh] by (simp add: const_defs)
  have "disks_ok ?w" by (rule disks_ok_cong) (use w0(2) in \<open>simp_all add: rec_ok_def disk_ok_set_file\<close>)
  then have rec: "rec_ok ?w" using w0(2) by (simp add: rec_ok_def)
  have li: "lists (cur_disk ?w) (rc_bid (rw_ctrl ?w))" using demo_lists w0(3-5) by (simp add: lists_def) (simp add: demo_world_def)
  have tl: "tail (BASKET_HDR_LEN + length (items_bytes [demo_item])) ?w (rc_target_path (rw_ctrl ?w)) (rc_bid (rw_ctrl ?w)) = Some (item_bytes ?old @ [])"
    by (simp add: tail_def w0(4,5) demo_item_facts BASKET_HDR_LEN_def)
  have st: "stops (sh_sec demo_old_sh, sh_usec demo_old_sh) []" by (simp add: stops_def)
  have sz: "basket_size ([demo_item] @ [?old]) [ix] < BASKET_SIZE"
    using len demo_item_facts(3) by (simp add: basket_size_def BASKET_HDR_LEN_def INDEX_HDR_LEN_def INDEX_DATA_LEN_def BASKET_SIZE_def)
  have "\<exists>w1 w2. BKTREC_exit demo_env SF_STOP BKT_REC_CLOSE_BUF_FLUSH ?w = (S_OK, w1) \<and> BKTREC_open demo_env 5 w1 = Some (BKT_OK, w2)
    \<and> rec_rel w2 \<lparr>lg_past = [], lg_cur = (rc_target_path (rw_ctrl ?w), rc_bid (rw_ctrl ?w)), lg_items = [demo_item] @ [?old]\<rparr>"
    by (rule stale_frame_resumed [OF demo_healthy(1) demo_healthy(1) op rec li _ demo_ends tl ok _ _ _ st sz])
       (simp_all add: demo_item_facts demo_old_sh_def, simp_all add: demo_sh_def FT_IFRAME_def)
  then show ?thesis using w0(4,5) by auto
qed

text \<open>Key frames that no index entry can reach.  When the count in the index header is smaller than the
  number of key frames, as after a crash in a basket that was stopped and opened again, which does
  not reset it, the search trusts the count: the stream is resumed behind all frames, but the index behind the counted entries
  only, and whatever the index then holds it does not list the key frames recorded since.\<close>

theorem counted_index_loses_keys:
  assumes "healthy ev" "closed_ok w" "mp \<noteq> 0"
    "dk_info (rw_disks w (cur_path w)) = Some (Some \<lparr>ri_save_flag = SF_USING, ri_bid = b, ri_path = p\<rparr>)"
    "stored items ixs rb ri (int (length ixs)) (rw_disks w) (cur_path w) b" "resumable items ixs rb ri (int (length ixs))"
    "basket_size items ixs < BASKET_SIZE" "length ixs < length (iframes BASKET_HDR_LEN items)"
  shows "\<exists>w'. BKTREC_open ev mp w = Some (BKT_OK, w') \<and> rc_fpos_bkt (rw_ctrl w') = int (BASKET_HDR_LEN + length (items_bytes items))
    \<and> rc_fpos_idx (rw_ctrl w') = int (INDEX_HDR_LEN + INDEX_DATA_LEN * length ixs) \<and> (\<nexists>ixs'. basket_open items ixs' w')"
proof -
  obtain w' where w': "BKTREC_open ev mp w = Some (BKT_OK, w')" "rc_fpos_bkt (rw_ctrl w') = int (BASKET_HDR_LEN + length (items_bytes items))"
    "rc_fpos_idx (rw_ctrl w') = int (INDEX_HDR_LEN + INDEX_DATA_LEN * length ixs)" "rc_i_buf (rw_ctrl w') = []"
    using BKTREC_open_positions [OF assms(1-4) disjI1 [OF refl] assms(5-7)] by blast
  have "length ixs' = length ixs" if op: "basket_open items ixs' w'" for ixs'
  proof -
    obtain hdr where "length hdr = INDEX_HDR_LEN" "int (length (hdr @ index_bytes ixs')) = rc_fpos_idx (rw_ctrl w')"
      using op w'(4) by (auto simp: basket_open_def Let_def part_open_def)
    then show ?thesis using w'(3) length_index_bytes [of ixs'] by (simp add: INDEX_DATA_LEN_def)
  qed
  moreover have "length ixs' = length (iframes BASKET_HDR_LEN items)" if "basket_open items ixs' w'" for ixs'
    using list_all2_lengthD [OF basket_openD(5) [OF that]] by simp
  ultimately have "\<nexists>ixs'. basket_open items ixs' w'" using assms(8) by force
  then show ?thesis using w' by blast
qed

lemma counted_index_loses_keys_witness:
  "\<exists>w'. BKTREC_open demo_env 5 demo_crashed = Some (BKT_OK, w') \<and> rc_fpos_bkt (rw_ctrl w') = 460 \<and> rc_fpos_idx (rw_ctrl w') = 316"
proof -
  have n: "basket_size [demo_key 100, demo_key 101] [demo_index 288 100] < BASKET_SIZE"
    by (simp add: basket_size_def demo_key_item(2) BASKET_HDR_LEN_def INDEX_HDR_LEN_def INDEX_DATA_LEN_def BASKET_SIZE_def)
  have "length (iframes 288 [demo_key 100, demo_key 101]) = 2" by (simp add: demo_key_def demo_sh_def FT_IFRAME_def)
  then have k: "length [demo_index 288 100] < length (iframes BASKET_HDR_LEN [demo_key 100, demo_key 101])" by (simp add: BASKET_HDR_LEN_def)
  have one: "int (length [demo_index 288 100]) = 1" by simp
  from counted_index_loses_keys [OF demo_healthy(1) demo_crashed_ok(1) _ _ _ _ n k, of 5 1 5] demo_crashed_ok(2,3) demo_crashed_stored demo_crashed_resumable [of "enc_index_data (demo_index 374 101)"]
  have "\<exists>w'. BKTREC_open demo_env 5 demo_crashed = Some (BKT_OK, w') \<and> rc_fpos_bkt (rw_ctrl w') = 460 \<and> rc_fpos_idx (rw_ctrl w') = 316
    \<and> (\<nexists>ixs'. basket_open [demo_key 100, demo_key 101] ixs' w')"
    unfolding one by (simp add: demo_key_item(2) BASKET_HDR_LEN_def INDEX_HDR_LEN_def INDEX_DATA_LEN_def)
  then show ?thesis by blast
qed

end
