(* ===== verification/Prerec.thy ===== *)
theory Prerec
  imports Basket_Open "HOL-Library.Signed_Division"
begin

text \<open>The pre-recording buffer (src/prerec.c) between the encoder and the recorder.  Frames
  stay in a linked list for some seconds; a frame that leaves it goes through the state
  machine of its channel (\<open>WRITER_ChInfo\<close> of app_writer.h) to the recorder.\<close>

section \<open>State\<close>

text \<open>A channel of the writer; the states of \<open>fileSaveState\<close>.\<close>

datatype save_state = SAVE_STATE_IDLE | SAVE_STATE_OPEN | SAVE_STATE_WRITE | SAVE_STATE_CLOSE

record wr_chinfo =
  wc_event_mode :: int
  wc_enableChSave :: bool
  wc_enableAudio :: int
  wc_presec :: int
  wc_postsec :: int
  wc_firstKeyframe :: bool
  wc_fileSaveState :: save_state
  wc_camName :: "int list"

text \<open>\<open>WRITER_Ctrl\<close>, with the messages sent so far through its pipe.\<close>

record wr_ctrl =
  wr_chInfo :: "wr_chinfo list"
  wr_bPreEnabled :: bool
  wr_is_basket_opened :: bool
  wr_has_pipe :: bool
  wr_msgs :: "(int \<times> int) list"

definition LIB_RECORDER :: int where "LIB_RECORDER = 2"
definition LIB_WR_OPEN_FAIL :: int where "LIB_WR_OPEN_FAIL = -1"
definition LIB_WR_REC_FAIL :: int where "LIB_WR_REC_FAIL = -2"
definition LIB_WR_HDD_FULL :: int where "LIB_WR_HDD_FULL = -3"
definition LIB_WR_NOT_MOUNTED :: int where "LIB_WR_NOT_MOUNTED = -4"

definition WRITER_sendMsgPipe :: "int \<Rightarrow> int \<Rightarrow> wr_ctrl \<Rightarrow> wr_ctrl" where
  "WRITER_sendMsgPipe which data c = (if \<not> wr_has_pipe c then c else c\<lparr>wr_msgs := wr_msgs c @ [(which, data)]\<rparr>)"

definition upd_ch :: "int \<Rightarrow> (wr_chinfo \<Rightarrow> wr_chinfo) \<Rightarrow> wr_ctrl \<Rightarrow> wr_ctrl" where
  "upd_ch ch f c = c\<lparr>wr_chInfo := (wr_chInfo c)[nat ch := f (wr_chInfo c ! nat ch)]\<rparr>"

definition has_ch :: "int \<Rightarrow> wr_ctrl \<Rightarrow> bool" where
  "has_ch ch c \<longleftrightarrow> 0 \<le> ch \<and> nat ch < length (wr_chInfo c)"

text \<open>An entry of the list and the list, with the memory of its entries.  \<open>malloc\<close> gives the
  address of an entry; a buffer is the list of its bytes in the entry.\<close>

definition VIDEO :: int where "VIDEO = 0"
definition AUDIO :: int where "AUDIO = 1"

record prelist_ent =
  pe_ch :: int
  pe_type :: int
  pe_msec :: int
  pe_vp :: video_rec_param
  pe_ap :: audio_rec_param
  pe_next :: "nat option"

record prelist =
  pr_heap :: "nat \<rightharpoonup> prelist_ent"
  pr_head :: "nat option"
  pr_tail :: "nat option"
  pr_vcnt :: int
  pr_acnt :: int
  pr_tcnt :: int
  pr_diff_msec :: int
  pr_max_premsec :: int
  pr_locked :: bool

record writer =
  ws_rec :: rec_world
  ws_ctrl :: wr_ctrl
  ws_pre :: prelist

text \<open>How a call can fail to return: on an invalid pointer or index (of the recorder too), or
  at a mutex that nobody will unlock.  A loop that does not end is None.\<close>

datatype fate = Crash | Blocked

type_synonym 'a outcome = "(fate + 'a) option"

definition deref :: "prelist \<Rightarrow> nat option \<Rightarrow> prelist_ent option" where
  "deref l p = Option.bind p (pr_heap l)"

text \<open>The environment of a call: the allocator, which gives the address of a new entry (None: no
  memory), whether there is memory for the buffer, what fresh memory holds, and the recorder's environment at
  each of the writes.\<close>

record pre_env =
  pv_node :: "(nat \<rightharpoonup> prelist_ent) \<Rightarrow> nat option"
  pv_buff :: bool
  pv_junk :: prelist_ent
  pv_bkt :: "nat \<Rightarrow> bkt_env"

section \<open>The head of the list\<close>

text \<open>Times are 32 bit milliseconds, which wrap around, and so do their differences.\<close>

definition msec_of :: "int \<Rightarrow> int \<Rightarrow> int" where
  "msec_of sec usec = off32 (sec * 1000 + usec sdiv 1000)"

definition gap :: "int \<Rightarrow> int \<Rightarrow> int" where
  "gap t h = off32 (t - h)"

definition PRELIST_free_ent :: "nat \<Rightarrow> prelist \<Rightarrow> prelist" where
  "PRELIST_free_ent p l = l\<lparr>pr_heap := (pr_heap l)(p := None)\<rparr>"

definition PRELIST_delete_head :: "prelist \<Rightarrow> fate + prelist" where
  "PRELIST_delete_head l =
    (case pr_head l of None \<Rightarrow> Inl Crash | Some p \<Rightarrow>
     (case pr_heap l p of None \<Rightarrow> Inl Crash | Some temp \<Rightarrow>
        let l1 = l\<lparr>pr_head := pe_next temp\<rparr>;
            l2 = (if pe_type temp = VIDEO then l1\<lparr>pr_vcnt := pr_vcnt l1 - 1\<rparr> else l1\<lparr>pr_acnt := pr_acnt l1 - 1\<rparr>);
            l3 = (PRELIST_free_ent p l2)\<lparr>pr_tcnt := pr_tcnt l2 - 1\<rparr> in
        (case (deref l3 (pr_tail l3), deref l3 (pr_head l3)) of
           (Some t, Some h) \<Rightarrow> Inr (l3\<lparr>pr_diff_msec := gap (pe_msec t) (pe_msec h)\<rparr>)
         | _ \<Rightarrow> Inl Crash)))"

section \<open>The state machine of a channel\<close>

definition enter_state :: "bool \<Rightarrow> save_state \<Rightarrow> save_state" where
  "enter_state enable st =
    (if enable then (if st = SAVE_STATE_IDLE then SAVE_STATE_OPEN else st)
     else if st = SAVE_STATE_OPEN then SAVE_STATE_IDLE
     else if st = SAVE_STATE_WRITE then SAVE_STATE_CLOSE else st)"

text \<open>A write that failed, or found the disks full, ends the recording of the channel.\<close>

definition note_status :: "int \<Rightarrow> int \<Rightarrow> save_state \<times> wr_ctrl \<Rightarrow> save_state \<times> wr_ctrl" where
  "note_status ch status = (\<lambda>(st, c).
    if status = BKT_ERR then
      (SAVE_STATE_CLOSE, WRITER_sendMsgPipe LIB_RECORDER LIB_WR_REC_FAIL (upd_ch ch (wc_enableChSave_update (\<lambda>_. False)) c))
    else if status = BKT_FULL then
      (SAVE_STATE_CLOSE, WRITER_sendMsgPipe LIB_RECORDER LIB_WR_HDD_FULL (upd_ch ch (wc_enableChSave_update (\<lambda>_. False)) c))
    else (st, c))"

definition save_state_end :: "int \<Rightarrow> save_state \<times> wr_ctrl \<Rightarrow> wr_ctrl" where
  "save_state_end ch = (\<lambda>(st, c).
    if st = SAVE_STATE_CLOSE
    then upd_ch ch (\<lambda>i. i\<lparr>wc_firstKeyframe := False, wc_fileSaveState := SAVE_STATE_IDLE\<rparr>) c
    else upd_ch ch (wc_fileSaveState_update (\<lambda>_. st)) c)"

text \<open>What \<open>PRELIST_check_time\<close> does with the entry at the head before it deletes it.\<close>

definition head_step :: "bkt_env \<Rightarrow> prelist_ent \<Rightarrow> rec_world \<times> wr_ctrl \<Rightarrow> fate + rec_world \<times> wr_ctrl" where
  "head_step ev e = (\<lambda>(w, c).
    if \<not> has_ch (pe_ch e) c then Inl Crash
    else
      let i = wr_chInfo c ! nat (pe_ch e);
          st1 = enter_state (wc_enableChSave i) (wc_fileSaveState i);
          st2 = (if st1 = SAVE_STATE_OPEN \<and> pe_type e = VIDEO \<and> vp_frametype (pe_vp e) = FT_IFRAME then SAVE_STATE_WRITE else st1) in
      if st2 = SAVE_STATE_WRITE then
        let c1 = (if pe_type e = VIDEO then upd_ch (pe_ch e) (wc_firstKeyframe_update (\<lambda>_. True)) c else c) in
        (case (if pe_type e = VIDEO then BKTREC_WriteVideoStream ev (pe_vp e) w else BKTREC_WriteAudioStream ev (pe_ap e) w) of
           None \<Rightarrow> Inl Crash
         | Some (status, w1) \<Rightarrow> Inr (w1, save_state_end (pe_ch e) (note_status (pe_ch e) status (st2, c1))))
      else Inr (w, save_state_end (pe_ch e) (st2, c)))"

text \<open>The loop; \<open>n\<close> counts its rounds.\<close>

partial_function (option) check_loop :: "(nat \<Rightarrow> bkt_env) \<Rightarrow> nat \<Rightarrow> writer \<Rightarrow> writer outcome" where
  "check_loop evs n s =
    (let l = ws_pre s in
     if pr_head l = None \<or> pr_tail l = None then Some (Inr s)
     else case (deref l (pr_tail l), deref l (pr_head l)) of
       (Some t, Some h) \<Rightarrow>
         if \<not> gap (pe_msec t) (pe_msec h) > pr_max_premsec l then Some (Inr s)
         else (case head_step (evs n) h (ws_rec s, ws_ctrl s) of
             Inl f \<Rightarrow> Some (Inl f)
           | Inr (w, c) \<Rightarrow>
               (case PRELIST_delete_head l of
                  Inl f \<Rightarrow> Some (Inl f)
                | Inr l' \<Rightarrow> check_loop evs (Suc n) \<lparr>ws_rec = w, ws_ctrl = c, ws_pre = l'\<rparr>))
     | _ \<Rightarrow> Some (Inl Crash))"

text \<open>The first test only prints, but it reads both ends.\<close>

definition PRELIST_check_time :: "(nat \<Rightarrow> bkt_env) \<Rightarrow> writer \<Rightarrow> writer outcome" where
  "PRELIST_check_time evs s =
    (if deref (ws_pre s) (pr_tail (ws_pre s)) = None \<or> deref (ws_pre s) (pr_head (ws_pre s)) = None then Some (Inl Crash)
     else check_loop evs 0 s)"

section \<open>Adding a frame\<close>

text \<open>The search for the last entry when the tail has a successor.\<close>

partial_function (option) find_last :: "prelist \<Rightarrow> nat \<Rightarrow> nat outcome" where
  "find_last l p = (case pr_heap l p of
     None \<Rightarrow> Some (Inl Crash)
   | Some e \<Rightarrow> (case pe_next e of None \<Rightarrow> Some (Inr p) | Some q \<Rightarrow> find_last l q))"

definition set_next :: "nat \<Rightarrow> nat \<Rightarrow> prelist \<Rightarrow> prelist" where
  "set_next p q l = l\<lparr>pr_heap := (pr_heap l)(p := map_option (pe_next_update (\<lambda>_. Some q)) (pr_heap l p))\<rparr>"

definition link_tail :: "nat \<Rightarrow> prelist \<Rightarrow> prelist outcome" where
  "link_tail q l =
    (case pr_tail l of
       None \<Rightarrow> Some (Inr (l\<lparr>pr_head := Some q, pr_tail := Some q\<rparr>))
     | Some p \<Rightarrow>
         (case pr_heap l p of None \<Rightarrow> Some (Inl Crash)
          | Some t \<Rightarrow>
              (case pe_next t of
                 None \<Rightarrow> Some (Inr ((set_next p q l)\<lparr>pr_tail := Some q\<rparr>))
               | Some p' \<Rightarrow>
                   (case find_last l p' of None \<Rightarrow> None | Some (Inl f) \<Rightarrow> Some (Inl f)
                    | Some (Inr r) \<Rightarrow> Some (Inr ((set_next r q l)\<lparr>pr_tail := Some q\<rparr>))))))"

text \<open>The copies in a new entry.  \<open>strcpy\<close> of the name stops at its first zero; the mode of the
  capture is not copied, nor is anything of the other kind.\<close>

definition video_ent :: "prelist_ent \<Rightarrow> video_rec_param \<Rightarrow> prelist_ent" where
  "video_ent raw vp = raw\<lparr>pe_ch := vp_ch vp, pe_type := VIDEO, pe_msec := msec_of (vp_sec vp) (vp_usec vp),
     pe_vp := vp\<lparr>vp_buff := take (nat (vp_framesize vp)) (vp_buff vp), vp_camName := takeWhile (\<lambda>x. x \<noteq> 0) (vp_camName vp),
       vp_capMode := vp_capMode (pe_vp raw)\<rparr>, pe_next := None\<rparr>"

definition audio_ent :: "prelist_ent \<Rightarrow> audio_rec_param \<Rightarrow> prelist_ent" where
  "audio_ent raw ap = raw\<lparr>pe_ch := ap_ch ap, pe_type := AUDIO, pe_msec := msec_of (ap_sec ap) (ap_usec ap),
     pe_ap := ap\<lparr>ap_buff := take (nat (ap_framesize ap)) (ap_buff ap)\<rparr>, pe_next := None\<rparr>"

text \<open>From the new entry to the unlock.\<close>

definition add_ent :: "(nat \<Rightarrow> bkt_env) \<Rightarrow> nat \<Rightarrow> prelist_ent \<Rightarrow> writer \<Rightarrow> (int \<times> writer) outcome" where
  "add_ent evs q e s =
    (let l0 = (ws_pre s)\<lparr>pr_heap := (pr_heap (ws_pre s))(q \<mapsto> e)\<rparr> in
     case link_tail q l0 of
       None \<Rightarrow> None
     | Some (Inl f) \<Rightarrow> Some (Inl f)
     | Some (Inr l1) \<Rightarrow>
         let l2 = (if pe_type e = VIDEO then l1\<lparr>pr_vcnt := pr_vcnt l1 + 1, pr_tcnt := pr_tcnt l1 + 1\<rparr>
                   else l1\<lparr>pr_acnt := pr_acnt l1 + 1, pr_tcnt := pr_tcnt l1 + 1\<rparr>) in
         case (deref l2 (pr_tail l2), deref l2 (pr_head l2)) of
           (Some t, Some h) \<Rightarrow>
             (case PRELIST_check_time evs (s\<lparr>ws_pre := l2\<lparr>pr_diff_msec := gap (pe_msec t) (pe_msec h)\<rparr>\<rparr>) of
                None \<Rightarrow> None
              | Some (Inl f) \<Rightarrow> Some (Inl f)
              | Some (Inr s1) \<Rightarrow> Some (Inr (pr_tcnt (ws_pre s1), s1\<lparr>ws_pre := (ws_pre s1)\<lparr>pr_locked := False\<rparr>\<rparr>)))
         | _ \<Rightarrow> Some (Inl Crash))"

definition PRELIST_add_tail_vdo :: "pre_env \<Rightarrow> video_rec_param \<Rightarrow> writer \<Rightarrow> (int \<times> writer) outcome" where
  "PRELIST_add_tail_vdo pv vp s =
    (if pr_locked (ws_pre s) then Some (Inl Blocked)
     else let s1 = s\<lparr>ws_pre := (ws_pre s)\<lparr>pr_locked := True\<rparr>\<rparr> in
       case pv_node pv (pr_heap (ws_pre s)) of
         None \<Rightarrow> Some (Inr (0, s1\<lparr>ws_pre := (ws_pre s1)\<lparr>pr_locked := False\<rparr>\<rparr>))
       | Some q \<Rightarrow>
           if \<not> pv_buff pv then Some (Inr (0, s1\<lparr>ws_pre := (ws_pre s1)\<lparr>pr_locked := False\<rparr>\<rparr>))
           else add_ent (pv_bkt pv) q (video_ent (pv_junk pv) vp) s1)"

text \<open>The error exits of the audio do not unlock, and the second leaves the entry allocated.\<close>

definition PRELIST_add_tail_ado :: "pre_env \<Rightarrow> audio_rec_param \<Rightarrow> writer \<Rightarrow> (int \<times> writer) outcome" where
  "PRELIST_add_tail_ado pv ap s =
    (if pr_locked (ws_pre s) then Some (Inl Blocked)
     else let s1 = s\<lparr>ws_pre := (ws_pre s)\<lparr>pr_locked := True\<rparr>\<rparr> in
       case pv_node pv (pr_heap (ws_pre s)) of
         None \<Rightarrow> Some (Inr (0, s1))
       | Some q \<Rightarrow>
           if \<not> pv_buff pv
           then Some (Inr (0, s1\<lparr>ws_pre := (ws_pre s1)\<lparr>pr_heap := (pr_heap (ws_pre s1))(q \<mapsto> pv_junk pv)\<rparr>\<rparr>))
           else add_ent (pv_bkt pv) q (audio_ent (pv_junk pv) ap) s1)"

section \<open>Emptying the list\<close>

definition empty_list :: prelist where
  "empty_list = \<lparr>pr_heap = Map.empty, pr_head = None, pr_tail = None, pr_vcnt = 0, pr_acnt = 0, pr_tcnt = 0, pr_diff_msec = 0,
     pr_max_premsec = 0, pr_locked = False\<rparr>"

definition PRELIST_create :: "bool \<Rightarrow> int \<Rightarrow> prelist option" where
  "PRELIST_create alloc max_msec = (if alloc then Some empty_list else None)"

partial_function (option) free_loop :: "nat option \<Rightarrow> prelist \<Rightarrow> prelist outcome" where
  "free_loop p l = (case p of None \<Rightarrow> Some (Inr l)
     | Some a \<Rightarrow> (case pr_heap l a of None \<Rightarrow> Some (Inl Crash) | Some e \<Rightarrow> free_loop (pe_next e) (PRELIST_free_ent a l)))"

definition PRELIST_delete_all_items :: "prelist \<Rightarrow> prelist outcome" where
  "PRELIST_delete_all_items l =
    (if pr_locked l then Some (Inl Blocked)
     else case free_loop (pr_head l) l of
       None \<Rightarrow> None
     | Some (Inl f) \<Rightarrow> Some (Inl f)
     | Some (Inr l1) \<Rightarrow> Some (Inr (l1\<lparr>pr_head := None, pr_tail := None, pr_vcnt := 0, pr_acnt := 0, pr_tcnt := 0, pr_diff_msec := 0\<rparr>)))"

definition PRELIST_deinit_instance :: "prelist \<Rightarrow> prelist outcome" where
  "PRELIST_deinit_instance l = PRELIST_delete_all_items l"

definition cleared_list :: "prelist \<Rightarrow> prelist" where
  "cleared_list l = \<lparr>pr_heap = pr_heap l, pr_head = None, pr_tail = None, pr_vcnt = 0, pr_acnt = 0, pr_tcnt = 0, pr_diff_msec = 0,
     pr_max_premsec = 0, pr_locked = False\<rparr>"

definition PRELIST_init_instance :: "int \<Rightarrow> prelist \<Rightarrow> prelist outcome" where
  "PRELIST_init_instance max_msec l =
    (case (if pr_diff_msec l \<noteq> 0 then PRELIST_deinit_instance l else Some (Inr l)) of
       None \<Rightarrow> None
     | Some (Inl f) \<Rightarrow> Some (Inl f)
     | Some (Inr l1) \<Rightarrow> Some (Inr (if max_msec = 0 then cleared_list l1 else (cleared_list l1)\<lparr>pr_max_premsec := max_msec\<rparr>)))"

text \<open>A list from \<open>PRELIST_create\<close> is removed with its entries; the rest of the memory stays.\<close>

definition PRELIST_remove :: "prelist option \<Rightarrow> (nat \<rightharpoonup> prelist_ent) outcome" where
  "PRELIST_remove plist = (case plist of None \<Rightarrow> Some (Inr Map.empty)
     | Some l \<Rightarrow> if pr_locked l then Some (Inl Blocked)
         else (case free_loop (pr_head l) l of None \<Rightarrow> None | Some (Inl f) \<Rightarrow> Some (Inl f) | Some (Inr l1) \<Rightarrow> Some (Inr (pr_heap l1))))"

definition PRELIST_write_frame :: "bkt_env \<Rightarrow> prelist_ent \<Rightarrow> rec_world \<Rightarrow> rec_world option" where
  "PRELIST_write_frame ev e w =
    map_option snd (if pe_type e = VIDEO then BKTREC_WriteVideoStream ev (pe_vp e) w else BKTREC_WriteAudioStream ev (pe_ap e) w)"

text \<open>\<open>bFirstIFrame\<close> is indexed by the channel of the video part, also for an audio entry.\<close>

partial_function (option) flush_loop :: "(nat \<Rightarrow> bkt_env) \<Rightarrow> nat \<Rightarrow> bool list \<Rightarrow> nat option \<Rightarrow> writer \<Rightarrow> writer outcome" where
  "flush_loop evs n first p s = (case p of None \<Rightarrow> Some (Inr s)
     | Some a \<Rightarrow> (case pr_heap (ws_pre s) a of None \<Rightarrow> Some (Inl Crash)
       | Some e \<Rightarrow>
           let ch = vp_ch (pe_vp e) in
           if ch < 0 \<or> length first \<le> nat ch then Some (Inl Crash)
           else
             let first1 = (if pe_type e = VIDEO \<and> vp_frametype (pe_vp e) = FT_IFRAME then first[nat ch := True] else first) in
             case (if first1 ! nat ch then PRELIST_write_frame (evs n) e (ws_rec s) else Some (ws_rec s)) of
               None \<Rightarrow> Some (Inl Crash)
             | Some w \<Rightarrow> flush_loop evs (Suc n) first1 (pe_next e) (s\<lparr>ws_rec := w, ws_pre := PRELIST_free_ent a (ws_pre s)\<rparr>)))"

definition PRELIST_flush :: "(nat \<Rightarrow> bkt_env) \<Rightarrow> writer \<Rightarrow> (int \<times> writer) outcome" where
  "PRELIST_flush evs s =
    (if pr_tcnt (ws_pre s) = 0 then Some (Inr (BKT_ERR, s))
     else if pr_locked (ws_pre s) then Some (Inl Blocked)
     else case flush_loop evs 0 (replicate BKT_MAX_CHANNEL False) (pr_head (ws_pre s)) s of
       None \<Rightarrow> None
     | Some (Inl f) \<Rightarrow> Some (Inl f)
     | Some (Inr s1) \<Rightarrow> Some (Inr (BKT_OK, s1\<lparr>ws_pre := (ws_pre s1)\<lparr>pr_head := None, pr_tail := None, pr_vcnt := 0, pr_acnt := 0, pr_tcnt := 0,
         pr_diff_msec := 0\<rparr>\<rparr>)))"

section \<open>The other operations\<close>

text \<open>The readers take a pointer that may be NULL; the others work on the list of the program.\<close>

definition PRELIST_get_presec :: "prelist option \<Rightarrow> int" where
  "PRELIST_get_presec plist = (case plist of None \<Rightarrow> 0 | Some l \<Rightarrow> pr_diff_msec l)"

definition PRELIST_get_vcnt :: "prelist option \<Rightarrow> int" where
  "PRELIST_get_vcnt plist = (case plist of None \<Rightarrow> 0 | Some l \<Rightarrow> pr_vcnt l)"

definition PRELIST_get_acnt :: "prelist option \<Rightarrow> int" where
  "PRELIST_get_acnt plist = (case plist of None \<Rightarrow> 0 | Some l \<Rightarrow> pr_acnt l)"

definition PRELIST_get_tcnt :: "prelist option \<Rightarrow> int" where
  "PRELIST_get_tcnt plist = (case plist of None \<Rightarrow> 0 | Some l \<Rightarrow> pr_tcnt l)"


definition PRELIST_set_max_duration :: "int \<Rightarrow> prelist \<Rightarrow> prelist" where
  "PRELIST_set_max_duration msec l = l\<lparr>pr_max_premsec := msec\<rparr>"

definition PRELIST_get_header :: "prelist \<Rightarrow> fate + prelist_ent option \<times> prelist" where
  "PRELIST_get_header l =
    (if pr_locked l then Inl Blocked
     else case pr_head l of None \<Rightarrow> Inr (None, l)
     | Some p \<Rightarrow> (case pr_heap l p of None \<Rightarrow> Inl Crash
         | Some e \<Rightarrow> (case PRELIST_delete_head l of Inl f \<Rightarrow> Inl f | Inr l' \<Rightarrow> Inr (Some e, l'))))"

definition PRELIST_check_enable :: "(nat \<Rightarrow> bkt_env) \<Rightarrow> int \<Rightarrow> writer \<Rightarrow> writer outcome" where
  "PRELIST_check_enable evs presec s =
    (if presec = 0 \<and> \<not> list_ex (\<lambda>i. wc_presec i > 0) (wr_chInfo (ws_ctrl s))
     then (case PRELIST_flush evs (s\<lparr>ws_ctrl := (ws_ctrl s)\<lparr>wr_bPreEnabled := False\<rparr>\<rparr>) of
             None \<Rightarrow> None | Some (Inl f) \<Rightarrow> Some (Inl f) | Some (Inr (st, s1)) \<Rightarrow> Some (Inr s1))
     else Some (Inr (s\<lparr>ws_ctrl := (ws_ctrl s)\<lparr>wr_bPreEnabled := True\<rparr>\<rparr>)))"

end
