(* ===== verification/Prerec_List.thy ===== *)
theory Prerec_List
  imports Prerec Basket_Log
begin

text \<open>The linked list of src/prerec.c as a list of frames: adding a frame appends it and hands
  the frames that are too old to the recorder, in order; the counts are those of the list.\<close>

section \<open>The chain of entries\<close>

fun chain :: "(nat \<rightharpoonup> prelist_ent) \<Rightarrow> nat option \<Rightarrow> nat list \<Rightarrow> bool" where
  "chain h p [] \<longleftrightarrow> p = None"
| "chain h p (a # as) \<longleftrightarrow> p = Some a \<and> (\<exists>e. h a = Some e \<and> chain h (pe_next e) as)"

lemma chain_upd: "a \<notin> set as \<Longrightarrow> chain (h(a := x)) p as = chain h p as"
  by (induction as arbitrary: p) auto

lemma chain_dom: "chain h p as \<Longrightarrow> a \<in> set as \<Longrightarrow> \<exists>e. h a = Some e"
  by (induction as arbitrary: p) auto

lemma chain_last: "chain h p as \<Longrightarrow> as \<noteq> [] \<Longrightarrow> \<exists>e. h (last as) = Some e \<and> pe_next e = None"
  by (induction as arbitrary: p) (auto split: if_splits)

lemma chain_snoc:
  assumes "chain h p as" "as \<noteq> []" "distinct as" "q \<notin> set as" "h (last as) = Some t" "h q = Some e" "pe_next e = None"
  shows "chain (h(last as \<mapsto> t\<lparr>pe_next := Some q\<rparr>)) p (as @ [q])"
  using assms
proof (induction as arbitrary: p)
  case (Cons a as)
  show ?case
  proof (cases "as = []")
    case False
    then have "last as \<noteq> a" using Cons.prems(3) by auto
    then show ?thesis using Cons False by auto
  qed (use Cons.prems in auto)
qed simp

text \<open>What an entry holds: its channel, time and frame.\<close>

type_synonym pre_item = "int \<times> int \<times> media"

definition view :: "prelist_ent \<Rightarrow> pre_item" where
  "view e = (pe_ch e, pe_msec e, if pe_type e = VIDEO then Video (pe_vp e) else Audio (pe_ap e))"

definition views :: "(nat \<rightharpoonup> prelist_ent) \<Rightarrow> nat list \<Rightarrow> pre_item list" where
  "views h as = map (\<lambda>a. view (the (h a))) as"

lemma views_simps [simp]: "views h [] = []" "views h (a # as) = view (the (h a)) # views h as"
  "views h (as @ bs) = views h as @ views h bs" "length (views h as) = length as" "views h as = [] \<longleftrightarrow> as = []"
  by (auto simp: views_def)

lemma views_upd: "a \<notin> set as \<Longrightarrow> views (h(a := x)) as = views h as"
  by (auto simp: views_def)

lemma views_last: "as \<noteq> [] \<Longrightarrow> last (views h as) = view (the (h (last as)))"
  by (simp add: views_def last_map)

lemma views_hd: "as \<noteq> [] \<Longrightarrow> hd (views h as) = view (the (h (hd as)))"
  by (cases as) simp_all

lemma view_next [simp]: "view (e\<lparr>pe_next := x\<rparr>) = view e"
  by (simp add: view_def)

fun is_video :: "media \<Rightarrow> bool" where
  "is_video (Video vp) = True"
| "is_video (Audio ap) = False"

definition item_msec :: "pre_item \<Rightarrow> int" where "item_msec x = fst (snd x)"

lemma view_simps [simp]: "item_msec (view e) = pe_msec e" "fst (view e) = pe_ch e" "is_video (snd (snd (view e))) \<longleftrightarrow> pe_type e = VIDEO"
  by (simp_all add: view_def item_msec_def)

text \<open>A list whose entries are at the addresses \<open>as\<close>, with its counts.\<close>

definition listed :: "prelist \<Rightarrow> nat list \<Rightarrow> bool" where
  "listed l as \<longleftrightarrow> chain (pr_heap l) (pr_head l) as \<and> distinct as \<and> pr_tail l = (if as = [] then None else Some (last as))
     \<and> pr_tcnt l = int (length as) \<and> pr_vcnt l = int (length (filter (is_video \<circ> snd \<circ> snd) (views (pr_heap l) as)))
     \<and> pr_acnt l = int (length (filter (Not \<circ> is_video \<circ> snd \<circ> snd) (views (pr_heap l) as)))"

lemma listed_simps [simp]: "listed (l\<lparr>pr_diff_msec := x\<rparr>) as = listed l as" "listed (l\<lparr>pr_locked := b\<rparr>) as = listed l as"
  by (simp_all add: listed_def)

definition span :: "pre_item list \<Rightarrow> int" where
  "span xs = (if xs = [] then 0 else gap (item_msec (last xs)) (item_msec (hd xs)))"

text \<open>A list that holds the frames \<open>xs\<close>.\<close>

definition holds :: "prelist \<Rightarrow> pre_item list \<Rightarrow> bool" where
  "holds l xs \<longleftrightarrow> 0 \<le> pr_max_premsec l \<and> pr_diff_msec l = span xs \<and> (\<exists>as. listed l as \<and> xs = views (pr_heap l) as)"

lemma gap_self [simp]: "gap x x = 0"
  by (simp add: gap_def off32_def)

lemma listed_ends:
  assumes "listed l as" "as \<noteq> []"
  obtains h t where "pr_head l = Some (hd as)" "pr_heap l (hd as) = Some h" "pr_tail l = Some (last as)" "pr_heap l (last as) = Some t"
    "pe_next t = None" "pe_msec t = item_msec (last (views (pr_heap l) as))"
proof -
  obtain a bs where as: "as = a # bs" using assms(2) by (cases as) auto
  obtain h where h: "pr_heap l a = Some h" using assms(1) unfolding as listed_def by auto
  obtain t where t: "pr_heap l (last as) = Some t" "pe_next t = None" using assms chain_last [of "pr_heap l" "pr_head l" as] by (auto simp: listed_def)
  show thesis
    by (rule that [of h t]) (use assms as h t in \<open>auto simp: listed_def views_last\<close>)
qed

section \<open>Deleting the head\<close>

lemma delete_head_ok:
  assumes l: "listed l (a # as)" and ne: "as \<noteq> []"
  obtains l' where "PRELIST_delete_head l = Inr l'" "listed l' as" "views (pr_heap l') as = views (pr_heap l) as"
    "pr_max_premsec l' = pr_max_premsec l" "pr_locked l' = pr_locked l" "pr_diff_msec l' = span (views (pr_heap l) as)"
proof -
  obtain e where e: "pr_head l = Some a" "pr_heap l a = Some e" "chain (pr_heap l) (pe_next e) as" using l by (auto simp: listed_def)
  have a: "a \<notin> set as" "distinct as" using l by (auto simp: listed_def)
  define l3 where "l3 = (if pe_type e = VIDEO then l\<lparr>pr_heap := (pr_heap l)(a := None), pr_head := pe_next e, pr_vcnt := pr_vcnt l - 1, pr_tcnt := pr_tcnt l - 1\<rparr>
    else l\<lparr>pr_heap := (pr_heap l)(a := None), pr_head := pe_next e, pr_acnt := pr_acnt l - 1, pr_tcnt := pr_tcnt l - 1\<rparr>)"
  have v: "views ((pr_heap l)(a := None)) as = views (pr_heap l) as" by (rule views_upd [OF a(1)])
  have 3: "listed l3 as"
    using l e ne a v chain_upd [OF a(1), of "pr_heap l" None "pe_next e"] by (auto simp: listed_def l3_def)
  obtain h t where ht: "pr_head l3 = Some (hd as)" "pr_heap l3 (hd as) = Some h" "pr_tail l3 = Some (last as)" "pr_heap l3 (last as) = Some t"
    by (rule listed_ends [OF 3 ne])
  have heap: "pr_heap l3 = (pr_heap l)(a := None)" by (simp add: l3_def)
  have "gap (pe_msec t) (pe_msec h) = span (views (pr_heap l3) as)"
    using ht(2,4) ne by (simp add: span_def views_last views_hd)
  then have "gap (pe_msec t) (pe_msec h) = span (views (pr_heap l) as)" unfolding heap v .
  moreover have "PRELIST_delete_head l = Inr (l3\<lparr>pr_diff_msec := gap (pe_msec t) (pe_msec h)\<rparr>)"
    using e(1,2) ht by (cases "pe_type e = VIDEO") (simp_all add: PRELIST_delete_head_def PRELIST_free_ent_def Let_def deref_def l3_def)
  moreover have "listed (l3\<lparr>pr_diff_msec := x\<rparr>) as" for x using 3 by (simp add: listed_def)
  ultimately show thesis by (intro that [of "l3\<lparr>pr_diff_msec := gap (pe_msec t) (pe_msec h)\<rparr>"]) (use v in \<open>simp_all add: l3_def\<close>)
qed

section \<open>The frames that leave the list\<close>

text \<open>The step of the state machine on a frame.\<close>

fun is_key :: "media \<Rightarrow> bool" where
  "is_key (Video vp) \<longleftrightarrow> vp_frametype vp = FT_IFRAME"
| "is_key (Audio ap) = False"

definition chan_state :: "wr_chinfo \<Rightarrow> media \<Rightarrow> save_state" where
  "chan_state i m = (let st = enter_state (wc_enableChSave i) (wc_fileSaveState i) in
     if st = SAVE_STATE_OPEN \<and> is_key m then SAVE_STATE_WRITE else st)"

definition item_step :: "bkt_env \<Rightarrow> pre_item \<Rightarrow> rec_world \<times> wr_ctrl \<Rightarrow> fate + rec_world \<times> wr_ctrl" where
  "item_step ev = (\<lambda>(ch, t, m) (w, c).
    if \<not> has_ch ch c then Inl Crash
    else let st = chan_state (wr_chInfo c ! nat ch) m in
      if st = SAVE_STATE_WRITE then
        (case write_media ev m w of
           None \<Rightarrow> Inl Crash
         | Some (status, w1) \<Rightarrow> Inr (w1, save_state_end ch (note_status ch status (st,
             if is_video m then upd_ch ch (wc_firstKeyframe_update (\<lambda>_. True)) c else c))))
      else Inr (w, save_state_end ch (st, c)))"

lemma head_step_view: "head_step ev e wc = item_step ev (view e) wc"
  by (cases wc) (auto simp: head_step_def item_step_def view_def chan_state_def Let_def split: option.splits)

fun drain :: "(nat \<Rightarrow> bkt_env) \<Rightarrow> nat \<Rightarrow> pre_item list \<Rightarrow> rec_world \<times> wr_ctrl \<Rightarrow> fate + rec_world \<times> wr_ctrl" where
  "drain evs n [] wc = Inr wc"
| "drain evs n (x # xs) wc = (case item_step (evs n) x wc of Inl f \<Rightarrow> Inl f | Inr wc' \<Rightarrow> drain evs (Suc n) xs wc')"

text \<open>The frames at the head that are more than the allowed time older than the last one.\<close>

definition expired :: "int \<Rightarrow> pre_item list \<Rightarrow> pre_item list" where
  "expired lim xs = takeWhile (\<lambda>x. gap (item_msec (last xs)) (item_msec x) > lim) xs"

definition remaining :: "int \<Rightarrow> pre_item list \<Rightarrow> pre_item list" where
  "remaining lim xs = dropWhile (\<lambda>x. gap (item_msec (last xs)) (item_msec x) > lim) xs"

lemma expired_remaining: "expired lim xs @ remaining lim xs = xs"
  by (simp add: expired_def remaining_def)

lemma remaining_nonempty: "xs \<noteq> [] \<Longrightarrow> 0 \<le> lim \<Longrightarrow> remaining lim xs \<noteq> []"
  unfolding remaining_def dropWhile_eq_Nil_conv by (metis gap_self last_in_set not_less)

lemma span_remaining: "xs \<noteq> [] \<Longrightarrow> 0 \<le> lim \<Longrightarrow> span (remaining lim xs) \<le> lim"
proof -
  assume a: "xs \<noteq> []" "0 \<le> lim"
  then have ne: "remaining lim xs \<noteq> []" by (rule remaining_nonempty)
  have "last (remaining lim xs) = last xs" using ne expired_remaining [of lim xs] by (metis last_appendR)
  moreover have "\<not> gap (item_msec (last xs)) (item_msec (hd (remaining lim xs))) > lim"
    using ne unfolding remaining_def by (rule hd_dropWhile)
  ultimately show ?thesis using ne by (simp add: span_def)
qed

lemma expired_Cons:
  "xs \<noteq> [] \<Longrightarrow> expired lim (x # xs) = (if gap (item_msec (last xs)) (item_msec x) > lim then x # expired lim xs else [])"
  "xs \<noteq> [] \<Longrightarrow> remaining lim (x # xs) = (if gap (item_msec (last xs)) (item_msec x) > lim then remaining lim xs else x # xs)"
  by (simp_all add: expired_def remaining_def)

lemma expired_single: "0 \<le> lim \<Longrightarrow> expired lim [x] = []" "0 \<le> lim \<Longrightarrow> remaining lim [x] = [x]"
  by (simp_all add: expired_def remaining_def)

text \<open>The loop hands over the expired frames and keeps the others.\<close>

definition drained :: "(nat \<Rightarrow> bkt_env) \<Rightarrow> nat \<Rightarrow> pre_item list \<Rightarrow> pre_item list \<Rightarrow> writer \<Rightarrow> fate + writer \<Rightarrow> bool" where
  "drained evs n es xs s r \<longleftrightarrow> (case drain evs n es (ws_rec s, ws_ctrl s) of
     Inl f \<Rightarrow> r = Inl f
   | Inr (w, c) \<Rightarrow> \<exists>l as. r = Inr \<lparr>ws_rec = w, ws_ctrl = c, ws_pre = l\<rparr> \<and> listed l as \<and> views (pr_heap l) as = xs
       \<and> pr_diff_msec l = span xs \<and> pr_max_premsec l = pr_max_premsec (ws_pre s) \<and> pr_locked l = pr_locked (ws_pre s))"

lemma check_loop_ok:
  assumes "listed (ws_pre s) as" "as \<noteq> []" "0 \<le> pr_max_premsec (ws_pre s)" "xs = views (pr_heap (ws_pre s)) as" "pr_diff_msec (ws_pre s) = span xs"
  shows "\<exists>r. check_loop evs n s = Some r
    \<and> drained evs n (expired (pr_max_premsec (ws_pre s)) xs) (remaining (pr_max_premsec (ws_pre s)) xs) s r"
  using assms
proof (induction as arbitrary: n s xs)
  case (Cons a as)
  let ?l = "ws_pre s"
  obtain h t where e: "pr_head ?l = Some a" "pr_heap ?l a = Some h" "pr_tail ?l = Some (last (a # as))" "pr_heap ?l (last (a # as)) = Some t"
    "pe_msec t = item_msec (last xs)"
    using listed_ends [OF Cons.prems(1,2)] unfolding Cons.prems(4) by (metis list.sel(1))
  have d: "deref ?l (pr_tail ?l) = Some t" "deref ?l (pr_head ?l) = Some h" using e by (simp_all add: deref_def)
  have x: "xs = view h # views (pr_heap ?l) as" using Cons.prems(4) e(2) by simp
  have stop: ?case if "\<not> gap (pe_msec t) (pe_msec h) > pr_max_premsec ?l"
  proof -
    have s: "s = \<lparr>ws_rec = ws_rec s, ws_ctrl = ws_ctrl s, ws_pre = ws_pre s\<rparr>" by simp
    have "check_loop evs n s = Some (Inr s)" using d e(1,3) that by (subst check_loop.simps) (simp add: Let_def)
    moreover have "expired (pr_max_premsec ?l) xs = []" "remaining (pr_max_premsec ?l) xs = xs"
      using that e(5) x by (simp_all add: expired_def remaining_def)
    moreover have "drained evs n [] xs s (Inr s)" unfolding drained_def drain.simps sum.case prod.case
      by (rule exI [of _ ?l], rule exI [of _ "a # as"], intro conjI) (use s Cons.prems(1,4,5) in simp_all)
    ultimately show ?case by simp
  qed
  show ?case
  proof (cases "as = []")
    case True
    then show ?thesis using stop e Cons.prems(3) by simp
  next
    case False
    show ?thesis
    proof (cases "gap (pe_msec t) (pe_msec h) > pr_max_premsec ?l")
      case old: True
      obtain l' where l': "PRELIST_delete_head ?l = Inr l'" "listed l' as" "views (pr_heap l') as = views (pr_heap ?l) as"
        "pr_max_premsec l' = pr_max_premsec ?l" "pr_locked l' = pr_locked ?l" "pr_diff_msec l' = span (views (pr_heap ?l) as)"
        by (rule delete_head_ok [OF Cons.prems(1) False])
      have ne: "views (pr_heap ?l) as \<noteq> []" using False by simp
      have lst: "last xs = last (views (pr_heap ?l) as)" using ne x by simp
      have ex: "expired (pr_max_premsec ?l) xs = view h # expired (pr_max_premsec ?l) (views (pr_heap ?l) as)"
        "remaining (pr_max_premsec ?l) xs = remaining (pr_max_premsec ?l) (views (pr_heap ?l) as)"
        using expired_Cons [OF ne, of "pr_max_premsec ?l" "view h"] old e(5) lst x by simp_all
      show ?thesis
      proof (cases "item_step (evs n) (view h) (ws_rec s, ws_ctrl s)")
        case (Inl f)
        then have "check_loop evs n s = Some (Inl f)" using d e(1,3) old by (subst check_loop.simps) (simp add: Let_def head_step_view)
        then show ?thesis using Inl ex by (simp add: drained_def)
      next
        case (Inr wc)
        obtain w c where wc: "wc = (w, c)" by (cases wc)
        let ?s = "\<lparr>ws_rec = w, ws_ctrl = c, ws_pre = l'\<rparr>"
        have "check_loop evs n s = check_loop evs (Suc n) ?s"
          using d e(1,3) old Inr l'(1) by (subst check_loop.simps) (simp add: Let_def head_step_view wc)
        moreover obtain r where r: "check_loop evs (Suc n) ?s = Some r" "drained evs (Suc n) (expired (pr_max_premsec ?l) (views (pr_heap ?l) as))
            (remaining (pr_max_premsec ?l) (views (pr_heap ?l) as)) ?s r"
          using Cons.IH [of ?s "views (pr_heap ?l) as" "Suc n"] l' False Cons.prems(3) by auto
        moreover have "drained evs n (expired (pr_max_premsec ?l) xs) (remaining (pr_max_premsec ?l) xs) s r"
          using r(2) unfolding drained_def ex drain.simps Inr wc sum.case writer.simps l'(4,5) .
        ultimately show ?thesis by simp
      qed
    qed (rule stop)
  qed
qed simp

section \<open>Adding a frame\<close>

text \<open>A frame as the list keeps it.\<close>

definition copied :: "prelist_ent \<Rightarrow> media \<Rightarrow> prelist_ent" where
  "copied raw m = (case m of Video vp \<Rightarrow> video_ent raw vp | Audio ap \<Rightarrow> audio_ent raw ap)"

definition push_media :: "pre_env \<Rightarrow> media \<Rightarrow> writer \<Rightarrow> (int \<times> writer) outcome" where
  "push_media pv m s = (case m of Video vp \<Rightarrow> PRELIST_add_tail_vdo pv vp s | Audio ap \<Rightarrow> PRELIST_add_tail_ado pv ap s)"

lemma link_tail_ok:
  assumes l: "listed l as" and q: "pr_heap l q = None" and e: "pe_next e = None" "pe_type e = VIDEO \<longleftrightarrow> vid"
  obtains l1 where "link_tail q (l\<lparr>pr_heap := (pr_heap l)(q \<mapsto> e)\<rparr>) = Some (Inr l1)"
    "listed (if vid then l1\<lparr>pr_vcnt := pr_vcnt l1 + 1, pr_tcnt := pr_tcnt l1 + 1\<rparr> else l1\<lparr>pr_acnt := pr_acnt l1 + 1, pr_tcnt := pr_tcnt l1 + 1\<rparr>) (as @ [q])"
    "views (pr_heap l1) (as @ [q]) = views (pr_heap l) as @ [view e]" "pr_max_premsec l1 = pr_max_premsec l" "pr_locked l1 = pr_locked l"
proof -
  let ?l = "l\<lparr>pr_heap := (pr_heap l)(q \<mapsto> e)\<rparr>"
  have c: "chain (pr_heap l) (pr_head l) as" "distinct as" using l by (simp_all add: listed_def)
  have nq: "q \<notin> set as" using chain_dom [OF c(1), of q] q by auto
  show thesis
  proof (cases "as = []")
    case True
    show thesis
      by (rule that [of "?l\<lparr>pr_head := Some q, pr_tail := Some q\<rparr>"])
         (use l e True in \<open>auto simp: link_tail_def listed_def view_def\<close>)
  next
    case False
    obtain t where t: "pr_tail l = Some (last as)" "pr_heap l (last as) = Some t" "pe_next t = None"
      using listed_ends [OF l False] by metis
    have ql: "last as \<noteq> q" using nq False by auto
    let ?h = "(pr_heap l)(q \<mapsto> e, last as \<mapsto> t\<lparr>pe_next := Some q\<rparr>)"
    let ?l1 = "?l\<lparr>pr_heap := ?h, pr_tail := Some q\<rparr>"
    have run: "link_tail q ?l = Some (Inr ?l1)" using t ql by (simp add: link_tail_def set_next_def)
    have ch: "chain ?h (pr_head l) (as @ [q])"
      by (rule chain_snoc [OF _ False c(2) nq, where e = e]) (use c(1) t ql e(1) chain_upd [OF nq] in simp_all)
    have v: "views ?h as = views (pr_heap l) as"
      using t(2) nq by (auto simp: views_def)
    have v': "views ?h (as @ [q]) = views (pr_heap l) as @ [view e]" using v ql by simp
    show thesis
      by (rule that [OF run]) (use l ch c(2) nq v v' e(2) ql in \<open>auto simp: listed_def\<close>)
  qed
qed

lemma push_media_ok:
  assumes l: "holds (ws_pre s) xs" and nl: "\<not> pr_locked (ws_pre s)" and q: "pv_node pv (pr_heap (ws_pre s)) = Some q" "pr_heap (ws_pre s) q = None" "pv_buff pv"
    and ys_def: "ys = xs @ [view (copied (pv_junk pv) m)]" and lim_def: "lim = pr_max_premsec (ws_pre s)"
  shows "\<exists>r. push_media pv m s = Some r \<and> (case drain (pv_bkt pv) 0 (expired lim ys) (ws_rec s, ws_ctrl s) of
     Inl f \<Rightarrow> r = Inl f
   | Inr (w, c) \<Rightarrow> \<exists>l. r = Inr (int (length (remaining lim ys)), \<lparr>ws_rec = w, ws_ctrl = c, ws_pre = l\<rparr>) \<and> holds l (remaining lim ys)
       \<and> pr_max_premsec l = lim \<and> \<not> pr_locked l)"
proof -
  let ?e = "copied (pv_junk pv) m"
  obtain as where as: "listed (ws_pre s) as" "xs = views (pr_heap (ws_pre s)) as" and mx: "0 \<le> lim"
    using l by (auto simp: holds_def lim_def)
  let ?s1 = "s\<lparr>ws_pre := (ws_pre s)\<lparr>pr_locked := True\<rparr>\<rparr>"
  have run: "push_media pv m s = add_ent (pv_bkt pv) q ?e ?s1"
    using nl q by (cases m) (simp_all add: push_media_def PRELIST_add_tail_vdo_def PRELIST_add_tail_ado_def copied_def Let_def)
  have e: "pe_next ?e = None" by (cases m) (simp_all add: copied_def video_ent_def audio_ent_def)
  have as1: "listed (ws_pre ?s1) as" using as(1) by (simp add: listed_def)
  have q1: "pr_heap (ws_pre ?s1) q = None" using q(2) by simp
  obtain l1 where l1: "link_tail q ((ws_pre ?s1)\<lparr>pr_heap := (pr_heap (ws_pre ?s1))(q \<mapsto> ?e)\<rparr>) = Some (Inr l1)"
    and l1': "listed (if pe_type ?e = VIDEO then l1\<lparr>pr_vcnt := pr_vcnt l1 + 1, pr_tcnt := pr_tcnt l1 + 1\<rparr>
      else l1\<lparr>pr_acnt := pr_acnt l1 + 1, pr_tcnt := pr_tcnt l1 + 1\<rparr>) (as @ [q])" (is "listed ?l2 _")
    and v: "views (pr_heap l1) (as @ [q]) = ys" and k: "pr_max_premsec l1 = lim" "pr_locked l1"
    using link_tail_ok [OF as1 q1 e refl] unfolding ys_def lim_def as(2) by auto
  have l2: "pr_heap ?l2 = pr_heap l1" "pr_max_premsec ?l2 = lim" "pr_locked ?l2" using k by simp_all
  obtain h t where ht: "pr_head ?l2 = Some (hd (as @ [q]))" "pr_heap ?l2 (hd (as @ [q])) = Some h" "pr_tail ?l2 = Some (last (as @ [q]))"
    "pr_heap ?l2 (last (as @ [q])) = Some t"
    by (rule listed_ends [OF l1']) auto
  have sp: "gap (pe_msec t) (pe_msec h) = span ys"
    using ht(2,4) unfolding v [symmetric] l2(1) span_def by (simp add: views_last views_hd del: views_simps(3))
  define s2 where "s2 = ?s1\<lparr>ws_pre := ?l2\<lparr>pr_diff_msec := gap (pe_msec t) (pe_msec h)\<rparr>\<rparr>"
  have d: "deref ?l2 (pr_tail ?l2) = Some t" "deref ?l2 (pr_head ?l2) = Some h" using ht by (simp_all add: deref_def)
  have s2: "listed (ws_pre s2) (as @ [q])" "pr_max_premsec (ws_pre s2) = lim" "views (pr_heap (ws_pre s2)) (as @ [q]) = ys"
    "pr_diff_msec (ws_pre s2) = span ys" "pr_locked (ws_pre s2)" "ws_rec s2 = ws_rec s" "ws_ctrl s2 = ws_ctrl s"
    using l1' l2 v sp by (simp_all add: s2_def del: views_simps(3))
  have ct: "PRELIST_check_time (pv_bkt pv) s2 = check_loop (pv_bkt pv) 0 s2"
    using d by (simp add: PRELIST_check_time_def s2_def deref_def)
  obtain r where r: "check_loop (pv_bkt pv) 0 s2 = Some r" "drained (pv_bkt pv) 0 (expired lim ys) (remaining lim ys) s2 r"
    using check_loop_ok [OF s2(1) _ _ s2(3) [symmetric] s2(4), of "pv_bkt pv" 0] s2(2) mx by auto
  have add: "add_ent (pv_bkt pv) q ?e ?s1 = (case r of Inl f \<Rightarrow> Some (Inl f)
      | Inr s1 \<Rightarrow> Some (Inr (pr_tcnt (ws_pre s1), s1\<lparr>ws_pre := (ws_pre s1)\<lparr>pr_locked := False\<rparr>\<rparr>)))"
    unfolding add_ent_def Let_def l1 option.case sum.case d prod.case
    using r(1) ct by (simp add: s2_def split: sum.splits)
  show ?thesis
  proof (cases "drain (pv_bkt pv) 0 (expired lim ys) (ws_rec s, ws_ctrl s)")
    case (Inl f)
    then show ?thesis using r(2) add run by (simp add: drained_def s2)
  next
    case (Inr wc)
    obtain w c where wc: "wc = (w, c)" by (cases wc)
    obtain l as' where l': "r = Inr \<lparr>ws_rec = w, ws_ctrl = c, ws_pre = l\<rparr>" "listed l as'" "views (pr_heap l) as' = remaining lim ys"
      "pr_diff_msec l = span (remaining lim ys)" "pr_max_premsec l = lim" "pr_locked l"
      using r(2) Inr by (auto simp: drained_def s2 wc)
    have "pr_tcnt l = int (length (remaining lim ys))" using l'(2) arg_cong [OF l'(3), of length] by (simp add: listed_def)
    moreover have "holds (l\<lparr>pr_locked := False\<rparr>) (remaining lim ys)"
      using l' mx by (auto simp: holds_def listed_def intro!: exI [of _ as'])
    ultimately show ?thesis using run add l'(1,5) Inr by (auto simp: wc)
  qed
qed

end
