(* ===== verification/Prerec_Spec.thy ===== *)
theory Prerec_Spec
  imports Prerec_List Basket_Demo
begin

text \<open>What the pre-recording buffer promises: the frames that have left the list are those that
  were added first, in order, and of these the recorder has got the ones that the channels
  let through, each channel from a key frame on.\<close>

section \<open>The frames that a channel lets through\<close>

definition end_state :: "save_state \<Rightarrow> save_state" where
  "end_state st = (if st = SAVE_STATE_CLOSE then SAVE_STATE_IDLE else st)"

definition next_state :: "bool \<Rightarrow> save_state \<Rightarrow> media \<Rightarrow> save_state" where
  "next_state en st m = (let s = enter_state en st in if s = SAVE_STATE_OPEN \<and> is_key m then SAVE_STATE_WRITE else s)"

fun admit :: "(int \<Rightarrow> bool) \<Rightarrow> (int \<Rightarrow> save_state) \<Rightarrow> pre_item list \<Rightarrow> media list \<times> (int \<Rightarrow> save_state)" where
  "admit en sts [] = ([], sts)"
| "admit en sts ((ch, t, m) # xs) =
    (let st = next_state (en ch) (sts ch) m; r = admit en (sts(ch := end_state st)) xs in
     (if st = SAVE_STATE_WRITE then m # fst r else fst r, snd r))"

lemma admit_append:
  "admit en sts (xs @ ys) = (fst (admit en sts xs) @ fst (admit en (snd (admit en sts xs)) ys), snd (admit en (snd (admit en sts xs)) ys))"
proof (induction xs arbitrary: sts)
  case (Cons x xs)
  obtain ch t m where x: "x = (ch, t, m)" by (cases x)
  show ?case by (simp add: x Let_def Cons del: fun_upd_apply)
qed simp

definition enabled :: "wr_ctrl \<Rightarrow> int \<Rightarrow> bool" where
  "enabled c ch = (has_ch ch c \<and> wc_enableChSave (wr_chInfo c ! nat ch))"

definition states :: "wr_ctrl \<Rightarrow> int \<Rightarrow> save_state" where
  "states c ch = (if has_ch ch c then wc_fileSaveState (wr_chInfo c ! nat ch) else SAVE_STATE_IDLE)"

text \<open>The frame, as the recorder has written it.\<close>

definition records :: "media \<Rightarrow> item \<Rightarrow> bool" where
  "records m i \<longleftrightarrow> (\<exists>ev prev. i = media_item ev m prev)"

lemma upd_ch_simps [simp]: "has_ch ch (upd_ch ch' f c) = has_ch ch c" "wr_msgs (upd_ch ch' f c) = wr_msgs c" "wr_has_pipe (upd_ch ch' f c) = wr_has_pipe c"
  "length (wr_chInfo (upd_ch ch' f c)) = length (wr_chInfo c)" "wr_is_basket_opened (upd_ch ch' f c) = wr_is_basket_opened c"
  by (simp_all add: has_ch_def upd_ch_def)

lemma upd_ch_nth:
  assumes "has_ch ch c" "has_ch ch' c"
  shows "wr_chInfo (upd_ch ch' f c) ! nat ch = (if ch = ch' then f (wr_chInfo c ! nat ch) else wr_chInfo c ! nat ch)"
  using assms by (auto simp: upd_ch_def has_ch_def nth_list_update)

lemma note_status_ok: "note_status ch BKT_OK p = p"
  by (cases p) (simp add: note_status_def BKT_OK_def BKT_ERR_def BKT_FULL_def)

text \<open>After a frame: the state of its channel.\<close>

lemma save_state_end_ok:
  assumes ch: "has_ch ch c" and c1: "c1 = c \<or> c1 = upd_ch ch (wc_firstKeyframe_update (\<lambda>_. True)) c"
  shows "enabled (save_state_end ch (st, c1)) = enabled c" "states (save_state_end ch (st, c1)) = (states c)(ch := end_state st)"
    "has_ch ch' (save_state_end ch (st, c1)) = has_ch ch' c" "wr_msgs (save_state_end ch (st, c1)) = wr_msgs c"
proof -
  let ?c = "save_state_end ch (st, c1)"
  have has: "has_ch ch' ?c = has_ch ch' c" for ch' using c1 by (auto simp: save_state_end_def)
  show "has_ch ch' ?c = has_ch ch' c" by (rule has)
  show "wr_msgs ?c = wr_msgs c" using c1 by (auto simp: save_state_end_def)
  have h1: "has_ch ch' c1 = has_ch ch' c" for ch' using c1 by auto
  have e1: "wc_enableChSave (wr_chInfo c1 ! nat k) = wc_enableChSave (wr_chInfo c ! nat k)" "wc_fileSaveState (wr_chInfo c1 ! nat k) = wc_fileSaveState (wr_chInfo c ! nat k)"
    if "has_ch k c" for k using c1 that ch by (cases "k = ch"; auto simp: upd_ch_nth)+
  have nth: "wc_enableChSave (wr_chInfo ?c ! nat k) = wc_enableChSave (wr_chInfo c ! nat k)"
    "wc_fileSaveState (wr_chInfo ?c ! nat k) = (if k = ch then end_state st else wc_fileSaveState (wr_chInfo c ! nat k))" if "has_ch k c" for k
    using that ch e1 [OF that] by (auto simp: save_state_end_def end_state_def upd_ch_nth h1)
  show "enabled ?c = enabled c" using has nth by (auto simp: enabled_def fun_eq_iff)
  show "states ?c = (states c)(ch := end_state st)" using has nth ch by (auto simp: states_def fun_eq_iff)
qed

lemma item_step_ok:
  assumes ev: "healthy ev" and m: "media_ok m" and rel: "rec_rel w L" and run: "item_step ev (ch, t, m) (w, c) = Inr (w', c')"
  shows "\<exists>L' is. rec_rel w' L' \<and> log_frames L' = log_frames L @ is
    \<and> list_all2 records (if next_state (enabled c ch) (states c ch) m = SAVE_STATE_WRITE then [m] else []) is
    \<and> enabled c' = enabled c \<and> states c' = (states c)(ch := end_state (next_state (enabled c ch) (states c ch) m)) \<and> wr_msgs c' = wr_msgs c"
proof -
  have ch: "has_ch ch c" using run by (auto simp: item_step_def split: if_splits)
  have st: "chan_state (wr_chInfo c ! nat ch) m = next_state (enabled c ch) (states c ch) m"
    using ch by (simp add: chan_state_def next_state_def enabled_def states_def)
  show ?thesis
  proof (cases "next_state (enabled c ch) (states c ch) m = SAVE_STATE_WRITE")
    case True
    let ?c1 = "if is_video m then upd_ch ch (wc_firstKeyframe_update (\<lambda>_. True)) c else c"
    obtain status where w: "write_media ev m w = Some (status, w')" and c': "c' = save_state_end ch (note_status ch status (SAVE_STATE_WRITE, ?c1))"
      using run ch True st by (auto simp: item_step_def Let_def split: option.splits)
    have "rec_legal (ev, m)" using ev m by (simp add: rec_legal_def)
    then obtain L' where L': "rec_spec (ev, m) status L L'" "rec_rel w' L'" using recorder.sim_step [OF _ rel, of "(ev, m)"] w by auto
    then obtain prev where "status = BKT_OK" "log_frames L' = log_frames L @ [media_item ev m prev]" by (auto simp: rec_spec_def)
    moreover have "?c1 = c \<or> ?c1 = upd_ch ch (wc_firstKeyframe_update (\<lambda>_. True)) c" by simp
    note save_state_end_ok [OF ch this, where st = SAVE_STATE_WRITE]
    ultimately show ?thesis using L'(2) c' True
      by (intro exI [of _ L'] exI [of _ "[media_item ev m prev]"]) (auto simp: records_def note_status_ok)
  next
    case False
    then have "w' = w" "c' = save_state_end ch (next_state (enabled c ch) (states c ch) m, c)"
      using run ch st by (auto simp: item_step_def Let_def)
    then show ?thesis using rel False save_state_end_ok [OF ch disjI1 [OF refl]] by (intro exI [of _ L] exI [of _ "[]"]) auto
  qed
qed

fun media_ch :: "media \<Rightarrow> int" where
  "media_ch (Video vp) = vp_ch vp"
| "media_ch (Audio ap) = ap_ch ap"

definition item_fine :: "pre_item \<Rightarrow> bool" where
  "item_fine x \<longleftrightarrow> fst x = media_ch (snd (snd x)) \<and> media_ok (snd (snd x))"

lemma drain_crash: "drain evs n xs wc = Inl f \<Longrightarrow> f = Crash"
  by (induction xs arbitrary: n wc) (auto simp: item_step_def Let_def split: sum.splits if_splits option.splits)

lemma drain_ok:
  assumes "\<And>n. healthy (evs n)"
  shows "list_all item_fine xs \<Longrightarrow> rec_rel w L \<Longrightarrow> drain evs n xs (w, c) = Inr (w', c')
    \<Longrightarrow> \<exists>L' is. rec_rel w' L' \<and> log_frames L' = log_frames L @ is \<and> list_all2 records (fst (admit (enabled c) (states c) xs)) is
      \<and> enabled c' = enabled c \<and> states c' = snd (admit (enabled c) (states c) xs) \<and> wr_msgs c' = wr_msgs c"
proof (induction xs arbitrary: n w L c)
  case Nil
  then show ?case by (intro exI [of _ L] exI [of _ "[]"]) simp
next
  case (Cons x xs)
  obtain ch t m where x: "x = (ch, t, m)" by (cases x)
  obtain w1 c1 where 1: "item_step (evs n) (ch, t, m) (w, c) = Inr (w1, c1)" "drain evs (Suc n) xs (w1, c1) = Inr (w', c')"
    using Cons.prems(3) by (auto simp: x split: sum.splits)
  let ?st = "next_state (enabled c ch) (states c ch) m"
  have m: "media_ok m" using Cons.prems(1) by (simp add: x item_fine_def)
  obtain L1 is1 where L1: "rec_rel w1 L1" "log_frames L1 = log_frames L @ is1" "list_all2 records (if ?st = SAVE_STATE_WRITE then [m] else []) is1"
    "enabled c1 = enabled c" "states c1 = (states c)(ch := end_state ?st)" "wr_msgs c1 = wr_msgs c"
    using item_step_ok [OF assms m Cons.prems(2) 1(1)] by blast
  have fine: "list_all item_fine xs" using Cons.prems(1) by simp
  obtain L' is2 where L2: "rec_rel w' L'" "log_frames L' = log_frames L1 @ is2"
    "list_all2 records (fst (admit (enabled c) ((states c)(ch := end_state ?st)) xs)) is2" "enabled c' = enabled c"
    "states c' = snd (admit (enabled c) ((states c)(ch := end_state ?st)) xs)" "wr_msgs c' = wr_msgs c"
    using Cons.IH [OF fine L1(1) 1(2)] unfolding L1(4-6) by blast
  have "list_all2 records (fst (admit (enabled c) (states c) (x # xs))) (is1 @ is2)"
    using list_all2_appendI [OF L1(3) L2(3)] by (auto simp: x Let_def)
  then show ?case using L1(2) L2 by (intro exI [of _ L'] exI [of _ "is1 @ is2"]) (auto simp: x Let_def)
qed

section \<open>Runs\<close>

text \<open>One frame of the encoder, with its environment; a call that does not return has no step.\<close>

definition push_step :: "pre_env \<times> media \<Rightarrow> writer \<Rightarrow> (int \<times> writer) option" where
  "push_step = (\<lambda>(pv, m) s. case push_media pv m s of Some (Inr r) \<Rightarrow> Some r | _ \<Rightarrow> None)"

definition kept :: "pre_env \<Rightarrow> media \<Rightarrow> pre_item" where
  "kept pv m = view (copied (pv_junk pv) m)"

text \<open>The allocator gives free addresses, the disks work, and the frame is well-formed.\<close>

definition push_legal :: "pre_env \<times> media \<Rightarrow> bool" where
  "push_legal = (\<lambda>(pv, m). (\<forall>h q. pv_node pv h = Some q \<longrightarrow> h q = None) \<and> (\<forall>n. healthy (pv_bkt pv n)) \<and> item_fine (kept pv m))"

text \<open>The abstract state: the log of the recorder, the frames in the list, the writer.\<close>

type_synonym pre_log = "rec_log \<times> pre_item list \<times> wr_ctrl \<times> int"

definition pre_rel :: "writer \<Rightarrow> pre_log \<Rightarrow> bool" where
  "pre_rel s = (\<lambda>(L, xs, c, lim). rec_rel (ws_rec s) L \<and> holds (ws_pre s) xs \<and> list_all item_fine xs \<and> ws_ctrl s = c
     \<and> pr_max_premsec (ws_pre s) = lim \<and> span xs \<le> lim)"

definition pre_spec :: "pre_env \<times> media \<Rightarrow> int \<Rightarrow> pre_log \<Rightarrow> pre_log \<Rightarrow> bool" where
  "pre_spec = (\<lambda>(pv, m) st (L, xs, c, lim) (L', xs', c', lim').
     lim' = lim \<and> enabled c' = enabled c \<and>
     (if st = 0 then L' = L \<and> xs' = xs \<and> c' = c
      else let ys = xs @ [kept pv m] in
        xs' = remaining lim ys \<and> states c' = snd (admit (enabled c) (states c) (expired lim ys))
        \<and> (\<exists>is. log_frames L' = log_frames L @ is \<and> list_all2 records (fst (admit (enabled c) (states c) (expired lim ys))) is)))"

lemma push_failed:
  assumes "pv_node pv (pr_heap (ws_pre s)) = None \<or> \<not> pv_buff pv" "\<not> pr_locked (ws_pre s)" "holds (ws_pre s) xs"
    "\<And>q. pv_node pv (pr_heap (ws_pre s)) = Some q \<Longrightarrow> pr_heap (ws_pre s) q = None"
  shows "\<exists>l. push_media pv m s = Some (Inr (0, s\<lparr>ws_pre := l\<rparr>)) \<and> holds l xs \<and> pr_max_premsec l = pr_max_premsec (ws_pre s) \<and> pr_locked l = (\<not> is_video m)"
proof -
  let ?l = "ws_pre s"
  obtain as where as: "listed ?l as" "xs = views (pr_heap ?l) as" and r: "0 \<le> pr_max_premsec ?l" "pr_diff_msec ?l = span xs"
    using assms(3) by (auto simp: holds_def)
  have h: "holds (?l\<lparr>pr_locked := b\<rparr>) xs" for b using as r by (auto simp: holds_def)
  have h': "holds (?l\<lparr>pr_heap := (pr_heap ?l)(q \<mapsto> e), pr_locked := b\<rparr>) xs" if "pr_heap ?l q = None" for q e b
  proof -
    have "q \<notin> set as" using that chain_dom [of "pr_heap ?l" "pr_head ?l" as q] as(1) by (auto simp: listed_def)
    then have "listed (?l\<lparr>pr_heap := (pr_heap ?l)(q \<mapsto> e), pr_locked := b\<rparr>) as" "views ((pr_heap ?l)(q \<mapsto> e)) as = xs"
      using as by (simp_all add: listed_def chain_upd views_upd)
    then show ?thesis using r by (auto simp: holds_def)
  qed
  show ?thesis
  proof (cases m)
    case (Video vp)
    then show ?thesis using assms(1,2) h [of False]
      by (auto simp: push_media_def PRELIST_add_tail_vdo_def Let_def split: option.splits intro!: exI [of _ "?l\<lparr>pr_locked := False\<rparr>"])
  next
    case (Audio ap)
    show ?thesis
    proof (cases "pv_node pv (pr_heap ?l)")
      case None
      then show ?thesis using assms(2) h [of True] Audio
        by (auto simp: push_media_def PRELIST_add_tail_ado_def Let_def intro!: exI [of _ "?l\<lparr>pr_locked := True\<rparr>"])
    next
      case (Some q)
      then show ?thesis using assms h' [where q = q and e = "pv_junk pv" and b = True] Audio
        by (auto simp: push_media_def PRELIST_add_tail_ado_def Let_def
            intro!: exI [of _ "?l\<lparr>pr_heap := (pr_heap ?l)(q \<mapsto> pv_junk pv), pr_locked := True\<rparr>"])
    qed
  qed
qed

interpretation prerec: simulation push_step push_legal pre_rel pre_spec
proof unfold_locales
  fix o' s A st s'
  assume l: "push_legal o'" and r: "pre_rel s A" and run: "push_step o' s = Some (st, s')"
  obtain pv m where o': "o' = (pv, m)" by (cases o')
  obtain L xs c lim where A: "A = (L, xs, c, lim)" by (cases A)
  have rel: "rec_rel (ws_rec s) L" "holds (ws_pre s) xs" "list_all item_fine xs" "ws_ctrl s = c" "pr_max_premsec (ws_pre s) = lim" "span xs \<le> lim"
    using r by (simp_all add: pre_rel_def A)
  have alloc: "\<And>q. pv_node pv (pr_heap (ws_pre s)) = Some q \<Longrightarrow> pr_heap (ws_pre s) q = None" and ev: "\<And>n. healthy (pv_bkt pv n)"
    and fine: "item_fine (kept pv m)" using l by (simp_all add: push_legal_def o')
  have res: "push_media pv m s = Some (Inr (st, s'))" using run by (simp add: push_step_def o' split: option.splits sum.splits)
  have nl: "\<not> pr_locked (ws_pre s)"
    using res by (auto simp: push_media_def PRELIST_add_tail_vdo_def PRELIST_add_tail_ado_def split: media.splits)
  show "\<exists>A'. pre_spec o' st A A' \<and> pre_rel s' A'"
  proof (cases "pv_node pv (pr_heap (ws_pre s)) = None \<or> \<not> pv_buff pv")
    case True
    obtain l where "push_media pv m s = Some (Inr (0, s\<lparr>ws_pre := l\<rparr>))" "holds l xs" "pr_max_premsec l = lim"
      using push_failed [OF True nl rel(2) alloc, of m] rel(5) by auto
    then show ?thesis using res rel
      by (intro exI [of _ "(L, xs, c, lim)"]) (auto simp: pre_spec_def pre_rel_def o' A)
  next
    case False
    then obtain q where q: "pv_node pv (pr_heap (ws_pre s)) = Some q" "pv_buff pv" by auto
    let ?ys = "xs @ [kept pv m]"
    have fys: "list_all item_fine ?ys" using rel(3) fine by simp
    then have fe: "list_all item_fine (expired lim ?ys)" "list_all item_fine (remaining lim ?ys)"
      using expired_remaining [of lim ?ys] by (metis list_all_append)+
    obtain w' c' l where d: "drain (pv_bkt pv) 0 (expired lim ?ys) (ws_rec s, c) = Inr (w', c')"
      and s': "st = int (length (remaining lim ?ys))" "s' = \<lparr>ws_rec = w', ws_ctrl = c', ws_pre = l\<rparr>" "holds l (remaining lim ?ys)" "pr_max_premsec l = lim"
      using push_media_ok [OF rel(2) nl q(1) alloc [OF q(1)] q(2) refl refl, of m] res rel(4,5)
      by (auto simp: kept_def split: sum.splits)
    obtain L' "is" where L': "rec_rel w' L'" "log_frames L' = log_frames L @ is" "list_all2 records (fst (admit (enabled c) (states c) (expired lim ?ys))) is"
      "enabled c' = enabled c" "states c' = snd (admit (enabled c) (states c) (expired lim ?ys))"
      using drain_ok [OF ev fe(1) rel(1) d] by blast
    have "0 \<le> lim" using rel(2,5) by (auto simp: holds_def)
    then have "st \<noteq> 0" using s'(1) remaining_nonempty [of ?ys lim] by auto
    then show ?thesis using L' s' fe(2) span_remaining [of ?ys lim] \<open>0 \<le> lim\<close>
      by (intro exI [of _ "(L', remaining lim ?ys, c', lim)"]) (auto simp: pre_spec_def pre_rel_def o' A Let_def)
  qed
qed

text \<open>The frames that were taken into the list.\<close>

definition taken :: "(pre_env \<times> media) list \<Rightarrow> int list \<Rightarrow> pre_item list" where
  "taken xs sts = map (\<lambda>((pv, m), st). kept pv m) (filter (\<lambda>(x, st). st \<noteq> 0) (zip xs sts))"

lemma taken_simps [simp]: "taken [] sts = []" "taken xs [] = []" "taken ((pv, m) # xs) (st # sts) = (if st \<noteq> 0 then [kept pv m] else []) @ taken xs sts"
  by (simp_all add: taken_def)

lemma pre_spec_run:
  "spec_run pre_spec xs sts (L, q, c, lim) (L', q', c', lim') \<Longrightarrow>
    lim' = lim \<and> enabled c' = enabled c \<and> (\<exists>out is. q @ taken xs sts = out @ q' \<and> log_frames L' = log_frames L @ is
      \<and> list_all2 records (fst (admit (enabled c) (states c) out)) is \<and> states c' = snd (admit (enabled c) (states c) out))"
proof (induction xs arbitrary: sts L q c lim)
  case Nil
  then show ?case by (cases sts) (auto intro!: exI [of _ "[]"])
next
  case (Cons x xs)
  obtain pv m where x: "x = (pv, m)" by (cases x)
  obtain st sts' where sts: "sts = st # sts'" using Cons.prems by (cases sts) auto
  obtain L1 q1 c1 lim1 where 1: "pre_spec (pv, m) st (L, q, c, lim) (L1, q1, c1, lim1)" and 2: "spec_run pre_spec xs sts' (L1, q1, c1, lim1) (L', q', c', lim')"
    using Cons.prems by (auto simp: x sts)
  obtain out2 is2 where r2: "lim' = lim1" "enabled c' = enabled c1" "q1 @ taken xs sts' = out2 @ q'" "log_frames L' = log_frames L1 @ is2"
    "list_all2 records (fst (admit (enabled c1) (states c1) out2)) is2" "states c' = snd (admit (enabled c1) (states c1) out2)"
    using Cons.IH [OF 2] by blast
  show ?case
  proof (cases "st = 0")
    case True
    then show ?thesis using 1 r2 by (auto simp: pre_spec_def x sts)
  next
    case False
    let ?ys = "q @ [kept pv m]"
    obtain is1 where r1: "lim1 = lim" "enabled c1 = enabled c" "q1 = remaining lim ?ys" "states c1 = snd (admit (enabled c) (states c) (expired lim ?ys))"
      "log_frames L1 = log_frames L @ is1" "list_all2 records (fst (admit (enabled c) (states c) (expired lim ?ys))) is1"
      using 1 False by (auto simp: pre_spec_def Let_def)
    have "?ys @ taken xs sts' = (expired lim ?ys @ out2) @ q'"
      using r2(3) expired_remaining [of lim ?ys] unfolding r1(3) by (metis append.assoc)
    then show ?thesis using r1 r2 False list_all2_appendI [OF r1(6), of "fst (admit (enabled c1) (states c1) out2)" is2]
      by (intro conjI exI [of _ "expired lim ?ys @ out2"] exI [of _ "is1 @ is2"]) (auto simp: x sts admit_append)
  qed
qed

section \<open>Channels\<close>

fun item_ch :: "item \<Rightarrow> int" where
  "item_ch (Vid sh vh p) = sh_ch sh"
| "item_ch (Aud sh ah p) = sh_ch sh"
| "item_ch (End sh) = sh_ch sh"

lemma records_ch: "records m i \<Longrightarrow> item_ch i = media_ch m"
  by (cases m) (auto simp: records_def video_item_def audio_item_def video_stream_hdr_def audio_stream_hdr_def)

lemma records_filter:
  "list_all2 records ms is \<Longrightarrow> list_all2 records (filter (\<lambda>m. media_ch m = ch) ms) (filter (\<lambda>i. item_ch i = ch) is)"
  by (induction rule: list_all2_induct) (auto dest: records_ch)

definition of_ch :: "int \<Rightarrow> pre_item list \<Rightarrow> media list" where
  "of_ch ch xs = filter (\<lambda>m. media_ch m = ch) (map (snd \<circ> snd) xs)"

text \<open>An enabled channel lets everything through from the first key frame on, or from the start
  when it is being written; a disabled one nothing.\<close>

definition let_through :: "bool \<Rightarrow> save_state \<Rightarrow> media list \<Rightarrow> media list" where
  "let_through en st ms = (if \<not> en then [] else if st = SAVE_STATE_WRITE then ms else dropWhile (Not \<circ> is_key) ms)"

lemma admit_ch:
  "list_all (\<lambda>x. fst x = media_ch (snd (snd x))) xs \<Longrightarrow> sts ch \<noteq> SAVE_STATE_CLOSE
    \<Longrightarrow> filter (\<lambda>m. media_ch m = ch) (fst (admit en sts xs)) = let_through (en ch) (sts ch) (of_ch ch xs)"
proof (induction xs arbitrary: sts)
  case (Cons x xs)
  obtain t m where x: "x = (media_ch m, t, m)" using Cons.prems(1) by (cases x) auto
  let ?st = "next_state (en (media_ch m)) (sts (media_ch m)) m"
  let ?sts = "sts(media_ch m := end_state ?st)"
  have c: "end_state ?st \<noteq> SAVE_STATE_CLOSE" by (simp add: end_state_def)
  have xs: "list_all (\<lambda>x. fst x = media_ch (snd (snd x))) xs" using Cons.prems(1) by simp
  have IH: "filter (\<lambda>m. media_ch m = ch) (fst (admit en ?sts xs)) = let_through (en ch) (?sts ch) (of_ch ch xs)"
    by (rule Cons.IH [OF xs]) (use Cons.prems(2) c in auto)
  show ?case
  proof (cases "media_ch m = ch")
    case True
    have n: "?st = (if en ch then (if sts ch = SAVE_STATE_WRITE \<or> is_key m then SAVE_STATE_WRITE else SAVE_STATE_OPEN)
        else if sts ch = SAVE_STATE_WRITE then SAVE_STATE_CLOSE else SAVE_STATE_IDLE)"
      using True Cons.prems(2) by (cases "sts ch") (auto simp: next_state_def enter_state_def)
    have "let_through (en ch) (sts ch) (m # of_ch ch xs)
        = (if ?st = SAVE_STATE_WRITE then m # let_through (en ch) (end_state ?st) (of_ch ch xs) else let_through (en ch) (end_state ?st) (of_ch ch xs))"
      unfolding n by (auto simp: let_through_def end_state_def)
    then show ?thesis using IH True by (auto simp: x of_ch_def Let_def)
  next
    case False
    then show ?thesis using IH by (auto simp: x of_ch_def Let_def)
  qed
qed (simp add: let_through_def of_ch_def)

lemma kept_ch: "fst (kept pv m) = media_ch (snd (snd (kept pv m)))"
  by (cases m) (simp_all add: kept_def copied_def view_def video_ent_def audio_ent_def VIDEO_def AUDIO_def)

lemma taken_fine: "list_all push_legal xs \<Longrightarrow> list_all item_fine (taken xs sts)"
proof (induction xs arbitrary: sts)
  case (Cons x xs)
  then show ?case by (cases sts; cases x) (auto simp: push_legal_def)
qed simp

section \<open>A writer for the witnesses\<close>

text \<open>One channel is enabled; the allocator knows one address.\<close>

definition demo_chinfo :: "bool \<Rightarrow> wr_chinfo" where
  "demo_chinfo en = \<lparr>wc_event_mode = 1, wc_enableChSave = en, wc_enableAudio = 0, wc_presec = 0, wc_postsec = 0, wc_firstKeyframe = False,
     wc_fileSaveState = SAVE_STATE_IDLE, wc_camName = []\<rparr>"

definition demo_wctrl :: wr_ctrl where
  "demo_wctrl = \<lparr>wr_chInfo = demo_chinfo True # replicate 15 (demo_chinfo False), wr_bPreEnabled = False, wr_is_basket_opened = True,
     wr_has_pipe = True, wr_msgs = []\<rparr>"

definition demo_raw :: prelist_ent where
  "demo_raw = \<lparr>pe_ch = 0, pe_type = 0, pe_msec = 0, pe_vp = demo_video 0 [], pe_ap = \<lparr>ap_ch = 0, ap_framesize = 0, ap_sec = 0, ap_usec = 0,
     ap_samplingrate = 0, ap_bitspersample = 0, ap_achannel = 0, ap_buff = []\<rparr>, pe_next = None\<rparr>"

definition demo_pv :: "nat \<Rightarrow> pre_env" where
  "demo_pv a = \<lparr>pv_node = \<lambda>h. if h a = None then Some a else None, pv_buff = True, pv_junk = demo_raw, pv_bkt = \<lambda>n. demo_env\<rparr>"

definition demo_writer :: writer where
  "demo_writer = \<lparr>ws_rec = demo_world, ws_ctrl = demo_wctrl, ws_pre = empty_list\<rparr>"

definition demo_push :: "nat \<Rightarrow> int \<Rightarrow> pre_env \<times> media" where
  "demo_push a sec = (demo_pv a, Video (demo_video sec [1, 2]))"

lemma demo_kept: "kept (demo_pv a) (Video (demo_video sec [1, 2])) = (0, msec_of sec 0, Video (demo_video sec [1, 2]))"
  by (simp add: kept_def copied_def view_def video_ent_def VIDEO_def) (simp add: demo_pv_def demo_raw_def demo_video_def)

lemma demo_push_legal: "0 \<le> sec \<Longrightarrow> sec < 1000000 \<Longrightarrow> push_legal (demo_push a sec)"
proof -
  assume "0 \<le> sec" "sec < 1000000"
  then have "video_ok (demo_video sec [1, 2])" by (rule demo_video_ok) (simp add: BKT_BBUF_SIZE_def)
  then have "item_fine (kept (demo_pv a) (Video (demo_video sec [1, 2])))" unfolding demo_kept by (simp add: item_fine_def demo_video_def)
  then show "push_legal (demo_push a sec)" using demo_healthy(1) by (simp add: push_legal_def demo_push_def) (simp add: demo_pv_def)
qed

lemma demo_holds: "holds (ws_pre demo_writer) []"
  unfolding holds_def by (simp add: demo_writer_def empty_list_def span_def) (rule exI [of _ "[]"], simp add: listed_def)

lemma demo_gap: "gap (msec_of 101 0) (msec_of 100 0) = 1000" "msec_of 100 0 = 100000" "msec_of 101 0 = 101000" "gap 101000 100000 = 1000"
  by (simp_all add: gap_def msec_of_def off32_def)

text \<open>The first frame stays, the second sends it to the recorder.\<close>

lemma demo_pushes: "\<exists>sts s'. run_steps push_step [demo_push 0 100, demo_push 1 101] demo_writer = Some (sts, s') \<and> sts = [1, 1]"
proof -
  let ?x = "\<lambda>sec. (0, msec_of sec 0, Video (demo_video sec [1, 2]))"
  have 0: "\<not> pr_locked (ws_pre demo_writer)" "pv_node (demo_pv 0) (pr_heap (ws_pre demo_writer)) = Some 0" "pr_heap (ws_pre demo_writer) 0 = None"
    "pv_buff (demo_pv a)" "pr_max_premsec (ws_pre demo_writer) = 0" "pv_bkt (demo_pv a) n = demo_env" for a n
    by (simp_all add: demo_writer_def empty_list_def demo_pv_def)
  have k: "view (copied (pv_junk (demo_pv a)) (Video (demo_video sec [1, 2]))) = ?x sec" for a sec using demo_kept by (simp add: kept_def)
  have "expired 0 [?x 100] = []" "remaining 0 [?x 100] = [?x 100]" by (simp_all add: expired_single)
  then obtain l1 where 1: "push_media (demo_pv 0) (Video (demo_video 100 [1, 2])) demo_writer
      = Some (Inr (1, \<lparr>ws_rec = demo_world, ws_ctrl = demo_wctrl, ws_pre = l1\<rparr>))" and l1: "holds l1 [?x 100]" "pr_max_premsec l1 = 0" "\<not> pr_locked l1"
    using push_media_ok [OF demo_holds 0(1,2,3,4) refl 0(5) [symmetric], of "Video (demo_video 100 [1, 2])"]
    by (auto simp: k) (simp_all add: demo_writer_def)
  let ?s1 = "\<lparr>ws_rec = demo_world, ws_ctrl = demo_wctrl, ws_pre = l1\<rparr>"
  have ex: "expired 0 [?x 100, ?x 101] = [?x 100]" "remaining 0 [?x 100, ?x 101] = [?x 101]"
    by (simp_all add: expired_def remaining_def item_msec_def demo_gap)
  obtain w where w: "BKTREC_WriteVideoStream demo_env (demo_video 100 [1, 2]) demo_world = Some (BKT_OK, w)" using demo_written by blast
  have st: "chan_state (wr_chInfo demo_wctrl ! 0) (Video (demo_video 100 [1, 2])) = SAVE_STATE_WRITE" "has_ch 0 demo_wctrl"
    by (simp_all add: chan_state_def enter_state_def demo_wctrl_def demo_chinfo_def demo_video_def has_ch_def)
  then obtain c where d: "drain (pv_bkt (demo_pv 1)) 0 [?x 100] (demo_world, demo_wctrl) = Inr (w, c)"
    using w by (simp add: item_step_def 0(6))
  have "push_media (demo_pv 0) (Video (demo_video 100 [1, 2])) demo_writer = Some (Inr (1, \<lparr>ws_rec = demo_world, ws_ctrl = demo_wctrl,
      ws_pre = empty_list\<lparr>pr_heap := [0 \<mapsto> video_ent demo_raw (demo_video 100 [1, 2])], pr_head := Some 0, pr_tail := Some 0, pr_vcnt := 1, pr_tcnt := 1\<rparr>\<rparr>))"
    by (simp add: push_media_def PRELIST_add_tail_vdo_def add_ent_def link_tail_def PRELIST_check_time_def deref_def demo_writer_def
        demo_pv_def empty_list_def Let_def check_loop.simps) (simp add: video_ent_def VIDEO_def)
  then have h1: "pr_heap l1 1 = None" using 1 by auto
  have n1: "pv_node (demo_pv 1) (pr_heap (ws_pre ?s1)) = Some 1" "pr_heap (ws_pre ?s1) 1 = None" using h1 by (simp_all add: demo_pv_def)
  have l1': "holds (ws_pre ?s1) [?x 100]" "\<not> pr_locked (ws_pre ?s1)" "pr_max_premsec (ws_pre ?s1) = 0" using l1 by simp_all
  obtain s2 where 2: "push_media (demo_pv 1) (Video (demo_video 101 [1, 2])) ?s1 = Some (Inr (1, s2))"
    using push_media_ok [OF l1'(1,2) n1 0(4) refl l1'(3) [symmetric], of "Video (demo_video 101 [1, 2])"] d
    by (auto simp: k ex)
  show ?thesis using 1 2 by (simp add: push_step_def demo_push_def)
qed

section \<open>The properties\<close>

lemma pre_run:
  assumes "list_all push_legal xs" "rec_rel (ws_rec s) L" "holds (ws_pre s) q" "list_all item_fine q" "span q \<le> pr_max_premsec (ws_pre s)"
    "run_steps push_step xs s = Some (sts, s')"
  shows "\<exists>L' q' out is. rec_rel (ws_rec s') L' \<and> holds (ws_pre s') q' \<and> q @ taken xs sts = out @ q' \<and> log_frames L' = log_frames L @ is
    \<and> list_all2 records (fst (admit (enabled (ws_ctrl s)) (states (ws_ctrl s)) out)) is \<and> span q' \<le> pr_max_premsec (ws_pre s)"
proof -
  have "pre_rel s (L, q, ws_ctrl s, pr_max_premsec (ws_pre s))" using assms(2-5) by (simp add: pre_rel_def)
  then obtain A where A: "spec_run pre_spec xs sts (L, q, ws_ctrl s, pr_max_premsec (ws_pre s)) A" "pre_rel s' A"
    using prerec.sim_run [OF assms(1) _ assms(6)] by blast
  obtain L' q' c' lim' where A': "A = (L', q', c', lim')" by (cases A)
  show ?thesis using pre_spec_run [OF A(1) [unfolded A']] A(2) by (auto simp: A' pre_rel_def)
qed

text \<open>C7: The pre-recording buffer over a run of frames.  The run is one in which every push returns; no system call
  on the disks fails, recycling is not \<open>BKT_RECYCLE_ONCE\<close>, the frames are well-formed, and the allocator gives addresses that
  are free.  Frames are taken into the list or, without
  memory, refused with 0.  The frames that have left the list are the oldest ones, in the
  order in which they were added; the recorder's log grows by those of them that the state
  machines of the channels let through, each once and in this order, whatever baskets are
  changed on the way.  What stays in the list never spans more than the allowed time, in the measure
  of the code: the signed 32 bit difference of the milliseconds of the last and the first
  frame.  When the clock is set back, or jumps by more than \<open>2 ^ 31\<close> milliseconds, this difference is
  negative or has wrapped, and frames further apart than the allowed time stay.\<close>

theorem prerecorded_run:
  assumes "list_all push_legal xs" "rec_rel (ws_rec s) L" "holds (ws_pre s) q" "list_all item_fine q" "span q \<le> pr_max_premsec (ws_pre s)"
    "run_steps push_step xs s = Some (sts, s')"
  shows "\<exists>L' q' out is. rec_rel (ws_rec s') L' \<and> holds (ws_pre s') q' \<and> q @ taken xs sts = out @ q' \<and> log_frames L' = log_frames L @ is
    \<and> list_all2 records (fst (admit (enabled (ws_ctrl s)) (states (ws_ctrl s)) out)) is \<and> span q' \<le> pr_max_premsec (ws_pre s)"
  by (rule pre_run [OF assms])

lemma demo_writer_rel: "rec_rel (ws_rec demo_writer) demo_log" "list_all push_legal [demo_push 0 100, demo_push 1 101]"
  using demo_rec(3) demo_push_legal by (simp_all add: demo_writer_def)

lemma prerecorded_run_witness:
  "\<exists>sts s' L' q' out is. run_steps push_step [demo_push 0 100, demo_push 1 101] demo_writer = Some (sts, s') \<and> rec_rel (ws_rec s') L'
    \<and> taken [demo_push 0 100, demo_push 1 101] sts = out @ q' \<and> log_frames L' = is \<and> list_all2 records (fst (admit (enabled demo_wctrl) (states demo_wctrl) out)) is"
proof -
  obtain sts s' where r: "run_steps push_step [demo_push 0 100, demo_push 1 101] demo_writer = Some (sts, s')" using demo_pushes by blast
  have c: "ws_ctrl demo_writer = demo_wctrl" "log_frames demo_log = []" by (simp_all add: demo_writer_def log_frames_def demo_log_def)
  obtain L' q' out "is" where "rec_rel (ws_rec s') L'" "[] @ taken [demo_push 0 100, demo_push 1 101] sts = out @ q'"
    "log_frames L' = log_frames demo_log @ is" "list_all2 records (fst (admit (enabled demo_wctrl) (states demo_wctrl) out)) is"
    using prerecorded_run [OF demo_writer_rel(2,1) demo_holds _ _ r] unfolding c(1) by (auto simp: span_def demo_writer_def empty_list_def simp del: taken_simps)
  with r c(2) show ?thesis by auto
qed

text \<open>C19: What a channel records, over a run in which every push returns, on working disks.  Of the frames of an enabled channel that have left the list,
  among them those that were in it before the channel was enabled, the recorder gets all
  from the first key frame on, and all of them when the channel was being written already;
  of a disabled channel none.\<close>

theorem channel_recording:
  assumes "list_all push_legal xs" "rec_rel (ws_rec s) L" "holds (ws_pre s) q" "list_all item_fine q" "span q \<le> pr_max_premsec (ws_pre s)"
    "run_steps push_step xs s = Some (sts, s')"
    "states (ws_ctrl s) ch \<noteq> SAVE_STATE_CLOSE"
  shows "\<exists>L' q' out is. rec_rel (ws_rec s') L' \<and> holds (ws_pre s') q' \<and> q @ taken xs sts = out @ q' \<and> log_frames L' = log_frames L @ is
    \<and> list_all2 records (let_through (enabled (ws_ctrl s) ch) (states (ws_ctrl s) ch) (of_ch ch out)) (filter (\<lambda>i. item_ch i = ch) is)"
proof -
  have "pre_rel s (L, q, ws_ctrl s, pr_max_premsec (ws_pre s))" using assms(2-5) by (simp add: pre_rel_def)
  then obtain A where A: "spec_run pre_spec xs sts (L, q, ws_ctrl s, pr_max_premsec (ws_pre s)) A" "pre_rel s' A"
    using prerec.sim_run [OF assms(1) _ assms(6)] by blast
  obtain L' q' c' lim' where A': "A = (L', q', c', lim')" by (cases A)
  obtain out "is" where r: "q @ taken xs sts = out @ q'" "log_frames L' = log_frames L @ is"
    "list_all2 records (fst (admit (enabled (ws_ctrl s)) (states (ws_ctrl s)) out)) is"
    using pre_spec_run [OF A(1) [unfolded A']] by blast
  have "list_all item_fine (out @ q')" using assms(4) taken_fine [OF assms(1), of sts] unfolding r(1) [symmetric] by simp
  then have "list_all (\<lambda>x. fst x = media_ch (snd (snd x))) out" by (auto simp: item_fine_def list_all_iff)
  from records_filter [OF r(3), of ch, unfolded admit_ch [where ch = ch and sts = "states (ws_ctrl s)", OF this assms(7)]] show ?thesis
    using r(1,2) A(2) by (auto simp: A' pre_rel_def)
qed

lemma channel_recording_witness:
  "\<exists>sts s' L' q' out is. run_steps push_step [demo_push 0 100, demo_push 1 101] demo_writer = Some (sts, s') \<and> rec_rel (ws_rec s') L'
    \<and> taken [demo_push 0 100, demo_push 1 101] sts = out @ q' \<and> log_frames L' = is
    \<and> list_all2 records (let_through True SAVE_STATE_IDLE (of_ch 0 out)) (filter (\<lambda>i. item_ch i = 0) is)"
proof -
  obtain sts s' where r: "run_steps push_step [demo_push 0 100, demo_push 1 101] demo_writer = Some (sts, s')" using demo_pushes by blast
  have c: "log_frames demo_log = []" "enabled (ws_ctrl demo_writer) 0 = True" "states (ws_ctrl demo_writer) 0 = SAVE_STATE_IDLE"
    by (simp_all add: demo_writer_def log_frames_def demo_log_def enabled_def states_def demo_wctrl_def demo_chinfo_def has_ch_def)
  obtain L' q' out "is" where "rec_rel (ws_rec s') L'" "[] @ taken [demo_push 0 100, demo_push 1 101] sts = out @ q'"
    "log_frames L' = log_frames demo_log @ is" "list_all2 records (let_through True SAVE_STATE_IDLE (of_ch 0 out)) (filter (\<lambda>i. item_ch i = 0) is)"
    using channel_recording [OF demo_writer_rel(2,1) demo_holds _ _ r, of 0] unfolding c(2,3) by (auto simp: span_def demo_writer_def empty_list_def simp del: taken_simps)
  with r c(1) show ?thesis by auto
qed

text \<open>Adding a frame ends.  Whatever the list holds, neither the search for its last entry nor the
  loop over the frames that are too old can run for ever; the call blocks only when the
  mutex was left locked.\<close>

theorem push_returns:
  assumes "holds (ws_pre s) q" "\<forall>h p. pv_node pv h = Some p \<longrightarrow> h p = None"
  shows "\<exists>r. push_media pv m s = Some r \<and> (r = Inl Blocked \<longleftrightarrow> pr_locked (ws_pre s))"
proof (cases "pr_locked (ws_pre s)")
  case True
  then show ?thesis by (cases m) (simp_all add: push_media_def PRELIST_add_tail_vdo_def PRELIST_add_tail_ado_def)
next
  case False
  show ?thesis
  proof (cases "pv_node pv (pr_heap (ws_pre s)) = None \<or> \<not> pv_buff pv")
    case True
    from push_failed [OF True False assms(1), of m] assms(2) False show ?thesis by auto
  next
    case ok: False
    then obtain p where p: "pv_node pv (pr_heap (ws_pre s)) = Some p" "pv_buff pv" by auto
    have "pr_heap (ws_pre s) p = None" using assms(2) p(1) by blast
    from push_media_ok [OF assms(1) False p(1) this p(2) refl refl, of m] drain_crash False show ?thesis
      by (fastforce split: sum.splits)
  qed
qed

lemma push_returns_witness:
  "\<exists>r. push_media (demo_pv 0) (Video (demo_video 100 [1, 2])) demo_writer = Some r \<and> r \<noteq> Inl Blocked"
proof -
  have "\<forall>h p. pv_node (demo_pv 0) h = Some p \<longrightarrow> h p = None" by (simp add: demo_pv_def)
  from push_returns [OF demo_holds this] show ?thesis by (auto simp: demo_writer_def empty_list_def)
qed

text \<open>C20: No memory for an audio frame locks the list for ever.  The error exits of the audio leave
  without unlocking: the call returns 0, and every later frame, video or audio, blocks.\<close>

theorem audio_without_memory_blocks:
  assumes "\<not> pr_locked (ws_pre s)" "pv_node pv (pr_heap (ws_pre s)) = None \<or> \<not> pv_buff pv"
  shows "\<exists>s'. PRELIST_add_tail_ado pv ap s = Some (Inr (0, s')) \<and> (\<forall>pv' m. push_media pv' m s' = Some (Inl Blocked))"
proof -
  have b: "push_media pv' m s' = Some (Inl Blocked)" if "pr_locked (ws_pre s')" for pv' m s'
    using that by (cases m) (simp_all add: push_media_def PRELIST_add_tail_vdo_def PRELIST_add_tail_ado_def)
  show ?thesis
    using assms b by (auto simp: PRELIST_add_tail_ado_def Let_def split: option.splits)
qed

lemma audio_without_memory_blocks_witness:
  "\<exists>s'. PRELIST_add_tail_ado ((demo_pv 0)\<lparr>pv_buff := False\<rparr>) (pe_ap demo_raw) demo_writer = Some (Inr (0, s'))
    \<and> push_media (demo_pv 1) (Video (demo_video 101 [1, 2])) s' = Some (Inl Blocked)"
proof -
  have "\<not> pr_locked (ws_pre demo_writer)" by (simp add: demo_writer_def empty_list_def)
  from audio_without_memory_blocks [OF this, of "(demo_pv 0)\<lparr>pv_buff := False\<rparr>" "pe_ap demo_raw"] show ?thesis by auto
qed

end
