(* ===== verification/Writer_Pool.thy ===== *)
theory Writer_Pool
  imports Osa_Que "HOL-Library.Multiset" Basket_Rec
begin

text \<open>The buffers of the recorder thread (src/app_writer.c, include/app_writer.h): tables whose
  entries travel between a queue of free and a queue of full ones.  The encoder threads copy
  frames into them, the recorder thread takes the frames out.  The assertions of the code expand to nothing in this
  build (\<open>OSA_DEBUG_MODE\<close> is not defined), so that a table index is used untested.\<close>

section \<open>Tables\<close>

text \<open>The fields of \<open>VCODEC_BITSBUF_S\<close> that the writer uses.  The memory behind \<open>bufVirtAddr\<close> is the
  list of its bytes; None is NULL.\<close>

record bitsbuf =
  bb_chnId :: int
  bb_codecType :: int
  bb_frameType :: int
  bb_filledBufSize :: nat
  bb_timestamp :: int
  bb_upperTimeStamp :: int
  bb_lowerTimeStamp :: int
  bb_fieldId :: int
  bb_frameWidth :: int
  bb_frameHeight :: int
  bb_bufVirtAddr :: "byte list option"

text \<open>A pointer to an entry of a table is its index.\<close>

record buf_entry =
  be_bitBuf :: bitsbuf
  be_nextFreeIndex :: nat

record buf_tbl =
  bt_freeIndex :: nat
  bt_tbl :: "buf_entry list"

definition WRITER_BUFINFO_INVALIDID :: nat where [const_defs]: "WRITER_BUFINFO_INVALIDID = 2 ^ 32 - 1"
definition WRITER_FREE_QUE_MAX_LEN :: nat where [const_defs]: "WRITER_FREE_QUE_MAX_LEN = 16 * 4"
definition WRITER_AUDIO_PLAY_MAX_LEN :: nat where [const_defs]: "WRITER_AUDIO_PLAY_MAX_LEN = 4"
definition WRITER_GET_BUF_SIZE :: nat where [const_defs]: "WRITER_GET_BUF_SIZE = 720 * 576 div 2"

text \<open>The five tables, the lengths of the tables and the sizes of the buffers.\<close>

datatype pool_id = PVid | PAud | PVidStm | PAudStm | PAudPlay

fun tbl_len :: "pool_id \<Rightarrow> nat" where
  "tbl_len PAudPlay = WRITER_AUDIO_PLAY_MAX_LEN"
| "tbl_len k = WRITER_FREE_QUE_MAX_LEN"

fun buf_size :: "pool_id \<Rightarrow> nat" where
  "buf_size PVid = WRITER_GET_BUF_SIZE"
| "buf_size PVidStm = WRITER_GET_BUF_SIZE div 4"
| "buf_size PAud = 16 * 1024"
| "buf_size PAudStm = 16 * 1024"
| "buf_size PAudPlay = 32 * 1024"

definition upd_entry :: "nat \<Rightarrow> (buf_entry \<Rightarrow> buf_entry) \<Rightarrow> buf_tbl \<Rightarrow> buf_tbl" where
  "upd_entry i f t = t\<lparr>bt_tbl := (bt_tbl t)[i := f (bt_tbl t ! i)]\<rparr>"

definition upd_mem :: "byte list option \<Rightarrow> bitsbuf \<Rightarrow> bitsbuf" where
  "upd_mem m b = b\<lparr>bb_bufVirtAddr := m\<rparr>"

text \<open>The loops that link all entries; the last one gets no memory.  \<open>alloc\<close> is what \<open>OSA_memAlloc\<close>
  returns for an entry, which is not tested.\<close>

definition tbl_link :: "(nat \<Rightarrow> byte list option) \<Rightarrow> buf_tbl \<Rightarrow> buf_tbl" where
  "tbl_link alloc t =
    (let n = length (bt_tbl t) - 1;
         t1 = fold (\<lambda>i. upd_entry i (\<lambda>e. e\<lparr>be_nextFreeIndex := i + 1, be_bitBuf := upd_mem (alloc i) (be_bitBuf e)\<rparr>)) [0..<n] t in
     (upd_entry n (be_nextFreeIndex_update (\<lambda>_. WRITER_BUFINFO_INVALIDID)) t1)\<lparr>bt_freeIndex := 0\<rparr>)"

definition WRITER_bufInit :: "(pool_id \<Rightarrow> nat \<Rightarrow> nat \<Rightarrow> byte list option) \<Rightarrow> (pool_id \<Rightarrow> buf_tbl) \<Rightarrow> pool_id \<Rightarrow> buf_tbl" where
  "WRITER_bufInit alloc tbls = (\<lambda>k. tbl_link (alloc k (buf_size k)) (tbls k))"

text \<open>The memory is freed (the dangling pointers are None).\<close>

definition WRITER_bufDeInit :: "(pool_id \<Rightarrow> buf_tbl) \<Rightarrow> pool_id \<Rightarrow> buf_tbl" where
  "WRITER_bufDeInit tbls = (\<lambda>k. tbl_link (\<lambda>i. None) (tbls k))"

text \<open>Taking an entry and giving one back.  None: an access outside the table.\<close>

definition tbl_alloc :: "buf_tbl \<Rightarrow> (nat \<times> buf_tbl) option" where
  "tbl_alloc t =
    (let i = bt_freeIndex t in
     if length (bt_tbl t) \<le> i then None
     else Some (i, upd_entry i (be_nextFreeIndex_update (\<lambda>_. WRITER_BUFINFO_INVALIDID)) (t\<lparr>bt_freeIndex := be_nextFreeIndex (bt_tbl t ! i)\<rparr>)))"

definition tbl_free :: "int \<Rightarrow> buf_tbl \<Rightarrow> buf_tbl option" where
  "tbl_free entryIndex t =
    (if entryIndex < 0 \<or> int (length (bt_tbl t)) \<le> entryIndex then None
     else Some ((upd_entry (nat entryIndex) (be_nextFreeIndex_update (\<lambda>_. bt_freeIndex t)) t)\<lparr>bt_freeIndex := nat entryIndex\<rparr>))"

definition VIDEO_STREAM :: int where "VIDEO_STREAM = 2"
definition AUDIO_STREAM :: int where "AUDIO_STREAM = 3"

text \<open>The stream type chooses the table.\<close>

definition rec_tbl :: "int \<Rightarrow> pool_id" where
  "rec_tbl strmType = (if strmType = 1 then PAud else PVid)"

definition stm_tbl :: "int \<Rightarrow> pool_id" where
  "stm_tbl strmType = (if strmType = AUDIO_STREAM then PAudStm else PVidStm)"

definition on_tbl :: "pool_id \<Rightarrow> ('r \<times> buf_tbl) option \<Rightarrow> (pool_id \<Rightarrow> buf_tbl) \<Rightarrow> ('r \<times> (pool_id \<Rightarrow> buf_tbl)) option" where
  "on_tbl k r tbls = map_option (\<lambda>(x, t). (x, tbls(k := t))) r"

definition WRITER_bufAlloc :: "int \<Rightarrow> (pool_id \<Rightarrow> buf_tbl) \<Rightarrow> (nat \<times> (pool_id \<Rightarrow> buf_tbl)) option" where
  "WRITER_bufAlloc strmType tbls = on_tbl (rec_tbl strmType) (tbl_alloc (tbls (rec_tbl strmType))) tbls"

definition WRITER_bufAllocStream :: "int \<Rightarrow> (pool_id \<Rightarrow> buf_tbl) \<Rightarrow> (nat \<times> (pool_id \<Rightarrow> buf_tbl)) option" where
  "WRITER_bufAllocStream strmType tbls = on_tbl (stm_tbl strmType) (tbl_alloc (tbls (stm_tbl strmType))) tbls"

definition WRITER_bufAllocAudPlay :: "(pool_id \<Rightarrow> buf_tbl) \<Rightarrow> (nat \<times> (pool_id \<Rightarrow> buf_tbl)) option" where
  "WRITER_bufAllocAudPlay tbls = on_tbl PAudPlay (tbl_alloc (tbls PAudPlay)) tbls"

definition WRITER_bufGetIndex :: "int \<Rightarrow> int" where
  "WRITER_bufGetIndex bufInfo = bufInfo"

definition WRITER_bufFree :: "int \<Rightarrow> int \<Rightarrow> (pool_id \<Rightarrow> buf_tbl) \<Rightarrow> (pool_id \<Rightarrow> buf_tbl) option" where
  "WRITER_bufFree bitBufInfo strmType tbls =
    map_option (\<lambda>t. tbls(rec_tbl strmType := t)) (tbl_free (WRITER_bufGetIndex bitBufInfo) (tbls (rec_tbl strmType)))"

definition WRITER_bufFreeStream :: "int \<Rightarrow> int \<Rightarrow> (pool_id \<Rightarrow> buf_tbl) \<Rightarrow> (pool_id \<Rightarrow> buf_tbl) option" where
  "WRITER_bufFreeStream bitBufInfo strmType tbls =
    map_option (\<lambda>t. tbls(stm_tbl strmType := t)) (tbl_free (WRITER_bufGetIndex bitBufInfo) (tbls (stm_tbl strmType)))"

definition WRITER_bufFreeAudPlay :: "int \<Rightarrow> (pool_id \<Rightarrow> buf_tbl) \<Rightarrow> (pool_id \<Rightarrow> buf_tbl) option" where
  "WRITER_bufFreeAudPlay bitBufInfo tbls = map_option (\<lambda>t. tbls(PAudPlay := t)) (tbl_free (WRITER_bufGetIndex bitBufInfo) (tbls PAudPlay))"

section \<open>Copying frames\<close>

definition WRITER_videoCopyBufInfo :: "bitsbuf \<Rightarrow> bitsbuf \<Rightarrow> bitsbuf" where
  "WRITER_videoCopyBufInfo dst src = dst\<lparr>bb_chnId := bb_chnId src, bb_codecType := bb_codecType src, bb_filledBufSize := bb_filledBufSize src,
     bb_frameType := bb_frameType src, bb_timestamp := bb_timestamp src, bb_upperTimeStamp := bb_upperTimeStamp src,
     bb_lowerTimeStamp := bb_lowerTimeStamp src, bb_frameWidth := bb_frameWidth src, bb_frameHeight := bb_frameHeight src\<rparr>"

text \<open>\<open>memcpy\<close>; None: it runs past the end of a buffer.\<close>

definition copy_mem :: "nat \<Rightarrow> byte list \<Rightarrow> bitsbuf \<Rightarrow> bitsbuf option" where
  "copy_mem n src dst =
    (case bb_bufVirtAddr dst of None \<Rightarrow> None
     | Some m \<Rightarrow> if n \<le> length src \<and> n \<le> length m then Some (upd_mem (Some (take n src @ drop n m)) dst) else None)"

text \<open>The copy of a frame: as many bytes as the encoder says, with no test of the size.\<close>

definition WRITER_videoCopyBufDataMem2Mem :: "bitsbuf \<Rightarrow> bitsbuf \<Rightarrow> bitsbuf option" where
  "WRITER_videoCopyBufDataMem2Mem dst src =
    (case bb_bufVirtAddr src of None \<Rightarrow> None
     | Some s \<Rightarrow> copy_mem (bb_filledBufSize src) s dst)"

text \<open>What the audio thread fills in.\<close>

definition audio_fill :: "bitsbuf \<Rightarrow> bitsbuf \<Rightarrow> bitsbuf option" where
  "audio_fill dst src =
    (case bb_bufVirtAddr src of None \<Rightarrow> None
     | Some s \<Rightarrow> copy_mem (bb_filledBufSize src) s (dst\<lparr>bb_chnId := bb_chnId src, bb_codecType := bb_codecType src,
         bb_filledBufSize := bb_filledBufSize src, bb_fieldId := bb_fieldId src\<rparr>))"

definition video_pool :: "pool_id \<Rightarrow> bool" where
  "video_pool k \<longleftrightarrow> k = PVid \<or> k = PVidStm"

definition fill_buf :: "pool_id \<Rightarrow> bitsbuf \<Rightarrow> bitsbuf \<Rightarrow> bitsbuf option" where
  "fill_buf k dst src = (if video_pool k then WRITER_videoCopyBufDataMem2Mem (WRITER_videoCopyBufInfo dst src) src else audio_fill dst src)"

section \<open>Pools\<close>

record pool =
  po_tbl :: buf_tbl
  po_free :: osa_que
  po_full :: osa_que

text \<open>The set-up: all but the last entry go into the free queue.  The result of a put is not looked at.\<close>

fun fill_loop :: "nat \<Rightarrow> pool \<Rightarrow> pool option" where
  "fill_loop 0 p = Some p"
| "fill_loop (Suc n) p =
    (case tbl_alloc (po_tbl p) of None \<Rightarrow> None
     | Some (b, t) \<Rightarrow> (case OSA_quePut (int b) OSA_TIMEOUT_NONE (po_free p) of
         Return st q sig \<Rightarrow> fill_loop n (p\<lparr>po_tbl := t, po_free := q\<rparr>)
       | Wait c \<Rightarrow> None))"

definition WRITER_initPool :: "pool_id \<Rightarrow> osa_que \<Rightarrow> osa_que \<Rightarrow> buf_tbl \<Rightarrow> pool option" where
  "WRITER_initPool k free full t = fill_loop (tbl_len k - 1) \<lparr>po_tbl = t, po_free = free, po_full = full\<rparr>"

text \<open>A producer waits for a free buffer, fills it and puts it into the full queue.\<close>

definition get_free :: "pool \<Rightarrow> (int \<times> pool) option" where
  "get_free p = (case OSA_queGet True OSA_TIMEOUT_FOREVER (po_free p) of
     Return (st, Some b) q sig \<Rightarrow> Some (b, p\<lparr>po_free := q\<rparr>) | _ \<Rightarrow> None)"

definition put_filled :: "pool_id \<Rightarrow> bitsbuf \<Rightarrow> int \<Rightarrow> pool \<Rightarrow> pool option" where
  "put_filled k src b p =
    (if b < 0 \<or> int (length (bt_tbl (po_tbl p))) \<le> b then None
     else case fill_buf k (be_bitBuf (bt_tbl (po_tbl p) ! nat b)) src of None \<Rightarrow> None
     | Some buf \<Rightarrow>
         (case OSA_quePut b OSA_TIMEOUT_NONE (po_full p) of
            Return st q sig \<Rightarrow> Some (p\<lparr>po_tbl := upd_entry (nat b) (be_bitBuf_update (\<lambda>_. buf)) (po_tbl p), po_full := q\<rparr>)
          | Wait c \<Rightarrow> None))"

text \<open>The consumer polls the full queue; at the end of a round it frees the buffer, allocates one and
  puts that into the free queue.  The result of the put is not looked at.\<close>

definition get_full :: "pool \<Rightarrow> int option \<times> pool" where
  "get_full p = (case OSA_queGet True OSA_TIMEOUT_NONE (po_full p) of
     Return (st, b) q sig \<Rightarrow> (if st = OSA_EFAIL then None else b, p\<lparr>po_full := q\<rparr>) | Wait c \<Rightarrow> (None, p))"

definition give_back :: "int \<Rightarrow> pool \<Rightarrow> pool" where
  "give_back b p = (case OSA_quePut b OSA_TIMEOUT_NONE (po_free p) of Return st q sig \<Rightarrow> p\<lparr>po_free := q\<rparr> | Wait c \<Rightarrow> p)"

section \<open>Conservation\<close>

lemma length_upd_entry [simp]: "length (bt_tbl (upd_entry i f t)) = length (bt_tbl t)" "bt_freeIndex (upd_entry i f t) = bt_freeIndex t"
  by (simp_all add: upd_entry_def)

lemma upd_entry_nth: "j < length (bt_tbl t) \<Longrightarrow> bt_tbl (upd_entry i f t) ! j = (if j = i then f (bt_tbl t ! i) else bt_tbl t ! j)"
  by (simp add: upd_entry_def nth_list_update)

text \<open>Every entry but the last has its memory; the last one ends the list of free entries.\<close>

definition tbl_ok :: "pool_id \<Rightarrow> buf_tbl \<Rightarrow> bool" where
  "tbl_ok k t \<longleftrightarrow> length (bt_tbl t) = tbl_len k \<and> be_nextFreeIndex (bt_tbl t ! (tbl_len k - 1)) = WRITER_BUFINFO_INVALIDID
     \<and> (\<forall>i < tbl_len k - 1. \<exists>m. bb_bufVirtAddr (be_bitBuf (bt_tbl t ! i)) = Some m \<and> length m = buf_size k)"

text \<open>Each of these buffers is in one place: a queue, a thread, or, between the two steps of the
  consumer, at the head of the list of free entries.\<close>

definition pool_inv :: "pool_id \<Rightarrow> int multiset \<Rightarrow> nat option \<Rightarrow> pool \<Rightarrow> bool" where
  "pool_inv k held freed p \<longleftrightarrow> tbl_ok k (po_tbl p) \<and> que_ok (po_free p) \<and> que_ok (po_full p) \<and> q_len (po_free p) = tbl_len k \<and> q_len (po_full p) = tbl_len k
     \<and> (case freed of None \<Rightarrow> bt_freeIndex (po_tbl p) = tbl_len k - 1
        | Some b \<Rightarrow> b < tbl_len k - 1 \<and> bt_freeIndex (po_tbl p) = b \<and> be_nextFreeIndex (bt_tbl (po_tbl p) ! b) = tbl_len k - 1)
     \<and> mset (que_elems (po_free p)) + mset (que_elems (po_full p)) + held + (case freed of None \<Rightarrow> {#} | Some b \<Rightarrow> {#int b#})
       = image_mset int (mset [0..<tbl_len k - 1])"

lemma tbl_len_pos: "3 < tbl_len k" "tbl_len k - 1 < WRITER_BUFINFO_INVALIDID"
  by (cases k; simp add: const_defs)+

lemma inv_range:
  assumes "pool_inv k held freed p" "b \<in># mset (que_elems (po_free p)) + mset (que_elems (po_full p)) + held"
  shows "0 \<le> b" "nat b < tbl_len k - 1"
proof -
  have "b \<in># image_mset int (mset [0..<tbl_len k - 1])" using assms unfolding pool_inv_def by (metis union_iff)
  then show "0 \<le> b" "nat b < tbl_len k - 1" by auto
qed

lemma inv_distinct:
  assumes "pool_inv k (add_mset b held) freed p"
  shows "b \<notin> set (que_elems (po_free p))" "b \<notin> set (que_elems (po_full p))" "b \<notin># held"
proof -
  let ?M = "mset (que_elems (po_free p)) + mset (que_elems (po_full p)) + held + (case freed of None \<Rightarrow> {#} | Some b \<Rightarrow> {#int b#})"
  have e: "add_mset b ?M = image_mset int (mset [0..<tbl_len k - 1])" using assms by (simp add: pool_inv_def)
  have "count (image_mset int (mset [0..<tbl_len k - 1])) b \<le> 1"
  proof -
    have "image_mset int (mset [0..<tbl_len k - 1]) = mset (map int [0..<tbl_len k - 1])" by simp
    moreover have "distinct (map int [0..<tbl_len k - 1])" by (simp add: distinct_map)
    ultimately show ?thesis by (simp add: distinct_count_atmost_1)
  qed
  then have "count ?M b = 0" unfolding e [symmetric] by simp
  then show "b \<notin> set (que_elems (po_free p))" "b \<notin> set (que_elems (po_full p))" "b \<notin># held" by (auto simp: count_eq_zero_iff)
qed

lemma inv_size:
  assumes "pool_inv k held freed p"
  shows "q_count (po_free p) + q_count (po_full p) + size held + (case freed of None \<Rightarrow> 0 | Some b \<Rightarrow> 1) = tbl_len k - 1"
proof -
  have "size (mset (que_elems (po_free p)) + mset (que_elems (po_full p)) + held + (case freed of None \<Rightarrow> {#} | Some b \<Rightarrow> {#int b#})) = tbl_len k - 1"
    using assms by (simp add: pool_inv_def)
  then show ?thesis by (cases freed) simp_all
qed

text \<open>The steps.\<close>

lemma get_free_inv:
  assumes "pool_inv k held freed p"
  shows "get_free p = None \<longleftrightarrow> que_elems (po_free p) = []"
    "get_free p = Some (b, p') \<Longrightarrow> pool_inv k (add_mset b held) freed p' \<and> po_tbl p' = po_tbl p \<and> po_full p' = po_full p"
proof -
  have q: "que_ok (po_free p)" using assms by (simp add: pool_inv_def)
  have e: "get_free p = None" if "que_elems (po_free p) = []"
    using queGet_empty [OF that, of True OSA_TIMEOUT_FOREVER] by (simp add: get_free_def OSA_TIMEOUT_FOREVER_def OSA_TIMEOUT_NONE_def)
  have ne: "\<exists>q'. get_free p = Some (x, p\<lparr>po_free := q'\<rparr>) \<and> que_ok q' \<and> que_elems q' = xs \<and> q_len q' = q_len (po_free p)" if xs: "que_elems (po_free p) = x # xs" for x xs
  proof -
    obtain q' where "OSA_queGet True OSA_TIMEOUT_FOREVER (po_free p) = Return (OSA_SOK, Some x) q' (Some CondWr)" "que_ok q'" "que_elems q' = xs" "q_len q' = q_len (po_free p)"
      using queGet_elem [OF q xs, of True OSA_TIMEOUT_FOREVER] by auto
    then show ?thesis by (auto simp: get_free_def)
  qed
  show "get_free p = None \<longleftrightarrow> que_elems (po_free p) = []" using e ne by (cases "que_elems (po_free p)") auto
  assume g: "get_free p = Some (b, p')"
  then obtain x xs where xs: "que_elems (po_free p) = x # xs" using e by (cases "que_elems (po_free p)") auto
  from ne [OF xs] g assms xs show "pool_inv k (add_mset b held) freed p' \<and> po_tbl p' = po_tbl p \<and> po_full p' = po_full p"
    by (auto simp: pool_inv_def cong: option.case_cong)
qed

lemma get_full_inv:
  assumes "pool_inv k held freed p"
  shows "que_elems (po_full p) = [] \<Longrightarrow> get_full p = (None, p)"
    "que_elems (po_full p) = b # bs \<Longrightarrow> \<exists>p'. get_full p = (Some b, p') \<and> pool_inv k (add_mset b held) freed p' \<and> po_tbl p' = po_tbl p \<and> que_elems (po_full p') = bs"
proof -
  have q: "que_ok (po_full p)" using assms by (simp add: pool_inv_def)
  show "get_full p = (None, p)" if "que_elems (po_full p) = []"
    using queGet_empty [OF that, of True OSA_TIMEOUT_NONE] by (simp add: get_full_def)
  show "\<exists>p'. get_full p = (Some b, p') \<and> pool_inv k (add_mset b held) freed p' \<and> po_tbl p' = po_tbl p \<and> que_elems (po_full p') = bs"
    if bs: "que_elems (po_full p) = b # bs"
  proof -
    obtain q' where q': "OSA_queGet True OSA_TIMEOUT_NONE (po_full p) = Return (OSA_SOK, Some b) q' (Some CondWr)" "que_ok q'" "que_elems q' = bs" "q_len q' = q_len (po_full p)"
      using queGet_elem [OF q bs, of True OSA_TIMEOUT_NONE] by auto
    have "get_full p = (Some b, p\<lparr>po_full := q'\<rparr>)" using q'(1) by (simp add: get_full_def const_defs)
    then show ?thesis using assms q' bs by (intro exI [of _ "p\<lparr>po_full := q'\<rparr>"]) (auto simp: pool_inv_def cong: option.case_cong)
  qed
qed

lemma give_back_inv:
  assumes inv: "pool_inv k (add_mset b held) freed p"
  shows "pool_inv k held freed (give_back b p) \<and> po_tbl (give_back b p) = po_tbl p \<and> po_full (give_back b p) = po_full p"
proof -
  have q: "que_ok (po_free p)" "q_count (po_free p) < q_len (po_free p)"
    using inv inv_size [OF inv] tbl_len_pos(1) [of k] by (simp_all add: pool_inv_def)
  obtain q' where "OSA_quePut b OSA_TIMEOUT_NONE (po_free p) = Return OSA_SOK q' (Some CondRd)" "que_ok q'" "que_elems q' = que_elems (po_free p) @ [b]" "q_len q' = q_len (po_free p)"
    using quePut_room [OF q, of b OSA_TIMEOUT_NONE] by auto
  then show ?thesis using inv by (simp add: give_back_def pool_inv_def cong: option.case_cong)
qed

text \<open>The frame that a buffer holds.\<close>

definition carries :: "pool_id \<Rightarrow> bitsbuf \<Rightarrow> bitsbuf \<Rightarrow> bool" where
  "carries k buf f \<longleftrightarrow> bb_chnId buf = bb_chnId f \<and> bb_filledBufSize buf = bb_filledBufSize f \<and> bb_codecType buf = bb_codecType f
     \<and> (if video_pool k then bb_frameType buf = bb_frameType f \<and> bb_frameWidth buf = bb_frameWidth f \<and> bb_frameHeight buf = bb_frameHeight f
        else bb_fieldId buf = bb_fieldId f)
     \<and> (\<exists>m m'. bb_bufVirtAddr buf = Some m \<and> bb_bufVirtAddr f = Some m' \<and> bb_filledBufSize f \<le> length m \<and> bb_filledBufSize f \<le> length m'
          \<and> take (bb_filledBufSize f) m = take (bb_filledBufSize f) m')"

text \<open>A frame of the encoder that fits.\<close>

definition fits_pool :: "pool_id \<Rightarrow> bitsbuf \<Rightarrow> bool" where
  "fits_pool k f \<longleftrightarrow> (\<exists>m. bb_bufVirtAddr f = Some m \<and> bb_filledBufSize f \<le> length m) \<and> bb_filledBufSize f \<le> buf_size k"

lemma copy_mem_ok:
  assumes "bb_bufVirtAddr dst = Some m" "n \<le> length src" "n \<le> length m"
  shows "copy_mem n src dst = Some (upd_mem (Some (take n src @ drop n m)) dst)"
  using assms by (simp add: copy_mem_def)

lemma fill_buf_ok:
  assumes "fits_pool k f" "bb_bufVirtAddr buf = Some m" "length m = buf_size k"
  shows "\<exists>buf'. fill_buf k buf f = Some buf' \<and> carries k buf' f \<and> (\<exists>m'. bb_bufVirtAddr buf' = Some m' \<and> length m' = buf_size k)"
  using assms by (auto simp: fits_pool_def fill_buf_def WRITER_videoCopyBufDataMem2Mem_def audio_fill_def copy_mem_def WRITER_videoCopyBufInfo_def carries_def upd_mem_def)

lemma put_filled_inv:
  assumes inv: "pool_inv k (add_mset b held) freed p" and f: "fits_pool k f"
  shows "\<exists>p'. put_filled k f b p = Some p' \<and> pool_inv k held freed p' \<and> que_elems (po_full p') = que_elems (po_full p) @ [b] \<and> po_free p' = po_free p
    \<and> carries k (be_bitBuf (bt_tbl (po_tbl p') ! nat b)) f \<and> (\<forall>j. j \<noteq> nat b \<longrightarrow> bt_tbl (po_tbl p') ! j = bt_tbl (po_tbl p) ! j)"
proof -
  have t: "tbl_ok k (po_tbl p)" and q: "que_ok (po_full p)" "q_count (po_full p) < q_len (po_full p)"
    using inv inv_size [OF inv] tbl_len_pos(1) [of k] by (simp_all add: pool_inv_def)
  have b: "0 \<le> b" "nat b < tbl_len k - 1" using inv_range [OF inv, of b] by simp_all
  then have bl: "nat b < length (bt_tbl (po_tbl p))" using t by (simp add: tbl_ok_def)
  obtain m where m: "bb_bufVirtAddr (be_bitBuf (bt_tbl (po_tbl p) ! nat b)) = Some m" "length m = buf_size k" using t b(2) by (auto simp: tbl_ok_def)
  obtain buf' m' where buf': "fill_buf k (be_bitBuf (bt_tbl (po_tbl p) ! nat b)) f = Some buf'" "carries k buf' f" "bb_bufVirtAddr buf' = Some m'" "length m' = buf_size k"
    using fill_buf_ok [OF f m] by blast
  obtain q' where q': "OSA_quePut b OSA_TIMEOUT_NONE (po_full p) = Return OSA_SOK q' (Some CondRd)" "que_ok q'" "que_elems q' = que_elems (po_full p) @ [b]" "q_len q' = q_len (po_full p)"
    using quePut_room [OF q, of b OSA_TIMEOUT_NONE] by auto
  let ?t = "upd_entry (nat b) (be_bitBuf_update (\<lambda>_. buf')) (po_tbl p)"
  have put: "put_filled k f b p = Some (p\<lparr>po_tbl := ?t, po_full := q'\<rparr>)" using b(1) bl buf'(1) q'(1) by (simp add: put_filled_def)
  have nth: "bt_tbl ?t ! j = (if j = nat b then (bt_tbl (po_tbl p) ! j)\<lparr>be_bitBuf := buf'\<rparr> else bt_tbl (po_tbl p) ! j)" for j
    by (cases "j < length (bt_tbl (po_tbl p))") (use bl in \<open>auto simp: upd_entry_def nth_list_update list_update_beyond\<close>)
  have "tbl_ok k ?t" using t buf'(3,4) by (auto simp: tbl_ok_def nth)
  then have "pool_inv k held freed (p\<lparr>po_tbl := ?t, po_full := q'\<rparr>)" using inv q' by (auto simp: pool_inv_def nth split: option.splits)
  then show ?thesis using put q'(3) buf'(2) nth by (intro exI [of _ "p\<lparr>po_tbl := ?t, po_full := q'\<rparr>"]) auto
qed

text \<open>Freeing and allocating: the index is in the table, and the same buffer comes back, never the one
  without memory.\<close>

lemma tbl_free_inv:
  assumes inv: "pool_inv k (add_mset b held) None p"
  shows "\<exists>t. tbl_free b (po_tbl p) = Some t \<and> pool_inv k held (Some (nat b)) (p\<lparr>po_tbl := t\<rparr>) \<and> (\<forall>j. be_bitBuf (bt_tbl t ! j) = be_bitBuf (bt_tbl (po_tbl p) ! j))"
proof -
  have t: "tbl_ok k (po_tbl p)" using inv by (simp add: pool_inv_def)
  have b: "0 \<le> b" "nat b < tbl_len k - 1" using inv_range [OF inv, of b] by simp_all
  then have bl: "nat b < length (bt_tbl (po_tbl p))" using t by (simp add: tbl_ok_def)
  let ?t = "(upd_entry (nat b) (be_nextFreeIndex_update (\<lambda>_. tbl_len k - 1)) (po_tbl p))\<lparr>bt_freeIndex := nat b\<rparr>"
  have nth: "bt_tbl ?t ! j = (if j = nat b then (bt_tbl (po_tbl p) ! j)\<lparr>be_nextFreeIndex := tbl_len k - 1\<rparr> else bt_tbl (po_tbl p) ! j)" for j
    by (cases "j < length (bt_tbl (po_tbl p))") (use bl in \<open>auto simp: upd_entry_def nth_list_update list_update_beyond\<close>)
  have fr: "tbl_free b (po_tbl p) = Some ?t" using inv b bl by (simp add: tbl_free_def pool_inv_def)
  have "length (bt_tbl ?t) = length (bt_tbl (po_tbl p))" by simp
  then have "tbl_ok k ?t" using t b(2) by (simp only: tbl_ok_def nth) simp
  moreover have "mset (que_elems (po_free p)) + mset (que_elems (po_full p)) + held + {#int (nat b)#} = image_mset int (mset [0..<tbl_len k - 1])"
    using inv b(1) by (simp add: pool_inv_def)
  ultimately have "pool_inv k held (Some (nat b)) (p\<lparr>po_tbl := ?t\<rparr>)" using inv b(2) nth [of "nat b"] unfolding pool_inv_def by simp
  then show ?thesis using fr nth by (intro exI [of _ ?t]) simp
qed

lemma tbl_alloc_inv:
  assumes inv: "pool_inv k held (Some b) p"
  shows "\<exists>t. tbl_alloc (po_tbl p) = Some (b, t) \<and> pool_inv k (add_mset (int b) held) None (p\<lparr>po_tbl := t\<rparr>) \<and> (\<forall>j. be_bitBuf (bt_tbl t ! j) = be_bitBuf (bt_tbl (po_tbl p) ! j))"
proof -
  have t: "tbl_ok k (po_tbl p)" and b: "b < tbl_len k - 1" "bt_freeIndex (po_tbl p) = b" "be_nextFreeIndex (bt_tbl (po_tbl p) ! b) = tbl_len k - 1"
    using inv by (simp_all add: pool_inv_def)
  then have bl: "b < length (bt_tbl (po_tbl p))" "b \<noteq> WRITER_BUFINFO_INVALIDID" using tbl_len_pos(2) [of k] by (auto simp: tbl_ok_def)
  let ?t = "upd_entry b (be_nextFreeIndex_update (\<lambda>_. WRITER_BUFINFO_INVALIDID)) ((po_tbl p)\<lparr>bt_freeIndex := tbl_len k - 1\<rparr>)"
  have nth: "bt_tbl ?t ! j = (if j = b then (bt_tbl (po_tbl p) ! j)\<lparr>be_nextFreeIndex := WRITER_BUFINFO_INVALIDID\<rparr> else bt_tbl (po_tbl p) ! j)" for j
    by (cases "j < length (bt_tbl (po_tbl p))") (use bl in \<open>auto simp: upd_entry_def nth_list_update list_update_beyond\<close>)
  have al: "tbl_alloc (po_tbl p) = Some (b, ?t)" using b bl by (simp add: tbl_alloc_def Let_def)
  have "length (bt_tbl ?t) = length (bt_tbl (po_tbl p))" by simp
  then have "tbl_ok k ?t" using t by (simp only: tbl_ok_def nth) simp
  then have "pool_inv k (add_mset (int b) held) None (p\<lparr>po_tbl := ?t\<rparr>)" using inv by (simp add: pool_inv_def)
  then show ?thesis using al nth by (intro exI [of _ ?t]) simp
qed

section \<open>The set-up\<close>

definition half_filled :: "pool_id \<Rightarrow> nat \<Rightarrow> pool \<Rightarrow> bool" where
  "half_filled k j p \<longleftrightarrow> tbl_ok k (po_tbl p) \<and> que_ok (po_free p) \<and> q_len (po_free p) = tbl_len k \<and> que_elems (po_free p) = map int [0..<j]
     \<and> bt_freeIndex (po_tbl p) = j \<and> (\<forall>i. j \<le> i \<and> i < tbl_len k - 1 \<longrightarrow> be_nextFreeIndex (bt_tbl (po_tbl p) ! i) = Suc i)"

lemma fill_loop_ok:
  "half_filled k j p \<Longrightarrow> j + n = tbl_len k - 1 \<Longrightarrow> \<exists>p'. fill_loop n p = Some p' \<and> half_filled k (tbl_len k - 1) p' \<and> po_full p' = po_full p"
proof (induction n arbitrary: j p)
  case 0
  then show ?case by simp
next
  case (Suc n)
  have j: "j < tbl_len k - 1" using Suc.prems(2) by simp
  have t: "tbl_ok k (po_tbl p)" "bt_freeIndex (po_tbl p) = j" "be_nextFreeIndex (bt_tbl (po_tbl p) ! j) = Suc j"
    using Suc.prems(1) j by (simp_all add: half_filled_def)
  have jl: "j < length (bt_tbl (po_tbl p))" "j \<noteq> WRITER_BUFINFO_INVALIDID" using t(1) j tbl_len_pos(2) [of k] by (auto simp: tbl_ok_def)
  let ?t = "upd_entry j (be_nextFreeIndex_update (\<lambda>_. WRITER_BUFINFO_INVALIDID)) ((po_tbl p)\<lparr>bt_freeIndex := Suc j\<rparr>)"
  have nth: "bt_tbl ?t ! i = (if i = j then (bt_tbl (po_tbl p) ! i)\<lparr>be_nextFreeIndex := WRITER_BUFINFO_INVALIDID\<rparr> else bt_tbl (po_tbl p) ! i)" for i
    by (cases "i < length (bt_tbl (po_tbl p))") (use jl in \<open>auto simp: upd_entry_def nth_list_update list_update_beyond\<close>)
  have al: "tbl_alloc (po_tbl p) = Some (j, ?t)" using t(2,3) jl by (simp add: tbl_alloc_def Let_def)
  have "length (que_elems (po_free p)) = j" using Suc.prems(1) by (simp add: half_filled_def)
  then have q: "que_ok (po_free p)" "q_count (po_free p) < q_len (po_free p)" using Suc.prems(1) j by (simp_all add: half_filled_def)
  obtain q' where q': "OSA_quePut (int j) OSA_TIMEOUT_NONE (po_free p) = Return OSA_SOK q' (Some CondRd)" "que_ok q'" "que_elems q' = que_elems (po_free p) @ [int j]" "q_len q' = q_len (po_free p)"
    using quePut_room [OF q, of "int j" OSA_TIMEOUT_NONE] by auto
  have "length (bt_tbl ?t) = length (bt_tbl (po_tbl p))" by simp
  then have "tbl_ok k ?t" using t(1) by (simp only: tbl_ok_def nth) simp
  then have "half_filled k (Suc j) (p\<lparr>po_tbl := ?t, po_free := q'\<rparr>)"
    using Suc.prems(1) q' nth unfolding half_filled_def by simp
  from Suc.IH [OF this] Suc.prems(2) al q'(1) show ?case by simp
qed

lemma fold_link:
  "n \<le> length (bt_tbl t) \<Longrightarrow>
    length (bt_tbl (fold (\<lambda>i. upd_entry i (\<lambda>e. e\<lparr>be_nextFreeIndex := i + 1, be_bitBuf := upd_mem (alloc i) (be_bitBuf e)\<rparr>)) [0..<n] t)) = length (bt_tbl t)
    \<and> (\<forall>i < n. be_nextFreeIndex (bt_tbl (fold (\<lambda>i. upd_entry i (\<lambda>e. e\<lparr>be_nextFreeIndex := i + 1, be_bitBuf := upd_mem (alloc i) (be_bitBuf e)\<rparr>)) [0..<n] t) ! i) = Suc i
        \<and> bb_bufVirtAddr (be_bitBuf (bt_tbl (fold (\<lambda>i. upd_entry i (\<lambda>e. e\<lparr>be_nextFreeIndex := i + 1, be_bitBuf := upd_mem (alloc i) (be_bitBuf e)\<rparr>)) [0..<n] t) ! i)) = alloc i)"
proof (induction n)
  case (Suc n)
  then show ?case by (auto simp: upd_entry_nth less_Suc_eq upd_mem_def)
qed simp

lemma initPool_inv:
  assumes t: "length (bt_tbl t) = tbl_len k" and alloc: "\<forall>i < tbl_len k - 1. \<exists>m. alloc i = Some m \<and> length m = buf_size k"
    and q: "que_ok free" "que_ok full" "que_elems free = []" "que_elems full = []" "q_len free = tbl_len k" "q_len full = tbl_len k"
  shows "\<exists>p. WRITER_initPool k free full (tbl_link alloc t) = Some p \<and> pool_inv k {#} None p \<and> que_elems (po_full p) = []"
proof -
  let ?n = "tbl_len k - 1"
  have n: "?n \<le> length (bt_tbl t)" "?n < length (bt_tbl t)" using t tbl_len_pos(1) [of k] by simp_all
  note f = fold_link [OF n(1), of alloc]
  have l: "length (bt_tbl (tbl_link alloc t)) = tbl_len k" "bt_freeIndex (tbl_link alloc t) = 0" using f t by (simp_all add: tbl_link_def Let_def)
  have nth: "be_nextFreeIndex (bt_tbl (tbl_link alloc t) ! i) = (if i = ?n then WRITER_BUFINFO_INVALIDID else Suc i)"
    "i < ?n \<Longrightarrow> bb_bufVirtAddr (be_bitBuf (bt_tbl (tbl_link alloc t) ! i)) = alloc i" if "i < tbl_len k" for i
    using f n t that by (auto simp: tbl_link_def Let_def upd_entry_nth)
  have "tbl_ok k (tbl_link alloc t)"
    using l nth alloc tbl_len_pos(1) [of k] by (simp add: tbl_ok_def)
  then have "half_filled k 0 \<lparr>po_tbl = tbl_link alloc t, po_free = free, po_full = full\<rparr>" using q l nth by (simp add: half_filled_def)
  from fill_loop_ok [OF this, of ?n] obtain p where p: "WRITER_initPool k free full (tbl_link alloc t) = Some p" "half_filled k ?n p" "po_full p = full"
    by (auto simp: WRITER_initPool_def)
  have "pool_inv k {#} None p" using p(2,3) q by (simp add: half_filled_def pool_inv_def)
  with p q show ?thesis by auto
qed

end
