(* ===== verification/Basket_Disk.thy ===== *)
theory Basket_Disk
  imports Basket_Restart "HOL-Library.Signed_Division"
begin

text \<open>Disks before they are recorded on (src/basket_rec.c): making and clearing the basket
  files of a disk, the ring of the mounted disks, and the choice of the disk to record
  on.\<close>

section \<open>State\<close>

text \<open>\<open>T_TOPMGR\<close>, the file that makes a disk one of this recorder; the third component of the state maps a
  disk to it: None is a missing file, Some None an empty one.\<close>

record top_mgr =
  tm_id :: int
  tm_hddIdx :: int
  tm_nextHddIdx :: int
  tm_formatDate :: int
  tm_initUsedSize :: int
  tm_reserved2 :: int
  tm_dvrMAC :: "int list"

record fmt_world =
  fw_rec :: rec_world
  fw_top :: "nat \<Rightarrow> top_mgr option option"

text \<open>What a call reads from the system: the environment of the recorder, the address of
  the network interface, \<open>get_dvr_disk_info\<close> (state and directory of each device; None: it
  fails), \<open>statfs\<close> (free blocks and their size), \<open>get_dvr_disk_size\<close>, and what the
  uninitialised local structures hold.\<close>

record fmt_env =
  fe_bkt :: bkt_env
  fe_mac :: "int list"
  fe_devs :: "(int \<times> nat) list option"
  fe_statfs :: "(int \<times> int) option"
  fe_used :: int
  fe_tm :: top_mgr
  fe_hm :: hdd_mgr

definition DONE_EXT3 :: int where [const_defs]: "DONE_EXT3 = 4"
definition ID_TOPMGR_HEADER :: int where [const_defs]: "ID_TOPMGR_HEADER = 0xA0000001 - 2 ^ 32"

abbreviation upd_rec :: "(rec_world \<Rightarrow> rec_world) \<Rightarrow> fmt_world \<Rightarrow> fmt_world" where
  "upd_rec f s \<equiv> s\<lparr>fw_rec := f (fw_rec s)\<rparr>"

text \<open>A change of one disk.\<close>

definition on_disk :: "nat \<Rightarrow> (bkt_disk \<Rightarrow> bkt_disk) \<Rightarrow> fmt_world \<Rightarrow> fmt_world" where
  "on_disk p f s = upd_rec (\<lambda>w. w\<lparr>rw_disks := (rw_disks w)(p := f (rw_disks w p))\<rparr>) s"

section \<open>Counting baskets\<close>

definition BKT_SIZE :: int where [const_defs]: "BKT_SIZE = BASKET_SIZE div SIZE_MB"

text \<open>The header of the manager, read by \<open>BKTREC_BasketInfo\<close> and its variant over all disks.\<close>

definition BKTREC_BasketInfo :: "bkt_env \<Rightarrow> nat \<Rightarrow> rec_world \<Rightarrow> int \<times> int \<times> int" where
  "BKTREC_BasketInfo ev diskpath w =
    (case dk_mgr (rw_disks w diskpath) of None \<Rightarrow> (BKT_ERR, 0, BKT_SIZE)
     | Some m \<Rightarrow> if \<not> sys_ok ev 204 \<or> \<not> sys_ok ev 210 then (BKT_ERR, 0, BKT_SIZE) else (1, mf_bkt_count m, BKT_SIZE))"

fun total_loop :: "bkt_env \<Rightarrow> nat list \<Rightarrow> int \<Rightarrow> rec_world \<Rightarrow> (int \<times> int) \<times> rec_world" where
  "total_loop ev [] bktcnt w = ((1, bktcnt), w)"
| "total_loop ev (i # ixs) bktcnt w =
    (let h = mi_hddInfo (rw_mount w) ! i in
     if \<not> hi_isMounted h then total_loop ev ixs bktcnt w
     else case dk_mgr (rw_disks w (hi_mountDiskPath h)) of None \<Rightarrow> ((BKT_ERR, bktcnt), w)
     | Some m \<Rightarrow>
         if ev_io ev 104 i = Some 0 \<or> ev_io ev 110 i = Some 0 then ((BKT_ERR, bktcnt), w)
         else total_loop ev ixs (bktcnt + mf_bkt_count m)
           (if mi_curHddIdx (rw_mount w) = i then upd_ctrl (rc_bkt_cnt_update (\<lambda>_. mf_bkt_count m)) w else w))"

definition BKTREC_TotalBasketInfo :: "bkt_env \<Rightarrow> rec_world \<Rightarrow> (int \<times> int \<times> int) \<times> rec_world" where
  "BKTREC_TotalBasketInfo ev w =
    (if mi_hddCnt (rw_mount w) > 0
     then case total_loop ev [0..<MAX_HDD_COUNT] 0 w of ((st, cnt), w1) \<Rightarrow> ((st, cnt, BKT_SIZE), w1)
     else ((1, 0, BKT_SIZE), w))"

section \<open>Making the baskets of a disk\<close>

text \<open>The new file of a basket: its header, and zeros up to the size of a basket.\<close>

definition new_header :: "bkt_env \<Rightarrow> int \<Rightarrow> basket_hdr" where
  "new_header ev i = \<lparr>bh_id = ID_BASKET_HDR, bh_bid = i, bh_latest_update = ev_now ev, bh_lPriority = 0, bh_s_type = 0, bh_ts = no_time,
     bh_save_flag = 0, bh_totalframecount = 0, bh_reserved = 0\<rparr>"

definition truncated :: "nat \<Rightarrow> byte list \<Rightarrow> byte list" where
  "truncated n bs = take n bs @ replicate (n - length bs) 0"

definition new_body :: "int \<Rightarrow> nat \<Rightarrow> mgr_body" where
  "new_body i diskpath = \<lparr>mb_id = 0, mb_bid = i, mb_path = diskpath, mb_latest_update = 0, mb_lPriority = 0, mb_s_type = 0,
     mb_ts = no_time, mb_save_flag = 0, mb_lRecycleCount = 0\<rparr>"

definition put_file :: "fkind \<Rightarrow> nat \<Rightarrow> int \<Rightarrow> byte list \<Rightarrow> fmt_world \<Rightarrow> fmt_world" where
  "put_file k p i f s = upd_rec (\<lambda>w. w\<lparr>rw_disks := set_file k p i f (rw_disks w)\<rparr>) s"

text \<open>A round of the loop: the stream file, the index file, the entry of the manager.\<close>

definition create_round :: "bkt_env \<Rightarrow> nat \<Rightarrow> nat \<Rightarrow> fmt_world \<Rightarrow> bool \<times> fmt_world" where
  "create_round ev p i s =
    (if ev_io ev 400 i = Some 0 then (False, s)
     else
       let hdr = enc_basket_hdr (new_header ev (int i));
           out = (case ev_io ev 413 i of None \<Rightarrow> hdr | Some n \<Rightarrow> take n hdr) in
       if out = [] then (False, put_file Bkt p (int i) [] s)
       else
         let s1 = put_file Bkt p (int i) (if ev_io ev 423 i = Some 0 then out else truncated (nat BASKET_SIZE) out) s in
         if ev_io ev 427 i = Some 0 then (False, s1)
         else
           let s2 = put_file Idx p (int i) [] s1 in
           if ev_io ev 440 i = Some 0 then (False, s2)
           else (True, on_disk p (\<lambda>d. d\<lparr>dk_mgr := map_option (\<lambda>m. m\<lparr>mf_bodies := mf_bodies m @ [new_body (int i) p]\<rparr>) (dk_mgr d)\<rparr>) s2))"

fun create_loop :: "bkt_env \<Rightarrow> nat \<Rightarrow> nat list \<Rightarrow> fmt_world \<Rightarrow> bool \<times> fmt_world" where
  "create_loop ev p [] s = (True, s)"
| "create_loop ev p (i # ixs) s = (case create_round ev p i s of (False, s1) \<Rightarrow> (False, s1) | (True, s1) \<Rightarrow> create_loop ev p ixs s1)"

text \<open>The first free place among the disks.  Until its header is written, a new manager file
  counts as missing.\<close>

definition free_slot :: "mount_info \<Rightarrow> nat option" where
  "free_slot m = List.find (\<lambda>i. \<not> hi_isMounted (mi_hddInfo m ! i)) [0..<MAX_HDD_COUNT]"

definition set_top :: "nat \<Rightarrow> top_mgr option \<Rightarrow> fmt_world \<Rightarrow> fmt_world" where
  "set_top p t s = s\<lparr>fw_top := (fw_top s)(p := Some t)\<rparr>"

definition new_top :: "fmt_env \<Rightarrow> nat \<Rightarrow> top_mgr" where
  "new_top fe i = (fe_tm fe)\<lparr>tm_id := ID_TOPMGR_HEADER, tm_hddIdx := int i, tm_formatDate := ev_now (fe_bkt fe), tm_dvrMAC := fe_mac fe,
     tm_initUsedSize := off32 (fe_used fe + 4)\<rparr>"

definition new_mgr :: "fmt_env \<Rightarrow> nat \<Rightarrow> int \<Rightarrow> mgr_file" where
  "new_mgr fe i bkt_count = \<lparr>mf_id = ID_BKTMGR_HEADER, mf_mgrid = int i, mf_date = ev_now (fe_bkt fe), mf_latest_update = ev_now (fe_bkt fe),
     mf_bkt_count = bkt_count, mf_bodies = []\<rparr>"

definition BKTREC_CreateBasketFiles :: "fmt_env \<Rightarrow> nat \<Rightarrow> int \<Rightarrow> int \<Rightarrow> fmt_world \<Rightarrow> int \<times> fmt_world" where
  "BKTREC_CreateBasketFiles fe diskpath bkt_size bkt_count s =
    (let ev = fe_bkt fe in
     if diskpath = 0 \<or> bkt_count < 2 \<or> \<not> sys_ok ev 315 then (BKT_ERR, s)
     else
       let s1 = set_top diskpath None s in
       case free_slot (rw_mount (fw_rec s1)) of
         None \<Rightarrow> (BKT_OVERHDD, s1)
       | Some i \<Rightarrow>
           if \<not> sys_ok ev 366 then (BKT_ERR, s1)
           else if \<not> sys_ok ev 388 then (BKT_ERR, on_disk diskpath (dk_mgr_update (\<lambda>_. None)) s1)
           else case create_loop ev diskpath [1..<Suc (nat bkt_count)] (on_disk diskpath (dk_mgr_update (\<lambda>_. Some (new_mgr fe i bkt_count))) s1) of
             (False, s2) \<Rightarrow> (BKT_ERR, s2)
           | (True, s2) \<Rightarrow>
               if \<not> sys_ok ev 459 then (BKT_ERR, s2)
               else (bkt_count, upd_rec (rw_space_update (\<lambda>_. BKT_SPACE_REMAIN)) (set_top diskpath (Some (new_top fe i)) s2)))"

text \<open>How many baskets: the free space in MB less 1 percent, divided by the size, less one and
  5 percent.  C rounds towards zero.\<close>

definition basket_count :: "int \<Rightarrow> int" where
  "basket_count adjust_disk_size = (let n = adjust_disk_size sdiv BKT_SIZE - 1 in n - n sdiv 20)"

definition free_msize :: "(int \<times> int) option \<Rightarrow> int" where
  "free_msize st = (case st of None \<Rightarrow> 0 | Some (bfree, bsize) \<Rightarrow> bfree * bsize sdiv SIZE_MB)"

definition BKTREC_CreateBasket :: "fmt_env \<Rightarrow> nat \<Rightarrow> fmt_world \<Rightarrow> int \<times> fmt_world" where
  "BKTREC_CreateBasket fe diskpath s =
    (let msize = free_msize (fe_statfs fe); adjust_disk_size = msize - msize sdiv 100 in
     if adjust_disk_size < 0 then (BKT_ERR, s)
     else if basket_count adjust_disk_size < 2 then (BKT_ERR, s)
     else BKTREC_CreateBasketFiles fe diskpath BKT_SIZE (basket_count adjust_disk_size) s)"

section \<open>Clearing the baskets of a disk\<close>

text \<open>A round: both files become empty, and so does the entry of the manager.\<close>

definition cleared_body :: "bkt_env \<Rightarrow> mgr_body \<Rightarrow> mgr_body" where
  "cleared_body ev bd = \<lparr>mb_id = ID_BASKET_HDR, mb_bid = mb_bid bd, mb_path = mb_path bd, mb_latest_update = ev_now ev, mb_lPriority = 0,
     mb_s_type = 0, mb_ts = no_time, mb_save_flag = 0, mb_lRecycleCount = 0\<rparr>"

definition empty_file :: "bkt_env \<Rightarrow> nat \<Rightarrow> nat \<Rightarrow> fkind \<Rightarrow> mgr_body \<Rightarrow> fmt_world \<Rightarrow> bool \<times> fmt_world" where
  "empty_file ev l i k bd s =
    (if ev_io ev l i = Some 0 \<or> the_file (rw_disks (fw_rec s)) k (mb_path bd) (mb_bid bd) = None then (False, s)
     else (True, put_file k (mb_path bd) (mb_bid bd) [] s))"

definition clear_round :: "bkt_env \<Rightarrow> nat \<Rightarrow> nat \<Rightarrow> fmt_world \<Rightarrow> bool \<times> fmt_world" where
  "clear_round ev p i s =
    (case dk_mgr (rw_disks (fw_rec s) p) of None \<Rightarrow> (False, s)
     | Some m \<Rightarrow>
         if ev_io ev 566 i = Some 0 \<or> length (mf_bodies m) \<le> i then (False, s)
         else
           let bd = mf_bodies m ! i in
           case empty_file ev 574 i Bkt bd s of (False, s1) \<Rightarrow> (False, s1)
           | (True, s1) \<Rightarrow> (case empty_file ev 586 i Idx bd s1 of (False, s2) \<Rightarrow> (False, s2)
               | (True, s2) \<Rightarrow>
                   if ev_io ev 607 i = Some 0 \<or> ev_io ev 614 i = Some 0 then (False, s2)
                   else (True, on_disk p (\<lambda>d. d\<lparr>dk_mgr := map_option (\<lambda>m. m\<lparr>mf_bodies := (mf_bodies m)[i := cleared_body ev bd]\<rparr>) (dk_mgr d)\<rparr>) s2)))"

fun clear_loop :: "bkt_env \<Rightarrow> nat \<Rightarrow> nat list \<Rightarrow> fmt_world \<Rightarrow> bool \<times> fmt_world" where
  "clear_loop ev p [] s = (True, s)"
| "clear_loop ev p (i # ixs) s = (case clear_round ev p i s of (False, s1) \<Rightarrow> (False, s1) | (True, s1) \<Rightarrow> clear_loop ev p ixs s1)"

text \<open>The recorder is stopped first (the players are closed too, they have a state of their own);
  the removals are taken to succeed.\<close>

definition BKTREC_deleteBasket :: "fmt_env \<Rightarrow> nat \<Rightarrow> fmt_world \<Rightarrow> int \<times> fmt_world" where
  "BKTREC_deleteBasket fe path_in s =
    (let ev = fe_bkt fe;
         s1 = upd_rec (\<lambda>w. snd (BKTREC_exit ev SF_STOP BKT_REC_CLOSE_BUF_FLUSH w)) s;
         s2 = on_disk path_in (\<lambda>d. d\<lparr>dk_info := None, dk_rdb_dir := False, dk_rdb := Map.empty\<rparr>) s1 in
     case dk_mgr (rw_disks (fw_rec s2) path_in) of
       None \<Rightarrow> BKTREC_CreateBasket fe path_in s2
     | Some m \<Rightarrow>
         if \<not> sys_ok ev 548 \<or> \<not> sys_ok ev 554 then (BKT_ERR, s2)
         else case clear_loop ev path_in [0..<nat (mf_bkt_count m)] s2 of
           (False, s3) \<Rightarrow> (BKT_ERR, s3)
         | (True, s3) \<Rightarrow> (1, upd_rec (rw_space_update (\<lambda>_. BKT_SPACE_REMAIN)) s3))"

section \<open>The mounted disks\<close>

definition no_hdd :: hdd_info where
  "no_hdd = \<lparr>hi_isMounted = False, hi_prevHddIdx = 0, hi_nextHddIdx = 0, hi_formatDate = 0, hi_initUsedSize = 0, hi_mountDiskPath = 0\<rparr>"

definition no_mount :: mount_info where
  "no_mount = \<lparr>mi_hddCnt = 0, mi_curHddIdx = 0, mi_hddInfo = replicate MAX_HDD_COUNT no_hdd\<rparr>"

definition upd_hdd :: "nat \<Rightarrow> (hdd_info \<Rightarrow> hdd_info) \<Rightarrow> mount_info \<Rightarrow> mount_info" where
  "upd_hdd i f m = m\<lparr>mi_hddInfo := (mi_hddInfo m)[i := f (mi_hddInfo m ! i)]\<rparr>"

text \<open>A disk with the file of this recorder takes its place; of two with the same place the one
  formatted later.  A negative place is an access outside the array (None).\<close>

definition note_disk :: "top_mgr \<Rightarrow> nat \<Rightarrow> mount_info \<Rightarrow> mount_info option" where
  "note_disk tm dir m =
    (if tm_hddIdx tm < 0 then None
     else
       let i = nat (tm_hddIdx tm);
           take_place = (\<lambda>h. h\<lparr>hi_formatDate := tm_formatDate tm, hi_initUsedSize := tm_initUsedSize tm, hi_mountDiskPath := dir\<rparr>) in
       if \<not> hi_isMounted (mi_hddInfo m ! i) then Some (upd_hdd i (\<lambda>h. take_place (h\<lparr>hi_isMounted := True\<rparr>)) (m\<lparr>mi_hddCnt := mi_hddCnt m + 1\<rparr>))
       else if hi_formatDate (mi_hddInfo m ! i) < tm_formatDate tm then Some (upd_hdd i take_place m) else Some m)"

fun note_devs :: "bkt_env \<Rightarrow> int list \<Rightarrow> (nat \<Rightarrow> top_mgr option option) \<Rightarrow> nat \<Rightarrow> (int \<times> nat) list \<Rightarrow> mount_info \<Rightarrow> mount_info option" where
  "note_devs ev mac tops r [] m = Some m"
| "note_devs ev mac tops r ((state, dir) # devs) m =
    (case (if state = DONE_EXT3 \<and> ev_io ev 2998 r \<noteq> Some 0 \<and> ev_io ev 3000 r \<noteq> Some 0 then tops dir else None) of
       Some (Some tm) \<Rightarrow>
         (if tm_hddIdx tm < int MAX_HDD_COUNT \<and> tm_dvrMAC tm = mac
          then Option.bind (note_disk tm dir m) (note_devs ev mac tops (Suc r) devs) else note_devs ev mac tops (Suc r) devs m)
     | _ \<Rightarrow> note_devs ev mac tops (Suc r) devs m)"

text \<open>The ring: the state of the loop is the previous and the first mounted disk.\<close>

fun ring_loop :: "nat list \<Rightarrow> nat \<Rightarrow> nat option \<Rightarrow> mount_info \<Rightarrow> nat \<times> nat option \<times> mount_info" where
  "ring_loop [] prevIdx first m = (prevIdx, first, m)"
| "ring_loop (i # ixs) prevIdx first m =
    (if hi_isMounted (mi_hddInfo m ! i)
     then ring_loop ixs i (if first = None then Some i else first)
       (upd_hdd prevIdx (hi_nextHddIdx_update (\<lambda>_. i)) (upd_hdd i (hi_prevHddIdx_update (\<lambda>_. prevIdx)) m))
     else ring_loop ixs prevIdx first m)"

definition make_ring :: "mount_info \<Rightarrow> mount_info" where
  "make_ring m = (case ring_loop [0..<MAX_HDD_COUNT] 0 None m of
     (prevIdx, first, m1) \<Rightarrow>
       let firstIdx = (case first of None \<Rightarrow> 0 | Some i \<Rightarrow> i) in
       upd_hdd prevIdx (hi_nextHddIdx_update (\<lambda>_. firstIdx)) (upd_hdd firstIdx (hi_prevHddIdx_update (\<lambda>_. prevIdx)) m1))"

text \<open>The table of the mounted disks that a call leaves; its result is not defined.\<close>

definition BKTREC_updateHddInfo :: "fmt_env \<Rightarrow> (nat \<Rightarrow> top_mgr option option) \<Rightarrow> mount_info option" where
  "BKTREC_updateHddInfo fe tops =
    (case fe_devs fe of None \<Rightarrow> Some no_mount
     | Some devs \<Rightarrow> map_option make_ring (note_devs (fe_bkt fe) (fe_mac fe) tops 0 devs no_mount))"

section \<open>The disk to record on\<close>

text \<open>The next mounted disk after \<open>curid\<close>, or the first one.\<close>

definition next_mounted :: "int \<Rightarrow> mount_info \<Rightarrow> nat" where
  "next_mounted curid m =
    (case List.find (\<lambda>i. hi_isMounted (mi_hddInfo m ! i) \<and> int i > curid) [0..<MAX_HDD_COUNT] of
       Some i \<Rightarrow> i
     | None \<Rightarrow> (case List.find (\<lambda>i. hi_isMounted (mi_hddInfo m ! i)) [0..<MAX_HDD_COUNT] of Some i \<Rightarrow> i | None \<Rightarrow> 0))"

text \<open>The manager of the disks, read: a number that names no disk is an access outside the
  array; the result of the last write is only reported.\<close>

definition choose_disk :: "bkt_env \<Rightarrow> hdd_mgr \<Rightarrow> rec_world \<Rightarrow> rec_world option" where
  "choose_disk ev hm w =
    (let m = rw_mount w in
     if hm_curid hm < 0 then Some w
     else if hm_curid hm \<ge> int MAX_HDD_COUNT then None
     else if hi_isMounted (mi_hddInfo m ! nat (hm_curid hm)) then Some (w\<lparr>rw_mount := m\<lparr>mi_curHddIdx := nat (hm_curid hm)\<rparr>\<rparr>)
     else
       let i = next_mounted (hm_curid hm) m; w1 = w\<lparr>rw_mount := m\<lparr>mi_curHddIdx := i\<rparr>\<rparr> in
       Some (if sys_ok ev 2933 then w1\<lparr>rw_hddmgr := Some (Some (hm\<lparr>hm_curid := int i\<rparr>))\<rparr> else w1))"

definition BKTREC_getTargetDisk :: "fmt_env \<Rightarrow> fmt_world \<Rightarrow> (int \<times> fmt_world) option" where
  "BKTREC_getTargetDisk fe s =
    (let ev = fe_bkt fe in
     case BKTREC_updateHddInfo fe (fw_top s) of None \<Rightarrow> None
     | Some m \<Rightarrow>
         let s1 = upd_rec (\<lambda>w. w\<lparr>rw_mount := m\<rparr>) s in
         if mi_hddCnt m \<le> 0 then Some (1, s1)
         else if rw_hddmgr (fw_rec s) = None \<or> \<not> sys_ok ev 2858 then
           (if \<not> sys_ok ev 2860 then Some (BKT_ERR, s1)
            else if \<not> sys_ok ev 2868 then Some (BKT_ERR, upd_rec (\<lambda>w. w\<lparr>rw_mount := m\<lparr>mi_curHddIdx := 0\<rparr>, rw_hddmgr := Some None\<rparr>) s1)
            else Some (1, upd_rec (\<lambda>w. w\<lparr>rw_mount := m\<lparr>mi_curHddIdx := 0\<rparr>, rw_hddmgr := Some (Some ((fe_hm fe)\<lparr>hm_curid := 0\<rparr>))\<rparr>) s1))
         else (case rw_hddmgr (fw_rec s) of
             Some (Some hm) \<Rightarrow>
               (if \<not> sys_ok ev 2879 then Some (BKT_ERR, s1)
                else map_option (\<lambda>w. (1, s1\<lparr>fw_rec := w\<rparr>)) (choose_disk ev hm (fw_rec s1)))
           | _ \<Rightarrow> Some (BKT_ERR, s1)))"

end
