(* ===== verification/Basket_Setup.thy ===== *)
theory Basket_Setup
  imports Basket_Disk
begin

text \<open>The mounted disks form a ring, the disk chosen to record on is one of them, and a disk on
  which baskets have been made or cleared can be recorded on.\<close>

section \<open>The ring\<close>

definition nth_mounted :: "mount_info \<Rightarrow> nat list" where
  "nth_mounted m = filter (mounted m) [0..<length (mi_hddInfo m)]"

abbreviation next_of :: "mount_info \<Rightarrow> nat \<Rightarrow> nat" where "next_of m i \<equiv> hi_nextHddIdx (mi_hddInfo m ! i)"
abbreviation prev_of :: "mount_info \<Rightarrow> nat \<Rightarrow> nat" where "prev_of m i \<equiv> hi_prevHddIdx (mi_hddInfo m ! i)"

lemma upd_hdd_simps [simp]: "length (mi_hddInfo (upd_hdd i f m)) = length (mi_hddInfo m)" "mi_hddCnt (upd_hdd i f m) = mi_hddCnt m"
  "mi_curHddIdx (upd_hdd i f m) = mi_curHddIdx m"
  by (simp_all add: upd_hdd_def)

lemma upd_hdd_nth: "j < length (mi_hddInfo m) \<Longrightarrow> mi_hddInfo (upd_hdd i f m) ! j = (if j = i then f (mi_hddInfo m ! i) else mi_hddInfo m ! j)"
  by (simp add: upd_hdd_def nth_list_update)

text \<open>Only the links differ.\<close>

definition relinked :: "mount_info \<Rightarrow> mount_info \<Rightarrow> bool" where
  "relinked m' m \<longleftrightarrow> length (mi_hddInfo m') = length (mi_hddInfo m) \<and> mi_hddCnt m' = mi_hddCnt m \<and> mi_curHddIdx m' = mi_curHddIdx m
     \<and> (\<forall>i < length (mi_hddInfo m). \<exists>p n. mi_hddInfo m' ! i = (mi_hddInfo m ! i)\<lparr>hi_prevHddIdx := p, hi_nextHddIdx := n\<rparr>)"

lemma hdd_links: "\<exists>p n. (h :: hdd_info) = h\<lparr>hi_prevHddIdx := p, hi_nextHddIdx := n\<rparr>"
  by (rule exI [of _ "hi_prevHddIdx h"], rule exI [of _ "hi_nextHddIdx h"]) simp

lemma relinked_refl: "relinked m m"
  unfolding relinked_def using hdd_links by blast

lemma relinked_trans:
  assumes "relinked m2 m1" "relinked m1 m"
  shows "relinked m2 m"
  unfolding relinked_def
proof (intro conjI allI impI)
  fix i assume i: "i < length (mi_hddInfo m)"
  obtain p n where 1: "mi_hddInfo m1 ! i = (mi_hddInfo m ! i)\<lparr>hi_prevHddIdx := p, hi_nextHddIdx := n\<rparr>"
    using assms(2) i unfolding relinked_def by blast
  obtain p' n' where "mi_hddInfo m2 ! i = (mi_hddInfo m1 ! i)\<lparr>hi_prevHddIdx := p', hi_nextHddIdx := n'\<rparr>"
    using assms i unfolding relinked_def by metis
  then show "\<exists>p n. mi_hddInfo m2 ! i = (mi_hddInfo m ! i)\<lparr>hi_prevHddIdx := p, hi_nextHddIdx := n\<rparr>" unfolding 1 by simp blast
qed (use assms in \<open>simp_all add: relinked_def\<close>)

lemma relinked_upd: "relinked (upd_hdd i (hi_prevHddIdx_update (\<lambda>_. p)) m) m" "relinked (upd_hdd i (hi_nextHddIdx_update (\<lambda>_. n)) m) m"
proof -
  have p: "\<exists>q n. h\<lparr>hi_prevHddIdx := p\<rparr> = h\<lparr>hi_prevHddIdx := q, hi_nextHddIdx := n\<rparr>" for h :: hdd_info
    by (rule exI [of _ p], rule exI [of _ "hi_nextHddIdx h"]) simp
  have n: "\<exists>q k. h\<lparr>hi_nextHddIdx := n\<rparr> = h\<lparr>hi_prevHddIdx := q, hi_nextHddIdx := k\<rparr>" for h :: hdd_info
    by (rule exI [of _ "hi_prevHddIdx h"], rule exI [of _ n]) simp
  show "relinked (upd_hdd i (hi_prevHddIdx_update (\<lambda>_. p)) m) m" "relinked (upd_hdd i (hi_nextHddIdx_update (\<lambda>_. n)) m) m"
    using p n hdd_links by (auto simp: relinked_def upd_hdd_nth)
qed

lemma relinked_simps:
  assumes "relinked m' m"
  shows "mounted m' i = mounted m i" "mi_hddCnt m' = mi_hddCnt m" "mi_curHddIdx m' = mi_curHddIdx m" "length (mi_hddInfo m') = length (mi_hddInfo m)"
    "i < length (mi_hddInfo m) \<Longrightarrow> disk_path m' i = disk_path m i"
proof -
  have "i < length (mi_hddInfo m) \<Longrightarrow> hi_isMounted (mi_hddInfo m' ! i) = hi_isMounted (mi_hddInfo m ! i)
    \<and> hi_mountDiskPath (mi_hddInfo m' ! i) = hi_mountDiskPath (mi_hddInfo m ! i)"
    using assms unfolding relinked_def by force
  then show "mounted m' i = mounted m i" "i < length (mi_hddInfo m) \<Longrightarrow> disk_path m' i = disk_path m i"
    using assms by (auto simp: mounted_def relinked_def disk_path_def)
qed (use assms in \<open>simp_all add: relinked_def\<close>)

lemma relinked_mounted: "relinked m' m \<Longrightarrow> mounted m' = mounted m"
  using relinked_simps(1) by blast

text \<open>The loop: the disks seen so far are linked in their order.\<close>

definition linked :: "mount_info \<Rightarrow> nat list \<Rightarrow> bool" where
  "linked m ds \<longleftrightarrow> (\<forall>k. Suc k < length ds \<longrightarrow> next_of m (ds ! k) = ds ! Suc k \<and> prev_of m (ds ! Suc k) = ds ! k)"

lemma linked_snoc:
  assumes "linked m ds" "distinct (ds @ [i])" "set (ds @ [i]) \<subseteq> {..<length (mi_hddInfo m)}" "ds \<noteq> []"
  shows "linked (upd_hdd (last ds) (hi_nextHddIdx_update (\<lambda>_. i)) (upd_hdd i (hi_prevHddIdx_update (\<lambda>_. last ds)) m)) (ds @ [i])"
  unfolding linked_def
proof (intro allI impI)
  fix k assume k: "Suc k < length (ds @ [i])"
  have mem: "ds ! j < length (mi_hddInfo m)" "ds ! j \<noteq> i" if "j < length ds" for j
    using assms(2,3) that by (force simp: in_set_conv_nth)+
  have il: "i < length (mi_hddInfo m)" using assms(3) by simp
  have last: "last ds = ds ! (length ds - 1)" using assms(4) by (simp add: last_conv_nth)
  show "next_of (upd_hdd (last ds) (hi_nextHddIdx_update (\<lambda>_. i)) (upd_hdd i (hi_prevHddIdx_update (\<lambda>_. last ds)) m)) ((ds @ [i]) ! k) = (ds @ [i]) ! Suc k
    \<and> prev_of (upd_hdd (last ds) (hi_nextHddIdx_update (\<lambda>_. i)) (upd_hdd i (hi_prevHddIdx_update (\<lambda>_. last ds)) m)) ((ds @ [i]) ! Suc k) = (ds @ [i]) ! k"
  proof (cases "Suc k = length ds")
    case True
    then have "k = length ds - 1" by simp
    with last have l: "ds ! k = last ds" by simp
    show ?thesis using True mem [of k] il l by (simp add: nth_append upd_hdd_nth)
  next
    case False
    then have s: "Suc k < length ds" using k by simp
    have "ds ! k \<noteq> last ds" using assms(2) s last by (simp add: nth_eq_iff_index_eq)
    moreover have "next_of m (ds ! k) = ds ! Suc k" "prev_of m (ds ! Suc k) = ds ! k" using assms(1) s by (simp_all add: linked_def)
    ultimately show ?thesis using s mem [of k] mem [of "Suc k"] by (auto simp: nth_append upd_hdd_nth)
  qed
qed

lemma ring_loop_ok:
  assumes "ring_loop ixs prevIdx first m = (p', f', m')" "linked m ds" "distinct (ds @ ixs)" "set (ds @ ixs) \<subseteq> {..<length (mi_hddInfo m)}"
    "prevIdx = (if ds = [] then 0 else last ds)" "first = (if ds = [] then None else Some (hd ds))"
  defines "ds' \<equiv> ds @ filter (mounted m) ixs"
  shows "relinked m' m \<and> linked m' ds' \<and> p' = (if ds' = [] then 0 else last ds') \<and> f' = (if ds' = [] then None else Some (hd ds'))"
  using assms(1-6) unfolding ds'_def
proof (induction ixs arbitrary: prevIdx first m ds)
  case Nil
  then show ?case by (auto simp: relinked_refl)
next
  case (Cons i ixs)
  have il: "i < length (mi_hddInfo m)" using Cons.prems(4) by simp
  show ?case
  proof (cases "hi_isMounted (mi_hddInfo m ! i)")
    case False
    with Cons.prems(1) have r: "ring_loop ixs prevIdx first m = (p', f', m')" by simp
    have "\<not> mounted m i" using False by (simp add: mounted_def)
    with Cons.IH [OF r Cons.prems(2)] Cons.prems(3-6) show ?thesis by simp
  next
    case True
    define m1 where "m1 = upd_hdd prevIdx (hi_nextHddIdx_update (\<lambda>_. i)) (upd_hdd i (hi_prevHddIdx_update (\<lambda>_. prevIdx)) m)"
    have rl: "relinked m1 m" unfolding m1_def by (rule relinked_trans [OF relinked_upd(2) relinked_upd(1)])
    have mo: "mounted m i" using True il by (simp add: mounted_def)
    have lk: "linked m1 (ds @ [i])"
    proof (cases "ds = []")
      case False
      then show ?thesis unfolding m1_def using linked_snoc [OF Cons.prems(2)] Cons.prems(3-5) by simp
    qed (simp add: linked_def)
    have r: "ring_loop ixs i (if first = None then Some i else first) m1 = (p', f', m')" using Cons.prems(1) True by (simp add: m1_def)
    have "relinked m' m1 \<and> linked m' ((ds @ [i]) @ filter (mounted m1) ixs)
      \<and> p' = (if (ds @ [i]) @ filter (mounted m1) ixs = [] then 0 else last ((ds @ [i]) @ filter (mounted m1) ixs))
      \<and> f' = (if (ds @ [i]) @ filter (mounted m1) ixs = [] then None else Some (hd ((ds @ [i]) @ filter (mounted m1) ixs)))"
      by (rule Cons.IH [OF r lk]) (use Cons.prems(3-6) relinked_simps(4) [OF rl] in auto)
    moreover have "filter (mounted m1) ixs = filter (mounted m) ixs" using relinked_mounted [OF rl] by simp
    ultimately show ?thesis using relinked_trans [OF _ rl] mo by simp
  qed
qed

definition ring :: "mount_info \<Rightarrow> nat list \<Rightarrow> bool" where
  "ring m ds \<longleftrightarrow> (\<forall>k < length ds. next_of m (ds ! k) = ds ! (Suc k mod length ds) \<and> prev_of m (ds ! (Suc k mod length ds)) = ds ! k)"

lemma make_ring_ok:
  assumes len: "length (mi_hddInfo m) = MAX_HDD_COUNT"
  shows "relinked (make_ring m) m" "ring (make_ring m) (nth_mounted (make_ring m))"
proof -
  define ds where "ds = filter (mounted m) [0..<MAX_HDD_COUNT]"
  obtain p f m1 where r: "ring_loop [0..<MAX_HDD_COUNT] 0 None m = (p, f, m1)" by (metis prod_cases3)
  have ok: "relinked m1 m \<and> linked m1 ds \<and> p = (if ds = [] then 0 else last ds) \<and> f = (if ds = [] then None else Some (hd ds))"
  proof -
    have "linked m []" "set ([] @ [0..<MAX_HDD_COUNT]) \<subseteq> {..<length (mi_hddInfo m)}" using len by (auto simp: linked_def)
    from ring_loop_ok [OF r this(1) _ this(2)] show ?thesis by (simp add: ds_def)
  qed
  let ?first = "if ds = [] then 0 else hd ds" and ?last = "if ds = [] then 0 else last ds"
  let ?m = "upd_hdd ?last (hi_nextHddIdx_update (\<lambda>_. ?first)) (upd_hdd ?first (hi_prevHddIdx_update (\<lambda>_. ?last)) m1)"
  have mk: "make_ring m = ?m" using ok by (simp add: make_ring_def r Let_def)
  have rl1: "relinked ?m m1" by (rule relinked_trans [OF relinked_upd(2) relinked_upd(1)])
  with ok show rl: "relinked (make_ring m) m" unfolding mk using relinked_trans by blast
  have nm: "nth_mounted (make_ring m) = ds"
    unfolding nth_mounted_def ds_def using relinked_mounted [OF rl] relinked_simps(4) [OF rl] len by simp
  have dist: "distinct ds" and bound: "ds ! k < MAX_HDD_COUNT" if "k < length ds" for k
    using that nth_mem [of k ds] by (auto simp: ds_def)
  have dist: "distinct ds" by (simp add: ds_def)
  have len1: "length (mi_hddInfo m1) = MAX_HDD_COUNT" using ok len by (simp add: relinked_def)
  show "ring (make_ring m) (nth_mounted (make_ring m))" unfolding nm unfolding mk ring_def
  proof (intro allI impI)
    fix k assume k: "k < length ds"
    then have ne: "ds \<noteq> []" by auto
    have hl: "hd ds = ds ! 0" "last ds = ds ! (length ds - 1)" using ne by (simp_all add: hd_conv_nth last_conv_nth)
    have idx: "(ds ! a = ds ! b) = (a = b)" if "a < length ds" "b < length ds" for a b using dist that by (simp add: nth_eq_iff_index_eq)
    show "next_of ?m (ds ! k) = ds ! (Suc k mod length ds) \<and> prev_of ?m (ds ! (Suc k mod length ds)) = ds ! k"
    proof (cases "Suc k = length ds")
      case True
      then have kl: "k = length ds - 1" "Suc k mod length ds = 0" by auto
      have "last ds = ds ! k" using hl kl by simp
      then show ?thesis using ne bound [OF k] bound [of 0] k unfolding kl(2) by (simp add: hl(1) upd_hdd_nth len1)
    next
      case False
      then have s: "Suc k < length ds" "Suc k mod length ds = Suc k" using k by auto
      have "ds ! k \<noteq> last ds" "ds ! Suc k \<noteq> hd ds" 
        using idx [of k "length ds - 1"] idx [of "Suc k" 0] s hl False ne by (simp_all flip: length_greater_0_conv)
      moreover have "next_of m1 (ds ! k) = ds ! Suc k" "prev_of m1 (ds ! Suc k) = ds ! k" using ok s(1) unfolding linked_def by blast+
      ultimately show ?thesis using ne bound [OF k] bound [OF s(1)] s(2) by (auto simp: upd_hdd_nth len1)
    qed
  qed
qed

section \<open>The table of the disks\<close>

text \<open>Each place that is taken, is taken by a disk of this recorder.\<close>

definition ours :: "fmt_env \<Rightarrow> (nat \<Rightarrow> top_mgr option option) \<Rightarrow> nat \<Rightarrow> nat \<Rightarrow> bool" where
  "ours fe tops dir i \<longleftrightarrow> (\<exists>tm. tops dir = Some (Some tm) \<and> tm_hddIdx tm = int i \<and> tm_dvrMAC tm = fe_mac fe)"

definition table_ok :: "fmt_env \<Rightarrow> (nat \<Rightarrow> top_mgr option option) \<Rightarrow> mount_info \<Rightarrow> bool" where
  "table_ok fe tops m \<longleftrightarrow> length (mi_hddInfo m) = MAX_HDD_COUNT \<and> mi_hddCnt m = int (length (nth_mounted m)) \<and> mi_curHddIdx m = 0
     \<and> (\<forall>i. mounted m i \<longrightarrow> ours fe tops (disk_path m i) i) \<and> (\<forall>i < MAX_HDD_COUNT. \<not> mounted m i \<longrightarrow> disk_path m i = 0)"

lemma none_mounted [simp]: "\<not> mounted no_mount i"
  by (auto simp: mounted_def no_mount_def no_hdd_def)

lemma table_none: "table_ok fe tops no_mount"
  by (simp add: table_ok_def nth_mounted_def) (simp add: no_mount_def no_hdd_def disk_path_def)

lemma length_nth_mounted: "length (nth_mounted m) = card {i. mounted m i}"
  unfolding nth_mounted_def by (subst distinct_card [symmetric]) (auto simp: mounted_def intro!: arg_cong [of _ _ card])

lemma note_disk_ok:
  assumes t: "table_ok fe tops m" and d: "tops dir = Some (Some tm)" "tm_dvrMAC tm = fe_mac fe" "tm_hddIdx tm < int MAX_HDD_COUNT"
    and n: "note_disk tm dir m = Some m'"
  shows "table_ok fe tops m'" "mounted m i \<Longrightarrow> mounted m' i" "mounted m' (nat (tm_hddIdx tm))"
proof -
  let ?i = "nat (tm_hddIdx tm)"
  have i: "0 \<le> tm_hddIdx tm" "?i < MAX_HDD_COUNT" "int ?i = tm_hddIdx tm" using n d(3) by (auto simp: note_disk_def split: if_splits)
  have len: "length (mi_hddInfo m) = MAX_HDD_COUNT" using t by (simp add: table_ok_def)
  have o: "ours fe tops dir ?i" using d i by (auto simp: ours_def)
  have len': "length (mi_hddInfo m') = MAX_HDD_COUNT" and cur: "mi_curHddIdx m' = 0"
    using n i(1) t by (auto simp: note_disk_def Let_def table_ok_def split: if_splits)
  have mo: "mounted m' j \<longleftrightarrow> mounted m j \<or> j = ?i" for j
    using n i len by (auto simp: note_disk_def Let_def mounted_def upd_hdd_nth split: if_splits)
  have pa: "disk_path m' j = disk_path m j \<and> mounted m j \<or> disk_path m' j = dir \<and> j = ?i" if "mounted m' j" for j
    using that n i len by (auto simp: note_disk_def Let_def mounted_def disk_path_def upd_hdd_nth split: if_splits)
  have fin: "finite {j. mounted m j}" by (rule finite_subset [of _ "{..<length (mi_hddInfo m)}"]) (auto simp: mounted_def)
  have "{j. mounted m' j} = insert ?i {j. mounted m j}" using mo by auto
  then have "length (nth_mounted m') = (if mounted m ?i then length (nth_mounted m) else Suc (length (nth_mounted m)))"
    using fin by (simp add: length_nth_mounted card_insert_if)
  moreover have "mi_hddCnt m' = (if mounted m ?i then mi_hddCnt m else mi_hddCnt m + 1)"
    using n i len by (auto simp: note_disk_def Let_def mounted_def split: if_splits)
  moreover have "ours fe tops (disk_path m' j) j" if "mounted m' j" for j
    using pa [OF that] t o by (auto simp: table_ok_def)
  moreover have "disk_path m' j = 0" if "j < MAX_HDD_COUNT" "\<not> mounted m' j" for j
  proof -
    have "disk_path m' j = disk_path m j"
      using that mo [of j] n i len by (auto simp: note_disk_def Let_def disk_path_def upd_hdd_nth split: if_splits)
    with that mo [of j] t show ?thesis by (simp add: table_ok_def)
  qed
  ultimately show "table_ok fe tops m'" using t len' cur by (simp add: table_ok_def)
  show "mounted m i \<Longrightarrow> mounted m' i" "mounted m' ?i" using mo by auto
qed

lemma note_devs_ok:
  "note_devs (fe_bkt fe) (fe_mac fe) tops r devs m = Some m' \<Longrightarrow> table_ok fe tops m \<Longrightarrow> table_ok fe tops m' \<and> (mounted m i \<longrightarrow> mounted m' i)"
proof (induction devs arbitrary: r m)
  case (Cons d devs)
  obtain state dir where d: "d = (state, dir)" by (cases d)
  from Cons.prems(1) consider
      (skip) "note_devs (fe_bkt fe) (fe_mac fe) tops (Suc r) devs m = Some m'"
    | (noted) tm m1 where "tops dir = Some (Some tm)" "tm_dvrMAC tm = fe_mac fe" "tm_hddIdx tm < int MAX_HDD_COUNT" "note_disk tm dir m = Some m1"
        "note_devs (fe_bkt fe) (fe_mac fe) tops (Suc r) devs m1 = Some m'"
    by (auto simp: d bind_eq_Some_conv split: option.splits if_splits)
  then show ?case
  proof cases
    case skip
    then show ?thesis by (rule Cons.IH [OF _ Cons.prems(2)])
  next
    case noted
    from note_disk_ok [OF Cons.prems(2) noted(1-4)] Cons.IH [OF noted(5)] show ?thesis by blast
  qed
qed simp

lemma note_devs_mounts:
  assumes "healthy (fe_bkt fe)" "tops dir = Some (Some tm)" "tm_dvrMAC tm = fe_mac fe" "tm_hddIdx tm < int MAX_HDD_COUNT"
  shows "(DONE_EXT3, dir) \<in> set devs \<Longrightarrow> note_devs (fe_bkt fe) (fe_mac fe) tops r devs m = Some m' \<Longrightarrow> table_ok fe tops m \<Longrightarrow> mounted m' (nat (tm_hddIdx tm))"
proof (induction devs arbitrary: r m)
  case (Cons d devs)
  show ?case
  proof (cases "d = (DONE_EXT3, dir)")
    case True
    with Cons.prems(2) assms obtain m1 where m1: "note_disk tm dir m = Some m1" "note_devs (fe_bkt fe) (fe_mac fe) tops (Suc r) devs m1 = Some m'"
      by (auto simp: bind_eq_Some_conv)
    note n = note_disk_ok [OF Cons.prems(3) assms(2-4) m1(1)]
    from note_devs_ok [OF m1(2) n(1)] n(3) show ?thesis by blast
  next
    case False
    obtain st q where d: "d = (st, q)" by (cases d)
    from Cons.prems(2) consider (skip) "note_devs (fe_bkt fe) (fe_mac fe) tops (Suc r) devs m = Some m'"
      | (noted) tm' m1 where "tops q = Some (Some tm')" "tm_dvrMAC tm' = fe_mac fe" "tm_hddIdx tm' < int MAX_HDD_COUNT" "note_disk tm' q m = Some m1"
        "note_devs (fe_bkt fe) (fe_mac fe) tops (Suc r) devs m1 = Some m'"
      by (auto simp: d bind_eq_Some_conv split: option.splits if_splits)
    then show ?thesis
    proof cases
      case skip
      then show ?thesis using Cons.IH [OF _ skip Cons.prems(3)] Cons.prems(1) False by simp
    next
      case noted
      show ?thesis using Cons.IH [OF _ noted(5) note_disk_ok(1) [OF Cons.prems(3) noted(1-4)]] Cons.prems(1) False by simp
    qed
  qed
qed simp

lemma note_devs_total:
  assumes "\<forall>dir tm. tops dir = Some (Some tm) \<longrightarrow> 0 \<le> tm_hddIdx tm"
  shows "\<exists>m'. note_devs ev mac tops r devs m = Some m'"
proof (induction devs arbitrary: r m)
  case (Cons d devs)
  have "\<exists>m1. note_disk tm q m = Some m1" if "tops q = Some (Some tm)" for q tm
    using assms that by (auto simp: note_disk_def Let_def not_less [symmetric])
  with Cons show ?case by (cases d) (fastforce split: option.splits)
qed simp

text \<open>The table that a call makes.\<close>

lemma updateHddInfo_ok:
  assumes "BKTREC_updateHddInfo fe tops = Some m"
  shows "table_ok fe tops m" "mi_hddCnt m > 0 \<Longrightarrow> ring m (nth_mounted m)"
proof -
  have "table_ok fe tops m \<and> (mi_hddCnt m > 0 \<longrightarrow> ring m (nth_mounted m))"
  proof (cases "fe_devs fe")
    case None
    with assms table_none show ?thesis by (auto simp: BKTREC_updateHddInfo_def no_mount_def)
  next
    case (Some devs)
    with assms obtain m0 where m0: "note_devs (fe_bkt fe) (fe_mac fe) tops 0 devs no_mount = Some m0" "m = make_ring m0"
      by (auto simp: BKTREC_updateHddInfo_def)
    have t0: "table_ok fe tops m0" using note_devs_ok [OF m0(1) table_none, of undefined] by blast
    then have len: "length (mi_hddInfo m0) = MAX_HDD_COUNT" by (simp add: table_ok_def)
    note r = make_ring_ok [OF len]
    have "disk_path m i = disk_path m0 i" if "i < MAX_HDD_COUNT" for i
      using relinked_simps(5) [OF r(1)] that len unfolding m0(2) by simp
    moreover have "i < MAX_HDD_COUNT" if "mounted m0 i" for i using that len by (simp add: mounted_def)
    ultimately have "table_ok fe tops m"
      using t0 relinked_mounted [OF r(1)] relinked_simps(2-4) [OF r(1)] unfolding m0(2) by (simp add: table_ok_def nth_mounted_def)
    with r(2) m0(2) show ?thesis by simp
  qed
  then show "table_ok fe tops m" "mi_hddCnt m > 0 \<Longrightarrow> ring m (nth_mounted m)" by blast+
qed

text \<open>In a ring the next disk of a mounted one is mounted.\<close>

lemma ring_next:
  assumes "ring m (nth_mounted m)" "mounted m i"
  shows "mounted m (next_of m i)" "mounted m (prev_of m i)"
proof -
  have "i \<in> set (nth_mounted m)" using assms(2) by (simp add: nth_mounted_def mounted_def)
  then obtain k where k: "k < length (nth_mounted m)" "nth_mounted m ! k = i" by (auto simp: in_set_conv_nth)
  have mem: "mounted m (nth_mounted m ! j)" if "j < length (nth_mounted m)" for j
    using nth_mem [OF that] by (simp add: nth_mounted_def)
  let ?n = "length (nth_mounted m)"
  have "Suc k mod ?n < ?n" using k(1) by (metis gr_implies_not0 mod_less_divisor neq0_conv)
  then show "mounted m (next_of m i)" using assms(1) k mem unfolding ring_def by metis
  have "k = Suc ((k + ?n - 1) mod ?n) mod ?n" "(k + ?n - 1) mod ?n < ?n"
    using k(1) by (cases k; simp add: mod_Suc_eq)+
  then show "mounted m (prev_of m i)" using assms(1) k mem unfolding ring_def by metis
qed

end
