(* ===== verification/Basket_Made.thy ===== *)
theory Basket_Made
  imports Basket_Setup
begin

text \<open>A disk on which baskets have been made or cleared (\<open>BKTREC_CreateBasket\<close>,
  \<open>BKTREC_deleteBasket\<close> of src/basket_rec.c), and the choice of the disk to record on.\<close>

section \<open>Making baskets\<close>

lemma on_disk_comp: "on_disk p f (on_disk p g s) = on_disk p (f \<circ> g) s"
  by (simp add: on_disk_def)

lemma on_disk_simps [simp]: "fw_top (on_disk p f s) = fw_top s" "rw_mount (fw_rec (on_disk p f s)) = rw_mount (fw_rec s)"
  "rw_status (fw_rec (on_disk p f s)) = rw_status (fw_rec s)" "rw_hddmgr (fw_rec (on_disk p f s)) = rw_hddmgr (fw_rec s)"
  "rw_recycle (fw_rec (on_disk p f s)) = rw_recycle (fw_rec s)" "rw_prevFpos (fw_rec (on_disk p f s)) = rw_prevFpos (fw_rec s)"
  "rw_disks (fw_rec (on_disk p f s)) p = f (rw_disks (fw_rec s) p)" "q \<noteq> p \<Longrightarrow> rw_disks (fw_rec (on_disk p f s)) q = rw_disks (fw_rec s) q"
  by (simp_all add: on_disk_def)

lemma put_file_on_disk:
  "put_file Bkt p b f s = on_disk p (\<lambda>d. d\<lparr>dk_bkt := (dk_bkt d)(b \<mapsto> f)\<rparr>) s" "put_file Idx p b f s = on_disk p (\<lambda>d. d\<lparr>dk_idx := (dk_idx d)(b \<mapsto> f)\<rparr>) s"
  by (simp_all add: put_file_def on_disk_def set_file_def)

definition new_file :: "bkt_env \<Rightarrow> int \<Rightarrow> byte list" where
  "new_file ev b = truncated (nat BASKET_SIZE) (enc_basket_hdr (new_header ev b))"

definition made :: "bkt_env \<Rightarrow> nat \<Rightarrow> nat list \<Rightarrow> bkt_disk \<Rightarrow> bkt_disk" where
  "made ev p ixs d = d\<lparr>dk_mgr := map_option (\<lambda>m. m\<lparr>mf_bodies := mf_bodies m @ map (\<lambda>i. new_body (int i) p) ixs\<rparr>) (dk_mgr d),
     dk_bkt := (\<lambda>b. if b \<in> int ` set ixs then Some (new_file ev b) else dk_bkt d b),
     dk_idx := (\<lambda>b. if b \<in> int ` set ixs then Some [] else dk_idx d b)\<rparr>"

lemma create_round_ok:
  assumes "healthy ev"
  shows "create_round ev p i s = (True, on_disk p (made ev p [i]) s)"
proof -
  have "0 < length (enc_basket_hdr h)" for h by (simp add: enc_basket_hdr_def)
  then have ne: "enc_basket_hdr h \<noteq> []" for h by (metis length_greater_0_conv)
  have f: "(\<lambda>b. if b = int i then Some (v b) else g b) = g(int i \<mapsto> v (int i))" for v and g :: "int \<rightharpoonup> byte list" by auto
  show ?thesis
    using assms ne by (simp add: create_round_def put_file_on_disk on_disk_comp comp_def new_file_def [symmetric] Let_def)
      (cases "rw_disks (fw_rec s) p", simp add: made_def on_disk_def f)
qed

lemma create_loop_ok: "healthy ev \<Longrightarrow> create_loop ev p ixs s = (True, on_disk p (made ev p ixs) s)"
proof (induction ixs arbitrary: s)
  case Nil
  have "made ev p [] = (\<lambda>d. d)" by (auto simp: made_def option.map_id0 [unfolded id_def])
  then show ?case by (simp add: on_disk_def)
next
  case (Cons i ixs)
  have "made ev p ixs (made ev p [i] d) = made ev p (i # ixs) d" for d
    by (cases d; cases "dk_mgr d") (auto simp: made_def fun_eq_iff)
  then have "made ev p ixs \<circ> made ev p [i] = made ev p (i # ixs)" by (auto simp: fun_eq_iff)
  with Cons show ?case by (simp add: create_round_ok on_disk_comp)
qed

definition formatted :: "fmt_env \<Rightarrow> nat \<Rightarrow> nat \<Rightarrow> int \<Rightarrow> bkt_disk \<Rightarrow> bkt_disk" where
  "formatted fe p i n d = made (fe_bkt fe) p [1..<Suc (nat n)] (d\<lparr>dk_mgr := Some (new_mgr fe i n)\<rparr>)"

lemma CreateBasketFiles_ok:
  assumes "healthy (fe_bkt fe)" "p \<noteq> 0" "2 \<le> n" "free_slot (rw_mount (fw_rec s)) = Some i"
  shows "BKTREC_CreateBasketFiles fe p sz n s = (n, upd_rec (rw_space_update (\<lambda>_. BKT_SPACE_REMAIN)) (set_top p (Some (new_top fe i)) (on_disk p (formatted fe p i n) s)))"
proof -
  have "set_top p t (on_disk p f (set_top p t' s)) = set_top p t (on_disk p f s)" for t t' f by (simp add: set_top_def on_disk_def)
  moreover have "formatted fe p i n = made (fe_bkt fe) p [1..<Suc (nat n)] \<circ> dk_mgr_update (\<lambda>_. Some (new_mgr fe i n))"
    by (auto simp: formatted_def)
  moreover have "rw_mount (fw_rec (set_top p None s)) = rw_mount (fw_rec s)" by (simp add: set_top_def)
  ultimately show ?thesis using assms by (simp add: BKTREC_CreateBasketFiles_def Let_def create_loop_ok on_disk_comp del: upt_Suc)
qed

text \<open>Such a disk lists the baskets 1 to n, all empty and with their files.\<close>

lemma map_int_upt: "map int [1..<Suc k] = [1..int k]"
  by (induction k) (simp_all add: upto_rec2)

lemma formatted_ok:
  assumes "2 \<le> n" "rdb_ok d" "dk_info d = None"
  shows "disk_ok (formatted fe p i n d)" "nothing_pending (formatted fe p i n d)"
    "\<exists>m. dk_mgr (formatted fe p i n d) = Some m \<and> mf_bkt_count m = n \<and> map mb_bid (mf_bodies m) = [1..n] \<and> (\<forall>bd \<in> set (mf_bodies m). mb_save_flag bd = SF_EMPTY \<and> mb_path bd = p)"
proof -
  have bids: "map mb_bid (map (\<lambda>i. new_body (int i) p) [1..<Suc (nat n)]) = [1..n]"
    using assms(1) map_int_upt [of "nat n"] by (simp add: comp_def new_body_def del: upt_Suc)
  show "disk_ok (formatted fe p i n d)"
    using assms by (auto simp: disk_ok_def formatted_def made_def new_mgr_def rdb_ok_def has_files_def new_body_def BKT_ERR_def simp del: upt_Suc)
  show "nothing_pending (formatted fe p i n d)" using assms(3) by (simp add: nothing_pending_def formatted_def made_def)
  show "\<exists>m. dk_mgr (formatted fe p i n d) = Some m \<and> mf_bkt_count m = n \<and> map mb_bid (mf_bodies m) = [1..n] \<and> (\<forall>bd \<in> set (mf_bodies m). mb_save_flag bd = SF_EMPTY \<and> mb_path bd = p)"
    using bids by (simp add: formatted_def made_def new_mgr_def del: upt_Suc) (simp add: new_body_def SF_EMPTY_def)
qed

text \<open>The baskets fit into the free space.\<close>

lemma basket_count_bound:
  assumes "0 \<le> x" "2 \<le> basket_count x"
  shows "basket_count x * BKT_SIZE \<le> x"
proof -
  have sz: "BKT_SIZE = 600" by (simp add: BKT_SIZE_def BASKET_SIZE_def SIZE_MB_def)
  have sd: "a sdiv b = a div b" if "0 \<le> a" "0 < b" for a b :: int using that by (cases "a = 0") (simp_all add: signed_divide_int_def)
  let ?n = "x div 600 - 1"
  have c: "basket_count x = ?n - ?n sdiv 20" using assms(1) by (simp add: basket_count_def sz sd Let_def)
  have "0 \<le> ?n"
  proof (rule ccontr)
    assume "\<not> 0 \<le> ?n"
    then have "?n = -1" using pos_imp_zdiv_nonneg_iff [of 600 x] assms(1) by simp
    with assms(2) show False unfolding c by (simp add: signed_divide_int_def)
  qed
  then have "basket_count x \<le> x div 600" unfolding c using sd [of ?n 20] by simp
  then show ?thesis unfolding sz by simp
qed

section \<open>Clearing baskets\<close>

definition clear_files :: "bkt_env \<Rightarrow> nat \<Rightarrow> bkt_disk \<Rightarrow> bkt_disk" where
  "clear_files ev i d = (case dk_mgr d of None \<Rightarrow> d
     | Some m \<Rightarrow> let bd = mf_bodies m ! i in
         d\<lparr>dk_bkt := (dk_bkt d)(mb_bid bd \<mapsto> []), dk_idx := (dk_idx d)(mb_bid bd \<mapsto> []),
           dk_mgr := Some (m\<lparr>mf_bodies := (mf_bodies m)[i := cleared_body ev bd]\<rparr>)\<rparr>)"

text \<open>The baskets that the manager of disk \<open>p\<close> lists are on \<open>p\<close>, with their files.\<close>

definition listed_here :: "nat \<Rightarrow> bkt_disk \<Rightarrow> bool" where
  "listed_here p d \<longleftrightarrow> (\<exists>m. dk_mgr d = Some m \<and> mf_bkt_count m = int (length (mf_bodies m)) \<and> mf_bodies m \<noteq> []
     \<and> (\<forall>bd \<in> set (mf_bodies m). mb_path bd = p \<and> has_files d (mb_bid bd)))"

lemma clear_round_ok:
  assumes ev: "healthy ev" and d: "listed_here p (rw_disks (fw_rec s) p)" and i: "i < nat (mf_bkt_count (the (dk_mgr (rw_disks (fw_rec s) p))))"
  shows "clear_round ev p i s = (True, on_disk p (clear_files ev i) s)"
proof -
  let ?d = "rw_disks (fw_rec s) p"
  obtain m where m: "dk_mgr ?d = Some m" "i < length (mf_bodies m)" "\<forall>bd \<in> set (mf_bodies m). mb_path bd = p \<and> has_files ?d (mb_bid bd)"
    using d i by (auto simp: listed_here_def)
  then have b: "mb_path (mf_bodies m ! i) = p" "dk_bkt ?d (mb_bid (mf_bodies m ! i)) \<noteq> None" "dk_idx ?d (mb_bid (mf_bodies m ! i)) \<noteq> None"
    using nth_mem [OF m(2)] by (auto simp: has_files_def)
  show ?thesis
    using ev m(1,2) b by (simp add: clear_round_def empty_file_def the_file_def put_file_on_disk on_disk_comp comp_def Let_def not_le)
      (simp add: on_disk_def clear_files_def Let_def)
qed

lemma clear_files_simps:
  assumes "listed_here p d" "i < nat (mf_bkt_count (the (dk_mgr d)))"
  shows "listed_here p (clear_files ev i d)" "mf_bkt_count (the (dk_mgr (clear_files ev i d))) = mf_bkt_count (the (dk_mgr d))"
proof -
  obtain m where m: "dk_mgr d = Some m" "i < length (mf_bodies m)" using assms by (auto simp: listed_here_def)
  have "mb_path (cleared_body ev (mf_bodies m ! i)) = p \<and> mb_bid (cleared_body ev (mf_bodies m ! i)) = mb_bid (mf_bodies m ! i)"
    using assms(1) m nth_mem [OF m(2)] by (auto simp: listed_here_def cleared_body_def)
  then show "listed_here p (clear_files ev i d)"
    using assms(1) m nth_mem [OF m(2)]
    by (auto simp: listed_here_def clear_files_def Let_def has_files_def dest!: set_update_subset_insert [THEN subsetD])
  show "mf_bkt_count (the (dk_mgr (clear_files ev i d))) = mf_bkt_count (the (dk_mgr d))" using m by (simp add: clear_files_def Let_def)
qed

lemma clear_loop_ok:
  assumes "healthy ev"
  shows "listed_here p (rw_disks (fw_rec s) p) \<Longrightarrow> \<forall>i \<in> set ixs. i < nat (mf_bkt_count (the (dk_mgr (rw_disks (fw_rec s) p)))) \<Longrightarrow>
    clear_loop ev p ixs s = (True, on_disk p (fold (clear_files ev) ixs) s)"
proof (induction ixs arbitrary: s)
  case Nil
  then show ?case by (simp add: on_disk_def)
next
  case (Cons i ixs)
  have "clear_loop ev p ixs (on_disk p (clear_files ev i) s) = (True, on_disk p (fold (clear_files ev) ixs) (on_disk p (clear_files ev i) s))"
    by (rule Cons.IH) (use Cons.prems clear_files_simps [of p "rw_disks (fw_rec s) p" i ev] in auto)
  then show ?case using Cons.prems clear_round_ok [OF assms, of p s i] by (simp add: on_disk_comp comp_def)
qed

lemma fold_clear:
  "listed_here p d \<Longrightarrow> \<forall>i \<in> set ixs. i < nat (mf_bkt_count (the (dk_mgr d))) \<Longrightarrow> d' = fold (clear_files ev) ixs d \<Longrightarrow>
    listed_here p d' \<and> dk_info d' = dk_info d \<and> dk_rdb d' = dk_rdb d
    \<and> map mb_bid (mf_bodies (the (dk_mgr d'))) = map mb_bid (mf_bodies (the (dk_mgr d)))
    \<and> (\<forall>i < length (mf_bodies (the (dk_mgr d'))). (i \<in> set ixs \<or> mb_save_flag (mf_bodies (the (dk_mgr d)) ! i) = SF_EMPTY) \<longrightarrow> mb_save_flag (mf_bodies (the (dk_mgr d')) ! i) = SF_EMPTY)
    \<and> (\<forall>b. (b \<in> (\<lambda>i. mb_bid (mf_bodies (the (dk_mgr d)) ! i)) ` set ixs \<or> dk_bkt d b = Some [] \<and> dk_idx d b = Some []) \<longrightarrow> dk_bkt d' b = Some [] \<and> dk_idx d' b = Some [])"
proof (induction ixs arbitrary: d)
  case (Cons i ixs)
  note c = clear_files_simps [OF Cons.prems(1), of i ev]
  obtain m where m: "dk_mgr d = Some m" "i < length (mf_bodies m)" using Cons.prems(1,2) by (auto simp: listed_here_def)
  have s: "dk_info (clear_files ev i d) = dk_info d" "dk_rdb (clear_files ev i d) = dk_rdb d"
    "the (dk_mgr (clear_files ev i d)) = m\<lparr>mf_bodies := (mf_bodies m)[i := cleared_body ev (mf_bodies m ! i)]\<rparr>"
    "dk_bkt (clear_files ev i d) = (dk_bkt d)(mb_bid (mf_bodies m ! i) \<mapsto> [])" "dk_idx (clear_files ev i d) = (dk_idx d)(mb_bid (mf_bodies m ! i) \<mapsto> [])"
    using m by (simp_all add: clear_files_def Let_def)
  have cb: "mb_bid (cleared_body ev bd) = mb_bid bd" "mb_save_flag (cleared_body ev bd) = SF_EMPTY" for bd by (simp_all add: cleared_body_def SF_EMPTY_def)
  have ids: "map mb_bid ((mf_bodies m)[i := cleared_body ev (mf_bodies m ! i)]) = map mb_bid (mf_bodies m)"
    using m(2) by (simp add: map_update cb list_update_same_conv)
  then have idn: "mb_bid ((mf_bodies m)[i := cleared_body ev (mf_bodies m ! i)] ! j) = mb_bid (mf_bodies m ! j)" for j
    using cb(1) by (cases "j = i") (simp_all add: m(2))
  have len: "length (mf_bodies (the (dk_mgr d'))) = length (mf_bodies m)" if "map mb_bid (mf_bodies (the (dk_mgr d'))) = map mb_bid (mf_bodies m)"
    using arg_cong [OF that, of length] by simp
  have ih: "listed_here p d' \<and> dk_info d' = dk_info (clear_files ev i d) \<and> dk_rdb d' = dk_rdb (clear_files ev i d)
    \<and> map mb_bid (mf_bodies (the (dk_mgr d'))) = map mb_bid (mf_bodies (the (dk_mgr (clear_files ev i d))))
    \<and> (\<forall>j < length (mf_bodies (the (dk_mgr d'))). (j \<in> set ixs \<or> mb_save_flag (mf_bodies (the (dk_mgr (clear_files ev i d))) ! j) = SF_EMPTY) \<longrightarrow> mb_save_flag (mf_bodies (the (dk_mgr d')) ! j) = SF_EMPTY)
    \<and> (\<forall>b. (b \<in> (\<lambda>j. mb_bid (mf_bodies (the (dk_mgr (clear_files ev i d))) ! j)) ` set ixs \<or> dk_bkt (clear_files ev i d) b = Some [] \<and> dk_idx (clear_files ev i d) b = Some [])
       \<longrightarrow> dk_bkt d' b = Some [] \<and> dk_idx d' b = Some [])"
    by (rule Cons.IH) (use Cons.prems c in auto)
  have fl: "mb_save_flag ((mf_bodies m)[i := cleared_body ev (mf_bodies m ! i)] ! j) = SF_EMPTY" if "j = i \<or> mb_save_flag (mf_bodies m ! j) = SF_EMPTY" for j
    using that m(2) cb(2) by (cases "j = i") auto
  have fi: "dk_bkt d' b = Some [] \<and> dk_idx d' b = Some []"
    if "b = mb_bid (mf_bodies m ! i) \<or> b \<in> (\<lambda>j. mb_bid (mf_bodies m ! j)) ` set ixs \<or> dk_bkt d b = Some [] \<and> dk_idx d b = Some []" for b
    using ih that unfolding s by (auto simp: idn)
  show ?case using ih fl fi ids m(1) unfolding s by (auto simp: idn)
qed auto

section \<open>The disk to record on\<close>

lemma find_upto:
  assumes "List.find P [0..<n] = Some i"
  shows "P i" "i < n" "\<And>j. P j \<Longrightarrow> i \<le> j"
proof -
  obtain k where k: "k < n" "P ([0..<n] ! k)" "i = [0..<n] ! k" "\<forall>j<k. \<not> P ([0..<n] ! j)"
    using assms by (auto simp: find_Some_iff)
  then show "P i" "i < n" by simp_all
  show "i \<le> j" if "P j" for j
  proof (rule ccontr)
    assume "\<not> i \<le> j"
    then have "j < k" "[0..<n] ! j = j" using k(1,3) by simp_all
    with k(4) that show False by metis
  qed
qed

lemma find_upt_none: "List.find P [0..<n] = None \<longleftrightarrow> (\<forall>i<n. \<not> P i)"
  by (simp add: find_None_iff)

text \<open>The choice: the first mounted disk behind, or else the first one.\<close>

lemma next_mounted_ok:
  assumes len: "length (mi_hddInfo m) = MAX_HDD_COUNT" and some: "mounted m j" and c: "curid < int MAX_HDD_COUNT"
  defines "i \<equiv> next_mounted curid m"
  shows "mounted m i" "if \<exists>k. mounted m k \<and> curid < int k then curid < int i \<and> (\<forall>k. mounted m k \<and> curid < int k \<longrightarrow> i \<le> k) else \<forall>k. mounted m k \<longrightarrow> i \<le> k"
proof -
  have "mounted m i \<and> (if \<exists>k. mounted m k \<and> curid < int k then curid < int i \<and> (\<forall>k. mounted m k \<and> curid < int k \<longrightarrow> i \<le> k) else \<forall>k. mounted m k \<longrightarrow> i \<le> k)"
  proof (cases "List.find (\<lambda>i. hi_isMounted (mi_hddInfo m ! i) \<and> int i > curid) [0..<MAX_HDD_COUNT]")
    case (Some k)
    note f = find_upto [OF Some]
    have "i = k" by (simp add: i_def next_mounted_def Some)
    with f len show ?thesis by (auto simp: mounted_def)
  next
    case None
    then have no: "\<not> (\<exists>k. mounted m k \<and> curid < int k)" using len by (auto simp: find_upt_none mounted_def)
    have "List.find (\<lambda>i. hi_isMounted (mi_hddInfo m ! i)) [0..<MAX_HDD_COUNT] \<noteq> None"
      using some len by (auto simp: find_upt_none mounted_def)
    then obtain k where k: "List.find (\<lambda>i. hi_isMounted (mi_hddInfo m ! i)) [0..<MAX_HDD_COUNT] = Some k" by auto
    note f = find_upto [OF k]
    have "i = k" by (simp add: i_def next_mounted_def None k)
    with f len no show ?thesis by (auto simp: mounted_def)
  qed
  then show "mounted m i" "if \<exists>k. mounted m k \<and> curid < int k then curid < int i \<and> (\<forall>k. mounted m k \<and> curid < int k \<longrightarrow> i \<le> k) else \<forall>k. mounted m k \<longrightarrow> i \<le> k"
    by blast+
qed

lemma some_mounted: "table_ok fe tops m \<Longrightarrow> mi_hddCnt m > 0 \<Longrightarrow> \<exists>j. mounted m j"
proof (rule ccontr)
  assume "table_ok fe tops m" "mi_hddCnt m > 0" "\<nexists>j. mounted m j"
  then show False by (simp add: table_ok_def nth_mounted_def)
qed

lemma mounted_at_cur [simp]: "mounted (m\<lparr>mi_curHddIdx := c\<rparr>) = mounted m"
  by (simp add: mounted_def fun_eq_iff)

lemma cur_simps [simp]: "nth_mounted (m\<lparr>mi_curHddIdx := c\<rparr>) = nth_mounted m" "ring (m\<lparr>mi_curHddIdx := c\<rparr>) ds = ring m ds"
  "disk_path (m\<lparr>mi_curHddIdx := c\<rparr>) i = disk_path m i"
  by (simp_all add: nth_mounted_def ring_def disk_path_def)

lemma table_mount_ok:
  assumes t: "table_ok fe tops (m\<lparr>mi_curHddIdx := 0\<rparr>)" and r: "ring m (nth_mounted m)" and cur: "mounted m (mi_curHddIdx m)"
    and w: "rw_mount w = m" "rw_hddmgr w \<noteq> Some None" "\<forall>dir i. ours fe tops dir i \<longrightarrow> disk_ok (rw_disks w dir)"
  shows "mount_ok w"
proof -
  have "disk_ok (rw_disks w (disk_path m i))" if "mounted m i" for i
    using t that w(3) by (auto simp: table_ok_def)
  with w(1,2) ring_next [OF r] cur show ?thesis by (auto simp: mount_ok_def Let_def)
qed

lemma table_cur: "table_ok fe tops m \<Longrightarrow> table_ok fe tops (m\<lparr>mi_curHddIdx := c\<rparr>\<lparr>mi_curHddIdx := 0\<rparr>)"
  by (simp add: table_ok_def)

lemma getTargetDisk_chosen:
  assumes ev: "healthy (fe_bkt fe)" and hm: "rw_hddmgr (fw_rec s) = Some (Some hm)" "0 \<le> hm_curid hm"
    and ours: "\<forall>dir i. ours fe (fw_top s) dir i \<longrightarrow> disk_ok (rw_disks (fw_rec s) dir)"
    and run: "BKTREC_getTargetDisk fe s = Some (st, s')" and cnt: "mi_hddCnt (rw_mount (fw_rec s')) > 0"
  defines "m \<equiv> rw_mount (fw_rec s')"
  shows "st = 1" "mount_ok (fw_rec s')" "ring m (nth_mounted m)"
    "if mounted m (nat (hm_curid hm)) then mi_curHddIdx m = nat (hm_curid hm) else mi_curHddIdx m = next_mounted (hm_curid hm) m"
    "length (mi_hddInfo m) = MAX_HDD_COUNT" "hm_curid hm < int MAX_HDD_COUNT"
proof -
  obtain m0 where m0: "BKTREC_updateHddInfo fe (fw_top s) = Some m0"
    using run by (auto simp: BKTREC_getTargetDisk_def Let_def split: option.splits)
  note t = updateHddInfo_ok [OF m0]
  have len: "length (mi_hddInfo m0) = MAX_HDD_COUNT" using t(1) by (simp add: table_ok_def)
  let ?c = "nat (hm_curid hm)"
  have pos: "mi_hddCnt m0 > 0"
  proof (rule ccontr)
    assume n: "\<not> mi_hddCnt m0 > 0"
    then have "mi_hddCnt (rw_mount (fw_rec s')) = mi_hddCnt m0" using run m0 by (auto simp: BKTREC_getTargetDisk_def Let_def)
    with n cnt show False by simp
  qed
  obtain j where j: "mounted m0 j" using some_mounted [OF t(1) pos] by blast
  from run ev hm m0 pos obtain w where st: "st = 1" and s': "s' = s\<lparr>fw_rec := w\<rparr>" and w: "choose_disk (fe_bkt fe) hm ((fw_rec s)\<lparr>rw_mount := m0\<rparr>) = Some w"
    by (auto simp: BKTREC_getTargetDisk_def Let_def)
  from w hm(2) show c: "hm_curid hm < int MAX_HDD_COUNT" by (auto simp: choose_disk_def Let_def split: if_splits)
  have nm: "mounted m0 (next_mounted (hm_curid hm) m0)" by (rule next_mounted_ok [OF len j c])
  have same: "next_mounted x (m0\<lparr>mi_curHddIdx := k\<rparr>) = next_mounted x m0" for x k by (simp add: next_mounted_def cong: option.case_cong)
  have w2: "rw_mount w = m0\<lparr>mi_curHddIdx := (if mounted m0 ?c then ?c else next_mounted (hm_curid hm) m0)\<rparr>" "rw_hddmgr w \<noteq> Some None" "rw_disks w = rw_disks (fw_rec s)"
    using w hm ev c len by (auto simp: choose_disk_def Let_def mounted_def split: if_splits)
  show "st = 1" by (rule st)
  show "mount_ok (fw_rec s')" unfolding s'
    by (rule table_mount_ok [where tops = "fw_top s" and fe = fe, OF _ _ _ refl]) (use t pos nm ours w2 table_cur [OF t(1)] in \<open>auto split: if_splits\<close>)
  show "ring m (nth_mounted m)" "length (mi_hddInfo m) = MAX_HDD_COUNT"
    "if mounted m ?c then mi_curHddIdx m = ?c else mi_curHddIdx m = next_mounted (hm_curid hm) m"
    unfolding m_def s' using t(2) pos w2 len by (simp_all add: same)
qed

text \<open>The manager of the disks is missing: the first place is taken, mounted or not.\<close>

lemma getTargetDisk_first:
  assumes ev: "healthy (fe_bkt fe)" and hm: "rw_hddmgr (fw_rec s) = None"
    and m: "BKTREC_updateHddInfo fe (fw_top s) = Some m" "mi_hddCnt m > 0"
  shows "BKTREC_getTargetDisk fe s = Some (1, upd_rec (\<lambda>w. w\<lparr>rw_mount := m, rw_hddmgr := Some (Some ((fe_hm fe)\<lparr>hm_curid := 0\<rparr>))\<rparr>) s)"
proof -
  have "m\<lparr>mi_curHddIdx := 0\<rparr> = m" using updateHddInfo_ok(1) [OF m(1)] by (simp add: table_ok_def)
  then show ?thesis using assms by (simp add: BKTREC_getTargetDisk_def Let_def)
qed

section \<open>A disk for the witnesses\<close>

text \<open>A recorder that has never been used, with an empty disk 5, and the same after disk 5 has been
  formatted for place \<open>i\<close>.\<close>

definition demo_blank :: bkt_disk where
  "demo_blank = \<lparr>dk_mgr = None, dk_info = None, dk_bkt = Map.empty, dk_idx = Map.empty, dk_rdb_dir = False, dk_rdb = Map.empty\<rparr>"

definition demo_fmt :: fmt_world where
  "demo_fmt = \<lparr>fw_rec = (restart demo_world)\<lparr>rw_disks := \<lambda>_. demo_blank, rw_mount := no_mount\<rparr>, fw_top = \<lambda>_. None\<rparr>"

definition demo_fenv :: fmt_env where
  "demo_fenv = \<lparr>fe_bkt = demo_env, fe_mac = [1, 2], fe_devs = Some [(DONE_EXT3, 5)], fe_statfs = Some (1000000, 4096), fe_used = 0,
     fe_tm = \<lparr>tm_id = 0, tm_hddIdx = 0, tm_nextHddIdx = 0, tm_formatDate = 0, tm_initUsedSize = 0, tm_reserved2 = 0, tm_dvrMAC = []\<rparr>,
     fe_hm = \<lparr>hm_curid = 0, hm_hddcnt = 0\<rparr>\<rparr>"

definition demo_mounted :: "nat \<Rightarrow> fmt_world" where
  "demo_mounted i = \<lparr>fw_rec = (restart demo_world)\<lparr>rw_mount := no_mount\<rparr>,
     fw_top = (\<lambda>_. None)(5 \<mapsto> Some ((fe_tm demo_fenv)\<lparr>tm_hddIdx := int i, tm_dvrMAC := [1, 2]\<rparr>))\<rparr>"

definition demo_here :: bkt_disk where
  "demo_here = demo_disk\<lparr>dk_mgr := map_option (\<lambda>m. m\<lparr>mf_bodies := map (mb_path_update (\<lambda>_. 5)) (mf_bodies m)\<rparr>) (dk_mgr demo_disk)\<rparr>"

lemma demo_table:
  assumes "i < MAX_HDD_COUNT"
  obtains m where "BKTREC_updateHddInfo demo_fenv (fw_top (demo_mounted i)) = Some m" "mi_hddCnt m > 0" "\<And>j. mounted m j \<longleftrightarrow> j = i"
proof -
  let ?t = "fw_top (demo_mounted i)"
  have tm: "?t 5 = Some (Some ((fe_tm demo_fenv)\<lparr>tm_hddIdx := int i, tm_dvrMAC := [1, 2]\<rparr>))" by (simp add: demo_mounted_def)
  have o: "ours demo_fenv ?t dir k \<longleftrightarrow> dir = 5 \<and> k = i" for dir k by (auto simp: ours_def demo_mounted_def demo_fenv_def)
  obtain m0 where m0: "note_devs (fe_bkt demo_fenv) (fe_mac demo_fenv) ?t 0 [(DONE_EXT3, 5)] no_mount = Some m0"
  proof -
    have "\<forall>dir tm. ?t dir = Some (Some tm) \<longrightarrow> 0 \<le> tm_hddIdx tm" by (simp add: demo_mounted_def)
    from note_devs_total [OF this] that show thesis by blast
  qed
  have "mounted m0 (nat (tm_hddIdx ((fe_tm demo_fenv)\<lparr>tm_hddIdx := int i, tm_dvrMAC := [1, 2]\<rparr>)))"
    by (rule note_devs_mounts [OF _ tm _ _ _ m0 table_none]) (use assms demo_healthy(1) in \<open>simp_all add: demo_fenv_def\<close>)
  then have mo: "mounted m0 i" by simp
  have t0: "table_ok demo_fenv ?t m0" using note_devs_ok [OF m0 table_none, of undefined] by blast
  then have len: "length (mi_hddInfo m0) = MAX_HDD_COUNT" by (simp add: table_ok_def)
  have "ours demo_fenv ?t (disk_path m0 j) j" if "mounted m0 j" for j using t0 that unfolding table_ok_def by blast
  then have only: "mounted m0 j \<longleftrightarrow> j = i" for j using mo o by blast
  have u: "BKTREC_updateHddInfo demo_fenv ?t = Some (make_ring m0)" using m0 by (simp add: BKTREC_updateHddInfo_def demo_fenv_def)
  have "i \<in> set (nth_mounted m0)" using mo by (simp add: nth_mounted_def mounted_def)
  then have "mi_hddCnt m0 > 0" using t0 length_pos_if_in_set by (fastforce simp: table_ok_def)
  then have cnt: "mi_hddCnt (make_ring m0) > 0" using relinked_simps(2) [OF make_ring_ok(1) [OF len]] by simp
  show thesis by (rule that [OF u cnt]) (simp add: relinked_mounted [OF make_ring_ok(1) [OF len]] only)
qed

section \<open>The properties\<close>

text \<open>C12: The disk to record on.  When the manager of the disks names one, the choice succeeds: the
  disk that it names if it is mounted, otherwise the next mounted disk, from the last one
  round to the first; the mounted disks form a ring in which the recorder can go on from
  each disk to the next, and all of them can be recorded on.\<close>

theorem target_disk_ready:
  assumes "healthy (fe_bkt fe)" "rw_hddmgr (fw_rec s) = Some (Some hm)" "0 \<le> hm_curid hm"
    "\<forall>dir i. ours fe (fw_top s) dir i \<longrightarrow> disk_ok (rw_disks (fw_rec s) dir)"
    "BKTREC_getTargetDisk fe s = Some (st, s')" "mi_hddCnt (rw_mount (fw_rec s')) > 0"
  shows "st = 1 \<and> mount_ok (fw_rec s') \<and> ring (rw_mount (fw_rec s')) (nth_mounted (rw_mount (fw_rec s')))
    \<and> (let m = rw_mount (fw_rec s'); c = hm_curid hm; i = int (mi_curHddIdx m) in
       if mounted m (nat c) then i = c
       else if \<exists>k. mounted m k \<and> c < int k then c < i \<and> (\<forall>k. mounted m k \<and> c < int k \<longrightarrow> i \<le> int k)
       else \<forall>k. mounted m k \<longrightarrow> i \<le> int k)"
proof -
  note g = getTargetDisk_chosen [OF assms]
  have "mounted (rw_mount (fw_rec s')) (mi_curHddIdx (rw_mount (fw_rec s')))" using g(2) by (simp add: mount_ok_def Let_def)
  from next_mounted_ok [OF g(5) this g(6)] g(1-4) assms(3) show ?thesis by (simp add: Let_def split: if_splits)
qed

lemma target_disk_ready_witness:
  "\<exists>s'. BKTREC_getTargetDisk demo_fenv (upd_rec (rw_hddmgr_update (\<lambda>_. Some (Some \<lparr>hm_curid = 1, hm_hddcnt = 1\<rparr>))) (demo_mounted 2)) = Some (1, s')
    \<and> mount_ok (fw_rec s') \<and> mi_curHddIdx (rw_mount (fw_rec s')) = 2"
proof -
  let ?s = "upd_rec (rw_hddmgr_update (\<lambda>_. Some (Some \<lparr>hm_curid = 1, hm_hddcnt = 1\<rparr>))) (demo_mounted 2)"
  obtain m where m: "BKTREC_updateHddInfo demo_fenv (fw_top ?s) = Some m" "mi_hddCnt m > 0" "\<And>j. mounted m j \<longleftrightarrow> j = 2"
    by (rule demo_table [of 2]) (simp_all add: MAX_HDD_COUNT_def)
  have len: "length (mi_hddInfo m) = MAX_HDD_COUNT" using updateHddInfo_ok(1) [OF m(1)] by (simp add: table_ok_def)
  have nh: "\<not> hi_isMounted (mi_hddInfo m ! 1)" using m(3) [of 1] len by (simp add: mounted_def MAX_HDD_COUNT_def)
  have hl: "healthy (fe_bkt demo_fenv)" using demo_healthy(1) by (simp add: demo_fenv_def)
  obtain s' where run: "BKTREC_getTargetDisk demo_fenv ?s = Some (1, s')" and cnt: "mi_hddCnt (rw_mount (fw_rec s')) > 0" and mo: "mounted (rw_mount (fw_rec s')) = mounted m"
    using m(1,2) nh hl by (auto simp: BKTREC_getTargetDisk_def choose_disk_def Let_def MAX_HDD_COUNT_def)
  have "\<forall>dir i. ours demo_fenv (fw_top ?s) dir i \<longrightarrow> disk_ok (rw_disks (fw_rec ?s) dir)"
    using demo_disk_ok by (simp add: demo_mounted_def restart_def demo_world_def)
  from target_disk_ready [OF hl _ _ this run cnt, of "\<lparr>hm_curid = 1, hm_hddcnt = 1\<rparr>"] run show ?thesis
    by (auto simp: mo m(3) Let_def split: if_splits)
qed

text \<open>C18: A first start on a disk in another place fails.  Without a manager of the disks, the choice takes
  place 0 whether a disk is mounted there or not; if none is, the recorder gets an empty
  path and cannot be opened.  Only the next choice, which reads the manager that was
  written, finds the disk.\<close>

theorem first_start_fails:
  assumes "healthy (fe_bkt fe)" "rw_hddmgr (fw_rec s) = None" "BKTREC_updateHddInfo fe (fw_top s) = Some m" "mi_hddCnt m > 0"
    "\<not> mounted m 0" "rw_status (fw_rec s) \<noteq> BKT_STATUS_OPENED" "healthy ev"
  shows "\<exists>s1 s2 w. BKTREC_getTargetDisk fe s = Some (1, s1) \<and> BKTREC_open ev (cur_path (fw_rec s1)) (fw_rec s1) = Some (BKT_ERR, w)
    \<and> BKTREC_getTargetDisk fe (s1\<lparr>fw_rec := w\<rparr>) = Some (1, s2) \<and> mounted (rw_mount (fw_rec s2)) (mi_curHddIdx (rw_mount (fw_rec s2)))"
proof -
  note t = updateHddInfo_ok(1) [OF assms(3)]
  have len: "length (mi_hddInfo m) = MAX_HDD_COUNT" and p0: "disk_path m 0 = 0" "mi_curHddIdx m = 0"
    using t assms(5) by (auto simp: table_ok_def MAX_HDD_COUNT_def)
  obtain j where j: "mounted m j" using some_mounted [OF t assms(4)] by blast
  let ?hm = "(fe_hm fe)\<lparr>hm_curid := 0\<rparr>"
  let ?w = "(fw_rec s)\<lparr>rw_mount := m, rw_hddmgr := Some (Some ?hm)\<rparr>"
  let ?s1 = "s\<lparr>fw_rec := ?w\<rparr>" and ?w1 = "?w\<lparr>rw_ctrl := cleared_ctrl\<rparr>"
  note g = getTargetDisk_first [OF assms(1-4)]
  have cp: "cur_path ?w = 0" using p0 by (simp add: cur_path_def)
  have op: "BKTREC_open ev 0 ?w = Some (BKT_ERR, ?w1)" using assms(6) by (simp add: BKTREC_open_def)
  have nm: "mounted m (next_mounted 0 m)" by (rule next_mounted_ok [OF len j]) (simp add: MAX_HDD_COUNT_def)
  have nh: "\<not> hi_isMounted (mi_hddInfo m ! 0)" using assms(5) len by (simp add: mounted_def MAX_HDD_COUNT_def)
  have "\<exists>s2. BKTREC_getTargetDisk fe (?s1\<lparr>fw_rec := ?w1\<rparr>) = Some (1, s2) \<and> mounted (rw_mount (fw_rec s2)) (mi_curHddIdx (rw_mount (fw_rec s2)))"
    using assms(1,3,4) nh nm by (simp add: BKTREC_getTargetDisk_def choose_disk_def MAX_HDD_COUNT_def Let_def)
  then show ?thesis using g op cp by auto
qed

lemma first_start_fails_witness:
  "\<exists>s1 w. BKTREC_getTargetDisk demo_fenv (demo_mounted 2) = Some (1, s1) \<and> BKTREC_open demo_env (cur_path (fw_rec s1)) (fw_rec s1) = Some (BKT_ERR, w)"
proof -
  obtain m where m: "BKTREC_updateHddInfo demo_fenv (fw_top (demo_mounted 2)) = Some m" "mi_hddCnt m > 0" "\<And>j. mounted m j \<longleftrightarrow> j = 2"
    by (rule demo_table [of 2]) (simp_all add: MAX_HDD_COUNT_def)
  have hl: "healthy (fe_bkt demo_fenv)" using demo_healthy(1) by (simp add: demo_fenv_def)
  have w: "rw_hddmgr (fw_rec (demo_mounted 2)) = None" "rw_status (fw_rec (demo_mounted 2)) \<noteq> BKT_STATUS_OPENED"
    by (simp_all add: demo_mounted_def restart_def demo_world_def BKT_STATUS_CLOSED_def BKT_STATUS_OPENED_def)
  from first_start_fails [OF hl w(1) m(1,2) _ w(2) demo_healthy(1)] m(3) show ?thesis by auto
qed

text \<open>C13: A first disk can be recorded on.  No other disk has the file of a manager of baskets, no manager of the disks
  has been written, and the first free place of the mounted disks is place 0 (a disk
  in another place fails, see C18).  It has no record of a basket in use and a sound record database, at least two baskets fit
  on it, no system call fails, the recorder is at rest and recycling is not \<open>BKT_RECYCLE_ONCE\<close>.
  Baskets are made on it, the mounted disks, this one among them, are
  looked up, and the recorder is opened: it is ready with an empty basket of this disk.\<close>

theorem new_disk_records:
  assumes "healthy (fe_bkt fe)" "p \<noteq> 0" "0 \<le> free_msize (fe_statfs fe)"
    "2 \<le> basket_count (free_msize (fe_statfs fe) - free_msize (fe_statfs fe) sdiv 100)"
    "rdb_ok (rw_disks (fw_rec s) p)" "dk_info (rw_disks (fw_rec s) p) = None" "\<forall>q. q \<noteq> p \<longrightarrow> fw_top s q = None"
    "free_slot (rw_mount (fw_rec s)) = Some 0" "rw_hddmgr (fw_rec s) = None"
    "rw_status (fw_rec s) \<noteq> BKT_STATUS_OPENED" "long (rw_prevFpos (fw_rec s))" "rw_recycle (fw_rec s) \<noteq> BKT_RECYCLE_ONCE"
    "healthy (fe_bkt fe')" "fe_mac fe' = fe_mac fe" "fe_devs fe' = Some devs" "(DONE_EXT3, p) \<in> set devs" "healthy ev" "mp \<noteq> 0"
  shows "\<exists>n s1 s2 w b. BKTREC_CreateBasket fe p s = (n, s1) \<and> 2 \<le> n \<and> BKTREC_getTargetDisk fe' s1 = Some (1, s2)
    \<and> BKTREC_open ev mp (fw_rec s2) = Some (BKT_OK, w) \<and> rec_rel w \<lparr>lg_past = [], lg_cur = (p, b), lg_items = []\<rparr>"
proof -
  define n where "n = basket_count (free_msize (fe_statfs fe) - free_msize (fe_statfs fe) sdiv 100)"
  define s1 where "s1 = upd_rec (rw_space_update (\<lambda>_. BKT_SPACE_REMAIN)) (set_top p (Some (new_top fe 0)) (on_disk p (formatted fe p 0 n) s))"
  have x: "0 \<le> x - x sdiv 100" if "0 \<le> x" for x :: int
    using that by (cases "x = 0") (simp_all add: signed_divide_int_def)
  have n: "2 \<le> n" using assms(4) by (simp add: n_def)
  have c: "BKTREC_CreateBasket fe p s = (n, s1)"
    using x [OF assms(3)] assms(4) CreateBasketFiles_ok [OF assms(1,2) n assms(8)] by (simp add: BKTREC_CreateBasket_def Let_def n_def s1_def)
  have s1: "rw_disks (fw_rec s1) p = formatted fe p 0 n (rw_disks (fw_rec s) p)" "fw_top s1 p = Some (Some (new_top fe 0))"
    "rw_hddmgr (fw_rec s1) = None" "rw_status (fw_rec s1) \<noteq> BKT_STATUS_OPENED" "long (rw_prevFpos (fw_rec s1))" "rw_recycle (fw_rec s1) \<noteq> BKT_RECYCLE_ONCE"
    and tops: "\<And>q tm. fw_top s1 q = Some (Some tm) \<Longrightarrow> q = p \<and> tm = new_top fe 0"
    using assms(7,9-12) by (auto simp: s1_def set_top_def split: if_splits)
  have top: "tm_hddIdx (new_top fe 0) = 0" "tm_dvrMAC (new_top fe 0) = fe_mac fe'" using assms(14) by (simp_all add: new_top_def)
  note fm = formatted_ok [OF n assms(5,6), of fe p 0]
  obtain m0 where m0: "note_devs (fe_bkt fe') (fe_mac fe') (fw_top s1) 0 devs no_mount = Some m0"
    using note_devs_total [of "fw_top s1"] tops top by (metis order_refl)
  have "mounted m0 (nat (tm_hddIdx (new_top fe 0)))"
    by (rule note_devs_mounts [OF assms(13) s1(2) top(2) _ assms(16) m0 table_none]) (simp add: top MAX_HDD_COUNT_def)
  then have mo0: "mounted m0 0" by (simp add: top)
  have t0: "table_ok fe' (fw_top s1) m0" using note_devs_ok [OF m0 table_none, of undefined] by blast
  then have len: "length (mi_hddInfo m0) = MAX_HDD_COUNT" by (simp add: table_ok_def)
  let ?m = "make_ring m0"
  have u: "BKTREC_updateHddInfo fe' (fw_top s1) = Some ?m" using assms(15) m0 by (simp add: BKTREC_updateHddInfo_def)
  note t = updateHddInfo_ok [OF u]
  have mo: "mounted ?m 0" using mo0 relinked_mounted [OF make_ring_ok(1) [OF len]] by simp
  then have "0 \<in> set (nth_mounted ?m)" by (simp add: nth_mounted_def mounted_def)
  then have pos: "mi_hddCnt ?m > 0" using t(1) length_pos_if_in_set by (fastforce simp: table_ok_def)
  have path: "disk_path ?m 0 = p" using t(1) mo tops by (fastforce simp: table_ok_def ours_def)
  let ?w = "(fw_rec s1)\<lparr>rw_mount := ?m, rw_hddmgr := Some (Some ((fe_hm fe')\<lparr>hm_curid := 0\<rparr>))\<rparr>"
  have g: "BKTREC_getTargetDisk fe' s1 = Some (1, s1\<lparr>fw_rec := ?w\<rparr>)" by (rule getTargetDisk_first [OF assms(13) s1(3) u pos])
  have cur: "mi_curHddIdx ?m = 0" using t(1) by (simp add: table_ok_def)
  have "mount_ok ?w"
    by (rule table_mount_ok [where tops = "fw_top s1" and fe = fe', OF table_cur [OF t(1), of 0, simplified]])
       (use t pos mo cur s1(1) fm tops in \<open>auto simp: ours_def\<close>)
  then have clo: "closed_ok ?w" using s1(4-6) by (simp add: closed_ok_def)
  have cp: "cur_path ?w = p" by (simp add: cur_path_def cur path)
  have np: "nothing_pending (rw_disks ?w (cur_path ?w))" using fm(2) s1(1) unfolding cp by simp
  obtain w b where "BKTREC_open ev mp ?w = Some (BKT_OK, w)" "rec_rel w \<lparr>lg_past = [], lg_cur = (p, b), lg_items = []\<rparr>"
    using BKTREC_open_starts [OF assms(17) clo assms(18) np] unfolding cp by blast
  with c n g show ?thesis by fastforce
qed

lemma new_disk_records_witness:
  "\<exists>n s1 s2 w b. BKTREC_CreateBasket demo_fenv 5 demo_fmt = (n, s1) \<and> BKTREC_getTargetDisk demo_fenv s1 = Some (1, s2)
    \<and> BKTREC_open demo_env 5 (fw_rec s2) = Some (BKT_OK, w) \<and> rec_rel w \<lparr>lg_past = [], lg_cur = (5, b), lg_items = []\<rparr>"
proof -
  have sz: "free_msize (fe_statfs demo_fenv) = 3906" by (simp add: free_msize_def demo_fenv_def SIZE_MB_def signed_divide_int_def)
  have cnt: "2 \<le> basket_count (3906 - 3906 sdiv 100)"
    by (simp add: basket_count_def BKT_SIZE_def BASKET_SIZE_def SIZE_MB_def signed_divide_int_def)
  have slot: "free_slot (rw_mount (fw_rec demo_fmt)) = Some 0"
    by (simp add: free_slot_def demo_fmt_def no_mount_def no_hdd_def MAX_HDD_COUNT_def upt_rec [of 0])
  have w: "rdb_ok (rw_disks (fw_rec demo_fmt) 5)" "dk_info (rw_disks (fw_rec demo_fmt) 5) = None" "\<forall>q. q \<noteq> 5 \<longrightarrow> fw_top demo_fmt q = None"
    "rw_hddmgr (fw_rec demo_fmt) = None" "rw_status (fw_rec demo_fmt) \<noteq> BKT_STATUS_OPENED" "long (rw_prevFpos (fw_rec demo_fmt))"
    "rw_recycle (fw_rec demo_fmt) \<noteq> BKT_RECYCLE_ONCE"
    by (simp_all add: demo_fmt_def demo_blank_def rdb_ok_def restart_def demo_world_def fits_def const_defs)
  have e: "healthy (fe_bkt demo_fenv)" "fe_devs demo_fenv = Some [(DONE_EXT3, 5)]" using demo_healthy(1) by (simp_all add: demo_fenv_def)
  show ?thesis
    using new_disk_records [OF e(1) _ _ _ w(1-3) slot w(4-7) e(1) refl e(2) _ demo_healthy(1), of 5] cnt by (simp add: sz) blast
qed

text \<open>C14: A cleared disk can be recorded on.  On a disk that lists its baskets with their files, the
  deletion of a stopped recorder's baskets succeeds: every basket that was listed is empty
  and marked so, the record database is gone, no basket is in use or stopped, and the other
  disks are as they were.  The recorder can then be opened on it with an empty basket.\<close>

theorem cleared_disk_records:
  assumes "healthy (fe_bkt fe)" "closed_ok (fw_rec s)" "rw_status (fw_rec s) = BKT_STATUS_CLOSED" "p = cur_path (fw_rec s)"
    "listed_here p (rw_disks (fw_rec s) p)" "healthy ev" "mp \<noteq> 0"
  shows "\<exists>s' w b. BKTREC_deleteBasket fe p s = (1, s') \<and> BKTREC_open ev mp (fw_rec s') = Some (BKT_OK, w)
    \<and> rec_rel w \<lparr>lg_past = [], lg_cur = (p, b), lg_items = []\<rparr>
    \<and> (let d = rw_disks (fw_rec s') p; old = the (dk_mgr (rw_disks (fw_rec s) p)); new = the (dk_mgr d) in
       map mb_bid (mf_bodies new) = map mb_bid (mf_bodies old)
       \<and> (\<forall>bd \<in> set (mf_bodies new). mb_save_flag bd = SF_EMPTY \<and> dk_bkt d (mb_bid bd) = Some [] \<and> dk_idx d (mb_bid bd) = Some [])
       \<and> dk_info d = None \<and> dk_rdb d = Map.empty)
    \<and> (\<forall>q. q \<noteq> p \<longrightarrow> rw_disks (fw_rec s') q = rw_disks (fw_rec s) q)"
proof -
  let ?f = "\<lambda>d. d\<lparr>dk_info := None, dk_rdb_dir := False, dk_rdb := Map.empty\<rparr>"
  define s2 where "s2 = on_disk p ?f s"
  define d0 where "d0 = rw_disks (fw_rec s2) p"
  obtain m where m: "dk_mgr (rw_disks (fw_rec s) p) = Some m" "mf_bkt_count m = int (length (mf_bodies m))" "mf_bodies m \<noteq> []"
    using assms(5) by (auto simp: listed_here_def)
  have m2: "dk_mgr d0 = Some m" using m(1) by (simp add: d0_def s2_def)
  have l2: "listed_here p d0" using assms(5) by (auto simp: listed_here_def d0_def s2_def has_files_def)
  have all: "\<forall>i \<in> set [0..<nat (mf_bkt_count m)]. i < nat (mf_bkt_count (the (dk_mgr d0)))" using m2 by simp
  define d where "d = fold (clear_files (fe_bkt fe)) [0..<nat (mf_bkt_count m)] d0"
  have loop: "clear_loop (fe_bkt fe) p [0..<nat (mf_bkt_count m)] s2 = (True, on_disk p (fold (clear_files (fe_bkt fe)) [0..<nat (mf_bkt_count m)]) s2)"
    by (rule clear_loop_ok [OF assms(1)]) (use l2 all in \<open>simp_all add: d0_def\<close>)
  define s' where "s' = upd_rec (rw_space_update (\<lambda>_. BKT_SPACE_REMAIN)) (on_disk p (fold (clear_files (fe_bkt fe)) [0..<nat (mf_bkt_count m)]) s2)"
  have ex: "snd (BKTREC_exit (fe_bkt fe) SF_STOP BKT_REC_CLOSE_BUF_FLUSH (fw_rec s)) = fw_rec s" using assms(3) by (simp add: BKTREC_exit_def)
  have d2: "dk_mgr (rw_disks (fw_rec s2) p) = Some m" using m2 by (simp add: d0_def)
  have run: "BKTREC_deleteBasket fe p s = (1, s')"
    using assms(1) loop d2 by (simp add: BKTREC_deleteBasket_def ex Let_def s2_def [symmetric] s'_def del: on_disk_simps)
  have dd: "rw_disks (fw_rec s') p = d" "\<And>q. q \<noteq> p \<Longrightarrow> rw_disks (fw_rec s') q = rw_disks (fw_rec s) q"
    by (simp_all add: s'_def d_def d0_def s2_def)
  note c = fold_clear [OF l2 all d_def]
  then have c1: "listed_here p d" "dk_info d = None" "dk_rdb d = Map.empty" "map mb_bid (mf_bodies (the (dk_mgr d))) = map mb_bid (mf_bodies m)"
    using m2 by (simp_all add: d0_def s2_def)
  have len: "length (mf_bodies (the (dk_mgr d))) = length (mf_bodies m)" using arg_cong [OF c1(4), of length] by simp
  have flags: "mb_save_flag bd = SF_EMPTY \<and> dk_bkt d (mb_bid bd) = Some [] \<and> dk_idx d (mb_bid bd) = Some []" if bd: "bd \<in> set (mf_bodies (the (dk_mgr d)))" for bd
  proof -
    obtain i where i: "i < length (mf_bodies m)" "bd = mf_bodies (the (dk_mgr d)) ! i" using bd len by (auto simp: in_set_conv_nth)
    have "mb_bid bd = mb_bid (mf_bodies m ! i)" using i len arg_cong [OF c1(4), of "\<lambda>xs. xs ! i"] by simp
    moreover have "i \<in> set [0..<nat (mf_bkt_count m)]" using i(1) m(2) by simp
    ultimately show ?thesis using c i len m2 by fastforce
  qed
  have mo: "mount_ok (fw_rec s)" using assms(2) by (simp add: closed_ok_def)
  have dok: "disk_ok d" using c1(1-3) by (auto simp: disk_ok_def listed_here_def rdb_ok_def)
  have dks: "disk_ok (rw_disks (fw_rec s') q)" if "disk_ok (rw_disks (fw_rec s) q)" for q
    using that dok dd by (cases "q = p") auto
  have rest: "rw_mount (fw_rec s') = rw_mount (fw_rec s)" "rw_hddmgr (fw_rec s') = rw_hddmgr (fw_rec s)" by (simp_all add: s'_def s2_def)
  have "mount_ok (fw_rec s')" using mo dks unfolding mount_ok_def Let_def rest by blast
  then have clo: "closed_ok (fw_rec s')" using assms(2) by (simp add: closed_ok_def s'_def s2_def)
  have cp: "cur_path (fw_rec s') = p" using assms(4) by (simp add: cur_path_def s'_def s2_def)
  have "nothing_pending (rw_disks (fw_rec s') (cur_path (fw_rec s')))" unfolding cp dd using c1(2) by (simp add: nothing_pending_def)
  from BKTREC_open_starts [OF assms(6) clo assms(7) this] run c1 flags dd m show ?thesis unfolding cp by (auto simp: Let_def)
qed

lemma cleared_disk_records_witness:
  "\<exists>s' w b. BKTREC_deleteBasket demo_fenv 5 \<lparr>fw_rec = restart (demo_world\<lparr>rw_disks := \<lambda>_. demo_here\<rparr>), fw_top = \<lambda>_. None\<rparr> = (1, s')
    \<and> BKTREC_open demo_env 5 (fw_rec s') = Some (BKT_OK, w) \<and> rec_rel w \<lparr>lg_past = [], lg_cur = (5, b), lg_items = []\<rparr>"
proof -
  let ?s = "\<lparr>fw_rec = restart (demo_world\<lparr>rw_disks := \<lambda>_. demo_here\<rparr>), fw_top = \<lambda>_. None\<rparr>"
  have e: "healthy (fe_bkt demo_fenv)" using demo_healthy(1) by (simp add: demo_fenv_def)
  have d: "disk_ok demo_here" "listed_here 5 demo_here"
    by (auto simp: disk_ok_def rdb_ok_def listed_here_def has_files_def demo_here_def demo_defs BKT_ERR_def)
  have "mounted (rw_mount demo_world) i \<longleftrightarrow> i = 0" for i by (cases i) (simp_all add: mounted_def demo_world_def demo_hdd_def)
  then have "mount_ok (demo_world\<lparr>rw_disks := \<lambda>_. demo_here\<rparr>)" using d(1)
    by (simp add: mount_ok_def) (simp add: demo_world_def demo_hdd_def)
  then have c: "closed_ok (fw_rec ?s)" using restart_closed by simp
  have p: "5 = cur_path (fw_rec ?s)" by (simp add: cur_path_def restart_def demo_world_def disk_path_def demo_hdd_def)
  have "rw_status (fw_rec ?s) = BKT_STATUS_CLOSED" "listed_here 5 (rw_disks (fw_rec ?s) 5)" using d(2) by (simp_all add: restart_def)
  from cleared_disk_records [OF e c this(1) p this(2) demo_healthy(1), of 5] show ?thesis by auto
qed

text \<open>C15: The baskets that are made fit into the free space of the disk: their number times the size
  of a basket is at most the space that the system reports.\<close>

theorem created_baskets_fit:
  assumes "fe_statfs fe = Some (bfree, bsize)" "0 \<le> bfree" "0 \<le> bsize" "free_slot (rw_mount (fw_rec s)) \<noteq> None"
    "BKTREC_CreateBasket fe p s = (n, s')" "n \<noteq> BKT_ERR"
  shows "2 \<le> n \<and> n * BASKET_SIZE \<le> bfree * bsize"
proof -
  have sd: "a sdiv b = a div b" if "0 \<le> a" "0 < b" for a b :: int using that by (cases "a = 0") (simp_all add: signed_divide_int_def)
  let ?m = "bfree * bsize div SIZE_MB"
  have m: "free_msize (fe_statfs fe) = ?m" "0 \<le> ?m" using assms(1-3) by (simp_all add: free_msize_def sd SIZE_MB_def pos_imp_zdiv_nonneg_iff)
  let ?x = "?m - ?m sdiv 100"
  have x: "0 \<le> ?x" "?x \<le> ?m" using m(2) sd [of ?m 100] by simp_all
  obtain i where i: "free_slot (rw_mount (fw_rec (set_top p None s))) = Some i" using assms(4) by (auto simp: set_top_def)
  have n: "n = basket_count ?x" "2 \<le> n"
    using assms(5,6) i x(1) by (auto simp: BKTREC_CreateBasket_def BKTREC_CreateBasketFiles_def m(1) Let_def split: if_splits prod.splits bool.splits)
  have "n * BKT_SIZE \<le> ?m" using basket_count_bound [OF x(1)] n x(2) by simp
  then have "n * BKT_SIZE * SIZE_MB \<le> ?m * SIZE_MB" by (simp add: SIZE_MB_def)
  also have "\<dots> \<le> bfree * bsize" 
    using div_mult_mod_eq [of "bfree * bsize" SIZE_MB] pos_mod_sign [of SIZE_MB "bfree * bsize"] by (simp add: SIZE_MB_def)
  finally show ?thesis using n(2) by (simp add: BKT_SIZE_def BASKET_SIZE_def SIZE_MB_def)
qed

lemma created_baskets_fit_witness:
  "\<exists>n s'. BKTREC_CreateBasket demo_fenv 5 demo_fmt = (n, s') \<and> 2 \<le> n \<and> n * BASKET_SIZE \<le> 1000000 * 4096"
proof -
  obtain n s1 where r: "BKTREC_CreateBasket demo_fenv 5 demo_fmt = (n, s1)" by (cases "BKTREC_CreateBasket demo_fenv 5 demo_fmt")
  have sz: "free_msize (fe_statfs demo_fenv) = 3906" by (simp add: free_msize_def demo_fenv_def SIZE_MB_def signed_divide_int_def)
  have cnt: "basket_count 3867 = 5"
    by (simp add: basket_count_def BKT_SIZE_def BASKET_SIZE_def SIZE_MB_def signed_divide_int_def)
  have slot: "free_slot (rw_mount (fw_rec demo_fmt)) = Some 0"
    by (simp add: free_slot_def demo_fmt_def no_mount_def no_hdd_def MAX_HDD_COUNT_def upt_rec [of 0])
  have e: "healthy (fe_bkt demo_fenv)" using demo_healthy(1) by (simp add: demo_fenv_def)
  have "n = 5" using r CreateBasketFiles_ok [OF e _ _ slot, of 5 5] by (simp add: BKTREC_CreateBasket_def sz cnt signed_divide_int_def)
  then have "n \<noteq> BKT_ERR" by (simp add: BKT_ERR_def)
  have "fe_statfs demo_fenv = Some (1000000, 4096)" by (simp add: demo_fenv_def)
  from created_baskets_fit [OF this _ _ _ r \<open>n \<noteq> BKT_ERR\<close>] slot r show ?thesis by auto
qed

end
