(* ===== verification/Writer.thy ===== *)
theory Writer
  imports Writer_Pool Prerec_Spec Basket_Made
begin

text \<open>The writer (src/app_writer.c): what the recorder thread does with a frame, its interleaving
  with the encoder threads, and the calls by which the application starts and stops the
  recording of a channel.\<close>

section \<open>Handing a frame to the pre-recording buffer\<close>

text \<open>\<open>gettimeofday\<close>, what the local parameter structures hold before they are filled, and the
  environment of the pre-recording buffer.\<close>

record push_env =
  pu_sec :: int
  pu_usec :: int
  pu_vp :: video_rec_param
  pu_ap :: audio_rec_param
  pu_pre :: pre_env

definition AUDIO_SAMPLE_CHANNELS :: int where "AUDIO_SAMPLE_CHANNELS = 1"

definition video_param :: "push_env \<Rightarrow> wr_chinfo \<Rightarrow> int \<Rightarrow> bitsbuf \<Rightarrow> byte list \<Rightarrow> video_rec_param" where
  "video_param pe i chId buf m = (pu_vp pe)\<lparr>vp_ch := chId, vp_framesize := int (bb_filledBufSize buf), vp_framerate := 30, vp_event := wc_event_mode i,
     vp_frametype := bb_frameType buf, vp_width := bb_frameWidth buf, vp_height := bb_frameHeight buf, vp_buff := m,
     vp_sec := pu_sec pe, vp_usec := pu_usec pe, vp_audioONOFF := wc_enableAudio i, vp_camName := name16 (wc_camName i)\<rparr>"

definition audio_param :: "push_env \<Rightarrow> int \<Rightarrow> bitsbuf \<Rightarrow> byte list \<Rightarrow> audio_rec_param" where
  "audio_param pe chId buf m = (pu_ap pe)\<lparr>ap_ch := chId, ap_framesize := int (bb_filledBufSize buf), ap_buff := m,
     ap_achannel := AUDIO_SAMPLE_CHANNELS, ap_samplingrate := bb_fieldId buf, ap_sec := pu_sec pe, ap_usec := pu_usec pe\<rparr>"

definition frame_media :: "push_env \<Rightarrow> wr_chinfo \<Rightarrow> int \<Rightarrow> int \<Rightarrow> bitsbuf \<Rightarrow> byte list \<Rightarrow> media" where
  "frame_media pe i type chId buf m = (if type = VIDEO then Video (video_param pe i chId buf m) else Audio (audio_param pe chId buf m))"

text \<open>The frame is pushed when the channel records or is pre-recorded.  The result says what was pushed,
  with the result of the buffer, which the caller does not see.\<close>

definition pre_push :: "push_env \<Rightarrow> int \<Rightarrow> int \<Rightarrow> bitsbuf \<Rightarrow> writer \<Rightarrow> ((media \<times> int) option \<times> writer) outcome" where
  "pre_push pe type chId buf s =
    (if \<not> has_ch chId (ws_ctrl s) then Some (Inl Crash)
     else
       let i = wr_chInfo (ws_ctrl s) ! nat chId in
       if wc_enableChSave i \<or> wc_presec i > 0 then
         (case bb_bufVirtAddr buf of None \<Rightarrow> Some (Inl Crash)
          | Some m \<Rightarrow>
              let f = frame_media pe i type chId buf m in
              (case push_media (pu_pre pe) f s of None \<Rightarrow> None | Some (Inl e) \<Rightarrow> Some (Inl e) | Some (Inr (n, s')) \<Rightarrow> Some (Inr (Some (f, n), s'))))
       else Some (Inr (None, s)))"

definition WRITER_prePushframe :: "push_env \<Rightarrow> int \<Rightarrow> int \<Rightarrow> bitsbuf \<Rightarrow> writer \<Rightarrow> (int \<times> writer) outcome" where
  "WRITER_prePushframe pe type chId buf s =
    (case pre_push pe type chId buf s of None \<Rightarrow> None | Some (Inl e) \<Rightarrow> Some (Inl e) | Some (Inr (x, s')) \<Rightarrow> Some (Inr (OSA_SOK, s')))"

section \<open>Writing without pre-recording\<close>

text \<open>The path that is taken when pre-recording is compiled out.  A key frame is told by the frame type
  for either kind of buffer, and an audio write that finds the disks full is not noticed.\<close>

definition WRITER_fileSaveRun :: "push_env \<Rightarrow> bkt_env \<Rightarrow> (int \<Rightarrow> int) \<Rightarrow> int \<Rightarrow> int \<Rightarrow> bitsbuf \<Rightarrow> rec_world \<times> wr_ctrl \<Rightarrow> (int \<times> rec_world \<times> wr_ctrl) option" where
  "WRITER_fileSaveRun pe ev iFps type chId buf = (\<lambda>(w, c).
    if \<not> has_ch chId c then None
    else
      let i = wr_chInfo c ! nat chId;
          st1 = enter_state (wc_enableChSave i) (wc_fileSaveState i);
          st2 = (if st1 = SAVE_STATE_OPEN \<and> bb_frameType buf = FT_IFRAME then SAVE_STATE_WRITE else st1) in
      if st2 = SAVE_STATE_WRITE \<and> bb_filledBufSize buf > 0 then
        (case bb_bufVirtAddr buf of None \<Rightarrow> None
         | Some m \<Rightarrow>
             if type = VIDEO then
               let first = wc_firstKeyframe i \<or> bb_frameType buf = FT_IFRAME; c1 = upd_ch chId (wc_firstKeyframe_update (\<lambda>_. first)) c in
               if first then
                 (case BKTREC_WriteVideoStream ev ((video_param pe i chId buf m)\<lparr>vp_framerate := iFps chId\<rparr>) w of None \<Rightarrow> None
                  | Some (status, w1) \<Rightarrow> Some (status, w1, save_state_end chId (note_status chId status (st2, c1))))
               else Some (OSA_SOK, w, save_state_end chId (st2, c1))
             else
               (case BKTREC_WriteAudioStream ev (audio_param pe chId buf m) w of None \<Rightarrow> None
                | Some (status, w1) \<Rightarrow>
                    Some (OSA_SOK, w1, save_state_end chId (if status = BKT_ERR then note_status chId status (st2, c) else (st2, c)))))
      else Some (OSA_SOK, w, save_state_end chId (st2, c)))"

section \<open>The threads\<close>

text \<open>Where the recorder thread is: polling a full queue, with a buffer whose frame is to be pushed,
  after the push, after the free, with the buffer that it puts into the free queue.\<close>

datatype rec_pc = R_poll pool_id | R_has pool_id int | R_pushed pool_id int | R_freed pool_id | R_new pool_id int

text \<open>The pools, the buffer that each encoder thread holds, the recorder thread, and the writer.  Three
  fields record the run: the frames that the encoder threads have put in, those that the recorder thread
  has taken out, and the pushes with their results.\<close>

record wsys =
  sy_pool :: "pool_id \<Rightarrow> pool"
  sy_prod :: "pool_id \<Rightarrow> int option"
  sy_rec :: rec_pc
  sy_writer :: writer
  sy_sent :: "pool_id \<Rightarrow> bitsbuf list"
  sy_got :: "(pool_id \<times> bitsbuf \<times> media option) list"
  sy_pushed :: "((pre_env \<times> media) \<times> int) list"

definition strm_type :: "pool_id \<Rightarrow> int" where
  "strm_type k = (if k = PAud then AUDIO else VIDEO)"

definition other_pool :: "pool_id \<Rightarrow> pool_id" where
  "other_pool k = (if k = PVid then PAud else PVid)"

definition set_pool :: "pool_id \<Rightarrow> pool \<Rightarrow> wsys \<Rightarrow> wsys" where
  "set_pool k p s = s\<lparr>sy_pool := (sy_pool s)(k := p)\<rparr>"

definition the_tbls :: "wsys \<Rightarrow> pool_id \<Rightarrow> buf_tbl" where
  "the_tbls s = (\<lambda>k. po_tbl (sy_pool s k))"

definition the_buf :: "wsys \<Rightarrow> pool_id \<Rightarrow> int \<Rightarrow> bitsbuf" where
  "the_buf s k b = be_bitBuf (bt_tbl (po_tbl (sy_pool s k)) ! nat b)"

text \<open>An encoder thread (\<open>WRITER_videoProcessFullBufs\<close>, \<open>WRITER_audioRecvFxn\<close>) gets a buffer, or waits; and
  puts a frame.\<close>

definition prod_get :: "pool_id \<Rightarrow> wsys \<Rightarrow> wsys option" where
  "prod_get k s = (if sy_prod s k \<noteq> None then None
     else case get_free (sy_pool s k) of None \<Rightarrow> None
     | Some (b, p) \<Rightarrow> Some ((set_pool k p s)\<lparr>sy_prod := (sy_prod s)(k := Some b)\<rparr>))"

definition prod_put :: "pool_id \<Rightarrow> bitsbuf \<Rightarrow> wsys \<Rightarrow> wsys option" where
  "prod_put k f s = (case sy_prod s k of None \<Rightarrow> None
     | Some b \<Rightarrow> (case put_filled k f b (sy_pool s k) of None \<Rightarrow> None
         | Some p \<Rightarrow> Some ((set_pool k p s)\<lparr>sy_prod := (sy_prod s)(k := None), sy_sent := (sy_sent s)(k := sy_sent s k @ [f])\<rparr>)))"

text \<open>A step of \<open>WRITER_recordFxn\<close>.  None: an access outside a table, or the push does not return.\<close>

definition rec_step :: "push_env \<Rightarrow> wsys \<Rightarrow> wsys option" where
  "rec_step pe s = (case sy_rec s of
     R_poll k \<Rightarrow> (case get_full (sy_pool s k) of
         (None, p) \<Rightarrow> Some ((set_pool k p s)\<lparr>sy_rec := R_poll (other_pool k)\<rparr>)
       | (Some b, p) \<Rightarrow> Some ((set_pool k p s)\<lparr>sy_rec := R_has k b\<rparr>))
   | R_has k b \<Rightarrow>
       let buf = the_buf s k b; s1 = s\<lparr>sy_rec := R_pushed k b\<rparr> in
       if BKTREC_IsOpenBasket (ws_rec (sy_writer s)) then
         (case pre_push pe (strm_type k) (bb_chnId buf) buf (sy_writer s) of
            Some (Inr (None, w)) \<Rightarrow> Some (s1\<lparr>sy_writer := w, sy_got := sy_got s @ [(k, buf, None)]\<rparr>)
          | Some (Inr (Some (m, n), w)) \<Rightarrow>
              Some (s1\<lparr>sy_writer := w, sy_got := sy_got s @ [(k, buf, Some m)], sy_pushed := sy_pushed s @ [((pu_pre pe, m), n)]\<rparr>)
          | _ \<Rightarrow> None)
       else Some (s1\<lparr>sy_got := sy_got s @ [(k, buf, None)]\<rparr>)
   | R_pushed k b \<Rightarrow> map_option (\<lambda>ts. (set_pool k ((sy_pool s k)\<lparr>po_tbl := ts k\<rparr>) s)\<lparr>sy_rec := R_freed k\<rparr>) (WRITER_bufFree b (strm_type k) (the_tbls s))
   | R_freed k \<Rightarrow> map_option (\<lambda>(b, ts). (set_pool k ((sy_pool s k)\<lparr>po_tbl := ts k\<rparr>) s)\<lparr>sy_rec := R_new k (int b)\<rparr>) (WRITER_bufAlloc (strm_type k) (the_tbls s))
   | R_new k b \<Rightarrow> Some ((set_pool k (give_back b (sy_pool s k)) s)\<lparr>sy_rec := R_poll (other_pool k)\<rparr>))"

text \<open>The steps that occur: frames fit into the buffers, and the environment of a push is legal.\<close>

definition legal_push :: "push_env \<Rightarrow> wsys \<Rightarrow> bool" where
  "legal_push pe s = (case sy_rec s of
     R_has k b \<Rightarrow> (case pre_push pe (strm_type k) (bb_chnId (the_buf s k b)) (the_buf s k b) (sy_writer s) of
         Some (Inr (Some (m, n), w)) \<Rightarrow> push_legal (pu_pre pe, m) | _ \<Rightarrow> True)
   | _ \<Rightarrow> True)"

inductive wsys_step :: "wsys \<Rightarrow> wsys \<Rightarrow> bool" where
  step_get: "k = PVid \<or> k = PAud \<Longrightarrow> prod_get k s = Some s' \<Longrightarrow> wsys_step s s'"
| step_put: "k = PVid \<or> k = PAud \<Longrightarrow> fits_pool k f \<Longrightarrow> prod_put k f s = Some s' \<Longrightarrow> wsys_step s s'"
| step_rec: "legal_push pe s \<Longrightarrow> rec_step pe s = Some s' \<Longrightarrow> wsys_step s s'"

inductive wsys_reach :: "wsys \<Rightarrow> wsys \<Rightarrow> bool" for s0 where
  wsys_init: "wsys_reach s0 s0"
| wsys_next: "wsys_reach s0 s \<Longrightarrow> wsys_step s s' \<Longrightarrow> wsys_reach s0 s'"

end
