(* ===== verification/Writer_Spec.thy ===== *)
theory Writer_Spec
  imports Writer
begin

text \<open>What the threads of the writer keep: every frame that an encoder thread puts in is taken out
  once, in order and with its bytes, and goes through the pre-recording buffer to the
  basket; no access is outside a table.\<close>

section \<open>The invariant\<close>

definition rec_buf :: "pool_id \<Rightarrow> rec_pc \<Rightarrow> int list" where
  "rec_buf k pc = (case pc of R_has k' b \<Rightarrow> if k' = k then [b] else [] | R_pushed k' b \<Rightarrow> if k' = k then [b] else []
     | R_new k' b \<Rightarrow> if k' = k then [b] else [] | _ \<Rightarrow> [])"

definition held_by :: "pool_id \<Rightarrow> wsys \<Rightarrow> int multiset" where
  "held_by k s = mset (rec_buf k (sy_rec s)) + (case sy_prod s k of None \<Rightarrow> {#} | Some b \<Rightarrow> {#b#})"

definition pool_fine :: "pool_id \<Rightarrow> wsys \<Rightarrow> bool" where
  "pool_fine k s \<longleftrightarrow> (if sy_rec s = R_freed k then \<exists>b. pool_inv k (held_by k s) (Some b) (sy_pool s k)
     else pool_inv k (held_by k s) None (sy_pool s k))"

text \<open>The buffers with frames that have not been taken out.\<close>

definition pending :: "pool_id \<Rightarrow> wsys \<Rightarrow> int list" where
  "pending k s = (case sy_rec s of R_has k' b \<Rightarrow> if k' = k then [b] else [] | _ \<Rightarrow> []) @ que_elems (po_full (sy_pool s k))"

definition got_from :: "pool_id \<Rightarrow> wsys \<Rightarrow> bitsbuf list" where
  "got_from k s = map (fst \<circ> snd) (filter (\<lambda>x. fst x = k) (sy_got s))"

definition frames_fine :: "pool_id \<Rightarrow> wsys \<Rightarrow> bool" where
  "frames_fine k s \<longleftrightarrow> list_all2 (carries k) (got_from k s @ map (the_buf s k) (pending k s)) (sy_sent s k)"

text \<open>What was pushed for a buffer.\<close>

definition pushed_for :: "pool_id \<Rightarrow> bitsbuf \<Rightarrow> media \<Rightarrow> bool" where
  "pushed_for k buf m \<longleftrightarrow> (\<exists>pe i mem. bb_bufVirtAddr buf = Some mem \<and> m = frame_media pe i (strm_type k) (bb_chnId buf) buf mem)"

definition writer_fine :: "writer \<Rightarrow> wsys \<Rightarrow> bool" where
  "writer_fine w0 s \<longleftrightarrow> run_steps push_step (map fst (sy_pushed s)) w0 = Some (map snd (sy_pushed s), sy_writer s)
     \<and> list_all push_legal (map fst (sy_pushed s))
     \<and> map (snd \<circ> fst) (sy_pushed s) = List.map_filter (snd \<circ> snd) (sy_got s)
     \<and> (\<forall>k buf m. (k, buf, Some m) \<in> set (sy_got s) \<longrightarrow> pushed_for k buf m)"

definition pc_fine :: "rec_pc \<Rightarrow> bool" where
  "pc_fine pc \<longleftrightarrow> (case pc of R_poll k \<Rightarrow> k = PVid \<or> k = PAud | R_has k b \<Rightarrow> k = PVid \<or> k = PAud | R_pushed k b \<Rightarrow> k = PVid \<or> k = PAud
     | R_freed k \<Rightarrow> k = PVid \<or> k = PAud | R_new k b \<Rightarrow> k = PVid \<or> k = PAud)"

definition sys_inv :: "writer \<Rightarrow> wsys \<Rightarrow> bool" where
  "sys_inv w0 s \<longleftrightarrow> pc_fine (sy_rec s) \<and> (\<forall>k \<in> {PVid, PAud}. pool_fine k s \<and> frames_fine k s) \<and> writer_fine w0 s"

section \<open>Its preservation\<close>

lemma run_steps_snoc:
  "run_steps step (xs @ [x]) w = (case run_steps step xs w of None \<Rightarrow> None | Some (rs, w1) \<Rightarrow> map_option (\<lambda>(r, w2). (rs @ [r], w2)) (step x w1))"
proof (induction xs arbitrary: w)
  case (Cons y xs)
  then show ?case by (auto split: option.splits) (auto simp: map_option_case split: option.splits)
qed (auto split: option.splits)

lemma set_pool_simps [simp]: "sy_pool (set_pool k p s) = (sy_pool s)(k := p)" "sy_prod (set_pool k p s) = sy_prod s" "sy_rec (set_pool k p s) = sy_rec s"
  "sy_writer (set_pool k p s) = sy_writer s" "sy_sent (set_pool k p s) = sy_sent s" "sy_got (set_pool k p s) = sy_got s" "sy_pushed (set_pool k p s) = sy_pushed s"
  by (simp_all add: set_pool_def)

text \<open>A step on one pool leaves the other alone.\<close>

definition elsewhere :: "pool_id \<Rightarrow> wsys \<Rightarrow> wsys \<Rightarrow> bool" where
  "elsewhere k s' s \<longleftrightarrow> (\<forall>j. j \<noteq> k \<longrightarrow> sy_pool s' j = sy_pool s j \<and> sy_prod s' j = sy_prod s j \<and> sy_sent s' j = sy_sent s j \<and> got_from j s' = got_from j s
     \<and> rec_buf j (sy_rec s') = rec_buf j (sy_rec s) \<and> (sy_rec s' = R_freed j \<longleftrightarrow> sy_rec s = R_freed j)
     \<and> pending j s' = pending j s)"

lemma elsewhere_fine:
  assumes "elsewhere k s' s" "j \<noteq> k"
  shows "pool_fine j s' = pool_fine j s" "frames_fine j s' = frames_fine j s"
  using assms by (simp_all add: elsewhere_def pool_fine_def held_by_def frames_fine_def the_buf_def [abs_def])

lemma inv_step:
  assumes inv: "sys_inv w0 s" and k: "k \<in> {PVid, PAud}" and e: "elsewhere k s' s" and pc: "pc_fine (sy_rec s')"
    and p: "pool_fine k s'" and f: "frames_fine k s'" and w: "writer_fine w0 s'"
  shows "sys_inv w0 s'"
  unfolding sys_inv_def
proof (intro conjI ballI)
  fix j assume j: "j \<in> {PVid, PAud}"
  have "pool_fine j s' \<and> frames_fine j s'"
  proof (cases "j = k")
    case False
    have "pool_fine j s \<and> frames_fine j s" using inv j unfolding sys_inv_def by blast
    with elsewhere_fine [OF e False] show ?thesis by simp
  qed (simp add: p f)
  then show "pool_fine j s'" "frames_fine j s'" by simp_all
qed (fact pc, fact w)

lemma writer_same:
  "sy_writer s' = sy_writer s \<Longrightarrow> sy_got s' = sy_got s \<Longrightarrow> sy_pushed s' = sy_pushed s \<Longrightarrow> writer_fine w0 s' = writer_fine w0 s"
  by (simp add: writer_fine_def)

lemma prod_get_inv:
  assumes inv: "sys_inv w0 s" and k: "k \<in> {PVid, PAud}" and run: "prod_get k s = Some s'"
  shows "sys_inv w0 s'"
proof -
  obtain b p where r: "sy_prod s k = None" "get_free (sy_pool s k) = Some (b, p)" "s' = (set_pool k p s)\<lparr>sy_prod := (sy_prod s)(k := Some b)\<rparr>"
    using run by (auto simp: prod_get_def split: option.splits if_splits)
  have pf: "pool_fine k s" "frames_fine k s" using inv k by (auto simp: sys_inv_def)
  note g = get_free_inv(2) [OF _ r(2)]
  have h: "held_by k s' = add_mset b (held_by k s)" using r by (simp add: held_by_def)
  have "pool_fine k s'"
  proof (cases "sy_rec s = R_freed k")
    case True
    with pf(1) obtain x where "pool_inv k (held_by k s) (Some x) (sy_pool s k)" by (auto simp: pool_fine_def)
    with g True show ?thesis unfolding pool_fine_def h by (auto simp: r(3))
  next
    case False
    with pf(1) have "pool_inv k (held_by k s) None (sy_pool s k)" by (simp add: pool_fine_def)
    with g False show ?thesis unfolding pool_fine_def h by (auto simp: r(3))
  qed
  moreover have "po_full p = po_full (sy_pool s k)" "po_tbl p = po_tbl (sy_pool s k)" using pf(1) g by (auto simp: pool_fine_def split: if_splits)
  then have "frames_fine k s'" using pf(2) by (simp add: frames_fine_def r(3) got_from_def pending_def the_buf_def [abs_def])
  moreover have "elsewhere k s' s" by (simp add: elsewhere_def r(3) got_from_def pending_def)
  ultimately show ?thesis using inv_step [OF inv k] inv writer_same [of s' s] by (simp add: r(3) sys_inv_def)
qed

lemma inv_excl:
  assumes "pool_inv k (add_mset b held) freed p"
  shows "b \<notin> set (que_elems (po_full p))" "0 \<le> b" "b' \<in># held \<Longrightarrow> b' \<noteq> b" "b' \<in> set (que_elems (po_full p)) \<or> b' \<in># held \<Longrightarrow> 0 \<le> b'"
proof -
  show "b \<notin> set (que_elems (po_full p))" "b' \<in># held \<Longrightarrow> b' \<noteq> b" using inv_distinct [OF assms] by auto
  show "0 \<le> b" "b' \<in> set (que_elems (po_full p)) \<or> b' \<in># held \<Longrightarrow> 0 \<le> b'" using inv_range(1) [OF assms] by auto
qed

lemma prod_put_inv:
  assumes inv: "sys_inv w0 s" and k: "k \<in> {PVid, PAud}" and f: "fits_pool k f" and run: "prod_put k f s = Some s'"
  shows "sys_inv w0 s'"
proof -
  obtain b p where r: "sy_prod s k = Some b" "put_filled k f b (sy_pool s k) = Some p"
    "s' = (set_pool k p s)\<lparr>sy_prod := (sy_prod s)(k := None), sy_sent := (sy_sent s)(k := sy_sent s k @ [f])\<rparr>"
    using run by (auto simp: prod_put_def split: option.splits)
  have pf: "pool_fine k s" "frames_fine k s" using inv k by (auto simp: sys_inv_def)
  have h: "held_by k s = add_mset b (held_by k s')" using r by (simp add: held_by_def)
  obtain freed where i: "pool_inv k (add_mset b (held_by k s')) freed (sy_pool s k)" "sy_rec s = R_freed k \<longleftrightarrow> freed \<noteq> None"
    using pf(1) unfolding pool_fine_def h by (auto split: if_splits)
  have x: "\<exists>p'. put_filled k f b (sy_pool s k) = Some p' \<and> pool_inv k (held_by k s') freed p' \<and> que_elems (po_full p') = que_elems (po_full (sy_pool s k)) @ [b]
    \<and> po_free p' = po_free (sy_pool s k) \<and> carries k (be_bitBuf (bt_tbl (po_tbl p') ! nat b)) f
    \<and> (\<forall>j. j \<noteq> nat b \<longrightarrow> bt_tbl (po_tbl p') ! j = bt_tbl (po_tbl (sy_pool s k)) ! j)"
    by (rule put_filled_inv [OF i(1) f])
  then have p: "pool_inv k (held_by k s') freed p" "que_elems (po_full p) = que_elems (po_full (sy_pool s k)) @ [b]"
    "carries k (be_bitBuf (bt_tbl (po_tbl p) ! nat b)) f" "\<forall>j. j \<noteq> nat b \<longrightarrow> bt_tbl (po_tbl p) ! j = bt_tbl (po_tbl (sy_pool s k)) ! j"
    unfolding r(2) by auto
  have "pool_fine k s'" using p(1) i(2) by (cases freed) (auto simp: pool_fine_def r(3))
  moreover have "frames_fine k s'"
  proof -
    have pend: "pending k s' = pending k s @ [b]" using p(2) by (simp add: pending_def r(3))
    have "j \<noteq> b \<and> 0 \<le> j" if "j \<in> set (pending k s)" for j
    proof -
      have "j \<in> set (que_elems (po_full (sy_pool s k))) \<or> j \<in># held_by k s'"
        using that by (auto simp: pending_def held_by_def r(3) rec_buf_def split: rec_pc.splits if_splits)
      then show ?thesis using inv_excl [OF i(1)] by metis
    qed
    then have "nat j \<noteq> nat b" if "j \<in> set (pending k s)" for j
      using that inv_excl(2) [OF i(1)] by (metis eq_nat_nat_iff)
    then have "map (the_buf s' k) (pending k s) = map (the_buf s k) (pending k s)" using p(4) by (simp add: the_buf_def r(3))
    moreover have "the_buf s' k b = be_bitBuf (bt_tbl (po_tbl p) ! nat b)" by (simp add: the_buf_def r(3))
    ultimately have "got_from k s' @ map (the_buf s' k) (pending k s') = (got_from k s @ map (the_buf s k) (pending k s)) @ [be_bitBuf (bt_tbl (po_tbl p) ! nat b)]"
      by (simp add: pend) (simp add: r(3) got_from_def)
    moreover have "sy_sent s' k = sy_sent s k @ [f]" by (simp add: r(3))
    moreover have "list_all2 (carries k) [be_bitBuf (bt_tbl (po_tbl p) ! nat b)] [f]" using p(3) by simp
    ultimately show ?thesis using pf(2) unfolding frames_fine_def by (metis list_all2_appendI)
  qed
  moreover have "elsewhere k s' s" by (simp add: elsewhere_def r(3) got_from_def pending_def)
  ultimately show ?thesis using inv_step [OF inv k] inv writer_same [of s' s] by (simp add: r(3) sys_inv_def)
qed

section \<open>The recorder thread\<close>

lemma inv_at:
  assumes "sys_inv w0 s" "k \<in> {PVid, PAud}"
  shows "sy_rec s \<noteq> R_freed k \<Longrightarrow> pool_inv k (held_by k s) None (sy_pool s k)"
    "sy_rec s = R_freed k \<Longrightarrow> \<exists>b. pool_inv k (held_by k s) (Some b) (sy_pool s k)"
    "frames_fine k s" "writer_fine w0 s"
proof -
  have "pool_fine k s \<and> frames_fine k s" "writer_fine w0 s" using assms unfolding sys_inv_def by blast+
  then show "sy_rec s \<noteq> R_freed k \<Longrightarrow> pool_inv k (held_by k s) None (sy_pool s k)"
    "sy_rec s = R_freed k \<Longrightarrow> \<exists>b. pool_inv k (held_by k s) (Some b) (sy_pool s k)"
    "frames_fine k s" "writer_fine w0 s" by (auto simp: pool_fine_def)
qed

lemma stream_tbl: "k \<in> {PVid, PAud} \<Longrightarrow> rec_tbl (strm_type k) = k" "other_pool k \<in> {PVid, PAud}"
  by (auto simp: rec_tbl_def strm_type_def AUDIO_def VIDEO_def other_pool_def)

lemma rec_at: "sys_inv w0 s \<Longrightarrow> pc_fine (sy_rec s)"
  by (simp add: sys_inv_def)

lemma poll_inv:
  assumes inv: "sys_inv w0 s" and pc: "sy_rec s = R_poll k" and run: "rec_step pe s = Some s'"
  shows "sys_inv w0 s'"
proof -
  have k: "k \<in> {PVid, PAud}" using rec_at [OF inv] pc by (simp add: pc_fine_def)
  have i: "pool_inv k (held_by k s) None (sy_pool s k)" using inv_at(1) [OF inv k] pc by simp
  note g = get_full_inv [OF i]
  show ?thesis
  proof (cases "que_elems (po_full (sy_pool s k))")
    case Nil
    then have s': "s' = s\<lparr>sy_rec := R_poll (other_pool k)\<rparr>" using run pc g(1) by (simp add: rec_step_def set_pool_def)
    have same: "held_by k s' = held_by k s" "pending k s' = pending k s" using pc by (simp_all add: s' held_by_def pending_def rec_buf_def)
    have "pool_fine k s'" using i unfolding pool_fine_def same by (simp add: s')
    moreover have "frames_fine k s'" using inv_at(3) [OF inv k] by (simp add: frames_fine_def same) (simp add: s' got_from_def the_buf_def [abs_def])
    moreover have "elsewhere k s' s" using pc by (simp add: elsewhere_def s' got_from_def pending_def rec_buf_def)
    moreover have "pc_fine (sy_rec s')" using stream_tbl(2) [of k] by (simp add: s' pc_fine_def)
    ultimately show ?thesis using inv_step [OF inv k] inv_at(4) [OF inv k] writer_same [of s' s] by (simp add: s')
  next
    case (Cons b bs)
    obtain p where p: "get_full (sy_pool s k) = (Some b, p)" "pool_inv k (add_mset b (held_by k s)) None p" "po_tbl p = po_tbl (sy_pool s k)" "que_elems (po_full p) = bs"
      using g(2) [OF Cons] by blast
    have s': "s' = (set_pool k p s)\<lparr>sy_rec := R_has k b\<rparr>" using run pc p(1) by (simp add: rec_step_def)
    have same: "held_by k s' = add_mset b (held_by k s)" "pending k s' = pending k s" using pc Cons p(4) by (simp_all add: s' held_by_def pending_def rec_buf_def)
    have "pool_fine k s'" using p(2) unfolding pool_fine_def same by (simp add: s')
    moreover have "frames_fine k s'"
      using inv_at(3) [OF inv k] p(3) by (simp add: frames_fine_def same) (simp add: s' got_from_def the_buf_def [abs_def])
    moreover have "elsewhere k s' s" using pc by (simp add: elsewhere_def s' got_from_def pending_def rec_buf_def)
    moreover have "pc_fine (sy_rec s')" using k by (simp add: s' pc_fine_def)
    ultimately show ?thesis using inv_step [OF inv k] inv_at(4) [OF inv k] writer_same [of s' s] by (simp add: s')
  qed
qed

lemma push_cases:
  assumes "pre_push pe type chId buf w = Some (Inr (x, w'))"
  shows "x = None \<and> w' = w \<or> (\<exists>m n i mem. x = Some (m, n) \<and> bb_bufVirtAddr buf = Some mem \<and> m = frame_media pe i type chId buf mem
    \<and> push_step (pu_pre pe, m) w = Some (n, w'))"
  using assms by (auto simp: pre_push_def push_step_def Let_def split: if_splits option.splits sum.splits)

lemma has_writer:
  assumes wf: "writer_fine w0 s" and pc: "sy_rec s = R_has k b" and legal: "legal_push pe s" and run: "rec_step pe s = Some s'"
  shows "writer_fine w0 s' \<and> sy_rec s' = R_pushed k b \<and> sy_pool s' = sy_pool s \<and> sy_prod s' = sy_prod s \<and> sy_sent s' = sy_sent s
    \<and> (\<exists>mo. sy_got s' = sy_got s @ [(k, the_buf s k b, mo)])"
proof -
  let ?buf = "the_buf s k b"
  let ?same = "s\<lparr>sy_rec := R_pushed k b, sy_got := sy_got s @ [(k, ?buf, None)]\<rparr>"
  have same: "writer_fine w0 ?same" using wf by (auto simp: writer_fine_def map_filter_def)
  show ?thesis
  proof (cases "BKTREC_IsOpenBasket (ws_rec (sy_writer s))")
    case False
    then show ?thesis using run pc same by (auto simp: rec_step_def Let_def)
  next
    case True
    obtain x w where x: "pre_push pe (strm_type k) (bb_chnId ?buf) ?buf (sy_writer s) = Some (Inr (x, w))"
      using run pc True by (auto simp: rec_step_def Let_def split: option.splits sum.splits)
    show ?thesis
    proof (cases x)
      case None
      then have "w = sy_writer s" using push_cases [OF x] by simp
      then show ?thesis using run pc True x None same by (auto simp: rec_step_def Let_def)
    next
      case (Some mn)
      obtain m n where mn: "mn = (m, n)" by (cases mn)
      have s': "s' = s\<lparr>sy_rec := R_pushed k b, sy_writer := w, sy_got := sy_got s @ [(k, ?buf, Some m)], sy_pushed := sy_pushed s @ [((pu_pre pe, m), n)]\<rparr>"
        using run pc True x by (simp add: rec_step_def Let_def Some mn)
      obtain i mem where m: "bb_bufVirtAddr ?buf = Some mem" "m = frame_media pe i (strm_type k) (bb_chnId ?buf) ?buf mem"
        "push_step (pu_pre pe, m) (sy_writer s) = Some (n, w)" using push_cases [OF x] by (auto simp: Some mn)
      have "push_legal (pu_pre pe, m)" using legal pc x by (simp add: legal_push_def Some mn)
      moreover have "pushed_for k ?buf m" using m(1,2) by (auto simp: pushed_for_def)
      moreover have "run_steps push_step (map fst (sy_pushed s)) w0 = Some (map snd (sy_pushed s), sy_writer s)" using wf by (simp add: writer_fine_def)
      ultimately have "writer_fine w0 s'" using wf m(3) by (auto simp: writer_fine_def s' run_steps_snoc map_filter_def)
      then show ?thesis by (simp add: s')
    qed
  qed
qed

lemma has_inv:
  assumes inv: "sys_inv w0 s" and pc: "sy_rec s = R_has k b" and legal: "legal_push pe s" and run: "rec_step pe s = Some s'"
  shows "sys_inv w0 s'"
proof -
  have k: "k \<in> {PVid, PAud}" using rec_at [OF inv] pc by (simp add: pc_fine_def)
  obtain mo where s': "writer_fine w0 s'" "sy_rec s' = R_pushed k b" "sy_pool s' = sy_pool s" "sy_prod s' = sy_prod s" "sy_sent s' = sy_sent s"
    "sy_got s' = sy_got s @ [(k, the_buf s k b, mo)]" using has_writer [OF inv_at(4) [OF inv k] pc legal run] by blast
  have "held_by k s' = held_by k s" using pc s' by (simp add: held_by_def rec_buf_def)
  then have "pool_fine k s'" using inv_at(1) [OF inv k] pc s' by (simp add: pool_fine_def)
  moreover have "got_from k s' @ map (the_buf s' k) (pending k s') = got_from k s @ map (the_buf s k) (pending k s)"
    using pc s' by (simp add: got_from_def pending_def the_buf_def [abs_def])
  then have "frames_fine k s'" using inv_at(3) [OF inv k] s'(5) by (simp add: frames_fine_def)
  moreover have "elsewhere k s' s" using pc s' by (simp add: elsewhere_def got_from_def pending_def rec_buf_def)
  moreover have "pc_fine (sy_rec s')" using k s'(2) by (simp add: pc_fine_def)
  ultimately show ?thesis using inv_step [OF inv k] s'(1) by blast
qed

text \<open>The buffer is freed and allocated again; the frames of the other buffers stay.\<close>

lemma swap_inv:
  assumes inv: "sys_inv w0 s" and k: "k \<in> {PVid, PAud}" and s': "s' = (set_pool k ((sy_pool s k)\<lparr>po_tbl := t\<rparr>) s)\<lparr>sy_rec := pc'\<rparr>"
    and t: "\<forall>j. be_bitBuf (bt_tbl t ! j) = be_bitBuf (bt_tbl (po_tbl (sy_pool s k)) ! j)"
    and pc: "\<forall>k' b. sy_rec s \<noteq> R_has k' b" "\<forall>k' b. pc' \<noteq> R_has k' b" "pc_fine pc'"
    and other: "\<forall>j. j \<noteq> k \<longrightarrow> rec_buf j pc' = rec_buf j (sy_rec s) \<and> (pc' = R_freed j \<longleftrightarrow> sy_rec s = R_freed j)" and p: "pool_fine k s'"
  shows "sys_inv w0 s'"
proof -
  have pend: "pending j s' = pending j s" for j using pc by (simp add: s' pending_def split: rec_pc.splits)
  have "got_from k s' @ map (the_buf s' k) (pending k s') = got_from k s @ map (the_buf s k) (pending k s)"
    unfolding pend using t by (simp add: s' got_from_def the_buf_def [abs_def])
  then have "frames_fine k s'" using inv_at(3) [OF inv k] by (simp add: frames_fine_def) (simp add: s')
  moreover have "elsewhere k s' s" using other by (simp add: elsewhere_def pend) (simp add: s' got_from_def)
  ultimately show ?thesis using inv_step [OF inv k _ _ p] inv_at(4) [OF inv k] writer_same [of s' s] pc(3) by (simp add: s')
qed

lemma pushed_runs:
  assumes inv: "sys_inv w0 s" and pc: "sy_rec s = R_pushed k b"
  shows "\<exists>s'. rec_step pe s = Some s' \<and> sys_inv w0 s'"
proof -
  have k: "k \<in> {PVid, PAud}" using rec_at [OF inv] pc by (simp add: pc_fine_def)
  obtain held where h: "held_by k s = add_mset b held" "held = (case sy_prod s k of None \<Rightarrow> {#} | Some b \<Rightarrow> {#b#})"
    using pc by (simp add: held_by_def rec_buf_def)
  have "pool_inv k (add_mset b held) None (sy_pool s k)" using inv_at(1) [OF inv k] pc h(1) by simp
  from tbl_free_inv [OF this] obtain t where t: "tbl_free b (po_tbl (sy_pool s k)) = Some t" "pool_inv k held (Some (nat b)) ((sy_pool s k)\<lparr>po_tbl := t\<rparr>)"
    "\<forall>j. be_bitBuf (bt_tbl t ! j) = be_bitBuf (bt_tbl (po_tbl (sy_pool s k)) ! j)" by blast
  let ?s' = "(set_pool k ((sy_pool s k)\<lparr>po_tbl := t\<rparr>) s)\<lparr>sy_rec := R_freed k\<rparr>"
  have run: "rec_step pe s = Some ?s'"
    using pc t(1) stream_tbl(1) [OF k] by (simp add: rec_step_def WRITER_bufFree_def WRITER_bufGetIndex_def the_tbls_def)
  have "held_by k ?s' = held" by (simp add: h(2) held_by_def rec_buf_def)
  then have "pool_fine k ?s'" using t(2) by (auto simp: pool_fine_def)
  with swap_inv [OF inv k refl t(3)] have "sys_inv w0 ?s'" using pc k by (auto simp: pc_fine_def rec_buf_def)
  with run show ?thesis by blast
qed

lemma freed_runs:
  assumes inv: "sys_inv w0 s" and pc: "sy_rec s = R_freed k"
  shows "\<exists>s'. rec_step pe s = Some s' \<and> sys_inv w0 s'"
proof -
  have k: "k \<in> {PVid, PAud}" using rec_at [OF inv] pc by (simp add: pc_fine_def)
  obtain b where "pool_inv k (held_by k s) (Some b) (sy_pool s k)" using inv_at(2) [OF inv k pc] by blast
  from tbl_alloc_inv [OF this] obtain t where t: "tbl_alloc (po_tbl (sy_pool s k)) = Some (b, t)"
    "pool_inv k (add_mset (int b) (held_by k s)) None ((sy_pool s k)\<lparr>po_tbl := t\<rparr>)"
    "\<forall>j. be_bitBuf (bt_tbl t ! j) = be_bitBuf (bt_tbl (po_tbl (sy_pool s k)) ! j)" by blast
  let ?s' = "(set_pool k ((sy_pool s k)\<lparr>po_tbl := t\<rparr>) s)\<lparr>sy_rec := R_new k (int b)\<rparr>"
  have run: "rec_step pe s = Some ?s'"
    using pc t(1) stream_tbl(1) [OF k] by (simp add: rec_step_def WRITER_bufAlloc_def on_tbl_def the_tbls_def)
  have "held_by k ?s' = add_mset (int b) (held_by k s)" using pc by (simp add: held_by_def rec_buf_def)
  then have "pool_fine k ?s'" using t(2) by (simp add: pool_fine_def)
  with swap_inv [OF inv k refl t(3)] have "sys_inv w0 ?s'" using pc k by (auto simp: pc_fine_def rec_buf_def)
  with run show ?thesis by blast
qed

lemma new_runs:
  assumes inv: "sys_inv w0 s" and pc: "sy_rec s = R_new k b"
  shows "\<exists>s'. rec_step pe s = Some s' \<and> sys_inv w0 s'"
proof -
  have k: "k \<in> {PVid, PAud}" using rec_at [OF inv] pc by (simp add: pc_fine_def)
  obtain held where h: "held_by k s = add_mset b held" "held = (case sy_prod s k of None \<Rightarrow> {#} | Some b \<Rightarrow> {#b#})"
    using pc by (simp add: held_by_def rec_buf_def)
  have "pool_inv k (add_mset b held) None (sy_pool s k)" using inv_at(1) [OF inv k] pc h(1) by simp
  note g = give_back_inv [OF this]
  let ?s' = "(set_pool k (give_back b (sy_pool s k)) s)\<lparr>sy_rec := R_poll (other_pool k)\<rparr>"
  have run: "rec_step pe s = Some ?s'" using pc by (simp add: rec_step_def)
  have "held_by k ?s' = held" by (simp add: h(2) held_by_def rec_buf_def)
  then have "pool_fine k ?s'" using g by (simp add: pool_fine_def)
  moreover have "frames_fine k ?s'"
    using inv_at(3) [OF inv k] g pc by (simp add: frames_fine_def got_from_def pending_def the_buf_def [abs_def])
  moreover have "elsewhere k ?s' s" using pc by (simp add: elsewhere_def got_from_def pending_def rec_buf_def)
  moreover have "pc_fine (sy_rec ?s')" using stream_tbl(2) [of k] by (simp add: pc_fine_def)
  ultimately have "sys_inv w0 ?s'" using inv_step [OF inv k] inv_at(4) [OF inv k] writer_same [of ?s' s] by simp
  with run show ?thesis by blast
qed

lemma rec_step_inv:
  assumes inv: "sys_inv w0 s" and legal: "legal_push pe s" and run: "rec_step pe s = Some s'"
  shows "sys_inv w0 s'"
proof (cases "sy_rec s")
  case (R_poll k)
  then show ?thesis using poll_inv inv run by blast
next
  case (R_has k b)
  then show ?thesis using has_inv inv legal run by blast
next
  case (R_pushed k b)
  then show ?thesis using pushed_runs [OF inv R_pushed, of pe] run by auto
next
  case (R_freed k)
  then show ?thesis using freed_runs [OF inv R_freed, of pe] run by auto
next
  case (R_new k b)
  then show ?thesis using new_runs [OF inv R_new, of pe] run by auto
qed

lemma step_inv: "wsys_step s s' \<Longrightarrow> sys_inv w0 s \<Longrightarrow> sys_inv w0 s'"
  by (induction rule: wsys_step.induct) (auto intro: prod_get_inv prod_put_inv rec_step_inv)

lemma reach_inv: "wsys_reach s0 s \<Longrightarrow> sys_inv w0 s0 \<Longrightarrow> sys_inv w0 s"
  by (induction rule: wsys_reach.induct) (auto intro: step_inv)

section \<open>The start\<close>

text \<open>After \<open>WRITER_initThrObj\<close>: the pools are full of free buffers, no thread holds one.\<close>

definition sys_start :: "(pool_id \<Rightarrow> nat \<Rightarrow> byte list option) \<Rightarrow> (pool_id \<Rightarrow> buf_tbl) \<Rightarrow> osa_que \<Rightarrow> writer \<Rightarrow> wsys \<Rightarrow> bool" where
  "sys_start alloc tbls q w s \<longleftrightarrow> (\<forall>k \<in> {PVid, PAud}. WRITER_initPool k q q (tbl_link (alloc k) (tbls k)) = Some (sy_pool s k) \<and> sy_prod s k = None \<and> sy_sent s k = [])
     \<and> sy_rec s = R_poll PVid \<and> sy_writer s = w \<and> sy_got s = [] \<and> sy_pushed s = []"

definition mem_ok :: "(pool_id \<Rightarrow> nat \<Rightarrow> byte list option) \<Rightarrow> (pool_id \<Rightarrow> buf_tbl) \<Rightarrow> bool" where
  "mem_ok alloc tbls \<longleftrightarrow> (\<forall>k \<in> {PVid, PAud}. length (bt_tbl (tbls k)) = tbl_len k \<and> (\<forall>i < tbl_len k - 1. \<exists>m. alloc k i = Some m \<and> length m = buf_size k))"

lemma start_inv:
  assumes s: "sys_start alloc tbls q w s" and m: "mem_ok alloc tbls" and q: "que_ok q" "que_elems q = []" "q_len q = WRITER_FREE_QUE_MAX_LEN"
  shows "sys_inv w s"
proof -
  have "pool_fine k s \<and> frames_fine k s" if k: "k \<in> {PVid, PAud}" for k
  proof -
    have l: "q_len q = tbl_len k" using k q(3) by auto
    have "length (bt_tbl (tbls k)) = tbl_len k" "\<forall>i < tbl_len k - 1. \<exists>m. alloc k i = Some m \<and> length m = buf_size k" using m k by (auto simp: mem_ok_def)
    from initPool_inv [OF this q(1) q(1) q(2) q(2) l l] have "pool_inv k {#} None (sy_pool s k)" "que_elems (po_full (sy_pool s k)) = []"
      using s k by (auto simp: sys_start_def)
    then show ?thesis using s k by (auto simp: sys_start_def pool_fine_def frames_fine_def held_by_def rec_buf_def pending_def got_from_def)
  qed
  moreover have "writer_fine w s" using s by (simp add: sys_start_def writer_fine_def map_filter_def)
  ultimately show ?thesis using s by (simp add: sys_inv_def pc_fine_def sys_start_def)
qed

section \<open>What arrives\<close>

definition same_bytes :: "byte list \<Rightarrow> bitsbuf \<Rightarrow> bool" where
  "same_bytes bs f \<longleftrightarrow> (\<exists>m. bb_bufVirtAddr f = Some m \<and> take (bb_filledBufSize f) bs = take (bb_filledBufSize f) m)"

text \<open>The frame of an encoder as it is handed to the pre-recording buffer.\<close>

definition of_frame :: "pool_id \<Rightarrow> bitsbuf \<Rightarrow> media \<Rightarrow> bool" where
  "of_frame k f m \<longleftrightarrow> (case m of
     Video p \<Rightarrow> k = PVid \<and> vp_ch p = bb_chnId f \<and> vp_framesize p = int (bb_filledBufSize f) \<and> vp_frametype p = bb_frameType f
       \<and> vp_width p = bb_frameWidth f \<and> vp_height p = bb_frameHeight f \<and> same_bytes (vp_buff p) f
   | Audio p \<Rightarrow> k = PAud \<and> ap_ch p = bb_chnId f \<and> ap_framesize p = int (bb_filledBufSize f) \<and> ap_samplingrate p = bb_fieldId f
       \<and> same_bytes (ap_buff p) f)"

lemma carried:
  assumes "k \<in> {PVid, PAud}" "carries k buf f" "pushed_for k buf m"
  shows "of_frame k f m"
  using assms by (auto simp: carries_def pushed_for_def of_frame_def frame_media_def strm_type_def AUDIO_def VIDEO_def video_pool_def
      video_param_def audio_param_def same_bytes_def)

text \<open>What became of the frames that were taken out of a pool: nothing was pushed when no basket was open or the
  channel neither records nor is pre-recorded.\<close>

definition results :: "pool_id \<Rightarrow> wsys \<Rightarrow> media option list" where
  "results k s = map (snd \<circ> snd) (filter (\<lambda>x. fst x = k) (sy_got s))"

lemma results_ok:
  assumes inv: "sys_inv w0 s" and k: "k \<in> {PVid, PAud}"
  shows "length (results k s) + length (pending k s) = length (sy_sent s k)"
    "list_all2 (\<lambda>mo f. \<forall>m. mo = Some m \<longrightarrow> of_frame k f m) (results k s) (take (length (results k s)) (sy_sent s k))"
proof -
  have l: "length (got_from k s) = length (results k s)" by (simp add: got_from_def results_def)
  obtain us vs where uv: "sy_sent s k = us @ vs" "length us = length (got_from k s)" "list_all2 (carries k) (got_from k s) us" "length vs = length (pending k s)"
    using inv_at(3) [OF inv k] by (auto simp: frames_fine_def list_all2_append1 dest: list_all2_lengthD)
  show "length (results k s) + length (pending k s) = length (sy_sent s k)" using uv l by simp
  have "\<forall>m. results k s ! i = Some m \<longrightarrow> of_frame k (us ! i) m" if i: "i < length (results k s)" for i
  proof (intro allI impI)
    fix m assume m: "results k s ! i = Some m"
    let ?x = "filter (\<lambda>x. fst x = k) (sy_got s) ! i"
    have il: "i < length (filter (\<lambda>x. fst x = k) (sy_got s))" using i by (simp add: results_def)
    have "?x \<in> set (filter (\<lambda>x. fst x = k) (sy_got s))" using il by (rule nth_mem)
    then have x: "?x = (k, got_from k s ! i, Some m)" "?x \<in> set (sy_got s)" using il m by (auto simp: results_def got_from_def prod_eq_iff)
    then have "pushed_for k (got_from k s ! i) m" using inv_at(4) [OF inv k] by (auto simp: writer_fine_def)
    moreover have "carries k (got_from k s ! i) (us ! i)" using uv(3) i l by (auto simp: list_all2_conv_all_nth)
    ultimately show "of_frame k (us ! i) m" using carried [OF k] by blast
  qed
  then show "list_all2 (\<lambda>mo f. \<forall>m. mo = Some m \<longrightarrow> of_frame k f m) (results k s) (take (length (results k s)) (sy_sent s k))"
    using uv l by (simp add: list_all2_conv_all_nth)
qed

section \<open>Properties\<close>

text \<open>C8: From the encoder to the basket.  In every state that the threads of the writer can
  reach, in any interleaving, the frames that an encoder thread has put in have been taken out
  once each and in order, but for those that still wait in the queue or in the recorder
  thread's hands; what was pushed for a frame has its channel, its size, its kind and its
  bytes.  The pushes are made in the order in which the frames were taken out, and the log of
  the recorder has grown by those of the pushed frames that have left the pre-recording
  buffer and that the channels let through.\<close>

theorem encoder_to_basket:
  assumes "sys_start alloc tbls q w s0" "mem_ok alloc tbls" "que_ok q" "que_elems q = []" "q_len q = WRITER_FREE_QUE_MAX_LEN" "wsys_reach s0 s"
    "rec_rel (ws_rec w) L" "holds (ws_pre w) xs" "list_all item_fine xs" "span xs \<le> pr_max_premsec (ws_pre w)" "k \<in> {PVid, PAud}"
  shows "length (results k s) + length (pending k s) = length (sy_sent s k)
    \<and> list_all2 (\<lambda>mo f. \<forall>m. mo = Some m \<longrightarrow> of_frame k f m) (results k s) (take (length (results k s)) (sy_sent s k))
    \<and> map (snd \<circ> fst) (sy_pushed s) = List.map_filter (snd \<circ> snd) (sy_got s)
    \<and> (\<exists>L' ys out is. rec_rel (ws_rec (sy_writer s)) L' \<and> holds (ws_pre (sy_writer s)) ys
        \<and> xs @ taken (map fst (sy_pushed s)) (map snd (sy_pushed s)) = out @ ys \<and> log_frames L' = log_frames L @ is
        \<and> list_all2 records (fst (admit (enabled (ws_ctrl w)) (states (ws_ctrl w)) out)) is)"
proof -
  have inv: "sys_inv w s" using reach_inv [OF assms(6) start_inv [OF assms(1-5)]] .
  note wf = inv_at(4) [OF inv assms(11)]
  then have "list_all push_legal (map fst (sy_pushed s))" "run_steps push_step (map fst (sy_pushed s)) w = Some (map snd (sy_pushed s), sy_writer s)"
    by (simp_all add: writer_fine_def)
  from pre_run [OF this(1) assms(7-10) this(2)] show ?thesis using results_ok [OF inv assms(11)] wf unfolding writer_fine_def by blast
qed

section \<open>No thread is stopped, no thread starves\<close>

text \<open>An encoder thread without a buffer, and no buffer is free.\<close>

definition waits :: "pool_id \<Rightarrow> wsys \<Rightarrow> bool" where
  "waits k s \<longleftrightarrow> sy_prod s k = None \<and> get_free (sy_pool s k) = None"

lemma waits_full:
  assumes inv: "sys_inv w0 s" and k: "k \<in> {PVid, PAud}" and w: "waits k s"
  shows "length (que_elems (po_full (sy_pool s k))) + length (rec_buf k (sy_rec s)) + (if sy_rec s = R_freed k then 1 else 0) = tbl_len k - 1"
proof -
  have held: "size (held_by k s) = length (rec_buf k (sy_rec s))" using w by (simp add: waits_def held_by_def)
  obtain freed where i: "pool_inv k (held_by k s) freed (sy_pool s k)" "sy_rec s = R_freed k \<longleftrightarrow> freed \<noteq> None"
    using inv_at(1,2) [OF inv k] by blast
  have "length (que_elems (po_free (sy_pool s k))) = 0" using get_free_inv(1) [OF i(1)] w by (simp add: waits_def)
  then show ?thesis using inv_size [OF i(1)] held i(2) by (cases freed) auto
qed

text \<open>The steps of the recorder thread until it gives a buffer back to the pool.\<close>

definition steps_left :: "pool_id \<Rightarrow> rec_pc \<Rightarrow> nat" where
  "steps_left k pc = (case pc of R_new j b \<Rightarrow> if j = k then 1 else 6 | R_freed j \<Rightarrow> if j = k then 2 else 7
     | R_pushed j b \<Rightarrow> if j = k then 3 else 8 | R_has j b \<Rightarrow> if j = k then 4 else 9 | R_poll j \<Rightarrow> if j = k then 5 else 10)"

lemma steps_left_bounds: "1 \<le> steps_left k pc" "steps_left k pc \<le> 10"
  by (cases pc; simp add: steps_left_def)+

lemma has_next: "sy_rec s = R_has k b \<Longrightarrow> rec_step pe s = Some s' \<Longrightarrow> sy_rec s' = R_pushed k b"
  by (auto simp: rec_step_def Let_def split: if_splits option.splits sum.splits prod.splits)

lemma rec_step_closer:
  assumes inv: "sys_inv w0 s" and k: "k \<in> {PVid, PAud}" and w: "waits k s" "waits k s'" and legal: "legal_push pe s" and run: "rec_step pe s = Some s'"
  shows "steps_left k (sy_rec s') < steps_left k (sy_rec s)"
proof (cases "sy_rec s")
  case (R_poll j)
  have "length (que_elems (po_full (sy_pool s k))) \<noteq> 0" if "j = k"
    using that waits_full [OF inv k w(1)] R_poll tbl_len_pos(1) [of k] by (simp add: rec_buf_def)
  then have "j = k \<Longrightarrow> que_elems (po_full (sy_pool s k)) \<noteq> []" by (metis list.size(3))
  moreover have j: "j \<in> {PVid, PAud}" using rec_at [OF inv] R_poll by (simp add: pc_fine_def)
  moreover have "j \<noteq> k \<Longrightarrow> other_pool j = k" using j k by (auto simp: other_pool_def)
  moreover have "pool_inv j (held_by j s) None (sy_pool s j)" using inv_at(1) [OF inv j] R_poll by simp
  note g = get_full_inv [OF this]
  ultimately show ?thesis using run R_poll g
    by (cases "que_elems (po_full (sy_pool s j))") (auto simp: rec_step_def steps_left_def split: prod.splits option.splits)
next
  case (R_has j b)
  then show ?thesis using has_next [OF R_has run] by (simp add: steps_left_def)
next
  case (R_pushed j b)
  then have "sy_rec s' = R_freed j" using run by (auto simp: rec_step_def)
  then show ?thesis using R_pushed by (simp add: steps_left_def)
next
  case (R_freed j)
  then have "\<exists>b. sy_rec s' = R_new j b" using run by (auto simp: rec_step_def split: prod.splits)
  then show ?thesis using R_freed by (auto simp: steps_left_def)
next
  case (R_new j b)
  have j: "j \<in> {PVid, PAud}" using rec_at [OF inv] R_new by (simp add: pc_fine_def)
  have s': "s' = (set_pool j (give_back b (sy_pool s j)) s)\<lparr>sy_rec := R_poll (other_pool j)\<rparr>" using run R_new by (simp add: rec_step_def)
  have "j \<noteq> k"
  proof
    assume jk: "j = k"
    have i: "pool_inv k (held_by k s) None (sy_pool s k)" using inv_at(1) [OF inv k] R_new by simp
    have "held_by k s = add_mset b {#}" using R_new jk w(1) by (simp add: held_by_def rec_buf_def waits_def)
    with give_back_inv [of k b "{#}"] i have "po_full (give_back b (sy_pool s k)) = po_full (sy_pool s k)" by simp
    then have "que_elems (po_full (sy_pool s' k)) = que_elems (po_full (sy_pool s k))" using jk by (simp add: s')
    then show False using waits_full [OF inv k w(1)] waits_full [OF rec_step_inv [OF inv legal run] k w(2)] R_new jk
      by (simp add: s' rec_buf_def)
  qed
  then have "other_pool j = k" using j k by (auto simp: other_pool_def)
  then show ?thesis using R_new \<open>j \<noteq> k\<close> by (simp add: s' steps_left_def)
qed

text \<open>A run of the threads during which one encoder thread waits all the time; the number counts the steps
  of the recorder thread.\<close>

inductive waiting_run :: "pool_id \<Rightarrow> wsys \<Rightarrow> nat \<Rightarrow> wsys \<Rightarrow> bool" for k s0 where
  wait_start: "waits k s0 \<Longrightarrow> waiting_run k s0 0 s0"
| wait_get: "waiting_run k s0 n s \<Longrightarrow> j = PVid \<or> j = PAud \<Longrightarrow> prod_get j s = Some s' \<Longrightarrow> waits k s' \<Longrightarrow> waiting_run k s0 n s'"
| wait_put: "waiting_run k s0 n s \<Longrightarrow> j = PVid \<or> j = PAud \<Longrightarrow> fits_pool j f \<Longrightarrow> prod_put j f s = Some s' \<Longrightarrow> waits k s' \<Longrightarrow> waiting_run k s0 n s'"
| wait_rec: "waiting_run k s0 n s \<Longrightarrow> legal_push pe s \<Longrightarrow> rec_step pe s = Some s' \<Longrightarrow> waits k s' \<Longrightarrow> waiting_run k s0 (Suc n) s'"

lemma prod_rec: "prod_get j s = Some s' \<Longrightarrow> sy_rec s' = sy_rec s" "prod_put j f s = Some s' \<Longrightarrow> sy_rec s' = sy_rec s"
  by (auto simp: prod_get_def prod_put_def split: if_splits option.splits)

lemma waiting_run_bound:
  "waiting_run k s0 n s \<Longrightarrow> sys_inv w0 s0 \<Longrightarrow> k \<in> {PVid, PAud} \<Longrightarrow> sys_inv w0 s \<and> waits k s \<and> n + steps_left k (sy_rec s) \<le> steps_left k (sy_rec s0)"
proof (induction rule: waiting_run.induct)
  case (wait_rec n s pe s')
  then have i: "sys_inv w0 s" "waits k s" "n + steps_left k (sy_rec s) \<le> steps_left k (sy_rec s0)" by auto
  have "steps_left k (sy_rec s') < steps_left k (sy_rec s)"
    by (rule rec_step_closer [OF i(1) wait_rec.prems(2) i(2)]) (use wait_rec.hyps in auto)
  then show ?case using i rec_step_inv [OF i(1)] wait_rec.hyps by simp
next
  case (wait_get n s j s')
  then show ?case using prod_get_inv [of w0 s j s'] prod_rec(1) [of j s s'] by auto
next
  case (wait_put n s j f s')
  then show ?case using prod_put_inv [of w0 s j f s'] prod_rec(2) [of j f s s'] by auto
qed simp

text \<open>C9: An encoder thread that waits for a buffer waits for at most nine steps of the
  recorder thread, whatever the threads do in between: two rounds of its loop.  While it
  waits, all the buffers of the pool are full or with the recorder thread, so the poll of
  its queue cannot find it empty.\<close>

theorem encoder_waits_briefly:
  assumes "sys_start alloc tbls q w s0" "mem_ok alloc tbls" "que_ok q" "que_elems q = []" "q_len q = WRITER_FREE_QUE_MAX_LEN" "wsys_reach s0 s"
    "k \<in> {PVid, PAud}" "waiting_run k s n s'"
  shows "n \<le> 9 \<and> length (que_elems (po_full (sy_pool s k))) \<ge> 62"
proof -
  have inv: "sys_inv w s" using reach_inv [OF assms(6) start_inv [OF assms(1-5)]] .
  have w: "waits k s" using assms(8) by (induction rule: waiting_run.induct) auto
  have "length (rec_buf k (sy_rec s)) + (if sy_rec s = R_freed k then 1 else 0) \<le> 1" by (auto simp: rec_buf_def split: rec_pc.splits)
  then have "length (que_elems (po_full (sy_pool s k))) \<ge> 62"
    using waits_full [OF inv assms(7) w] assms(7) by (auto simp: WRITER_FREE_QUE_MAX_LEN_def)
  then show ?thesis using waiting_run_bound [OF assms(8) inv assms(7)] steps_left_bounds [of k "sy_rec s"] steps_left_bounds [of k "sy_rec s'"] by linarith
qed

lemma rec_stops:
  assumes inv: "sys_inv w0 s" and stop: "rec_step pe s = None"
  shows "\<exists>j b. sy_rec s = R_has j b \<and> BKTREC_IsOpenBasket (ws_rec (sy_writer s))
    \<and> (\<forall>r. pre_push pe (strm_type j) (bb_chnId (the_buf s j b)) (the_buf s j b) (sy_writer s) \<noteq> Some (Inr r))"
proof (cases "sy_rec s")
  case (R_poll k)
  then show ?thesis using stop by (auto simp: rec_step_def split: prod.splits option.splits)
next
  case (R_has k b)
  then show ?thesis using stop by (auto simp: rec_step_def Let_def split: if_splits option.splits sum.splits prod.splits)
next
  case (R_pushed k b)
  then show ?thesis using pushed_runs [OF inv R_pushed, of pe] stop by simp
next
  case (R_freed k)
  then show ?thesis using freed_runs [OF inv R_freed, of pe] stop by simp
next
  case (R_new k b)
  then show ?thesis using new_runs [OF inv R_new, of pe] stop by simp
qed

lemma put_runs:
  assumes inv: "sys_inv w0 s" and k: "k \<in> {PVid, PAud}" and f: "sy_prod s k \<noteq> None" "fits_pool k f"
  shows "prod_put k f s \<noteq> None"
proof -
  obtain b where b: "sy_prod s k = Some b" using f(1) by auto
  have h: "held_by k s = add_mset b (mset (rec_buf k (sy_rec s)))" by (simp add: held_by_def b)
  obtain freed where "pool_inv k (add_mset b (mset (rec_buf k (sy_rec s)))) freed (sy_pool s k)"
    using inv_at(1,2) [OF inv k] unfolding h by blast
  from put_filled_inv [OF this f(2)] show ?thesis by (auto simp: prod_put_def b)
qed

lemma distinct_sub:
  assumes "mset xs \<subseteq># mset ys" "distinct ys"
  shows "distinct xs"
proof -
  have "count (mset ys) a \<le> 1" for a using assms(2) by (simp add: distinct_count_atmost_1)
  then have "count (mset xs) a \<le> 1" for a using mset_subset_eq_count [OF assms(1), of a] le_trans by blast
  then have "count (mset xs) a = (if a \<in> set xs then 1 else 0)" for a
    by (metis count_eq_zero_iff le_antisym less_one linorder_not_le set_mset_mset)
  then show ?thesis by (simp add: distinct_count_atmost_1)
qed

lemma places:
  assumes inv: "sys_inv w0 s" and k: "k \<in> {PVid, PAud}"
  shows "distinct (que_elems (po_free (sy_pool s k)) @ que_elems (po_full (sy_pool s k)) @ rec_buf k (sy_rec s) @ (case sy_prod s k of None \<Rightarrow> [] | Some b \<Rightarrow> [b]))"
    (is "distinct ?xs")
proof -
  have m: "mset ?xs = mset (que_elems (po_free (sy_pool s k))) + mset (que_elems (po_full (sy_pool s k))) + held_by k s"
    by (simp add: held_by_def split: option.splits)
  obtain freed where "pool_inv k (held_by k s) freed (sy_pool s k)" using inv_at(1,2) [OF inv k] by blast
  then have "mset ?xs + (case freed of None \<Rightarrow> {#} | Some b \<Rightarrow> {#int b#}) = mset (map int [0..<tbl_len k - 1])"
    unfolding m pool_inv_def mset_map by (elim conjE)
  then have "mset ?xs \<subseteq># mset (map int [0..<tbl_len k - 1])" using mset_subset_eq_add_left [of "mset ?xs"] by metis
  moreover have "distinct (map int [0..<tbl_len k - 1])" by (simp add: distinct_map)
  ultimately show ?thesis by (rule distinct_sub)
qed

text \<open>C10: What the assertions of the writer say holds, although this build does not test them.  In every reachable state the recorder thread has
  a next step, except before a push that does not return or crashes; an encoder thread that
  holds a buffer can put any frame that fits; and no buffer is ever in two places: those of
  the two queues are distinct, and none of them is held by a thread.\<close>

theorem recorder_never_stops:
  assumes "sys_start alloc tbls q w s0" "mem_ok alloc tbls" "que_ok q" "que_elems q = []" "q_len q = WRITER_FREE_QUE_MAX_LEN" "wsys_reach s0 s" "k \<in> {PVid, PAud}"
  shows "(rec_step pe s = None \<longrightarrow> (\<exists>j b. sy_rec s = R_has j b \<and> BKTREC_IsOpenBasket (ws_rec (sy_writer s))
        \<and> (\<forall>r. pre_push pe (strm_type j) (bb_chnId (the_buf s j b)) (the_buf s j b) (sy_writer s) \<noteq> Some (Inr r))))
    \<and> (sy_prod s k \<noteq> None \<and> fits_pool k f \<longrightarrow> prod_put k f s \<noteq> None)
    \<and> distinct (que_elems (po_free (sy_pool s k)) @ que_elems (po_full (sy_pool s k)) @ rec_buf k (sy_rec s) @ (case sy_prod s k of None \<Rightarrow> [] | Some b \<Rightarrow> [b]))"
proof -
  have inv: "sys_inv w s" using reach_inv [OF assms(6) start_inv [OF assms(1-5)]] .
  show ?thesis using rec_stops [OF inv] put_runs [OF inv assms(7)] places [OF inv assms(7)] by blast
qed

section \<open>A run for the witnesses\<close>

definition demo_alloc :: "pool_id \<Rightarrow> nat \<Rightarrow> byte list option" where
  "demo_alloc k i = Some (replicate (buf_size k) 0)"

definition demo_bits :: "byte list option \<Rightarrow> bitsbuf" where
  "demo_bits m = \<lparr>bb_chnId = 0, bb_codecType = 0, bb_frameType = FT_IFRAME, bb_filledBufSize = 2, bb_timestamp = 0, bb_upperTimeStamp = 0,
     bb_lowerTimeStamp = 0, bb_fieldId = 0, bb_frameWidth = 704, bb_frameHeight = 480, bb_bufVirtAddr = m\<rparr>"

definition demo_frame :: bitsbuf where
  "demo_frame = demo_bits (Some [1, 2])"

definition demo_tbls :: "pool_id \<Rightarrow> buf_tbl" where
  "demo_tbls k = \<lparr>bt_freeIndex = 0, bt_tbl = replicate (tbl_len k) \<lparr>be_bitBuf = demo_bits None, be_nextFreeIndex = 0\<rparr>\<rparr>"

definition demo_q :: osa_que where
  "demo_q = snd (OSA_queCreate (Some (replicate WRITER_FREE_QUE_MAX_LEN 0)) [] WRITER_FREE_QUE_MAX_LEN)"

definition demo_pu :: push_env where
  "demo_pu = \<lparr>pu_sec = 100, pu_usec = 0, pu_vp = demo_video 100 [], pu_ap = pe_ap demo_raw, pu_pre = demo_pv 0\<rparr>"

lemma demo_queue: "que_ok demo_q" "que_elems demo_q = []" "q_len demo_q = WRITER_FREE_QUE_MAX_LEN"
  unfolding demo_q_def by (rule queCreate_ok; simp)+

lemma demo_mem: "mem_ok demo_alloc demo_tbls"
  by (simp add: mem_ok_def demo_alloc_def demo_tbls_def)

lemma demo_start: "\<exists>s0. sys_start demo_alloc demo_tbls demo_q demo_writer s0"
proof -
  have "\<exists>p. WRITER_initPool k demo_q demo_q (tbl_link (demo_alloc k) (demo_tbls k)) = Some p" if k: "k \<in> {PVid, PAud}" for k
  proof -
    have l: "q_len demo_q = tbl_len k" using k demo_queue(3) by auto
    have "length (bt_tbl (demo_tbls k)) = tbl_len k" "\<forall>i < tbl_len k - 1. \<exists>m. demo_alloc k i = Some m \<and> length m = buf_size k"
      using demo_mem k unfolding mem_ok_def by blast+
    from initPool_inv [OF this demo_queue(1,1,2,2) l l] show ?thesis by blast
  qed
  then obtain p p' where p: "WRITER_initPool PVid demo_q demo_q (tbl_link (demo_alloc PVid) (demo_tbls PVid)) = Some p"
    "WRITER_initPool PAud demo_q demo_q (tbl_link (demo_alloc PAud) (demo_tbls PAud)) = Some p'" by blast
  let ?s = "\<lparr>sy_pool = \<lambda>k. if k = PAud then p' else p, sy_prod = \<lambda>k. None, sy_rec = R_poll PVid, sy_writer = demo_writer, sy_sent = \<lambda>k. [], sy_got = [], sy_pushed = []\<rparr>"
  have "sys_start demo_alloc demo_tbls demo_q demo_writer ?s" using p by (simp add: sys_start_def)
  then show ?thesis by blast
qed

lemma demo_fits_pool: "k \<in> {PVid, PAud} \<Longrightarrow> fits_pool k demo_frame"
  by (auto simp: fits_pool_def demo_frame_def demo_bits_def const_defs)

text \<open>An encoder thread can put in a frame when a buffer is free.\<close>

lemma put_frame:
  assumes inv: "sys_inv w0 s" and k: "k \<in> {PVid, PAud}" and f: "fits_pool k f" and n: "sy_prod s k = None" and w: "\<not> waits k s"
  shows "\<exists>s1 s2. wsys_step s s1 \<and> wsys_step s1 s2 \<and> sys_inv w0 s2 \<and> sy_prod s2 k = None \<and> sy_rec s2 = sy_rec s \<and> sy_writer s2 = sy_writer s
    \<and> sy_got s2 = sy_got s \<and> sy_sent s2 k = sy_sent s k @ [f] \<and> length (que_elems (po_free (sy_pool s2 k))) < length (que_elems (po_free (sy_pool s k)))"
proof -
  obtain b p where g: "get_free (sy_pool s k) = Some (b, p)" using w n by (auto simp: waits_def)
  let ?s1 = "(set_pool k p s)\<lparr>sy_prod := (sy_prod s)(k := Some b)\<rparr>"
  have get: "prod_get k s = Some ?s1" using g n by (simp add: prod_get_def)
  have inv1: "sys_inv w0 ?s1" by (rule prod_get_inv [OF inv k get])
  obtain s2 where put: "prod_put k f ?s1 = Some s2" using put_runs [OF inv1 k _ f] by auto
  obtain p2 where p2: "put_filled k f b p = Some p2" "s2 = (set_pool k p2 ?s1)\<lparr>sy_prod := (sy_prod ?s1)(k := None), sy_sent := (sy_sent ?s1)(k := sy_sent ?s1 k @ [f])\<rparr>"
    using put by (auto simp: prod_put_def split: option.splits)
  have inv2: "sys_inv w0 s2" by (rule prod_put_inv [OF inv1 k f put])
  obtain freed where i: "pool_inv k (held_by k s) freed (sy_pool s k)" using inv_at(1,2) [OF inv k] by blast
  have free: "po_free p2 = po_free p" using p2(1) by (auto simp: put_filled_def split: if_splits option.splits pass.splits)
  have "length (que_elems (po_free p)) < length (que_elems (po_free (sy_pool s k)))"
    using inv_size [OF i] inv_size [OF conjunct1 [OF get_free_inv(2) [OF i g]]] get_free_inv(2) [OF i g] by auto
  moreover have "wsys_step s ?s1" "wsys_step ?s1 s2" using step_get [OF _ get] step_put [OF _ f put] k by auto
  ultimately show ?thesis using inv2 free by (intro exI [of _ ?s1] exI [of _ s2]) (simp add: p2(2))
qed

lemma fill_up:
  assumes "k \<in> {PVid, PAud}" "fits_pool k f"
  shows "sys_inv w0 s \<Longrightarrow> wsys_reach s0 s \<Longrightarrow> sy_prod s k = None \<Longrightarrow> \<exists>s'. wsys_reach s0 s' \<and> waits k s'"
proof (induction "length (que_elems (po_free (sy_pool s k)))" arbitrary: s rule: less_induct)
  case less
  show ?case
  proof (cases "waits k s")
    case False
    then obtain s1 s2 where s: "wsys_step s s1" "wsys_step s1 s2" "sys_inv w0 s2" "sy_prod s2 k = None"
      "length (que_elems (po_free (sy_pool s2 k))) < length (que_elems (po_free (sy_pool s k)))"
      using put_frame [OF less.prems(1) assms less.prems(3)] by blast
    then show ?thesis using less.hyps [OF s(5,3) _ s(4)] less.prems(2) wsys_next by blast
  qed (use less.prems in blast)
qed

lemma demo_push_frame:
  assumes "carries PVid buf demo_frame"
  shows "\<exists>m w. pre_push demo_pu (strm_type PVid) (bb_chnId buf) buf demo_writer = Some (Inr (Some (m, 1), w)) \<and> push_legal (demo_pv 0, m)"
proof -
  obtain mem where mem: "bb_bufVirtAddr buf = Some mem" "2 \<le> length mem" using assms by (auto simp: carries_def demo_frame_def demo_bits_def)
  have b: "bb_chnId buf = 0" "bb_filledBufSize buf = 2" "bb_frameType buf = FT_IFRAME" "bb_frameWidth buf = 704" "bb_frameHeight buf = 480"
    using assms by (simp_all add: carries_def demo_frame_def demo_bits_def video_pool_def)
  let ?i = "wr_chInfo (ws_ctrl demo_writer) ! 0"
  let ?p = "video_param demo_pu ?i 0 buf mem"
  have i: "has_ch 0 (ws_ctrl demo_writer)" "wc_enableChSave ?i" "wc_event_mode ?i = 1" "wc_enableAudio ?i = 0" "wc_camName ?i = []"
    by (simp_all add: demo_writer_def demo_wctrl_def demo_chinfo_def has_ch_def)
  have kept: "kept (demo_pv 0) (Video ?p) = (0, msec_of 100 0, Video (?p\<lparr>vp_buff := take 2 mem, vp_camName := takeWhile (\<lambda>x. x \<noteq> 0) (vp_camName ?p), vp_capMode := 0\<rparr>))"
    by (simp add: kept_def copied_def view_def video_ent_def VIDEO_def video_param_def demo_pv_def demo_raw_def demo_video_def demo_pu_def b)
  have name: "set (takeWhile (\<lambda>x. x \<noteq> 0) (vp_camName ?p)) \<subseteq> {0}"
    by (auto simp: video_param_def i name16_def dest: set_takeWhileD)
  have "item_fine (kept (demo_pv 0) (Video ?p))"
    unfolding kept using mem(2) name by (auto simp: item_fine_def video_ok_def video_param_def b i demo_pu_def fits_def const_defs)
  then have legal: "push_legal (demo_pv 0, Video ?p)" using demo_healthy(1) by (simp add: push_legal_def) (simp add: demo_pv_def)
  have 0: "\<not> pr_locked (ws_pre demo_writer)" "pv_node (demo_pv 0) (pr_heap (ws_pre demo_writer)) = Some 0" "pr_heap (ws_pre demo_writer) 0 = None"
    "pv_buff (demo_pv 0)" "pr_max_premsec (ws_pre demo_writer) = 0" by (simp_all add: demo_writer_def empty_list_def demo_pv_def)
  obtain w where "push_media (demo_pv 0) (Video ?p) demo_writer = Some (Inr (1, w))"
    using push_media_ok [OF demo_holds 0(1,2,3,4) refl 0(5) [symmetric], of "Video ?p"] by (auto simp: expired_single)
  then have "pre_push demo_pu (strm_type PVid) (bb_chnId buf) buf demo_writer = Some (Inr (Some (Video ?p, 1), w))"
    using i mem(1) b(1) by (simp add: pre_push_def Let_def frame_media_def strm_type_def) (simp add: demo_pu_def)
  with legal show ?thesis by blast
qed

text \<open>One frame goes from the encoder thread into the pre-recording buffer.\<close>

lemma demo_passes:
  "\<exists>s0 s m. sys_start demo_alloc demo_tbls demo_q demo_writer s0 \<and> wsys_reach s0 s \<and> sy_sent s PVid = [demo_frame] \<and> results PVid s = [Some m]"
proof -
  obtain s0 where s0: "sys_start demo_alloc demo_tbls demo_q demo_writer s0" using demo_start by blast
  have k: "PVid \<in> {PVid, PAud}" by simp
  have inv: "sys_inv demo_writer s0" by (rule start_inv [OF s0 demo_mem demo_queue])
  have i0: "sy_prod s0 PVid = None" "sy_rec s0 = R_poll PVid" "sy_writer s0 = demo_writer" "sy_got s0 = []" "sy_sent s0 PVid = []" using s0 by (simp_all add: sys_start_def)
  have pend0: "pending PVid s0 = []" using results_ok(1) [OF inv k] i0 by (simp add: results_def)
  then have "\<not> waits PVid s0" using waits_full [OF inv k] i0(2) tbl_len_pos(1) [of PVid] by (auto simp: pending_def rec_buf_def)
  then obtain s1 s2 where s2: "wsys_step s0 s1" "wsys_step s1 s2" "sys_inv demo_writer s2" "sy_rec s2 = R_poll PVid" "sy_writer s2 = demo_writer"
    "sy_got s2 = []" "sy_sent s2 PVid = [demo_frame]" using put_frame [OF inv k demo_fits_pool [OF k] i0(1)] i0 by auto
  have "length (pending PVid s2) = 1" using results_ok(1) [OF s2(3) k] s2(6,7) by (simp add: results_def)
  then obtain b where b: "que_elems (po_full (sy_pool s2 PVid)) = [b]" using s2(4) by (auto simp: pending_def length_Suc_conv simp del: length_que_elems)
  have p: "pool_inv PVid (held_by PVid s2) None (sy_pool s2 PVid)" using inv_at(1) [OF s2(3) k] s2(4) by simp
  obtain p' where "get_full (sy_pool s2 PVid) = (Some b, p')" using get_full_inv(2) [OF p b] by blast
  then have "rec_step demo_pu s2 = Some ((set_pool PVid p' s2)\<lparr>sy_rec := R_has PVid b\<rparr>)" using s2(4) by (simp add: rec_step_def)
  then obtain s3 where s3: "rec_step demo_pu s2 = Some s3" "sy_rec s3 = R_has PVid b" "sy_writer s3 = demo_writer" "sy_got s3 = []" "sy_sent s3 PVid = [demo_frame]"
    using s2 by auto
  have l2: "legal_push demo_pu s2" using s2(4) by (simp add: legal_push_def)
  have inv3: "sys_inv demo_writer s3" by (rule rec_step_inv [OF s2(3) l2 s3(1)])
  have "carries PVid (the_buf s3 PVid b) demo_frame"
    using inv_at(3) [OF inv3 k] s3(2,4,5) by (simp add: frames_fine_def got_from_def pending_def)
  from demo_push_frame [OF this] obtain m w where m: "pre_push demo_pu (strm_type PVid) (bb_chnId (the_buf s3 PVid b)) (the_buf s3 PVid b) demo_writer = Some (Inr (Some (m, 1), w))"
    "push_legal (demo_pv 0, m)" by blast
  have l3: "legal_push demo_pu s3" using m by (simp add: legal_push_def s3(2,3)) (simp add: demo_pu_def)
  have "BKTREC_IsOpenBasket (ws_rec demo_writer)" by (simp add: demo_writer_def BKTREC_IsOpenBasket_def demo_world_def)
  note opened = this
  define s4 where "s4 = s3\<lparr>sy_rec := R_pushed PVid b, sy_writer := w, sy_got := [(PVid, the_buf s3 PVid b, Some m)],
      sy_pushed := sy_pushed s3 @ [((pu_pre demo_pu, m), 1)]\<rparr>"
  have s4: "rec_step demo_pu s3 = Some s4" "sy_got s4 = [(PVid, the_buf s3 PVid b, Some m)]" "sy_sent s4 PVid = [demo_frame]"
    using m(1) opened unfolding rec_step_def s3(2,3,4) by (simp_all add: s4_def s3(5))
  have "wsys_reach s0 s4" by (rule wsys_next [OF wsys_next [OF wsys_next [OF wsys_next [OF wsys_init s2(1)] s2(2)] step_rec [OF l2 s3(1)]] step_rec [OF l3 s4(1)]])
  moreover have "results PVid s4 = [Some m]" by (simp add: results_def s4(2))
  ultimately show ?thesis using s0 s4(3) by blast
qed

lemma demo_pre: "rec_rel (ws_rec demo_writer) demo_log" "holds (ws_pre demo_writer) []" "list_all item_fine []" "span [] \<le> pr_max_premsec (ws_pre demo_writer)"
  "enabled (ws_ctrl demo_writer) = enabled demo_wctrl" "states (ws_ctrl demo_writer) = states demo_wctrl" "log_frames demo_log = []"
  using demo_writer_rel(1) demo_holds by (simp_all add: span_def demo_writer_def empty_list_def log_frames_def demo_log_def)

lemma encoder_to_basket_witness:
  "\<exists>s0 s m. wsys_reach s0 s \<and> sy_sent s PVid = [demo_frame] \<and> results PVid s = [Some m] \<and> of_frame PVid demo_frame m
    \<and> map (snd \<circ> fst) (sy_pushed s) = List.map_filter (snd \<circ> snd) (sy_got s)"
proof -
  obtain s0 s m where s: "sys_start demo_alloc demo_tbls demo_q demo_writer s0" "wsys_reach s0 s" "sy_sent s PVid = [demo_frame]" "results PVid s = [Some m]"
    using demo_passes by blast
  have k: "PVid \<in> {PVid, PAud}" by simp
  from encoder_to_basket [OF s(1) demo_mem demo_queue s(2) demo_pre(1-4) k] s show ?thesis by auto
qed

lemma encoder_waits_briefly_witness:
  "\<exists>s0 s. wsys_reach s0 s \<and> waiting_run PVid s 0 s \<and> length (que_elems (po_full (sy_pool s PVid))) \<ge> 62"
proof -
  obtain s0 where s0: "sys_start demo_alloc demo_tbls demo_q demo_writer s0" using demo_start by blast
  have k: "PVid \<in> {PVid, PAud}" by simp
  have "sy_prod s0 PVid = None" using s0 by (simp add: sys_start_def)
  then obtain s where s: "wsys_reach s0 s" "waits PVid s"
    using fill_up [OF k demo_fits_pool [OF k] start_inv [OF s0 demo_mem demo_queue] wsys_init] by blast
  have w: "waiting_run PVid s 0 s" by (rule wait_start [OF s(2)])
  from encoder_waits_briefly [OF s0 demo_mem demo_queue s(1) k w] s(1) w show ?thesis by blast
qed

lemma recorder_never_stops_witness:
  "\<exists>s0. sys_start demo_alloc demo_tbls demo_q demo_writer s0 \<and> rec_step demo_pu s0 \<noteq> None"
proof -
  obtain s0 where s0: "sys_start demo_alloc demo_tbls demo_q demo_writer s0" using demo_start by blast
  then have "sy_rec s0 = R_poll PVid" by (simp add: sys_start_def)
  with recorder_never_stops [OF s0 demo_mem demo_queue wsys_init, of PVid demo_pu demo_frame] s0 show ?thesis by auto
qed

text \<open>C17: The copy for the stream server overflows.  The same frame is copied for the
  recorder and for the stream server.  The buffers of the latter have a quarter of the size,
  and nothing tests the length of the frame (the assertion after the copy compares with the
  full size, and is not in this build): a frame that
  fits the recorder's buffer and is longer than a quarter of it runs past the end of the
  other.\<close>

theorem stream_copy_overflows:
  assumes "pool_inv PVid (add_mset b held) freed pv" "pool_inv PVidStm (add_mset c held') freed' ps" "fits_pool PVid f" "buf_size PVidStm < bb_filledBufSize f"
  shows "put_filled PVid f b pv \<noteq> None \<and> put_filled PVidStm f c ps = None"
proof
  show "put_filled PVid f b pv \<noteq> None" using put_filled_inv [OF assms(1,3)] by auto
  have "tbl_ok PVidStm (po_tbl ps)" "0 \<le> c" "nat c < tbl_len PVidStm - 1"
    using assms(2) inv_range [OF assms(2), of c] by (simp_all add: pool_inv_def)
  then obtain m where "bb_bufVirtAddr (be_bitBuf (bt_tbl (po_tbl ps) ! nat c)) = Some m" "length m = buf_size PVidStm" by (auto simp: tbl_ok_def)
  then show "put_filled PVidStm f c ps = None" using assms(4)
    by (simp add: put_filled_def fill_buf_def video_pool_def WRITER_videoCopyBufDataMem2Mem_def WRITER_videoCopyBufInfo_def copy_mem_def split: option.split)
qed

definition demo_long :: bitsbuf where
  "demo_long = demo_frame\<lparr>bb_filledBufSize := 60000, bb_bufVirtAddr := Some (replicate 60000 0)\<rparr>"

lemma demo_pool: "k \<noteq> PAudPlay \<Longrightarrow> \<exists>b p. pool_inv k {#b#} None p"
proof -
  assume k: "k \<noteq> PAudPlay"
  then have l: "q_len demo_q = tbl_len k" using demo_queue(3) by (cases k) simp_all
  have "length (bt_tbl (demo_tbls k)) = tbl_len k" "\<forall>i < tbl_len k - 1. \<exists>m. demo_alloc k i = Some m \<and> length m = buf_size k"
    by (simp_all add: demo_tbls_def demo_alloc_def)
  from initPool_inv [OF this demo_queue(1,1,2,2) l l] obtain p where p: "pool_inv k {#} None p" "que_elems (po_full p) = []" by blast
  then have "que_elems (po_free p) \<noteq> []" using inv_size [OF p(1)] tbl_len_pos(1) [of k] by (auto simp flip: length_que_elems)
  then obtain b p' where "get_free p = Some (b, p')" using get_free_inv(1) [OF p(1)] by (cases "get_free p") auto
  from get_free_inv(2) [OF p(1) this] show ?thesis by auto
qed

lemma stream_copy_overflows_witness:
  "\<exists>b pv c ps. pool_inv PVid {#b#} None pv \<and> pool_inv PVidStm {#c#} None ps \<and> put_filled PVid demo_long b pv \<noteq> None \<and> put_filled PVidStm demo_long c ps = None"
proof -
  obtain b pv c ps where p: "pool_inv PVid {#b#} None pv" "pool_inv PVidStm {#c#} None ps" using demo_pool [of PVid] demo_pool [of PVidStm] by auto
  have f: "fits_pool PVid demo_long" "buf_size PVidStm < bb_filledBufSize demo_long" by (simp_all add: fits_pool_def demo_long_def const_defs)
  from stream_copy_overflows [OF p f] p show ?thesis by blast
qed

end
