(* ===== verification/Writer_Ctrl.thy ===== *)
theory Writer_Ctrl
  imports Writer_Spec
begin

text \<open>The calls by which the application starts and stops the recording of a channel and sets the
  time of pre-recording (src/app_writer.c).\<close>

section \<open>Operations\<close>

text \<open>The state of the writer with the recorder, whose disks are found by \<open>BKTREC_getTargetDisk\<close>; \<open>tops\<close> is the
  manager file of each disk.\<close>

definition WRITER_updateMountInfo :: "fmt_env \<Rightarrow> (nat \<Rightarrow> top_mgr option option) \<Rightarrow> writer \<Rightarrow> writer option" where
  "WRITER_updateMountInfo fe tops s =
    map_option (\<lambda>(st, f). s\<lparr>ws_rec := fw_rec f\<rparr>) (BKTREC_getTargetDisk fe \<lparr>fw_rec = ws_rec s, fw_top = tops\<rparr>)"

definition WRITER_isBasketOpen :: "writer \<Rightarrow> bool" where
  "WRITER_isBasketOpen s = BKTREC_IsOpenBasket (ws_rec s)"

text \<open>\<open>strlen\<close> is not 0: the name is copied, 16 characters of it at most.\<close>

definition new_name :: "int list \<Rightarrow> wr_chinfo \<Rightarrow> wr_chinfo" where
  "new_name camName i = (if takeWhile (\<lambda>x. x \<noteq> 0) camName \<noteq> [] then i\<lparr>wc_camName := name16 camName\<rparr> else i)"

text \<open>The basket is opened on the disk that has been chosen.  Result: the status, the writer.\<close>

definition open_for_save :: "fmt_env \<Rightarrow> (nat \<Rightarrow> top_mgr option option) \<Rightarrow> writer \<Rightarrow> (int \<times> writer) option" where
  "open_for_save fe tops s =
    (case WRITER_updateMountInfo fe tops s of None \<Rightarrow> None
     | Some s1 \<Rightarrow>
         let m = rw_mount (ws_rec s1); msg = (\<lambda>d. WRITER_sendMsgPipe LIB_RECORDER d ((ws_ctrl s1)\<lparr>wr_is_basket_opened := False\<rparr>)) in
         if mi_hddCnt m > 0 then
           (case BKTREC_open (fe_bkt fe) (hi_mountDiskPath (mi_hddInfo m ! mi_curHddIdx m)) (ws_rec s1) of None \<Rightarrow> None
            | Some (status, w) \<Rightarrow>
                let s2 = s1\<lparr>ws_rec := w\<rparr> in
                if status = BKT_ERR then Some (status, s2\<lparr>ws_ctrl := msg LIB_WR_OPEN_FAIL\<rparr>)
                else if status = BKT_FULL then Some (status, s2\<lparr>ws_ctrl := msg LIB_WR_HDD_FULL\<rparr>)
                else Some (1, s2\<lparr>ws_ctrl := (ws_ctrl s1)\<lparr>wr_is_basket_opened := True\<rparr>\<rparr>))
         else Some (0, s1\<lparr>ws_ctrl := WRITER_sendMsgPipe LIB_RECORDER LIB_WR_NOT_MOUNTED (ws_ctrl s1)\<rparr>))"

text \<open>Without a channel that is pre-recorded the list keeps no time; the first one that is found sets the
  flag.\<close>

definition note_presec :: "writer \<Rightarrow> writer" where
  "note_presec s =
    (if list_ex (\<lambda>i. wc_presec i > 0) (wr_chInfo (ws_ctrl s)) then s\<lparr>ws_ctrl := (ws_ctrl s)\<lparr>wr_bPreEnabled := True\<rparr>\<rparr>
     else s\<lparr>ws_ctrl := (ws_ctrl s)\<lparr>wr_bPreEnabled := False\<rparr>, ws_pre := PRELIST_set_max_duration 0 (ws_pre s)\<rparr>)"

definition WRITER_enableChSave :: "fmt_env \<Rightarrow> (nat \<Rightarrow> top_mgr option option) \<Rightarrow> int \<Rightarrow> int \<Rightarrow> int \<Rightarrow> int \<Rightarrow> int list \<Rightarrow> writer \<Rightarrow> (int \<times> writer) option" where
  "WRITER_enableChSave fe tops chId enable event_mode addAudio camName s =
    (case (if enable = 1 \<and> \<not> wr_is_basket_opened (ws_ctrl s) then open_for_save fe tops s else Some (0, s)) of None \<Rightarrow> None
     | Some (status, s1) \<Rightarrow>
         if wr_is_basket_opened (ws_ctrl s1) then
           if \<not> has_ch chId (ws_ctrl s1) then None
           else Some (1, note_presec (s1\<lparr>ws_ctrl := upd_ch chId
             (\<lambda>i. new_name camName (i\<lparr>wc_enableChSave := enable \<noteq> 0, wc_event_mode := event_mode, wc_enableAudio := addAudio\<rparr>)) (ws_ctrl s1)\<rparr>))
         else Some (status, s1))"

definition WRITER_fileSaveExit :: "bkt_env \<Rightarrow> writer \<Rightarrow> int \<times> writer" where
  "WRITER_fileSaveExit ev s =
    (let c = (ws_ctrl s)\<lparr>wr_chInfo := map (\<lambda>i. i\<lparr>wc_fileSaveState := SAVE_STATE_IDLE, wc_firstKeyframe := False\<rparr>) (wr_chInfo (ws_ctrl s))\<rparr> in
     case BKTREC_exit ev SF_STOP BKT_REC_CLOSE_BUF_FLUSH (ws_rec s) of
       (st, w) \<Rightarrow> (1, s\<lparr>ws_rec := w, ws_ctrl := if st = BKT_ERR then c else c\<lparr>wr_is_basket_opened := False\<rparr>\<rparr>))"

definition WRITER_changeCamName :: "int \<Rightarrow> int list \<Rightarrow> writer \<Rightarrow> int \<times> writer" where
  "WRITER_changeCamName chId camName s =
    (1, if 0 \<le> chId \<and> chId < int BKT_MAX_CHANNEL then s\<lparr>ws_ctrl := upd_ch chId (new_name camName) (ws_ctrl s)\<rparr> else s)"

text \<open>A pipe or NULL.\<close>

definition WRITER_setMsgPipe :: "bool \<Rightarrow> writer \<Rightarrow> writer" where
  "WRITER_setMsgPipe pipe s = (if \<not> pipe then s else s\<lparr>ws_ctrl := (ws_ctrl s)\<lparr>wr_has_pipe := True\<rparr>\<rparr>)"

text \<open>The time of one channel becomes that of the list, which all channels share.\<close>

definition WRITER_setPreRecSec :: "(nat \<Rightarrow> bkt_env) \<Rightarrow> int \<Rightarrow> int \<Rightarrow> writer \<Rightarrow> writer outcome" where
  "WRITER_setPreRecSec evs ch presec s =
    (if \<not> has_ch ch (ws_ctrl s) then Some (Inl Crash)
     else PRELIST_check_enable evs presec
       (s\<lparr>ws_ctrl := upd_ch ch (wc_presec_update (\<lambda>_. presec)) (ws_ctrl s), ws_pre := PRELIST_set_max_duration (presec * 1000) (ws_pre s)\<rparr>))"

text \<open>The start: a cleared control structure and the list of frames.\<close>

definition PREVRECORDDURATION_SEC_DEFAULT :: int where "PREVRECORDDURATION_SEC_DEFAULT = 10"

definition cleared_wctrl :: wr_ctrl where
  "cleared_wctrl = \<lparr>wr_chInfo = replicate BKT_MAX_CHANNEL \<lparr>wc_event_mode = 0, wc_enableChSave = False, wc_enableAudio = 0, wc_presec = 0, wc_postsec = 0,
     wc_firstKeyframe = False, wc_fileSaveState = SAVE_STATE_IDLE, wc_camName = replicate 16 0\<rparr>,
     wr_bPreEnabled = False, wr_is_basket_opened = False, wr_has_pipe = False, wr_msgs = []\<rparr>"

definition WRITER_create :: "writer \<Rightarrow> (int \<times> writer) outcome" where
  "WRITER_create s =
    (case PRELIST_init_instance (PREVRECORDDURATION_SEC_DEFAULT * 1000) (ws_pre s) of
       None \<Rightarrow> None | Some (Inl f) \<Rightarrow> Some (Inl f)
     | Some (Inr l) \<Rightarrow> Some (Inr (OSA_SOK, s\<lparr>ws_ctrl := cleared_wctrl, ws_pre := l\<rparr>)))"

section \<open>Starting to record\<close>

lemma getTargetDisk_keeps:
  assumes "BKTREC_getTargetDisk fe s = Some (st, s')"
  shows "fw_top s' = fw_top s" "rw_status (fw_rec s') = rw_status (fw_rec s)" "rw_disks (fw_rec s') = rw_disks (fw_rec s)"
    "rw_prevFpos (fw_rec s') = rw_prevFpos (fw_rec s)" "rw_recycle (fw_rec s') = rw_recycle (fw_rec s)"
  using assms by (auto simp: BKTREC_getTargetDisk_def choose_disk_def Let_def split: option.splits if_splits)

lemma note_presec_keeps [simp]:
  "ws_rec (note_presec s) = ws_rec s" "wr_chInfo (ws_ctrl (note_presec s)) = wr_chInfo (ws_ctrl s)" "wr_is_basket_opened (ws_ctrl (note_presec s)) = wr_is_basket_opened (ws_ctrl s)"
  "wr_msgs (ws_ctrl (note_presec s)) = wr_msgs (ws_ctrl s)" "pr_heap (ws_pre (note_presec s)) = pr_heap (ws_pre s)" "pr_head (ws_pre (note_presec s)) = pr_head (ws_pre s)"
  by (simp_all add: note_presec_def PRELIST_set_max_duration_def)

text \<open>What a writer can start with.\<close>

definition ready :: "fmt_env \<Rightarrow> (nat \<Rightarrow> top_mgr option option) \<Rightarrow> writer \<Rightarrow> writer \<Rightarrow> bool" where
  "ready fe tops s s1 \<longleftrightarrow> healthy (fe_bkt fe) \<and> rw_status (ws_rec s) \<noteq> BKT_STATUS_OPENED \<and> long (rw_prevFpos (ws_rec s)) \<and> rw_recycle (ws_rec s) \<noteq> BKT_RECYCLE_ONCE
     \<and> (\<exists>hm. rw_hddmgr (ws_rec s) = Some (Some hm) \<and> 0 \<le> hm_curid hm) \<and> (\<forall>dir i. ours fe tops dir i \<longrightarrow> disk_ok (rw_disks (ws_rec s) dir))
     \<and> WRITER_updateMountInfo fe tops s = Some s1 \<and> mi_hddCnt (rw_mount (ws_rec s1)) > 0 \<and> cur_path (ws_rec s1) \<noteq> 0
     \<and> nothing_pending (rw_disks (ws_rec s) (cur_path (ws_rec s1)))"

lemma ready_opens:
  assumes r: "ready fe tops s s1"
  shows "\<exists>w b. open_for_save fe tops s = Some (1, s1\<lparr>ws_rec := w, ws_ctrl := (ws_ctrl s)\<lparr>wr_is_basket_opened := True\<rparr>\<rparr>) \<and> ws_pre s1 = ws_pre s
    \<and> rec_rel w \<lparr>lg_past = [], lg_cur = (cur_path (ws_rec s1), b), lg_items = []\<rparr> \<and> others_same (rw_disks w) (rw_disks (ws_rec s)) (cur_path (ws_rec s1)) b"
proof -
  obtain hm where hm: "rw_hddmgr (ws_rec s) = Some (Some hm)" "0 \<le> hm_curid hm" using r by (auto simp: ready_def)
  have ev: "healthy (fe_bkt fe)" and ours: "\<forall>dir i. ours fe tops dir i \<longrightarrow> disk_ok (rw_disks (ws_rec s) dir)"
    and cnt: "mi_hddCnt (rw_mount (ws_rec s1)) > 0" and p: "cur_path (ws_rec s1) \<noteq> 0" using r by (auto simp: ready_def)
  let ?f = "\<lparr>fw_rec = ws_rec s, fw_top = tops\<rparr>"
  obtain st f where f: "BKTREC_getTargetDisk fe ?f = Some (st, f)" "s1 = s\<lparr>ws_rec := fw_rec f\<rparr>"
    using r by (auto simp: ready_def WRITER_updateMountInfo_def)
  note k = getTargetDisk_keeps [OF f(1)]
  have "mount_ok (fw_rec f)"
    by (rule getTargetDisk_chosen(2) [OF ev _ hm(2) _ f(1)]) (use hm(1) ours cnt f(2) in auto)
  then have c: "closed_ok (ws_rec s1)" using r k f(2) by (simp add: closed_ok_def ready_def)
  have np: "nothing_pending (rw_disks (ws_rec s1) (cur_path (ws_rec s1)))" using r k f(2) by (simp add: ready_def)
  obtain w b where w: "BKTREC_open (fe_bkt fe) (cur_path (ws_rec s1)) (ws_rec s1) = Some (BKT_OK, w)"
    "rec_rel w \<lparr>lg_past = [], lg_cur = (cur_path (ws_rec s1), b), lg_items = []\<rparr>" "others_same (rw_disks w) (rw_disks (ws_rec s1)) (cur_path (ws_rec s1)) b"
    using BKTREC_open_starts [OF ev c p np] by blast
  have "WRITER_updateMountInfo fe tops s = Some s1" using r by (simp add: ready_def)
  then have "open_for_save fe tops s = Some (1, s1\<lparr>ws_rec := w, ws_ctrl := (ws_ctrl s1)\<lparr>wr_is_basket_opened := True\<rparr>\<rparr>)"
    using w(1) cnt by (simp add: open_for_save_def Let_def cur_path_def disk_path_def BKT_OK_def BKT_ERR_def BKT_FULL_def)
  then show ?thesis using w(2,3) f(2) k(3) by auto
qed

text \<open>C11: Enabling the first channel.  The recorder is at rest, no system call fails, recycling is not
  \<open>BKT_RECYCLE_ONCE\<close>, the manager of the disks has been written and read, all disks of this machine are in order, the
  look at the mounted disks succeeds and chooses a disk, and no basket of this disk is
  marked as in use or stopped (a stopped one would be resumed with its frames, see C5).  The writer has not
  opened a basket yet, and the channel exists.  Then
  the call chooses the disk, opens a basket on it with no frames and reports success; the
  recorder can record, of the channels only the one that is named is enabled besides those
  that were, the state machines and the frames that wait in the pre-recording buffer stay,
  and no message is sent.\<close>

theorem enable_starts_recording:
  assumes "ready fe tops s s1" "\<not> wr_is_basket_opened (ws_ctrl s)" "has_ch ch (ws_ctrl s)" "holds (ws_pre s) xs"
  shows "\<exists>s' b. WRITER_enableChSave fe tops ch 1 ev au name s = Some (1, s') \<and> wr_is_basket_opened (ws_ctrl s')
    \<and> rec_rel (ws_rec s') \<lparr>lg_past = [], lg_cur = (cur_path (ws_rec s1), b), lg_items = []\<rparr>
    \<and> others_same (rw_disks (ws_rec s')) (rw_disks (ws_rec s)) (cur_path (ws_rec s1)) b
    \<and> enabled (ws_ctrl s') = (enabled (ws_ctrl s))(ch := True) \<and> states (ws_ctrl s') = states (ws_ctrl s) \<and> holds (ws_pre s') xs
    \<and> wr_msgs (ws_ctrl s') = wr_msgs (ws_ctrl s)"
proof -
  obtain w b where o: "open_for_save fe tops s = Some (1, s1\<lparr>ws_rec := w, ws_ctrl := (ws_ctrl s)\<lparr>wr_is_basket_opened := True\<rparr>\<rparr>)" "ws_pre s1 = ws_pre s"
    "rec_rel w \<lparr>lg_past = [], lg_cur = (cur_path (ws_rec s1), b), lg_items = []\<rparr>" "others_same (rw_disks w) (rw_disks (ws_rec s)) (cur_path (ws_rec s1)) b"
    using ready_opens [OF assms(1)] by blast
  let ?f = "\<lambda>i. new_name name (i\<lparr>wc_enableChSave := True, wc_event_mode := ev, wc_enableAudio := au\<rparr>)"
  let ?s2 = "s1\<lparr>ws_rec := w, ws_ctrl := upd_ch ch ?f ((ws_ctrl s)\<lparr>wr_is_basket_opened := True\<rparr>)\<rparr>"
  have run: "WRITER_enableChSave fe tops ch 1 ev au name s = Some (1, note_presec ?s2)"
    using o(1) assms(2,3) by (simp add: WRITER_enableChSave_def has_ch_def)
  have c: "wr_chInfo (ws_ctrl (note_presec ?s2)) = (wr_chInfo (ws_ctrl s))[nat ch := ?f (wr_chInfo (ws_ctrl s) ! nat ch)]" by (simp add: upd_ch_def)
  have "enabled (ws_ctrl (note_presec ?s2)) = (enabled (ws_ctrl s))(ch := True)" "states (ws_ctrl (note_presec ?s2)) = states (ws_ctrl s)"
    using assms(3) unfolding enabled_def states_def has_ch_def c by (auto simp: fun_eq_iff nth_list_update new_name_def)
  moreover have "holds (ws_pre (note_presec ?s2)) xs"
    using assms(4) o(2) by (auto simp: note_presec_def PRELIST_set_max_duration_def holds_def listed_def)
  moreover have "wr_msgs (ws_ctrl (note_presec ?s2)) = wr_msgs (ws_ctrl s)" "wr_is_basket_opened (ws_ctrl (note_presec ?s2))" by (simp_all add: upd_ch_def)
  ultimately show ?thesis using run o(3,4) by (intro exI [of _ "note_presec ?s2"] exI [of _ b]) simp
qed

section \<open>Stopping\<close>

text \<open>C16: Stopping forgets the frames that wait.  The call closes the basket with what the
  recorder has got; the frames in the pre-recording buffer, which are the newest ones, are
  not in it, and they stay in the buffer for the next basket.\<close>

theorem stop_leaves_frames:
  assumes "healthy ev" "rec_rel (ws_rec s) L" "holds (ws_pre s) xs"
  shows "\<exists>s' bts its ixs. WRITER_fileSaveExit ev s = (1, s') \<and> sealed SF_STOP bts its (lg_items L) ixs (rw_disks (ws_rec s')) (fst (lg_cur L)) (snd (lg_cur L))
    \<and> holds (ws_pre s') xs \<and> \<not> WRITER_isBasketOpen s' \<and> \<not> wr_is_basket_opened (ws_ctrl s') \<and> (\<forall>ch. states (ws_ctrl s') ch = SAVE_STATE_IDLE)"
proof -
  obtain ixs where op: "basket_open (lg_items L) ixs (ws_rec s)" "lg_cur L = (rc_target_path (rw_ctrl (ws_rec s)), rc_bid (rw_ctrl (ws_rec s)))"
    using assms(2) by (auto simp: rec_rel_def log_rel_def)
  have "disks_ok (ws_rec s)" using assms(2) by (simp add: rec_rel_def rec_ok_def)
  from exit_ok [OF assms(1) op(1) this, of SF_STOP] obtain w bts its where
    w: "BKTREC_exit ev SF_STOP BKT_REC_CLOSE_BUF_FLUSH (ws_rec s) = (S_OK, w)" "sealed SF_STOP bts its (lg_items L) ixs (rw_disks w) (fst (lg_cur L)) (snd (lg_cur L))"
    "rw_status w = BKT_STATUS_CLOSED" unfolding op(2) by auto
  have "states ((ws_ctrl s)\<lparr>wr_chInfo := map (\<lambda>i. i\<lparr>wc_fileSaveState := SAVE_STATE_IDLE, wc_firstKeyframe := False\<rparr>) (wr_chInfo (ws_ctrl s)), wr_is_basket_opened := False\<rparr>) ch
      = SAVE_STATE_IDLE" for ch by (simp add: states_def has_ch_def)
  then show ?thesis using w assms(3)
    by (simp add: WRITER_fileSaveExit_def S_OK_def BKT_ERR_def WRITER_isBasketOpen_def BKTREC_IsOpenBasket_def BKT_STATUS_CLOSED_def BKT_STATUS_OPENED_def) blast
qed

text \<open>The time of the list is that of the channel that was set last: setting another channel to no
  pre-recording takes it away from the first.\<close>

lemma presec_of_last_channel:
  assumes "has_ch c1 (ws_ctrl s)" "has_ch c2 (ws_ctrl s)" "c1 \<noteq> c2" "0 < t"
  shows "\<exists>s1 s2. WRITER_setPreRecSec evs c1 t s = Some (Inr s1) \<and> WRITER_setPreRecSec evs c2 0 s1 = Some (Inr s2)
    \<and> wc_presec (wr_chInfo (ws_ctrl s2) ! nat c1) = t \<and> pr_max_premsec (ws_pre s2) = 0"
proof -
  have n: "nat c1 \<noteq> nat c2" using assms(1-3) by (auto simp: has_ch_def)
  have len: "nat c1 < length (wr_chInfo (ws_ctrl s))" "nat c2 < length (wr_chInfo (ws_ctrl s))" using assms(1,2) by (auto simp: has_ch_def)
  let ?s1 = "s\<lparr>ws_ctrl := (upd_ch c1 (wc_presec_update (\<lambda>_. t)) (ws_ctrl s))\<lparr>wr_bPreEnabled := True\<rparr>, ws_pre := PRELIST_set_max_duration (t * 1000) (ws_pre s)\<rparr>"
  have 1: "WRITER_setPreRecSec evs c1 t s = Some (Inr ?s1)" using assms(1,4) by (simp add: WRITER_setPreRecSec_def PRELIST_check_enable_def)
  let ?c = "upd_ch c2 (wc_presec_update (\<lambda>_. 0)) (ws_ctrl ?s1)"
  have w: "wc_presec (wr_chInfo ?c ! nat c1) = t" using n len by (simp add: upd_ch_def)
  have "wr_chInfo ?c ! nat c1 \<in> set (wr_chInfo ?c)" using len by (simp add: upd_ch_def)
  moreover have "wc_presec (wr_chInfo ?c ! nat c1) > 0" using w assms(4) by simp
  ultimately have "list_ex (\<lambda>i. wc_presec i > 0) (wr_chInfo ?c)" unfolding list_ex_iff by blast
  then have "WRITER_setPreRecSec evs c2 0 ?s1 = Some (Inr (?s1\<lparr>ws_ctrl := ?c\<lparr>wr_bPreEnabled := True\<rparr>, ws_pre := PRELIST_set_max_duration 0 (ws_pre ?s1)\<rparr>))"
    using assms(2) by (simp add: WRITER_setPreRecSec_def PRELIST_check_enable_def has_ch_def upd_ch_def)
  then show ?thesis using 1 w by (auto simp: PRELIST_set_max_duration_def)
qed

section \<open>Witnesses\<close>

lemma stop_leaves_frames_witness:
  "\<exists>s'. WRITER_fileSaveExit demo_env demo_writer = (1, s') \<and> \<not> WRITER_isBasketOpen s' \<and> holds (ws_pre s') []"
  using stop_leaves_frames [OF demo_healthy(1) demo_pre(1,2)] by blast

text \<open>The recorder of the witness for the choice of the disk, as part of a writer.\<close>

definition demo_rest :: writer where
  "demo_rest = demo_writer\<lparr>ws_rec := (fw_rec (demo_mounted 2))\<lparr>rw_disks := \<lambda>_. demo_disk\<lparr>dk_info := None\<rparr>, rw_hddmgr := Some (Some \<lparr>hm_curid = 1, hm_hddcnt = 1\<rparr>)\<rparr>,
     ws_ctrl := demo_wctrl\<lparr>wr_is_basket_opened := False\<rparr>\<rparr>"

lemma demo_ready: "\<exists>s1. ready demo_fenv (fw_top (demo_mounted 2)) demo_rest s1"
proof -
  let ?tops = "fw_top (demo_mounted 2)" and ?s = "\<lparr>fw_rec = ws_rec demo_rest, fw_top = fw_top (demo_mounted 2)\<rparr>"
  obtain m where m: "BKTREC_updateHddInfo demo_fenv ?tops = Some m" "mi_hddCnt m > 0" "\<And>j. mounted m j \<longleftrightarrow> j = 2"
    by (rule demo_table [of 2]) (simp_all add: MAX_HDD_COUNT_def)
  have len: "length (mi_hddInfo m) = MAX_HDD_COUNT" using updateHddInfo_ok(1) [OF m(1)] by (simp add: table_ok_def)
  have nh: "\<not> hi_isMounted (mi_hddInfo m ! 1)" using m(3) [of 1] len by (simp add: mounted_def MAX_HDD_COUNT_def)
  have hl: "healthy (fe_bkt demo_fenv)" using demo_healthy(1) by (simp add: demo_fenv_def)
  obtain f where run: "BKTREC_getTargetDisk demo_fenv ?s = Some (1, f)" and f: "mi_hddInfo (rw_mount (fw_rec f)) = mi_hddInfo m" "mi_hddCnt (rw_mount (fw_rec f)) > 0"
    using m(1,2) nh hl by (auto simp: BKTREC_getTargetDisk_def choose_disk_def Let_def MAX_HDD_COUNT_def demo_rest_def)
  have "disk_ok (demo_disk\<lparr>dk_info := None\<rparr>)" using demo_disk_ok by (simp add: disk_ok_def rdb_ok_def has_files_def)
  then have ours: "\<forall>dir i. ours demo_fenv ?tops dir i \<longrightarrow> disk_ok (rw_disks (ws_rec demo_rest) dir)" by (simp add: demo_rest_def)
  have hm: "rw_hddmgr (fw_rec ?s) = Some (Some \<lparr>hm_curid = 1, hm_hddcnt = 1\<rparr>)" by (simp add: demo_rest_def)
  have "mounted (rw_mount (fw_rec f)) (mi_curHddIdx (rw_mount (fw_rec f)))"
    using getTargetDisk_chosen(2) [OF hl hm _ _ run f(2)] ours by (simp add: mount_ok_def Let_def)
  then have cur: "mi_curHddIdx (rw_mount (fw_rec f)) = 2" using m(3) f(1) by (simp add: mounted_def)
  have "ours demo_fenv ?tops (disk_path m 2) 2" using updateHddInfo_ok(1) [OF m(1)] m(3) by (simp add: table_ok_def)
  then have path: "cur_path (fw_rec f) = 5" using f(1) cur by (auto simp: cur_path_def disk_path_def ours_def demo_mounted_def split: if_splits)
  have rest: "rw_status (ws_rec demo_rest) \<noteq> BKT_STATUS_OPENED" "long (rw_prevFpos (ws_rec demo_rest))" "rw_recycle (ws_rec demo_rest) \<noteq> BKT_RECYCLE_ONCE"
    "nothing_pending (rw_disks (ws_rec demo_rest) 5)"
    by (simp_all add: demo_rest_def demo_mounted_def restart_def fits_def const_defs nothing_pending_def)
  have "WRITER_updateMountInfo demo_fenv ?tops demo_rest = Some (demo_rest\<lparr>ws_rec := fw_rec f\<rparr>)" using run by (simp add: WRITER_updateMountInfo_def)
  then have "ready demo_fenv ?tops demo_rest (demo_rest\<lparr>ws_rec := fw_rec f\<rparr>)"
    using hl hm f(2) ours rest path unfolding ready_def by auto
  then show ?thesis by blast
qed

lemma enable_starts_recording_witness:
  "\<exists>s' L. WRITER_enableChSave demo_fenv (fw_top (demo_mounted 2)) 3 1 1 0 [67] demo_rest = Some (1, s') \<and> rec_rel (ws_rec s') L \<and> lg_items L = []
    \<and> enabled (ws_ctrl s') 3"
proof -
  obtain s1 where r: "ready demo_fenv (fw_top (demo_mounted 2)) demo_rest s1" using demo_ready by blast
  have c: "\<not> wr_is_basket_opened (ws_ctrl demo_rest)" "has_ch 3 (ws_ctrl demo_rest)" by (simp_all add: demo_rest_def has_ch_def demo_wctrl_def)
  have "holds (ws_pre demo_rest) []" using demo_holds by (simp add: demo_rest_def)
  from enable_starts_recording [OF r c this, of 1 0 "[67]"] obtain s' b
    where "WRITER_enableChSave demo_fenv (fw_top (demo_mounted 2)) 3 1 1 0 [67] demo_rest = Some (1, s')"
      "rec_rel (ws_rec s') \<lparr>lg_past = [], lg_cur = (cur_path (ws_rec s1), b), lg_items = []\<rparr>"
      "enabled (ws_ctrl s') = (enabled (ws_ctrl demo_rest))(3 := True)" by blast
  then show ?thesis by (intro exI [of _ s'] exI [of _ "\<lparr>lg_past = [], lg_cur = (cur_path (ws_rec s1), b), lg_items = []\<rparr>"]) simp
qed

end
