(* ===== verification/Spec2Isabelle.thy ===== *)
theory Spec2Isabelle
  imports Osa_Buf Osa_Sem Osa_Event Osa_Msgq Mbx_Client Mem_Gop Gop_Client Av_Stream Rendezvous Ulaw_Codec Encrypt_Sock Basket_Spec Basket_Restart Prerec_Spec Writer_Ctrl
begin

text \<open>
  This library models the core of a digital video recorder (leohee/dvrapp): the
  operating-system layer its threads meet in, and the shared memory that carries
  every encoded frame from the encoder to its clients, and the basket files in which
  recordings are kept on disk and played from.

  How the program is put together.  Encoder threads hand frames to
  \<open>MemMng_Video_Write\<close>, which keeps the most recent ones of each channel in a ring
  in shared memory.  Clients (recorder, network) ask for frames by serial number;
  a client that needs a frame for longer locks it, which copies it into a cache
  where it is counted.  The threads themselves communicate over the queues,
  buffer exchanges, semaphores, events and message queues of libosa.  The recorder
  collects frames in buffers and writes them to the open basket, a file of at most
  600 MB with an index of its key frames; full baskets are closed and the next one,
  new or recycled, is opened.  Once a minute and channel it notes the place in the
  record database of the day, through which the player finds a basket by time.

  Theories, and the code they model (paths under src/):

  \<^item> Prelude: status codes of libs/libosa/include/osa.h, ring lists and cyclic
    segments, the wrap-around of an \<open>int\<close> (\<open>off32\<close>), the collection \<open>const_defs\<close>.
  \<^item> Osa_Cond: threads at a monitor.  One critical section of a blocking
    operation is a \<open>pass\<close>: it returns (with the condition it signals) or waits on
    a condition.  \<open>mon_step\<close> is the interleaving of calls, wake-ups (spurious ones
    too) and resumed passes; the locale \<open>monitor_contract\<close> proves once that no
    wake-up is lost when every pass keeps an invariant and signals what it makes
    available.
  \<^item> Osa_Fifo: the locale \<open>bounded_fifo\<close>, what both queue modules promise, as a
    refinement of a list; a sublocale of \<open>monitor_contract\<close>.
  \<^item> Osa_Que, Osa_Buf, Osa_Sem, Osa_Event, Osa_Msgq: libs/libosa/src/osa_que.c,
    osa_buf.c, osa_sem.c, osa_event.c and osa_msgq.c, all operations.  Queues and
    semaphore are interpreted as instances of the contracts; the event is not one,
    and \<open>event_lost_wakeup\<close> shows why.  The buffer exchange has its own step
    relation over two queues and the multiset of numbers its clients hold.
  \<^item> Mem_Types, Mem_Mng, Mem_Layout: include/mem_mng.h and src/mem_mng.c.  A
    channel's store is the record \<open>video_blk_info\<close>, shared memory maps addresses to
    bytes.  \<open>write_loop\<close> is the do-while loop of \<open>MemMng_Video_Write\<close>, with the
    wrap-around of its counter; it is a partial
    function whose value None means that the loop does not end, and
    \<open>Video_Write_total\<close> shows that it always ends, with the frame written, on a well
    formed store.
  \<^item> Mem_Inv: the invariant.  \<open>live\<close> lists the frames of a store, oldest first;
    \<open>store_rel\<close> says that they occupy exactly the used segment of the block ring,
    in order, and that the serial numbers of the real ones have no gap.
  \<^item> Mem_Store: what the store promises (a log of which the oldest entries are
    dropped).  Mem_Gop: the record of the last group of pictures, the error exits,
    what frames of the type -1 do to a store, a small store for the witnesses.
  \<^item> Cache_Mng: src/cache_mng.c, the cache of locked frames, on the record \<open>channel\<close>
    (a store, its cache and the memory).  Cache_Inv: its invariant (every block is
    free or owned by exactly one used entry).  Cache_Lock: locking and unlocking
    entry by entry.  Cache_Client: the contract of counted locks as the locale
    \<open>lock_table\<close>, its interpretation on the cache, and what a client gets.
  \<^item> Gop_Lock: src/gop_lock.c, locks on groups of pictures.  The loops over the frames
    of a group are proved in \<open>lock_table\<close>; \<open>balance\<close> counts the locks that no listed
    group accounts for.  Gop_Client: what the clients of the groups get.
  \<^item> Osa_Mbx: libs/libosa/src/osa_mbx.c, mailboxes of two message queues, with the
    heap of parameters; a call runs until it returns or blocks in a queue.
    Mbx_Client: the invariant \<open>mbx_ok\<close> (each message is in at most one queue or with one
    thread, and is not freed), kept by every step of any number of threads, and from it the
    request and reply round trip, with the leak of its message, the broadcast and the flush.
  \<^item> Stream: src/stream.c, the server that owns the stores, caches and locks of all
    channels: the message handler \<open>Msg_CTRL_handle\<close> with one definition per command,
    \<open>stream_write\<close>, and the serials a client holds.  Stream_Inv, Stream_Init: the
    invariant of the server and that \<open>stream_init\<close> establishes it, on all paths of the
    set-up.  Stream_Client, Stream_System: the step relation of the encoder threads, the
    message thread and the clients, and its reachable states.  Stream_Server: what a
    client gets: the bytes it copies through the offset of a reply are the bytes that
    were written, until it unlocks them.
  \<^item> Av_Stream: src/videoStream.c, src/audioStream.c, the settings of the server and
    the copies the encoders make into it.  Rendezvous: include/rendezvous.h and the
    two threads that meet in it under the mutex of the channel: a waiting client is
    served by the next write, unless a thread is woken without a cause.
  \<^item> Ulaw_Codec: src/app_alg_uLawCodec.c and src/app_audio_EncDec.c on 16 bit words.
    Encrypt_Sock: src/encrypt__sock.c, key search, powers, shuffling and the message
    round trip; Rsa_Math is the number theory it rests on.

  \<^item> Basket_Format: include/udbasket.h, the structures of the basket files as
    little-endian bytes, with their round trips.  Basket_Rec: src/basket_rec.c and
    src/udbasket.c.  Disks map basket numbers to file contents, \<open>rec_world\<close> holds them
    with the recorder's globals, \<open>bkt_env\<close> says what each system call transfers, the
    time, and what uninitialised structures hold; one definition per function,
    \<open>BKTREC_WriteVideoStream\<close> and \<open>BKTREC_WriteAudioStream\<close> on top.
  \<^item> Basket_Inv, Basket_Write, Basket_Change: the open basket as a list of \<open>item\<close>s
    (\<open>basket_open\<close>: file and buffer together hold a header and the items, the index
    lists the key frames); that flushes keep it, a write appends to it, and a change
    leaves a \<open>sealed\<close> file and opens the next.  Basket_Log: the abstract log of
    recorded frames (\<open>rec_log\<close>), the relation \<open>log_rel\<close>, the locale \<open>simulation\<close> for
    runs and its interpretation on the recorder, and the stop.
  \<^item> Basket_Play: src/basket_muldec.c, the player on the record \<open>player\<close>; its loops and
    recursions are partial functions.  Basket_Replay: what it delivers from a sealed
    basket, frame by frame and by key frames.  Basket_Rdb: the record database between
    the two, and the frames behind an end mark.  Basket_Demo: a recorder and a closed
    basket for the witnesses.  Basket_Spec: the properties of the baskets.
  \<^item> Basket_Open: the search for the end of a basket and \<open>BKTREC_open\<close> of
    src/basket_rec.c.  Basket_Resume: what the scans of index and stream find.
    Basket_Restart: a start after a stop, after a crash, and where it loses frames.
  \<^item> Basket_Disk: the rest of src/basket_rec.c, the files of a new disk, clearing a disk,
    the table of the mounted disks and the choice of one.  Basket_Setup: its loops.
    Basket_Made: a new, a cleared and a chosen disk can be recorded on.
  \<^item> Prerec: src/prerec.c, the list that holds the last seconds of all channels, as nodes on
    a heap, and the state machines of the channels.  Prerec_List: the list as a
    sequence of frames (\<open>holds\<close>), and each of its operations on it.  Prerec_Spec: runs of
    frames through the list into the log of the recorder.
  \<^item> Writer_Pool: the buffer tables and queues of src/app_writer.c and their conservation.
    Writer: the recorder thread and the encoder threads as a step relation on \<open>wsys\<close>.
    Writer_Spec: its invariant, from the encoder to the basket.  Writer_Ctrl: the calls that
    start, stop and name recordings.

  Conventions.  C ints are integers where the code keeps them far from the bounds
  (indices, sizes, serial numbers below 2^31), words where bits matter (event
  flags, bytes, time stamps).  Pointers into arrays are indices, NULL is None or 0.
  Results of the C library and of pthread calls (allocation, mutex and condition
  functions, shared memory segments) are arguments, so that every error exit is a
  branch.  A critical section is one step: the mutex makes it so.  Printing is
  left out.  The assertions of libosa (\<open>OSA_assert\<close>, \<open>OSA_assertSuccess\<close>) expand to nothing,
  with their arguments, since \<open>OSA_DEBUG_MODE\<close> is commented out in
  libs/libosa/include/osa.h: the model leaves them out likewise.

  Loops and bounds.  A loop that may not end is a partial function, whose value None
  says that it does not: \<open>write_loop\<close>, \<open>ulaw_loop\<close>, \<open>pick_primes\<close>, \<open>OSA_mbxWaitCmd\<close>,
  \<open>flush_rcv\<close>, \<open>frame_loop\<close>, \<open>prev_loop\<close>, \<open>next_hdd\<close>, \<open>BKTMD_ReadNextIFrame\<close> (where None
  also stands for an access outside an array), \<open>stream_scan\<close>, \<open>check_loop\<close>, \<open>find_last\<close>,
  \<open>free_loop\<close>, \<open>flush_loop\<close>.  \<open>Video_Write_total\<close>, \<open>push_returns\<close> and the properties of the
  player and of the recovery say when they end.  The sizes are
  the source's: 32 messages per queue, 16 video channels, 65535 samples for the
  counter of the encoder.

  Not modelled: threads that only drive devices, sockets, ALSA or the GUI, and the
  vendor layer libs/libtiv.  Of the player its separate audio control, the
  synchronisation and the file lists; the other players (basket_dec.c, basket_stm.c),
  which repeat basket_muldec.c.  Of the writer the copies for the motion detection and the
  stream server (but for their overflow), the playing of audio, thread creation and
  deletion, and the statistics.  What a short read leaves in a structure is the junk of
  the environment in every round.  A manager file counts as missing until its header is
  written, and removing the files of the record database is taken to succeed.  What
  \<open>get_dvr_disk_info\<close>, \<open>get_dvr_disk_size\<close> and \<open>statfs\<close> return, and the time of day, are
  arguments.
\<close>

end
